(* ===== verification/Xray_Prelude.thy ===== *)
theory Xray_Prelude
  imports Main "HOL-Library.Word" "HOL-Library.Monad_Syntax"
begin

unbundle bit_operations_syntax

text \<open>
  Shared vocabulary of the development: bytes and Go strings, the wrap-around of Go's
  \<open>int32\<close>, big-endian 16-bit fields, Go slice expressions, and the collections of simplification
  rules the component theories fill. A Go function that can panic returns an \<open>option\<close>, where
  \<open>None\<close> means that the call does not return normally (a panic, or a loop that never ends).
\<close>

named_theorems buf_simps "rewriting of buffer operations on well-formed buffers"
named_theorems inv_intros "preservation of the representation invariants"

type_synonym byte = "8 word"

text \<open>A Go \<open>string\<close> is a sequence of bytes; \<open>str\<close> gives the bytes of a source literal.\<close>

type_synonym gostring = "byte list"

definition str :: "string \<Rightarrow> gostring" where
  "str s = map (\<lambda>c. word_of_nat (of_char c)) s"

lemma length_str [simp]: "length (str s) = length s"
  by (simp add: str_def)

section \<open>Machine integers\<close>

text \<open>The value of a Go \<open>int32\<close> expression: two's complement wrap-around at 32 bits.\<close>

definition i32 :: "int \<Rightarrow> int" where
  "i32 x = (x + 2147483648) mod 4294967296 - 2147483648"

lemma i32_id [simp]: "- 2147483648 \<le> x \<Longrightarrow> x < 2147483648 \<Longrightarrow> i32 x = x"
  by (simp add: i32_def)

lemma i32_range: "- 2147483648 \<le> i32 x" "i32 x < 2147483648"
  unfolding i32_def
  using pos_mod_sign [of 4294967296 "x + 2147483648"] pos_mod_bound [of 4294967296 "x + 2147483648"]
  by linarith+

lemma i32_overflow: "2147483648 \<le> x \<Longrightarrow> x < 6442450944 \<Longrightarrow> i32 x = x - 4294967296"
proof -
  assume x: "2147483648 \<le> x" "x < 6442450944"
  have "(x + 2147483648) mod 4294967296 = (x + 2147483648 - 4294967296) mod 4294967296"
    by (rule minus_mod_self2 [symmetric])
  also have "\<dots> = x - 2147483648" using x by simp
  finally show ?thesis by (simp add: i32_def)
qed

text \<open>Go's \<open>int32(n)\<close> for an \<open>int\<close>, \<open>byte(x)\<close> and \<open>uint16(x)\<close> for an \<open>int32\<close>.\<close>

definition byte_of :: "int \<Rightarrow> byte" where
  "byte_of x = word_of_int x"

definition hi_byte :: "int \<Rightarrow> byte" where
  "hi_byte x = byte_of (drop_bit 8 x)"

text \<open>\<open>int32(a) << 8 | int32(b)\<close>, the big-endian 16-bit length field used throughout.\<close>

definition be_int :: "byte \<Rightarrow> byte \<Rightarrow> int" where
  "be_int a b = (push_bit 8 (uint a)) OR (uint b)"

text \<open>\<open>binary.BigEndian.PutUint16\<close> and \<open>Uint16\<close>.\<close>

definition PutUint16 :: "16 word \<Rightarrow> byte list" where
  "PutUint16 w = [ucast (drop_bit 8 w), ucast w]"

definition Uint16 :: "byte list \<Rightarrow> (16 word) option" where
  "Uint16 bs = (case bs of a # b # _ \<Rightarrow> Some (push_bit 8 (ucast a) OR ucast b) | _ \<Rightarrow> None)"

lemma length_PutUint16 [simp]: "length (PutUint16 w) = 2"
  by (simp add: PutUint16_def)

lemma Uint16_PutUint16 [simp]: "Uint16 (PutUint16 w @ rest) = Some w"
proof -
  have "push_bit 8 (ucast (ucast (drop_bit 8 w) :: byte)) OR ucast (ucast w :: byte) = w"
    by (rule bit_word_eqI) (auto simp: bit_simps)
  then show ?thesis by (simp add: Uint16_def PutUint16_def)
qed

lemma Uint16_PutUint16_Nil [simp]: "Uint16 (PutUint16 w) = Some w"
  using Uint16_PutUint16 [of w "[]"] by simp

lemma be_int_eq: "be_int a b = uint a * 256 + uint b"
proof -
  have "push_bit 8 (uint a) OR uint b = push_bit 8 (uint a) + uint b"
  proof (rule disjunctive_add [symmetric])
    fix n
    have "uint b < 256" using uint_lt2p [of b] by simp
    then have "take_bit 8 (uint b) = uint b" by (simp add: take_bit_eq_mod)
    then have "bit (uint b) n \<Longrightarrow> n < 8" by (metis bit_take_bit_iff)
    then show "\<not> bit (push_bit 8 (uint a)) n \<or> \<not> bit (uint b) n"
      by (auto simp: bit_simps)
  qed
  then show ?thesis by (simp add: be_int_def push_bit_eq_mult)
qed

lemma be_int_bytes [simp]:
  assumes "0 \<le> x" "x < 65536"
  shows "be_int (hi_byte x) (byte_of x) = x"
proof -
  have h: "uint (hi_byte x) = x div 256"
    using assms by (simp add: hi_byte_def byte_of_def drop_bit_eq_div uint_word_of_int)
  have l: "uint (byte_of x) = x mod 256"
    by (simp add: byte_of_def uint_word_of_int)
  show ?thesis by (simp add: be_int_eq h l)
qed

lemma be_int_range: "0 \<le> be_int a b" "be_int a b < 65536"
proof -
  have "uint a < 256" "uint b < 256" "0 \<le> uint a" "0 \<le> uint b"
    using uint_lt2p [of a] uint_lt2p [of b] by simp_all
  then show "0 \<le> be_int a b" "be_int a b < 65536" unfolding be_int_eq by linarith+
qed

section \<open>Slices\<close>

text \<open>
  The slice expression \<open>xs[lo:hi]\<close> of a slice whose backing array up to its capacity is
  \<open>xs\<close>: it panics unless \<open>0 \<le> lo \<le> hi \<le> cap\<close>.
\<close>

definition slice :: "'a list \<Rightarrow> int \<Rightarrow> int \<Rightarrow> 'a list option" where
  "slice xs lo hi =
     (if 0 \<le> lo \<and> lo \<le> hi \<and> hi \<le> int (length xs)
      then Some (take (nat (hi - lo)) (drop (nat lo) xs)) else None)"

definition index :: "'a list \<Rightarrow> int \<Rightarrow> 'a option" where
  "index xs i = (if 0 \<le> i \<and> i < int (length xs) then Some (xs ! nat i) else None)"

text \<open>The array after \<open>copy(xs[lo:], data)\<close>, for data that fits.\<close>

definition overwrite :: "'a list \<Rightarrow> nat \<Rightarrow> 'a list \<Rightarrow> 'a list" where
  "overwrite xs lo ds = take lo xs @ ds @ drop (lo + length ds) xs"

lemma slice_in [simp]:
  "0 \<le> lo \<Longrightarrow> lo \<le> hi \<Longrightarrow> hi \<le> int (length xs) \<Longrightarrow>
   slice xs lo hi = Some (take (nat (hi - lo)) (drop (nat lo) xs))"
  by (simp add: slice_def)

lemma length_overwrite [simp]:
  "lo + length ds \<le> length xs \<Longrightarrow> length (overwrite xs lo ds) = length xs"
  by (simp add: overwrite_def)

lemma take_overwrite_before: "k \<le> lo \<Longrightarrow> lo \<le> length xs \<Longrightarrow> take k (overwrite xs lo ds) = take k xs"
  by (simp add: overwrite_def min_def)

lemma drop_overwrite_after:
  "lo \<le> length xs \<Longrightarrow> lo + length ds \<le> k \<Longrightarrow> drop k (overwrite xs lo ds) = drop k xs"
  by (simp add: overwrite_def)

lemma take_overwrite_within:
  assumes "lo + length ds \<le> m" "m \<le> length xs"
  shows "take m (overwrite xs lo ds) = overwrite (take m xs) lo ds"
proof -
  have "min m lo = lo" "min lo m = lo" "min (length xs) lo = lo" using assms by auto
  moreover have "m - (lo + length ds) = m - lo - length ds" by simp
  ultimately show ?thesis using assms by (simp add: overwrite_def drop_take)
qed

lemma drop_overwrite_before:
  "k \<le> lo \<Longrightarrow> lo \<le> length xs \<Longrightarrow> drop k (overwrite xs lo ds) = overwrite (drop k xs) (lo - k) ds"
  by (simp add: overwrite_def drop_take)

lemma take_drop_overwrite_append:
  assumes "s \<le> e" "e + length ds \<le> length xs"
  shows "take (e + length ds - s) (drop s (overwrite xs e ds)) = take (e - s) (drop s xs) @ ds"
proof -
  have "drop s (overwrite xs e ds) = drop s (take e xs) @ ds @ drop (e + length ds) xs"
    using assms by (simp add: overwrite_def)
  moreover have "length (drop s (take e xs)) = e - s" using assms by simp
  moreover have "e + length ds - s = (e - s) + length ds" using assms by simp
  ultimately show ?thesis by (simp add: drop_take)
qed

section \<open>Lists and options\<close>

lemma take_length_eq_append: "xs = ys @ zs \<Longrightarrow> n = length ys \<Longrightarrow> take n xs = ys \<and> drop n xs = zs"
  by simp

lemma bind_Some_iff: "(Option.bind m f = Some y) \<longleftrightarrow> (\<exists>x. m = Some x \<and> f x = Some y)"
  by (cases m) auto

lemma concat_replicate_Nil [simp]: "concat (replicate n []) = []"
  by (induction n) auto

end
