(* ===== verification/Go_IO.thy ===== *)
theory Go_IO
  imports Xray_Prelude
begin

text \<open>
  Errors and the \<open>io.Reader\<close> interface. Errors are the sentinel values of the source plus
  \<open>ENew msg inner\<close> for \<open>errors.New(msg).Base(inner)\<close> of \<open>common/errors\<close>; only the literal text of a
  message is kept. A reader is passed as its \<open>Read\<close> method \<open>rd\<close>: \<open>rd r n\<close> is one call with a
  destination slice of \<open>n\<close> bytes and gives the bytes stored, the error and the reader afterwards.
  The locale \<open>io_reader\<close> is the contract the callers of \<open>io.ReadFull\<close> rely on; the
  component theories interpret it on the readers of the program.
\<close>

section \<open>Errors\<close>

datatype goerr =
    EOF | ErrUnexpectedEOF | ErrClosedPipe | ErrNoProgress
  | ErrBufferFull | errBufferFull | ErrReadTimeout | ErrNotTimeoutReader
  | ErrOther string
  | ENew string "goerr option"
  | ReadError goerr | WriteError goerr

text \<open>\<open>errors.Cause\<close>: follow \<open>Unwrap\<close> to the innermost error.\<close>

fun Cause :: "goerr \<Rightarrow> goerr" where
  "Cause (ENew m (Some e)) = Cause e"
| "Cause (ReadError e) = Cause e"
| "Cause (WriteError e) = Cause e"
| "Cause e = e"

definition is_eof :: "goerr \<Rightarrow> bool" where
  "is_eof e \<longleftrightarrow> Cause e = EOF"

definition IsReadError :: "goerr \<Rightarrow> bool" where
  "IsReadError e = (case e of ReadError _ \<Rightarrow> True | _ \<Rightarrow> False)"

definition IsWriteError :: "goerr \<Rightarrow> bool" where
  "IsWriteError e = (case e of WriteError _ \<Rightarrow> True | _ \<Rightarrow> False)"

text \<open>The root cause has nothing left to unwrap.\<close>

lemma Cause_idem [simp]: "Cause (Cause e) = Cause e"
  by (induction e rule: Cause.induct) auto

section \<open>Readers\<close>

type_synonym 'r io_read = "'r \<Rightarrow> nat \<Rightarrow> (byte list \<times> goerr option \<times> 'r) option"

text \<open>
  \<open>io.ReadFull\<close>, i.e. \<open>io.ReadAtLeast\<close> with the whole destination: it calls \<open>Read\<close> on what is
  left of the destination until it is full or an error occurs; an error after the last wanted byte
  is dropped, and \<open>EOF\<close> after some bytes becomes \<open>ErrUnexpectedEOF\<close>.
\<close>

partial_function (option) ReadLoop ::
  "'r io_read \<Rightarrow> 'r \<Rightarrow> nat \<Rightarrow> byte list \<Rightarrow> (byte list \<times> goerr option \<times> 'r) option"
where
  "ReadLoop rd r n acc =
     (if n \<le> length acc then Some (acc, None, r)
      else Option.bind (rd r (n - length acc)) (\<lambda>(bs, e, r').
        (case e of
           Some x \<Rightarrow> Some (acc @ bs, Some x, r')
         | None \<Rightarrow> ReadLoop rd r' n (acc @ bs))))"

declare ReadLoop.simps [code]

definition ReadFull :: "'r io_read \<Rightarrow> 'r \<Rightarrow> nat \<Rightarrow> (byte list \<times> goerr option \<times> 'r) option" where
  "ReadFull rd r n =
     Option.bind (ReadLoop rd r n []) (\<lambda>(bs, e, r').
       Some (bs,
             (if n \<le> length bs then None
              else if bs \<noteq> [] \<and> e = Some EOF then Some ErrUnexpectedEOF else e),
             r'))"

text \<open>
  The contract of a reader: \<open>pending\<close> is what it will still deliver and \<open>final\<close> the error it ends
  with. A call delivers a prefix of what is pending that fits the destination; an error is the final
  one and comes only when nothing is left; a call without bytes and without an error makes
  progress in \<open>weight\<close>, so that a loop over calls ends.
\<close>

locale io_reader =
  fixes rd :: "'r io_read"
    and rinv :: "'r \<Rightarrow> bool"
    and pending :: "'r \<Rightarrow> byte list"
    and final :: "'r \<Rightarrow> goerr"
    and weight :: "'r \<Rightarrow> nat"
  assumes read_ok: "rinv r \<Longrightarrow> 0 < n \<Longrightarrow>
    \<exists>bs e r'. rd r n = Some (bs, e, r') \<and> rinv r' \<and> length bs \<le> n \<and> pending r = bs @ pending r'
      \<and> final r' = final r
      \<and> (e = None \<longrightarrow> bs \<noteq> [] \<or> weight r' < weight r)
      \<and> (\<forall>x. e = Some x \<longrightarrow> x = final r \<and> pending r' = [])"
begin

text \<open>How a read of \<open>n\<close> bytes ends: all bytes, or everything pending and the final error.\<close>

definition loop_post :: "'r \<Rightarrow> nat \<Rightarrow> byte list \<Rightarrow> byte list \<Rightarrow> goerr option \<Rightarrow> 'r \<Rightarrow> bool" where
  "loop_post r n acc out e r' \<longleftrightarrow> rinv r' \<and> final r' = final r \<and> acc @ pending r = out @ pending r'
     \<and> length out \<le> n \<and> (e = None \<longrightarrow> length out = n)
     \<and> (\<forall>x. e = Some x \<longrightarrow> x = final r \<and> pending r' = [])"

lemma ReadLoop_ends:
  assumes "rinv r" "length acc \<le> n"
  shows "\<exists>out e r'. ReadLoop rd r n acc = Some (out, e, r') \<and> loop_post r n acc out e r'"
  using assms
proof (induction "n - length acc" arbitrary: r acc rule: less_induct)
  case outer: less
  show ?case using outer.prems(1)
  proof (induction "weight r" arbitrary: r rule: less_induct)
    case inner: less
    show ?case
    proof (cases "n \<le> length acc")
      case True
      then have "ReadLoop rd r n acc = Some (acc, None, r)" by (simp add: ReadLoop.simps)
      then show ?thesis using True outer.prems(2) inner.prems by (auto simp: loop_post_def)
    next
      case False
      then obtain bs e r1 where c: "rd r (n - length acc) = Some (bs, e, r1)" "rinv r1"
        "length bs \<le> n - length acc" "pending r = bs @ pending r1" "final r1 = final r"
        "e = None \<longrightarrow> bs \<noteq> [] \<or> weight r1 < weight r"
        "\<forall>x. e = Some x \<longrightarrow> x = final r \<and> pending r1 = []"
        using read_ok [OF inner.prems, of "n - length acc"] by auto
      show ?thesis
      proof (cases e)
        case (Some x)
        then have "ReadLoop rd r n acc = Some (acc @ bs, Some x, r1)"
          using False c(1) by (simp add: ReadLoop.simps)
        then show ?thesis using c Some False by (auto simp: loop_post_def)
      next
        case None
        have eq: "ReadLoop rd r n acc = ReadLoop rd r1 n (acc @ bs)"
          using False c(1) None by (subst ReadLoop.simps) simp
        have "\<exists>out e r'. ReadLoop rd r1 n (acc @ bs) = Some (out, e, r')
               \<and> loop_post r1 n (acc @ bs) out e r'"
        proof (cases "bs = []")
          case True
          then show ?thesis using inner.hyps [of r1] c None by simp
        next
          case nonempty: False
          then have "0 < length bs" by simp
          then have "n - length (acc @ bs) < n - length acc" "length (acc @ bs) \<le> n"
            unfolding length_append using False c(3) by linarith+
          then show ?thesis using outer.hyps [of "acc @ bs" r1] c(2) by blast
        qed
        then show ?thesis unfolding eq using c by (auto simp: loop_post_def)
      qed
    qed
  qed
qed

text \<open>Enough bytes pending: \<open>io.ReadFull\<close> returns exactly the wanted prefix.\<close>

lemma ReadFull_enough:
  assumes "rinv r" "pending r = d @ rest" "length d = n"
  shows "\<exists>r'. ReadFull rd r n = Some (d, None, r') \<and> rinv r' \<and> pending r' = rest \<and> final r' = final r"
proof -
  obtain out e r' where l: "ReadLoop rd r n [] = Some (out, e, r')" "loop_post r n [] out e r'"
    using ReadLoop_ends [OF assms(1), of "[]" n] by auto
  have "length out = n"
  proof (cases e)
    case None
    then show ?thesis using l(2) by (simp add: loop_post_def)
  next
    case (Some x)
    then have "out = d @ rest" using l(2) assms(2) by (simp add: loop_post_def)
    then have "length out = length d + length rest" by simp
    then show ?thesis using l(2) assms(3) by (simp add: loop_post_def)
  qed
  then have "out = d" "pending r' = rest" using l(2) assms(2,3) by (auto simp: loop_post_def)
  then show ?thesis using l assms(3) by (auto simp: ReadFull_def loop_post_def)
qed

text \<open>
  Too few bytes: everything pending is consumed and the error is the reader's final one, with
  \<open>EOF\<close> in the middle reported as \<open>ErrUnexpectedEOF\<close>.
\<close>

lemma ReadFull_short:
  assumes "rinv r" "length (pending r) < n"
  shows "\<exists>r'. ReadFull rd r n = Some (pending r,
           Some (if pending r \<noteq> [] \<and> final r = EOF then ErrUnexpectedEOF else final r), r')
         \<and> rinv r' \<and> pending r' = [] \<and> final r' = final r"
proof -
  obtain out e r' where l: "ReadLoop rd r n [] = Some (out, e, r')" "loop_post r n [] out e r'"
    using ReadLoop_ends [OF assms(1), of "[]" n] by auto
  have "e \<noteq> None" using l(2) assms(2) by (auto simp: loop_post_def)
  then have "e = Some (final r)" "pending r' = []" "out = pending r"
    using l(2) by (auto simp: loop_post_def)
  then show ?thesis using l assms(2) by (auto simp: ReadFull_def loop_post_def)
qed

text \<open>\<open>io.ReadFull\<close> returns on every input.\<close>

lemma ReadFull_total: "rinv r \<Longrightarrow> ReadFull rd r n \<noteq> None"
  using ReadLoop_ends [of r "[]" n] by (auto simp: ReadFull_def)

end

section \<open>A byte stream\<close>

text \<open>
  A connection as its reads are cut by the network: the chunks still to arrive (possibly empty,
  possibly longer than the destination) and the error after the last one.
\<close>

record conn =
  chunks :: "byte list list"
  closing :: goerr

definition conn_read :: "conn io_read" where
  "conn_read c n =
     (case chunks c of
        [] \<Rightarrow> Some ([], Some (closing c), c)
      | d # ds \<Rightarrow>
          (if length d \<le> n then Some (d, None, c\<lparr>chunks := ds\<rparr>)
           else Some (take n d, None, c\<lparr>chunks := drop n d # ds\<rparr>)))"

interpretation conn_rd: io_reader conn_read "\<lambda>_. True" "\<lambda>c. concat (chunks c)" closing
  "\<lambda>c. length (chunks c)"
proof unfold_locales
  fix c :: conn and n :: nat
  assume "0 < n"
  then show "\<exists>bs e r'. conn_read c n = Some (bs, e, r') \<and> True \<and> length bs \<le> n
      \<and> concat (chunks c) = bs @ concat (chunks r') \<and> closing r' = closing c
      \<and> (e = None \<longrightarrow> bs \<noteq> [] \<or> length (chunks r') < length (chunks c))
      \<and> (\<forall>x. e = Some x \<longrightarrow> x = closing c \<and> concat (chunks r') = [])"
    by (cases "chunks c") (auto simp: conn_read_def)
qed

end
