(* ===== verification/Net_Address.thy ===== *)
theory Net_Address
  imports Go_IO
begin

text \<open>
  The address types of \<open>common/net\<close>: networks, ports and port lists (\<open>network.go\<close>, \<open>port.go\<close>),
  addresses and their normalisation (\<open>address.go\<close>), destinations and their conversions to and from
  the addresses of Go's \<open>net\<close> and \<open>net/netip\<close> packages (\<open>destination.go\<close>). An \<open>Address\<close> interface value is
  an \<open>Address option\<close>, \<open>None\<close> for nil. \<open>ParseIP\<close> is the standard library's parser of literal
  addresses. Logging calls have no effect on the results and are left out.
\<close>

section \<open>Networks\<close>

datatype Network = Network_Unknown | Network_TCP | Network_UDP | Network_UNIX

text \<open>The numbers of the protobuf enumeration.\<close>

fun Network_value :: "Network \<Rightarrow> int" where
  "Network_value Network_Unknown = 0"
| "Network_value Network_TCP = 2"
| "Network_value Network_UDP = 3"
| "Network_value Network_UNIX = 4"

fun SystemString :: "Network \<Rightarrow> string" where
  "SystemString Network_TCP = ''tcp''"
| "SystemString Network_UDP = ''udp''"
| "SystemString Network_UNIX = ''unix''"
| "SystemString Network_Unknown = ''unknown''"

fun HasNetwork :: "Network list \<Rightarrow> Network \<Rightarrow> bool" where
  "HasNetwork [] n = False"
| "HasNetwork (x # xs) n = (if x = n then True else HasNetwork xs n)"

lemma HasNetwork_iff: "HasNetwork xs n \<longleftrightarrow> n \<in> set xs"
  by (induction xs) auto

section \<open>Ports\<close>

type_synonym Port = "16 word"

definition PortFromBytes :: "byte list \<Rightarrow> Port option" where
  "PortFromBytes bs = Uint16 bs"

definition PortFromInt :: "32 word \<Rightarrow> goerr + Port" where
  "PortFromInt val = (if val > 65535 then Inl (ENew ''invalid port range: '' None) else Inr (ucast val))"

text \<open>\<open>strconv.ParseUint(s, 10, 32)\<close>.\<close>

definition is_digit :: "byte \<Rightarrow> bool" where
  "is_digit c \<longleftrightarrow> 48 \<le> c \<and> c \<le> 57"

definition decimal_value :: "gostring \<Rightarrow> nat" where
  "decimal_value s = foldl (\<lambda>n c. 10 * n + (unat c - 48)) 0 s"

definition ParseUint32 :: "gostring \<Rightarrow> (32 word) option" where
  "ParseUint32 s =
     (if s = [] \<or> \<not> list_all is_digit s \<or> decimal_value s \<ge> 2 ^ 32 then None
      else Some (word_of_nat (decimal_value s)))"

definition PortFromString :: "gostring \<Rightarrow> goerr + Port" where
  "PortFromString s =
     (case ParseUint32 s of
        None \<Rightarrow> Inl (ENew ''invalid port range: '' None)
      | Some val \<Rightarrow> PortFromInt val)"

record PortRange =
  pr_From :: "32 word"
  pr_To :: "32 word"

definition FromPort :: "PortRange \<Rightarrow> Port" where
  "FromPort p = ucast (pr_From p)"

definition ToPort :: "PortRange \<Rightarrow> Port" where
  "ToPort p = ucast (pr_To p)"

definition PortRange_Contains :: "PortRange \<Rightarrow> Port \<Rightarrow> bool" where
  "PortRange_Contains p port \<longleftrightarrow> FromPort p \<le> port \<and> port \<le> ToPort p"

definition SinglePortRange :: "Port \<Rightarrow> PortRange" where
  "SinglePortRange p = \<lparr>pr_From = ucast p, pr_To = ucast p\<rparr>"

record MemoryPortRange =
  mpr_From :: Port
  mpr_To :: Port

definition MemoryPortRange_Contains :: "MemoryPortRange \<Rightarrow> Port \<Rightarrow> bool" where
  "MemoryPortRange_Contains r port \<longleftrightarrow> mpr_From r \<le> port \<and> port \<le> mpr_To r"

fun PortListFromProto :: "PortRange list \<Rightarrow> MemoryPortRange list" where
  "PortListFromProto [] = []"
| "PortListFromProto (r # rs) =
     \<lparr>mpr_From = ucast (pr_From r), mpr_To = ucast (pr_To r)\<rparr> # PortListFromProto rs"

fun MemoryPortList_Contains :: "MemoryPortRange list \<Rightarrow> Port \<Rightarrow> bool" where
  "MemoryPortList_Contains [] port = False"
| "MemoryPortList_Contains (pr # rest) port =
     (if MemoryPortRange_Contains pr port then True else MemoryPortList_Contains rest port)"

text \<open>
  \<open>PortList.Ports\<close>: the loop variable is a \<open>uint32\<close> that wraps, so the inner loop over a range that
  ends at the largest value never leaves it.
\<close>

partial_function (option) Ports_loop :: "32 word \<Rightarrow> 32 word \<Rightarrow> (32 word) list \<Rightarrow> (32 word) list option"
where
  "Ports_loop i hi ports = (if i \<le> hi then Ports_loop (i + 1) hi (ports @ [i]) else Some ports)"

declare Ports_loop.simps [code]

fun Ports_from :: "PortRange list \<Rightarrow> (32 word) list \<Rightarrow> (32 word) list option" where
  "Ports_from [] ports = Some ports"
| "Ports_from (r # rs) ports =
     Option.bind (Ports_loop (pr_From r) (pr_To r) ports) (Ports_from rs)"

definition Ports :: "PortRange list \<Rightarrow> (32 word) list option" where
  "Ports l = Ports_from l []"

section \<open>Literal IP addresses\<close>

text \<open>
  \<open>net.ParseIP\<close> through \<open>netip.ParseAddr\<close>: dotted decimal with four octets without leading zeros, or
  up to eight groups of hexadecimal digits with at most one ellipsis and an optional trailing IPv4
  part. The result is the 16-byte form; an address with a zone is not an IP.
\<close>

text \<open>The loop of \<open>parseIPv4Fields\<close>: \<open>prev\<close> is the previous byte, \<open>octets\<close> the octets stored.\<close>

fun ipv4_fields :: "gostring \<Rightarrow> byte option \<Rightarrow> nat \<Rightarrow> nat \<Rightarrow> byte list \<Rightarrow> byte list option" where
  "ipv4_fields [] prev val digs octets =
     (if length octets < 3 then None else Some (octets @ [word_of_nat val]))"
| "ipv4_fields (c # cs) prev val digs octets =
     (if is_digit c then
        (if digs = 1 \<and> val = 0 then None
         else let val' = val * 10 + (unat c - 48)
              in if val' > 255 then None else ipv4_fields cs (Some c) val' (digs + 1) octets)
      else if c = 46 then
        (if prev = None \<or> cs = [] \<or> prev = Some 46 then None
         else if length octets = 3 then None
         else ipv4_fields cs (Some c) 0 0 (octets @ [word_of_nat val]))
      else None)"

definition hex_digit :: "byte \<Rightarrow> nat option" where
  "hex_digit c =
     (if 48 \<le> c \<and> c \<le> 57 then Some (unat c - 48)
      else if 97 \<le> c \<and> c \<le> 102 then Some (unat c - 87)
      else if 65 \<le> c \<and> c \<le> 70 then Some (unat c - 55)
      else None)"

text \<open>One group: its value, the digits read and what follows; \<open>None\<close> for more than four digits.\<close>

fun hex_group :: "gostring \<Rightarrow> nat \<Rightarrow> nat \<Rightarrow> (nat \<times> nat \<times> gostring) option" where
  "hex_group [] acc off = Some (acc, off, [])"
| "hex_group (c # cs) acc off =
     (case hex_digit c of
        None \<Rightarrow> Some (acc, off, c # cs)
      | Some d \<Rightarrow> if off > 3 then None else hex_group cs (acc * 16 + d) (off + 1))"

text \<open>
  The group loop with fuel for the at most eight groups: \<open>ip\<close> is the prefix written, \<open>ell\<close> the position
  of the ellipsis. It gives what is written, the ellipsis and the unread rest.
\<close>

fun ipv6_groups ::
  "nat \<Rightarrow> gostring \<Rightarrow> byte list \<Rightarrow> nat option \<Rightarrow> (byte list \<times> nat option \<times> gostring) option" where
  "ipv6_groups 0 s ip ell = Some (ip, ell, s)"
| "ipv6_groups (Suc k) s ip ell =
     (case hex_group s 0 0 of
        None \<Rightarrow> None
      | Some (acc, off, s') \<Rightarrow>
          if off = 0 then None
          else if s' \<noteq> [] \<and> hd s' = 46 then
            (if (ell = None \<and> length ip \<noteq> 12) \<or> length ip + 4 > 16 then None
             else case ipv4_fields s None 0 0 [] of
                    None \<Rightarrow> None
                  | Some fs \<Rightarrow> Some (ip @ fs, ell, []))
          else let ip' = ip @ [word_of_nat (acc div 256), word_of_nat acc]
            in (case s' of
                  [] \<Rightarrow> Some (ip', ell, [])
                | c # s1 \<Rightarrow>
                    if c \<noteq> 58 \<or> s1 = [] then None
                    else if hd s1 = 58 then
                      (if ell \<noteq> None then None
                       else if tl s1 = [] then Some (ip', Some (length ip'), [])
                       else ipv6_groups k (tl s1) ip' (Some (length ip')))
                    else ipv6_groups k s1 ip' ell))"

definition ipv6_finish :: "byte list \<times> nat option \<times> gostring \<Rightarrow> byte list option" where
  "ipv6_finish t =
     (case t of (ip, ell, rest) \<Rightarrow>
       if rest \<noteq> [] then None
       else if length ip < 16 then
         (case ell of
            None \<Rightarrow> None
          | Some e \<Rightarrow> Some (take e ip @ replicate (16 - length ip) 0 @ drop e ip))
       else if ell \<noteq> None then None else Some ip)"

definition parseIPv6 :: "gostring \<Rightarrow> byte list option" where
  "parseIPv6 s =
     (if 37 \<in> set s then None
      else if take 2 s = [58, 58] then
        (if drop 2 s = [] then Some (replicate 16 0)
         else Option.bind (ipv6_groups 8 (drop 2 s) [] (Some 0)) ipv6_finish)
      else Option.bind (ipv6_groups 8 s [] None) ipv6_finish)"

fun ParseIP_scan :: "gostring \<Rightarrow> gostring \<Rightarrow> byte list option" where
  "ParseIP_scan s [] = None"
| "ParseIP_scan s (c # cs) =
     (if c = 46 then map_option (\<lambda>f. replicate 10 0 @ [255, 255] @ f) (ipv4_fields s None 0 0 [])
      else if c = 58 then parseIPv6 s
      else if c = 37 then None
      else ParseIP_scan s cs)"

definition ParseIP :: "gostring \<Rightarrow> byte list option" where
  "ParseIP s = ParseIP_scan s s"

section \<open>Addresses\<close>

datatype Address =
    ipv4Address "byte list"
  | ipv6Address "byte list"
  | domainAddress gostring

type_synonym AddressFamily = byte

definition AddressFamilyIPv4 :: AddressFamily where "AddressFamilyIPv4 = 0"
definition AddressFamilyIPv6 :: AddressFamily where "AddressFamilyIPv6 = 1"
definition AddressFamilyDomain :: AddressFamily where "AddressFamilyDomain = 2"

definition IsIP :: "AddressFamily \<Rightarrow> bool" where
  "IsIP af \<longleftrightarrow> af = AddressFamilyIPv4 \<or> af = AddressFamilyIPv6"

definition IsDomain :: "AddressFamily \<Rightarrow> bool" where
  "IsDomain af \<longleftrightarrow> af = AddressFamilyDomain"

fun Family :: "Address \<Rightarrow> AddressFamily" where
  "Family (ipv4Address _) = AddressFamilyIPv4"
| "Family (ipv6Address _) = AddressFamilyIPv6"
| "Family (domainAddress _) = AddressFamilyDomain"

fun Address_IP :: "Address \<Rightarrow> byte list" where
  "Address_IP (ipv4Address a) = a"
| "Address_IP (ipv6Address a) = a"
| "Address_IP (domainAddress _) = []"

fun Address_Domain :: "Address \<Rightarrow> gostring" where
  "Address_Domain (domainAddress d) = d"
| "Address_Domain _ = []"

definition DomainAddress :: "gostring \<Rightarrow> Address" where
  "DomainAddress d = domainAddress d"

text \<open>The prefix \<open>::ffff:0:0/96\<close> of the IPv4 addresses mapped into IPv6.\<close>

definition is_mapped :: "byte list \<Rightarrow> bool" where
  "is_mapped ip \<longleftrightarrow> take 10 ip = replicate 10 0 \<and> take 2 (drop 10 ip) = [255, 255]"

definition IPAddress :: "byte list \<Rightarrow> Address option" where
  "IPAddress ip =
     (if length ip = 4 then Some (ipv4Address ip)
      else if length ip = 16 then
        (if is_mapped ip then Some (ipv4Address (drop 12 ip)) else Some (ipv6Address ip))
      else None)"

text \<open>\<open>netip.Addr\<close> as far as the source uses it; the zone of an IPv6 address plays no role.\<close>

datatype netip_Addr = Addr_invalid | Addr_v4 "byte list" | Addr_v6 "byte list" gostring

definition netip_Unmap :: "netip_Addr \<Rightarrow> netip_Addr" where
  "netip_Unmap a = (case a of Addr_v6 b z \<Rightarrow> if is_mapped b then Addr_v4 (drop 12 b) else a | _ \<Rightarrow> a)"

definition IPAddressFromAddr :: "netip_Addr \<Rightarrow> Address option" where
  "IPAddressFromAddr a =
     (if a = Addr_invalid then None
      else (case netip_Unmap a of
              Addr_v4 b \<Rightarrow> Some (ipv4Address b)
            | Addr_v6 b z \<Rightarrow> Some (ipv6Address b)
            | Addr_invalid \<Rightarrow> None))"

definition isAlphaNum :: "byte \<Rightarrow> bool" where
  "isAlphaNum c \<longleftrightarrow> (48 \<le> c \<and> c \<le> 57) \<or> (97 \<le> c \<and> c \<le> 122) \<or> (65 \<le> c \<and> c \<le> 90)"

text \<open>
  \<open>strings.TrimSpace\<close> on the ASCII white space. A Unicode space (a multi-byte sequence) around the
  address is not covered; such a string is no valid host name in either form.
\<close>

definition is_space :: "byte \<Rightarrow> bool" where
  "is_space c \<longleftrightarrow> c = 9 \<or> c = 10 \<or> c = 11 \<or> c = 12 \<or> c = 13 \<or> c = 32"

definition TrimSpace :: "gostring \<Rightarrow> gostring" where
  "TrimSpace s = rev (dropWhile is_space (rev (dropWhile is_space s)))"

text \<open>
  \<open>ParseAddress\<close>. The slice \<open>addr[1 : lenAddr-1]\<close> and the index \<open>addr[len(addr)-1]\<close> can panic: for the
  one-byte string \<open>[\<close> the test on \<open>]\<close> fails first, and after the brackets are removed the guard
  \<open>lenAddr > 0\<close> protects the index.
\<close>

definition unbracket :: "gostring \<Rightarrow> gostring" where
  "unbracket addr =
     (if addr \<noteq> [] \<and> hd addr = 91 \<and> last addr = 93
      then butlast (tl addr) else addr)"

definition ParseAddress :: "gostring \<Rightarrow> Address option" where
  "ParseAddress addr0 =
     (let addr1 = unbracket addr0;
          addr2 = (if addr1 \<noteq> [] \<and> (\<not> isAlphaNum (hd addr1) \<or> \<not> isAlphaNum (last addr1))
                   then TrimSpace addr1 else addr1)
      in case ParseIP addr2 of
           Some ip \<Rightarrow> IPAddress ip
         | None \<Rightarrow> Some (DomainAddress addr2))"

text \<open>\<open>IPOrDomain\<close> is the protobuf form of an address; a nil message is \<open>None\<close> of the option type.\<close>

datatype IPOrDomain = IPOrDomain_Ip "byte list" | IPOrDomain_Domain gostring | IPOrDomain_unset

definition AsAddress :: "IPOrDomain option \<Rightarrow> Address option" where
  "AsAddress d =
     (case d of
        None \<Rightarrow> None
      | Some (IPOrDomain_Ip ip) \<Rightarrow> IPAddress ip
      | Some (IPOrDomain_Domain s) \<Rightarrow> Some (DomainAddress s)
      | Some IPOrDomain_unset \<Rightarrow> None)"

definition NewIPOrDomain :: "Address option \<Rightarrow> IPOrDomain option" where
  "NewIPOrDomain addr =
     (case addr of
        None \<Rightarrow> None
      | Some a \<Rightarrow>
          if Family a = AddressFamilyDomain then Some (IPOrDomain_Domain (Address_Domain a))
          else Some (IPOrDomain_Ip (Address_IP a)))"

section \<open>Destinations\<close>

record Destination =
  d_Address :: "Address option"
  d_Port :: Port
  d_Network :: Network

definition TCPDestination :: "Address option \<Rightarrow> Port \<Rightarrow> Destination" where
  "TCPDestination a p = \<lparr>d_Address = a, d_Port = p, d_Network = Network_TCP\<rparr>"

definition UDPDestination :: "Address option \<Rightarrow> Port \<Rightarrow> Destination" where
  "UDPDestination a p = \<lparr>d_Address = a, d_Port = p, d_Network = Network_UDP\<rparr>"

definition UnixDestination :: "Address option \<Rightarrow> Destination" where
  "UnixDestination a = \<lparr>d_Address = a, d_Port = 0, d_Network = Network_UNIX\<rparr>"

definition zero_Destination :: Destination where
  "zero_Destination = \<lparr>d_Address = None, d_Port = 0, d_Network = Network_Unknown\<rparr>"

definition Destination_IsValid :: "Destination \<Rightarrow> bool" where
  "Destination_IsValid d \<longleftrightarrow> d_Network d \<noteq> Network_Unknown"

datatype NetAddr = TCPAddr "byte list" int | UDPAddr "byte list" int | UnixAddr gostring string

text \<open>\<open>Port(addr.Port)\<close> truncates the \<open>int\<close> of the standard library's address.\<close>

fun DestinationFromAddr :: "NetAddr \<Rightarrow> Destination" where
  "DestinationFromAddr (TCPAddr ip port) = TCPDestination (IPAddress ip) (word_of_int port)"
| "DestinationFromAddr (UDPAddr ip port) = UDPDestination (IPAddress ip) (word_of_int port)"
| "DestinationFromAddr (UnixAddr name net) = UnixDestination (Some (DomainAddress name))"

definition RawNetAddr :: "Destination \<Rightarrow> NetAddr option" where
  "RawNetAddr d =
     (case d_Address d of
        None \<Rightarrow> None
      | Some a \<Rightarrow>
          (case d_Network d of
             Network_TCP \<Rightarrow> if IsIP (Family a) then Some (TCPAddr (Address_IP a) (uint (d_Port d))) else None
           | Network_UDP \<Rightarrow> if IsIP (Family a) then Some (UDPAddr (Address_IP a) (uint (d_Port d))) else None
           | Network_UNIX \<Rightarrow>
               if IsDomain (Family a)
               then Some (UnixAddr (Address_Domain a) (SystemString (d_Network d))) else None
           | Network_Unknown \<Rightarrow> None))"

definition RawNetAddrPort :: "Destination \<Rightarrow> (netip_Addr \<times> Port) option" where
  "RawNetAddrPort d =
     (if d_Network d \<noteq> Network_UDP then None
      else (case d_Address d of
              Some (ipv4Address a) \<Rightarrow> Some (Addr_v4 a, d_Port d)
            | Some (ipv6Address a) \<Rightarrow> Some (Addr_v6 a [], d_Port d)
            | _ \<Rightarrow> None))"

section \<open>Port lists\<close>

lemma Ports_loop_range:
  assumes "hi \<noteq> - 1"
  shows "Ports_loop i hi ports = Some (ports @ map word_of_nat [unat i..<Suc (unat hi)])"
proof (induction "Suc (unat hi) - unat i" arbitrary: i ports)
  case 0
  then have "\<not> i \<le> hi" by (simp add: word_le_nat_alt)
  then show ?case using 0 by (simp add: Ports_loop.simps)
next
  case (Suc k)
  then have le: "i \<le> hi" by (simp add: word_le_nat_alt)
  have "unat hi \<noteq> unat (- 1 :: 32 word)" using assms by (simp add: word_unat_eq_iff)
  then have "unat hi < 2 ^ 32 - 1"
    using unsigned_less [of hi, where ?'a = nat] by (simp add: unsigned_minus_1_eq_mask mask_eq_exp_minus_1)
  then have "unat i + 1 < 2 ^ 32" using le by (simp add: word_le_nat_alt)
  then have u: "unat (i + 1) = Suc (unat i)" by (simp add: unat_word_ariths)
  have "k = Suc (unat hi) - unat (i + 1)" using Suc.hyps(2) u by simp
  then have "Ports_loop (i + 1) hi (ports @ [i])
      = Some ((ports @ [i]) @ map word_of_nat [unat (i + 1)..<Suc (unat hi)])"
    by (rule Suc.hyps(1))
  moreover have "[unat i..<Suc (unat hi)] = unat i # [Suc (unat i)..<Suc (unat hi)]"
    using le by (simp add: upt_conv_Cons word_le_nat_alt del: upt_Suc)
  ultimately show ?case using le u by (subst Ports_loop.simps) (simp del: upt_Suc)
qed

lemma Ports_loop_wraps: "Ports_loop i (- 1) ports = None"
proof (rule ccontr)
  assume "Ports_loop i (- 1) ports \<noteq> None"
  then obtain out where ret: "Ports_loop i (- 1) ports = Some out" by auto
  have "(- 1 :: 32 word) \<noteq> - 1"
  proof (rule Ports_loop.raw_induct [where P = "\<lambda>i hi ports out. hi \<noteq> - 1", OF _ ret])
    fix f :: "32 word \<Rightarrow> 32 word \<Rightarrow> (32 word) list \<Rightarrow> (32 word) list option" and i hi ports out
    assume IH: "\<And>i hi ports out. f i hi ports = Some out \<Longrightarrow> hi \<noteq> - 1"
      and eq: "(if i \<le> hi then f (i + 1) hi (ports @ [i]) else Some ports) = Some out"
    then show "hi \<noteq> - 1" by (auto split: if_splits)
  qed
  then show False by simp
qed

text \<open>The numbers a range stands for.\<close>

definition range_numbers :: "PortRange \<Rightarrow> (32 word) list" where
  "range_numbers r = map word_of_nat [unat (pr_From r)..<Suc (unat (pr_To r))]"

lemma Ports_loop_numbers:
  "pr_To r \<noteq> - 1 \<Longrightarrow> Ports_loop (pr_From r) (pr_To r) ports = Some (ports @ range_numbers r)"
  by (simp add: Ports_loop_range range_numbers_def del: upt_Suc)

lemma Ports_from_spec:
  "Ports_from l ports =
     (if \<exists>r \<in> set l. pr_To r = - 1 then None else Some (ports @ concat (map range_numbers l)))"
proof (induction l arbitrary: ports)
  case Nil
  show ?case by simp
next
  case (Cons r l)
  show ?case
  proof (cases "pr_To r = - 1")
    case True
    then show ?thesis by (simp add: Ports_loop_wraps)
  next
    case False
    then show ?thesis by (simp add: Ports_loop_numbers Cons)
  qed
qed

lemma range_numbers_iff: "x \<in> set (range_numbers r) \<longleftrightarrow> pr_From r \<le> x \<and> x \<le> pr_To r"
proof
  assume "x \<in> set (range_numbers r)"
  then obtain n where n: "unat (pr_From r) \<le> n" "n \<le> unat (pr_To r)" "x = word_of_nat n"
    by (auto simp: range_numbers_def simp del: upt_Suc)
  then have "n < 2 ^ 32" using unsigned_less [of "pr_To r", where ?'a = nat] by simp
  then have "unat x = n" using n(3) by (simp add: unsigned_of_nat take_bit_nat_eq_self)
  then show "pr_From r \<le> x \<and> x \<le> pr_To r" using n by (simp add: word_le_nat_alt)
next
  assume "pr_From r \<le> x \<and> x \<le> pr_To r"
  then have "unat x \<in> set [unat (pr_From r)..<Suc (unat (pr_To r))]" by (auto simp: word_le_nat_alt)
  then have "word_of_nat (unat x) \<in> set (range_numbers r)"
    unfolding range_numbers_def by (metis image_eqI list.set_map)
  then show "x \<in> set (range_numbers r)" by simp
qed

lemma MemoryPortList_Contains_iff:
  "MemoryPortList_Contains l p \<longleftrightarrow> (\<exists>r \<in> set l. mpr_From r \<le> p \<and> p \<le> mpr_To r)"
  by (induction l) (auto simp: MemoryPortRange_Contains_def)

lemma set_PortListFromProto:
  "set (PortListFromProto l) = (\<lambda>r. \<lparr>mpr_From = ucast (pr_From r), mpr_To = ucast (pr_To r)\<rparr>) ` set l"
  by (induction l) auto

lemma ucast_port_le:
  fixes a :: "32 word" and p :: Port
  assumes "a \<le> 65535"
  shows "ucast a \<le> p \<longleftrightarrow> a \<le> ucast p" "p \<le> ucast a \<longleftrightarrow> ucast p \<le> a"
proof -
  have "unat a < 2 ^ 16" using assms by (simp add: word_le_nat_alt)
  then have u: "unat (ucast a :: Port) = unat a"
    by (simp add: unsigned_ucast_eq take_bit_nat_eq_self)
  have v: "unat (ucast p :: 32 word) = unat p"
    using unsigned_less [of p, where ?'a = nat] by (simp add: unsigned_ucast_eq take_bit_nat_eq_self)
  show "ucast a \<le> p \<longleftrightarrow> a \<le> ucast p" "p \<le> ucast a \<longleftrightarrow> ucast p \<le> a"
    by (simp_all add: word_le_nat_alt u v)
qed

section \<open>Well-formed addresses\<close>

text \<open>
  What the fixed-size array types of the source guarantee, plus the normal form \<open>IPAddress\<close>
  establishes: a mapped IPv4 address is never kept in its IPv6 form.
\<close>

fun wf_Address :: "Address \<Rightarrow> bool" where
  "wf_Address (ipv4Address a) \<longleftrightarrow> length a = 4"
| "wf_Address (ipv6Address a) \<longleftrightarrow> length a = 16 \<and> \<not> is_mapped a"
| "wf_Address (domainAddress d) \<longleftrightarrow> True"

lemma IPAddress_wf [inv_intros]: "IPAddress ip = Some a \<Longrightarrow> wf_Address a"
  by (auto simp: IPAddress_def split: if_splits)

lemma IPAddress_Family: "IPAddress ip = Some a \<Longrightarrow> IsIP (Family a)"
  by (auto simp: IPAddress_def IsIP_def split: if_splits)

lemma IPAddress_of_wf [simp]:
  "wf_Address a \<Longrightarrow> IsIP (Family a) \<Longrightarrow> IPAddress (Address_IP a) = Some a"
  by (cases a) (auto simp: IPAddress_def IsIP_def AddressFamilyDomain_def AddressFamilyIPv4_def
    AddressFamilyIPv6_def)

lemma family_distinct [simp]:
  "AddressFamilyIPv4 \<noteq> AddressFamilyIPv6" "AddressFamilyIPv4 \<noteq> AddressFamilyDomain"
  "AddressFamilyIPv6 \<noteq> AddressFamilyDomain" "AddressFamilyDomain \<noteq> AddressFamilyIPv4"
  "AddressFamilyIPv6 \<noteq> AddressFamilyIPv4" "AddressFamilyDomain \<noteq> AddressFamilyIPv6"
  by (simp_all add: AddressFamilyIPv4_def AddressFamilyIPv6_def AddressFamilyDomain_def)

section \<open>Lengths of parsed addresses\<close>

lemma ipv4_fields_length: "ipv4_fields s prev val digs fs = Some out \<Longrightarrow> length fs \<le> 3 \<Longrightarrow> length out = 4"
  by (induction s prev val digs fs rule: ipv4_fields.induct) (auto simp: Let_def split: if_splits)

lemma ipv6_groups_length:
  "ipv6_groups k s ip ell = Some (out, ell', rest) \<Longrightarrow> length ip + 2 * k = 16 \<Longrightarrow>
   (\<forall>e. ell = Some e \<longrightarrow> e \<le> length ip) \<Longrightarrow>
   length out \<le> 16 \<and> (\<forall>e. ell' = Some e \<longrightarrow> e \<le> length out)"
proof (induction k s ip ell rule: ipv6_groups.induct)
  case (1 s ip ell)
  then show ?case by auto
next
  case (2 k s ip ell)
  obtain acc off s' where g: "hex_group s 0 0 = Some (acc, off, s')"
    using 2(3) by (auto split: option.splits)
  show ?case
  proof (cases "s' \<noteq> [] \<and> hd s' = 46")
    case True
    then obtain fs where "ipv4_fields s None 0 0 [] = Some fs" "out = ip @ fs" "ell' = ell" "length ip + 4 \<le> 16"
      using 2(3) g by (auto split: if_splits option.splits)
    then show ?thesis using ipv4_fields_length [of s None 0 0 "[]" fs] 2(5) by force
  next
    case False
    define ip' where "ip' = ip @ [word_of_nat (acc div 256), word_of_nat acc :: byte]"
    have ell: "\<forall>e. ell = Some e \<longrightarrow> e \<le> length ip'" and len: "length ip' + 2 * k = 16"
      using 2(4,5) by (auto simp: ip'_def)
    have "off \<noteq> 0" using 2(3) g by (auto split: if_splits)
    show ?thesis
    proof (cases s')
      case Nil
      then show ?thesis using 2(3) g False \<open>off \<noteq> 0\<close> ell len by (auto simp: ip'_def Let_def)
    next
      case (Cons c s1)
      then have "c = 58" "s1 \<noteq> []" using 2(3) g False \<open>off \<noteq> 0\<close> by (auto simp: Let_def split: if_splits)
      note IH1 = 2(1) [OF g refl refl \<open>off \<noteq> 0\<close> _ ip'_def Cons]
      note IH2 = 2(2) [OF g refl refl \<open>off \<noteq> 0\<close> _ ip'_def Cons]
      show ?thesis using 2(3) g False Cons \<open>off \<noteq> 0\<close> \<open>c = 58\<close> \<open>s1 \<noteq> []\<close> IH1 IH2 ell len
        by (auto simp: Let_def ip'_def [symmetric] split: if_splits)
    qed
  qed
qed

lemma ipv6_finish_length:
  "ipv6_finish (ip, ell, rest) = Some out \<Longrightarrow> length ip \<le> 16 \<Longrightarrow> (\<forall>e. ell = Some e \<longrightarrow> e \<le> length ip) \<Longrightarrow>
   length out = 16"
  by (auto simp: ipv6_finish_def min_def split: if_splits option.splits)

lemma parseIPv6_length: "parseIPv6 s = Some ip \<Longrightarrow> length ip = 16"
  unfolding parseIPv6_def
  by (auto simp: bind_Some_iff split: if_splits dest!: ipv6_groups_length intro: ipv6_finish_length)

lemma ParseIP_scan_length: "ParseIP_scan s cs = Some ip \<Longrightarrow> length ip = 16"
  by (induction s cs rule: ParseIP_scan.induct)
    (auto split: if_splits dest: parseIPv6_length ipv4_fields_length)

lemma ParseIP_length: "ParseIP s = Some ip \<Longrightarrow> length ip = 16"
  unfolding ParseIP_def by (rule ParseIP_scan_length)

lemma IPAddress_16: "length ip = 16 \<Longrightarrow> \<exists>a. IPAddress ip = Some a"
  by (simp add: IPAddress_def)

lemma ParseAddress_Some: "\<exists>a. ParseAddress s = Some a \<and> wf_Address a"
proof -
  have "\<exists>a. (case ParseIP t of Some ip \<Rightarrow> IPAddress ip | None \<Rightarrow> Some (DomainAddress t)) = Some a \<and> wf_Address a" for t
    using ParseIP_length [of t] IPAddress_16 IPAddress_wf by (fastforce simp: DomainAddress_def split: option.splits)
  then show ?thesis unfolding ParseAddress_def Let_def by blast
qed

section \<open>Properties\<close>

text \<open>
  \<open>PortList.Ports\<close> lists the numbers of its ranges in order, except that it never returns when a range ends at
  \<open>0xFFFFFFFF\<close>: the 32-bit loop variable wraps around before it passes the bound.
\<close>

theorem ports_enumerates:
  "Ports l = (if \<exists>r. r \<in> set l \<and> pr_To r = 0xFFFFFFFF then None else Some (concat (map range_numbers l)))"
proof -
  have "(0xFFFFFFFF :: 32 word) = - 1" by simp
  then show ?thesis unfolding Ports_def Ports_from_spec by auto
qed

text \<open>
  The two readings of a port list agree: for ranges of valid ports, the list \<open>Ports\<close> expands to and the
  predicate \<open>MemoryPortList.Contains\<close> accept the same ports.
\<close>

theorem ports_agree_with_contains:
  assumes "\<forall>r \<in> set l. pr_From r \<le> 65535 \<and> pr_To r \<le> 65535"
  shows "\<exists>ps. Ports l = Some ps \<and> (\<forall>p. MemoryPortList_Contains (PortListFromProto l) p \<longleftrightarrow> ucast p \<in> set ps)"
proof -
  have "\<not> (- 1 :: 32 word) \<le> 65535" by (simp add: word_le_def unsigned_minus_1_eq_mask mask_eq_exp_minus_1)
  then have "\<not> (\<exists>r \<in> set l. pr_To r = - 1)" using assms by metis
  then have "Ports l = Some (concat (map range_numbers l))" by (simp add: Ports_def Ports_from_spec)
  moreover have "MemoryPortList_Contains (PortListFromProto l) p \<longleftrightarrow> ucast p \<in> set (concat (map range_numbers l))" for p
    using assms by (auto simp: MemoryPortList_Contains_iff set_PortListFromProto range_numbers_iff ucast_port_le)
  ultimately show ?thesis by blast
qed

theorem ports_agree_with_contains_witness:
  "\<exists>ps. Ports [\<lparr>pr_From = 80, pr_To = 81\<rparr>] = Some ps
     \<and> (\<forall>p. MemoryPortList_Contains (PortListFromProto [\<lparr>pr_From = 80, pr_To = 81\<rparr>]) p \<longleftrightarrow> ucast p \<in> set ps)"
  using ports_agree_with_contains [of "[\<lparr>pr_From = 80, pr_To = 81\<rparr>]"] by simp

text \<open>
  \<open>ParseAddress\<close> never gives a nil address and always a normalised one: an IPv4 address mapped into IPv6 is
  never kept in its 16-byte form, and the address is a domain exactly when the (unbracketed, trimmed) text is no IP.
\<close>

theorem parse_address_total: "\<exists>a. ParseAddress s = Some a \<and> wf_Address a"
  by (rule ParseAddress_Some)

text \<open>
  A destination survives the trip through the standard library's address types: what \<open>RawNetAddr\<close> gives is
  turned back into the same destination by \<open>DestinationFromAddr\<close>.
\<close>

theorem destination_roundtrip:
  assumes "d_Address d = Some a" "wf_Address a" "d_Network d = Network_UNIX \<longrightarrow> d_Port d = 0" "RawNetAddr d = Some n"
  shows "DestinationFromAddr n = d"
  using assms by (cases a; cases d; cases "d_Network d")
    (auto simp: RawNetAddr_def IsIP_def IsDomain_def TCPDestination_def UDPDestination_def UnixDestination_def
      DomainAddress_def IPAddress_def split: if_splits)

theorem destination_roundtrip_witness:
  "DestinationFromAddr (TCPAddr [10, 0, 0, 1] 443)
     = \<lparr>d_Address = Some (ipv4Address [10, 0, 0, 1]), d_Port = 443, d_Network = Network_TCP\<rparr>"
  by (rule destination_roundtrip [of _ "ipv4Address [10, 0, 0, 1]"]) (simp_all add: RawNetAddr_def IsIP_def)

end
