(* ===== verification/Net_Text.thy ===== *)
theory Net_Text
  imports Net_Address
begin

text \<open>
  The textual forms of \<open>common/net\<close>: printing of ports, addresses and destinations (the \<open>String\<close> and \<open>NetAddr\<close> methods), and
  \<open>ParseDestination\<close>. \<open>strconv.Itoa\<close>, \<open>strconv.Atoi\<close>, \<open>net.IP.String\<close> and \<open>net.SplitHostPort\<close> are the standard library's.
\<close>

section \<open>Numbers\<close>

definition dec_char :: "nat \<Rightarrow> byte" where
  "dec_char d = word_of_nat (48 + d)"

fun Itoa :: "nat \<Rightarrow> gostring" where
  "Itoa n = (if n < 10 then [dec_char n] else Itoa (n div 10) @ [dec_char (n mod 10)])"

definition v6_digit :: "nat \<Rightarrow> byte" where
  "v6_digit d = (if d < 10 then word_of_nat (48 + d) else word_of_nat (87 + d))"

fun hex_text :: "nat \<Rightarrow> gostring" where
  "hex_text n = (if n < 16 then [v6_digit n] else hex_text (n div 16) @ [v6_digit (n mod 16)])"

declare Itoa.simps [simp del] hex_text.simps [simp del]

text \<open>\<open>strconv.Atoi\<close>: an optional sign and digits, in the range of a 64-bit integer.\<close>

definition Atoi :: "gostring \<Rightarrow> int option" where
  "Atoi s =
     (let neg = (s \<noteq> [] \<and> hd s = 45);
          ds = (if s \<noteq> [] \<and> (hd s = 45 \<or> hd s = 43) then tl s else s);
          v = (if neg then - int (decimal_value ds) else int (decimal_value ds))
      in if ds = [] \<or> \<not> list_all is_digit ds \<or> v < - (2 ^ 63) \<or> v \<ge> 2 ^ 63 then None else Some v)"

section \<open>Addresses\<close>

fun join :: "gostring \<Rightarrow> gostring list \<Rightarrow> gostring" where
  "join sep [] = []"
| "join sep [x] = x"
| "join sep (x # y # ys) = x @ sep @ join sep (y # ys)"

definition v4_text :: "byte list \<Rightarrow> gostring" where
  "v4_text a = join [46] (map (\<lambda>b. Itoa (unat b)) a)"

fun v6_groups :: "byte list \<Rightarrow> nat list" where
  "v6_groups (a # b # bs) = (unat a * 256 + unat b) # v6_groups bs"
| "v6_groups _ = []"

text \<open>The first of the longest runs of at least two zero groups, as its bounds; (255, 255) if there is none.\<close>

definition zero_run :: "nat list \<Rightarrow> nat \<times> nat" where
  "zero_run gs = foldl (\<lambda>(s, e) i.
       let l = length (takeWhile (\<lambda>g. g = 0) (drop i gs))
       in if l \<ge> 2 \<and> l > e - s then (i, i + l) else (s, e)) (255, 255) [0 ..< 8]"

definition v6_text :: "byte list \<Rightarrow> gostring" where
  "v6_text a =
     (let gs = v6_groups a; hs = map hex_text gs
      in case zero_run gs of (s, e) \<Rightarrow>
           if s < 8 then join [58] (take s hs) @ [58, 58] @ join [58] (drop e hs) else join [58] hs)"

fun Address_String :: "Address \<Rightarrow> gostring" where
  "Address_String (ipv4Address a) = v4_text a"
| "Address_String (ipv6Address a) = [91] @ v6_text a @ [93]"
| "Address_String (domainAddress d) = d"

definition Port_String :: "Port \<Rightarrow> gostring" where
  "Port_String p = Itoa (unat p)"

section \<open>Destinations\<close>

definition Destination_NetAddr :: "Destination \<Rightarrow> gostring" where
  "Destination_NetAddr d =
     (case d_Address d of
        None \<Rightarrow> []
      | Some a \<Rightarrow>
          if d_Network d = Network_TCP \<or> d_Network d = Network_UDP then Address_String a @ [58] @ Port_String (d_Port d)
          else if d_Network d = Network_UNIX then Address_String a
          else [])"

definition Destination_String :: "Destination \<Rightarrow> gostring" where
  "Destination_String d =
     (case d_Network d of
        Network_TCP \<Rightarrow> str ''tcp:''
      | Network_UDP \<Rightarrow> str ''udp:''
      | Network_UNIX \<Rightarrow> str ''unix:''
      | Network_Unknown \<Rightarrow> str ''unknown:'') @ Destination_NetAddr d"

text \<open>\<open>net.SplitHostPort\<close>; the errors are the texts of its \<open>AddrError\<close>.\<close>

definition missing_port :: goerr where "missing_port = ErrOther ''missing port in address''"

definition last_colon :: "gostring \<Rightarrow> nat option" where
  "last_colon s = (if 58 \<in> set s then Some (length s - 1 - length (takeWhile (\<lambda>c. c \<noteq> 58) (rev s))) else None)"

definition first_at :: "byte \<Rightarrow> gostring \<Rightarrow> nat option" where
  "first_at c s = (if c \<in> set s then Some (length (takeWhile (\<lambda>x. x \<noteq> c) s)) else None)"

definition split_rest :: "gostring \<Rightarrow> gostring \<Rightarrow> nat \<Rightarrow> nat \<Rightarrow> nat \<Rightarrow> goerr + gostring \<times> gostring" where
  "split_rest hostport host i j k =
     (if 91 \<in> set (drop j hostport) then Inl (ErrOther ''unexpected [ in address'')
      else if 93 \<in> set (drop k hostport) then Inl (ErrOther ''unexpected ] in address'')
      else Inr (host, drop (i + 1) hostport))"

definition SplitHostPort :: "gostring \<Rightarrow> goerr + gostring \<times> gostring" where
  "SplitHostPort hostport =
     (case last_colon hostport of
        None \<Rightarrow> Inl missing_port
      | Some i \<Rightarrow>
          if hd hostport = 91 then
            (case first_at 93 hostport of
               None \<Rightarrow> Inl (ErrOther ''missing ] in address'')
             | Some en \<Rightarrow>
                 if en + 1 = length hostport then Inl missing_port
                 else if en + 1 = i then split_rest hostport (take (en - 1) (drop 1 hostport)) i 1 (en + 1)
                 else if hostport ! (en + 1) = 58 then Inl (ErrOther ''too many colons in address'')
                 else Inl missing_port)
          else if 58 \<in> set (take i hostport) then Inl (ErrOther ''too many colons in address'')
          else split_rest hostport (take i hostport) i 0 0)"

text \<open>The destination comes back with the error too.\<close>

definition parse_host_port :: "Destination \<Rightarrow> gostring \<Rightarrow> Destination \<times> goerr option" where
  "parse_host_port d dest =
     (case SplitHostPort dest of
        Inl e \<Rightarrow> (d, Some e)
      | Inr (hstr, pstr) \<Rightarrow>
          let d1 = (if hstr \<noteq> [] then d\<lparr>d_Address := ParseAddress hstr\<rparr> else d)
          in if pstr \<noteq> [] then
               (case PortFromString pstr of
                  Inl e \<Rightarrow> (d1, Some e)
                | Inr port \<Rightarrow> (d1\<lparr>d_Port := port\<rparr>, None))
             else (d1, None))"

definition ParseDestination :: "gostring \<Rightarrow> Destination \<times> goerr option" where
  "ParseDestination dest =
     (let d = \<lparr>d_Address = IPAddress [0, 0, 0, 0], d_Port = 0, d_Network = Network_Unknown\<rparr>
      in if take 4 dest = str ''tcp:'' then parse_host_port (d\<lparr>d_Network := Network_TCP\<rparr>) (drop 4 dest)
         else if take 4 dest = str ''udp:'' then parse_host_port (d\<lparr>d_Network := Network_UDP\<rparr>) (drop 4 dest)
         else if take 5 dest = str ''unix:'' then (UnixDestination (Some (DomainAddress (drop 5 dest))), None)
         else parse_host_port d dest)"

section \<open>Digits\<close>

lemma unat_byte: "n < 256 \<Longrightarrow> unat (word_of_nat n :: byte) = n"
  by (simp add: unsigned_of_nat take_bit_nat_eq_self)

lemma unat_byte_less: "unat (b :: byte) < 256"
  using unsigned_less [of b, where ?'a = nat] by simp

lemma unat_dec_char: "k < 10 \<Longrightarrow> unat (dec_char k) = 48 + k"
  unfolding dec_char_def by (rule unat_byte) simp

lemma is_digit_unat: "is_digit c \<longleftrightarrow> 48 \<le> unat c \<and> unat c \<le> 57"
  by (simp add: is_digit_def word_le_nat_alt)

lemma is_digit_dec_char: "k < 10 \<Longrightarrow> is_digit (dec_char k)"
  by (simp add: is_digit_unat unat_dec_char)

lemma Itoa_digits: "list_all is_digit (Itoa n) \<and> Itoa n \<noteq> []"
proof (induction n rule: less_induct)
  case (less n)
  then show ?case using less [of "n div 10"] by (subst (1 2) Itoa.simps) (auto simp: is_digit_dec_char)
qed

lemma decimal_value_snoc: "decimal_value (s @ [c]) = 10 * decimal_value s + (unat c - 48)"
  by (simp add: decimal_value_def)

lemma decimal_value_Itoa [simp]: "decimal_value (Itoa n) = n"
proof (induction n rule: less_induct)
  case (less n)
  show ?case
  proof (cases "n < 10")
    case True
    then show ?thesis using unat_dec_char [of n] by (subst Itoa.simps) (simp add: decimal_value_def)
  next
    case False
    then have "decimal_value (Itoa (n div 10)) = n div 10" by (intro less) simp
    then show ?thesis using False unat_dec_char [of "n mod 10"] by (subst Itoa.simps) (simp add: decimal_value_snoc)
  qed
qed

lemma PortFromString_String: "PortFromString (Port_String p) = Inr p"
proof -
  have p: "unat p < 65536" using unsigned_less [of p, where ?'a = nat] by simp
  have w: "n < 2 ^ 32 \<Longrightarrow> unat (word_of_nat n :: 32 word) = n" for n by (simp add: unsigned_of_nat take_bit_nat_eq_self)
  have v: "unat p < 2 ^ 32" "unat (word_of_nat (unat p) :: 32 word) = unat p" using p by simp (rule w, use p in simp)
  then have "ParseUint32 (Port_String p) = Some (word_of_nat (unat p))"
    using Itoa_digits [of "unat p"] by (simp add: ParseUint32_def Port_String_def)
  moreover have "\<not> (65535 :: 32 word) < word_of_nat (unat p)" using v(2) p unfolding word_less_nat_alt by simp
  moreover have "ucast (word_of_nat (unat p) :: 32 word) = p"
    by simp (rule bit_word_eqI, auto simp: bit_simps)
  ultimately show ?thesis by (simp add: PortFromString_def PortFromInt_def)
qed

text \<open>The first digit of a positive number is not zero.\<close>

lemma Itoa_first: "0 < n \<Longrightarrow> \<exists>c cs. Itoa n = c # cs \<and> 48 < unat c"
proof (induction n rule: less_induct)
  case (less n)
  show ?case
  proof (cases "n < 10")
    case True
    then show ?thesis using less.prems unat_dec_char [of n] by (subst Itoa.simps) simp
  next
    case False
    then have "0 < n div 10" "n div 10 < n" by (simp_all add: div_greater_zero_iff)
    then obtain c cs where "Itoa (n div 10) = c # cs" "48 < unat c" using less.IH [of "n div 10"] by auto
    then show ?thesis using False by (subst Itoa.simps) simp
  qed
qed

section \<open>IPv4\<close>

lemma ipv4_digits:
  "list_all is_digit ds \<Longrightarrow> 0 < val \<Longrightarrow> foldl (\<lambda>n c. 10 * n + (unat c - 48)) val ds \<le> 255 \<Longrightarrow>
    ipv4_fields (ds @ rest) prev val digs octs
    = ipv4_fields rest (if ds = [] then prev else Some (last ds)) (foldl (\<lambda>n c. 10 * n + (unat c - 48)) val ds) (digs + length ds) octs"
proof (induction ds arbitrary: prev val digs)
  case (Cons c ds)
  let ?v = "10 * val + (unat c - 48)"
  have mono: "v \<le> foldl (\<lambda>n c. 10 * n + (unat c - 48)) v xs" for v and xs :: gostring
  proof (induction xs arbitrary: v)
    case (Cons x xs)
    have "v \<le> 10 * v + (unat x - 48)" by simp
    also have "\<dots> \<le> foldl (\<lambda>n c. 10 * n + (unat c - 48)) (10 * v + (unat x - 48)) xs" by (rule Cons.IH)
    finally show ?case by simp
  qed simp
  have "?v \<le> 255" using mono [of ?v ds] Cons.prems(3) by simp
  then show ?case using Cons.prems Cons.IH [of ?v "Some c" "digs + 1"] by (simp add: Let_def mult.commute)
qed simp

lemma ipv4_number:
  assumes "n < 256"
  shows "\<exists>k. ipv4_fields (Itoa n @ rest) prev 0 0 octs = ipv4_fields rest (Some (last (Itoa n))) n k octs"
proof (cases "n = 0")
  case True
  have z: "Itoa 0 = [dec_char 0]" by (simp add: Itoa.simps)
  have c: "is_digit (dec_char 0)" "unat (dec_char 0) - 48 = 0" using is_digit_dec_char [of 0] unat_dec_char [of 0] by simp_all
  show ?thesis unfolding True z using c by (simp add: Let_def) blast
next
  case False
  then obtain c cs where i: "Itoa n = c # cs" "48 < unat c" using Itoa_first [of n] by auto
  have d: "is_digit c" "list_all is_digit cs" using Itoa_digits [of n] i by simp_all
  have v: "foldl (\<lambda>n c. 10 * n + (unat c - 48)) (unat c - 48) cs = n" using decimal_value_Itoa [of n] i by (simp add: decimal_value_def)
  have "unat c - 48 \<le> 9" using d(1) unfolding is_digit_unat by linarith
  then have "ipv4_fields (Itoa n @ rest) prev 0 0 octs = ipv4_fields (cs @ rest) (Some c) (unat c - 48) 1 octs"
    using i(1) d(1) by (simp add: Let_def)
  also have "\<dots> = ipv4_fields rest (Some (last (Itoa n))) n (1 + length cs) octs"
    using ipv4_digits [OF d(2), of "unat c - 48" rest "Some c" 1 octs] i v assms by simp
  finally show ?thesis by blast
qed

lemma ipv4_dot:
  "prev \<noteq> None \<Longrightarrow> prev \<noteq> Some 46 \<Longrightarrow> rest \<noteq> [] \<Longrightarrow> length octs < 3 \<Longrightarrow>
    ipv4_fields (46 # rest) prev val digs octs = ipv4_fields rest (Some 46) 0 0 (octs @ [word_of_nat val])"
  by (cases prev) (simp_all add: is_digit_def)

lemma Itoa_last: "last (Itoa n) \<noteq> 46"
  using Itoa_digits [of n] by (auto simp: is_digit_def list_all_iff dest!: bspec [OF _ last_in_set])

lemma v4_text_eq:
  "v4_text [a, b, c, d] = Itoa (unat a) @ 46 # Itoa (unat b) @ 46 # Itoa (unat c) @ 46 # Itoa (unat d)"
  by (simp add: v4_text_def)

lemma ipv4_fields_text: "ipv4_fields (v4_text [a, b, c, d]) None 0 0 [] = Some [a, b, c, d]"
proof -
  have step: "\<exists>k. ipv4_fields (Itoa (unat x) @ 46 # Itoa n @ rest) prev 0 0 octs = ipv4_fields (Itoa n @ rest) (Some 46) 0 k (octs @ [x]) \<and> k = 0"
    if "length octs < 3" for x :: byte and n rest prev octs
  proof -
    obtain k where "ipv4_fields (Itoa (unat x) @ 46 # Itoa n @ rest) prev 0 0 octs
        = ipv4_fields (46 # Itoa n @ rest) (Some (last (Itoa (unat x)))) (unat x) k octs"
      using ipv4_number [OF unat_byte_less] by blast
    also have "\<dots> = ipv4_fields (Itoa n @ rest) (Some 46) 0 0 (octs @ [word_of_nat (unat x)])"
      using Itoa_digits [of n] Itoa_last that by (intro ipv4_dot) auto
    finally show ?thesis by simp
  qed
  obtain k where k: "ipv4_fields (Itoa (unat d) @ []) (Some 46) 0 0 [a, b, c] = ipv4_fields [] (Some (last (Itoa (unat d)))) (unat d) k [a, b, c]"
    using ipv4_number [OF unat_byte_less] by blast
  show ?thesis unfolding v4_text_eq
    using step [of "[]" a "unat b" "46 # Itoa (unat c) @ 46 # Itoa (unat d)" None]
      step [of "[a]" b "unat c" "46 # Itoa (unat d)" "Some 46"] step [of "[a, b]" c "unat d" "[]" "Some 46"] k
    by simp
qed

section \<open>IPv6\<close>

lemma hex_digit_v6_digit: "d < 16 \<Longrightarrow> hex_digit (v6_digit d) = Some d"
proof -
  assume d: "d < 16"
  have "unat (v6_digit d) = (if d < 10 then 48 + d else 87 + d)"
    unfolding v6_digit_def using d by (cases "d < 10") (simp_all only: if_True if_False, rule unat_byte, simp, rule unat_byte, simp)
  then show ?thesis using d by (auto simp: hex_digit_def word_le_nat_alt)
qed

definition is_hex :: "byte \<Rightarrow> bool" where
  "is_hex c \<longleftrightarrow> hex_digit c \<noteq> None"

definition hex_value :: "nat \<Rightarrow> gostring \<Rightarrow> nat" where
  "hex_value v ds = foldl (\<lambda>a c. a * 16 + the (hex_digit c)) v ds"

lemma is_hex_v6_digit: "d < 16 \<Longrightarrow> is_hex (v6_digit d)"
  by (simp add: is_hex_def hex_digit_v6_digit)

lemma hex_text_ok:
  "list_all is_hex (hex_text n) \<and> hex_text n \<noteq> [] \<and> hex_value 0 (hex_text n) = n \<and> (0 < k \<longrightarrow> n < 16 ^ k \<longrightarrow> length (hex_text n) \<le> k)"
proof (induction n arbitrary: k rule: less_induct)
  case (less n)
  show ?case
  proof (cases "n < 16")
    case True
    then show ?thesis by (subst (1 2 3 4) hex_text.simps) (simp add: is_hex_v6_digit hex_value_def hex_digit_v6_digit)
  next
    case False
    have "length (hex_text (n div 16)) + 1 \<le> k" if k: "0 < k" "n < 16 ^ k"
    proof -
      obtain j where j: "k = Suc j" using k(1) by (cases k) auto
      have "0 < j" using False k(2) j by (cases j) auto
      moreover have "n div 16 < 16 ^ j" using k(2) j by (simp add: less_mult_imp_div_less mult.commute)
      ultimately show ?thesis using less [of "n div 16" j] False j by simp
    qed
    then show ?thesis using less [of "n div 16" k] False
      by (subst (1 2 3 4) hex_text.simps) (simp add: is_hex_v6_digit hex_value_def hex_digit_v6_digit)
  qed
qed

lemmas hex_text_simps [simp] = hex_text_ok [THEN conjunct1] hex_text_ok [THEN conjunct2, THEN conjunct1]
  hex_text_ok [THEN conjunct2, THEN conjunct2, THEN conjunct1]

lemma is_hex_not: "is_hex c \<Longrightarrow> c \<noteq> 46 \<and> c \<noteq> 58 \<and> c \<noteq> 37 \<and> c \<noteq> 91 \<and> c \<noteq> 93 \<and> \<not> is_space c"
  by (auto simp: is_hex_def hex_digit_def is_space_def split: if_splits)

lemma hex_group_digits:
  "list_all is_hex ds \<Longrightarrow> off + length ds \<le> 4 \<Longrightarrow> rest = [] \<or> \<not> is_hex (hd rest) \<Longrightarrow>
    hex_group (ds @ rest) acc off = Some (hex_value acc ds, off + length ds, rest)"
proof (induction ds arbitrary: acc off)
  case Nil
  then show ?case by (cases rest) (auto simp: hex_value_def is_hex_def)
next
  case (Cons c ds)
  then show ?case by (auto simp: is_hex_def hex_value_def)
qed

lemma hex_group_text:
  "g < 65536 \<Longrightarrow> rest = [] \<or> \<not> is_hex (hd rest) \<Longrightarrow> hex_group (hex_text g @ rest) 0 0 = Some (g, length (hex_text g), rest)"
  using hex_group_digits [of "hex_text g" 0 rest 0] hex_text_ok [of g 4] by simp

definition group_bytes :: "nat list \<Rightarrow> byte list" where
  "group_bytes gs = concat (map (\<lambda>g. [word_of_nat (g div 256), word_of_nat g]) gs)"

lemma length_group_bytes [simp]: "length (group_bytes gs) = 2 * length gs"
  by (induction gs) (simp_all add: group_bytes_def)

lemma group_bytes_simps [simp]:
  "group_bytes [] = []" "group_bytes (xs @ ys) = group_bytes xs @ group_bytes ys"
  "group_bytes (g # gs) = [word_of_nat (g div 256), word_of_nat g] @ group_bytes gs"
  by (simp_all add: group_bytes_def)

lemma group_bytes_zeros: "\<forall>g \<in> set gs. g = 0 \<Longrightarrow> group_bytes gs = replicate (2 * length gs) 0"
  by (induction gs) simp_all

lemma v6_groups_bytes: "even (length a) \<Longrightarrow> group_bytes (v6_groups a) = a \<and> (\<forall>g \<in> set (v6_groups a). g < 65536)
    \<and> length (v6_groups a) = length a div 2"
proof (induction a rule: v6_groups.induct)
  case (1 a b bs)
  have "unat a < 256" "unat b < 256" by (rule unat_byte_less)+
  moreover have "(word_of_nat (unat a * 256 + unat b) :: byte) = b"
  proof -
    have z: "(256 :: byte) = 0" by simp
    have "a * 256 = 0" unfolding z by simp
    then show ?thesis by simp
  qed
  ultimately show ?case using 1 by auto
qed simp_all

text \<open>The loop of the parser over the groups of one side of the ellipsis.\<close>

lemma join_hd: "hs \<noteq> [] \<Longrightarrow> hd hs \<noteq> [] \<Longrightarrow> join sep hs \<noteq> [] \<and> hd (join sep hs) = hd (hd hs)"
  by (cases hs; cases "tl hs") auto

lemma hex_join_hd: "gs \<noteq> [] \<Longrightarrow> join [58] (map hex_text gs) \<noteq> [] \<and> is_hex (hd (join [58] (map hex_text gs)))"
proof -
  assume gs: "gs \<noteq> []"
  obtain c cs where c: "hex_text (hd gs) = c # cs" using hex_text_simps(2) [of "hd gs"] by (cases "hex_text (hd gs)") auto
  have "is_hex c" using hex_text_simps(1) [of "hd gs"] unfolding c by simp
  then show ?thesis using join_hd [of "map hex_text gs" "[58]"] gs c by (simp add: hd_map)
qed

lemma not_hex_colon [simp]: "\<not> is_hex 58"
  by (simp add: is_hex_def hex_digit_def)

lemma ipv6_groups_text:
  "gs \<noteq> [] \<Longrightarrow> length gs \<le> k \<Longrightarrow> \<forall>g \<in> set gs. g < 65536 \<Longrightarrow>
    ipv6_groups k (join [58] (map hex_text gs)) ip ell = Some (ip @ group_bytes gs, ell, [])"
proof (induction gs arbitrary: k ip)
  case (Cons g gs)
  obtain k' where k: "k = Suc k'" using Cons.prems(2) by (cases k) auto
  have g: "g < 65536" using Cons.prems(3) by simp
  show ?case
  proof (cases gs)
    case Nil
    then show ?thesis using k hex_group_text [OF g, of "[]"] by (simp add: Let_def)
  next
    case (Cons g2 gs')
    let ?rest = "join [58] (map hex_text gs)"
    have r: "?rest \<noteq> []" "is_hex (hd ?rest)" using hex_join_hd [of gs] Cons by simp_all
    have "hex_group (hex_text g @ 58 # ?rest) 0 0 = Some (g, length (hex_text g), 58 # ?rest)" by (rule hex_group_text [OF g]) simp
    moreover have "hd ?rest \<noteq> 58" using r(2) is_hex_not by blast
    moreover have "ipv6_groups k' ?rest (ip @ [word_of_nat (g div 256), word_of_nat g]) ell
        = Some ((ip @ [word_of_nat (g div 256), word_of_nat g]) @ group_bytes gs, ell, [])"
      using Cons.prems k Cons by (intro Cons.IH) auto
    ultimately show ?thesis using k r(1) Cons by (simp add: Let_def)
  qed
qed simp

lemma ipv6_groups_ellipsis:
  "gs \<noteq> [] \<Longrightarrow> length gs + length gs2 \<le> k \<Longrightarrow> \<forall>g \<in> set gs \<union> set gs2. g < 65536 \<Longrightarrow>
    ipv6_groups k (join [58] (map hex_text gs) @ [58, 58] @ join [58] (map hex_text gs2)) ip None
    = Some (ip @ group_bytes (gs @ gs2), Some (length ip + 2 * length gs), [])"
proof (induction gs arbitrary: k ip)
  case (Cons g gs)
  obtain k' where k: "k = Suc k'" using Cons.prems(2) by (cases k) auto
  have g: "g < 65536" using Cons.prems(3) by simp
  let ?tail = "join [58] (map hex_text gs2)"
  let ?ip = "ip @ [word_of_nat (g div 256), word_of_nat g]"
  show ?case
  proof (cases gs)
    case Nil
    have h: "hex_group (hex_text g @ 58 # 58 # ?tail) 0 0 = Some (g, length (hex_text g), 58 # 58 # ?tail)" by (rule hex_group_text [OF g]) simp
    show ?thesis
    proof (cases "gs2 = []")
      case True
      then show ?thesis using Nil k h by (simp add: Let_def)
    next
      case False
      have "ipv6_groups k' ?tail ?ip (Some (length ?ip)) = Some (?ip @ group_bytes gs2, Some (length ?ip), [])"
        using Cons.prems(2,3) k False Nil by (intro ipv6_groups_text) auto
      then show ?thesis using Nil k h hex_join_hd [OF False] by (simp add: Let_def)
    qed
  next
    case (Cons g2 gs')
    let ?rest = "join [58] (map hex_text gs) @ [58, 58] @ ?tail"
    have r: "?rest \<noteq> []" "hd ?rest \<noteq> 58" using hex_join_hd [of gs] Cons is_hex_not by (auto simp: hd_append)
    have "hex_group (hex_text g @ 58 # ?rest) 0 0 = Some (g, length (hex_text g), 58 # ?rest)" by (rule hex_group_text [OF g]) simp
    moreover have "ipv6_groups k' ?rest ?ip None = Some (?ip @ group_bytes (gs @ gs2), Some (length ?ip + 2 * length gs), [])"
      using Cons.prems k Cons by (intro Cons.IH) auto
    ultimately show ?thesis using k r Cons by (simp add: Let_def)
  qed
qed simp

text \<open>The run of zeros that is left out.\<close>

lemma zero_run_ok:
  assumes "zero_run gs = (s, e)" "length gs = 8" "s < 8"
  shows "s + 2 \<le> e \<and> e \<le> 8 \<and> (\<forall>g \<in> set (take (e - s) (drop s gs)). g = 0)"
proof -
  let ?P = "\<lambda>(s, e). (s :: nat) < 8 \<longrightarrow> s + 2 \<le> e \<and> e \<le> 8 \<and> (\<forall>g \<in> set (take (e - s) (drop s gs)). g = 0)"
  have "?P (foldl (\<lambda>(s, e) i. let l = length (takeWhile (\<lambda>g. g = 0) (drop i gs))
       in if l \<ge> 2 \<and> l > e - s then (i, i + l) else (s, e)) z is)" if "?P z" "\<forall>i \<in> set is. i < 8" for z "is"
    using that
  proof (induction "is" arbitrary: z)
    case (Cons i "is")
    define l where "l = length (takeWhile (\<lambda>g. g = 0) (drop i gs))"
    have "l \<le> length (drop i gs)" unfolding l_def by (rule length_takeWhile_le)
    moreover have "i < 8" using Cons.prems(2) by simp
    ultimately have l8: "i + l \<le> 8" using assms(2) unfolding length_drop by linarith
    have "take l (drop i gs) = takeWhile (\<lambda>g. g = 0) (drop i gs)" unfolding l_def by (rule takeWhile_eq_take [symmetric])
    then have l0: "\<forall>g \<in> set (take l (drop i gs)). g = 0" by (auto dest: set_takeWhileD)
    obtain s0 e0 where z: "z = (s0, e0)" by fastforce
    have "?P (if l \<ge> 2 \<and> l > e0 - s0 then (i, i + l) else (s0, e0))" using Cons.prems(1) l8 l0 z by simp
    then have "?P (case z of (s, e) \<Rightarrow> let l = length (takeWhile (\<lambda>g. g = 0) (drop i gs))
       in if l \<ge> 2 \<and> l > e - s then (i, i + l) else (s, e))" unfolding z l_def Let_def by simp
    from Cons.IH [OF this] Cons.prems(2) show ?case by (cases z) simp
  qed simp
  from this [of "(255, 255)" "[0 ..< 8]"] show ?thesis using assms(1,3) unfolding zero_run_def by simp
qed

lemma join_chars: "c \<in> set (join [58] (map hex_text xs)) \<Longrightarrow> c = 58 \<or> is_hex c"
proof (induction xs rule: induct_list012)
  case (3 x y zs)
  then show ?case using hex_text_simps(1) [of x] by (auto simp: list_all_iff)
qed (use hex_text_simps(1) in \<open>auto simp: list_all_iff\<close>)

lemma v6_text_parses:
  assumes "length a = 16"
  shows "parseIPv6 (v6_text a) = Some a"
proof -
  let ?gs = "v6_groups a"
  let ?j = "\<lambda>xs. join [58] (map hex_text xs)"
  have a: "group_bytes ?gs = a" "\<forall>g \<in> set ?gs. g < 65536" "length ?gs = 8" using v6_groups_bytes [of a] assms by simp_all
  obtain s e where z: "zero_run ?gs = (s, e)" by fastforce
  have no: "37 \<notin> set (?j xs)" for xs using join_chars is_hex_not by fastforce
  show ?thesis
  proof (cases "s < 8")
    case False
    then have t: "v6_text a = ?j ?gs" using z by (simp add: v6_text_def Let_def)
    have ne: "?gs \<noteq> []" using a(3) by auto
    have "take 2 (?j ?gs) \<noteq> [58, 58]" using hex_join_hd [OF ne] is_hex_not by (cases "?j ?gs") auto
    moreover have "ipv6_groups 8 (?j ?gs) [] None = Some ([] @ group_bytes ?gs, None, [])" by (rule ipv6_groups_text) (use a ne in simp_all)
    ultimately show ?thesis using t no a(1) assms by (simp add: parseIPv6_def ipv6_finish_def)
  next
    case True
    let ?p = "take s ?gs" and ?q = "drop e ?gs"
    have t: "v6_text a = ?j ?p @ [58, 58] @ ?j ?q" using z True by (simp add: v6_text_def Let_def take_map drop_map)
    have zr: "s + 2 \<le> e" "e \<le> 8" "\<forall>g \<in> set (take (e - s) (drop s ?gs)). g = 0" using zero_run_ok [OF z a(3) True] by simp_all
    have "?gs = ?p @ take (e - s) (drop s ?gs) @ ?q"
      using zr(1) by (metis append_take_drop_id drop_drop le_add_diff_inverse2 add_leD1)
    then have "a = group_bytes (?p @ take (e - s) (drop s ?gs) @ ?q)" using a(1) by simp
    moreover have "length (take (e - s) (drop s ?gs)) = e - s" using a(3) zr(2) by simp
    ultimately have bytes: "a = group_bytes ?p @ replicate (2 * (e - s)) 0 @ group_bytes ?q"
      using group_bytes_zeros [OF zr(3)] by simp
    have lt: "\<forall>g \<in> set ?p \<union> set ?q. g < 65536" using a(2) by (auto dest: in_set_takeD in_set_dropD)
    have len: "length ?p = s" "length ?q = 8 - e" using a(3) True by simp_all
    have r1: "\<not> 16 \<le> 2 * (s + (8 - e))" using zr(1,2) by presburger
    have r2: "16 - 2 * (s + (8 - e)) = 2 * (e - s)" using zr(1,2) by presburger
    note r = r1 r2
    show ?thesis
    proof (cases "s = 0")
      case False
      then have p: "?p \<noteq> []" using len(1) by auto
      have "take 2 (v6_text a) \<noteq> [58, 58]" using hex_join_hd [OF p] is_hex_not unfolding t by (cases "?j ?p") auto
      moreover have "ipv6_groups 8 (v6_text a) [] None = Some (group_bytes (?p @ ?q), Some (2 * length ?p), [])"
        unfolding t using ipv6_groups_ellipsis [OF p _ lt, of 8 "[]"] len zr(1,2) by simp
      moreover have "37 \<notin> set (v6_text a)" unfolding t using no by simp
      ultimately show ?thesis using bytes len r by (simp add: parseIPv6_def ipv6_finish_def)
    next
      case s0: True
      then have t0: "v6_text a = 58 # 58 # ?j ?q" using t by simp
      have n: "37 \<notin> set (v6_text a)" unfolding t0 using no by simp
      show ?thesis
      proof (cases "?q = []")
        case True
        then show ?thesis using t0 bytes s0 len r n by (simp add: parseIPv6_def)
      next
        case q: False
        have "ipv6_groups 8 (?j ?q) [] (Some 0) = Some ([] @ group_bytes ?q, Some 0, [])" by (rule ipv6_groups_text) (use q lt len in auto)
        then show ?thesis using t0 bytes s0 len r n q hex_join_hd [OF q] by (simp add: parseIPv6_def ipv6_finish_def)
      qed
    qed
  qed
qed

section \<open>Round trips\<close>

lemma ParseIP_scan_skip:
  "\<forall>c \<in> set ds. c \<noteq> 46 \<and> c \<noteq> 58 \<and> c \<noteq> 37 \<Longrightarrow> ParseIP_scan s (ds @ rest) = ParseIP_scan s rest"
  by (induction ds) auto

lemma is_digit_not: "is_digit c \<Longrightarrow> c \<noteq> 46 \<and> c \<noteq> 58 \<and> c \<noteq> 37 \<and> c \<noteq> 91 \<and> c \<noteq> 93 \<and> isAlphaNum c"
  by (auto simp: is_digit_def isAlphaNum_def)

lemma Itoa_chars: "c \<in> set (Itoa n) \<Longrightarrow> is_digit c"
  using Itoa_digits [of n] by (auto simp: list_all_iff)

lemma ParseIP_v4: "ParseIP (v4_text [a, b, c, d]) = Some (replicate 10 0 @ [255, 255, a, b, c, d])"
proof -
  have "ParseIP_scan s (v4_text [a, b, c, d]) = map_option (\<lambda>f. replicate 10 0 @ [255, 255] @ f) (ipv4_fields s None 0 0 [])" for s
    unfolding v4_text_eq using is_digit_not Itoa_chars by (subst ParseIP_scan_skip) auto
  then show ?thesis by (simp add: ParseIP_def ipv4_fields_text)
qed

lemma v6_text_chars:
  assumes "length a = 16"
  shows "58 \<in> set (v6_text a)" "c \<in> set (v6_text a) \<Longrightarrow> c = 58 \<or> is_hex c"
proof -
  have l: "length (v6_groups a) = 8" using v6_groups_bytes [of a] assms by simp
  have j: "2 \<le> length hs \<Longrightarrow> 58 \<in> set (join [58] hs)" for hs :: "gostring list" by (cases hs; cases "tl hs") auto
  obtain s e where z: "zero_run (v6_groups a) = (s, e)" by fastforce
  show "58 \<in> set (v6_text a)" using l j [of "map hex_text (v6_groups a)"] by (simp add: v6_text_def Let_def z)
  show "c \<in> set (v6_text a) \<Longrightarrow> c = 58 \<or> is_hex c"
    using join_chars by (auto simp: v6_text_def Let_def take_map drop_map split: prod.splits if_splits)
qed

lemma ParseIP_v6:
  assumes "length a = 16"
  shows "ParseIP (v6_text a) = Some a"
proof -
  obtain ds rest where d: "v6_text a = ds @ 58 # rest" "58 \<notin> set ds" using split_list_first [OF v6_text_chars(1) [OF assms]] by blast
  have "\<forall>c \<in> set ds. c \<noteq> 46 \<and> c \<noteq> 58 \<and> c \<noteq> 37" using v6_text_chars(2) [OF assms] d is_hex_not by fastforce
  then have "ParseIP_scan s (v6_text a) = parseIPv6 s" for s unfolding d(1) by (simp add: ParseIP_scan_skip)
  then show ?thesis by (simp add: ParseIP_def v6_text_parses [OF assms])
qed

lemma TrimSpace_id: "s \<noteq> [] \<Longrightarrow> \<not> is_space (hd s) \<Longrightarrow> \<not> is_space (last s) \<Longrightarrow> TrimSpace s = s"
proof -
  assume s: "s \<noteq> []" "\<not> is_space (hd s)" "\<not> is_space (last s)"
  have d: "x \<noteq> [] \<Longrightarrow> \<not> is_space (hd x) \<Longrightarrow> dropWhile is_space x = x" for x by (cases x) auto
  show ?thesis using s d [of s] d [of "rev s"] by (simp add: TrimSpace_def hd_rev)
qed

text \<open>The text of an address without its brackets.\<close>

fun bare_text :: "Address \<Rightarrow> gostring" where
  "bare_text (ipv6Address a) = v6_text a"
| "bare_text a = Address_String a"

text \<open>A domain that cannot be mistaken for anything else.\<close>

definition plain_domain :: "gostring \<Rightarrow> bool" where
  "plain_domain d \<longleftrightarrow> d \<noteq> [] \<and> isAlphaNum (hd d) \<and> isAlphaNum (last d) \<and> ParseIP d = None \<and> (\<forall>c \<in> set d. c \<noteq> 58 \<and> c \<noteq> 91 \<and> c \<noteq> 93)"

fun text_ok :: "Address \<Rightarrow> bool" where
  "text_ok (domainAddress d) \<longleftrightarrow> plain_domain d"
| "text_ok a \<longleftrightarrow> wf_Address a"

lemma not_brackets: "isAlphaNum c \<Longrightarrow> c \<noteq> 91 \<and> c \<noteq> 93 \<and> \<not> is_space c"
  by (auto simp: isAlphaNum_def is_space_def)

lemma Itoa_ends: "isAlphaNum (hd (Itoa n))" "isAlphaNum (last (Itoa n))"
  using Itoa_digits [of n] is_digit_not Itoa_chars [OF hd_in_set] Itoa_chars [OF last_in_set] by blast+

lemma v4_ends:
  "v4_text [a, b, c, d] \<noteq> []" "isAlphaNum (hd (v4_text [a, b, c, d]))" "isAlphaNum (last (v4_text [a, b, c, d]))"
  using Itoa_digits Itoa_ends unfolding v4_text_eq by simp_all

lemma v6_text_plain: "length a = 16 \<Longrightarrow> c \<in> set (v6_text a) \<Longrightarrow> c \<noteq> 91 \<and> c \<noteq> 93 \<and> \<not> is_space c"
proof -
  assume a: "length a = 16" "c \<in> set (v6_text a)"
  have "\<not> is_space 58" by (simp add: is_space_def)
  then show ?thesis using v6_text_chars(2) [OF a] is_hex_not [of c] by auto
qed

lemma ParseAddress_bare:
  assumes "text_ok a"
  shows "ParseAddress (bare_text a) = Some a \<and> bare_text a \<noteq> []"
proof (cases a)
  case (ipv4Address x)
  then obtain b0 b1 b2 b3 where x: "x = [b0, b1, b2, b3]" using assms by (auto simp: length_Suc_conv numeral_eq_Suc)
  show ?thesis unfolding ipv4Address x using v4_ends [of b0 b1 b2 b3] not_brackets
    by (auto simp: ParseAddress_def unbracket_def ParseIP_v4 IPAddress_def is_mapped_def Let_def)
next
  case (ipv6Address x)
  then have x: "length x = 16" "\<not> is_mapped x" using assms by auto
  have ne: "v6_text x \<noteq> []" using v6_text_chars(1) [OF x(1)] by auto
  then have "hd (v6_text x) \<in> set (v6_text x)" "last (v6_text x) \<in> set (v6_text x)" by simp_all
  then have e: "hd (v6_text x) \<noteq> 91" "\<not> is_space (hd (v6_text x))" "\<not> is_space (last (v6_text x))"
    using v6_text_plain [OF x(1)] by blast+
  then show ?thesis using ipv6Address x ne
    by (simp add: ParseAddress_def unbracket_def ParseIP_v6 IPAddress_def Let_def TrimSpace_id)
next
  case (domainAddress d)
  then show ?thesis using assms not_brackets by (auto simp: ParseAddress_def unbracket_def plain_domain_def DomainAddress_def Let_def)
qed

section \<open>Host and port\<close>

lemma last_colon_append: "58 \<notin> set p \<Longrightarrow> last_colon (h @ 58 # p) = Some (length h)"
proof -
  assume "58 \<notin> set p"
  then have "takeWhile (\<lambda>c. c \<noteq> 58) (rev p @ 58 # rev h) = rev p" by (subst takeWhile_append2) auto
  then show ?thesis by (simp add: last_colon_def)
qed

lemma SplitHostPort_bare:
  assumes "h \<noteq> []" "\<forall>c \<in> set h. c \<noteq> 58 \<and> c \<noteq> 91 \<and> c \<noteq> 93" "\<forall>c \<in> set p. c \<noteq> 58 \<and> c \<noteq> 91 \<and> c \<noteq> 93"
  shows "SplitHostPort (h @ 58 # p) = Inr (h, p)"
proof -
  have "last_colon (h @ 58 # p) = Some (length h)" using assms(3) by (intro last_colon_append) auto
  moreover have "hd (h @ 58 # p) \<noteq> 91" using assms(1,2) by (cases h) auto
  moreover have "58 \<notin> set h" "91 \<notin> set (h @ 58 # p)" "93 \<notin> set (h @ 58 # p)" using assms(2,3) by auto
  ultimately show ?thesis by (simp add: SplitHostPort_def split_rest_def)
qed

lemma SplitHostPort_bracket:
  assumes "\<forall>c \<in> set t. c \<noteq> 91 \<and> c \<noteq> 93" "\<forall>c \<in> set p. c \<noteq> 58 \<and> c \<noteq> 91 \<and> c \<noteq> 93"
  shows "SplitHostPort ([91] @ t @ [93] @ 58 # p) = Inr (t, p)"
proof -
  let ?s = "[91] @ t @ [93] @ 58 # p"
  have l: "last_colon ?s = Some (length t + 2)" using last_colon_append [of p "[91] @ t @ [93]"] assms(2) by auto
  have "takeWhile (\<lambda>x. x \<noteq> 93) (91 # t @ 93 # 58 # p) = 91 # t" using assms(1) by (simp add: takeWhile_append2)
  then have f: "first_at 93 ?s = Some (length t + 1)" by (simp add: first_at_def)
  have "91 \<notin> set (drop 1 ?s)" "93 \<notin> set (drop (length t + 2) ?s)" using assms by auto
  then show ?thesis using l f by (simp add: SplitHostPort_def split_rest_def)
qed

lemma Port_String_chars: "c \<in> set (Port_String p) \<Longrightarrow> c \<noteq> 58 \<and> c \<noteq> 91 \<and> c \<noteq> 93"
  using Itoa_chars is_digit_not unfolding Port_String_def by blast

lemma v4_text_chars: "x \<in> set (v4_text [a, b, c, d]) \<Longrightarrow> x \<noteq> 58 \<and> x \<noteq> 91 \<and> x \<noteq> 93"
  unfolding v4_text_eq using Itoa_chars is_digit_not by auto

lemma SplitHostPort_text:
  assumes "text_ok a"
  shows "SplitHostPort (Address_String a @ 58 # Port_String p) = Inr (bare_text a, Port_String p)"
proof (cases a)
  case (ipv4Address x)
  then obtain b0 b1 b2 b3 where x: "x = [b0, b1, b2, b3]" using assms by (auto simp: length_Suc_conv numeral_eq_Suc)
  show ?thesis unfolding ipv4Address x using SplitHostPort_bare [OF v4_ends(1)] v4_text_chars Port_String_chars by simp
next
  case (ipv6Address x)
  then have "length x = 16" using assms by simp
  then show ?thesis using ipv6Address SplitHostPort_bracket [of "v6_text x" "Port_String p"] v6_text_plain Port_String_chars by simp
next
  case (domainAddress d)
  then show ?thesis using assms SplitHostPort_bare [of d "Port_String p"] Port_String_chars by (simp add: plain_domain_def)
qed

lemma parse_host_port_text:
  assumes "text_ok a"
  shows "parse_host_port d (Address_String a @ 58 # Port_String p) = (d\<lparr>d_Address := Some a, d_Port := p\<rparr>, None)"
  using ParseAddress_bare [OF assms] SplitHostPort_text [OF assms] PortFromString_String [of p] Itoa_digits [of "unat p"]
  by (simp add: parse_host_port_def Let_def Port_String_def)

section \<open>Properties\<close>

text \<open>
  A destination is read back from its own text: \<open>ParseDestination\<close> inverts \<open>Destination.String\<close> for TCP and UDP destinations with
  an IPv4 address, an IPv6 address (printed in brackets, with the longest run of zeros left out) or a domain that starts and ends with
  a letter or digit, contains no colon and no bracket and does not read as an IP address; and for every Unix socket path.
\<close>

theorem destination_text_roundtrip:
  assumes "d_Network d \<in> {Network_TCP, Network_UDP} \<and> d_Address d = Some a \<and> text_ok a
    \<or> d = UnixDestination (Some (DomainAddress path))"
  shows "ParseDestination (Destination_String d) = (d, None)"
  using assms
proof
  assume d: "d_Network d \<in> {Network_TCP, Network_UDP} \<and> d_Address d = Some a \<and> text_ok a"
  then have n: "Destination_NetAddr d = Address_String a @ 58 # Port_String (d_Port d)" by (auto simp: Destination_NetAddr_def)
  have p: "parse_host_port e (Destination_NetAddr d) = (e\<lparr>d_Address := Some a, d_Port := d_Port d\<rparr>, None)" for e
    unfolding n using d by (intro parse_host_port_text) simp
  have pre: "length (str ''tcp:'') = 4" "length (str ''udp:'') = 4" "str ''tcp:'' \<noteq> str ''udp:''" by (simp_all add: str_def)
  show ?thesis using d p pre by (cases d) (auto simp: ParseDestination_def Destination_String_def Let_def)
next
  assume d: "d = UnixDestination (Some (DomainAddress path))"
  have "take 4 (str ''unix:'' @ path) \<noteq> str ''tcp:''" "take 4 (str ''unix:'' @ path) \<noteq> str ''udp:''"
    "length (str ''unix:'') = 5" by (simp_all add: str_def)
  then show ?thesis unfolding d
    by (simp add: ParseDestination_def Destination_String_def Destination_NetAddr_def UnixDestination_def DomainAddress_def Let_def)
qed

theorem destination_text_roundtrip_witness:
  "Destination_String \<lparr>d_Address = Some (ipv6Address [32, 1, 13, 184, 0, 0, 0, 0, 0, 0, 0, 0, 0, 0, 0, 1]), d_Port = 443, d_Network = Network_TCP\<rparr>
     = str ''tcp:[2001:db8::1]:443''
   \<and> ParseDestination (str ''tcp:[2001:db8::1]:443'')
     = (\<lparr>d_Address = Some (ipv6Address [32, 1, 13, 184, 0, 0, 0, 0, 0, 0, 0, 0, 0, 0, 0, 1]), d_Port = 443, d_Network = Network_TCP\<rparr>, None)"
proof -
  let ?a = "ipv6Address [32, 1, 13, 184, 0, 0, 0, 0, 0, 0, 0, 0, 0, 0, 0, 1]"
  let ?d = "\<lparr>d_Address = Some ?a, d_Port = 443, d_Network = Network_TCP\<rparr>"
  have z: "zero_run [8193, 3512, 0, 0, 0, 0, 0, Suc 0] = (2, 7)" by (simp add: zero_run_def upt_rec numeral_eq_Suc Let_def)
  have t: "Destination_String ?d = str ''tcp:[2001:db8::1]:443''"
    by (simp add: Destination_String_def Destination_NetAddr_def Port_String_def v6_text_def z Itoa.simps hex_text.simps
        dec_char_def v6_digit_def str_def Let_def)
  have "text_ok ?a" by (simp add: is_mapped_def numeral_eq_Suc)
  then have "ParseDestination (Destination_String ?d) = (?d, None)" using destination_text_roundtrip [of ?d ?a "[]"] by simp
  with t show ?thesis by simp
qed

end
