(* ===== verification/Buffer.thy ===== *)
theory Buffer
  imports Net_Address
begin

text \<open>
  \<open>common/buf/buffer.go\<close>: the recyclable byte buffer. A \<open>Buffer\<close> keeps its slice as the backing array
  up to the slice's capacity (\<open>b_v\<close>, \<open>None\<close> for a nil slice) and the slice's length (\<open>b_len\<close>); \<open>b_start\<close> and
  \<open>b_end\<close> are the \<open>int32\<close> cursors. The bytes before \<open>b_start\<close> and from \<open>b_end\<close> on are whatever an earlier user
  of the array left there. Operations that can panic return an \<open>option\<close>. The pool is the list of
  arrays handed back; \<open>Get\<close> takes one of them or a fresh zeroed array.
\<close>

section \<open>State and operations\<close>

definition Size :: int where
  "Size = 8192"

datatype Ownership = managed | unmanaged

record Buffer =
  b_v :: "byte list option"
  b_len :: int
  b_start :: int
  b_end :: int
  b_ownership :: Ownership
  b_UDP :: "Destination option"

definition b_arr :: "Buffer \<Rightarrow> byte list" where
  "b_arr b = (case b_v b of None \<Rightarrow> [] | Some a \<Rightarrow> a)"

type_synonym pool = "byte list list"

definition pool_Get :: "pool \<Rightarrow> byte list \<times> pool" where
  "pool_Get p = (case p of [] \<Rightarrow> (replicate (nat Size) 0, []) | a # p' \<Rightarrow> (a, p'))"

definition Buffer_of :: "byte list \<Rightarrow> Buffer" where
  "Buffer_of a = \<lparr>b_v = Some a, b_len = int (length a), b_start = 0, b_end = 0,
     b_ownership = managed, b_UDP = None\<rparr>"

definition New :: "pool \<Rightarrow> Buffer \<times> pool" where
  "New p = (let (a, p') = pool_Get p in (Buffer_of a, p'))"

definition StackNew :: "pool \<Rightarrow> Buffer \<times> pool" where
  "StackNew p = (let (a, p') = pool_Get p in (Buffer_of a, p'))"

text \<open>\<open>FromBytes\<close> on a slice with backing array \<open>a\<close> and length \<open>n\<close>.\<close>

definition FromBytes :: "byte list \<Rightarrow> int \<Rightarrow> Buffer" where
  "FromBytes a n = \<lparr>b_v = Some a, b_len = n, b_start = 0, b_end = i32 n,
     b_ownership = unmanaged, b_UDP = None\<rparr>"

definition NewWithSize :: "int \<Rightarrow> Buffer option" where
  "NewWithSize sz =
     (if sz < 0 then None
      else Some \<lparr>b_v = Some (replicate (nat sz) 0), b_len = sz, b_start = 0, b_end = 0,
        b_ownership = managed, b_UDP = None\<rparr>)"

definition Clear :: "Buffer \<Rightarrow> Buffer" where
  "Clear b = b\<lparr>b_start := 0, b_end := 0\<rparr>"

definition Release :: "Buffer option \<Rightarrow> pool \<Rightarrow> Buffer option \<times> pool" where
  "Release bo p =
     (case bo of
        None \<Rightarrow> (None, p)
      | Some b \<Rightarrow>
          (case b_v b of
             None \<Rightarrow> (Some b, p)
           | Some a \<Rightarrow>
               if b_ownership b = unmanaged then (Some b, p)
               else let b1 = Clear (b\<lparr>b_v := None, b_len := 0\<rparr>);
                        p1 = (if b_ownership b1 = managed \<and> int (length a) = Size then a # p else p)
                    in (Some (b1\<lparr>b_UDP := None\<rparr>), p1)))"

definition buf_Len :: "Buffer \<Rightarrow> int" where
  "buf_Len b = i32 (b_end b - b_start b)"

definition Len :: "Buffer option \<Rightarrow> int" where
  "Len bo = (case bo of None \<Rightarrow> 0 | Some b \<Rightarrow> buf_Len b)"

definition Cap :: "Buffer option \<Rightarrow> int" where
  "Cap bo = (case bo of None \<Rightarrow> 0 | Some b \<Rightarrow> i32 (b_len b))"

definition Available :: "Buffer option \<Rightarrow> int" where
  "Available bo = (case bo of None \<Rightarrow> 0 | Some b \<Rightarrow> i32 (i32 (b_len b) - b_end b))"

definition IsEmpty :: "Buffer option \<Rightarrow> bool" where
  "IsEmpty bo \<longleftrightarrow> Len bo = 0"

definition IsFull :: "Buffer option \<Rightarrow> bool" where
  "IsFull bo = (case bo of None \<Rightarrow> False | Some b \<Rightarrow> b_end b = i32 (b_len b))"

definition Byte :: "Buffer \<Rightarrow> int \<Rightarrow> byte option" where
  "Byte b i = index (take (nat (b_len b)) (b_arr b)) (i32 (b_start b + i))"

definition SetByte :: "Buffer \<Rightarrow> int \<Rightarrow> byte \<Rightarrow> Buffer option" where
  "SetByte b i x =
     (let k = i32 (b_start b + i)
      in if 0 \<le> k \<and> k < b_len b
         then Some (b\<lparr>b_v := map_option (\<lambda>a. a[nat k := x]) (b_v b)\<rparr>) else None)"

definition Bytes :: "Buffer \<Rightarrow> byte list option" where
  "Bytes b = slice (b_arr b) (b_start b) (b_end b)"

text \<open>
  \<open>Extend\<close> gives the extended part, which aliases the buffer, as its bounds in the array; a later
  write through it is \<open>put_at\<close>.
\<close>

definition Extend :: "Buffer \<Rightarrow> int \<Rightarrow> ((int \<times> int) \<times> Buffer) option" where
  "Extend b n =
     (let e = i32 (b_end b + n)
      in if e > i32 (b_len b) then None
         else if 0 \<le> b_end b \<and> b_end b \<le> e \<and> e \<le> int (length (b_arr b))
         then Some ((b_end b, e),
           b\<lparr>b_v := map_option
                (\<lambda>a. overwrite a (nat (b_end b)) (replicate (nat (e - b_end b)) 0)) (b_v b),
             b_end := e\<rparr>)
         else None)"

definition put_at :: "Buffer \<Rightarrow> int \<Rightarrow> byte list \<Rightarrow> Buffer" where
  "put_at b lo d = b\<lparr>b_v := map_option (\<lambda>a. overwrite a (nat lo) d) (b_v b)\<rparr>"

definition BytesRange :: "Buffer \<Rightarrow> int \<Rightarrow> int \<Rightarrow> byte list option" where
  "BytesRange b f t =
     (let f1 = (if f < 0 then i32 (f + buf_Len b) else f);
          t1 = (if t < 0 then i32 (t + buf_Len b) else t)
      in slice (b_arr b) (i32 (b_start b + f1)) (i32 (b_start b + t1)))"

definition BytesFrom :: "Buffer \<Rightarrow> int \<Rightarrow> byte list option" where
  "BytesFrom b f =
     (let f1 = (if f < 0 then i32 (f + buf_Len b) else f)
      in slice (b_arr b) (i32 (b_start b + f1)) (b_end b))"

definition BytesTo :: "Buffer \<Rightarrow> int \<Rightarrow> byte list option" where
  "BytesTo b t =
     (let t1 = (if t < 0 then i32 (t + buf_Len b) else t);
          t2 = (if t1 < 0 then 0 else t1)
      in slice (b_arr b) (b_start b) (i32 (b_start b + t2)))"

definition Check :: "Buffer \<Rightarrow> Buffer" where
  "Check b =
     (let b1 = (if b_start b < 0 then b\<lparr>b_start := 0\<rparr> else b);
          b2 = (if b_end b1 < 0 then b1\<lparr>b_end := 0\<rparr> else b1)
      in if b_start b2 > b_end b2 then b2\<lparr>b_start := b_end b2\<rparr> else b2)"

definition Resize :: "Buffer \<Rightarrow> int \<Rightarrow> int \<Rightarrow> Buffer option" where
  "Resize b f t =
     (let oldEnd = b_end b;
          f1 = (if f < 0 then i32 (f + buf_Len b) else f);
          t1 = (if t < 0 then i32 (t + buf_Len b) else t)
      in if t1 < f1 then None
         else let b1 = Check (b\<lparr>b_end := i32 (b_start b + t1), b_start := i32 (b_start b + f1)\<rparr>)
           in if b_end b1 > oldEnd
              then (if 0 \<le> oldEnd \<and> b_end b1 \<le> int (length (b_arr b1))
                    then Some (b1\<lparr>b_v := map_option (\<lambda>a. overwrite a (nat oldEnd)
                                  (replicate (nat (b_end b1 - oldEnd)) 0)) (b_v b1)\<rparr>)
                    else None)
              else Some b1)"

definition Advance :: "Buffer \<Rightarrow> int \<Rightarrow> Buffer" where
  "Advance b f =
     (let f1 = (if f < 0 then i32 (f + buf_Len b) else f)
      in Check (b\<lparr>b_start := i32 (b_start b + f1)\<rparr>))"

definition Write :: "Buffer \<Rightarrow> byte list \<Rightarrow> ((int \<times> goerr option) \<times> Buffer) option" where
  "Write b d =
     (if 0 \<le> b_end b \<and> b_end b \<le> b_len b
      then let n = min (nat (b_len b - b_end b)) (length d);
               b' = b\<lparr>b_v := map_option (\<lambda>a. overwrite a (nat (b_end b)) (take n d)) (b_v b),
                      b_end := i32 (b_end b + int n)\<rparr>
           in Some ((int n, if n < length d then Some ErrBufferFull else None), b')
      else None)"

definition WriteByte :: "Buffer \<Rightarrow> byte \<Rightarrow> (goerr option \<times> Buffer) option" where
  "WriteByte b x =
     (if IsFull (Some b) then Some (Some ErrBufferFull, b)
      else if 0 \<le> b_end b \<and> b_end b < b_len b
      then Some (None, b\<lparr>b_v := map_option (\<lambda>a. a[nat (b_end b) := x]) (b_v b),
             b_end := i32 (b_end b + 1)\<rparr>)
      else None)"

definition ReadByte :: "Buffer \<Rightarrow> ((byte \<times> goerr option) \<times> Buffer) option" where
  "ReadByte b =
     (if b_start b = b_end b then Some ((0, Some EOF), b)
      else map_option (\<lambda>x. ((x, None), b\<lparr>b_start := i32 (b_start b + 1)\<rparr>))
             (index (take (nat (b_len b)) (b_arr b)) (b_start b)))"

definition ReadBytes :: "Buffer \<Rightarrow> int \<Rightarrow> ((byte list \<times> goerr option) \<times> Buffer) option" where
  "ReadBytes b n =
     (if i32 (b_end b - b_start b) < n then Some (([], Some EOF), b)
      else map_option (\<lambda>x. ((x, None), b\<lparr>b_start := i32 (b_start b + n)\<rparr>))
             (slice (b_arr b) (b_start b) (i32 (b_start b + n))))"

text \<open>\<open>Read\<close> into a destination of \<open>n\<close> bytes, as an \<open>io.Reader\<close>.\<close>

definition Buffer_Read :: "Buffer io_read" where
  "Buffer_Read b n =
     (if buf_Len b = 0 then Some ([], Some EOF, b)
      else map_option (\<lambda>s.
             let d = take n s
             in (d, None, if i32 (int (length d)) = buf_Len b then Clear b
                          else b\<lparr>b_start := i32 (b_start b + i32 (int (length d)))\<rparr>))
             (slice (b_arr b) (b_start b) (b_end b)))"

text \<open>
  \<open>ReadFrom\<close> makes one \<open>Read\<close> call on the free part; the bytes it stores land behind the content.
\<close>

definition Buffer_ReadFrom ::
  "'r io_read \<Rightarrow> Buffer \<Rightarrow> 'r \<Rightarrow> ((int \<times> goerr option) \<times> Buffer \<times> 'r) option" where
  "Buffer_ReadFrom rd b r =
     (if 0 \<le> b_end b \<and> b_end b \<le> b_len b
      then map_option (\<lambda>(d, e, r').
             ((int (length d), e),
              b\<lparr>b_v := map_option (\<lambda>a. overwrite a (nat (b_end b)) d) (b_v b),
                b_end := i32 (b_end b + int (length d))\<rparr>, r'))
             (rd r (nat (b_len b - b_end b)))
      else None)"

definition ReadFullFrom ::
  "'r io_read \<Rightarrow> Buffer \<Rightarrow> 'r \<Rightarrow> int \<Rightarrow> ((int \<times> goerr option) \<times> Buffer \<times> 'r) option" where
  "ReadFullFrom rd b r sz =
     (let e = i32 (b_end b + sz)
      in if e > i32 (b_len b) then Some ((0, Some (ENew ''out of bound: '' None)), b, r)
         else if 0 \<le> b_end b \<and> b_end b \<le> e \<and> e \<le> int (length (b_arr b))
         then map_option (\<lambda>(d, er, r').
                ((int (length d), er),
                 b\<lparr>b_v := map_option (\<lambda>a. overwrite a (nat (b_end b)) d) (b_v b),
                   b_end := i32 (b_end b + int (length d))\<rparr>, r'))
                (ReadFull rd r (nat (e - b_end b)))
         else None)"

section \<open>Invariant and content\<close>

definition buf_inv :: "Buffer \<Rightarrow> bool" where
  "buf_inv b \<longleftrightarrow> 0 \<le> b_start b \<and> b_start b \<le> b_end b \<and> b_end b \<le> b_len b
     \<and> b_len b \<le> int (length (b_arr b)) \<and> b_len b < 2147483648"

text \<open>The bytes a reader of the buffer gets.\<close>

definition content :: "Buffer \<Rightarrow> byte list" where
  "content b = take (nat (b_end b - b_start b)) (drop (nat (b_start b)) (b_arr b))"

definition room :: "Buffer \<Rightarrow> nat" where
  "room b = nat (b_len b - b_end b)"

definition pool_ok :: "pool \<Rightarrow> bool" where
  "pool_ok p \<longleftrightarrow> (\<forall>a \<in> set p. length a = 8192)"

text \<open>The effect of a write that fits, and of consuming a prefix, on a well-formed buffer.\<close>

definition append_to :: "Buffer \<Rightarrow> byte list \<Rightarrow> Buffer" where
  "append_to b d = b\<lparr>b_v := map_option (\<lambda>a. overwrite a (nat (b_end b)) d) (b_v b),
     b_end := b_end b + int (length d)\<rparr>"

definition consume :: "Buffer \<Rightarrow> nat \<Rightarrow> Buffer" where
  "consume b n = b\<lparr>b_start := b_start b + int n\<rparr>"

lemma b_arr_simps [simp]:
  "b_arr (b\<lparr>b_v := Some a\<rparr>) = a" "b_arr (b\<lparr>b_v := None\<rparr>) = []"
  "b_arr (b\<lparr>b_start := s\<rparr>) = b_arr b" "b_arr (b\<lparr>b_end := e\<rparr>) = b_arr b"
  "b_arr (b\<lparr>b_len := n\<rparr>) = b_arr b" "b_arr (b\<lparr>b_UDP := u\<rparr>) = b_arr b"
  by (simp_all add: b_arr_def)

lemma room_None: "buf_inv b \<Longrightarrow> b_v b = None \<Longrightarrow> room b = 0"
  by (simp add: buf_inv_def room_def b_arr_def)

lemma b_arr_append_to [simp]:
  "buf_inv b \<Longrightarrow> length d \<le> room b \<Longrightarrow> b_arr (append_to b d) = overwrite (b_arr b) (nat (b_end b)) d"
  by (cases "b_v b") (auto simp: append_to_def b_arr_def overwrite_def room_def buf_inv_def)

lemma length_content: "buf_inv b \<Longrightarrow> length (content b) = nat (b_end b - b_start b)"
  by (auto simp: buf_inv_def content_def)

lemma int_length_content: "buf_inv b \<Longrightarrow> int (length (content b)) = b_end b - b_start b"
  by (simp add: length_content) (simp add: buf_inv_def)

lemma append_to_inv [simp, inv_intros]:
  assumes "buf_inv b" "length d \<le> room b"
  shows "buf_inv (append_to b d)"
proof -
  have "length (overwrite (b_arr b) (nat (b_end b)) d) = length (b_arr b)"
    using assms by (intro length_overwrite) (auto simp: buf_inv_def room_def)
  then have "length (b_arr (append_to b d)) = length (b_arr b)" using assms by simp
  then show ?thesis using assms by (auto simp: buf_inv_def append_to_def room_def)
qed

lemma append_to_sel [simp]:
  "b_start (append_to b d) = b_start b" "b_end (append_to b d) = b_end b + int (length d)"
  "b_len (append_to b d) = b_len b" "b_UDP (append_to b d) = b_UDP b"
  "b_ownership (append_to b d) = b_ownership b"
  by (simp_all add: append_to_def)

lemma content_append_to [simp]:
  assumes "buf_inv b" "length d \<le> room b"
  shows "content (append_to b d) = content b @ d"
proof -
  have b: "0 \<le> b_start b" "b_start b \<le> b_end b" "nat (b_end b) + length d \<le> length (b_arr b)"
    "nat (b_start b) \<le> nat (b_end b)"
    using assms by (auto simp: buf_inv_def room_def)
  have "nat (b_end b + int (length d) - b_start b) = nat (b_end b) + length d - nat (b_start b)"
    using b by simp
  moreover have "nat (b_end b - b_start b) = nat (b_end b) - nat (b_start b)" using b by simp
  ultimately show ?thesis
    using take_drop_overwrite_append [of "nat (b_start b)" "nat (b_end b)" d "b_arr b"] b assms
    by (simp add: content_def)
qed

lemma room_append_to [simp]: "room (append_to b d) = room b - length d"
  by (simp add: room_def nat_diff_distrib' algebra_simps)

lemma consume_inv [simp, inv_intros]: "buf_inv b \<Longrightarrow> n \<le> length (content b) \<Longrightarrow> buf_inv (consume b n)"
  by (auto simp: buf_inv_def consume_def length_content)

lemma content_consume [simp]:
  assumes "buf_inv b" "n \<le> length (content b)"
  shows "content (consume b n) = drop n (content b)"
proof -
  have "nat (b_end b - (b_start b + int n)) = nat (b_end b - b_start b) - n" by simp
  moreover have "nat (b_start b + int n) = n + nat (b_start b)"
    using assms(1) by (simp add: buf_inv_def nat_add_distrib)
  ultimately show ?thesis by (simp add: content_def consume_def drop_take)
qed

lemma consume_sel [simp]:
  "b_end (consume b n) = b_end b" "b_len (consume b n) = b_len b" "b_UDP (consume b n) = b_UDP b"
  "b_arr (consume b n) = b_arr b" "room (consume b n) = room b"
  by (simp_all add: consume_def room_def)

section \<open>The operations on well-formed buffers\<close>

lemma buf_bounds:
  "buf_inv b \<Longrightarrow> 0 \<le> b_end b \<and> b_end b < 2147483648 \<and> 0 \<le> b_start b \<and> b_start b < 2147483648
     \<and> 0 \<le> b_len b"
  by (auto simp: buf_inv_def)

lemma room_bound: "buf_inv b \<Longrightarrow> b_end b + int (room b) = b_len b"
  by (simp add: buf_inv_def room_def)

lemma buf_Len_content [buf_simps]: "buf_inv b \<Longrightarrow> buf_Len b = int (length (content b))"
  unfolding buf_Len_def by (simp add: int_length_content) (simp add: buf_inv_def)

lemma Len_content [buf_simps]: "buf_inv b \<Longrightarrow> Len (Some b) = int (length (content b))"
  by (simp add: Len_def buf_Len_content)

lemma IsEmpty_content [buf_simps]: "buf_inv b \<Longrightarrow> IsEmpty (Some b) \<longleftrightarrow> content b = []"
  by (simp add: IsEmpty_def Len_content)

lemma IsFull_room [buf_simps]: "buf_inv b \<Longrightarrow> IsFull (Some b) \<longleftrightarrow> room b = 0"
  by (auto simp: IsFull_def buf_inv_def room_def)

lemma Available_room [buf_simps]: "buf_inv b \<Longrightarrow> Available (Some b) = int (room b)"
  by (auto simp: Available_def buf_inv_def room_def)

lemma Bytes_content [buf_simps]: "buf_inv b \<Longrightarrow> Bytes b = Some (content b)"
  by (auto simp: Bytes_def buf_inv_def content_def)

lemma content_slice:
  assumes "buf_inv b" "i \<le> j" "j \<le> length (content b)"
  shows "slice (b_arr b) (b_start b + int i) (b_start b + int j) = Some (take (j - i) (drop i (content b)))"
proof -
  have j: "int j \<le> b_end b - b_start b" using assms int_length_content [OF assms(1)] by linarith
  have n: "nat (b_start b + int i) = i + nat (b_start b)"
    using assms(1) by (simp add: buf_inv_def nat_add_distrib)
  have "nat (b_end b - b_start b) - i \<ge> j - i" using j by linarith
  then have "take (j - i) (drop i (content b)) = take (j - i) (drop (i + nat (b_start b)) (b_arr b))"
    by (simp add: content_def drop_take min_def)
  moreover have "nat (b_start b + int j - (b_start b + int i)) = j - i" by simp
  ultimately show ?thesis using assms(1,2) j n by (simp add: slice_def buf_inv_def)
qed

lemma BytesTo_content [buf_simps]:
  assumes "buf_inv b" "n \<le> length (content b)"
  shows "BytesTo b (int n) = Some (take n (content b))"
proof -
  have "b_start b + int n < 2147483648" "0 \<le> b_start b + int n"
    using assms int_length_content [OF assms(1)] by (auto simp: buf_inv_def)
  then show ?thesis using content_slice [of b 0 n] assms by (simp add: BytesTo_def)
qed

lemma BytesRange_content [buf_simps]:
  assumes "buf_inv b" "i \<le> j" "j \<le> length (content b)"
  shows "BytesRange b (int i) (int j) = Some (take (j - i) (drop i (content b)))"
proof -
  have "b_start b + int j < 2147483648" "0 \<le> b_start b"
    using assms int_length_content [OF assms(1)] by (auto simp: buf_inv_def)
  then show ?thesis using content_slice [OF assms] assms(2) by (simp add: BytesRange_def)
qed

lemma BytesFrom_content [buf_simps]:
  assumes "buf_inv b" "n \<le> length (content b)"
  shows "BytesFrom b (int n) = Some (drop n (content b))"
proof -
  have "b_start b + int n < 2147483648" "0 \<le> b_start b"
    "b_start b + int (length (content b)) = b_end b"
    using assms int_length_content [OF assms(1)] by (auto simp: buf_inv_def)
  then show ?thesis using content_slice [of b n "length (content b)"] assms by (simp add: BytesFrom_def)
qed

text \<open>A negative argument counts from the end.\<close>

lemma BytesFrom_last [buf_simps]:
  assumes "buf_inv b" "n \<le> length (content b)" "0 < n"
  shows "BytesFrom b (- int n) = Some (drop (length (content b) - n) (content b))"
proof -
  have l: "int (length (content b)) < 2147483648"
    using assms(1) int_length_content [OF assms(1)] by (auto simp: buf_inv_def)
  then have "i32 (- int n + buf_Len b) = int (length (content b) - n)"
    using assms by (simp add: buf_Len_content of_nat_diff)
  then have "BytesFrom b (- int n) = BytesFrom b (int (length (content b) - n))"
    using assms(3) by (simp add: BytesFrom_def)
  then show ?thesis using assms BytesFrom_content [of b "length (content b) - n"] by simp
qed

lemma Byte_content [buf_simps]:
  assumes "buf_inv b" "i < length (content b)"
  shows "Byte b (int i) = Some (content b ! i)"
proof -
  have i: "b_start b + int i < b_end b" using assms int_length_content [OF assms(1)] by linarith
  have b: "b_end b \<le> b_len b" "b_len b \<le> int (length (b_arr b))" "b_len b < 2147483648" "0 \<le> b_start b"
    using assms(1) by (auto simp: buf_inv_def)
  have n: "nat (b_start b + int i) = nat (b_start b) + i" using b by (simp add: nat_add_distrib)
  have "content b ! i = b_arr b ! (nat (b_start b) + i)"
    using i b by (simp add: content_def)
  moreover have "take (nat (b_len b)) (b_arr b) ! (nat (b_start b) + i) = b_arr b ! (nat (b_start b) + i)"
    using i b n by (intro nth_take) linarith
  ultimately show ?thesis using i b n by (simp add: Byte_def index_def)
qed

lemma Check_id [simp]: "buf_inv b \<Longrightarrow> Check b = b"
  by (auto simp: Check_def buf_inv_def)

lemma Advance_content [buf_simps]:
  assumes "buf_inv b" "n \<le> length (content b)"
  shows "Advance b (int n) = consume b n"
proof -
  have "b_start b + int n < 2147483648" "0 \<le> b_start b"
    using assms int_length_content [OF assms(1)] by (auto simp: buf_inv_def)
  then have "Advance b (int n) = Check (consume b n)" by (simp add: Advance_def consume_def)
  then show ?thesis using assms by simp
qed

lemma Write_content [buf_simps]:
  assumes "buf_inv b"
  shows "Write b d =
    Some ((int (min (room b) (length d)), if room b < length d then Some ErrBufferFull else None),
      append_to b (take (room b) d))"
proof -
  have "b_end b + int (min (room b) (length d)) < 2147483648" "0 \<le> b_end b" "b_end b \<le> b_len b"
    using assms room_bound [OF assms] by (auto simp: buf_inv_def)
  moreover have "take (min (room b) (length d)) d = take (room b) d" by (simp add: min_def)
  ultimately show ?thesis
    by (auto simp: Write_def append_to_def room_def Let_def min_def)
qed

lemma Write_fits [buf_simps]:
  "buf_inv b \<Longrightarrow> length d \<le> room b \<Longrightarrow> Write b d = Some ((int (length d), None), append_to b d)"
  by (simp add: Write_content)

lemma WriteByte_room [buf_simps]:
  assumes "buf_inv b"
  shows "WriteByte b x = Some (if room b = 0 then (Some ErrBufferFull, b) else (None, append_to b [x]))"
proof (cases "room b = 0")
  case True
  then show ?thesis using assms by (simp add: WriteByte_def IsFull_room)
next
  case False
  have e: "0 \<le> b_end b" "b_end b < b_len b" "b_len b \<le> int (length (b_arr b))" "b_end b + 1 < 2147483649"
    using False assms by (auto simp: buf_inv_def room_def)
  then obtain a where a: "b_v b = Some a" "nat (b_end b) < length a"
    by (cases "b_v b") (auto simp: b_arr_def)
  then have "a[nat (b_end b) := x] = overwrite a (nat (b_end b)) [x]"
    by (simp add: overwrite_def upd_conv_take_nth_drop)
  then show ?thesis using a e False assms
    by (auto simp: WriteByte_def IsFull_room append_to_def b_arr_def buf_inv_def)
qed

lemma Extend_room [buf_simps]:
  assumes "buf_inv b" "n \<le> room b"
  shows "Extend b (int n) = Some ((b_end b, b_end b + int n), append_to b (replicate n 0))"
proof -
  have e: "b_end b + int n \<le> b_len b" "0 \<le> b_end b" "b_len b \<le> int (length (b_arr b))" "b_len b < 2147483648"
    using assms room_bound [OF assms(1)] by (auto simp: buf_inv_def)
  then show ?thesis using assms by (auto simp: Extend_def append_to_def Let_def)
qed

lemma Extend_panics [buf_simps]:
  assumes "buf_inv b" "room b < n" "int n < 2147483648"
  shows "Extend b (int n) = None"
proof -
  have e: "b_len b < b_end b + int n" "0 \<le> b_end b" "b_end b \<le> b_len b" "b_len b < 2147483648"
    using assms room_bound [OF assms(1)] by (auto simp: buf_inv_def)
  show ?thesis
  proof (cases "b_end b + int n < 2147483648")
    case True
    then show ?thesis using e by (simp add: Extend_def)
  next
    case False
    then have "i32 (b_end b + int n) < 0" using assms(3) e by (simp add: i32_overflow)
    then show ?thesis using e by (simp add: Extend_def)
  qed
qed

lemma ReadByte_content [buf_simps]:
  assumes "buf_inv b"
  shows "ReadByte b = Some (case content b of [] \<Rightarrow> ((0, Some EOF), b) | x # _ \<Rightarrow> ((x, None), consume b 1))"
proof (cases "content b")
  case Nil
  then have "b_start b = b_end b" using int_length_content [OF assms] by simp
  then show ?thesis using Nil by (simp add: ReadByte_def)
next
  case (Cons x xs)
  then have "Byte b (int 0) = Some x" using assms by (subst Byte_content) auto
  moreover have "b_start b < b_end b" using Cons int_length_content [OF assms] by simp
  moreover have "b_start b + 1 < 2147483648" "0 \<le> b_start b"
    using assms calculation(2) by (auto simp: buf_inv_def)
  ultimately show ?thesis using Cons by (simp add: ReadByte_def Byte_def consume_def)
qed

lemma ReadBytes_content [buf_simps]:
  assumes "buf_inv b"
  shows "ReadBytes b (int n) =
    Some (if n \<le> length (content b) then ((take n (content b), None), consume b n) else (([], Some EOF), b))"
proof (cases "n \<le> length (content b)")
  case True
  have "b_start b + int n < 2147483648" "0 \<le> b_start b" "b_end b - b_start b < 2147483648"
    using True int_length_content [OF assms] assms by (auto simp: buf_inv_def)
  moreover have "\<not> b_end b - b_start b < int n" using True int_length_content [OF assms] by linarith
  ultimately show ?thesis
    using True content_slice [OF assms, of 0 n] assms by (simp add: ReadBytes_def consume_def buf_inv_def)
next
  case False
  then have "i32 (b_end b - b_start b) < int n"
    using int_length_content [OF assms] assms by (simp add: buf_inv_def)
  then show ?thesis using False by (simp add: ReadBytes_def)
qed

lemma Resize_shrink [buf_simps]:
  assumes "buf_inv b" "n \<le> length (content b)"
  shows "Resize b 0 (int n) = Some (b\<lparr>b_end := b_start b + int n\<rparr>)"
proof -
  have "b_start b + int n \<le> b_end b" "b_start b + int n < 2147483648"
    using assms int_length_content [OF assms(1)] by (auto simp: buf_inv_def)
  then show ?thesis using assms by (simp add: Resize_def Check_def buf_inv_def Let_def)
qed

lemma shrink_content [simp]:
  assumes "buf_inv b" "n \<le> length (content b)"
  shows "content (b\<lparr>b_end := b_start b + int n\<rparr>) = take n (content b)"
    and "buf_inv (b\<lparr>b_end := b_start b + int n\<rparr>)"
proof -
  have "n \<le> nat (b_end b - b_start b)" using assms by (simp add: length_content)
  then show "content (b\<lparr>b_end := b_start b + int n\<rparr>) = take n (content b)"
    by (simp add: content_def min_absorb1)
  show "buf_inv (b\<lparr>b_end := b_start b + int n\<rparr>)"
    using assms int_length_content [OF assms(1)] by (auto simp: buf_inv_def)
qed

lemma Clear_inv [simp, inv_intros]: "buf_inv b \<Longrightarrow> buf_inv (Clear b)"
  by (auto simp: Clear_def buf_inv_def)

lemma content_Clear [simp]: "content (Clear b) = []"
  by (simp add: Clear_def content_def)

lemma room_Clear [simp]: "room (Clear b) = nat (b_len b)"
  by (simp add: Clear_def room_def)

lemma Clear_sel [simp]: "b_UDP (Clear b) = b_UDP b" "b_len (Clear b) = b_len b" "b_arr (Clear b) = b_arr b"
  by (simp_all add: Clear_def)

lemma Buffer_of_sel [simp]:
  "length a < 2147483648 \<Longrightarrow> buf_inv (Buffer_of a)" "content (Buffer_of a) = []"
  "room (Buffer_of a) = length a" "b_UDP (Buffer_of a) = None" "b_start (Buffer_of a) = 0"
  "b_end (Buffer_of a) = 0" "b_len (Buffer_of a) = int (length a)"
  by (simp_all add: Buffer_of_def buf_inv_def content_def room_def b_arr_def)

text \<open>A new buffer is empty and has \<open>Size\<close> bytes of room, whatever array the pool hands out.\<close>

lemma New_ok:
  assumes "pool_ok p"
  shows "\<exists>b p'. New p = (b, p') \<and> buf_inv b \<and> content b = [] \<and> room b = 8192 \<and> b_UDP b = None
    \<and> b_start b = 0 \<and> b_end b = 0 \<and> b_len b = 8192 \<and> pool_ok p'"
proof -
  obtain a p' where g: "pool_Get p = (a, p')" by fastforce
  then have "length a = 8192 \<and> pool_ok p'"
    using assms by (auto simp: pool_Get_def pool_ok_def Size_def split: list.splits)
  then show ?thesis using g by (simp add: New_def)
qed

lemma StackNew_New [simp]: "StackNew p = New p"
  by (simp add: StackNew_def New_def)

lemma Release_pool_ok [inv_intros]: "pool_ok p \<Longrightarrow> pool_ok (snd (Release bo p))"
  by (auto simp: Release_def pool_ok_def Size_def Let_def split: option.splits)

text \<open>Writing through the slice that \<open>Extend\<close> returned.\<close>

lemma put_at_content:
  assumes "buf_inv b" "b_start b \<le> lo" "lo + int (length d) \<le> b_end b"
  shows "content (put_at b lo d) = overwrite (content b) (nat (lo - b_start b)) d"
    and "buf_inv (put_at b lo d)" and "room (put_at b lo d) = room b" and "b_UDP (put_at b lo d) = b_UDP b"
    and "b_start (put_at b lo d) = b_start b" and "b_end (put_at b lo d) = b_end b"
proof -
  let ?s = "nat (b_start b)" and ?e = "nat (b_end b)" and ?l = "nat lo"
  have b: "0 \<le> b_start b" "?s \<le> ?l" "?l + length d \<le> ?e" "?e \<le> length (b_arr b)"
    using assms by (auto simp: buf_inv_def)
  have arr: "b_arr (put_at b lo d) = overwrite (b_arr b) ?l d"
    using b by (cases "b_v b") (auto simp: put_at_def b_arr_def overwrite_def)
  have n: "nat (b_end b - b_start b) = ?e - ?s" "nat (lo - b_start b) = ?l - ?s" using assms b by auto
  have "content (put_at b lo d) = take (?e - ?s) (drop ?s (overwrite (b_arr b) ?l d))"
    unfolding content_def arr by (simp add: put_at_def n)
  also have "drop ?s (overwrite (b_arr b) ?l d) = overwrite (drop ?s (b_arr b)) (?l - ?s) d"
    using b by (intro drop_overwrite_before) auto
  also have "take (?e - ?s) \<dots> = overwrite (take (?e - ?s) (drop ?s (b_arr b))) (?l - ?s) d"
  proof (rule take_overwrite_within)
    show "?l - ?s + length d \<le> ?e - ?s" using b(2,3) by linarith
    show "?e - ?s \<le> length (drop ?s (b_arr b))" unfolding length_drop using b(4) by linarith
  qed
  finally show "content (put_at b lo d) = overwrite (content b) (nat (lo - b_start b)) d"
    unfolding content_def n .
  show "buf_inv (put_at b lo d)"
    using assms b arr by (simp add: buf_inv_def) (simp add: put_at_def)
qed (simp_all add: put_at_def room_def)

section \<open>Buffers as readers\<close>

lemma Buffer_Read_content:
  assumes "buf_inv b" "0 < n"
  shows "Buffer_Read b n =
    Some (if content b = [] then ([], Some EOF, b)
          else (take n (content b), None,
                if length (content b) \<le> n then Clear b else consume b n))"
proof (cases "content b = []")
  case True
  then show ?thesis using assms by (simp add: Buffer_Read_def buf_Len_content)
next
  case False
  have l: "int (length (content b)) < 2147483648" "b_start b + int (length (content b)) = b_end b"
    "b_end b < 2147483648" "0 \<le> b_start b"
    using assms(1) int_length_content [OF assms(1)] by (auto simp: buf_inv_def)
  have s: "slice (b_arr b) (b_start b) (b_end b) = Some (content b)"
    using Bytes_content [OF assms(1)] by (simp add: Bytes_def)
  show ?thesis using False l s assms
    by (auto simp: Buffer_Read_def buf_Len_content consume_def min_def Let_def)
qed

interpretation buffer_rd: io_reader Buffer_Read buf_inv content "\<lambda>_. EOF" "\<lambda>_. 0"
proof unfold_locales
  fix b :: Buffer and n :: nat
  assume b: "buf_inv b" and n: "0 < n"
  show "\<exists>bs e r'. Buffer_Read b n = Some (bs, e, r') \<and> buf_inv r' \<and> length bs \<le> n
      \<and> content b = bs @ content r' \<and> EOF = EOF \<and> (e = None \<longrightarrow> bs \<noteq> [] \<or> (0::nat) < 0)
      \<and> (\<forall>x. e = Some x \<longrightarrow> x = EOF \<and> content r' = [])"
    using b n Buffer_Read_content [OF b n] by auto
qed

context io_reader
begin

text \<open>
  \<open>ReadFullFrom\<close>: with enough room and enough pending bytes they are appended; without room the
  reader is not touched; with too few bytes the error of \<open>io.ReadFull\<close> is returned.
\<close>

lemma ReadFullFrom_ok:
  assumes "rinv r" "buf_inv b" "length d \<le> room b" "pending r = d @ rest" "n = int (length d)"
  shows "\<exists>r'. ReadFullFrom rd b r n = Some ((n, None), append_to b d, r')
    \<and> rinv r' \<and> pending r' = rest \<and> final r' = final r"
proof -
  have e: "b_end b + int (length d) \<le> b_len b" "0 \<le> b_end b" "b_len b \<le> int (length (b_arr b))"
    "b_len b < 2147483648"
    using assms room_bound [OF assms(2)] by (auto simp: buf_inv_def)
  obtain r' where "ReadFull rd r (length d) = Some (d, None, r')" "rinv r'" "pending r' = rest" "final r' = final r"
    using ReadFull_enough [OF assms(1,4) refl] by auto
  then show ?thesis using e assms by (auto simp: ReadFullFrom_def append_to_def Let_def)
qed

lemma ReadFullFrom_short:
  assumes "rinv r" "buf_inv b" "n \<le> room b" "length (pending r) < n"
  shows "\<exists>r'. ReadFullFrom rd b r (int n) = Some ((int (length (pending r)),
        Some (if pending r \<noteq> [] \<and> final r = EOF then ErrUnexpectedEOF else final r)),
        append_to b (pending r), r')
      \<and> rinv r' \<and> pending r' = [] \<and> final r' = final r"
proof -
  have e: "b_end b + int n \<le> b_len b" "0 \<le> b_end b" "b_len b \<le> int (length (b_arr b))"
    "b_len b < 2147483648"
    using assms room_bound [OF assms(2)] by (auto simp: buf_inv_def)
  obtain r' where "ReadFull rd r n = Some (pending r,
      Some (if pending r \<noteq> [] \<and> final r = EOF then ErrUnexpectedEOF else final r), r')"
    "rinv r'" "pending r' = []" "final r' = final r"
    using ReadFull_short [OF assms(1,4)] by auto
  then show ?thesis using e assms by (auto simp: ReadFullFrom_def append_to_def Let_def)
qed

end

lemma ReadFullFrom_out_of_bound:
  assumes "buf_inv b" "room b < n" "b_end b + int n < 2147483648"
  shows "ReadFullFrom rd b r (int n) = Some ((0, Some (ENew ''out of bound: '' None)), b, r)"
  using assms room_bound [OF assms(1)] by (simp add: ReadFullFrom_def buf_inv_def)

section \<open>All mutating operations together\<close>

text \<open>The integer arguments are \<open>int32\<close> values.\<close>

datatype buf_op =
    OpWrite "byte list" | OpWriteByte byte | OpReadByte | OpReadBytes int | OpRead nat
  | OpAdvance int | OpResize int int | OpExtend int | OpClear | OpSetByte int byte

fun buf_apply :: "buf_op \<Rightarrow> Buffer \<Rightarrow> Buffer option" where
  "buf_apply (OpWrite d) b = map_option snd (Write b d)"
| "buf_apply (OpWriteByte x) b = map_option snd (WriteByte b x)"
| "buf_apply OpReadByte b = map_option snd (ReadByte b)"
| "buf_apply (OpReadBytes n) b = map_option snd (ReadBytes b (i32 n))"
| "buf_apply (OpRead n) b = map_option (snd \<circ> snd) (Buffer_Read b n)"
| "buf_apply (OpAdvance n) b = Some (Advance b (i32 n))"
| "buf_apply (OpResize f t) b = Resize b (i32 f) (i32 t)"
| "buf_apply (OpExtend n) b = map_option snd (Extend b (i32 n))"
| "buf_apply OpClear b = Some (Clear b)"
| "buf_apply (OpSetByte i x) b = SetByte b (i32 i) x"

fun buf_run :: "buf_op list \<Rightarrow> Buffer \<Rightarrow> Buffer option" where
  "buf_run [] b = Some b"
| "buf_run (x # xs) b = Option.bind (buf_apply x b) (buf_run xs)"

text \<open>
  Buffers made by \<open>New\<close>, \<open>StackNew\<close> and \<open>NewWithSize\<close> have a slice as long as its array; \<open>b_end\<close> then
  never leaves the slice, because the runtime checks a slice expression against the capacity.
\<close>

definition tight :: "Buffer \<Rightarrow> bool" where
  "tight b \<longleftrightarrow> buf_inv b \<and> b_len b = int (length (b_arr b))"

lemma b_arr_map:
  "b_arr (b\<lparr>b_v := map_option f (b_v b)\<rparr>) = (if b_v b = None then [] else f (b_arr b))"
  by (cases "b_v b") (auto simp: b_arr_def)

lemma tight_upd:
  assumes "tight b" "length (f (b_arr b)) = length (b_arr b)" "0 \<le> s" "s \<le> e" "e \<le> b_len b"
  shows "tight (b\<lparr>b_v := map_option f (b_v b), b_start := s, b_end := e\<rparr>)"
proof -
  have "length (b_arr (b\<lparr>b_v := map_option f (b_v b)\<rparr>)) = length (b_arr b)"
    using assms(2) by (cases "b_v b") (auto simp: b_arr_def)
  then show ?thesis using assms by (simp add: tight_def buf_inv_def b_arr_def)
qed

lemma tight_append_to: "tight b \<Longrightarrow> length d \<le> room b \<Longrightarrow> tight (append_to b d)"
  using length_overwrite [of "nat (b_end b)" d "b_arr b"]
  by (auto simp: tight_def) (auto simp: buf_inv_def room_def)

lemma tight_cursor: "tight b \<Longrightarrow> 0 \<le> s \<Longrightarrow> s \<le> e \<Longrightarrow> e \<le> b_len b \<Longrightarrow> tight (b\<lparr>b_start := s, b_end := e\<rparr>)"
  by (simp add: tight_def buf_inv_def)

lemma tight_Check: "tight b \<Longrightarrow> e \<le> b_len b \<Longrightarrow> tight (Check (b\<lparr>b_start := s, b_end := e\<rparr>))"
  by (simp add: tight_def buf_inv_def Check_def Let_def)

lemma tight_consume: "tight b \<Longrightarrow> n \<le> length (content b) \<Longrightarrow> tight (consume b n)"
  by (simp add: tight_def)

lemma tight_Clear: "tight b \<Longrightarrow> tight (Clear b)"
  by (simp add: tight_def)

lemma Extend_ge:
  assumes "tight b" "Extend b n = Some (x, b')"
  shows "\<exists>k \<le> room b. b' = append_to b (replicate k 0)"
proof -
  define e where "e = i32 (b_end b + n)"
  have "b_end b \<le> e" "e \<le> b_len b" and b': "b' = b\<lparr>b_v := map_option
        (\<lambda>a. overwrite a (nat (b_end b)) (replicate (nat (e - b_end b)) 0)) (b_v b), b_end := e\<rparr>"
    using assms by (auto simp: Extend_def Let_def e_def tight_def buf_inv_def split: if_splits)
  then have "nat (e - b_end b) \<le> room b \<and> b' = append_to b (replicate (nat (e - b_end b)) 0)"
    by (auto simp: room_def append_to_def)
  then show ?thesis by blast
qed

lemma Resize_tight:
  assumes "tight b" "Resize b f t = Some b'"
  shows "tight b'"
proof -
  define f1 where "f1 = (if f < 0 then i32 (f + buf_Len b) else f)"
  define t1 where "t1 = (if t < 0 then i32 (t + buf_Len b) else t)"
  define b1 where "b1 = Check (b\<lparr>b_end := i32 (b_start b + t1), b_start := i32 (b_start b + f1)\<rparr>)"
  have cursors: "0 \<le> b_start b1" "b_start b1 \<le> b_end b1" and arr: "b_v b1 = b_v b" "b_len b1 = b_len b"
    by (auto simp: b1_def Check_def Let_def)
  have res: "Some b' = (if b_end b1 > b_end b
       then (if 0 \<le> b_end b \<and> b_end b1 \<le> int (length (b_arr b1))
             then Some (b1\<lparr>b_v := map_option (\<lambda>a. overwrite a (nat (b_end b))
                         (replicate (nat (b_end b1 - b_end b)) 0)) (b_v b1)\<rparr>) else None)
       else Some b1)"
    using assms(2) by (simp add: Resize_def Let_def f1_def t1_def b1_def split: if_splits)
  have arr1: "b_arr b1 = b_arr b" using arr by (simp add: b_arr_def)
  have t1: "tight b1" if "b_end b1 \<le> b_len b"
    using that cursors assms(1) arr by (simp add: tight_def buf_inv_def arr1)
  show ?thesis
  proof (cases "b_end b1 > b_end b")
    case True
    then have le: "b_end b1 \<le> b_len b" and b': "b' = b1\<lparr>b_v := map_option (\<lambda>a. overwrite a (nat (b_end b))
                         (replicate (nat (b_end b1 - b_end b)) 0)) (b_v b1)\<rparr>"
      using res assms(1) arr1 by (auto simp: tight_def split: if_splits)
    have "0 \<le> b_end b" using assms(1) by (simp add: tight_def buf_inv_def)
    then have "length (overwrite (b_arr b1) (nat (b_end b)) (replicate (nat (b_end b1 - b_end b)) (0::byte)))
        = length (b_arr b1)"
      using le True assms(1) arr1 by (intro length_overwrite) (simp add: tight_def)
    then have "tight (b1\<lparr>b_v := map_option (\<lambda>a. overwrite a (nat (b_end b))
        (replicate (nat (b_end b1 - b_end b)) 0)) (b_v b1), b_start := b_start b1, b_end := b_end b1\<rparr>)"
      using cursors t1 [OF le] le arr by (intro tight_upd) auto
    then show ?thesis unfolding b' by simp
  next
    case False
    then have "b_end b1 \<le> b_len b" using assms(1) by (simp add: tight_def buf_inv_def)
    then show ?thesis using t1 res False by simp
  qed
qed

lemma ReadBytes_tight:
  assumes "tight b" "ReadBytes b n = Some (x, b')" "- 2147483648 \<le> n"
  shows "tight b'"
proof (cases "n < 0")
  case True
  have r: "0 \<le> b_start b" "b_start b \<le> b_end b" "b_end b < 2147483648"
    using assms(1) by (auto simp: tight_def buf_inv_def)
  have "\<not> i32 (b_end b - b_start b) < n" using r True by simp
  then have "slice (b_arr b) (b_start b) (i32 (b_start b + n)) \<noteq> None"
    using assms(2) by (auto simp: ReadBytes_def split: if_splits)
  then have "b_start b \<le> i32 (b_start b + n)" by (auto simp: slice_def split: if_splits)
  then show ?thesis using r True assms(3) by simp
next
  case False
  then obtain k where "n = int k" by (metis nonneg_eq_int not_less)
  then show ?thesis using assms ReadBytes_content [of b k]
    by (auto simp: tight_def split: if_splits)
qed

lemma Write_tight: "tight b \<Longrightarrow> Write b d = Some (x, b') \<Longrightarrow> tight b'"
  by (auto simp: Write_content tight_def intro: tight_append_to [unfolded tight_def, THEN conjunct2])

lemma buf_apply_tight: "tight b \<Longrightarrow> buf_apply x b = Some b' \<Longrightarrow> tight b'"
proof (cases x)
  case (OpWrite d)
  then show "tight b \<Longrightarrow> buf_apply x b = Some b' \<Longrightarrow> tight b'" by (auto intro: Write_tight)
next
  case (OpWriteByte y)
  then show "tight b \<Longrightarrow> buf_apply x b = Some b' \<Longrightarrow> tight b'"
    by (auto simp: WriteByte_room tight_def [of b] split: if_splits intro!: tight_append_to)
       (simp_all add: tight_def)
next
  case OpReadByte
  then show "tight b \<Longrightarrow> buf_apply x b = Some b' \<Longrightarrow> tight b'"
    by (auto simp: ReadByte_content tight_def [of b] split: list.splits intro!: tight_consume)
       (simp_all add: tight_def)
next
  case (OpReadBytes n)
  then show "tight b \<Longrightarrow> buf_apply x b = Some b' \<Longrightarrow> tight b'"
    using i32_range [of n] by (auto intro: ReadBytes_tight)
next
  case (OpRead n)
  show "tight b \<Longrightarrow> buf_apply x b = Some b' \<Longrightarrow> tight b'"
  proof -
    assume t: "tight b" and a: "buf_apply x b = Some b'"
    have i: "buf_inv b" using t by (simp add: tight_def)
    consider "n = 0" | "0 < n" by auto
    then show "tight b'"
    proof cases
      case 1
      have "slice (b_arr b) (b_start b) (b_end b) = Some (content b)"
        using Bytes_content [OF i] by (simp add: Bytes_def)
      then show ?thesis using a t i OpRead 1
        by (auto simp: Buffer_Read_def buf_Len_content Let_def buf_inv_def split: if_splits)
    next
      case 2
      then show ?thesis using a t i OpRead
        by (auto simp: Buffer_Read_content split: if_splits intro: tight_Clear tight_consume)
    qed
  qed
next
  case (OpAdvance n)
  define s where "s = b_start (b\<lparr>b_start := i32 (b_start b +
      (if i32 n < 0 then i32 (i32 n + buf_Len b) else i32 n))\<rparr>)"
  show "tight b \<Longrightarrow> buf_apply x b = Some b' \<Longrightarrow> tight b'"
    using OpAdvance tight_Check [of b "b_end b" s]
    by (auto simp: Advance_def s_def Let_def tight_def [of b] buf_inv_def [of b])
next
  case (OpResize f t)
  then show "tight b \<Longrightarrow> buf_apply x b = Some b' \<Longrightarrow> tight b'" by (auto intro: Resize_tight)
next
  case (OpExtend n)
  then show "tight b \<Longrightarrow> buf_apply x b = Some b' \<Longrightarrow> tight b'"
    using Extend_ge [of b "i32 n"] by (auto intro!: tight_append_to)
next
  case OpClear
  then show "tight b \<Longrightarrow> buf_apply x b = Some b' \<Longrightarrow> tight b'" by (auto intro: tight_Clear)
next
  case (OpSetByte i y)
  show "tight b \<Longrightarrow> buf_apply x b = Some b' \<Longrightarrow> tight b'"
    using OpSetByte tight_upd [of b "\<lambda>a. a[nat (i32 (b_start b + i32 i)) := y]" "b_start b" "b_end b"]
    by (auto simp: SetByte_def Let_def tight_def [of b] buf_inv_def [of b] split: if_splits)
qed

lemma buf_run_tight: "tight b \<Longrightarrow> buf_run xs b = Some b' \<Longrightarrow> tight b'"
  by (induction xs arbitrary: b) (auto simp: bind_Some_iff dest: buf_apply_tight)

lemma buf_apply_len: "buf_apply x b = Some b' \<Longrightarrow> b_len b' = b_len b"
proof (cases x)
  case (OpResize f t)
  have "b_len (Check c) = b_len c" for c by (simp add: Check_def Let_def)
  then show "buf_apply x b = Some b' \<Longrightarrow> b_len b' = b_len b"
    using OpResize by (auto simp: Resize_def Let_def split: if_splits)
qed (auto simp: Write_def WriteByte_def ReadByte_def ReadBytes_def Buffer_Read_def Advance_def
    Extend_def SetByte_def Check_def Let_def split: if_splits)

lemma buf_run_len: "buf_run xs b = Some b' \<Longrightarrow> b_len b' = b_len b"
  by (induction xs arbitrary: b) (auto simp: bind_Some_iff dest: buf_apply_len)

lemma New_tight: "pool_ok p \<Longrightarrow> New p = (b, p') \<Longrightarrow> tight b \<and> b_len b = 8192"
  by (auto simp: New_def pool_Get_def pool_ok_def Size_def tight_def b_arr_def Buffer_of_def buf_inv_def
    split: list.splits)

lemma New_empty_pool: "New [] = (Buffer_of (replicate 8192 0), [])"
  by (simp add: New_def pool_Get_def Size_def)

lemma zero_buffer [simp]: "buf_inv (Buffer_of (replicate 8192 0))" "tight (Buffer_of (replicate 8192 0))"
  by (simp_all add: tight_def Buffer_of_def b_arr_def buf_inv_def)

section \<open>Properties\<close>



text \<open>
  \<open>Write\<close> on a well-formed buffer never panics: it appends the longest prefix of the data that fits,
  reports its length, leaves the earlier content alone and returns \<open>ErrBufferFull\<close> exactly when bytes
  were left over.
\<close>

theorem buffer_write_spec:
  assumes "buf_inv b"
  shows "\<exists>b'. Write b d = Some ((int (min (room b) (length d)),
           if room b < length d then Some ErrBufferFull else None), b')
         \<and> content b' = content b @ take (room b) d \<and> room b' = room b - length d \<and> buf_inv b'"
  using assms by (simp add: Write_content)

theorem buffer_write_spec_witness:
  "\<exists>b. buf_inv b \<and> room b = 2 \<and> (\<exists>b'. Write b [7, 8, 9] = Some ((2, Some ErrBufferFull), b') \<and> content b' = [7, 8])"
proof -
  let ?b = "Buffer_of [0, 0]"
  have i: "buf_inv ?b" and r: "room ?b = 2" by simp_all
  show ?thesis using buffer_write_spec [OF i, of "[7, 8, 9]"] i r by (intro exI [of _ ?b]) auto
qed

text \<open>
  A recycled array never leaks old bytes: growing the content with \<open>Extend\<close> or with \<open>Resize\<close> exposes
  zero bytes only, and asking for more than the slice holds panics.
\<close>

theorem buffer_growth_is_zeroed:
  assumes "tight b" "length (content b) \<le> n" "int n < 2147483648"
  shows "(if n - length (content b) \<le> room b
          then (\<exists>x b'. Extend b (int (n - length (content b))) = Some (x, b')
                  \<and> content b' = content b @ replicate (n - length (content b)) 0)
             \<and> (\<exists>b'. Resize b 0 (int n) = Some b' \<and> content b' = content b @ replicate (n - length (content b)) 0)
          else Extend b (int (n - length (content b))) = None)"
proof (cases "n - length (content b) \<le> room b")
  case True
  define k where "k = n - length (content b)"
  have i: "buf_inv b" using assms(1) by (simp add: tight_def)
  have k: "k \<le> room b" "n = length (content b) + k" using True assms(2) by (simp_all add: k_def)
  have e: "b_start b + int n = b_end b + int k" "b_end b + int k \<le> b_len b" "b_len b < 2147483648"
    "0 \<le> b_end b" "0 \<le> b_start b" "b_start b \<le> b_end b" "b_len b = int (length (b_arr b))"
    using k int_length_content [OF i] room_bound [OF i] assms(1) by (auto simp: tight_def buf_inv_def)
  have r: "Resize b 0 (int n) = Some (append_to b (replicate k 0))"
  proof (cases "k = 0")
    case True
    then have "overwrite a m ([] :: byte list) = a" for a m by (simp add: overwrite_def)
    then show ?thesis using True e by (simp add: Resize_def Check_def Let_def append_to_def option.map_ident)
  next
    case False
    then show ?thesis using e by (simp add: Resize_def Check_def Let_def append_to_def b_arr_def)
  qed
  show ?thesis using r k i by (simp add: k_def [symmetric] Extend_room)
next
  case False
  then show ?thesis using assms Extend_panics [of b "n - length (content b)"] by (simp add: tight_def)
qed

theorem buffer_growth_is_zeroed_witness:
  "\<exists>b. tight b \<and> (\<exists>b'. Resize b 0 2 = Some b' \<and> content b' = [0, 0]) \<and> b_arr b = [9, 9, 9]"
proof -
  let ?b = "Buffer_of [9, 9, 9]"
  have t: "tight ?b" by (simp add: tight_def Buffer_of_def b_arr_def buf_inv_def)
  have a: "b_arr ?b = [9, 9, 9]" by (simp add: Buffer_of_def b_arr_def)
  show ?thesis using buffer_growth_is_zeroed [of ?b 2] t a by (auto simp: numeral_2_eq_2)
qed

text \<open>
  Releasing is idempotent: a second \<open>Release\<close> of the same buffer changes neither the buffer nor the
  pool, so one array is never handed back twice.
\<close>

theorem release_once: "Release (fst (Release bo p)) q = (fst (Release bo p), q)"
  by (auto simp: Release_def Clear_def Let_def split: option.splits)

end
