(* ===== verification/Multi_Buffer.thy ===== *)
theory Multi_Buffer
  imports Buffer
begin

text \<open>
  \<open>common/buf/multi_buffer.go\<close>: lists of buffers. A \<open>MultiBuffer\<close> element is a pointer, so an element of
  the list is a \<open>Buffer option\<close> with \<open>None\<close> for nil. Functions that allocate or release buffers take and
  return the pool. A slice that the source cuts to \<open>mb[:0]\<close> or \<open>mb[k:]\<close> is the list of what stays in it.
\<close>

type_synonym MultiBuffer = "Buffer option list"

section \<open>Operations\<close>

definition MergeMulti :: "MultiBuffer \<Rightarrow> MultiBuffer \<Rightarrow> MultiBuffer \<times> MultiBuffer" where
  "MergeMulti dest src = (dest @ src, [])"

partial_function (option) MergeBytes_loop ::
  "pool \<Rightarrow> MultiBuffer \<Rightarrow> byte list \<Rightarrow> (MultiBuffer \<times> pool) option"
where
  "MergeBytes_loop p dest src =
     (if src = [] then Some (dest, p)
      else (case New p of (b, p') \<Rightarrow>
        Option.bind (Write b src) (\<lambda>x. case x of ((n, _), b') \<Rightarrow>
          MergeBytes_loop p' (dest @ [Some b']) (drop (nat n) src))))"

declare MergeBytes_loop.simps [code]

definition MergeBytes :: "pool \<Rightarrow> MultiBuffer \<Rightarrow> byte list \<Rightarrow> (MultiBuffer \<times> pool) option" where
  "MergeBytes p dest src =
     (if dest \<noteq> [] \<and> \<not> IsFull (last dest)
      then (case last dest of
              None \<Rightarrow> None
            | Some b \<Rightarrow> Option.bind (Write b src) (\<lambda>x. case x of ((n, _), b') \<Rightarrow>
                MergeBytes_loop p (butlast dest @ [Some b']) (drop (nat n) src)))
      else MergeBytes_loop p dest src)"

fun ReleaseMulti :: "MultiBuffer \<Rightarrow> pool \<Rightarrow> MultiBuffer \<times> pool" where
  "ReleaseMulti [] p = ([], p)"
| "ReleaseMulti (bo # mb) p = ReleaseMulti mb (snd (Release bo p))"

text \<open>\<open>Copy\<close> into a slice of \<open>n\<close> bytes: the bytes stored, whose number is the result.\<close>

fun MB_Copy :: "MultiBuffer \<Rightarrow> nat \<Rightarrow> byte list option" where
  "MB_Copy [] n = Some []"
| "MB_Copy (bo # mb) n =
     Option.bind bo (\<lambda>bb. Option.bind (Bytes bb) (\<lambda>s.
       let d = take n s
       in if i32 (int (length d)) < buf_Len bb then Some d
          else map_option ((@) d) (MB_Copy mb (n - length d))))"

partial_function (option) MB_ReadFrom_loop ::
  "'r io_read \<Rightarrow> pool \<Rightarrow> MultiBuffer \<Rightarrow> 'r \<Rightarrow> (MultiBuffer \<times> goerr option \<times> pool \<times> 'r) option"
where
  "MB_ReadFrom_loop rd p mb r =
     (case New p of (b, p1) \<Rightarrow>
       Option.bind (ReadFullFrom rd b r Size) (\<lambda>x. case x of ((_, err), b', r') \<Rightarrow>
         (let mbp = (if IsEmpty (Some b') then (mb, snd (Release (Some b') p1)) else (mb @ [Some b'], p1))
          in case err of
               Some e \<Rightarrow>
                 if Cause e = EOF \<or> Cause e = ErrUnexpectedEOF then Some (fst mbp, None, snd mbp, r')
                 else Some (fst mbp, Some e, snd mbp, r')
             | None \<Rightarrow> MB_ReadFrom_loop rd (snd mbp) (fst mbp) r')))"

definition MB_ReadFrom ::
  "'r io_read \<Rightarrow> pool \<Rightarrow> 'r \<Rightarrow> (MultiBuffer \<times> goerr option \<times> pool \<times> 'r) option" where
  "MB_ReadFrom rd p r = MB_ReadFrom_loop rd p [] r"

text \<open>
  \<open>SplitBytes\<close> into a slice of \<open>n\<close> bytes: the leftover, the bytes stored and the pool. \<open>Read\<close> on a nil
  buffer gives no bytes.
\<close>

fun SplitBytes :: "MultiBuffer \<Rightarrow> nat \<Rightarrow> pool \<Rightarrow> (MultiBuffer \<times> byte list \<times> pool) option" where
  "SplitBytes [] n p = Some ([], [], p)"
| "SplitBytes (None # mb) n p = SplitBytes mb n p"
| "SplitBytes (Some b # mb) n p =
     Option.bind (Buffer_Read b n) (\<lambda>(d, _, b').
       if \<not> IsEmpty (Some b') then Some (Some b' # mb, d, p)
       else map_option (\<lambda>(mb', d', p'). (mb', d @ d', p'))
              (SplitBytes mb (n - length d) (snd (Release (Some b') p))))"

definition SplitFirst :: "MultiBuffer \<Rightarrow> MultiBuffer \<times> Buffer option" where
  "SplitFirst mb = (case mb of [] \<Rightarrow> ([], None) | b # mb' \<Rightarrow> (mb', b))"

definition SplitFirstBytes :: "MultiBuffer \<Rightarrow> nat \<Rightarrow> pool \<Rightarrow> (MultiBuffer \<times> byte list \<times> pool) option" where
  "SplitFirstBytes mb n p =
     (case SplitFirst mb of
        (mb', None) \<Rightarrow> Some (mb', [], p)
      | (mb', Some b) \<Rightarrow>
          map_option (\<lambda>s. (mb', take n s, snd (Release (Some b) p))) (Bytes b))"

fun Compact_loop :: "MultiBuffer \<Rightarrow> MultiBuffer \<Rightarrow> Buffer option \<Rightarrow> pool \<Rightarrow> (MultiBuffer \<times> pool) option" where
  "Compact_loop [] mb2 lst p = Some (mb2 @ [lst], p)"
| "Compact_loop (cur # mb) mb2 lst p =
     (if Len cur > Available lst then Compact_loop mb (mb2 @ [lst]) cur p
      else (case (lst, cur) of
              (Some l, Some c) \<Rightarrow>
                Option.bind (Buffer_ReadFrom Buffer_Read l c) (\<lambda>(_, l', c').
                  Compact_loop mb mb2 (Some l') (snd (Release (Some c') p)))
            | (Some l, None) \<Rightarrow> Compact_loop mb mb2 (Some l) p
            | (None, _) \<Rightarrow> None))"

definition Compact :: "MultiBuffer \<Rightarrow> pool \<Rightarrow> (MultiBuffer \<times> pool) option" where
  "Compact mb p = (case mb of [] \<Rightarrow> Some ([], p) | b # rest \<Rightarrow> Compact_loop rest [] b p)"

text \<open>The second loop of \<open>SplitSize\<close>: whole buffers while the total stays within \<open>size\<close>.\<close>

fun SplitSize_loop :: "MultiBuffer \<Rightarrow> int \<Rightarrow> int \<Rightarrow> MultiBuffer \<Rightarrow> MultiBuffer \<times> MultiBuffer" where
  "SplitSize_loop [] sz tot r = ([], r)"
| "SplitSize_loop (bo # mb) sz tot r =
     (if i32 (tot + Len bo) > sz then (bo # mb, r)
      else SplitSize_loop mb sz (i32 (tot + Len bo)) (r @ [bo]))"

definition SplitSize :: "pool \<Rightarrow> MultiBuffer \<Rightarrow> int \<Rightarrow> (MultiBuffer \<times> MultiBuffer \<times> pool) option" where
  "SplitSize p mb sz =
     (case mb of
        [] \<Rightarrow> Some ([], [], p)
      | bo # rest \<Rightarrow>
          if Len bo > sz then
            (case bo of
               None \<Rightarrow> None
             | Some b0 \<Rightarrow>
                 (case New p of (b, p') \<Rightarrow>
                   Option.bind (Extend b sz) (\<lambda>(ext, b1).
                     Option.bind (BytesTo b0 sz) (\<lambda>s.
                       Some (Some (Advance b0 sz) # rest,
                             [Some (put_at b1 (fst ext) (take (nat (snd ext - fst ext)) s))], p')))))
          else (case SplitSize_loop mb sz 0 [] of (l, r) \<Rightarrow> Some (l, r, p)))"

text \<open>
  An \<open>io.Writer\<close> is passed as its \<open>Write\<close> method. \<open>WriteMultiBuffer\<close> stops at the first nil buffer as it
  does at the end of the list.
\<close>

type_synonym 'w io_write = "'w \<Rightarrow> byte list \<Rightarrow> (int \<times> goerr option \<times> 'w) option"

fun WriteMultiBuffer ::
  "'w io_write \<Rightarrow> 'w \<Rightarrow> MultiBuffer \<Rightarrow> pool \<Rightarrow> (MultiBuffer \<times> goerr option \<times> 'w \<times> pool) option" where
  "WriteMultiBuffer wr w [] p = Some ([], None, w, p)"
| "WriteMultiBuffer wr w (None # mb) p = Some ([], None, w, p)"
| "WriteMultiBuffer wr w (Some b # mb) p =
     Option.bind (Bytes b) (\<lambda>s. Option.bind (wr w s) (\<lambda>(_, err, w').
       let p' = snd (Release (Some b) p)
       in case err of
            Some e \<Rightarrow> Some (mb, Some e, w', p')
          | None \<Rightarrow> WriteMultiBuffer wr w' mb p'))"

fun MB_Len_from :: "int \<Rightarrow> MultiBuffer \<Rightarrow> int" where
  "MB_Len_from n [] = n"
| "MB_Len_from n (b # mb) = MB_Len_from (i32 (n + Len b)) mb"

definition MB_Len :: "MultiBuffer \<Rightarrow> int" where
  "MB_Len mb = MB_Len_from 0 mb"

fun MB_IsEmpty :: "MultiBuffer \<Rightarrow> bool" where
  "MB_IsEmpty [] = True"
| "MB_IsEmpty (b # mb) = (if \<not> IsEmpty b then False else MB_IsEmpty mb)"

text \<open>\<open>String\<close> concatenates the strings of the buffers; a nil pointer inside panics.\<close>

fun MB_String :: "MultiBuffer \<Rightarrow> byte list option" where
  "MB_String [] = Some []"
| "MB_String (bo # mb) =
     Option.bind bo (\<lambda>b. Option.bind (Bytes b) (\<lambda>s. map_option ((@) s) (MB_String mb)))"

definition ReadAllToBytes ::
  "'r io_read \<Rightarrow> pool \<Rightarrow> 'r \<Rightarrow> (byte list \<times> goerr option \<times> pool \<times> 'r) option" where
  "ReadAllToBytes rd p r =
     Option.bind (MB_ReadFrom rd p r) (\<lambda>(mb, err, p', r').
       case err of
         Some e \<Rightarrow> Some ([], Some e, p', r')
       | None \<Rightarrow>
           if MB_Len mb = 0 then Some ([], None, p', r')
           else if MB_Len mb < 0 then None
           else Option.bind (SplitBytes mb (nat (MB_Len mb)) p') (\<lambda>(mb', d, p'').
                  Some (d @ replicate (nat (MB_Len mb) - length d) 0, None, snd (ReleaseMulti mb' p''), r')))"

section \<open>MultiBufferContainer\<close>

text \<open>The container holds one MultiBuffer; its state is paired with the pool it releases into.\<close>

type_synonym container = "MultiBuffer \<times> pool"

definition MBC_Read :: "container io_read" where
  "MBC_Read c n =
     (if MB_IsEmpty (fst c) then Some ([], Some EOF, c)
      else map_option (\<lambda>(mb, d, p). (d, None, (mb, p))) (SplitBytes (fst c) n (snd c)))"

definition MBC_ReadMultiBuffer :: "container \<Rightarrow> MultiBuffer \<times> container" where
  "MBC_ReadMultiBuffer c = (fst c, ([], snd c))"

definition MBC_Write :: "container \<Rightarrow> byte list \<Rightarrow> (int \<times> goerr option \<times> container) option" where
  "MBC_Write c d = map_option (\<lambda>mbp. (int (length d), None, mbp)) (MergeBytes (snd c) (fst c) d)"

definition MBC_WriteMultiBuffer :: "container \<Rightarrow> MultiBuffer \<Rightarrow> container" where
  "MBC_WriteMultiBuffer c b = (fst (MergeMulti (fst c) b), snd c)"

definition MBC_Close :: "container \<Rightarrow> container" where
  "MBC_Close c = ReleaseMulti (fst c) (snd c)"

section \<open>Content\<close>

fun pcontent :: "Buffer option \<Rightarrow> byte list" where
  "pcontent None = []"
| "pcontent (Some b) = content b"

definition mcontent :: "MultiBuffer \<Rightarrow> byte list" where
  "mcontent mb = concat (map pcontent mb)"

definition mb_inv :: "MultiBuffer \<Rightarrow> bool" where
  "mb_inv mb \<longleftrightarrow> (\<forall>b. Some b \<in> set mb \<longrightarrow> buf_inv b)"

lemma mcontent_simps [simp]:
  "mcontent [] = []" "mcontent (x # mb) = pcontent x @ mcontent mb" "mcontent (xs @ ys) = mcontent xs @ mcontent ys"
  by (simp_all add: mcontent_def)

lemma mb_inv_simps [simp]:
  "mb_inv []" "mb_inv (None # mb) \<longleftrightarrow> mb_inv mb" "mb_inv (Some b # mb) \<longleftrightarrow> buf_inv b \<and> mb_inv mb"
  "mb_inv (xs @ ys) \<longleftrightarrow> mb_inv xs \<and> mb_inv ys"
  by (auto simp: mb_inv_def)

lemma Len_pcontent: "mb_inv [bo] \<Longrightarrow> Len bo = int (length (pcontent bo))"
  by (cases bo) (auto simp: Len_def buf_Len_content)

lemma IsEmpty_pcontent: "mb_inv [bo] \<Longrightarrow> IsEmpty bo \<longleftrightarrow> pcontent bo = []"
  by (simp add: IsEmpty_def Len_pcontent)

lemma mb_inv_Cons: "mb_inv (bo # mb) \<longleftrightarrow> mb_inv [bo] \<and> mb_inv mb"
  by (cases bo) auto

lemma MB_IsEmpty_mcontent [simp]: "mb_inv mb \<Longrightarrow> MB_IsEmpty mb \<longleftrightarrow> mcontent mb = []"
proof (induction mb)
  case (Cons bo mb)
  then show ?case using mb_inv_Cons [of bo mb] by (auto simp: IsEmpty_pcontent)
qed simp

lemma MB_Len_from_mcontent:
  "mb_inv mb \<Longrightarrow> 0 \<le> n \<Longrightarrow> n + int (length (mcontent mb)) < 2147483648 \<Longrightarrow>
   MB_Len_from n mb = n + int (length (mcontent mb))"
proof (induction mb arbitrary: n)
  case (Cons bo mb)
  then have l: "Len bo = int (length (pcontent bo))" and i: "mb_inv mb"
    using mb_inv_Cons [of bo mb] by (auto simp: Len_pcontent)
  then have "i32 (n + Len bo) = n + int (length (pcontent bo))" using Cons.prems by simp
  then show ?case using Cons.IH [OF i, of "n + int (length (pcontent bo))"] Cons.prems l by simp
qed simp

lemma MB_Len_Nil [simp]: "MB_Len [] = 0"
  by (simp add: MB_Len_def)

lemma MB_Len_mcontent:
  "mb_inv mb \<Longrightarrow> int (length (mcontent mb)) < 2147483648 \<Longrightarrow> MB_Len mb = int (length (mcontent mb))"
  by (simp add: MB_Len_def MB_Len_from_mcontent)

lemma ReleaseMulti_pool_ok: "pool_ok p \<Longrightarrow> fst (ReleaseMulti mb p) = [] \<and> pool_ok (snd (ReleaseMulti mb p))"
  by (induction mb p rule: ReleaseMulti.induct) (auto intro: Release_pool_ok)

lemma MB_String_mcontent: "mb_inv mb \<Longrightarrow> None \<notin> set mb \<Longrightarrow> MB_String mb = Some (mcontent mb)"
proof (induction mb)
  case (Cons bo mb)
  then show ?case by (cases bo) (auto simp: Bytes_content)
qed simp

section \<open>Correctness of the operations\<close>

lemma Buffer_Read_0:
  assumes "buf_inv b"
  shows "\<exists>e b'. Buffer_Read b 0 = Some ([], e, b') \<and> content b' = content b \<and> buf_inv b'"
proof -
  have "slice (b_arr b) (b_start b) (b_end b) = Some (content b)"
    using Bytes_content [OF assms] by (simp add: Bytes_def)
  moreover have "b\<lparr>b_start := i32 (b_start b)\<rparr> = b" using buf_bounds [OF assms] by simp
  ultimately show ?thesis using assms by (auto simp: Buffer_Read_def buf_Len_content)
qed

lemma Buffer_Read_split:
  assumes "buf_inv b"
  shows "\<exists>e b'. Buffer_Read b n = Some (take n (content b), e, b') \<and> content b' = drop n (content b) \<and> buf_inv b'"
proof (cases "n = 0")
  case True
  then show ?thesis using Buffer_Read_0 [OF assms] by simp
next
  case False
  then show ?thesis using assms by (simp add: Buffer_Read_content)
qed

lemma SplitBytes_split:
  assumes "mb_inv mb" "pool_ok p"
  shows "\<exists>mb' p'. SplitBytes mb n p = Some (mb', take n (mcontent mb), p')
    \<and> mcontent mb' = drop n (mcontent mb) \<and> mb_inv mb' \<and> pool_ok p'"
  using assms
proof (induction mb n p rule: SplitBytes.induct)
  case (3 b mb n p)
  then obtain e b' where r: "Buffer_Read b n = Some (take n (content b), e, b')"
    "content b' = drop n (content b)" "buf_inv b'"
    using Buffer_Read_split [of b n] by auto
  show ?case
  proof (cases "content b' = []")
    case False
    then have "n < length (content b)" using r(2) by simp
    then show ?thesis using 3 r False by (simp add: IsEmpty_content)
  next
    case True
    then have n: "length (content b) \<le> n" using r(2) by simp
    then have l: "length (take n (content b)) = length (content b)" by simp
    have "\<exists>mb' p'. SplitBytes mb (n - length (take n (content b))) (snd (Release (Some b') p)) =
        Some (mb', take (n - length (take n (content b))) (mcontent mb), p')
        \<and> mcontent mb' = drop (n - length (take n (content b))) (mcontent mb) \<and> mb_inv mb' \<and> pool_ok p'"
      using 3 r True by (intro "3.IH") (auto simp: IsEmpty_content intro: Release_pool_ok)
    then show ?thesis using r True n l by (auto simp: IsEmpty_content)
  qed
qed auto

lemma MergeBytes_loop_mcontent:
  assumes "mb_inv dest" "pool_ok p"
  shows "\<exists>mb p'. MergeBytes_loop p dest src = Some (mb, p') \<and> mcontent mb = mcontent dest @ src
    \<and> mb_inv mb \<and> pool_ok p'"
  using assms
proof (induction "length src" arbitrary: src dest p rule: less_induct)
  case less
  show ?case
  proof (cases "src = []")
    case True
    then show ?thesis using less.prems by (simp add: MergeBytes_loop.simps)
  next
    case False
    obtain b p1 where b: "New p = (b, p1)" "buf_inv b" "content b = []" "room b = 8192" "pool_ok p1"
      using New_ok [OF less.prems(2)] by auto
    let ?b = "append_to b (take 8192 src)"
    have w: "Write b src = Some ((int (min 8192 (length src)),
        if 8192 < length src then Some ErrBufferFull else None), ?b)"
      using b by (simp add: Write_content)
    have i: "mb_inv (dest @ [Some ?b])" "mcontent (dest @ [Some ?b]) = mcontent dest @ take 8192 src"
      using b less.prems(1) by auto
    have "length (drop 8192 src) < length src" using False by simp
    from less.hyps [OF this i(1) b(5)] obtain mb p' where
      "MergeBytes_loop p1 (dest @ [Some ?b]) (drop 8192 src) = Some (mb, p')"
      "mcontent mb = (mcontent dest @ take 8192 src) @ drop 8192 src" "mb_inv mb" "pool_ok p'"
      using i(2) by auto
    moreover have "drop (nat (int (min 8192 (length src)))) src = drop 8192 src" by (simp add: min_def)
    ultimately show ?thesis using False b(1) w by (subst MergeBytes_loop.simps) simp
  qed
qed

lemma mb_inv_last: "mb_inv mb \<Longrightarrow> mb \<noteq> [] \<Longrightarrow> last mb = Some b \<Longrightarrow> buf_inv b"
  by (metis last_in_set mb_inv_def)

lemma MergeBytes_mcontent:
  assumes "mb_inv dest" "pool_ok p" "None \<notin> set dest"
  shows "\<exists>mb p'. MergeBytes p dest src = Some (mb, p') \<and> mcontent mb = mcontent dest @ src
    \<and> mb_inv mb \<and> pool_ok p'"
proof (cases "dest \<noteq> [] \<and> \<not> IsFull (last dest)")
  case True
  then obtain b where l: "last dest = Some b" using assms(3) by (metis last_in_set option.exhaust)
  have b: "buf_inv b" using mb_inv_last assms(1) True l by blast
  have d: "dest = butlast dest @ [Some b]" using True l by (metis append_butlast_last_id)
  have "mb_inv (butlast dest)" using assms(1) d by (metis mb_inv_simps(4))
  then have i: "mb_inv (butlast dest @ [Some (append_to b (take (room b) src))])" using b by simp
  have c: "mcontent dest = mcontent (butlast dest) @ content b"
    using arg_cong [OF d, of mcontent] by simp
  have "drop (nat (int (min (room b) (length src)))) src = drop (room b) src" by (simp add: min_def)
  then show ?thesis
    using True l b c MergeBytes_loop_mcontent [OF i assms(2), of "drop (room b) src"]
    by (simp add: MergeBytes_def Write_content)
next
  case False
  then show ?thesis using MergeBytes_loop_mcontent [OF assms(1,2), of src] by (auto simp: MergeBytes_def)
qed

lemma SplitSize_loop_split:
  assumes "mb_inv mb" "mb_inv r" "0 \<le> tot" "tot \<le> sz" "tot + int (length (mcontent mb)) < 2147483648"
    "SplitSize_loop mb sz tot r = (l, r')"
  shows "mcontent r' @ mcontent l = mcontent r @ mcontent mb \<and> mb_inv l \<and> mb_inv r'
    \<and> int (length (mcontent r')) \<le> int (length (mcontent r)) + (sz - tot)"
  using assms
proof (induction mb sz tot r rule: SplitSize_loop.induct)
  case (2 bo mb sz tot r)
  have l: "Len bo = int (length (pcontent bo))" and i: "mb_inv [bo]" "mb_inv mb"
    using 2(2) mb_inv_Cons [of bo mb] by (auto simp: Len_pcontent)
  have e: "i32 (tot + Len bo) = tot + int (length (pcontent bo))" using 2(4,6) l by simp
  show ?case
  proof (cases "i32 (tot + Len bo) > sz")
    case True
    then show ?thesis using 2 by auto
  next
    case False
    have "mcontent r' @ mcontent l = mcontent (r @ [bo]) @ mcontent mb \<and> mb_inv l \<and> mb_inv r'
        \<and> int (length (mcontent r')) \<le> int (length (mcontent (r @ [bo]))) + (sz - i32 (tot + Len bo))"
      using False 2 i e by (intro "2.IH") auto
    then show ?thesis using e by simp
  qed
qed auto

lemma SplitSize_split:
  assumes "mb_inv mb" "pool_ok p" "0 \<le> sz" "sz \<le> 8192" "int (length (mcontent mb)) < 2147483648"
  shows "\<exists>l r p'. SplitSize p mb sz = Some (l, r, p') \<and> mcontent r @ mcontent l = mcontent mb
    \<and> int (length (mcontent r)) \<le> sz \<and> mb_inv l \<and> mb_inv r \<and> pool_ok p'"
proof (cases mb)
  case Nil
  then show ?thesis using assms by (simp add: SplitSize_def)
next
  case (Cons bo rest)
  show ?thesis
  proof (cases "Len bo > sz")
    case False
    obtain l r where lr: "SplitSize_loop mb sz 0 [] = (l, r)" by fastforce
    then show ?thesis
      using SplitSize_loop_split [OF assms(1) _ _ assms(3) _ lr] assms Cons False
      by (auto simp: SplitSize_def)
  next
    case True
    then obtain b0 where b0: "bo = Some b0" using assms(3) by (cases bo) (auto simp: Len_def)
    have i0: "buf_inv b0" "mb_inv rest" using assms(1) Cons b0 by auto
    obtain k where k: "sz = int k" using assms(3) nonneg_eq_int by blast
    have kl: "k < length (content b0)" using True b0 i0 k by (simp add: Len_content)
    obtain b p' where b: "New p = (b, p')" "buf_inv b" "content b = []" "room b = 8192" "b_start b = 0"
      "b_end b = 0" "pool_ok p'"
      using New_ok [OF assms(2)] by auto
    let ?b1 = "append_to b (replicate k 0)"
    have k8: "k \<le> 8192" using assms(4) k by simp
    have ext: "Extend b sz = Some ((0, int k), ?b1)" using Extend_room [of b k] b k k8 by simp
    have bt: "BytesTo b0 sz = Some (take k (content b0))" using BytesTo_content [of b0 k] i0 kl k by simp
    have adv: "Advance b0 sz = consume b0 k" using Advance_content [of b0 k] i0 kl k by simp
    let ?b2 = "put_at ?b1 0 (take k (content b0))"
    have "content ?b2 = overwrite (replicate k 0) 0 (take k (content b0))" "buf_inv ?b2"
      using put_at_content [of ?b1 0 "take k (content b0)"] b k8 kl by simp_all
    then have "content ?b2 = take k (content b0)" "buf_inv ?b2" using kl by (simp_all add: overwrite_def)
    then show ?thesis using b ext bt adv i0 kl True Cons b0 k by (simp add: SplitSize_def)
  qed
qed

lemma Compact_loop_mcontent:
  assumes "mb_inv mb" "None \<notin> set mb" "mb_inv mb2" "lst = Some l" "buf_inv l" "pool_ok p"
  shows "\<exists>out p'. Compact_loop mb mb2 lst p = Some (out, p') \<and> mcontent out = mcontent mb2 @ content l @ mcontent mb
    \<and> mb_inv out \<and> pool_ok p' \<and> length out \<le> length mb2 + 1 + length mb"
  using assms
proof (induction mb arbitrary: mb2 l lst p)
  case Nil
  then show ?case by simp
next
  case (Cons bo mb)
  then obtain c where bo: "bo = Some c" by (cases bo) auto
  have c: "buf_inv c" "mb_inv mb" "None \<notin> set mb" using Cons.prems(1,2) bo by auto
  show ?case
  proof (cases "room l < length (content c)")
    case True
    have "\<exists>out p'. Compact_loop mb (mb2 @ [Some l]) (Some c) p = Some (out, p')
        \<and> mcontent out = mcontent (mb2 @ [Some l]) @ content c @ mcontent mb \<and> mb_inv out \<and> pool_ok p'
        \<and> length out \<le> length (mb2 @ [Some l]) + 1 + length mb"
      using Cons.prems c by (intro Cons.IH) auto
    then show ?thesis using True bo c Cons.prems by (auto simp: Len_content Available_room)
  next
    case False
    obtain e c' where rd: "Buffer_Read c (room l) = Some (content c, e, c')"
      using Buffer_Read_split [OF c(1), of "room l"] False by auto
    have "b_end l + int (length (content c)) < 2147483648" "0 \<le> b_end l" "b_end l \<le> b_len l"
      using False room_bound [OF Cons.prems(5)] Cons.prems(5) by (auto simp: buf_inv_def)
    then have rf: "Buffer_ReadFrom Buffer_Read l c = Some ((int (length (content c)), e), append_to l (content c), c')"
      using rd by (simp add: Buffer_ReadFrom_def append_to_def room_def)
    have i: "buf_inv (append_to l (content c))" using False Cons.prems by simp
    have "\<exists>out p'. Compact_loop mb mb2 (Some (append_to l (content c))) (snd (Release (Some c') p)) = Some (out, p')
        \<and> mcontent out = mcontent mb2 @ content (append_to l (content c)) @ mcontent mb
        \<and> mb_inv out \<and> pool_ok p' \<and> length out \<le> length mb2 + 1 + length mb"
      using Cons.prems c i by (intro Cons.IH) (auto intro: Release_pool_ok)
    then show ?thesis using False bo c Cons.prems rf by (auto simp: Len_content Available_room)
  qed
qed

lemma Compact_mcontent:
  assumes "mb_inv mb" "None \<notin> set mb" "pool_ok p"
  shows "\<exists>out p'. Compact mb p = Some (out, p') \<and> mcontent out = mcontent mb \<and> mb_inv out \<and> pool_ok p'
    \<and> length out \<le> length mb"
proof (cases mb)
  case Nil
  then show ?thesis using assms by (simp add: Compact_def)
next
  case (Cons bo rest)
  then obtain b where "bo = Some b" using assms(2) by (cases bo) auto
  then show ?thesis using Compact_loop_mcontent [of rest "[]" bo b p] assms Cons by (auto simp: Compact_def)
qed

lemma MB_Copy_prefix:
  assumes "mb_inv mb" "None \<notin> set mb"
  shows "MB_Copy mb n = Some (take n (mcontent mb))"
  using assms
proof (induction mb arbitrary: n)
  case (Cons bo mb)
  then obtain b where b: "bo = Some b" "buf_inv b" "mb_inv mb" "None \<notin> set mb" by (cases bo) auto
  have "int (length (content b)) < 2147483648"
    using int_length_content [OF b(2)] b(2) by (auto simp: buf_inv_def)
  then have "i32 (int (length (take n (content b)))) = int (length (take n (content b)))" by simp
  then show ?case using b Cons.IH by (auto simp: Bytes_content buf_Len_content Let_def)
qed simp

context io_reader
begin

lemma MB_ReadFrom_loop_all:
  assumes "rinv r" "mb_inv mb" "pool_ok p"
  shows "\<exists>out p' r'. MB_ReadFrom_loop rd p mb r = Some (out,
           (if Cause (final r) = EOF \<or> Cause (final r) = ErrUnexpectedEOF then None else Some (final r)), p', r')
         \<and> mcontent out = mcontent mb @ pending r \<and> mb_inv out \<and> pool_ok p'
         \<and> (None \<notin> set mb \<longrightarrow> None \<notin> set out)"
  using assms
proof (induction "length (pending r)" arbitrary: r mb p rule: less_induct)
  case less
  obtain b p1 where b: "New p = (b, p1)" "buf_inv b" "content b = []" "room b = 8192" "pool_ok p1"
    using New_ok [OF less.prems(3)] by auto
  show ?case
  proof (cases "8192 \<le> length (pending r)")
    case True
    let ?d = "take 8192 (pending r)"
    obtain r1 where r1: "ReadFullFrom rd b r Size = Some ((Size, None), append_to b ?d, r1)"
      "rinv r1" "pending r1 = drop 8192 (pending r)" "final r1 = final r"
      using ReadFullFrom_ok [OF less.prems(1) b(2), of ?d "drop 8192 (pending r)" Size] b True
      by (auto simp: Size_def)
    have i: "buf_inv (append_to b ?d)" "content (append_to b ?d) = ?d" using b by auto
    have ne: "?d \<noteq> []" using True by auto
    have "length (pending r1) < length (pending r)" using r1 True by simp
    from less.hyps [OF this r1(2), of "mb @ [Some (append_to b ?d)]" p1, unfolded r1(3,4)] less.prems(2) b(5) i
    obtain out p' r' where o: "MB_ReadFrom_loop rd p1 (mb @ [Some (append_to b ?d)]) r1 = Some (out,
        (if Cause (final r) = EOF \<or> Cause (final r) = ErrUnexpectedEOF then None else Some (final r)), p', r')"
      "mcontent out = (mcontent mb @ ?d) @ drop 8192 (pending r)" "mb_inv out" "pool_ok p'"
      "None \<notin> set mb \<longrightarrow> None \<notin> set out"
      by auto
    then show ?thesis using b(1) r1(1) i ne by (subst MB_ReadFrom_loop.simps) (simp add: IsEmpty_content)
  next
    case False
    define e where "e = (if pending r \<noteq> [] \<and> final r = EOF then ErrUnexpectedEOF else final r)"
    obtain r1 where r1: "ReadFullFrom rd b r Size = Some ((int (length (pending r)), Some e),
        append_to b (pending r), r1)"
      using ReadFullFrom_short [OF less.prems(1) b(2), of 8192] b False by (auto simp: e_def Size_def)
    have i: "buf_inv (append_to b (pending r))" "content (append_to b (pending r)) = pending r"
      using b False by auto
    have c: "(Cause e = EOF \<or> Cause e = ErrUnexpectedEOF) = (Cause (final r) = EOF \<or> Cause (final r) = ErrUnexpectedEOF)"
      "\<not> (Cause e = EOF \<or> Cause e = ErrUnexpectedEOF) \<Longrightarrow> e = final r"
      by (auto simp: e_def)
    show ?thesis
      using b(1,5) r1(1) i less.prems c
      by (subst MB_ReadFrom_loop.simps) (auto simp: IsEmpty_content Let_def intro: Release_pool_ok)
  qed
qed

end

interpretation container_rd: io_reader MBC_Read "\<lambda>c. mb_inv (fst c) \<and> pool_ok (snd c)" "\<lambda>c. mcontent (fst c)"
  "\<lambda>_. EOF" "\<lambda>_. 0"
proof unfold_locales
  fix c :: container and n :: nat
  assume c: "mb_inv (fst c) \<and> pool_ok (snd c)" and n: "0 < n"
  then obtain mb' p' where s: "SplitBytes (fst c) n (snd c) = Some (mb', take n (mcontent (fst c)), p')"
    "mcontent mb' = drop n (mcontent (fst c))" "mb_inv mb'" "pool_ok p'"
    using SplitBytes_split [of "fst c" "snd c" n] by auto
  show "\<exists>bs e r'. MBC_Read c n = Some (bs, e, r') \<and> (mb_inv (fst r') \<and> pool_ok (snd r')) \<and> length bs \<le> n
      \<and> mcontent (fst c) = bs @ mcontent (fst r') \<and> EOF = EOF \<and> (e = None \<longrightarrow> bs \<noteq> [] \<or> (0::nat) < 0)
      \<and> (\<forall>x. e = Some x \<longrightarrow> x = EOF \<and> mcontent (fst r') = [])"
    using c n s by (cases "mcontent (fst c) = []") (auto simp: MBC_Read_def)
qed

section \<open>Properties\<close>

text \<open>
  \<open>SplitBytes\<close> moves exactly the first \<open>n\<close> bytes of a MultiBuffer into the destination and leaves the
  rest, in order, whatever way the bytes are distributed over buffers; it never panics.
\<close>

theorem split_bytes_exact:
  assumes "mb_inv mb" "pool_ok p"
  shows "\<exists>mb' p'. SplitBytes mb n p = Some (mb', take n (mcontent mb), p')
    \<and> mcontent mb' = drop n (mcontent mb) \<and> mb_inv mb'"
  using SplitBytes_split [OF assms] by blast

theorem split_bytes_exact_witness:
  "\<exists>mb. mb_inv mb \<and> pool_ok [] \<and> mcontent mb = [1, 2, 3]
     \<and> (\<exists>mb' p'. SplitBytes mb 2 [] = Some (mb', [1, 2], p') \<and> mcontent mb' = [3])"
proof -
  let ?mb = "[Some (append_to (Buffer_of [0, 0]) [1]), None, Some (append_to (Buffer_of [0, 0]) [2, 3])]"
  have i: "mb_inv ?mb" "pool_ok []" "mcontent ?mb = [1, 2, 3]" by (auto simp: pool_ok_def)
  show ?thesis using split_bytes_exact [OF i(1,2), of 2] i by (intro exI [of _ ?mb]) auto
qed

text \<open>
  \<open>SplitSize\<close> with a size up to \<open>Size\<close> cuts a MultiBuffer in two without losing or reordering a byte,
  and the first part has at most that many bytes.
\<close>

theorem split_size_partition:
  assumes "mb_inv mb" "pool_ok p" "0 \<le> sz" "sz \<le> Size" "int (length (mcontent mb)) < 2147483648"
  shows "\<exists>l r p'. SplitSize p mb sz = Some (l, r, p') \<and> mcontent r @ mcontent l = mcontent mb
    \<and> int (length (mcontent r)) \<le> sz \<and> mb_inv l \<and> mb_inv r"
  using SplitSize_split [OF assms(1-3) _ assms(5)] assms(4) by (auto simp: Size_def)

theorem split_size_partition_witness:
  "\<exists>mb. mb_inv mb \<and> mcontent mb = [1, 2, 3] \<and> (\<exists>l r p'. SplitSize [] mb 2 = Some (l, r, p')
     \<and> mcontent r @ mcontent l = [1, 2, 3] \<and> length (mcontent r) \<le> 2)"
proof -
  let ?mb = "[Some (append_to (Buffer_of [0, 0, 0]) [1, 2, 3])]"
  have i: "mb_inv ?mb" "pool_ok []" "mcontent ?mb = [1, 2, 3]" by (auto simp: pool_ok_def)
  have "int (length (mcontent ?mb)) < 2147483648" unfolding i(3) by simp
  then obtain l r p' where "SplitSize [] ?mb 2 = Some (l, r, p')" "mcontent r @ mcontent l = mcontent ?mb"
    "int (length (mcontent r)) \<le> 2"
    using split_size_partition [OF i(1,2), of 2] by (auto simp: Size_def)
  then show ?thesis using i by (intro exI [of _ ?mb]) auto
qed

text \<open>
  \<open>MergeBytes\<close> appends all given bytes to a MultiBuffer, filling the free room of the last buffer
  first; it always returns, however long the data is.
\<close>

theorem merge_bytes_appends:
  assumes "mb_inv dest" "pool_ok p" "None \<notin> set dest"
  shows "\<exists>mb p'. MergeBytes p dest src = Some (mb, p') \<and> mcontent mb = mcontent dest @ src \<and> mb_inv mb"
  using MergeBytes_mcontent [OF assms] by blast

theorem merge_bytes_appends_witness:
  "\<exists>dest. mb_inv dest \<and> mcontent dest = [1] \<and> None \<notin> set dest
     \<and> (\<exists>mb p'. MergeBytes [] dest [2, 3, 4] = Some (mb, p') \<and> mcontent mb = [1, 2, 3, 4])"
proof -
  let ?mb = "[Some (append_to (Buffer_of [0, 0]) [1])]"
  have i: "mb_inv ?mb" "pool_ok []" "None \<notin> set ?mb" "mcontent ?mb = [1]" by (auto simp: pool_ok_def)
  show ?thesis using merge_bytes_appends [OF i(1-3), of "[2, 3, 4]"] i by (intro exI [of _ ?mb]) auto
qed

text \<open>
  \<open>ReadFrom\<close> drains a stream completely, however the network cuts it: the result holds all its bytes in
  order, an end of file (also in the middle of a block) is not an error, and any other error is
  returned with the bytes read before it. The loop always ends.
\<close>

theorem read_from_drains_stream:
  assumes "pool_ok p"
  shows "\<exists>mb p' c'. MB_ReadFrom conn_read p c = Some (mb,
      (if Cause (closing c) = EOF \<or> Cause (closing c) = ErrUnexpectedEOF then None else Some (closing c)), p', c')
    \<and> mcontent mb = concat (chunks c) \<and> mb_inv mb"
  using conn_rd.MB_ReadFrom_loop_all [where r = c and mb = "[]" and p = p] assms by (auto simp: MB_ReadFrom_def)

theorem read_from_drains_stream_witness:
  "pool_ok [] \<and> (\<exists>mb p' c'. MB_ReadFrom conn_read [] \<lparr>chunks = [[1], [], [2, 3]], closing = EOF\<rparr> = Some (mb, None, p', c')
     \<and> mcontent mb = [1, 2, 3])"
proof -
  have p: "pool_ok []" by (simp add: pool_ok_def)
  show ?thesis
    using read_from_drains_stream [OF p, of "\<lparr>chunks = [[1], [], [2, 3]], closing = EOF\<rparr>"] p by auto
qed

text \<open>
  \<open>Compact\<close> keeps the bytes and their order and never needs more buffers than before, also when
  some of the buffers are empty.
\<close>

theorem compact_keeps_content:
  assumes "mb_inv mb" "None \<notin> set mb" "pool_ok p"
  shows "\<exists>out p'. Compact mb p = Some (out, p') \<and> mcontent out = mcontent mb \<and> mb_inv out \<and> length out \<le> length mb"
  using Compact_mcontent [OF assms] by blast

theorem compact_keeps_content_witness:
  "\<exists>mb. mb_inv mb \<and> length mb = 3 \<and> mcontent mb = [1, 2]
     \<and> (\<exists>out p'. Compact mb [] = Some (out, p') \<and> mcontent out = [1, 2] \<and> length out \<le> 3)"
proof -
  let ?mb = "[Some (append_to (Buffer_of [0, 0]) [1]), Some (Buffer_of []), Some (append_to (Buffer_of [0]) [2])]"
  have i: "mb_inv ?mb" "None \<notin> set ?mb" "pool_ok []" "mcontent ?mb = [1, 2]" by (auto simp: pool_ok_def)
  show ?thesis using compact_keeps_content [OF i(1-3)] i by (intro exI [of _ ?mb]) auto
qed

end
