(* ===== verification/Pipe.thy ===== *)
theory Pipe
  imports Multi_Buffer
begin

text \<open>
  \<open>transport/pipe/pipe.go\<close>: the in-memory pipe between the two halves of a connection. The mutex makes
  the internal operations atomic; between them the goroutines interleave. The two notifiers are the
  one-slot channels of \<open>common/signal/notifier.go\<close> (a flag), \<open>doneCtx\<close> is a flag that stays set, and the
  error channel has one slot. The relation \<open>pipe_step\<close> runs one reading goroutine against any number of
  writing goroutines, with \<open>Close\<close>, \<open>Interrupt\<close>, \<open>ReturnAnError\<close> and \<open>Recover\<close> at any moment.
\<close>

section \<open>State and atomic operations\<close>

datatype state = opened | closed | errord

record pipe =
  pp_data :: "MultiBuffer option"
  pp_readSignal :: bool
  pp_writeSignal :: bool
  pp_done :: bool
  pp_errChan :: "goerr option"
  pp_limit :: int
  pp_discardOverflow :: bool
  pp_state :: state

definition pipe_New :: "int \<Rightarrow> bool \<Rightarrow> pipe" where
  "pipe_New limit discard = \<lparr>pp_data = None, pp_readSignal = False, pp_writeSignal = False, pp_done = False,
     pp_errChan = None, pp_limit = limit, pp_discardOverflow = discard, pp_state = opened\<rparr>"

definition NewFromContext :: "int \<Rightarrow> pipe" where
  "NewFromContext perConnection = pipe_New (if perConnection < 0 then - 1 else perConnection) False"

definition isFull :: "pipe \<Rightarrow> int \<Rightarrow> bool" where
  "isFull p curSize \<longleftrightarrow> pp_limit p \<ge> 0 \<and> curSize > pp_limit p"

definition data_list :: "pipe \<Rightarrow> MultiBuffer" where
  "data_list p = (case pp_data p of None \<Rightarrow> [] | Some mb \<Rightarrow> mb)"

definition pipe_Len :: "pipe \<Rightarrow> int" where
  "pipe_Len p = (case pp_data p of None \<Rightarrow> 0 | Some mb \<Rightarrow> MB_Len mb)"

definition getState :: "pipe \<Rightarrow> bool \<Rightarrow> goerr option" where
  "getState p forRead =
     (case pp_state p of
        opened \<Rightarrow> if \<not> forRead \<and> isFull p (MB_Len (data_list p)) then Some errBufferFull else None
      | closed \<Rightarrow>
          if \<not> forRead then Some ErrClosedPipe
          else if \<not> MB_IsEmpty (data_list p) then None else Some EOF
      | errord \<Rightarrow> Some ErrClosedPipe)"

definition readMultiBufferInternal :: "pipe \<Rightarrow> MultiBuffer option \<times> goerr option \<times> pipe" where
  "readMultiBufferInternal p =
     (case getState p True of
        Some e \<Rightarrow> (None, Some e, p)
      | None \<Rightarrow> (pp_data p, None, p\<lparr>pp_data := None\<rparr>))"

definition writeMultiBufferInternal :: "pipe \<Rightarrow> MultiBuffer \<Rightarrow> goerr option \<times> pipe" where
  "writeMultiBufferInternal p mb =
     (case getState p False of
        Some e \<Rightarrow> (Some e, p)
      | None \<Rightarrow>
          (case pp_data p of
             None \<Rightarrow> (None, p\<lparr>pp_data := Some mb\<rparr>)
           | Some d \<Rightarrow> (None, p\<lparr>pp_data := Some (fst (MergeMulti d mb))\<rparr>)))"

definition pipe_Close :: "pipe \<Rightarrow> pipe" where
  "pipe_Close p =
     (if pp_state p = closed \<or> pp_state p = errord then p
      else p\<lparr>pp_state := closed, pp_done := True\<rparr>)"

definition pipe_Interrupt :: "pipe \<Rightarrow> pool \<Rightarrow> pipe \<times> pool" where
  "pipe_Interrupt p pl =
     (let (p1, pl1) =
        (if \<not> MB_IsEmpty (data_list p)
         then (let p0 = p\<lparr>pp_data := None\<rparr>
               in (if pp_state p0 = closed then p0\<lparr>pp_state := errord\<rparr> else p0),
               snd (ReleaseMulti (data_list p) pl))
         else (p, pl))
      in if pp_state p1 = closed \<or> pp_state p1 = errord then (p1, pl1)
         else (p1\<lparr>pp_state := errord, pp_done := True\<rparr>, pl1))"

text \<open>\<open>Notifier.Signal\<close>: fill the slot if it is free.\<close>

definition Signal :: "bool \<Rightarrow> bool" where
  "Signal c = True"

text \<open>\<open>ReturnAnError\<close> blocks while the slot is taken (\<open>None\<close>); \<open>Recover\<close> empties it.\<close>

definition ReturnAnError :: "goerr \<Rightarrow> pipe \<Rightarrow> pipe option" where
  "ReturnAnError e p = (if pp_errChan p = None then Some (p\<lparr>pp_errChan := Some e\<rparr>) else None)"

definition Recover :: "pipe \<Rightarrow> goerr option \<times> pipe" where
  "Recover p = (pp_errChan p, p\<lparr>pp_errChan := None\<rparr>)"

section \<open>The goroutines\<close>

text \<open>
  Where the reader is in \<open>ReadMultiBuffer\<close>: before the call, before the locked read, before signalling
  the writers with the result in hand, or in the select. Likewise for a writer in \<open>WriteMultiBuffer\<close>.
\<close>

datatype rpc = RIdle | RTry | RSignal "MultiBuffer option" "goerr option" | RWait

datatype wpc = WIdle | WTry MultiBuffer | WSignal "goerr option" | WWait MultiBuffer

text \<open>
  The ghost fields record the bytes accepted from writers, delivered to the reader, and thrown away by
  \<open>Interrupt\<close>, and whether a read has returned an end of file.
\<close>

record psys =
  s_pipe :: pipe
  s_pool :: pool
  s_reader :: rpc
  s_writer :: "nat \<Rightarrow> wpc"
  g_accepted :: "byte list"
  g_delivered :: "byte list"
  g_lost :: "byte list"
  g_eof :: bool

definition psys_init :: "int \<Rightarrow> bool \<Rightarrow> psys" where
  "psys_init limit discard = \<lparr>s_pipe = pipe_New limit discard, s_pool = [], s_reader = RIdle,
     s_writer = (\<lambda>_. WIdle), g_accepted = [], g_delivered = [], g_lost = [], g_eof = False\<rparr>"

definition opt_content :: "MultiBuffer option \<Rightarrow> byte list" where
  "opt_content d = (case d of None \<Rightarrow> [] | Some mb \<Rightarrow> mcontent mb)"

inductive pipe_step :: "psys \<Rightarrow> psys \<Rightarrow> bool" where
  read_call: "s_reader s = RIdle \<Longrightarrow> pipe_step s (s\<lparr>s_reader := RTry\<rparr>)"
| read_got: "s_reader s = RTry \<Longrightarrow> readMultiBufferInternal (s_pipe s) = (d, e, p') \<Longrightarrow> d \<noteq> None \<or> e \<noteq> None \<Longrightarrow>
    pipe_step s (s\<lparr>s_reader := RSignal d e, s_pipe := p', g_delivered := g_delivered s @ opt_content d,
                   g_eof := (g_eof s \<or> e = Some EOF)\<rparr>)"
| read_none: "s_reader s = RTry \<Longrightarrow> readMultiBufferInternal (s_pipe s) = (None, None, p') \<Longrightarrow>
    pipe_step s (s\<lparr>s_reader := RWait, s_pipe := p'\<rparr>)"
| read_return: "s_reader s = RSignal d e \<Longrightarrow>
    pipe_step s (s\<lparr>s_reader := RIdle,
                   s_pipe := (s_pipe s)\<lparr>pp_writeSignal := Signal (pp_writeSignal (s_pipe s))\<rparr>\<rparr>)"
| read_wake: "s_reader s = RWait \<Longrightarrow> pp_readSignal (s_pipe s) \<Longrightarrow>
    pipe_step s (s\<lparr>s_reader := RTry, s_pipe := (s_pipe s)\<lparr>pp_readSignal := False\<rparr>\<rparr>)"
| read_done: "s_reader s = RWait \<Longrightarrow> pp_done (s_pipe s) \<Longrightarrow> pipe_step s (s\<lparr>s_reader := RTry\<rparr>)"
| read_err: "s_reader s = RWait \<Longrightarrow> pp_errChan (s_pipe s) = Some e \<Longrightarrow>
    pipe_step s (s\<lparr>s_reader := RIdle, s_pipe := (s_pipe s)\<lparr>pp_errChan := None\<rparr>\<rparr>)"
| read_timeout: "s_reader s = RWait \<Longrightarrow> pipe_step s (s\<lparr>s_reader := RIdle\<rparr>)"
| write_call: "s_writer s i = WIdle \<Longrightarrow> mb_inv mb \<Longrightarrow> \<not> MB_IsEmpty mb \<Longrightarrow>
    pipe_step s (s\<lparr>s_writer := (s_writer s)(i := WTry mb)\<rparr>)"
| write_ok: "s_writer s i = WTry mb \<Longrightarrow> writeMultiBufferInternal (s_pipe s) mb = (None, p') \<Longrightarrow>
    pipe_step s (s\<lparr>s_writer := (s_writer s)(i := WSignal None), s_pipe := p',
                   g_accepted := g_accepted s @ mcontent mb\<rparr>)"
| write_discard: "s_writer s i = WTry mb \<Longrightarrow> writeMultiBufferInternal (s_pipe s) mb = (Some errBufferFull, p') \<Longrightarrow>
    pp_discardOverflow (s_pipe s) \<Longrightarrow>
    pipe_step s (s\<lparr>s_writer := (s_writer s)(i := WIdle), s_pool := snd (ReleaseMulti mb (s_pool s))\<rparr>)"
| write_block: "s_writer s i = WTry mb \<Longrightarrow> writeMultiBufferInternal (s_pipe s) mb = (Some errBufferFull, p') \<Longrightarrow>
    \<not> pp_discardOverflow (s_pipe s) \<Longrightarrow> pipe_step s (s\<lparr>s_writer := (s_writer s)(i := WWait mb)\<rparr>)"
| write_wake: "s_writer s i = WWait mb \<Longrightarrow> pp_writeSignal (s_pipe s) \<Longrightarrow>
    pipe_step s (s\<lparr>s_writer := (s_writer s)(i := WTry mb), s_pipe := (s_pipe s)\<lparr>pp_writeSignal := False\<rparr>\<rparr>)"
| write_done: "s_writer s i = WWait mb \<Longrightarrow> pp_done (s_pipe s) \<Longrightarrow>
    pipe_step s (s\<lparr>s_writer := (s_writer s)(i := WIdle), s_pool := snd (ReleaseMulti mb (s_pool s))\<rparr>)"
| write_fail: "s_writer s i = WTry mb \<Longrightarrow> writeMultiBufferInternal (s_pipe s) mb = (Some e, p') \<Longrightarrow>
    e \<noteq> errBufferFull \<Longrightarrow>
    pipe_step s (s\<lparr>s_writer := (s_writer s)(i := WSignal (Some e)), s_pool := snd (ReleaseMulti mb (s_pool s))\<rparr>)"
| write_return: "s_writer s i = WSignal e \<Longrightarrow>
    pipe_step s (s\<lparr>s_writer := (s_writer s)(i := WIdle),
                   s_pipe := (s_pipe s)\<lparr>pp_readSignal := Signal (pp_readSignal (s_pipe s))\<rparr>\<rparr>)"
| close: "pipe_step s (s\<lparr>s_pipe := pipe_Close (s_pipe s)\<rparr>)"
| interrupt: "pipe_Interrupt (s_pipe s) (s_pool s) = (p', pl') \<Longrightarrow>
    pipe_step s (s\<lparr>s_pipe := p', s_pool := pl', g_lost := g_lost s @ opt_content (pp_data (s_pipe s))\<rparr>)"
| return_error: "ReturnAnError e (s_pipe s) = Some p' \<Longrightarrow> pipe_step s (s\<lparr>s_pipe := p'\<rparr>)"
| recover: "Recover (s_pipe s) = (e, p') \<Longrightarrow> pipe_step s (s\<lparr>s_pipe := p'\<rparr>)"

inductive pipe_reach :: "int \<Rightarrow> bool \<Rightarrow> psys \<Rightarrow> bool" for limit discard where
  start: "pipe_reach limit discard (psys_init limit discard)"
| step: "pipe_reach limit discard s \<Longrightarrow> pipe_step s t \<Longrightarrow> pipe_reach limit discard t"

section \<open>Invariants\<close>

definition pipe_ok :: "pipe \<Rightarrow> bool" where
  "pipe_ok p \<longleftrightarrow> (\<forall>mb. pp_data p = Some mb \<longrightarrow> mb_inv mb \<and> mcontent mb \<noteq> [])
     \<and> (pp_done p \<longleftrightarrow> pp_state p \<noteq> opened)
     \<and> (pp_state p = errord \<longrightarrow> pp_data p = None)"

definition writers_ok :: "(nat \<Rightarrow> wpc) \<Rightarrow> bool" where
  "writers_ok w \<longleftrightarrow> (\<forall>i mb. w i = WTry mb \<or> w i = WWait mb \<longrightarrow> mb_inv mb \<and> mcontent mb \<noteq> [])"

text \<open>The data path: nothing is lost, duplicated or reordered.\<close>

definition fifo_inv :: "psys \<Rightarrow> bool" where
  "fifo_inv s \<longleftrightarrow> g_accepted s = g_delivered s @ g_lost s @ opt_content (pp_data (s_pipe s))
     \<and> (g_lost s \<noteq> [] \<longrightarrow> pp_state (s_pipe s) = errord)
     \<and> (g_eof s \<longrightarrow> pp_state (s_pipe s) = closed \<or> pp_state (s_pipe s) = errord)
     \<and> (g_eof s \<longrightarrow> pp_data (s_pipe s) = None \<and> g_lost s = [])"

text \<open>
  No wake-up is lost: data waits for a sleeping reader only while a signal is on its way, and a writer
  sleeps in front of an empty pipe only while a signal, or another writer that will fill the pipe, is.
\<close>

definition signalling :: "(nat \<Rightarrow> wpc) \<Rightarrow> bool" where
  "signalling w \<longleftrightarrow> (\<exists>i. w i = WSignal None)"

definition trying :: "(nat \<Rightarrow> wpc) \<Rightarrow> bool" where
  "trying w \<longleftrightarrow> (\<exists>i mb. w i = WTry mb)"

definition wake_inv :: "psys \<Rightarrow> bool" where
  "wake_inv s \<longleftrightarrow> (s_reader s = RWait \<longrightarrow> pp_data (s_pipe s) \<noteq> None \<longrightarrow>
     pp_readSignal (s_pipe s) \<or> pp_done (s_pipe s) \<or> signalling (s_writer s))"

definition room_inv :: "psys \<Rightarrow> bool" where
  "room_inv s \<longleftrightarrow> (\<forall>i mb. s_writer s i = WWait mb \<longrightarrow> pp_data (s_pipe s) = None \<longrightarrow>
     pp_writeSignal (s_pipe s) \<or> pp_done (s_pipe s) \<or> (\<exists>d e. s_reader s = RSignal d e)
     \<or> trying (s_writer s))"

definition psys_inv :: "psys \<Rightarrow> bool" where
  "psys_inv s \<longleftrightarrow> pipe_ok (s_pipe s) \<and> writers_ok (s_writer s) \<and> fifo_inv s \<and> wake_inv s \<and> room_inv s"

lemma data_list_empty: "pipe_ok p \<Longrightarrow> MB_IsEmpty (data_list p) \<longleftrightarrow> pp_data p = None"
  by (cases "pp_data p") (auto simp: pipe_ok_def data_list_def)

lemma readInternal_cases:
  assumes "pipe_ok p" "readMultiBufferInternal p = (d, e, p')"
  obtains (got) "e = None" "d = pp_data p" "p' = p\<lparr>pp_data := None\<rparr>" "pp_state p \<noteq> errord"
      "pp_state p = closed \<longrightarrow> d \<noteq> None"
    | (eof) "d = None" "e = Some EOF" "p' = p" "pp_state p = closed" "pp_data p = None"
    | (err) "d = None" "e = Some ErrClosedPipe" "p' = p" "pp_state p = errord"
  using assms data_list_empty [OF assms(1)]
  by (auto simp: readMultiBufferInternal_def getState_def split: state.splits if_splits)

lemma writeInternal_cases:
  assumes "writeMultiBufferInternal p mb = (e, p')"
  obtains (ok) "e = None" "pp_state p = opened"
      "p' = p\<lparr>pp_data := Some (data_list p @ mb)\<rparr>" "\<not> isFull p (MB_Len (data_list p))"
    | (err) x where "e = Some x" "p' = p" "x = errBufferFull \<longrightarrow> pp_state p = opened \<and> isFull p (MB_Len (data_list p))"
  using assms
  by (auto simp: writeMultiBufferInternal_def getState_def MergeMulti_def data_list_def
    split: state.splits if_splits option.splits)

lemma Interrupt_cases:
  assumes "pipe_ok p" "pipe_Interrupt p pl = (p', pl')"
  shows "pp_data p' = None" "pp_data p \<noteq> None \<or> pp_state p \<noteq> closed \<Longrightarrow> pp_state p' = errord"
    "pp_data p = None \<Longrightarrow> pp_state p = closed \<Longrightarrow> p' = p" "pp_done p'" "pipe_ok p'"
    "pp_readSignal p' = pp_readSignal p" "pp_limit p' = pp_limit p"
  using assms data_list_empty [OF assms(1)]
  by (cases "pp_state p"; auto simp: pipe_Interrupt_def pipe_ok_def Let_def split: if_splits)+

lemma opt_content_simps [simp]: "opt_content None = []" "opt_content (Some mb) = mcontent mb"
  by (simp_all add: opt_content_def)

lemma opt_content_data_list: "opt_content (pp_data p) = mcontent (data_list p)"
  by (cases "pp_data p") (simp_all add: data_list_def)

lemma pipe_ok_fields [simp]:
  "pipe_ok (p\<lparr>pp_readSignal := a\<rparr>) = pipe_ok p" "pipe_ok (p\<lparr>pp_writeSignal := a\<rparr>) = pipe_ok p"
  "pipe_ok (p\<lparr>pp_errChan := c\<rparr>) = pipe_ok p" "pipe_ok p \<Longrightarrow> pipe_ok (p\<lparr>pp_data := None\<rparr>)"
  by (auto simp: pipe_ok_def)

lemma Close_fields [simp]:
  "pp_data (pipe_Close p) = pp_data p" "pp_readSignal (pipe_Close p) = pp_readSignal p"
  "pp_writeSignal (pipe_Close p) = pp_writeSignal p"
  "pipe_ok p \<Longrightarrow> pipe_ok (pipe_Close p)" "pp_done p \<Longrightarrow> pp_done (pipe_Close p)"
  "pp_state (pipe_Close p) = (if pp_state p = opened then closed else pp_state p)"
  by (cases "pp_state p"; auto simp: pipe_Close_def pipe_ok_def)+

lemma writers_ok_upd:
  "writers_ok w \<Longrightarrow> (\<And>mb. x = WTry mb \<or> x = WWait mb \<Longrightarrow> mb_inv mb \<and> mcontent mb \<noteq> []) \<Longrightarrow>
   writers_ok (w(i := x))"
  by (auto simp: writers_ok_def)

lemma pipe_ok_write:
  assumes "pipe_ok p" "pp_state p = opened" "mb_inv mb" "mcontent mb \<noteq> []"
  shows "pipe_ok (p\<lparr>pp_data := Some (data_list p @ mb)\<rparr>)"
  using assms by (cases "pp_data p") (auto simp: pipe_ok_def data_list_def mb_inv_def)

lemma Recover_ok: "Recover p = (e, p') \<Longrightarrow> p' = p\<lparr>pp_errChan := None\<rparr>"
  by (simp add: Recover_def)

lemma ReturnAnError_ok: "ReturnAnError e p = Some p' \<Longrightarrow> p' = p\<lparr>pp_errChan := Some e\<rparr>"
  by (simp add: ReturnAnError_def split: if_splits)

lemma signalling_upd:
  "signalling (w(i := WSignal None))"
  "signalling w \<Longrightarrow> w i \<noteq> WSignal None \<Longrightarrow> signalling (w(i := x))"
  by (auto simp: signalling_def)

lemma trying_upd:
  "trying (w(i := WTry mb))"
  "trying w \<Longrightarrow> (\<And>mb. w i \<noteq> WTry mb) \<Longrightarrow> trying (w(i := x))"
  unfolding trying_def by (metis fun_upd_same, metis fun_upd_other)

lemma writeInternal_empty_ok:
  "writeMultiBufferInternal p mb = (Some errBufferFull, p') \<Longrightarrow> pp_data p \<noteq> None"
  by (auto simp: writeMultiBufferInternal_def getState_def isFull_def data_list_def MB_Len_def
    split: state.splits if_splits option.splits)

lemma writeInternal_failed:
  "writeMultiBufferInternal p mb = (Some e, p') \<Longrightarrow> e \<noteq> errBufferFull \<Longrightarrow> pp_state p \<noteq> opened"
  by (auto simp: writeMultiBufferInternal_def getState_def split: state.splits if_splits option.splits)

lemma pipe_step_ok:
  assumes "pipe_step s t" "pipe_ok (s_pipe s)" "writers_ok (s_writer s)"
  shows "pipe_ok (s_pipe t) \<and> writers_ok (s_writer t)"
  using assms
proof (cases rule: pipe_step.cases)
  case (read_got d e p')
  then show ?thesis using assms by (auto elim!: readInternal_cases [OF assms(2)])
next
  case (read_none p')
  then show ?thesis using assms by (auto elim!: readInternal_cases [OF assms(2)])
next
  case (write_call i mb)
  then show ?thesis using assms by (auto intro!: writers_ok_upd simp: MB_IsEmpty_mcontent)
next
  case (write_ok i mb p')
  then have "mb_inv mb" "mcontent mb \<noteq> []" using assms(3) by (auto simp: writers_ok_def)
  with write_ok show ?thesis using assms
    by (auto intro!: writers_ok_upd pipe_ok_write elim!: writeInternal_cases)
next
  case (interrupt p' pl')
  then show ?thesis using assms Interrupt_cases(5) [OF assms(2) interrupt(2)] by simp
qed (use assms in \<open>auto intro!: writers_ok_upd dest: Recover_ok ReturnAnError_ok simp: writers_ok_def\<close>)

lemma pipe_step_fifo:
  assumes "pipe_step s t" "pipe_ok (s_pipe s)" "fifo_inv s"
  shows "fifo_inv t"
  using assms
proof (cases rule: pipe_step.cases)
  case (read_got d e p')
  show ?thesis using read_got(3)
    by (rule readInternal_cases [OF assms(2)])
      (use read_got assms(2,3) in \<open>auto simp: fifo_inv_def pipe_ok_def\<close>)
next
  case (read_none p')
  show ?thesis using read_none(3)
    by (rule readInternal_cases [OF assms(2)])
      (use read_none assms(2,3) in \<open>auto simp: fifo_inv_def pipe_ok_def\<close>)
next
  case (write_ok i mb p')
  show ?thesis using write_ok(3)
    by (rule writeInternal_cases)
      (use write_ok assms(2,3) in \<open>auto simp: fifo_inv_def opt_content_data_list data_list_def
         split: option.splits\<close>)
next
  case (interrupt p' pl')
  note i = Interrupt_cases [OF assms(2) interrupt(2)]
  show ?thesis
  proof (cases "pp_data (s_pipe s) = None \<and> pp_state (s_pipe s) = closed")
    case True
    then show ?thesis using i(3) interrupt assms(3) by (auto simp: fifo_inv_def)
  next
    case False
    then show ?thesis using i(1,2) interrupt assms(2,3) by (auto simp: fifo_inv_def pipe_ok_def)
  qed
qed (use assms in \<open>auto dest!: Recover_ok ReturnAnError_ok simp: fifo_inv_def\<close>)

lemma pipe_step_wake:
  assumes "pipe_step s t" "pipe_ok (s_pipe s)" "wake_inv s"
  shows "wake_inv t"
  using assms
proof (cases rule: pipe_step.cases)
  case (read_got d e p')
  then show ?thesis by (simp add: wake_inv_def)
next
  case (read_none p')
  show ?thesis using read_none(3)
    by (rule readInternal_cases [OF assms(2)]) (use read_none in \<open>auto simp: wake_inv_def\<close>)
next
  case (write_ok i mb p')
  show ?thesis using write_ok(3)
    by (rule writeInternal_cases) (use write_ok in \<open>auto simp: wake_inv_def signalling_upd\<close>)
next
  case (interrupt p' pl')
  then show ?thesis using Interrupt_cases(4) [OF assms(2) interrupt(2)] by (simp add: wake_inv_def)
next
  case (write_return i e)
  then show ?thesis by (simp add: wake_inv_def Signal_def)
qed (use assms in \<open>auto dest!: Recover_ok ReturnAnError_ok intro: signalling_upd simp: wake_inv_def\<close>)

lemma pipe_step_room:
  assumes "pipe_step s t" "pipe_ok (s_pipe s)" "room_inv s"
  shows "room_inv t"
  using assms
proof (cases rule: pipe_step.cases)
  case (read_got d e p')
  then show ?thesis by (simp add: room_inv_def)
next
  case (read_none p')
  show ?thesis using read_none(3)
    by (rule readInternal_cases [OF assms(2)]) (use read_none assms(3) in \<open>auto simp: room_inv_def\<close>)
next
  case (write_ok i mb p')
  show ?thesis using write_ok(3)
    by (rule writeInternal_cases) (use write_ok in \<open>auto simp: room_inv_def\<close>)
next
  case (write_discard i mb p')
  then show ?thesis using writeInternal_empty_ok [OF write_discard(3)] by (auto simp: room_inv_def)
next
  case (write_block i mb p')
  then show ?thesis using writeInternal_empty_ok [OF write_block(3)] by (auto simp: room_inv_def)
next
  case (write_fail i mb e p')
  then show ?thesis using writeInternal_failed [OF write_fail(3,4)] assms(2)
    by (auto simp: room_inv_def pipe_ok_def)
next
  case (interrupt p' pl')
  then show ?thesis using Interrupt_cases(4) [OF assms(2) interrupt(2)] by (simp add: room_inv_def)
next
  case (read_return d e)
  then show ?thesis by (simp add: room_inv_def Signal_def)
next
  case (write_return i e)
  then show ?thesis using assms(3) trying_upd(2) [of "s_writer s" i WIdle]
    by (auto simp: room_inv_def split: if_splits)
qed (use assms in \<open>auto dest!: Recover_ok ReturnAnError_ok intro: trying_upd simp: room_inv_def
       split: if_splits\<close>)

lemma psys_inv_reach: "pipe_reach limit discard s \<Longrightarrow> psys_inv s"
proof (induction rule: pipe_reach.induct)
  case start
  show ?case by (simp add: psys_inv_def psys_init_def pipe_New_def pipe_ok_def writers_ok_def
    fifo_inv_def wake_inv_def room_inv_def)
next
  case (step s t)
  then show ?case
    using pipe_step_ok [of s t] pipe_step_fifo [of s t] pipe_step_wake [of s t] pipe_step_room [of s t]
    by (simp add: psys_inv_def)
qed

section \<open>Properties\<close>

text \<open>A goroutine inside a call takes a step of its own: no timeout, no close and no new call.\<close>

definition moves :: "psys \<Rightarrow> psys \<Rightarrow> bool" where
  "moves s t \<longleftrightarrow> pipe_step s t \<and> ((s_reader s = RWait \<and> s_reader t = RTry)
     \<or> (\<exists>d e. s_reader s = RSignal d e \<and> s_reader t = RIdle)
     \<or> (\<exists>j. s_writer s j \<noteq> WIdle \<and> s_writer t j \<noteq> s_writer s j))"

lemma writer_moves: "pipe_step s t \<Longrightarrow> s_writer s j \<noteq> WIdle \<Longrightarrow> s_writer t j \<noteq> s_writer s j \<Longrightarrow> \<exists>t. moves s t"
  by (auto simp: moves_def)

lemma trying_moves: "trying (s_writer s) \<Longrightarrow> \<exists>t. moves s t"
proof -
  assume "trying (s_writer s)"
  then obtain i mb where w: "s_writer s i = WTry mb" by (auto simp: trying_def)
  obtain e p' where r: "writeMultiBufferInternal (s_pipe s) mb = (e, p')" by fastforce
  consider (ok) "e = None" | (discard) "e = Some errBufferFull" "pp_discardOverflow (s_pipe s)"
    | (block) "e = Some errBufferFull" "\<not> pp_discardOverflow (s_pipe s)"
    | (fail) x where "e = Some x" "x \<noteq> errBufferFull"
    by (cases e) auto
  then show ?thesis
  proof cases
    case ok
    then show ?thesis using w r by (intro writer_moves [OF pipe_step.write_ok, of s i mb p' i]) auto
  next
    case discard
    then show ?thesis using w r by (intro writer_moves [OF pipe_step.write_discard, of s i mb p' i]) auto
  next
    case block
    then show ?thesis using w r by (intro writer_moves [OF pipe_step.write_block, of s i mb p' i]) auto
  next
    case fail
    then show ?thesis using w r by (intro writer_moves [OF pipe_step.write_fail, of s i mb x p' i]) auto
  qed
qed

lemma signalling_moves: "signalling (s_writer s) \<Longrightarrow> \<exists>t. moves s t"
  unfolding signalling_def by (elim exE, rule writer_moves [OF pipe_step.write_return]) auto

lemma reader_wakes:
  "s_reader s = RWait \<Longrightarrow> pp_readSignal (s_pipe s) \<or> pp_done (s_pipe s) \<Longrightarrow> \<exists>t. moves s t"
  unfolding moves_def using pipe_step.read_wake [of s] pipe_step.read_done [of s] by force

lemma writer_wakes:
  "s_writer s i = WWait mb \<Longrightarrow> pp_writeSignal (s_pipe s) \<Longrightarrow> \<exists>t. moves s t"
  by (rule writer_moves [OF pipe_step.write_wake, of s i mb i]) auto

lemma reach_by: "pipe_reach l d s \<Longrightarrow> pipe_step s t' \<Longrightarrow> t' = t \<Longrightarrow> pipe_reach l d t"
  using pipe_reach.step by blast

text \<open>
  A run that the witnesses use: the reader of a pipe of limit 0 goes to sleep, writer 0 writes a byte and
  has not signalled yet, writer 1 finds the pipe full and waits; or the pipe is closed, the byte read, and the
  next read meets the end of file.
\<close>

definition demo_mb :: MultiBuffer where
  "demo_mb = [Some (append_to (Buffer_of [0, 0]) [1])]"

lemma demo_mb_ok: "mb_inv demo_mb" "mcontent demo_mb = [1]" "\<not> MB_IsEmpty demo_mb" "MB_Len demo_mb = 1"
proof -
  show i: "mb_inv demo_mb" "mcontent demo_mb = [1]" by (auto simp: demo_mb_def)
  show "\<not> MB_IsEmpty demo_mb" using i by simp
  show "MB_Len demo_mb = 1" using i MB_Len_mcontent [of demo_mb] by simp
qed

definition demo :: "bool \<Rightarrow> MultiBuffer option \<Rightarrow> state \<Rightarrow> rpc \<Rightarrow> wpc \<Rightarrow> wpc \<Rightarrow> byte list \<Rightarrow> byte list \<Rightarrow> bool \<Rightarrow> psys" where
  "demo ws dat st r w0 w1 acc del eof =
     \<lparr>s_pipe = (pipe_New 0 False)\<lparr>pp_data := dat, pp_state := st, pp_done := (st \<noteq> opened), pp_writeSignal := ws\<rparr>, s_pool = [], s_reader = r,
      s_writer = (\<lambda>_. WIdle)(0 := w0, 1 := w1), g_accepted = acc, g_delivered = del, g_lost = [], g_eof = eof\<rparr>"

lemmas demo_simps = demo_def pipe_New_def readMultiBufferInternal_def writeMultiBufferInternal_def getState_def
  data_list_def isFull_def demo_mb_ok MB_Len_def [of "[]"] pipe_Close_def Signal_def

lemma demo_start: "pipe_reach 0 False (demo False None opened RIdle WIdle WIdle [] [] False)"
  using pipe_reach.start [of 0 False] by (simp add: psys_init_def demo_simps fun_upd_idem)

lemma demo_blocked: "pipe_reach 0 False (demo False (Some demo_mb) opened RWait (WSignal None) (WWait demo_mb) [1] [] False)"
proof -
  have 1: "pipe_reach 0 False (demo False None opened RTry WIdle WIdle [] [] False)"
    by (rule reach_by [OF demo_start read_call]) (simp_all add: demo_simps)
  have 2: "pipe_reach 0 False (demo False None opened RWait WIdle WIdle [] [] False)"
    by (rule reach_by [OF 1 read_none]) (simp_all add: demo_simps)
  have 3: "pipe_reach 0 False (demo False None opened RWait (WTry demo_mb) WIdle [] [] False)"
    by (rule reach_by [OF 2 write_call [of _ 0 demo_mb]]) (simp_all add: demo_simps fun_upd_twist)
  have 4: "pipe_reach 0 False (demo False None opened RWait (WTry demo_mb) (WTry demo_mb) [] [] False)"
    by (rule reach_by [OF 3 write_call [of _ 1 demo_mb]]) (simp_all add: demo_simps)
  have 5: "pipe_reach 0 False (demo False (Some demo_mb) opened RWait (WSignal None) (WTry demo_mb) [1] [] False)"
    by (rule reach_by [OF 4 write_ok [of _ 0 demo_mb]]) (simp_all add: demo_simps fun_upd_twist)
  show ?thesis
    by (rule reach_by [OF 5 write_block [of _ 1 demo_mb]]) (simp_all add: demo_simps)
qed

lemma demo_eof: "pipe_reach 0 False (demo True None closed (RSignal None (Some EOF)) (WSignal None) WIdle [1] [1] True)"
proof -
  have 1: "pipe_reach 0 False (demo False None opened RIdle (WTry demo_mb) WIdle [] [] False)"
    by (rule reach_by [OF demo_start write_call [of _ 0 demo_mb]]) (simp_all add: demo_simps fun_upd_twist)
  have 2: "pipe_reach 0 False (demo False (Some demo_mb) opened RIdle (WSignal None) WIdle [1] [] False)"
    by (rule reach_by [OF 1 write_ok [of _ 0 demo_mb]]) (simp_all add: demo_simps fun_upd_twist)
  have 3: "pipe_reach 0 False (demo False (Some demo_mb) closed RIdle (WSignal None) WIdle [1] [] False)"
    by (rule reach_by [OF 2 close]) (simp_all add: demo_simps)
  have 4: "pipe_reach 0 False (demo False (Some demo_mb) closed RTry (WSignal None) WIdle [1] [] False)"
    by (rule reach_by [OF 3 read_call]) (simp_all add: demo_simps)
  have 5: "pipe_reach 0 False (demo False None closed (RSignal (Some demo_mb) None) (WSignal None) WIdle [1] [1] False)"
    by (rule reach_by [OF 4 read_got [of _ "Some demo_mb" None]]) (simp_all add: demo_simps)
  have 6: "pipe_reach 0 False (demo True None closed RIdle (WSignal None) WIdle [1] [1] False)"
    by (rule reach_by [OF 5 read_return]) (simp_all add: demo_simps)
  have 7: "pipe_reach 0 False (demo True None closed RTry (WSignal None) WIdle [1] [1] False)"
    by (rule reach_by [OF 6 read_call]) (simp_all add: demo_simps)
  show ?thesis
    by (rule reach_by [OF 7 read_got [of _ None "Some EOF"]]) (simp_all add: demo_simps)
qed

text \<open>
  C2. Nothing is lost, duplicated or reordered in a pipe, whatever the interleaving of its goroutines: the bytes
  accepted from the writers are those delivered to the reader, then those dropped by an interrupt (which puts the
  pipe into its error state), then those still in the pipe.
\<close>

theorem pipe_fifo:
  assumes "pipe_reach limit discard s"
  shows "g_accepted s = g_delivered s @ g_lost s @ mcontent (data_list (s_pipe s))
    \<and> (pp_state (s_pipe s) \<noteq> errord \<longrightarrow> g_lost s = [])"
  using psys_inv_reach [OF assms] by (auto simp: psys_inv_def fifo_inv_def opt_content_data_list)

theorem pipe_fifo_witness:
  "\<exists>s. pipe_reach 0 False s \<and> g_accepted s = [1] \<and> g_delivered s = [] \<and> g_lost s = []
     \<and> mcontent (data_list (s_pipe s)) = [1]"
  using pipe_fifo [OF demo_blocked] demo_blocked by (intro exI [of _ "demo False (Some demo_mb) opened RWait
    (WSignal None) (WWait demo_mb) [1] [] False"]) (auto simp: demo_def)

text \<open>
  The end of file comes only after the data: once a read has returned \<open>EOF\<close>, the reader has got every byte
  a writer ever succeeded in writing, the pipe is empty and no writer can add to it any more.
\<close>

theorem pipe_eof_after_data:
  assumes "pipe_reach limit discard s" "g_eof s"
  shows "g_delivered s = g_accepted s \<and> data_list (s_pipe s) = []
    \<and> writeMultiBufferInternal (s_pipe s) mb = (Some ErrClosedPipe, s_pipe s)"
  using psys_inv_reach [OF assms(1)] assms(2)
  by (auto simp: psys_inv_def fifo_inv_def data_list_def writeMultiBufferInternal_def getState_def)

theorem pipe_eof_after_data_witness:
  "\<exists>s. pipe_reach 0 False s \<and> g_eof s \<and> g_delivered s = [1] \<and> g_accepted s = [1]
     \<and> writeMultiBufferInternal (s_pipe s) demo_mb = (Some ErrClosedPipe, s_pipe s)"
  using pipe_eof_after_data [OF demo_eof, of demo_mb] demo_eof
  by (intro exI [of _ "demo True None closed (RSignal None (Some EOF)) (WSignal None) WIdle [1] [1] True"])
    (auto simp: demo_def)

text \<open>
  C11. No deadlock and no lost wake-up: when the reader sleeps although there is data, or although a writer sleeps
  too, then some goroutine in the middle of a call can take its next step.
\<close>

theorem pipe_no_deadlock:
  assumes "pipe_reach limit discard s" "s_reader s = RWait"
    "data_list (s_pipe s) \<noteq> [] \<or> (\<exists>i mb. s_writer s i = WWait mb)"
  shows "\<exists>t. moves s t"
proof -
  have i: "wake_inv s" "room_inv s" using psys_inv_reach [OF assms(1)] by (auto simp: psys_inv_def)
  show ?thesis
  proof (cases "pp_data (s_pipe s)")
    case None
    then obtain j mb where "s_writer s j = WWait mb" using assms(3) by (auto simp: data_list_def)
    then show ?thesis using i(2) None assms(2) writer_wakes [of s j mb] reader_wakes [of s] trying_moves [of s]
      by (auto simp: room_inv_def)
  next
    case (Some d)
    then show ?thesis using i(1) assms(2) reader_wakes [of s] signalling_moves [of s] by (auto simp: wake_inv_def)
  qed
qed

theorem pipe_no_deadlock_witness:
  "\<exists>s. pipe_reach 0 False s \<and> s_reader s = RWait \<and> s_writer s 1 = WWait demo_mb \<and> (\<exists>t. moves s t)"
proof -
  let ?s = "demo False (Some demo_mb) opened RWait (WSignal None) (WWait demo_mb) [1] [] False"
  have "s_reader ?s = RWait" "s_writer ?s 1 = WWait demo_mb" by (simp_all add: demo_def)
  then show ?thesis using pipe_no_deadlock [OF demo_blocked] demo_blocked by blast
qed

end
