(* ===== verification/Buf_IO.thy ===== *)
theory Buf_IO
  imports Multi_Buffer
begin

text \<open>
  \<open>common/buf/reader.go\<close>, \<open>writer.go\<close>, \<open>copy.go\<close>, \<open>WriteAllBytes\<close> of \<open>io.go\<close> and \<open>common/crypto/chunk.go\<close>: readers and
  writers of MultiBuffers. A \<open>buf.Reader\<close> or \<open>buf.Writer\<close> is passed as its method; the contracts the callers rely on
  are the locales \<open>io_writer\<close>, \<open>mb_reader\<close> and \<open>mb_writer\<close>, interpreted below on the readers and writers
  of the program over a byte stream. A type assertion \<open>w.(io.Writer)\<close> is an optional method. A
  \<open>stats.Counter\<close> is the optional number it holds.
\<close>

type_synonym 'r mb_read = "'r \<Rightarrow> pool \<Rightarrow> (MultiBuffer \<times> goerr option \<times> 'r \<times> pool) option"
type_synonym 'w mb_write = "'w \<Rightarrow> MultiBuffer \<Rightarrow> pool \<Rightarrow> (goerr option \<times> 'w \<times> pool) option"
type_synonym counter = "int option"

definition counter_Add :: "counter \<Rightarrow> int \<Rightarrow> counter" where
  "counter_Add c n = map_option (\<lambda>x. x + n) c"

section \<open>Writing bytes\<close>

partial_function (option) WriteAllBytes_loop ::
  "'w io_write \<Rightarrow> 'w \<Rightarrow> byte list \<Rightarrow> int \<Rightarrow> (goerr option \<times> int \<times> 'w) option"
where
  "WriteAllBytes_loop wr w payload wc =
     (if payload = [] then Some (None, wc, w)
      else Option.bind (wr w payload) (\<lambda>(n, err, w').
        case err of
          Some e \<Rightarrow> Some (Some e, wc + n, w')
        | None \<Rightarrow> Option.bind (slice payload n (int (length payload))) (\<lambda>rest.
            WriteAllBytes_loop wr w' rest (wc + n))))"

declare WriteAllBytes_loop.simps [code]

definition WriteAllBytes ::
  "'w io_write \<Rightarrow> 'w \<Rightarrow> byte list \<Rightarrow> counter \<Rightarrow> (goerr option \<times> 'w \<times> counter) option" where
  "WriteAllBytes wr w payload c =
     map_option (\<lambda>(e, wc, w'). (e, w', counter_Add c wc)) (WriteAllBytes_loop wr w payload 0)"

text \<open>
  \<open>net.Buffers.WriteTo\<close>: write the slices one after the other until one fails; the bytes written are
  removed from the list.
\<close>

fun Buffers_WriteTo ::
  "'w io_write \<Rightarrow> 'w \<Rightarrow> byte list list \<Rightarrow> int \<Rightarrow> (int \<times> goerr option \<times> 'w) option" where
  "Buffers_WriteTo wr w [] n = Some (n, None, w)"
| "Buffers_WriteTo wr w (b # bs) n =
     Option.bind (wr w b) (\<lambda>(nb, err, w').
       case err of
         Some e \<Rightarrow> Some (n + nb, Some e, w')
       | None \<Rightarrow> Buffers_WriteTo wr w' bs (n + nb))"

fun Buffers_consume :: "byte list list \<Rightarrow> nat \<Rightarrow> byte list list" where
  "Buffers_consume [] n = []"
| "Buffers_consume (b # bs) n =
     (if length b > n then drop n b # bs else Buffers_consume bs (n - length b))"

partial_function (option) BTB_loop ::
  "'w io_write \<Rightarrow> 'w \<Rightarrow> byte list list \<Rightarrow> int \<Rightarrow> int \<Rightarrow> (goerr option \<times> int \<times> 'w) option"
where
  "BTB_loop wr w nb sz wc =
     (if sz > 0 then
        Option.bind (Buffers_WriteTo wr w nb 0) (\<lambda>(n, err, w').
          case err of
            Some e \<Rightarrow> Some (Some e, wc + n, w')
          | None \<Rightarrow> BTB_loop wr w' (Buffers_consume nb (nat n)) (i32 (sz - i32 n)) (wc + n))
      else Some (None, wc, w))"

fun all_Bytes :: "MultiBuffer \<Rightarrow> byte list list option" where
  "all_Bytes [] = Some []"
| "all_Bytes (bo # mb) = Option.bind bo (\<lambda>b. Option.bind (Bytes b) (\<lambda>s. map_option ((#) s) (all_Bytes mb)))"

text \<open>\<open>BufferToBytesWriter\<close>: the underlying writer and the counter; the slice cache holds no data between calls.\<close>

definition BTB_WriteMultiBuffer :: "'w io_write \<Rightarrow> ('w \<times> counter) mb_write" where
  "BTB_WriteMultiBuffer wr s mb p =
     (let p' = snd (ReleaseMulti mb p); sz = MB_Len mb
      in if sz = 0 then Some (None, s, p')
         else if length mb = 1 then
           Option.bind (hd mb) (\<lambda>b. Option.bind (Bytes b) (\<lambda>d.
             map_option (\<lambda>(e, w, c). (e, (w, c), p')) (WriteAllBytes wr (fst s) d (snd s))))
         else
           Option.bind (all_Bytes mb) (\<lambda>bs.
             map_option (\<lambda>(e, wc, w). (e, (w, counter_Add (snd s) wc), p')) (BTB_loop wr (fst s) bs sz 0)))"

definition SequentialWriter_WriteMultiBuffer :: "'w io_write \<Rightarrow> 'w mb_write" where
  "SequentialWriter_WriteMultiBuffer wr w mb p =
     map_option (\<lambda>(mb', e, w', p'). (e, w', snd (ReleaseMulti mb' p'))) (WriteMultiBuffer wr w mb p)"

text \<open>\<open>noOpWriter\<close>, behind \<open>buf.Discard\<close>.\<close>

definition noOpWriter_WriteMultiBuffer :: "unit mb_write" where
  "noOpWriter_WriteMultiBuffer w mb p = Some (None, w, snd (ReleaseMulti mb p))"

definition noOpWriter_Write :: "unit io_write" where
  "noOpWriter_Write w d = Some (int (length d), None, w)"

partial_function (option) noOpWriter_ReadFrom_loop ::
  "'r io_read \<Rightarrow> Buffer \<Rightarrow> 'r \<Rightarrow> int \<Rightarrow> (int \<times> goerr option \<times> Buffer \<times> 'r) option"
where
  "noOpWriter_ReadFrom_loop rd b r totalBytes =
     Option.bind (Buffer_ReadFrom rd (Clear b) r) (\<lambda>x. case x of ((_, err), b', r') \<Rightarrow>
       (case err of
          Some e \<Rightarrow> Some (totalBytes + buf_Len b', if Cause e = EOF then None else Some e, b', r')
        | None \<Rightarrow> noOpWriter_ReadFrom_loop rd b' r' (totalBytes + buf_Len b')))"

definition noOpWriter_ReadFrom :: "'r io_read \<Rightarrow> 'r \<Rightarrow> pool \<Rightarrow> (int \<times> goerr option \<times> 'r \<times> pool) option" where
  "noOpWriter_ReadFrom rd r p =
     (case New p of (b, p1) \<Rightarrow>
       map_option (\<lambda>(n, e, b', r'). (n, e, r', snd (Release (Some b') p1))) (noOpWriter_ReadFrom_loop rd b r 0))"

section \<open>Readers\<close>

definition ReadBuffer :: "'r io_read \<Rightarrow> 'r \<Rightarrow> pool \<Rightarrow> (Buffer option \<times> goerr option \<times> 'r \<times> pool) option" where
  "ReadBuffer rd r p =
     (case New p of (b, p1) \<Rightarrow>
       map_option (\<lambda>((n, e), b', r').
           if n > 0 then (Some b', e, r', p1) else (None, e, r', snd (Release (Some b') p1)))
         (Buffer_ReadFrom rd b r))"

fun readOneUDP_loop ::
  "nat \<Rightarrow> 'r io_read \<Rightarrow> Buffer \<Rightarrow> 'r \<Rightarrow> pool \<Rightarrow> (Buffer option \<times> goerr option \<times> 'r \<times> pool) option" where
  "readOneUDP_loop 0 rd b r p =
     Some (None, Some (ENew ''Reader returns too many empty payloads.'' None), r, snd (Release (Some b) p))"
| "readOneUDP_loop (Suc k) rd b r p =
     Option.bind (Buffer_ReadFrom rd b r) (\<lambda>x. case x of ((_, err), b', r') \<Rightarrow>
       if \<not> IsEmpty (Some b') then Some (Some b', None, r', p)
       else case err of
              Some e \<Rightarrow> Some (None, Some e, r', snd (Release (Some b') p))
            | None \<Rightarrow> readOneUDP_loop k rd b' r' p)"

definition readOneUDP :: "'r io_read \<Rightarrow> 'r \<Rightarrow> pool \<Rightarrow> (Buffer option \<times> goerr option \<times> 'r \<times> pool) option" where
  "readOneUDP rd r p = (case New p of (b, p1) \<Rightarrow> readOneUDP_loop 64 rd b r p1)"

definition SingleReader_ReadMultiBuffer :: "'r io_read \<Rightarrow> 'r mb_read" where
  "SingleReader_ReadMultiBuffer rd r p = map_option (\<lambda>(b, e, r', p'). ([b], e, r', p')) (ReadBuffer rd r p)"

definition PacketReader_ReadMultiBuffer :: "'r io_read \<Rightarrow> 'r mb_read" where
  "PacketReader_ReadMultiBuffer rd r p =
     map_option (\<lambda>(b, e, r', p'). if e \<noteq> None then ([], e, r', p') else ([b], None, r', p')) (readOneUDP rd r p)"

text \<open>
  \<open>BufferedReader\<close> with its pool. The splitter is \<open>SplitBytes\<close> unless one is set; a nil splitter is \<open>None\<close>.
\<close>

type_synonym splitter = "MultiBuffer \<Rightarrow> nat \<Rightarrow> pool \<Rightarrow> (MultiBuffer \<times> byte list \<times> pool) option"

record 'r bufreader =
  br_Reader :: 'r
  br_Buffer :: MultiBuffer
  br_Splitter :: "splitter option"
  br_pool :: pool

definition BufferedBytes :: "'r bufreader \<Rightarrow> int" where
  "BufferedBytes r = MB_Len (br_Buffer r)"

definition nil_if_empty :: "MultiBuffer \<Rightarrow> MultiBuffer" where
  "nil_if_empty mb = (if MB_IsEmpty mb then [] else mb)"

definition br_split :: "'r bufreader \<Rightarrow> splitter" where
  "br_split r = (case br_Splitter r of None \<Rightarrow> SplitBytes | Some f \<Rightarrow> f)"

definition BR_Read :: "'r mb_read \<Rightarrow> ('r bufreader) io_read" where
  "BR_Read rmb r n =
     (if \<not> MB_IsEmpty (br_Buffer r) then
        map_option (\<lambda>(buffer, d, p). (d, None, r\<lparr>br_Buffer := nil_if_empty buffer, br_pool := p\<rparr>))
          (br_split r (br_Buffer r) n (br_pool r))
      else
        Option.bind (rmb (br_Reader r) (br_pool r)) (\<lambda>(mb, err, r', p).
          case err of
            Some e \<Rightarrow> Some ([], Some e, r\<lparr>br_Reader := r', br_pool := p\<rparr>)
          | None \<Rightarrow> map_option (\<lambda>(mb', d, p').
                (d, None, r\<lparr>br_Reader := r', br_pool := p',
                             br_Buffer := (if MB_IsEmpty mb' then br_Buffer r else mb')\<rparr>))
              (br_split r mb n p)))"

definition BR_ReadByte :: "'r mb_read \<Rightarrow> 'r bufreader \<Rightarrow> (byte \<times> goerr option \<times> 'r bufreader) option" where
  "BR_ReadByte rmb r = map_option (\<lambda>(d, e, r'). (if d = [] then 0 else hd d, e, r')) (BR_Read rmb r 1)"

definition BR_ReadMultiBuffer ::
  "'r mb_read \<Rightarrow> 'r bufreader \<Rightarrow> (MultiBuffer \<times> goerr option \<times> 'r bufreader) option" where
  "BR_ReadMultiBuffer rmb r =
     (if \<not> MB_IsEmpty (br_Buffer r) then Some (br_Buffer r, None, r\<lparr>br_Buffer := []\<rparr>)
      else map_option (\<lambda>(mb, e, r', p). (mb, e, r\<lparr>br_Reader := r', br_pool := p\<rparr>)) (rmb (br_Reader r) (br_pool r)))"

definition BR_split_size :: "'r bufreader \<Rightarrow> int \<Rightarrow> (MultiBuffer \<times> goerr option \<times> 'r bufreader) option" where
  "BR_split_size r sz =
     map_option (\<lambda>(rb, mb, p). (mb, None, r\<lparr>br_Buffer := nil_if_empty rb, br_pool := p\<rparr>))
       (SplitSize (br_pool r) (br_Buffer r) sz)"

definition BR_ReadAtMost ::
  "'r mb_read \<Rightarrow> 'r bufreader \<Rightarrow> int \<Rightarrow> (MultiBuffer \<times> goerr option \<times> 'r bufreader) option" where
  "BR_ReadAtMost rmb r sz =
     (if MB_IsEmpty (br_Buffer r) then
        Option.bind (rmb (br_Reader r) (br_pool r)) (\<lambda>(mb, err, r', p).
          let r1 = r\<lparr>br_Reader := r', br_pool := p\<rparr>
          in if MB_IsEmpty mb \<and> err \<noteq> None then Some ([], err, r1)
             else BR_split_size (r1\<lparr>br_Buffer := mb\<rparr>) sz)
      else BR_split_size r sz)"

section \<open>Copy\<close>

text \<open>
  The data handlers of a copy act on a state \<open>'s\<close> (counters, the activity timer), in the order of the options.
\<close>

type_synonym 's dataHandler = "MultiBuffer \<Rightarrow> 's \<Rightarrow> 's"

definition CountSize :: "int dataHandler" where
  "CountSize mb sc = sc + MB_Len mb"

definition AddToStatCounter :: "counter dataHandler" where
  "AddToStatCounter mb sc = counter_Add sc (MB_Len mb)"

partial_function (option) copyInternal ::
  "'r mb_read \<Rightarrow> 'w mb_write \<Rightarrow> 's dataHandler list \<Rightarrow> 'r \<Rightarrow> 'w \<Rightarrow> 's \<Rightarrow> pool \<Rightarrow> (goerr \<times> 'r \<times> 'w \<times> 's \<times> pool) option"
where
  "copyInternal rmb wmb onData r w s p =
     Option.bind (rmb r p) (\<lambda>(buffer, err, r', p').
       (if \<not> MB_IsEmpty buffer then
          (let s' = fold (\<lambda>h. h buffer) onData s
           in Option.bind (wmb w buffer p') (\<lambda>(werr, w', p'').
             case werr of
               Some e \<Rightarrow> Some (WriteError e, r', w', s', p'')
             | None \<Rightarrow>
                 (case err of
                    Some e \<Rightarrow> Some (ReadError e, r', w', s', p'')
                  | None \<Rightarrow> copyInternal rmb wmb onData r' w' s' p'')))
        else
          (case err of
             Some e \<Rightarrow> Some (ReadError e, r', w, s, p')
           | None \<Rightarrow> copyInternal rmb wmb onData r' w s p')))"

declare copyInternal.simps [code]

definition Copy ::
  "'r mb_read \<Rightarrow> 'w mb_write \<Rightarrow> 's dataHandler list \<Rightarrow> 'r \<Rightarrow> 'w \<Rightarrow> 's \<Rightarrow> pool
   \<Rightarrow> (goerr option \<times> 'r \<times> 'w \<times> 's \<times> pool) option" where
  "Copy rmb wmb options r w s p =
     map_option (\<lambda>(e, r', w', s', p'). (if Cause e \<noteq> EOF then Some e else None, r', w', s', p'))
       (copyInternal rmb wmb options r w s p)"

text \<open>\<open>CopyOnceTimeout\<close>: \<open>tmr\<close> is the reader's \<open>ReadMultiBufferTimeout\<close>, if it has one.\<close>

definition CopyOnceTimeout ::
  "('r mb_read) option \<Rightarrow> 'w mb_write \<Rightarrow> 'r \<Rightarrow> 'w \<Rightarrow> pool \<Rightarrow> (goerr option \<times> 'r \<times> 'w \<times> pool) option" where
  "CopyOnceTimeout tmr wmb r w p =
     (case tmr of
        None \<Rightarrow> Some (Some ErrNotTimeoutReader, r, w, p)
      | Some rt \<Rightarrow> Option.bind (rt r p) (\<lambda>(mb, err, r', p').
          case err of
            Some e \<Rightarrow> Some (Some e, r', w, p')
          | None \<Rightarrow> map_option (\<lambda>(e, w', p''). (e, r', w', p'')) (wmb w mb p')))"

definition BR_writeToInternal ::
  "'r mb_read \<Rightarrow> 'w mb_write \<Rightarrow> 'r bufreader \<Rightarrow> 'w \<Rightarrow> (int \<times> goerr option \<times> 'r bufreader \<times> 'w) option" where
  "BR_writeToInternal rmb wmb r w =
     (let copy = (\<lambda>r w sc p.
        map_option (\<lambda>(e, rr, w', n, p'). (n, e, r\<lparr>br_Reader := rr, br_pool := p'\<rparr>, w'))
          (Copy rmb wmb [CountSize] (br_Reader r) w sc p))
      in if br_Buffer r \<noteq> [] then
           Option.bind (wmb w (br_Buffer r) (br_pool r)) (\<lambda>(err, w', p).
             case err of
               Some e \<Rightarrow> Some (0, Some e, r\<lparr>br_pool := p\<rparr>, w')
             | None \<Rightarrow> copy (r\<lparr>br_Buffer := []\<rparr>) w' (MB_Len (br_Buffer r)) p)
         else copy r w 0 (br_pool r))"

definition BR_WriteTo ::
  "'r mb_read \<Rightarrow> 'w mb_write \<Rightarrow> 'r bufreader \<Rightarrow> 'w \<Rightarrow> (int \<times> goerr option \<times> 'r bufreader \<times> 'w) option" where
  "BR_WriteTo rmb wmb r w =
     map_option (\<lambda>(n, err, r', w'). (n, (case err of Some e \<Rightarrow> if Cause e = EOF then None else Some e | None \<Rightarrow> None), r', w'))
       (BR_writeToInternal rmb wmb r w)"

definition BTB_ReadFrom ::
  "'r mb_read \<Rightarrow> 'w io_write \<Rightarrow> 'r \<Rightarrow> 'w \<times> counter \<Rightarrow> pool \<Rightarrow> (int \<times> goerr option \<times> 'r \<times> ('w \<times> counter) \<times> pool) option" where
  "BTB_ReadFrom rmb wr r w p =
     map_option (\<lambda>(e, r', w', n, p'). (n, e, r', w', p')) (Copy rmb (BTB_WriteMultiBuffer wr) [CountSize] r w 0 p)"

section \<open>BufferedWriter\<close>

text \<open>\<open>iow\<close> is the \<open>Write\<close> method of the underlying writer when it is also an \<open>io.Writer\<close>.\<close>

record 'w bufwriter =
  bw_writer :: 'w
  bw_buffer :: "Buffer option"
  bw_buffered :: bool
  bw_flushNext :: bool
  bw_pool :: pool

definition NewBufferedWriter :: "'w \<Rightarrow> pool \<Rightarrow> 'w bufwriter" where
  "NewBufferedWriter w p = (case New p of (b, p') \<Rightarrow>
     \<lparr>bw_writer = w, bw_buffer = Some b, bw_buffered = True, bw_flushNext = False, bw_pool = p'\<rparr>)"

definition flushInternal ::
  "('w io_write) option \<Rightarrow> 'w mb_write \<Rightarrow> 'w bufwriter \<Rightarrow> (goerr option \<times> 'w bufwriter) option" where
  "flushInternal iow wmb w =
     (if IsEmpty (bw_buffer w) then Some (None, w)
      else let b = bw_buffer w; w1 = w\<lparr>bw_buffer := None\<rparr>
        in (case iow of
              Some wr \<Rightarrow> Option.bind b (\<lambda>bb. Option.bind (Bytes bb) (\<lambda>d.
                map_option (\<lambda>(e, w', _). (e, w1\<lparr>bw_writer := w', bw_pool := snd (Release b (bw_pool w))\<rparr>))
                  (WriteAllBytes wr (bw_writer w) d None)))
            | None \<Rightarrow> map_option (\<lambda>(e, w', p'). (e, w1\<lparr>bw_writer := w', bw_pool := p'\<rparr>))
                (wmb (bw_writer w) [b] (bw_pool w))))"

definition ensure_buffer :: "'w bufwriter \<Rightarrow> Buffer \<times> 'w bufwriter" where
  "ensure_buffer w = (case bw_buffer w of
     Some b \<Rightarrow> (b, w)
   | None \<Rightarrow> (case New (bw_pool w) of (b, p') \<Rightarrow> (b, w\<lparr>bw_buffer := Some b, bw_pool := p'\<rparr>)))"

partial_function (option) BW_Write_loop ::
  "('w io_write) option \<Rightarrow> 'w mb_write \<Rightarrow> 'w bufwriter \<Rightarrow> byte list \<Rightarrow> int \<Rightarrow> (int \<times> goerr option \<times> 'w bufwriter) option"
where
  "BW_Write_loop iow wmb w d totalBytes =
     (if d = [] then Some (totalBytes, None, w)
      else (case ensure_buffer w of (b, w1) \<Rightarrow>
        Option.bind (Write b d) (\<lambda>x. case x of ((n, err), b') \<Rightarrow>
          (let w2 = w1\<lparr>bw_buffer := Some b'\<rparr>
           in case err of
                Some e \<Rightarrow> Some (totalBytes + n, Some e, w2)
              | None \<Rightarrow>
                  if \<not> bw_buffered w2 \<or> IsFull (Some b') then
                    Option.bind (flushInternal iow wmb w2) (\<lambda>(ferr, w3).
                      case ferr of
                        Some e \<Rightarrow> Some (totalBytes + n, Some e, w3)
                      | None \<Rightarrow> BW_Write_loop iow wmb w3 (drop (nat n) d) (totalBytes + n))
                  else BW_Write_loop iow wmb w2 (drop (nat n) d) (totalBytes + n)))))"

declare BW_Write_loop.simps [code]

definition BW_Write ::
  "('w io_write) option \<Rightarrow> 'w mb_write \<Rightarrow> 'w bufwriter \<Rightarrow> byte list \<Rightarrow> (int \<times> goerr option \<times> 'w bufwriter) option" where
  "BW_Write iow wmb w d =
     (if d = [] then Some (0, None, w)
      else (case (bw_buffered w, iow) of
              (False, Some wr) \<Rightarrow> map_option (\<lambda>(n, e, w'). (n, e, w\<lparr>bw_writer := w'\<rparr>)) (wr (bw_writer w) d)
            | _ \<Rightarrow> BW_Write_loop iow wmb w d 0))"

definition BW_WriteByte ::
  "('w io_write) option \<Rightarrow> 'w mb_write \<Rightarrow> 'w bufwriter \<Rightarrow> byte \<Rightarrow> (goerr option \<times> 'w bufwriter) option" where
  "BW_WriteByte iow wmb w c = map_option (\<lambda>(_, e, w'). (e, w')) (BW_Write iow wmb w [c])"

text \<open>The loop of \<open>WriteMultiBuffer\<close>: fill the buffer from the container, flush when full; the container is closed at the end.\<close>

partial_function (option) BW_fill_loop ::
  "('w io_write) option \<Rightarrow> 'w mb_write \<Rightarrow> 'w bufwriter \<Rightarrow> MultiBuffer \<Rightarrow> (goerr option \<times> 'w bufwriter) option"
where
  "BW_fill_loop iow wmb w mb =
     (if MB_IsEmpty mb then Some (None, w\<lparr>bw_pool := snd (ReleaseMulti mb (bw_pool w))\<rparr>)
      else (case ensure_buffer w of (b, w1) \<Rightarrow>
        Option.bind (Buffer_ReadFrom MBC_Read b (mb, bw_pool w1)) (\<lambda>x. case x of ((_, err), b', (mb', p')) \<Rightarrow>
          (if err \<noteq> None then None
           else let w2 = w1\<lparr>bw_buffer := Some b', bw_pool := p'\<rparr>
             in if IsFull (Some b') then
                  Option.bind (flushInternal iow wmb w2) (\<lambda>(ferr, w3).
                    case ferr of
                      Some e \<Rightarrow> Some (Some e, w3\<lparr>bw_pool := snd (ReleaseMulti mb' (bw_pool w3))\<rparr>)
                    | None \<Rightarrow> BW_fill_loop iow wmb w3 mb')
                else BW_fill_loop iow wmb w2 mb'))))"

definition BW_WriteMultiBuffer ::
  "('w io_write) option \<Rightarrow> 'w mb_write \<Rightarrow> 'w bufwriter \<Rightarrow> MultiBuffer \<Rightarrow> (goerr option \<times> 'w bufwriter) option" where
  "BW_WriteMultiBuffer iow wmb w mb =
     (if MB_IsEmpty mb then Some (None, w)
      else if \<not> bw_buffered w then
        map_option (\<lambda>(e, w', p'). (e, w\<lparr>bw_writer := w', bw_pool := p'\<rparr>)) (wmb (bw_writer w) mb (bw_pool w))
      else Option.bind (BW_fill_loop iow wmb w mb) (\<lambda>(err, w1).
        case err of
          Some e \<Rightarrow> Some (Some e, w1)
        | None \<Rightarrow>
            if bw_flushNext w1 then flushInternal iow wmb (w1\<lparr>bw_buffered := False, bw_flushNext := False\<rparr>)
            else Some (None, w1)))"

definition SetBuffered ::
  "('w io_write) option \<Rightarrow> 'w mb_write \<Rightarrow> 'w bufwriter \<Rightarrow> bool \<Rightarrow> (goerr option \<times> 'w bufwriter) option" where
  "SetBuffered iow wmb w f =
     (let w1 = w\<lparr>bw_buffered := f\<rparr> in if \<not> f then flushInternal iow wmb w1 else Some (None, w1))"

definition SetFlushNext :: "'w bufwriter \<Rightarrow> 'w bufwriter" where
  "SetFlushNext w = w\<lparr>bw_flushNext := True\<rparr>"

definition BW_as_writer ::
  "('w io_write) option \<Rightarrow> 'w mb_write \<Rightarrow> ('w bufwriter) mb_write" where
  "BW_as_writer iow wmb w mb p =
     map_option (\<lambda>(e, w'). (e, w', bw_pool w')) (BW_WriteMultiBuffer iow wmb (w\<lparr>bw_pool := p\<rparr>) mb)"

definition BW_ReadFrom ::
  "'r mb_read \<Rightarrow> ('w io_write) option \<Rightarrow> 'w mb_write \<Rightarrow> 'r \<Rightarrow> 'w bufwriter \<Rightarrow> (int \<times> goerr option \<times> 'r \<times> 'w bufwriter) option" where
  "BW_ReadFrom rmb iow wmb r w =
     Option.bind (SetBuffered iow wmb w False) (\<lambda>(err, w1).
       case err of
         Some e \<Rightarrow> Some (0, Some e, r, w1)
       | None \<Rightarrow> map_option (\<lambda>(e, r', w', n, p'). (n, e, r', w'\<lparr>bw_pool := p'\<rparr>))
           (Copy rmb (BW_as_writer iow wmb) [CountSize] r w1 0 (bw_pool w1)))"

text \<open>\<open>Close\<close>: \<open>close\<close> is \<open>common.Close\<close> of the underlying writer.\<close>

definition BW_Close ::
  "('w \<Rightarrow> goerr option \<times> 'w) \<Rightarrow> ('w io_write) option \<Rightarrow> 'w mb_write \<Rightarrow> 'w bufwriter \<Rightarrow> (goerr option \<times> 'w bufwriter) option" where
  "BW_Close cls iow wmb w =
     Option.bind (flushInternal iow wmb w) (\<lambda>(err, w1).
       case err of
         Some e \<Rightarrow> Some (Some e, w1)
       | None \<Rightarrow> (case cls (bw_writer w1) of (e, w') \<Rightarrow> Some (e, w1\<lparr>bw_writer := w'\<rparr>)))"

section \<open>ChunkStreamReader\<close>

record 'r chunkreader =
  cs_reader :: "'r bufreader"
  cs_leftOverSize :: int
  cs_maxNumChunk :: "32 word"
  cs_numChunk :: "32 word"

definition NewChunkStreamReaderWithChunkCount :: "'r bufreader \<Rightarrow> 32 word \<Rightarrow> 'r chunkreader" where
  "NewChunkStreamReaderWithChunkCount r maxNum =
     \<lparr>cs_reader = r, cs_leftOverSize = 0, cs_maxNumChunk = maxNum, cs_numChunk = 0\<rparr>"

definition readSize :: "'r mb_read \<Rightarrow> 'r chunkreader \<Rightarrow> (16 word \<times> goerr option \<times> 'r chunkreader) option" where
  "readSize rmb c =
     Option.bind (ReadFull (BR_Read rmb) (cs_reader c) 2) (\<lambda>(d, err, r').
       let c' = c\<lparr>cs_reader := r'\<rparr>
       in case err of
            Some e \<Rightarrow> Some (0, Some e, c')
          | None \<Rightarrow> map_option (\<lambda>n. (n, None, c')) (Uint16 d))"

definition CS_read_chunk :: "'r mb_read \<Rightarrow> 'r chunkreader \<Rightarrow> int \<Rightarrow> (MultiBuffer \<times> goerr option \<times> 'r chunkreader) option" where
  "CS_read_chunk rmb c sz =
     Option.bind (BR_ReadAtMost rmb (cs_reader c) sz) (\<lambda>(mb, err, r').
       if \<not> MB_IsEmpty mb
       then Some (mb, None, c\<lparr>cs_reader := r', cs_leftOverSize := i32 (sz - MB_Len mb)\<rparr>)
       else Some ([], err, c\<lparr>cs_reader := r', cs_leftOverSize := sz\<rparr>))"

definition CS_ReadMultiBuffer :: "'r mb_read \<Rightarrow> 'r chunkreader \<Rightarrow> (MultiBuffer \<times> goerr option \<times> 'r chunkreader) option" where
  "CS_ReadMultiBuffer rmb c =
     (if cs_leftOverSize c = 0 then
        let c1 = c\<lparr>cs_numChunk := cs_numChunk c + 1\<rparr>
        in if cs_maxNumChunk c1 > 0 \<and> cs_numChunk c1 > cs_maxNumChunk c1 then Some ([], Some EOF, c1)
           else Option.bind (readSize rmb c1) (\<lambda>(nextSize, err, c2).
             case err of
               Some e \<Rightarrow> Some ([], Some e, c2)
             | None \<Rightarrow>
                 if nextSize = 0 then Some ([], Some EOF, c2)
                 else CS_read_chunk rmb c2 (uint nextSize))
      else CS_read_chunk rmb c (cs_leftOverSize c))"

section \<open>Contracts\<close>

text \<open>The documented contract of \<open>io.Writer\<close>: a short write comes with an error.\<close>

locale io_writer =
  fixes wr :: "'w io_write"
    and sent :: "'w \<Rightarrow> byte list"
  assumes write_all: "\<exists>n e w'. wr w d = Some (n, e, w') \<and> 0 \<le> n \<and> n \<le> int (length d)
    \<and> sent w' = sent w @ take (nat n) d \<and> (e = None \<longrightarrow> n = int (length d))"
begin

lemma WriteAllBytes_loop_sends:
  "\<exists>e k w'. WriteAllBytes_loop wr w d wc = Some (e, wc + int k, w') \<and> k \<le> length d
    \<and> sent w' = sent w @ take k d \<and> (e = None \<longrightarrow> k = length d)"
proof (cases "d = []")
  case True
  then show ?thesis by (intro exI [of _ None] exI [of _ 0] exI [of _ w]) (simp add: WriteAllBytes_loop.simps)
next
  case False
  obtain n e w' where w: "wr w d = Some (n, e, w')" "0 \<le> n" "n \<le> int (length d)"
    "sent w' = sent w @ take (nat n) d" "e = None \<longrightarrow> n = int (length d)"
    using write_all [of w d] by auto
  show ?thesis
  proof (cases e)
    case None
    then have "WriteAllBytes_loop wr w d wc = WriteAllBytes_loop wr w' [] (wc + n)"
      using w False by (subst WriteAllBytes_loop.simps) simp
    then show ?thesis using w None
      by (intro exI [of _ None] exI [of _ "length d"] exI [of _ w']) (simp add: WriteAllBytes_loop.simps)
  next
    case (Some x)
    then show ?thesis using w False
      by (intro exI [of _ e] exI [of _ "nat n"] exI [of _ w']) (simp add: WriteAllBytes_loop.simps)
  qed
qed

lemma WriteAllBytes_sends:
  "\<exists>e k w'. WriteAllBytes wr w d c = Some (e, w', counter_Add c (int k)) \<and> k \<le> length d
    \<and> sent w' = sent w @ take k d \<and> (e = None \<longrightarrow> k = length d)"
  using WriteAllBytes_loop_sends [of w d 0] by (auto simp: WriteAllBytes_def)

lemma Buffers_WriteTo_sends:
  "\<exists>e k w'. Buffers_WriteTo wr w bs n = Some (n + int k, e, w') \<and> k \<le> length (concat bs)
    \<and> sent w' = sent w @ take k (concat bs) \<and> (e = None \<longrightarrow> k = length (concat bs))"
proof (induction bs arbitrary: w n)
  case Nil
  show ?case by (intro exI [of _ None] exI [of _ 0] exI [of _ w]) simp
next
  case (Cons b bs)
  obtain m e w' where w: "wr w b = Some (m, e, w')" "0 \<le> m" "m \<le> int (length b)"
    "sent w' = sent w @ take (nat m) b" "e = None \<longrightarrow> m = int (length b)"
    using write_all [of w b] by auto
  show ?case
  proof (cases e)
    case None
    then obtain e' k w'' where "Buffers_WriteTo wr w' bs (n + m) = Some (n + m + int k, e', w'')"
      "k \<le> length (concat bs)" "sent w'' = sent w' @ take k (concat bs)" "e' = None \<longrightarrow> k = length (concat bs)"
      using Cons.IH [of w' "n + m"] by auto
    then show ?thesis using w None
      by (intro exI [of _ e'] exI [of _ "length b + k"] exI [of _ w'']) simp
  next
    case (Some x)
    then show ?thesis using w by (intro exI [of _ e] exI [of _ "nat m"] exI [of _ w']) simp
  qed
qed

lemma BTB_loop_sends:
  assumes "sz = int (length (concat bs))" "sz < 2147483648" "0 < sz"
  shows "\<exists>e k w'. BTB_loop wr w bs sz wc = Some (e, wc + int k, w') \<and> k \<le> length (concat bs)
    \<and> sent w' = sent w @ take k (concat bs) \<and> (e = None \<longrightarrow> k = length (concat bs))"
proof -
  obtain e k w' where b: "Buffers_WriteTo wr w bs 0 = Some (int k, e, w')" "k \<le> length (concat bs)"
    "sent w' = sent w @ take k (concat bs)" "e = None \<longrightarrow> k = length (concat bs)"
    using Buffers_WriteTo_sends [of w bs 0] by auto
  show ?thesis
  proof (cases e)
    case None
    have "BTB_loop wr w bs sz wc = BTB_loop wr w' (Buffers_consume bs k) (i32 (sz - i32 (int k))) (wc + int k)"
      using b None assms(3) by (subst BTB_loop.simps) simp
    moreover have "i32 (sz - i32 (int k)) = 0" using b(4) None assms by simp
    moreover have "BTB_loop wr w' bs' 0 (wc + int k) = Some (None, wc + int k, w')" for bs'
      by (subst BTB_loop.simps) simp
    ultimately show ?thesis using b None by auto
  next
    case (Some x)
    then show ?thesis using b assms(3)
      by (intro exI [of _ e] exI [of _ k] exI [of _ w']) (subst BTB_loop.simps, simp)
  qed
qed

end

text \<open>
  The contract of a \<open>buf.Writer\<close>: it takes over the buffers and either passes all their bytes on or fails after
  a prefix of them.
\<close>

locale mb_writer =
  fixes wmb :: "'w mb_write"
    and sent :: "'w \<Rightarrow> byte list"
  assumes write_mb: "mb_inv mb \<Longrightarrow> None \<notin> set mb \<Longrightarrow> int (length (mcontent mb)) < 2147483648 \<Longrightarrow> pool_ok p \<Longrightarrow>
    \<exists>e w' p' k. wmb w mb p = Some (e, w', p') \<and> pool_ok p' \<and> sent w' = sent w @ take k (mcontent mb)
      \<and> (e = None \<longrightarrow> k = length (mcontent mb))"
begin

definition write_err :: "goerr \<Rightarrow> bool" where
  "write_err x \<longleftrightarrow> (\<exists>w mb p w' p'. wmb w mb p = Some (Some x, w', p'))"

end

lemma all_Bytes_content:
  "mb_inv mb \<Longrightarrow> None \<notin> set mb \<Longrightarrow> \<exists>bs. all_Bytes mb = Some bs \<and> concat bs = mcontent mb"
proof (induction mb)
  case (Cons bo mb)
  then obtain b where "bo = Some b" by (cases bo) auto
  then show ?case using Cons by (auto simp: Bytes_content)
qed simp

context io_writer
begin

lemma SequentialWriter_sends:
  assumes "mb_inv mb" "None \<notin> set mb" "pool_ok p"
  shows "\<exists>e w' p' k mb'. WriteMultiBuffer wr w mb p = Some (mb', e, w', p') \<and> pool_ok p'
    \<and> sent w' = sent w @ take k (mcontent mb) \<and> (e = None \<longrightarrow> k = length (mcontent mb))"
  using assms
proof (induction mb arbitrary: w p)
  case Nil
  then show ?case by (intro exI [of _ None] exI [of _ w] exI [of _ p] exI [of _ 0] exI [of _ "[]"]) simp
next
  case (Cons bo mb)
  then obtain b where b: "bo = Some b" "buf_inv b" by (cases bo) auto
  have p: "pool_ok (snd (Release (Some b) p))" using Cons.prems(3) by (rule Release_pool_ok)
  obtain m e w' where w: "wr w (content b) = Some (m, e, w')" "0 \<le> m" "m \<le> int (length (content b))"
    "sent w' = sent w @ take (nat m) (content b)" "e = None \<longrightarrow> m = int (length (content b))"
    using write_all [of w "content b"] by auto
  show ?case
  proof (cases e)
    case None
    have "mb_inv mb" "None \<notin> set mb" using Cons.prems b by auto
    from Cons.IH [OF this p, of w']
    obtain e' w'' p' k mb' where "WriteMultiBuffer wr w' mb (snd (Release (Some b) p)) = Some (mb', e', w'', p')"
      "pool_ok p'" "sent w'' = sent w' @ take k (mcontent mb)" "e' = None \<longrightarrow> k = length (mcontent mb)"
      by blast
    then show ?thesis using w None b Bytes_content [OF b(2)]
      by (intro exI [of _ e'] exI [of _ w''] exI [of _ p'] exI [of _ "length (content b) + k"] exI [of _ mb'])
        (simp add: Let_def)
  next
    case (Some x)
    then show ?thesis using w b p Bytes_content [OF b(2)]
      by (intro exI [of _ e] exI [of _ w'] exI [of _ "snd (Release (Some b) p)"] exI [of _ "nat m"] exI [of _ mb])
        (simp add: Let_def)
  qed
qed

lemma BTB_sends:
  assumes "mb_inv mb" "None \<notin> set mb" "int (length (mcontent mb)) < 2147483648" "pool_ok p"
  shows "\<exists>e s' p' k. BTB_WriteMultiBuffer wr s mb p = Some (e, s', p') \<and> pool_ok p'
    \<and> sent (fst s') = sent (fst s) @ take k (mcontent mb) \<and> snd s' = counter_Add (snd s) (int k)
    \<and> k \<le> length (mcontent mb) \<and> (e = None \<longrightarrow> k = length (mcontent mb))"
proof -
  have l: "MB_Len mb = int (length (mcontent mb))" using MB_Len_mcontent assms(1,3) by simp
  have p: "pool_ok (snd (ReleaseMulti mb p))" using ReleaseMulti_pool_ok assms(4) by blast
  consider (empty) "mcontent mb = []" | (one) b where "mb = [Some b]" "mcontent mb \<noteq> []"
    | (many) "mcontent mb \<noteq> []" "length mb \<noteq> 1"
  proof (cases "length mb = 1")
    case True
    then obtain bo where "mb = [bo]" by (metis One_nat_def length_0_conv length_Suc_conv)
    then show ?thesis using that(1,2) assms(2) by (cases bo) auto
  qed (use that in blast)
  then show ?thesis
  proof cases
    case empty
    then show ?thesis using l p
      by (intro exI [of _ None] exI [of _ s] exI [of _ "snd (ReleaseMulti mb p)"] exI [of _ 0])
        (simp add: BTB_WriteMultiBuffer_def counter_Add_def option.map_ident)
  next
    case one
    then have "Bytes b = Some (content b)" using assms(1) by (simp add: Bytes_content)
    moreover obtain e k w' where "WriteAllBytes wr (fst s) (content b) (snd s) = Some (e, w', counter_Add (snd s) (int k))"
      "k \<le> length (content b)" "sent w' = sent (fst s) @ take k (content b)" "e = None \<longrightarrow> k = length (content b)"
      using WriteAllBytes_sends [of "fst s" "content b" "snd s"] by auto
    ultimately show ?thesis using one l p
      by (intro exI [of _ e] exI [of _ "(w', counter_Add (snd s) (int k))"] exI [of _ "snd (ReleaseMulti mb p)"] exI [of _ k])
        (simp add: BTB_WriteMultiBuffer_def Let_def)
  next
    case many
    obtain bs where bs: "all_Bytes mb = Some bs" "concat bs = mcontent mb" using all_Bytes_content assms(1,2) by blast
    obtain e k w' where "BTB_loop wr (fst s) bs (MB_Len mb) 0 = Some (e, 0 + int k, w')"
      "k \<le> length (concat bs)" "sent w' = sent (fst s) @ take k (concat bs)" "e = None \<longrightarrow> k = length (concat bs)"
      using BTB_loop_sends [of "MB_Len mb" bs "fst s" 0] l bs(2) assms(3) many(1) by auto
    then show ?thesis using many l p bs
      by (intro exI [of _ e] exI [of _ "(w', counter_Add (snd s) (int k))"] exI [of _ "snd (ReleaseMulti mb p)"] exI [of _ k])
        (simp add: BTB_WriteMultiBuffer_def Let_def)
  qed
qed

end

sublocale io_writer \<subseteq> seqw: mb_writer "SequentialWriter_WriteMultiBuffer wr" sent
proof unfold_locales
  fix mb p w
  assume a: "mb_inv mb" "None \<notin> set mb" "pool_ok p"
  obtain e w' p' k mb' where w: "WriteMultiBuffer wr w mb p = Some (mb', e, w', p')" "pool_ok p'"
    "sent w' = sent w @ take k (mcontent mb)" "e = None \<longrightarrow> k = length (mcontent mb)"
    using SequentialWriter_sends [OF a, of w] by blast
  have "pool_ok (snd (ReleaseMulti mb' p'))" using ReleaseMulti_pool_ok w(2) by blast
  then show "\<exists>e w' p' k. SequentialWriter_WriteMultiBuffer wr w mb p = Some (e, w', p') \<and> pool_ok p'
     \<and> sent w' = sent w @ take k (mcontent mb) \<and> (e = None \<longrightarrow> k = length (mcontent mb))"
    using w by (intro exI [of _ e] exI [of _ w'] exI [of _ "snd (ReleaseMulti mb' p')"] exI [of _ k])
      (simp add: SequentialWriter_WriteMultiBuffer_def)
qed

sublocale io_writer \<subseteq> btbw: mb_writer "BTB_WriteMultiBuffer wr" "\<lambda>s. sent (fst s)"
  by unfold_locales (use BTB_sends in blast)

text \<open>A MultiBuffer of pooled buffers none of which is nil or empty.\<close>

definition packed :: "MultiBuffer \<Rightarrow> bool" where
  "packed mb \<longleftrightarrow> (\<forall>x \<in> set mb. \<exists>b. x = Some b \<and> buf_inv b \<and> content b \<noteq> [] \<and> length (content b) \<le> 8192)"

lemma packedD: "packed mb \<Longrightarrow> mb_inv mb" "packed mb \<Longrightarrow> None \<notin> set mb" "packed mb \<Longrightarrow> mb \<noteq> [] \<Longrightarrow> mcontent mb \<noteq> []"
  by (auto simp: packed_def mb_inv_def) (cases mb, auto)

lemma packed_simps [simp]:
  "packed []" "packed (Some b # mb) \<longleftrightarrow> buf_inv b \<and> content b \<noteq> [] \<and> length (content b) \<le> 8192 \<and> packed mb"
  "\<not> packed (None # mb)" "packed (xs @ ys) \<longleftrightarrow> packed xs \<and> packed ys"
  by (auto simp: packed_def)

lemma SplitBytes_packed:
  "packed mb \<Longrightarrow> SplitBytes mb n p = Some (mb', d, p') \<Longrightarrow> packed mb'"
proof (induction mb n p arbitrary: mb' d p' rule: SplitBytes.induct)
  case (3 b mb n p)
  then obtain e b' where r: "Buffer_Read b n = Some (take n (content b), e, b')" "content b' = drop n (content b)" "buf_inv b'"
    using Buffer_Read_split [of b n] by auto
  show ?case
  proof (cases "content b' = []")
    case False
    then show ?thesis using 3(2,3) r by (auto simp: IsEmpty_content)
  next
    case True
    then obtain d' where "SplitBytes mb (n - length (take n (content b))) (snd (Release (Some b') p)) = Some (mb', d', p')"
      using 3(3) r by (auto simp: IsEmpty_content)
    then show ?thesis using 3(1) [OF r(1) refl] 3(2) True r(3) by (simp add: IsEmpty_content)
  qed
qed auto

lemma SplitSize_loop_parts:
  "SplitSize_loop mb sz tot r = (l, r') \<Longrightarrow> \<exists>t. r' = r @ t \<and> t @ l = mb"
  by (induction mb sz tot r rule: SplitSize_loop.induct) (auto split: if_splits)

text \<open>\<open>SplitSize\<close> of a packed MultiBuffer with a positive size makes progress and keeps both parts packed.\<close>

lemma SplitSize_packed:
  assumes "packed mb" "mb \<noteq> []" "pool_ok p" "0 < sz" "sz < 2147483648" "int (length (mcontent mb)) < 2147483648"
  shows "\<exists>l r p'. SplitSize p mb sz = Some (l, r, p') \<and> mcontent r @ mcontent l = mcontent mb
    \<and> int (length (mcontent r)) \<le> sz \<and> packed l \<and> packed r \<and> r \<noteq> [] \<and> pool_ok p'"
proof -
  obtain b0 rest where mb: "mb = Some b0 # rest" "buf_inv b0" "content b0 \<noteq> []" "length (content b0) \<le> 8192" "packed rest"
    using assms(1,2) by (cases mb) (auto simp: packed_def)
  have len: "Len (Some b0) = int (length (content b0))" using Len_content [OF mb(2)] .
  show ?thesis
  proof (cases "Len (Some b0) > sz")
    case False
    obtain l r where lr: "SplitSize_loop mb sz 0 [] = (l, r)" by fastforce
    then obtain t where t: "r = t" "t @ l = mb" using SplitSize_loop_parts [OF lr] by auto
    have "r \<noteq> []"
    proof -
      have "i32 (0 + Len (Some b0)) = Len (Some b0)" using len mb(4) by simp
      then have "SplitSize_loop rest sz (Len (Some b0)) [Some b0] = (l, r)" using lr mb(1) False by simp
      then show ?thesis using SplitSize_loop_parts by fastforce
    qed
    moreover have "packed l" "packed r" using assms(1) t by auto
    moreover have "mcontent r @ mcontent l = mcontent mb" "int (length (mcontent r)) \<le> sz"
      using SplitSize_loop_split [OF packedD(1) [OF assms(1)] _ _ _ _ lr] assms(4,6) by auto
    ultimately show ?thesis using lr mb(1) False assms(3) by (simp add: SplitSize_def)
  next
    case True
    obtain k where k: "sz = int k" using assms(4) by (metis less_imp_le nonneg_eq_int)
    have kl: "k < length (content b0)" "0 < k" "k \<le> 8192" using True len k assms(4) mb(4) by simp_all
    obtain b p' where b: "New p = (b, p')" "buf_inv b" "content b = []" "room b = 8192" "b_start b = 0"
      "b_end b = 0" "pool_ok p'"
      using New_ok [OF assms(3)] by auto
    let ?b1 = "append_to b (replicate k 0)"
    have ext: "Extend b sz = Some ((0, int k), ?b1)" using Extend_room [of b k] b k kl by simp
    have bt: "BytesTo b0 sz = Some (take k (content b0))" using BytesTo_content [of b0 k] mb(2) kl k by simp
    have adv: "Advance b0 sz = consume b0 k" using Advance_content [of b0 k] mb(2) kl k by simp
    let ?b2 = "put_at ?b1 0 (take k (content b0))"
    have "content ?b2 = overwrite (replicate k 0) 0 (take k (content b0))" "buf_inv ?b2"
      using put_at_content [of ?b1 0 "take k (content b0)"] b kl by simp_all
    then have c: "content ?b2 = take k (content b0)" "buf_inv ?b2" using kl by (simp_all add: overwrite_def)
    have "SplitSize p mb sz = Some (Some (consume b0 k) # rest, [Some ?b2], p')"
      using b(1) ext bt adv True mb(1) kl k by (simp add: SplitSize_def)
    moreover have "packed (Some (consume b0 k) # rest)" "packed [Some ?b2]" using c mb kl by auto
    ultimately show ?thesis using c mb kl k b(7) by auto
  qed
qed

lemma SplitSize_empty:
  assumes "mb_inv mb" "mcontent mb = []" "0 < sz" "sz < 2147483648"
  shows "SplitSize p mb sz = Some ([], mb, p)"
proof -
  have z: "\<forall>x \<in> set mb. Len x = 0"
  proof
    fix x
    assume "x \<in> set mb"
    then have "pcontent x = []" "mb_inv [x]" using assms(1,2) by (auto simp: mcontent_def mb_inv_def)
    then show "Len x = 0" by (simp add: Len_pcontent)
  qed
  then have "SplitSize_loop mb sz 0 r = ([], r @ mb)" for r using assms(3)
    by (induction mb arbitrary: r) simp_all
  then have "SplitSize_loop mb sz 0 [] = ([], mb)" by simp
  then show ?thesis using z assms(3) by (cases mb) (auto simp: SplitSize_def)
qed

text \<open>
  The contract of a \<open>buf.Reader\<close>: each call delivers the next bytes of the stream, an error is the final one and
  comes when nothing is left after the bytes delivered with it, and calls without bytes make progress.
\<close>

locale mb_reader =
  fixes rmb :: "'r mb_read"
    and rinv :: "'r \<Rightarrow> bool"
    and pending :: "'r \<Rightarrow> byte list"
    and final :: "'r \<Rightarrow> goerr"
    and weight :: "'r \<Rightarrow> nat"
    and rdone :: "'r \<Rightarrow> bool"
  assumes read_mb: "rinv r \<Longrightarrow> pool_ok p \<Longrightarrow>
    \<exists>mb e r' p'. rmb r p = Some (mb, e, r', p') \<and> (if e = None then rinv r' else rdone r') \<and> pool_ok p' \<and> mb_inv mb
      \<and> (mcontent mb \<noteq> [] \<longrightarrow> packed mb) \<and> int (length (mcontent mb)) < 2147483648
      \<and> pending r = mcontent mb @ pending r' \<and> final r' = final r
      \<and> (e = None \<longrightarrow> mcontent mb \<noteq> [] \<or> weight r' < weight r)
      \<and> (\<forall>x. e = Some x \<longrightarrow> x = final r \<and> pending r' = [])"
begin

definition clean :: bool where
  "clean \<longleftrightarrow> (\<forall>r p mb x r' p'. rinv r \<longrightarrow> pool_ok p \<longrightarrow> rmb r p = Some (mb, Some x, r', p') \<longrightarrow> mcontent mb = [])"

end

text \<open>A reader that never delivers bytes together with an error.\<close>

locale clean_mb_reader = mb_reader +
  assumes done_inv: "rdone r \<Longrightarrow> rinv r"
    and no_data_with_error: "rinv r \<Longrightarrow> pool_ok p \<Longrightarrow> rmb r p = Some (mb, Some x, r', p') \<Longrightarrow> mcontent mb = []"

context io_reader
begin

lemma Buffer_ReadFrom_once:
  assumes "rinv r" "buf_inv b" "0 < room b"
  shows "\<exists>bs e r'. Buffer_ReadFrom rd b r = Some ((int (length bs), e), append_to b bs, r') \<and> rd r (room b) = Some (bs, e, r')
    \<and> rinv r' \<and> length bs \<le> room b \<and> pending r = bs @ pending r' \<and> final r' = final r
    \<and> (e = None \<longrightarrow> bs \<noteq> [] \<or> weight r' < weight r) \<and> (\<forall>x. e = Some x \<longrightarrow> x = final r \<and> pending r' = [])"
proof -
  obtain bs e r' where r: "rd r (room b) = Some (bs, e, r')" "rinv r'" "length bs \<le> room b" "pending r = bs @ pending r'"
    "final r' = final r" "e = None \<longrightarrow> bs \<noteq> [] \<or> weight r' < weight r" "\<forall>x. e = Some x \<longrightarrow> x = final r \<and> pending r' = []"
    using read_ok [OF assms(1,3)] by auto
  have "0 \<le> b_end b" "b_end b \<le> b_len b" "b_len b < 2147483648" "b_end b + int (length bs) \<le> b_len b"
    using assms(2) r(3) room_bound [OF assms(2)] by (auto simp: buf_inv_def)
  then have "Buffer_ReadFrom rd b r = Some ((int (length bs), e), append_to b bs, r')"
    using r(1) by (simp add: Buffer_ReadFrom_def append_to_def room_def)
  then show ?thesis using r by blast
qed

lemma SingleReader_reads:
  assumes "rinv r" "pool_ok p"
  shows "\<exists>mb e r' p' bs. SingleReader_ReadMultiBuffer rd r p = Some (mb, e, r', p') \<and> rd r 8192 = Some (bs, e, r')
      \<and> rinv r' \<and> pool_ok p' \<and> mb_inv mb
      \<and> mcontent mb = bs \<and> (bs \<noteq> [] \<longrightarrow> packed mb) \<and> length bs \<le> 8192 \<and> pending r = bs @ pending r' \<and> final r' = final r
      \<and> (e = None \<longrightarrow> bs \<noteq> [] \<or> weight r' < weight r) \<and> (\<forall>x. e = Some x \<longrightarrow> x = final r \<and> pending r' = [])"
proof -
  obtain b p1 where b: "New p = (b, p1)" "buf_inv b" "content b = []" "room b = 8192" "pool_ok p1"
    using New_ok [OF assms(2)] by auto
  obtain bs e r' where r: "Buffer_ReadFrom rd b r = Some ((int (length bs), e), append_to b bs, r')" "rd r 8192 = Some (bs, e, r')"
    "rinv r'" "length bs \<le> 8192" "pending r = bs @ pending r'" "final r' = final r"
    "e = None \<longrightarrow> bs \<noteq> [] \<or> weight r' < weight r" "\<forall>x. e = Some x \<longrightarrow> x = final r \<and> pending r' = []"
    using Buffer_ReadFrom_once [OF assms(1) b(2)] unfolding b(4) by auto
  define out where "out = (if bs = [] then [None] else [Some (append_to b bs)])"
  define p' where "p' = (if bs = [] then snd (Release (Some (append_to b bs)) p1) else p1)"
  have "SingleReader_ReadMultiBuffer rd r p = Some (out, e, r', p')"
    using b(1) r(1) by (auto simp: SingleReader_ReadMultiBuffer_def ReadBuffer_def out_def p'_def)
  moreover have "mcontent out = bs" "mb_inv out" "bs \<noteq> [] \<longrightarrow> packed out" using b r(4) by (auto simp: out_def packed_def)
  moreover have "pool_ok p'" using b(5) by (simp add: p'_def Release_pool_ok)
  ultimately show ?thesis using r by blast
qed

end

sublocale io_reader \<subseteq> single: mb_reader "SingleReader_ReadMultiBuffer rd" rinv pending final weight rinv
proof unfold_locales
  fix r p
  assume "rinv r" "pool_ok p"
  from SingleReader_reads [OF this]
  obtain mb e r' p' bs where r: "SingleReader_ReadMultiBuffer rd r p = Some (mb, e, r', p')" "rinv r'" "pool_ok p'" "mb_inv mb"
    "mcontent mb = bs" "bs \<noteq> [] \<longrightarrow> packed mb" "length bs \<le> 8192" "pending r = bs @ pending r'" "final r' = final r"
    "e = None \<longrightarrow> bs \<noteq> [] \<or> weight r' < weight r" "\<forall>x. e = Some x \<longrightarrow> x = final r \<and> pending r' = []"
    by blast
  have "int (length bs) < 2147483648" using r(7) by simp
  then show "\<exists>mb e r' p'. SingleReader_ReadMultiBuffer rd r p = Some (mb, e, r', p') \<and> (if e = None then rinv r' else rinv r') \<and> pool_ok p' \<and> mb_inv mb
      \<and> (mcontent mb \<noteq> [] \<longrightarrow> packed mb) \<and> int (length (mcontent mb)) < 2147483648
      \<and> pending r = mcontent mb @ pending r' \<and> final r' = final r
      \<and> (e = None \<longrightarrow> mcontent mb \<noteq> [] \<or> weight r' < weight r)
      \<and> (\<forall>x. e = Some x \<longrightarrow> x = final r \<and> pending r' = [])"
    using r by (intro exI [of _ mb] exI [of _ e] exI [of _ r'] exI [of _ p']) simp
qed

text \<open>\<open>Copy\<close> between any reader and any writer that keep their contracts.\<close>

text \<open>Copying into the writer that drops everything uses the stream up.\<close>

context mb_reader
begin

lemma discard_ends:
  assumes "rinv r" "pool_ok p"
  shows "\<exists>r' s' p'. copyInternal rmb noOpWriter_WriteMultiBuffer hs r () s p = Some (ReadError (final r), r', (), s', p') \<and> pool_ok p' \<and> rdone r'"
  using assms
proof (induction "(length (pending r), weight r)" arbitrary: r s p
    rule: wf_induct_rule [OF wf_lex_prod [OF wf_less_than wf_less_than]])
  case 1
  obtain mb e r1 p1 where r: "rmb r p = Some (mb, e, r1, p1)" "if e = None then rinv r1 else rdone r1" "pool_ok p1" "mb_inv mb"
      "pending r = mcontent mb @ pending r1" "final r1 = final r"
      "e = None \<longrightarrow> mcontent mb \<noteq> [] \<or> weight r1 < weight r" "\<forall>x. e = Some x \<longrightarrow> x = final r"
    using read_mb [OF 1(2,3)] by blast
  let ?s = "if mcontent mb = [] then s else fold (\<lambda>h. h mb) hs s" and ?p = "if mcontent mb = [] then p1 else snd (ReleaseMulti mb p1)"
  have pl: "pool_ok ?p" using r(3) ReleaseMulti_pool_ok by simp
  have eq: "copyInternal rmb noOpWriter_WriteMultiBuffer hs r () s p = (case e of Some x \<Rightarrow> Some (ReadError x, r1, (), ?s, ?p)
      | None \<Rightarrow> copyInternal rmb noOpWriter_WriteMultiBuffer hs r1 () ?s ?p)"
    using r(1,4) by (subst copyInternal.simps) (simp add: noOpWriter_WriteMultiBuffer_def Let_def)
  show ?case
  proof (cases e)
    case None
    have "\<exists>r' s' p'. copyInternal rmb noOpWriter_WriteMultiBuffer hs r1 () ?s ?p = Some (ReadError (final r1), r', (), s', p') \<and> pool_ok p' \<and> rdone r'"
      by (rule 1(1)) (use r None pl in auto)
    then show ?thesis using eq None r(6) by simp
  next
    case (Some x)
    then show ?thesis using eq r(2,8) pl by simp
  qed
qed

end

locale copy_pair = mb_reader rmb rinv pending final weight rdone + mb_writer wmb sent
  for rmb :: "'r mb_read" and rinv pending final weight rdone and wmb :: "'w mb_write" and sent
begin

text \<open>
  A copy ends with the stream used up, or with an error that the writer gave; then the reader can go on, unless it gives
  bytes together with an error.
\<close>

definition copied :: "'r \<Rightarrow> 'w \<Rightarrow> goerr \<Rightarrow> 'w \<Rightarrow> 'r \<Rightarrow> bool" where
  "copied r w e w' r' \<longleftrightarrow> (\<exists>k. sent w' = sent w @ take k (pending r))
     \<and> (e = ReadError (final r) \<and> sent w' = sent w @ pending r \<and> rdone r'
        \<or> (\<exists>x. e = WriteError x \<and> write_err x) \<and> (rinv r' \<or> \<not> clean))"

lemma copyInternal_ends:
  assumes "rinv r" "pool_ok p"
  shows "\<exists>e r' w' s' p'. copyInternal rmb wmb hs r w s p = Some (e, r', w', s', p') \<and> pool_ok p' \<and> copied r w e w' r'"
  using assms
proof (induction "(length (pending r), weight r)" arbitrary: r w s p
    rule: wf_induct_rule [OF wf_lex_prod [OF wf_less_than wf_less_than]])
  case 1
  obtain mb e r1 p1 where r: "rmb r p = Some (mb, e, r1, p1)" "if e = None then rinv r1 else rdone r1" "pool_ok p1" "mb_inv mb"
      "mcontent mb \<noteq> [] \<longrightarrow> packed mb" "int (length (mcontent mb)) < 2147483648"
      "pending r = mcontent mb @ pending r1" "final r1 = final r"
      "e = None \<longrightarrow> mcontent mb \<noteq> [] \<or> weight r1 < weight r"
      "\<forall>x. e = Some x \<longrightarrow> x = final r \<and> pending r1 = []"
    using read_mb [OF 1(2,3)] by blast
  have IH: "\<exists>e r' w' s' p'. copyInternal rmb wmb hs r1 w1 s1 p2 = Some (e, r', w', s', p') \<and> pool_ok p' \<and> copied r1 w1 e w' r'"
    if "e = None" "pool_ok p2" for w1 s1 p2
    by (rule 1(1)) (use that r in auto)
  show ?case
  proof (cases "mcontent mb = []")
    case True
    then have eq: "copyInternal rmb wmb hs r w s p = (case e of Some x \<Rightarrow> Some (ReadError x, r1, w, s, p1)
        | None \<Rightarrow> copyInternal rmb wmb hs r1 w s p1)"
      using r(1,4) by (subst copyInternal.simps) simp
    show ?thesis
    proof (cases e)
      case None
      then show ?thesis using IH [OF None r(3), of w s] eq True r(7,8) by (auto simp: copied_def)
    next
      case (Some x)
      have "copied r w (ReadError x) w r1" using Some True r(2,7,10) by (auto simp: copied_def intro!: exI [of _ 0])
      then show ?thesis using Some eq r(3) by auto
    qed
  next
    case False
    then have nn: "None \<notin> set mb" using r(5) packedD(2) by blast
    obtain we w1 p2 k where w: "wmb w mb p1 = Some (we, w1, p2)" "pool_ok p2" "sent w1 = sent w @ take k (mcontent mb)"
      "we = None \<longrightarrow> k = length (mcontent mb)"
      using write_mb [OF r(4) nn r(6,3), of w] by blast
    have eq: "copyInternal rmb wmb hs r w s p = (case we of Some x \<Rightarrow> Some (WriteError x, r1, w1, fold (\<lambda>h. h mb) hs s, p2)
        | None \<Rightarrow> (case e of Some x \<Rightarrow> Some (ReadError x, r1, w1, fold (\<lambda>h. h mb) hs s, p2)
                   | None \<Rightarrow> copyInternal rmb wmb hs r1 w1 (fold (\<lambda>h. h mb) hs s) p2))"
      using r(1,4) False w(1) by (subst copyInternal.simps) (simp add: Let_def)
    show ?thesis
    proof (cases we)
      case (Some x)
      have "sent w1 = sent w @ take (min k (length (mcontent mb))) (pending r)" using w(3) r(7) by (simp add: min_def)
      moreover have "rinv r1 \<or> \<not> clean" using r(1,2) False 1(2,3) unfolding clean_def by (cases e) (simp, blast)
      moreover have "write_err x" using w(1) Some unfolding write_err_def by blast
      ultimately have "copied r w (WriteError x) w1 r1" unfolding copied_def by blast
      then show ?thesis using Some eq w(2) by auto
    next
      case wok: None
      then have s1: "sent w1 = sent w @ mcontent mb" using w by simp
      show ?thesis
      proof (cases e)
        case None
        obtain e' r' w' s' p' where c: "copyInternal rmb wmb hs r1 w1 (fold (\<lambda>h. h mb) hs s) p2 = Some (e', r', w', s', p')"
          "pool_ok p'" "copied r1 w1 e' w' r'"
          using IH [OF None w(2)] by blast
        then obtain k' where "sent w' = sent w1 @ take k' (pending r1)" by (auto simp: copied_def)
        then have "sent w' = sent w @ take (length (mcontent mb) + k') (pending r)" using s1 r(7) by simp
        then have "\<exists>k. sent w' = sent w @ take k (pending r)" by blast
        moreover have "e' = ReadError (final r) \<and> sent w' = sent w @ pending r \<and> rdone r'
            \<or> (\<exists>x. e' = WriteError x \<and> write_err x) \<and> (rinv r' \<or> \<not> clean)"
          using c(3) s1 r(7,8) by (auto simp: copied_def)
        ultimately have "copied r w e' w' r'" by (simp add: copied_def)
        then show ?thesis using c eq None wok by auto
      next
        case (Some x)
        then have "copied r w (ReadError x) w1 r1" using s1 r(2,7,10)
          by (auto simp: copied_def intro!: exI [of _ "length (pending r)"])
        then show ?thesis using Some eq w(2) wok by auto
      qed
    qed
  qed
qed

end

text \<open>A \<open>BufferedReader\<close> with the default splitter over such a reader is an \<open>io.Reader\<close> of the same stream.\<close>

definition br_ok :: "('r \<Rightarrow> bool) \<Rightarrow> 'r bufreader \<Rightarrow> bool" where
  "br_ok ri r \<longleftrightarrow> ri (br_Reader r) \<and> packed (br_Buffer r) \<and> br_Splitter r = None \<and> pool_ok (br_pool r)
     \<and> int (length (mcontent (br_Buffer r))) < 2147483648"

lemma br_ok_Nil: "br_ok ri r \<Longrightarrow> mcontent (br_Buffer r) = [] \<longleftrightarrow> br_Buffer r = []"
  using packedD(3) by (auto simp: br_ok_def)

lemma br_ok_inv: "br_ok ri r \<Longrightarrow> mb_inv (br_Buffer r)"
  using packedD(1) by (auto simp: br_ok_def)

lemma nil_if_empty_packed: "packed mb \<Longrightarrow> nil_if_empty mb = mb"
  using packedD(1,3) by (auto simp: nil_if_empty_def)

context clean_mb_reader
begin

lemma BR_Read_reads:
  assumes "br_ok rinv r" "0 < n"
  shows "\<exists>bs e r'. BR_Read rmb r n = Some (bs, e, r') \<and> br_ok rinv r' \<and> length bs \<le> n
      \<and> mcontent (br_Buffer r) @ pending (br_Reader r) = bs @ mcontent (br_Buffer r') @ pending (br_Reader r')
      \<and> final (br_Reader r') = final (br_Reader r)
      \<and> (e = None \<longrightarrow> bs \<noteq> [] \<or> weight (br_Reader r') < weight (br_Reader r))
      \<and> (\<forall>x. e = Some x \<longrightarrow> x = final (br_Reader r) \<and> mcontent (br_Buffer r') @ pending (br_Reader r') = [])"
proof (cases "br_Buffer r = []")
  case False
  have m: "mcontent (br_Buffer r) \<noteq> []" "mb_inv (br_Buffer r)" using False br_ok_Nil [OF assms(1)] br_ok_inv [OF assms(1)] by auto
  obtain mb' p' where s: "SplitBytes (br_Buffer r) n (br_pool r) = Some (mb', take n (mcontent (br_Buffer r)), p')"
    "mcontent mb' = drop n (mcontent (br_Buffer r))" "mb_inv mb'" "pool_ok p'"
    using SplitBytes_split [OF m(2), of "br_pool r" n] assms(1) by (auto simp: br_ok_def)
  have pk: "packed mb'" using SplitBytes_packed [OF _ s(1)] assms(1) by (simp add: br_ok_def)
  let ?r = "r\<lparr>br_Buffer := mb', br_pool := p'\<rparr>"
  have "BR_Read rmb r n = Some (take n (mcontent (br_Buffer r)), None, ?r)"
    using m assms(1) s(1) nil_if_empty_packed [OF pk] by (simp add: BR_Read_def br_ok_def br_split_def)
  moreover have "br_ok rinv ?r" using assms(1) s pk by (auto simp: br_ok_def)
  ultimately show ?thesis using m assms(2) s(2,3)
    by (intro exI [of _ "take n (mcontent (br_Buffer r))"] exI [of _ None] exI [of _ ?r]) auto
next
  case B: True
  obtain mb e r1 p1 where r: "rmb (br_Reader r) (br_pool r) = Some (mb, e, r1, p1)" "if e = None then rinv r1 else rdone r1" "pool_ok p1" "mb_inv mb"
      "mcontent mb \<noteq> [] \<longrightarrow> packed mb" "int (length (mcontent mb)) < 2147483648"
      "pending (br_Reader r) = mcontent mb @ pending r1" "final r1 = final (br_Reader r)"
      "e = None \<longrightarrow> mcontent mb \<noteq> [] \<or> weight r1 < weight (br_Reader r)"
      "\<forall>x. e = Some x \<longrightarrow> x = final (br_Reader r) \<and> pending r1 = []"
    using read_mb [of "br_Reader r" "br_pool r"] assms(1) unfolding br_ok_def by blast
  show ?thesis
  proof (cases e)
    case (Some x)
    let ?r = "r\<lparr>br_Reader := r1, br_pool := p1\<rparr>"
    have c: "mcontent mb = []"
      using no_data_with_error [of "br_Reader r" "br_pool r" mb x r1 p1] assms(1) r(1) Some by (simp add: br_ok_def)
    have "BR_Read rmb r n = Some ([], Some x, ?r)" using B r(1) Some by (simp add: BR_Read_def)
    moreover have "br_ok rinv ?r" using assms(1) r(2,3) Some done_inv [of r1] by (simp add: br_ok_def)
    ultimately show ?thesis using B c r Some by (intro exI [of _ "[]"] exI [of _ "Some x"] exI [of _ ?r]) auto
  next
    case None
    obtain mb' p' where s: "SplitBytes mb n p1 = Some (mb', take n (mcontent mb), p')"
      "mcontent mb' = drop n (mcontent mb)" "mb_inv mb'" "pool_ok p'"
      using SplitBytes_split [of mb p1 n] r by auto
    let ?B = "if MB_IsEmpty mb' then br_Buffer r else mb'"
    let ?r = "r\<lparr>br_Reader := r1, br_pool := p', br_Buffer := ?B\<rparr>"
    have pk: "packed ?B"
    proof (cases "mcontent mb' = []")
      case False
      then have "packed mb" using r(5) s(2) by auto
      then show ?thesis using SplitBytes_packed [OF _ s(1)] s(3) False by simp
    qed (use B s(3) in simp)
    have c: "mcontent ?B = mcontent mb'" using s(3) B by simp
    have "BR_Read rmb r n = Some (take n (mcontent mb), None, ?r)"
      using B r(1) None s(1) assms(1) by (simp add: BR_Read_def br_split_def br_ok_def)
    moreover have "br_ok rinv ?r" using assms(1) s pk c r(2,6) None by (simp add: br_ok_def)
    ultimately show ?thesis using assms(2) B r None s(2) c
      by (intro exI [of _ "take n (mcontent mb)"] exI [of _ None] exI [of _ ?r]) auto
  qed
qed

end

sublocale clean_mb_reader \<subseteq> buffered: io_reader "BR_Read rmb" "br_ok rinv"
  "\<lambda>r. mcontent (br_Buffer r) @ pending (br_Reader r)" "\<lambda>r. final (br_Reader r)" "\<lambda>r. weight (br_Reader r)"
  by unfold_locales (use BR_Read_reads in simp)

text \<open>
  One chunk of a \<open>ChunkStreamReader\<close> that reads a single chunk, as \<open>mux\<close> uses it: it delivers the announced number of
  bytes, then an end of file, and leaves what follows the chunk in the stream.
\<close>

definition CS_reader :: "'r mb_read \<Rightarrow> ('r chunkreader) mb_read" where
  "CS_reader rmb c p =
     map_option (\<lambda>(mb, e, c'). (mb, e, c', br_pool (cs_reader c')))
       (CS_ReadMultiBuffer rmb (c\<lparr>cs_reader := (cs_reader c)\<lparr>br_pool := p\<rparr>\<rparr>))"

context clean_mb_reader
begin

definition br_pending :: "'a bufreader \<Rightarrow> byte list" where
  "br_pending r = mcontent (br_Buffer r) @ pending (br_Reader r)"

lemma ReadAtMost_ok:
  assumes "br_ok rinv r" "0 < sz" "sz < 2147483648" "sz \<le> int (length (br_pending r))"
  obtains mb r' where "BR_ReadAtMost rmb r sz = Some (mb, None, r')" "br_ok rinv r'" "mb_inv mb" "mcontent mb \<noteq> [] \<longrightarrow> packed mb"
    "int (length (mcontent mb)) \<le> sz" "br_pending r = mcontent mb @ br_pending r'" "final (br_Reader r') = final (br_Reader r)"
    "mcontent mb \<noteq> [] \<or> weight (br_Reader r') < weight (br_Reader r)"
proof (cases "br_Buffer r = []")
  case False
  have b: "packed (br_Buffer r)" "pool_ok (br_pool r)" "int (length (mcontent (br_Buffer r))) < 2147483648"
    using assms(1) by (auto simp: br_ok_def)
  obtain l mb p' where s: "SplitSize (br_pool r) (br_Buffer r) sz = Some (l, mb, p')" "mcontent mb @ mcontent l = mcontent (br_Buffer r)"
    "int (length (mcontent mb)) \<le> sz" "packed l" "packed mb" "mb \<noteq> []" "pool_ok p'"
    using SplitSize_packed [OF b(1) False b(2) assms(2,3) b(3)] by blast
  let ?r = "r\<lparr>br_Buffer := l, br_pool := p'\<rparr>"
  have "\<not> MB_IsEmpty (br_Buffer r)" using packedD(1,3) [OF b(1)] False by simp
  then have "BR_ReadAtMost rmb r sz = Some (mb, None, ?r)"
    using s(1) nil_if_empty_packed [OF s(4)] by (simp add: BR_ReadAtMost_def BR_split_size_def)
  moreover have "length (mcontent l) \<le> length (mcontent (br_Buffer r))" unfolding s(2) [symmetric] by simp
  then have "br_ok rinv ?r" using assms(1) s(4,7) b(3) by (simp add: br_ok_def)
  ultimately show ?thesis using s packedD [OF s(5)]
    by (intro that [of mb ?r]) (simp_all add: br_pending_def flip: append_assoc)
next
  case B: True
  obtain mb e r1 p1 where r: "rmb (br_Reader r) (br_pool r) = Some (mb, e, r1, p1)" "if e = None then rinv r1 else rdone r1" "pool_ok p1" "mb_inv mb"
      "mcontent mb \<noteq> [] \<longrightarrow> packed mb" "int (length (mcontent mb)) < 2147483648"
      "pending (br_Reader r) = mcontent mb @ pending r1" "final r1 = final (br_Reader r)"
      "e = None \<longrightarrow> mcontent mb \<noteq> [] \<or> weight r1 < weight (br_Reader r)"
      "\<forall>x. e = Some x \<longrightarrow> x = final (br_Reader r) \<and> pending r1 = []"
    using read_mb [of "br_Reader r" "br_pool r"] assms(1) unfolding br_ok_def by blast
  have "e = None"
  proof (rule ccontr)
    assume "e \<noteq> None"
    then obtain x where x: "e = Some x" by blast
    then have "mcontent mb = []"
      using no_data_with_error [of "br_Reader r" "br_pool r" mb x r1 p1] assms(1) r(1) by (simp add: br_ok_def)
    then have "br_pending r = []" using B r(7,10) x by (simp add: br_pending_def)
    then show False using assms(2,4) by simp
  qed
  show ?thesis
  proof (cases "mcontent mb = []")
    case True
    let ?r = "r\<lparr>br_Reader := r1, br_pool := p1, br_Buffer := []\<rparr>"
    have "BR_ReadAtMost rmb r sz = Some (mb, None, ?r)"
      using B r(1,4) \<open>e = None\<close> True SplitSize_empty [OF r(4) True assms(2,3)]
      by (simp add: BR_ReadAtMost_def BR_split_size_def nil_if_empty_def)
    moreover have "br_ok rinv ?r" using assms(1) r(2,3) \<open>e = None\<close> by (simp add: br_ok_def)
    ultimately show ?thesis using True r \<open>e = None\<close> B assms(2) by (intro that [of mb ?r]) (simp_all add: br_pending_def)
  next
    case False
    then have ne: "mb \<noteq> []" by auto
    obtain l mb' p' where s: "SplitSize p1 mb sz = Some (l, mb', p')" "mcontent mb' @ mcontent l = mcontent mb"
      "int (length (mcontent mb')) \<le> sz" "packed l" "packed mb'" "mb' \<noteq> []" "pool_ok p'"
      using SplitSize_packed [of mb p1 sz] r False assms(2,3) ne by blast
    let ?r = "r\<lparr>br_Reader := r1, br_pool := p', br_Buffer := l\<rparr>"
    have "BR_ReadAtMost rmb r sz = Some (mb', None, ?r)"
      using B r(1,4) \<open>e = None\<close> False s(1) nil_if_empty_packed [OF s(4)]
      by (simp add: BR_ReadAtMost_def BR_split_size_def)
    moreover have "length (mcontent l) \<le> length (mcontent mb)" unfolding s(2) [symmetric] by simp
    then have "br_ok rinv ?r" using assms(1) s(4,7) r(2,6) \<open>e = None\<close> by (simp add: br_ok_def)
    ultimately show ?thesis using s packedD [OF s(5)] r(7,8) B
      by (intro that [of mb' ?r]) (simp_all add: br_pending_def flip: append_assoc)
  qed
qed

definition cs_done :: "byte list \<Rightarrow> 'a chunkreader \<Rightarrow> bool" where
  "cs_done rest c \<longleftrightarrow> br_ok rinv (cs_reader c) \<and> br_pending (cs_reader c) = rest"

definition cs_ok :: "byte list \<Rightarrow> 'a chunkreader \<Rightarrow> bool" where
  "cs_ok rest c \<longleftrightarrow> br_ok rinv (cs_reader c) \<and> cs_maxNumChunk c = 1 \<and> cs_numChunk c = 1
     \<and> 0 \<le> cs_leftOverSize c \<and> cs_leftOverSize c < 65536
     \<and> (\<exists>d. br_pending (cs_reader c) = d @ rest \<and> int (length d) = cs_leftOverSize c)"

definition cs_pending :: "byte list \<Rightarrow> 'a chunkreader \<Rightarrow> byte list" where
  "cs_pending rest c = take (length (br_pending (cs_reader c)) - length rest) (br_pending (cs_reader c))"

lemma cs_pending_eq: "br_pending (cs_reader c) = d @ rest \<Longrightarrow> cs_pending rest c = d"
  by (simp add: cs_pending_def)

lemma cs_read_chunk_ok:
  assumes "br_ok rinv (cs_reader c)" "0 < sz" "sz < 65536" "br_pending (cs_reader c) = d @ rest" "int (length d) = sz"
    "cs_maxNumChunk c = 1" "cs_numChunk c = 1"
  shows "\<exists>mb c'. CS_read_chunk rmb c sz = Some (mb, None, c') \<and> cs_ok rest c' \<and> mb_inv mb
      \<and> (mcontent mb \<noteq> [] \<longrightarrow> packed mb) \<and> int (length (mcontent mb)) < 2147483648 \<and> d = mcontent mb @ cs_pending rest c'
      \<and> (mcontent mb \<noteq> [] \<or> weight (br_Reader (cs_reader c')) < weight (br_Reader (cs_reader c)))"
proof -
  have l: "sz < 2147483648" "sz \<le> int (length (br_pending (cs_reader c)))" using assms(3-5) by auto
  obtain mb r' where m: "BR_ReadAtMost rmb (cs_reader c) sz = Some (mb, None, r')" "br_ok rinv r'" "mb_inv mb" "mcontent mb \<noteq> [] \<longrightarrow> packed mb"
    "int (length (mcontent mb)) \<le> sz" "br_pending (cs_reader c) = mcontent mb @ br_pending r'" "final (br_Reader r') = final (br_Reader (cs_reader c))"
    "mcontent mb \<noteq> [] \<or> weight (br_Reader r') < weight (br_Reader (cs_reader c))"
    by (rule ReadAtMost_ok [OF assms(1,2) l])
  define k where "k = length (mcontent mb)"
  have k: "k \<le> length d" "mcontent mb = take k d" "br_pending r' = drop k d @ rest"
    using m(5,6) assms(4,5) by (auto simp: k_def append_eq_append_conv_if split: if_splits)
  let ?c = "c\<lparr>cs_reader := r', cs_leftOverSize := sz - int k\<rparr>"
  have len: "MB_Len mb = int k" using MB_Len_mcontent [OF m(3)] m(5) l(1) by (simp add: k_def)
  have "i32 (sz - int k) = sz - int k" using k(1) assms(3,5) by simp
  then have eq: "CS_read_chunk rmb c sz = Some (if mcontent mb = [] then [] else mb, None, ?c)"
    using m(1,3) len k_def by (auto simp: CS_read_chunk_def)
  have p: "br_pending (cs_reader ?c) = drop k d @ rest" using k(3) by simp
  have "cs_ok rest ?c" using m(2) k assms by (auto simp: cs_ok_def)
  moreover have "d = mcontent mb @ cs_pending rest ?c" using cs_pending_eq [OF p] k(2) by simp
  moreover have "int (length (mcontent mb)) < 2147483648" using m(5) l(1) by simp
  ultimately show ?thesis using eq m(3,4,8)
    by (intro exI [of _ "if mcontent mb = [] then [] else mb"] exI [of _ ?c]) auto
qed

lemma br_ok_pool: "br_ok rinv r \<Longrightarrow> pool_ok p \<Longrightarrow> br_ok rinv (r\<lparr>br_pool := p\<rparr>)"
  by (simp add: br_ok_def)

lemma CS_reader_reads:
  assumes "cs_ok rest c" "pool_ok p"
  shows "\<exists>mb e c' p'. CS_reader rmb c p = Some (mb, e, c', p') \<and> (if e = None then cs_ok rest c' else cs_done rest c') \<and> pool_ok p' \<and> mb_inv mb
      \<and> (mcontent mb \<noteq> [] \<longrightarrow> packed mb) \<and> int (length (mcontent mb)) < 2147483648 \<and> cs_pending rest c = mcontent mb @ cs_pending rest c'
      \<and> (e = None \<longrightarrow> mcontent mb \<noteq> [] \<or> weight (br_Reader (cs_reader c')) < weight (br_Reader (cs_reader c)))
      \<and> (\<forall>x. e = Some x \<longrightarrow> x = EOF \<and> cs_pending rest c' = [] \<and> mb = [])"
proof -
  let ?c = "c\<lparr>cs_reader := (cs_reader c)\<lparr>br_pool := p\<rparr>\<rparr>"
  obtain d where d: "br_pending (cs_reader c) = d @ rest" "int (length d) = cs_leftOverSize c" using assms(1) by (auto simp: cs_ok_def)
  have c: "br_ok rinv (cs_reader ?c)" "br_pending (cs_reader ?c) = d @ rest" "cs_maxNumChunk c = 1" "cs_numChunk c = 1" "cs_leftOverSize c < 65536"
    using assms br_ok_pool d(1) by (auto simp: cs_ok_def br_pending_def)
  show ?thesis
  proof (cases "d = []")
    case True
    let ?c' = "?c\<lparr>cs_numChunk := 2\<rparr>"
    have "CS_reader rmb c p = Some ([], Some EOF, ?c', p)"
      using True d(2) c(3,4) by (simp add: CS_reader_def CS_ReadMultiBuffer_def Let_def)
    moreover have "cs_done rest ?c'" using c(1,2) True by (simp add: cs_done_def)
    moreover have "cs_pending rest c = []" "cs_pending rest ?c' = []"
      using cs_pending_eq [of c "[]" rest] cs_pending_eq [of ?c' "[]" rest] d(1) c(2) True by simp_all
    ultimately show ?thesis using assms(2) by (intro exI [of _ "[]"] exI [of _ "Some EOF"] exI [of _ ?c'] exI [of _ p]) simp
  next
    case False
    then have "0 < cs_leftOverSize c" using d(2) by (cases d) auto
    moreover obtain mb c' where r: "CS_read_chunk rmb ?c (cs_leftOverSize c) = Some (mb, None, c')" "cs_ok rest c'" "mb_inv mb"
      "mcontent mb \<noteq> [] \<longrightarrow> packed mb" "int (length (mcontent mb)) < 2147483648" "d = mcontent mb @ cs_pending rest c'"
      "mcontent mb \<noteq> [] \<or> weight (br_Reader (cs_reader c')) < weight (br_Reader (cs_reader ?c))"
      using cs_read_chunk_ok [of ?c "cs_leftOverSize c" d rest, OF c(1) calculation c(5,2) d(2)] c(3,4) by auto
    ultimately have "CS_reader rmb c p = Some (mb, None, c', br_pool (cs_reader c'))"
      by (simp add: CS_reader_def CS_ReadMultiBuffer_def)
    moreover have "pool_ok (br_pool (cs_reader c'))" using r(2) by (simp add: cs_ok_def br_ok_def)
    ultimately show ?thesis using r cs_pending_eq [OF d(1)]
      by (intro exI [of _ mb] exI [of _ None] exI [of _ c'] exI [of _ "br_pool (cs_reader c')"]) simp
  qed
qed

text \<open>The first call reads the length of the chunk.\<close>

lemma CS_reader_first:
  assumes "br_ok rinv r" "br_pending r = PutUint16 (word_of_nat (length d)) @ d @ rest" "length d < 65536" "pool_ok p"
  shows "\<exists>mb e c' p'. CS_reader rmb (NewChunkStreamReaderWithChunkCount r 1) p = Some (mb, e, c', p') \<and> pool_ok p' \<and> mb_inv mb
      \<and> (mcontent mb \<noteq> [] \<longrightarrow> packed mb) \<and> int (length (mcontent mb)) < 2147483648
      \<and> (if d = [] then mb = [] \<and> e = Some EOF \<and> cs_done rest c' else e = None \<and> cs_ok rest c' \<and> d = mcontent mb @ cs_pending rest c')"
proof -
  let ?r = "r\<lparr>br_pool := p\<rparr>"
  have r: "br_ok rinv ?r" "mcontent (br_Buffer ?r) @ pending (br_Reader ?r) = PutUint16 (word_of_nat (length d)) @ d @ rest"
    using assms br_ok_pool by (auto simp: br_pending_def)
  obtain r' where f: "ReadFull (BR_Read rmb) ?r 2 = Some (PutUint16 (word_of_nat (length d)), None, r')" "br_ok rinv r'"
    "br_pending r' = d @ rest"
    using buffered.ReadFull_enough [OF r, of 2] by (auto simp: br_pending_def)
  let ?c = "\<lparr>cs_reader = r', cs_leftOverSize = 0, cs_maxNumChunk = 1, cs_numChunk = 1\<rparr>"
  have u: "Uint16 (PutUint16 (word_of_nat (length d))) = Some (word_of_nat (length d))" by simp
  have z: "(word_of_nat (length d) :: 16 word) = 0 \<longleftrightarrow> d = []" "uint (word_of_nat (length d) :: 16 word) = int (length d)"
    using assms(3) by (auto simp: word_of_nat_eq_0_iff unsigned_of_nat take_bit_nat_eq_self_iff dest: dvd_imp_le)
  have eq: "CS_reader rmb (NewChunkStreamReaderWithChunkCount r 1) p = (if d = [] then Some ([], Some EOF, ?c, br_pool r')
      else map_option (\<lambda>(mb, e, c'). (mb, e, c', br_pool (cs_reader c'))) (CS_read_chunk rmb ?c (int (length d))))"
    using f(1) u z by (simp add: CS_reader_def CS_ReadMultiBuffer_def readSize_def NewChunkStreamReaderWithChunkCount_def Let_def)
  show ?thesis
  proof (cases "d = []")
    case True
    have "cs_done rest ?c" using f(2,3) True by (simp add: cs_done_def)
    then show ?thesis using eq True f(2) by (simp add: br_ok_def)
  next
    case False
    have h: "br_ok rinv (cs_reader ?c)" "0 < int (length d)" "int (length d) < 65536" "br_pending (cs_reader ?c) = d @ rest"
      "cs_maxNumChunk ?c = 1" "cs_numChunk ?c = 1"
      using f(2,3) False assms(3) by simp_all
    obtain mb c' where c: "CS_read_chunk rmb ?c (int (length d)) = Some (mb, None, c')" "cs_ok rest c'" "mb_inv mb"
      "mcontent mb \<noteq> [] \<longrightarrow> packed mb" "int (length (mcontent mb)) < 2147483648" "d = mcontent mb @ cs_pending rest c'"
      using cs_read_chunk_ok [OF h(1-4) refl h(5,6)] by blast
    have "pool_ok (br_pool (cs_reader c'))" using c(2) by (simp add: cs_ok_def br_ok_def)
    moreover have "CS_reader rmb (NewChunkStreamReaderWithChunkCount r 1) p = Some (mb, None, c', br_pool (cs_reader c'))"
      using eq c(1) False by simp
    ultimately show ?thesis using c(2-6) unfolding if_not_P [OF False] by blast
  qed
qed

end

sublocale clean_mb_reader \<subseteq> chunk: mb_reader "CS_reader rmb" "cs_ok rest" "cs_pending rest" "\<lambda>_. EOF"
  "\<lambda>c. weight (br_Reader (cs_reader c))" "cs_done rest" for rest
proof unfold_locales
  fix c p assume "cs_ok rest c" "pool_ok p"
  from CS_reader_reads [OF this] show "\<exists>mb e c' p'. CS_reader rmb c p = Some (mb, e, c', p')
      \<and> (if e = None then cs_ok rest c' else cs_done rest c') \<and> pool_ok p' \<and> mb_inv mb
      \<and> (mcontent mb \<noteq> [] \<longrightarrow> packed mb) \<and> int (length (mcontent mb)) < 2147483648 \<and> cs_pending rest c = mcontent mb @ cs_pending rest c'
      \<and> EOF = EOF \<and> (e = None \<longrightarrow> mcontent mb \<noteq> [] \<or> weight (br_Reader (cs_reader c')) < weight (br_Reader (cs_reader c)))
      \<and> (\<forall>x. e = Some x \<longrightarrow> x = EOF \<and> cs_pending rest c' = [])"
    by blast
qed

context clean_mb_reader
begin

lemma chunk_clean: "chunk.clean rest"
  unfolding chunk.clean_def
proof (intro allI impI)
  fix c p mb x c' p' assume "cs_ok rest c" "pool_ok p" "CS_reader rmb c p = Some (mb, Some x, c', p')"
  then show "mcontent mb = []" using CS_reader_reads [of rest c p] by auto
qed

end

context mb_writer
begin

lemma copyInternal_goes_on:
  assumes "rmb r p = Some (mb, None, r1, p1)" "mb_inv mb" "mcontent mb \<noteq> [] \<longrightarrow> packed mb" "int (length (mcontent mb)) < 2147483648"
    "pool_ok p1"
  obtains (fail) x w1 s1 p2 k where "copyInternal rmb wmb hs r w s p = Some (WriteError x, r1, w1, s1, p2)" "pool_ok p2"
      "sent w1 = sent w @ take k (mcontent mb)" "write_err x"
    | (go) w1 s1 p2 where "copyInternal rmb wmb hs r w s p = copyInternal rmb wmb hs r1 w1 s1 p2" "pool_ok p2"
      "sent w1 = sent w @ mcontent mb"
proof (cases "mcontent mb = []")
  case True
  then show ?thesis using assms(1,2,5) go [of w s p1] by (simp add: copyInternal.simps [of rmb wmb hs r])
next
  case False
  then have nn: "None \<notin> set mb" using assms(3) packedD(2) by blast
  obtain we w1 p2 k where w: "wmb w mb p1 = Some (we, w1, p2)" "pool_ok p2" "sent w1 = sent w @ take k (mcontent mb)"
    "we = None \<longrightarrow> k = length (mcontent mb)"
    using write_mb [OF assms(2) nn assms(4,5), of w] by blast
  show ?thesis
  proof (cases we)
    case None
    then show ?thesis using assms(1,2) False w go [of w1 "fold (\<lambda>h. h mb) hs s" p2]
      by (simp add: copyInternal.simps [of rmb wmb hs r] Let_def)
  next
    case (Some x)
    moreover have "write_err x" using w(1) Some unfolding write_err_def by blast
    ultimately show ?thesis using assms(1,2) False w fail [of x w1 "fold (\<lambda>h. h mb) hs s" p2 k]
      by (simp add: copyInternal.simps [of rmb wmb hs r] Let_def)
  qed
qed

end

locale chunk_copy = clean_mb_reader rmb rinv pending final weight rdone + mb_writer wmb sent
  for rmb :: "'r mb_read" and rinv pending final weight rdone and wmb :: "'w mb_write" and sent

sublocale chunk_copy \<subseteq> cc: copy_pair "CS_reader rmb" "cs_ok rest" "cs_pending rest" "\<lambda>_. EOF"
  "\<lambda>c. weight (br_Reader (cs_reader c))" "cs_done rest" wmb sent for rest ..

context chunk_copy
begin

lemma copy_one_chunk:
  assumes "br_ok rinv r" "br_pending r = PutUint16 (word_of_nat (length d)) @ d @ rest" "length d < 65536" "pool_ok p"
  obtains e c' w' s' p' where "copyInternal (CS_reader rmb) wmb hs (NewChunkStreamReaderWithChunkCount r 1) w s p = Some (e, c', w', s', p')"
    "pool_ok p'" "\<exists>k. sent w' = sent w @ take k d"
    "e = ReadError EOF \<and> sent w' = sent w @ d \<and> cs_done rest c' \<or> (\<exists>x. e = WriteError x \<and> write_err x) \<and> cs_ok rest c'"
proof -
  let ?c = "NewChunkStreamReaderWithChunkCount r 1"
  obtain mb e c1 p1 where f: "CS_reader rmb ?c p = Some (mb, e, c1, p1)" "pool_ok p1" "mb_inv mb"
    "mcontent mb \<noteq> [] \<longrightarrow> packed mb" "int (length (mcontent mb)) < 2147483648"
    "if d = [] then mb = [] \<and> e = Some EOF \<and> cs_done rest c1 else e = None \<and> cs_ok rest c1 \<and> d = mcontent mb @ cs_pending rest c1"
    using CS_reader_first [OF assms] by blast
  show ?thesis
  proof (cases "d = []")
    case True
    then have "copyInternal (CS_reader rmb) wmb hs ?c w s p = Some (ReadError EOF, c1, w, s, p1)"
      using f by (simp add: copyInternal.simps [of _ _ _ ?c])
    then show ?thesis using True f(2,6) that by simp
  next
    case False
    then have g: "CS_reader rmb ?c p = Some (mb, None, c1, p1)" "cs_ok rest c1" "d = mcontent mb @ cs_pending rest c1"
      using f(1,6) by simp_all
    show ?thesis using g(1) f(3-5,2)
    proof (cases rule: copyInternal_goes_on [where rmb = "CS_reader rmb" and r = ?c and p = p and hs = hs and w = w and s = s])
      case (fail x w1 s1 p2 k)
      have "sent w1 = sent w @ take (min k (length (mcontent mb))) d" using fail(3) g(3) by (simp add: min_def)
      then show ?thesis using fail(1,2,4) g(2) that [of "WriteError x" c1 w1 s1 p2] by blast
    next
      case (go w1 s1 p2)
      obtain e' c' w' s' p' where c: "copyInternal (CS_reader rmb) wmb hs c1 w1 s1 p2 = Some (e', c', w', s', p')" "pool_ok p'"
        "cc.copied rest c1 w1 e' w' c'"
        using cc.copyInternal_ends [OF g(2) go(2), where hs = hs and w = w1 and s = s1] by blast
      obtain k where "sent w' = sent w1 @ take k (cs_pending rest c1)" using c(3) unfolding cc.copied_def by blast
      then have "sent w' = sent w @ take (length (mcontent mb) + k) d" using go(3) g(3) by simp
      moreover have "e' = ReadError EOF \<and> sent w' = sent w @ d \<and> cs_done rest c' \<or> (\<exists>x. e' = WriteError x \<and> write_err x) \<and> cs_ok rest c'"
        using c(3) go(3) g(3) chunk_clean [of rest] unfolding cc.copied_def by auto
      ultimately show ?thesis using c(1,2) go(1) that [of e' c' w' s' p'] by metis
    qed
  qed
qed

end

section \<open>BufferedWriter keeps the order\<close>

text \<open>
  What a buffered writer owes to its user: the bytes already passed on followed by those in the buffer. The
  buffer is only ever filled from its start, so a full buffer holds bytes that a flush gets rid of.
\<close>

definition bw_ok :: "'w bufwriter \<Rightarrow> bool" where
  "bw_ok w \<longleftrightarrow> pool_ok (bw_pool w)
     \<and> (\<forall>b. bw_buffer w = Some b \<longrightarrow> buf_inv b \<and> b_start b = 0 \<and> 0 < b_len b)"

definition bw_out :: "('w \<Rightarrow> byte list) \<Rightarrow> 'w bufwriter \<Rightarrow> byte list" where
  "bw_out snt w = snt (bw_writer w) @ pcontent (bw_buffer w)"

lemma full_not_empty: "buf_inv b \<Longrightarrow> b_start b = 0 \<Longrightarrow> 0 < b_len b \<Longrightarrow> content b = [] \<Longrightarrow> 0 < room b"
  using int_length_content [of b] by (simp add: room_def)

lemma content_bound: "buf_inv b \<Longrightarrow> int (length (content b)) < 2147483648"
  using int_length_content [of b] by (simp add: buf_inv_def)

lemma ensure_buffer_ok:
  assumes "bw_ok w"
  obtains b w1 where "ensure_buffer w = (b, w1)" "bw_buffer w1 = Some b" "bw_ok w1" "bw_writer w1 = bw_writer w"
    "bw_buffered w1 = bw_buffered w" "bw_flushNext w1 = bw_flushNext w" "content b = pcontent (bw_buffer w)"
    "bw_buffer w = None \<longrightarrow> room b = 8192" "bw_buffer w \<noteq> None \<longrightarrow> bw_buffer w = Some b"
proof (cases "bw_buffer w")
  case None
  obtain b p' where "New (bw_pool w) = (b, p')" "buf_inv b" "content b = []" "room b = 8192" "b_start b = 0"
    "b_len b = 8192" "pool_ok p'"
    using New_ok [of "bw_pool w"] assms by (auto simp: bw_ok_def)
  then show ?thesis using None
    by (intro that [of b "w\<lparr>bw_buffer := Some b, bw_pool := p'\<rparr>"]) (simp_all add: ensure_buffer_def bw_ok_def)
next
  case (Some b)
  then show ?thesis using assms by (intro that [of b w]) (simp_all add: ensure_buffer_def)
qed

context mb_writer
begin

lemma flush_ok:
  assumes "bw_ok w"
  obtains e w' where "flushInternal None wmb w = Some (e, w')" "bw_ok w'" "bw_buffered w' = bw_buffered w"
    "bw_flushNext w' = bw_flushNext w"
    "e = None \<longrightarrow> bw_out sent w' = bw_out sent w \<and> pcontent (bw_buffer w') = []"
    "e = None \<longrightarrow> pcontent (bw_buffer w) \<noteq> [] \<longrightarrow> bw_buffer w' = None"
proof (cases "pcontent (bw_buffer w) = []")
  case True
  then have "IsEmpty (bw_buffer w)" using assms by (cases "bw_buffer w") (auto simp: bw_ok_def IsEmpty_def Len_def buf_Len_content)
  then show ?thesis using assms True that [of None w] by (simp add: flushInternal_def)
next
  case False
  then obtain b where b: "bw_buffer w = Some b" "buf_inv b" using assms by (cases "bw_buffer w") (auto simp: bw_ok_def)
  then have ne: "\<not> IsEmpty (bw_buffer w)" using False by (simp add: IsEmpty_content)
  obtain e w1 p1 k where w: "wmb (bw_writer w) [Some b] (bw_pool w) = Some (e, w1, p1)" "pool_ok p1"
    "sent w1 = sent (bw_writer w) @ take k (content b)" "e = None \<longrightarrow> k = length (content b)"
    using write_mb [of "[Some b]" "bw_pool w" "bw_writer w"] b assms content_bound [of b] by (auto simp: bw_ok_def)
  let ?w = "w\<lparr>bw_buffer := None, bw_writer := w1, bw_pool := p1\<rparr>"
  have "flushInternal None wmb w = Some (e, ?w)" using ne w(1) b(1) by (simp add: flushInternal_def)
  moreover have "bw_ok ?w" using w(2) by (simp add: bw_ok_def)
  ultimately show ?thesis using w b that [of e ?w] by (simp add: bw_out_def)
qed

lemma fill_loop_ok:
  assumes "bw_ok w" "mb_inv mb"
  shows "\<exists>e w'. BW_fill_loop None wmb w mb = Some (e, w') \<and> bw_ok w' \<and> bw_buffered w' = bw_buffered w
    \<and> bw_flushNext w' = bw_flushNext w \<and> (e = None \<longrightarrow> bw_out sent w' = bw_out sent w @ mcontent mb)"
  using assms
proof (induction "2 * length (mcontent mb) + (if IsFull (bw_buffer w) then 1 else 0)" arbitrary: w mb rule: less_induct)
  case less
  show ?case
  proof (cases "mcontent mb = []")
    case True
    then have "BW_fill_loop None wmb w mb = Some (None, w\<lparr>bw_pool := snd (ReleaseMulti mb (bw_pool w))\<rparr>)"
      using less.prems(2) by (subst BW_fill_loop.simps) simp
    then show ?thesis using True less.prems ReleaseMulti_pool_ok by (auto simp: bw_ok_def bw_out_def)
  next
    case False
    obtain b w1 where b: "ensure_buffer w = (b, w1)" "bw_buffer w1 = Some b" "bw_ok w1" "bw_writer w1 = bw_writer w"
      "bw_buffered w1 = bw_buffered w" "bw_flushNext w1 = bw_flushNext w" "content b = pcontent (bw_buffer w)"
      "bw_buffer w = None \<longrightarrow> room b = 8192" "bw_buffer w \<noteq> None \<longrightarrow> bw_buffer w = Some b"
      by (rule ensure_buffer_ok [OF less.prems(1)])
    have bi: "buf_inv b" "b_start b = 0" "0 < b_len b" "pool_ok (bw_pool w1)" using b(2,3) by (auto simp: bw_ok_def)
    obtain mb' p' where s: "SplitBytes mb (room b) (bw_pool w1) = Some (mb', take (room b) (mcontent mb), p')"
      "mcontent mb' = drop (room b) (mcontent mb)" "mb_inv mb'" "pool_ok p'"
      using SplitBytes_split [OF less.prems(2) bi(4)] by blast
    let ?d = "take (room b) (mcontent mb)"
    let ?b = "append_to b ?d"
    let ?w = "w1\<lparr>bw_buffer := Some ?b, bw_pool := p'\<rparr>"
    have "0 \<le> b_end b" "b_end b \<le> b_len b" "b_len b < 2147483648" "b_end b + int (length ?d) \<le> b_len b"
      using bi(1) room_bound [OF bi(1)] by (auto simp: buf_inv_def)
    then have rf: "Buffer_ReadFrom MBC_Read b (mb, bw_pool w1) = Some ((int (length ?d), None), ?b, (mb', p'))"
      using s(1) False less.prems(2) by (simp add: Buffer_ReadFrom_def MBC_Read_def append_to_def room_def)
    have eq: "BW_fill_loop None wmb w mb = (if IsFull (Some ?b) then
         Option.bind (flushInternal None wmb ?w) (\<lambda>(ferr, w3). case ferr of
             Some e \<Rightarrow> Some (Some e, w3\<lparr>bw_pool := snd (ReleaseMulti mb' (bw_pool w3))\<rparr>)
           | None \<Rightarrow> BW_fill_loop None wmb w3 mb')
       else BW_fill_loop None wmb ?w mb')"
      using False less.prems(2) b(1) rf by (subst BW_fill_loop.simps) (simp add: Let_def)
    have i: "bw_ok ?w" "content ?b = content b @ ?d" "room ?b = room b - length ?d" "buf_inv ?b"
      using bi s(4) by (auto simp: bw_ok_def)
    have out: "bw_out sent ?w = bw_out sent w @ ?d" using i(2) b(4,7) by (simp add: bw_out_def)
    show ?thesis
    proof (cases "room ?b = 0")
      case full: True
      have ne: "content ?b \<noteq> []" using full_not_empty [of ?b] i(4) bi(2,3) full by auto
      obtain e w3 where f: "flushInternal None wmb ?w = Some (e, w3)" "bw_ok w3" "bw_buffered w3 = bw_buffered ?w"
        "bw_flushNext w3 = bw_flushNext ?w" "e = None \<longrightarrow> bw_out sent w3 = bw_out sent ?w \<and> pcontent (bw_buffer w3) = []"
        "e = None \<longrightarrow> pcontent (bw_buffer ?w) \<noteq> [] \<longrightarrow> bw_buffer w3 = None"
        by (rule flush_ok [OF i(1)])
      have none: "e = None \<longrightarrow> bw_buffer w3 = None" using f(6) ne by simp
      have keep: "bw_buffered w3 = bw_buffered w" "bw_flushNext w3 = bw_flushNext w" using f(3,4) b(5,6) by simp_all
      show ?thesis
      proof (cases e)
        case None
        have "2 * length (mcontent mb') + (if IsFull (bw_buffer w3) then 1 else 0)
            < 2 * length (mcontent mb) + (if IsFull (bw_buffer w) then 1 else 0)"
        proof (cases "room b = 0")
          case True
          then have "bw_buffer w = Some b" using b(8,9) by (cases "bw_buffer w") auto
          then show ?thesis using True none None s(2) bi(1) by (simp add: IsFull_room) (simp add: IsFull_def)
        next
          case False
          then have "length (mcontent mb') < length (mcontent mb)" using s(2) \<open>mcontent mb \<noteq> []\<close> by simp
          then show ?thesis using none None by (simp add: IsFull_def)
        qed
        from less.hyps [OF this f(2) s(3)] obtain e' w' where
          "BW_fill_loop None wmb w3 mb' = Some (e', w')" "bw_ok w'" "bw_buffered w' = bw_buffered w3"
          "bw_flushNext w' = bw_flushNext w3" "e' = None \<longrightarrow> bw_out sent w' = bw_out sent w3 @ mcontent mb'"
          by blast
        then show ?thesis using eq f(1,5) keep None full i(4) out s(2)
          by (intro exI [of _ e'] exI [of _ w']) (simp add: IsFull_room)
      next
        case (Some x)
        let ?w3 = "w3\<lparr>bw_pool := snd (ReleaseMulti mb' (bw_pool w3))\<rparr>"
        have "bw_ok ?w3" using f(2) ReleaseMulti_pool_ok by (simp add: bw_ok_def)
        then show ?thesis using Some eq f(1) keep full i(4)
          by (intro exI [of _ "Some x"] exI [of _ ?w3]) (simp add: IsFull_room)
      qed
    next
      case notfull: False
      then have lt: "2 * length (mcontent mb') + (if IsFull (bw_buffer ?w) then 1 else 0)
            < 2 * length (mcontent mb) + (if IsFull (bw_buffer w) then 1 else 0)"
        using i(3,4) s(2) \<open>mcontent mb \<noteq> []\<close> by (simp add: IsFull_room)
      from less.hyps [OF lt i(1) s(3)] obtain e' w' where
        "BW_fill_loop None wmb ?w mb' = Some (e', w')" "bw_ok w'" "bw_buffered w' = bw_buffered ?w"
        "bw_flushNext w' = bw_flushNext ?w" "e' = None \<longrightarrow> bw_out sent w' = bw_out sent ?w @ mcontent mb'"
        by blast
      then show ?thesis using eq notfull i(4) out s(2) b(5,6)
        by (intro exI [of _ e'] exI [of _ w']) (simp add: IsFull_room)
    qed
  qed
qed

lemma BW_WriteMultiBuffer_ok:
  assumes "bw_ok w" "mb_inv mb" "None \<notin> set mb" "int (length (mcontent mb)) < 2147483648"
    "\<not> bw_buffered w \<longrightarrow> pcontent (bw_buffer w) = []"
  shows "\<exists>e w'. BW_WriteMultiBuffer None wmb w mb = Some (e, w') \<and> bw_ok w'
    \<and> (e = None \<longrightarrow> bw_out sent w' = bw_out sent w @ mcontent mb \<and> (\<not> bw_buffered w' \<longrightarrow> pcontent (bw_buffer w') = []))"
proof -
  consider (empty) "mcontent mb = []" | (direct) "mcontent mb \<noteq> []" "\<not> bw_buffered w" | (fill) "mcontent mb \<noteq> []" "bw_buffered w"
    by blast
  then show ?thesis
  proof cases
    case empty
    then show ?thesis using assms by (auto simp: BW_WriteMultiBuffer_def)
  next
    case direct
    obtain e w1 p1 k where "wmb (bw_writer w) mb (bw_pool w) = Some (e, w1, p1)" "pool_ok p1"
      "sent w1 = sent (bw_writer w) @ take k (mcontent mb)" "e = None \<longrightarrow> k = length (mcontent mb)"
      using write_mb [OF assms(2-4), of "bw_pool w" "bw_writer w"] assms(1) by (auto simp: bw_ok_def)
    then show ?thesis using direct assms by (auto simp: BW_WriteMultiBuffer_def bw_ok_def bw_out_def)
  next
    case fill
    obtain e w1 where f: "BW_fill_loop None wmb w mb = Some (e, w1)" "bw_ok w1" "bw_buffered w1"
      "e = None \<longrightarrow> bw_out sent w1 = bw_out sent w @ mcontent mb"
      using fill_loop_ok [OF assms(1,2)] fill(2) by auto
    let ?w = "w1\<lparr>bw_buffered := False, bw_flushNext := False\<rparr>"
    have "bw_ok ?w" "bw_out sent ?w = bw_out sent w1" using f(2) by (auto simp: bw_ok_def bw_out_def)
    then obtain e' w2 where "flushInternal None wmb ?w = Some (e', w2)" "bw_ok w2"
      "e' = None \<longrightarrow> bw_out sent w2 = bw_out sent w1 \<and> pcontent (bw_buffer w2) = []"
      by (metis flush_ok)
    then show ?thesis using fill f assms(2) by (cases e) (auto simp: BW_WriteMultiBuffer_def)
  qed
qed

end

text \<open>The interpretations: a stream read buffer by buffer, and a sink that may fail.\<close>

interpretation conn_single: clean_mb_reader "SingleReader_ReadMultiBuffer conn_read" "\<lambda>_. True"
  "\<lambda>c. concat (chunks c)" closing "\<lambda>c. length (chunks c)" "\<lambda>_. True"
proof unfold_locales
  fix r p mb x r' p'
  assume "pool_ok p" and e: "SingleReader_ReadMultiBuffer conn_read r p = Some (mb, Some x, r', p')"
  then obtain bs where "conn_read r 8192 = Some (bs, Some x, r')" "mcontent mb = bs"
    using conn_rd.SingleReader_reads [where r = r and p = p] by auto
  then show "mcontent mb = []" by (auto simp: conn_read_def split: list.splits if_splits)
qed

record sink =
  sk_out :: "byte list"
  sk_quota :: nat

definition sink_Write :: "sink io_write" where
  "sink_Write w d =
     (if length d \<le> sk_quota w
      then Some (int (length d), None, w\<lparr>sk_out := sk_out w @ d, sk_quota := sk_quota w - length d\<rparr>)
      else Some (int (sk_quota w), Some ErrClosedPipe, w\<lparr>sk_out := sk_out w @ take (sk_quota w) d, sk_quota := 0\<rparr>))"

interpretation snk: io_writer sink_Write sk_out
  by unfold_locales (auto simp: sink_Write_def)

interpretation stream_copy: copy_pair "SingleReader_ReadMultiBuffer conn_read" "\<lambda>_. True"
  "\<lambda>c. concat (chunks c)" closing "\<lambda>c. length (chunks c)" "\<lambda>_. True" "SequentialWriter_WriteMultiBuffer sink_Write" sk_out ..

interpretation mux_copy: chunk_copy "SingleReader_ReadMultiBuffer conn_read" "\<lambda>_. True"
  "\<lambda>c. concat (chunks c)" closing "\<lambda>c. length (chunks c)" "\<lambda>_. True" "SequentialWriter_WriteMultiBuffer sink_Write" sk_out ..

section \<open>Properties\<close>



text \<open>
  \<open>BufferedWriter.WriteMultiBuffer\<close> keeps the byte order and loses nothing across its internal buffer: what
  has been passed on followed by what is buffered grows by exactly the bytes written, whether they are buffered,
  flushed on the way, or sent directly, and the loop ends for every MultiBuffer.
\<close>

theorem buffered_writer_order:
  assumes "bw_ok w" "mb_inv mb" "None \<notin> set mb" "int (length (mcontent mb)) < 2147483648"
    "\<not> bw_buffered w \<longrightarrow> pcontent (bw_buffer w) = []"
  shows "\<exists>e w'. BW_WriteMultiBuffer None (SequentialWriter_WriteMultiBuffer sink_Write) w mb = Some (e, w') \<and> bw_ok w'
    \<and> (e = None \<longrightarrow> bw_out sk_out w' = bw_out sk_out w @ mcontent mb)"
  using snk.seqw.BW_WriteMultiBuffer_ok [OF assms] by blast

lemma zero_writer_ok: "bw_ok (NewBufferedWriter w [])"
  by (simp add: NewBufferedWriter_def New_empty_pool bw_ok_def pool_ok_def)

theorem buffered_writer_order_witness:
  "\<exists>w mb. bw_ok w \<and> mcontent mb = [1] \<and> (\<exists>e w'. BW_WriteMultiBuffer None (SequentialWriter_WriteMultiBuffer sink_Write) w mb
      = Some (e, w') \<and> (e = None \<longrightarrow> bw_out sk_out w' = bw_out sk_out w @ [1]))"
proof -
  let ?w = "NewBufferedWriter \<lparr>sk_out = [], sk_quota = 5\<rparr> [] :: sink bufwriter"
  let ?mb = "[Some (append_to (Buffer_of [0, 0]) [1])]"
  have i: "mb_inv ?mb" "None \<notin> set ?mb" "int (length (mcontent ?mb)) < 2147483648" "mcontent ?mb = [1]" by auto
  have b: "\<not> bw_buffered ?w \<longrightarrow> pcontent (bw_buffer ?w) = []" by (simp add: NewBufferedWriter_def New_empty_pool)
  show ?thesis using buffered_writer_order [OF zero_writer_ok i(1-3) b] i(4) zero_writer_ok by metis
qed

text \<open>
  Copying one chunk (the payload of one mux frame) keeps the stream in step: whatever way the connection delivers
  its bytes, \<open>Copy\<close> from a one-chunk reader ends, passes on exactly the announced bytes, and on the end of the chunk the
  underlying reader stands at the first byte behind the chunk; it stops early only when the writer fails.
\<close>

theorem copy_of_one_chunk:
  assumes "br_ok (\<lambda>_. True) r" "length d < 65536" "pool_ok p"
    "mcontent (br_Buffer r) @ concat (chunks (br_Reader r)) = PutUint16 (word_of_nat (length d)) @ d @ rest"
  shows "\<exists>e c' w' s' p'. Copy (CS_reader (SingleReader_ReadMultiBuffer conn_read)) (SequentialWriter_WriteMultiBuffer sink_Write) hs
        (NewChunkStreamReaderWithChunkCount r 1) w s p = Some (e, c', w', s', p')
    \<and> (\<exists>k. sk_out w' = sk_out w @ take k d)
    \<and> (e = None \<and> sk_out w' = sk_out w @ d
         \<and> mcontent (br_Buffer (cs_reader c')) @ concat (chunks (br_Reader (cs_reader c'))) = rest
       \<or> (\<exists>x. e = (if Cause x = EOF then None else Some (WriteError x))))"
proof -
  have p: "conn_single.br_pending r = PutUint16 (word_of_nat (length d)) @ d @ rest" using assms(4) by (simp add: conn_single.br_pending_def)
  obtain e c' w' s' p' where c: "copyInternal (CS_reader (SingleReader_ReadMultiBuffer conn_read)) (SequentialWriter_WriteMultiBuffer sink_Write) hs
      (NewChunkStreamReaderWithChunkCount r 1) w s p = Some (e, c', w', s', p')" "\<exists>k. sk_out w' = sk_out w @ take k d"
    "e = ReadError EOF \<and> sk_out w' = sk_out w @ d \<and> conn_single.cs_done rest c'
      \<or> (\<exists>x. e = WriteError x) \<and> conn_single.cs_ok rest c'"
    by (rule mux_copy.copy_one_chunk [OF assms(1) p assms(2,3)]) blast
  let ?e = "if Cause e \<noteq> EOF then Some e else None"
  have "Copy (CS_reader (SingleReader_ReadMultiBuffer conn_read)) (SequentialWriter_WriteMultiBuffer sink_Write) hs
      (NewChunkStreamReaderWithChunkCount r 1) w s p = Some (?e, c', w', s', p')"
    using c(1) by (simp add: Copy_def)
  moreover have "?e = None \<and> sk_out w' = sk_out w @ d
         \<and> mcontent (br_Buffer (cs_reader c')) @ concat (chunks (br_Reader (cs_reader c'))) = rest
       \<or> (\<exists>x. ?e = (if Cause x = EOF then None else Some (WriteError x)))"
  proof (cases "\<exists>x. e = WriteError x")
    case True
    then obtain x where "e = WriteError x" by blast
    then show ?thesis by (intro disjI2 exI [of _ x]) simp
  next
    case False
    then show ?thesis using c(3) by (intro disjI1) (simp add: conn_single.cs_done_def conn_single.br_pending_def)
  qed
  ultimately show ?thesis using c(2) by blast
qed

theorem copy_of_one_chunk_witness:
  "\<exists>r w e c' w' s' p'. Copy (CS_reader (SingleReader_ReadMultiBuffer conn_read)) (SequentialWriter_WriteMultiBuffer sink_Write) []
        (NewChunkStreamReaderWithChunkCount r 1) w (0 :: int) [] = Some (e, c', w', s', p')
    \<and> concat (chunks (br_Reader r)) = [0, 2, 7, 8, 9] \<and> (\<exists>k. sk_out w' = sk_out w @ take k [7, 8])"
proof -
  let ?r = "\<lparr>br_Reader = \<lparr>chunks = [[0], [2, 7], [8, 9]], closing = EOF\<rparr>, br_Buffer = [], br_Splitter = None, br_pool = []\<rparr>"
  have h: "br_ok (\<lambda>_. True) ?r" "length [7, 8 :: byte] < 65536" "pool_ok []"
    by (simp_all add: br_ok_def packed_def pool_ok_def)
  have "mcontent (br_Buffer ?r) @ concat (chunks (br_Reader ?r)) = PutUint16 (word_of_nat (length [7, 8 :: byte])) @ [7, 8] @ [9]"
    by (simp add: PutUint16_def)
  from copy_of_one_chunk [OF h this, of "[]" "\<lparr>sk_out = [], sk_quota = 5\<rparr>" "0 :: int"]
  show ?thesis by (intro exI [of _ ?r] exI [of _ "\<lparr>sk_out = [], sk_quota = 5\<rparr>"]) auto
qed

text \<open>
  \<open>BufferedWriter.Write\<close> does not carry data over its buffer boundary: data longer than the free space of the buffer
  makes it return \<open>ErrBufferFull\<close> with the buffer filled and not flushed, although its loop means to flush a full
  buffer and go on with the rest.
\<close>

theorem buffered_write_stops_at_boundary:
  assumes "bw_buffered w" "bw_buffer w = Some b" "buf_inv b" "room b < length d"
  shows "BW_Write iow wmb w d = Some (int (room b), Some ErrBufferFull, w\<lparr>bw_buffer := Some (append_to b (take (room b) d))\<rparr>)"
proof -
  have "d \<noteq> []" using assms(4) by auto
  then have "BW_Write iow wmb w d = BW_Write_loop iow wmb w d 0" using assms(1) by (simp add: BW_Write_def)
  moreover have "ensure_buffer w = (b, w)" using assms(2) by (simp add: ensure_buffer_def)
  ultimately show ?thesis using assms(3,4) \<open>d \<noteq> []\<close>
    by (simp add: BW_Write_loop.simps [of iow wmb w d] Write_content min_def)
qed

theorem buffered_write_stops_at_boundary_witness:
  "\<exists>w. BW_Write None (SequentialWriter_WriteMultiBuffer sink_Write) w [7, 8]
     = Some (1, Some ErrBufferFull, w\<lparr>bw_buffer := Some (append_to (Buffer_of [0]) [7])\<rparr>)"
proof -
  let ?w = "\<lparr>bw_writer = \<lparr>sk_out = [], sk_quota = 5\<rparr>, bw_buffer = Some (Buffer_of [0]), bw_buffered = True,
    bw_flushNext = False, bw_pool = []\<rparr>"
  have "bw_buffered ?w" "bw_buffer ?w = Some (Buffer_of [0])" "buf_inv (Buffer_of [0])" "room (Buffer_of [0]) < length [7, 8 :: byte]"
    by simp_all
  from buffered_write_stops_at_boundary [OF this, of None "SequentialWriter_WriteMultiBuffer sink_Write"]
  show ?thesis by (intro exI [of _ ?w]) simp
qed

end
