(* ===== verification/Addr_Codec.thy ===== *)
theory Addr_Codec
  imports Buf_IO
begin

text \<open>
  \<open>common/protocol/address.go\<close> and \<open>headers.go\<close>: the address and port fields of the proxy protocols. Reading goes
  through a scratch buffer (\<open>ReadFullFrom\<close> appends to it and the last bytes are looked at), writing through an
  \<open>io.Writer\<close>. The options of \<open>NewAddressParser\<close> are functions on the option record that may panic.
\<close>

section \<open>Shared plumbing\<close>

text \<open>\<open>if _, err := b.ReadFullFrom(reader, n); err != nil { return ..., err }\<close>, then the continuation.\<close>

definition with_full ::
  "'r io_read \<Rightarrow> Buffer \<Rightarrow> 'r \<Rightarrow> int \<Rightarrow> (goerr \<Rightarrow> 'a) \<Rightarrow> (Buffer \<Rightarrow> 'r \<Rightarrow> ('a \<times> Buffer \<times> 'r) option) \<Rightarrow> ('a \<times> Buffer \<times> 'r) option" where
  "with_full rd b r n fl k =
     Option.bind (ReadFullFrom rd b r n) (\<lambda>x. case x of ((_, err), b', r') \<Rightarrow>
       (case err of Some e \<Rightarrow> Some (fl e, b', r') | None \<Rightarrow> k b' r'))"

text \<open>\<open>if _, err := writer.Write(d); err != nil { return err }\<close>, then the continuation.\<close>

definition with_write ::
  "'w io_write \<Rightarrow> 'w \<Rightarrow> byte list \<Rightarrow> ('w \<Rightarrow> (goerr option \<times> 'w) option) \<Rightarrow> (goerr option \<times> 'w) option" where
  "with_write wr w d k =
     Option.bind (wr w d) (\<lambda>(_, err, w'). case err of Some e \<Rightarrow> Some (Some e, w') | None \<Rightarrow> k w')"

text \<open>A \<open>*Buffer\<close> as an \<open>io.Writer\<close>.\<close>

definition Buffer_Write :: "Buffer io_write" where
  "Buffer_Write b d = map_option (\<lambda>((n, e), b'). (n, e, b')) (Write b d)"

section \<open>Options and parsers\<close>

definition afInvalid :: byte where
  "afInvalid = 255"

record addr_option =
  o_addrTypeMap :: "AddressFamily list"
  o_addrByteMap :: "byte list"
  o_portFirst :: bool

type_synonym AddressOption = "addr_option \<Rightarrow> addr_option option"

definition PortThenAddress :: AddressOption where
  "PortThenAddress o1 = Some (o1\<lparr>o_portFirst := True\<rparr>)"

definition AddressFamilyByte :: "byte \<Rightarrow> AddressFamily \<Rightarrow> AddressOption option" where
  "AddressFamilyByte b f =
     (if b \<ge> 16 then None
      else Some (\<lambda>o1. if f \<ge> 16 then None
             else Some (o1\<lparr>o_addrTypeMap := (o_addrTypeMap o1)[unat b := f],
                           o_addrByteMap := (o_addrByteMap o1)[unat f := b]\<rparr>)))"

record addressParser =
  addrTypeMap :: "AddressFamily list"
  addrByteMap :: "byte list"
  portFirst :: bool

fun apply_options :: "AddressOption list \<Rightarrow> addr_option \<Rightarrow> addr_option option" where
  "apply_options [] o1 = Some o1"
| "apply_options (opt # opts) o1 = Option.bind (opt o1) (apply_options opts)"

definition NewAddressParser :: "AddressOption list \<Rightarrow> addressParser option" where
  "NewAddressParser options =
     map_option (\<lambda>o1. \<lparr>addrTypeMap = o_addrTypeMap o1, addrByteMap = o_addrByteMap o1, portFirst = o_portFirst o1\<rparr>)
       (apply_options options
         \<lparr>o_addrTypeMap = replicate 16 afInvalid, o_addrByteMap = replicate 16 afInvalid, o_portFirst = False\<rparr>)"

section \<open>Ports\<close>

definition readPort :: "'r io_read \<Rightarrow> Buffer \<Rightarrow> 'r \<Rightarrow> ((Port \<times> goerr option) \<times> Buffer \<times> 'r) option" where
  "readPort rd b r =
     with_full rd b r 2 (\<lambda>e. (0, Some e)) (\<lambda>b' r'.
       Option.bind (BytesFrom b' (- 2)) (\<lambda>bs. map_option (\<lambda>p. ((p, None), b', r')) (PortFromBytes bs)))"

definition writePort :: "'w io_write \<Rightarrow> 'w \<Rightarrow> Port \<Rightarrow> (goerr option \<times> 'w) option" where
  "writePort wr w port = with_write wr w (PutUint16 port) (\<lambda>w'. Some (None, w'))"

section \<open>Addresses\<close>

definition maybeIPPrefix :: "byte \<Rightarrow> bool" where
  "maybeIPPrefix b \<longleftrightarrow> b = 91 \<or> (b \<ge> 48 \<and> b \<le> 57)"

definition valid_domain_char :: "byte \<Rightarrow> bool" where
  "valid_domain_char c \<longleftrightarrow> (c \<ge> 48 \<and> c \<le> 57) \<or> (c \<ge> 97 \<and> c \<le> 122) \<or> (c \<ge> 65 \<and> c \<le> 90) \<or> c = 45 \<or> c = 46 \<or> c = 95"

text \<open>The loop runs over runes; a byte of a multi-byte rune is never one of the ASCII characters allowed.\<close>

definition isValidDomain :: "gostring \<Rightarrow> bool" where
  "isValidDomain d = list_all valid_domain_char d"

definition isDomainTooLong :: "gostring \<Rightarrow> bool" where
  "isDomainTooLong d \<longleftrightarrow> length d > 256"

definition finish_domain :: "gostring \<Rightarrow> (Address option \<times> goerr option) option" where
  "finish_domain d =
     (let reject = (if \<not> isValidDomain d then (None, Some (ENew ''invalid domain name: '' None))
                    else (Some (DomainAddress d), None))
      in if d \<noteq> [] \<and> maybeIPPrefix (hd d)
         then map_option (\<lambda>a. if IsIP (Family a) then (Some a, None) else reject) (ParseAddress d)
         else Some reject)"

text \<open>The IP and the domain case of \<open>readAddress\<close>.\<close>

type_synonym 'r addr_read = "((Address option \<times> goerr option) \<times> Buffer \<times> 'r) option"

definition read_ip :: "'r io_read \<Rightarrow> Buffer \<Rightarrow> 'r \<Rightarrow> int \<Rightarrow> 'r addr_read" where
  "read_ip rd b r n =
     with_full rd b r n (\<lambda>e. (None, Some e)) (\<lambda>b2 r2.
       map_option (\<lambda>bs. ((IPAddress bs, None), b2, r2)) (BytesFrom b2 (- n)))"

definition read_domain_body :: "'r io_read \<Rightarrow> Buffer \<Rightarrow> 'r \<Rightarrow> int \<Rightarrow> 'r addr_read" where
  "read_domain_body rd b r domainLength =
     with_full rd b r domainLength (\<lambda>e. (None, Some e)) (\<lambda>b3 r3.
       Option.bind (BytesFrom b3 (- domainLength)) (\<lambda>d.
         map_option (\<lambda>res. (res, b3, r3)) (finish_domain d)))"

definition read_domain :: "'r io_read \<Rightarrow> Buffer \<Rightarrow> 'r \<Rightarrow> 'r addr_read" where
  "read_domain rd b r =
     with_full rd b r 1 (\<lambda>e. (None, Some e)) (\<lambda>b2 r2.
       Option.bind (Byte b2 (i32 (buf_Len b2 - 1))) (\<lambda>l. read_domain_body rd b2 r2 (uint l)))"

definition read_by_type :: "addressParser \<Rightarrow> 'r io_read \<Rightarrow> Buffer \<Rightarrow> 'r \<Rightarrow> byte \<Rightarrow> 'r addr_read" where
  "read_by_type ap rd b r addrType =
     (let unknown = ENew ''unknown address type: '' None
      in if addrType \<ge> 16 then Some ((None, Some unknown), b, r)
         else Option.bind (index (addrTypeMap ap) (uint addrType)) (\<lambda>fam.
           if fam = afInvalid then Some ((None, Some unknown), b, r)
           else if fam = AddressFamilyIPv4 then read_ip rd b r 4
           else if fam = AddressFamilyIPv6 then read_ip rd b r 16
           else if fam = AddressFamilyDomain then read_domain rd b r
           else None))"

definition readAddress :: "addressParser \<Rightarrow> 'r io_read \<Rightarrow> Buffer \<Rightarrow> 'r \<Rightarrow> 'r addr_read" where
  "readAddress ap rd b r =
     with_full rd b r 1 (\<lambda>e. (None, Some e)) (\<lambda>b1 r1.
       Option.bind (Byte b1 (i32 (buf_Len b1 - 1))) (\<lambda>addrType. read_by_type ap rd b1 r1 addrType))"

definition writeAddress :: "addressParser \<Rightarrow> 'w io_write \<Rightarrow> 'w \<Rightarrow> Address option \<Rightarrow> (goerr option \<times> 'w) option" where
  "writeAddress ap wr w addr =
     (case addr of
        None \<Rightarrow> Some (Some (ENew ''nil address'' None), w)
      | Some a \<Rightarrow>
          Option.bind (index (addrByteMap ap) (uint (Family a))) (\<lambda>tb.
            if tb = afInvalid then Some (Some (ENew ''unknown address family'' None), w)
            else if Family a = AddressFamilyIPv4 \<or> Family a = AddressFamilyIPv6 then
              with_write wr w [tb] (\<lambda>w1. with_write wr w1 (Address_IP a) (\<lambda>w2. Some (None, w2)))
            else if Family a = AddressFamilyDomain then
              (let d = Address_Domain a
               in if isDomainTooLong d then Some (Some (ENew ''Super long domain is not supported: '' None), w)
                  else with_write wr w [tb, word_of_nat (length d)] (\<lambda>w1.
                         with_write wr w1 d (\<lambda>w2. Some (None, w2))))
            else None))"

section \<open>Address and port\<close>

type_synonym addr_result = "Address option \<times> Port \<times> goerr option"

definition read_addr_port ::
  "addressParser \<Rightarrow> 'r io_read \<Rightarrow> Buffer \<Rightarrow> 'r \<Rightarrow> (addr_result \<times> Buffer \<times> 'r) option" where
  "read_addr_port ap rd b r =
     (if portFirst ap then
        Option.bind (readPort rd b r) (\<lambda>x. case x of ((port, err), b1, r1) \<Rightarrow>
          (case err of
             Some e \<Rightarrow> Some ((None, 0, Some e), b1, r1)
           | None \<Rightarrow> Option.bind (readAddress ap rd b1 r1) (\<lambda>x. case x of ((addr, err), b2, r2) \<Rightarrow>
               (case err of
                  Some e \<Rightarrow> Some ((None, 0, Some e), b2, r2)
                | None \<Rightarrow> Some ((addr, port, None), b2, r2)))))
      else
        Option.bind (readAddress ap rd b r) (\<lambda>x. case x of ((addr, err), b1, r1) \<Rightarrow>
          (case err of
             Some e \<Rightarrow> Some ((None, 0, Some e), b1, r1)
           | None \<Rightarrow> Option.bind (readPort rd b1 r1) (\<lambda>x. case x of ((port, err), b2, r2) \<Rightarrow>
               (case err of
                  Some e \<Rightarrow> Some ((None, 0, Some e), b2, r2)
                | None \<Rightarrow> Some ((addr, port, None), b2, r2))))))"

text \<open>With a nil buffer a pooled one is used and released at the end.\<close>

definition ReadAddressPort ::
  "addressParser \<Rightarrow> 'r io_read \<Rightarrow> Buffer option \<Rightarrow> 'r \<Rightarrow> pool \<Rightarrow> (addr_result \<times> Buffer option \<times> 'r \<times> pool) option" where
  "ReadAddressPort ap rd bo r p =
     (case bo of
        Some b \<Rightarrow> map_option (\<lambda>(res, b', r'). (res, Some b', r', p)) (read_addr_port ap rd b r)
      | None \<Rightarrow> (case New p of (b, p1) \<Rightarrow>
          map_option (\<lambda>(res, b', r'). (res, None, r', snd (Release (Some b') p1))) (read_addr_port ap rd b r)))"

definition WriteAddressPort ::
  "addressParser \<Rightarrow> 'w io_write \<Rightarrow> 'w \<Rightarrow> Address option \<Rightarrow> Port \<Rightarrow> (goerr option \<times> 'w) option" where
  "WriteAddressPort ap wr w addr port =
     (if portFirst ap then
        Option.bind (writePort wr w port) (\<lambda>(err, w1).
          case err of Some e \<Rightarrow> Some (Some e, w1) | None \<Rightarrow> writeAddress ap wr w1 addr)
      else
        Option.bind (writeAddress ap wr w addr) (\<lambda>(err, w1).
          case err of Some e \<Rightarrow> Some (Some e, w1) | None \<Rightarrow> writePort wr w1 port))"

section \<open>Request headers\<close>

datatype TransferType = TransferTypeStream | TransferTypePacket

definition RequestCommandTCP :: byte where "RequestCommandTCP = 1"
definition RequestCommandUDP :: byte where "RequestCommandUDP = 2"
definition RequestCommandMux :: byte where "RequestCommandMux = 3"
definition RequestCommandRvs :: byte where "RequestCommandRvs = 4"

definition Command_TransferType :: "byte \<Rightarrow> TransferType" where
  "Command_TransferType c =
     (if c = RequestCommandTCP \<or> c = RequestCommandMux \<or> c = RequestCommandRvs then TransferTypeStream
      else if c = RequestCommandUDP then TransferTypePacket else TransferTypeStream)"

section \<open>Plumbing lemmas\<close>

lemma overwrite_overwrite:
  "n \<le> length a \<Longrightarrow> overwrite (overwrite a n d) (n + length d) e = overwrite a n (d @ e)"
  by (simp add: overwrite_def add.commute add.left_commute)

lemma append_to_append_to [simp]:
  assumes "buf_inv b"
  shows "append_to (append_to b d) e = append_to b (d @ e)"
proof -
  have n: "nat (b_end b + int (length d)) = nat (b_end b) + length d" "nat (b_end b) \<le> length (b_arr b)"
    using assms by (auto simp: buf_inv_def)
  then show ?thesis
    by (cases "b_v b") (simp_all add: append_to_def overwrite_overwrite b_arr_def)
qed

lemma append_to_Nil [simp]: "buf_inv b \<Longrightarrow> append_to b [] = b"
  by (cases "b_v b") (auto simp: append_to_def overwrite_def)

text \<open>Looking at the bytes that were just appended.\<close>

lemma Byte_appended:
  assumes "buf_inv b" "length d < room b"
  shows "Byte (append_to b (d @ [x])) (i32 (buf_Len (append_to b (d @ [x])) - 1)) = Some x"
proof -
  let ?b = "append_to b (d @ [x])"
  have i: "buf_inv ?b" "content ?b = content b @ d @ [x]" using assms by auto
  have "int (length (content ?b)) < 2147483648" using content_bound [OF i(1)] .
  then have "i32 (buf_Len ?b - 1) = int (length (content b) + length d)" using i by (simp add: buf_Len_content)
  then show ?thesis using Byte_content [OF i(1), of "length (content b) + length d"] i(2) by (simp add: nth_append)
qed

lemmas Byte_appended1 = Byte_appended [where d = "[]", simplified]

lemma BytesFrom_appended:
  assumes "buf_inv b" "length d + length e \<le> room b" "e \<noteq> []" "n = int (length e)"
  shows "BytesFrom (append_to b (d @ e)) (- n) = Some e"
  using BytesFrom_last [of "append_to b (d @ e)" "length e"] assms by simp

lemmas BytesFrom_appended1 = BytesFrom_appended [where d = "[]", simplified]

lemma Buffer_Write_fits:
  "buf_inv b \<Longrightarrow> length d \<le> room b \<Longrightarrow> Buffer_Write b d = Some (int (length d), None, append_to b d)"
  by (simp add: Buffer_Write_def Write_fits)

lemma with_write_fits:
  "buf_inv b \<Longrightarrow> length d \<le> room b \<Longrightarrow> with_write Buffer_Write b d k = k (append_to b d)"
  by (simp add: with_write_def Buffer_Write_fits)

context io_reader
begin

lemma with_full_ok:
  assumes "rinv r" "buf_inv b" "pending r = d @ rest" "length d \<le> room b" "n = int (length d)"
  obtains r' where "with_full rd b r n fl k = k (append_to b d) r'" "rinv r'" "pending r' = rest" "final r' = final r"
proof -
  obtain r' where "ReadFullFrom rd b r n = Some ((n, None), append_to b d, r')" "rinv r'" "pending r' = rest" "final r' = final r"
    using ReadFullFrom_ok [OF assms(1,2,4,3,5)] by blast
  then show ?thesis by (intro that [of r']) (simp_all add: with_full_def)
qed

lemma with_full_short:
  assumes "rinv r" "buf_inv b" "length (pending r) < n" "n \<le> room b"
  obtains e r' where "with_full rd b r (int n) fl k = Some (fl e, append_to b (pending r), r')" "e = ErrUnexpectedEOF \<or> e = final r"
    "rinv r'" "pending r' = []" "final r' = final r"
proof -
  obtain r' where "ReadFullFrom rd b r (int n) = Some ((int (length (pending r)),
        Some (if pending r \<noteq> [] \<and> final r = EOF then ErrUnexpectedEOF else final r)),
        append_to b (pending r), r')"
      "rinv r'" "pending r' = []" "final r' = final r"
    using ReadFullFrom_short [OF assms(1,2,4,3)] by blast
  then show ?thesis
    by (intro that [of "if pending r \<noteq> [] \<and> final r = EOF then ErrUnexpectedEOF else final r" r'])
      (simp_all add: with_full_def)
qed

lemma readPort_ok:
  assumes "rinv r" "buf_inv b" "pending r = PutUint16 p @ rest" "2 \<le> room b"
  obtains r' where "readPort rd b r = Some ((p, None), append_to b (PutUint16 p), r')"
    "rinv r'" "pending r' = rest" "final r' = final r"
proof -
  have "length (PutUint16 p) \<le> room b" "2 = int (length (PutUint16 p))" using assms(4) by simp_all
  then obtain r' where
    "readPort rd b r = Option.bind (BytesFrom (append_to b (PutUint16 p)) (- 2)) (\<lambda>bs.
        map_option (\<lambda>q. ((q, None), append_to b (PutUint16 p), r')) (PortFromBytes bs))"
    "rinv r'" "pending r' = rest" "final r' = final r"
    unfolding readPort_def by (rule with_full_ok [OF assms(1-3)])
  moreover have "BytesFrom (append_to b (PutUint16 p)) (- 2) = Some (PutUint16 p)"
    using assms(2,4) by (intro BytesFrom_appended1) (auto simp: PutUint16_def)
  ultimately show ?thesis by (intro that [of r']) (simp_all add: PortFromBytes_def)
qed

end

section \<open>What is written\<close>

definition type_byte :: "addressParser \<Rightarrow> Address \<Rightarrow> byte" where
  "type_byte ap a = addrByteMap ap ! unat (Family a)"

definition addr_bytes :: "addressParser \<Rightarrow> Address \<Rightarrow> byte list" where
  "addr_bytes ap a = type_byte ap a #
     (case a of domainAddress d \<Rightarrow> word_of_nat (length d) # d | _ \<Rightarrow> Address_IP a)"

definition addr_port_bytes :: "addressParser \<Rightarrow> Address \<Rightarrow> Port \<Rightarrow> byte list" where
  "addr_port_bytes ap a port =
     (if portFirst ap then PutUint16 port @ addr_bytes ap a else addr_bytes ap a @ PutUint16 port)"

text \<open>The parser knows the family, in both directions.\<close>

definition supports :: "addressParser \<Rightarrow> AddressFamily \<Rightarrow> bool" where
  "supports ap f \<longleftrightarrow> length (addrTypeMap ap) = 16 \<and> length (addrByteMap ap) = 16
     \<and> addrByteMap ap ! unat f < 16 \<and> addrTypeMap ap ! unat (addrByteMap ap ! unat f) = f"

text \<open>
  The addresses the format can carry: a domain has 1 to 255 allowed characters and does not itself look like an IP
  address, which the reader would return in its place.
\<close>

definition encodable :: "Address \<Rightarrow> bool" where
  "encodable a \<longleftrightarrow> wf_Address a \<and> (\<forall>d. a = domainAddress d \<longrightarrow> d \<noteq> [] \<and> length d \<le> 255 \<and> isValidDomain d
     \<and> finish_domain d = Some (Some a, None))"

lemma family_cases:
  obtains (v4) x where "a = ipv4Address x" | (v6) x where "a = ipv6Address x" | (dom) d where "a = domainAddress d"
  by (cases a) auto

lemma unat_family [simp]: "unat AddressFamilyIPv4 = 0" "unat AddressFamilyIPv6 = 1" "unat AddressFamilyDomain = 2"
  by (simp_all add: AddressFamilyIPv4_def AddressFamilyIPv6_def AddressFamilyDomain_def)

lemma family_index:
  "supports ap (Family a) \<Longrightarrow> index (addrByteMap ap) (uint (Family a)) = Some (type_byte ap a)"
  by (cases a) (auto simp: supports_def type_byte_def index_def AddressFamilyIPv4_def AddressFamilyIPv6_def AddressFamilyDomain_def)

lemma type_byte_small: "supports ap (Family a) \<Longrightarrow> type_byte ap a < 16 \<and> type_byte ap a \<noteq> afInvalid"
  by (auto simp: supports_def type_byte_def afInvalid_def)

lemma type_index:
  assumes "supports ap (Family a)"
  shows "index (addrTypeMap ap) (uint (type_byte ap a)) = Some (Family a)"
proof -
  have "type_byte ap a < 16" using type_byte_small [OF assms] by blast
  then have "uint (type_byte ap a) < 16" by (simp add: word_less_def)
  moreover have "nat (uint (type_byte ap a)) = unat (type_byte ap a)" by (rule unat_eq_nat_uint [symmetric])
  moreover have "length (addrTypeMap ap) = 16" "addrTypeMap ap ! unat (type_byte ap a) = Family a"
    using assms by (auto simp: supports_def type_byte_def)
  ultimately show ?thesis unfolding index_def by simp
qed

lemma isDomainTooLong_small: "length d \<le> 256 \<Longrightarrow> \<not> isDomainTooLong d"
  by (simp add: isDomainTooLong_def)

lemma writeAddress_ok:
  assumes "supports ap (Family a)" "\<forall>d. a = domainAddress d \<longrightarrow> length d \<le> 256" "buf_inv b" "length (addr_bytes ap a) \<le> room b"
  shows "writeAddress ap Buffer_Write b (Some a) = Some (None, append_to b (addr_bytes ap a))"
  using assms(2-4) type_byte_small [OF assms(1)] family_index [OF assms(1)]
  by (cases a) (simp_all add: writeAddress_def addr_bytes_def with_write_fits isDomainTooLong_small)

lemma WriteAddressPort_ok:
  assumes "supports ap (Family a)" "\<forall>d. a = domainAddress d \<longrightarrow> length d \<le> 256" "buf_inv b" "length (addr_port_bytes ap a port) \<le> room b"
  shows "WriteAddressPort ap Buffer_Write b (Some a) port = Some (None, append_to b (addr_port_bytes ap a port))"
  using assms by (cases "portFirst ap")
    (simp_all add: WriteAddressPort_def writePort_def addr_port_bytes_def with_write_fits writeAddress_ok)

lemma uint_length: "n \<le> 255 \<Longrightarrow> uint (word_of_nat n :: byte) = int n"
  by (simp add: unsigned_of_nat take_bit_nat_eq_self)

context io_reader
begin

lemma read_ip_ok:
  assumes "rinv r" "buf_inv b" "pending r = x @ rest" "x \<noteq> []" "n = int (length x)" "length x \<le> room b"
  obtains r' where "read_ip rd b r n = Some ((IPAddress x, None), append_to b x, r')" "rinv r'" "pending r' = rest" "final r' = final r"
proof -
  obtain r' where "read_ip rd b r n = map_option (\<lambda>bs. ((IPAddress bs, None), append_to b x, r')) (BytesFrom (append_to b x) (- n))"
    "rinv r'" "pending r' = rest" "final r' = final r"
    unfolding read_ip_def by (rule with_full_ok [OF assms(1-3,6,5)])
  then show ?thesis using assms BytesFrom_appended1 [of b x n] by (intro that [of r']) simp_all
qed

lemma read_domain_body_ok:
  assumes "rinv r" "buf_inv b" "pending r = d @ rest" "n = int (length d)" "length d \<le> room b" "d \<noteq> []" "finish_domain d = Some res"
  obtains r' where "read_domain_body rd b r n = Some (res, append_to b d, r')" "rinv r'" "pending r' = rest" "final r' = final r"
proof -
  obtain r' where "read_domain_body rd b r n = Option.bind (BytesFrom (append_to b d) (- n)) (\<lambda>x.
      map_option (\<lambda>res. (res, append_to b d, r')) (finish_domain x))"
    "rinv r'" "pending r' = rest" "final r' = final r"
    unfolding read_domain_body_def by (rule with_full_ok [OF assms(1-3,5,4)])
  then show ?thesis using assms BytesFrom_appended1 [of b d n] by (intro that [of r']) simp_all
qed

lemma read_domain_ok:
  assumes "rinv r" "buf_inv b" "pending r = (word_of_nat (length d) # d) @ rest" "length d \<le> 255" "length d < room b" "d \<noteq> []"
    "finish_domain d = Some res"
  obtains r' where "read_domain rd b r = Some (res, append_to b (word_of_nat (length d) # d), r')"
    "rinv r'" "pending r' = rest" "final r' = final r"
proof -
  let ?l = "word_of_nat (length d) :: byte"
  have p: "pending r = [?l] @ d @ rest" using assms(3) by simp
  have "length [?l] \<le> room b" "1 = int (length [?l])" using assms(5) by simp_all
  then obtain r1 where r1: "read_domain rd b r = Option.bind (Byte (append_to b [?l]) (i32 (buf_Len (append_to b [?l]) - 1)))
      (\<lambda>l. read_domain_body rd (append_to b [?l]) r1 (uint l))" "rinv r1" "pending r1 = d @ rest" "final r1 = final r"
    unfolding read_domain_def by (rule with_full_ok [OF assms(1,2) p])
  have i: "buf_inv (append_to b [?l])" "length d \<le> room (append_to b [?l])" using assms(2,5) by auto
  have l: "uint ?l = int (length d)" using uint_length [OF assms(4)] .
  obtain r2 where "read_domain_body rd (append_to b [?l]) r1 (uint ?l) = Some (res, append_to (append_to b [?l]) d, r2)"
    "rinv r2" "pending r2 = rest" "final r2 = final r1"
    by (rule read_domain_body_ok [OF r1(2) i(1) r1(3) l i(2) assms(6,7)])
  then show ?thesis using r1(1,4) assms(2,5) by (intro that [of r2]) (simp_all add: Byte_appended1)
qed

lemma readAddress_type:
  assumes "rinv r" "buf_inv b" "pending r = t # rest" "0 < room b"
  obtains r' where "readAddress ap rd b r = read_by_type ap rd (append_to b [t]) r' t" "rinv r'" "pending r' = rest" "final r' = final r"
proof -
  have p: "pending r = [t] @ rest" using assms(3) by simp
  have "length [t] \<le> room b" "1 = int (length [t])" using assms(4) by simp_all
  then obtain r1 where "readAddress ap rd b r = Option.bind (Byte (append_to b [t]) (i32 (buf_Len (append_to b [t]) - 1)))
      (\<lambda>l. read_by_type ap rd (append_to b [t]) r1 l)" "rinv r1" "pending r1 = rest" "final r1 = final r"
    unfolding readAddress_def by (rule with_full_ok [OF assms(1,2) p])
  then show ?thesis using assms(2,4) by (intro that [of r1]) (simp_all add: Byte_appended1)
qed

lemma readAddress_ok:
  assumes "rinv r" "buf_inv b" "pending r = addr_bytes ap a @ rest" "supports ap (Family a)" "encodable a"
    "length (addr_bytes ap a) \<le> room b"
  obtains r' where "readAddress ap rd b r = Some ((Some a, None), append_to b (addr_bytes ap a), r')"
    "rinv r'" "pending r' = rest" "final r' = final r"
proof -
  have rm: "0 < room b" "length (tl (addr_bytes ap a)) < room b" using assms(6) by (simp_all add: addr_bytes_def)
  have p: "pending r = type_byte ap a # tl (addr_bytes ap a) @ rest" using assms(3) by (simp add: addr_bytes_def)
  obtain r1 where r1: "readAddress ap rd b r = read_by_type ap rd (append_to b [type_byte ap a]) r1 (type_byte ap a)"
    "rinv r1" "pending r1 = tl (addr_bytes ap a) @ rest" "final r1 = final r"
    by (rule readAddress_type [OF assms(1,2) p rm(1)])
  have i: "buf_inv (append_to b [type_byte ap a])" "length (tl (addr_bytes ap a)) \<le> room (append_to b [type_byte ap a])"
    using assms(2) rm by auto
  have t: "\<not> 16 \<le> type_byte ap a" "Family a \<noteq> afInvalid"
    using type_byte_small [OF assms(4)]
    by (auto, cases a) (simp_all add: afInvalid_def AddressFamilyIPv4_def AddressFamilyIPv6_def AddressFamilyDomain_def)
  have eq: "readAddress ap rd b r = (case a of domainAddress _ \<Rightarrow> read_domain rd (append_to b [type_byte ap a]) r1
      | ipv4Address _ \<Rightarrow> read_ip rd (append_to b [type_byte ap a]) r1 4
      | ipv6Address _ \<Rightarrow> read_ip rd (append_to b [type_byte ap a]) r1 16)"
    using r1(1) t type_index [OF assms(4)] by (simp add: read_by_type_def split: Address.splits)
  have fin: "append_to (append_to b [type_byte ap a]) (tl (addr_bytes ap a)) = append_to b (addr_bytes ap a)"
    using assms(2) by (simp add: addr_bytes_def)
  show ?thesis
  proof (cases a)
    case (ipv4Address x)
    then have x: "tl (addr_bytes ap a) = x" "x \<noteq> []" "4 = int (length x)" "IPAddress x = Some a"
      using assms(5) by (auto simp: encodable_def IPAddress_def addr_bytes_def)
    obtain r2 where "read_ip rd (append_to b [type_byte ap a]) r1 4 = Some ((IPAddress x, None), append_to (append_to b [type_byte ap a]) x, r2)"
      "rinv r2" "pending r2 = rest" "final r2 = final r1"
      by (rule read_ip_ok [OF r1(2) i(1) r1(3) [unfolded x(1)] x(2,3) i(2) [unfolded x(1)]])
    then show ?thesis using eq x r1(4) fin ipv4Address by (intro that [of r2]) simp_all
  next
    case (ipv6Address x)
    then have x: "tl (addr_bytes ap a) = x" "x \<noteq> []" "16 = int (length x)" "IPAddress x = Some a"
      using assms(5) by (auto simp: encodable_def IPAddress_def addr_bytes_def)
    obtain r2 where "read_ip rd (append_to b [type_byte ap a]) r1 16 = Some ((IPAddress x, None), append_to (append_to b [type_byte ap a]) x, r2)"
      "rinv r2" "pending r2 = rest" "final r2 = final r1"
      by (rule read_ip_ok [OF r1(2) i(1) r1(3) [unfolded x(1)] x(2,3) i(2) [unfolded x(1)]])
    then show ?thesis using eq x r1(4) fin ipv6Address by (intro that [of r2]) simp_all
  next
    case (domainAddress d)
    have d: "length d \<le> 255" "d \<noteq> []" "finish_domain d = Some (Some a, None)"
      using assms(5) domainAddress by (auto simp: encodable_def)
    have tl: "tl (addr_bytes ap a) = word_of_nat (length d) # d" using domainAddress by (simp add: addr_bytes_def)
    have rm': "length d < room (append_to b [type_byte ap a])" using i(2) tl by simp
    obtain r2 where "read_domain rd (append_to b [type_byte ap a]) r1
        = Some ((Some a, None), append_to (append_to b [type_byte ap a]) (word_of_nat (length d) # d), r2)"
      "rinv r2" "pending r2 = rest" "final r2 = final r1"
      by (rule read_domain_ok [OF r1(2) i(1) r1(3) [unfolded tl] d(1) rm' d(2,3)])
    then show ?thesis using eq r1(4) fin tl domainAddress by (intro that [of r2]) simp_all
  qed
qed

lemma read_addr_port_ok:
  assumes "rinv r" "buf_inv b" "pending r = addr_port_bytes ap a port @ rest" "supports ap (Family a)" "encodable a"
    "length (addr_port_bytes ap a port) \<le> room b"
  obtains r' where "read_addr_port ap rd b r = Some ((Some a, port, None), append_to b (addr_port_bytes ap a port), r')"
    "rinv r'" "pending r' = rest" "final r' = final r"
proof (cases "portFirst ap")
  case True
  then have p: "pending r = PutUint16 port @ addr_bytes ap a @ rest" "2 \<le> room b"
    using assms(3,6) by (simp_all add: addr_port_bytes_def)
  obtain r1 where r1: "readPort rd b r = Some ((port, None), append_to b (PutUint16 port), r1)" "rinv r1"
    "pending r1 = addr_bytes ap a @ rest" "final r1 = final r"
    by (rule readPort_ok [OF assms(1,2) p])
  have i: "buf_inv (append_to b (PutUint16 port))" "length (addr_bytes ap a) \<le> room (append_to b (PutUint16 port))"
    using True assms(2,6) by (simp_all add: addr_port_bytes_def)
  obtain r2 where "readAddress ap rd (append_to b (PutUint16 port)) r1
      = Some ((Some a, None), append_to (append_to b (PutUint16 port)) (addr_bytes ap a), r2)"
    "rinv r2" "pending r2 = rest" "final r2 = final r1"
    by (rule readAddress_ok [OF r1(2) i(1) r1(3) assms(4,5) i(2)])
  then show ?thesis using True r1 assms(2) by (intro that [of r2]) (simp_all add: read_addr_port_def addr_port_bytes_def)
next
  case False
  then have p: "pending r = addr_bytes ap a @ PutUint16 port @ rest" "length (addr_bytes ap a) \<le> room b"
    using assms(3,6) by (simp_all add: addr_port_bytes_def)
  obtain r1 where r1: "readAddress ap rd b r = Some ((Some a, None), append_to b (addr_bytes ap a), r1)" "rinv r1"
    "pending r1 = PutUint16 port @ rest" "final r1 = final r"
    by (rule readAddress_ok [OF assms(1,2) p(1) assms(4,5) p(2)])
  have i: "buf_inv (append_to b (addr_bytes ap a))" "2 \<le> room (append_to b (addr_bytes ap a))"
    using False assms(2,6) by (simp_all add: addr_port_bytes_def)
  obtain r2 where "readPort rd (append_to b (addr_bytes ap a)) r1
      = Some ((port, None), append_to (append_to b (addr_bytes ap a)) (PutUint16 port), r2)"
    "rinv r2" "pending r2 = rest" "final r2 = final r1"
    by (rule readPort_ok [OF r1(2) i(1) r1(3) i(2)])
  then show ?thesis using False r1 assms(2) by (intro that [of r2]) (simp_all add: read_addr_port_def addr_port_bytes_def)
qed

text \<open>Reading never panics, whatever the bytes: the rule for one \<open>ReadFullFrom\<close> and its uses.\<close>

lemma with_full_total:
  assumes "rinv r" "buf_inv b" "n \<le> room b"
    "\<And>e d r'. length d \<le> n \<Longrightarrow> rinv r' \<Longrightarrow> Q (fl e, append_to b d, r')"
    "\<And>d r'. length d = n \<Longrightarrow> rinv r' \<Longrightarrow> \<exists>y. k (append_to b d) r' = Some y \<and> Q y"
  shows "\<exists>y. with_full rd b r (int n) fl k = Some y \<and> Q y"
proof (cases "n \<le> length (pending r)")
  case True
  let ?d = "take n (pending r)"
  have "pending r = ?d @ drop n (pending r)" "length ?d \<le> room b" "int n = int (length ?d)" using True assms(3) by auto
  then obtain r' where "with_full rd b r (int n) fl k = k (append_to b ?d) r'" "rinv r'"
    using with_full_ok [OF assms(1,2)] by metis
  then show ?thesis using assms(5) [of ?d r'] True by simp
next
  case False
  then have l: "length (pending r) < n" by simp
  obtain e r' where "with_full rd b r (int n) fl k = Some (fl e, append_to b (pending r), r')" "rinv r'"
    using with_full_short [OF assms(1,2) l assms(3)] by metis
  then show ?thesis using assms(4) [of "pending r" r'] l by simp
qed

definition spent :: "nat \<Rightarrow> Buffer \<Rightarrow> 'a \<times> Buffer \<times> 'r \<Rightarrow> bool" where
  "spent n b y \<longleftrightarrow> (case y of (_, b', r') \<Rightarrow> buf_inv b' \<and> rinv r' \<and> room b \<le> room b' + n)"

lemma spent_append: "spent n (append_to b d) y \<Longrightarrow> length d + n \<le> m \<Longrightarrow> spent m b y"
  by (auto simp: spent_def)

lemma readPort_total:
  assumes "rinv r" "buf_inv b" "2 \<le> room b"
  shows "\<exists>y. readPort rd b r = Some y \<and> spent 2 b y"
proof -
  have "\<exists>y. with_full rd b r (int 2) (\<lambda>e. (0, Some e)) (\<lambda>b' r'.
       Option.bind (BytesFrom b' (- 2)) (\<lambda>bs. map_option (\<lambda>p. ((p, None), b', r')) (PortFromBytes bs))) = Some y \<and> spent 2 b y"
  proof (rule with_full_total [OF assms])
    fix e and d :: "byte list" and r'
    assume "length d \<le> 2" "rinv r'"
    then show "spent 2 b ((0, Some e), append_to b d, r')" using assms by (simp add: spent_def)
  next
    fix d :: "byte list" and r'
    assume d: "length d = 2" "rinv r'"
    then obtain x y where "d = [x, y]" by (auto simp: length_Suc_conv numeral_2_eq_2)
    moreover have "BytesFrom (append_to b d) (- 2) = Some d"
      by (rule BytesFrom_appended1) (use d assms in auto)
    ultimately show "\<exists>y. Option.bind (BytesFrom (append_to b d) (- 2)) (\<lambda>bs. map_option (\<lambda>p. ((p, None), append_to b d, r')) (PortFromBytes bs)) = Some y \<and> spent 2 b y"
      using d assms by (simp add: spent_def PortFromBytes_def Uint16_def)
  qed
  then show ?thesis by (simp add: readPort_def)
qed

lemma read_ip_total:
  assumes "rinv r" "buf_inv b" "n \<le> room b" "0 < n"
  shows "\<exists>y. read_ip rd b r (int n) = Some y \<and> spent n b y"
  unfolding read_ip_def
proof (rule with_full_total [OF assms(1-3)])
  fix e and d :: "byte list" and r'
  assume "length d \<le> n" "rinv r'"
  then show "spent n b ((None, Some e), append_to b d, r')" using assms by (simp add: spent_def)
next
  fix d :: "byte list" and r'
  assume d: "length d = n" "rinv r'"
  have "BytesFrom (append_to b d) (- int n) = Some d"
    by (rule BytesFrom_appended1) (use d assms in auto)
  then show "\<exists>y. map_option (\<lambda>bs. ((IPAddress bs, None), append_to b d, r')) (BytesFrom (append_to b d) (- int n)) = Some y \<and> spent n b y"
    using d assms by (simp add: spent_def)
qed

lemma read_domain_body_total:
  assumes "rinv r" "buf_inv b" "n \<le> room b"
  shows "\<exists>y. read_domain_body rd b r (int n) = Some y \<and> spent n b y"
  unfolding read_domain_body_def
proof (rule with_full_total [OF assms])
  fix e and d :: "byte list" and r'
  assume "length d \<le> n" "rinv r'"
  then show "spent n b ((None, Some e), append_to b d, r')" using assms by (simp add: spent_def)
next
  fix d :: "byte list" and r'
  assume d: "length d = n" "rinv r'"
  let ?b = "append_to b d"
  have i: "buf_inv ?b" using d assms by simp
  have "\<exists>x. BytesFrom ?b (- int n) = Some x"
  proof (cases "n = 0")
    case True
    then show ?thesis using BytesFrom_content [OF i, of 0] by simp
  next
    case False
    then show ?thesis using BytesFrom_last [OF i, of n] d assms by simp
  qed
  moreover have "\<exists>res. finish_domain x = Some res" for x
  proof -
    obtain a where "ParseAddress x = Some a" using ParseAddress_Some by blast
    then show ?thesis unfolding finish_domain_def Let_def by (simp del: split_paired_Ex)
  qed
  ultimately show "\<exists>y. Option.bind (BytesFrom ?b (- int n)) (\<lambda>x. map_option (\<lambda>res. (res, ?b, r')) (finish_domain x)) = Some y \<and> spent n b y"
    using d assms i by (fastforce simp: spent_def)
qed

lemma read_domain_total:
  assumes "rinv r" "buf_inv b" "256 \<le> room b"
  shows "\<exists>y. read_domain rd b r = Some y \<and> spent 256 b y"
proof -
  have rm: "1 \<le> room b" using assms(3) by simp
  have "\<exists>y. with_full rd b r (int 1) (\<lambda>e. (None, Some e)) (\<lambda>b2 r2.
       Option.bind (Byte b2 (i32 (buf_Len b2 - 1))) (\<lambda>l. read_domain_body rd b2 r2 (uint l))) = Some y \<and> spent 256 b y"
  proof (rule with_full_total [OF assms(1,2) rm])
    fix e and d :: "byte list" and r'
    assume "length d \<le> 1" "rinv r'"
    then show "spent 256 b ((None, Some e), append_to b d, r')" using assms by (simp add: spent_def)
  next
    fix d :: "byte list" and r'
    assume d: "length d = 1" "rinv r'"
    then obtain l where l: "d = [l]" by (auto simp: length_Suc_conv)
    have n: "unat l \<le> 255" using unsigned_less [of l, where ?'a = nat] by simp
    obtain y where y: "read_domain_body rd (append_to b d) r' (int (unat l)) = Some y" "spent (unat l) (append_to b d) y"
      using read_domain_body_total [of r' "append_to b d" "unat l", OF d(2)] d(1) assms(2,3) n rm by fastforce
    have "spent 256 b y" using spent_append [OF y(2), of 256] d(1) n by simp
    then show "\<exists>y. Option.bind (Byte (append_to b d) (i32 (buf_Len (append_to b d) - 1)))
        (\<lambda>l. read_domain_body rd (append_to b d) r' (uint l)) = Some y \<and> spent 256 b y"
      using y(1) l assms rm by (simp add: Byte_appended1)
  qed
  then show ?thesis by (simp add: read_domain_def)
qed

lemma read_by_type_total:
  assumes "rinv r" "buf_inv b" "256 \<le> room b" "length (addrTypeMap ap) = 16"
    "set (addrTypeMap ap) \<subseteq> {afInvalid, AddressFamilyIPv4, AddressFamilyIPv6, AddressFamilyDomain}"
  shows "\<exists>y. read_by_type ap rd b r t = Some y \<and> spent 256 b y"
proof (cases "16 \<le> t")
  case True
  then show ?thesis using assms by (simp add: read_by_type_def spent_def)
next
  case False
  then have t: "uint t < 16" by (simp add: word_le_def)
  let ?f = "addrTypeMap ap ! nat (uint t)"
  have ix: "index (addrTypeMap ap) (uint t) = Some ?f" using t assms(4) by (simp add: index_def)
  have "?f \<in> set (addrTypeMap ap)" using t assms(4) unat_eq_nat_uint [of t] by (intro nth_mem) linarith
  then consider "?f = afInvalid" | "?f = AddressFamilyIPv4" | "?f = AddressFamilyIPv6" | "?f = AddressFamilyDomain"
    using assms(5) by blast
  then show ?thesis
  proof cases
    case 1
    then show ?thesis using False ix assms by (simp add: read_by_type_def spent_def)
  next
    case 2
    then have "read_by_type ap rd b r t = read_ip rd b r (int 4)"
      using False ix by (simp add: read_by_type_def afInvalid_def AddressFamilyIPv4_def)
    then show ?thesis using read_ip_total [OF assms(1,2), of 4] assms(3) by (force simp: spent_def)
  next
    case 3
    then have "read_by_type ap rd b r t = read_ip rd b r (int 16)"
      using False ix by (simp add: read_by_type_def afInvalid_def AddressFamilyIPv4_def AddressFamilyIPv6_def)
    then show ?thesis using read_ip_total [OF assms(1,2), of 16] assms(3) by (force simp: spent_def)
  next
    case 4
    then have "read_by_type ap rd b r t = read_domain rd b r"
      using False ix by (simp add: read_by_type_def afInvalid_def AddressFamilyDomain_def AddressFamilyIPv4_def AddressFamilyIPv6_def)
    then show ?thesis using read_domain_total [OF assms(1-3)] by simp
  qed
qed

lemma readAddress_total:
  assumes "rinv r" "buf_inv b" "257 \<le> room b" "length (addrTypeMap ap) = 16"
    "set (addrTypeMap ap) \<subseteq> {afInvalid, AddressFamilyIPv4, AddressFamilyIPv6, AddressFamilyDomain}"
  shows "\<exists>y. readAddress ap rd b r = Some y \<and> spent 257 b y"
proof (cases "pending r")
  case Nil
  have z: "length (pending r) < 1" "1 \<le> room b" using Nil assms(3) by simp_all
  obtain e r' where "readAddress ap rd b r = Some ((None, Some e), append_to b (pending r), r')"
      "e = ErrUnexpectedEOF \<or> e = final r" "rinv r'" "pending r' = []" "final r' = final r"
    unfolding readAddress_def by (rule with_full_short [OF assms(1,2) z, unfolded of_nat_1])
  then show ?thesis using Nil assms(2) by (simp add: spent_def)
next
  case (Cons t rest)
  have "0 < room b" using assms(3) by simp
  then obtain r' where r: "readAddress ap rd b r = read_by_type ap rd (append_to b [t]) r' t" "rinv r'"
    using readAddress_type [OF assms(1,2) Cons] by metis
  have "buf_inv (append_to b [t])" "256 \<le> room (append_to b [t])" using assms(2,3) by auto
  then obtain y where y: "read_by_type ap rd (append_to b [t]) r' t = Some y" "spent 256 (append_to b [t]) y"
    using read_by_type_total [OF r(2) _ _ assms(4,5)] by blast
  then show ?thesis using r(1) spent_append [OF y(2), of 257] by simp
qed

lemma read_addr_port_total:
  assumes "rinv r" "buf_inv b" "259 \<le> room b" "length (addrTypeMap ap) = 16"
    "set (addrTypeMap ap) \<subseteq> {afInvalid, AddressFamilyIPv4, AddressFamilyIPv6, AddressFamilyDomain}"
  shows "\<exists>res b' r'. read_addr_port ap rd b r = Some (res, b', r') \<and> buf_inv b' \<and> rinv r'"
proof (cases "portFirst ap")
  case True
  obtain port e b1 r1 where 1: "readPort rd b r = Some ((port, e), b1, r1)" "buf_inv b1" "rinv r1" "room b \<le> room b1 + 2"
    using readPort_total [OF assms(1,2)] assms(3) by (auto simp: spent_def)
  obtain addr e' b2 r2 where "readAddress ap rd b1 r1 = Some ((addr, e'), b2, r2)" "buf_inv b2" "rinv r2"
    using readAddress_total [OF 1(3,2) _ assms(4,5)] 1(4) assms(3) by (auto simp: spent_def)
  then show ?thesis using True 1(1-3) by (cases e; cases e') (simp_all add: read_addr_port_def)
next
  case False
  obtain addr e b1 r1 where 1: "readAddress ap rd b r = Some ((addr, e), b1, r1)" "buf_inv b1" "rinv r1" "room b \<le> room b1 + 257"
    using readAddress_total [OF assms(1,2) _ assms(4,5)] assms(3) by (auto simp: spent_def)
  obtain port e' b2 r2 where "readPort rd b1 r1 = Some ((port, e'), b2, r2)" "buf_inv b2" "rinv r2"
    using readPort_total [OF 1(3,2)] 1(4) assms(3) by (auto simp: spent_def)
  then show ?thesis using False 1(1-3) by (cases e; cases e') (simp_all add: read_addr_port_def)
qed

end

section \<open>The parser of mux frames and VLESS headers\<close>

text \<open>The package variable \<open>addrParser\<close> of \<open>common/mux/frame.go\<close> and \<open>proxy/vless/encoding/encoding.go\<close>, and its initialisation.\<close>

definition addrParser :: addressParser where
  "addrParser = \<lparr>addrTypeMap = [255, 0, 2, 1] @ replicate 12 255, addrByteMap = [1, 3, 2] @ replicate 13 255, portFirst = True\<rparr>"

lemma addrParser_init:
  "Option.bind (AddressFamilyByte 1 AddressFamilyIPv4) (\<lambda>o1.
   Option.bind (AddressFamilyByte 2 AddressFamilyDomain) (\<lambda>o2.
   Option.bind (AddressFamilyByte 3 AddressFamilyIPv6) (\<lambda>o3.
     NewAddressParser [o1, o2, o3, PortThenAddress]))) = Some addrParser"
  by code_simp

lemma addrParser_supports [simp]: "supports addrParser (Family a)"
  by (cases a) (simp_all add: addrParser_def supports_def AddressFamilyIPv4_def AddressFamilyDomain_def AddressFamilyIPv6_def)

lemma addrParser_ok:
  "length (addrTypeMap addrParser) = 16"
  "set (addrTypeMap addrParser) \<subseteq> {afInvalid, AddressFamilyIPv4, AddressFamilyIPv6, AddressFamilyDomain}"
  by (simp_all add: addrParser_def AddressFamilyIPv4_def AddressFamilyDomain_def AddressFamilyIPv6_def afInvalid_def)

section \<open>Properties\<close>

lemma addr_bytes_length: "encodable a \<Longrightarrow> length (addr_port_bytes ap a port) \<le> 259"
  by (cases a) (auto simp: addr_port_bytes_def addr_bytes_def encodable_def)

text \<open>
  What \<open>WriteAddressPort\<close> writes, \<open>ReadAddressPort\<close> reads back: for every parser that knows the address family, in
  both field orders, however the stream is cut by the network, the same address and port come back and exactly
  the bytes written are consumed.
\<close>

theorem address_port_roundtrip:
  assumes "supports ap (Family a)" "encodable a" "pool_ok p" "New p = (b, p1)"
  shows "\<exists>b'. WriteAddressPort ap Buffer_Write b (Some a) port = Some (None, b')
    \<and> (\<forall>c rest. concat (chunks c) = content b' @ rest \<longrightarrow>
         (\<exists>c' p'. ReadAddressPort ap conn_read None c p = Some ((Some a, port, None), None, c', p')
            \<and> concat (chunks c') = rest))"
proof -
  have b: "buf_inv b" "content b = []" "room b = 8192" using New_ok [OF assms(3)] assms(4) by auto
  have l: "length (addr_port_bytes ap a port) \<le> room b" using addr_bytes_length [OF assms(2), of ap port] b(3) by simp
  have d: "\<forall>d. a = domainAddress d \<longrightarrow> length d \<le> 256" using assms(2) by (auto simp: encodable_def)
  let ?b = "append_to b (addr_port_bytes ap a port)"
  have w: "WriteAddressPort ap Buffer_Write b (Some a) port = Some (None, ?b)"
    by (rule WriteAddressPort_ok [OF assms(1) d b(1) l])
  have "\<exists>c' p'. ReadAddressPort ap conn_read None c p = Some ((Some a, port, None), None, c', p') \<and> concat (chunks c') = rest"
    if c: "concat (chunks c) = content ?b @ rest" for c rest
  proof -
    have p: "concat (chunks c) = addr_port_bytes ap a port @ rest" using c b l by simp
    obtain c' where "read_addr_port ap conn_read b c = Some ((Some a, port, None), ?b, c')" "concat (chunks c') = rest"
      by (rule conn_rd.read_addr_port_ok [OF TrueI b(1) p assms(1,2) l]) blast
    then show ?thesis using assms(4) by (simp add: ReadAddressPort_def)
  qed
  then show ?thesis using w by blast
qed

theorem address_port_roundtrip_witness:
  "\<exists>b b' p1. New [] = (b, p1) \<and> WriteAddressPort addrParser Buffer_Write b (Some (ipv4Address [10, 0, 0, 1])) 443 = Some (None, b')
    \<and> (\<forall>c rest. concat (chunks c) = content b' @ rest \<longrightarrow>
         (\<exists>c' p'. ReadAddressPort addrParser conn_read None c [] = Some ((Some (ipv4Address [10, 0, 0, 1]), 443, None), None, c', p')
            \<and> concat (chunks c') = rest))"
proof -
  have "supports addrParser (Family (ipv4Address [10, 0, 0, 1]))" "encodable (ipv4Address [10, 0, 0, 1])" "pool_ok []"
    using addrParser_supports [of "ipv4Address [10, 0, 0, 1]"] by (simp_all add: encodable_def pool_ok_def)
  from address_port_roundtrip [OF this New_empty_pool, of 443] show ?thesis using New_empty_pool by blast
qed

text \<open>
  Reading an address never panics: whatever bytes arrive and however they end, \<open>ReadAddressPort\<close> returns an address or
  an error. The scratch buffer never overflows, no index leaves the type map, and no slice goes out of range.
\<close>

theorem read_address_never_panics:
  assumes "length (addrTypeMap ap) = 16" "pool_ok p"
    "set (addrTypeMap ap) \<subseteq> {afInvalid, AddressFamilyIPv4, AddressFamilyIPv6, AddressFamilyDomain}"
  shows "ReadAddressPort ap conn_read None c p \<noteq> None"
proof -
  obtain b p1 where b: "New p = (b, p1)" "buf_inv b" "room b = 8192" using New_ok [OF assms(2)] by auto
  have "259 \<le> room b" using b(3) by simp
  then show ?thesis using conn_rd.read_addr_port_total [OF TrueI b(2) _ assms(1,3), of c] b(1)
    by (auto simp: ReadAddressPort_def)
qed

theorem read_address_never_panics_witness:
  "ReadAddressPort addrParser conn_read None \<lparr>chunks = [[0, 80, 2], [200]], closing = EOF\<rparr> [] \<noteq> None"
  by (rule read_address_never_panics) (use addrParser_ok in \<open>simp_all add: pool_ok_def\<close>)

text \<open>
  The length check on domains is off by one: a domain of 256 bytes passes it, and its length is then written as the
  single byte 0, so the receiver sees an empty name followed by 256 stray bytes.
\<close>

theorem domain_of_256_bytes:
  assumes "supports ap AddressFamilyDomain" "length d = 256" "buf_inv b" "258 \<le> room b"
  shows "writeAddress ap Buffer_Write b (Some (domainAddress d))
    = Some (None, append_to b (type_byte ap (domainAddress d) # 0 # d))"
proof -
  have z: "(256 :: byte) = 0" by simp
  then show ?thesis
    using writeAddress_ok [of ap "domainAddress d" b] assms by (simp add: addr_bytes_def del: of_nat_numeral) (simp only: z of_nat_numeral)
qed

theorem domain_of_256_bytes_witness:
  "writeAddress addrParser Buffer_Write (Buffer_of (replicate 8192 0)) (Some (domainAddress (replicate 256 97)))
    = Some (None, append_to (Buffer_of (replicate 8192 0)) (type_byte addrParser (domainAddress (replicate 256 97)) # 0 # replicate 256 97))"
  by (rule domain_of_256_bytes) (use addrParser_supports [of "domainAddress []"] in simp_all)

end
