(* ===== verification/Mux_Frame.thy ===== *)
theory Mux_Frame
  imports Addr_Codec
begin

text \<open>
  \<open>common/mux/frame.go\<close>, \<open>reader.go\<close> and \<open>writer.go\<close>: the frames of a mux connection. A frame is a length-prefixed metadata
  block (session id, status, option, target) that may be followed by a length-prefixed block of data.
\<close>

section \<open>Metadata\<close>

definition SessionStatusNew :: byte where "SessionStatusNew = 1"
definition SessionStatusKeep :: byte where "SessionStatusKeep = 2"
definition SessionStatusEnd :: byte where "SessionStatusEnd = 3"
definition SessionStatusKeepAlive :: byte where "SessionStatusKeepAlive = 4"

definition OptionData :: byte where "OptionData = 1"
definition OptionError :: byte where "OptionError = 2"

definition TargetNetworkTCP :: byte where "TargetNetworkTCP = 1"
definition TargetNetworkUDP :: byte where "TargetNetworkUDP = 2"

text \<open>The two fields of \<open>session.Inbound\<close> a frame carries.\<close>

record Inbound =
  in_Source :: Destination
  in_Local :: Destination

definition zero_Inbound :: Inbound where
  "zero_Inbound = \<lparr>in_Source = zero_Destination, in_Local = zero_Destination\<rparr>"

record FrameMetadata =
  fm_Target :: Destination
  fm_SessionID :: "16 word"
  fm_Option :: byte
  fm_SessionStatus :: byte
  fm_GlobalID :: "byte list"
  fm_Inbound :: "Inbound option"

definition zero_meta :: FrameMetadata where
  "zero_meta = \<lparr>fm_Target = zero_Destination, fm_SessionID = 0, fm_Option = 0, fm_SessionStatus = 0,
     fm_GlobalID = replicate 8 0, fm_Inbound = None\<rparr>"

section \<open>Writing metadata\<close>

type_synonym buf_step = "Buffer \<Rightarrow> (goerr option \<times> Buffer) option"

text \<open>\<open>if err := ...; err != nil { return err }\<close> for the two kinds of writes to the buffer.\<close>

definition put_byte :: "byte \<Rightarrow> buf_step \<Rightarrow> buf_step" where
  "put_byte x k b = Option.bind (WriteByte b x) (\<lambda>(e, b'). case e of Some er \<Rightarrow> Some (Some er, b') | None \<Rightarrow> k b')"

definition put_addr :: "Destination \<Rightarrow> buf_step \<Rightarrow> buf_step" where
  "put_addr d k b =
     Option.bind (WriteAddressPort addrParser Buffer_Write b (d_Address d) (d_Port d)) (\<lambda>(e, b').
       case e of Some er \<Rightarrow> Some (Some er, b') | None \<Rightarrow> k b')"

definition is_tcp_udp :: "Network \<Rightarrow> bool" where
  "is_tcp_udp n \<longleftrightarrow> n = Network_TCP \<or> n = Network_UDP"

text \<open>\<open>byte(n - 1)\<close> of the protobuf number of a network.\<close>

definition net_byte :: "Network \<Rightarrow> byte" where
  "net_byte n = word_of_int (Network_value n - 1)"

definition ok_step :: buf_step where
  "ok_step b = Some (None, b)"

definition put_inbound :: "Inbound \<Rightarrow> buf_step" where
  "put_inbound i =
     (if is_tcp_udp (d_Network (in_Source i)) then
        put_byte (net_byte (d_Network (in_Source i))) (put_addr (in_Source i)
          (if is_tcp_udp (d_Network (in_Local i)) then
             put_byte (net_byte (d_Network (in_Local i))) (put_addr (in_Local i) ok_step)
           else ok_step))
      else ok_step)"

text \<open>The part after the option byte: errors of the UDP cases at the end are not looked at.\<close>

definition put_tail :: "FrameMetadata \<Rightarrow> buf_step" where
  "put_tail f b =
     (if fm_SessionStatus f = SessionStatusNew then
        (let net = (case d_Network (fm_Target f) of
               Network_TCP \<Rightarrow> put_byte TargetNetworkTCP
             | Network_UDP \<Rightarrow> put_byte TargetNetworkUDP
             | _ \<Rightarrow> (\<lambda>k. k))
         in net (put_addr (fm_Target f) (case fm_Inbound f of
              Some i \<Rightarrow> put_inbound i
            | None \<Rightarrow> (\<lambda>b'. if b_UDP b' \<noteq> None
                 then map_option (\<lambda>(_, b''). (None, b'')) (Write b' (fm_GlobalID f))
                 else Some (None, b')))) b)
      else (case b_UDP b of
              None \<Rightarrow> Some (None, b)
            | Some u \<Rightarrow> Option.bind (WriteByte b TargetNetworkUDP) (\<lambda>(_, b1).
                map_option (\<lambda>(_, b2). (None, b2)) (WriteAddressPort addrParser Buffer_Write b1 (d_Address u) (d_Port u)))))"

definition WriteTo :: "FrameMetadata \<Rightarrow> buf_step" where
  "WriteTo f b =
     Option.bind (Extend b 2) (\<lambda>(lenBytes, b0).
       let len0 = buf_Len b0
       in Option.bind (Extend b0 2) (\<lambda>(sessionBytes, b1).
         Option.bind
           (put_byte (fm_SessionStatus f) (put_byte (fm_Option f) (put_tail f))
             (put_at b1 (fst sessionBytes) (PutUint16 (fm_SessionID f)))) (\<lambda>(err, b2).
           case err of
             Some e \<Rightarrow> Some (Some e, b2)
           | None \<Rightarrow> Some (None, put_at b2 (fst lenBytes) (PutUint16 (word_of_int (buf_Len b2 - len0)))))))"

section \<open>Reading metadata\<close>

text \<open>One network byte that was read, the address and port after it, and the two errors of the place.\<close>

definition read_dest ::
  "byte \<Rightarrow> string \<Rightarrow> string \<Rightarrow> Buffer \<Rightarrow> pool \<Rightarrow> ((goerr + Destination) \<times> Buffer \<times> pool) option" where
  "read_dest network m1 m2 b p =
     map_option (\<lambda>((addr, port, err), _, b', p').
        ((case err of
            Some e \<Rightarrow> Inl (ENew m1 (Some e))
          | None \<Rightarrow>
              if network = TargetNetworkTCP then Inr (TCPDestination addr port)
              else if network = TargetNetworkUDP then Inr (UDPDestination addr port)
              else Inl (ENew m2 None)), b', p'))
       (ReadAddressPort addrParser Buffer_Read None b p)"

type_synonym meta_read = "(goerr option \<times> FrameMetadata \<times> Buffer \<times> pool) option"

definition set_source :: "Destination \<Rightarrow> FrameMetadata \<Rightarrow> FrameMetadata" where
  "set_source d f = f\<lparr>fm_Inbound := map_option (\<lambda>i. i\<lparr>in_Source := d\<rparr>) (fm_Inbound f)\<rparr>"

definition set_local :: "Destination \<Rightarrow> FrameMetadata \<Rightarrow> FrameMetadata" where
  "set_local d f = f\<lparr>fm_Inbound := map_option (\<lambda>i. i\<lparr>in_Local := d\<rparr>) (fm_Inbound f)\<rparr>"

text \<open>An optional address of the inbound: an empty rest or a zero byte ends the block.\<close>

definition read_opt_dest ::
  "string \<Rightarrow> string \<Rightarrow> (Destination \<Rightarrow> FrameMetadata \<Rightarrow> FrameMetadata)
   \<Rightarrow> (FrameMetadata \<Rightarrow> Buffer \<Rightarrow> pool \<Rightarrow> meta_read) \<Rightarrow> FrameMetadata \<Rightarrow> Buffer \<Rightarrow> pool \<Rightarrow> meta_read" where
  "read_opt_dest m1 m2 upd k f b p =
     (if buf_Len b = 0 then Some (None, f, b, p)
      else Option.bind (Byte b 0) (\<lambda>network.
        if network = 0 then Some (None, f, b, p)
        else Option.bind (read_dest network m1 m2 (Advance b 1) p) (\<lambda>(res, b', p').
          case res of
            Inl e \<Rightarrow> Some (Some e, f, b', p')
          | Inr d \<Rightarrow> k (upd d f) b' p')))"

definition read_inbound :: "FrameMetadata \<Rightarrow> Buffer \<Rightarrow> pool \<Rightarrow> meta_read" where
  "read_inbound f =
     read_opt_dest ''reading source: failed to parse address and port'' ''reading source: unknown network type: '' set_source
       (read_opt_dest ''reading local: failed to parse address and port'' ''reading local: unknown network type: '' set_local
         (\<lambda>f' b' p'. Some (None, f', b', p')))
       (f\<lparr>fm_Inbound := Some zero_Inbound\<rparr>)"

text \<open>\<open>copy(f.GlobalID[:], b.Bytes())\<close> copies at most eight bytes.\<close>

definition read_rest :: "bool \<Rightarrow> FrameMetadata \<Rightarrow> Buffer \<Rightarrow> pool \<Rightarrow> meta_read" where
  "read_rest readSourceAndLocal f b p =
     (if fm_SessionStatus f = SessionStatusNew \<and> readSourceAndLocal then read_inbound f b p
      else if fm_SessionStatus f = SessionStatusNew \<and> fm_Option f AND OptionData \<noteq> 0
           \<and> d_Network (fm_Target f) = Network_UDP \<and> buf_Len b \<ge> 8
      then map_option (\<lambda>bs. (None, f\<lparr>fm_GlobalID := overwrite (fm_GlobalID f) 0 (take 8 bs)\<rparr>, b, p)) (Bytes b)
      else Some (None, f, b, p))"

text \<open>The condition on which a target follows; the network byte is looked at only when it is there.\<close>

definition has_target :: "FrameMetadata \<Rightarrow> Buffer \<Rightarrow> bool option" where
  "has_target f b =
     (if fm_SessionStatus f = SessionStatusNew then Some True
      else if fm_SessionStatus f = SessionStatusKeep \<and> buf_Len b > 4
           then map_option (\<lambda>x. x = TargetNetworkUDP) (Byte b 4)
           else Some False)"

definition read_target :: "bool \<Rightarrow> FrameMetadata \<Rightarrow> Buffer \<Rightarrow> pool \<Rightarrow> meta_read" where
  "read_target sl f b p =
     Option.bind (has_target f b) (\<lambda>t.
       if \<not> t then read_rest sl f b p
       else if buf_Len b < 8 then Some (Some (ENew ''insufficient buffer: '' None), f, b, p)
       else Option.bind (Byte b 4) (\<lambda>network.
         Option.bind (read_dest network ''failed to parse address and port'' ''unknown network type: '' (Advance b 5) p) (\<lambda>(res, b', p').
           case res of
             Inl e \<Rightarrow> Some (Some e, f, b', p')
           | Inr d \<Rightarrow> read_rest sl (f\<lparr>fm_Target := d\<rparr>) b' p')))"

definition UnmarshalFromBuffer :: "FrameMetadata \<Rightarrow> Buffer \<Rightarrow> bool \<Rightarrow> pool \<Rightarrow> meta_read" where
  "UnmarshalFromBuffer f b sl p =
     (if buf_Len b < 4 then Some (Some (ENew ''insufficient buffer: '' None), f, b, p)
      else Option.bind (BytesTo b 2) (\<lambda>x. Option.bind (Uint16 x) (\<lambda>sid.
        Option.bind (Byte b 2) (\<lambda>st. Option.bind (Byte b 3) (\<lambda>opt.
          read_target sl (f\<lparr>fm_SessionID := sid, fm_SessionStatus := st, fm_Option := opt,
             fm_Target := (fm_Target f)\<lparr>d_Network := Network_Unknown\<rparr>\<rparr>) b p)))))"

definition Unmarshal ::
  "'r io_read \<Rightarrow> FrameMetadata \<Rightarrow> 'r \<Rightarrow> bool \<Rightarrow> pool \<Rightarrow> (goerr option \<times> FrameMetadata \<times> 'r \<times> pool) option" where
  "Unmarshal rd f r sl p =
     Option.bind (ReadFull rd r 2) (\<lambda>(lenBytes, err, r1).
       case err of
         Some e \<Rightarrow> Some (Some e, f, r1, p)
       | None \<Rightarrow> Option.bind (Uint16 lenBytes) (\<lambda>metaLen.
           if metaLen > 512 then Some (Some (ENew ''invalid metalen '' None), f, r1, p)
           else (case New p of (b, p1) \<Rightarrow>
             Option.bind (ReadFullFrom rd b r1 (uint metaLen)) (\<lambda>x. case x of ((_, err), b1, r2) \<Rightarrow>
               (case err of
                  Some e \<Rightarrow> Some (Some e, f, r2, snd (Release (Some b1) p1))
                | None \<Rightarrow> map_option (\<lambda>(e, f', b2, p2). (e, f', r2, snd (Release (Some b2) p2)))
                    (UnmarshalFromBuffer f b1 sl p1))))))"

section \<open>Packets\<close>

record 'r PacketReader =
  pk_reader :: 'r
  pk_eof :: bool
  pk_dest :: "Destination option"

definition NewPacketReader :: "'r \<Rightarrow> Destination option \<Rightarrow> 'r PacketReader" where
  "NewPacketReader r dest = \<lparr>pk_reader = r, pk_eof = False, pk_dest = dest\<rparr>"

definition PK_ReadMultiBuffer :: "'r io_read \<Rightarrow> ('r PacketReader) mb_read" where
  "PK_ReadMultiBuffer rd s p =
     (if pk_eof s then Some ([], Some EOF, s, p)
      else Option.bind (ReadFull rd (pk_reader s) 2) (\<lambda>(sizeBytes, err, r1).
        case err of
          Some e \<Rightarrow> Some ([], Some e, s\<lparr>pk_reader := r1\<rparr>, p)
        | None \<Rightarrow> Option.bind (Uint16 sizeBytes) (\<lambda>sz.
            if uint sz > Size then Some ([], Some (ENew ''packet size too large: '' None), s\<lparr>pk_reader := r1\<rparr>, p)
            else (case New p of (b, p1) \<Rightarrow>
              Option.bind (ReadFullFrom rd b r1 (uint sz)) (\<lambda>x. case x of ((_, err), b1, r2) \<Rightarrow>
                (case err of
                   Some e \<Rightarrow> Some ([], Some e, s\<lparr>pk_reader := r2\<rparr>, snd (Release (Some b1) p1))
                 | None \<Rightarrow>
                     Some ([Some (case pk_dest s of
                              Some d \<Rightarrow> if d_Network d = Network_UDP then b1\<lparr>b_UDP := Some d\<rparr> else b1
                            | None \<Rightarrow> b1)],
                           None, s\<lparr>pk_reader := r2, pk_eof := True\<rparr>, p1)))))))"

definition NewStreamReader :: "'r bufreader \<Rightarrow> 'r chunkreader" where
  "NewStreamReader r = NewChunkStreamReaderWithChunkCount r 1"

section \<open>Writing frames\<close>

record 'w MuxWriter =
  mw_dest :: Destination
  mw_writer :: 'w
  mw_id :: "16 word"
  mw_followup :: bool
  mw_hasError :: bool
  mw_transferType :: TransferType
  mw_globalID :: "byte list"
  mw_inbound :: "Inbound option"

definition NewMuxWriter :: "16 word \<Rightarrow> Destination \<Rightarrow> 'w \<Rightarrow> TransferType \<Rightarrow> byte list \<Rightarrow> Inbound option \<Rightarrow> 'w MuxWriter" where
  "NewMuxWriter i dest w tt gid inb = \<lparr>mw_dest = dest, mw_writer = w, mw_id = i, mw_followup = False, mw_hasError = False,
     mw_transferType = tt, mw_globalID = gid, mw_inbound = inb\<rparr>"

definition NewResponseWriter :: "16 word \<Rightarrow> 'w \<Rightarrow> TransferType \<Rightarrow> 'w MuxWriter" where
  "NewResponseWriter i w tt = \<lparr>mw_dest = zero_Destination, mw_writer = w, mw_id = i, mw_followup = True, mw_hasError = False,
     mw_transferType = tt, mw_globalID = replicate 8 0, mw_inbound = None\<rparr>"

definition getNextFrameMeta :: "'w MuxWriter \<Rightarrow> FrameMetadata \<times> 'w MuxWriter" where
  "getNextFrameMeta w =
     (let m = zero_meta\<lparr>fm_SessionID := mw_id w, fm_Target := mw_dest w, fm_GlobalID := mw_globalID w, fm_Inbound := mw_inbound w\<rparr>
      in if mw_followup w then (m\<lparr>fm_SessionStatus := SessionStatusKeep\<rparr>, w)
         else (m\<lparr>fm_SessionStatus := SessionStatusNew\<rparr>, w\<lparr>mw_followup := True\<rparr>))"

definition mw_send :: "'w mb_write \<Rightarrow> 'w MuxWriter \<Rightarrow> MultiBuffer \<Rightarrow> pool \<Rightarrow> (goerr option \<times> 'w MuxWriter \<times> pool) option" where
  "mw_send wmb w mb p = map_option (\<lambda>(e, w', p'). (e, w\<lparr>mw_writer := w'\<rparr>, p')) (wmb (mw_writer w) mb p)"

definition writeMetaOnly :: "'w mb_write \<Rightarrow> 'w MuxWriter \<Rightarrow> pool \<Rightarrow> (goerr option \<times> 'w MuxWriter \<times> pool) option" where
  "writeMetaOnly wmb w p =
     (case getNextFrameMeta w of (m, w1) \<Rightarrow> (case New p of (b, p1) \<Rightarrow>
       Option.bind (WriteTo m b) (\<lambda>(err, b').
         case err of Some e \<Rightarrow> Some (Some e, w1, p1) | None \<Rightarrow> mw_send wmb w1 [Some b'] p1)))"

text \<open>The frame for metadata and data; a nil first buffer of the data makes \<open>data[0].UDP\<close> panic.\<close>

definition meta_frame :: "FrameMetadata \<Rightarrow> MultiBuffer \<Rightarrow> pool \<Rightarrow> (goerr option \<times> Buffer \<times> pool) option" where
  "meta_frame m dat p =
     (case New p of (b, p1) \<Rightarrow>
       Option.bind (if length dat = 1 then Option.bind (hd dat) (\<lambda>d0. Some (b\<lparr>b_UDP := b_UDP d0\<rparr>)) else Some b) (\<lambda>fr.
         Option.bind (WriteTo m fr) (\<lambda>(err, fr1).
           case err of
             Some e \<Rightarrow> Some (Some e, fr1, p1)
           | None \<Rightarrow> map_option (\<lambda>((_, e), fr2). (e, fr2, p1)) (Write fr1 (PutUint16 (word_of_int (MB_Len dat)))))))"

definition writeMetaWithFrame ::
  "'w mb_write \<Rightarrow> 'w MuxWriter \<Rightarrow> FrameMetadata \<Rightarrow> MultiBuffer \<Rightarrow> pool \<Rightarrow> (goerr option \<times> 'w MuxWriter \<times> pool) option" where
  "writeMetaWithFrame wmb w m dat p =
     Option.bind (meta_frame m dat p) (\<lambda>(err, fr, p1).
       case err of Some e \<Rightarrow> Some (Some e, w, p1) | None \<Rightarrow> mw_send wmb w (Some fr # dat) p1)"

definition writeData :: "'w mb_write \<Rightarrow> 'w MuxWriter \<Rightarrow> MultiBuffer \<Rightarrow> pool \<Rightarrow> (goerr option \<times> 'w MuxWriter \<times> pool) option" where
  "writeData wmb w mb p =
     (case getNextFrameMeta w of (m, w1) \<Rightarrow> writeMetaWithFrame wmb w1 (m\<lparr>fm_Option := fm_Option m OR OptionData\<rparr>) mb p)"

text \<open>One chunk: at most 8 KiB of a stream, one buffer of a packet flow.\<close>

definition next_chunk :: "TransferType \<Rightarrow> MultiBuffer \<Rightarrow> pool \<Rightarrow> (MultiBuffer \<times> MultiBuffer \<times> pool) option" where
  "next_chunk tt mb p =
     (if tt = TransferTypeStream then SplitSize p mb 8192
      else (case SplitFirst mb of (mb2, b) \<Rightarrow> Some (mb2, [b], p)))"

partial_function (option) MW_loop ::
  "'w mb_write \<Rightarrow> 'w MuxWriter \<Rightarrow> MultiBuffer \<Rightarrow> pool \<Rightarrow> (goerr option \<times> 'w MuxWriter \<times> pool) option"
where
  "MW_loop wmb w mb p =
     (if MB_IsEmpty mb then Some (None, w, snd (ReleaseMulti mb p))
      else Option.bind (next_chunk (mw_transferType w) mb p) (\<lambda>(mb', chunk, p1).
        Option.bind (writeData wmb w chunk p1) (\<lambda>(err, w1, p2).
          case err of
            Some e \<Rightarrow> Some (Some e, w1, snd (ReleaseMulti mb' p2))
          | None \<Rightarrow> MW_loop wmb w1 mb' p2)))"

definition MW_WriteMultiBuffer ::
  "'w mb_write \<Rightarrow> 'w MuxWriter \<Rightarrow> MultiBuffer \<Rightarrow> pool \<Rightarrow> (goerr option \<times> 'w MuxWriter \<times> pool) option" where
  "MW_WriteMultiBuffer wmb w mb p =
     (if MB_IsEmpty mb then map_option (\<lambda>(e, w', p'). (e, w', snd (ReleaseMulti mb p'))) (writeMetaOnly wmb w p)
      else MW_loop wmb w mb p)"

definition MW_Close :: "'w mb_write \<Rightarrow> 'w MuxWriter \<Rightarrow> pool \<Rightarrow> (goerr option \<times> 'w MuxWriter \<times> pool) option" where
  "MW_Close wmb w p =
     (let m = zero_meta\<lparr>fm_SessionID := mw_id w, fm_SessionStatus := SessionStatusEnd,
                fm_Option := (if mw_hasError w then OptionError else 0)\<rparr>
      in case New p of (b, p1) \<Rightarrow>
        Option.bind (WriteTo m b) (\<lambda>(err, b').
          case err of
            Some e \<Rightarrow> Some (Some e, w, p1)
          | None \<Rightarrow> map_option (\<lambda>(_, w', p'). (None, w', p')) (mw_send wmb w [Some b'] p1)))"

section \<open>What a frame looks like on the wire\<close>

definition dest_ok :: "Destination \<Rightarrow> bool" where
  "dest_ok d \<longleftrightarrow> (\<exists>a. d_Address d = Some a \<and> encodable a)"

definition dest_bytes :: "Destination \<Rightarrow> byte list" where
  "dest_bytes d = (case d_Address d of None \<Rightarrow> [] | Some a \<Rightarrow> addr_port_bytes addrParser a (d_Port d))"

definition inbound_bytes :: "Inbound \<Rightarrow> byte list" where
  "inbound_bytes i =
     (if is_tcp_udp (d_Network (in_Source i)) then
        net_byte (d_Network (in_Source i)) # dest_bytes (in_Source i)
          @ (if is_tcp_udp (d_Network (in_Local i)) then net_byte (d_Network (in_Local i)) # dest_bytes (in_Local i) else [])
      else [])"

definition tail_bytes :: "FrameMetadata \<Rightarrow> Destination option \<Rightarrow> byte list" where
  "tail_bytes f udp =
     (if fm_SessionStatus f = SessionStatusNew then
        net_byte (d_Network (fm_Target f)) # dest_bytes (fm_Target f)
          @ (case fm_Inbound f of
               Some i \<Rightarrow> inbound_bytes i
             | None \<Rightarrow> if udp \<noteq> None then fm_GlobalID f else [])
      else (case udp of Some u \<Rightarrow> TargetNetworkUDP # dest_bytes u | None \<Rightarrow> []))"

definition meta_bytes :: "FrameMetadata \<Rightarrow> Destination option \<Rightarrow> byte list" where
  "meta_bytes f udp = PutUint16 (fm_SessionID f) @ [fm_SessionStatus f, fm_Option f] @ tail_bytes f udp"

text \<open>Metadata that the format can carry.\<close>

definition meta_ok :: "FrameMetadata \<Rightarrow> Destination option \<Rightarrow> bool" where
  "meta_ok f udp \<longleftrightarrow>
     (fm_SessionStatus f = SessionStatusNew \<longrightarrow> is_tcp_udp (d_Network (fm_Target f)) \<and> dest_ok (fm_Target f)
        \<and> length (fm_GlobalID f) = 8
        \<and> (\<forall>i. fm_Inbound f = Some i \<longrightarrow> is_tcp_udp (d_Network (in_Source i)) \<longrightarrow> dest_ok (in_Source i)
              \<and> (is_tcp_udp (d_Network (in_Local i)) \<longrightarrow> dest_ok (in_Local i))))
     \<and> (fm_SessionStatus f \<noteq> SessionStatusNew \<longrightarrow> (\<forall>u. udp = Some u \<longrightarrow> dest_ok u))"

lemma net_byte_simps [simp]: "net_byte Network_TCP = TargetNetworkTCP" "net_byte Network_UDP = TargetNetworkUDP"
  by (simp_all add: net_byte_def TargetNetworkTCP_def TargetNetworkUDP_def)

lemma put_byte_ok [simp]:
  "buf_inv b \<Longrightarrow> 0 < room b \<Longrightarrow> put_byte x k b = k (append_to b [x])"
  by (simp add: put_byte_def WriteByte_room)

lemma WriteAddressPort_dest:
  assumes "dest_ok d" "buf_inv b" "length (dest_bytes d) \<le> room b"
  shows "WriteAddressPort addrParser Buffer_Write b (d_Address d) (d_Port d) = Some (None, append_to b (dest_bytes d))"
proof -
  obtain a where a: "d_Address d = Some a" "encodable a" using assms(1) by (auto simp: dest_ok_def)
  have "\<forall>x. a = domainAddress x \<longrightarrow> length x \<le> 256" using a(2) by (auto simp: encodable_def)
  then show ?thesis using a assms WriteAddressPort_ok [of addrParser a b "d_Port d"] by (simp add: dest_bytes_def)
qed

lemma put_addr_ok [simp]:
  "dest_ok d \<Longrightarrow> buf_inv b \<Longrightarrow> length (dest_bytes d) \<le> room b \<Longrightarrow> put_addr d k b = k (append_to b (dest_bytes d))"
  by (simp add: put_addr_def WriteAddressPort_dest)

lemma put_inbound_ok:
  assumes "buf_inv b" "length (inbound_bytes i) \<le> room b"
    "is_tcp_udp (d_Network (in_Source i)) \<longrightarrow> dest_ok (in_Source i) \<and> (is_tcp_udp (d_Network (in_Local i)) \<longrightarrow> dest_ok (in_Local i))"
  shows "put_inbound i b = Some (None, append_to b (inbound_bytes i))"
  using assms by (simp add: put_inbound_def inbound_bytes_def ok_step_def split: if_splits)

lemma put_tail_ok:
  assumes "meta_ok f (b_UDP b)" "buf_inv b" "length (tail_bytes f (b_UDP b)) \<le> room b"
  shows "put_tail f b = Some (None, append_to b (tail_bytes f (b_UDP b)))"
proof (cases "fm_SessionStatus f = SessionStatusNew")
  case True
  have m: "is_tcp_udp (d_Network (fm_Target f))" "dest_ok (fm_Target f)"
    "\<And>i. fm_Inbound f = Some i \<Longrightarrow> is_tcp_udp (d_Network (in_Source i)) \<longrightarrow> dest_ok (in_Source i)
      \<and> (is_tcp_udp (d_Network (in_Local i)) \<longrightarrow> dest_ok (in_Local i))"
    using assms(1) True by (auto simp: meta_ok_def)
  have net: "put_tail f b = put_byte (net_byte (d_Network (fm_Target f))) (put_addr (fm_Target f) (case fm_Inbound f of
              Some i \<Rightarrow> put_inbound i
            | None \<Rightarrow> (\<lambda>b'. if b_UDP b' \<noteq> None
                 then map_option (\<lambda>(_, b''). (None, b'')) (Write b' (fm_GlobalID f))
                 else Some (None, b')))) b"
    using m(1) True by (auto simp: put_tail_def is_tcp_udp_def)
  show ?thesis
  proof (cases "fm_Inbound f")
    case None
    then show ?thesis using net assms(2,3) True m(2) by (cases "b_UDP b") (simp_all add: tail_bytes_def Write_fits)
  next
    case (Some i)
    then show ?thesis using net assms(2,3) True m(2) m(3) [OF Some] by (simp add: tail_bytes_def put_inbound_ok)
  qed
next
  case False
  then show ?thesis using assms
    by (cases "b_UDP b") (simp_all add: put_tail_def tail_bytes_def meta_ok_def WriteByte_room WriteAddressPort_dest)
qed

lemma overwrite_again: "n \<le> length a \<Longrightarrow> length e = length d \<Longrightarrow> overwrite (overwrite a n (d @ x)) n e = overwrite a n (e @ x)"
  by (simp add: overwrite_def)

lemma put_at_appended:
  assumes "buf_inv b" "length e = length d"
  shows "put_at (append_to b (d @ x)) (b_end b) e = append_to b (e @ x)"
proof -
  have "nat (b_end b) \<le> length (b_arr b)" using assms(1) by (auto simp: buf_inv_def)
  then show ?thesis using assms
    by (cases "b_v b") (simp_all add: put_at_def append_to_def overwrite_again b_arr_def)
qed

lemma WriteTo_ok:
  assumes "meta_ok f (b_UDP b)" "buf_inv b" "2 + length (meta_bytes f (b_UDP b)) \<le> room b"
  shows "WriteTo f b = Some (None, append_to b (PutUint16 (word_of_nat (length (meta_bytes f (b_UDP b)))) @ meta_bytes f (b_UDP b)))"
proof -
  let ?b0 = "append_to b [0, 0]"
  let ?m = "meta_bytes f (b_UDP b)"
  let ?h = "PutUint16 (fm_SessionID f)"
  have rm: "6 + length (tail_bytes f (b_UDP b)) \<le> room b" using assms(3) by (simp add: meta_bytes_def)
  have e0: "Extend b 2 = Some ((b_end b, b_end b + 2), ?b0)"
    using Extend_room [of b 2] assms(2) rm by (simp add: numeral_2_eq_2)
  have i0: "buf_inv ?b0" "b_UDP ?b0 = b_UDP b" using assms(2) rm by auto
  have e1: "Extend ?b0 2 = Some ((b_end ?b0, b_end ?b0 + 2), append_to ?b0 [0, 0])"
    using Extend_room [of ?b0 2] i0 rm by (simp add: numeral_2_eq_2)
  have sid: "put_at (append_to ?b0 [0, 0]) (b_end ?b0) ?h = append_to ?b0 ?h"
    using put_at_appended [OF i0(1), of ?h "[0, 0]" "[]"] by simp
  have i1: "buf_inv (append_to ?b0 ?h)" "b_UDP (append_to ?b0 ?h) = b_UDP b" using assms(2) rm by auto
  have body: "put_byte (fm_SessionStatus f) (put_byte (fm_Option f) (put_tail f)) (append_to ?b0 ?h) = Some (None, append_to ?b0 ?m)"
    using assms(1,2) rm by (simp add: put_tail_ok meta_bytes_def)
  have i2: "buf_inv (append_to ?b0 ?m)" "content (append_to ?b0 ?m) = content ?b0 @ ?m"
    using i0 assms(2,3) by auto
  have len: "buf_Len (append_to ?b0 ?m) - buf_Len ?b0 = int (length ?m)"
    using i0(1) i2 by (simp add: buf_Len_content)
  have fin: "put_at (append_to ?b0 ?m) (b_end b) (PutUint16 w) = append_to b (PutUint16 w @ ?m)" for w
    using put_at_appended [OF assms(2), of "PutUint16 w" "[0, 0]" ?m] assms(2) by simp
  show ?thesis
    unfolding WriteTo_def e0
    by (simp del: append_to_append_to append_to_sel of_int_diff add: Let_def e1 sid body len fin)
qed

section \<open>What the receiver gets\<close>

definition recv_dest :: "Destination \<Rightarrow> Destination" where
  "recv_dest d = (if d_Network d = Network_TCP then TCPDestination (d_Address d) (d_Port d) else UDPDestination (d_Address d) (d_Port d))"

lemma recv_dest_id: "is_tcp_udp (d_Network d) \<Longrightarrow> recv_dest d = d"
  by (auto simp: recv_dest_def is_tcp_udp_def TCPDestination_def UDPDestination_def)

definition recv_inbound :: "Inbound \<Rightarrow> Inbound" where
  "recv_inbound i =
     (if is_tcp_udp (d_Network (in_Source i))
      then \<lparr>in_Source = in_Source i,
            in_Local = (if is_tcp_udp (d_Network (in_Local i)) then in_Local i else zero_Destination)\<rparr>
      else zero_Inbound)"

text \<open>The metadata after \<open>Unmarshal\<close> into a zero struct.\<close>

definition received :: "FrameMetadata \<Rightarrow> Destination option \<Rightarrow> bool \<Rightarrow> FrameMetadata" where
  "received f udp sl =
     (let new = (fm_SessionStatus f = SessionStatusNew)
      in \<lparr>fm_Target = (if new then fm_Target f
                      else if fm_SessionStatus f = SessionStatusKeep \<and> udp \<noteq> None
                      then UDPDestination (d_Address (the udp)) (d_Port (the udp)) else zero_Destination),
         fm_SessionID = fm_SessionID f, fm_Option = fm_Option f, fm_SessionStatus = fm_SessionStatus f,
         fm_GlobalID = (if new \<and> \<not> sl \<and> udp \<noteq> None \<and> fm_Option f AND OptionData \<noteq> 0 \<and> d_Network (fm_Target f) = Network_UDP
                        then fm_GlobalID f else replicate 8 0),
         fm_Inbound = (if new \<and> sl then map_option recv_inbound (fm_Inbound f) else None)\<rparr>)"

lemma target_bytes_distinct [simp]: "TargetNetworkTCP \<noteq> TargetNetworkUDP" "TargetNetworkUDP \<noteq> TargetNetworkTCP"
  "TargetNetworkTCP \<noteq> 0" "TargetNetworkUDP \<noteq> 0"
  by (simp_all add: TargetNetworkTCP_def TargetNetworkUDP_def)

lemma read_dest_ok:
  assumes "is_tcp_udp n" "dest_ok d" "buf_inv b" "content b = dest_bytes d @ rest" "pool_ok p"
  obtains b' p' where "read_dest (net_byte n) m1 m2 b p = Some (Inr (d\<lparr>d_Network := n\<rparr>), b', p')"
    "buf_inv b'" "content b' = rest" "pool_ok p'"
proof -
  obtain a where a: "d_Address d = Some a" "encodable a" using assms(2) by (auto simp: dest_ok_def)
  obtain sb p1 where n: "New p = (sb, p1)" "buf_inv sb" "room sb = 8192" "pool_ok p1" using New_ok [OF assms(5)] by auto
  have c: "content b = addr_port_bytes addrParser a (d_Port d) @ rest" using assms(4) a(1) by (simp add: dest_bytes_def)
  have l: "length (addr_port_bytes addrParser a (d_Port d)) \<le> room sb"
    using addr_bytes_length [OF a(2), of addrParser "d_Port d"] n(3) by simp
  obtain b' where r: "read_addr_port addrParser Buffer_Read sb b
      = Some ((Some a, d_Port d, None), append_to sb (addr_port_bytes addrParser a (d_Port d)), b')" "buf_inv b'" "content b' = rest" "EOF = EOF"
    by (rule buffer_rd.read_addr_port_ok [OF assms(3) n(2) c addrParser_supports a(2) l])
  have "read_dest (net_byte n) m1 m2 b p = Some (Inr (d\<lparr>d_Network := n\<rparr>), b',
      snd (Release (Some (append_to sb (addr_port_bytes addrParser a (d_Port d)))) p1))"
    using r(1) n(1) assms(1) a(1)
    by (cases d) (auto simp: read_dest_def ReadAddressPort_def is_tcp_udp_def TCPDestination_def UDPDestination_def)
  then show ?thesis by (rule that [OF _ r(2,3) Release_pool_ok [OF n(4)]])
qed

lemma read_opt_dest_none:
  "buf_inv b \<Longrightarrow> content b = [] \<Longrightarrow> read_opt_dest m1 m2 upd k f b p = Some (None, f, b, p)"
  by (simp add: read_opt_dest_def buf_Len_content)

lemma read_opt_dest_ok:
  assumes "is_tcp_udp (d_Network d)" "dest_ok d" "buf_inv b" "content b = net_byte (d_Network d) # dest_bytes d @ rest" "pool_ok p"
  obtains b' p' where "read_opt_dest m1 m2 upd k f b p = k (upd d f) b' p'" "buf_inv b'" "content b' = rest" "pool_ok p'"
proof -
  have x: "Byte b 0 = Some (net_byte (d_Network d))" using Byte_content [OF assms(3), of 0] assms(4) by simp
  have adv: "Advance b 1 = consume b 1" using Advance_content [OF assms(3), of 1] assms(4) by simp
  have c: "buf_inv (consume b 1)" "content (consume b 1) = dest_bytes d @ rest" using assms(3,4) by simp_all
  obtain b' p' where r: "read_dest (net_byte (d_Network d)) m1 m2 (consume b 1) p = Some (Inr (d\<lparr>d_Network := d_Network d\<rparr>), b', p')"
    "buf_inv b'" "content b' = rest" "pool_ok p'"
    by (rule read_dest_ok [OF assms(1,2) c assms(5)])
  have "net_byte (d_Network d) \<noteq> 0" "buf_Len b \<noteq> 0" using assms(1,3,4) by (auto simp: is_tcp_udp_def buf_Len_content)
  then show ?thesis using r x adv by (intro that [of b' p']) (simp_all add: read_opt_dest_def)
qed

lemma read_inbound_ok:
  assumes "buf_inv b" "content b = inbound_bytes i" "pool_ok p"
    "is_tcp_udp (d_Network (in_Source i)) \<longrightarrow> dest_ok (in_Source i) \<and> (is_tcp_udp (d_Network (in_Local i)) \<longrightarrow> dest_ok (in_Local i))"
  obtains b' p' where "read_inbound f b p = Some (None, f\<lparr>fm_Inbound := Some (recv_inbound i)\<rparr>, b', p')" "pool_ok p'"
proof (cases "is_tcp_udp (d_Network (in_Source i))")
  case False
  then have "content b = []" using assms(2) by (simp add: inbound_bytes_def)
  then show ?thesis using that [of b p] assms False
    by (simp add: read_inbound_def read_opt_dest_none recv_inbound_def)
next
  case True
  let ?f = "f\<lparr>fm_Inbound := Some zero_Inbound\<rparr>"
  let ?k = "read_opt_dest ''reading local: failed to parse address and port'' ''reading local: unknown network type: '' set_local
         (\<lambda>f' b' p'. Some (None, f', b', p'))"
  have ds: "dest_ok (in_Source i)" using assms(4) True by simp
  have c: "content b = net_byte (d_Network (in_Source i)) # dest_bytes (in_Source i)
      @ (if is_tcp_udp (d_Network (in_Local i)) then net_byte (d_Network (in_Local i)) # dest_bytes (in_Local i) else [])"
    using assms(2) True by (simp add: inbound_bytes_def)
  obtain b1 p1 where s: "read_inbound f b p = ?k (set_source (in_Source i) ?f) b1 p1" "buf_inv b1"
    "content b1 = (if is_tcp_udp (d_Network (in_Local i)) then net_byte (d_Network (in_Local i)) # dest_bytes (in_Local i) else [])" "pool_ok p1"
    unfolding read_inbound_def by (rule read_opt_dest_ok [OF True ds assms(1) c assms(3)])
  show ?thesis
  proof (cases "is_tcp_udp (d_Network (in_Local i))")
    case False
    then show ?thesis using s that [of b1 p1] True
      by (simp add: read_opt_dest_none recv_inbound_def set_source_def zero_Inbound_def)
  next
    case l: True
    have dl: "dest_ok (in_Local i)" using assms(4) True l by simp
    have c1: "content b1 = net_byte (d_Network (in_Local i)) # dest_bytes (in_Local i) @ []" using s(3) l by simp
    obtain b2 p2 where "?k (set_source (in_Source i) ?f) b1 p1 = Some (None, set_local (in_Local i) (set_source (in_Source i) ?f), b2, p2)"
      "buf_inv b2" "content b2 = []" "pool_ok p2"
      by (rule read_opt_dest_ok [OF l dl s(2) c1 s(4)])
    then show ?thesis using s(1) True l that [of b2 p2]
      by (simp add: recv_inbound_def set_source_def set_local_def zero_Inbound_def)
  qed
qed

lemma dest_bytes_length:
  assumes "dest_ok d"
  shows "5 \<le> length (dest_bytes d)"
proof -
  obtain a where "d_Address d = Some a" "encodable a" using assms by (auto simp: dest_ok_def)
  then show ?thesis
    by (cases a) (auto simp: dest_bytes_def addr_port_bytes_def addr_bytes_def encodable_def length_greater_0_conv [symmetric]
      simp del: length_greater_0_conv)
qed

text \<open>What follows the target: the inbound or the global id, as the mode of the receiver says.\<close>

lemma read_rest_new:
  assumes "fm_SessionStatus g = SessionStatusNew" "length (fm_GlobalID g) = 8" "fm_Inbound g = None"
    "sl \<longleftrightarrow> fm_Inbound f \<noteq> None" "buf_inv b" "pool_ok p" "length (fm_GlobalID f) = 8"
    "content b = (case fm_Inbound f of Some i \<Rightarrow> inbound_bytes i | None \<Rightarrow> if udp \<noteq> None then fm_GlobalID f else [])"
    "\<forall>i. fm_Inbound f = Some i \<longrightarrow> is_tcp_udp (d_Network (in_Source i)) \<longrightarrow> dest_ok (in_Source i)
        \<and> (is_tcp_udp (d_Network (in_Local i)) \<longrightarrow> dest_ok (in_Local i))"
  obtains b' p' where "read_rest sl g b p = Some (None,
      g\<lparr>fm_GlobalID := (if \<not> sl \<and> udp \<noteq> None \<and> fm_Option g AND OptionData \<noteq> 0 \<and> d_Network (fm_Target g) = Network_UDP
                       then fm_GlobalID f else fm_GlobalID g),
        fm_Inbound := (if sl then map_option recv_inbound (fm_Inbound f) else None)\<rparr>, b', p')" "pool_ok p'"
proof (cases "fm_Inbound f")
  case (Some i)
  obtain b' p' where "read_inbound g b p = Some (None, g\<lparr>fm_Inbound := Some (recv_inbound i)\<rparr>, b', p')" "pool_ok p'"
    using read_inbound_ok [OF assms(5) _ assms(6), of i g] assms(8,9) Some by auto
  then show ?thesis using that [of b' p'] Some assms(1,4) by (simp add: read_rest_def)
next
  case None
  then have sl: "\<not> sl" using assms(4) by simp
  show ?thesis
  proof (cases udp)
    case u: None
    then have "buf_Len b = 0" using None assms(5,8) by (simp add: buf_Len_content)
    then show ?thesis using that [of b p] sl u assms(3,6) by (simp add: read_rest_def)
  next
    case (Some u)
    then have c: "content b = fm_GlobalID f" using None assms(8) by simp
    then have l: "buf_Len b = 8" using assms(5,7) by (simp add: buf_Len_content)
    have ov: "overwrite (fm_GlobalID g) 0 (take 8 (fm_GlobalID f)) = fm_GlobalID f"
      using assms(2,7) by (simp add: overwrite_def)
    show ?thesis using that [of b p] sl Some assms(1,3,5,6) c l ov Bytes_content [OF assms(5)] by (simp add: read_rest_def)
  qed
qed

lemma read_rest_other:
  "fm_SessionStatus g \<noteq> SessionStatusNew \<Longrightarrow> read_rest sl g b p = Some (None, g, b, p)"
  by (simp add: read_rest_def)

lemma status_distinct [simp]: "SessionStatusNew \<noteq> SessionStatusKeep" "SessionStatusKeep \<noteq> SessionStatusNew"
  by (simp_all add: SessionStatusNew_def SessionStatusKeep_def)

text \<open>The target of a frame, after the four fixed bytes.\<close>

lemma read_target_reads:
  assumes "has_target g b = Some True" "buf_inv b" "content b = [x0, x1, x2, x3, net_byte n] @ dest_bytes d @ rest"
    "is_tcp_udp n" "dest_ok d" "pool_ok p"
  obtains b' p' where "read_target sl g b p = read_rest sl (g\<lparr>fm_Target := d\<lparr>d_Network := n\<rparr>\<rparr>) b' p'"
    "buf_inv b'" "content b' = rest" "pool_ok p'"
proof -
  have l: "8 \<le> length (content b)" using assms(3) dest_bytes_length [OF assms(5)] by simp
  have x: "Byte b 4 = Some (net_byte n)" using Byte_content [OF assms(2), of 4] assms(3) by simp
  have adv: "Advance b 5 = consume b 5" using Advance_content [OF assms(2), of 5] l by simp
  have c: "buf_inv (consume b 5)" "content (consume b 5) = dest_bytes d @ rest" using assms(2,3) l by simp_all
  obtain b' p' where "read_dest (net_byte n) ''failed to parse address and port'' ''unknown network type: '' (consume b 5) p
      = Some (Inr (d\<lparr>d_Network := n\<rparr>), b', p')" "buf_inv b'" "content b' = rest" "pool_ok p'"
    by (rule read_dest_ok [OF assms(4,5) c assms(6)])
  then show ?thesis using assms(1) x adv l buf_Len_content [OF assms(2)]
    by (intro that [of b' p']) (simp_all add: read_target_def)
qed

lemma UnmarshalFromBuffer_head:
  assumes "buf_inv b" "content b = PutUint16 sid @ [st, opt] @ tail"
  shows "UnmarshalFromBuffer zero_meta b sl p
    = read_target sl (zero_meta\<lparr>fm_SessionID := sid, fm_SessionStatus := st, fm_Option := opt\<rparr>) b p"
proof -
  have c: "content b = [ucast (drop_bit 8 sid), ucast sid, st, opt] @ tail" using assms(2) by (simp add: PutUint16_def)
  have "BytesTo b 2 = Some (PutUint16 sid)" using BytesTo_content [OF assms(1), of 2] assms(2) by (simp add: PutUint16_def)
  moreover have "Byte b 2 = Some st" "Byte b 3 = Some opt"
    using Byte_content [OF assms(1), of 2] Byte_content [OF assms(1), of 3] c by simp_all
  moreover have "4 \<le> buf_Len b" using c buf_Len_content [OF assms(1)] by simp
  ultimately show ?thesis by (simp add: UnmarshalFromBuffer_def zero_meta_def zero_Destination_def)
qed

lemma UnmarshalFromBuffer_ok:
  assumes "meta_ok f udp" "buf_inv b" "content b = meta_bytes f udp" "pool_ok p"
    "fm_SessionStatus f = SessionStatusNew \<longrightarrow> (sl \<longleftrightarrow> fm_Inbound f \<noteq> None)"
  obtains b' p' where "UnmarshalFromBuffer zero_meta b sl p = Some (None, received f udp sl, b', p')" "pool_ok p'"
proof -
  define g where "g = zero_meta\<lparr>fm_SessionID := fm_SessionID f, fm_SessionStatus := fm_SessionStatus f, fm_Option := fm_Option f\<rparr>"
  obtain x0 x1 where x: "PutUint16 (fm_SessionID f) = [x0, x1]" by (simp add: PutUint16_def)
  have u: "UnmarshalFromBuffer zero_meta b sl p = read_target sl g b p"
    unfolding g_def by (rule UnmarshalFromBuffer_head [OF assms(2)]) (use assms(3) in \<open>simp add: meta_bytes_def\<close>)
  have c: "content b = [x0, x1, fm_SessionStatus f, fm_Option f] @ tail_bytes f udp" using assms(3) x by (simp add: meta_bytes_def)
  consider (new) "fm_SessionStatus f = SessionStatusNew"
    | (keep) d where "fm_SessionStatus f = SessionStatusKeep" "udp = Some d"
    | (other) "fm_SessionStatus f \<noteq> SessionStatusNew" "fm_SessionStatus f \<noteq> SessionStatusKeep \<or> udp = None"
    by blast
  then show ?thesis
  proof cases
    case new
    have m: "is_tcp_udp (d_Network (fm_Target f))" "dest_ok (fm_Target f)" "length (fm_GlobalID f) = 8"
      "\<forall>i. fm_Inbound f = Some i \<longrightarrow> is_tcp_udp (d_Network (in_Source i)) \<longrightarrow> dest_ok (in_Source i)
        \<and> (is_tcp_udp (d_Network (in_Local i)) \<longrightarrow> dest_ok (in_Local i))"
      using assms(1) new by (simp_all add: meta_ok_def)
    have h: "has_target g b = Some True" using new by (simp add: has_target_def g_def)
    have c': "content b = [x0, x1, fm_SessionStatus f, fm_Option f, net_byte (d_Network (fm_Target f))] @ dest_bytes (fm_Target f)
        @ (case fm_Inbound f of Some i \<Rightarrow> inbound_bytes i | None \<Rightarrow> if udp \<noteq> None then fm_GlobalID f else [])"
      using c new by (simp add: tail_bytes_def)
    let ?g = "g\<lparr>fm_Target := (fm_Target f)\<lparr>d_Network := d_Network (fm_Target f)\<rparr>\<rparr>"
    obtain b1 p1 where t: "read_target sl g b p = read_rest sl ?g b1 p1" "buf_inv b1"
      "content b1 = (case fm_Inbound f of Some i \<Rightarrow> inbound_bytes i | None \<Rightarrow> if udp \<noteq> None then fm_GlobalID f else [])" "pool_ok p1"
      by (rule read_target_reads [OF h assms(2) c' m(1,2) assms(4)])
    have g: "fm_SessionStatus ?g = SessionStatusNew" "length (fm_GlobalID ?g) = 8" "fm_Inbound ?g = None" "sl \<longleftrightarrow> fm_Inbound f \<noteq> None"
      using new assms(5) by (simp_all add: g_def zero_meta_def)
    obtain b2 p2 where r: "read_rest sl ?g b1 p1 = Some (None,
      ?g\<lparr>fm_GlobalID := (if \<not> sl \<and> udp \<noteq> None \<and> fm_Option ?g AND OptionData \<noteq> 0 \<and> d_Network (fm_Target ?g) = Network_UDP
                       then fm_GlobalID f else fm_GlobalID ?g),
        fm_Inbound := (if sl then map_option recv_inbound (fm_Inbound f) else None)\<rparr>, b2, p2)" "pool_ok p2"
      by (rule read_rest_new [OF g t(2,4) m(3) t(3) m(4)])
    have "received f udp sl = ?g\<lparr>fm_GlobalID := (if \<not> sl \<and> udp \<noteq> None \<and> fm_Option ?g AND OptionData \<noteq> 0 \<and> d_Network (fm_Target ?g) = Network_UDP
                       then fm_GlobalID f else fm_GlobalID ?g),
        fm_Inbound := (if sl then map_option recv_inbound (fm_Inbound f) else None)\<rparr>"
      using new by (simp add: received_def g_def zero_meta_def)
    then show ?thesis using u t(1) r by (intro that [of b2 p2]) simp_all
  next
    case keep
    have d: "dest_ok d" using assms(1) keep by (simp add: meta_ok_def)
    have c': "content b = [x0, x1, fm_SessionStatus f, fm_Option f, net_byte Network_UDP] @ dest_bytes d @ []"
      using c keep by (simp add: tail_bytes_def)
    have "Byte b 4 = Some TargetNetworkUDP" using Byte_content [OF assms(2), of 4] c' by simp
    moreover have "buf_Len b > 4" using c' buf_Len_content [OF assms(2)] by simp
    ultimately have h: "has_target g b = Some True" using keep by (simp add: has_target_def g_def)
    have "is_tcp_udp Network_UDP" by (simp add: is_tcp_udp_def)
    then obtain b1 p1 where "read_target sl g b p = read_rest sl (g\<lparr>fm_Target := d\<lparr>d_Network := Network_UDP\<rparr>\<rparr>) b1 p1"
      "buf_inv b1" "content b1 = []" "pool_ok p1"
      using read_target_reads [OF h assms(2) c' _ d assms(4)] by metis
    then show ?thesis using u keep
      by (intro that [of b1 p1]) (simp_all add: read_rest_other received_def g_def zero_meta_def UDPDestination_def)
  next
    case other
    have "has_target g b = Some False"
    proof (cases "fm_SessionStatus f = SessionStatusKeep")
      case True
      then have "content b = [x0, x1, fm_SessionStatus f, fm_Option f]" using c other by (simp add: tail_bytes_def)
      then show ?thesis using True other(1) buf_Len_content [OF assms(2)] by (simp add: has_target_def g_def)
    next
      case False
      then show ?thesis using other(1) by (simp add: has_target_def g_def)
    qed
    then show ?thesis using u other assms(4)
      by (intro that [of b p]) (auto simp: read_target_def read_rest_other received_def g_def zero_meta_def)
  qed
qed

context io_reader
begin

lemma Unmarshal_ok:
  assumes "meta_ok f udp" "length (meta_bytes f udp) \<le> 512" "rinv r" "pool_ok p"
    "pending r = PutUint16 (word_of_nat (length (meta_bytes f udp))) @ meta_bytes f udp @ rest"
    "fm_SessionStatus f = SessionStatusNew \<longrightarrow> (sl \<longleftrightarrow> fm_Inbound f \<noteq> None)"
  shows "\<exists>r' p'. Unmarshal rd zero_meta r sl p = Some (None, received f udp sl, r', p') \<and> rinv r' \<and> pending r' = rest
    \<and> final r' = final r \<and> pool_ok p'"
proof -
  let ?n = "length (meta_bytes f udp)"
  let ?w = "word_of_nat ?n :: 16 word"
  obtain r1 where r1: "ReadFull rd r 2 = Some (PutUint16 ?w, None, r1)" "rinv r1" "pending r1 = meta_bytes f udp @ rest" "final r1 = final r"
    using ReadFull_enough [OF assms(3,5)] by auto
  have "unat ?w = ?n" using assms(2) by (simp add: unsigned_of_nat take_bit_nat_eq_self)
  then have w2: "\<not> 512 < ?w" using assms(2) by (simp add: word_less_nat_alt)
  have w: "uint ?w = int ?n" using assms(2) by (simp add: unsigned_of_nat take_bit_nat_eq_self)
  obtain b p1 where b: "New p = (b, p1)" "buf_inv b" "content b = []" "room b = 8192" "pool_ok p1"
    using New_ok [OF assms(4)] by auto
  have l: "length (meta_bytes f udp) \<le> room b" using assms(2) b(4) by simp
  obtain r2 where r2: "ReadFullFrom rd b r1 (uint ?w) = Some ((uint ?w, None), append_to b (meta_bytes f udp), r2)"
    "rinv r2" "pending r2 = rest" "final r2 = final r1"
    using ReadFullFrom_ok [OF r1(2) b(2) l r1(3) w] by auto
  have c: "buf_inv (append_to b (meta_bytes f udp))" "content (append_to b (meta_bytes f udp)) = meta_bytes f udp"
    using b l by auto
  obtain b' p' where u: "UnmarshalFromBuffer zero_meta (append_to b (meta_bytes f udp)) sl p1 = Some (None, received f udp sl, b', p')" "pool_ok p'"
    by (rule UnmarshalFromBuffer_ok [OF assms(1) c b(5) assms(6)])
  have "Unmarshal rd zero_meta r sl p = Some (None, received f udp sl, r2, snd (Release (Some b') p'))"
    using r1(1) w2 b(1) r2(1) u(1) by (simp add: Unmarshal_def)
  then show ?thesis using r2 r1(4) u(2) Release_pool_ok by auto
qed

end

section \<open>Reading never panics\<close>

lemma read_dest_total:
  assumes "buf_inv b" "pool_ok p"
  shows "\<exists>res b' p'. read_dest n m1 m2 b p = Some (res, b', p') \<and> buf_inv b' \<and> pool_ok p'"
proof -
  obtain sb p1 where s: "New p = (sb, p1)" "buf_inv sb" "room sb = 8192" "pool_ok p1" using New_ok [OF assms(2)] by auto
  have "259 \<le> room sb" using s(3) by simp
  then obtain res sb' b' where "read_addr_port addrParser Buffer_Read sb b = Some (res, sb', b')" "buf_inv b'"
    using buffer_rd.read_addr_port_total [OF assms(1) s(2) _ addrParser_ok] by blast
  then show ?thesis using s(1,4) by (cases res) (auto simp: read_dest_def ReadAddressPort_def intro: Release_pool_ok)
qed

definition safe_read :: "(FrameMetadata \<Rightarrow> Buffer \<Rightarrow> pool \<Rightarrow> meta_read) \<Rightarrow> bool" where
  "safe_read k \<longleftrightarrow> (\<forall>f b p. buf_inv b \<longrightarrow> pool_ok p \<longrightarrow> (\<exists>e f' b' p'. k f b p = Some (e, f', b', p') \<and> pool_ok p'))"

lemma safe_readD: "safe_read k \<Longrightarrow> buf_inv b \<Longrightarrow> pool_ok p \<Longrightarrow> \<exists>e f' b' p'. k f b p = Some (e, f', b', p') \<and> pool_ok p'"
  by (auto simp: safe_read_def)

lemma safe_read_opt_dest:
  assumes "safe_read k"
  shows "safe_read (read_opt_dest m1 m2 upd k)"
  unfolding safe_read_def
proof (intro allI impI)
  fix f b p
  assume i: "buf_inv b" "pool_ok p"
  show "\<exists>e f' b' p'. read_opt_dest m1 m2 upd k f b p = Some (e, f', b', p') \<and> pool_ok p'"
  proof (cases "content b")
    case Nil
    then show ?thesis using i by (simp add: read_opt_dest_none)
  next
    case (Cons x xs)
    have b: "Byte b 0 = Some x" "Advance b 1 = consume b 1" "buf_inv (consume b 1)" "buf_Len b \<noteq> 0"
      using Byte_content [OF i(1), of 0] Advance_content [OF i(1), of 1] Cons i(1) by (simp_all add: buf_Len_content)
    obtain res b' p' where r: "read_dest x m1 m2 (consume b 1) p = Some (res, b', p')" "buf_inv b'" "pool_ok p'"
      using read_dest_total [OF b(3) i(2)] by blast
    then show ?thesis using b i(2) safe_readD [OF assms r(2,3)] by (cases res) (auto simp: read_opt_dest_def)
  qed
qed

lemma safe_read_rest: "safe_read (read_rest sl)"
proof -
  have id: "safe_read (\<lambda>f' b' p'. Some (None, f', b', p'))" by (simp add: safe_read_def)
  have "\<exists>e f' b' p'. read_inbound f b p = Some (e, f', b', p') \<and> pool_ok p'" if "buf_inv b" "pool_ok p" for f b p
    unfolding read_inbound_def by (rule safe_readD [OF safe_read_opt_dest [OF safe_read_opt_dest [OF id]] that])
  then show ?thesis unfolding safe_read_def read_rest_def by (simp add: Bytes_content)
qed

lemma safe_UnmarshalFromBuffer: "safe_read (\<lambda>f b p. UnmarshalFromBuffer f b sl p)"
proof -
  have t: "\<exists>e f' b' p'. read_target sl f b p = Some (e, f', b', p') \<and> pool_ok p'" if i: "buf_inv b" "pool_ok p" for f b p
  proof -
    have h: "\<exists>t. has_target f b = Some t" using i Byte_content [OF i(1), of 4] by (auto simp: has_target_def buf_Len_content)
    show ?thesis
    proof (cases "has_target f b = Some True \<and> 8 \<le> length (content b)")
      case False
      then show ?thesis using h i safe_readD [OF safe_read_rest i]
        by (auto simp: read_target_def buf_Len_content)
    next
      case True
      have b: "Byte b 4 = Some (content b ! 4)" "Advance b 5 = consume b 5" "buf_inv (consume b 5)"
        using Byte_content [OF i(1), of 4] Advance_content [OF i(1), of 5] True i(1) by simp_all
      obtain res b' p' where r: "read_dest (content b ! 4) ''failed to parse address and port'' ''unknown network type: '' (consume b 5) p
          = Some (res, b', p')" "buf_inv b'" "pool_ok p'"
        using read_dest_total [OF b(3) i(2)] by blast
      then show ?thesis using True b i safe_readD [OF safe_read_rest r(2,3)]
        by (cases res) (auto simp: read_target_def buf_Len_content)
    qed
  qed
  have "\<exists>e f' b' p'. UnmarshalFromBuffer f b sl p = Some (e, f', b', p') \<and> pool_ok p'" if i: "buf_inv b" "pool_ok p" for f b p
  proof (cases "length (content b) < 4")
    case True
    then show ?thesis using i by (simp add: UnmarshalFromBuffer_def buf_Len_content)
  next
    case False
    have l: "2 < length (content b)" "3 < length (content b)" using False by simp_all
    then obtain x0 x1 xs where "content b = x0 # x1 # xs" by (cases "content b"; cases "tl (content b)") auto
    then have "BytesTo b 2 = Some [x0, x1]" "Byte b 2 \<noteq> None" "Byte b 3 \<noteq> None"
      using BytesTo_content [OF i(1), of 2] Byte_content [OF i(1) l(1)] Byte_content [OF i(1) l(2)] by simp_all
    then show ?thesis using t [OF i] False i by (auto simp: UnmarshalFromBuffer_def buf_Len_content Uint16_def)
  qed
  then show ?thesis by (simp add: safe_read_def)
qed

context io_reader
begin

lemma ReadFullFrom_any:
  assumes "rinv r" "buf_inv b" "n \<le> room b"
  shows "\<exists>d e r'. ReadFullFrom rd b r (int n) = Some ((int (length d), e), append_to b d, r') \<and> length d \<le> n
    \<and> rinv r' \<and> pending r = d @ pending r' \<and> final r' = final r \<and> (e = None \<longrightarrow> length d = n)"
proof (cases "n \<le> length (pending r)")
  case True
  have "length (take n (pending r)) \<le> room b" "pending r = take n (pending r) @ drop n (pending r)" "int n = int (length (take n (pending r)))"
    using True assms(3) by simp_all
  from ReadFullFrom_ok [OF assms(1,2) this] show ?thesis using True
    by (intro exI [of _ "take n (pending r)"] exI [of _ None]) auto
next
  case False
  then have "length (pending r) < n" by simp
  from ReadFullFrom_short [OF assms this] show ?thesis using False
    by (intro exI [of _ "pending r"]) (metis append_Nil2 nat_le_linear option.distinct(1))
qed

lemma Unmarshal_total:
  assumes "rinv r" "pool_ok p"
  shows "Unmarshal rd f r sl p \<noteq> None"
proof (cases "length (pending r) < 2")
  case True
  then show ?thesis using ReadFull_short [OF assms(1) True] by (auto simp: Unmarshal_def)
next
  case False
  then obtain x0 x1 rest where x: "pending r = [x0, x1] @ rest" by (cases "pending r"; cases "tl (pending r)") auto
  obtain r1 where r1: "ReadFull rd r 2 = Some ([x0, x1], None, r1)" "rinv r1"
    using ReadFull_enough [OF assms(1) x, of 2] by auto
  define n where "n = unat (push_bit 8 (ucast x0) OR ucast x1 :: 16 word)"
  have u: "Uint16 [x0, x1] = Some (word_of_nat n)" by (simp add: Uint16_def n_def)
  obtain b p1 where b: "New p = (b, p1)" "buf_inv b" "room b = 8192" "pool_ok p1" using New_ok [OF assms(2)] by auto
  show ?thesis
  proof (cases "512 < (word_of_nat n :: 16 word)")
    case True
    then show ?thesis using r1(1) u by (simp add: Unmarshal_def)
  next
    case False
    have n: "n < 65536" using unsigned_less [of "push_bit 8 (ucast x0) OR ucast x1 :: 16 word", where ?'a = nat] by (simp add: n_def)
    then have un: "unat (word_of_nat n :: 16 word) = n" by (simp add: unsigned_of_nat take_bit_nat_eq_self)
    then have le: "n \<le> room b" using False b(3) by (simp add: word_less_nat_alt)
    have w: "uint (word_of_nat n :: 16 word) = int n" using n by (simp add: unsigned_of_nat take_bit_nat_eq_self)
    obtain d e r2 where d: "ReadFullFrom rd b r1 (int n) = Some ((int (length d), e), append_to b d, r2)" "length d \<le> n"
      using ReadFullFrom_any [OF r1(2) b(2) le] by blast
    have "buf_inv (append_to b d)" using b(2) d(2) le by simp
    from safe_readD [OF safe_UnmarshalFromBuffer this b(4), of f sl]
    obtain e' f' b' p' where "UnmarshalFromBuffer f (append_to b d) sl p1 = Some (e', f', b', p')" by blast
    then show ?thesis using r1(1) u False b(1) d(1) w by (cases e) (simp_all add: Unmarshal_def)
  qed
qed

end

section \<open>The stream of frames\<close>

definition frame_bytes :: "FrameMetadata \<Rightarrow> Destination option \<Rightarrow> byte list \<Rightarrow> byte list" where
  "frame_bytes m udp d = PutUint16 (word_of_nat (length (meta_bytes m udp))) @ meta_bytes m udp
     @ PutUint16 (word_of_nat (length d)) @ d"

definition chunk_udp :: "MultiBuffer \<Rightarrow> Destination option" where
  "chunk_udp c = (case c of [Some b] \<Rightarrow> b_UDP b | _ \<Rightarrow> None)"

definition data_meta :: "'w MuxWriter \<Rightarrow> FrameMetadata" where
  "data_meta w = (fst (getNextFrameMeta w))\<lparr>fm_Option := OptionData\<rparr>"

fun mux_frames :: "'w MuxWriter \<Rightarrow> MultiBuffer list \<Rightarrow> byte list" where
  "mux_frames w [] = []"
| "mux_frames w (c # cs) = frame_bytes (data_meta w) (chunk_udp c) (mcontent c) @ mux_frames (w\<lparr>mw_followup := True\<rparr>) cs"

text \<open>What the callers guarantee: pooled buffers, and addresses the format can carry.\<close>

definition packets_ok :: "MultiBuffer \<Rightarrow> bool" where
  "packets_ok mb \<longleftrightarrow> (\<forall>x \<in> set mb. \<exists>b. x = Some b \<and> buf_inv b \<and> length (content b) \<le> 8192
     \<and> (\<forall>u. b_UDP b = Some u \<longrightarrow> dest_ok u))"

definition writer_ok :: "'w MuxWriter \<Rightarrow> bool" where
  "writer_ok w \<longleftrightarrow> (\<not> mw_followup w \<longrightarrow> is_tcp_udp (d_Network (mw_dest w)) \<and> dest_ok (mw_dest w) \<and> length (mw_globalID w) = 8
     \<and> (\<forall>i. mw_inbound w = Some i \<longrightarrow> is_tcp_udp (d_Network (in_Source i)) \<longrightarrow> dest_ok (in_Source i)
          \<and> (is_tcp_udp (d_Network (in_Local i)) \<longrightarrow> dest_ok (in_Local i))))"

lemma dest_bytes_max: "dest_ok d \<Longrightarrow> length (dest_bytes d) \<le> 259"
  using addr_bytes_length by (auto simp: dest_ok_def dest_bytes_def)

lemma meta_bytes_max:
  assumes "meta_ok f udp"
  shows "length (meta_bytes f udp) \<le> 800"
proof -
  have "length (inbound_bytes i) \<le> 520"
    if "is_tcp_udp (d_Network (in_Source i)) \<longrightarrow> dest_ok (in_Source i) \<and> (is_tcp_udp (d_Network (in_Local i)) \<longrightarrow> dest_ok (in_Local i))" for i
    using that dest_bytes_max [of "in_Source i"] dest_bytes_max [of "in_Local i"] by (auto simp: inbound_bytes_def)
  then have "length (tail_bytes f udp) \<le> 790"
    using assms dest_bytes_max [of "fm_Target f"] dest_bytes_max
    by (fastforce simp: meta_ok_def tail_bytes_def split: option.splits)
  then show ?thesis by (simp add: meta_bytes_def)
qed

lemma data_meta_ok: "writer_ok w \<Longrightarrow> (\<forall>u. udp = Some u \<longrightarrow> dest_ok u) \<Longrightarrow> meta_ok (data_meta w) udp"
  by (auto simp: writer_ok_def meta_ok_def data_meta_def getNextFrameMeta_def Let_def zero_meta_def)

lemma packets_ok_append [simp]: "packets_ok (xs @ ys) \<longleftrightarrow> packets_ok xs \<and> packets_ok ys"
  by (auto simp: packets_ok_def)

lemma packets_okD: "packets_ok mb \<Longrightarrow> mb_inv mb" "packets_ok mb \<Longrightarrow> None \<notin> set mb"
  by (auto simp: packets_ok_def mb_inv_def)

lemma chunk_udp_ok: "packets_ok c \<Longrightarrow> \<forall>u. chunk_udp c = Some u \<longrightarrow> dest_ok u"
  by (auto simp: packets_ok_def chunk_udp_def split: list.splits option.splits)

lemma SplitSize_loop_append: "SplitSize_loop mb sz tot r = (l, r') \<Longrightarrow> r' @ l = r @ mb"
  by (induction mb sz tot r rule: SplitSize_loop.induct) (auto split: if_splits)

lemma SplitSize_loop_prefix: "SplitSize_loop mb sz tot r = (l, r') \<Longrightarrow> \<exists>t. r' = r @ t"
  by (induction mb sz tot r rule: SplitSize_loop.induct) (fastforce split: if_splits)+

lemma next_chunk_ok:
  assumes "packets_ok mb" "mb \<noteq> []" "int (length (mcontent mb)) < 2147483648"
  shows "\<exists>l c. next_chunk tt mb p = Some (l, c, p) \<and> c @ l = mb \<and> c \<noteq> [] \<and> length (mcontent c) \<le> 8192"
proof -
  obtain b rest where mb: "mb = Some b # rest" "buf_inv b" "length (content b) \<le> 8192"
    using assms(1,2) by (cases mb) (auto simp: packets_ok_def)
  show ?thesis
  proof (cases "tt = TransferTypeStream")
    case True
    obtain l r where s: "SplitSize_loop mb 8192 0 [] = (l, r)" by fastforce
    have len: "Len (Some b) = int (length (content b))" using Len_content [OF mb(2)] .
    have "SplitSize p mb 8192 = Some (l, r, p)" using mb len s by (simp add: SplitSize_def)
    moreover have "r @ l = mb" using SplitSize_loop_append [OF s] by simp
    moreover have "int (length (mcontent r)) \<le> 8192"
      using SplitSize_loop_split [of mb "[]" 0 8192 l r] packets_okD(1) [OF assms(1)] assms(3) s by simp
    moreover have "r \<noteq> []"
    proof -
      have "\<not> i32 (0 + Len (Some b)) > 8192" using len mb(3) by simp
      then have "SplitSize_loop rest 8192 (i32 (0 + Len (Some b))) [Some b] = (l, r)" using s mb(1) by simp
      then show ?thesis using SplitSize_loop_prefix by fastforce
    qed
    ultimately show ?thesis using True by (simp add: next_chunk_def)
  next
    case False
    then show ?thesis using mb by (auto simp: next_chunk_def SplitFirst_def)
  qed
qed

lemma mux_frames_writer: "mux_frames (w\<lparr>mw_writer := x\<rparr>) cs = mux_frames w cs"
proof (induction cs arbitrary: w)
  case (Cons c cs)
  have "data_meta (w\<lparr>mw_writer := x\<rparr>) = data_meta w" by (simp add: data_meta_def getNextFrameMeta_def Let_def)
  then show ?case using Cons [of "w\<lparr>mw_followup := True\<rparr>"] by (cases w) simp
qed simp

lemma frame_bytes_len:
  "x @ d = frame_bytes m udp d \<Longrightarrow> length (meta_bytes m udp) \<le> 800 \<Longrightarrow> length x \<le> 804"
  by (drule arg_cong [where f = length]) (simp add: frame_bytes_def)

lemma meta_frame_ok:
  assumes "packets_ok c" "c \<noteq> []" "meta_ok m (chunk_udp c)" "length (mcontent c) \<le> 8192" "pool_ok p"
  obtains fr p1 where "meta_frame m c p = Some (None, fr, p1)" "buf_inv fr" "pool_ok p1"
    "content fr @ mcontent c = frame_bytes m (chunk_udp c) (mcontent c)"
proof -
  obtain b p1 where b: "New p = (b, p1)" "buf_inv b" "content b = []" "room b = 8192" "pool_ok p1" "b_UDP b = None"
    using New_ok [OF assms(5)] by auto
  have i: "buf_inv (b\<lparr>b_UDP := u\<rparr>)" "content (b\<lparr>b_UDP := u\<rparr>) = []" "room (b\<lparr>b_UDP := u\<rparr>) = 8192" for u
    using b(2-4) by (simp_all add: buf_inv_def content_def room_def)
  define fr where "fr = b\<lparr>b_UDP := chunk_udp c\<rparr>"
  have f: "buf_inv fr" "content fr = []" "room fr = 8192" "b_UDP fr = chunk_udp c" using i by (simp_all add: fr_def)
  have st: "(if length c = 1 then Option.bind (hd c) (\<lambda>d0. Some (b\<lparr>b_UDP := b_UDP d0\<rparr>)) else Some b) = Some fr"
  proof (cases "length c = 1")
    case True
    then obtain x where "c = [x]" by (metis One_nat_def length_0_conv length_Suc_conv)
    moreover then obtain d0 where "x = Some d0" using assms(1) by (auto simp: packets_ok_def)
    ultimately show ?thesis by (simp add: fr_def chunk_udp_def)
  next
    case False
    then have "chunk_udp c = None" by (auto simp: chunk_udp_def split: list.splits option.splits)
    then show ?thesis using False b(6) by (cases b) (simp add: fr_def)
  qed
  let ?m = "meta_bytes m (chunk_udp c)"
  let ?d = "PutUint16 (word_of_nat (length ?m)) @ ?m"
  have l: "length ?m \<le> 800" using meta_bytes_max [OF assms(3)] .
  have w: "WriteTo m fr = Some (None, append_to fr ?d)" using WriteTo_ok [of m fr] assms(3) f l by simp
  have len: "MB_Len c = int (length (mcontent c))"
    using MB_Len_mcontent [OF packets_okD(1) [OF assms(1)]] assms(4) by simp
  let ?z = "PutUint16 (word_of_int (MB_Len c))"
  have "Write (append_to fr ?d) ?z = Some ((2, None), append_to fr (?d @ ?z))" using f l by (simp add: Write_fits)
  then have "meta_frame m c p = Some (None, append_to fr (?d @ ?z), p1)" using b(1) st w by (simp add: meta_frame_def)
  moreover have "buf_inv (append_to fr (?d @ ?z))" "content (append_to fr (?d @ ?z)) @ mcontent c = frame_bytes m (chunk_udp c) (mcontent c)"
    using f l len by (simp_all add: frame_bytes_def)
  ultimately show ?thesis using b(5) that by blast
qed

lemma getNextFrameMeta_eq: "getNextFrameMeta w = (fst (getNextFrameMeta w), w\<lparr>mw_followup := True\<rparr>)"
  by (cases w) (simp add: getNextFrameMeta_def Let_def)

lemma data_meta_eq: "(fst (getNextFrameMeta w))\<lparr>fm_Option := fm_Option (fst (getNextFrameMeta w)) OR OptionData\<rparr> = data_meta w"
  by (simp add: data_meta_def getNextFrameMeta_def Let_def zero_meta_def)

lemma writeData_eq: "writeData wmb w c p = writeMetaWithFrame wmb (w\<lparr>mw_followup := True\<rparr>) (data_meta w) c p"
  unfolding writeData_def by (subst getNextFrameMeta_eq) (simp only: prod.case data_meta_eq)

context mb_writer
begin

lemma writeData_sends:
  assumes "packets_ok c" "c \<noteq> []" "writer_ok w" "length (mcontent c) \<le> 8192" "pool_ok p"
  obtains e w' p' where "writeData wmb w c p = Some (e, w', p')" "pool_ok p'"
    "w' = w\<lparr>mw_followup := True, mw_writer := mw_writer w'\<rparr>"
    "e = None \<longrightarrow> sent (mw_writer w') = sent (mw_writer w) @ frame_bytes (data_meta w) (chunk_udp c) (mcontent c)"
proof -
  obtain fr p1 where f: "meta_frame (data_meta w) c p = Some (None, fr, p1)" "buf_inv fr" "pool_ok p1"
    "content fr @ mcontent c = frame_bytes (data_meta w) (chunk_udp c) (mcontent c)"
    by (rule meta_frame_ok [OF assms(1,2) data_meta_ok [OF assms(3) chunk_udp_ok [OF assms(1)]] assms(4,5)])
  have mb: "mb_inv (Some fr # c)" "None \<notin> set (Some fr # c)" using f(2) packets_okD [OF assms(1)] by auto
  have fl: "int (length (content fr)) < 2147483648" using content_bound [OF f(2)] .
  have "length (content fr) \<le> 804"
    using f(4) meta_bytes_max [OF data_meta_ok [OF assms(3) chunk_udp_ok [OF assms(1)]]]
    by (metis frame_bytes_len)
  then have l: "int (length (mcontent (Some fr # c))) < 2147483648" using assms(4) by simp
  obtain e w1 p' k where s: "wmb (mw_writer w) (Some fr # c) p1 = Some (e, w1, p')" "pool_ok p'"
    "sent w1 = sent (mw_writer w) @ take k (mcontent (Some fr # c))" "e = None \<longrightarrow> k = length (mcontent (Some fr # c))"
    using write_mb [OF mb l f(3), of "mw_writer w"] by blast
  let ?w = "w\<lparr>mw_followup := True, mw_writer := w1\<rparr>"
  have "writeData wmb w c p = Some (e, ?w, p')"
    using f(1) s(1) by (simp add: writeData_eq writeMetaWithFrame_def mw_send_def)
  then show ?thesis using s f(4) by (intro that [of e ?w p']) simp_all
qed

lemma MW_loop_sends:
  assumes "packets_ok mb" "writer_ok w" "int (length (mcontent mb)) < 2147483648" "pool_ok p"
  shows "\<exists>e w' p' cs. MW_loop wmb w mb p = Some (e, w', p') \<and> pool_ok p'
    \<and> (e = None \<longrightarrow> sent (mw_writer w') = sent (mw_writer w) @ mux_frames w cs \<and> concat (map mcontent cs) = mcontent mb
       \<and> (\<forall>c \<in> set cs. length (mcontent c) \<le> 8192))"
  using assms
proof (induction "length mb" arbitrary: mb w p rule: less_induct)
  case less
  note inv = packets_okD [OF less.prems(1)]
  show ?case
  proof (cases "mcontent mb = []")
    case True
    then have "MW_loop wmb w mb p = Some (None, w, snd (ReleaseMulti mb p))" using inv by (subst MW_loop.simps) simp
    then show ?thesis using True less.prems(4) ReleaseMulti_pool_ok by (auto intro!: exI [of _ "[]"])
  next
    case False
    then have "mb \<noteq> []" by auto
    then obtain l c where c: "next_chunk (mw_transferType w) mb p = Some (l, c, p)" "c @ l = mb" "c \<noteq> []" "length (mcontent c) \<le> 8192"
      using next_chunk_ok [OF less.prems(1) _ less.prems(3), of "mw_transferType w" p] by blast
    have pk: "packets_ok c" "packets_ok l" "mcontent mb = mcontent c @ mcontent l" "length l < length mb"
      using less.prems(1) c(3) unfolding c(2) [symmetric] by auto
    obtain e w1 p1 where d: "writeData wmb w c p = Some (e, w1, p1)" "pool_ok p1"
      "w1 = w\<lparr>mw_followup := True, mw_writer := mw_writer w1\<rparr>"
      "e = None \<longrightarrow> sent (mw_writer w1) = sent (mw_writer w) @ frame_bytes (data_meta w) (chunk_udp c) (mcontent c)"
      by (rule writeData_sends [OF pk(1) c(3) less.prems(2) c(4) less.prems(4)])
    have eq: "MW_loop wmb w mb p = (case e of Some x \<Rightarrow> Some (Some x, w1, snd (ReleaseMulti l p1)) | None \<Rightarrow> MW_loop wmb w1 l p1)"
      using False inv c(1) d(1) by (subst MW_loop.simps) simp
    show ?thesis
    proof (cases e)
      case (Some x)
      then show ?thesis using eq d(2) ReleaseMulti_pool_ok by (auto intro!: exI [of _ "[]"])
    next
      case None
      have "writer_ok w1" using d(3) by (metis (no_types, lifting) MuxWriter.select_convs(4) MuxWriter.surjective MuxWriter.update_convs(2) MuxWriter.update_convs(4) writer_ok_def)
      then obtain e' w' p' cs where r: "MW_loop wmb w1 l p1 = Some (e', w', p')" "pool_ok p'"
        "e' = None \<longrightarrow> sent (mw_writer w') = sent (mw_writer w1) @ mux_frames w1 cs \<and> concat (map mcontent cs) = mcontent l
           \<and> (\<forall>c \<in> set cs. length (mcontent c) \<le> 8192)"
        using less.hyps [OF pk(4,2) _ _ d(2), of w1] less.prems(3) pk(3) by auto
      have mf: "mux_frames w1 cs = mux_frames (w\<lparr>mw_followup := True\<rparr>) cs" using d(3) mux_frames_writer by metis
      show ?thesis using eq None r d(4) mf pk(3) c(4)
        by (intro exI [of _ e'] exI [of _ w'] exI [of _ p'] exI [of _ "c # cs"]) auto
    qed
  qed
qed

end

section \<open>Properties\<close>

text \<open>
  C6. A mux frame survives the wire: what \<open>FrameMetadata.WriteTo\<close> puts into a buffer, \<open>Unmarshal\<close> turns back into the same session
  id, status, option and target (and inbound or global id, in the matching mode), for new and for later frames,
  TCP and UDP, however the stream is cut; exactly the frame is consumed. The length prefix is the length of
  the metadata.
\<close>

theorem mux_frame_roundtrip:
  assumes "meta_ok f (b_UDP b)" "length (meta_bytes f (b_UDP b)) \<le> 512" "buf_inv b" "content b = []" "514 \<le> room b" "pool_ok p"
    "fm_SessionStatus f = SessionStatusNew \<longrightarrow> (sl \<longleftrightarrow> fm_Inbound f \<noteq> None)"
  shows "\<exists>b'. WriteTo f b = Some (None, b')
    \<and> (\<forall>c rest. concat (chunks c) = content b' @ rest \<longrightarrow>
        (\<exists>c' p'. Unmarshal conn_read zero_meta c sl p = Some (None, received f (b_UDP b) sl, c', p') \<and> concat (chunks c') = rest))"
proof -
  let ?m = "meta_bytes f (b_UDP b)"
  let ?d = "PutUint16 (word_of_nat (length ?m)) @ ?m"
  have w: "WriteTo f b = Some (None, append_to b ?d)" using WriteTo_ok [OF assms(1,3)] assms(2,5) by simp
  have c: "content (append_to b ?d) = ?d" using assms(2-5) by simp
  have "\<exists>c' p'. Unmarshal conn_read zero_meta s sl p = Some (None, received f (b_UDP b) sl, c', p') \<and> concat (chunks c') = rest"
    if "concat (chunks s) = content (append_to b ?d) @ rest" for s rest
    using conn_rd.Unmarshal_ok [OF assms(1,2) TrueI assms(6), of s rest sl] that c assms(7) by auto
  then show ?thesis using w by blast
qed

definition demo_meta :: FrameMetadata where
  "demo_meta = zero_meta\<lparr>fm_SessionID := 7, fm_SessionStatus := SessionStatusNew, fm_Option := OptionData,
     fm_Target := TCPDestination (Some (ipv4Address [10, 0, 0, 1])) 443\<rparr>"

lemma demo_meta_ok: "meta_ok demo_meta None" "length (meta_bytes demo_meta None) \<le> 512"
  "fm_SessionStatus demo_meta = SessionStatusNew \<longrightarrow> (False \<longleftrightarrow> fm_Inbound demo_meta \<noteq> None)"
  by (simp_all add: meta_ok_def demo_meta_def zero_meta_def is_tcp_udp_def TCPDestination_def dest_ok_def encodable_def meta_bytes_def
    tail_bytes_def dest_bytes_def addr_port_bytes_def addr_bytes_def)

theorem mux_frame_roundtrip_witness:
  "\<exists>b b'. WriteTo demo_meta b = Some (None, b')
    \<and> (\<forall>c rest. concat (chunks c) = content b' @ rest \<longrightarrow>
        (\<exists>c' p'. Unmarshal conn_read zero_meta c False [] = Some (None, received demo_meta None False, c', p') \<and> concat (chunks c') = rest))"
proof -
  let ?b = "Buffer_of (replicate 8192 0)"
  have "meta_ok demo_meta (b_UDP ?b)" "length (meta_bytes demo_meta (b_UDP ?b)) \<le> 512" "buf_inv ?b" "content ?b = []" "514 \<le> room ?b"
    "pool_ok []" "fm_SessionStatus demo_meta = SessionStatusNew \<longrightarrow> (False \<longleftrightarrow> fm_Inbound demo_meta \<noteq> None)"
    using demo_meta_ok by (simp_all add: pool_ok_def)
  from mux_frame_roundtrip [OF this] show ?thesis by auto
qed

text \<open>
  Reading a mux frame never panics: for every byte stream a peer can send, complete or cut off anywhere,
  \<open>Unmarshal\<close> returns with metadata or an error.
\<close>

theorem mux_unmarshal_never_panics:
  assumes "pool_ok p"
  shows "Unmarshal conn_read f c sl p \<noteq> None"
  by (rule conn_rd.Unmarshal_total [OF TrueI assms])

theorem mux_unmarshal_never_panics_witness:
  "Unmarshal conn_read zero_meta \<lparr>chunks = [[0], [9, 1, 2, 1, 1], [1, 0]], closing = EOF\<rparr> True [] \<noteq> None"
  by (rule mux_unmarshal_never_panics) (simp add: pool_ok_def)

text \<open>
  A mux writer turns a MultiBuffer into a sequence of frames whose data blocks, put together, are exactly its bytes: no
  byte is lost at a chunk boundary, no block is longer than 8 KiB, and the first frame of a session is the one that
  opens it. The loop ends, also for buffers that are empty.
\<close>

theorem mux_writer_frames:
  assumes "packets_ok mb" "writer_ok w" "int (length (mcontent mb)) < 2147483648" "pool_ok p" "mcontent mb \<noteq> []"
  shows "\<exists>e w' p' cs. MW_WriteMultiBuffer (SequentialWriter_WriteMultiBuffer sink_Write) w mb p = Some (e, w', p')
    \<and> (e = None \<longrightarrow> sk_out (mw_writer w') = sk_out (mw_writer w) @ mux_frames w cs \<and> concat (map mcontent cs) = mcontent mb
       \<and> (\<forall>c \<in> set cs. length (mcontent c) \<le> 8192))"
proof -
  have "MW_WriteMultiBuffer (SequentialWriter_WriteMultiBuffer sink_Write) w mb p = MW_loop (SequentialWriter_WriteMultiBuffer sink_Write) w mb p"
    using assms(5) packets_okD(1) [OF assms(1)] by (simp add: MW_WriteMultiBuffer_def)
  then show ?thesis using snk.seqw.MW_loop_sends [OF assms(1-4)] by metis
qed

theorem mux_writer_frames_witness:
  "\<exists>w mb. mcontent mb = [1] \<and> (\<exists>e w' p' cs. MW_WriteMultiBuffer (SequentialWriter_WriteMultiBuffer sink_Write) w mb [] = Some (e, w', p')
    \<and> (e = None \<longrightarrow> sk_out (mw_writer w') = sk_out (mw_writer w) @ mux_frames w cs \<and> concat (map mcontent cs) = [1]))"
proof -
  let ?mb = "[Some (append_to (Buffer_of [0, 0]) [1])]"
  let ?w = "NewMuxWriter 1 (TCPDestination (Some (ipv4Address [10, 0, 0, 1])) 443) \<lparr>sk_out = [], sk_quota = 100\<rparr> TransferTypeStream (replicate 8 0) None"
  have i: "packets_ok ?mb" "writer_ok ?w" "int (length (mcontent ?mb)) < 2147483648" "pool_ok []" "mcontent ?mb \<noteq> []" "mcontent ?mb = [1]"
    by (auto simp: packets_ok_def writer_ok_def NewMuxWriter_def TCPDestination_def is_tcp_udp_def dest_ok_def encodable_def pool_ok_def)
  show ?thesis using mux_writer_frames [OF i(1-5)] i(6) by metis
qed

end
