(* ===== verification/Mux_Session.thy ===== *)
theory Mux_Session
  imports Mux_Frame Pipe "HOL-Library.AList"
begin

text \<open>
  The sessions of a mux connection (\<open>common/mux/session.go\<close>). A manager is the record of its fields, its Go map an
  association list from session ids to session pointers. Every method holds the manager's lock from start to end, so
  the interleavings of goroutines are the sequences of these operations. Sessions and XUDP entries are objects that
  several places point to; they live in a store (\<open>world\<close>) and a pointer is an index into it.
\<close>

section \<open>Session managers\<close>

record ClientStrategy =
  MaxConcurrency :: "32 word"
  MaxConnection :: "32 word"

record SessionManager =
  sm_sessions :: "(16 word \<times> nat) list"
  sm_count :: "16 word"
  sm_closed :: bool

definition NewSessionManager :: SessionManager where
  "NewSessionManager = \<lparr>sm_sessions = [], sm_count = 0, sm_closed = False\<rparr>"

definition SM_Size :: "SessionManager \<Rightarrow> int" where
  "SM_Size m = int (length (sm_sessions m))"

definition SM_Count :: "SessionManager \<Rightarrow> int" where
  "SM_Count m = uint (sm_count m)"

text \<open>\<open>Allocate\<close> gives the id of the new session, which the caller stores at \<open>ptr\<close>; None is the nil session.\<close>

definition Allocate :: "ClientStrategy \<Rightarrow> nat \<Rightarrow> SessionManager \<Rightarrow> 16 word option \<times> SessionManager" where
  "Allocate st ptr m =
     (let maxConcurrency = uint (MaxConcurrency st); maxConnection = ucast (MaxConnection st) :: 16 word
      in if sm_closed m \<or> (maxConcurrency > 0 \<and> SM_Size m \<ge> maxConcurrency) \<or> (maxConnection > 0 \<and> sm_count m \<ge> maxConnection)
         then (None, m)
         else let c = sm_count m + 1
              in (Some c, m\<lparr>sm_count := c, sm_sessions := AList.update c ptr (sm_sessions m)\<rparr>))"

definition SM_Add :: "16 word \<Rightarrow> nat \<Rightarrow> SessionManager \<Rightarrow> bool \<times> SessionManager" where
  "SM_Add i ptr m =
     (if sm_closed m then (False, m)
      else (True, m\<lparr>sm_count := sm_count m + 1, sm_sessions := AList.update i ptr (sm_sessions m)\<rparr>))"

definition SM_Remove :: "16 word \<Rightarrow> SessionManager \<Rightarrow> SessionManager" where
  "SM_Remove i m = (if sm_closed m then m else m\<lparr>sm_sessions := AList.delete i (sm_sessions m)\<rparr>)"

definition SM_Get :: "16 word \<Rightarrow> SessionManager \<Rightarrow> nat option" where
  "SM_Get i m = (if sm_closed m then None else map_of (sm_sessions m) i)"

definition CloseIfNoSessionAndIdle :: "int \<Rightarrow> int \<Rightarrow> SessionManager \<Rightarrow> bool \<times> SessionManager" where
  "CloseIfNoSessionAndIdle checkSize checkCount m =
     (if sm_closed m then (True, m)
      else if length (sm_sessions m) \<noteq> 0 \<or> checkSize \<noteq> 0 \<or> checkCount \<noteq> uint (sm_count m) then (False, m)
      else (True, m\<lparr>sm_closed := True, sm_sessions := []\<rparr>))"

section \<open>Sessions and XUDP entries\<close>

text \<open>What a session does with the two ends of its link; \<open>op_Gosched\<close> is what readers do to the input while the closer yields.\<close>

record ('i, 'o) link_ops =
  op_Interrupt :: "'i \<Rightarrow> 'i"
  op_ReturnAnError :: "'i \<Rightarrow> goerr \<Rightarrow> 'i"
  op_Gosched :: "'i \<Rightarrow> 'i"
  op_Recover :: "'i \<Rightarrow> 'i"
  op_Close :: "'o \<Rightarrow> 'o"

record ('i, 'o) Session =
  s_input :: 'i
  s_output :: 'o
  s_parent :: nat
  s_ID :: "16 word"
  s_transferType :: TransferType
  s_closed :: bool
  s_done :: "bool option"
  s_XUDP :: "nat option"

definition Initializing :: "64 word" where "Initializing = 0"
definition Active :: "64 word" where "Active = 1"
definition Expiring :: "64 word" where "Expiring = 2"

record XUDP =
  x_GlobalID :: "byte list"
  x_Status :: "64 word"
  x_Expire :: int
  x_Mux :: "nat option"

record ('i, 'o) world =
  wo_sessions :: "('i, 'o) Session list"
  wo_managers :: "SessionManager list"
  wo_xudps :: "XUDP list"
  wo_Map :: "(byte list \<times> nat) list"

definition upd_session :: "nat \<Rightarrow> (('i, 'o) Session \<Rightarrow> ('i, 'o) Session) \<Rightarrow> ('i, 'o) world \<Rightarrow> ('i, 'o) world" where
  "upd_session k f w = w\<lparr>wo_sessions := (wo_sessions w)[k := f (wo_sessions w ! k)]\<rparr>"

definition upd_manager :: "nat \<Rightarrow> (SessionManager \<Rightarrow> SessionManager) \<Rightarrow> ('i, 'o) world \<Rightarrow> ('i, 'o) world" where
  "upd_manager k f w = w\<lparr>wo_managers := (wo_managers w)[k := f (wo_managers w ! k)]\<rparr>"

definition upd_xudp :: "nat \<Rightarrow> (XUDP \<Rightarrow> XUDP) \<Rightarrow> ('i, 'o) world \<Rightarrow> ('i, 'o) world" where
  "upd_xudp k f w = w\<lparr>wo_xudps := (wo_xudps w)[k := f (wo_xudps w ! k)]\<rparr>"

text \<open>A minute in nanoseconds.\<close>

definition Minute :: int where "Minute = 60000000000"

definition close_ends :: "('i, 'o) link_ops \<Rightarrow> ('i, 'o) Session \<Rightarrow> ('i, 'o) Session" where
  "close_ends ops s =
     (case s_XUDP s of
        None \<Rightarrow> s\<lparr>s_input := op_Interrupt ops (s_input s), s_output := op_Close ops (s_output s)\<rparr>
      | Some _ \<Rightarrow> s\<lparr>s_input := op_Recover ops (op_Gosched ops (op_ReturnAnError ops (s_input s) EOF))\<rparr>)"

definition expire_xudp :: "int \<Rightarrow> XUDP \<Rightarrow> XUDP" where
  "expire_xudp now x = (if x_Status x = Active then x\<lparr>x_Expire := now + Minute, x_Status := Expiring\<rparr> else x)"

definition Session_Close :: "('i, 'o) link_ops \<Rightarrow> int \<Rightarrow> nat \<Rightarrow> ('i, 'o) world \<Rightarrow> ('i, 'o) world" where
  "Session_Close ops now k w =
     (let s = wo_sessions w ! k
      in if s_closed s then w
         else let w1 = upd_session k (\<lambda>s. close_ends ops (s\<lparr>s_closed := True, s_done := map_option (\<lambda>_. True) (s_done s)\<rparr>)) w;
                  w2 = (case s_XUDP s of None \<Rightarrow> w1 | Some x \<Rightarrow> upd_xudp x (expire_xudp now) w1)
              in upd_manager (s_parent s) (SM_Remove (s_ID s)) w2)"

definition SM_Close :: "('i, 'o) link_ops \<Rightarrow> int \<Rightarrow> nat \<Rightarrow> ('i, 'o) world \<Rightarrow> ('i, 'o) world" where
  "SM_Close ops now m w =
     (if sm_closed (wo_managers w ! m) then w
      else let ptrs = map snd (sm_sessions (wo_managers w ! m));
               w1 = upd_manager m (\<lambda>x. x\<lparr>sm_closed := True\<rparr>) w
           in upd_manager m (\<lambda>x. x\<lparr>sm_sessions := []\<rparr>) (fold (Session_Close ops now) ptrs w1))"

text \<open>\<open>XUDP.Interrupt\<close>; a nil \<open>Mux\<close> panics.\<close>

definition XUDP_Interrupt :: "('i, 'o) link_ops \<Rightarrow> nat \<Rightarrow> ('i, 'o) world \<Rightarrow> ('i, 'o) world option" where
  "XUDP_Interrupt ops x w =
     map_option (\<lambda>k. upd_session k (\<lambda>s. s\<lparr>s_input := op_Interrupt ops (s_input s), s_output := op_Close ops (s_output s)\<rparr>) w)
       (x_Mux (wo_xudps w ! x))"

text \<open>One round of the goroutine that \<open>init\<close> starts: entries that expired are closed and dropped.\<close>

fun xudp_sweep_list :: "('i, 'o) link_ops \<Rightarrow> int \<Rightarrow> (byte list \<times> nat) list \<Rightarrow> ('i, 'o) world \<Rightarrow> ('i, 'o) world option" where
  "xudp_sweep_list ops now [] w = Some w"
| "xudp_sweep_list ops now ((i, x) # es) w =
     (if x_Status (wo_xudps w ! x) = Expiring \<and> now > x_Expire (wo_xudps w ! x)
      then Option.bind (XUDP_Interrupt ops x w) (\<lambda>w'. xudp_sweep_list ops now es (w'\<lparr>wo_Map := AList.delete i (wo_Map w')\<rparr>))
      else xudp_sweep_list ops now es w)"

definition xudp_sweep :: "('i, 'o) link_ops \<Rightarrow> int \<Rightarrow> ('i, 'o) world \<Rightarrow> ('i, 'o) world option" where
  "xudp_sweep ops now w = xudp_sweep_list ops now (wo_Map w) w"

text \<open>
  The ends of a link that are pipes. The error channel of a pipe holds one error and \<open>Recover\<close> empties it again, so
  the send in \<open>Session.Close\<close> finds room.
\<close>

definition pipe_ops :: "(pipe, pipe) link_ops" where
  "pipe_ops = \<lparr>op_Interrupt = (\<lambda>p. fst (pipe_Interrupt p [])), op_ReturnAnError = (\<lambda>p e. p\<lparr>pp_errChan := Some e\<rparr>),
     op_Gosched = (\<lambda>p. p), op_Recover = (\<lambda>p. snd (Recover p)), op_Close = pipe_Close\<rparr>"

section \<open>Runs of a manager\<close>

text \<open>The operations that goroutines perform on one manager, and the ids that \<open>Allocate\<close> handed out on the way.\<close>

datatype sm_op = Op_Allocate nat | Op_Add "16 word" nat | Op_Remove "16 word" | Op_CloseIdle int int

fun sm_exec :: "ClientStrategy \<Rightarrow> sm_op \<Rightarrow> SessionManager \<Rightarrow> 16 word list \<times> SessionManager" where
  "sm_exec st (Op_Allocate ptr) m = (case Allocate st ptr m of (r, m') \<Rightarrow> (case r of None \<Rightarrow> [] | Some i \<Rightarrow> [i], m'))"
| "sm_exec st (Op_Add i ptr) m = (case SM_Add i ptr m of (r, m') \<Rightarrow> (if r then [i] else [], m'))"
| "sm_exec st (Op_Remove i) m = ([], SM_Remove i m)"
| "sm_exec st (Op_CloseIdle s c) m = ([], snd (CloseIfNoSessionAndIdle s c m))"

fun sm_run :: "ClientStrategy \<Rightarrow> sm_op list \<Rightarrow> SessionManager \<Rightarrow> 16 word list \<times> SessionManager" where
  "sm_run st [] m = ([], m)"
| "sm_run st (x # xs) m = (case sm_exec st x m of (a, m1) \<Rightarrow> (case sm_run st xs m1 of (b, m2) \<Rightarrow> (a @ b, m2)))"

definition is_add :: "sm_op \<Rightarrow> bool" where
  "is_add x \<longleftrightarrow> (\<exists>i p. x = Op_Add i p)"

definition sm_inv :: "SessionManager \<Rightarrow> bool" where
  "sm_inv m \<longleftrightarrow> distinct (map fst (sm_sessions m))"

lemma sm_inv_New [simp]: "sm_inv NewSessionManager"
  by (simp add: sm_inv_def NewSessionManager_def)

lemma sm_exec_inv: "sm_inv m \<Longrightarrow> sm_inv (snd (sm_exec st x m))"
  by (cases x) (auto simp: sm_inv_def Allocate_def SM_Add_def SM_Remove_def CloseIfNoSessionAndIdle_def Let_def
      distinct_update distinct_delete split: if_splits)

lemma sm_run_append:
  "sm_run st (xs @ ys) m = (case sm_run st xs m of (a, m1) \<Rightarrow> (case sm_run st ys m1 of (b, m2) \<Rightarrow> (a @ b, m2)))"
  by (induction xs arbitrary: m) (auto split: prod.splits)

lemma sm_run_inv: "sm_inv m \<Longrightarrow> sm_inv (snd (sm_run st xs m))"
proof (induction xs arbitrary: m)
  case (Cons x xs)
  show ?case using Cons.IH [OF sm_exec_inv [OF Cons.prems], of st x] by (auto split: prod.splits)
qed simp

text \<open>The counter counts registrations, modulo its width.\<close>

lemma sm_exec_count:
  "sm_exec st x m = (ids, m') \<Longrightarrow> sm_count m' = sm_count m + word_of_nat (length ids) \<and> length ids \<le> 1"
  by (cases x) (auto simp: Allocate_def SM_Add_def SM_Remove_def CloseIfNoSessionAndIdle_def Let_def split: if_splits)

lemma sm_run_count:
  "sm_run st xs m = (ids, m') \<Longrightarrow> sm_count m' = sm_count m + word_of_nat (length ids) \<and> length ids \<le> length xs"
proof (induction xs arbitrary: m ids)
  case (Cons x xs)
  obtain a m1 b where r: "sm_exec st x m = (a, m1)" "sm_run st xs m1 = (b, m')" "ids = a @ b"
    using Cons.prems by (auto split: prod.splits)
  show ?case using sm_exec_count [OF r(1)] Cons.IH [OF r(2)] r(3) by auto
qed simp

lemma length_update_le: "length (AList.update k v al) \<le> Suc (length al)"
  by (induction al) auto

lemma update_fresh: "k \<notin> fst ` set al \<Longrightarrow> AList.update k v al = al @ [(k, v)]"
  by (induction al) auto

lemma sm_exec_cases:
  assumes "sm_exec st x m = (ids, m')"
  obtains (same) "sm_sessions m' = sm_sessions m" "ids = []"
    | (added) i p where "sm_sessions m' = AList.update i p (sm_sessions m)" "ids = [i]"
    | (removed) i where "sm_sessions m' = AList.delete i (sm_sessions m)" "ids = []"
    | (closed) "sm_sessions m' = []" "ids = []"
  using assms
  by (cases x) (auto simp: Allocate_def SM_Add_def SM_Remove_def CloseIfNoSessionAndIdle_def Let_def split: if_splits)

lemma sm_exec_sessions:
  assumes "sm_exec st x m = (ids, m')"
  shows "fst ` set (sm_sessions m') \<subseteq> fst ` set (sm_sessions m) \<union> set ids"
  using assms
proof (cases rule: sm_exec_cases)
  case (added i p)
  then show ?thesis using dom_update [of i p "sm_sessions m"] by simp
next
  case (removed i)
  then show ?thesis using dom_delete_subset [of i "sm_sessions m"] by simp
qed simp_all

lemma sm_run_sessions:
  "sm_run st xs m = (ids, m') \<Longrightarrow> fst ` set (sm_sessions m') \<subseteq> fst ` set (sm_sessions m) \<union> set ids"
proof (induction xs arbitrary: m ids)
  case (Cons x xs)
  obtain a m1 b where r: "sm_exec st x m = (a, m1)" "sm_run st xs m1 = (b, m')" "ids = a @ b"
    using Cons.prems by (auto split: prod.splits)
  show ?case using sm_exec_sessions [OF r(1)] Cons.IH [OF r(2)] unfolding r(3) set_append by blast
qed simp

text \<open>The limit on concurrent sessions.\<close>

definition size_ok :: "ClientStrategy \<Rightarrow> SessionManager \<Rightarrow> bool" where
  "size_ok st m \<longleftrightarrow> (0 < uint (MaxConcurrency st) \<longrightarrow> SM_Size m \<le> uint (MaxConcurrency st))"

lemma sm_exec_size:
  assumes "sm_exec st x m = (ids, m')" "\<not> is_add x" "size_ok st m"
  shows "size_ok st m'"
proof (cases x)
  case (Op_Allocate ptr)
  then show ?thesis using assms length_update_le [of "sm_count m + 1" ptr "sm_sessions m"]
    by (auto simp: size_ok_def Allocate_def SM_Size_def Let_def split: if_splits)
next
  case (Op_Remove i)
  then show ?thesis using assms length_delete_le [of i "sm_sessions m"] by (auto simp: size_ok_def SM_Remove_def SM_Size_def)
qed (use assms in \<open>auto simp: size_ok_def is_add_def SM_Size_def CloseIfNoSessionAndIdle_def split: if_splits\<close>)

lemma sm_run_size:
  "sm_run st xs m = (ids, m') \<Longrightarrow> \<forall>x \<in> set xs. \<not> is_add x \<Longrightarrow> size_ok st m \<Longrightarrow> size_ok st m'"
proof (induction xs arbitrary: m ids)
  case (Cons x xs)
  obtain a m1 b where r: "sm_exec st x m = (a, m1)" "sm_run st xs m1 = (b, m')"
    using Cons.prems by (auto split: prod.splits)
  show ?case using sm_exec_size [OF r(1)] Cons.IH [OF r(2)] Cons.prems by auto
qed simp

text \<open>With a connection limit the ids are handed out in order and never twice.\<close>

lemma sm_exec_ids:
  assumes "sm_exec st x m = (ids, m')" "\<not> is_add x" "0 < (ucast (MaxConnection st) :: 16 word)" "sm_count m \<le> ucast (MaxConnection st)"
  shows "sm_count m' \<le> ucast (MaxConnection st) \<and> unat (sm_count m') = unat (sm_count m) + length ids
    \<and> ids = map word_of_nat [Suc (unat (sm_count m))..<Suc (unat (sm_count m'))]"
proof (cases x)
  case (Op_Allocate ptr)
  show ?thesis
  proof (cases "ids = []")
    case False
    then have lt: "sm_count m < ucast (MaxConnection st)" and i: "ids = [sm_count m + 1]" "sm_count m' = sm_count m + 1"
      using assms(1,3,4) Op_Allocate by (auto simp: Allocate_def Let_def split: if_splits)
    have "unat (sm_count m) < 65535" using lt unsigned_less [where 'a = nat, of "ucast (MaxConnection st) :: 16 word"] by (simp add: word_less_nat_alt)
    then have u: "unat (sm_count m + 1) = Suc (unat (sm_count m))" by (simp add: unat_word_ariths)
    have "sm_count m + 1 \<le> ucast (MaxConnection st)" using lt u by (simp add: word_less_nat_alt word_le_nat_alt)
    moreover have "word_of_nat (unat (sm_count m + 1)) = sm_count m + 1" by simp
    ultimately show ?thesis using i u by simp
  qed (use assms Op_Allocate in \<open>auto simp: Allocate_def Let_def split: if_splits\<close>)
qed (use assms in \<open>auto simp: is_add_def SM_Remove_def CloseIfNoSessionAndIdle_def split: if_splits\<close>)

lemma sm_run_ids:
  assumes "sm_run st xs m = (ids, m')" "\<forall>x \<in> set xs. \<not> is_add x" "0 < (ucast (MaxConnection st) :: 16 word)" "sm_count m \<le> ucast (MaxConnection st)"
  shows "sm_count m' \<le> ucast (MaxConnection st) \<and> unat (sm_count m') = unat (sm_count m) + length ids
    \<and> ids = map word_of_nat [Suc (unat (sm_count m))..<Suc (unat (sm_count m'))]"
  using assms
proof (induction xs arbitrary: m ids)
  case (Cons x xs)
  obtain a m1 b where r: "sm_exec st x m = (a, m1)" "sm_run st xs m1 = (b, m')" "ids = a @ b"
    using Cons.prems by (auto split: prod.splits)
  have x: "\<not> is_add x" "\<forall>x \<in> set xs. \<not> is_add x" using Cons.prems(2) by simp_all
  note 1 = sm_exec_ids [OF r(1) x(1) Cons.prems(3,4)]
  note 2 = Cons.IH [OF r(2) x(2) Cons.prems(3) conjunct1 [OF 1]]
  have u: "unat (sm_count m1) = unat (sm_count m) + length a" "unat (sm_count m') = unat (sm_count m1) + length b"
    using 1 2 by blast+
  have "[Suc (unat (sm_count m))..<Suc (unat (sm_count m'))]
      = [Suc (unat (sm_count m))..<Suc (unat (sm_count m1))] @ [Suc (unat (sm_count m1))..<Suc (unat (sm_count m'))]"
    using upt_add_eq_append [of "Suc (unat (sm_count m))" "Suc (unat (sm_count m1))" "length b"] u by simp
  moreover have "ids = map word_of_nat ([Suc (unat (sm_count m))..<Suc (unat (sm_count m1))]
      @ [Suc (unat (sm_count m1))..<Suc (unat (sm_count m'))])"
    unfolding r(3) map_append by (rule arg_cong2 [where f = append]) (use 1 2 in blast)+
  moreover have "unat (sm_count m') = unat (sm_count m) + length ids" using u unfolding r(3) by simp
  ultimately show ?case using 2 by metis
qed simp

lemma distinct_word_upt:
  assumes "n \<le> 65536"
  shows "distinct (map (word_of_nat :: nat \<Rightarrow> 16 word) [1..<n])"
proof -
  have "inj_on (word_of_nat :: nat \<Rightarrow> 16 word) {1..<n}"
    by (rule inj_on_inverseI [where g = unat]) (use assms in \<open>simp add: unsigned_of_nat take_bit_nat_eq_self\<close>)
  then show ?thesis by (simp add: distinct_map)
qed

text \<open>Without limits every id is handed out once before the counter starts over.\<close>

lemma word16_fresh:
  assumes "j < k" "k \<le> 65536" "0 < j"
  shows "(word_of_nat j :: 16 word) \<noteq> word_of_nat k"
proof
  assume "(word_of_nat j :: 16 word) = word_of_nat k"
  then have "k mod 65536 = j mod 65536" by (simp add: word_of_nat_eq_iff take_bit_eq_mod)
  then have "65536 dvd k - j" using assms(1) mod_eq_dvd_iff_nat [of j k 65536] by (metis less_imp_le)
  then show False using assms by (simp add: nat_dvd_not_less)
qed

lemma alloc_many:
  assumes "MaxConcurrency st = 0" "(ucast (MaxConnection st) :: 16 word) = 0" "n \<le> 65536"
  shows "snd (sm_run st (map Op_Allocate [0..<n]) NewSessionManager)
    = \<lparr>sm_sessions = map (\<lambda>k. (word_of_nat (Suc k), k)) [0..<n], sm_count = word_of_nat n, sm_closed = False\<rparr>"
  using assms(3)
proof (induction n)
  case (Suc n)
  let ?l = "map (\<lambda>k. (word_of_nat (Suc k) :: 16 word, k)) [0..<n]"
  have "word_of_nat (Suc n) \<notin> fst ` set ?l"
    using word16_fresh [of _ "Suc n"] Suc.prems by (fastforce simp del: of_nat_Suc)
  then have "AList.update (word_of_nat (Suc n)) n ?l = map (\<lambda>k. (word_of_nat (Suc k), k)) [0..<Suc n]"
    by (simp add: update_fresh del: of_nat_Suc)
  then show ?case using Suc assms(1,2)
    by (auto simp: sm_run_append Allocate_def Let_def add.commute split: prod.splits)
qed (simp add: NewSessionManager_def)

section \<open>Closing sessions\<close>

definition closed_session :: "('i, 'o) link_ops \<Rightarrow> ('i, 'o) Session \<Rightarrow> ('i, 'o) Session" where
  "closed_session ops s =
     (if s_closed s then s else close_ends ops (s\<lparr>s_closed := True, s_done := map_option (\<lambda>_. True) (s_done s)\<rparr>))"

lemma close_ends_simps [simp]:
  "s_closed (close_ends ops s) = s_closed s" "s_parent (close_ends ops s) = s_parent s" "s_ID (close_ends ops s) = s_ID s"
  "s_XUDP (close_ends ops s) = s_XUDP s"
  by (simp_all add: close_ends_def split: option.splits)

lemma closed_session_closed [simp]: "s_closed (closed_session ops s)"
  by (simp add: closed_session_def)

lemma closed_session_idem [simp]: "closed_session ops (closed_session ops s) = closed_session ops s"
  by (simp add: closed_session_def)

lemma Session_Close_sessions [simp]:
  "wo_sessions (Session_Close ops now k w) = (wo_sessions w)[k := closed_session ops (wo_sessions w ! k)]"
  by (auto simp: Session_Close_def closed_session_def upd_session_def upd_manager_def upd_xudp_def Let_def split: option.splits)

lemma Session_Close_managers:
  "wo_managers (Session_Close ops now k w) =
     (let s = wo_sessions w ! k in if s_closed s then wo_managers w
      else (wo_managers w)[s_parent s := SM_Remove (s_ID s) (wo_managers w ! s_parent s)])"
  by (auto simp: Session_Close_def upd_session_def upd_manager_def upd_xudp_def Let_def split: option.splits)

lemma Session_Close_Map [simp]: "wo_Map (Session_Close ops now k w) = wo_Map w"
  by (auto simp: Session_Close_def upd_session_def upd_manager_def upd_xudp_def Let_def split: option.splits)

lemma Session_Close_closed_manager:
  assumes "sm_closed (wo_managers w ! m)"
  shows "wo_managers (Session_Close ops now k w) ! m = wo_managers w ! m"
  using assms by (cases "s_parent (wo_sessions w ! k) = m") (simp_all add: Session_Close_managers Let_def SM_Remove_def)

lemma fold_close_sessions:
  "set ks \<subseteq> {..<length (wo_sessions w)} \<Longrightarrow> j < length (wo_sessions w) \<Longrightarrow>
   length (wo_sessions (fold (Session_Close ops now) ks w)) = length (wo_sessions w)
   \<and> wo_sessions (fold (Session_Close ops now) ks w) ! j
     = (if j \<in> set ks then closed_session ops (wo_sessions w ! j) else wo_sessions w ! j)"
proof (induction ks arbitrary: w)
  case (Cons k ks)
  let ?w = "Session_Close ops now k w"
  have l: "length (wo_sessions ?w) = length (wo_sessions w)" by simp
  show ?case using Cons.IH [of ?w] Cons.prems unfolding l by (auto simp: nth_list_update)
qed simp

lemma fold_close_manager:
  "sm_closed (wo_managers w ! m) \<Longrightarrow> wo_managers (fold (Session_Close ops now) ks w) ! m = wo_managers w ! m"
proof (induction ks arbitrary: w)
  case (Cons k ks)
  then show ?case using Session_Close_closed_manager [OF Cons.prems, of ops now k] by simp
qed simp

lemma length_managers_fold [simp]: "length (wo_managers (fold (Session_Close ops now) ks w)) = length (wo_managers w)"
  by (induction ks arbitrary: w) (simp_all add: Session_Close_managers Let_def)

section \<open>Properties\<close>

text \<open>
  C5. Session ids of a client connection are never used twice: with a connection limit, every interleaving of
  allocations, removals and idle checks hands out the ids 1, 2, 3, ... at most up to the limit, only those ids are ever
  registered, and the number of live sessions stays within the concurrency limit.
\<close>

theorem session_ids_never_reused:
  assumes "0 < (ucast (MaxConnection st) :: 16 word)" "\<forall>x \<in> set xs. \<not> is_add x" "sm_run st xs NewSessionManager = (ids, m)"
  shows "ids = map word_of_nat [1..<Suc (length ids)] \<and> distinct ids
    \<and> length ids \<le> unat (ucast (MaxConnection st) :: 16 word) \<and> fst ` set (sm_sessions m) \<subseteq> set ids
    \<and> (0 < uint (MaxConcurrency st) \<longrightarrow> SM_Size m \<le> uint (MaxConcurrency st))"
proof -
  have "sm_count NewSessionManager \<le> ucast (MaxConnection st)" by (simp add: NewSessionManager_def)
  note r = sm_run_ids [OF assms(3,2,1) this]
  have c: "unat (sm_count m) = length ids" using conjunct1 [OF conjunct2 [OF r]] by (simp add: NewSessionManager_def)
  have i: "ids = map word_of_nat [1..<Suc (length ids)]"
    using conjunct2 [OF conjunct2 [OF r]] unfolding c by (simp add: NewSessionManager_def)
  have l: "length ids \<le> unat (ucast (MaxConnection st) :: 16 word)" using conjunct1 [OF r] c by (simp add: word_le_nat_alt)
  moreover have "unat (ucast (MaxConnection st) :: 16 word) < 65536"
    using unsigned_less [where 'a = nat, of "ucast (MaxConnection st) :: 16 word"] by simp
  ultimately have "distinct ids" by (subst i) (rule distinct_word_upt, simp)
  moreover have "fst ` set (sm_sessions m) \<subseteq> set ids"
    using sm_run_sessions [OF assms(3)] by (simp add: NewSessionManager_def)
  moreover have "size_ok st m"
    using sm_run_size [OF assms(3,2)] by (simp add: size_ok_def NewSessionManager_def SM_Size_def)
  ultimately show ?thesis using i l unfolding size_ok_def by blast
qed

theorem session_ids_never_reused_witness:
  "sm_run \<lparr>MaxConcurrency = 8, MaxConnection = 128\<rparr> [Op_Allocate 0, Op_Remove 1, Op_Allocate 1] NewSessionManager
     = ([1, 2], \<lparr>sm_sessions = [(2, 1)], sm_count = 2, sm_closed = False\<rparr>)
   \<and> distinct [1, 2 :: 16 word]"
proof -
  have r: "sm_run \<lparr>MaxConcurrency = 8, MaxConnection = 128\<rparr> [Op_Allocate 0, Op_Remove 1, Op_Allocate 1] NewSessionManager
     = ([1, 2], \<lparr>sm_sessions = [(2, 1)], sm_count = 2, sm_closed = False\<rparr>)"
    by (simp add: Allocate_def SM_Remove_def NewSessionManager_def SM_Size_def word_le_def)
  have "distinct [1, 2 :: 16 word]"
    using session_ids_never_reused [OF _ _ r] by (simp add: is_add_def)
  with r show ?thesis by blast
qed

text \<open>
  Without a connection limit (as the reverse proxy's workers run) the 16-bit counter starts over: after 65536 sessions that
  are all still open, the next \<open>Allocate\<close> hands out the id of the first session again and takes its place in the map, so
  the frames of the first session go to the new one.
\<close>

theorem session_id_wraps:
  assumes "MaxConcurrency st = 0" "(ucast (MaxConnection st) :: 16 word) = 0"
    "m = snd (sm_run st (map Op_Allocate [0..<65536]) NewSessionManager)"
  shows "SM_Get 1 m = Some 0 \<and> (\<exists>m'. Allocate st ptr m = (Some 1, m') \<and> SM_Get 1 m' = Some ptr)"
proof -
  obtain n :: nat where n: "n = 65536" by blast
  then have w: "(word_of_nat n :: 16 word) = 0" "0 < n" by simp_all
  have m: "m = \<lparr>sm_sessions = map (\<lambda>k. (word_of_nat (Suc k), k)) [0..<n], sm_count = 0, sm_closed = False\<rparr>"
    using alloc_many [OF assms(1,2) eq_refl [OF n]] assms(3) unfolding n [symmetric] w(1) by blast
  have "map_of (map (\<lambda>k. (word_of_nat (Suc k) :: 16 word, k)) [0..<n]) 1 = Some 0"
    unfolding upt_conv_Cons [OF w(2)] by simp
  moreover have "Allocate st ptr m = (Some 1, m\<lparr>sm_count := 1, sm_sessions := AList.update 1 ptr (sm_sessions m)\<rparr>)"
    using assms(1,2) m by (simp add: Allocate_def Let_def)
  ultimately show ?thesis using m by (simp add: SM_Get_def update_conv')
qed

theorem session_id_wraps_witness:
  "\<exists>st. MaxConnection st = 0 \<and> SM_Get 1 (snd (sm_run st (map Op_Allocate [0..<65536]) NewSessionManager)) = Some 0"
proof -
  let ?st = "\<lparr>MaxConcurrency = 0, MaxConnection = 0\<rparr>"
  have "MaxConcurrency ?st = 0" "(ucast (MaxConnection ?st) :: 16 word) = 0" by simp_all
  from conjunct1 [OF session_id_wraps [OF this refl]] show ?thesis by (intro exI [of _ ?st] conjI) (simp only: ClientStrategy.simps)
qed

text \<open>
  The idle check never closes a connection that was used since the last look: if the timer goroutine sampled size and
  count, fewer than 65536 operations happened since, and the check then closes the manager, no session was registered in
  between and none was open at either time.
\<close>

theorem idle_close_is_safe:
  assumes "sm_run st xs m = (ids, m')" "length xs < 65536" "\<not> sm_closed m'"
    "CloseIfNoSessionAndIdle (SM_Size m) (SM_Count m) m' = (True, m'')"
  shows "ids = [] \<and> sm_sessions m = [] \<and> sm_sessions m' = [] \<and> sm_closed m''"
proof -
  have u: "uint (sm_count m) = uint (sm_count m')"
    using assms(3,4) by (auto simp: CloseIfNoSessionAndIdle_def SM_Count_def split: if_splits)
  have c: "sm_sessions m' = []" "sm_sessions m = []" "sm_count m' = sm_count m" "sm_closed m''"
    using assms(3,4) unsigned_word_eqI [OF u] by (auto simp: CloseIfNoSessionAndIdle_def SM_Size_def split: if_splits)
  have r: "sm_count m' = sm_count m + word_of_nat (length ids)" "length ids \<le> length xs"
    using sm_run_count [OF assms(1)] by blast+
  then have "65536 dvd length ids" using c(3) by (simp add: word_of_nat_eq_0_iff)
  then have "ids = []" using r(2) assms(2) by (cases ids) (auto dest: dvd_imp_le)
  with c show ?thesis by blast
qed

theorem idle_close_is_safe_witness:
  "\<exists>m'. CloseIfNoSessionAndIdle (SM_Size NewSessionManager) (SM_Count NewSessionManager) NewSessionManager = (True, m') \<and> sm_closed m'"
proof -
  let ?m = "NewSessionManager\<lparr>sm_closed := True, sm_sessions := []\<rparr>"
  have r: "sm_run \<lparr>MaxConcurrency = 8, MaxConnection = 128\<rparr> [Op_Remove 7] NewSessionManager = ([], NewSessionManager)"
    by (simp add: SM_Remove_def NewSessionManager_def)
  have c: "CloseIfNoSessionAndIdle (SM_Size NewSessionManager) (SM_Count NewSessionManager) NewSessionManager = (True, ?m)"
    by (simp add: CloseIfNoSessionAndIdle_def SM_Size_def SM_Count_def NewSessionManager_def)
  have "sm_closed ?m" using idle_close_is_safe [OF r _ _ c] by (simp add: NewSessionManager_def)
  with c show ?thesis by blast
qed

text \<open>
  Closing a manager closes every session it holds exactly once and leaves every other session alone: both ends of
  the link are shut down (or, for XUDP, the reader is released and the link kept), a session that was already closed is
  not touched, and afterwards the manager is empty and registers nothing any more.
\<close>

theorem manager_close_closes_all:
  assumes "m < length (wo_managers w)" "\<not> sm_closed (wo_managers w ! m)"
    "snd ` set (sm_sessions (wo_managers w ! m)) \<subseteq> {..<length (wo_sessions w)}" "j < length (wo_sessions w)"
  shows "wo_sessions (SM_Close ops now m w) ! j
      = (if j \<in> snd ` set (sm_sessions (wo_managers w ! m)) then closed_session ops (wo_sessions w ! j) else wo_sessions w ! j)
    \<and> sm_closed (wo_managers (SM_Close ops now m w) ! m) \<and> sm_sessions (wo_managers (SM_Close ops now m w) ! m) = []
    \<and> fst (SM_Add i ptr (wo_managers (SM_Close ops now m w) ! m)) = False"
proof -
  let ?w = "upd_manager m (\<lambda>x. x\<lparr>sm_closed := True\<rparr>) w" and ?ks = "map snd (sm_sessions (wo_managers w ! m))"
  have s: "wo_sessions ?w = wo_sessions w" "sm_closed (wo_managers ?w ! m)" using assms(1) by (simp_all add: upd_manager_def)
  have c: "SM_Close ops now m w = upd_manager m (\<lambda>x. x\<lparr>sm_sessions := []\<rparr>) (fold (Session_Close ops now) ?ks ?w)"
    using assms(2) by (simp add: SM_Close_def Let_def)
  have "set ?ks \<subseteq> {..<length (wo_sessions ?w)}" "j < length (wo_sessions ?w)" using assms(3,4) s(1) by simp_all
  note f = fold_close_sessions [OF this, of ops now]
  have "wo_sessions (SM_Close ops now m w) ! j
      = (if j \<in> snd ` set (sm_sessions (wo_managers w ! m)) then closed_session ops (wo_sessions w ! j) else wo_sessions w ! j)"
    using f s(1) by (simp add: c upd_manager_def [where k = m and f = "\<lambda>x. x\<lparr>sm_sessions := []\<rparr>"])
  moreover have "wo_managers (SM_Close ops now m w) ! m = (wo_managers ?w ! m)\<lparr>sm_sessions := []\<rparr>"
    using fold_close_manager [OF s(2), of ops now ?ks] length_managers_fold [of ops now ?ks ?w] assms(1)
    by (simp add: c upd_manager_def [where k = m and f = "\<lambda>x. x\<lparr>sm_sessions := []\<rparr>"]) (simp add: upd_manager_def)
  ultimately show ?thesis using s(2) by (simp add: SM_Add_def)
qed

definition demo_session :: "(pipe, pipe) Session" where
  "demo_session = \<lparr>s_input = pipe_New 65536 False, s_output = pipe_New 65536 False, s_parent = 0, s_ID = 1,
     s_transferType = TransferTypeStream, s_closed = False, s_done = Some False, s_XUDP = None\<rparr>"

definition demo_world :: "(pipe, pipe) world" where
  "demo_world = \<lparr>wo_sessions = [demo_session, demo_session\<lparr>s_ID := 2\<rparr>],
     wo_managers = [\<lparr>sm_sessions = [(1, 0)], sm_count = 2, sm_closed = False\<rparr>], wo_xudps = [], wo_Map = []\<rparr>"

theorem manager_close_closes_all_witness:
  "wo_sessions (SM_Close pipe_ops 0 0 demo_world) ! 0 = closed_session pipe_ops demo_session
   \<and> sm_closed (wo_managers (SM_Close pipe_ops 0 0 demo_world) ! 0)"
proof -
  have "0 < length (wo_managers demo_world)" "\<not> sm_closed (wo_managers demo_world ! 0)"
    "snd ` set (sm_sessions (wo_managers demo_world ! 0)) \<subseteq> {..<length (wo_sessions demo_world)}" "0 < length (wo_sessions demo_world)"
    by (simp_all add: demo_world_def)
  from manager_close_closes_all [OF this, of pipe_ops 0] show ?thesis by (simp add: demo_world_def)
qed

text \<open>
  A session unregisters itself by number only: when two open sessions of a connection carry the same id, closing the older
  one, which is no longer in the map, takes the newer one out of the map, and its frames are answered with an end frame
  although it is open.
\<close>

theorem stale_close_unregisters_successor:
  assumes "s_parent (wo_sessions w ! a) = m" "m < length (wo_managers w)" "s_ID (wo_sessions w ! a) = i"
    "\<not> s_closed (wo_sessions w ! a)" "SM_Get i (wo_managers w ! m) = Some b" "a \<noteq> b" "\<not> s_closed (wo_sessions w ! b)"
  shows "SM_Get i (wo_managers (Session_Close ops now a w) ! m) = None
    \<and> \<not> s_closed (wo_sessions (Session_Close ops now a w) ! b)"
  using assms by (auto simp: Session_Close_managers Let_def SM_Get_def SM_Remove_def delete_conv' split: if_splits)

theorem stale_close_unregisters_successor_witness:
  "\<exists>w. SM_Get 1 (wo_managers w ! 0) = Some 1 \<and> SM_Get 1 (wo_managers (Session_Close pipe_ops 0 0 w) ! 0) = None"
proof -
  let ?w = "\<lparr>wo_sessions = [demo_session, demo_session], wo_managers = [\<lparr>sm_sessions = [(1, 1)], sm_count = 2, sm_closed = False\<rparr>],
    wo_xudps = [], wo_Map = []\<rparr>"
  have "s_parent (wo_sessions ?w ! 0) = 0" "0 < length (wo_managers ?w)" "s_ID (wo_sessions ?w ! 0) = 1"
    "\<not> s_closed (wo_sessions ?w ! 0)" "SM_Get 1 (wo_managers ?w ! 0) = Some 1" "(0 :: nat) \<noteq> 1" "\<not> s_closed (wo_sessions ?w ! 1)"
    by (simp_all add: demo_session_def SM_Get_def)
  from stale_close_unregisters_successor [OF this, of pipe_ops 0] show ?thesis
    by (intro exI [of _ ?w]) (simp add: SM_Get_def)
qed

end
