(* ===== verification/Mux_Worker.thy ===== *)
theory Mux_Worker
  imports Mux_Session "HOL-Library.Multiset"
begin

text \<open>
  The two ends of a mux connection: \<open>common/mux/client.go\<close> (workers, the worker picker, the frame loop) and
  \<open>common/mux/server.go\<close> (the frame handlers and the frame loop). A frame handler is one sequence of operations on the
  store, the connection's reader and the connection's writer; what it copies goes through the reader contracts of
  the buffer library. The goroutines a handler starts are recorded in the order they are started.
\<close>

section \<open>Client workers\<close>

record ClientWorker =
  cw_manager :: nat
  cw_done :: bool
  cw_strategy :: ClientStrategy

record ('i, 'o) mux_client =
  mc_world :: "('i, 'o) world"
  mc_heap :: "ClientWorker list"
  mc_workers :: "nat list"
  mc_task :: "bool option"

definition cw_sm :: "('i, 'o) mux_client \<Rightarrow> ClientWorker \<Rightarrow> SessionManager" where
  "cw_sm c w = wo_managers (mc_world c) ! cw_manager w"

definition CW_Closed :: "('i, 'o) mux_client \<Rightarrow> nat \<Rightarrow> bool" where
  "CW_Closed c k = cw_done (mc_heap c ! k)"

definition CW_Close :: "nat \<Rightarrow> ('i, 'o) mux_client \<Rightarrow> ('i, 'o) mux_client" where
  "CW_Close k c = c\<lparr>mc_heap := (mc_heap c)[k := (mc_heap c ! k)\<lparr>cw_done := True\<rparr>]\<rparr>"

definition TotalConnections :: "('i, 'o) mux_client \<Rightarrow> nat \<Rightarrow> 32 word" where
  "TotalConnections c k = word_of_int (SM_Count (cw_sm c (mc_heap c ! k)))"

definition ActiveConnections :: "('i, 'o) mux_client \<Rightarrow> nat \<Rightarrow> 32 word" where
  "ActiveConnections c k = word_of_int (SM_Size (cw_sm c (mc_heap c ! k)))"

definition IsClosing :: "('i, 'o) mux_client \<Rightarrow> nat \<Rightarrow> bool" where
  "IsClosing c k =
     (let w = mc_heap c ! k
      in MaxConnection (cw_strategy w) > 0 \<and> SM_Count (cw_sm c w) \<ge> uint (MaxConnection (cw_strategy w)))"

definition CW_IsFull :: "('i, 'o) mux_client \<Rightarrow> nat \<Rightarrow> bool" where
  "CW_IsFull c k =
     (if IsClosing c k \<or> CW_Closed c k then True
      else let w = mc_heap c ! k
           in MaxConcurrency (cw_strategy w) > 0 \<and> SM_Size (cw_sm c w) \<ge> uint (MaxConcurrency (cw_strategy w)))"

text \<open>\<open>ClientWorker.Dispatch\<close> up to the start of \<open>fetchInput\<close>: a session is registered for the two ends of the link.\<close>

definition CW_Dispatch :: "nat \<Rightarrow> 'i \<times> 'o \<Rightarrow> ('i, 'o) mux_client \<Rightarrow> bool \<times> ('i, 'o) mux_client" where
  "CW_Dispatch k link c =
     (if CW_IsFull c k then (False, c)
      else let w = mc_heap c ! k; ptr = length (wo_sessions (mc_world c))
           in case Allocate (cw_strategy w) ptr (cw_sm c w) of
                (None, _) \<Rightarrow> (False, c)
              | (Some i, sm) \<Rightarrow>
                  (True, c\<lparr>mc_world := upd_manager (cw_manager w) (\<lambda>_. sm)
                     ((mc_world c)\<lparr>wo_sessions := wo_sessions (mc_world c)
                        @ [\<lparr>s_input = fst link, s_output = snd link, s_parent = cw_manager w, s_ID = i,
                            s_transferType = TransferTypeStream, s_closed = False, s_done = Some False, s_XUDP = None\<rparr>]\<rparr>)\<rparr>))"

definition NewClientWorker :: "ClientStrategy \<Rightarrow> ('i, 'o) mux_client \<Rightarrow> nat \<times> ('i, 'o) mux_client" where
  "NewClientWorker st c =
     (length (mc_heap c),
      c\<lparr>mc_heap := mc_heap c @ [\<lparr>cw_manager = length (wo_managers (mc_world c)), cw_done = False, cw_strategy = st\<rparr>],
        mc_world := (mc_world c)\<lparr>wo_managers := wo_managers (mc_world c) @ [NewSessionManager]\<rparr>\<rparr>)"

text \<open>One turn of \<open>monitor\<close>: either the connection is done, or the timer fired after the given samples.\<close>

definition cw_monitor :: "('i, 'o) link_ops \<Rightarrow> int \<Rightarrow> nat \<Rightarrow> int \<Rightarrow> int \<Rightarrow> ('i, 'o) mux_client \<Rightarrow> ('i, 'o) mux_client" where
  "cw_monitor ops now k checkSize checkCount c =
     (let w = mc_heap c ! k
      in if cw_done w then c\<lparr>mc_world := SM_Close ops now (cw_manager w) (mc_world c)\<rparr>
         else case CloseIfNoSessionAndIdle checkSize checkCount (cw_sm c w) of (closed', sm) \<Rightarrow>
           let c1 = c\<lparr>mc_world := upd_manager (cw_manager w) (\<lambda>_. sm) (mc_world c)\<rparr>
           in if closed' then CW_Close k c1 else c1)"

section \<open>The worker picker\<close>

type_synonym ('i, 'o) factory = "('i, 'o) mux_client \<Rightarrow> (nat + goerr) \<times> ('i, 'o) mux_client"

definition DialingWorkerFactory_Create :: "ClientStrategy \<Rightarrow> ('i, 'o) factory" where
  "DialingWorkerFactory_Create st c = (case NewClientWorker st c of (k, c') \<Rightarrow> (Inl k, c'))"

definition picker_cleanup :: "('i, 'o) mux_client \<Rightarrow> ('i, 'o) mux_client" where
  "picker_cleanup c = c\<lparr>mc_workers := filter (\<lambda>k. \<not> CW_Closed c k) (mc_workers c)\<rparr>"

definition cleanupFunc :: "('i, 'o) mux_client \<Rightarrow> goerr option \<times> ('i, 'o) mux_client" where
  "cleanupFunc c = (if mc_workers c = [] then (Some (ENew ''no worker'' None), c) else (None, picker_cleanup c))"

fun find_index_from :: "('a \<Rightarrow> bool) \<Rightarrow> int \<Rightarrow> 'a list \<Rightarrow> int" where
  "find_index_from P i [] = -1"
| "find_index_from P i (x # xs) = (if P x then i else find_index_from P (i + 1) xs)"

definition findAvailable :: "('i, 'o) mux_client \<Rightarrow> int" where
  "findAvailable c = find_index_from (\<lambda>k. \<not> CW_IsFull c k) 0 (mc_workers c)"

definition pickInternal :: "('i, 'o) factory \<Rightarrow> ('i, 'o) mux_client \<Rightarrow> (nat + goerr) \<times> bool \<times> ('i, 'o) mux_client" where
  "pickInternal fac c =
     (let idx = findAvailable c
      in if idx \<ge> 0 then
           let n = length (mc_workers c); ws = mc_workers c;
               ws' = (if n > 1 \<and> idx \<noteq> int n - 1 then ws[n - 1 := ws ! nat idx, nat idx := ws ! (n - 1)] else ws)
           in (Inl (ws' ! nat idx), False, c\<lparr>mc_workers := ws'\<rparr>)
         else
           case fac (picker_cleanup c) of
             (Inr e, c1) \<Rightarrow> (Inr e, False, c1)
           | (Inl k, c1) \<Rightarrow>
               (Inl k, True, c1\<lparr>mc_workers := mc_workers c1 @ [k], mc_task := (case mc_task c1 of None \<Rightarrow> Some False | t \<Rightarrow> t)\<rparr>))"

text \<open>\<open>cleanupTask.Start()\<close>: a running task is left alone, otherwise the function runs once and, without an error, goes on.\<close>

definition start_cleanup :: "('i, 'o) mux_client \<Rightarrow> goerr option \<times> ('i, 'o) mux_client" where
  "start_cleanup c =
     (if mc_task c = Some True then (None, c)
      else case cleanupFunc c of (e, c1) \<Rightarrow> (e, c1\<lparr>mc_task := Some (e = None)\<rparr>))"

definition PickAvailable :: "('i, 'o) factory \<Rightarrow> ('i, 'o) mux_client \<Rightarrow> (nat + goerr) \<times> ('i, 'o) mux_client" where
  "PickAvailable fac c =
     (case pickInternal fac c of (r, start, c1) \<Rightarrow>
       if start then (case start_cleanup c1 of (Some e, c2) \<Rightarrow> (Inr e, c2) | (None, c2) \<Rightarrow> (r, c2))
       else (r, c1))"

text \<open>\<open>ClientManager.Dispatch\<close> gives up after 16 workers.\<close>

fun CM_Dispatch_loop :: "nat \<Rightarrow> ('i, 'o) factory \<Rightarrow> 'i \<times> 'o \<Rightarrow> ('i, 'o) mux_client \<Rightarrow> goerr option \<times> ('i, 'o) mux_client" where
  "CM_Dispatch_loop 0 fac link c = (Some (ENew ''unable to find an available mux client'' None), c)"
| "CM_Dispatch_loop (Suc n) fac link c =
     (case PickAvailable fac c of
        (Inr e, c1) \<Rightarrow> (Some e, c1)
      | (Inl k, c1) \<Rightarrow> (case CW_Dispatch k link c1 of
          (True, c2) \<Rightarrow> (None, c2)
        | (False, c2) \<Rightarrow> CM_Dispatch_loop n fac link c2))"

definition CM_Dispatch :: "('i, 'o) factory \<Rightarrow> 'i \<times> 'o \<Rightarrow> ('i, 'o) mux_client \<Rightarrow> goerr option \<times> ('i, 'o) mux_client" where
  "CM_Dispatch = CM_Dispatch_loop 16"

section \<open>Picking a worker\<close>

lemma find_index_from_none: "find_index_from P i xs = -1 \<or> (\<exists>j < length xs. find_index_from P i xs = i + int j \<and> P (xs ! j))"
proof (induction xs arbitrary: i)
  case (Cons x xs)
  show ?case
  proof (cases "P x")
    case False
    from Cons.IH [of "i + 1"] show ?thesis
    proof
      assume "\<exists>j < length xs. find_index_from P (i + 1) xs = i + 1 + int j \<and> P (xs ! j)"
      then obtain j where "j < length xs" "find_index_from P (i + 1) xs = i + 1 + int j" "P (xs ! j)" by blast
      then show ?thesis using False by (intro disjI2 exI [of _ "Suc j"]) simp
    qed (use False in simp)
  qed auto
qed simp

lemma find_index_from_found: "0 \<le> i \<Longrightarrow> x \<in> set xs \<Longrightarrow> P x \<Longrightarrow> find_index_from P i xs \<noteq> -1"
  by (induction xs arbitrary: i) auto

lemma CW_IsFull_workers [simp]: "CW_IsFull (c\<lparr>mc_workers := ws\<rparr>) k = CW_IsFull c k"
  by (simp add: CW_IsFull_def IsClosing_def CW_Closed_def cw_sm_def)

text \<open>
  A worker with room makes the picker return one of its workers. It may be a full one, but then the worker with room
  is at the end of the list, and with such a worker at the end the pick has room.
\<close>

lemma pickInternal_available:
  assumes "k \<in> set (mc_workers c)" "\<not> CW_IsFull c k"
  obtains j ws where "pickInternal fac c = (Inl j, False, c\<lparr>mc_workers := ws\<rparr>)" "ws \<noteq> []" "mset ws = mset (mc_workers c)"
    "\<not> CW_IsFull c (last ws)" "\<not> CW_IsFull c (last (mc_workers c)) \<longrightarrow> \<not> CW_IsFull c j" "j \<in> set (mc_workers c)"
    "findAvailable c < int (length (mc_workers c)) - 1 \<longrightarrow> j = last (mc_workers c)"
proof -
  let ?ws = "mc_workers c" and ?n = "length (mc_workers c)"
  obtain i where i: "i < ?n" "findAvailable c = int i" "\<not> CW_IsFull c (?ws ! i)"
    using find_index_from_none [of "\<lambda>k. \<not> CW_IsFull c k" 0 ?ws] find_index_from_found [OF _ assms(1), of 0 "\<lambda>k. \<not> CW_IsFull c k"] assms(2)
    unfolding findAvailable_def by auto
  have ne: "?ws \<noteq> []" using i(1) by auto
  have l: "last ?ws = ?ws ! (?n - 1)" using last_conv_nth [OF ne] by simp
  show ?thesis
  proof (cases "i = ?n - 1")
    case True
    then have "\<not> (1 < ?n \<and> int i \<noteq> int ?n - 1)" using i(1) by linarith
    then have "pickInternal fac c = (Inl (?ws ! i), False, c\<lparr>mc_workers := ?ws\<rparr>)"
      unfolding pickInternal_def Let_def i(2) by (simp only: if_False) simp
    then show ?thesis using i ne l True by (intro that [of "?ws ! i" ?ws]) simp_all
  next
    case False
    let ?w = "?ws[?n - 1 := ?ws ! i, i := ?ws ! (?n - 1)]"
    have n: "1 < ?n" "int i \<noteq> int ?n - 1" "?n - 1 < ?n" using i(1) False by auto
    have "pickInternal fac c = (Inl (?w ! i), False, c\<lparr>mc_workers := ?w\<rparr>)" using i(2) n by (simp add: pickInternal_def Let_def)
    moreover have "?w ! i = last ?ws" using i(1) l by simp
    moreover have "?w \<noteq> []" using ne by simp
    moreover have "last ?w = ?ws ! i" using last_conv_nth [OF \<open>?w \<noteq> []\<close>] False n by simp
    moreover have "mset ?w = mset ?ws" using mset_swap [OF i(1) n(3)] by simp
    ultimately show ?thesis using i(3) l ne n(3) by (intro that [of "?w ! i" ?w]) (auto simp: nth_mem)
  qed
qed

lemma CW_Dispatch_room:
  assumes "\<not> CW_IsFull c k" "\<not> sm_closed (cw_sm c (mc_heap c ! k))" "uint (MaxConnection (cw_strategy (mc_heap c ! k))) < 65536"
  obtains c' where "CW_Dispatch k link c = (True, c')"
    "length (wo_sessions (mc_world c')) = Suc (length (wo_sessions (mc_world c)))"
proof -
  let ?w = "mc_heap c ! k"
  let ?st = "cw_strategy ?w" and ?sm = "cw_sm c ?w"
  have u: "uint (ucast (MaxConnection ?st) :: 16 word) = uint (MaxConnection ?st)"
    using assms(3) by (simp add: unsigned_ucast_eq take_bit_int_eq_self)
  have "\<not> (0 < uint (MaxConcurrency ?st) \<and> SM_Size ?sm \<ge> uint (MaxConcurrency ?st))"
    "\<not> (0 < (ucast (MaxConnection ?st) :: 16 word) \<and> sm_count ?sm \<ge> ucast (MaxConnection ?st))"
    using assms(1) u by (auto simp: CW_IsFull_def IsClosing_def SM_Count_def word_le_def word_less_def Let_def split: if_splits)
  then obtain i sm where "Allocate ?st (length (wo_sessions (mc_world c))) ?sm = (Some i, sm)"
    using assms(2) by (simp add: Allocate_def Let_def)
  then have d: "CW_Dispatch k link c = (True, c\<lparr>mc_world := upd_manager (cw_manager ?w) (\<lambda>_. sm)
      ((mc_world c)\<lparr>wo_sessions := wo_sessions (mc_world c)
         @ [\<lparr>s_input = fst link, s_output = snd link, s_parent = cw_manager ?w, s_ID = i,
             s_transferType = TransferTypeStream, s_closed = False, s_done = Some False, s_XUDP = None\<rparr>]\<rparr>)\<rparr>)"
    using assms(1) by (simp add: CW_Dispatch_def Let_def)
  show ?thesis by (rule that [OF d]) (simp add: upd_manager_def)
qed

section \<open>Properties\<close>

text \<open>
  A client finds a worker with room: if one of the workers has room and is open, \<open>ClientManager.Dispatch\<close> succeeds and
  registers exactly one session, at the latest on its second pick, without dialling a new connection.
\<close>

theorem dispatch_uses_available_worker:
  assumes "k \<in> set (mc_workers c)" "\<not> CW_IsFull c k"
    "\<forall>j \<in> set (mc_workers c). \<not> CW_IsFull c j \<longrightarrow> \<not> sm_closed (cw_sm c (mc_heap c ! j))
       \<and> uint (MaxConnection (cw_strategy (mc_heap c ! j))) < 65536"
  shows "\<exists>c'. CM_Dispatch fac link c = (None, c') \<and> mc_heap c' = mc_heap c
    \<and> length (wo_sessions (mc_world c')) = Suc (length (wo_sessions (mc_world c)))"
proof -
  have go: "\<exists>c'. CM_Dispatch_loop (Suc n) fac link d = (None, c') \<and> mc_heap c' = mc_heap c
      \<and> length (wo_sessions (mc_world c')) = Suc (length (wo_sessions (mc_world c)))"
    if d: "d = c\<lparr>mc_workers := ws\<rparr>" and p: "pickInternal fac d = (Inl j, False, d\<lparr>mc_workers := ws'\<rparr>)"
      and j: "\<not> CW_IsFull c j" "j \<in> set (mc_workers c)" for d ws ws' j n
  proof -
    obtain c' where "CW_Dispatch j link (d\<lparr>mc_workers := ws'\<rparr>) = (True, c')"
      "length (wo_sessions (mc_world c')) = Suc (length (wo_sessions (mc_world c)))"
      using CW_Dispatch_room [of "d\<lparr>mc_workers := ws'\<rparr>" j link] assms(3) j by (auto simp: d cw_sm_def)
    moreover have "mc_heap c' = mc_heap c" using calculation(1) by (auto simp: CW_Dispatch_def d Let_def split: if_splits prod.splits option.splits)
    ultimately show ?thesis using p by (simp add: PickAvailable_def)
  qed
  obtain j ws where p: "pickInternal fac c = (Inl j, False, c\<lparr>mc_workers := ws\<rparr>)" "ws \<noteq> []" "mset ws = mset (mc_workers c)"
    "\<not> CW_IsFull c (last ws)" "j \<in> set (mc_workers c)"
    using pickInternal_available [OF assms(1,2), of fac] by metis
  show ?thesis
  proof (cases "CW_IsFull c j")
    case False
    then show ?thesis using go [of c "mc_workers c" j ws 15] p(1,5) by (simp add: CM_Dispatch_def numeral_eq_Suc)
  next
    case True
    let ?d = "c\<lparr>mc_workers := ws\<rparr>"
    have f: "last ws \<in> set (mc_workers ?d)" "\<not> CW_IsFull ?d (last ws)" using p(2,4) by simp_all
    obtain j' ws' where q: "pickInternal fac ?d = (Inl j', False, ?d\<lparr>mc_workers := ws'\<rparr>)" "j' \<in> set (mc_workers ?d)"
      and l: "\<not> CW_IsFull ?d (last (mc_workers ?d)) \<longrightarrow> \<not> CW_IsFull ?d j'"
      by (rule pickInternal_available [OF f])
    have nf: "\<not> CW_IsFull c j'" using l p(4) by simp
    have "j' \<in> set (mc_workers c)" using q(2) mset_eq_setD [OF p(3)] by simp
    moreover have "CM_Dispatch_loop 16 fac link c = CM_Dispatch_loop 15 fac link ?d"
      using p(1) True by (simp add: numeral_eq_Suc PickAvailable_def CW_Dispatch_def)
    ultimately show ?thesis using go [OF refl q(1) nf, of 14] by (simp add: CM_Dispatch_def numeral_eq_Suc)
  qed
qed

definition demo_worker :: "nat \<Rightarrow> ClientWorker" where
  "demo_worker m = \<lparr>cw_manager = m, cw_done = False, cw_strategy = \<lparr>MaxConcurrency = 1, MaxConnection = 128\<rparr>\<rparr>"

text \<open>Two workers, the first with room and the second full.\<close>

definition demo_client :: "(pipe, pipe) mux_client" where
  "demo_client = \<lparr>mc_world = \<lparr>wo_sessions = [demo_session],
       wo_managers = [\<lparr>sm_sessions = [], sm_count = 0, sm_closed = False\<rparr>, \<lparr>sm_sessions = [(1, 0)], sm_count = 1, sm_closed = False\<rparr>],
       wo_xudps = [], wo_Map = []\<rparr>,
     mc_heap = [demo_worker 0, demo_worker 1], mc_workers = [0, 1], mc_task = None\<rparr>"

lemma demo_client_full: "CW_IsFull demo_client 0 = False" "CW_IsFull demo_client 1 = True"
  by (simp_all add: demo_client_def demo_worker_def CW_IsFull_def IsClosing_def CW_Closed_def cw_sm_def SM_Count_def SM_Size_def)

lemma demo_client_size: "length (wo_sessions (mc_world demo_client)) = Suc 0" "last (mc_workers demo_client) = 1"
  by (simp_all add: demo_client_def)

theorem dispatch_uses_available_worker_witness:
  "\<exists>c'. CM_Dispatch (DialingWorkerFactory_Create \<lparr>MaxConcurrency = 1, MaxConnection = 128\<rparr>) (pipe_New 65536 False, pipe_New 65536 False) demo_client
      = (None, c') \<and> length (wo_sessions (mc_world c')) = 2"
proof -
  have "(0 :: nat) \<in> set (mc_workers demo_client)" "\<not> CW_IsFull demo_client 0"
    "\<forall>j \<in> set (mc_workers demo_client). \<not> CW_IsFull demo_client j \<longrightarrow> \<not> sm_closed (cw_sm demo_client (mc_heap demo_client ! j))
       \<and> uint (MaxConnection (cw_strategy (mc_heap demo_client ! j))) < 65536"
    using demo_client_full by (auto simp: demo_client_def demo_worker_def cw_sm_def)
  from dispatch_uses_available_worker [OF this, of "DialingWorkerFactory_Create \<lparr>MaxConcurrency = 1, MaxConnection = 128\<rparr>"
      "(pipe_New 65536 False, pipe_New 65536 False)"]
  show ?thesis unfolding demo_client_size by (metis numeral_2_eq_2)
qed

text \<open>
  The picker returns the wrong worker: when the first worker with room is not the last of the list, \<open>pickInternal\<close> swaps the two
  and then returns the entry at the old position, which is the former last worker, full or not.
\<close>

theorem pick_returns_former_last:
  assumes "0 \<le> findAvailable c" "findAvailable c < int (length (mc_workers c)) - 1"
  shows "\<exists>c'. pickInternal fac c = (Inl (last (mc_workers c)), False, c')"
proof -
  let ?ws = "mc_workers c" and ?n = "length (mc_workers c)"
  obtain i where i: "findAvailable c = int i" using assms(1) nonneg_int_cases by blast
  have n: "i < ?n" "1 < ?n" "int i \<noteq> int ?n - 1" "?ws \<noteq> []" using i assms(2) by auto
  have "pickInternal fac c = (Inl (?ws[?n - 1 := ?ws ! i, i := ?ws ! (?n - 1)] ! i), False,
      c\<lparr>mc_workers := ?ws[?n - 1 := ?ws ! i, i := ?ws ! (?n - 1)]\<rparr>)"
    using i n by (simp add: pickInternal_def Let_def)
  then show ?thesis using n last_conv_nth [OF n(4)] by auto
qed

theorem pick_returns_former_last_witness:
  "\<exists>c'. pickInternal (DialingWorkerFactory_Create \<lparr>MaxConcurrency = 1, MaxConnection = 128\<rparr>) demo_client = (Inl 1, False, c')
     \<and> CW_IsFull demo_client 1 \<and> \<not> CW_IsFull demo_client 0"
proof -
  have "findAvailable demo_client = 0" using demo_client_full(1) by (simp add: findAvailable_def demo_client_def)
  then have "0 \<le> findAvailable demo_client" "findAvailable demo_client < int (length (mc_workers demo_client)) - 1"
    by (simp_all add: demo_client_def)
  from pick_returns_former_last [OF this, of "DialingWorkerFactory_Create \<lparr>MaxConcurrency = 1, MaxConnection = 128\<rparr>"]
  show ?thesis using demo_client_full unfolding demo_client_size by simp
qed

end
