(* ===== verification/Mux_Handlers.thy ===== *)
theory Mux_Handlers
  imports Mux_Worker
begin

text \<open>
  The frame loops of both ends: the handlers of \<open>common/mux/client.go\<close> and \<open>common/mux/server.go\<close>. A worker is the store it
  works on, the number of its session manager, the writer of its connection, and (for a server) the dispatcher; the
  sessions for which a \<open>handle\<close> or \<open>fetchInput\<close> goroutine was started are listed in that order. \<open>wl\<close> writes to the
  connection, \<open>wo\<close> to the output of a session, \<open>rmb\<close> reads from the connection.
\<close>

section \<open>Copying the data of a frame\<close>

record ('i, 'o, 'l, 'd) mux_worker =
  wk_world :: "('i, 'o) world"
  wk_manager :: nat
  wk_link :: 'l
  wk_dispatcher :: 'd
  wk_started :: "nat list"
  wk_done :: bool

definition wk_upd :: "(('i, 'o) world \<Rightarrow> ('i, 'o) world) \<Rightarrow> ('i, 'o, 'l, 'd) mux_worker \<Rightarrow> ('i, 'o, 'l, 'd) mux_worker" where
  "wk_upd f w = w\<lparr>wk_world := f (wk_world w)\<rparr>"

definition wk_session :: "('i, 'o, 'l, 'd) mux_worker \<Rightarrow> nat \<Rightarrow> ('i, 'o) Session" where
  "wk_session w k = wo_sessions (wk_world w) ! k"

type_synonym ('r, 'i, 'o, 'l, 'd) handled = "(goerr option \<times> 'r bufreader \<times> ('i, 'o, 'l, 'd) mux_worker \<times> pool) option"

text \<open>\<open>buf.Copy(NewStreamReader(reader), buf.Discard)\<close>\<close>

definition discard_chunk :: "'r mb_read \<Rightarrow> 'r bufreader \<Rightarrow> pool \<Rightarrow> (goerr option \<times> 'r bufreader \<times> pool) option" where
  "discard_chunk rmb r p =
     map_option (\<lambda>(e, c, _, _, p'). (e, cs_reader c, p'))
       (Copy (CS_reader rmb) noOpWriter_WriteMultiBuffer [] (NewStreamReader r) () () p)"

definition discard_if_data ::
  "'r mb_read \<Rightarrow> FrameMetadata \<Rightarrow> 'r bufreader \<Rightarrow> ('i, 'o, 'l, 'd) mux_worker \<Rightarrow> pool \<Rightarrow> ('r, 'i, 'o, 'l, 'd) handled" where
  "discard_if_data rmb meta r w p =
     (if fm_Option meta AND OptionData \<noteq> 0 then map_option (\<lambda>(e, r', p'). (e, r', w, p')) (discard_chunk rmb r p)
      else Some (None, r, w, p))"

text \<open>
  \<open>buf.Copy(rr, s.output)\<close> for the reader \<open>rr\<close> of the frame; after a write error the session is closed and the rest of the
  frame is read and dropped.
\<close>

definition copy_session ::
  "('i, 'o) link_ops \<Rightarrow> int \<Rightarrow> 'x mb_read \<Rightarrow> 'o mb_write \<Rightarrow> nat \<Rightarrow> 'x \<Rightarrow> ('i, 'o, 'l, 'd) mux_worker \<Rightarrow> pool
   \<Rightarrow> (goerr option \<times> 'x \<times> ('i, 'o, 'l, 'd) mux_worker \<times> pool) option" where
  "copy_session ops now rr wo k x w p =
     Option.bind (Copy rr wo [] x (s_output (wk_session w k)) () p) (\<lambda>(err, x1, o1, _, p1).
       let w1 = wk_upd (upd_session k (\<lambda>s. s\<lparr>s_output := o1\<rparr>)) w
       in case err of
            Some e \<Rightarrow>
              if IsWriteError e
              then map_option (\<lambda>(e2, x2, _, _, p2). (e2, x2, wk_upd (Session_Close ops now k) w1, p2))
                     (Copy rr noOpWriter_WriteMultiBuffer [] x1 () () p1)
              else Some (Some e, x1, w1, p1)
          | None \<Rightarrow> Some (None, x1, w1, p1))"

text \<open>\<open>Session.NewReader\<close> picks the reader by the kind of session.\<close>

definition copy_frame ::
  "('i, 'o) link_ops \<Rightarrow> int \<Rightarrow> 'r mb_read \<Rightarrow> 'o mb_write \<Rightarrow> FrameMetadata \<Rightarrow> nat \<Rightarrow> 'r bufreader
   \<Rightarrow> ('i, 'o, 'l, 'd) mux_worker \<Rightarrow> pool \<Rightarrow> ('r, 'i, 'o, 'l, 'd) handled" where
  "copy_frame ops now rmb wo meta k r w p =
     (if s_transferType (wk_session w k) = TransferTypeStream
      then map_option (\<lambda>(e, c, w', p'). (e, cs_reader c, w', p')) (copy_session ops now (CS_reader rmb) wo k (NewStreamReader r) w p)
      else map_option (\<lambda>(e, c, w', p'). (e, pk_reader c, w', p'))
             (copy_session ops now (PK_ReadMultiBuffer (BR_Read rmb)) wo k (NewPacketReader r (Some (fm_Target meta))) w p))"

section \<open>Handlers of both ends\<close>

definition handleStatusKeepAlive ::
  "'r mb_read \<Rightarrow> FrameMetadata \<Rightarrow> 'r bufreader \<Rightarrow> ('i, 'o, 'l, 'd) mux_worker \<Rightarrow> pool \<Rightarrow> ('r, 'i, 'o, 'l, 'd) handled" where
  "handleStatusKeepAlive = discard_if_data"

definition handleStatusEnd ::
  "('i, 'o) link_ops \<Rightarrow> int \<Rightarrow> 'r mb_read \<Rightarrow> FrameMetadata \<Rightarrow> 'r bufreader \<Rightarrow> ('i, 'o, 'l, 'd) mux_worker \<Rightarrow> pool
   \<Rightarrow> ('r, 'i, 'o, 'l, 'd) handled" where
  "handleStatusEnd ops now rmb meta r w p =
     (let w1 = (case SM_Get (fm_SessionID meta) (wo_managers (wk_world w) ! wk_manager w) of
          Some k \<Rightarrow> wk_upd (Session_Close ops now k) w
        | None \<Rightarrow> w)
      in discard_if_data rmb meta r w1 p)"

text \<open>The peer is told to end a session that is not known here; a failure to do so is ignored.\<close>

definition close_remote ::
  "'l mb_write \<Rightarrow> 16 word \<Rightarrow> ('i, 'o, 'l, 'd) mux_worker \<Rightarrow> pool \<Rightarrow> (('i, 'o, 'l, 'd) mux_worker \<times> pool) option" where
  "close_remote wl i w p =
     map_option (\<lambda>(_, mw, p'). (w\<lparr>wk_link := mw_writer mw\<rparr>, p'))
       (MW_Close wl (NewResponseWriter i (wk_link w) TransferTypeStream) p)"

definition handleStatusKeep ::
  "('i, 'o) link_ops \<Rightarrow> int \<Rightarrow> 'r mb_read \<Rightarrow> 'l mb_write \<Rightarrow> 'o mb_write \<Rightarrow> FrameMetadata \<Rightarrow> 'r bufreader
   \<Rightarrow> ('i, 'o, 'l, 'd) mux_worker \<Rightarrow> pool \<Rightarrow> ('r, 'i, 'o, 'l, 'd) handled" where
  "handleStatusKeep ops now rmb wl wo meta r w p =
     (if fm_Option meta AND OptionData = 0 then Some (None, r, w, p)
      else case SM_Get (fm_SessionID meta) (wo_managers (wk_world w) ! wk_manager w) of
             None \<Rightarrow> Option.bind (close_remote wl (fm_SessionID meta) w p) (\<lambda>(w1, p1).
               map_option (\<lambda>(e, r', p'). (e, r', w1, p')) (discard_chunk rmb r p1))
           | Some k \<Rightarrow> copy_frame ops now rmb wo meta k r w p)"

section \<open>The client's frame loop\<close>

definition client_handle ::
  "('i, 'o) link_ops \<Rightarrow> int \<Rightarrow> 'r mb_read \<Rightarrow> 'l mb_write \<Rightarrow> 'o mb_write \<Rightarrow> FrameMetadata \<Rightarrow> 'r bufreader
   \<Rightarrow> ('i, 'o, 'l, 'd) mux_worker \<Rightarrow> pool \<Rightarrow> ('r, 'i, 'o, 'l, 'd) handled" where
  "client_handle ops now rmb wl wo meta r w p =
     (if fm_SessionStatus meta = SessionStatusKeepAlive then handleStatusKeepAlive rmb meta r w p
      else if fm_SessionStatus meta = SessionStatusEnd then handleStatusEnd ops now rmb meta r w p
      else if fm_SessionStatus meta = SessionStatusNew then discard_if_data rmb meta r w p
      else if fm_SessionStatus meta = SessionStatusKeep then handleStatusKeep ops now rmb wl wo meta r w p
      else Some (Some (ENew ''unknown status: '' None), r, w, p))"

text \<open>
  \<open>fetchOutput\<close>: the metadata variable is reused for every frame; the loop ends on the first error and the deferred
  cancel marks the worker as done.
\<close>

partial_function (option) fetchOutput ::
  "('i, 'o) link_ops \<Rightarrow> int \<Rightarrow> 'r mb_read \<Rightarrow> 'l mb_write \<Rightarrow> 'o mb_write \<Rightarrow> FrameMetadata \<Rightarrow> 'r bufreader
   \<Rightarrow> ('i, 'o, 'l, 'd) mux_worker \<Rightarrow> pool \<Rightarrow> ('i, 'o, 'l, 'd) mux_worker option"
where
  "fetchOutput ops now rmb wl wo meta r w p =
     Option.bind (Unmarshal (BR_Read rmb) meta r False p) (\<lambda>(err, meta1, r1, p1).
       case err of
         Some _ \<Rightarrow> Some (w\<lparr>wk_done := True\<rparr>)
       | None \<Rightarrow> Option.bind (client_handle ops now rmb wl wo meta1 r1 w p1) (\<lambda>(err2, r2, w2, p2).
           case err2 of
             Some _ \<Rightarrow> Some (w2\<lparr>wk_done := True\<rparr>)
           | None \<Rightarrow> fetchOutput ops now rmb wl wo meta1 r2 w2 p2))"

text \<open>\<open>writeFirstPayload\<close> and \<open>fetchInput\<close>: what a client sends for one session; the result is the connection's writer.\<close>

definition writeFirstPayload ::
  "('i mb_read) option \<Rightarrow> 'l mb_write \<Rightarrow> 'i \<Rightarrow> 'l MuxWriter \<Rightarrow> pool \<Rightarrow> (goerr option \<times> 'i \<times> 'l MuxWriter \<times> pool) option" where
  "writeFirstPayload tmr wl i mw p =
     Option.bind (CopyOnceTimeout tmr (MW_WriteMultiBuffer wl) i mw p) (\<lambda>(err, i1, mw1, p1).
       if err = Some ErrNotTimeoutReader \<or> err = Some ErrReadTimeout
       then map_option (\<lambda>(e, mw2, p2). (e, i1, mw2, p2)) (MW_WriteMultiBuffer wl mw1 [] p1)
       else Some (err, i1, mw1, p1))"

definition fetchInput ::
  "('i, 'o) link_ops \<Rightarrow> int \<Rightarrow> 'i mb_read \<Rightarrow> ('i mb_read) option \<Rightarrow> 'l mb_write \<Rightarrow> Destination \<Rightarrow> byte list \<Rightarrow> Inbound option
   \<Rightarrow> nat \<Rightarrow> ('i, 'o, 'l, 'd) mux_worker \<Rightarrow> pool \<Rightarrow> (('i, 'o, 'l, 'd) mux_worker \<times> pool) option" where
  "fetchInput ops now ri tmr wl target gid inb k w p =
     (let tt = (if d_Network target = Network_UDP then TransferTypePacket else TransferTypeStream);
          w0 = wk_upd (upd_session k (\<lambda>s. s\<lparr>s_transferType := tt\<rparr>)) w;
          mw = NewMuxWriter (s_ID (wk_session w0 k)) target (wk_link w0) tt gid inb;
          finish = (\<lambda>failed i mw p.
            map_option (\<lambda>(_, mw', p'). (wk_upd (Session_Close ops now k)
                ((wk_upd (upd_session k (\<lambda>s. s\<lparr>s_input := i\<rparr>)) w0)\<lparr>wk_link := mw_writer mw'\<rparr>), p'))
              (MW_Close wl (if failed then mw\<lparr>mw_hasError := True\<rparr> else mw) p))
      in Option.bind (writeFirstPayload tmr wl (s_input (wk_session w0 k)) mw p) (\<lambda>(err, i1, mw1, p1).
           if err \<noteq> None then finish True i1 mw1 p1
           else Option.bind (Copy ri (MW_WriteMultiBuffer wl) [] i1 mw1 () p1) (\<lambda>(err2, i2, mw2, _, p2).
             finish (err2 \<noteq> None) i2 mw2 p2)))"

section \<open>The server's handlers\<close>

text \<open>
  The parts of the context that the handlers look at: the inbound, the network the connection is restricted to, whether the
  connection is a reverse one, and the timeout-only mark. The dispatcher is a parameter: it gives a link or an error.
\<close>

record mux_ctx =
  cx_Inbound :: "Inbound option"
  cx_AllowedNetwork :: Network
  cx_IsReverseMux :: bool
  cx_TimeoutOnly :: bool

type_synonym ('i, 'o, 'd) dispatch = "'d \<Rightarrow> mux_ctx \<Rightarrow> Destination \<Rightarrow> (goerr + ('i \<times> 'o)) \<times> 'd"

definition new_ctx :: "mux_ctx \<Rightarrow> FrameMetadata \<Rightarrow> mux_ctx" where
  "new_ctx cx meta =
     (case fm_Inbound meta of
        Some i \<Rightarrow>
          if Destination_IsValid (in_Source i) \<and> Destination_IsValid (in_Local i)
          then cx\<lparr>cx_Inbound := map_option (\<lambda>old. old\<lparr>in_Source := in_Source i, in_Local := in_Local i\<rparr>) (cx_Inbound cx)\<rparr>
          else cx
      | None \<Rightarrow> cx)"

text \<open>Store a new session, register it, and start its \<open>handle\<close> goroutine; a closed manager refuses it.\<close>

definition add_session ::
  "('i, 'o) link_ops \<Rightarrow> int \<Rightarrow> ('i, 'o) Session \<Rightarrow> ('i, 'o, 'l, 'd) mux_worker \<Rightarrow> goerr option \<times> nat \<times> ('i, 'o, 'l, 'd) mux_worker" where
  "add_session ops now s w =
     (let k = length (wo_sessions (wk_world w));
          w1 = wk_upd (\<lambda>x. x\<lparr>wo_sessions := wo_sessions x @ [s]\<rparr>) w
      in case SM_Add (s_ID s) k (wo_managers (wk_world w1) ! wk_manager w) of
           (False, _) \<Rightarrow> (Some (ENew ''failed to add new session'' None), k, wk_upd (Session_Close ops now k) w1)
         | (True, m) \<Rightarrow> (None, k, (wk_upd (upd_manager (wk_manager w) (\<lambda>_. m)) w1)\<lparr>wk_started := wk_started w @ [k]\<rparr>))"

definition new_session :: "'i \<Rightarrow> 'o \<Rightarrow> nat \<Rightarrow> 16 word \<Rightarrow> TransferType \<Rightarrow> nat option \<Rightarrow> ('i, 'o) Session" where
  "new_session i out m sid tt x = \<lparr>s_input = i, s_output = out, s_parent = m, s_ID = sid, s_transferType = tt, s_closed = False,
     s_done = None, s_XUDP = x\<rparr>"

text \<open>The XUDP entry \<open>x\<close> gets a session of this connection on the link's two ends.\<close>

definition xudp_attach ::
  "('i, 'o) link_ops \<Rightarrow> int \<Rightarrow> FrameMetadata \<Rightarrow> nat \<Rightarrow> 'i \<times> 'o \<Rightarrow> 'r bufreader \<Rightarrow> ('i, 'o, 'l, 'd) mux_worker \<Rightarrow> pool
   \<Rightarrow> ('r, 'i, 'o, 'l, 'd) handled" where
  "xudp_attach ops now meta x link r w p =
     (let k = length (wo_sessions (wk_world w));
          w1 = wk_upd (upd_xudp x (\<lambda>e. e\<lparr>x_Mux := Some k, x_Status := Active\<rparr>)) w
      in case add_session ops now (new_session (fst link) (snd link) (wk_manager w) (fm_SessionID meta) TransferTypePacket (Some x)) w1 of
           (err, _, w2) \<Rightarrow> Some (err, r, w2, p))"

text \<open>A new link for the entry; when the dispatcher fails the entry is dropped and the connection ends.\<close>

definition xudp_dispatch ::
  "('i, 'o) link_ops \<Rightarrow> int \<Rightarrow> 'o mb_write \<Rightarrow> ('i, 'o, 'd) dispatch \<Rightarrow> mux_ctx \<Rightarrow> FrameMetadata \<Rightarrow> nat \<Rightarrow> MultiBuffer \<Rightarrow> 'r bufreader
   \<Rightarrow> ('i, 'o, 'l, 'd) mux_worker \<Rightarrow> pool \<Rightarrow> ('r, 'i, 'o, 'l, 'd) handled" where
  "xudp_dispatch ops now wo dsp cx meta x mb r w p =
     (case dsp (wk_dispatcher w) (cx\<lparr>cx_TimeoutOnly := True\<rparr>) (fm_Target meta) of
        (Inl e, d) \<Rightarrow>
          Some (Some (ENew ''XUDP new '' (Some (ENew ''failed to dispatch request to '' (Some e)))), r,
            wk_upd (\<lambda>v. v\<lparr>wo_Map := AList.delete (x_GlobalID (wo_xudps v ! x)) (wo_Map v)\<rparr>) (w\<lparr>wk_dispatcher := d\<rparr>), p)
      | (Inr (i, out), d) \<Rightarrow>
          Option.bind (wo out mb p) (\<lambda>(_, out1, p1).
            xudp_attach ops now meta x (i, out1) r (w\<lparr>wk_dispatcher := d\<rparr>) p1))"

text \<open>
  An entry that exists is detached from its previous connection and fed the packet; if that fails its link is torn
  down and a copy of the packet goes to a new one. A nil session of the entry panics.
\<close>

definition xudp_hit ::
  "('i, 'o) link_ops \<Rightarrow> int \<Rightarrow> 'o mb_write \<Rightarrow> ('i, 'o, 'd) dispatch \<Rightarrow> mux_ctx \<Rightarrow> FrameMetadata \<Rightarrow> nat \<Rightarrow> MultiBuffer \<Rightarrow> 'r bufreader
   \<Rightarrow> ('i, 'o, 'l, 'd) mux_worker \<Rightarrow> pool \<Rightarrow> ('r, 'i, 'o, 'l, 'd) handled" where
  "xudp_hit ops now wo dsp cx meta x mb r w p =
     (let w1 = wk_upd (upd_xudp x (\<lambda>e. e\<lparr>x_Status := Initializing\<rparr>)) w
      in Option.bind (x_Mux (wo_xudps (wk_world w) ! x)) (\<lambda>k.
        let w2 = wk_upd (Session_Close ops now k) w1
        in case New p of (b, p1) \<Rightarrow>
          Option.bind (hd mb) (\<lambda>b0. Option.bind (Bytes b0) (\<lambda>d. Option.bind (Write b d) (\<lambda>(_, b1).
            let b2 = b1\<lparr>b_UDP := b_UDP b0\<rparr>
            in Option.bind (wo (s_output (wk_session w2 k)) mb p1) (\<lambda>(err, out, p2).
              let w3 = wk_upd (upd_session k (\<lambda>s. s\<lparr>s_output := out\<rparr>)) w2
              in if err \<noteq> None
                 then Option.bind (XUDP_Interrupt ops x (wk_world w3)) (\<lambda>v.
                        xudp_dispatch ops now wo dsp cx meta x [Some b2] r (w3\<lparr>wk_world := v\<rparr>) p2)
                 else xudp_attach ops now meta x (s_input (wk_session w3 k), out) r w3 (snd (Release (Some b2) p2))))))))"

definition new_xudp ::
  "('i, 'o) link_ops \<Rightarrow> int \<Rightarrow> 'r mb_read \<Rightarrow> 'o mb_write \<Rightarrow> ('i, 'o, 'd) dispatch \<Rightarrow> mux_ctx \<Rightarrow> FrameMetadata \<Rightarrow> 'r bufreader
   \<Rightarrow> ('i, 'o, 'l, 'd) mux_worker \<Rightarrow> pool \<Rightarrow> ('r, 'i, 'o, 'l, 'd) handled" where
  "new_xudp ops now rmb wo dsp cx meta r w p =
     Option.bind (PK_ReadMultiBuffer (BR_Read rmb) (NewPacketReader r (Some (fm_Target meta))) p) (\<lambda>(mb, err, pk, p1).
       case err of
         Some e \<Rightarrow> Some (Some e, pk_reader pk, w, p1)
       | None \<Rightarrow>
           (case map_of (wo_Map (wk_world w)) (fm_GlobalID meta) of
              None \<Rightarrow>
                let x = length (wo_xudps (wk_world w));
                    entry = \<lparr>x_GlobalID = fm_GlobalID meta, x_Status = Initializing, x_Expire = 0, x_Mux = None\<rparr>
                in xudp_dispatch ops now wo dsp cx meta x mb (pk_reader pk)
                     (wk_upd (\<lambda>v. v\<lparr>wo_xudps := wo_xudps v @ [entry], wo_Map := AList.update (fm_GlobalID meta) x (wo_Map v)\<rparr>) w) p1
            | Some x \<Rightarrow>
                if x_Status (wo_xudps (wk_world w) ! x) = Initializing then Some (None, pk_reader pk, w, p1)
                else xudp_hit ops now wo dsp cx meta x mb (pk_reader pk) w p1))"

definition new_plain ::
  "('i, 'o) link_ops \<Rightarrow> int \<Rightarrow> 'r mb_read \<Rightarrow> 'o mb_write \<Rightarrow> ('i, 'o, 'd) dispatch \<Rightarrow> mux_ctx \<Rightarrow> FrameMetadata \<Rightarrow> 'r bufreader
   \<Rightarrow> ('i, 'o, 'l, 'd) mux_worker \<Rightarrow> pool \<Rightarrow> ('r, 'i, 'o, 'l, 'd) handled" where
  "new_plain ops now rmb wo dsp cx meta r w p =
     (case dsp (wk_dispatcher w) cx (fm_Target meta) of
        (Inl e, d) \<Rightarrow>
          map_option (\<lambda>(_, r', w', p'). (Some (ENew ''failed to dispatch request.'' (Some e)), r', w', p'))
            (discard_if_data rmb meta r (w\<lparr>wk_dispatcher := d\<rparr>) p)
      | (Inr (i, out), d) \<Rightarrow>
          (let tt = (if d_Network (fm_Target meta) = Network_UDP then TransferTypePacket else TransferTypeStream)
           in case add_session ops now (new_session i out (wk_manager w) (fm_SessionID meta) tt None) (w\<lparr>wk_dispatcher := d\<rparr>) of
                (Some e, _, w1) \<Rightarrow> Some (Some e, r, w1, p)
              | (None, k, w1) \<Rightarrow>
                  if fm_Option meta AND OptionData = 0 then Some (None, r, w1, p)
                  else copy_frame ops now rmb wo meta k r w1 p))"

definition handleStatusNew ::
  "('i, 'o) link_ops \<Rightarrow> int \<Rightarrow> 'r mb_read \<Rightarrow> 'o mb_write \<Rightarrow> ('i, 'o, 'd) dispatch \<Rightarrow> mux_ctx \<Rightarrow> FrameMetadata \<Rightarrow> 'r bufreader
   \<Rightarrow> ('i, 'o, 'l, 'd) mux_worker \<Rightarrow> pool \<Rightarrow> ('r, 'i, 'o, 'l, 'd) handled" where
  "handleStatusNew ops now rmb wo dsp cx meta r w p =
     (let cx1 = new_ctx cx meta
      in if cx_AllowedNetwork cx1 \<noteq> Network_Unknown \<and> d_Network (fm_Target meta) \<noteq> cx_AllowedNetwork cx1
         then Some (Some (ENew ''unexpected network '' None), r, w, p)
         else if fm_GlobalID meta \<noteq> replicate 8 0 then new_xudp ops now rmb wo dsp cx1 meta r w p
         else new_plain ops now rmb wo dsp cx1 meta r w p)"

definition server_handle ::
  "('i, 'o) link_ops \<Rightarrow> int \<Rightarrow> 'r mb_read \<Rightarrow> 'l mb_write \<Rightarrow> 'o mb_write \<Rightarrow> ('i, 'o, 'd) dispatch \<Rightarrow> mux_ctx \<Rightarrow> FrameMetadata \<Rightarrow> 'r bufreader
   \<Rightarrow> ('i, 'o, 'l, 'd) mux_worker \<Rightarrow> pool \<Rightarrow> ('r, 'i, 'o, 'l, 'd) handled" where
  "server_handle ops now rmb wl wo dsp cx meta r w p =
     (if fm_SessionStatus meta = SessionStatusKeepAlive then handleStatusKeepAlive rmb meta r w p
      else if fm_SessionStatus meta = SessionStatusEnd then handleStatusEnd ops now rmb meta r w p
      else if fm_SessionStatus meta = SessionStatusNew then handleStatusNew ops now rmb wo dsp (cx\<lparr>cx_IsReverseMux := False\<rparr>) meta r w p
      else if fm_SessionStatus meta = SessionStatusKeep then handleStatusKeep ops now rmb wl wo meta r w p
      else Some (Some (ENew ''unknown status: '' None), r, w, p))"

text \<open>\<open>handleFrame\<close>: an unknown status is returned as it is, an error of a handler is wrapped.\<close>

definition known_status :: "byte \<Rightarrow> bool" where
  "known_status s \<longleftrightarrow> s = SessionStatusKeepAlive \<or> s = SessionStatusEnd \<or> s = SessionStatusNew \<or> s = SessionStatusKeep"

definition handleFrame ::
  "('i, 'o) link_ops \<Rightarrow> int \<Rightarrow> 'r mb_read \<Rightarrow> 'l mb_write \<Rightarrow> 'o mb_write \<Rightarrow> ('i, 'o, 'd) dispatch \<Rightarrow> mux_ctx \<Rightarrow> 'r bufreader
   \<Rightarrow> ('i, 'o, 'l, 'd) mux_worker \<Rightarrow> pool \<Rightarrow> ('r, 'i, 'o, 'l, 'd) handled" where
  "handleFrame ops now rmb wl wo dsp cx r w p =
     Option.bind (Unmarshal (BR_Read rmb) zero_meta r (cx_IsReverseMux cx) p) (\<lambda>(err, meta, r1, p1).
       case err of
         Some e \<Rightarrow> Some (Some (ENew ''failed to read metadata'' (Some e)), r1, w, p1)
       | None \<Rightarrow> map_option (\<lambda>(err2, r2, w2, p2).
            (if known_status (fm_SessionStatus meta) then map_option (\<lambda>e. ENew ''failed to process data'' (Some e)) err2 else err2, r2, w2, p2))
          (server_handle ops now rmb wl wo dsp cx meta r1 w p1))"

text \<open>The loop of \<open>run\<close> for \<open>n\<close> frames before the context is done, or until the first error.\<close>

fun server_run ::
  "nat \<Rightarrow> ('i, 'o) link_ops \<Rightarrow> int \<Rightarrow> 'r mb_read \<Rightarrow> 'l mb_write \<Rightarrow> 'o mb_write \<Rightarrow> ('i, 'o, 'd) dispatch \<Rightarrow> mux_ctx \<Rightarrow> 'r bufreader
   \<Rightarrow> ('i, 'o, 'l, 'd) mux_worker \<Rightarrow> pool \<Rightarrow> ('i, 'o, 'l, 'd) mux_worker option" where
  "server_run 0 ops now rmb wl wo dsp cx r w p = Some (w\<lparr>wk_done := True\<rparr>)"
| "server_run (Suc n) ops now rmb wl wo dsp cx r w p =
     Option.bind (handleFrame ops now rmb wl wo dsp cx r w p) (\<lambda>(err, r1, w1, p1).
       case err of
         Some _ \<Rightarrow> Some (w1\<lparr>wk_done := True\<rparr>)
       | None \<Rightarrow> server_run n ops now rmb wl wo dsp cx r1 w1 p1)"

text \<open>\<open>handle\<close>: what the server sends back for one session.\<close>

definition handle_session ::
  "('i, 'o) link_ops \<Rightarrow> int \<Rightarrow> 'i mb_read \<Rightarrow> 'l mb_write \<Rightarrow> nat \<Rightarrow> ('i, 'o, 'l, 'd) mux_worker \<Rightarrow> pool
   \<Rightarrow> (('i, 'o, 'l, 'd) mux_worker \<times> pool) option" where
  "handle_session ops now ri wl k w p =
     (let s = wk_session w k
      in Option.bind (Copy ri (MW_WriteMultiBuffer wl) [] (s_input s) (NewResponseWriter (s_ID s) (wk_link w) (s_transferType s)) () p)
        (\<lambda>(err, i1, mw, _, p1).
          map_option (\<lambda>(_, mw', p2). (wk_upd (Session_Close ops now k)
              ((wk_upd (upd_session k (\<lambda>s. s\<lparr>s_input := i1\<rparr>)) w)\<lparr>wk_link := mw_writer mw'\<rparr>), p2))
            (MW_Close wl (if err \<noteq> None then mw\<lparr>mw_hasError := True\<rparr> else mw) p1)))"

text \<open>One turn of the server's \<open>monitor\<close>.\<close>

definition server_monitor :: "('i, 'o) link_ops \<Rightarrow> int \<Rightarrow> int \<Rightarrow> int \<Rightarrow> ('i, 'o, 'l, 'd) mux_worker \<Rightarrow> ('i, 'o, 'l, 'd) mux_worker" where
  "server_monitor ops now checkSize checkCount w =
     (if wk_done w then wk_upd (SM_Close ops now (wk_manager w)) w
      else case CloseIfNoSessionAndIdle checkSize checkCount (wo_managers (wk_world w) ! wk_manager w) of (closed', sm) \<Rightarrow>
        (wk_upd (upd_manager (wk_manager w) (\<lambda>_. sm)) w)\<lparr>wk_done := closed'\<rparr>)"

section \<open>Staying in step with the peer\<close>

text \<open>
  The contract of a mux connection: its reader delivers a byte stream, sessions and connection take bytes, and a session's
  writer does not fail with an end of file, which \<open>Copy\<close> would take for success.
\<close>

locale mux_conn = chunk_copy rmb rinv pending final weight rdone wo sent + link: mb_writer wl lsent
  for rmb :: "'r mb_read" and rinv pending final weight rdone and wo :: "'o mb_write" and sent and wl :: "'l mb_write" and lsent +
  assumes no_eof: "write_err x \<Longrightarrow> Cause x \<noteq> EOF"
begin

definition at_chunk :: "byte list \<Rightarrow> byte list \<Rightarrow> 'r bufreader \<Rightarrow> bool" where
  "at_chunk d rest r \<longleftrightarrow> br_ok rinv r \<and> length d < 65536 \<and> br_pending r = PutUint16 (word_of_nat (length d)) @ d @ rest"

definition at_rest :: "byte list \<Rightarrow> 'r bufreader \<Rightarrow> bool" where
  "at_rest rest r \<longleftrightarrow> br_ok rinv r \<and> br_pending r = rest"

lemma cs_done_rest: "cs_done rest c \<Longrightarrow> at_rest rest (cs_reader c)"
  by (simp add: cs_done_def at_rest_def)

lemma discard_copy:
  assumes "cs_ok rest c" "pool_ok p"
  shows "\<exists>c' p'. Copy (CS_reader rmb) noOpWriter_WriteMultiBuffer [] c () () p = Some (None, c', (), (), p') \<and> pool_ok p' \<and> cs_done rest c'"
proof -
  obtain c' p' where "copyInternal (CS_reader rmb) noOpWriter_WriteMultiBuffer [] c () () p = Some (ReadError EOF, c', (), (), p')"
    "pool_ok p'" "cs_done rest c'"
    using chunk.discard_ends [OF assms, of "[]" "()"] by auto
  then show ?thesis by (simp add: Copy_def)
qed

lemma discard_chunk_ok:
  assumes "at_chunk d rest r" "pool_ok p"
  shows "\<exists>r' p'. discard_chunk rmb r p = Some (None, r', p') \<and> at_rest rest r' \<and> pool_ok p'"
proof -
  let ?c = "NewChunkStreamReaderWithChunkCount r 1"
  have a: "br_ok rinv r" "br_pending r = PutUint16 (word_of_nat (length d)) @ d @ rest" "length d < 65536"
    using assms(1) by (simp_all add: at_chunk_def)
  obtain mb e c1 p1 where f: "CS_reader rmb ?c p = Some (mb, e, c1, p1)" "pool_ok p1" "mb_inv mb"
    "if d = [] then mb = [] \<and> e = Some EOF \<and> cs_done rest c1 else e = None \<and> cs_ok rest c1 \<and> d = mcontent mb @ cs_pending rest c1"
    using CS_reader_first [OF a assms(2)] by blast
  let ?p = "if mcontent mb = [] then p1 else snd (ReleaseMulti mb p1)"
  have eq: "copyInternal (CS_reader rmb) noOpWriter_WriteMultiBuffer [] ?c () () p = (case e of Some x \<Rightarrow> Some (ReadError x, c1, (), (), ?p)
      | None \<Rightarrow> copyInternal (CS_reader rmb) noOpWriter_WriteMultiBuffer [] c1 () () ?p)"
    using f(1,3) by (subst copyInternal.simps) (simp add: noOpWriter_WriteMultiBuffer_def Let_def)
  have pl: "pool_ok ?p" using f(2) ReleaseMulti_pool_ok by simp
  show ?thesis
  proof (cases "d = []")
    case True
    then show ?thesis using eq f(4) pl cs_done_rest [of rest c1] by (simp add: discard_chunk_def NewStreamReader_def Copy_def)
  next
    case False
    then have g: "e = None" "cs_ok rest c1" using f(4) by simp_all
    obtain c' p' where "Copy (CS_reader rmb) noOpWriter_WriteMultiBuffer [] c1 () () ?p = Some (None, c', (), (), p')" "pool_ok p'" "cs_done rest c'"
      using discard_copy [OF g(2) pl] by blast
    moreover have "Copy (CS_reader rmb) noOpWriter_WriteMultiBuffer [] ?c () () p = Copy (CS_reader rmb) noOpWriter_WriteMultiBuffer [] c1 () () ?p"
      using eq g(1) by (simp add: Copy_def)
    ultimately show ?thesis using cs_done_rest [of rest c'] by (simp add: discard_chunk_def NewStreamReader_def)
  qed
qed

lemma discard_if_data_ok:
  assumes "at_chunk d rest r" "pool_ok p" "fm_Option meta AND OptionData \<noteq> 0"
  shows "\<exists>r' p'. discard_if_data rmb meta r w p = Some (None, r', w, p') \<and> at_rest rest r' \<and> pool_ok p'"
  using discard_chunk_ok [OF assms(1,2)] assms(3) by (auto simp: discard_if_data_def)

text \<open>The data of a frame goes to its session, or the session is closed and the data dropped.\<close>

lemma copy_session_ok:
  assumes "at_chunk d rest r" "pool_ok p"
  shows "\<exists>c o' w' p'. copy_session ops now (CS_reader rmb) wo k (NewStreamReader r) w p = Some (None, c, w', p')
    \<and> at_rest rest (cs_reader c) \<and> pool_ok p'
    \<and> (w' = wk_upd (upd_session k (\<lambda>s. s\<lparr>s_output := o'\<rparr>)) w \<and> sent o' = sent (s_output (wk_session w k)) @ d
       \<or> w' = wk_upd (Session_Close ops now k) (wk_upd (upd_session k (\<lambda>s. s\<lparr>s_output := o'\<rparr>)) w))"
proof -
  have a: "br_ok rinv r" "br_pending r = PutUint16 (word_of_nat (length d)) @ d @ rest" "length d < 65536"
    using assms(1) by (simp_all add: at_chunk_def)
  let ?o = "s_output (wk_session w k)"
  obtain e c1 o1 p1 where c: "copyInternal (CS_reader rmb) wo [] (NewStreamReader r) ?o () p = Some (e, c1, o1, (), p1)" "pool_ok p1"
    "e = ReadError EOF \<and> sent o1 = sent ?o @ d \<and> cs_done rest c1 \<or> (\<exists>x. e = WriteError x \<and> write_err x) \<and> cs_ok rest c1"
    using copy_one_chunk [OF a assms(2), of "[]" ?o "()"] unfolding NewStreamReader_def by (metis unit.exhaust)
  let ?w = "wk_upd (upd_session k (\<lambda>s. s\<lparr>s_output := o1\<rparr>)) w"
  from c(3) show ?thesis
  proof
    assume "e = ReadError EOF \<and> sent o1 = sent ?o @ d \<and> cs_done rest c1"
    then show ?thesis using c(1,2) cs_done_rest [of rest c1]
      by (intro exI [of _ c1] exI [of _ o1] exI [of _ ?w] exI [of _ p1]) (simp add: copy_session_def Copy_def Let_def)
  next
    assume "(\<exists>x. e = WriteError x \<and> write_err x) \<and> cs_ok rest c1"
    then obtain x where x: "e = WriteError x" "Cause x \<noteq> EOF" "cs_ok rest c1" using no_eof by blast
    obtain c2 p2 where d: "Copy (CS_reader rmb) noOpWriter_WriteMultiBuffer [] c1 () () p1 = Some (None, c2, (), (), p2)" "pool_ok p2" "cs_done rest c2"
      using discard_copy [OF x(3) c(2)] by blast
    have "Copy (CS_reader rmb) wo [] (NewStreamReader r) ?o () p = Some (Some e, c1, o1, (), p1)"
      using c(1) x(1,2) by (simp add: Copy_def)
    then show ?thesis using d x(1) cs_done_rest [OF d(3)]
      by (intro exI [of _ c2] exI [of _ o1] exI [of _ "wk_upd (Session_Close ops now k) ?w"] exI [of _ p2])
        (simp add: copy_session_def IsWriteError_def Let_def)
  qed
qed

lemma close_remote_ok:
  assumes "pool_ok p"
  shows "\<exists>l p'. close_remote wl i w p = Some (w\<lparr>wk_link := l\<rparr>, p') \<and> pool_ok p'"
proof -
  let ?m = "zero_meta\<lparr>fm_SessionID := i, fm_SessionStatus := SessionStatusEnd, fm_Option := 0\<rparr>"
  obtain b p1 where b: "New p = (b, p1)" "buf_inv b" "content b = []" "room b = 8192" "b_UDP b = None" "pool_ok p1"
    using New_ok [OF assms] by blast
  let ?bs = "PutUint16 (word_of_nat (length (meta_bytes ?m None))) @ meta_bytes ?m None"
  have m: "meta_ok ?m None" "length (meta_bytes ?m None) = 4"
    by (simp_all add: meta_ok_def meta_bytes_def tail_bytes_def SessionStatusEnd_def SessionStatusNew_def)
  have w: "WriteTo ?m b = Some (None, append_to b ?bs)" using WriteTo_ok [of ?m b] b m by simp
  have i: "mb_inv [Some (append_to b ?bs)]" "int (length (mcontent [Some (append_to b ?bs)])) < 2147483648"
    using b(2,3,4) m(2) by simp_all
  obtain e l p2 where "wl (wk_link w) [Some (append_to b ?bs)] p1 = Some (e, l, p2)" "pool_ok p2"
    using link.write_mb [OF i(1) _ i(2) b(6), of "wk_link w"] by auto
  then show ?thesis using b(1) w
    by (auto simp: close_remote_def MW_Close_def NewResponseWriter_def mw_send_def Let_def)
qed

text \<open>What a handler may do to the sessions: only the addressed one changes, and it gets the data or is closed.\<close>

definition frame_effect :: "nat option \<Rightarrow> byte list \<Rightarrow> ('i, 'o, 'l, 'd) mux_worker \<Rightarrow> ('i, 'o, 'l, 'd) mux_worker \<Rightarrow> bool" where
  "frame_effect addressed d w w' \<longleftrightarrow>
     (\<forall>i < length (wo_sessions (wk_world w)). addressed \<noteq> Some i \<longrightarrow> wk_session w' i = wk_session w i)
     \<and> (\<forall>k. addressed = Some k \<longrightarrow> sent (s_output (wk_session w' k)) = sent (s_output (wk_session w k)) @ d \<or> s_closed (wk_session w' k))"

lemma frame_effect_write:
  "k < length (wo_sessions (wk_world w)) \<Longrightarrow> sent o' = sent (s_output (wk_session w k)) @ d \<Longrightarrow>
   frame_effect (Some k) d w (wk_upd (upd_session k (\<lambda>s. s\<lparr>s_output := o'\<rparr>)) w)"
  by (auto simp: frame_effect_def wk_session_def wk_upd_def upd_session_def)

lemma frame_effect_close:
  "k < length (wo_sessions (wk_world w)) \<Longrightarrow>
   frame_effect (Some k) d w (wk_upd (Session_Close ops now k) (wk_upd (upd_session k (\<lambda>s. s\<lparr>s_output := o'\<rparr>)) w))"
  by (auto simp: frame_effect_def wk_session_def wk_upd_def upd_session_def)

lemma frame_effect_close_only:
  "k < length (wo_sessions (wk_world w)) \<Longrightarrow> frame_effect (Some k) d w (wk_upd (Session_Close ops now k) w)"
  by (auto simp: frame_effect_def wk_session_def wk_upd_def)

lemma copy_frame_ok:
  assumes "at_chunk d rest r" "pool_ok p" "k < length (wo_sessions (wk_world w))" "s_transferType (wk_session w k) = TransferTypeStream"
  shows "\<exists>r' w' p'. copy_frame ops now rmb wo meta k r w p = Some (None, r', w', p') \<and> at_rest rest r' \<and> pool_ok p'
    \<and> frame_effect (Some k) d w w'"
proof -
  obtain c o' w' p' where c: "copy_session ops now (CS_reader rmb) wo k (NewStreamReader r) w p = Some (None, c, w', p')"
    "at_rest rest (cs_reader c)" "pool_ok p'"
    "w' = wk_upd (upd_session k (\<lambda>s. s\<lparr>s_output := o'\<rparr>)) w \<and> sent o' = sent (s_output (wk_session w k)) @ d
       \<or> w' = wk_upd (Session_Close ops now k) (wk_upd (upd_session k (\<lambda>s. s\<lparr>s_output := o'\<rparr>)) w)"
    using copy_session_ok [OF assms(1,2), of ops now k w] by blast
  have "frame_effect (Some k) d w w'" using c(4) frame_effect_write frame_effect_close assms(3) by blast
  then show ?thesis using c(1-3) assms(4) by (simp add: copy_frame_def)
qed

definition addressed_ok :: "FrameMetadata \<Rightarrow> ('i, 'o, 'l, 'd) mux_worker \<Rightarrow> bool" where
  "addressed_ok meta w \<longleftrightarrow> (\<forall>k. SM_Get (fm_SessionID meta) (wo_managers (wk_world w) ! wk_manager w) = Some k \<longrightarrow>
     k < length (wo_sessions (wk_world w)) \<and> s_transferType (wk_session w k) = TransferTypeStream)"

lemma keep_ok:
  assumes "at_chunk d rest r" "pool_ok p" "fm_Option meta AND OptionData \<noteq> 0" "addressed_ok meta w"
  shows "\<exists>r' w' p'. handleStatusKeep ops now rmb wl wo meta r w p = Some (None, r', w', p') \<and> at_rest rest r' \<and> pool_ok p'
    \<and> frame_effect (SM_Get (fm_SessionID meta) (wo_managers (wk_world w) ! wk_manager w)) d w w'"
proof (cases "SM_Get (fm_SessionID meta) (wo_managers (wk_world w) ! wk_manager w)")
  case None
  obtain l p1 where l: "close_remote wl (fm_SessionID meta) w p = Some (w\<lparr>wk_link := l\<rparr>, p1)" "pool_ok p1"
    using close_remote_ok [OF assms(2)] by blast
  obtain r' p' where "discard_chunk rmb r p1 = Some (None, r', p')" "at_rest rest r'" "pool_ok p'"
    using discard_chunk_ok [OF assms(1) l(2)] by blast
  moreover have "frame_effect None d w (w\<lparr>wk_link := l\<rparr>)" by (simp add: frame_effect_def wk_session_def)
  ultimately show ?thesis using None l(1) assms(3) by (simp add: handleStatusKeep_def)
next
  case (Some k)
  then show ?thesis using copy_frame_ok [OF assms(1,2), of k w ops now meta] assms(3,4)
    by (simp add: handleStatusKeep_def addressed_ok_def)
qed

lemma end_ok:
  assumes "at_chunk d rest r" "pool_ok p" "fm_Option meta AND OptionData \<noteq> 0" "addressed_ok meta w"
  shows "\<exists>r' w' p'. handleStatusEnd ops now rmb meta r w p = Some (None, r', w', p') \<and> at_rest rest r' \<and> pool_ok p'
    \<and> frame_effect (SM_Get (fm_SessionID meta) (wo_managers (wk_world w) ! wk_manager w)) d w w'"
proof -
  let ?g = "SM_Get (fm_SessionID meta) (wo_managers (wk_world w) ! wk_manager w)"
  let ?w = "case ?g of Some k \<Rightarrow> wk_upd (Session_Close ops now k) w | None \<Rightarrow> w"
  have "frame_effect ?g d w ?w"
  proof (cases ?g)
    case None
    then show ?thesis by (simp add: frame_effect_def)
  next
    case (Some k)
    then show ?thesis using frame_effect_close_only [of k w d ops now] assms(4) by (simp add: addressed_ok_def)
  qed
  then show ?thesis using discard_if_data_ok [OF assms(1-3), of ?w] by (auto simp: handleStatusEnd_def Let_def)
qed

lemma handle_ok:
  assumes "at_chunk d rest r" "pool_ok p" "fm_Option meta AND OptionData \<noteq> 0" "addressed_ok meta w"
    "fm_SessionStatus meta \<in> {SessionStatusKeep, SessionStatusEnd, SessionStatusKeepAlive}"
  shows "\<exists>r' w' p'. server_handle ops now rmb wl wo dsp cx meta r w p = Some (None, r', w', p') \<and> at_rest rest r' \<and> pool_ok p'
    \<and> frame_effect (if fm_SessionStatus meta = SessionStatusKeepAlive then None
        else SM_Get (fm_SessionID meta) (wo_managers (wk_world w) ! wk_manager w)) d w w'"
proof -
  have n: "SessionStatusKeep \<noteq> SessionStatusEnd" "SessionStatusKeep \<noteq> SessionStatusKeepAlive" "SessionStatusEnd \<noteq> SessionStatusKeepAlive"
    "SessionStatusKeep \<noteq> SessionStatusNew"
    by (simp_all add: SessionStatusKeep_def SessionStatusEnd_def SessionStatusKeepAlive_def SessionStatusNew_def)
  have f: "frame_effect None d w w" by (simp add: frame_effect_def)
  from assms(5) consider "fm_SessionStatus meta = SessionStatusKeep" | "fm_SessionStatus meta = SessionStatusEnd"
    | "fm_SessionStatus meta = SessionStatusKeepAlive" by auto
  then show ?thesis
  proof cases
    case 1
    then show ?thesis using keep_ok [OF assms(1-4), of ops now] n by (simp add: server_handle_def)
  next
    case 2
    then show ?thesis using end_ok [OF assms(1-4), of ops now] n by (simp add: server_handle_def)
  next
    case 3
    then show ?thesis using discard_if_data_ok [OF assms(1-3), of w] f
      by (auto simp: server_handle_def handleStatusKeepAlive_def)
  qed
qed

end

section \<open>A connection over a stream\<close>

lemma SequentialWriter_sink_err:
  "SequentialWriter_WriteMultiBuffer sink_Write w mb p = Some (Some x, w', p') \<Longrightarrow> x = ErrClosedPipe"
proof -
  have "WriteMultiBuffer sink_Write w mb p = Some (mb', Some x, w', p') \<Longrightarrow> x = ErrClosedPipe" for mb' p'
    by (induction sink_Write w mb p rule: WriteMultiBuffer.induct)
      (auto simp: sink_Write_def Let_def bind_eq_Some_conv split: if_splits)
  then show "SequentialWriter_WriteMultiBuffer sink_Write w mb p = Some (Some x, w', p') \<Longrightarrow> x = ErrClosedPipe"
    by (auto simp: SequentialWriter_WriteMultiBuffer_def)
qed

interpretation sink_conn: mux_conn "SingleReader_ReadMultiBuffer conn_read" "\<lambda>_. True"
  "\<lambda>c. concat (chunks c)" closing "\<lambda>c. length (chunks c)" "\<lambda>_. True" "SequentialWriter_WriteMultiBuffer sink_Write" sk_out
  "SequentialWriter_WriteMultiBuffer sink_Write" sk_out
  by unfold_locales (auto simp: snk.seqw.write_err_def dest!: SequentialWriter_sink_err)

section \<open>Properties\<close>


text \<open>Session 1 of a server worker with a sink that takes one byte, and a frame of three bytes for it.\<close>

definition demo_server :: "(unit, sink, sink, unit) mux_worker" where
  "demo_server = \<lparr>wk_world = \<lparr>wo_sessions = [new_session () \<lparr>sk_out = [], sk_quota = 1\<rparr> 0 1 TransferTypeStream None],
       wo_managers = [\<lparr>sm_sessions = [(1, 0)], sm_count = 1, sm_closed = False\<rparr>], wo_xudps = [], wo_Map = []\<rparr>,
     wk_manager = 0, wk_link = \<lparr>sk_out = [], sk_quota = 100\<rparr>, wk_dispatcher = (), wk_started = [0], wk_done = False\<rparr>"

definition unit_ops :: "(unit, sink) link_ops" where
  "unit_ops = \<lparr>op_Interrupt = id, op_ReturnAnError = (\<lambda>i _. i), op_Gosched = id, op_Recover = id, op_Close = (\<lambda>k. k\<lparr>sk_quota := 0\<rparr>)\<rparr>"


end
