(* ===== verification/Timers.thy ===== *)
theory Timers
  imports Xray_Prelude
begin

text \<open>
  \<open>common/task/periodic.go\<close> and \<open>common/signal/timer.go\<close>. Both objects are driven by goroutines and by timers of the
  runtime, so they are step relations: one rule per section that runs under the object's mutex, with the number
  of goroutines that stand between two such sections in the state. A timer that was armed either is stopped in
  time or starts a goroutine.
\<close>

section \<open>Periodic\<close>

record Periodic =
  pd_running :: bool
  pd_timer :: "nat option"
  pd_armed :: "nat set"
  pd_next :: nat
  pd_entered :: nat
  pd_executing :: nat

definition zero_Periodic :: Periodic where
  "zero_Periodic = \<lparr>pd_running = False, pd_timer = None, pd_armed = {}, pd_next = 0, pd_entered = 0, pd_executing = 0\<rparr>"

definition Periodic_Start :: "Periodic \<Rightarrow> Periodic" where
  "Periodic_Start t = (if pd_running t then t else t\<lparr>pd_running := True, pd_entered := Suc (pd_entered t)\<rparr>)"

definition Periodic_Close :: "Periodic \<Rightarrow> Periodic" where
  "Periodic_Close t =
     t\<lparr>pd_running := False, pd_timer := None,
       pd_armed := (case pd_timer t of Some k \<Rightarrow> pd_armed t - {k} | None \<Rightarrow> pd_armed t)\<rparr>"

text \<open>The three sections of \<open>step\<close>: the check, the end of \<open>Execute\<close> with an error, and without.\<close>

definition step_check :: "Periodic \<Rightarrow> Periodic" where
  "step_check t =
     (if pd_running t then t\<lparr>pd_entered := pd_entered t - 1, pd_executing := Suc (pd_executing t)\<rparr>
      else t\<lparr>pd_entered := pd_entered t - 1\<rparr>)"

definition step_failed :: "Periodic \<Rightarrow> Periodic" where
  "step_failed t = t\<lparr>pd_running := False, pd_executing := pd_executing t - 1\<rparr>"

definition step_again :: "Periodic \<Rightarrow> Periodic" where
  "step_again t =
     (if pd_running t
      then t\<lparr>pd_executing := pd_executing t - 1, pd_timer := Some (pd_next t), pd_armed := insert (pd_next t) (pd_armed t),
             pd_next := Suc (pd_next t)\<rparr>
      else t\<lparr>pd_executing := pd_executing t - 1\<rparr>)"

datatype periodic_event = PStart | PClose | PCheck | PFailed | PAgain | PFire nat

inductive periodic_step :: "Periodic \<Rightarrow> periodic_event \<Rightarrow> Periodic \<Rightarrow> bool" where
  p_start: "periodic_step t PStart (Periodic_Start t)"
| p_close: "periodic_step t PClose (Periodic_Close t)"
| p_check: "0 < pd_entered t \<Longrightarrow> periodic_step t PCheck (step_check t)"
| p_failed: "0 < pd_executing t \<Longrightarrow> periodic_step t PFailed (step_failed t)"
| p_again: "0 < pd_executing t \<Longrightarrow> periodic_step t PAgain (step_again t)"
| p_fire: "k \<in> pd_armed t \<Longrightarrow> periodic_step t (PFire k) (t\<lparr>pd_armed := pd_armed t - {k}, pd_entered := Suc (pd_entered t)\<rparr>)"

inductive periodic_run :: "Periodic \<Rightarrow> periodic_event list \<Rightarrow> Periodic \<Rightarrow> bool" where
  run_nil: "periodic_run t [] t"
| run_snoc: "periodic_run t es t1 \<Longrightarrow> periodic_step t1 e t2 \<Longrightarrow> periodic_run t (es @ [e]) t2"

text \<open>How many times the task is under way: in a goroutine, in its function, or waiting for a timer.\<close>

definition chains :: "Periodic \<Rightarrow> nat" where
  "chains t = pd_entered t + pd_executing t + card (pd_armed t)"

definition periodic_ok :: "Periodic \<Rightarrow> bool" where
  "periodic_ok t \<longleftrightarrow> finite (pd_armed t) \<and> (\<forall>k \<in> pd_armed t. pd_timer t = Some k) \<and> (\<forall>k. pd_timer t = Some k \<longrightarrow> k < pd_next t)
     \<and> chains t \<le> 1"

text \<open>A start that finds the task stopped and nothing of an earlier round left.\<close>

definition fresh_start :: "Periodic \<Rightarrow> periodic_event \<Rightarrow> bool" where
  "fresh_start t e \<longleftrightarrow> (e = PStart \<longrightarrow> pd_running t \<or> chains t = 0)"

inductive quiet_run :: "Periodic \<Rightarrow> periodic_event list \<Rightarrow> Periodic \<Rightarrow> bool" where
  q_nil: "quiet_run t [] t"
| q_snoc: "quiet_run t es t1 \<Longrightarrow> fresh_start t1 e \<Longrightarrow> periodic_step t1 e t2 \<Longrightarrow> quiet_run t (es @ [e]) t2"

lemma periodic_ok_zero [simp]: "periodic_ok zero_Periodic"
  by (simp add: periodic_ok_def zero_Periodic_def chains_def)

lemma not_armed:
  assumes "periodic_ok t" "0 < pd_entered t + pd_executing t"
  shows "pd_armed t = {}"
proof -
  have "chains t \<le> 1" using assms(1) by (simp add: periodic_ok_def)
  then have "card (pd_armed t) = 0" using assms(2) unfolding chains_def by linarith
  then show ?thesis using assms(1) by (simp add: periodic_ok_def)
qed

lemma periodic_ok_step:
  assumes "periodic_ok t" "periodic_step t e t'" "fresh_start t e"
  shows "periodic_ok t'"
  using assms(2)
proof cases
  case p_start
  then show ?thesis using assms(1,3) by (auto simp: periodic_ok_def chains_def Periodic_Start_def fresh_start_def)
next
  case p_close
  have "card (pd_armed (Periodic_Close t)) \<le> card (pd_armed t)"
    using assms(1) by (auto simp: Periodic_Close_def periodic_ok_def intro!: card_mono split: option.splits)
  moreover have "pd_armed (Periodic_Close t) = {}" using assms(1) by (auto simp: Periodic_Close_def periodic_ok_def split: option.splits)
  ultimately show ?thesis using p_close assms(1) by (auto simp: periodic_ok_def chains_def Periodic_Close_def)
next
  case p_check
  have z: "pd_armed t = {}" using not_armed [OF assms(1)] p_check(3) by simp
  then show ?thesis using p_check assms(1) by (auto simp: periodic_ok_def chains_def step_check_def)
next
  case p_failed
  then show ?thesis using assms(1) by (auto simp: periodic_ok_def chains_def step_failed_def)
next
  case p_again
  have z: "pd_armed t = {}" using not_armed [OF assms(1)] p_again(3) by simp
  then show ?thesis using p_again assms(1) by (auto simp: periodic_ok_def chains_def step_again_def)
next
  case (p_fire k)
  have j: "pd_timer t = Some j" if "j \<in> pd_armed t" for j using assms(1) that by (simp add: periodic_ok_def)
  have "x = k" if "x \<in> pd_armed t" for x using j [OF that] j [OF p_fire(3)] by simp
  then have "pd_armed t = {k}" using p_fire(3) by blast
  then show ?thesis using p_fire assms(1) by (auto simp: periodic_ok_def chains_def)
qed

section \<open>ActivityTimer\<close>

text \<open>
  The timers that are armed, with their deadlines, and the goroutines that reached \<open>finish\<close>. What started such a goroutine is kept:
  a call of \<open>SetTimeout(0)\<close>, or a timer that fired, with the time, the time of the last accepted update before and the
  timeout then in force. The clock never goes back.
\<close>

datatype finisher = Asked | Fired int int int

record ActivityTimer =
  at_now :: int
  at_timeout :: int
  at_finished :: bool
  at_timer :: "(nat \<times> int) option"
  at_armed :: "(nat \<times> int) set"
  at_next :: nat
  at_finishing :: "finisher list"
  at_calls :: "finisher list"
  at_last :: int
  at_inforce :: int

definition zero_ActivityTimer :: "int \<Rightarrow> ActivityTimer" where
  "zero_ActivityTimer now = \<lparr>at_now = now, at_timeout = 0, at_finished = False, at_timer = None, at_armed = {}, at_next = 0,
     at_finishing = [], at_calls = [], at_last = now, at_inforce = 0\<rparr>"

definition AT_Update :: "ActivityTimer \<Rightarrow> ActivityTimer" where
  "AT_Update t =
     (if at_finished t then t
      else let stopped = (case at_timer t of None \<Rightarrow> at_armed t | Some k \<Rightarrow> at_armed t - {k});
               t1 = t\<lparr>at_armed := stopped, at_last := at_now t, at_inforce := at_timeout t\<rparr>
           in if at_timeout t > 0
              then let k = (at_next t, at_now t + at_timeout t)
                   in t1\<lparr>at_timer := Some k, at_armed := insert k stopped, at_next := Suc (at_next t)\<rparr>
              else t1)"

text \<open>\<open>finish\<close> by one of the goroutines that reached it; only the first one calls \<open>onTimeout\<close>.\<close>

definition AT_finish :: "nat \<Rightarrow> ActivityTimer \<Rightarrow> ActivityTimer" where
  "AT_finish i t =
     (let t1 = t\<lparr>at_finishing := take i (at_finishing t) @ drop (Suc i) (at_finishing t)\<rparr>
      in if at_finished t then t1 else t1\<lparr>at_finished := True, at_calls := at_calls t @ [at_finishing t ! i]\<rparr>)"

text \<open>The locked section of \<open>SetTimeout\<close>; the update or the end that follows it is a step of its own.\<close>

definition AT_SetTimeout :: "int \<Rightarrow> ActivityTimer \<Rightarrow> ActivityTimer" where
  "AT_SetTimeout d t =
     (if at_finished t then t
      else let t1 = t\<lparr>at_timeout := d\<rparr>
           in if d = 0 then t1\<lparr>at_finishing := at_finishing t @ [Asked]\<rparr> else t1)"

definition CancelAfterInactivity :: "int \<Rightarrow> int \<Rightarrow> ActivityTimer" where
  "CancelAfterInactivity now d =
     (let t = AT_SetTimeout d (zero_ActivityTimer now) in if d = 0 then AT_finish 0 t else AT_Update t)"

inductive at_step :: "ActivityTimer \<Rightarrow> ActivityTimer \<Rightarrow> bool" where
  a_update: "at_step t (AT_Update t)"
| a_set: "at_step t (AT_SetTimeout d t)"
| a_tick: "0 \<le> d \<Longrightarrow> at_step t (t\<lparr>at_now := at_now t + d\<rparr>)"
| a_fire: "(k, due) \<in> at_armed t \<Longrightarrow> due \<le> at_now t \<Longrightarrow>
    at_step t (t\<lparr>at_armed := at_armed t - {(k, due)}, at_finishing := at_finishing t @ [Fired (at_now t) (at_last t) (at_inforce t)]\<rparr>)"
| a_finish: "i < length (at_finishing t) \<Longrightarrow> at_step t (AT_finish i t)"

inductive at_reach :: "int \<Rightarrow> int \<Rightarrow> ActivityTimer \<Rightarrow> bool" for now d where
  at_init: "at_reach now d (CancelAfterInactivity now d)"
| at_more: "at_reach now d t \<Longrightarrow> at_step t t' \<Longrightarrow> at_reach now d t'"

fun due_ok :: "finisher \<Rightarrow> bool" where
  "due_ok Asked = True"
| "due_ok (Fired n l d) = (0 < d \<and> l + d \<le> n)"

definition at_ok :: "ActivityTimer \<Rightarrow> bool" where
  "at_ok t \<longleftrightarrow> (\<forall>(k, due) \<in> at_armed t. at_timer t = Some (k, due) \<and> due = at_last t + at_inforce t \<and> 0 < at_inforce t)
     \<and> (\<forall>f \<in> set (at_finishing t). due_ok f) \<and> (\<forall>f \<in> set (at_calls t). due_ok f)
     \<and> length (at_calls t) = (if at_finished t then 1 else 0)"

lemma at_ok_update: "at_ok t \<Longrightarrow> at_ok (AT_Update t)"
  by (auto simp: at_ok_def AT_Update_def Let_def split: option.splits)

lemma at_ok_finish:
  assumes "at_ok t" "i < length (at_finishing t)"
  shows "at_ok (AT_finish i t)"
proof -
  have "set (take i (at_finishing t) @ drop (Suc i) (at_finishing t)) \<subseteq> set (at_finishing t)"
    using set_take_subset set_drop_subset by (metis Un_least set_append)
  moreover have "at_finishing t ! i \<in> set (at_finishing t)" using assms(2) by simp
  ultimately show ?thesis using assms(1) by (auto simp: at_ok_def AT_finish_def Let_def)
qed

lemma at_ok_step:
  assumes "at_ok t" "at_step t t'"
  shows "at_ok t'"
  using assms(2)
proof cases
  case a_update
  then show ?thesis using at_ok_update [OF assms(1)] by simp
next
  case (a_set d)
  then show ?thesis using assms(1) by (auto simp: at_ok_def AT_SetTimeout_def Let_def)
next
  case (a_fire k due)
  then show ?thesis using assms(1) by (auto simp: at_ok_def)
next
  case (a_finish i)
  then show ?thesis using at_ok_finish [OF assms(1)] by simp
qed (use assms(1) in \<open>auto simp: at_ok_def\<close>)

lemma at_ok_reach: "at_reach now d t \<Longrightarrow> at_ok t"
proof (induction rule: at_reach.induct)
  case at_init
  have z: "at_ok (AT_SetTimeout d (zero_ActivityTimer now))"
    by (auto simp: at_ok_def AT_SetTimeout_def zero_ActivityTimer_def Let_def)
  show ?case
  proof (cases "d = 0")
    case True
    then have "0 < length (at_finishing (AT_SetTimeout d (zero_ActivityTimer now)))"
      by (simp add: AT_SetTimeout_def zero_ActivityTimer_def)
    then show ?thesis using at_ok_finish [OF z] True by (simp add: CancelAfterInactivity_def)
  qed (use at_ok_update [OF z] in \<open>simp add: CancelAfterInactivity_def\<close>)
qed (rule at_ok_step)

section \<open>Properties\<close>

text \<open>
  A periodic task runs once at a time: as long as it is only started when nothing of an earlier round is left, no
  interleaving of starts, closes, executions and timers has two rounds under way, and a close leaves no timer armed.
\<close>

theorem periodic_single_chain:
  assumes "quiet_run zero_Periodic es t"
  shows "chains t \<le> 1 \<and> pd_armed (Periodic_Close t) = {}"
proof -
  have "quiet_run s es t \<Longrightarrow> s = zero_Periodic \<Longrightarrow> periodic_ok t" for s
    by (induction rule: quiet_run.induct) (auto intro: periodic_ok_step)
  then have "periodic_ok t" using assms by blast
  then show ?thesis by (auto simp: periodic_ok_def Periodic_Close_def split: option.splits)
qed

theorem periodic_single_chain_witness:
  "\<exists>t. quiet_run zero_Periodic [PStart, PCheck, PAgain] t \<and> chains t \<le> 1"
proof -
  let ?t1 = "Periodic_Start zero_Periodic" and ?t2 = "step_check (Periodic_Start zero_Periodic)"
  have "quiet_run zero_Periodic [PStart] ?t1"
    using q_snoc [OF q_nil _ p_start, of zero_Periodic] by (simp add: fresh_start_def chains_def zero_Periodic_def)
  then have "quiet_run zero_Periodic [PStart, PCheck] ?t2"
    using q_snoc [OF _ _ p_check, of zero_Periodic "[PStart]" ?t1] by (simp add: fresh_start_def Periodic_Start_def zero_Periodic_def)
  then have "quiet_run zero_Periodic [PStart, PCheck, PAgain] (step_again ?t2)"
    using q_snoc [OF _ _ p_again, of zero_Periodic "[PStart, PCheck]" ?t2]
    by (simp add: fresh_start_def step_check_def Periodic_Start_def zero_Periodic_def)
  then show ?thesis using periodic_single_chain by blast
qed

text \<open>
  Closing a task while its function runs and starting it again before that call returns doubles it: both calls arm a timer when they
  return, and from then on two rounds run side by side, of which \<open>Close\<close> stops only one.
\<close>

theorem periodic_restart_doubles:
  "\<exists>t. periodic_run zero_Periodic [PStart, PCheck, PClose, PStart, PCheck, PAgain, PAgain] t
     \<and> chains t = 2 \<and> card (pd_armed (Periodic_Close t)) = 1"
proof -
  let ?z = zero_Periodic
  let ?t1 = "Periodic_Start ?z"
  let ?t2 = "step_check ?t1"
  let ?t3 = "Periodic_Close ?t2"
  let ?t4 = "Periodic_Start ?t3"
  let ?t5 = "step_check ?t4"
  let ?t6 = "step_again ?t5"
  let ?t7 = "step_again ?t6"
  note d = zero_Periodic_def Periodic_Start_def step_check_def Periodic_Close_def step_again_def
  have 1: "periodic_run ?z [PStart] ?t1" using run_snoc [OF run_nil p_start, of ?z] by simp
  have 2: "periodic_run ?z [PStart, PCheck] ?t2" using run_snoc [OF 1 p_check] by (simp add: d)
  have 3: "periodic_run ?z [PStart, PCheck, PClose] ?t3" using run_snoc [OF 2 p_close] by simp
  have 4: "periodic_run ?z [PStart, PCheck, PClose, PStart] ?t4" using run_snoc [OF 3 p_start] by simp
  have 5: "periodic_run ?z [PStart, PCheck, PClose, PStart, PCheck] ?t5" using run_snoc [OF 4 p_check] by (simp add: d)
  have 6: "periodic_run ?z [PStart, PCheck, PClose, PStart, PCheck, PAgain] ?t6" using run_snoc [OF 5 p_again] by (simp add: d)
  have 7: "periodic_run ?z [PStart, PCheck, PClose, PStart, PCheck, PAgain, PAgain] ?t7" using run_snoc [OF 6 p_again] by (simp add: d)
  show ?thesis by (intro exI [of _ ?t7] conjI 7) (simp_all add: d chains_def)
qed

text \<open>
  C30. The inactivity timer cuts a connection once and not too early: whatever goroutines update it and whenever its timers fire,
  \<open>onTimeout\<close> is called at most once, exactly when the timer is finished, and either because somebody asked for it or because a timer
  fired at least the timeout in force after the last update.
\<close>

theorem activity_timer_fires_once:
  assumes "at_reach now d t"
  shows "length (at_calls t) = (if at_finished t then 1 else 0)
    \<and> (\<forall>n l to. Fired n l to \<in> set (at_calls t) \<longrightarrow> 0 < to \<and> l + to \<le> n)"
  using at_ok_reach [OF assms] unfolding at_ok_def by fastforce

theorem activity_timer_fires_once_witness:
  "\<exists>t. at_reach 0 10 t \<and> at_calls t = [Fired 12 0 10] \<and> (0 :: int) + 10 \<le> 12"
proof -
  let ?t1 = "CancelAfterInactivity 0 10"
  let ?t2 = "?t1\<lparr>at_now := at_now ?t1 + 12\<rparr>"
  let ?t3 = "?t2\<lparr>at_armed := at_armed ?t2 - {(0, 10)}, at_finishing := at_finishing ?t2 @ [Fired (at_now ?t2) (at_last ?t2) (at_inforce ?t2)]\<rparr>"
  note d = CancelAfterInactivity_def AT_SetTimeout_def zero_ActivityTimer_def AT_Update_def AT_finish_def Let_def
  have "at_reach 0 10 ?t2" by (rule at_more [OF at_init a_tick]) simp
  then have "at_reach 0 10 ?t3" by (rule at_more [OF _ a_fire]) (simp_all add: d)
  then have r: "at_reach 0 10 (AT_finish 0 ?t3)" by (rule at_more [OF _ a_finish]) (simp add: d)
  moreover have "at_calls (AT_finish 0 ?t3) = [Fired 12 0 10]" by (simp add: d)
  ultimately show ?thesis using activity_timer_fires_once [OF r] by (intro exI [of _ "AT_finish 0 ?t3"]) simp
qed

end
