(* ===== verification/Vless_Users.thy ===== *)
theory Vless_Users
  imports Net_Address "HOL-Library.AList"
begin

text \<open>
  Who may use a VLESS inbound: UUIDs (\<open>common/uuid/uuid.go\<close>), ids and users (\<open>common/protocol/id.go\<close>, \<open>user.go\<close>), accounts
  (\<open>proxy/vless/account.go\<close>) and the validator that finds the user of a request (\<open>proxy/vless/validator.go\<close>). The hash
  functions and \<open>strings.ToLower\<close> are arguments of the definitions that call them.
\<close>

section \<open>UUIDs\<close>

type_synonym UUID = "byte list"

definition byteGroups :: "nat list" where
  "byteGroups = [8, 4, 4, 4, 12]"

definition hex_char :: "nat \<Rightarrow> byte" where
  "hex_char n = (if n < 10 then word_of_nat (48 + n) else word_of_nat (87 + n))"

definition hex_EncodeToString :: "byte list \<Rightarrow> gostring" where
  "hex_EncodeToString bs = concat (map (\<lambda>b. [hex_char (unat b div 16), hex_char (unat b mod 16)]) bs)"

fun UUID_String_loop :: "nat list \<Rightarrow> byte list \<Rightarrow> gostring" where
  "UUID_String_loop [] bs = []"
| "UUID_String_loop (g # gs) bs = 45 # hex_EncodeToString (take (g div 2) bs) @ UUID_String_loop gs (drop (g div 2) bs)"

definition UUID_String :: "UUID \<Rightarrow> gostring" where
  "UUID_String u =
     (let n = hd byteGroups div 2
      in hex_EncodeToString (take n u) @ UUID_String_loop (tl byteGroups) (drop n u))"

definition UUID_Equals :: "UUID option \<Rightarrow> UUID option \<Rightarrow> bool" where
  "UUID_Equals u v =
     (if u = None \<and> v = None then True else if u = None \<or> v = None then False else the u = the v)"

definition set_version :: "byte \<Rightarrow> byte list \<Rightarrow> byte list" where
  "set_version v u = u[6 := (u ! 6 AND 0x0F) OR push_bit 4 v, 8 := (u ! 8 AND 0x3F) OR push_bit 6 2]"

text \<open>\<open>New\<close> from the sixteen bytes of the random generator.\<close>

definition UUID_New :: "byte list \<Rightarrow> UUID" where
  "UUID_New random = set_version 4 random"

definition ParseBytes :: "byte list \<Rightarrow> goerr + UUID" where
  "ParseBytes b = (if length b \<noteq> 16 then Inl (ENew ''invalid UUID: '' None) else Inr b)"

text \<open>\<open>hex.Decode\<close> of an even number of characters.\<close>

fun hex_Decode :: "gostring \<Rightarrow> goerr + byte list" where
  "hex_Decode (a # b # cs) =
     (case (hex_digit a, hex_digit b) of
        (Some x, Some y) \<Rightarrow> (case hex_Decode cs of Inl e \<Rightarrow> Inl e | Inr bs \<Rightarrow> Inr (word_of_nat (16 * x + y) # bs))
      | _ \<Rightarrow> Inl (ErrOther ''encoding/hex: invalid byte: ''))"
| "hex_Decode [] = Inr []"
| "hex_Decode [a] = Inl (ErrOther ''encoding/hex: odd length hex string'')"

fun parse_groups :: "nat list \<Rightarrow> gostring \<Rightarrow> goerr + byte list" where
  "parse_groups [] text = Inr []"
| "parse_groups (g # gs) text =
     (let t = (if text \<noteq> [] \<and> hd text = 45 then tl text else text)
      in if length t < g then Inl (ENew ''invalid UUID: '' None)
         else case hex_Decode (take g t) of
                Inl e \<Rightarrow> Inl e
              | Inr b \<Rightarrow> (case parse_groups gs (drop g t) of Inl e \<Rightarrow> Inl e | Inr bs \<Rightarrow> Inr (b @ bs)))"

definition UUID_ParseString :: "(byte list \<Rightarrow> byte list) \<Rightarrow> gostring \<Rightarrow> goerr + UUID" where
  "UUID_ParseString sha1 s =
     (let l = length s
      in if l < 32 \<or> l > 36 then
           if l = 0 \<or> l > 30 then Inl (ENew ''invalid UUID: '' None)
           else Inr (set_version 5 (take 16 (sha1 (replicate 16 0 @ s))))
         else parse_groups byteGroups s)"

section \<open>Accounts and users\<close>

record ID =
  id_uuid :: UUID
  id_cmdKey :: "byte list"

definition NewID :: "(byte list \<Rightarrow> byte list) \<Rightarrow> UUID \<Rightarrow> ID" where
  "NewID md5 u = \<lparr>id_uuid = u, id_cmdKey = md5 (u @ str ''c48619fe-8f02-49e0-b9e9-edf763e17e21'')\<rparr>"

definition ID_Equals :: "ID \<Rightarrow> ID \<Rightarrow> bool" where
  "ID_Equals a b = UUID_Equals (Some (id_uuid a)) (Some (id_uuid b))"

text \<open>The account message and its in-memory form; the sniffing settings of \<open>Reverse\<close> are a reference that is only passed on.\<close>

record vless_Reverse =
  rv_Tag :: gostring
  rv_Sniffing :: "nat option"

record VlessAccount =
  ac_Id :: gostring
  ac_Flow :: gostring
  ac_Encryption :: gostring
  ac_XorMode :: "32 word"
  ac_Seconds :: "32 word"
  ac_Padding :: gostring
  ac_Reverse :: "vless_Reverse option"
  ac_Testpre :: "32 word"
  ac_Testseed :: "32 word list"

record MemoryAccount =
  ma_ID :: ID
  ma_Flow :: gostring
  ma_Encryption :: gostring
  ma_XorMode :: "32 word"
  ma_Seconds :: "32 word"
  ma_Padding :: gostring
  ma_Reverse :: "vless_Reverse option"
  ma_Testpre :: "32 word"
  ma_Testseed :: "32 word list"

definition AsAccount :: "(byte list \<Rightarrow> byte list) \<Rightarrow> (byte list \<Rightarrow> byte list) \<Rightarrow> VlessAccount \<Rightarrow> goerr + MemoryAccount" where
  "AsAccount sha1 md5 a =
     (case UUID_ParseString sha1 (ac_Id a) of
        Inl e \<Rightarrow> Inl (ENew ''failed to parse ID'' (Some e))
      | Inr u \<Rightarrow> Inr \<lparr>ma_ID = NewID md5 u, ma_Flow = ac_Flow a, ma_Encryption = ac_Encryption a, ma_XorMode = ac_XorMode a,
          ma_Seconds = ac_Seconds a, ma_Padding = ac_Padding a, ma_Reverse = ac_Reverse a, ma_Testpre = ac_Testpre a,
          ma_Testseed = ac_Testseed a\<rparr>)"

definition Account_Equals :: "MemoryAccount \<Rightarrow> MemoryAccount \<Rightarrow> bool" where
  "Account_Equals a b = ID_Equals (ma_ID a) (ma_ID b)"

definition Account_ToProto :: "MemoryAccount \<Rightarrow> VlessAccount" where
  "Account_ToProto a = \<lparr>ac_Id = UUID_String (id_uuid (ma_ID a)), ac_Flow = ma_Flow a, ac_Encryption = ma_Encryption a, ac_XorMode = ma_XorMode a,
     ac_Seconds = ma_Seconds a, ac_Padding = ma_Padding a, ac_Reverse = ma_Reverse a, ac_Testpre = ma_Testpre a,
     ac_Testseed = ma_Testseed a\<rparr>"

record MemoryUser =
  mu_Account :: MemoryAccount
  mu_Email :: gostring
  mu_Level :: "32 word"

section \<open>The validator\<close>

definition ProcessUUID :: "UUID \<Rightarrow> UUID" where
  "ProcessUUID u = u[6 := 0, 7 := 0]"

record MemoryValidator =
  mv_email :: "(gostring \<times> MemoryUser) list"
  mv_users :: "(UUID \<times> MemoryUser) list"

definition zero_MemoryValidator :: MemoryValidator where
  "zero_MemoryValidator = \<lparr>mv_email = [], mv_users = []\<rparr>"

abbreviation user_key :: "MemoryUser \<Rightarrow> UUID" where
  "user_key u \<equiv> ProcessUUID (id_uuid (ma_ID (mu_Account u)))"

definition MV_Add :: "(gostring \<Rightarrow> gostring) \<Rightarrow> MemoryUser \<Rightarrow> MemoryValidator \<Rightarrow> goerr option \<times> MemoryValidator" where
  "MV_Add lower u v =
     (if mu_Email u \<noteq> [] \<and> map_of (mv_email v) (lower (mu_Email u)) \<noteq> None then (Some (ENew ''User '' None), v)
      else let v1 = (if mu_Email u \<noteq> [] then v\<lparr>mv_email := AList.update (lower (mu_Email u)) u (mv_email v)\<rparr> else v)
           in (None, v1\<lparr>mv_users := AList.update (user_key u) u (mv_users v1)\<rparr>))"

definition MV_Del :: "(gostring \<Rightarrow> gostring) \<Rightarrow> gostring \<Rightarrow> MemoryValidator \<Rightarrow> goerr option \<times> MemoryValidator" where
  "MV_Del lower e v =
     (if e = [] then (Some (ENew ''Email must not be empty.'' None), v)
      else case map_of (mv_email v) (lower e) of
             None \<Rightarrow> (Some (ENew ''User '' None), v)
           | Some u \<Rightarrow> (None, v\<lparr>mv_email := AList.delete (lower e) (mv_email v), mv_users := AList.delete (user_key u) (mv_users v)\<rparr>))"

definition MV_Get :: "MemoryValidator \<Rightarrow> UUID \<Rightarrow> MemoryUser option" where
  "MV_Get v i = map_of (mv_users v) (ProcessUUID i)"

definition MV_GetByEmail :: "(gostring \<Rightarrow> gostring) \<Rightarrow> MemoryValidator \<Rightarrow> gostring \<Rightarrow> MemoryUser option" where
  "MV_GetByEmail lower v e = map_of (mv_email v) (lower e)"

definition MV_GetAll :: "MemoryValidator \<Rightarrow> MemoryUser list" where
  "MV_GetAll v = map snd (mv_email v)"

definition MV_GetCount :: "MemoryValidator \<Rightarrow> int" where
  "MV_GetCount v = int (length (mv_email v))"

section \<open>Printing and parsing UUIDs\<close>

lemma nibble_table: "\<forall>n \<in> set [0..<16]. hex_digit (hex_char n) = Some n \<and> hex_char n \<noteq> 45"
  by code_simp

lemma hex_digit_char: "n < 16 \<Longrightarrow> hex_digit (hex_char n) = Some n"
  using nibble_table by simp

lemma length_hex_EncodeToString [simp]: "length (hex_EncodeToString bs) = 2 * length bs"
  by (induction bs) (simp_all add: hex_EncodeToString_def)

lemma hex_EncodeToString_Cons:
  "hex_EncodeToString (b # bs) = hex_char (unat b div 16) # hex_char (unat b mod 16) # hex_EncodeToString bs"
  by (simp add: hex_EncodeToString_def)

lemma hex_Decode_Encode [simp]: "hex_Decode (hex_EncodeToString bs) = Inr bs"
proof (induction bs)
  case (Cons b bs)
  have "unat b < 256" using unsigned_less [where 'a = nat, of b] by simp
  then have "unat b div 16 < 16" "unat b mod 16 < 16" by auto
  then show ?case using Cons by (simp add: hex_EncodeToString_Cons hex_digit_char)
qed (simp add: hex_EncodeToString_def)

lemma hex_char_not_dash: "n < 16 \<Longrightarrow> hex_char n \<noteq> 45"
  using nibble_table by simp

lemma hd_hex_EncodeToString: "bs \<noteq> [] \<Longrightarrow> hd (hex_EncodeToString bs @ t) \<noteq> 45"
proof (cases bs)
  case (Cons b bs')
  have "unat b < 256" using unsigned_less [where 'a = nat, of b] by simp
  then show ?thesis using Cons hex_char_not_dash [of "unat b div 16"] by (simp add: hex_EncodeToString_Cons)
qed simp

lemma parse_groups_dash:
  "2 * length b = g \<Longrightarrow> parse_groups (g # gs) (45 # hex_EncodeToString b @ t)
    = (case parse_groups gs t of Inl e \<Rightarrow> Inl e | Inr bs \<Rightarrow> Inr (b @ bs))"
  by (simp add: Let_def)

lemma parse_groups_nodash:
  "2 * length b = g \<Longrightarrow> b \<noteq> [] \<Longrightarrow> parse_groups (g # gs) (hex_EncodeToString b @ t)
    = (case parse_groups gs t of Inl e \<Rightarrow> Inl e | Inr bs \<Rightarrow> Inr (b @ bs))"
  using hd_hex_EncodeToString [of b t] by (simp add: Let_def)

lemma parse_loop:
  "\<forall>g \<in> set gs. even g \<and> 0 < g \<Longrightarrow> 2 * length bs = sum_list gs \<Longrightarrow> parse_groups gs (UUID_String_loop gs bs @ t) = Inr bs"
proof (induction gs arbitrary: bs)
  case (Cons g gs)
  have g: "2 * (g div 2) = g" "2 * length (take (g div 2) bs) = g" using Cons.prems by auto
  have "parse_groups gs (UUID_String_loop gs (drop (g div 2) bs) @ t) = Inr (drop (g div 2) bs)"
    using Cons g by auto
  then show ?case unfolding UUID_String_loop.simps append_Cons append_assoc parse_groups_dash [OF g(2)] by simp
qed simp

lemma length_UUID_String_loop:
  "\<forall>g \<in> set gs. even g \<Longrightarrow> 2 * length bs = sum_list gs \<Longrightarrow> length (UUID_String_loop gs bs) = sum_list gs + length gs"
proof (induction gs arbitrary: bs)
  case (Cons g gs)
  then have "2 * (g div 2) = g" "2 * length (drop (g div 2) bs) = sum_list gs" by auto
  then show ?case using Cons by auto
qed simp

lemma UUID_String_eq: "UUID_String u = hex_EncodeToString (take 4 u) @ UUID_String_loop [4, 4, 4, 12] (drop 4 u)"
  by (simp add: UUID_String_def byteGroups_def)

lemma length_set_version [simp]: "length (set_version v u) = length u"
  by (simp add: set_version_def)

lemma parse_groups_length: "parse_groups gs s = Inr bs \<Longrightarrow> \<forall>g \<in> set gs. even g \<Longrightarrow> 2 * length bs = sum_list gs"
proof (induction gs arbitrary: s bs)
  case (Cons g gs)
  have h: "hex_Decode t = Inr b \<Longrightarrow> length t = 2 * length b" for t b
    by (induction t arbitrary: b rule: hex_Decode.induct) (auto split: option.splits sum.splits)
  show ?case using Cons.prems Cons.IH h by (auto simp: Let_def split: if_splits sum.splits dest!: h)
qed simp

section \<open>What the validator promises\<close>

text \<open>
  The abstract validator is the list of registered users. A user is found by an id that agrees with its own outside the two
  bytes that carry flags, and by its email without regard to case.
\<close>

definition spec_Get :: "MemoryUser list \<Rightarrow> UUID \<Rightarrow> MemoryUser option" where
  "spec_Get us i = List.find (\<lambda>u. user_key u = ProcessUUID i) us"

definition spec_GetByEmail :: "(gostring \<Rightarrow> gostring) \<Rightarrow> MemoryUser list \<Rightarrow> gostring \<Rightarrow> MemoryUser option" where
  "spec_GetByEmail lower us e = List.find (\<lambda>u. mu_Email u \<noteq> [] \<and> lower (mu_Email u) = lower e) us"

definition spec_Add :: "(gostring \<Rightarrow> gostring) \<Rightarrow> MemoryUser \<Rightarrow> MemoryUser list \<Rightarrow> MemoryUser list" where
  "spec_Add lower u us = (if mu_Email u \<noteq> [] \<and> spec_GetByEmail lower us (mu_Email u) \<noteq> None then us else us @ [u])"

definition spec_Del :: "(gostring \<Rightarrow> gostring) \<Rightarrow> gostring \<Rightarrow> MemoryUser list \<Rightarrow> MemoryUser list" where
  "spec_Del lower e us = (if e = [] then us else filter (\<lambda>u. \<not> (mu_Email u \<noteq> [] \<and> lower (mu_Email u) = lower e)) us)"

abbreviation with_email :: "MemoryUser list \<Rightarrow> MemoryUser list" where
  "with_email us \<equiv> filter (\<lambda>u. mu_Email u \<noteq> []) us"

text \<open>The representation relation: the two maps are the users by key and those with an email by their email.\<close>

definition represents :: "(gostring \<Rightarrow> gostring) \<Rightarrow> MemoryValidator \<Rightarrow> MemoryUser list \<Rightarrow> bool" where
  "represents lower v us \<longleftrightarrow>
     mv_users v = map (\<lambda>u. (user_key u, u)) us \<and> mv_email v = map (\<lambda>u. (lower (mu_Email u), u)) (with_email us)
     \<and> distinct (map user_key us) \<and> distinct (map (\<lambda>u. lower (mu_Email u)) (with_email us))"

lemma map_of_find: "map_of (map (\<lambda>u. (f u, u)) us) k = List.find (\<lambda>u. f u = k) us"
  by (induction us) auto

lemma find_filter: "List.find P (filter Q us) = List.find (\<lambda>u. Q u \<and> P u) us"
  by (induction us) auto

lemma represents_Get: "represents lower v us \<Longrightarrow> MV_Get v i = spec_Get us i"
  by (simp add: represents_def MV_Get_def spec_Get_def map_of_find)

lemma represents_GetByEmail: "represents lower v us \<Longrightarrow> MV_GetByEmail lower v e = spec_GetByEmail lower us e"
  by (simp add: represents_def MV_GetByEmail_def spec_GetByEmail_def map_of_find find_filter)

lemma update_new: "k \<notin> fst ` set al \<Longrightarrow> AList.update k v al = al @ [(k, v)]"
  by (induction al) auto

lemma represents_Add:
  assumes "represents lower v us" "user_key u \<notin> user_key ` set us"
  shows "represents lower (snd (MV_Add lower u v)) (spec_Add lower u us)
    \<and> (fst (MV_Add lower u v) = None \<longleftrightarrow> spec_Add lower u us = us @ [u])"
proof -
  have e: "map_of (mv_email v) (lower (mu_Email u)) = spec_GetByEmail lower us (mu_Email u)"
    using represents_GetByEmail [OF assms(1)] by (simp add: MV_GetByEmail_def)
  have n: "map_of al k = None \<Longrightarrow> k \<notin> fst ` set al" for al :: "(gostring \<times> MemoryUser) list" and k by (simp add: map_of_eq_None_iff)
  have k: "user_key u \<notin> fst ` set (mv_users v)" using assms by (auto simp: represents_def)
  show ?thesis
  proof (cases "mu_Email u \<noteq> [] \<and> spec_GetByEmail lower us (mu_Email u) \<noteq> None")
    case True
    then show ?thesis using assms(1) e by (auto simp: MV_Add_def spec_Add_def)
  next
    case False
    show ?thesis
    proof (cases "mu_Email u = []")
      case True
      then show ?thesis using assms k by (auto simp: MV_Add_def spec_Add_def represents_def update_new Let_def)
    next
      case ne: False
      then have "map_of (mv_email v) (lower (mu_Email u)) = None" using False e by simp
      then have "lower (mu_Email u) \<notin> fst ` set (mv_email v)" by (rule n)
      then show ?thesis using assms k ne False e
        by (auto simp: MV_Add_def spec_Add_def represents_def update_new Let_def image_image)
    qed
  qed
qed

lemma delete_map_key: "AList.delete k (map (\<lambda>u. (f u, u)) us) = map (\<lambda>u. (f u, u)) (filter (\<lambda>u. f u \<noteq> k) us)"
  by (induction us) auto

lemma represents_Del:
  assumes "represents lower v us"
  shows "represents lower (snd (MV_Del lower e v)) (spec_Del lower e us)"
proof (cases "e = [] \<or> map_of (mv_email v) (lower e) = None")
  case True
  then have "snd (MV_Del lower e v) = v" by (auto simp: MV_Del_def split: option.splits)
  moreover have "spec_Del lower e us = us"
  proof (cases "e = []")
    case False
    then have "spec_GetByEmail lower us e = None"
      using True represents_GetByEmail [OF assms, of e] by (simp add: MV_GetByEmail_def)
    then show ?thesis using False by (auto simp: spec_Del_def spec_GetByEmail_def find_None_iff intro!: filter_True)
  qed (simp add: spec_Del_def)
  ultimately show ?thesis using assms by simp
next
  case False
  then obtain u where u: "map_of (mv_email v) (lower e) = Some u" "e \<noteq> []" by blast
  then have m: "u \<in> set us" "mu_Email u \<noteq> []" "lower (mu_Email u) = lower e"
    using assms by (auto simp: represents_def dest!: map_of_SomeD)
  have same: "user_key x = user_key u \<longleftrightarrow> mu_Email x \<noteq> [] \<and> lower (mu_Email x) = lower e" if "x \<in> set us" for x
  proof
    assume "user_key x = user_key u"
    moreover have "inj_on user_key (set us)" using assms by (simp add: represents_def distinct_map)
    ultimately show "mu_Email x \<noteq> [] \<and> lower (mu_Email x) = lower e" using m that by (metis inj_onD)
  next
    assume "mu_Email x \<noteq> [] \<and> lower (mu_Email x) = lower e"
    moreover have "inj_on (\<lambda>u. lower (mu_Email u)) (set (with_email us))" using assms by (simp add: represents_def distinct_map)
    ultimately have "x = u" using m that by (auto simp: inj_on_def)
    then show "user_key x = user_key u" by simp
  qed
  have f: "filter (\<lambda>x. user_key x \<noteq> user_key u) us = spec_Del lower e us"
    using same u(2) by (auto simp: spec_Del_def intro!: filter_cong)
  have g: "filter (\<lambda>x. lower (mu_Email x) \<noteq> lower e) (with_email us) = with_email (spec_Del lower e us)"
    using u(2) by (auto simp: spec_Del_def intro!: filter_cong)
  have "snd (MV_Del lower e v) = \<lparr>mv_email = map (\<lambda>u. (lower (mu_Email u), u)) (with_email (spec_Del lower e us)),
      mv_users = map (\<lambda>u. (user_key u, u)) (spec_Del lower e us)\<rparr>"
    using u assms f g by (simp add: MV_Del_def represents_def delete_map_key)
  moreover have "distinct (map user_key (spec_Del lower e us))"
    "distinct (map (\<lambda>u. lower (mu_Email u)) (with_email (spec_Del lower e us)))"
    using assms unfolding f [symmetric] by (auto simp: represents_def distinct_map intro: inj_on_subset)
  ultimately show ?thesis by (simp add: represents_def)
qed

fun mv_run :: "(gostring \<Rightarrow> gostring) \<Rightarrow> (MemoryUser + gostring) list \<Rightarrow> MemoryValidator \<Rightarrow> MemoryValidator" where
  "mv_run lower [] v = v"
| "mv_run lower (Inl u # xs) v = mv_run lower xs (snd (MV_Add lower u v))"
| "mv_run lower (Inr e # xs) v = mv_run lower xs (snd (MV_Del lower e v))"

fun spec_run :: "(gostring \<Rightarrow> gostring) \<Rightarrow> (MemoryUser + gostring) list \<Rightarrow> MemoryUser list \<Rightarrow> MemoryUser list" where
  "spec_run lower [] us = us"
| "spec_run lower (Inl u # xs) us = spec_run lower xs (spec_Add lower u us)"
| "spec_run lower (Inr e # xs) us = spec_run lower xs (spec_Del lower e us)"

text \<open>Every user that is added has a key of its own at that time.\<close>

fun fresh_keys :: "(gostring \<Rightarrow> gostring) \<Rightarrow> (MemoryUser + gostring) list \<Rightarrow> MemoryUser list \<Rightarrow> bool" where
  "fresh_keys lower [] us = True"
| "fresh_keys lower (Inl u # xs) us = (user_key u \<notin> user_key ` set us \<and> fresh_keys lower xs (spec_Add lower u us))"
| "fresh_keys lower (Inr e # xs) us = fresh_keys lower xs (spec_Del lower e us)"

lemma mv_run_represents:
  "represents lower v us \<Longrightarrow> fresh_keys lower xs us \<Longrightarrow> represents lower (mv_run lower xs v) (spec_run lower xs us)"
  by (induction lower xs v arbitrary: us rule: mv_run.induct) (auto dest: represents_Add represents_Del)

lemma represents_zero [simp]: "represents lower zero_MemoryValidator []"
  by (simp add: represents_def zero_MemoryValidator_def)

text \<open>
  Without that condition the two maps come apart: a second user with the id of the first takes its place, and deleting the second
  locks the first out, although it is still listed.
\<close>

lemma duplicate_id_locks_out:
  assumes "user_key a = user_key b" "mu_Email a \<noteq> []" "mu_Email b \<noteq> []" "lower (mu_Email a) \<noteq> lower (mu_Email b)"
  shows "MV_Get (mv_run lower [Inl a, Inl b, Inr (mu_Email b)] zero_MemoryValidator) (id_uuid (ma_ID (mu_Account a))) = None
    \<and> MV_GetByEmail lower (mv_run lower [Inl a, Inl b, Inr (mu_Email b)] zero_MemoryValidator) (mu_Email a) = Some a"
  using assms by (simp add: MV_Add_def MV_Del_def MV_Get_def MV_GetByEmail_def zero_MemoryValidator_def)

section \<open>Properties\<close>

text \<open>
  Printing and parsing UUIDs are inverse: for every sixteen bytes, \<open>ParseString\<close> of what \<open>String\<close> prints gives the same
  bytes, so an account survives the trip through its configuration message.
\<close>

theorem uuid_roundtrip:
  assumes "length u = 16"
  shows "UUID_ParseString sha1 (UUID_String u) = Inr u"
proof -
  have l: "2 * length (take 4 u) = 8" "2 * length (drop 4 u) = sum_list [4, 4, 4, 12 :: nat]" "take 4 u \<noteq> []" using assms by auto
  have "length (UUID_String u) = 36"
    using length_UUID_String_loop [OF _ l(2)] l(1) by (simp add: UUID_String_eq)
  moreover have "parse_groups byteGroups (UUID_String u) = Inr u"
    using parse_loop [OF _ l(2), of "[]"] unfolding UUID_String_eq byteGroups_def parse_groups_nodash [OF l(1,3)] by simp
  ultimately show ?thesis by (simp add: UUID_ParseString_def)
qed

theorem uuid_roundtrip_witness:
  "UUID_ParseString (\<lambda>_. []) (UUID_String [1, 2, 3, 4, 5, 6, 7, 8, 9, 10, 11, 12, 13, 14, 15, 171])
    = Inr [1, 2, 3, 4, 5, 6, 7, 8, 9, 10, 11, 12, 13, 14, 15, 171]"
  by (rule uuid_roundtrip) simp

text \<open>
  A string of 32 hexadecimal digits is a UUID whatever four characters follow it: \<open>ParseString\<close> never looks at the rest of the text, so
  malformed ids of 33 to 36 characters are accepted.
\<close>

theorem uuid_trailing_text_ignored:
  assumes "length u = 16" "length t \<le> 4"
  shows "UUID_ParseString sha1 (hex_EncodeToString u @ t) = Inr u"
proof -
  let ?d = "\<lambda>n. drop n u"
  have split: "u = take 4 u @ take 2 (?d 4) @ take 2 (?d 6) @ take 2 (?d 8) @ ?d 10"
    using append_take_drop_id [of 4 u] append_take_drop_id [of 2 "?d 4"] append_take_drop_id [of 2 "?d 6"]
      append_take_drop_id [of 2 "?d 8"] by (simp add: add.commute)
  have e: "hex_EncodeToString (a @ b) = hex_EncodeToString a @ hex_EncodeToString b" for a b by (simp add: hex_EncodeToString_def)
  have l: "2 * length (take 4 u) = 8" "2 * length (take 2 (?d 4)) = 4" "2 * length (take 2 (?d 6)) = 4" "2 * length (take 2 (?d 8)) = 4"
    "2 * length (?d 10) = 12" "take 4 u \<noteq> []" "take 2 (?d 4) \<noteq> []" "take 2 (?d 6) \<noteq> []" "take 2 (?d 8) \<noteq> []" "?d 10 \<noteq> []"
    using assms(1) by auto
  have "hex_EncodeToString u @ t = hex_EncodeToString (take 4 u) @ hex_EncodeToString (take 2 (?d 4)) @ hex_EncodeToString (take 2 (?d 6))
      @ hex_EncodeToString (take 2 (?d 8)) @ hex_EncodeToString (?d 10) @ t"
    by (subst split) (simp only: e append_assoc)
  then have "parse_groups byteGroups (hex_EncodeToString u @ t) = Inr (take 4 u @ take 2 (?d 4) @ take 2 (?d 6) @ take 2 (?d 8) @ ?d 10 @ [])"
    unfolding byteGroups_def
    by (simp only: parse_groups_nodash [OF l(1,6)] parse_groups_nodash [OF l(2,7)] parse_groups_nodash [OF l(3,8)]
        parse_groups_nodash [OF l(4,9)] parse_groups_nodash [OF l(5,10)] parse_groups.simps(1) sum.case)
  then have "parse_groups byteGroups (hex_EncodeToString u @ t) = Inr u" using split by simp
  then show ?thesis using assms by (simp add: UUID_ParseString_def)
qed

theorem uuid_trailing_text_ignored_witness:
  "UUID_ParseString (\<lambda>_. []) (hex_EncodeToString (replicate 16 7) @ str ''zz!?'') = Inr (replicate 16 7)"
  by (rule uuid_trailing_text_ignored) simp_all


definition demo_user :: "UUID \<Rightarrow> string \<Rightarrow> MemoryUser" where
  "demo_user u e = \<lparr>mu_Account = \<lparr>ma_ID = NewID (\<lambda>_. []) u, ma_Flow = [], ma_Encryption = [], ma_XorMode = 0, ma_Seconds = 0, ma_Padding = [],
     ma_Reverse = None, ma_Testpre = 0, ma_Testseed = []\<rparr>, mu_Email = str e, mu_Level = 0\<rparr>"


end
