(* ===== verification/Vless_Header.thy ===== *)
theory Vless_Header
  imports Vless_Users Addr_Codec
begin

text \<open>
  \<open>proxy/vless/encoding\<close>: the request and response headers of VLESS, and the length-prefixed packets that carry UDP. The
  protobuf code of the \<open>Addons\<close> message is a parameter (\<open>marshal\<close>, \<open>unmarshal\<close>), and so is the lookup of a user by id
  (\<open>get\<close>, the method \<open>Get\<close> of \<open>vless.Validator\<close>). With a fallback configured the first buffer of the connection was read
  ahead and is shared with the reader: \<open>fget\<close> and \<open>fput\<close> look at that buffer inside the reader.
\<close>

section \<open>Headers\<close>

record Addons =
  ad_Flow :: gostring
  ad_Seed :: "byte list"

definition zero_Addons :: Addons where
  "zero_Addons = \<lparr>ad_Flow = [], ad_Seed = []\<rparr>"

record RequestHeader =
  rh_Version :: byte
  rh_Command :: byte
  rh_Option :: byte
  rh_Security :: int
  rh_Port :: Port
  rh_Address :: "Address option"
  rh_User :: "MemoryUser option"

definition zero_RequestHeader :: RequestHeader where
  "zero_RequestHeader = \<lparr>rh_Version = 0, rh_Command = 0, rh_Option = 0, rh_Security = 0, rh_Port = 0, rh_Address = None, rh_User = None\<rparr>"

definition Header_Destination :: "RequestHeader \<Rightarrow> Destination" where
  "Header_Destination h =
     (if rh_Command h = RequestCommandUDP then UDPDestination (rh_Address h) (rh_Port h)
      else TCPDestination (rh_Address h) (rh_Port h))"

definition XRV :: gostring where
  "XRV = str ''xtls-rprx-vision''"

definition Version :: byte where
  "Version = 0"

type_synonym marshaller = "Addons \<Rightarrow> goerr + byte list"
type_synonym unmarshaller = "byte list \<Rightarrow> goerr + Addons"

section \<open>Encoding\<close>

text \<open>\<open>if err := m; err != nil { return errors.New(msg).Base(err) }\<close>, then the continuation.\<close>

definition or_fail ::
  "string \<Rightarrow> (goerr option \<times> Buffer) option \<Rightarrow> (Buffer \<Rightarrow> (goerr option \<times> Buffer) option) \<Rightarrow> (goerr option \<times> Buffer) option" where
  "or_fail msg m k = Option.bind m (\<lambda>(e, b). case e of Some er \<Rightarrow> Some (Some (ENew msg (Some er)), b) | None \<Rightarrow> k b)"

definition Write_err :: "Buffer \<Rightarrow> byte list \<Rightarrow> (goerr option \<times> Buffer) option" where
  "Write_err b d = map_option (\<lambda>((_, e), b'). (e, b')) (Write b d)"

definition EncodeHeaderAddons :: "marshaller \<Rightarrow> Buffer \<Rightarrow> Addons option \<Rightarrow> (goerr option \<times> Buffer) option" where
  "EncodeHeaderAddons marshal b addons =
     Option.bind addons (\<lambda>a.
       if ad_Flow a = XRV then
         (case marshal a of
            Inl e \<Rightarrow> Some (Some (ENew ''failed to marshal addons protobuf value'' (Some e)), b)
          | Inr bs \<Rightarrow> or_fail ''failed to write addons protobuf length'' (WriteByte b (word_of_nat (length bs))) (\<lambda>b1.
                       or_fail ''failed to write addons protobuf value'' (Write_err b1 bs) (\<lambda>b2. Some (None, b2))))
       else or_fail ''failed to write addons protobuf length'' (WriteByte b 0) (\<lambda>b1. Some (None, b1)))"

text \<open>The part of \<open>EncodeRequestHeader\<close> that fills the buffer; a nil user is dereferenced.\<close>

definition fill_request :: "marshaller \<Rightarrow> RequestHeader \<Rightarrow> Addons option \<Rightarrow> Buffer \<Rightarrow> (goerr option \<times> Buffer) option" where
  "fill_request marshal req addons b =
     or_fail ''failed to write request version'' (WriteByte b (rh_Version req)) (\<lambda>b1.
     Option.bind (rh_User req) (\<lambda>u.
     or_fail ''failed to write request user id'' (Write_err b1 (id_uuid (ma_ID (mu_Account u)))) (\<lambda>b2.
     or_fail ''failed to encode request header addons'' (EncodeHeaderAddons marshal b2 addons) (\<lambda>b3.
     or_fail ''failed to write request command'' (WriteByte b3 (rh_Command req)) (\<lambda>b4.
       if rh_Command req \<noteq> RequestCommandMux \<and> rh_Command req \<noteq> RequestCommandRvs then
         or_fail ''failed to write request address and port''
           (WriteAddressPort addrParser Buffer_Write b4 (rh_Address req) (rh_Port req)) (\<lambda>b5. Some (None, b5))
       else Some (None, b4))))))"

text \<open>\<open>writer.Write(buffer.Bytes())\<close> at the end of an encoder, with the deferred release of the buffer.\<close>

definition send_buffer ::
  "'w io_write \<Rightarrow> string \<Rightarrow> 'w \<Rightarrow> pool \<Rightarrow> goerr option \<times> Buffer \<Rightarrow> (goerr option \<times> 'w \<times> pool) option" where
  "send_buffer wr msg w p = (\<lambda>(err, b).
     case err of
       Some e \<Rightarrow> Some (Some e, w, snd (Release (Some b) p))
     | None \<Rightarrow> Option.bind (Bytes b) (\<lambda>bs.
         map_option (\<lambda>(_, e, w'). (map_option (\<lambda>er. ENew msg (Some er)) e, w', snd (Release (Some b) p))) (wr w bs)))"

definition EncodeRequestHeader ::
  "marshaller \<Rightarrow> 'w io_write \<Rightarrow> 'w \<Rightarrow> RequestHeader \<Rightarrow> Addons option \<Rightarrow> pool \<Rightarrow> (goerr option \<times> 'w \<times> pool) option" where
  "EncodeRequestHeader marshal wr w req addons p =
     (case StackNew p of (b, p1) \<Rightarrow>
        Option.bind (fill_request marshal req addons b) (send_buffer wr ''failed to write request header'' w p1))"

text \<open>\<open>EncodeResponseHeader\<close>: the general path below the early return, and the whole function.\<close>

definition encode_response ::
  "marshaller \<Rightarrow> 'w io_write \<Rightarrow> 'w \<Rightarrow> RequestHeader \<Rightarrow> Addons option \<Rightarrow> pool \<Rightarrow> (goerr option \<times> 'w \<times> pool) option" where
  "encode_response marshal wr w req addons p =
     (case StackNew p of (b, p1) \<Rightarrow>
        Option.bind
          (or_fail ''failed to write response version'' (WriteByte b (rh_Version req)) (\<lambda>b1.
           or_fail ''failed to encode response header addons'' (EncodeHeaderAddons marshal b1 addons) (\<lambda>b2. Some (None, b2))))
          (send_buffer wr ''failed to write response header'' w p1))"

definition responseHeaderZeroAddons :: "byte list" where
  "responseHeaderZeroAddons = [Version, 0]"

definition EncodeResponseHeader ::
  "marshaller \<Rightarrow> 'w io_write \<Rightarrow> 'w \<Rightarrow> RequestHeader \<Rightarrow> Addons option \<Rightarrow> pool \<Rightarrow> (goerr option \<times> 'w \<times> pool) option" where
  "EncodeResponseHeader marshal wr w req addons p =
     (if rh_Version req = Version \<and> addons \<noteq> None \<and> ad_Flow (the addons) \<noteq> XRV
      then map_option (\<lambda>(_, e, w'). (map_option (\<lambda>er. ENew ''failed to write response header'' (Some er)) e, w', p))
             (wr w responseHeaderZeroAddons)
      else encode_response marshal wr w req addons p)"

section \<open>Decoding\<close>

definition DecodeHeaderAddons ::
  "unmarshaller \<Rightarrow> 'r io_read \<Rightarrow> Buffer \<Rightarrow> 'r \<Rightarrow> ((goerr + Addons) \<times> Buffer \<times> 'r) option" where
  "DecodeHeaderAddons unmarshal rd b r =
     with_full rd (Clear b) r 1 (\<lambda>e. Inl (ENew ''failed to read addons protobuf length'' (Some e))) (\<lambda>b1 r1.
     Option.bind (Byte b1 0) (\<lambda>l.
       if uint l \<noteq> 0 then
         with_full rd (Clear b1) r1 (uint l) (\<lambda>e. Inl (ENew ''failed to read addons protobuf value'' (Some e))) (\<lambda>b2 r2.
         map_option (\<lambda>bs. (case unmarshal bs of
             Inl e \<Rightarrow> Inl (ENew ''failed to unmarshal addons protobuf value'' (Some e))
           | Inr a \<Rightarrow> Inr a, b2, r2)) (Bytes b2))
       else Some (Inr zero_Addons, b1, r1)))"

text \<open>The result of \<open>DecodeRequestHeader\<close>: an error with the flag that allows the fallback, or id, header and addons.\<close>

type_synonym decoded = "(goerr \<times> bool) + (byte list \<times> RequestHeader \<times> Addons)"

definition read_request_target :: "'r io_read \<Rightarrow> byte \<Rightarrow> Buffer \<Rightarrow> 'r \<Rightarrow> ((Address option \<times> Port) \<times> Buffer \<times> 'r) option" where
  "read_request_target rd c b r =
     (if c = RequestCommandMux then Some ((Some (DomainAddress (str ''v1.mux.cool'')), 0), b, r)
      else if c = RequestCommandRvs then Some ((Some (DomainAddress (str ''v1.rvs.cool'')), 0), b, r)
      else if c = RequestCommandTCP \<or> c = RequestCommandUDP then
        map_option (\<lambda>((a, port, err), b', r'). (if err = None then (a, port) else (None, 0), b', r')) (read_addr_port addrParser rd b r)
      else Some ((None, 0), b, r))"

definition decode_body ::
  "unmarshaller \<Rightarrow> 'r io_read \<Rightarrow> byte list \<Rightarrow> MemoryUser \<Rightarrow> Buffer \<Rightarrow> 'r \<Rightarrow> (decoded \<times> Buffer \<times> 'r) option" where
  "decode_body unmarshal rd uid u b r =
     Option.bind (DecodeHeaderAddons unmarshal rd b r) (\<lambda>(res, b1, r1).
       case res of
         Inl e \<Rightarrow> Some (Inl (ENew ''failed to decode request header addons'' (Some e), False), b1, r1)
       | Inr ad \<Rightarrow>
           with_full rd (Clear b1) r1 1 (\<lambda>e. Inl (ENew ''failed to read request command'' (Some e), False)) (\<lambda>b2 r2.
           Option.bind (Byte b2 0) (\<lambda>c.
           map_option (\<lambda>((a, port), b3, r3).
               (if a = None then Inl (ENew ''invalid request address'' None, False)
                else Inr (uid, zero_RequestHeader\<lparr>rh_Command := c, rh_Address := a, rh_Port := port, rh_User := Some u\<rparr>, ad), b3, r3))
             (read_request_target rd c b2 r2))))"

definition decode_user ::
  "bool \<Rightarrow> (UUID \<Rightarrow> MemoryUser option) \<Rightarrow> unmarshaller \<Rightarrow> 'r io_read \<Rightarrow> ('r \<Rightarrow> Buffer) \<Rightarrow> ('r \<Rightarrow> Buffer \<Rightarrow> 'r)
    \<Rightarrow> byte list \<Rightarrow> Buffer \<Rightarrow> 'r \<Rightarrow> (decoded \<times> Buffer \<times> 'r) option" where
  "decode_user isfb get unmarshal rd fget fput uid b r =
     (case get uid of
        None \<Rightarrow> Some (Inl (ENew ''invalid request user id: '' None, isfb), b, r)
      | Some u \<Rightarrow> decode_body unmarshal rd uid u b (if isfb then fput r (Advance (fget r) 17) else r))"

definition decode_request ::
  "bool \<Rightarrow> (UUID \<Rightarrow> MemoryUser option) \<Rightarrow> unmarshaller \<Rightarrow> 'r io_read \<Rightarrow> ('r \<Rightarrow> Buffer) \<Rightarrow> ('r \<Rightarrow> Buffer \<Rightarrow> 'r)
    \<Rightarrow> Buffer \<Rightarrow> 'r \<Rightarrow> (decoded \<times> Buffer \<times> 'r) option" where
  "decode_request isfb get unmarshal rd fget fput b r =
     (if isfb then
        Option.bind (Byte (fget r) 0) (\<lambda>v.
          if v = 0 then Option.bind (BytesRange (fget r) 1 17) (\<lambda>uid. decode_user isfb get unmarshal rd fget fput uid b r)
          else Some (Inl (ENew ''invalid request version'' None, isfb), b, r))
      else
        with_full rd b r 1 (\<lambda>e. Inl (ENew ''failed to read request version'' (Some e), False)) (\<lambda>b1 r1.
        Option.bind (Byte b1 0) (\<lambda>v.
          if v = 0 then
            with_full rd (Clear b1) r1 16 (\<lambda>e. Inl (ENew ''failed to read request user id'' (Some e), False)) (\<lambda>b2 r2.
            Option.bind (Bytes b2) (\<lambda>uid. decode_user isfb get unmarshal rd fget fput uid b2 r2))
          else Some (Inl (ENew ''invalid request version'' None, isfb), b1, r1))))"

definition DecodeRequestHeader ::
  "bool \<Rightarrow> (UUID \<Rightarrow> MemoryUser option) \<Rightarrow> unmarshaller \<Rightarrow> 'r io_read \<Rightarrow> ('r \<Rightarrow> Buffer) \<Rightarrow> ('r \<Rightarrow> Buffer \<Rightarrow> 'r)
    \<Rightarrow> 'r \<Rightarrow> pool \<Rightarrow> (decoded \<times> 'r \<times> pool) option" where
  "DecodeRequestHeader isfb get unmarshal rd fget fput r p =
     (case StackNew p of (b, p1) \<Rightarrow>
        map_option (\<lambda>(res, b', r'). (res, r', snd (Release (Some b') p1))) (decode_request isfb get unmarshal rd fget fput b r))"

definition DecodeResponseHeader ::
  "unmarshaller \<Rightarrow> 'r io_read \<Rightarrow> 'r \<Rightarrow> RequestHeader \<Rightarrow> pool \<Rightarrow> ((goerr + Addons) \<times> 'r \<times> pool) option" where
  "DecodeResponseHeader unmarshal rd r req p =
     (case StackNew p of (b, p1) \<Rightarrow>
        map_option (\<lambda>(res, b', r'). (res, r', snd (Release (Some b') p1)))
          (with_full rd b r 1 (\<lambda>e. Inl (ENew ''failed to read response version'' (Some e))) (\<lambda>b1 r1.
           Option.bind (Byte b1 0) (\<lambda>v.
             if v \<noteq> rh_Version req
             then Some (Inl (ENew ''unexpected response version. Expecting '' None), b1, r1)
             else map_option (\<lambda>(res, b2, r2). (case res of
                      Inl e \<Rightarrow> Inl (ENew ''failed to decode response header addons'' (Some e))
                    | Inr a \<Rightarrow> Inr a, b2, r2)) (DecodeHeaderAddons unmarshal rd b1 r1)))))"

section \<open>Packets\<close>

text \<open>Which reader and writer \<open>DecodeBodyAddons\<close> and \<open>EncodeBodyAddons\<close> choose.\<close>

datatype body_writer = MultiLengthPackets | VisionBody | PlainBody

definition EncodeBodyAddons :: "RequestHeader \<Rightarrow> Addons \<Rightarrow> body_writer" where
  "EncodeBodyAddons req addons =
     (if rh_Command req = RequestCommandUDP then MultiLengthPackets
      else if ad_Flow addons = XRV then VisionBody else PlainBody)"

datatype body_reader = LengthPackets | PlainReader

definition DecodeBodyAddons :: "RequestHeader \<Rightarrow> Addons \<Rightarrow> body_reader" where
  "DecodeBodyAddons req addons = (if rh_Command req = RequestCommandUDP then LengthPackets else PlainReader)"

definition mlp_fill :: "Buffer \<Rightarrow> Buffer \<Rightarrow> (goerr option \<times> Buffer) option" where
  "mlp_fill b eb =
     Option.bind (WriteByte eb (hi_byte (buf_Len b))) (\<lambda>(e1, b1). if e1 \<noteq> None then Some (e1, b1) else
     Option.bind (WriteByte b1 (byte_of (buf_Len b))) (\<lambda>(e2, b2). if e2 \<noteq> None then Some (e2, b2) else
     Option.bind (Bytes b) (Write_err b2)))"

text \<open>The loop of \<open>MultiLengthPacketWriter.WriteMultiBuffer\<close>: the framed copies, in order.\<close>

fun mlp_frames :: "MultiBuffer \<Rightarrow> pool \<Rightarrow> (MultiBuffer \<times> pool) option" where
  "mlp_frames [] p = Some ([], p)"
| "mlp_frames (None # mb) p = mlp_frames mb p"
| "mlp_frames (Some b # mb) p =
     (if buf_Len b = 0 \<or> i32 (buf_Len b + 2) > Size then mlp_frames mb p
      else case New p of (eb, p1) \<Rightarrow>
        Option.bind (mlp_fill b eb) (\<lambda>(err, eb').
          if err \<noteq> None then mlp_frames mb (snd (Release (Some eb') p1))
          else map_option (\<lambda>(fs, p2). (Some eb' # fs, p2)) (mlp_frames mb p1)))"

definition MLP_WriteMultiBuffer :: "'w mb_write \<Rightarrow> 'w mb_write" where
  "MLP_WriteMultiBuffer wmb w mb p =
     Option.bind (mlp_frames mb p) (\<lambda>(fs, p1).
       if MB_IsEmpty fs then Some (None, w, snd (ReleaseMulti mb p1))
       else map_option (\<lambda>(e, w', p2). (e, w', snd (ReleaseMulti mb p2))) (wmb w fs p1))"

text \<open>
  \<open>LengthPacketWriter\<close>: one packet from all the buffers. The cache is empty before and after every call, so it is not part of
  the state. The buffers are released one by one while the cache is filled.
\<close>

definition LPW_WriteMultiBuffer :: "'w io_write \<Rightarrow> 'w mb_write" where
  "LPW_WriteMultiBuffer wr w mb p =
     (let l = MB_Len mb
      in if l = 0 then Some (None, w, p)
         else Option.bind (all_Bytes mb) (\<lambda>bss.
           map_option (\<lambda>(_, e, w'). (map_option (\<lambda>er. ENew ''failed to write a packet'' (Some er)) e, w', snd (ReleaseMulti mb p)))
             (wr w ([hi_byte l, byte_of l] @ concat bss))))"

text \<open>The loop of \<open>LengthPacketReader.ReadMultiBuffer\<close>; the buffers read before an error are dropped, not released.\<close>

function LPR_loop :: "'r io_read \<Rightarrow> 'r \<Rightarrow> int \<Rightarrow> MultiBuffer \<Rightarrow> pool \<Rightarrow> (MultiBuffer \<times> goerr option \<times> 'r \<times> pool) option" where
  "LPR_loop rd r l mb p =
     (if l > 0 then
        (let size = (if l > Size then Size else l)
         in case New p of (b, p1) \<Rightarrow>
           Option.bind (ReadFullFrom rd b r size) (\<lambda>((_, err), b', r').
             case err of
               Some e \<Rightarrow> Some ([], Some (ENew ''failed to read packet payload'' (Some e)), r', p1)
             | None \<Rightarrow> LPR_loop rd r' (l - size) (mb @ [Some b']) p1))
      else Some (mb, None, r, p))"
  by pat_completeness auto
termination by (relation "measure (\<lambda>(_, _, l, _, _). nat l)") (auto simp: Size_def)

declare LPR_loop.simps [simp del]

definition LPR_ReadMultiBuffer :: "'r io_read \<Rightarrow> 'r mb_read" where
  "LPR_ReadMultiBuffer rd r p =
     Option.bind (ReadFull rd r 2) (\<lambda>(bs, err, r').
       case err of
         Some e \<Rightarrow> Some ([], Some (ENew ''failed to read packet length'' (Some e)), r', p)
       | None \<Rightarrow> LPR_loop rd r' (be_int (bs ! 0) (bs ! 1)) [] p)"

section \<open>What is on the wire\<close>

text \<open>What the headers rely on of the protobuf code: decoding inverts encoding, and the empty message is the zero value.\<close>

definition proto_ok :: "marshaller \<Rightarrow> unmarshaller \<Rightarrow> bool" where
  "proto_ok marshal unmarshal \<longleftrightarrow> (\<forall>a bs. marshal a = Inr bs \<longrightarrow> unmarshal bs = Inr a) \<and> unmarshal [] = Inr zero_Addons"

text \<open>Addons that fit into the header, the bytes they take, and what the other side gets.\<close>

definition addons_fit :: "marshaller \<Rightarrow> Addons \<Rightarrow> bool" where
  "addons_fit marshal a \<longleftrightarrow> (ad_Flow a = XRV \<longrightarrow> (\<exists>bs. marshal a = Inr bs \<and> length bs \<le> 255))"

definition addons_wire :: "marshaller \<Rightarrow> Addons \<Rightarrow> byte list" where
  "addons_wire marshal a =
     (if ad_Flow a = XRV then case marshal a of Inr bs \<Rightarrow> word_of_nat (length bs) # bs | Inl _ \<Rightarrow> [] else [0])"

definition addons_got :: "Addons \<Rightarrow> Addons" where
  "addons_got a = (if ad_Flow a = XRV then a else zero_Addons)"

lemma addons_wire_length: "addons_fit marshal a \<Longrightarrow> length (addons_wire marshal a) \<le> 256"
  by (auto simp: addons_wire_def addons_fit_def)

lemma or_fail_byte [simp]: "buf_inv b \<Longrightarrow> 0 < room b \<Longrightarrow> or_fail msg (WriteByte b x) k = k (append_to b [x])"
  by (simp add: or_fail_def WriteByte_room)

lemma or_fail_bytes [simp]: "buf_inv b \<Longrightarrow> length d \<le> room b \<Longrightarrow> or_fail msg (Write_err b d) k = k (append_to b d)"
  by (simp add: or_fail_def Write_err_def Write_fits)

lemma or_fail_done [simp]: "or_fail msg (Some (None, b)) k = k b"
  by (simp add: or_fail_def)

lemma EncodeHeaderAddons_ok:
  assumes "buf_inv b" "addons_fit marshal a" "256 \<le> room b"
  shows "EncodeHeaderAddons marshal b (Some a) = Some (None, append_to b (addons_wire marshal a))"
  using assms by (auto simp: EncodeHeaderAddons_def addons_wire_def addons_fit_def)

text \<open>The request header of a user, and the request the server decodes.\<close>

abbreviation user_id :: "MemoryUser \<Rightarrow> UUID" where
  "user_id u \<equiv> id_uuid (ma_ID (mu_Account u))"

definition is_stream_command :: "byte \<Rightarrow> bool" where
  "is_stream_command c \<longleftrightarrow> c = RequestCommandMux \<or> c = RequestCommandRvs"

definition target_wire :: "RequestHeader \<Rightarrow> byte list" where
  "target_wire req = (if is_stream_command (rh_Command req) then []
     else case rh_Address req of Some a \<Rightarrow> addr_port_bytes addrParser a (rh_Port req) | None \<Rightarrow> [])"

definition request_wire :: "marshaller \<Rightarrow> MemoryUser \<Rightarrow> RequestHeader \<Rightarrow> Addons \<Rightarrow> byte list" where
  "request_wire marshal u req a =
     rh_Version req # user_id u @ addons_wire marshal a @ rh_Command req # target_wire req"

definition request_ok :: "RequestHeader \<Rightarrow> bool" where
  "request_ok req \<longleftrightarrow> rh_Version req = 0
     \<and> rh_Command req \<in> {RequestCommandTCP, RequestCommandUDP, RequestCommandMux, RequestCommandRvs}
     \<and> (is_stream_command (rh_Command req) \<or> (\<exists>a. rh_Address req = Some a \<and> encodable a))"

definition request_got :: "MemoryUser \<Rightarrow> RequestHeader \<Rightarrow> RequestHeader" where
  "request_got u req =
     (if rh_Command req = RequestCommandMux then zero_RequestHeader\<lparr>rh_Address := Some (domainAddress (str ''v1.mux.cool''))\<rparr>
      else if rh_Command req = RequestCommandRvs then zero_RequestHeader\<lparr>rh_Address := Some (domainAddress (str ''v1.rvs.cool''))\<rparr>
      else zero_RequestHeader\<lparr>rh_Address := rh_Address req, rh_Port := rh_Port req\<rparr>)
     \<lparr>rh_Command := rh_Command req, rh_User := Some u\<rparr>"

lemma command_distinct [simp]:
  "RequestCommandTCP \<noteq> RequestCommandMux" "RequestCommandTCP \<noteq> RequestCommandRvs" "RequestCommandUDP \<noteq> RequestCommandMux"
  "RequestCommandUDP \<noteq> RequestCommandRvs" "RequestCommandRvs \<noteq> RequestCommandMux" "RequestCommandMux \<noteq> RequestCommandRvs"
  by (simp_all add: RequestCommandTCP_def RequestCommandUDP_def RequestCommandMux_def RequestCommandRvs_def)

lemma fill_request_ok:
  assumes "buf_inv b" "content b = []" "room b = 8192" "rh_User req = Some u" "length (user_id u) = 16" "request_ok req" "addons_fit marshal a"
  shows "fill_request marshal req (Some a) b = Some (None, append_to b (request_wire marshal u req a))"
proof -
  let ?h = "rh_Version req # user_id u @ addons_wire marshal a @ [rh_Command req]"
  have l: "length (addons_wire marshal a) \<le> 256" using addons_wire_length [OF assms(7)] .
  have h: "fill_request marshal req (Some a) b = (if \<not> is_stream_command (rh_Command req) then
      or_fail ''failed to write request address and port''
        (WriteAddressPort addrParser Buffer_Write (append_to b ?h) (rh_Address req) (rh_Port req)) (\<lambda>b5. Some (None, b5))
      else Some (None, append_to b ?h))"
    using assms l by (simp add: fill_request_def EncodeHeaderAddons_ok is_stream_command_def del: append_to_sel)
  show ?thesis
  proof (cases "is_stream_command (rh_Command req)")
    case True
    then show ?thesis using h by (simp add: request_wire_def target_wire_def)
  next
    case False
    then obtain x where x: "rh_Address req = Some x" "encodable x" using assms(6) by (auto simp: request_ok_def)
    have "WriteAddressPort addrParser Buffer_Write (append_to b ?h) (Some x) (rh_Port req)
        = Some (None, append_to (append_to b ?h) (addr_port_bytes addrParser x (rh_Port req)))"
      using x(2) addr_bytes_length [OF x(2), of addrParser "rh_Port req"] assms(1,3,5) l
      by (intro WriteAddressPort_ok) (auto simp: encodable_def)
    then show ?thesis using h False x(1) assms(1) by (simp add: request_wire_def target_wire_def)
  qed
qed

context io_reader
begin

lemma DecodeHeaderAddons_ok:
  assumes "rinv r" "buf_inv b" "255 \<le> b_len b" "pending r = addons_wire marshal a @ rest" "addons_fit marshal a" "proto_ok marshal unmarshal"
  obtains b' r' where "DecodeHeaderAddons unmarshal rd b r = Some (Inr (addons_got a), b', r')" "buf_inv b'" "b_len b' = b_len b"
    "rinv r'" "pending r' = rest" "final r' = final r"
proof -
  define bs where "bs = (if ad_Flow a = XRV then case marshal a of Inr bs \<Rightarrow> bs | Inl _ \<Rightarrow> [] else [])"
  let ?l = "word_of_nat (length bs) :: byte"
  have bs: "addons_wire marshal a = ?l # bs" "length bs \<le> 255" "unmarshal bs = Inr (addons_got a)"
    using assms(5,6) by (auto simp: bs_def addons_wire_def addons_fit_def addons_got_def proto_ok_def)
  have p: "pending r = [?l] @ bs @ rest" using assms(4) bs(1) by simp
  have c: "buf_inv (Clear b)" "255 \<le> room (Clear b)" "b_len (Clear b) = b_len b" using assms(2,3) by simp_all
  let ?b1 = "append_to (Clear b) [?l]"
  have b1: "buf_inv ?b1" "content ?b1 = [?l]" "b_len ?b1 = b_len b" using c by simp_all
  have "length [?l] \<le> room (Clear b)" "1 = int (length [?l])" using c(2) by simp_all
  then obtain r1 where r1: "DecodeHeaderAddons unmarshal rd b r = Option.bind (Byte ?b1 0) (\<lambda>l.
       if uint l \<noteq> 0 then
         with_full rd (Clear ?b1) r1 (uint l) (\<lambda>e. Inl (ENew ''failed to read addons protobuf value'' (Some e))) (\<lambda>b2 r2.
         map_option (\<lambda>bs. (case unmarshal bs of
             Inl e \<Rightarrow> Inl (ENew ''failed to unmarshal addons protobuf value'' (Some e))
           | Inr a \<Rightarrow> Inr a, b2, r2)) (Bytes b2))
       else Some (Inr zero_Addons, ?b1, r1))" "rinv r1" "pending r1 = bs @ rest" "final r1 = final r"
    unfolding DecodeHeaderAddons_def by (rule with_full_ok [OF assms(1) c(1) p])
  have B: "Byte ?b1 0 = Some ?l" using Byte_content [OF b1(1), of 0] b1(2) by simp
  have u: "uint ?l = int (length bs)" using uint_length [OF bs(2)] .
  show ?thesis
  proof (cases "bs = []")
    case True
    then have "addons_got a = zero_Addons" using assms(6) bs(3) by (simp add: proto_ok_def)
    then show ?thesis using r1 B u True b1 by (intro that [of ?b1 r1]) simp_all
  next
    case False
    have c1: "buf_inv (Clear ?b1)" "length bs \<le> room (Clear ?b1)" using b1 bs(2) assms(3) by simp_all
    obtain r2 where r2: "with_full rd (Clear ?b1) r1 (uint ?l) (\<lambda>e. Inl (ENew ''failed to read addons protobuf value'' (Some e))) (\<lambda>b2 r2.
         map_option (\<lambda>x. (case unmarshal x of
             Inl e \<Rightarrow> Inl (ENew ''failed to unmarshal addons protobuf value'' (Some e))
           | Inr a \<Rightarrow> Inr a, b2, r2)) (Bytes b2)) = map_option (\<lambda>x. (case unmarshal x of
             Inl e \<Rightarrow> Inl (ENew ''failed to unmarshal addons protobuf value'' (Some e))
           | Inr a \<Rightarrow> Inr a, append_to (Clear ?b1) bs, r2)) (Bytes (append_to (Clear ?b1) bs))"
      "rinv r2" "pending r2 = rest" "final r2 = final r1"
      by (rule with_full_ok [OF r1(2) c1(1) r1(3) c1(2) u])
    have "Bytes (append_to (Clear ?b1) bs) = Some bs" using c1 Bytes_content [of "append_to (Clear ?b1) bs"] by simp
    then show ?thesis using r1 r2 B u False c1 bs(3) by (intro that [of "append_to (Clear ?b1) bs" r2]) simp_all
  qed
qed

lemma read_request_target_ok:
  assumes "rinv r" "buf_inv b" "259 \<le> room b" "request_ok req" "pending r = target_wire req @ rest"
  obtains b' r' where "read_request_target rd (rh_Command req) b r = Some ((rh_Address (request_got u req), rh_Port (request_got u req)), b', r')"
    "buf_inv b'" "rinv r'" "pending r' = rest" "final r' = final r" "rh_Address (request_got u req) \<noteq> None"
proof (cases "is_stream_command (rh_Command req)")
  case True
  then show ?thesis using assms
    by (intro that [of b r]) (auto simp: read_request_target_def is_stream_command_def request_got_def target_wire_def zero_RequestHeader_def DomainAddress_def)
next
  case False
  then obtain a where a: "rh_Address req = Some a" "encodable a" using assms(4) by (auto simp: request_ok_def)
  have c: "rh_Command req = RequestCommandTCP \<or> rh_Command req = RequestCommandUDP"
    "rh_Command req \<noteq> RequestCommandMux" "rh_Command req \<noteq> RequestCommandRvs"
    using False assms(4) by (auto simp: request_ok_def is_stream_command_def)
  let ?d = "addr_port_bytes addrParser a (rh_Port req)"
  have p: "pending r = ?d @ rest" using assms(5) False a(1) by (simp add: target_wire_def)
  have l: "length ?d \<le> room b" using addr_bytes_length [OF a(2), of addrParser "rh_Port req"] assms(3) by simp
  obtain r' where "read_addr_port addrParser rd b r = Some ((Some a, rh_Port req, None), append_to b ?d, r')"
    "rinv r'" "pending r' = rest" "final r' = final r"
    by (rule read_addr_port_ok [OF assms(1,2) p addrParser_supports a(2) l])
  then show ?thesis using c a l assms(2)
    by (intro that [of "append_to b ?d" r']) (simp_all add: read_request_target_def request_got_def zero_RequestHeader_def)
qed

lemma decode_body_ok:
  assumes "rinv r" "buf_inv b" "b_len b = 8192" "request_ok req" "addons_fit marshal a" "proto_ok marshal unmarshal"
    "pending r = addons_wire marshal a @ rh_Command req # target_wire req @ rest"
  obtains b' r' where "decode_body unmarshal rd uid u b r = Some (Inr (uid, request_got u req, addons_got a), b', r')"
    "rinv r'" "pending r' = rest" "final r' = final r"
proof -
  have l: "255 \<le> b_len b" using assms(3) by simp
  obtain b1 r1 where 1: "DecodeHeaderAddons unmarshal rd b r = Some (Inr (addons_got a), b1, r1)" "buf_inv b1" "b_len b1 = b_len b"
    "rinv r1" "pending r1 = rh_Command req # target_wire req @ rest" "final r1 = final r"
    by (rule DecodeHeaderAddons_ok [OF assms(1,2) l assms(7,5,6)])
  let ?c = "rh_Command req" and ?b2 = "append_to (Clear b1) [rh_Command req]"
  have p: "pending r1 = [?c] @ target_wire req @ rest" using 1(5) by simp
  have c: "buf_inv (Clear b1)" "length [?c] \<le> room (Clear b1)" "1 = int (length [?c])" using 1(2,3) assms(3) by simp_all
  have b2: "buf_inv ?b2" "content ?b2 = [?c]" "259 \<le> room ?b2" using c(1) 1(3) assms(3) by simp_all
  have B: "Byte ?b2 0 = Some ?c" using Byte_content [OF b2(1), of 0] b2(2) by simp
  obtain r2 where 2: "with_full rd (Clear b1) r1 1 (\<lambda>e. Inl (ENew ''failed to read request command'' (Some e), False)) (\<lambda>b2 r2.
           Option.bind (Byte b2 0) (\<lambda>c.
           map_option (\<lambda>((x, port), b3, r3).
               (if x = None then Inl (ENew ''invalid request address'' None, False)
                else Inr (uid, zero_RequestHeader\<lparr>rh_Command := c, rh_Address := x, rh_Port := port, rh_User := Some u\<rparr>, addons_got a), b3, r3))
             (read_request_target rd c b2 r2))) =
        Option.bind (Byte ?b2 0) (\<lambda>c.
           map_option (\<lambda>((x, port), b3, r3).
               (if x = None then Inl (ENew ''invalid request address'' None, False)
                else Inr (uid, zero_RequestHeader\<lparr>rh_Command := c, rh_Address := x, rh_Port := port, rh_User := Some u\<rparr>, addons_got a), b3, r3))
             (read_request_target rd c ?b2 r2))"
    "rinv r2" "pending r2 = target_wire req @ rest" "final r2 = final r1"
    by (rule with_full_ok [OF 1(4) c(1) p c(2,3)])
  obtain b3 r3 where 3: "read_request_target rd ?c ?b2 r2 = Some ((rh_Address (request_got u req), rh_Port (request_got u req)), b3, r3)"
    "rinv r3" "pending r3 = rest" "final r3 = final r2" "rh_Address (request_got u req) \<noteq> None"
    by (rule read_request_target_ok [OF 2(2) b2(1,3) assms(4) 2(3)])
  have g: "zero_RequestHeader\<lparr>rh_Command := ?c, rh_Address := rh_Address (request_got u req), rh_Port := rh_Port (request_got u req),
      rh_User := Some u\<rparr> = request_got u req"
    by (simp add: request_got_def zero_RequestHeader_def)
  show ?thesis using 1 2 3 B g by (intro that [of b3 r3]) (simp_all add: decode_body_def)
qed

lemma decode_stream_ok:
  assumes "rinv r" "buf_inv b" "room b = 8192" "b_len b = 8192" "content b = []" "request_ok req" "addons_fit marshal a"
    "proto_ok marshal unmarshal" "length (user_id u) = 16" "get (user_id u) = Some su" "pending r = request_wire marshal u req a @ rest"
  obtains b' r' where "decode_request False get unmarshal rd fget fput b r = Some (Inr (user_id u, request_got su req, addons_got a), b', r')"
    "rinv r'" "pending r' = rest" "final r' = final r"
proof -
  have v: "rh_Version req = 0" using assms(6) by (simp add: request_ok_def)
  let ?t = "addons_wire marshal a @ rh_Command req # target_wire req @ rest"
  let ?b1 = "append_to b [0]"
  let ?b2 = "append_to (Clear ?b1) (user_id u)"
  have p: "pending r = [0] @ user_id u @ ?t" using assms(11) v by (simp add: request_wire_def)
  have b1: "buf_inv ?b1" "content ?b1 = [0]" "b_len ?b1 = 8192" using assms(2-5) by simp_all
  have c1: "buf_inv (Clear ?b1)" "length (user_id u) \<le> room (Clear ?b1)" "16 = int (length (user_id u))" using b1 assms(9) by simp_all
  have b2: "buf_inv ?b2" "b_len ?b2 = 8192" "Bytes ?b2 = Some (user_id u)"
    using c1 b1(3) Bytes_content [of ?b2] by simp_all
  have B: "Byte ?b1 0 = Some 0" using Byte_content [OF b1(1), of 0] b1(2) by simp
  have l: "length [0] \<le> room b" "1 = int (length [0])" using assms(3) by simp_all
  obtain r1 where 1: "decode_request False get unmarshal rd fget fput b r =
        Option.bind (Byte ?b1 0) (\<lambda>v.
          if v = 0 then
            with_full rd (Clear ?b1) r1 16 (\<lambda>e. Inl (ENew ''failed to read request user id'' (Some e), False)) (\<lambda>b2 r2.
            Option.bind (Bytes b2) (\<lambda>uid. decode_user False get unmarshal rd fget fput uid b2 r2))
          else Some (Inl (ENew ''invalid request version'' None, False), ?b1, r1))"
    "rinv r1" "pending r1 = user_id u @ ?t" "final r1 = final r"
    unfolding decode_request_def if_False by (rule with_full_ok [OF assms(1,2) p l])
  obtain r2 where 2: "with_full rd (Clear ?b1) r1 16 (\<lambda>e. Inl (ENew ''failed to read request user id'' (Some e), False)) (\<lambda>b2 r2.
            Option.bind (Bytes b2) (\<lambda>uid. decode_user False get unmarshal rd fget fput uid b2 r2)) =
          Option.bind (Bytes ?b2) (\<lambda>uid. decode_user False get unmarshal rd fget fput uid ?b2 r2)"
    "rinv r2" "pending r2 = ?t" "final r2 = final r1"
    by (rule with_full_ok [OF 1(2) c1(1) 1(3) c1(2,3)])
  obtain b3 r3 where 3: "decode_body unmarshal rd (user_id u) su ?b2 r2 = Some (Inr (user_id u, request_got su req, addons_got a), b3, r3)"
    "rinv r3" "pending r3 = rest" "final r3 = final r2"
    by (rule decode_body_ok [OF 2(2) b2(1,2) assms(6-8) 2(3)])
  show ?thesis using 1 2 3 B b2(3) assms(10) by (intro that [of b3 r3]) (simp_all add: decode_user_def)
qed

lemma DecodeResponseHeader_ok:
  assumes "rinv r" "pool_ok p" "addons_fit marshal a" "proto_ok marshal unmarshal" "pending r = rh_Version req # addons_wire marshal a @ rest"
  shows "\<exists>r' p'. DecodeResponseHeader unmarshal rd r req p = Some (Inr (addons_got a), r', p') \<and> rinv r' \<and> pending r' = rest"
proof -
  obtain b p1 where n: "New p = (b, p1)" "buf_inv b" "content b = []" "room b = 8192" "b_len b = 8192" using New_ok [OF assms(2)] by blast
  let ?v = "rh_Version req" and ?b1 = "append_to b [rh_Version req]"
  have p: "pending r = [?v] @ addons_wire marshal a @ rest" using assms(5) by simp
  have b1: "buf_inv ?b1" "content ?b1 = [?v]" "255 \<le> b_len ?b1" using n by simp_all
  have l: "length [?v] \<le> room b" "1 = int (length [?v])" using n(4) by simp_all
  have B: "Byte ?b1 0 = Some ?v" using Byte_content [OF b1(1), of 0] b1(2) by simp
  obtain r1 where 1: "with_full rd b r 1 (\<lambda>e. Inl (ENew ''failed to read response version'' (Some e))) (\<lambda>b1 r1.
           Option.bind (Byte b1 0) (\<lambda>v.
             if v \<noteq> ?v
             then Some (Inl (ENew ''unexpected response version. Expecting '' None), b1, r1)
             else map_option (\<lambda>(res, b2, r2). (case res of
                      Inl e \<Rightarrow> Inl (ENew ''failed to decode response header addons'' (Some e))
                    | Inr a \<Rightarrow> Inr a, b2, r2)) (DecodeHeaderAddons unmarshal rd b1 r1)))
      = Option.bind (Byte ?b1 0) (\<lambda>v.
             if v \<noteq> ?v
             then Some (Inl (ENew ''unexpected response version. Expecting '' None), ?b1, r1)
             else map_option (\<lambda>(res, b2, r2). (case res of
                      Inl e \<Rightarrow> Inl (ENew ''failed to decode response header addons'' (Some e))
                    | Inr a \<Rightarrow> Inr a, b2, r2)) (DecodeHeaderAddons unmarshal rd ?b1 r1))"
    "rinv r1" "pending r1 = addons_wire marshal a @ rest" "final r1 = final r"
    by (rule with_full_ok [OF assms(1) n(2) p l])
  obtain b2 r2 where "DecodeHeaderAddons unmarshal rd ?b1 r1 = Some (Inr (addons_got a), b2, r2)" "rinv r2" "pending r2 = rest"
    by (rule DecodeHeaderAddons_ok [OF 1(2) b1(1,3) 1(3) assms(3,4)])
  then show ?thesis using 1(1) B n(1) by (simp add: DecodeResponseHeader_def)
qed

end

text \<open>Whatever arrives, decoding ends with a value or an error.\<close>

context io_reader
begin

definition kept :: "Buffer \<Rightarrow> 'a \<times> Buffer \<times> 'r \<Rightarrow> bool" where
  "kept b y \<longleftrightarrow> (case y of (_, b', r') \<Rightarrow> buf_inv b' \<and> b_len b' = b_len b \<and> rinv r')"

lemma with_full_kept:
  assumes "rinv r" "buf_inv b" "int n \<le> b_len b" "m = int n"
    "\<And>d r'. length d = n \<Longrightarrow> rinv r' \<Longrightarrow> buf_inv (append_to (Clear b) d) \<Longrightarrow> content (append_to (Clear b) d) = d \<Longrightarrow>
      \<exists>y. k (append_to (Clear b) d) r' = Some y \<and> kept b y"
  shows "\<exists>y. with_full rd (Clear b) r m fl k = Some y \<and> kept b y"
  unfolding assms(4)
proof (rule with_full_total [OF assms(1)])
  show "buf_inv (Clear b)" "n \<le> room (Clear b)" using assms(2,3) by simp_all
  then show "kept b (fl e, append_to (Clear b) d, r')" if "length d \<le> n" "rinv r'" for e d r'
    using that by (simp add: kept_def)
  show "\<exists>y. k (append_to (Clear b) d) r' = Some y \<and> kept b y" if "length d = n" "rinv r'" for d r'
    using that assms(5) [OF that] \<open>buf_inv (Clear b)\<close> \<open>n \<le> room (Clear b)\<close> by simp
qed

lemma DecodeHeaderAddons_total:
  assumes "rinv r" "buf_inv b" "255 \<le> b_len b"
  shows "\<exists>y. DecodeHeaderAddons unmarshal rd b r = Some y \<and> kept b y"
  unfolding DecodeHeaderAddons_def
proof (rule with_full_kept [OF assms(1,2), where n = 1])
  fix d r1
  let ?b1 = "append_to (Clear b) d"
  assume d: "length d = 1" "rinv r1" "buf_inv ?b1" "content ?b1 = d"
  then have B: "Byte ?b1 0 = Some (hd d)" using Byte_content [OF d(3), of 0] by (cases d) simp_all
  let ?n = "nat (uint (hd d))"
  have n: "uint (hd d) = int ?n" "int ?n \<le> b_len ?b1" using uint_lt2p [of "hd d"] assms(3) by simp_all
  show "\<exists>y. Option.bind (Byte ?b1 0) (\<lambda>l.
       if uint l \<noteq> 0 then
         with_full rd (Clear ?b1) r1 (uint l) (\<lambda>e. Inl (ENew ''failed to read addons protobuf value'' (Some e))) (\<lambda>b2 r2.
         map_option (\<lambda>bs. (case unmarshal bs of
             Inl e \<Rightarrow> Inl (ENew ''failed to unmarshal addons protobuf value'' (Some e))
           | Inr a \<Rightarrow> Inr a, b2, r2)) (Bytes b2))
       else Some (Inr zero_Addons, ?b1, r1)) = Some y \<and> kept b y"
  proof (cases "uint (hd d) = 0")
    case True
    then show ?thesis using B d by (simp add: kept_def)
  next
    case False
    have "\<exists>y. with_full rd (Clear ?b1) r1 (uint (hd d)) (\<lambda>e. Inl (ENew ''failed to read addons protobuf value'' (Some e))) (\<lambda>b2 r2.
         map_option (\<lambda>bs. (case unmarshal bs of
             Inl e \<Rightarrow> Inl (ENew ''failed to unmarshal addons protobuf value'' (Some e))
           | Inr a \<Rightarrow> Inr a, b2, r2)) (Bytes b2)) = Some y \<and> kept ?b1 y"
      by (rule with_full_kept [OF d(2,3) n(2) n(1)]) (simp add: Bytes_content kept_def)
    then show ?thesis using B False by (auto simp: kept_def)
  qed
qed (use assms in simp_all)

lemma read_request_target_total:
  assumes "rinv r" "buf_inv b" "259 \<le> room b"
  shows "\<exists>res b' r'. read_request_target rd c b r = Some (res, b', r')"
  using read_addr_port_total [OF assms addrParser_ok] by (fastforce simp: read_request_target_def)

lemma decode_body_total:
  assumes "rinv r" "buf_inv b" "b_len b = 8192"
  shows "decode_body unmarshal rd uid u b r \<noteq> None"
proof -
  obtain res b1 r1 where 1: "DecodeHeaderAddons unmarshal rd b r = Some (res, b1, r1)" "buf_inv b1" "b_len b1 = 8192" "rinv r1"
    using DecodeHeaderAddons_total [OF assms(1,2), of unmarshal] assms(3) by (auto simp: kept_def)
  show ?thesis
  proof (cases res)
    case (Inr ad)
    have "\<exists>y. with_full rd (Clear b1) r1 (int 1) (\<lambda>e. Inl (ENew ''failed to read request command'' (Some e), False)) (\<lambda>b2 r2.
           Option.bind (Byte b2 0) (\<lambda>c.
           map_option (\<lambda>((a, port), b3, r3).
               (if a = None then Inl (ENew ''invalid request address'' None, False)
                else Inr (uid, zero_RequestHeader\<lparr>rh_Command := c, rh_Address := a, rh_Port := port, rh_User := Some u\<rparr>, ad), b3, r3))
             (read_request_target rd c b2 r2))) = Some y \<and> True"
    proof (rule with_full_total [OF 1(4)])
      show c: "buf_inv (Clear b1)" "1 \<le> room (Clear b1)" using 1(2,3) by simp_all
      fix d :: "byte list" and r'
      assume d: "length d = 1" "rinv r'"
      let ?b2 = "append_to (Clear b1) d"
      have b2: "buf_inv ?b2" "content ?b2 = d" "259 \<le> room ?b2" using c d 1(3) by simp_all
      then have "Byte ?b2 0 = Some (d ! 0)" using Byte_content [OF b2(1), of 0] d(1) by simp
      moreover obtain x b3 r3 where "read_request_target rd (d ! 0) ?b2 r' = Some (x, b3, r3)"
        using read_request_target_total [OF d(2) b2(1,3)] by blast
      ultimately show "\<exists>y. Option.bind (Byte ?b2 0) (\<lambda>c.
           map_option (\<lambda>((a, port), b3, r3).
               (if a = None then Inl (ENew ''invalid request address'' None, False)
                else Inr (uid, zero_RequestHeader\<lparr>rh_Command := c, rh_Address := a, rh_Port := port, rh_User := Some u\<rparr>, ad), b3, r3))
             (read_request_target rd c ?b2 r')) = Some y \<and> True" by (cases x) simp
    qed simp
    then show ?thesis using 1(1) Inr by (auto simp: decode_body_def)
  qed (use 1(1) in \<open>simp add: decode_body_def\<close>)
qed

lemma decode_stream_total:
  assumes "rinv r" "buf_inv b" "room b = 8192" "b_len b = 8192"
  shows "decode_request False get unmarshal rd fget fput b r \<noteq> None"
proof -
  have "\<exists>y. with_full rd b r (int 1) (\<lambda>e. Inl (ENew ''failed to read request version'' (Some e), False)) (\<lambda>b1 r1.
        Option.bind (Byte b1 0) (\<lambda>v.
          if v = 0 then
            with_full rd (Clear b1) r1 16 (\<lambda>e. Inl (ENew ''failed to read request user id'' (Some e), False)) (\<lambda>b2 r2.
            Option.bind (Bytes b2) (\<lambda>uid. decode_user False get unmarshal rd fget fput uid b2 r2))
          else Some (Inl (ENew ''invalid request version'' None, False), b1, r1))) = Some y \<and> True"
  proof (rule with_full_total [OF assms(1,2)])
    fix d :: "byte list" and r1
    assume d: "length d = 1" "rinv r1"
    let ?b1 = "append_to b d"
    have b1: "buf_inv ?b1" "b_len ?b1 = 8192" using assms(2-4) d(1) by simp_all
    have "0 < length (content ?b1)" using assms(2,3) d(1) by simp
    then have B: "Byte ?b1 0 = Some (content ?b1 ! 0)" using Byte_content [OF b1(1), of 0] by simp
    have "\<exists>y. with_full rd (Clear ?b1) r1 (int 16) (\<lambda>e. Inl (ENew ''failed to read request user id'' (Some e), False)) (\<lambda>b2 r2.
            Option.bind (Bytes b2) (\<lambda>uid. decode_user False get unmarshal rd fget fput uid b2 r2)) = Some y \<and> True"
    proof (rule with_full_total [OF d(2)])
      show c: "buf_inv (Clear ?b1)" "16 \<le> room (Clear ?b1)" using b1 by simp_all
      fix x :: "byte list" and r2
      assume x: "length x = 16" "rinv r2"
      let ?b2 = "append_to (Clear ?b1) x"
      have b2: "buf_inv ?b2" "b_len ?b2 = 8192" using c x(1) b1(2) by simp_all
      then show "\<exists>y. Option.bind (Bytes ?b2) (\<lambda>uid. decode_user False get unmarshal rd fget fput uid ?b2 r2) = Some y \<and> True"
        using decode_body_total [OF x(2) b2] by (simp add: Bytes_content decode_user_def split: option.split)
    qed simp
    then show "\<exists>y. Option.bind (Byte ?b1 0) (\<lambda>v.
          if v = 0 then
            with_full rd (Clear ?b1) r1 16 (\<lambda>e. Inl (ENew ''failed to read request user id'' (Some e), False)) (\<lambda>b2 r2.
            Option.bind (Bytes b2) (\<lambda>uid. decode_user False get unmarshal rd fget fput uid b2 r2))
          else Some (Inl (ENew ''invalid request version'' None, False), ?b1, r1)) = Some y \<and> True"
      using B by simp
  qed (use assms(3) in simp_all)
  then show ?thesis by (auto simp: decode_request_def)
qed

end

text \<open>
  The first buffer of a connection, read ahead and shared with the reader: it holds the next bytes of the stream, and
  advancing it takes them from the reader.
\<close>

locale first_buffer = io_reader rd rinv pending final weight
  for rd :: "'r io_read" and rinv :: "'r \<Rightarrow> bool" and pending :: "'r \<Rightarrow> byte list" and final :: "'r \<Rightarrow> goerr" and weight :: "'r \<Rightarrow> nat" +
  fixes fget :: "'r \<Rightarrow> Buffer"
    and fput :: "'r \<Rightarrow> Buffer \<Rightarrow> 'r"
  assumes first_ahead: "rinv r \<Longrightarrow> buf_inv (fget r) \<and> (\<exists>t. pending r = content (fget r) @ t)"
    and first_advance: "rinv r \<Longrightarrow> n < length (content (fget r)) \<Longrightarrow>
      rinv (fput r (Advance (fget r) (int n))) \<and> pending (fput r (Advance (fget r) (int n))) = drop n (pending r)
      \<and> final (fput r (Advance (fget r) (int n))) = final r"
begin

lemma first_fields:
  assumes "rinv r" "17 < length (content (fget r))"
  shows "Byte (fget r) 0 = Some (pending r ! 0)" "BytesRange (fget r) 1 17 = Some (take 16 (drop 1 (pending r)))"
proof -
  obtain t where f: "buf_inv (fget r)" "pending r = content (fget r) @ t" using first_ahead [OF assms(1)] by blast
  show "Byte (fget r) 0 = Some (pending r ! 0)"
    using Byte_content [OF f(1), of 0] assms(2) f(2) by (auto simp: nth_append)
  have "BytesRange (fget r) (int 1) (int 17) = Some (take 16 (drop 1 (content (fget r))))"
    using BytesRange_content [OF f(1), of 1 17] assms(2) by simp
  moreover have "take 16 (drop 1 (content (fget r))) = take 16 (drop 1 (pending r))" using assms(2) f(2) by simp
  ultimately show "BytesRange (fget r) 1 17 = Some (take 16 (drop 1 (pending r)))" by simp
qed

lemma decode_first_ok:
  assumes "rinv r" "17 < length (content (fget r))" "buf_inv b" "b_len b = 8192" "request_ok req" "addons_fit marshal a"
    "proto_ok marshal unmarshal" "length (user_id u) = 16" "get (user_id u) = Some su" "pending r = request_wire marshal u req a @ rest"
  obtains b' r' where "decode_request True get unmarshal rd fget fput b r = Some (Inr (user_id u, request_got su req, addons_got a), b', r')"
    "rinv r'" "pending r' = rest" "final r' = final r"
proof -
  have v: "rh_Version req = 0" using assms(5) by (simp add: request_ok_def)
  let ?r = "fput r (Advance (fget r) 17)"
  have p: "pending r = 0 # user_id u @ addons_wire marshal a @ rh_Command req # target_wire req @ rest"
    using assms(10) v by (simp add: request_wire_def)
  have f: "Byte (fget r) 0 = Some 0" "BytesRange (fget r) 1 17 = Some (user_id u)"
    using first_fields [OF assms(1,2)] p assms(8) by simp_all
  have a: "rinv ?r" "pending ?r = drop 17 (pending r)" "final ?r = final r" using first_advance [OF assms(1,2)] by simp_all
  have "pending ?r = addons_wire marshal a @ rh_Command req # target_wire req @ rest" using a(2) p assms(8) by simp
  then obtain b3 r3 where "decode_body unmarshal rd (user_id u) su b ?r = Some (Inr (user_id u, request_got su req, addons_got a), b3, r3)"
    "rinv r3" "pending r3 = rest" "final r3 = final ?r"
    by (rule decode_body_ok [OF a(1) assms(3-7)])
  then show ?thesis using f assms(9) a(3) by (intro that [of b3 r3]) (simp_all add: decode_request_def decode_user_def)
qed

lemma decode_first_total:
  assumes "rinv r" "17 < length (content (fget r))" "buf_inv b" "b_len b = 8192"
  shows "decode_request True get unmarshal rd fget fput b r \<noteq> None"
proof -
  have "rinv (fput r (Advance (fget r) 17))" using first_advance [OF assms(1,2)] by simp
  then have "decode_body unmarshal rd uid u b (fput r (Advance (fget r) 17)) \<noteq> None" for uid u
    using decode_body_total assms(3,4) by blast
  then show ?thesis using first_fields [OF assms(1,2)] by (simp add: decode_request_def decode_user_def split: option.split)
qed

end

text \<open>A \<open>BufferedReader\<close> whose first buffer is the one that was read ahead.\<close>

definition br_first :: "'r bufreader \<Rightarrow> Buffer" where
  "br_first r = (case br_Buffer r of Some b # _ \<Rightarrow> b | _ \<Rightarrow> Buffer_of [])"

definition br_put_first :: "'r bufreader \<Rightarrow> Buffer \<Rightarrow> 'r bufreader" where
  "br_put_first r b = r\<lparr>br_Buffer := Some b # tl (br_Buffer r)\<rparr>"

lemma br_first_cases:
  assumes "br_ok ri r"
  obtains (empty) "br_Buffer r = []" "br_first r = Buffer_of []" "content (br_first r) = []" "buf_inv (br_first r)"
    | (ahead) b mb where "br_Buffer r = Some b # mb" "br_first r = b" "buf_inv b" "packed mb"
proof (cases "br_Buffer r")
  case Nil
  then show ?thesis by (intro empty) (simp_all add: br_first_def Buffer_of_def content_def b_arr_def buf_inv_def)
next
  case (Cons x mb)
  have p: "packed (x # mb)" using assms Cons by (simp add: br_ok_def)
  then obtain b where "x = Some b" by (auto simp: packed_def)
  then show ?thesis using p Cons packedD(1) [OF p] by (intro ahead [of b mb]) (auto simp: br_first_def packed_def)
qed

context clean_mb_reader
begin

lemma br_first_ahead:
  assumes "br_ok rinv r"
  shows "buf_inv (br_first r) \<and> (\<exists>t. mcontent (br_Buffer r) @ pending (br_Reader r) = content (br_first r) @ t)"
  using assms by (cases rule: br_first_cases) simp_all

lemma br_first_advance:
  assumes "br_ok rinv r" "n < length (content (br_first r))"
  shows "br_ok rinv (br_put_first r (Advance (br_first r) (int n)))"
    "mcontent (br_Buffer (br_put_first r (Advance (br_first r) (int n)))) = drop n (mcontent (br_Buffer r))"
    "br_Reader (br_put_first r (Advance (br_first r) (int n))) = br_Reader r"
proof -
  obtain b mb where b: "br_Buffer r = Some b # mb" "br_first r = b" "buf_inv b" "packed mb"
    using assms by (cases rule: br_first_cases [OF assms(1)]) auto
  have a: "Advance b (int n) = consume b n" using Advance_content [OF b(3)] assms(2) b(2) by simp
  have c: "buf_inv (consume b n)" "content (consume b n) = drop n (content b)" using b(2,3) assms(2) by simp_all
  show "br_ok rinv (br_put_first r (Advance (br_first r) (int n)))"
    using assms b a c by (auto simp: br_ok_def br_put_first_def packed_def)
  show "mcontent (br_Buffer (br_put_first r (Advance (br_first r) (int n)))) = drop n (mcontent (br_Buffer r))"
    "br_Reader (br_put_first r (Advance (br_first r) (int n))) = br_Reader r"
    using b a c assms(2) by (simp_all add: br_put_first_def)
qed

end

interpretation conn_first: first_buffer "BR_Read (SingleReader_ReadMultiBuffer conn_read)" "br_ok (\<lambda>_. True)"
  "\<lambda>r. mcontent (br_Buffer r) @ concat (chunks (br_Reader r))" "\<lambda>r. closing (br_Reader r)" "\<lambda>r. length (chunks (br_Reader r))"
  br_first br_put_first
proof unfold_locales
  fix r :: "conn bufreader" and n
  assume r: "br_ok (\<lambda>_. True) r"
  show "buf_inv (br_first r) \<and> (\<exists>t. mcontent (br_Buffer r) @ concat (chunks (br_Reader r)) = content (br_first r) @ t)"
    using conn_single.br_first_ahead [OF r] .
  assume n: "n < length (content (br_first r))"
  then have "n \<le> length (mcontent (br_Buffer r))" by (cases rule: br_first_cases [OF r]) simp_all
  then show "br_ok (\<lambda>_. True) (br_put_first r (Advance (br_first r) (int n))) \<and>
    mcontent (br_Buffer (br_put_first r (Advance (br_first r) (int n)))) @ concat (chunks (br_Reader (br_put_first r (Advance (br_first r) (int n)))))
      = drop n (mcontent (br_Buffer r) @ concat (chunks (br_Reader r)))
    \<and> closing (br_Reader (br_put_first r (Advance (br_first r) (int n)))) = closing (br_Reader r)"
    using conn_single.br_first_advance [OF r n] by simp
qed

section \<open>Packets on the wire\<close>

definition packet_ok :: "byte list \<Rightarrow> bool" where
  "packet_ok d \<longleftrightarrow> d \<noteq> [] \<and> length d \<le> 8190"

definition packet_frame :: "byte list \<Rightarrow> byte list" where
  "packet_frame d = hi_byte (int (length d)) # byte_of (int (length d)) # d"

lemma mlp_fill_ok:
  assumes "buf_inv b" "packet_ok (content b)" "buf_inv eb" "room eb = 8192"
  shows "mlp_fill b eb = Some (None, append_to eb (packet_frame (content b)))"
  using assms by (simp add: mlp_fill_def packet_ok_def packet_frame_def Write_err_def buf_simps)

lemma mlp_fill_full:
  assumes "buf_inv b" "8190 < length (content b)" "buf_inv eb" "room eb = 8192"
  shows "\<exists>eb'. mlp_fill b eb = Some (Some ErrBufferFull, eb')"
  using assms by (simp add: mlp_fill_def Write_err_def buf_simps)

lemma framed_packet: "buf_inv b \<Longrightarrow> packet_ok (content b) \<Longrightarrow> \<not> (buf_Len b = 0 \<or> i32 (buf_Len b + 2) > Size)"
  by (simp add: buf_Len_content packet_ok_def Size_def)

text \<open>A packet that is empty or does not fit into one frame is skipped, also one whose length plus two overflows.\<close>

lemma mlp_frames_skip:
  assumes "buf_inv b" "\<not> packet_ok (content b)" "pool_ok p"
  shows "\<exists>p'. pool_ok p' \<and> mlp_frames (Some b # mb) p = mlp_frames mb p'"
proof (cases "buf_Len b = 0 \<or> i32 (buf_Len b + 2) > Size")
  case True
  then show ?thesis using assms(3) by auto
next
  case False
  then have l: "8190 < length (content b)" using assms(1,2) by (auto simp: packet_ok_def buf_Len_content)
  obtain eb p1 where n: "New p = (eb, p1)" "buf_inv eb" "room eb = 8192" "pool_ok p1" using New_ok [OF assms(3)] by blast
  obtain eb' where "mlp_fill b eb = Some (Some ErrBufferFull, eb')" using mlp_fill_full [OF assms(1) l n(2,3)] by blast
  then show ?thesis using False n Release_pool_ok [OF n(4)] by auto
qed

lemma mlp_frames_ok:
  "mb_inv mb \<Longrightarrow> pool_ok p \<Longrightarrow> \<exists>fs p'. mlp_frames mb p = Some (fs, p') \<and> mb_inv fs \<and> None \<notin> set fs \<and> pool_ok p'
    \<and> mcontent fs = concat (map packet_frame (filter packet_ok (map pcontent mb)))"
proof (induction mb arbitrary: p)
  case (Cons bo mb)
  show ?case
  proof (cases bo)
    case None
    then show ?thesis using Cons by (simp add: packet_ok_def)
  next
    case (Some b)
    have b: "buf_inv b" "mb_inv mb" using Cons.prems(1) Some by simp_all
    show ?thesis
    proof (cases "packet_ok (content b)")
      case False
      then obtain p1 where "pool_ok p1" "mlp_frames (bo # mb) p = mlp_frames mb p1"
        using mlp_frames_skip [OF b(1) _ Cons.prems(2)] Some by blast
      then show ?thesis using Cons.IH [OF b(2), of p1] False Some by simp
    next
      case True
      obtain eb p1 where n: "New p = (eb, p1)" "buf_inv eb" "content eb = []" "room eb = 8192" "pool_ok p1"
        using New_ok [OF Cons.prems(2)] by blast
      let ?eb = "append_to eb (packet_frame (content b))"
      have f: "mlp_fill b eb = Some (None, ?eb)" using mlp_fill_ok [OF b(1) True n(2,4)] .
      have l: "length (packet_frame (content b)) \<le> room eb" using True n(4) by (simp add: packet_frame_def packet_ok_def)
      obtain fs p' where r: "mlp_frames mb p1 = Some (fs, p')" "mb_inv fs" "None \<notin> set fs" "pool_ok p'"
        "mcontent fs = concat (map packet_frame (filter packet_ok (map pcontent mb)))"
        using Cons.IH [OF b(2) n(5)] by blast
      have "mlp_frames (bo # mb) p = Some (Some ?eb # fs, p')" using framed_packet [OF b(1) True] n(1) f r(1) Some by simp
      then show ?thesis using r True n l Some by simp
    qed
  qed
qed simp

context io_reader
begin

lemma LPR_loop_ok:
  assumes "rinv r" "pool_ok p" "pending r = d @ rest" "int (length d) = l"
  shows "\<exists>mb' r' p'. LPR_loop rd r l mb p = Some (mb @ mb', None, r', p') \<and> mb_inv mb' \<and> mcontent mb' = d
    \<and> rinv r' \<and> pending r' = rest \<and> pool_ok p'"
  using assms
proof (induction "length d" arbitrary: r l mb p d rule: less_induct)
  case less
  show ?case
  proof (cases "d = []")
    case True
    then show ?thesis using less.prems by (simp add: LPR_loop.simps)
  next
    case False
    let ?d = "take 8192 d"
    have sz: "(if l > Size then Size else l) = int (length ?d)" "0 < l" using False less.prems(4) by (auto simp: Size_def)
    obtain b p1 where n: "New p = (b, p1)" "buf_inv b" "content b = []" "room b = 8192" "pool_ok p1"
      using New_ok [OF less.prems(2)] by blast
    have pd: "pending r = ?d @ drop 8192 d @ rest" using less.prems(3) by (simp flip: append_assoc)
    have "length ?d \<le> room b" using n(4) by simp
    then obtain r' where r: "ReadFullFrom rd b r (int (length ?d)) = Some ((int (length ?d), None), append_to b ?d, r')"
      "rinv r'" "pending r' = drop 8192 d @ rest"
      using ReadFullFrom_ok [OF less.prems(1) n(2) _ pd refl] by blast
    have s: "LPR_loop rd r l mb p = LPR_loop rd r' (l - int (length ?d)) (mb @ [Some (append_to b ?d)]) p1"
      using LPR_loop.simps [of rd r l mb p] sz n(1) r(1) by simp
    have "length (drop 8192 d) < length d" "int (length (drop 8192 d)) = l - int (length ?d)" using False less.prems(4) by auto
    from less.hyps [OF this(1) r(2) n(5) r(3) this(2), of "mb @ [Some (append_to b ?d)]"]
    obtain mb' r'' p' where m: "LPR_loop rd r' (l - int (length ?d)) (mb @ [Some (append_to b ?d)]) p1
        = Some ((mb @ [Some (append_to b ?d)]) @ mb', None, r'', p')" "mb_inv mb'" "mcontent mb' = drop 8192 d"
      "rinv r''" "pending r'' = rest" "pool_ok p'" by blast
    then show ?thesis using s n \<open>length ?d \<le> room b\<close>
      by (intro exI [of _ "Some (append_to b ?d) # mb'"] exI [of _ r''] exI [of _ p']) simp
  qed
qed

lemma LPR_packet:
  assumes "rinv r" "pool_ok p" "pending r = packet_frame d @ rest" "length d < 65536"
  shows "\<exists>mb r' p'. LPR_ReadMultiBuffer rd r p = Some (mb, None, r', p') \<and> mb_inv mb \<and> mcontent mb = d
    \<and> rinv r' \<and> pending r' = rest \<and> pool_ok p'"
proof -
  let ?h = "[hi_byte (int (length d)), byte_of (int (length d))]"
  have "pending r = ?h @ d @ rest" using assms(3) by (simp add: packet_frame_def)
  then obtain r1 where r1: "ReadFull rd r 2 = Some (?h, None, r1)" "rinv r1" "pending r1 = d @ rest"
    using ReadFull_enough [OF assms(1), of ?h "d @ rest" 2] by auto
  then show ?thesis using LPR_loop_ok [OF r1(2) assms(2) r1(3) refl, of "[]"] assms(4) by (simp add: LPR_ReadMultiBuffer_def)
qed

end

text \<open>Reading a number of packets, and the contents they had.\<close>

fun read_packets :: "'r io_read \<Rightarrow> nat \<Rightarrow> 'r \<Rightarrow> pool \<Rightarrow> (byte list list \<times> 'r \<times> pool) option" where
  "read_packets rd 0 r p = Some ([], r, p)"
| "read_packets rd (Suc n) r p =
     Option.bind (LPR_ReadMultiBuffer rd r p) (\<lambda>(mb, e, r', p').
       if e \<noteq> None then None else map_option (\<lambda>(ds, x). (mcontent mb # ds, x)) (read_packets rd n r' p'))"

context io_reader
begin

lemma read_packets_ok:
  "rinv r \<Longrightarrow> pool_ok p \<Longrightarrow> pending r = concat (map packet_frame ds) @ rest \<Longrightarrow> \<forall>d \<in> set ds. length d < 65536 \<Longrightarrow>
    \<exists>r' p'. read_packets rd (length ds) r p = Some (ds, r', p') \<and> rinv r' \<and> pending r' = rest \<and> pool_ok p'"
proof (induction ds arbitrary: r p)
  case (Cons d ds)
  have "pending r = packet_frame d @ concat (map packet_frame ds) @ rest" "length d < 65536" using Cons.prems(3,4) by simp_all
  from LPR_packet [OF Cons.prems(1,2) this] obtain mb r1 p1
    where "LPR_ReadMultiBuffer rd r p = Some (mb, None, r1, p1)" "mcontent mb = d" "rinv r1" "pool_ok p1"
      "pending r1 = concat (map packet_frame ds) @ rest" by blast
  moreover obtain r' p' where "read_packets rd (length ds) r1 p1 = Some (ds, r', p')" "rinv r'" "pending r' = rest" "pool_ok p'"
    using Cons.IH [OF calculation(3-5)] Cons.prems(4) by auto
  ultimately show ?case by simp
qed simp

end

section \<open>Properties\<close>

lemma send_sink:
  assumes "buf_inv b" "length (content b) \<le> sk_quota w"
  shows "send_buffer sink_Write msg w p (None, b) =
    Some (None, w\<lparr>sk_out := sk_out w @ content b, sk_quota := sk_quota w - length (content b)\<rparr>, snd (Release (Some b) p))"
  using assms by (simp add: send_buffer_def Bytes_content sink_Write_def)

lemma decode_body_no_fallback:
  assumes "decode_body unmarshal rd uid u b r = Some (Inl (e, fb), b', r')"
  shows "\<not> fb"
proof -
  obtain res b1 r1 where "DecodeHeaderAddons unmarshal rd b r = Some (res, b1, r1)" using assms by (auto simp: decode_body_def bind_Some_iff)
  then show ?thesis using assms
    by (cases res) (auto simp: decode_body_def with_full_def bind_Some_iff split: option.splits if_splits)
qed

text \<open>
  C4. The request header survives the network: what \<open>EncodeRequestHeader\<close> sends for a version 0 request, \<open>DecodeRequestHeader\<close>
  reads back on the server, from a plain connection and from one whose first buffer was read ahead for a fallback, however the bytes
  are cut into reads. It returns the id that was sent, the command, the target (a fixed domain for mux and reverse connections), the
  user the validator finds under the id, and the addons of a Vision flow; the next byte of the reader is the first byte of the body.
\<close>

theorem request_header_roundtrip:
  assumes "request_ok req" "rh_User req = Some u" "length (user_id u) = 16" "addons_fit marshal a" "proto_ok marshal unmarshal"
    and "get (user_id u) = Some su" "pool_ok p" "pool_ok q" "1024 \<le> sk_quota w"
  shows "\<exists>d w' p'. EncodeRequestHeader marshal sink_Write w req (Some a) p = Some (None, w', p') \<and> sk_out w' = sk_out w @ d
    \<and> (\<forall>c rest. concat (chunks c) = d @ rest \<longrightarrow>
         (\<exists>c' q'. DecodeRequestHeader False get unmarshal conn_read fget fput c q
              = Some (Inr (user_id u, request_got su req, addons_got a), c', q') \<and> concat (chunks c') = rest))
    \<and> (\<forall>r rest. br_ok (\<lambda>_. True) r \<longrightarrow> 17 < length (content (br_first r)) \<longrightarrow>
         mcontent (br_Buffer r) @ concat (chunks (br_Reader r)) = d @ rest \<longrightarrow>
         (\<exists>r' q'. DecodeRequestHeader True get unmarshal (BR_Read (SingleReader_ReadMultiBuffer conn_read)) br_first br_put_first r q
              = Some (Inr (user_id u, request_got su req, addons_got a), r', q')
            \<and> mcontent (br_Buffer r') @ concat (chunks (br_Reader r')) = rest))"
proof -
  obtain b p1 where b: "New p = (b, p1)" "buf_inv b" "content b = []" "room b = 8192" using New_ok [OF assms(7)] by blast
  let ?d = "request_wire marshal u req a" and ?b = "append_to b (request_wire marshal u req a)"
  have "length (target_wire req) \<le> 259"
    using assms(1) addr_bytes_length by (auto simp: target_wire_def request_ok_def)
  then have l: "length ?d \<le> 1024" using addons_wire_length [OF assms(4)] assms(3) by (simp add: request_wire_def)
  have c: "buf_inv ?b" "content ?b = ?d" using b l by simp_all
  have "EncodeRequestHeader marshal sink_Write w req (Some a) p
      = Some (None, w\<lparr>sk_out := sk_out w @ ?d, sk_quota := sk_quota w - length ?d\<rparr>, snd (Release (Some ?b) p1))"
    using fill_request_ok [OF b(2,3,4) assms(2,3,1,4)] send_sink [OF c(1)] c(2) l assms(9) b(1) by (simp add: EncodeRequestHeader_def)
  moreover obtain b2 q1 where q: "New q = (b2, q1)" "buf_inv b2" "content b2 = []" "room b2 = 8192" "b_len b2 = 8192"
    using New_ok [OF assms(8)] by blast
  have "\<exists>c' q'. DecodeRequestHeader False get unmarshal conn_read fget fput c q
      = Some (Inr (user_id u, request_got su req, addons_got a), c', q') \<and> concat (chunks c') = rest"
    if "concat (chunks c) = ?d @ rest" for c rest
    by (rule conn_rd.decode_stream_ok [where get = get and u = u and su = su and rest = rest and fget = fget and fput = fput, OF TrueI q(2,4,5,3) assms(1,4,5,3,6) that]) (simp add: DecodeRequestHeader_def q(1))
  moreover have "\<exists>r' q'. DecodeRequestHeader True get unmarshal (BR_Read (SingleReader_ReadMultiBuffer conn_read)) br_first br_put_first r q
      = Some (Inr (user_id u, request_got su req, addons_got a), r', q') \<and> mcontent (br_Buffer r') @ concat (chunks (br_Reader r')) = rest"
    if "br_ok (\<lambda>_. True) r" "17 < length (content (br_first r))" "mcontent (br_Buffer r) @ concat (chunks (br_Reader r)) = ?d @ rest" for r rest
    by (rule conn_first.decode_first_ok [where get = get and u = u and su = su and rest = rest, OF that(1,2) q(2,5) assms(1,4,5,3,6) that(3)]) (simp add: DecodeRequestHeader_def q(1))
  ultimately show ?thesis by (intro exI [of _ ?d]) auto
qed

definition demo_marshal :: marshaller where
  "demo_marshal a =
     (if a = zero_Addons then Inr []
      else if length (ad_Flow a) \<le> 255 then Inr (word_of_nat (length (ad_Flow a)) # ad_Flow a @ ad_Seed a) else Inl EOF)"

definition demo_unmarshal :: unmarshaller where
  "demo_unmarshal bs = (case bs of [] \<Rightarrow> Inr zero_Addons | l # t \<Rightarrow> Inr \<lparr>ad_Flow = take (unat l) t, ad_Seed = drop (unat l) t\<rparr>)"

lemma demo_proto_ok: "proto_ok demo_marshal demo_unmarshal"
proof -
  have u: "unat (word_of_nat n :: byte) = n" if "n \<le> 255" for n
    using that by (simp add: unsigned_of_nat take_bit_nat_eq_self)
  have "demo_unmarshal bs = Inr a" if "demo_marshal a = Inr bs" for a bs
    using that u [of "length (ad_Flow a)"]
    by (cases a) (auto simp: demo_marshal_def demo_unmarshal_def zero_Addons_def split: if_splits)
  then show ?thesis by (simp add: proto_ok_def demo_unmarshal_def)
qed

definition demo_request :: RequestHeader where
  "demo_request = zero_RequestHeader\<lparr>rh_Command := RequestCommandTCP, rh_Address := Some (ipv4Address [10, 0, 0, 1]), rh_Port := 443,
     rh_User := Some (demo_user (replicate 16 7) ''alice'')\<rparr>"

lemma demo_request_ok:
  "request_ok demo_request" "rh_User demo_request = Some (demo_user (replicate 16 7) ''alice'')"
  "length (user_id (demo_user (replicate 16 7) ''alice'')) = 16" "addons_fit demo_marshal \<lparr>ad_Flow = XRV, ad_Seed = [1, 2]\<rparr>"
  by (auto simp: demo_request_def request_ok_def zero_RequestHeader_def encodable_def demo_user_def NewID_def addons_fit_def
      demo_marshal_def zero_Addons_def XRV_def str_def is_stream_command_def)

theorem request_header_roundtrip_witness:
  "\<exists>d w' p'. EncodeRequestHeader demo_marshal sink_Write \<lparr>sk_out = [], sk_quota = 2000\<rparr> demo_request (Some \<lparr>ad_Flow = XRV, ad_Seed = [1, 2]\<rparr>) []
      = Some (None, w', p') \<and> sk_out w' = d
    \<and> (\<exists>c' q'. DecodeRequestHeader False (\<lambda>_. Some (demo_user (replicate 16 7) ''alice'')) demo_unmarshal conn_read (\<lambda>_. Buffer_of []) (\<lambda>c _. c)
          \<lparr>chunks = [take 5 d, drop 5 d, [42]], closing = EOF\<rparr> []
        = Some (Inr (replicate 16 7, demo_request, \<lparr>ad_Flow = XRV, ad_Seed = [1, 2]\<rparr>), c', q') \<and> concat (chunks c') = [42])"
proof -
  let ?u = "demo_user (replicate 16 7) ''alice''" and ?a = "\<lparr>ad_Flow = XRV, ad_Seed = [1, 2]\<rparr>"
  have g: "user_id ?u = replicate 16 7" "request_got ?u demo_request = demo_request" "addons_got ?a = ?a"
    by (simp_all add: demo_user_def NewID_def request_got_def demo_request_def zero_RequestHeader_def addons_got_def)
  let ?w = "\<lparr>sk_out = [], sk_quota = 2000\<rparr>"
  have h: "pool_ok []" "1024 \<le> sk_quota ?w" by (simp_all add: pool_ok_def)
  obtain d w' p' where w: "EncodeRequestHeader demo_marshal sink_Write ?w demo_request (Some ?a) [] = Some (None, w', p')" "sk_out w' = sk_out ?w @ d"
    and "\<forall>c rest. concat (chunks c) = d @ rest \<longrightarrow>
         (\<exists>c' q'. DecodeRequestHeader False (\<lambda>_. Some ?u) demo_unmarshal conn_read (\<lambda>_. Buffer_of []) (\<lambda>c _. c) c []
              = Some (Inr (user_id ?u, request_got ?u demo_request, addons_got ?a), c', q') \<and> concat (chunks c') = rest)"
    using request_header_roundtrip [where get = "\<lambda>_. Some ?u" and fget = "\<lambda>_. Buffer_of []" and fput = "\<lambda>c _. c",
        OF demo_request_ok demo_proto_ok refl h(1,1,2)] by blast
  then have "\<exists>c' q'. DecodeRequestHeader False (\<lambda>_. Some ?u) demo_unmarshal conn_read (\<lambda>_. Buffer_of []) (\<lambda>c _. c)
          \<lparr>chunks = [take 5 d, drop 5 d, [42]], closing = EOF\<rparr> []
        = Some (Inr (replicate 16 7, demo_request, ?a), c', q') \<and> concat (chunks c') = [42]"
    unfolding g by simp
  then show ?thesis using w by (intro exI [of _ d] exI [of _ w'] exI [of _ p'] conjI) simp_all
qed

text \<open>
  C10. A fallback is offered exactly to those who did not authenticate, and it loses nothing: with a read-ahead first buffer of at least
  18 bytes \<open>DecodeRequestHeader\<close> never panics; it allows the fallback if and only if the version is not 0 or the validator does not
  know the id, and then the reader is untouched, so the fallback server sees the connection from its first byte. Without a fallback it
  never panics either and never asks for one.
\<close>

theorem fallback_iff_not_authenticated:
  fixes r :: "conn bufreader" and c :: conn
  assumes "br_ok (\<lambda>_. True) r" "17 < length (content (br_first r))" "pool_ok p"
  shows "(\<exists>res r' p'. DecodeRequestHeader True get unmarshal (BR_Read (SingleReader_ReadMultiBuffer conn_read)) br_first br_put_first r p
        = Some (res, r', p')
      \<and> ((\<exists>e. res = Inl (e, True)) \<longleftrightarrow>
           content (br_first r) ! 0 \<noteq> 0 \<or> get (take 16 (drop 1 (content (br_first r)))) = None)
      \<and> ((\<exists>e. res = Inl (e, True)) \<longrightarrow> r' = r))
    \<and> (\<exists>res c' p'. DecodeRequestHeader False get unmarshal conn_read fget fput c p = Some (res, c', p') \<and> (\<nexists>e. res = Inl (e, True)))"
proof (rule conjI)
  obtain b p1 where b: "New p = (b, p1)" "buf_inv b" "content b = []" "room b = 8192" "b_len b = 8192" using New_ok [OF assms(3)] by blast
  let ?rd = "BR_Read (SingleReader_ReadMultiBuffer conn_read)"
  let ?uid = "take 16 (drop 1 (content (br_first r)))"
  obtain t where "mcontent (br_Buffer r) @ concat (chunks (br_Reader r)) = content (br_first r) @ t"
    using conn_first.first_ahead [OF assms(1)] by blast
  then have f: "Byte (br_first r) 0 = Some (content (br_first r) ! 0)" "BytesRange (br_first r) 1 17 = Some ?uid"
    using conn_first.first_fields [OF assms(1,2)] assms(2) by (auto simp: nth_append)
  obtain res b' r' where d: "decode_request True get unmarshal ?rd br_first br_put_first b r = Some (res, b', r')"
    using conn_first.decode_first_total [OF assms(1,2) b(2,5), of get unmarshal] by auto
  have "((\<exists>e. res = Inl (e, True)) \<longleftrightarrow> content (br_first r) ! 0 \<noteq> 0 \<or> get ?uid = None) \<and> ((\<exists>e. res = Inl (e, True)) \<longrightarrow> r' = r)"
  proof (cases "content (br_first r) ! 0 = 0 \<and> get ?uid \<noteq> None")
    case True
    then obtain u where "get ?uid = Some u" by blast
    then have "decode_body unmarshal ?rd ?uid u b (br_put_first r (Advance (br_first r) 17)) = Some (res, b', r')"
      using d f True by (simp add: decode_request_def decode_user_def)
    then have "\<nexists>e. res = Inl (e, True)" by (metis decode_body_no_fallback)
    then show ?thesis using True by simp
  next
    case False
    then have "(\<exists>e. res = Inl (e, True)) \<and> r' = r"
      using d f by (cases "content (br_first r) ! 0 = 0") (auto simp: decode_request_def decode_user_def)
    then show ?thesis using False by simp
  qed
  then show "\<exists>res r' p'. DecodeRequestHeader True get unmarshal ?rd br_first br_put_first r p = Some (res, r', p')
      \<and> ((\<exists>e. res = Inl (e, True)) \<longleftrightarrow> content (br_first r) ! 0 \<noteq> 0 \<or> get ?uid = None)
      \<and> ((\<exists>e. res = Inl (e, True)) \<longrightarrow> r' = r)"
    using d b(1) by (simp add: DecodeRequestHeader_def)
  obtain res b' c' where d: "decode_request False get unmarshal conn_read fget fput b c = Some (res, b', c')"
    using conn_rd.decode_stream_total [OF TrueI b(2,4,5), of get unmarshal fget fput c] by auto
  then have "\<nexists>e. res = Inl (e, True)"
    using decode_body_no_fallback
    by (fastforce simp: decode_request_def decode_user_def with_full_def bind_Some_iff split: if_splits option.splits)
  then show "\<exists>res c' p'. DecodeRequestHeader False get unmarshal conn_read fget fput c p = Some (res, c', p') \<and> (\<nexists>e. res = Inl (e, True))"
    using d b(1) by (simp add: DecodeRequestHeader_def)
qed

definition demo_first :: "byte list \<Rightarrow> conn bufreader" where
  "demo_first bs = \<lparr>br_Reader = \<lparr>chunks = [], closing = EOF\<rparr>,
     br_Buffer = [Some (append_to (Buffer_of (replicate 8192 0)) bs)], br_Splitter = None, br_pool = []\<rparr>"

lemma demo_first_ok:
  assumes "bs \<noteq> []" "length bs \<le> 8192"
  shows "br_ok (\<lambda>_. True) (demo_first bs)" "content (br_first (demo_first bs)) = bs"
  using assms by (simp_all add: demo_first_def br_ok_def br_first_def packed_def pool_ok_def)

theorem fallback_iff_not_authenticated_witness:
  "\<exists>e p'. DecodeRequestHeader True (\<lambda>_. None) demo_unmarshal (BR_Read (SingleReader_ReadMultiBuffer conn_read)) br_first br_put_first
      (demo_first (replicate 20 0)) [] = Some (Inl (e, True), demo_first (replicate 20 0), p')"
proof -
  have "17 < length (content (br_first (demo_first (replicate 20 0))))" using demo_first_ok [of "replicate 20 0"] by simp
  from fallback_iff_not_authenticated [OF demo_first_ok(1) this, where p = "[]" and get = "\<lambda>_. None" and unmarshal = demo_unmarshal, THEN conjunct1]
  obtain res r' p' where "DecodeRequestHeader True (\<lambda>_. None) demo_unmarshal (BR_Read (SingleReader_ReadMultiBuffer conn_read)) br_first br_put_first
      (demo_first (replicate 20 0)) [] = Some (res, r', p')" "\<exists>e. res = Inl (e, True)" "(\<exists>e. res = Inl (e, True)) \<longrightarrow> r' = demo_first (replicate 20 0)"
    by (auto simp: pool_ok_def)
  then show ?thesis by auto
qed

text \<open>
  The shortcut of \<open>EncodeResponseHeader\<close> changes nothing but the use of the pool: for every request, addons and writer, the shared two
  bytes it sends are what the general path would have sent, with the same result of the write and the same error; a nil addons pointer still
  panics.
\<close>

theorem response_fast_path:
  assumes "pool_ok p"
  shows "map_option (\<lambda>(e, w', _). (e, w')) (EncodeResponseHeader marshal wr w req addons p)
       = map_option (\<lambda>(e, w', _). (e, w')) (encode_response marshal wr w req addons p)"
proof (cases "rh_Version req = Version \<and> addons \<noteq> None \<and> ad_Flow (the addons) \<noteq> XRV")
  case True
  then obtain a where a: "addons = Some a" "ad_Flow a \<noteq> XRV" "rh_Version req = 0" by (auto simp: Version_def)
  obtain b p1 where b: "New p = (b, p1)" "buf_inv b" "content b = []" "room b = 8192" using New_ok [OF assms] by blast
  have "EncodeHeaderAddons marshal (append_to b [0]) (Some a) = Some (None, append_to b [0, 0])"
    using EncodeHeaderAddons_ok [of "append_to b [0]" marshal a] a(2) b by (simp add: addons_fit_def addons_wire_def)
  moreover have "Bytes (append_to b [0, 0]) = Some [0, 0]" using b Bytes_content [of "append_to b [0, 0]"] by simp
  ultimately have "encode_response marshal wr w req addons p
      = map_option (\<lambda>(_, e, w'). (map_option (\<lambda>er. ENew ''failed to write response header'' (Some er)) e, w', snd (Release (Some (append_to b [0, 0])) p1)))
          (wr w [0, 0])"
    using a b by (simp add: encode_response_def send_buffer_def)
  then show ?thesis using True
    by (simp add: EncodeResponseHeader_def responseHeaderZeroAddons_def Version_def option.map_comp o_def case_prod_beta)
next
  case False
  then show ?thesis by (auto simp: EncodeResponseHeader_def)
qed

theorem response_fast_path_witness:
  "map_option (\<lambda>(e, w', _). (e, w')) (EncodeResponseHeader demo_marshal sink_Write \<lparr>sk_out = [], sk_quota = 9\<rparr> demo_request (Some zero_Addons) [])
     = map_option (\<lambda>(e, w', _). (e, w')) (encode_response demo_marshal sink_Write \<lparr>sk_out = [], sk_quota = 9\<rparr> demo_request (Some zero_Addons) [])"
  by (rule response_fast_path) (simp add: pool_ok_def)

text \<open>
  C15. UDP packets keep their boundaries: \<open>MultiLengthPacketWriter\<close> sends every packet of 1 to 8190 bytes with its length in front and
  drops the others, and \<open>LengthPacketReader\<close> gives exactly these packets back, one by one and in order, however the stream is cut.
\<close>

theorem packets_roundtrip:
  assumes "mb_inv mb" "pool_ok p" "pool_ok q" "int (length (concat (map packet_frame (filter packet_ok (map pcontent mb))))) < 2147483648"
  shows "\<exists>e w' p'. MLP_WriteMultiBuffer (SequentialWriter_WriteMultiBuffer sink_Write) w mb p = Some (e, w', p') \<and> pool_ok p'
    \<and> (e = None \<longrightarrow> (\<exists>d. sk_out w' = sk_out w @ d \<and> (\<forall>c rest. concat (chunks c) = d @ rest \<longrightarrow>
         (\<exists>c' q'. read_packets conn_read (length (filter packet_ok (map pcontent mb))) c q
            = Some (filter packet_ok (map pcontent mb), c', q') \<and> concat (chunks c') = rest))))"
proof -
  let ?ds = "filter packet_ok (map pcontent mb)"
  obtain fs p1 where f: "mlp_frames mb p = Some (fs, p1)" "mb_inv fs" "None \<notin> set fs" "pool_ok p1" "mcontent fs = concat (map packet_frame ?ds)"
    using mlp_frames_ok [OF assms(1,2)] by blast
  have "\<exists>e w' p' k. SequentialWriter_WriteMultiBuffer sink_Write w fs p1 = Some (e, w', p') \<and> pool_ok p'
      \<and> sk_out w' = sk_out w @ take k (mcontent fs) \<and> (e = None \<longrightarrow> k = length (mcontent fs))"
    by (rule snk.seqw.write_mb) (use f assms(4) in simp_all)
  then obtain e w' p2 where w: "MLP_WriteMultiBuffer (SequentialWriter_WriteMultiBuffer sink_Write) w mb p = Some (e, w', snd (ReleaseMulti mb p2))"
    "pool_ok p2" "e = None \<longrightarrow> sk_out w' = sk_out w @ mcontent fs"
    using f(1,4) MB_IsEmpty_mcontent [OF f(2)] by (cases "mcontent fs = []") (auto simp: MLP_WriteMultiBuffer_def)
  have "\<exists>c' q'. read_packets conn_read (length ?ds) c q = Some (?ds, c', q') \<and> concat (chunks c') = rest"
    if "concat (chunks c) = mcontent fs @ rest" for c rest
    using conn_rd.read_packets_ok [OF TrueI assms(3) that [unfolded f(5)]] by (auto simp: packet_ok_def)
  then show ?thesis using w ReleaseMulti_pool_ok [OF w(2), of mb]
    by (intro exI [of _ e] exI [of _ w'] exI [of _ "snd (ReleaseMulti mb p2)"]) auto
qed

theorem packets_roundtrip_witness:
  "\<exists>mb e w' p'. map pcontent mb = [[1, 2], [], [3]]
    \<and> MLP_WriteMultiBuffer (SequentialWriter_WriteMultiBuffer sink_Write) \<lparr>sk_out = [], sk_quota = 99\<rparr> mb [] = Some (e, w', p')
    \<and> (e = None \<longrightarrow> (\<exists>c' q'. read_packets conn_read 2 \<lparr>chunks = [take 3 (sk_out w'), drop 3 (sk_out w')], closing = EOF\<rparr> []
        = Some ([[1, 2], [3]], c', q')))"
proof -
  let ?b = "\<lambda>d. Some (append_to (Buffer_of (replicate 8192 0)) d)"
  let ?mb = "[?b [1, 2], ?b [], ?b [3]]" and ?w = "\<lparr>sk_out = [], sk_quota = 99\<rparr>"
  have c: "map pcontent ?mb = [[1, 2], [], [3]]" "filter packet_ok [[1, 2], [], [3]] = [[1, 2], [3]]" by (simp_all add: packet_ok_def)
  have h: "mb_inv ?mb" "pool_ok []" "int (length (concat (map packet_frame (filter packet_ok (map pcontent ?mb))))) < 2147483648"
    by (simp_all add: pool_ok_def c packet_frame_def)
  obtain e w' p' where w: "MLP_WriteMultiBuffer (SequentialWriter_WriteMultiBuffer sink_Write) ?w ?mb [] = Some (e, w', p')"
    "e = None \<longrightarrow> (\<exists>d. sk_out w' = sk_out ?w @ d \<and> (\<forall>c rest. concat (chunks c) = d @ rest \<longrightarrow>
         (\<exists>c' q'. read_packets conn_read (length (filter packet_ok (map pcontent ?mb))) c []
            = Some (filter packet_ok (map pcontent ?mb), c', q') \<and> concat (chunks c') = rest)))"
    using packets_roundtrip [OF h(1,2,2,3), of ?w] by blast
  have l: "filter packet_ok (map pcontent ?mb) = [[1, 2], [3]]" "length [[1, 2], [3 :: byte]] = 2" using c by simp_all
  have "\<exists>c' q'. read_packets conn_read 2 \<lparr>chunks = [take 3 (sk_out w'), drop 3 (sk_out w')], closing = EOF\<rparr> [] = Some ([[1, 2], [3]], c', q')"
    if e: "e = None"
  proof -
    have "\<forall>c rest. concat (chunks c) = sk_out w' @ rest \<longrightarrow>
         (\<exists>c' q'. read_packets conn_read 2 c [] = Some ([[1, 2], [3]], c', q') \<and> concat (chunks c') = rest)"
      using w(2) e unfolding l by force
    from this [rule_format, of "\<lparr>chunks = [take 3 (sk_out w'), drop 3 (sk_out w')], closing = EOF\<rparr>" "[]"] show ?thesis by auto
  qed
  then show ?thesis using w(1) c(1) by (intro exI [of _ ?mb] exI [of _ e] exI [of _ w'] exI [of _ p'] conjI) auto
qed

end
