(* ===== verification/Vision_Padding.thy ===== *)
theory Vision_Padding
  imports Addr_Codec
begin

text \<open>
  \<open>proxy/proxy.go\<close>: the Vision flow of VLESS. Until the inner TLS handshake is over, every buffer is sent as a block with a command, the
  length of its content and some padding; the other side takes the blocks apart again, wherever the network cuts the stream. This theory
  has the state of a connection, \<open>XtlsPadding\<close>, \<open>XtlsUnpadding\<close>, \<open>ReshapeMultiBuffer\<close>, \<open>IsCompleteRecord\<close> and \<open>XtlsFilterTls\<close>. The random
  number generator is the parameter \<open>rnd\<close>: \<open>rnd m\<close> is the number drawn below \<open>m\<close>.
\<close>

section \<open>State\<close>

definition TlsClientHandShakeStart :: "byte list" where
  "TlsClientHandShakeStart = [22, 3]"

definition TlsServerHandShakeStart :: "byte list" where
  "TlsServerHandShakeStart = [22, 3, 3]"

definition TlsApplicationDataStart :: "byte list" where
  "TlsApplicationDataStart = [23, 3, 3]"

definition Tls13SupportedVersions :: "byte list" where
  "Tls13SupportedVersions = [0, 43, 0, 2, 3, 4]"

definition Tls13CipherSuiteDic :: "16 word \<Rightarrow> gostring option" where
  "Tls13CipherSuiteDic c =
     (if c = 0x1301 then Some (str ''TLS_AES_128_GCM_SHA256'')
      else if c = 0x1302 then Some (str ''TLS_AES_256_GCM_SHA384'')
      else if c = 0x1303 then Some (str ''TLS_CHACHA20_POLY1305_SHA256'')
      else if c = 0x1304 then Some (str ''TLS_AES_128_CCM_SHA256'')
      else if c = 0x1305 then Some (str ''TLS_AES_128_CCM_8_SHA256'')
      else None)"

definition CommandPaddingContinue :: byte where "CommandPaddingContinue = 0"
definition CommandPaddingEnd :: byte where "CommandPaddingEnd = 1"
definition CommandPaddingDirect :: byte where "CommandPaddingDirect = 2"

record InboundState =
  ib_WithinPaddingBuffers :: bool
  ib_UplinkReaderDirectCopy :: bool
  ib_RemainingCommand :: int
  ib_RemainingContent :: int
  ib_RemainingPadding :: int
  ib_CurrentCommand :: int
  ib_IsPadding :: bool
  ib_DownlinkWriterDirectCopy :: bool

record OutboundState =
  os_WithinPaddingBuffers :: bool
  os_DownlinkReaderDirectCopy :: bool
  os_RemainingCommand :: int
  os_RemainingContent :: int
  os_RemainingPadding :: int
  os_CurrentCommand :: int
  os_IsPadding :: bool
  os_UplinkWriterDirectCopy :: bool

record TrafficState =
  ts_UserUUID :: "byte list"
  ts_NumberOfPacketToFilter :: int
  ts_EnableXtls :: bool
  ts_IsTLS12orAbove :: bool
  ts_IsTLS :: bool
  ts_Cipher :: "16 word"
  ts_RemainingServerHello :: int
  ts_Inbound :: InboundState
  ts_Outbound :: OutboundState

definition NewTrafficState :: "byte list \<Rightarrow> TrafficState" where
  "NewTrafficState u =
     \<lparr>ts_UserUUID = u, ts_NumberOfPacketToFilter = 8, ts_EnableXtls = False, ts_IsTLS12orAbove = False, ts_IsTLS = False,
      ts_Cipher = 0, ts_RemainingServerHello = - 1,
      ts_Inbound = \<lparr>ib_WithinPaddingBuffers = True, ib_UplinkReaderDirectCopy = False, ib_RemainingCommand = - 1, ib_RemainingContent = - 1,
        ib_RemainingPadding = - 1, ib_CurrentCommand = 0, ib_IsPadding = True, ib_DownlinkWriterDirectCopy = False\<rparr>,
      ts_Outbound = \<lparr>os_WithinPaddingBuffers = True, os_DownlinkReaderDirectCopy = False, os_RemainingCommand = - 1, os_RemainingContent = - 1,
        os_RemainingPadding = - 1, os_CurrentCommand = 0, os_IsPadding = True, os_UplinkWriterDirectCopy = False\<rparr>\<rparr>"

text \<open>The four variables \<open>XtlsUnpadding\<close> reaches through its pointers, for either direction.\<close>

record padding =
  pd_Command :: int
  pd_Content :: int
  pd_Padding :: int
  pd_Current :: int

definition get_padding :: "bool \<Rightarrow> TrafficState \<Rightarrow> padding" where
  "get_padding isUplink s =
     (if isUplink
      then \<lparr>pd_Command = ib_RemainingCommand (ts_Inbound s), pd_Content = ib_RemainingContent (ts_Inbound s),
            pd_Padding = ib_RemainingPadding (ts_Inbound s), pd_Current = ib_CurrentCommand (ts_Inbound s)\<rparr>
      else \<lparr>pd_Command = os_RemainingCommand (ts_Outbound s), pd_Content = os_RemainingContent (ts_Outbound s),
            pd_Padding = os_RemainingPadding (ts_Outbound s), pd_Current = os_CurrentCommand (ts_Outbound s)\<rparr>)"

definition put_padding :: "bool \<Rightarrow> padding \<Rightarrow> TrafficState \<Rightarrow> TrafficState" where
  "put_padding isUplink pd s =
     (if isUplink
      then s\<lparr>ts_Inbound := (ts_Inbound s)\<lparr>ib_RemainingCommand := pd_Command pd, ib_RemainingContent := pd_Content pd,
            ib_RemainingPadding := pd_Padding pd, ib_CurrentCommand := pd_Current pd\<rparr>\<rparr>
      else s\<lparr>ts_Outbound := (ts_Outbound s)\<lparr>os_RemainingCommand := pd_Command pd, os_RemainingContent := pd_Content pd,
            os_RemainingPadding := pd_Padding pd, os_CurrentCommand := pd_Current pd\<rparr>\<rparr>)"

section \<open>Padding\<close>

text \<open>
  The length of the padding. A seed that is too short, and a bound of zero for the random number, panic. The seed entries are
  \<open>uint32\<close>, converted to \<open>int32\<close> where they are compared and added.
\<close>

definition padding_len :: "(int \<Rightarrow> int) \<Rightarrow> (32 word) list \<Rightarrow> int \<Rightarrow> bool \<Rightarrow> int option" where
  "padding_len rnd seed contentLen longPadding =
     Option.bind (index seed 0) (\<lambda>s0.
     map_option (\<lambda>l. if l > Size - 21 - contentLen then Size - 21 - contentLen else l)
       (if contentLen < sint s0 \<and> longPadding
        then Option.bind (index seed 1) (\<lambda>s1. Option.bind (index seed 2) (\<lambda>s2.
               if uint s1 = 0 then None else Some (i32 (i32 (rnd (uint s1)) + sint s2 - contentLen))))
        else Option.bind (index seed 3) (\<lambda>s3. if uint s3 = 0 then None else Some (i32 (rnd (uint s3))))))"

text \<open>\<open>userUUID\<close> is the slice behind the pointer (\<open>None\<close> for a nil pointer); it is written once and then nil.\<close>

definition XtlsPadding ::
  "(int \<Rightarrow> int) \<Rightarrow> (32 word) list \<Rightarrow> Buffer option \<Rightarrow> byte \<Rightarrow> byte list option \<Rightarrow> bool \<Rightarrow> pool \<Rightarrow> (Buffer \<times> byte list option \<times> pool) option" where
  "XtlsPadding rnd seed b command userUUID longPadding p =
     (let contentLen = (case b of None \<Rightarrow> 0 | Some bb \<Rightarrow> buf_Len bb)
      in Option.bind (padding_len rnd seed contentLen longPadding) (\<lambda>paddingLen.
         case New p of (nb, p1) \<Rightarrow>
         Option.bind (case userUUID of None \<Rightarrow> Some nb | Some u \<Rightarrow> map_option snd (Write nb u)) (\<lambda>nb1.
         Option.bind (map_option snd (Write nb1 [command, hi_byte contentLen, byte_of contentLen, hi_byte paddingLen, byte_of paddingLen])) (\<lambda>nb2.
         Option.bind (case b of
             None \<Rightarrow> Some (nb2, p1)
           | Some bb \<Rightarrow> Option.bind (Bytes bb) (\<lambda>d. map_option (\<lambda>(_, nb3). (nb3, snd (Release (Some bb) p1))) (Write nb2 d))) (\<lambda>(nb3, p2).
         map_option (\<lambda>(_, nb4). (nb4, map_option (\<lambda>_. []) userUUID, p2)) (Extend nb3 paddingLen))))))"

section \<open>Unpadding\<close>

text \<open>One byte of a block header.\<close>

definition unpad_command :: "padding \<Rightarrow> byte \<Rightarrow> padding" where
  "unpad_command pd x =
     (if pd_Command pd = 5 then pd\<lparr>pd_Current := uint x\<rparr>
      else if pd_Command pd = 4 then pd\<lparr>pd_Content := push_bit 8 (uint x)\<rparr>
      else if pd_Command pd = 3 then pd\<lparr>pd_Content := pd_Content pd OR uint x\<rparr>
      else if pd_Command pd = 2 then pd\<lparr>pd_Padding := push_bit 8 (uint x)\<rparr>
      else if pd_Command pd = 1 then pd\<lparr>pd_Padding := pd_Padding pd OR uint x\<rparr>
      else pd)\<lparr>pd_Command := pd_Command pd - 1\<rparr>"

text \<open>The body of the loop up to the check for the end of the block; the flag says that it returned early.\<close>

definition unpad_iter :: "padding \<Rightarrow> Buffer \<Rightarrow> Buffer \<Rightarrow> (bool \<times> padding \<times> Buffer \<times> Buffer) option" where
  "unpad_iter pd b nb =
     (if pd_Command pd > 0 then
        map_option (\<lambda>((x, err), b1). if err \<noteq> None then (True, pd, b1, nb) else (False, unpad_command pd x, b1, nb)) (ReadByte b)
      else if pd_Content pd > 0 then
        (let l = (if buf_Len b < pd_Content pd then buf_Len b else pd_Content pd)
         in Option.bind (ReadBytes b l) (\<lambda>((d, err), b1).
              if err \<noteq> None then Some (True, pd, b1, nb)
              else map_option (\<lambda>(_, nb1). (False, pd\<lparr>pd_Content := pd_Content pd - l\<rparr>, b1, nb1)) (Write nb d)))
      else
        (let l = (if buf_Len b < pd_Padding pd then buf_Len b else pd_Padding pd)
         in Some (False, pd\<lparr>pd_Padding := pd_Padding pd - l\<rparr>, Advance b l, nb)))"

definition block_done :: "padding \<Rightarrow> bool" where
  "block_done pd \<longleftrightarrow> pd_Command pd \<le> 0 \<and> pd_Content pd \<le> 0 \<and> pd_Padding pd \<le> 0"

definition padding_reset :: "padding \<Rightarrow> padding" where
  "padding_reset pd = pd\<lparr>pd_Command := - 1, pd_Content := - 1, pd_Padding := - 1\<rparr>"

text \<open>The loop; nothing bounds it in the code, so it is a partial function.\<close>

partial_function (option) unpad_loop :: "padding \<Rightarrow> Buffer \<Rightarrow> Buffer \<Rightarrow> (bool \<times> padding \<times> Buffer \<times> Buffer) option" where
  "unpad_loop pd b nb =
     (if buf_Len b > 0 then
        Option.bind (unpad_iter pd b nb) (\<lambda>x. case x of (early, pd1, b1, nb1) \<Rightarrow>
          if early then Some (True, pd1, b1, nb1)
          else if block_done pd1 then
            (if pd_Current pd1 = 0 then unpad_loop (pd1\<lparr>pd_Command := 5\<rparr>) b1 nb1
             else if buf_Len b1 > 0
             then Option.bind (Bytes b1) (\<lambda>d. map_option (\<lambda>(_, nb2). (False, padding_reset pd1, b1, nb2)) (Write nb1 d))
             else Some (False, padding_reset pd1, b1, nb1))
          else unpad_loop pd1 b1 nb1)
      else Some (False, pd, b, nb))"

definition is_initial :: "padding \<Rightarrow> bool" where
  "is_initial pd \<longleftrightarrow> pd_Command pd = - 1 \<and> pd_Content pd = - 1 \<and> pd_Padding pd = - 1"

text \<open>\<open>XtlsUnpadding\<close> after the check of the initial state; a nil buffer has no bytes and is released without effect.\<close>

definition unpad_body :: "bool \<Rightarrow> Buffer option \<Rightarrow> padding \<Rightarrow> TrafficState \<Rightarrow> pool \<Rightarrow> (Buffer option \<times> TrafficState \<times> pool) option" where
  "unpad_body isUplink b pd s p =
     (case New p of (nb, p1) \<Rightarrow>
        (case b of
           None \<Rightarrow> Some (Some nb, put_padding isUplink pd s, p1)
         | Some bb \<Rightarrow> map_option (\<lambda>(early, pd1, b1, nb1).
               (Some nb1, put_padding isUplink pd1 s, if early then p1 else snd (Release (Some b1) p1)))
             (unpad_loop pd bb nb)))"

definition XtlsUnpadding :: "bool \<Rightarrow> Buffer option \<Rightarrow> TrafficState \<Rightarrow> pool \<Rightarrow> (Buffer option \<times> TrafficState \<times> pool) option" where
  "XtlsUnpadding isUplink b s p =
     (let pd = get_padding isUplink s
      in if is_initial pd then
           (case b of
              None \<Rightarrow> Some (None, s, p)
            | Some bb \<Rightarrow>
                if buf_Len bb \<ge> 21 then
                  Option.bind (BytesTo bb 16) (\<lambda>d.
                    if ts_UserUUID s = d then unpad_body isUplink (Some (Advance bb 16)) (pd\<lparr>pd_Command := 5\<rparr>) s p
                    else Some (b, s, p))
                else Some (b, s, p))
         else unpad_body isUplink b pd s p)"

text \<open>The loop of \<open>VisionReader.ReadMultiBuffer\<close> over the buffers it read; buffers that became empty are released.\<close>

fun unpad_buffers :: "bool \<Rightarrow> MultiBuffer \<Rightarrow> TrafficState \<Rightarrow> pool \<Rightarrow> (MultiBuffer \<times> TrafficState \<times> pool) option" where
  "unpad_buffers isUplink [] s p = Some ([], s, p)"
| "unpad_buffers isUplink (b # mb) s p =
     Option.bind (XtlsUnpadding isUplink b s p) (\<lambda>(nb, s1, p1).
       if Len nb > 0 then map_option (\<lambda>(out, x). (nb # out, x)) (unpad_buffers isUplink mb s1 p1)
       else unpad_buffers isUplink mb s1 (snd (Release nb p1)))"

section \<open>Unpadding, byte by byte\<close>

text \<open>The reference: an automaton that looks at one byte after the other. After the last block the rest of the buffer is passed on.\<close>

definition unpad_byte :: "padding \<Rightarrow> byte \<Rightarrow> padding \<times> byte list" where
  "unpad_byte pd x =
     (if pd_Command pd > 0 then (unpad_command pd x, [])
      else if pd_Content pd > 0 then (pd\<lparr>pd_Content := pd_Content pd - 1\<rparr>, [x])
      else (pd\<lparr>pd_Padding := pd_Padding pd - 1\<rparr>, []))"

fun unpad_bytes :: "padding \<Rightarrow> byte list \<Rightarrow> padding \<times> byte list" where
  "unpad_bytes pd [] = (pd, [])"
| "unpad_bytes pd (x # xs) =
     (let (pd1, out) = unpad_byte pd x
      in if block_done pd1
         then if pd_Current pd1 = 0 then apsnd ((@) out) (unpad_bytes (pd1\<lparr>pd_Command := 5\<rparr>) xs)
              else (padding_reset pd1, out @ xs)
         else apsnd ((@) out) (unpad_bytes pd1 xs))"

text \<open>What happens after a step that led to \<open>pd\<close>.\<close>

definition unpad_next :: "padding \<Rightarrow> byte list \<Rightarrow> padding \<times> byte list" where
  "unpad_next pd xs =
     (if block_done pd
      then if pd_Current pd = 0 then unpad_bytes (pd\<lparr>pd_Command := 5\<rparr>) xs else (padding_reset pd, xs)
      else unpad_bytes pd xs)"

lemma unpad_bytes_Cons: "unpad_bytes pd (x # xs) = apsnd ((@) (snd (unpad_byte pd x))) (unpad_next (fst (unpad_byte pd x)) xs)"
  by (simp add: unpad_next_def case_prod_beta Let_def)

declare unpad_bytes.simps(2) [simp del]

lemma apsnd_append [simp]: "apsnd ((@) a) (apsnd ((@) b) x) = apsnd ((@) (a @ b)) x" "apsnd ((@) []) x = x" "apsnd (\<lambda>xs. xs) x = x"
  by (cases x; simp)+

lemma unpad_content:
  assumes "pd_Command pd \<le> 0" "d \<noteq> []" "int (length d) \<le> pd_Content pd"
  shows "unpad_bytes pd (d @ xs) = apsnd ((@) d) (unpad_next (pd\<lparr>pd_Content := pd_Content pd - int (length d)\<rparr>) xs)"
  using assms
proof (induction d arbitrary: pd)
  case (Cons x d)
  let ?p = "pd\<lparr>pd_Content := pd_Content pd - 1\<rparr>"
  have b: "unpad_byte pd x = (?p, [x])" using Cons.prems by (simp add: unpad_byte_def)
  show ?case
  proof (cases "d = []")
    case True
    then show ?thesis using b by (simp add: unpad_bytes_Cons)
  next
    case False
    then have l: "0 < length d" by simp
    have "int (length d) > 0" using l by simp
    then have "\<not> block_done ?p" using Cons.prems(3) by (simp add: block_done_def del: of_nat_0_less_iff)
    then have "unpad_next ?p (d @ xs) = unpad_bytes ?p (d @ xs)" by (simp add: unpad_next_def)
    also have "\<dots> = apsnd ((@) d) (unpad_next (?p\<lparr>pd_Content := pd_Content ?p - int (length d)\<rparr>) xs)"
      by (rule Cons.IH) (use Cons.prems False in auto)
    finally show ?thesis using b by (simp add: unpad_bytes_Cons algebra_simps)
  qed
qed simp

lemma unpad_padding:
  assumes "pd_Command pd \<le> 0" "pd_Content pd \<le> 0" "d \<noteq> []" "int (length d) \<le> pd_Padding pd"
  shows "unpad_bytes pd (d @ xs) = unpad_next (pd\<lparr>pd_Padding := pd_Padding pd - int (length d)\<rparr>) xs"
  using assms
proof (induction d arbitrary: pd)
  case (Cons x d)
  let ?p = "pd\<lparr>pd_Padding := pd_Padding pd - 1\<rparr>"
  have b: "unpad_byte pd x = (?p, [])" using Cons.prems by (simp add: unpad_byte_def)
  show ?case
  proof (cases "d = []")
    case True
    then show ?thesis using b by (simp add: unpad_bytes_Cons)
  next
    case False
    then have l: "0 < length d" by simp
    have "int (length d) > 0" using l by simp
    then have "\<not> block_done ?p" using Cons.prems(4) by (simp add: block_done_def del: of_nat_0_less_iff)
    then have "unpad_next ?p (d @ xs) = unpad_bytes ?p (d @ xs)" by (simp add: unpad_next_def)
    also have "\<dots> = unpad_next (?p\<lparr>pd_Padding := pd_Padding ?p - int (length d)\<rparr>) xs"
      by (rule Cons.IH) (use Cons.prems False in auto)
    finally show ?thesis using b by (simp add: unpad_bytes_Cons algebra_simps)
  qed
qed simp

text \<open>The loop computes the automaton, for a buffer whose bytes fit into the new one; in particular it ends.\<close>

lemma unpad_iter_ok:
  assumes "buf_inv b" "buf_inv nb" "content b \<noteq> []" "length (content b) \<le> room nb" "\<not> block_done pd"
  obtains n pd1 o1 where "unpad_iter pd b nb = Some (False, pd1, consume b n, append_to nb o1)" "0 < n" "n \<le> length (content b)" "length o1 \<le> n"
    "unpad_bytes pd (content b) = apsnd ((@) o1) (unpad_next pd1 (drop n (content b)))"
proof -
  consider (command) "pd_Command pd > 0" | (data) "pd_Command pd \<le> 0" "pd_Content pd > 0"
    | (pad) "pd_Command pd \<le> 0" "pd_Content pd \<le> 0" "pd_Padding pd > 0"
    using assms(5) by (force simp: block_done_def)
  then show ?thesis
  proof cases
    case command
    obtain x xs where x: "content b = x # xs" using assms(3) by (cases "content b") auto
    show ?thesis
      by (rule that [of "unpad_command pd x" 1 "[]"])
        (use command assms(1,2) x in \<open>simp_all add: unpad_iter_def ReadByte_content unpad_bytes_Cons unpad_byte_def\<close>)
  next
    case data
    define n where "n = min (length (content b)) (nat (pd_Content pd))"
    have n: "(if buf_Len b < pd_Content pd then buf_Len b else pd_Content pd) = int n" "0 < n" "n \<le> length (content b)" "int n \<le> pd_Content pd"
      using data assms(1,3) by (auto simp: n_def buf_Len_content min_def)
    let ?d = "take n (content b)"
    have d: "length ?d \<le> room nb" "?d \<noteq> []" "length ?d = n" using n assms(3,4) by auto
    have "unpad_iter pd b nb = Some (False, pd\<lparr>pd_Content := pd_Content pd - int n\<rparr>, consume b n, append_to nb ?d)"
      using data n d(1) assms(1,2) by (simp add: unpad_iter_def ReadBytes_content Write_fits Let_def)
    moreover have "unpad_bytes pd (?d @ drop n (content b))
        = apsnd ((@) ?d) (unpad_next (pd\<lparr>pd_Content := pd_Content pd - int n\<rparr>) (drop n (content b)))"
      using unpad_content [OF data(1) d(2), of "drop n (content b)"] d(3) n(4) by simp
    ultimately show ?thesis by (intro that [of _ n ?d]) (use n d in simp_all)
  next
    case pad
    define n where "n = min (length (content b)) (nat (pd_Padding pd))"
    have n: "(if buf_Len b < pd_Padding pd then buf_Len b else pd_Padding pd) = int n" "0 < n" "n \<le> length (content b)" "int n \<le> pd_Padding pd"
      using pad assms(1,3) by (auto simp: n_def buf_Len_content min_def)
    let ?d = "take n (content b)"
    have d: "?d \<noteq> []" "length ?d = n" using n assms(3) by auto
    have "unpad_iter pd b nb = Some (False, pd\<lparr>pd_Padding := pd_Padding pd - int n\<rparr>, consume b n, append_to nb [])"
      using pad n assms(1,2) by (simp add: unpad_iter_def Advance_content Let_def)
    moreover have "unpad_bytes pd (?d @ drop n (content b)) = unpad_next (pd\<lparr>pd_Padding := pd_Padding pd - int n\<rparr>) (drop n (content b))"
      using unpad_padding [OF pad(1,2) d(1), of "drop n (content b)"] d(2) n(4) by simp
    ultimately show ?thesis by (intro that [of _ n "[]"]) (use n in simp_all)
  qed
qed

lemma unpad_loop_ok:
  assumes "buf_inv b" "buf_inv nb" "length (content b) \<le> room nb" "\<not> block_done pd"
  shows "\<exists>b'. unpad_loop pd b nb = Some (False, fst (unpad_bytes pd (content b)), b', append_to nb (snd (unpad_bytes pd (content b))))"
  using assms
proof (induction "length (content b)" arbitrary: b nb pd rule: less_induct)
  case less
  show ?case
  proof (cases "content b = []")
    case True
    then show ?thesis using less.prems(1,2) by (simp add: unpad_loop.simps buf_Len_content)
  next
    case False
    obtain n pd1 o1 where i: "unpad_iter pd b nb = Some (False, pd1, consume b n, append_to nb o1)" "0 < n" "n \<le> length (content b)" "length o1 \<le> n"
      "unpad_bytes pd (content b) = apsnd ((@) o1) (unpad_next pd1 (drop n (content b)))"
      by (rule unpad_iter_ok [OF less.prems(1,2) False less.prems(3,4)])
    let ?b = "consume b n" and ?nb = "append_to nb o1" and ?c = "drop n (content b)"
    have b: "buf_inv ?b" "content ?b = ?c" "length (content ?b) < length (content b)" using less.prems(1) i(2,3) False by auto
    have nb: "buf_inv ?nb" "length (content ?b) \<le> room ?nb" using less.prems(2,3) i(3,4) b(2) by auto
    have again: "\<exists>b'. unpad_loop pd' ?b ?nb = Some (False, fst (unpad_bytes pd' ?c), b', append_to nb (o1 @ snd (unpad_bytes pd' ?c)))"
      if "\<not> block_done pd'" for pd'
      using less.hyps [OF b(3,1) nb that] b(2) less.prems(2) by simp
    have L: "unpad_loop pd b nb = (if block_done pd1 then
        (if pd_Current pd1 = 0 then unpad_loop (pd1\<lparr>pd_Command := 5\<rparr>) ?b ?nb
         else if buf_Len ?b > 0
         then Option.bind (Bytes ?b) (\<lambda>d. map_option (\<lambda>(_, nb2). (False, padding_reset pd1, ?b, nb2)) (Write ?nb d))
         else Some (False, padding_reset pd1, ?b, ?nb))
       else unpad_loop pd1 ?b ?nb)"
      using i(1) False less.prems(1) by (subst unpad_loop.simps) (simp add: buf_Len_content)
    show ?thesis
    proof (cases "block_done pd1 \<and> pd_Current pd1 \<noteq> 0")
      case True
      then show ?thesis
        using L i(5) b nb less.prems(2) by (cases "?c = []") (simp_all add: unpad_next_def buf_simps)
    next
      case False
      have "\<not> block_done (pd1\<lparr>pd_Command := 5\<rparr>)" by (simp add: block_done_def)
      then show ?thesis
        using L i(5) again [of pd1] again [of "pd1\<lparr>pd_Command := 5\<rparr>"] False by (cases "block_done pd1") (simp_all add: unpad_next_def)
    qed
  qed
qed

text \<open>Where the stream is cut does not matter.\<close>

lemma initial_done: "is_initial pd \<Longrightarrow> block_done pd"
  by (simp add: is_initial_def block_done_def)

lemma unpad_bytes_states: "\<not> block_done pd \<Longrightarrow> is_initial (fst (unpad_bytes pd xs)) \<or> \<not> block_done (fst (unpad_bytes pd xs))"
proof (induction xs arbitrary: pd)
  case (Cons x xs)
  have "\<not> block_done (q\<lparr>pd_Command := 5\<rparr>)" for q :: padding by (simp add: block_done_def)
  then show ?case using Cons.IH by (auto simp: unpad_bytes_Cons unpad_next_def padding_reset_def is_initial_def)
qed simp

lemma unpad_bytes_append:
  assumes "\<not> block_done pd"
  shows "unpad_bytes pd (xs @ ys) =
    (case unpad_bytes pd xs of (pd1, o1) \<Rightarrow> if is_initial pd1 then (pd1, o1 @ ys) else apsnd ((@) o1) (unpad_bytes pd1 ys))"
  using assms
proof (induction xs arbitrary: pd)
  case Nil
  then have "\<not> is_initial pd" using initial_done by blast
  then show ?case by simp
next
  case (Cons x xs)
  have r: "is_initial (padding_reset q)" "\<not> block_done (q\<lparr>pd_Command := 5\<rparr>)" for q :: padding
    by (simp_all add: block_done_def padding_reset_def is_initial_def)
  let ?q = "fst (unpad_byte pd x)"
  show ?case
  proof (cases "block_done ?q \<and> pd_Current ?q \<noteq> 0")
    case True
    then show ?thesis using r by (simp add: unpad_bytes_Cons unpad_next_def)
  next
    case False
    then obtain q where q: "\<not> block_done q" "\<And>zs. unpad_next ?q zs = unpad_bytes q zs"
      using r(2) by (cases "block_done ?q") (auto simp: unpad_next_def)
    show ?thesis using Cons.IH [OF q(1)] by (simp add: unpad_bytes_Cons q(2) split: prod.splits)
  qed
qed

section \<open>Blocks\<close>

text \<open>A block on the wire: command, content, padding.\<close>

type_synonym block = "byte \<times> byte list \<times> byte list"

definition block_wire :: "block \<Rightarrow> byte list" where
  "block_wire = (\<lambda>(c, d, pad). [c, hi_byte (int (length d)), byte_of (int (length d)), hi_byte (int (length pad)), byte_of (int (length pad))] @ d @ pad)"

definition block_ok :: "block \<Rightarrow> bool" where
  "block_ok = (\<lambda>(c, d, pad). length d < 65536 \<and> length pad < 65536)"

lemma unpad_header:
  assumes "pd_Command pd = 5" "length d < 65536" "length pad < 65536"
  shows "unpad_bytes pd ([c, hi_byte (int (length d)), byte_of (int (length d)), hi_byte (int (length pad)), byte_of (int (length pad))] @ xs)
    = unpad_next \<lparr>pd_Command = 0, pd_Content = int (length d), pd_Padding = int (length pad), pd_Current = uint c\<rparr> xs"
proof -
  have h: "push_bit 8 (uint (hi_byte (int n))) OR uint (byte_of (int n)) = int n" if "n < 65536" for n
    using be_int_bytes [of "int n"] that by (simp add: be_int_def)
  obtain a b e where pd: "pd = \<lparr>pd_Command = 5, pd_Content = a, pd_Padding = b, pd_Current = e\<rparr>"
    using assms(1) by (cases pd) auto
  show ?thesis
    using h [OF assms(2)] h [OF assms(3)]
    by (simp add: pd unpad_bytes_Cons unpad_byte_def unpad_command_def unpad_next_def block_done_def)
qed

lemma unpad_block:
  assumes "pd_Command pd = 5" "block_ok (c, d, pad)"
  shows "unpad_bytes pd (block_wire (c, d, pad) @ xs)
    = apsnd ((@) d) (unpad_next \<lparr>pd_Command = 0, pd_Content = 0, pd_Padding = 0, pd_Current = uint c\<rparr> xs)"
proof -
  let ?p = "\<lambda>n m. \<lparr>pd_Command = 0, pd_Content = int n, pd_Padding = int m, pd_Current = uint c\<rparr>"
  have pads: "unpad_next (?p 0 (length pad)) (pad @ xs) = unpad_next (?p 0 0) xs"
  proof (cases "pad = []")
    case False
    then have "unpad_next (?p 0 (length pad)) (pad @ xs) = unpad_bytes (?p 0 (length pad)) (pad @ xs)"
      by (simp add: unpad_next_def block_done_def)
    then show ?thesis using unpad_padding [of "?p 0 (length pad)" pad xs] False by simp
  qed simp
  have "unpad_next (?p (length d) (length pad)) (d @ pad @ xs) = apsnd ((@) d) (unpad_next (?p 0 (length pad)) (pad @ xs))"
  proof (cases "d = []")
    case False
    then have "unpad_next (?p (length d) (length pad)) (d @ pad @ xs) = unpad_bytes (?p (length d) (length pad)) (d @ pad @ xs)"
      by (simp add: unpad_next_def block_done_def)
    then show ?thesis using unpad_content [of "?p (length d) (length pad)" d "pad @ xs"] False by simp
  qed simp
  then show ?thesis using pads unpad_header [OF assms(1), of d pad c "d @ pad @ xs"] assms(2) by (simp add: block_wire_def block_ok_def)
qed

abbreviation block_data :: "block \<Rightarrow> byte list" where
  "block_data k \<equiv> fst (snd k)"

text \<open>A run of blocks that go on, and the last one.\<close>

lemma unpad_blocks:
  assumes "pd_Command pd = 5" "\<forall>k \<in> set ks. block_ok k \<and> fst k = 0"
  shows "\<exists>pd'. pd_Command pd' = 5 \<and> (pd_Current pd = 0 \<longrightarrow> pd_Current pd' = 0)
    \<and> (\<forall>xs. unpad_bytes pd (concat (map block_wire ks) @ xs) = apsnd ((@) (concat (map block_data ks))) (unpad_bytes pd' xs))"
  using assms
proof (induction ks arbitrary: pd)
  case Nil
  then show ?case by auto
next
  case (Cons k ks)
  obtain d pad where k: "k = (0, d, pad)" "block_ok (0, d, pad)" using Cons.prems(2) by (cases k) auto
  let ?q = "\<lparr>pd_Command = 5, pd_Content = 0, pd_Padding = 0, pd_Current = 0\<rparr>"
  obtain pd' where p: "pd_Command pd' = 5" "pd_Current pd' = 0"
    "\<forall>xs. unpad_bytes ?q (concat (map block_wire ks) @ xs) = apsnd ((@) (concat (map block_data ks))) (unpad_bytes pd' xs)"
    using Cons.IH [of ?q] Cons.prems(2) by auto
  have "unpad_bytes pd (block_wire k @ zs) = apsnd ((@) d) (unpad_bytes ?q zs)" for zs
    using unpad_block [OF Cons.prems(1) k(2), of zs] k(1) by (simp add: unpad_next_def block_done_def)
  then show ?case using p k(1) by (intro exI [of _ pd']) simp
qed

lemma unpad_last:
  assumes "pd_Command pd = 5" "block_ok (c, d, pad)" "c \<noteq> 0"
  shows "unpad_bytes pd (block_wire (c, d, pad) @ raw)
    = (\<lparr>pd_Command = - 1, pd_Content = - 1, pd_Padding = - 1, pd_Current = uint c\<rparr>, d @ raw)"
proof -
  have "uint c \<noteq> 0" using assms(3) by (simp add: uint_0_iff)
  then show ?thesis using unpad_block [OF assms(1,2), of raw] by (simp add: unpad_next_def block_done_def padding_reset_def)
qed

section \<open>Unpadding the buffers of a connection\<close>

lemma get_put_padding [simp]: "get_padding u (put_padding u pd s) = pd" "ts_UserUUID (put_padding u pd s) = ts_UserUUID s"
  by (simp_all add: get_padding_def put_padding_def)

definition plain_buffer :: "Buffer \<Rightarrow> bool" where
  "plain_buffer b \<longleftrightarrow> buf_inv b \<and> length (content b) \<le> 8192"

lemma unpad_body_ok:
  assumes "plain_buffer b" "pool_ok p" "\<not> block_done pd"
  obtains nb p' where "unpad_body u (Some b) pd s p = Some (Some nb, put_padding u (fst (unpad_bytes pd (content b))) s, p')"
    "buf_inv nb" "content nb = snd (unpad_bytes pd (content b))" "pool_ok p'"
proof -
  obtain nb p1 where n: "New p = (nb, p1)" "buf_inv nb" "content nb = []" "room nb = 8192" "pool_ok p1" using New_ok [OF assms(2)] by blast
  have b: "buf_inv b" "length (content b) \<le> room nb" using assms(1) n(4) by (simp_all add: plain_buffer_def)
  obtain b' where l: "unpad_loop pd b nb = Some (False, fst (unpad_bytes pd (content b)), b', append_to nb (snd (unpad_bytes pd (content b))))"
    using unpad_loop_ok [OF b(1) n(2) b(2) assms(3)] by blast
  have "length (snd (unpad_bytes q xs)) \<le> length xs" for q xs
  proof (induction xs arbitrary: q)
    case (Cons x xs)
    have "length (snd (unpad_byte q x)) \<le> 1" by (simp add: unpad_byte_def)
    moreover have "length (snd (unpad_next q' xs)) \<le> length xs" for q' using Cons.IH by (simp add: unpad_next_def)
    then have "length (snd (unpad_next (fst (unpad_byte q x)) xs)) \<le> length xs" .
    ultimately show ?case by (simp add: unpad_bytes_Cons)
  qed simp
  then have "length (snd (unpad_bytes pd (content b))) \<le> room nb" using b(2) order_trans by blast
  then show ?thesis using n l Release_pool_ok [OF n(5)]
    by (intro that [of "append_to nb (snd (unpad_bytes pd (content b)))" "snd (Release (Some b') p1)"]) (simp_all add: unpad_body_def)
qed

text \<open>A buffer that does not look like the start of a padded stream.\<close>

definition unmarked :: "byte list \<Rightarrow> Buffer \<Rightarrow> bool" where
  "unmarked uuid b \<longleftrightarrow> length (content b) < 21 \<or> take 16 (content b) \<noteq> uuid"

lemma XtlsUnpadding_raw:
  assumes "plain_buffer b" "is_initial (get_padding u s)" "unmarked (ts_UserUUID s) b"
  shows "XtlsUnpadding u (Some b) s p = Some (Some b, s, p)"
  using assms BytesTo_content [of b 16] by (auto simp: XtlsUnpadding_def unmarked_def plain_buffer_def buf_Len_content)

lemma unpad_buffers_raw:
  assumes "\<forall>b \<in> set bs. plain_buffer b \<and> unmarked (ts_UserUUID s) b" "is_initial (get_padding u s)" "pool_ok p"
  shows "\<exists>out p'. unpad_buffers u (map Some bs) s p = Some (out, s, p') \<and> mb_inv out \<and> mcontent out = concat (map content bs) \<and> pool_ok p'"
  using assms
proof (induction bs arbitrary: p)
  case (Cons b bs)
  have x: "XtlsUnpadding u (Some b) s p = Some (Some b, s, p)" using XtlsUnpadding_raw [of b u s p] Cons.prems by simp
  have b: "buf_inv b" "Len (Some b) = int (length (content b))" using Cons.prems(1) by (simp_all add: plain_buffer_def Len_content)
  have p: "pool_ok (if content b = [] then snd (Release (Some b) p) else p)" using Cons.prems(3) Release_pool_ok [OF Cons.prems(3)] by simp
  obtain out p' where "unpad_buffers u (map Some bs) s (if content b = [] then snd (Release (Some b) p) else p) = Some (out, s, p')"
    "mb_inv out" "mcontent out = concat (map content bs)" "pool_ok p'"
    using Cons.IH [OF _ _ p] Cons.prems by auto
  then show ?case using x b by (cases "content b = []") simp_all
qed simp

lemma unpad_buffers_running:
  assumes "\<forall>b \<in> set bs. plain_buffer b" "\<forall>b \<in> set (tl bs). unmarked (ts_UserUUID s) b" "\<not> block_done (get_padding u s)" "pool_ok p"
  shows "\<exists>out s' p'. unpad_buffers u (map Some bs) s p = Some (out, s', p') \<and> mb_inv out \<and> pool_ok p'
    \<and> mcontent out = snd (unpad_bytes (get_padding u s) (concat (map content bs)))
    \<and> get_padding u s' = fst (unpad_bytes (get_padding u s) (concat (map content bs)))"
  using assms
proof (induction bs arbitrary: s p)
  case (Cons b bs)
  let ?pd = "get_padding u s" and ?r = "unpad_bytes (get_padding u s) (content b)"
  have ni: "\<not> is_initial ?pd" using Cons.prems(3) initial_done by blast
  obtain nb p1 where x: "unpad_body u (Some b) ?pd s p = Some (Some nb, put_padding u (fst ?r) s, p1)"
    "buf_inv nb" "content nb = snd ?r" "pool_ok p1"
    by (rule unpad_body_ok [of b p ?pd u s]) (use Cons.prems in auto)
  let ?s = "put_padding u (fst ?r) s" and ?p = "if content nb = [] then snd (Release (Some nb) p1) else p1"
  have p: "pool_ok ?p" using x(4) Release_pool_ok [OF x(4)] by simp
  have bs: "\<forall>b \<in> set bs. plain_buffer b \<and> unmarked (ts_UserUUID ?s) b" using Cons.prems(1,2) by simp
  then have tl: "\<forall>b \<in> set bs. plain_buffer b" "\<forall>b \<in> set (tl bs). unmarked (ts_UserUUID ?s) b" by (cases bs; simp)+
  have step: "unpad_buffers u (map Some (b # bs)) s p
      = (if content nb = [] then unpad_buffers u (map Some bs) ?s ?p
         else map_option (\<lambda>(out, x). (Some nb # out, x)) (unpad_buffers u (map Some bs) ?s ?p))"
    using x(1,2) ni by (simp add: XtlsUnpadding_def Let_def Len_content)
  have "\<exists>out s' p'. unpad_buffers u (map Some bs) ?s ?p = Some (out, s', p') \<and> mb_inv out \<and> pool_ok p'
      \<and> snd ?r @ mcontent out = snd (unpad_bytes ?pd (concat (map content (b # bs))))
      \<and> get_padding u s' = fst (unpad_bytes ?pd (concat (map content (b # bs))))"
  proof (cases "is_initial (fst ?r)")
    case True
    then show ?thesis using unpad_buffers_raw [OF bs _ p, of u] unpad_bytes_append [OF Cons.prems(3), of "content b" "concat (map content bs)"]
      by (auto simp: case_prod_beta)
  next
    case False
    then have nd: "\<not> block_done (fst ?r)" using unpad_bytes_states [OF Cons.prems(3)] by blast
    then show ?thesis
      using Cons.IH [OF tl _ p] unpad_bytes_append [OF Cons.prems(3), of "content b" "concat (map content bs)"] False by (auto simp: case_prod_beta)
  qed
  then show ?case using step x(2,3) by (cases "content nb = []") auto
qed simp

section \<open>What padding writes\<close>

definition rnd_ok :: "(int \<Rightarrow> int) \<Rightarrow> bool" where
  "rnd_ok rnd \<longleftrightarrow> (\<forall>m > 0. 0 \<le> rnd m \<and> rnd m < m)"

text \<open>
  Seeds for which the padding length cannot be negative or overflow: the random bounds are positive, and whenever a content is short enough
  for a long padding, the base length covers it. The configuration does not check this.
\<close>

definition seed_ok :: "(32 word) list \<Rightarrow> bool" where
  "seed_ok seed \<longleftrightarrow> length seed \<ge> 4 \<and> 0 < uint (seed ! 1) \<and> 0 < uint (seed ! 3) \<and> uint (seed ! 3) < 2147483648
     \<and> sint (seed ! 0) \<le> sint (seed ! 2) \<and> uint (seed ! 1) + sint (seed ! 2) < 2147483648 \<and> uint (seed ! 1) < 2147483648"

definition default_seed :: "(32 word) list" where
  "default_seed = [900, 500, 900, 256]"

lemma default_seed_ok: "seed_ok default_seed"
  by (simp add: seed_ok_def default_seed_def)

lemma padding_len_ok:
  assumes "seed_ok seed" "rnd_ok rnd" "n \<le> 8171"
  obtains l where "padding_len rnd seed (int n) long = Some (int l)" "n + l \<le> 8171"
proof -
  have i: "index seed 0 = Some (seed ! 0)" "index seed 1 = Some (seed ! 1)" "index seed 2 = Some (seed ! 2)" "index seed 3 = Some (seed ! 3)"
    using assms(1) by (auto simp: index_def seed_ok_def)
  have r: "0 \<le> rnd (uint (seed ! 1))" "rnd (uint (seed ! 1)) < uint (seed ! 1)" "0 \<le> rnd (uint (seed ! 3))" "rnd (uint (seed ! 3)) < uint (seed ! 3)"
    using assms(1,2) by (auto simp: seed_ok_def rnd_ok_def)
  define x where "x = (if int n < sint (seed ! 0) \<and> long then rnd (uint (seed ! 1)) + sint (seed ! 2) - int n else rnd (uint (seed ! 3)))"
  have x: "0 \<le> x" "x < 2147483648" using r assms(1) by (auto simp: x_def seed_ok_def)
  have "padding_len rnd seed (int n) long = Some (if x > Size - 21 - int n then Size - 21 - int n else x)"
    using i r x assms(1) by (auto simp: padding_len_def x_def seed_ok_def)
  moreover have "(if x > Size - 21 - int n then Size - 21 - int n else x) = int (min (nat x) (8171 - n))"
    using x(1) assms(3) by (simp add: Size_def min_def) linarith
  ultimately show ?thesis using assms(3) by (intro that [of "min (nat x) (8171 - n)"]) simp_all
qed

lemma XtlsPadding_ok:
  assumes "seed_ok seed" "rnd_ok rnd" "mb_inv [b]" "length (pcontent b) \<le> 8171" "length u \<le> 16" "pool_ok p"
  obtains nb n p' where "XtlsPadding rnd seed b c (Some u) long p = Some (nb, Some [], p')" "plain_buffer nb" "pool_ok p'"
    "content nb = u @ block_wire (c, pcontent b, replicate n 0)" "n \<le> 8171"
proof -
  obtain nb p1 where n: "New p = (nb, p1)" "buf_inv nb" "content nb = []" "room nb = 8192" "pool_ok p1" using New_ok [OF assms(6)] by blast
  obtain l where l: "padding_len rnd seed (int (length (pcontent b))) long = Some (int l)" "length (pcontent b) + l \<le> 8171"
    by (rule padding_len_ok [OF assms(1,2,4)])
  have cl: "(case b of None \<Rightarrow> 0 | Some bb \<Rightarrow> buf_Len bb) = int (length (pcontent b))" using assms(3) by (cases b) (simp_all add: buf_Len_content)
  let ?h = "[c, hi_byte (int (length (pcontent b))), byte_of (int (length (pcontent b))), hi_byte (int l), byte_of (int l)]"
  let ?nb2 = "append_to nb (u @ ?h)" and ?nb = "append_to nb (u @ block_wire (c, pcontent b, replicate l 0))"
  have w: "Write nb u = Some ((int (length u), None), append_to nb u)" "Write (append_to nb u) ?h = Some ((5, None), ?nb2)"
    using n assms(5) by (simp_all add: Write_fits)
  let ?p2 = "case b of None \<Rightarrow> p1 | Some bb \<Rightarrow> snd (Release (Some bb) p1)"
  have d: "(case b of
             None \<Rightarrow> Some (?nb2, p1)
           | Some bb \<Rightarrow> Option.bind (Bytes bb) (\<lambda>d. map_option (\<lambda>(_, nb3). (nb3, snd (Release (Some bb) p1))) (Write ?nb2 d)))
      = Some (append_to nb (u @ ?h @ pcontent b), ?p2)"
    using assms(3-5) n by (cases b) (simp_all add: Bytes_content Write_fits)
  have e: "map_option (\<lambda>(_, nb4). (nb4, map_option (\<lambda>_. []) (Some u), q)) (Extend (append_to nb (u @ ?h @ pcontent b)) (int l)) = Some (?nb, Some [], q)" for q
    using n l(2) assms(5) by (simp add: Extend_room block_wire_def)
  have "XtlsPadding rnd seed b c (Some u) long p = Some (?nb, Some [], ?p2)"
    unfolding XtlsPadding_def Let_def cl l(1) n(1) using w d e by simp
  moreover have "pool_ok ?p2" using n(5) Release_pool_ok [OF n(5)] by (cases b) simp_all
  moreover have "length (u @ block_wire (c, pcontent b, replicate l 0)) \<le> 8192" using assms(5) l(2) by (simp add: block_wire_def)
  ultimately show ?thesis using n l(2) by (intro that [of ?nb ?p2 l]) (simp_all add: plain_buffer_def)
qed

text \<open>A series of buffers, padded one after the other; the user id goes in front of the first one.\<close>

fun pad_series ::
  "(32 word) list \<Rightarrow> ((int \<Rightarrow> int) \<times> Buffer option \<times> byte \<times> bool) list \<Rightarrow> byte list option \<Rightarrow> pool \<Rightarrow> (Buffer list \<times> pool) option" where
  "pad_series seed [] u p = Some ([], p)"
| "pad_series seed ((rnd, b, c, long) # xs) u p =
     Option.bind (XtlsPadding rnd seed b c u long p) (\<lambda>(nb, u1, p1).
       map_option (\<lambda>(nbs, p2). (nb # nbs, p2)) (pad_series seed xs u1 p1))"

definition pad_args_ok :: "((int \<Rightarrow> int) \<times> Buffer option \<times> byte \<times> bool) list \<Rightarrow> bool" where
  "pad_args_ok xs \<longleftrightarrow> (\<forall>(rnd, b, c, long) \<in> set xs. rnd_ok rnd \<and> mb_inv [b] \<and> length (pcontent b) \<le> 8171)"

definition series_wire :: "((int \<Rightarrow> int) \<times> Buffer option \<times> byte \<times> bool) list \<Rightarrow> byte list \<Rightarrow> Buffer list \<Rightarrow> block list \<Rightarrow> bool" where
  "series_wire xs u nbs ks \<longleftrightarrow> concat (map content nbs) = (if xs = [] then [] else u) @ concat (map block_wire ks)
     \<and> map fst ks = map (\<lambda>(_, _, c, _). c) xs \<and> map block_data ks = map (\<lambda>(_, b, _, _). pcontent b) xs
     \<and> (\<forall>k \<in> set ks. block_ok k) \<and> (\<forall>nb \<in> set nbs. plain_buffer nb)"

lemma pad_series_ok:
  assumes "seed_ok seed" "pad_args_ok xs" "length u \<le> 16" "pool_ok p"
  shows "\<exists>nbs ks p'. pad_series seed xs (Some u) p = Some (nbs, p') \<and> pool_ok p' \<and> series_wire xs u nbs ks"
  using assms
proof (induction xs arbitrary: u p)
  case Nil
  then show ?case by (auto simp: series_wire_def)
next
  case (Cons x xs)
  obtain rnd b c long where x: "x = (rnd, b, c, long)" by (cases x)
  have a: "rnd_ok rnd" "mb_inv [b]" "length (pcontent b) \<le> 8171" "pad_args_ok xs" using Cons.prems(2) x by (simp_all add: pad_args_ok_def)
  obtain nb n p1 where 1: "XtlsPadding rnd seed b c (Some u) long p = Some (nb, Some [], p1)" "plain_buffer nb" "pool_ok p1"
    "content nb = u @ block_wire (c, pcontent b, replicate n 0)" "n \<le> 8171"
    by (rule XtlsPadding_ok [OF Cons.prems(1) a(1-3) Cons.prems(3,4)])
  obtain nbs ks p2 where 2: "pad_series seed xs (Some []) p1 = Some (nbs, p2)" "pool_ok p2" "series_wire xs [] nbs ks"
    using Cons.IH [OF Cons.prems(1) a(4), of "[]" p1] 1(3) by auto
  let ?k = "(c, pcontent b, replicate n 0)"
  have "block_ok ?k" using a(3) 1(5) by (simp add: block_ok_def)
  then have "series_wire (x # xs) u (nb # nbs) (?k # ks)" using 1 2(3) x by (simp add: series_wire_def split: if_splits)
  then show ?case using 1 2 x by (intro exI [of _ "nb # nbs"] exI [of _ "?k # ks"] exI [of _ p2]) simp
qed

lemma put_put_padding [simp]: "put_padding u a (put_padding u b s) = put_padding u a s"
  by (simp add: put_padding_def)

lemma unpad_body_put [simp]: "unpad_body u b pd (put_padding u q s) p = unpad_body u b pd s p"
  by (simp add: unpad_body_def split: option.splits prod.splits)

text \<open>The first buffer of a padded stream: the user id is taken off, then the blocks start.\<close>

lemma unpad_buffers_start:
  assumes "plain_buffer b" "21 \<le> length (content b)" "take 16 (content b) = ts_UserUUID s" "is_initial (get_padding u s)"
  shows "unpad_buffers u (Some b # mb) s p
    = unpad_buffers u (Some (consume b 16) # mb) (put_padding u ((get_padding u s)\<lparr>pd_Command := 5\<rparr>) s) p"
proof -
  have b: "buf_inv b" "Advance b 16 = consume b 16" "BytesTo b 16 = Some (ts_UserUUID s)" "buf_Len b \<ge> 21"
    using assms Advance_content [of b 16] BytesTo_content [of b 16] by (simp_all add: plain_buffer_def buf_Len_content)
  have "\<not> is_initial ((get_padding u s)\<lparr>pd_Command := 5\<rparr>)" by (simp add: is_initial_def)
  then show ?thesis using b assms(4) by (simp add: XtlsUnpadding_def Let_def)
qed

text \<open>A whole padded stream in buffers: blocks that go on, whatever follows them, and a last block.\<close>

lemma unpad_stream:
  assumes "concat (map content (b # bs)) = uuid @ concat (map block_wire ks) @ rest" "\<forall>x \<in> set (b # bs). plain_buffer x"
    "21 \<le> length (content b)" "\<forall>x \<in> set bs. unmarked uuid x" "ts_UserUUID s = uuid" "length uuid = 16" "is_initial (get_padding u s)" "pool_ok q"
    "\<forall>k \<in> set ks. block_ok k \<and> fst k = 0"
  obtains pd out s' q' where "pd_Command pd = 5" "pd_Current (get_padding u s) = 0 \<longrightarrow> pd_Current pd = 0" "unpad_buffers u (map Some (b # bs)) s q = Some (out, s', q')"
    "mcontent out = concat (map block_data ks) @ snd (unpad_bytes pd rest)" "get_padding u s' = fst (unpad_bytes pd rest)" "pool_ok q'"
proof -
  let ?pd = "(get_padding u s)\<lparr>pd_Command := 5\<rparr>" and ?b = "consume b 16"
  have pb: "plain_buffer b" using assms(2) by simp
  have e: "content b @ concat (map content bs) = uuid @ concat (map block_wire ks) @ rest" using assms(1) by simp
  have t: "take 16 (content b) = uuid" using arg_cong [OF e, of "take 16"] assms(3,6) by simp
  have cb: "plain_buffer ?b" "content ?b = drop 16 (content b)" using pb assms(3) by (auto simp: plain_buffer_def)
  have st: "concat (map content (?b # bs)) = concat (map block_wire ks) @ rest"
    using arg_cong [OF e, of "drop 16"] assms(3,6) cb(2) by simp
  obtain pd where pd: "pd_Command pd = 5" "pd_Current ?pd = 0 \<longrightarrow> pd_Current pd = 0"
    "\<And>ys. unpad_bytes ?pd (concat (map block_wire ks) @ ys) = apsnd ((@) (concat (map block_data ks))) (unpad_bytes pd ys)"
    using unpad_blocks [of ?pd ks] assms(9) by auto
  have m: "unpad_buffers u (map Some (b # bs)) s q = unpad_buffers u (map Some (?b # bs)) (put_padding u ?pd s) q"
    using unpad_buffers_start [OF pb assms(3) _ assms(7), of "map Some bs" q] t assms(5) by simp
  have "\<not> block_done ?pd" by (simp add: block_done_def)
  then obtain out s' q' where r: "unpad_buffers u (map Some (?b # bs)) (put_padding u ?pd s) q = Some (out, s', q')" "pool_ok q'"
    "mcontent out = snd (unpad_bytes ?pd (concat (map content (?b # bs))))" "get_padding u s' = fst (unpad_bytes ?pd (concat (map content (?b # bs))))"
    using unpad_buffers_running [of "?b # bs" "put_padding u ?pd s" u q] cb(1) assms(2,4,5,8) by fastforce
  show ?thesis
    by (rule that [OF pd(1)]) (use m r pd(2) in \<open>simp_all add: st [simplified] pd(3)\<close>)
qed

section \<open>Properties of the padding\<close>

text \<open>
  Vision padding is transparent: buffers of up to 8171 bytes, padded one after the other with a seed whose lengths cannot become
  negative and whatever random numbers, come out of \<open>XtlsUnpadding\<close> as the same bytes, wherever the network cuts the stream (the first
  buffer has at least the 21 bytes of id and header). The block with a command other than \<open>CommandPaddingContinue\<close> ends the padding, and what
  is sent after it is passed on unchanged, unless a later buffer happens to start with the user id.
\<close>

theorem vision_padding_roundtrip:
  assumes "seed_ok seed" "pad_args_ok (xs @ [(rnd, d, c, long)])" "\<forall>(_, _, c, _) \<in> set xs. c = CommandPaddingContinue" "c \<noteq> CommandPaddingContinue"
    and "length uuid = 16" "pool_ok p" "pool_ok q"
  shows "\<exists>nbs p'. pad_series seed (xs @ [(rnd, d, c, long)]) (Some uuid) p = Some (nbs, p') \<and>
    (\<forall>b bs raw s. concat (map content (b # bs)) = concat (map content nbs) @ raw \<longrightarrow> (\<forall>x \<in> set (b # bs). plain_buffer x) \<longrightarrow>
       21 \<le> length (content b) \<longrightarrow> (\<forall>x \<in> set bs. unmarked uuid x) \<longrightarrow> ts_UserUUID s = uuid \<longrightarrow> is_initial (get_padding u s) \<longrightarrow>
       (\<exists>out s' q'. unpad_buffers u (map Some (b # bs)) s q = Some (out, s', q')
          \<and> mcontent out = concat (map (\<lambda>(_, b, _, _). pcontent b) xs) @ pcontent d @ raw
          \<and> get_padding u s' = \<lparr>pd_Command = - 1, pd_Content = - 1, pd_Padding = - 1, pd_Current = uint c\<rparr>))"
proof -
  let ?xs = "xs @ [(rnd, d, c, long)]"
  obtain nbs ks p' where n: "pad_series seed ?xs (Some uuid) p = Some (nbs, p')" "series_wire ?xs uuid nbs ks"
    using pad_series_ok [OF assms(1,2) _ assms(6), of uuid] assms(5) by auto
  then have "length ks = Suc (length xs)" by (metis length_map length_append_singleton series_wire_def)
  then obtain ks1 k where ks: "ks = ks1 @ [k]" by (cases ks rule: rev_cases) auto
  obtain pad where k: "k = (c, pcontent d, pad)" "block_ok k"
    using n(2) ks by (cases k) (auto simp: series_wire_def)
  have w: "concat (map content nbs) = uuid @ concat (map block_wire ks1) @ block_wire k"
    "map fst ks1 = map (\<lambda>(_, _, c, _). c) xs" "map block_data ks1 = map (\<lambda>(_, b, _, _). pcontent b) xs" "\<forall>k \<in> set ks1. block_ok k"
    using n(2) ks by (simp_all add: series_wire_def)
  have z: "fst x = 0" if "x \<in> set ks1" for x
  proof -
    have "fst x \<in> set (map fst ks1)" using that by simp
    then show ?thesis using assms(3) unfolding w(2) by (auto simp: CommandPaddingContinue_def)
  qed
  have "\<exists>out s' q'. unpad_buffers u (map Some (b # bs)) s q = Some (out, s', q')
        \<and> mcontent out = concat (map (\<lambda>(_, b, _, _). pcontent b) xs) @ pcontent d @ raw
        \<and> get_padding u s' = \<lparr>pd_Command = - 1, pd_Content = - 1, pd_Padding = - 1, pd_Current = uint c\<rparr>"
    if h: "concat (map content (b # bs)) = concat (map content nbs) @ raw" "\<forall>x \<in> set (b # bs). plain_buffer x" "21 \<le> length (content b)"
      "\<forall>x \<in> set bs. unmarked uuid x" "ts_UserUUID s = uuid" "is_initial (get_padding u s)" for b bs raw s
  proof -
    have e: "concat (map content (b # bs)) = uuid @ concat (map block_wire ks1) @ block_wire k @ raw" using h(1) w(1) by simp
    have g: "\<forall>k \<in> set ks1. block_ok k \<and> fst k = 0" using w(4) z by blast
    have c0: "c \<noteq> 0" using assms(4) by (simp add: CommandPaddingContinue_def)
    obtain pd out s' q' where "pd_Command pd = 5" "unpad_buffers u (map Some (b # bs)) s q = Some (out, s', q')"
      "mcontent out = concat (map block_data ks1) @ snd (unpad_bytes pd (block_wire k @ raw))" "get_padding u s' = fst (unpad_bytes pd (block_wire k @ raw))"
      by (rule unpad_stream [OF e h(2-5) assms(5) h(6) assms(7) g])
    then show ?thesis using unpad_last [of pd c "pcontent d" pad raw] k c0 w(3) by simp
  qed
  then show ?thesis using n(1) by blast
qed

theorem vision_padding_roundtrip_witness:
  "\<exists>nbs p' out s' q'. pad_series default_seed [(\<lambda>_. 0, Some (append_to (Buffer_of (replicate 8192 0)) [1, 2, 3]), 1, False)] (Some (replicate 16 7)) []
      = Some (nbs, p')
    \<and> unpad_buffers True (map Some nbs) (NewTrafficState (replicate 16 7)) [] = Some (out, s', q') \<and> mcontent out = [1, 2, 3]"
proof -
  let ?b = "Some (append_to (Buffer_of (replicate 8192 0)) [1, 2, 3])" and ?u = "replicate 16 7 :: byte list"
  have r: "rnd_ok (\<lambda>_. 0)" "mb_inv [?b]" "pcontent ?b = [1, 2, 3]" "pool_ok []" by (simp_all add: rnd_ok_def pool_ok_def)
  have h: "length (pcontent ?b) \<le> 8171" "length ?u \<le> 16" using r(3) by simp_all
  obtain nb n p1 where x: "XtlsPadding (\<lambda>_. 0) default_seed ?b 1 (Some ?u) False [] = Some (nb, Some [], p1)" "plain_buffer nb"
    "content nb = ?u @ block_wire (1, pcontent ?b, replicate n 0)"
    by (rule XtlsPadding_ok [OF default_seed_ok r(1,2) h r(4)])
  have s: "pad_series default_seed [(\<lambda>_. 0, ?b, 1, False)] (Some ?u) [] = Some ([nb], p1)" using x(1) by simp
  have l: "21 \<le> length (content nb)" using x(3) by (simp add: block_wire_def)
  have t: "ts_UserUUID (NewTrafficState ?u) = ?u" "is_initial (get_padding True (NewTrafficState ?u))"
    by (simp_all add: NewTrafficState_def get_padding_def is_initial_def)
  have a: "pad_args_ok ([] @ [(\<lambda>_. 0, ?b, 1, False)])" using r by (simp add: pad_args_ok_def)
  obtain nbs p' where w: "pad_series default_seed ([] @ [(\<lambda>_. 0, ?b, 1, False)]) (Some ?u) [] = Some (nbs, p')"
    "\<forall>b bs raw s. concat (map content (b # bs)) = concat (map content nbs) @ raw \<longrightarrow> (\<forall>x \<in> set (b # bs). plain_buffer x) \<longrightarrow>
       21 \<le> length (content b) \<longrightarrow> (\<forall>x \<in> set bs. unmarked ?u x) \<longrightarrow> ts_UserUUID s = ?u \<longrightarrow> is_initial (get_padding True s) \<longrightarrow>
       (\<exists>out s' q'. unpad_buffers True (map Some (b # bs)) s [] = Some (out, s', q')
          \<and> mcontent out = concat (map (\<lambda>(_, b, _, _). pcontent b) []) @ pcontent ?b @ raw
          \<and> get_padding True s' = \<lparr>pd_Command = - 1, pd_Content = - 1, pd_Padding = - 1, pd_Current = uint (1 :: byte)\<rparr>)"
    using vision_padding_roundtrip [OF default_seed_ok a _ _ _ r(4,4), where uuid = ?u and u = True] by (auto simp: CommandPaddingContinue_def)
  have nbs: "nbs = [nb]" using w(1) s by simp
  from w(2) [rule_format, of nb "[]" "[]" "NewTrafficState ?u"] obtain out s' q' where
    "unpad_buffers True (map Some [nb]) (NewTrafficState ?u) [] = Some (out, s', q')" "mcontent out = pcontent ?b"
    using nbs x(2) l t by auto
  then show ?thesis using s r(3) by (intro exI [of _ "[nb]"] exI [of _ p1] exI [of _ out] exI [of _ s'] exI [of _ q']) simp
qed

text \<open>
  The seed of the padding is not checked: with a seed whose base length is smaller than its threshold, a content between the two makes the
  padding length negative and \<open>XtlsPadding\<close> panics in \<open>Extend\<close>; a bound of zero panics in the random number generator.
\<close>

theorem padding_seed_panics:
  assumes "plain_buffer b" "pool_ok p" "0 \<le> rnd (uint s1)" "rnd (uint s1) < 2147483648 - sint s2"
    and "int (length (content b)) < sint s0" "0 \<le> sint s2" "s1 = 0 \<or> rnd (uint s1) + sint s2 < int (length (content b))"
  shows "XtlsPadding rnd [s0, s1, s2, s3] (Some b) c (Some u) True p = None"
proof (cases "s1 = 0")
  case True
  then show ?thesis using assms(1,5) by (simp add: XtlsPadding_def padding_len_def index_def buf_Len_content plain_buffer_def)
next
  case False
  define l where "l = rnd (uint s1) + sint s2 - int (length (content b))"
  have l: "l < 0" "- 2147483648 \<le> l" "length (content b) \<le> 8192" using False assms by (auto simp: l_def plain_buffer_def)
  have "i32 (i32 (rnd (uint s1)) + sint s2 - int (length (content b))) = l" using assms l by (simp add: l_def)
  moreover have "uint s1 \<noteq> 0" using False by (simp add: uint_0_iff)
  moreover have sz: "(if l > Size - 21 - int (length (content b)) then Size - 21 - int (length (content b)) else l) < 0"
    "- 2147483648 \<le> (if l > Size - 21 - int (length (content b)) then Size - 21 - int (length (content b)) else l)"
    using l by (auto simp: Size_def)
  ultimately obtain m where m: "padding_len rnd [s0, s1, s2, s3] (int (length (content b))) True = Some m" "m < 0" "- 2147483648 \<le> m"
    using assms(5) by (simp add: padding_len_def index_def)
  obtain nb p1 where n: "New p = (nb, p1)" "buf_inv nb" "b_len nb = 8192" "content nb = []" using New_ok [OF assms(2)] by blast
  have ext: "Extend x m = None" if "buf_inv x" for x
  proof -
    have "i32 (b_end x + m) < b_end x" using that m(2,3) by (simp add: buf_inv_def)
    then show ?thesis by (simp add: Extend_def Let_def)
  qed
  have "buf_inv (append_to x (take (room x) y))" if "buf_inv x" for x y using that by simp
  then show ?thesis
    using n m(1) assms(1) [unfolded plain_buffer_def] ext
    by (simp add: XtlsPadding_def Let_def buf_Len_content Write_content Bytes_content del: append_to_append_to append_to_Nil)
qed

theorem padding_seed_panics_witness:
  "XtlsPadding (\<lambda>_. 0) [900, 500, 0, 256] (Some (append_to (Buffer_of (replicate 8192 0)) [1, 2, 3])) 0 (Some []) True [] = None"
  by (rule padding_seed_panics) (simp_all add: plain_buffer_def pool_ok_def)

end
