(* ===== verification/Vision_IO.thy ===== *)
theory Vision_IO
  imports Vision_Padding
begin

text \<open>
  \<open>proxy/proxy.go\<close>, continued: how \<open>VisionWriter\<close> and \<open>VisionReader\<close> use the padding. The writer looks for complete TLS records
  (\<open>IsCompleteRecord\<close>), splits buffers that are too full for the padding header (\<open>ReshapeMultiBuffer\<close>) and decides from the inner TLS handshake
  (\<open>XtlsFilterTls\<close>) when the padding ends and whether both sides switch to the raw connection. Logging is left out. The raw connection under
  the TLS layer is a parameter of the handlers that switch to it.
\<close>

section \<open>Complete records\<close>

record recordCursor =
  rc_multiBuffer :: MultiBuffer
  rc_index :: nat
  rc_view :: "byte list"
  rc_offset :: nat

text \<open>\<open>more\<close>; the index never passes the number of buffers, and a nil buffer is dereferenced.\<close>

function rc_more :: "recordCursor \<Rightarrow> (bool \<times> recordCursor) option" where
  "rc_more c =
     (if rc_offset c \<ge> length (rc_view c) then
        (if rc_index c \<ge> length (rc_multiBuffer c) then Some (False, c)
         else Option.bind (rc_multiBuffer c ! rc_index c) (\<lambda>b. Option.bind (Bytes b) (\<lambda>v.
                rc_more (c\<lparr>rc_view := v, rc_index := rc_index c + 1, rc_offset := 0\<rparr>))))
      else Some (True, c))"
  by pat_completeness auto
termination by (relation "measure (\<lambda>c. length (rc_multiBuffer c) - rc_index c)") auto

declare rc_more.simps [simp del]

definition rc_next :: "recordCursor \<Rightarrow> (byte \<times> bool \<times> recordCursor) option" where
  "rc_next c =
     map_option (\<lambda>(ok, c1). if ok then (rc_view c1 ! rc_offset c1, True, c1\<lparr>rc_offset := rc_offset c1 + 1\<rparr>) else (0, False, c1)) (rc_more c)"

text \<open>\<open>readHeader\<close> for the \<open>n\<close> bytes that are left of the header.\<close>

fun rc_readHeader :: "nat \<Rightarrow> recordCursor \<Rightarrow> (byte list \<times> bool \<times> recordCursor) option" where
  "rc_readHeader 0 c = Some ([], True, c)"
| "rc_readHeader (Suc n) c =
     Option.bind (rc_next c) (\<lambda>(x, ok, c1).
       if ok then map_option (\<lambda>(xs, r). (x # xs, r)) (rc_readHeader n c1) else Some ([], False, c1))"

partial_function (option) rc_skip :: "recordCursor \<Rightarrow> int \<Rightarrow> (bool \<times> recordCursor) option" where
  "rc_skip c n =
     (if n > 0 then
        Option.bind (rc_more c) (\<lambda>x. case x of (ok, c1) \<Rightarrow>
          if \<not> ok then Some (False, c1)
          else let available = int (length (rc_view c1)) - int (rc_offset c1)
               in if available > n then Some (True, c1\<lparr>rc_offset := rc_offset c1 + nat n\<rparr>)
                  else rc_skip (c1\<lparr>rc_offset := rc_offset c1 + nat available\<rparr>) (n - available))
      else Some (True, c))"

partial_function (option) record_loop :: "recordCursor \<Rightarrow> bool option" where
  "record_loop c =
     Option.bind (rc_more c) (\<lambda>x. case x of (left, c1) \<Rightarrow>
       if \<not> left then Some True
       else Option.bind (rc_readHeader 5 c1) (\<lambda>y. case y of (h, ok, c2) \<Rightarrow>
         if \<not> ok then Some False
         else if h ! 0 \<noteq> 23 \<or> h ! 1 \<noteq> 3 \<or> h ! 2 \<noteq> 3 then Some False
         else let recordLen = be_int (h ! 3) (h ! 4)
              in if recordLen = 0 then Some False
                 else Option.bind (rc_skip c2 recordLen) (\<lambda>z. case z of (ok2, c3) \<Rightarrow>
                        if \<not> ok2 then Some False else record_loop c3)))"

definition IsCompleteRecord :: "MultiBuffer \<Rightarrow> bool option" where
  "IsCompleteRecord mb =
     (if None \<in> set mb then None
      else record_loop \<lparr>rc_multiBuffer = mb, rc_index = 0, rc_view = [], rc_offset = 0\<rparr>)"

section \<open>Reshaping\<close>

text \<open>\<open>bytes.LastIndex\<close> and \<open>bytes.Contains\<close>.\<close>

definition LastIndex :: "byte list \<Rightarrow> byte list \<Rightarrow> int" where
  "LastIndex xs s =
     (case rev (filter (\<lambda>i. take (length s) (drop i xs) = s) [0..<Suc (length xs)]) of [] \<Rightarrow> - 1 | i # _ \<Rightarrow> int i)"

definition bytes_Contains :: "byte list \<Rightarrow> byte list \<Rightarrow> bool" where
  "bytes_Contains xs s = (LastIndex xs s \<noteq> - 1)"

definition split_index :: "byte list \<Rightarrow> int" where
  "split_index d =
     (let index = i32 (LastIndex d TlsApplicationDataStart)
      in if index < 21 \<or> index > Size - 21 then Size div 2 else index)"

fun reshape_loop :: "MultiBuffer \<Rightarrow> pool \<Rightarrow> (MultiBuffer \<times> pool) option" where
  "reshape_loop [] p = Some ([], p)"
| "reshape_loop (None # mb) p = map_option (\<lambda>(out, p1). (None # out, p1)) (reshape_loop mb p)"
| "reshape_loop (Some b # mb) p =
     (if buf_Len b \<ge> Size - 21 then
        Option.bind (Bytes b) (\<lambda>d.
        case New p of (b2, p1) \<Rightarrow>
          Option.bind (BytesFrom b (split_index d)) (\<lambda>t.
          Option.bind (Write b2 t) (\<lambda>(_, b2').
          Option.bind (Resize b 0 (split_index d)) (\<lambda>b'.
            map_option (\<lambda>(out, p2). (Some b' # Some b2' # out, p2)) (reshape_loop mb p1)))))
      else map_option (\<lambda>(out, p1). (Some b # out, p1)) (reshape_loop mb p))"

definition ReshapeMultiBuffer :: "MultiBuffer \<Rightarrow> pool \<Rightarrow> (MultiBuffer \<times> pool) option" where
  "ReshapeMultiBuffer mb p = (if \<forall>b \<in> set mb. Len b < Size - 21 then Some (mb, p) else reshape_loop mb p)"

section \<open>The inner handshake\<close>

text \<open>\<open>XtlsFilterTls\<close> for one buffer: the recognition of the hello messages, then the search for the version; the flag ends the loop.\<close>

definition filter_hello :: "Buffer \<Rightarrow> TrafficState \<Rightarrow> TrafficState option" where
  "filter_hello b s =
     (if buf_Len b \<ge> 6 then
        Option.bind (BytesTo b 6) (\<lambda>st.
          if TlsServerHandShakeStart = take 3 st \<and> st ! 5 = 2 then
            (let s1 = s\<lparr>ts_RemainingServerHello := be_int (st ! 3) (st ! 4) + 5, ts_IsTLS12orAbove := True, ts_IsTLS := True\<rparr>
             in if buf_Len b \<ge> 79 \<and> ts_RemainingServerHello s1 \<ge> 79 then
                  Option.bind (Byte b 43) (\<lambda>sidLen.
                  Option.bind (BytesRange b (43 + uint sidLen + 1) (43 + uint sidLen + 3)) (\<lambda>cs.
                    Some (s1\<lparr>ts_Cipher := push_bit 8 (ucast (cs ! 0)) OR ucast (cs ! 1)\<rparr>)))
                else Some s1)
          else if TlsClientHandShakeStart = take 2 st \<and> st ! 5 = 1 then Some (s\<lparr>ts_IsTLS := True\<rparr>)
          else Some s)
      else Some s)"

definition filter_version :: "Buffer \<Rightarrow> TrafficState \<Rightarrow> (bool \<times> TrafficState) option" where
  "filter_version b s =
     (if ts_RemainingServerHello s > 0 then
        (let e = (if ts_RemainingServerHello s > buf_Len b then buf_Len b else ts_RemainingServerHello s);
             s1 = s\<lparr>ts_RemainingServerHello := i32 (ts_RemainingServerHello s - buf_Len b)\<rparr>
         in Option.bind (BytesTo b e) (\<lambda>d.
              if bytes_Contains d Tls13SupportedVersions then
                Some (True, (case Tls13CipherSuiteDic (ts_Cipher s1) of
                    None \<Rightarrow> s1
                  | Some v \<Rightarrow> if v \<noteq> str ''TLS_AES_128_CCM_8_SHA256'' then s1\<lparr>ts_EnableXtls := True\<rparr> else s1)
                  \<lparr>ts_NumberOfPacketToFilter := 0\<rparr>)
              else if ts_RemainingServerHello s1 \<le> 0 then Some (True, s1\<lparr>ts_NumberOfPacketToFilter := 0\<rparr>)
              else Some (False, s1)))
      else Some (False, s))"

fun XtlsFilterTls :: "MultiBuffer \<Rightarrow> TrafficState \<Rightarrow> TrafficState option" where
  "XtlsFilterTls [] s = Some s"
| "XtlsFilterTls (None # mb) s = XtlsFilterTls mb s"
| "XtlsFilterTls (Some b # mb) s =
     Option.bind (filter_hello b (s\<lparr>ts_NumberOfPacketToFilter := ts_NumberOfPacketToFilter s - 1\<rparr>)) (\<lambda>s1.
     Option.bind (filter_version b s1) (\<lambda>(stop, s2).
       if stop then Some s2 else XtlsFilterTls mb s2))"

section \<open>The writer\<close>

record 'w visionwriter =
  vw_Writer :: 'w
  vw_isUplink :: bool
  vw_uuid :: "byte list"
  vw_counter :: counter
  vw_seed :: "(32 word) list"

definition NewVisionWriter :: "'w \<Rightarrow> TrafficState \<Rightarrow> bool \<Rightarrow> (32 word) list \<Rightarrow> 'w visionwriter" where
  "NewVisionWriter w s isUplink seed =
     \<lparr>vw_Writer = w, vw_isUplink = isUplink, vw_uuid = ts_UserUUID s, vw_counter = None,
      vw_seed = (if length seed < 4 then [900, 500, 900, 256] else seed)\<rparr>"

text \<open>The two flags the writer reaches through pointers.\<close>

definition isPadding :: "bool \<Rightarrow> TrafficState \<Rightarrow> bool" where
  "isPadding isUplink s = (if isUplink then os_IsPadding (ts_Outbound s) else ib_IsPadding (ts_Inbound s))"

definition writerDirect :: "bool \<Rightarrow> TrafficState \<Rightarrow> bool" where
  "writerDirect isUplink s = (if isUplink then os_UplinkWriterDirectCopy (ts_Outbound s) else ib_DownlinkWriterDirectCopy (ts_Inbound s))"

definition put_writer_flags :: "bool \<Rightarrow> bool \<Rightarrow> bool \<Rightarrow> TrafficState \<Rightarrow> TrafficState" where
  "put_writer_flags isUplink pad direct s =
     (if isUplink then s\<lparr>ts_Outbound := (ts_Outbound s)\<lparr>os_IsPadding := pad, os_UplinkWriterDirectCopy := direct\<rparr>\<rparr>
      else s\<lparr>ts_Inbound := (ts_Inbound s)\<lparr>ib_IsPadding := pad, ib_DownlinkWriterDirectCopy := direct\<rparr>\<rparr>)"

text \<open>The variables of the padding loop that change.\<close>

record padloop =
  pl_uuid :: "byte list"
  pl_isPadding :: bool
  pl_direct :: bool
  pl_long :: bool
  pl_pool :: pool

definition starts_record :: "TrafficState \<Rightarrow> bool \<Rightarrow> Buffer option \<Rightarrow> bool option" where
  "starts_record s complete bo =
     (case bo of
        None \<Rightarrow> Some False
      | Some b \<Rightarrow> if ts_IsTLS s \<and> buf_Len b \<ge> 6
                  then map_option (\<lambda>d. TlsApplicationDataStart = d \<and> complete) (BytesTo b 3) else Some False)"

definition end_command :: "TrafficState \<Rightarrow> byte" where
  "end_command s = (if ts_EnableXtls s then CommandPaddingDirect else CommandPaddingEnd)"

text \<open>The loop over the buffers; \<open>rnd i\<close> is the random number generator in round \<open>i\<close>.\<close>

fun pad_loop :: "(nat \<Rightarrow> int \<Rightarrow> int) \<Rightarrow> (32 word) list \<Rightarrow> TrafficState \<Rightarrow> bool \<Rightarrow> nat \<Rightarrow> MultiBuffer \<Rightarrow> padloop \<Rightarrow> (MultiBuffer \<times> padloop) option" where
  "pad_loop rnd seed s complete i [] st = Some ([], st)"
| "pad_loop rnd seed s complete i (b # mb) st =
     Option.bind (starts_record s complete b) (\<lambda>app.
       if app then
         (let command = (if mb = [] then end_command s else CommandPaddingContinue)
          in Option.bind (XtlsPadding (rnd i) seed b command (Some (pl_uuid st)) True (pl_pool st)) (\<lambda>(nb, _, p1).
               map_option (\<lambda>(out, st'). (Some nb # out, st'))
                 (pad_loop rnd seed s complete (Suc i) mb
                   (st\<lparr>pl_uuid := [], pl_isPadding := False, pl_direct := pl_direct st \<or> ts_EnableXtls s, pl_long := False, pl_pool := p1\<rparr>))))
       else if \<not> ts_IsTLS12orAbove s \<and> ts_NumberOfPacketToFilter s \<le> 1 then
         map_option (\<lambda>(nb, _, p1). (Some nb # mb, st\<lparr>pl_uuid := [], pl_isPadding := False, pl_pool := p1\<rparr>))
           (XtlsPadding (rnd i) seed b CommandPaddingEnd (Some (pl_uuid st)) (pl_long st) (pl_pool st))
       else
         (let command = (if mb = [] \<and> \<not> pl_isPadding st then end_command s else CommandPaddingContinue)
          in Option.bind (XtlsPadding (rnd i) seed b command (Some (pl_uuid st)) (pl_long st) (pl_pool st)) (\<lambda>(nb, _, p1).
               map_option (\<lambda>(out, st'). (Some nb # out, st'))
                 (pad_loop rnd seed s complete (Suc i) mb (st\<lparr>pl_uuid := [], pl_pool := p1\<rparr>)))))"

text \<open>The branch for \<open>*isPadding\<close>; a single nil buffer asks for padding alone.\<close>

definition pad_write ::
  "(nat \<Rightarrow> int \<Rightarrow> int) \<Rightarrow> 'w visionwriter \<Rightarrow> MultiBuffer \<Rightarrow> TrafficState \<Rightarrow> pool \<Rightarrow> (MultiBuffer \<times> 'w visionwriter \<times> TrafficState \<times> pool) option" where
  "pad_write rnd w mb s p =
     (if mb = [None] then
        map_option (\<lambda>(nb, _, p1). ([Some nb], w\<lparr>vw_uuid := []\<rparr>, s, p1))
          (XtlsPadding (rnd 0) (vw_seed w) None CommandPaddingContinue (Some (vw_uuid w)) True p)
      else
        Option.bind (IsCompleteRecord mb) (\<lambda>complete.
        Option.bind (ReshapeMultiBuffer mb p) (\<lambda>(mb1, p1).
        map_option (\<lambda>(out, st). (out, w\<lparr>vw_uuid := pl_uuid st\<rparr>, put_writer_flags (vw_isUplink w) (pl_isPadding st) (pl_direct st) s, pl_pool st))
          (pad_loop rnd (vw_seed w) s complete 0 mb1
            \<lparr>pl_uuid = vw_uuid w, pl_isPadding = isPadding (vw_isUplink w) s, pl_direct = writerDirect (vw_isUplink w) s,
             pl_long = ts_IsTLS s, pl_pool = p1\<rparr>))))"

text \<open>
  \<open>VisionWriter.WriteMultiBuffer\<close>. \<open>raw\<close> is the writer of the unwrapped connection and \<open>rawCounter\<close> its counter; \<open>inb\<close> is \<open>CanSpliceCopy\<close> of
  the inbound in the context, if there is one.
\<close>

definition VW_WriteMultiBuffer ::
  "'w mb_write \<Rightarrow> 'w \<Rightarrow> counter \<Rightarrow> (nat \<Rightarrow> int \<Rightarrow> int) \<Rightarrow> 'w visionwriter \<Rightarrow> MultiBuffer \<Rightarrow> TrafficState \<Rightarrow> int option \<Rightarrow> pool
    \<Rightarrow> (goerr option \<times> 'w visionwriter \<times> TrafficState \<times> int option \<times> pool) option" where
  "VW_WriteMultiBuffer wmb raw rawCounter rnd w mb s inb p =
     (let up = vw_isUplink w;
          direct = writerDirect up s;
          splice = (direct \<and> \<not> up \<and> inb = Some 2);
          w1 = (if direct then w\<lparr>vw_Writer := raw, vw_counter := rawCounter\<rparr> else w);
          s1 = (if direct then put_writer_flags up (isPadding up s) False s else s);
          w2 = (if \<not> MB_IsEmpty mb then w1\<lparr>vw_counter := counter_Add (vw_counter w1) (MB_Len mb)\<rparr> else w1)
      in Option.bind (if ts_NumberOfPacketToFilter s1 > 0 then XtlsFilterTls mb s1 else Some s1) (\<lambda>s2.
         Option.bind (if isPadding up s2 then pad_write rnd w2 mb s2 p else Some (mb, w2, s2, p)) (\<lambda>(mb1, w3, s3, p1).
         map_option (\<lambda>(err, wr, p2). (err, w3\<lparr>vw_Writer := wr\<rparr>, s3, if err = None \<and> splice then Some 1 else inb, p2))
           (wmb (vw_Writer w3) mb1 p1))))"

section \<open>The reader\<close>

text \<open>\<open>bytes.Reader\<close> and \<open>bytes.Buffer\<close> as readers.\<close>

definition bytes_Read :: "(byte list) io_read" where
  "bytes_Read d n = Some (if d = [] then ([], Some EOF, []) else (take n d, None, drop n d))"

record 'r visionreader =
  vr_Reader :: 'r
  vr_isUplink :: bool
  vr_input :: "byte list option"
  vr_rawInput :: "byte list option"
  vr_counter :: counter

definition NewVisionReader :: "'r \<Rightarrow> bool \<Rightarrow> byte list option \<Rightarrow> byte list option \<Rightarrow> 'r visionreader" where
  "NewVisionReader r isUplink input rawInput =
     \<lparr>vr_Reader = r, vr_isUplink = isUplink, vr_input = input, vr_rawInput = rawInput, vr_counter = None\<rparr>"

definition withinPadding :: "bool \<Rightarrow> TrafficState \<Rightarrow> bool" where
  "withinPadding isUplink s = (if isUplink then ib_WithinPaddingBuffers (ts_Inbound s) else os_WithinPaddingBuffers (ts_Outbound s))"

definition readerDirect :: "bool \<Rightarrow> TrafficState \<Rightarrow> bool" where
  "readerDirect isUplink s = (if isUplink then ib_UplinkReaderDirectCopy (ts_Inbound s) else os_DownlinkReaderDirectCopy (ts_Outbound s))"

definition put_reader_flags :: "bool \<Rightarrow> bool \<Rightarrow> bool \<Rightarrow> TrafficState \<Rightarrow> TrafficState" where
  "put_reader_flags isUplink within direct s =
     (if isUplink then s\<lparr>ts_Inbound := (ts_Inbound s)\<lparr>ib_WithinPaddingBuffers := within, ib_UplinkReaderDirectCopy := direct\<rparr>\<rparr>
      else s\<lparr>ts_Outbound := (ts_Outbound s)\<lparr>os_WithinPaddingBuffers := within, os_DownlinkReaderDirectCopy := direct\<rparr>\<rparr>)"

text \<open>What the reader concludes from the state of the unpadding.\<close>

definition padding_state :: "bool \<Rightarrow> TrafficState \<Rightarrow> TrafficState" where
  "padding_state up s =
     (let pd = get_padding up s
      in if pd_Content pd > 0 \<or> pd_Padding pd > 0 \<or> pd_Current pd = 0 then put_reader_flags up True (readerDirect up s) s
         else if pd_Current pd = 1 then put_reader_flags up False (readerDirect up s) s
         else if pd_Current pd = 2 then put_reader_flags up False True s
         else s)"

text \<open>What is left in a buffer of the TLS connection, behind the bytes read so far.\<close>

definition merge_input :: "byte list option \<Rightarrow> MultiBuffer \<Rightarrow> pool \<Rightarrow> (MultiBuffer \<times> pool) option" where
  "merge_input input mb p =
     Option.bind input (\<lambda>d.
       map_option (\<lambda>(ib, err, p1, _). (if err = None \<and> \<not> MB_IsEmpty ib then fst (MergeMulti mb ib) else mb, p1)) (MB_ReadFrom bytes_Read p d))"

text \<open>
  \<open>VisionReader.ReadMultiBuffer\<close>. \<open>raw\<close> is the reader of the unwrapped connection and \<open>rawCounter\<close> its counter; \<open>conn\<close> says whether the context has
  an inbound with a connection, and \<open>ob\<close> is \<open>CanSpliceCopy\<close> of the outbound, if there is one.
\<close>

definition VR_ReadMultiBuffer ::
  "'r mb_read \<Rightarrow> 'r \<Rightarrow> counter \<Rightarrow> bool \<Rightarrow> 'r visionreader \<Rightarrow> TrafficState \<Rightarrow> int option \<Rightarrow> pool
    \<Rightarrow> (MultiBuffer \<times> goerr option \<times> 'r visionreader \<times> TrafficState \<times> int option \<times> pool) option" where
  "VR_ReadMultiBuffer rmb raw rawCounter conn r s ob p =
     Option.bind (rmb (vr_Reader r) p) (\<lambda>(mb, err, rd, p1).
       let up = vr_isUplink r;
           r1 = r\<lparr>vr_Reader := rd\<rparr>
       in if MB_IsEmpty mb then Some (mb, err, r1, s, ob, p1)
          else if readerDirect up s then Some (mb, err, r1\<lparr>vr_counter := counter_Add (vr_counter r1) (MB_Len mb)\<rparr>, s, ob, p1)
          else
            Option.bind (if withinPadding up s \<or> ts_NumberOfPacketToFilter s > 0
                         then map_option (\<lambda>(mb1, s1, p2). (mb1, padding_state up s1, p2)) (unpad_buffers up mb s p1)
                         else Some (mb, s, p1)) (\<lambda>(mb1, s1, p2).
            Option.bind (if ts_NumberOfPacketToFilter s1 > 0 then XtlsFilterTls mb1 s1 else Some s1) (\<lambda>s2.
              if readerDirect up s2 then
                Option.bind (merge_input (vr_input r1) mb1 p2) (\<lambda>(mb2, p3).
                Option.bind (merge_input (vr_rawInput r1) mb2 p3) (\<lambda>(mb3, p4).
                  Some (mb3, err, r1\<lparr>vr_Reader := raw, vr_input := None, vr_rawInput := None, vr_counter := rawCounter\<rparr>, s2,
                        if conn \<and> \<not> up \<and> ob = Some 2 then Some 1 else ob, p4)))
              else Some (mb1, err, r1, s2, ob, p2))))"

section \<open>Complete records, on the flat bytes\<close>

text \<open>The reference definition: the records of the bytes put together, as the code had it before it walked over the buffers.\<close>

function complete_records :: "byte list \<Rightarrow> bool" where
  "complete_records xs =
     (if xs = [] then True
      else if length xs < 5 then False
      else if xs ! 0 \<noteq> 23 \<or> xs ! 1 \<noteq> 3 \<or> xs ! 2 \<noteq> 3 then False
      else let n = nat (be_int (xs ! 3) (xs ! 4))
           in if n = 0 \<or> length xs < 5 + n then False else complete_records (drop (5 + n) xs))"
  by pat_completeness auto
termination by (relation "measure length") auto

declare complete_records.simps [simp del]

definition rc_left :: "recordCursor \<Rightarrow> byte list" where
  "rc_left c = drop (rc_offset c) (rc_view c) @ mcontent (drop (rc_index c) (rc_multiBuffer c))"

definition rc_ok :: "recordCursor \<Rightarrow> bool" where
  "rc_ok c \<longleftrightarrow> mb_inv (rc_multiBuffer c) \<and> None \<notin> set (rc_multiBuffer c)"

lemma rc_more_ok:
  assumes "rc_ok c"
  shows "\<exists>c'. rc_more c = Some (rc_left c \<noteq> [], c') \<and> rc_ok c' \<and> rc_left c' = rc_left c
    \<and> (rc_left c \<noteq> [] \<longrightarrow> rc_offset c' < length (rc_view c'))"
  using assms
proof (induction c rule: rc_more.induct)
  case (1 c)
  show ?case
  proof (cases "rc_offset c \<ge> length (rc_view c) \<and> rc_index c < length (rc_multiBuffer c)")
    case True
    let ?i = "rc_index c" and ?mb = "rc_multiBuffer c"
    obtain b where b: "?mb ! ?i = Some b" using 1(2) True by (metis not_None_eq nth_mem rc_ok_def)
    have m: "drop ?i ?mb = Some b # drop (Suc ?i) ?mb" using True b by (simp add: Cons_nth_drop_Suc [symmetric])
    have "buf_inv b" using 1(2) b True by (metis mb_inv_def nth_mem rc_ok_def)
    then have v: "Bytes b = Some (content b)" by (rule Bytes_content)
    let ?c = "c\<lparr>rc_view := content b, rc_index := ?i + 1, rc_offset := 0\<rparr>"
    have e: "rc_more c = rc_more ?c" using True b v by (subst rc_more.simps) simp
    have "rc_left ?c = rc_left c" "rc_ok ?c" using True m 1(2) by (simp_all add: rc_left_def rc_ok_def)
    then show ?thesis using e 1(1) [OF _ _ b v] True by auto
  next
    case False
    then show ?thesis using 1(2) by (subst rc_more.simps) (auto simp: rc_left_def)
  qed
qed

lemma rc_next_ok:
  assumes "rc_ok c"
  shows "\<exists>x c'. rc_next c = Some (x, rc_left c \<noteq> [], c') \<and> rc_ok c' \<and> (rc_left c \<noteq> [] \<longrightarrow> rc_left c = x # rc_left c')"
proof -
  obtain c1 where c: "rc_more c = Some (rc_left c \<noteq> [], c1)" "rc_ok c1" "rc_left c1 = rc_left c"
    "rc_left c \<noteq> [] \<longrightarrow> rc_offset c1 < length (rc_view c1)"
    using rc_more_ok [OF assms] by blast
  have "rc_left c1 = rc_view c1 ! rc_offset c1 # rc_left (c1\<lparr>rc_offset := rc_offset c1 + 1\<rparr>)" if "rc_left c \<noteq> []"
    using c(4) that by (simp add: rc_left_def Cons_nth_drop_Suc)
  then show ?thesis using c by (auto simp: rc_next_def rc_ok_def)
qed

lemma rc_readHeader_ok:
  assumes "rc_ok c"
  shows "\<exists>h c'. rc_readHeader n c = Some (h, n \<le> length (rc_left c), c') \<and> rc_ok c'
    \<and> (n \<le> length (rc_left c) \<longrightarrow> h = take n (rc_left c) \<and> rc_left c' = drop n (rc_left c))"
  using assms
proof (induction n arbitrary: c)
  case (Suc n)
  obtain x c1 where x: "rc_next c = Some (x, rc_left c \<noteq> [], c1)" "rc_ok c1" "rc_left c \<noteq> [] \<longrightarrow> rc_left c = x # rc_left c1"
    using rc_next_ok [OF Suc.prems] by blast
  then show ?case using Suc.IH [OF x(2)] by (cases "rc_left c = []") auto
qed simp

lemma rc_skip_ok:
  assumes "rc_ok c"
  shows "\<exists>c'. rc_skip c (int n) = Some (n \<le> length (rc_left c), c') \<and> rc_ok c' \<and> (n \<le> length (rc_left c) \<longrightarrow> rc_left c' = drop n (rc_left c))"
  using assms
proof (induction n arbitrary: c rule: less_induct)
  case (less n)
  show ?case
  proof (cases "n = 0")
    case True
    then show ?thesis using less.prems by (simp add: rc_skip.simps)
  next
    case False
    obtain c1 where c: "rc_more c = Some (rc_left c \<noteq> [], c1)" "rc_ok c1" "rc_left c1 = rc_left c"
      "rc_left c \<noteq> [] \<longrightarrow> rc_offset c1 < length (rc_view c1)"
      using rc_more_ok [OF less.prems] by blast
    show ?thesis
    proof (cases "rc_left c = []")
      case True
      then show ?thesis using c False by (subst rc_skip.simps) simp
    next
      case left: False
      then have "rc_offset c1 < length (rc_view c1)" using c(4) by simp
      then obtain a where a: "0 < a" "length (rc_view c1) = rc_offset c1 + a"
        by (intro that [of "length (rc_view c1) - rc_offset c1"]) simp_all
      have l: "rc_left c = drop (rc_offset c1) (rc_view c1) @ mcontent (drop (rc_index c1) (rc_multiBuffer c1))" using c(3) by (simp add: rc_left_def)
      have s: "rc_skip c (int n) = (if a > n then Some (True, c1\<lparr>rc_offset := rc_offset c1 + n\<rparr>)
          else rc_skip (c1\<lparr>rc_offset := rc_offset c1 + a\<rparr>) (int (n - a)))"
      proof -
        have m: "int (length (rc_view c1)) - int (rc_offset c1) = int a" using a(2) by simp
        have r: "rc_skip c (int n) = (if int a > int n then Some (True, c1\<lparr>rc_offset := rc_offset c1 + nat (int n)\<rparr>)
            else rc_skip (c1\<lparr>rc_offset := rc_offset c1 + nat (int a)\<rparr>) (int n - int a))"
          using left False by (subst rc_skip.simps) (simp add: c(1) m)
        show ?thesis
        proof (cases "a > n")
          case False
          then have "int n - int a = int (n - a)" by simp
          then show ?thesis using r False by simp
        qed (use r in simp)
      qed
      show ?thesis
      proof (cases "a > n")
        case True
        then show ?thesis using s l c(2) a(2) by (auto simp: rc_left_def rc_ok_def add.commute)
      next
        case more: False
        let ?c = "c1\<lparr>rc_offset := rc_offset c1 + a\<rparr>"
        have r: "rc_ok ?c" "rc_left ?c = drop a (rc_left c)" "a \<le> length (rc_left c)" "n - a < n"
          using c(2) l a False by (simp_all add: rc_ok_def rc_left_def)
        have t: "n - a \<le> length (rc_left ?c) \<longleftrightarrow> n \<le> length (rc_left c)" using r(2,3) more by auto
        obtain c' where "rc_skip ?c (int (n - a)) = Some (n \<le> length (rc_left c), c')" "rc_ok c'"
          "n \<le> length (rc_left c) \<longrightarrow> rc_left c' = drop (n - a) (rc_left ?c)"
          using less.IH [OF r(4,1)] unfolding t by blast
        then show ?thesis using s more r(2) by auto
      qed
    qed
  qed
qed

lemma record_loop_ok: "rc_ok c \<Longrightarrow> record_loop c = Some (complete_records (rc_left c))"
proof (induction "length (rc_left c)" arbitrary: c rule: less_induct)
  case less
  obtain c1 where c1: "rc_more c = Some (rc_left c \<noteq> [], c1)" "rc_ok c1" "rc_left c1 = rc_left c" using rc_more_ok [OF less.prems] by blast
  obtain h c2 where c2: "rc_readHeader 5 c1 = Some (h, 5 \<le> length (rc_left c), c2)" "rc_ok c2"
    "5 \<le> length (rc_left c) \<longrightarrow> h = take 5 (rc_left c) \<and> rc_left c2 = drop 5 (rc_left c)"
    using rc_readHeader_ok [OF c1(2), of 5] c1(3) by auto
  let ?xs = "rc_left c" and ?n = "nat (be_int (rc_left c ! 3) (rc_left c ! 4))"
  show ?case
  proof (cases "5 \<le> length ?xs \<and> ?xs ! 0 = 23 \<and> ?xs ! 1 = 3 \<and> ?xs ! 2 = 3 \<and> ?n \<noteq> 0")
    case False
    have "be_int (?xs ! 3) (?xs ! 4) \<ge> 0" by (simp add: be_int_eq)
    then show ?thesis using False c1(1) c2 by (subst record_loop.simps, subst complete_records.simps) auto
  next
    case True
    have b: "be_int (?xs ! 3) (?xs ! 4) = int ?n" "be_int (?xs ! 3) (?xs ! 4) \<noteq> 0" using True by (simp_all add: be_int_eq)
    obtain c3 where c3: "rc_skip c2 (int ?n) = Some (?n \<le> length (rc_left c2), c3)" "rc_ok c3"
      "?n \<le> length (rc_left c2) \<longrightarrow> rc_left c3 = drop ?n (rc_left c2)"
      using rc_skip_ok [OF c2(2)] by blast
    have d: "rc_left c2 = drop 5 ?xs" "h = take 5 ?xs" "?xs \<noteq> []" using True c2(3) by auto
    have L: "record_loop c = (if ?n \<le> length (drop 5 ?xs) then record_loop c3 else Some False)"
      using True c1(1) c2(1) d c3(1) b by (subst record_loop.simps) (simp add: Let_def)
    have R: "complete_records ?xs = (if length ?xs < 5 + ?n then False else complete_records (drop (5 + ?n) ?xs))"
      using True d(3) by (subst complete_records.simps) (simp add: Let_def)
    show ?thesis
    proof (cases "?n \<le> length (drop 5 ?xs)")
      case False
      then show ?thesis using L R by auto
    next
      case fits: True
      have "rc_left c3 = drop (5 + ?n) ?xs" using c3(3) d(1) fits by (simp add: add.commute)
      moreover have "\<not> length ?xs < 5 + ?n" "length (drop (5 + ?n) ?xs) < length ?xs" using fits True d(3) by auto
      ultimately show ?thesis using L R fits less.hyps [OF _ c3(2)] by simp
    qed
  qed
qed

section \<open>Reshaping keeps the bytes\<close>

definition plain_mb :: "MultiBuffer \<Rightarrow> bool" where
  "plain_mb mb \<longleftrightarrow> (\<forall>x \<in> set mb. \<exists>b. x = Some b \<and> plain_buffer b)"

definition padable :: "MultiBuffer \<Rightarrow> bool" where
  "padable mb \<longleftrightarrow> (\<forall>x \<in> set mb. \<exists>b. x = Some b \<and> buf_inv b \<and> length (content b) \<le> 8171)"

lemma padable_simps [simp]:
  "padable []" "padable (Some b # mb) \<longleftrightarrow> buf_inv b \<and> length (content b) \<le> 8171 \<and> padable mb"
  by (simp_all add: padable_def)

lemma padable_inv: "padable mb \<Longrightarrow> mb_inv mb \<and> None \<notin> set mb"
  by (auto simp: padable_def mb_inv_def)

lemma LastIndex_range: "- 1 \<le> LastIndex xs s" "LastIndex xs s \<le> int (length xs)"
proof -
  let ?f = "filter (\<lambda>i. take (length s) (drop i xs) = s) [0..<Suc (length xs)]"
  have "i \<le> length xs" if "rev ?f = i # r" for i r
  proof -
    have "i \<in> set (rev ?f)" unfolding that by simp
    then show ?thesis by (simp del: upt_Suc)
  qed
  then show "- 1 \<le> LastIndex xs s" "LastIndex xs s \<le> int (length xs)" by (auto simp: LastIndex_def split: list.split)
qed

lemma split_index_range:
  assumes "8171 \<le> length d" "length d \<le> 8192"
  obtains n where "split_index d = int n" "21 \<le> n" "n \<le> 8171" "n \<le> length d"
proof -
  let ?i = "LastIndex d TlsApplicationDataStart"
  have i: "i32 ?i = ?i" using LastIndex_range [where xs = d and s = TlsApplicationDataStart] assms by simp
  show ?thesis
  proof (cases "?i < 21 \<or> ?i > Size - 21")
    case True
    then show ?thesis using assms i by (intro that [of 4096]) (auto simp: split_index_def Size_def Let_def)
  next
    case False
    then show ?thesis using i LastIndex_range [of d TlsApplicationDataStart]
      by (intro that [of "nat ?i"]) (auto simp: split_index_def Size_def Let_def)
  qed
qed

lemma reshape_loop_ok:
  "plain_mb mb \<Longrightarrow> pool_ok p \<Longrightarrow> \<exists>out p'. reshape_loop mb p = Some (out, p') \<and> padable out \<and> pool_ok p' \<and> mcontent out = mcontent mb
    \<and> (mb \<noteq> [] \<longrightarrow> out \<noteq> [])"
proof (induction mb arbitrary: p)
  case (Cons x mb)
  obtain b where b: "x = Some b" "buf_inv b" "length (content b) \<le> 8192" "plain_mb mb"
    using Cons.prems(1) by (auto simp: plain_mb_def plain_buffer_def)
  show ?case
  proof (cases "buf_Len b \<ge> Size - 21")
    case False
    then show ?thesis using Cons.IH [OF b(4) Cons.prems(2)] b by (auto simp: buf_Len_content Size_def)
  next
    case True
    obtain b2 p1 where n: "New p = (b2, p1)" "buf_inv b2" "content b2 = []" "room b2 = 8192" "pool_ok p1" using New_ok [OF Cons.prems(2)] by blast
    have "8171 \<le> length (content b)" using True b(2) by (simp add: buf_Len_content Size_def)
    then obtain k where k: "split_index (content b) = int k" "21 \<le> k" "k \<le> 8171" "k \<le> length (content b)"
      by (rule split_index_range [OF _ b(3)])
    let ?t = "drop k (content b)"
    have t: "Bytes b = Some (content b)" "BytesFrom b (int k) = Some ?t" "Write b2 ?t = Some ((int (length ?t), None), append_to b2 ?t)"
      "Resize b 0 (int k) = Some (b\<lparr>b_end := b_start b + int k\<rparr>)"
      using b(2,3) k(4) n(2,4) by (simp_all add: Bytes_content BytesFrom_content Write_fits Resize_shrink)
    obtain out p' where r: "reshape_loop mb p1 = Some (out, p')" "padable out" "pool_ok p'" "mcontent out = mcontent mb"
      using Cons.IH [OF b(4) n(5)] by blast
    have "reshape_loop (x # mb) p = Some (Some (b\<lparr>b_end := b_start b + int k\<rparr>) # Some (append_to b2 ?t) # out, p')"
      using True b(1) t n(1) k(1) r(1) by simp
    then show ?thesis using r b k n t by auto
  qed
qed simp

lemma ReshapeMultiBuffer_ok:
  assumes "plain_mb mb" "pool_ok p"
  shows "\<exists>out p'. ReshapeMultiBuffer mb p = Some (out, p') \<and> padable out \<and> pool_ok p' \<and> mcontent out = mcontent mb
    \<and> (mb \<noteq> [] \<longrightarrow> out \<noteq> [])"
proof (cases "\<forall>b \<in> set mb. Len b < Size - 21")
  case True
  have "padable mb" using True assms(1) by (fastforce simp: plain_mb_def padable_def plain_buffer_def Len_content Size_def)
  then show ?thesis using True assms(2) by (simp add: ReshapeMultiBuffer_def)
qed (use reshape_loop_ok [OF assms] in \<open>auto simp: ReshapeMultiBuffer_def\<close>)

section \<open>The state of the handshake\<close>

text \<open>Xtls is only enabled inside a TLS 1.2 or later server hello.\<close>

definition tls_inv :: "TrafficState \<Rightarrow> bool" where
  "tls_inv s \<longleftrightarrow> (ts_EnableXtls s \<or> ts_RemainingServerHello s > 0 \<longrightarrow> ts_IsTLS12orAbove s \<and> ts_IsTLS s)"

lemma tls_inv_New [simp]: "tls_inv (NewTrafficState u)"
  by (simp add: tls_inv_def NewTrafficState_def)

lemma filter_hello_inv: "filter_hello b s = Some s' \<Longrightarrow> tls_inv s \<Longrightarrow> tls_inv s'"
  by (auto simp: filter_hello_def tls_inv_def Let_def bind_Some_iff split: if_splits)

lemma filter_version_inv: "filter_version b s = Some (x, s') \<Longrightarrow> tls_inv s \<Longrightarrow> tls_inv s'"
  by (auto simp: filter_version_def tls_inv_def Let_def bind_Some_iff split: if_splits option.splits)

lemma XtlsFilterTls_inv: "XtlsFilterTls mb s = Some s' \<Longrightarrow> tls_inv s \<Longrightarrow> tls_inv s'"
proof (induction mb s rule: XtlsFilterTls.induct)
  case (3 b mb s)
  let ?s = "s\<lparr>ts_NumberOfPacketToFilter := ts_NumberOfPacketToFilter s - 1\<rparr>"
  have i: "tls_inv ?s" using 3(3) by (simp add: tls_inv_def)
  obtain s1 stop s2 where f: "filter_hello b ?s = Some s1" "filter_version b s1 = Some (stop, s2)"
    "(if stop then Some s2 else XtlsFilterTls mb s2) = Some s'"
    using 3(2) by (auto simp: bind_Some_iff)
  have "tls_inv s2" using filter_version_inv [OF f(2) filter_hello_inv [OF f(1) i]] .
  then show ?case using f(3) 3(1) [OF f(1,2) refl] by (cases stop) auto
qed simp_all

section \<open>What the writer sends\<close>

text \<open>
  What the padding loop made of the buffers: blocks, then possibly raw bytes. \<open>ended\<close> says that the padding is over: then the last block has
  the closing command, and otherwise every block asks to go on and nothing is sent raw.
\<close>

definition blocks_of :: "byte list \<Rightarrow> byte list \<Rightarrow> bool \<Rightarrow> byte \<Rightarrow> byte list \<Rightarrow> block list \<Rightarrow> byte list \<Rightarrow> bool" where
  "blocks_of uuid d ended c wire ks raw \<longleftrightarrow> wire = uuid @ concat (map block_wire ks) @ raw \<and> d = concat (map block_data ks) @ raw
     \<and> (\<forall>k \<in> set ks. block_ok k)
     \<and> (if ended then ks \<noteq> [] \<and> fst (last ks) = c \<and> (\<forall>k \<in> set (butlast ks). fst k = CommandPaddingContinue)
        else raw = [] \<and> (\<forall>k \<in> set ks. fst k = CommandPaddingContinue))"

lemma blocks_of_last:
  assumes "block_ok (c, d, pad)"
  shows "blocks_of u (d @ raw) True c (u @ block_wire (c, d, pad) @ raw) [(c, d, pad)] raw"
  using assms by (simp add: blocks_of_def)

lemma blocks_of_only:
  assumes "block_ok (CommandPaddingContinue, d, pad)"
  shows "blocks_of u d False c (u @ block_wire (CommandPaddingContinue, d, pad)) [(CommandPaddingContinue, d, pad)] []"
  using assms by (simp add: blocks_of_def)

lemma blocks_of_Cons:
  assumes "blocks_of [] d ended c wire ks raw" "block_ok (CommandPaddingContinue, x, pad)"
  shows "blocks_of u (x @ d) ended c (u @ block_wire (CommandPaddingContinue, x, pad) @ wire) ((CommandPaddingContinue, x, pad) # ks) raw"
  using assms by (auto simp: blocks_of_def)

lemma starts_record_total: "buf_inv b \<Longrightarrow> \<exists>a. starts_record s complete (Some b) = Some a"
  using BytesTo_content [of b 3] by (auto simp: starts_record_def buf_Len_content)

lemma pad_loop_ok:
  assumes "padable mb" "mb \<noteq> []" "seed_ok seed" "\<forall>i. rnd_ok (rnd i)" "length (pl_uuid st) \<le> 16" "pool_ok (pl_pool st)" "tls_inv s"
    and "\<not> pl_isPadding st \<and> ts_EnableXtls s \<longrightarrow> pl_direct st"
  shows "\<exists>out st' ks raw. pad_loop rnd seed s complete i mb st = Some (out, st') \<and> mb_inv out \<and> None \<notin> set out \<and> pool_ok (pl_pool st') \<and> pl_uuid st' = []
    \<and> blocks_of (pl_uuid st) (mcontent mb) (\<not> pl_isPadding st') (end_command s) (mcontent out) ks raw
    \<and> pl_direct st' = (pl_direct st \<or> \<not> pl_isPadding st' \<and> ts_EnableXtls s) \<and> (pl_isPadding st' \<longrightarrow> pl_isPadding st)"
  using assms
proof (induction mb arbitrary: i st)
  case (Cons x mb)
  obtain b where b: "x = Some b" "buf_inv b" "length (content b) \<le> 8171" "padable mb" using Cons.prems(1) by (auto simp: padable_def)
  obtain app where app: "starts_record s complete (Some b) = Some app" using starts_record_total [OF b(2)] by blast
  have pad: "\<exists>nb n p'. XtlsPadding (rnd i) seed (Some b) c (Some (pl_uuid st)) long (pl_pool st) = Some (nb, Some [], p') \<and> buf_inv nb \<and> pool_ok p'
      \<and> content nb = pl_uuid st @ block_wire (c, content b, replicate n 0) \<and> block_ok (c, content b, replicate n 0)" for c long
  proof -
    have "mb_inv [Some b]" "length (pcontent (Some b)) \<le> 8171" "rnd_ok (rnd i)" using b Cons.prems(4) by simp_all
    then obtain nb n p' where "XtlsPadding (rnd i) seed (Some b) c (Some (pl_uuid st)) long (pl_pool st) = Some (nb, Some [], p')" "plain_buffer nb"
      "pool_ok p'" "content nb = pl_uuid st @ block_wire (c, pcontent (Some b), replicate n 0)" "n \<le> 8171"
      using XtlsPadding_ok [OF Cons.prems(3) _ _ _ Cons.prems(5,6)] by metis
    then show ?thesis using b(3) by (auto simp: plain_buffer_def block_ok_def)
  qed
  define c where "c = (if app then (if mb = [] then end_command s else CommandPaddingContinue)
    else if \<not> ts_IsTLS12orAbove s \<and> ts_NumberOfPacketToFilter s \<le> 1 then CommandPaddingEnd
    else if mb = [] \<and> \<not> pl_isPadding st then end_command s else CommandPaddingContinue)"
  define long where "long = (if app then True else pl_long st)"
  obtain nb n p' where x: "XtlsPadding (rnd i) seed (Some b) c (Some (pl_uuid st)) long (pl_pool st) = Some (nb, Some [], p')" "buf_inv nb" "pool_ok p'"
    "content nb = pl_uuid st @ block_wire (c, content b, replicate n 0)" "block_ok (c, content b, replicate n 0)"
    using pad [of c long] by blast
  show ?case
  proof (cases "\<not> app \<and> \<not> ts_IsTLS12orAbove s \<and> ts_NumberOfPacketToFilter s \<le> 1")
    case True
    then have e: "\<not> ts_EnableXtls s" "c = CommandPaddingEnd" "end_command s = CommandPaddingEnd" "long = pl_long st"
      using Cons.prems(7) by (auto simp: tls_inv_def c_def end_command_def long_def)
    have "pad_loop rnd seed s complete i (x # mb) st = Some (Some nb # mb, st\<lparr>pl_uuid := [], pl_isPadding := False, pl_pool := p'\<rparr>)"
      using True app x(1) e b(1) by simp
    then show ?thesis
      using x(2-5) e padable_inv [OF b(4)] b(1) blocks_of_last [OF x(5), of "pl_uuid st" "mcontent mb"]
      by (intro exI [of _ "Some nb # mb"] exI [of _ "st\<lparr>pl_uuid := [], pl_isPadding := False, pl_pool := p'\<rparr>"]
          exI [of _ "[(c, content b, replicate n 0)]"] exI [of _ "mcontent mb"]) auto
  next
    case go: False
    define st1 where "st1 = (if app then st\<lparr>pl_uuid := [], pl_isPadding := False, pl_direct := pl_direct st \<or> ts_EnableXtls s, pl_long := False, pl_pool := p'\<rparr>
      else st\<lparr>pl_uuid := [], pl_pool := p'\<rparr>)"
    have st1: "pl_uuid st1 = []" "pl_pool st1 = p'" "pl_isPadding st1 = (pl_isPadding st \<and> \<not> app)" "pl_direct st1 = (pl_direct st \<or> app \<and> ts_EnableXtls s)"
      by (auto simp: st1_def)
    have L: "pad_loop rnd seed s complete i (x # mb) st
        = map_option (\<lambda>(out, st'). (Some nb # out, st')) (pad_loop rnd seed s complete (Suc i) mb st1)"
      using go app x(1) b(1) by (auto simp: c_def long_def st1_def)
    show ?thesis
    proof (cases "mb = []")
      case True
      then have "pad_loop rnd seed s complete i (x # mb) st = Some ([Some nb], st1)" using L by simp
      moreover have "c = (if pl_isPadding st1 then CommandPaddingContinue else end_command s)" using True go st1(3) by (auto simp: c_def)
      then have "blocks_of (pl_uuid st) (mcontent (x # mb)) (\<not> pl_isPadding st1) (end_command s) (content nb) [(c, content b, replicate n 0)] []"
        using x(4,5) b(1) True blocks_of_only [of "content b" "replicate n 0"] blocks_of_last [of c "content b" "replicate n 0" "pl_uuid st" "[]"]
        by auto
      ultimately show ?thesis using x(2,3) st1 Cons.prems(8)
        by (intro exI [of _ "[Some nb]"] exI [of _ st1] exI [of _ "[(c, content b, replicate n 0)]"] exI [of _ "[]"]) auto
    next
      case False
      have c: "c = CommandPaddingContinue" using False go by (auto simp: c_def)
      have "length (pl_uuid st1) \<le> 16" "pool_ok (pl_pool st1)" "\<not> pl_isPadding st1 \<and> ts_EnableXtls s \<longrightarrow> pl_direct st1"
        using st1 x(3) Cons.prems(8) by auto
      from Cons.IH [OF b(4) False Cons.prems(3,4) this(1,2) Cons.prems(7) this(3), of "Suc i"]
      obtain out st' ks raw where r: "pad_loop rnd seed s complete (Suc i) mb st1 = Some (out, st')" "mb_inv out" "None \<notin> set out" "pool_ok (pl_pool st')"
        "pl_uuid st' = []" "blocks_of [] (mcontent mb) (\<not> pl_isPadding st') (end_command s) (mcontent out) ks raw"
        "pl_direct st' = (pl_direct st1 \<or> \<not> pl_isPadding st' \<and> ts_EnableXtls s)" "pl_isPadding st' \<longrightarrow> pl_isPadding st1"
        using st1(1) by auto
      have "blocks_of (pl_uuid st) (mcontent (x # mb)) (\<not> pl_isPadding st') (end_command s) (content nb @ mcontent out) ((c, content b, replicate n 0) # ks) raw"
        using blocks_of_Cons [OF r(6), of "content b" "replicate n 0" "pl_uuid st"] x(4,5) c b(1) by simp
      moreover have "pl_direct st' = (pl_direct st \<or> \<not> pl_isPadding st' \<and> ts_EnableXtls s)" "pl_isPadding st' \<longrightarrow> pl_isPadding st"
        using r(7,8) st1 by auto
      ultimately show ?thesis using L r x(2)
        by (intro exI [of _ "Some nb # out"] exI [of _ st'] exI [of _ "(c, content b, replicate n 0) # ks"] exI [of _ raw]) simp
    qed
  qed
qed simp

lemma get_put_writer [simp]:
  "isPadding u (put_writer_flags u a b s) = a" "writerDirect u (put_writer_flags u a b s) = b" "ts_EnableXtls (put_writer_flags u a b s) = ts_EnableXtls s"
  by (simp_all add: isPadding_def writerDirect_def put_writer_flags_def)

lemma IsCompleteRecord_flat: "mb_inv mb \<Longrightarrow> None \<notin> set mb \<Longrightarrow> IsCompleteRecord mb = Some (complete_records (mcontent mb))"
  using record_loop_ok [of "\<lparr>rc_multiBuffer = mb, rc_index = 0, rc_view = [], rc_offset = 0\<rparr>"]
  by (simp add: IsCompleteRecord_def rc_ok_def rc_left_def)

lemma plain_mb_inv: "plain_mb mb \<Longrightarrow> mb_inv mb \<and> None \<notin> set mb"
  by (auto simp: plain_mb_def plain_buffer_def mb_inv_def)

lemma pad_write_ok:
  assumes "plain_mb mb" "mb \<noteq> []" "isPadding (vw_isUplink w) s" "\<not> writerDirect (vw_isUplink w) s" "tls_inv s" "seed_ok (vw_seed w)"
    and "\<forall>i. rnd_ok (rnd i)" "length (vw_uuid w) \<le> 16" "pool_ok p"
  obtains out w' s' p' ks raw where "pad_write rnd w mb s p = Some (out, w', s', p')" "vw_uuid w' = []" "mb_inv out" "None \<notin> set out" "pool_ok p'"
    "blocks_of (vw_uuid w) (mcontent mb) (\<not> isPadding (vw_isUplink w) s') (end_command s) (mcontent out) ks raw"
    "writerDirect (vw_isUplink w) s' = (\<not> isPadding (vw_isUplink w) s' \<and> ts_EnableXtls s)"
proof -
  obtain complete where c: "IsCompleteRecord mb = Some complete" using IsCompleteRecord_flat plain_mb_inv [OF assms(1)] by blast
  obtain mb1 p1 where r: "ReshapeMultiBuffer mb p = Some (mb1, p1)" "padable mb1" "pool_ok p1" "mcontent mb1 = mcontent mb" "mb \<noteq> [] \<longrightarrow> mb1 \<noteq> []"
    using ReshapeMultiBuffer_ok [OF assms(1,9)] by blast
  have n: "mb1 \<noteq> []" "mb \<noteq> [None]" using r(5) assms(1,2) by (auto simp: plain_mb_def)
  let ?st = "\<lparr>pl_uuid = vw_uuid w, pl_isPadding = isPadding (vw_isUplink w) s, pl_direct = writerDirect (vw_isUplink w) s,
      pl_long = ts_IsTLS s, pl_pool = p1\<rparr>"
  have "length (pl_uuid ?st) \<le> 16" "pool_ok (pl_pool ?st)" "\<not> pl_isPadding ?st \<and> ts_EnableXtls s \<longrightarrow> pl_direct ?st" using assms(3,8) r(3) by simp_all
  from pad_loop_ok [OF r(2) n(1) assms(6,7) this(1,2) assms(5) this(3), of complete 0]
  obtain out st' ks raw where l: "pad_loop rnd (vw_seed w) s complete 0 mb1 ?st = Some (out, st')" "mb_inv out" "None \<notin> set out" "pool_ok (pl_pool st')"
    "pl_uuid st' = []" "blocks_of (vw_uuid w) (mcontent mb1) (\<not> pl_isPadding st') (end_command s) (mcontent out) ks raw"
    "pl_direct st' = (writerDirect (vw_isUplink w) s \<or> \<not> pl_isPadding st' \<and> ts_EnableXtls s)" by auto
  show ?thesis
    by (rule that [of out "w\<lparr>vw_uuid := pl_uuid st'\<rparr>" "put_writer_flags (vw_isUplink w) (pl_isPadding st') (pl_direct st') s" "pl_pool st'" ks raw])
      (use c r n(2) l assms(4) in \<open>simp_all add: pad_write_def\<close>)
qed

section \<open>What the reader gets\<close>

lemma get_put_reader [simp]: "withinPadding u (put_reader_flags u a b s) = a" "readerDirect u (put_reader_flags u a b s) = b"
  by (simp_all add: withinPadding_def readerDirect_def put_reader_flags_def)

lemma readerDirect_put_padding [simp]: "readerDirect u (put_padding u pd s) = readerDirect u s"
  by (simp add: readerDirect_def put_padding_def)

lemma XtlsUnpadding_direct: "XtlsUnpadding u b s p = Some (nb, s', p') \<Longrightarrow> readerDirect u s' = readerDirect u s"
  by (auto simp: XtlsUnpadding_def unpad_body_def Let_def bind_Some_iff split: if_splits option.splits prod.splits)

lemma unpad_buffers_direct: "unpad_buffers u mb s p = Some (out, s', p') \<Longrightarrow> readerDirect u s' = readerDirect u s"
proof (induction mb arbitrary: s p out)
  case (Cons b mb)
  obtain nb s1 p1 where x: "XtlsUnpadding u b s p = Some (nb, s1, p1)" using Cons.prems by (auto simp: bind_Some_iff)
  then show ?case using Cons.prems Cons.IH XtlsUnpadding_direct [OF x] by (auto split: if_splits)
qed simp

interpretation bytes_rd: io_reader bytes_Read "\<lambda>_. True" "\<lambda>d. d" "\<lambda>_. EOF" "\<lambda>_. 0"
  by unfold_locales (auto simp: bytes_Read_def)

lemma merge_input_ok:
  assumes "pool_ok p" "mb_inv mb"
  shows "\<exists>mb' p'. merge_input (Some d) mb p = Some (mb', p') \<and> mcontent mb' = mcontent mb @ d \<and> mb_inv mb' \<and> pool_ok p'"
proof -
  obtain ib p1 r where "MB_ReadFrom bytes_Read p d = Some (ib, None, p1, r)" "mcontent ib = d" "mb_inv ib" "pool_ok p1"
    using bytes_rd.MB_ReadFrom_loop_all [OF TrueI _ assms(1), of "[]" d] by (auto simp: MB_ReadFrom_def)
  then show ?thesis using assms(2) by (auto simp: merge_input_def MergeMulti_def)
qed

section \<open>Properties\<close>


definition demo_vision :: "byte list \<Rightarrow> TrafficState" where
  "demo_vision u = (NewTrafficState u)\<lparr>ts_NumberOfPacketToFilter := 1\<rparr>"


text \<open>
  Walking over the buffers gives the same answer as looking at the bytes in one piece: \<open>IsCompleteRecord\<close> ends for every list of buffers, says whether
  the bytes are a sequence of complete, non-empty TLS application data records, wherever the buffers cut them, and panics for a nil buffer.
\<close>

theorem complete_record_flat:
  "mb_inv mb \<Longrightarrow> IsCompleteRecord mb = (if None \<in> set mb then None else Some (complete_records (mcontent mb)))"
  using IsCompleteRecord_flat [of mb] by (auto simp: IsCompleteRecord_def)

theorem complete_record_flat_witness:
  "IsCompleteRecord [Some (append_to (Buffer_of (replicate 8192 0)) [23, 3]), Some (append_to (Buffer_of (replicate 8192 0)) [3, 0, 1, 42])] = Some True"
proof -
  have "complete_records [23, 3, 3, 0, 1, 42]"
    by (subst complete_records.simps) (simp add: be_int_eq complete_records.simps [of "[]"])
  then show ?thesis
    using complete_record_flat [of "[Some (append_to (Buffer_of (replicate 8192 0)) [23, 3]), Some (append_to (Buffer_of (replicate 8192 0)) [3, 0, 1, 42])]"]
    by simp
qed

lemma padding_state_N [simp]: "ts_NumberOfPacketToFilter (padding_state u s) = ts_NumberOfPacketToFilter s"
  by (simp add: padding_state_def put_reader_flags_def Let_def)

lemma put_padding_N [simp]: "ts_NumberOfPacketToFilter (put_padding u pd s) = ts_NumberOfPacketToFilter s"
  by (simp add: put_padding_def)

lemma XtlsUnpadding_N: "XtlsUnpadding u b s p = Some (nb, s', p') \<Longrightarrow> ts_NumberOfPacketToFilter s' = ts_NumberOfPacketToFilter s"
  by (auto simp: XtlsUnpadding_def unpad_body_def Let_def bind_Some_iff split: if_splits option.splits prod.splits)

lemma unpad_buffers_N: "unpad_buffers u mb s p = Some (out, s', p') \<Longrightarrow> ts_NumberOfPacketToFilter s' = ts_NumberOfPacketToFilter s"
proof (induction mb arbitrary: s p out)
  case (Cons b mb)
  obtain nb s1 p1 where x: "XtlsUnpadding u b s p = Some (nb, s1, p1)" using Cons.prems by (auto simp: bind_Some_iff)
  then show ?case using Cons.prems Cons.IH XtlsUnpadding_N [OF x] by (auto split: if_splits)
qed simp

text \<open>One call of the reader inside the padding, after the handshake was recognised.\<close>

lemma reader_unpads:
  assumes "rmb (vr_Reader r) p = Some (map Some bs, err, rd, p1)" "\<forall>b \<in> set bs. plain_buffer b" "\<forall>b \<in> set (tl bs). unmarked (ts_UserUUID s) b"
    "concat (map content bs) \<noteq> []" "pool_ok p1" "withinPadding up s" "\<not> readerDirect up s" "ts_NumberOfPacketToFilter s \<le> 0" "up = vr_isUplink r"
    "\<not> block_done (get_padding up s)" "vr_input r = Some i1" "vr_rawInput r = Some i2" "unpad_bytes (get_padding up s) (concat (map content bs)) = (pd, d)"
  shows "\<exists>mb r' s' ob' p'. VR_ReadMultiBuffer rmb raw rawCounter conn r s ob p = Some (mb, err, r', s', ob', p') \<and> get_padding up s' = pd
    \<and> (if \<not> (pd_Content pd > 0 \<or> pd_Padding pd > 0) \<and> pd_Current pd = 2
       then mcontent mb = d @ i1 @ i2 \<and> vr_Reader r' = raw \<and> readerDirect up s'
       else mcontent mb = d \<and> vr_Reader r' = rd \<and> \<not> readerDirect up s')"
proof -
  obtain mb s1 p2 where u: "unpad_buffers up (map Some bs) s p1 = Some (mb, s1, p2)" "mb_inv mb" "pool_ok p2" "mcontent mb = d" "get_padding up s1 = pd"
    using unpad_buffers_running [OF assms(2,3,10,5)] assms(13) by auto
  have n: "ts_NumberOfPacketToFilter (padding_state up s1) \<le> 0" "\<not> readerDirect up s1"
    using unpad_buffers_N [OF u(1)] unpad_buffers_direct [OF u(1)] assms(7,8) by simp_all
  have e: "\<not> MB_IsEmpty (map Some bs)"
  proof -
    have "mb_inv (map Some bs)" using assms(2) by (auto simp: mb_inv_def plain_buffer_def)
    moreover have "mcontent (map Some bs) = concat (map content bs)" by (simp add: mcontent_def o_def)
    ultimately show ?thesis using assms(4) by simp
  qed
  have g: "get_padding up (padding_state up s1) = pd"
    using u(5) by (auto simp: padding_state_def put_reader_flags_def get_padding_def Let_def)
  let ?sw = "\<not> (pd_Content pd > 0 \<or> pd_Padding pd > 0) \<and> pd_Current pd = 2"
  have d: "readerDirect up (padding_state up s1) = ?sw" using n(2) u(5) by (auto simp: padding_state_def Let_def)
  obtain mb2 p3 where m2: "merge_input (Some i1) mb p2 = Some (mb2, p3)" "mcontent mb2 = d @ i1" "mb_inv mb2" "pool_ok p3"
    using merge_input_ok [OF u(3,2), of i1] u(4) by auto
  obtain mb3 p4 where m3: "merge_input (Some i2) mb2 p3 = Some (mb3, p4)" "mcontent mb3 = d @ i1 @ i2"
    using merge_input_ok [OF m2(4,3), of i2] m2(2) by auto
  have up: "vr_isUplink r = up" using assms(9) by simp
  have body: "VR_ReadMultiBuffer rmb raw rawCounter conn r s ob p =
      (if ?sw then Some (mb3, err, r\<lparr>vr_Reader := raw, vr_input := None, vr_rawInput := None, vr_counter := rawCounter\<rparr>, padding_state up s1,
              if conn \<and> \<not> up \<and> ob = Some 2 then Some 1 else ob, p4)
       else Some (mb, err, r\<lparr>vr_Reader := rd\<rparr>, padding_state up s1, ob, p2))"
    using assms(1,6,7,11,12) e u(1) n(1) d m2(1) m3(1) by (simp add: VR_ReadMultiBuffer_def up Let_def)
  show ?thesis
  proof (cases ?sw)
    case True
    then show ?thesis using body m3(2) g d by simp
  next
    case False
    then have "VR_ReadMultiBuffer rmb raw rawCounter conn r s ob p = Some (mb, err, r\<lparr>vr_Reader := rd\<rparr>, padding_state up s1, ob, p2)" using body by argo
    then show ?thesis using u(4) g d False by (intro exI [of _ mb] exI [of _ "r\<lparr>vr_Reader := rd\<rparr>"] exI [of _ "padding_state up s1"]) auto
  qed
qed

text \<open>
  C14. The switch to the raw connection loses and reorders nothing: when the last block with the command to go on directly is complete, the reader
  delivers the rest of that buffer, then what the TLS layer had already read ahead, decrypted and raw, and only then reads from the raw connection. As
  long as padding goes on it delivers the content of the blocks and stays on the TLS connection.
\<close>

theorem vision_reader_switch_order:
  assumes "rmb (vr_Reader r) p = Some (map Some bs, err, rd, p1)" "\<forall>b \<in> set bs. plain_buffer b" "\<forall>b \<in> set (tl bs). unmarked (ts_UserUUID s) b"
    "concat (map content bs) = concat (map block_wire ks) @ rest" "concat (map content bs) \<noteq> []" "\<forall>k \<in> set ks. block_ok k \<and> fst k = CommandPaddingContinue"
    "rest = [] \<or> rest = block_wire (CommandPaddingDirect, x, pad) @ raw_bytes" "block_ok (CommandPaddingDirect, x, pad)"
    "get_padding up s = \<lparr>pd_Command = 5, pd_Content = 0, pd_Padding = 0, pd_Current = 0\<rparr>"
    and "pool_ok p1" "withinPadding up s" "\<not> readerDirect up s" "ts_NumberOfPacketToFilter s \<le> 0" "up = vr_isUplink r" "vr_input r = Some i1" "vr_rawInput r = Some i2"
  shows "\<exists>mb r' s' ob' p'. VR_ReadMultiBuffer rmb raw rawCounter conn r s ob p = Some (mb, err, r', s', ob', p')
    \<and> (if rest = [] then mcontent mb = concat (map block_data ks) \<and> vr_Reader r' = rd \<and> \<not> readerDirect up s'
       else mcontent mb = concat (map block_data ks) @ x @ raw_bytes @ i1 @ i2 \<and> vr_Reader r' = raw \<and> readerDirect up s')"
proof -
  let ?pd = "get_padding up s"
  have nd: "\<not> block_done ?pd" using assms(9) by (simp add: block_done_def)
  obtain pd' where pd: "pd_Command pd' = 5" "pd_Current pd' = 0"
    "\<forall>ys. unpad_bytes ?pd (concat (map block_wire ks) @ ys) = apsnd ((@) (concat (map block_data ks))) (unpad_bytes pd' ys)"
    using unpad_blocks [of ?pd ks] assms(6,9) by (auto simp: CommandPaddingContinue_def)
  have r: "unpad_bytes ?pd (concat (map content bs)) = apsnd ((@) (concat (map block_data ks))) (unpad_bytes pd' rest)" using pd(3) assms(4) by simp
  obtain q d where q: "unpad_bytes ?pd (concat (map content bs)) = (q, d)" by fastforce
  note V = reader_unpads [where rmb = rmb and r = r and p = p and raw = raw and rawCounter = rawCounter and conn = conn and ob = ob, OF assms(1-3,5,10-14) nd assms(15,16) q]
  show ?thesis
  proof (cases "rest = []")
    case True
    then have "q = pd'" "d = concat (map block_data ks)" using r q by simp_all
    then show ?thesis using V pd(2) True by auto
  next
    case False
    then have "unpad_bytes pd' rest = (\<lparr>pd_Command = - 1, pd_Content = - 1, pd_Padding = - 1, pd_Current = 2\<rparr>, x @ raw_bytes)"
      using assms(7) unpad_last [OF pd(1) assms(8), of raw_bytes] by (simp add: CommandPaddingDirect_def)
    then have "q = \<lparr>pd_Command = - 1, pd_Content = - 1, pd_Padding = - 1, pd_Current = 2\<rparr>" "d = concat (map block_data ks) @ x @ raw_bytes"
      using r q by simp_all
    then show ?thesis using V False by auto
  qed
qed

text \<open>
  The reader does not look at how much of a block header is missing: if a buffer ends right after the command byte of the last block, it switches to
  the raw connection although four bytes of the header and the whole content of the block are still to come, so these arrive as data.
\<close>

theorem vision_reader_switches_early:
  assumes "rmb (vr_Reader r) p = Some ([Some b], err, rd, p1)" "plain_buffer b" "content b = [CommandPaddingDirect]"
    "get_padding up s = \<lparr>pd_Command = 5, pd_Content = 0, pd_Padding = 0, pd_Current = 0\<rparr>"
    and "pool_ok p1" "withinPadding up s" "\<not> readerDirect up s" "ts_NumberOfPacketToFilter s \<le> 0" "up = vr_isUplink r" "vr_input r = Some []" "vr_rawInput r = Some []"
  shows "\<exists>mb r' s' ob' p'. VR_ReadMultiBuffer rmb raw rawCounter conn r s ob p = Some (mb, err, r', s', ob', p') \<and> mcontent mb = []
    \<and> vr_Reader r' = raw \<and> readerDirect up s' \<and> pd_Command (get_padding up s') = 4"
proof -
  let ?q = "\<lparr>pd_Command = 4, pd_Content = 0, pd_Padding = 0, pd_Current = 2\<rparr>"
  have u: "unpad_bytes (get_padding up s) (concat (map content [b])) = (?q, [])" "\<not> block_done (get_padding up s)"
    using assms(3,4) by (simp_all add: unpad_bytes_Cons unpad_byte_def unpad_command_def unpad_next_def block_done_def CommandPaddingDirect_def)
  have "rmb (vr_Reader r) p = Some (map Some [b], err, rd, p1)" "\<forall>x \<in> set [b]. plain_buffer x" "\<forall>x \<in> set (tl [b]). unmarked (ts_UserUUID s) x"
    "concat (map content [b]) \<noteq> []"
    using assms(1-3) by simp_all
  from reader_unpads [where rmb = rmb and r = r and p = p and raw = raw and rawCounter = rawCounter and conn = conn and ob = ob, OF this assms(5-9) u(2) assms(10,11) u(1)] show ?thesis by auto
qed

text \<open>A receiver that is between two blocks after the handshake, with one buffer to read.\<close>

definition demo_reader :: "unit visionreader" where
  "demo_reader = NewVisionReader () True (Some []) (Some [])"

definition demo_between :: TrafficState where
  "demo_between = put_padding True \<lparr>pd_Command = 5, pd_Content = 0, pd_Padding = 0, pd_Current = 0\<rparr> ((NewTrafficState (replicate 16 7))\<lparr>ts_NumberOfPacketToFilter := 0\<rparr>)"

lemma demo_between_ok:
  "get_padding True demo_between = \<lparr>pd_Command = 5, pd_Content = 0, pd_Padding = 0, pd_Current = 0\<rparr>" "withinPadding True demo_between"
  "\<not> readerDirect True demo_between" "ts_NumberOfPacketToFilter demo_between \<le> 0" "True = vr_isUplink demo_reader"
  "vr_input demo_reader = Some []" "vr_rawInput demo_reader = Some []"
  by (simp_all add: demo_between_def demo_reader_def NewVisionReader_def) (simp_all add: put_padding_def NewTrafficState_def withinPadding_def readerDirect_def)

theorem vision_reader_switches_early_witness:
  "\<exists>mb r' s' ob' p'. VR_ReadMultiBuffer (\<lambda>_ p. Some ([Some (append_to (Buffer_of (replicate 8192 0)) [2])], None, (), p)) () None False demo_reader demo_between None []
     = Some (mb, None, r', s', ob', p') \<and> mcontent mb = [] \<and> readerDirect True s' \<and> pd_Command (get_padding True s') = 4"
proof -
  let ?b = "append_to (Buffer_of (replicate 8192 0)) [2]"
  have b: "plain_buffer ?b" "content ?b = [CommandPaddingDirect]" "pool_ok []" by (simp_all add: plain_buffer_def CommandPaddingDirect_def pool_ok_def)
  show ?thesis
    using vision_reader_switches_early [where rmb = "\<lambda>_ p. Some ([Some ?b], None, (), p)" and r = demo_reader and p = "[]" and raw = "()"
        and rawCounter = None and conn = False and ob = None, OF _ b(1,2) demo_between_ok(1) b(3) demo_between_ok(2-7)] by auto
qed

theorem vision_reader_switch_order_witness:
  "\<exists>mb r' s' ob' p'. VR_ReadMultiBuffer (\<lambda>_ p. Some ([Some (append_to (Buffer_of (replicate 8192 0)) (block_wire (2, [5], []) @ [9]))], None, (), p)) () None False
       demo_reader demo_between None [] = Some (mb, None, r', s', ob', p') \<and> mcontent mb = [5, 9] \<and> readerDirect True s'"
proof -
  let ?b = "append_to (Buffer_of (replicate 8192 0)) (block_wire (2, [5], []) @ [9])"
  have b: "plain_buffer ?b" "content ?b = block_wire (CommandPaddingDirect, [5], []) @ [9]" "pool_ok []" "block_ok (CommandPaddingDirect, [5], [])"
    by (simp_all add: plain_buffer_def CommandPaddingDirect_def pool_ok_def block_wire_def block_ok_def)
  have "\<exists>mb r' s' ob' p'. VR_ReadMultiBuffer (\<lambda>_ p. Some ([Some ?b], None, (), p)) () None False demo_reader demo_between None [] = Some (mb, None, r', s', ob', p')
    \<and> (if content ?b = [] then mcontent mb = concat (map block_data []) \<and> vr_Reader r' = () \<and> \<not> readerDirect True s'
       else mcontent mb = concat (map block_data []) @ [5] @ [9] @ [] @ [] \<and> vr_Reader r' = () \<and> readerDirect True s')"
    by (rule vision_reader_switch_order [where bs = "[?b]" and ks = "[]" and pad = "[]", OF _ _ _ _ _ _ _ _ demo_between_ok(1) b(3) demo_between_ok(2-7)])
      (use b in \<open>simp_all add: block_wire_def\<close>)
  then show ?thesis using b(2) by (auto simp: block_wire_def)
qed

end
