(* ===== verification/Xudp.thy ===== *)
theory Xudp
  imports Mux_Frame
begin

text \<open>
  \<open>common/xudp\<close>: UDP packets of any address over one stream. Every packet is a mux frame of session 0 with its data; the first one opens the
  session, the others may carry an address of their own. Its address parser has the options of the one in \<open>common/mux\<close>. The keyed hash behind
  the global id is a parameter.
\<close>

section \<open>The global id\<close>

definition cone_inbounds :: "gostring list" where
  "cone_inbounds = map str [''dokodemo-door'', ''socks'', ''shadowsocks'', ''tun'', ''wireguard'']"

text \<open>\<open>cone\<close> is the context value, if there is one; \<open>inbound\<close> the name and the source of the inbound.\<close>

definition GetGlobalID :: "(Destination \<Rightarrow> byte list) \<Rightarrow> bool option \<Rightarrow> (gostring \<times> Destination) option \<Rightarrow> byte list" where
  "GetGlobalID digest cone inbound =
     (if cone \<noteq> Some True then replicate 8 0
      else case inbound of
             None \<Rightarrow> replicate 8 0
           | Some (name, source) \<Rightarrow>
               if d_Network source = Network_UDP \<and> name \<in> set cone_inbounds
               then (let h = digest source in take 8 h @ replicate (8 - length h) 0) else replicate 8 0)"

section \<open>Writing packets\<close>

record 'w PacketWriter =
  xw_Writer :: 'w
  xw_Dest :: Destination
  xw_GlobalID :: "byte list"

text \<open>Writes whose errors are not looked at.\<close>

definition wbyte :: "byte \<Rightarrow> Buffer \<Rightarrow> Buffer option" where
  "wbyte x b = map_option snd (WriteByte b x)"

definition wbytes :: "byte list \<Rightarrow> Buffer \<Rightarrow> Buffer option" where
  "wbytes d b = map_option snd (Write b d)"

definition waddr :: "Destination \<Rightarrow> Buffer \<Rightarrow> Buffer option" where
  "waddr d b = map_option snd (WriteAddressPort addrParser Buffer_Write b (d_Address d) (d_Port d))"

text \<open>The metadata of one packet, which has the address \<open>udp\<close> if it is not nil.\<close>

definition xudp_meta :: "Destination \<Rightarrow> byte list \<Rightarrow> Destination option \<Rightarrow> Buffer \<Rightarrow> Buffer option" where
  "xudp_meta dest gid udp eb =
     Option.bind (wbytes [0, 0, 0, 0] eb) (\<lambda>b0.
       if d_Network dest = Network_UDP then
         Option.bind (wbyte 1 b0) (\<lambda>b1. Option.bind (wbyte 1 b1) (\<lambda>b2. Option.bind (wbyte 2 b2) (\<lambda>b3.
         Option.bind (waddr dest b3) (\<lambda>b4. if udp \<noteq> None then wbytes gid b4 else Some b4))))
       else
         Option.bind (wbyte 2 b0) (\<lambda>b1. Option.bind (wbyte 1 b1) (\<lambda>b2.
           case udp of None \<Rightarrow> Some b2 | Some u \<Rightarrow> Option.bind (wbyte 2 b2) (waddr u))))"

definition xudp_frame :: "Destination \<Rightarrow> byte list \<Rightarrow> Buffer \<Rightarrow> Buffer \<Rightarrow> Buffer option" where
  "xudp_frame dest gid b eb =
     Option.bind (xudp_meta dest gid (b_UDP b) eb) (\<lambda>b1.
     let l = buf_Len b1 - 2 in
     Option.bind (SetByte b1 0 (hi_byte l)) (\<lambda>b2.
     Option.bind (SetByte b2 1 (byte_of l)) (\<lambda>b3.
     Option.bind (wbyte (hi_byte (buf_Len b)) b3) (\<lambda>b4.
     Option.bind (wbyte (byte_of (buf_Len b)) b4) (\<lambda>b5.
     Option.bind (Bytes b) (\<lambda>d. wbytes d b5))))))"

fun xudp_frames :: "Destination \<Rightarrow> byte list \<Rightarrow> MultiBuffer \<Rightarrow> pool \<Rightarrow> (MultiBuffer \<times> Destination \<times> pool) option" where
  "xudp_frames dest gid [] p = Some ([], dest, p)"
| "xudp_frames dest gid (None # mb) p = xudp_frames dest gid mb p"
| "xudp_frames dest gid (Some b # mb) p =
     (if buf_Len b = 0 \<or> i32 (buf_Len b + 666) > Size then xudp_frames dest gid mb p
      else case New p of (eb, p1) \<Rightarrow>
        Option.bind (xudp_frame dest gid b eb) (\<lambda>eb'.
          map_option (\<lambda>(fs, r). (Some eb' # fs, r))
            (xudp_frames (if d_Network dest = Network_UDP then dest\<lparr>d_Network := Network_Unknown\<rparr> else dest) gid mb p1)))"

definition XW_WriteMultiBuffer :: "'w mb_write \<Rightarrow> ('w PacketWriter) mb_write" where
  "XW_WriteMultiBuffer wmb w mb p =
     Option.bind (xudp_frames (xw_Dest w) (xw_GlobalID w) mb p) (\<lambda>(fs, dest, p1).
       let w1 = w\<lparr>xw_Dest := dest\<rparr>
       in if MB_IsEmpty fs then Some (None, w1, snd (ReleaseMulti mb p1))
          else map_option (\<lambda>(e, w', p2). (e, w1\<lparr>xw_Writer := w'\<rparr>, snd (ReleaseMulti mb p2))) (wmb (xw_Writer w1) fs p1))"

section \<open>Reading packets\<close>

text \<open>The address of a packet of an open session, when there is one.\<close>

definition xudp_address :: "Buffer \<Rightarrow> int \<Rightarrow> pool \<Rightarrow> (goerr option \<times> Buffer \<times> pool) option" where
  "xudp_address b l p =
     (if l > 4 then
        Option.bind (Byte b 4) (\<lambda>x.
          if x = 2 then
            map_option (\<lambda>((addr, port, err), _, b1, p1).
                (case err of
                   Some e \<Rightarrow> (Some e, b1, p1)
                 | None \<Rightarrow> (None, b1\<lparr>b_UDP := Some \<lparr>d_Address = addr, d_Port = port, d_Network = Network_UDP\<rparr>\<rparr>, p1)))
              (ReadAddressPort addrParser Buffer_Read None (Advance b 5) p)
          else Some (None, b, p))
      else Some (None, b, p))"

text \<open>The data block behind the metadata; the option byte is read from the array of the cleared buffer. \<open>None\<close> as the result goes on with the loop.\<close>

definition xudp_data ::
  "'r io_read \<Rightarrow> bool \<Rightarrow> Buffer \<Rightarrow> 'r \<Rightarrow> pool \<Rightarrow> ((MultiBuffer \<times> goerr option) option \<times> 'r \<times> pool) option" where
  "xudp_data rd discard b r p =
     Option.bind (Byte (Clear b) 3) (\<lambda>opt.
       if opt = 1 then
         Option.bind (ReadFull rd r 2) (\<lambda>(bs, err, r1).
           case err of
             Some e \<Rightarrow> Some (Some ([], Some e), r1, snd (Release (Some (Clear b)) p))
           | None \<Rightarrow>
               (let l = be_int (bs ! 0) (bs ! 1)
                in if l > 0 then
                     Option.bind (ReadFullFrom rd (Clear b) r1 l) (\<lambda>((_, err2), b2, r2).
                       case err2 of
                         Some e \<Rightarrow> Some (Some ([], Some e), r2, snd (Release (Some b2) p))
                       | None \<Rightarrow> if \<not> discard then Some (Some ([Some b2], None), r2, p)
                                 else Some (None, r2, snd (Release (Some b2) p)))
                   else Some (None, r1, snd (Release (Some (Clear b)) p))))
       else Some (None, r, snd (Release (Some (Clear b)) p)))"

partial_function (option) XR_ReadMultiBuffer :: "'r io_read \<Rightarrow> 'r \<Rightarrow> pool \<Rightarrow> (MultiBuffer \<times> goerr option \<times> 'r \<times> pool) option" where
  "XR_ReadMultiBuffer rd r p =
     Option.bind (ReadFull rd r 2) (\<lambda>x. case x of (bs, err, r1) \<Rightarrow>
       (case err of
          Some e \<Rightarrow> Some ([], Some e, r1, p)
        | None \<Rightarrow>
            (let l = be_int (bs ! 0) (bs ! 1)
             in if l < 4 then Some ([], Some EOF, r1, p)
                else case New p of (b, p1) \<Rightarrow>
                  Option.bind (ReadFullFrom rd b r1 l) (\<lambda>y. case y of ((_, err2), b1, r2) \<Rightarrow>
                    (case err2 of
                       Some e \<Rightarrow> Some ([], Some e, r2, snd (Release (Some b1) p1))
                     | None \<Rightarrow>
                         Option.bind (Byte b1 2) (\<lambda>st.
                           if st = 2 \<or> st = 4 then
                             Option.bind (if st = 2 then xudp_address b1 l p1 else Some (None, b1, p1)) (\<lambda>z. case z of (err3, b2, p2) \<Rightarrow>
                               (case err3 of
                                  Some e \<Rightarrow> Some ([], Some e, r2, snd (Release (Some b2) p2))
                                | None \<Rightarrow>
                                    Option.bind (xudp_data rd (st = 4) b2 r2 p2) (\<lambda>d. case d of (res, r3, p3) \<Rightarrow>
                                      (case res of
                                         Some (mb, e) \<Rightarrow> Some (mb, e, r3, p3)
                                       | None \<Rightarrow> XR_ReadMultiBuffer rd r3 p3))))
                           else Some ([], Some EOF, r2, snd (Release (Some b1) p1))))))))"

section \<open>Frames as the mux writer would send them\<close>

lemma PutUint16_bytes:
  assumes "n < 65536"
  shows "PutUint16 (word_of_nat n) = [hi_byte (int n), byte_of (int n)]"
proof -
  have "uint (word_of_nat n :: 16 word) = int n" using assms by (simp add: unsigned_of_nat take_bit_nat_eq_self)
  moreover have "ucast (drop_bit 8 (word_of_nat n :: 16 word)) = (word_of_int (drop_bit 8 (uint (word_of_nat n :: 16 word))) :: byte)"
    by (rule bit_word_eqI) (auto simp: bit_simps)
  moreover have "ucast (word_of_nat n :: 16 word) = (word_of_int (uint (word_of_nat n :: 16 word)) :: byte)"
    by (rule bit_word_eqI) (auto simp: bit_simps)
  ultimately show ?thesis by (simp add: PutUint16_def hi_byte_def byte_of_def)
qed

lemma wbyte_ok [simp]: "buf_inv b \<Longrightarrow> 0 < room b \<Longrightarrow> wbyte x b = Some (append_to b [x])"
  by (simp add: wbyte_def WriteByte_room)

lemma wbytes_ok [simp]: "buf_inv b \<Longrightarrow> length d \<le> room b \<Longrightarrow> wbytes d b = Some (append_to b d)"
  by (simp add: wbytes_def Write_fits)

lemma waddr_ok [simp]: "dest_ok d \<Longrightarrow> buf_inv b \<Longrightarrow> length (dest_bytes d) \<le> room b \<Longrightarrow> waddr d b = Some (append_to b (dest_bytes d))"
  by (simp add: waddr_def WriteAddressPort_dest)

lemma SetByte_appended:
  assumes "buf_inv b" "b_start b = 0" "b_end b = 0" "length (xs @ y # zs) \<le> room b" "i = int (length xs)"
  shows "SetByte (append_to b (xs @ y # zs)) i x = Some (append_to b (xs @ x # zs))"
proof -
  have r: "length (xs @ y # zs) \<le> nat (b_len b)" "b_len b < 2147483648" "nat (b_len b) \<le> length (b_arr b)"
    using assms(1,3,4) by (auto simp: room_def buf_inv_def)
  have "(overwrite a 0 (xs @ y # zs))[length xs := x] = overwrite a 0 (xs @ x # zs)" for a :: "byte list"
    by (simp add: overwrite_def)
  moreover have "i32 (int (length xs)) = int (length xs)" "int (length xs) < b_len b" using r by auto
  ultimately show ?thesis using assms(2,3,5) by (cases "b_v b") (simp_all add: SetByte_def append_to_def)
qed

text \<open>The mux writer of session 0 that sends the same packets; a target that is no longer UDP has been sent.\<close>

definition xudp_mux :: "Destination \<Rightarrow> byte list \<Rightarrow> unit MuxWriter" where
  "xudp_mux dest gid = (NewMuxWriter 0 dest () TransferTypePacket gid None)\<lparr>mw_followup := (d_Network dest \<noteq> Network_UDP)\<rparr>"

definition xudp_dest_ok :: "Destination \<Rightarrow> byte list \<Rightarrow> bool" where
  "xudp_dest_ok dest gid \<longleftrightarrow> (d_Network dest = Network_UDP \<longrightarrow> dest_ok dest) \<and> length gid = 8"

text \<open>The packets that are sent.\<close>

definition xudp_packet :: "Buffer option \<Rightarrow> bool" where
  "xudp_packet x \<longleftrightarrow> pcontent x \<noteq> [] \<and> length (pcontent x) \<le> 7526"

lemma xudp_mux_meta:
  "data_meta (xudp_mux dest gid) = zero_meta\<lparr>fm_Target := dest, fm_GlobalID := gid, fm_Option := OptionData,
     fm_SessionStatus := (if d_Network dest = Network_UDP then SessionStatusNew else SessionStatusKeep)\<rparr>"
  by (simp add: data_meta_def xudp_mux_def getNextFrameMeta_def NewMuxWriter_def zero_meta_def Let_def)

lemma xudp_meta_ok:
  "xudp_dest_ok dest gid \<Longrightarrow> \<forall>u. udp = Some u \<longrightarrow> dest_ok u \<Longrightarrow> meta_ok (data_meta (xudp_mux dest gid)) udp"
  by (auto simp: xudp_mux_meta meta_ok_def xudp_dest_ok_def is_tcp_udp_def zero_meta_def)

lemma xudp_meta_max:
  assumes "xudp_dest_ok dest gid" "\<forall>u. udp = Some u \<longrightarrow> dest_ok u"
  shows "length (meta_bytes (data_meta (xudp_mux dest gid)) udp) \<le> 272"
  using assms dest_bytes_max [of dest] dest_bytes_max [of "the udp"]
  by (cases udp) (auto simp: meta_bytes_def tail_bytes_def xudp_mux_meta xudp_dest_ok_def zero_meta_def)

lemma xudp_meta_bytes:
  assumes "xudp_dest_ok dest gid" "\<forall>u. udp = Some u \<longrightarrow> dest_ok u" "buf_inv eb" "8192 \<le> room eb"
  shows "xudp_meta dest gid udp eb = Some (append_to eb ([0, 0] @ meta_bytes (data_meta (xudp_mux dest gid)) udp))"
proof -
  have g: "length gid = 8" using assms(1) by (simp add: xudp_dest_ok_def)
  have z: "PutUint16 0 = [0, 0]" by (simp add: PutUint16_def)
  have c: "OptionData = 1" "SessionStatusNew = 1" "SessionStatusKeep = 2" "TargetNetworkUDP = 2"
    by (simp_all add: OptionData_def SessionStatusNew_def SessionStatusKeep_def TargetNetworkUDP_def)
  show ?thesis
  proof (cases "d_Network dest = Network_UDP")
    case True
    then have d: "dest_ok dest" "length (dest_bytes dest) \<le> 259" using assms(1) dest_bytes_max by (auto simp: xudp_dest_ok_def)
    show ?thesis using assms(3,4) True d g
      by (cases udp) (simp_all add: xudp_meta_def meta_bytes_def tail_bytes_def xudp_mux_meta zero_meta_def z c)
  next
    case False
    then show ?thesis using assms(2-4) dest_bytes_max [of "the udp"]
      by (cases udp) (simp_all add: xudp_meta_def meta_bytes_def tail_bytes_def xudp_mux_meta zero_meta_def z c)
  qed
qed

lemma xudp_frame_bytes:
  assumes "xudp_dest_ok dest gid" "\<forall>u. b_UDP b = Some u \<longrightarrow> dest_ok u" "buf_inv eb" "room eb = 8192" "b_start eb = 0" "b_end eb = 0"
    "buf_inv b" "length (content b) \<le> 7526"
  shows "xudp_frame dest gid b eb = Some (append_to eb (frame_bytes (data_meta (xudp_mux dest gid)) (b_UDP b) (content b)))"
proof -
  let ?m = "meta_bytes (data_meta (xudp_mux dest gid)) (b_UDP b)"
  let ?n = "int (length ?m)" and ?k = "int (length (content b))"
  have l: "length ?m \<le> 272" using xudp_meta_max [OF assms(1,2)] .
  have m: "xudp_meta dest gid (b_UDP b) eb = Some (append_to eb ([0, 0] @ ?m))"
    using xudp_meta_bytes [OF assms(1,2,3)] assms(4) by simp
  have len: "buf_Len (append_to eb (0 # 0 # ?m)) - 2 = ?n"
    using assms(3-6) l by (subst buf_Len_content) (simp_all add: content_append_to content_def [of eb])
  have s0: "SetByte (append_to eb ([0, 0] @ ?m)) 0 x = Some (append_to eb ([x, 0] @ ?m))" for x
    using SetByte_appended [OF assms(3,5,6), of "[]" 0 "0 # ?m"] l assms(4) by simp
  have s1: "SetByte (append_to eb ([x, 0] @ ?m)) 1 y = Some (append_to eb ([x, y] @ ?m))" for x y
    using SetByte_appended [OF assms(3,5,6), of "[x]" 0 "?m"] l assms(4) by simp
  have w: "PutUint16 (word_of_nat (length ?m)) = [hi_byte ?n, byte_of ?n]" "PutUint16 (word_of_nat (length (content b))) = [hi_byte ?k, byte_of ?k]"
    using l assms(8) by (intro PutUint16_bytes; simp)+
  show ?thesis using m s0 s1 assms(3,4,7,8) l
    by (simp add: xudp_frame_def len Let_def w frame_bytes_def buf_Len_content [OF assms(7)] Bytes_content
        del: append_to_sel)
qed

lemma mux_frames_keep:
  "mw_followup v \<Longrightarrow> mw_followup w \<Longrightarrow> mw_id v = mw_id w \<Longrightarrow> mux_frames v cs = mux_frames w cs"
proof (induction cs arbitrary: v w)
  case (Cons c cs)
  have "meta_bytes (data_meta v) udp = meta_bytes (data_meta w) udp" for udp
    using Cons.prems by (simp add: meta_bytes_def tail_bytes_def data_meta_def getNextFrameMeta_def Let_def)
  then show ?case using Cons.IH [of "v\<lparr>mw_followup := True\<rparr>" "w\<lparr>mw_followup := True\<rparr>"] Cons.prems(3)
    by (simp add: frame_bytes_def)
qed simp

definition addrs_ok :: "MultiBuffer \<Rightarrow> bool" where
  "addrs_ok mb \<longleftrightarrow> (\<forall>b u. Some b \<in> set mb \<longrightarrow> b_UDP b = Some u \<longrightarrow> dest_ok u)"

lemma xudp_frames_ok:
  assumes "mb_inv mb" "addrs_ok mb" "xudp_dest_ok dest gid" "pool_ok p"
    "\<forall>x \<in> set mb. length (pcontent x) \<le> 8192"
  shows "\<exists>fs dest' p'. xudp_frames dest gid mb p = Some (fs, dest', p') \<and> mb_inv fs \<and> None \<notin> set fs \<and> pool_ok p'
    \<and> dest' = (if d_Network dest = Network_UDP \<and> filter xudp_packet mb \<noteq> [] then dest\<lparr>d_Network := Network_Unknown\<rparr> else dest)
    \<and> mcontent fs = mux_frames (xudp_mux dest gid) (map (\<lambda>x. [x]) (filter xudp_packet mb))"
  using assms
proof (induction mb arbitrary: dest p)
  case (Cons x mb)
  have IH: "\<exists>fs dest' p'. xudp_frames d gid mb q = Some (fs, dest', p') \<and> mb_inv fs \<and> None \<notin> set fs \<and> pool_ok p'
      \<and> dest' = (if d_Network d = Network_UDP \<and> filter xudp_packet mb \<noteq> [] then d\<lparr>d_Network := Network_Unknown\<rparr> else d)
      \<and> mcontent fs = mux_frames (xudp_mux d gid) (map (\<lambda>x. [x]) (filter xudp_packet mb))"
    if "xudp_dest_ok d gid" "pool_ok q" for d q
    using Cons.IH [OF _ _ that] Cons.prems(1,2,5) by (cases x) (simp_all add: addrs_ok_def)
  show ?case
  proof (cases "xudp_packet x")
    case False
    then have "xudp_frames dest gid (x # mb) p = xudp_frames dest gid mb p"
      using Cons.prems(1,5) by (cases x) (auto simp: xudp_packet_def buf_Len_content Size_def)
    then show ?thesis using IH [OF Cons.prems(3,4)] False by simp
  next
    case True
    then obtain b where x: "x = Some b" "content b \<noteq> []" "length (content b) \<le> 7526" by (cases x) (auto simp: xudp_packet_def)
    have b: "buf_inv b" "\<forall>u. b_UDP b = Some u \<longrightarrow> dest_ok u" using Cons.prems(1,2) x(1) by (auto simp: addrs_ok_def)
    obtain eb p1 where e: "New p = (eb, p1)" "buf_inv eb" "content eb = []" "room eb = 8192" "b_start eb = 0" "b_end eb = 0" "pool_ok p1"
      using New_ok [OF Cons.prems(4)] by blast
    let ?f = "frame_bytes (data_meta (xudp_mux dest gid)) (b_UDP b) (content b)"
    have f: "xudp_frame dest gid b eb = Some (append_to eb ?f)"
      by (rule xudp_frame_bytes [OF Cons.prems(3) b(2) e(2,4,5,6) b(1) x(3)])
    have len: "length ?f \<le> room eb" using xudp_meta_max [OF Cons.prems(3) b(2)] x(3) e(4) by (simp add: frame_bytes_def)
    let ?d = "if d_Network dest = Network_UDP then dest\<lparr>d_Network := Network_Unknown\<rparr> else dest"
    have dd: "xudp_dest_ok ?d gid" "d_Network ?d \<noteq> Network_UDP" using Cons.prems(3) by (simp_all add: xudp_dest_ok_def)
    obtain fs dest' p' where r: "xudp_frames ?d gid mb p1 = Some (fs, dest', p')" "mb_inv fs" "None \<notin> set fs" "pool_ok p'"
      "dest' = ?d"
      "mcontent fs = mux_frames (xudp_mux ?d gid) (map (\<lambda>x. [x]) (filter xudp_packet mb))"
      using IH [OF dd(1) e(7)] dd(2) by metis
    have "mux_frames (xudp_mux ?d gid) cs = mux_frames ((xudp_mux dest gid)\<lparr>mw_followup := True\<rparr>) cs" for cs
      by (rule mux_frames_keep) (simp_all add: xudp_mux_def NewMuxWriter_def)
    moreover have "xudp_frames dest gid (x # mb) p = Some (Some (append_to eb ?f) # fs, dest', p')"
      using x b(1) e(1) f r(1) by (simp add: buf_Len_content Size_def)
    ultimately show ?thesis using r x True e(2,3) len by (simp add: chunk_udp_def)
  qed
qed (simp add: mb_inv_def)

section \<open>Reading frames\<close>

lemma buffer_rd_keeps: "io_reader Buffer_Read (\<lambda>b. buf_inv b \<and> b_arr b = A \<and> b_len b = L) content (\<lambda>_. EOF) (\<lambda>_. 0)"
proof unfold_locales
  fix b :: Buffer and n :: nat
  assume b: "buf_inv b \<and> b_arr b = A \<and> b_len b = L" and n: "0 < n"
  have "buf_inv b" using b by simp
  from Buffer_Read_content [OF this n]
  show "\<exists>bs e r'. Buffer_Read b n = Some (bs, e, r') \<and> (buf_inv r' \<and> b_arr r' = A \<and> b_len r' = L) \<and> length bs \<le> n
      \<and> content b = bs @ content r' \<and> EOF = EOF \<and> (e = None \<longrightarrow> bs \<noteq> [] \<or> (0::nat) < 0)
      \<and> (\<forall>x. e = Some x \<longrightarrow> x = EOF \<and> content r' = [])"
    using b n by auto
qed

lemma xudp_address_reads:
  assumes "buf_inv b" "content b = [x0, x1, x2, x3, TargetNetworkUDP] @ dest_bytes u" "dest_ok u" "pool_ok p" "l = int (length (content b))"
  shows "\<exists>b' p'. xudp_address b l p = Some (None, b'\<lparr>b_UDP := Some (UDPDestination (d_Address u) (d_Port u))\<rparr>, p')
    \<and> buf_inv b' \<and> b_arr b' = b_arr b \<and> b_len b' = b_len b \<and> pool_ok p'"
proof -
  obtain a where a: "d_Address u = Some a" "encodable a" using assms(3) by (auto simp: dest_ok_def)
  obtain sb p1 where n: "New p = (sb, p1)" "buf_inv sb" "room sb = 8192" "pool_ok p1" using New_ok [OF assms(4)] by auto
  have x: "Byte b 4 = Some 2" using Byte_content [OF assms(1), of 4] assms(2) by (simp add: TargetNetworkUDP_def)
  have adv: "Advance b 5 = consume b 5" using Advance_content [OF assms(1), of 5] assms(2) by simp
  let ?d = "addr_port_bytes addrParser a (d_Port u)"
  have c: "buf_inv (consume b 5) \<and> b_arr (consume b 5) = b_arr b \<and> b_len (consume b 5) = b_len b" "content (consume b 5) = ?d @ []"
    using assms(1,2) a(1) by (simp_all add: dest_bytes_def)
  have l: "length ?d \<le> room sb" using addr_bytes_length [OF a(2), of addrParser "d_Port u"] n(3) by simp
  obtain b' where r: "read_addr_port addrParser Buffer_Read sb (consume b 5) = Some ((Some a, d_Port u, None), append_to sb ?d, b')"
    "buf_inv b' \<and> b_arr b' = b_arr b \<and> b_len b' = b_len b"
    by (rule io_reader.read_addr_port_ok [OF buffer_rd_keeps c(1) n(2) c(2) addrParser_supports a(2) l])
  then have "xudp_address b l p = Some (None, b'\<lparr>b_UDP := Some (UDPDestination (d_Address u) (d_Port u))\<rparr>, snd (Release (Some (append_to sb ?d)) p1))"
    using x adv n(1) a(1) assms(2,5) by (simp add: xudp_address_def ReadAddressPort_def UDPDestination_def)
  then show ?thesis using r(2) Release_pool_ok [OF n(4)] by blast
qed

lemma Byte_Clear:
  "b_start b = 0 \<Longrightarrow> b_arr b' = b_arr b \<Longrightarrow> b_len b' = b_len b \<Longrightarrow> Byte (Clear b') i = Byte b i"
  by (simp add: Byte_def Clear_def b_arr_def)

text \<open>A frame of an open session, as a peer of the reader sends it: its metadata, its address and its data.\<close>

definition xudp_status :: "byte \<Rightarrow> 16 word \<Rightarrow> FrameMetadata" where
  "xudp_status st sid = zero_meta\<lparr>fm_SessionID := sid, fm_SessionStatus := st, fm_Option := OptionData\<rparr>"

definition xudp_delivered :: "byte \<times> 16 word \<times> Destination option \<times> byte list \<Rightarrow> bool" where
  "xudp_delivered = (\<lambda>(st, sid, udp, d). st = SessionStatusKeep \<and> d \<noteq> [])"

definition xudp_frame_ok :: "byte \<times> 16 word \<times> Destination option \<times> byte list \<Rightarrow> bool" where
  "xudp_frame_ok = (\<lambda>(st, sid, udp, d). (st = SessionStatusKeep \<or> st = SessionStatusKeepAlive)
     \<and> (\<forall>u. udp = Some u \<longrightarrow> dest_ok u) \<and> length d \<le> 8192)"

definition xudp_sent :: "byte \<times> 16 word \<times> Destination option \<times> byte list \<Rightarrow> byte list" where
  "xudp_sent = (\<lambda>(st, sid, udp, d). frame_bytes (xudp_status st sid) udp d)"

lemma xudp_status_bytes:
  assumes "st = SessionStatusKeep \<or> st = SessionStatusKeepAlive"
  shows "meta_bytes (xudp_status st sid) udp = PutUint16 sid @ [st, 1] @ (case udp of Some u \<Rightarrow> TargetNetworkUDP # dest_bytes u | None \<Rightarrow> [])"
  using assms
  by (auto simp: meta_bytes_def tail_bytes_def xudp_status_def zero_meta_def OptionData_def SessionStatusKeep_def SessionStatusKeepAlive_def
      SessionStatusNew_def)

text \<open>The address of a packet, when the session is open and there is one; the array stays as it is.\<close>

lemma xudp_address_status:
  assumes "buf_inv b" "b_UDP b = None" "content b = meta_bytes (xudp_status SessionStatusKeep sid) udp" "\<forall>u. udp = Some u \<longrightarrow> dest_ok u" "pool_ok p"
    "l = int (length (content b))"
  shows "\<exists>b' p'. xudp_address b l p = Some (None, b', p') \<and> buf_inv b' \<and> b_arr b' = b_arr b \<and> b_len b' = b_len b \<and> pool_ok p'
    \<and> b_UDP b' = map_option (\<lambda>u. UDPDestination (d_Address u) (d_Port u)) udp"
proof (cases udp)
  case None
  then show ?thesis using assms by (simp add: xudp_address_def xudp_status_bytes)
next
  case (Some u)
  obtain x0 x1 where x: "PutUint16 sid = [x0, x1]" by (simp add: PutUint16_def)
  have c: "content b = [x0, x1, SessionStatusKeep, 1, TargetNetworkUDP] @ dest_bytes u" using assms(3) Some x by (simp add: xudp_status_bytes)
  have "dest_ok u" using assms(4) Some by simp
  from xudp_address_reads [OF assms(1) c this assms(5,6)] Some show ?thesis
    by (auto simp: buf_inv_def b_arr_def)
qed

context io_reader
begin

lemma xudp_data_reads:
  assumes "rinv r" "pool_ok p" "buf_inv b" "b_len b = 8192" "Byte (Clear b) 3 = Some 1"
    "pending r = PutUint16 (word_of_nat (length d)) @ d @ rest" "length d \<le> 8192"
  shows "\<exists>r' p'. xudp_data rd discard b r p
      = Some (if discard \<or> d = [] then None else Some ([Some (append_to (Clear b) d)], None), r', p')
    \<and> rinv r' \<and> pending r' = rest \<and> pool_ok p'"
proof -
  let ?n = "int (length d)"
  have w: "PutUint16 (word_of_nat (length d)) = [hi_byte ?n, byte_of ?n]" using assms(7) by (intro PutUint16_bytes) simp
  have be: "be_int (hi_byte ?n) (byte_of ?n) = ?n" using assms(7) by (intro be_int_bytes) simp_all
  obtain r1 where r1: "ReadFull rd r 2 = Some ([hi_byte ?n, byte_of ?n], None, r1)" "rinv r1" "pending r1 = d @ rest"
    using ReadFull_enough [OF assms(1), of "[hi_byte ?n, byte_of ?n]" "d @ rest" 2] assms(6) w by auto
  have rm: "length d \<le> room (Clear b)" using assms(4,7) by simp
  obtain r2 where r2: "ReadFullFrom rd (Clear b) r1 ?n = Some ((?n, None), append_to (Clear b) d, r2)" "rinv r2" "pending r2 = rest"
    using ReadFullFrom_ok [OF r1(2) Clear_inv [OF assms(3)] rm r1(3) refl] by auto
  show ?thesis using r1 r2 be assms(2,5) Release_pool_ok [OF assms(2)]
    by (cases "d = []") (simp_all add: xudp_data_def)
qed

lemma XR_one_frame:
  assumes "rinv r" "pool_ok p" "xudp_frame_ok (st, sid, udp, d)" "pending r = xudp_sent (st, sid, udp, d) @ rest"
  shows "\<exists>b r' p'. XR_ReadMultiBuffer rd r p
      = (if xudp_delivered (st, sid, udp, d) then Some ([Some b], None, r', p') else XR_ReadMultiBuffer rd r' p')
    \<and> content b = (if xudp_delivered (st, sid, udp, d) then d else []) \<and> buf_inv b
    \<and> (xudp_delivered (st, sid, udp, d) \<longrightarrow> b_UDP b = map_option (\<lambda>u. UDPDestination (d_Address u) (d_Port u)) udp)
    \<and> rinv r' \<and> pending r' = rest \<and> pool_ok p'"
proof -
  let ?m = "meta_bytes (xudp_status st sid) udp"
  let ?n = "int (length ?m)"
  have st: "st = SessionStatusKeep \<or> st = SessionStatusKeepAlive" and u: "\<forall>u. udp = Some u \<longrightarrow> dest_ok u" and d: "length d \<le> 8192"
    using assms(3) by (auto simp: xudp_frame_ok_def)
  have stn: "st = 2 \<or> st = 4" "SessionStatusKeep = 2" using st by (auto simp: SessionStatusKeep_def SessionStatusKeepAlive_def)
  obtain x0 x1 where x: "PutUint16 sid = [x0, x1]" by (simp add: PutUint16_def)
  have mb: "?m = [x0, x1, st, 1] @ (case udp of Some u \<Rightarrow> TargetNetworkUDP # dest_bytes u | None \<Rightarrow> [])"
    using x by (simp add: xudp_status_bytes [OF st])
  have l: "4 \<le> length ?m" "length ?m \<le> 272" using mb u dest_bytes_max [of "the udp"] by (auto split: option.splits)
  have w: "PutUint16 (word_of_nat (length ?m)) = [hi_byte ?n, byte_of ?n]" using l(2) by (intro PutUint16_bytes) simp
  have be: "be_int (hi_byte ?n) (byte_of ?n) = ?n" using l(2) by (intro be_int_bytes) simp_all
  let ?rest = "PutUint16 (word_of_nat (length d)) @ d @ rest"
  obtain r1 where r1: "ReadFull rd r 2 = Some ([hi_byte ?n, byte_of ?n], None, r1)" "rinv r1" "pending r1 = ?m @ ?rest"
    using ReadFull_enough [OF assms(1), of "[hi_byte ?n, byte_of ?n]" "?m @ ?rest" 2] assms(4) w
    by (auto simp: xudp_sent_def frame_bytes_def)
  obtain b p1 where b: "New p = (b, p1)" "buf_inv b" "content b = []" "room b = 8192" "b_UDP b = None" "b_start b = 0" "b_len b = 8192" "pool_ok p1"
    using New_ok [OF assms(2)] by blast
  have rm: "length ?m \<le> room b" using l(2) b(4) by simp
  obtain r2 where r2: "ReadFullFrom rd b r1 ?n = Some ((?n, None), append_to b ?m, r2)" "rinv r2" "pending r2 = ?rest"
    using ReadFullFrom_ok [OF r1(2) b(2) rm r1(3) refl] by auto
  let ?b = "append_to b ?m"
  have bb: "buf_inv ?b" "content ?b = ?m" "b_UDP ?b = None" "b_start ?b = 0" "b_len ?b = 8192" using b rm by auto
  have rb: "Byte ?b 2 = Some st" "Byte ?b 3 = Some 1"
    using Byte_content [OF bb(1), of 2] Byte_content [OF bb(1), of 3] l(1) mb unfolding bb(2) by simp_all
  have "\<exists>b' p'. (if st = 2 then xudp_address ?b ?n p1 else Some (None, ?b, p1)) = Some (None, b', p')
      \<and> buf_inv b' \<and> b_arr b' = b_arr ?b \<and> b_len b' = b_len ?b \<and> pool_ok p'
      \<and> (st = 2 \<longrightarrow> b_UDP b' = map_option (\<lambda>u. UDPDestination (d_Address u) (d_Port u)) udp)"
    using xudp_address_status [OF bb(1,3) _ u b(8), of sid ?n] bb(1,2) b(8) stn(2) by (cases "st = 2") simp_all
  then obtain b' p2 where a: "(if st = 2 then xudp_address ?b ?n p1 else Some (None, ?b, p1)) = Some (None, b', p2)"
    "buf_inv b'" "b_arr b' = b_arr ?b" "b_len b' = b_len ?b" "pool_ok p2"
    "st = 2 \<longrightarrow> b_UDP b' = map_option (\<lambda>u. UDPDestination (d_Address u) (d_Port u)) udp"
    by blast
  have o1: "Byte (Clear b') 3 = Some 1" using Byte_Clear [OF bb(4) a(3,4)] rb(2) by simp
  have len: "b_len b' = 8192" using a(4) bb(5) by simp
  obtain r3 p3 where r3: "xudp_data rd (st = 4) b' r2 p2 = Some (if st = 4 \<or> d = [] then None else Some ([Some (append_to (Clear b') d)], None), r3, p3)"
    "rinv r3" "pending r3 = rest" "pool_ok p3"
    using xudp_data_reads [OF r2(2) a(5) a(2) len o1 r2(3) d] by blast
  have step: "XR_ReadMultiBuffer rd r p = (if st = 4 \<or> d = [] then XR_ReadMultiBuffer rd r3 p3 else Some ([Some (append_to (Clear b') d)], None, r3, p3))"
    using l(1) stn(1) by (subst XR_ReadMultiBuffer.simps) (simp add: r1(1) be b(1) r2(1) rb(1) a(1) [simplified] r3(1))
  have del: "xudp_delivered (st, sid, udp, d) \<longleftrightarrow> \<not> (st = 4 \<or> d = [])" unfolding xudp_delivered_def stn(2) using stn(1) by auto
  have fin: "buf_inv (append_to (Clear b') d)" "content (append_to (Clear b') d) = d" "b_UDP (append_to (Clear b') d) = b_UDP b'"
    using a(2) len d by simp_all
  show ?thesis
  proof (cases "xudp_delivered (st, sid, udp, d)")
    case True
    then show ?thesis using step r3(2-4) fin a(6) del stn(1) by (intro exI [of _ "append_to (Clear b') d"] exI [of _ r3] exI [of _ p3]) auto
  next
    case False
    then show ?thesis using step r3(2-4) b(2,3) del by (intro exI [of _ b] exI [of _ r3] exI [of _ p3]) auto
  qed
qed

end

section \<open>Properties\<close>

text \<open>The packets of a number of reads, with their addresses.\<close>

fun xudp_recv :: "'r io_read \<Rightarrow> nat \<Rightarrow> 'r \<Rightarrow> pool \<Rightarrow> ((Destination option \<times> byte list) list \<times> 'r \<times> pool) option" where
  "xudp_recv rd 0 r p = Some ([], r, p)"
| "xudp_recv rd (Suc n) r p =
     Option.bind (XR_ReadMultiBuffer rd r p) (\<lambda>(mb, e, r', p').
       case mb of
         [Some b] \<Rightarrow> if e \<noteq> None then None else map_option (\<lambda>(xs, x). ((b_UDP b, content b) # xs, x)) (xudp_recv rd n r' p')
       | _ \<Rightarrow> None)"

definition xudp_got :: "byte \<times> 16 word \<times> Destination option \<times> byte list \<Rightarrow> Destination option \<times> byte list" where
  "xudp_got = (\<lambda>(st, sid, udp, d). (map_option (\<lambda>u. UDPDestination (d_Address u) (d_Port u)) udp, d))"

context io_reader
begin

lemma xudp_recv_ok:
  "rinv r \<Longrightarrow> pool_ok p \<Longrightarrow> \<forall>f \<in> set fs. xudp_frame_ok f \<Longrightarrow> fs = [] \<or> xudp_delivered (last fs) \<Longrightarrow> pending r = concat (map xudp_sent fs) @ rest \<Longrightarrow>
    \<exists>r' p'. xudp_recv rd (length (filter xudp_delivered fs)) r p = Some (map xudp_got (filter xudp_delivered fs), r', p')
      \<and> rinv r' \<and> pending r' = rest \<and> pool_ok p'"
proof (induction fs arbitrary: r p)
  case (Cons f fs)
  obtain st sid udp d where f: "f = (st, sid, udp, d)" by (cases f) auto
  have "xudp_frame_ok (st, sid, udp, d)" "pending r = xudp_sent (st, sid, udp, d) @ concat (map xudp_sent fs) @ rest"
    using Cons.prems(3,5) f by simp_all
  from XR_one_frame [OF Cons.prems(1,2) this] obtain b r1 p1 where one: "XR_ReadMultiBuffer rd r p
      = (if xudp_delivered f then Some ([Some b], None, r1, p1) else XR_ReadMultiBuffer rd r1 p1)"
    "xudp_delivered f \<longrightarrow> (b_UDP b, content b) = xudp_got f" "rinv r1" "pending r1 = concat (map xudp_sent fs) @ rest" "pool_ok p1"
    unfolding f xudp_got_def by (metis (mono_tags, lifting) case_prod_conv)
  have ih: "\<exists>r' p'. xudp_recv rd (length (filter xudp_delivered fs)) r1 p1 = Some (map xudp_got (filter xudp_delivered fs), r', p')
      \<and> rinv r' \<and> pending r' = rest \<and> pool_ok p'"
    by (rule Cons.IH [OF one(3,5)]) (use Cons.prems(3,4) one(4) in \<open>auto split: if_splits\<close>)
  show ?case
  proof (cases "xudp_delivered f")
    case True
    then show ?thesis using one(1,2) ih by auto
  next
    case False
    then have "fs \<noteq> []" "xudp_delivered (last fs)" using Cons.prems(4) by (auto split: if_splits)
    then have "filter xudp_delivered fs \<noteq> []" by (auto simp: filter_empty_conv)
    then obtain n where "length (filter xudp_delivered fs) = Suc n" by (cases "length (filter xudp_delivered fs)") auto
    then show ?thesis using False one(1) ih by simp
  qed
qed simp

end

text \<open>One frame per packet: the mux writer of a packet session.\<close>

context mb_writer
begin

lemma MW_loop_packets:
  assumes "packets_ok mb" "\<forall>x \<in> set mb. pcontent x \<noteq> []" "writer_ok w" "mw_transferType w = TransferTypePacket" "pool_ok p"
  shows "\<exists>e w' p'. MW_loop wmb w mb p = Some (e, w', p') \<and> pool_ok p'
    \<and> (e = None \<longrightarrow> sent (mw_writer w') = sent (mw_writer w) @ mux_frames w (map (\<lambda>x. [x]) mb))"
  using assms
proof (induction mb arbitrary: w p)
  case Nil
  have "MW_loop wmb w [] p = Some (None, w, snd (ReleaseMulti [] p))" by (subst MW_loop.simps) simp
  then show ?case using Nil.prems(5) ReleaseMulti_pool_ok by auto
next
  case (Cons x mb)
  have pk: "packets_ok [x]" "packets_ok mb" using Cons.prems(1) packets_ok_append [of "[x]" mb] by simp_all
  obtain b where x: "x = Some b" "length (content b) \<le> 8192" using pk(1) by (auto simp: packets_ok_def)
  have l: "length (mcontent [x]) \<le> 8192" using x by simp
  obtain e w1 p1 where d: "writeData wmb w [x] p = Some (e, w1, p1)" "pool_ok p1" "w1 = w\<lparr>mw_followup := True, mw_writer := mw_writer w1\<rparr>"
    "e = None \<longrightarrow> sent (mw_writer w1) = sent (mw_writer w) @ frame_bytes (data_meta w) (chunk_udp [x]) (mcontent [x])"
    by (rule writeData_sends [OF pk(1) _ Cons.prems(3) l Cons.prems(5)]) simp_all
  have "mcontent (x # mb) \<noteq> []" using Cons.prems(2) x(1) by simp
  then have ne: "\<not> MB_IsEmpty (x # mb)" using MB_IsEmpty_mcontent [OF packets_okD(1) [OF Cons.prems(1)]] by blast
  have eq: "MW_loop wmb w (x # mb) p = (case e of Some y \<Rightarrow> Some (Some y, w1, snd (ReleaseMulti mb p1)) | None \<Rightarrow> MW_loop wmb w1 mb p1)"
    using ne d(1) Cons.prems(4) by (subst MW_loop.simps) (simp add: next_chunk_def SplitFirst_def)
  have w1: "mw_followup w1" "mw_transferType w1 = TransferTypePacket" using d(3) Cons.prems(4)
    by (metis (no_types, lifting) MuxWriter.select_convs MuxWriter.surjective MuxWriter.update_convs(2) MuxWriter.update_convs(4))+
  then have ok: "writer_ok w1" by (simp add: writer_ok_def)
  have mf: "mux_frames w1 cs = mux_frames (w\<lparr>mw_followup := True\<rparr>) cs" for cs using d(3) mux_frames_writer by metis
  show ?case
  proof (cases e)
    case (Some y)
    then show ?thesis using eq d(2) ReleaseMulti_pool_ok by auto
  next
    case None
    then show ?thesis using Cons.IH [OF pk(2) _ ok w1(2) d(2)] Cons.prems(2) eq d(4) mf by auto
  qed
qed

end

lemma mux_frames_cong:
  "mw_dest v = mw_dest w \<Longrightarrow> mw_id v = mw_id w \<Longrightarrow> mw_followup v = mw_followup w \<Longrightarrow> mw_globalID v = mw_globalID w \<Longrightarrow>
    mw_inbound v = mw_inbound w \<Longrightarrow> mux_frames v cs = mux_frames w cs"
proof (induction cs arbitrary: v w)
  case (Cons c cs)
  have "data_meta v = data_meta w" using Cons.prems by (simp add: data_meta_def getNextFrameMeta_def Let_def)
  then show ?case using Cons.IH [of "v\<lparr>mw_followup := True\<rparr>" "w\<lparr>mw_followup := True\<rparr>"] Cons.prems by simp
qed simp

definition xudp_as_mux :: "'w PacketWriter \<Rightarrow> 'w MuxWriter" where
  "xudp_as_mux w = (NewMuxWriter 0 (xw_Dest w) (xw_Writer w) TransferTypePacket (xw_GlobalID w) None)
     \<lparr>mw_followup := (d_Network (xw_Dest w) \<noteq> Network_UDP)\<rparr>"

lemma xudp_as_mux_frames: "mux_frames (xudp_as_mux w) cs = mux_frames (xudp_mux (xw_Dest w) (xw_GlobalID w)) cs"
  by (rule mux_frames_cong) (simp_all add: xudp_as_mux_def xudp_mux_def NewMuxWriter_def)

lemma GetGlobalID_length: "length (GetGlobalID digest cone inbound) = 8"
  by (auto simp: GetGlobalID_def Let_def min_def split: option.splits)

text \<open>
  XUDP speaks mux: the packets \<open>xudp.PacketWriter\<close> sends are, byte for byte, the frames a mux writer of session 0 sends for the same
  packets in packet mode, the first one opening the session with its target and global id; empty packets and those longer than 7526
  bytes are left out, and the writer has opened its session once a packet was sent.
\<close>

theorem xudp_writer_is_mux_writer:
  assumes "packets_ok mb" "xudp_dest_ok (xw_Dest w) (xw_GlobalID w)" "pool_ok p" "pool_ok q" "filter xudp_packet mb \<noteq> []"
    "int (length (mux_frames (xudp_as_mux w) (map (\<lambda>x. [x]) (filter xudp_packet mb)))) < 2147483648"
  shows "\<exists>e w' p' e2 v q'. XW_WriteMultiBuffer (SequentialWriter_WriteMultiBuffer sink_Write) w mb p = Some (e, w', p')
    \<and> MW_WriteMultiBuffer (SequentialWriter_WriteMultiBuffer sink_Write) (xudp_as_mux w) (filter xudp_packet mb) q = Some (e2, v, q')
    \<and> (e = None \<longrightarrow> e2 = None \<longrightarrow> sk_out (xw_Writer w') = sk_out (mw_writer v))
    \<and> d_Network (xw_Dest w') \<noteq> Network_UDP \<and> pool_ok p' \<and> pool_ok q'"
proof -
  let ?fs = "filter xudp_packet mb"
  let ?bytes = "mux_frames (xudp_as_mux w) (map (\<lambda>x. [x]) ?fs)"
  have i: "mb_inv mb" "addrs_ok mb" "\<forall>x \<in> set mb. length (pcontent x) \<le> 8192"
    using assms(1) by (auto simp: packets_ok_def mb_inv_def addrs_ok_def)
  obtain fs dest' p1 where f: "xudp_frames (xw_Dest w) (xw_GlobalID w) mb p = Some (fs, dest', p1)" "mb_inv fs" "None \<notin> set fs" "pool_ok p1"
    "d_Network dest' \<noteq> Network_UDP" "mcontent fs = ?bytes"
    using xudp_frames_ok [OF i(1,2) assms(2,3) i(3)] assms(5) unfolding xudp_as_mux_frames by auto
  have bytes: "?bytes \<noteq> []" using assms(5) by (cases ?fs) (simp_all add: frame_bytes_def PutUint16_def)
  obtain e s p2 k where s: "SequentialWriter_WriteMultiBuffer sink_Write (xw_Writer w) fs p1 = Some (e, s, p2)" "pool_ok p2"
    "sk_out s = sk_out (xw_Writer w) @ take k (mcontent fs)" "e = None \<longrightarrow> k = length (mcontent fs)"
    using snk.seqw.write_mb [OF f(2,3) _ f(4), of "xw_Writer w"] assms(6) f(6) by metis
  let ?w = "w\<lparr>xw_Dest := dest', xw_Writer := s\<rparr>"
  have x: "XW_WriteMultiBuffer (SequentialWriter_WriteMultiBuffer sink_Write) w mb p = Some (e, ?w, snd (ReleaseMulti mb p2))"
    using f(1,2,6) s(1) bytes by (simp add: XW_WriteMultiBuffer_def)
  have pk: "packets_ok ?fs" "\<forall>x \<in> set ?fs. pcontent x \<noteq> []" using assms(1) by (auto simp: packets_ok_def xudp_packet_def)
  have wo: "writer_ok (xudp_as_mux w)" "mw_transferType (xudp_as_mux w) = TransferTypePacket" "mw_writer (xudp_as_mux w) = xw_Writer w"
    using assms(2) by (auto simp: writer_ok_def xudp_as_mux_def NewMuxWriter_def xudp_dest_ok_def is_tcp_udp_def)
  have "mcontent ?fs \<noteq> []" using assms(5) pk(2) by (cases ?fs) (auto simp: mcontent_def)
  then have "MW_WriteMultiBuffer (SequentialWriter_WriteMultiBuffer sink_Write) (xudp_as_mux w) ?fs q
      = MW_loop (SequentialWriter_WriteMultiBuffer sink_Write) (xudp_as_mux w) ?fs q"
    using packets_okD(1) [OF pk(1)] by (simp add: MW_WriteMultiBuffer_def)
  with snk.seqw.MW_loop_packets [OF pk wo(1,2) assms(4)] wo(3)
  obtain e2 v q' where m: "MW_WriteMultiBuffer (SequentialWriter_WriteMultiBuffer sink_Write) (xudp_as_mux w) ?fs q = Some (e2, v, q')" "pool_ok q'"
    "e2 = None \<longrightarrow> sk_out (mw_writer v) = sk_out (xw_Writer w) @ ?bytes" by auto
  show ?thesis using x m s(2-4) f(5,6) ReleaseMulti_pool_ok [OF s(2), of mb]
    by (intro exI [of _ e] exI [of _ ?w] exI [of _ "snd (ReleaseMulti mb p2)"] exI [of _ e2] exI [of _ v] exI [of _ q']) auto
qed

definition demo_xudp :: "sink PacketWriter" where
  "demo_xudp = \<lparr>xw_Writer = \<lparr>sk_out = [], sk_quota = 99\<rparr>, xw_Dest = UDPDestination (Some (ipv4Address [10, 0, 0, 1])) 53,
     xw_GlobalID = GetGlobalID (\<lambda>_. [1, 2, 3]) None None\<rparr>"

definition demo_packets :: MultiBuffer where
  "demo_packets = map (\<lambda>d. Some (append_to (Buffer_of (replicate 8192 0)) d)) [[1, 2], [], [3]]"

lemma demo_packets_ok: "packets_ok demo_packets" "filter xudp_packet demo_packets \<noteq> []" "length (filter xudp_packet demo_packets) \<le> 3"
  "\<forall>x \<in> set demo_packets. length (pcontent x) \<le> 2 \<and> (\<forall>b. x = Some b \<longrightarrow> b_UDP b = None)"
  by (auto simp: demo_packets_def packets_ok_def xudp_packet_def)

theorem xudp_writer_is_mux_writer_witness:
  "\<exists>e w' p' e2 v q'. XW_WriteMultiBuffer (SequentialWriter_WriteMultiBuffer sink_Write) demo_xudp demo_packets [] = Some (e, w', p')
    \<and> MW_WriteMultiBuffer (SequentialWriter_WriteMultiBuffer sink_Write) (xudp_as_mux demo_xudp) (filter xudp_packet demo_packets) [] = Some (e2, v, q')
    \<and> (e = None \<longrightarrow> e2 = None \<longrightarrow> sk_out (xw_Writer w') = sk_out (mw_writer v))"
proof -
  have d: "xudp_dest_ok (xw_Dest demo_xudp) (xw_GlobalID demo_xudp)"
    by (simp add: demo_xudp_def xudp_dest_ok_def UDPDestination_def dest_ok_def encodable_def GetGlobalID_length)
  have f: "filter xudp_packet demo_packets = map (\<lambda>d. Some (append_to (Buffer_of (replicate 8192 0)) d)) [[1, 2], [3]]"
    by (simp add: demo_packets_def xudp_packet_def)
  have l: "int (length (mux_frames (xudp_as_mux demo_xudp) (map (\<lambda>x. [x]) (filter xudp_packet demo_packets)))) < 2147483648"
    unfolding f
    by (simp add: xudp_as_mux_def demo_xudp_def NewMuxWriter_def frame_bytes_def meta_bytes_def tail_bytes_def data_meta_def
        getNextFrameMeta_def zero_meta_def chunk_udp_def UDPDestination_def dest_bytes_def addr_port_bytes_def addr_bytes_def Let_def
        SessionStatusNew_def SessionStatusKeep_def)
  have p: "pool_ok []" by (simp add: pool_ok_def)
  from xudp_writer_is_mux_writer [OF demo_packets_ok(1) d p p demo_packets_ok(2) l] show ?thesis by blast
qed

text \<open>
  \<open>xudp.PacketReader\<close> gives back exactly the packets of an open session: of any frames a mux peer sends for it, in any cut, it delivers the
  nonempty \<open>Keep\<close> frames one by one and in order, each with the address it carries, skips keep-alive frames and empty ones together
  with their data, and then stands at the byte after the last packet.
\<close>

theorem xudp_reader_packets:
  assumes "\<forall>f \<in> set fs. xudp_frame_ok f" "fs \<noteq> []" "xudp_delivered (last fs)" "pool_ok p" "concat (chunks c) = concat (map xudp_sent fs) @ rest"
  shows "\<exists>c' p'. xudp_recv conn_read (length (filter xudp_delivered fs)) c p = Some (map xudp_got (filter xudp_delivered fs), c', p')
    \<and> concat (chunks c') = rest \<and> pool_ok p'"
  using conn_rd.xudp_recv_ok [OF TrueI assms(4,1) _ assms(5)] assms(3) by blast

theorem xudp_reader_packets_witness:
  "\<exists>c' p'. xudp_recv conn_read 2 \<lparr>chunks = [[0, 4, 0], [0, 2, 1, 0, 1, 7], [0, 4, 0, 0, 4, 1, 0, 1, 9, 0, 4, 0, 0, 2, 1, 0, 2, 5, 6]], closing = EOF\<rparr> []
     = Some ([(None, [7]), (None, [5, 6])], c', p')"
proof -
  let ?fs = "[(SessionStatusKeep, 0, None, [7]), (SessionStatusKeepAlive, 0, None, [9]), (SessionStatusKeep, 0, None, [5, 6])]"
  let ?c = "\<lparr>chunks = [[0, 4, 0], [0, 2, 1, 0, 1, 7], [0, 4, 0, 0, 4, 1, 0, 1, 9, 0, 4, 0, 0, 2, 1, 0, 2, 5, 6]], closing = EOF\<rparr>"
  have k: "SessionStatusKeepAlive \<noteq> SessionStatusKeep" by (simp add: SessionStatusKeepAlive_def SessionStatusKeep_def)
  have b: "\<forall>f \<in> set ?fs. xudp_frame_ok f" "xudp_delivered (last ?fs)" "?fs \<noteq> []"
    "filter xudp_delivered ?fs = [(SessionStatusKeep, 0, None, [7]), (SessionStatusKeep, 0, None, [5, 6])]"
    using k by (simp_all add: xudp_frame_ok_def xudp_delivered_def)
  have "concat (chunks ?c) = concat (map xudp_sent ?fs) @ []"
    by (simp add: xudp_sent_def frame_bytes_def xudp_status_bytes PutUint16_def SessionStatusKeepAlive_def SessionStatusKeep_def)
  from xudp_reader_packets [OF b(1,3,2) _ this, of "[]", unfolded b(4)]
  have "\<exists>c' p'. xudp_recv conn_read (Suc (Suc 0)) ?c [] = Some ([(None, [7]), (None, [5, 6])], c', p') \<and> concat (chunks c') = [] \<and> pool_ok p'"
    by (simp add: xudp_got_def pool_ok_def del: xudp_recv.simps)
  then show ?thesis unfolding numeral_2_eq_2 by blast
qed

end
