(* ===== verification/Vless_Conn.thy ===== *)
theory Vless_Conn
  imports Buf_IO
begin

text \<open>
  The encrypted connections of VLESS, \<open>proxy/vless/encryption/common.go\<close> and \<open>xor.go\<close>: \<open>CommonConn\<close> turns a byte stream into sealed records and
  back, \<open>XorConn\<close> hides the record headers under a key stream. The ciphers are parameters: \<open>crypt\<close> holds sealing, opening and the
  derivation of a cipher from a context and a key; a \<open>cipher.Stream\<close> is its key stream and a position in it.
\<close>

section \<open>Nonces and AEAD\<close>

record 'k crypt =
  cr_seal :: "'k \<Rightarrow> byte list \<Rightarrow> byte list \<Rightarrow> byte list \<Rightarrow> byte list"
  cr_open :: "'k \<Rightarrow> byte list \<Rightarrow> byte list \<Rightarrow> byte list \<Rightarrow> goerr + byte list"
  cr_derive :: "byte list \<Rightarrow> byte list \<Rightarrow> bool \<Rightarrow> 'k"

record 'k AEAD =
  ae_AEAD :: 'k
  ae_Nonce :: "byte list"

definition NewAEAD :: "'k crypt \<Rightarrow> byte list \<Rightarrow> byte list \<Rightarrow> bool \<Rightarrow> 'k AEAD" where
  "NewAEAD cr ctx key useAES = \<lparr>ae_AEAD = cr_derive cr ctx key useAES, ae_Nonce = replicate 12 0\<rparr>"

function inc_loop :: "nat \<Rightarrow> byte list \<Rightarrow> byte list" where
  "inc_loop i nonce =
     (if i < 12 then
        (let n = nonce[11 - i := nonce ! (11 - i) + 1]
         in if n ! (11 - i) \<noteq> 0 then n else inc_loop (Suc i) n)
      else nonce)"
  by pat_completeness auto
termination by (relation "measure (\<lambda>(i, _). 12 - i)") auto

definition IncreaseNonce :: "byte list \<Rightarrow> byte list" where
  "IncreaseNonce nonce = inc_loop 0 nonce"

definition MaxNonce :: "byte list" where
  "MaxNonce = replicate 12 255"

definition Seal :: "'k crypt \<Rightarrow> 'k AEAD \<Rightarrow> byte list option \<Rightarrow> byte list \<Rightarrow> byte list \<Rightarrow> byte list \<times> 'k AEAD" where
  "Seal cr a nonce plaintext additionalData =
     (let a1 = (if nonce = None then a\<lparr>ae_Nonce := IncreaseNonce (ae_Nonce a)\<rparr> else a);
          n = (case nonce of None \<Rightarrow> ae_Nonce a1 | Some m \<Rightarrow> m)
      in (cr_seal cr (ae_AEAD a) n plaintext additionalData, a1))"

definition Open :: "'k crypt \<Rightarrow> 'k AEAD \<Rightarrow> byte list option \<Rightarrow> byte list \<Rightarrow> byte list \<Rightarrow> (goerr + byte list) \<times> 'k AEAD" where
  "Open cr a nonce ciphertext additionalData =
     (let a1 = (if nonce = None then a\<lparr>ae_Nonce := IncreaseNonce (ae_Nonce a)\<rparr> else a);
          n = (case nonce of None \<Rightarrow> ae_Nonce a1 | Some m \<Rightarrow> m)
      in (cr_open cr (ae_AEAD a) n ciphertext additionalData, a1))"

section \<open>Record headers\<close>

definition EncodeHeader :: "int \<Rightarrow> byte list" where
  "EncodeHeader l = [23, 3, 3, hi_byte l, byte_of l]"

text \<open>The length is returned with the error too; a slice of less than five bytes panics.\<close>

definition DecodeHeader :: "byte list \<Rightarrow> (int \<times> goerr option) option" where
  "DecodeHeader h =
     (if length h < 5 then None
      else let l = (if h ! 0 \<noteq> 23 \<or> h ! 1 \<noteq> 3 \<or> h ! 2 \<noteq> 3 then 0 else be_int (h ! 3) (h ! 4))
           in Some (l, if l < 17 \<or> l > 16640 then Some (ENew ''invalid header: '' None) else None))"

section \<open>CommonConn\<close>

record ClientInstance =
  cl_PfsKey :: "byte list"
  cl_Expire :: int

text \<open>
  \<open>cc_input\<close> is what is left of the last record. The scratch space \<open>rawInput\<close> it may point into is filled again only when it is empty,
  so it is not part of the state.
\<close>

record ('c, 'k) CommonConn =
  cc_Conn :: 'c
  cc_UseAES :: bool
  cc_Client :: "ClientInstance option"
  cc_UnitedKey :: "byte list"
  cc_PreWrite :: "byte list option"
  cc_AEAD :: "'k AEAD option"
  cc_PeerAEAD :: "'k AEAD option"
  cc_PeerPadding :: "byte list option"
  cc_input :: "byte list"

definition NewCommonConn :: "'c \<Rightarrow> bool \<Rightarrow> ('c, 'k) CommonConn" where
  "NewCommonConn c useAES = \<lparr>cc_Conn = c, cc_UseAES = useAES, cc_Client = None, cc_UnitedKey = [], cc_PreWrite = None,
     cc_AEAD = None, cc_PeerAEAD = None, cc_PeerPadding = None, cc_input = []\<rparr>"

text \<open>One record of at most 8192 bytes, with what has to be written before it; a nil \<open>AEAD\<close> panics.\<close>

definition CC_record :: "'k crypt \<Rightarrow> ('c, 'k) CommonConn \<Rightarrow> byte list \<Rightarrow> (byte list \<times> ('c, 'k) CommonConn) option" where
  "CC_record cr c d =
     (case cc_AEAD c of
        None \<Rightarrow> None
      | Some a \<Rightarrow>
          (let h = EncodeHeader (int (length d) + 16);
               isMax = (ae_Nonce a = MaxNonce);
               (ct, a1) = Seal cr a None d h;
               headerAndData = h @ ct;
               a2 = (if isMax then NewAEAD cr headerAndData (cc_UnitedKey c) (cc_UseAES c) else a1);
               out = (case cc_PreWrite c of None \<Rightarrow> headerAndData | Some pre \<Rightarrow> pre @ headerAndData)
           in Some (out, c\<lparr>cc_AEAD := Some a2, cc_PreWrite := None\<rparr>)))"

function CC_Write_loop :: "'k crypt \<Rightarrow> 'c io_write \<Rightarrow> ('c, 'k) CommonConn \<Rightarrow> byte list \<Rightarrow> (goerr option \<times> ('c, 'k) CommonConn) option" where
  "CC_Write_loop cr wr c b =
     (if b = [] then Some (None, c)
      else Option.bind (CC_record cr c (take 8192 b)) (\<lambda>x. case x of (out, c1) \<Rightarrow>
        Option.bind (wr (cc_Conn c1) out) (\<lambda>y. case y of (_, err, s) \<Rightarrow>
          (case err of
             Some e \<Rightarrow> Some (Some e, c1\<lparr>cc_Conn := s\<rparr>)
           | None \<Rightarrow> CC_Write_loop cr wr (c1\<lparr>cc_Conn := s\<rparr>) (drop 8192 b)))))"
  by pat_completeness auto
termination by (relation "measure (\<lambda>(_, _, _, b). length b)") auto

definition CC_Write :: "'k crypt \<Rightarrow> 'c io_write \<Rightarrow> ('c, 'k) CommonConn io_write" where
  "CC_Write cr wr c b =
     (if b = [] then Some (0, None, c)
      else map_option (\<lambda>(e, c'). (if e = None then int (length b) else 0, e, c')) (CC_Write_loop cr wr c b))"

text \<open>
  The first read of a client's 0-RTT connection: the server's random bytes give the peer's cipher and, under a \<open>XorConn\<close>, its key stream
  (\<open>setCTR\<close>, which leaves every other connection as it is).
\<close>

definition CC_random ::
  "'k crypt \<Rightarrow> 'c io_read \<Rightarrow> (byte list \<Rightarrow> byte list \<Rightarrow> 'c \<Rightarrow> 'c) \<Rightarrow> ('c, 'k) CommonConn \<Rightarrow> (goerr option \<times> ('c, 'k) CommonConn) option" where
  "CC_random cr rd setCTR c =
     (case cc_PeerAEAD c of
        Some _ \<Rightarrow> Some (None, c)
      | None \<Rightarrow> map_option (\<lambda>(serverRandom, err, s).
          case err of
            Some e \<Rightarrow> (Some e, c\<lparr>cc_Conn := s\<rparr>)
          | None \<Rightarrow> (None, c\<lparr>cc_PeerAEAD := Some (NewAEAD cr serverRandom (cc_UnitedKey c) (cc_UseAES c)),
              cc_Conn := setCTR (cc_UnitedKey c) serverRandom s\<rparr>)) (ReadFull rd (cc_Conn c) 16))"

text \<open>The peer's padding before the first record of a client's 1-RTT connection.\<close>

definition CC_padding :: "'k crypt \<Rightarrow> 'c io_read \<Rightarrow> ('c, 'k) CommonConn \<Rightarrow> (goerr option \<times> ('c, 'k) CommonConn) option" where
  "CC_padding cr rd c =
     (case cc_PeerPadding c of
        None \<Rightarrow> Some (None, c)
      | Some pad \<Rightarrow>
          Option.bind (ReadFull rd (cc_Conn c) (length pad)) (\<lambda>(bs, err, s).
            case err of
              Some e \<Rightarrow> Some (Some e, c\<lparr>cc_Conn := s\<rparr>)
            | None \<Rightarrow>
                (case cc_PeerAEAD c of
                   None \<Rightarrow> None
                 | Some a \<Rightarrow>
                     (case Open cr a None bs [] of (res, a1) \<Rightarrow>
                        (let c1 = c\<lparr>cc_Conn := s, cc_PeerAEAD := Some a1\<rparr>
                         in case res of Inl e \<Rightarrow> Some (Some e, c1) | Inr _ \<Rightarrow> Some (None, c1\<lparr>cc_PeerPadding := None\<rparr>))))))"

text \<open>What a header that is no record header means: for a client's 0-RTT the server has no such session any more.\<close>

definition CC_bad_header :: "int \<Rightarrow> goerr \<Rightarrow> ('c, 'k) CommonConn \<Rightarrow> goerr \<times> ('c, 'k) CommonConn" where
  "CC_bad_header now e c =
     (case cc_Client c of
        None \<Rightarrow> (e, c)
      | Some cl \<Rightarrow> (ENew ''new handshake needed'' None,
          if take (length (cl_PfsKey cl)) (cc_UnitedKey c) = cl_PfsKey cl then c\<lparr>cc_Client := Some (cl\<lparr>cl_Expire := now\<rparr>)\<rparr> else c))"

text \<open>One record: its header, its data, the opened text.\<close>

definition CC_next :: "'k crypt \<Rightarrow> 'c io_read \<Rightarrow> int \<Rightarrow> ('c, 'k) CommonConn \<Rightarrow> ((goerr + byte list) \<times> ('c, 'k) CommonConn) option" where
  "CC_next cr rd now c =
     Option.bind (ReadFull rd (cc_Conn c) 5) (\<lambda>(peerHeader, err, s).
       let c1 = c\<lparr>cc_Conn := s\<rparr>
       in case err of
            Some e \<Rightarrow> Some (Inl e, c1)
          | None \<Rightarrow> Option.bind (DecodeHeader peerHeader) (\<lambda>(l, err).
              case err of
                Some e \<Rightarrow> (case CC_bad_header now e c1 of (e', c') \<Rightarrow> Some (Inl e', c'))
              | None \<Rightarrow>
                  Option.bind (ReadFull rd s (nat l)) (\<lambda>(peerData, err, s2).
                    let c2 = c1\<lparr>cc_Client := None, cc_Conn := s2\<rparr>
                    in case err of
                         Some e \<Rightarrow> Some (Inl e, c2)
                       | None \<Rightarrow>
                           (case cc_PeerAEAD c of
                              None \<Rightarrow> None
                            | Some a \<Rightarrow>
                                (case Open cr a None peerData peerHeader of (res, a1) \<Rightarrow>
                                   Some (res, c2\<lparr>cc_PeerAEAD :=
                                     Some (if ae_Nonce a = MaxNonce then NewAEAD cr (peerHeader @ peerData) (cc_UnitedKey c) (cc_UseAES c) else a1)\<rparr>))))))"

definition CC_Read :: "'k crypt \<Rightarrow> 'c io_read \<Rightarrow> (byte list \<Rightarrow> byte list \<Rightarrow> 'c \<Rightarrow> 'c) \<Rightarrow> int \<Rightarrow> ('c, 'k) CommonConn io_read" where
  "CC_Read cr rd setCTR now c n =
     (if n = 0 then Some ([], None, c)
      else Option.bind (CC_random cr rd setCTR c) (\<lambda>(e1, c1).
        if e1 \<noteq> None then Some ([], e1, c1)
        else Option.bind (CC_padding cr rd c1) (\<lambda>(e2, c2).
          if e2 \<noteq> None then Some ([], e2, c2)
          else if cc_input c2 \<noteq> [] then Some (take n (cc_input c2), None, c2\<lparr>cc_input := drop n (cc_input c2)\<rparr>)
          else map_option (\<lambda>(res, c3).
                 case res of
                   Inl e \<Rightarrow> ([], Some e, c3)
                 | Inr dst \<Rightarrow> (take n dst, None, c3\<lparr>cc_input := drop n dst\<rparr>)) (CC_next cr rd now c2))))"

section \<open>XorConn\<close>

text \<open>A \<open>cipher.Stream\<close> adds its key stream byte by byte; calls go on where the last one stopped.\<close>

record ctr =
  ct_stream :: "nat \<Rightarrow> byte"
  ct_pos :: nat

definition XORKeyStream :: "ctr \<Rightarrow> byte list \<Rightarrow> byte list \<times> ctr" where
  "XORKeyStream c p = (map2 (XOR) p (map (ct_stream c) [ct_pos c ..< ct_pos c + length p]), c\<lparr>ct_pos := ct_pos c + length p\<rparr>)"

record 'c XorConn =
  xc_Conn :: 'c
  xc_CTR :: "ctr option"
  xc_PeerCTR :: "ctr option"
  xc_OutSkip :: int
  xc_OutHeader :: "byte list"
  xc_InSkip :: int
  xc_InHeader :: "byte list"

definition NewXorConn :: "'c \<Rightarrow> ctr option \<Rightarrow> ctr option \<Rightarrow> int \<Rightarrow> int \<Rightarrow> 'c XorConn" where
  "NewXorConn c ctr peerCTR outSkip inSkip = \<lparr>xc_Conn = c, xc_CTR = ctr, xc_PeerCTR = peerCTR, xc_OutSkip = outSkip, xc_OutHeader = [],
     xc_InSkip = inSkip, xc_InHeader = []\<rparr>"

text \<open>
  The loop of both directions: skip the rest of a record, then run the five header bytes through the key stream. The header is collected
  in clear, i.e. before the key stream when writing and after it when reading. A nil stream, a negative skip and a
  header that is too long panic.
\<close>

function xor_walk :: "bool \<Rightarrow> ctr option \<Rightarrow> int \<Rightarrow> byte list \<Rightarrow> byte list \<Rightarrow> (byte list \<times> ctr option \<times> int \<times> byte list) option" where
  "xor_walk inb ctr skip hdr p =
     (if int (length p) \<le> skip then Some (p, ctr, skip - int (length p), hdr)
      else if skip < 0 \<or> length hdr > 5 then None
      else case ctr of
        None \<Rightarrow> None
      | Some c \<Rightarrow>
          (let q = drop (nat skip) p; need = 5 - length hdr
           in if length q < need then
                (case XORKeyStream c q of (x, c') \<Rightarrow>
                   Some (take (nat skip) p @ x, Some c', 0, hdr @ (if inb then x else q)))
              else
                (case XORKeyStream c (take need q) of (x, c') \<Rightarrow>
                   Option.bind (DecodeHeader (hdr @ (if inb then x else take need q))) (\<lambda>(l, _).
                     map_option (\<lambda>(y, st). (take (nat skip) p @ x @ y, st)) (xor_walk inb (Some c') l [] (drop need q))))))"
  by pat_completeness auto
termination by (relation "measure (\<lambda>(_, _, _, h, p). length p + length h)") auto

definition XC_Write :: "'c io_write \<Rightarrow> 'c XorConn io_write" where
  "XC_Write wr c b =
     (if b = [] then Some (0, None, c)
      else Option.bind (xor_walk False (xc_CTR c) (xc_OutSkip c) (xc_OutHeader c) b) (\<lambda>(out, ctr, skip, hdr).
        map_option (\<lambda>(_, e, s).
            (if e = None then int (length b) else 0, e, c\<lparr>xc_Conn := s, xc_CTR := ctr, xc_OutSkip := skip, xc_OutHeader := hdr\<rparr>))
          (wr (xc_Conn c) out)))"

definition XC_Read :: "'c io_read \<Rightarrow> 'c XorConn io_read" where
  "XC_Read rd c n =
     (if n = 0 then Some ([], None, c)
      else Option.bind (rd (xc_Conn c) n) (\<lambda>(bs, e, s).
        map_option (\<lambda>(out, ctr, skip, hdr).
            (out, e, c\<lparr>xc_Conn := s, xc_PeerCTR := ctr, xc_InSkip := skip, xc_InHeader := hdr\<rparr>))
          (xor_walk True (xc_PeerCTR c) (xc_InSkip c) (xc_InHeader c) bs)))"

section \<open>The key stream byte by byte\<close>

text \<open>
  What \<open>xor_walk\<close> computes, one byte at a time: \<open>k\<close> bytes are still to be skipped, \<open>h\<close> is the part of the header seen so far.
\<close>

fun xrun :: "bool \<Rightarrow> ctr \<Rightarrow> nat \<Rightarrow> byte list \<Rightarrow> byte list \<Rightarrow> byte list \<times> ctr \<times> nat \<times> byte list" where
  "xrun inb c k h [] = ([], c, k, h)"
| "xrun inb c k h (x # xs) =
     (if 0 < k then apfst (Cons x) (xrun inb c (k - 1) h xs)
      else let y = x XOR ct_stream c (ct_pos c);
               g = h @ [if inb then y else x];
               c' = c\<lparr>ct_pos := ct_pos c + 1\<rparr>
           in apfst (Cons y) (if length g < 5 then xrun inb c' 0 g xs else xrun inb c' (nat (fst (the (DecodeHeader g)))) [] xs))"

lemma apfst_append [simp]: "apfst ((@) []) z = z" "apfst (Cons x) (apfst ((@) ys) z) = apfst ((@) (x # ys)) z"
  by (cases z; simp)+

lemma length_xrun [simp]: "length (fst (xrun inb c k h xs)) = length xs"
  by (induction inb c k h xs rule: xrun.induct) (auto simp: Let_def)

lemma xrun_append:
  "xrun inb c k h (xs @ ys) = (case xrun inb c k h xs of (o1, c', k', h') \<Rightarrow> apfst ((@) o1) (xrun inb c' k' h' ys))"
  by (induction inb c k h xs rule: xrun.induct) (auto simp: Let_def split: prod.splits)

text \<open>Reading undoes writing, and both sides stay in the same state.\<close>

lemma xrun_inverse: "xrun True c k h (fst (xrun False c k h xs)) = (xs, snd (xrun False c k h xs))"
proof (induction "False" c k h xs rule: xrun.induct)
  case (2 c k h x xs)
  then show ?case by (cases "0 < k") (simp_all add: Let_def apfst_def xor.assoc)
qed simp

lemma xrun_header_short: "length h < 5 \<Longrightarrow> length (snd (snd (snd (xrun inb c k h xs)))) < 5"
  by (induction inb c k h xs rule: xrun.induct) (auto simp: Let_def)

lemma xrun_skip:
  "k \<le> length p \<Longrightarrow> xrun inb c k h p = apfst ((@) (take k p)) (xrun inb c 0 h (drop k p))"
proof (induction p arbitrary: k)
  case (Cons x p)
  then show ?case by (cases k) (simp_all only: take_0 drop_0 apfst_append, simp)
qed simp

lemma xrun_skip_all: "length p \<le> k \<Longrightarrow> xrun inb c k h p = (p, c, k - length p, h)"
proof (induction p arbitrary: k)
  case (Cons x p)
  then show ?case by (cases k) simp_all
qed simp

lemma XORKeyStream_Nil [simp]: "XORKeyStream c [] = ([], c)"
  by (simp add: XORKeyStream_def)

lemma XORKeyStream_Cons:
  "XORKeyStream c (x # p) = apfst (Cons (x XOR ct_stream c (ct_pos c))) (XORKeyStream (c\<lparr>ct_pos := ct_pos c + 1\<rparr>) p)"
proof -
  have "[ct_pos c ..< ct_pos c + length (x # p)] = ct_pos c # [ct_pos c + 1 ..< ct_pos c + 1 + length p]" by (simp add: upt_conv_Cons del: upt_Suc)
  then show ?thesis by (simp add: XORKeyStream_def)
qed

lemma length_XORKeyStream [simp]: "length (fst (XORKeyStream c p)) = length p"
  by (simp add: XORKeyStream_def)

text \<open>A part of the header, and the rest of it.\<close>

lemma xrun_part:
  "length h + length q < 5 \<Longrightarrow> xrun inb c 0 h q
     = (fst (XORKeyStream c q), snd (XORKeyStream c q), 0, h @ (if inb then fst (XORKeyStream c q) else q))"
proof (induction q arbitrary: c h)
  case (Cons x q)
  then show ?case by (simp add: XORKeyStream_Cons Let_def)
qed simp

lemma xrun_rest:
  "length h + length q = 5 \<Longrightarrow> q \<noteq> [] \<Longrightarrow> xrun inb c 0 h (q @ ys)
     = apfst ((@) (fst (XORKeyStream c q)))
         (xrun inb (snd (XORKeyStream c q)) (nat (fst (the (DecodeHeader (h @ (if inb then fst (XORKeyStream c q) else q)))))) [] ys)"
proof (induction q arbitrary: c h)
  case (Cons x q)
  let ?y = "x XOR ct_stream c (ct_pos c)" and ?c = "c\<lparr>ct_pos := ct_pos c + 1\<rparr>"
  let ?g = "h @ [if inb then ?y else x]"
  show ?case
  proof (cases "q = []")
    case True
    then show ?thesis using Cons.prems by (simp add: XORKeyStream_Cons Let_def)
  next
    case False
    then have l: "length ?g < 5" "length ?g + length q = 5" using Cons.prems by (cases q; simp)+
    have "xrun inb c 0 h ((x # q) @ ys) = apfst (Cons ?y) (xrun inb ?c 0 ?g (q @ ys))" using l(1) by (simp add: Let_def)
    also note Cons.IH [OF l(2) False]
    finally show ?thesis by (simp add: XORKeyStream_Cons)
  qed
qed simp

lemma DecodeHeader_total: "5 \<le> length h \<Longrightarrow> \<exists>l e. DecodeHeader h = Some (l, e) \<and> 0 \<le> l"
  using be_int_range by (auto simp: DecodeHeader_def Let_def)

lemma xor_walk_xrun:
  "length h < 5 \<Longrightarrow> xor_walk inb (Some c) (int k) h p = (case xrun inb c k h p of (out, c', k', h') \<Rightarrow> Some (out, Some c', int k', h'))"
proof (induction "length p" arbitrary: p c k h rule: less_induct)
  case less
  show ?case
  proof (cases "length p \<le> k")
    case True
    then show ?thesis by (subst xor_walk.simps) (simp add: xrun_skip_all of_nat_diff)
  next
    case False
    let ?q = "drop k p" and ?need = "5 - length h"
    have sk: "xrun inb c k h p = apfst ((@) (take k p)) (xrun inb c 0 h ?q)" using False by (intro xrun_skip) simp
    show ?thesis
    proof (cases "length ?q < ?need")
      case True
      then have "length h + length ?q < 5" by simp
      from xrun_part [OF this, of inb c] sk show ?thesis using False True less.prems
        by (subst xor_walk.simps) (simp add: Let_def case_prod_beta)
    next
      case n: False
      let ?x = "XORKeyStream c (take ?need ?q)"
      let ?g = "h @ (if inb then fst ?x else take ?need ?q)"
      have g: "length h + length (take ?need ?q) = 5" "take ?need ?q \<noteq> []" using n less.prems False by auto
      then have "length ?g = 5" by simp
      then obtain l e where d: "DecodeHeader ?g = Some (l, e)" "0 \<le> l" using DecodeHeader_total [of ?g] by auto
      have r: "xrun inb c 0 h ?q = apfst ((@) (fst ?x)) (xrun inb (snd ?x) (nat l) [] (drop ?need ?q))"
        using xrun_rest [OF g, of inb c "drop ?need ?q", unfolded append_take_drop_id] d(1) by simp
      have "length (drop ?need ?q) < length p" using g False less.prems by simp
      from less.hyps [OF this, of "[]" "snd ?x" "nat l"] d(2)
      have ih: "xor_walk inb (Some (snd ?x)) l [] (drop ?need ?q)
          = (case xrun inb (snd ?x) (nat l) [] (drop ?need ?q) of (out, c', k', h') \<Rightarrow> Some (out, Some c', int k', h'))" by simp
      have "xor_walk inb (Some c) (int k) h p
          = map_option (\<lambda>(y, st). (take k p @ fst ?x @ y, st)) (xor_walk inb (Some (snd ?x)) l [] (drop ?need ?q))"
        using False n less.prems d(1) by (subst xor_walk.simps) (simp add: Let_def case_prod_beta)
      then show ?thesis unfolding ih sk r by (simp add: apfst_def case_prod_beta map_prod_def)
    qed
  qed
qed

section \<open>XorConn as a reader and a writer\<close>

definition xc_in_ok :: "'c XorConn \<Rightarrow> bool" where
  "xc_in_ok x \<longleftrightarrow> xc_PeerCTR x \<noteq> None \<and> 0 \<le> xc_InSkip x \<and> length (xc_InHeader x) < 5"

definition xc_clear :: "'c XorConn \<Rightarrow> byte list \<Rightarrow> byte list" where
  "xc_clear x bs = fst (xrun True (the (xc_PeerCTR x)) (nat (xc_InSkip x)) (xc_InHeader x) bs)"

lemma XC_Read_clear:
  assumes "xc_in_ok x" "rd (xc_Conn x) n = Some (bs, e, s)" "0 < n"
  shows "\<exists>x'. XC_Read rd x n = Some (xc_clear x bs, e, x') \<and> xc_in_ok x' \<and> xc_Conn x' = s
    \<and> (\<forall>ys. xc_clear x (bs @ ys) = xc_clear x bs @ xc_clear x' ys)"
proof -
  obtain c where c: "xc_PeerCTR x = Some c" and h: "length (xc_InHeader x) < 5" and k: "int (nat (xc_InSkip x)) = xc_InSkip x"
    using assms(1) by (auto simp: xc_in_ok_def)
  obtain out c' k' h' where r: "xrun True c (nat (xc_InSkip x)) (xc_InHeader x) bs = (out, c', k', h')" by (metis prod_cases4)
  have "xor_walk True (Some c) (xc_InSkip x) (xc_InHeader x) bs = Some (out, Some c', int k', h')"
    using xor_walk_xrun [OF h, of True c "nat (xc_InSkip x)" bs] r k by simp
  then have "XC_Read rd x n = Some (out, e, x\<lparr>xc_Conn := s, xc_PeerCTR := Some c', xc_InSkip := int k', xc_InHeader := h'\<rparr>)"
    using assms(2,3) c by (simp add: XC_Read_def)
  moreover have "length h' < 5" using xrun_header_short [OF h, of True c "nat (xc_InSkip x)" bs] r by simp
  ultimately show ?thesis using c r by (simp add: xc_in_ok_def xc_clear_def xrun_append)
qed

context io_reader
begin

text \<open>A \<open>XorConn\<close> over a well-behaved reader is one: what it will deliver is the clear text of what is pending below.\<close>

lemma xor_reader:
  "io_reader (XC_Read rd) (\<lambda>x. rinv (xc_Conn x) \<and> xc_in_ok x) (\<lambda>x. xc_clear x (pending (xc_Conn x))) (\<lambda>x. final (xc_Conn x)) (\<lambda>x. weight (xc_Conn x))"
proof
  fix x :: "'r XorConn" and n :: nat
  assume x: "rinv (xc_Conn x) \<and> xc_in_ok x" and n: "0 < n"
  obtain bs e s where r: "rd (xc_Conn x) n = Some (bs, e, s)" "rinv s" "length bs \<le> n" "pending (xc_Conn x) = bs @ pending s"
    "final s = final (xc_Conn x)" "e = None \<longrightarrow> bs \<noteq> [] \<or> weight s < weight (xc_Conn x)" "\<forall>y. e = Some y \<longrightarrow> y = final (xc_Conn x) \<and> pending s = []"
    using read_ok [OF _ n] x by blast
  obtain x' where c: "XC_Read rd x n = Some (xc_clear x bs, e, x')" "xc_in_ok x'" "xc_Conn x' = s"
    "\<forall>ys. xc_clear x (bs @ ys) = xc_clear x bs @ xc_clear x' ys"
    using XC_Read_clear [where rd = rd, OF _ r(1) n] x by blast
  have l: "length (xc_clear x bs) = length bs" "xc_clear x' [] = []" by (simp_all add: xc_clear_def)
  then have "xc_clear x bs \<noteq> [] \<longleftrightarrow> bs \<noteq> []" by (metis length_0_conv)
  then show "\<exists>bs e r'. XC_Read rd x n = Some (bs, e, r') \<and> (rinv (xc_Conn r') \<and> xc_in_ok r') \<and> length bs \<le> n
      \<and> xc_clear x (pending (xc_Conn x)) = bs @ xc_clear r' (pending (xc_Conn r')) \<and> final (xc_Conn r') = final (xc_Conn x)
      \<and> (e = None \<longrightarrow> bs \<noteq> [] \<or> weight (xc_Conn r') < weight (xc_Conn x))
      \<and> (\<forall>y. e = Some y \<longrightarrow> y = final (xc_Conn x) \<and> xc_clear r' (pending (xc_Conn r')) = [])"
    using c r l by (intro exI [of _ "xc_clear x bs"] exI [of _ e] exI [of _ x']) auto
qed

end

interpretation conn_xor: io_reader "XC_Read conn_read" "\<lambda>x. True \<and> xc_in_ok x" "\<lambda>x. xc_clear x (concat (chunks (xc_Conn x)))"
  "\<lambda>x. closing (xc_Conn x)" "\<lambda>x. length (chunks (xc_Conn x))"
  by (rule conn_rd.xor_reader)

text \<open>
  A writer seen from above: as long as its calls succeed, the bytes it has taken are exactly those that were written.
\<close>

locale layer_writer =
  fixes wr :: "'w io_write"
    and winv :: "'w \<Rightarrow> bool"
    and taken :: "'w \<Rightarrow> byte list"
  assumes write_takes: "winv w \<Longrightarrow> wr w d = Some (n, None, w') \<Longrightarrow> winv w' \<and> taken w' = taken w @ d"

interpretation snk_layer: layer_writer sink_Write "\<lambda>_. True" sk_out
  by unfold_locales (auto simp: sink_Write_def split: if_splits)

text \<open>The state of the writing side is that of a reader that has seen all it sent.\<close>

definition xc_out_ok :: "('c \<Rightarrow> byte list) \<Rightarrow> ctr \<Rightarrow> nat \<Rightarrow> 'c XorConn \<Rightarrow> bool" where
  "xc_out_ok out c0 k0 x \<longleftrightarrow> (\<exists>c k h. xrun True c0 k0 [] (out (xc_Conn x)) = (fst (xrun True c0 k0 [] (out (xc_Conn x))), c, k, h)
     \<and> xc_CTR x = Some c \<and> xc_OutSkip x = int k \<and> xc_OutHeader x = h)"

context layer_writer
begin

lemma xor_writer:
  "layer_writer (XC_Write wr) (\<lambda>x. winv (xc_Conn x) \<and> xc_out_ok taken c0 k0 x) (\<lambda>x. fst (xrun True c0 k0 [] (taken (xc_Conn x))))"
proof
  fix x x' :: "'w XorConn" and d n
  assume x: "winv (xc_Conn x) \<and> xc_out_ok taken c0 k0 x" and w: "XC_Write wr x d = Some (n, None, x')"
  obtain p c k h where s: "xrun True c0 k0 [] (taken (xc_Conn x)) = (p, c, k, h)" "xc_CTR x = Some c" "xc_OutSkip x = int k" "xc_OutHeader x = h"
    using x by (auto simp: xc_out_ok_def)
  show "(winv (xc_Conn x') \<and> xc_out_ok taken c0 k0 x')
    \<and> fst (xrun True c0 k0 [] (taken (xc_Conn x'))) = fst (xrun True c0 k0 [] (taken (xc_Conn x))) @ d"
  proof (cases "d = []")
    case True
    then show ?thesis using w x by (simp add: XC_Write_def)
  next
    case False
    have h: "length h < 5" using xrun_header_short [of "[]" True c0 k0 "taken (xc_Conn x)"] s(1) by simp
    obtain out c' k' h' where r: "xrun False c k h d = (out, c', k', h')" by (metis prod_cases4)
    have "xor_walk False (Some c) (int k) h d = Some (out, Some c', int k', h')" using xor_walk_xrun [OF h, of False c k d] r by simp
    with w False s obtain m t where wt: "wr (xc_Conn x) out = Some (m, None, t)"
      "x' = x\<lparr>xc_Conn := t, xc_CTR := Some c', xc_OutSkip := int k', xc_OutHeader := h'\<rparr>"
      by (auto simp: XC_Write_def bind_Some_iff split: if_splits)
    have t: "winv t" "taken t = taken (xc_Conn x) @ out" using write_takes [OF _ wt(1)] x by auto
    have "xrun True c k h out = (d, c', k', h')" using xrun_inverse [of c k h d] r by simp
    then have "xrun True c0 k0 [] (taken t) = (p @ d, c', k', h')" using s(1) t(2) by (simp add: xrun_append)
    then show ?thesis using wt(2) t(1) s(1) by (simp add: xc_out_ok_def)
  qed
qed

end

section \<open>Records\<close>

text \<open>What the sources rely on in an AEAD: opening what was sealed gives the text back, and sealing adds 16 bytes.\<close>

definition aead_ok :: "'k crypt \<Rightarrow> bool" where
  "aead_ok cr \<longleftrightarrow> (\<forall>k n p a. cr_open cr k n (cr_seal cr k n p a) a = Inr p \<and> length (cr_seal cr k n p a) = length p + 16)"

definition rec_wire :: "'k crypt \<Rightarrow> 'k AEAD \<Rightarrow> byte list \<Rightarrow> byte list" where
  "rec_wire cr a d = EncodeHeader (int (length d) + 16) @ fst (Seal cr a None d (EncodeHeader (int (length d) + 16)))"

text \<open>The cipher for the next record: the counter moves on, and at its end the last record gives a new key.\<close>

definition rec_next :: "'k crypt \<Rightarrow> byte list \<Rightarrow> bool \<Rightarrow> 'k AEAD \<Rightarrow> byte list \<Rightarrow> 'k AEAD" where
  "rec_next cr key aes a d = (if ae_Nonce a = MaxNonce then NewAEAD cr (rec_wire cr a d) key aes
     else a\<lparr>ae_Nonce := IncreaseNonce (ae_Nonce a)\<rparr>)"

fun cc_wire :: "'k crypt \<Rightarrow> byte list \<Rightarrow> bool \<Rightarrow> 'k AEAD \<Rightarrow> byte list list \<Rightarrow> byte list" where
  "cc_wire cr key aes a [] = []"
| "cc_wire cr key aes a (d # ds) = rec_wire cr a d @ cc_wire cr key aes (rec_next cr key aes a d) ds"

definition rec_ok :: "byte list \<Rightarrow> bool" where
  "rec_ok d \<longleftrightarrow> 1 \<le> length d \<and> length d \<le> 16624"

lemma cc_wire_append:
  "cc_wire cr key aes a (xs @ ys) = cc_wire cr key aes a xs @ cc_wire cr key aes (foldl (rec_next cr key aes) a xs) ys"
  by (induction xs arbitrary: a) auto

lemma length_EncodeHeader [simp]: "length (EncodeHeader l) = 5"
  by (simp add: EncodeHeader_def)

lemma DecodeHeader_EncodeHeader:
  "17 \<le> l \<Longrightarrow> l \<le> 16640 \<Longrightarrow> DecodeHeader (EncodeHeader l) = Some (l, None)"
  using be_int_bytes [of l] by (simp add: DecodeHeader_def EncodeHeader_def Let_def)

text \<open>The text of a stream of records, as far as it is complete and authentic.\<close>

function cc_plain :: "'k crypt \<Rightarrow> byte list \<Rightarrow> bool \<Rightarrow> 'k AEAD \<Rightarrow> byte list \<Rightarrow> byte list" where
  "cc_plain cr key aes a bs =
     (case DecodeHeader (take 5 bs) of
        Some (l, None) \<Rightarrow>
          (if length bs < 5 + nat l then []
           else case fst (Open cr a None (take (nat l) (drop 5 bs)) (take 5 bs)) of
                  Inl _ \<Rightarrow> []
                | Inr d \<Rightarrow> d @ cc_plain cr key aes (rec_next cr key aes a d) (drop (5 + nat l) bs))
      | _ \<Rightarrow> [])"
  by pat_completeness auto
termination
  by (relation "measure (\<lambda>(_, _, _, _, bs). length bs)") (auto simp: DecodeHeader_def split: if_splits)

declare cc_plain.simps [simp del] CC_Write_loop.simps [simp del] xor_walk.simps [simp del] inc_loop.simps [simp del]

lemma rec_wire_parts:
  fixes a :: "'k AEAD"
  assumes "aead_ok cr" "rec_ok d"
  defines "h \<equiv> EncodeHeader (int (length d) + 16)" and "ct \<equiv> fst (Seal cr a None d (EncodeHeader (int (length d) + 16)))"
  shows "rec_wire cr a d = h @ ct" "length h = 5" "length ct = length d + 16" "DecodeHeader h = Some (int (length d) + 16, None)"
    "Open cr a None ct h = (Inr d, a\<lparr>ae_Nonce := IncreaseNonce (ae_Nonce a)\<rparr>)"
  using assms(1,2) by (simp_all add: rec_wire_def h_def ct_def Seal_def Open_def aead_ok_def DecodeHeader_EncodeHeader rec_ok_def Let_def)

lemma cc_plain_record:
  assumes "aead_ok cr" "rec_ok d"
  shows "cc_plain cr key aes a (rec_wire cr a d @ bs) = d @ cc_plain cr key aes (rec_next cr key aes a d) bs"
proof -
  note p = rec_wire_parts [OF assms]
  have "nat (int (length d) + 16) = length d + 16" by simp
  then show ?thesis using p by (subst cc_plain.simps) simp
qed

lemma cc_plain_Nil [simp]: "cc_plain cr key aes a [] = []"
  by (subst cc_plain.simps) (simp add: DecodeHeader_def)

lemma cc_plain_wire: "aead_ok cr \<Longrightarrow> \<forall>d \<in> set ds. rec_ok d \<Longrightarrow> cc_plain cr key aes a (cc_wire cr key aes a ds) = concat ds"
  by (induction ds arbitrary: a) (simp_all add: cc_plain_record)

section \<open>CommonConn as a reader and a writer\<close>

definition cc_in_ok :: "'k crypt \<Rightarrow> ('c \<Rightarrow> bool) \<Rightarrow> ('c \<Rightarrow> byte list) \<Rightarrow> ('c, 'k) CommonConn \<Rightarrow> bool" where
  "cc_in_ok cr rinv pending c \<longleftrightarrow> rinv (cc_Conn c) \<and> cc_PeerPadding c = None \<and> (\<exists>a ds. cc_PeerAEAD c = Some a \<and> (\<forall>d \<in> set ds. rec_ok d)
     \<and> pending (cc_Conn c) = cc_wire cr (cc_UnitedKey c) (cc_UseAES c) a ds)"

definition cc_pending :: "'k crypt \<Rightarrow> ('c \<Rightarrow> byte list) \<Rightarrow> ('c, 'k) CommonConn \<Rightarrow> byte list" where
  "cc_pending cr pending c = cc_input c @ cc_plain cr (cc_UnitedKey c) (cc_UseAES c) (the (cc_PeerAEAD c)) (pending (cc_Conn c))"

context io_reader
begin

lemma CC_next_record:
  assumes "aead_ok cr" "rec_ok d" "rinv (cc_Conn c)" "cc_PeerAEAD c = Some a" "pending (cc_Conn c) = rec_wire cr a d @ bs"
  shows "\<exists>s. CC_next cr rd now c = Some (Inr d, c\<lparr>cc_Conn := s, cc_Client := None,
        cc_PeerAEAD := Some (rec_next cr (cc_UnitedKey c) (cc_UseAES c) a d)\<rparr>)
    \<and> rinv s \<and> pending s = bs \<and> final s = final (cc_Conn c)"
proof -
  let ?h = "EncodeHeader (int (length d) + 16)" and ?ct = "fst (Seal cr a None d (EncodeHeader (int (length d) + 16)))"
  note p = rec_wire_parts [OF assms(1,2)]
  have pend: "pending (cc_Conn c) = ?h @ ?ct @ bs" using assms(5) p(1) by simp
  obtain s1 where s1: "ReadFull rd (cc_Conn c) 5 = Some (?h, None, s1)" "rinv s1" "pending s1 = ?ct @ bs" "final s1 = final (cc_Conn c)"
    using ReadFull_enough [OF assms(3) pend p(2)] by blast
  have n: "length ?ct = nat (int (length d) + 16)" using p(3) by simp
  obtain s2 where s2: "ReadFull rd s1 (nat (int (length d) + 16)) = Some (?ct, None, s2)" "rinv s2" "pending s2 = bs" "final s2 = final s1"
    using ReadFull_enough [OF s1(2,3) n] by blast
  have "CC_next cr rd now c = Some (Inr d, c\<lparr>cc_Conn := s2, cc_Client := None,
        cc_PeerAEAD := Some (rec_next cr (cc_UnitedKey c) (cc_UseAES c) a d)\<rparr>)"
    using s1(1) s2(1) p(4,5) assms(4) by (simp add: CC_next_def Let_def rec_next_def p(1))
  then show ?thesis using s1 s2 by auto
qed

lemma CC_next_end:
  assumes "rinv (cc_Conn c)" "pending (cc_Conn c) = []"
  shows "\<exists>s. CC_next cr rd now c = Some (Inl (final (cc_Conn c)), c\<lparr>cc_Conn := s\<rparr>) \<and> rinv s \<and> pending s = [] \<and> final s = final (cc_Conn c)"
  using ReadFull_short [OF assms(1), of 5] assms(2) by (auto simp: CC_next_def Let_def)

lemma CC_ready:
  assumes "cc_PeerAEAD c = Some a" "cc_PeerPadding c = None" "0 < n"
  shows "CC_Read cr rd setCTR now c n
    = (if cc_input c \<noteq> [] then Some (take n (cc_input c), None, c\<lparr>cc_input := drop n (cc_input c)\<rparr>)
       else map_option (\<lambda>(res, c3).
                 case res of
                   Inl e \<Rightarrow> ([], Some e, c3)
                 | Inr dst \<Rightarrow> (take n dst, None, c3\<lparr>cc_input := drop n dst\<rparr>)) (CC_next cr rd now c))"
  using assms by (simp add: CC_Read_def CC_random_def CC_padding_def)

text \<open>An encrypted connection over a well-behaved reader is one: it delivers the text of the records below it.\<close>

lemma cc_reader:
  assumes "aead_ok cr"
  shows "io_reader (CC_Read cr rd setCTR now) (cc_in_ok cr rinv pending) (cc_pending cr pending) (\<lambda>c. final (cc_Conn c)) (\<lambda>_. 0)"
proof
  fix c :: "('r, 'a) CommonConn" and n :: nat
  assume c: "cc_in_ok cr rinv pending c" and n: "0 < n"
  obtain a ds where a: "rinv (cc_Conn c)" "cc_PeerPadding c = None" "cc_PeerAEAD c = Some a" "\<forall>d \<in> set ds. rec_ok d"
    "pending (cc_Conn c) = cc_wire cr (cc_UnitedKey c) (cc_UseAES c) a ds"
    using c by (auto simp: cc_in_ok_def)
  note rdy = CC_ready [OF a(3,2) n, of cr setCTR now]
  show "\<exists>bs e r'. CC_Read cr rd setCTR now c n = Some (bs, e, r') \<and> cc_in_ok cr rinv pending r' \<and> length bs \<le> n
      \<and> cc_pending cr pending c = bs @ cc_pending cr pending r' \<and> final (cc_Conn r') = final (cc_Conn c)
      \<and> (e = None \<longrightarrow> bs \<noteq> [] \<or> (0 :: nat) < 0) \<and> (\<forall>x. e = Some x \<longrightarrow> x = final (cc_Conn c) \<and> cc_pending cr pending r' = [])"
  proof (cases "cc_input c = []")
    case False
    then show ?thesis using rdy a n c
      by (intro exI [of _ "take n (cc_input c)"] exI [of _ None] exI [of _ "c\<lparr>cc_input := drop n (cc_input c)\<rparr>"])
        (simp add: cc_in_ok_def cc_pending_def)
  next
    case True
    show ?thesis
    proof (cases ds)
      case Nil
      then have e: "pending (cc_Conn c) = []" using a(5) by simp
      obtain s where s: "CC_next cr rd now c = Some (Inl (final (cc_Conn c)), c\<lparr>cc_Conn := s\<rparr>)" "rinv s" "pending s = []" "final s = final (cc_Conn c)"
        using CC_next_end [OF a(1) e] by blast
      have "cc_in_ok cr rinv pending (c\<lparr>cc_Conn := s\<rparr>)" using s a by (auto simp: cc_in_ok_def intro!: exI [of _ "[]"])
      then show ?thesis using rdy s True e a(3) by (simp add: cc_pending_def)
    next
      case (Cons d ds')
      let ?a = "rec_next cr (cc_UnitedKey c) (cc_UseAES c) a d"
      have d: "rec_ok d" and p: "pending (cc_Conn c) = rec_wire cr a d @ cc_wire cr (cc_UnitedKey c) (cc_UseAES c) ?a ds'"
        using a(4,5) Cons by simp_all
      obtain s where s: "CC_next cr rd now c = Some (Inr d, c\<lparr>cc_Conn := s, cc_Client := None, cc_PeerAEAD := Some ?a\<rparr>)" "rinv s"
        "pending s = cc_wire cr (cc_UnitedKey c) (cc_UseAES c) ?a ds'" "final s = final (cc_Conn c)"
        using CC_next_record [OF assms d a(1,3) p] by blast
      let ?c = "c\<lparr>cc_Conn := s, cc_Client := None, cc_PeerAEAD := Some ?a, cc_input := drop n d\<rparr>"
      have "CC_Read cr rd setCTR now c n = Some (take n d, None, ?c)" using rdy s(1) True by simp
      moreover have "cc_in_ok cr rinv pending ?c" using s a(2,4) Cons by (auto simp: cc_in_ok_def)
      moreover have "cc_pending cr pending c = take n d @ cc_pending cr pending ?c"
        using True a(3) s(3) p cc_plain_record [OF assms d] by (simp add: cc_pending_def)
      moreover have "take n d \<noteq> []" using d n by (auto simp: rec_ok_def)
      ultimately show ?thesis using s(4) by (intro exI [of _ "take n d"] exI [of _ None] exI [of _ ?c]) simp
    qed
  qed
qed

end

text \<open>The records of one \<open>Write\<close>.\<close>

function cc_chunks :: "byte list \<Rightarrow> byte list list" where
  "cc_chunks b = (if b = [] then [] else take 8192 b # cc_chunks (drop 8192 b))"
  by pat_completeness auto
termination by (relation "measure length") auto

declare cc_chunks.simps [simp del]

lemma cc_chunks_ok: "concat (cc_chunks b) = b \<and> (\<forall>d \<in> set (cc_chunks b). rec_ok d)"
proof (induction b rule: cc_chunks.induct)
  case (1 b)
  show ?case
  proof (cases "b = []")
    case True
    then show ?thesis by (subst (1 2) cc_chunks.simps) simp
  next
    case False
    then have "rec_ok (take 8192 b)" by (cases b) (auto simp: rec_ok_def)
    then show ?thesis using 1 False by (subst (1 2) cc_chunks.simps) simp
  qed
qed

definition pre_bytes :: "('c, 'k) CommonConn \<Rightarrow> byte list" where
  "pre_bytes c = (case cc_PreWrite c of None \<Rightarrow> [] | Some pre \<Rightarrow> pre)"

lemma CC_record_wire:
  assumes "cc_AEAD c = Some a"
  shows "CC_record cr c d = Some (pre_bytes c @ rec_wire cr a d,
    c\<lparr>cc_AEAD := Some (rec_next cr (cc_UnitedKey c) (cc_UseAES c) a d), cc_PreWrite := None\<rparr>)"
  using assms by (auto simp: CC_record_def pre_bytes_def rec_wire_def rec_next_def Seal_def Let_def split: option.splits)

context layer_writer
begin

lemma CC_Write_loop_takes:
  assumes "winv (cc_Conn c)" "cc_AEAD c = Some a" "CC_Write_loop cr wr c b = Some (None, c')"
  shows "winv (cc_Conn c') \<and> cc_UnitedKey c' = cc_UnitedKey c \<and> cc_UseAES c' = cc_UseAES c
    \<and> cc_AEAD c' = Some (foldl (rec_next cr (cc_UnitedKey c) (cc_UseAES c)) a (cc_chunks b))
    \<and> cc_PreWrite c' = (if b = [] then cc_PreWrite c else None)
    \<and> taken (cc_Conn c') = taken (cc_Conn c) @ (if b = [] then [] else pre_bytes c) @ cc_wire cr (cc_UnitedKey c) (cc_UseAES c) a (cc_chunks b)"
  using assms
proof (induction b arbitrary: c a rule: cc_chunks.induct)
  case (1 b)
  show ?case
  proof (cases "b = []")
    case True
    then show ?thesis using "1.prems" by (simp add: cc_chunks.simps CC_Write_loop.simps)
  next
    case False
    let ?d = "take 8192 b"
    let ?a = "rec_next cr (cc_UnitedKey c) (cc_UseAES c) a ?d"
    have ch: "cc_chunks b = ?d # cc_chunks (drop 8192 b)" using False by (simp add: cc_chunks.simps [of b])
    obtain n s where w: "wr (cc_Conn c) (pre_bytes c @ rec_wire cr a ?d) = Some (n, None, s)"
      "CC_Write_loop cr wr (c\<lparr>cc_AEAD := Some ?a, cc_PreWrite := None, cc_Conn := s\<rparr>) (drop 8192 b) = Some (None, c')"
      using "1.prems"(3) False unfolding CC_Write_loop.simps [of cr wr c b] CC_record_wire [OF "1.prems"(2)]
      by (auto simp: bind_Some_iff split: option.splits)
    have t: "winv s" "taken s = taken (cc_Conn c) @ pre_bytes c @ rec_wire cr a ?d" using write_takes [OF "1.prems"(1) w(1)] by auto
    let ?c = "c\<lparr>cc_AEAD := Some ?a, cc_PreWrite := None, cc_Conn := s\<rparr>"
    have "winv (cc_Conn ?c)" "cc_AEAD ?c = Some ?a" using t by simp_all
    from "1.IH" [OF False this w(2)] show ?thesis using t False by (simp add: ch pre_bytes_def [of ?c])
  qed
qed

end

text \<open>A sequence of writes, up to the first error.\<close>

fun cc_writes :: "'k crypt \<Rightarrow> 'c io_write \<Rightarrow> ('c, 'k) CommonConn \<Rightarrow> byte list list \<Rightarrow> (goerr option \<times> ('c, 'k) CommonConn) option" where
  "cc_writes cr wr c [] = Some (None, c)"
| "cc_writes cr wr c (b # bs) =
     Option.bind (CC_Write cr wr c b) (\<lambda>(_, e, c'). if e \<noteq> None then Some (e, c') else cc_writes cr wr c' bs)"

context layer_writer
begin

lemma cc_writes_takes:
  assumes "winv (cc_Conn c)" "cc_AEAD c = Some a" "cc_writes cr wr c bs = Some (None, c')"
  shows "\<exists>ds. winv (cc_Conn c') \<and> concat ds = concat bs \<and> (\<forall>d \<in> set ds. rec_ok d)
    \<and> taken (cc_Conn c') = taken (cc_Conn c) @ (if concat bs = [] then [] else pre_bytes c) @ cc_wire cr (cc_UnitedKey c) (cc_UseAES c) a ds"
  using assms
proof (induction bs arbitrary: c a)
  case Nil
  then show ?case by (auto intro!: exI [of _ "[]"])
next
  case (Cons b bs)
  obtain n c1 where w: "CC_Write cr wr c b = Some (n, None, c1)" "cc_writes cr wr c1 bs = Some (None, c')"
    using Cons.prems(3) by (auto simp: bind_Some_iff split: if_splits)
  then have "CC_Write_loop cr wr c b = Some (None, c1)"
    by (cases "b = []") (auto simp: CC_Write_def CC_Write_loop.simps [of cr wr c1 "[]"])
  note t = CC_Write_loop_takes [OF Cons.prems(1,2) this]
  let ?a = "foldl (rec_next cr (cc_UnitedKey c) (cc_UseAES c)) a (cc_chunks b)"
  have "winv (cc_Conn c1)" "cc_AEAD c1 = Some ?a" using t by simp_all
  from Cons.IH [OF this w(2)] obtain ds where d: "winv (cc_Conn c')" "concat ds = concat bs" "\<forall>d \<in> set ds. rec_ok d"
    "taken (cc_Conn c') = taken (cc_Conn c1) @ (if concat bs = [] then [] else pre_bytes c1) @ cc_wire cr (cc_UnitedKey c1) (cc_UseAES c1) ?a ds"
    by blast
  have "cc_chunks [] = []" by (simp add: cc_chunks.simps)
  then have "taken (cc_Conn c') = taken (cc_Conn c) @ (if concat (b # bs) = [] then [] else pre_bytes c)
      @ cc_wire cr (cc_UnitedKey c) (cc_UseAES c) a (cc_chunks b @ ds)"
    using t d(4) by (simp add: cc_wire_append pre_bytes_def)
  then show ?case using d(1-3) cc_chunks_ok [of b] by (intro exI [of _ "cc_chunks b @ ds"]) auto
qed

end

section \<open>The first read\<close>

lemma ReadFull_same:
  assumes "\<And>n. 0 < n \<Longrightarrow> rd r n = rd r' n" "0 < n"
  shows "ReadFull rd r n = ReadFull rd r' n"
  unfolding ReadFull_def using assms by (subst (1 2) ReadLoop.simps) simp

text \<open>
  How two ends can be paired: the ciphers are agreed on, or the sender still has the random bytes to send from which the receiver derives
  its cipher, or sealed padding is on its way before the first record.
\<close>

definition cc_paired :: "'k crypt \<Rightarrow> byte list \<Rightarrow> ('c, 'k) CommonConn \<Rightarrow> ('d, 'k) CommonConn \<Rightarrow> bool" where
  "cc_paired cr pad s r \<longleftrightarrow> cc_UnitedKey r = cc_UnitedKey s \<and> cc_UseAES r = cc_UseAES s \<and> cc_input r = []
     \<and> ((\<exists>a. cc_AEAD s = Some a \<and> cc_PreWrite s = None \<and> cc_PeerAEAD r = Some a \<and> cc_PeerPadding r = None \<and> pad = [])
      \<or> (\<exists>rnd. length rnd = 16 \<and> cc_PreWrite s = Some rnd \<and> cc_AEAD s = Some (NewAEAD cr rnd (cc_UnitedKey s) (cc_UseAES s))
           \<and> cc_PeerAEAD r = None \<and> cc_PeerPadding r = None \<and> pad = [])
      \<or> (\<exists>a0 a text buf. cc_PeerAEAD r = Some a0 \<and> Seal cr a0 None text [] = (pad, a) \<and> cc_PeerPadding r = Some buf \<and> length buf = length pad
           \<and> cc_AEAD s = Some a \<and> cc_PreWrite s = None))"

context io_reader
begin

lemma CC_first_read:
  assumes "aead_ok cr" "cc_paired cr pad s r" "cc_AEAD s = Some a" "rinv (cc_Conn r)" "\<forall>d \<in> set ds. rec_ok d"
    "pending (cc_Conn r) = pad @ pre_bytes s @ cc_wire cr (cc_UnitedKey s) (cc_UseAES s) a ds"
  shows "\<exists>r0. (\<forall>n > 0. CC_Read cr rd (\<lambda>_ _ c. c) now r n = CC_Read cr rd (\<lambda>_ _ c. c) now r0 n)
    \<and> cc_in_ok cr rinv pending r0 \<and> cc_pending cr pending r0 = concat ds \<and> final (cc_Conn r0) = final (cc_Conn r)"
proof -
  let ?w = "cc_wire cr (cc_UnitedKey s) (cc_UseAES s) a ds"
  have key: "cc_UnitedKey r = cc_UnitedKey s" "cc_UseAES r = cc_UseAES s" "cc_input r = []" using assms(2) by (simp_all add: cc_paired_def)
  have fin: "cc_in_ok cr rinv pending r0 \<and> cc_pending cr pending r0 = concat ds"
    if "cc_UnitedKey r0 = cc_UnitedKey s" "cc_UseAES r0 = cc_UseAES s" "cc_input r0 = []" "cc_PeerPadding r0 = None" "cc_PeerAEAD r0 = Some a"
      "rinv (cc_Conn r0)" "pending (cc_Conn r0) = ?w" for r0 :: "('r, 'a) CommonConn"
    using that assms(5) cc_plain_wire [OF assms(1,5)] by (auto simp: cc_in_ok_def cc_pending_def)
  consider (agreed) "cc_PreWrite s = None" "cc_PeerAEAD r = Some a" "cc_PeerPadding r = None" "pad = []"
    | (random) rnd where "length rnd = 16" "cc_PreWrite s = Some rnd" "a = NewAEAD cr rnd (cc_UnitedKey s) (cc_UseAES s)" "cc_PeerAEAD r = None"
        "cc_PeerPadding r = None" "pad = []"
    | (padding) a0 t buf where "cc_PeerAEAD r = Some a0" "Seal cr a0 None t [] = (pad, a)" "cc_PeerPadding r = Some buf" "length buf = length pad"
        "cc_PreWrite s = None"
    using assms(2,3) unfolding cc_paired_def by fastforce
  then show ?thesis
  proof cases
    case agreed
    then show ?thesis using fin [of r] key assms(4,6) by (intro exI [of _ r]) (simp add: pre_bytes_def)
  next
    case random
    have "pending (cc_Conn r) = rnd @ ?w" using assms(6) random by (simp add: pre_bytes_def)
    then obtain x where x: "ReadFull rd (cc_Conn r) 16 = Some (rnd, None, x)" "rinv x" "pending x = ?w" "final x = final (cc_Conn r)"
      using ReadFull_enough [OF assms(4) _ random(1)] by blast
    let ?r = "r\<lparr>cc_PeerAEAD := Some a, cc_Conn := x\<rparr>"
    have "CC_Read cr rd (\<lambda>_ _ c. c) now r n = CC_Read cr rd (\<lambda>_ _ c. c) now ?r n" if "0 < n" for n
      using x(1) random key that by (simp add: CC_Read_def CC_random_def)
    moreover have "cc_in_ok cr rinv pending ?r \<and> cc_pending cr pending ?r = concat ds" by (rule fin) (use key random x in simp_all)
    ultimately show ?thesis using x(4) by (intro exI [of _ ?r]) simp
  next
    case padding
    have p: "pending (cc_Conn r) = pad @ ?w" using assms(6) padding by (simp add: pre_bytes_def)
    then obtain x where x: "ReadFull rd (cc_Conn r) (length buf) = Some (pad, None, x)" "rinv x" "pending x = ?w" "final x = final (cc_Conn r)"
      using ReadFull_enough [OF assms(4) p] padding(4) by auto
    have "pad = cr_seal cr (ae_AEAD a0) (IncreaseNonce (ae_Nonce a0)) t []" "a = a0\<lparr>ae_Nonce := IncreaseNonce (ae_Nonce a0)\<rparr>"
      using padding(2) by (auto simp: Seal_def Let_def)
    then have o: "Open cr a0 None pad [] = (Inr t, a)" using assms(1) by (simp add: Open_def aead_ok_def Let_def)
    let ?r = "r\<lparr>cc_Conn := x, cc_PeerAEAD := Some a, cc_PeerPadding := None\<rparr>"
    have "CC_padding cr rd r = Some (None, ?r)" using padding x(1) o by (simp add: CC_padding_def Let_def)
    then have "CC_Read cr rd (\<lambda>_ _ c. c) now r n = CC_Read cr rd (\<lambda>_ _ c. c) now ?r n" if "0 < n" for n
      using padding that by (simp add: CC_Read_def CC_random_def CC_padding_def [of cr rd ?r])
    moreover have "cc_in_ok cr rinv pending ?r \<and> cc_pending cr pending ?r = concat ds" by (rule fin) (use key x in simp_all)
    ultimately show ?thesis using x(4) by (intro exI [of _ ?r]) simp
  qed
qed

text \<open>A reader with nothing left returns its final error.\<close>

lemma read_end:
  assumes "rinv r" "pending r = []" "\<And>x y. \<not> weight x < weight y" "0 < n"
  shows "\<exists>r'. rd r n = Some ([], Some (final r), r')"
proof -
  obtain bs e r' where r: "rd r n = Some (bs, e, r')" "pending r = bs @ pending r'" "e = None \<longrightarrow> bs \<noteq> [] \<or> weight r' < weight r"
    "\<forall>x. e = Some x \<longrightarrow> x = final r"
    using read_ok [OF assms(1,4)] by blast
  then show ?thesis using assms(2,3) by (cases e) auto
qed

end

lemma cc_roundtrip:
  assumes "io_reader rd rinv pending final weight" "layer_writer wr winv taken" "aead_ok cr" "cc_paired cr pad s r" "winv (cc_Conn s)" "taken (cc_Conn s) = []"
    "rinv (cc_Conn r)" "cc_writes cr wr s bs = Some (None, s')" "concat bs \<noteq> []" "pending (cc_Conn r) = pad @ taken (cc_Conn s')"
  shows "\<exists>r'. ReadFull (CC_Read cr rd (\<lambda>_ _ c. c) now) r (length (concat bs)) = Some (concat bs, None, r')
    \<and> (\<forall>n > 0. \<exists>r''. CC_Read cr rd (\<lambda>_ _ c. c) now r' n = Some ([], Some (final (cc_Conn r)), r''))"
proof -
  obtain a where a: "cc_AEAD s = Some a" using assms(4) by (auto simp: cc_paired_def)
  obtain ds where d: "concat ds = concat bs" "\<forall>d \<in> set ds. rec_ok d"
    "taken (cc_Conn s') = pre_bytes s @ cc_wire cr (cc_UnitedKey s) (cc_UseAES s) a ds"
    using layer_writer.cc_writes_takes [OF assms(2,5) a assms(8)] assms(6) by (simp add: assms(9) del: concat_eq_Nil_conv) blast
  have p: "pending (cc_Conn r) = pad @ pre_bytes s @ cc_wire cr (cc_UnitedKey s) (cc_UseAES s) a ds" using assms(10) d(3) by simp
  let ?rd = "CC_Read cr rd (\<lambda>_ _ c. c) now"
  obtain r0 where r0: "\<And>n. 0 < n \<Longrightarrow> ?rd r n = ?rd r0 n" "cc_in_ok cr rinv pending r0" "cc_pending cr pending r0 = concat bs"
    "final (cc_Conn r0) = final (cc_Conn r)"
    using io_reader.CC_first_read [OF assms(1,3,4) a assms(7) d(2) p] d(1) by metis
  note io = io_reader.cc_reader [OF assms(1,3), where setCTR = "\<lambda>_ _ c. c" and now = now]
  obtain r' where r': "ReadFull ?rd r0 (length (concat bs)) = Some (concat bs, None, r')" "cc_in_ok cr rinv pending r'" "cc_pending cr pending r' = []"
    "final (cc_Conn r') = final (cc_Conn r0)"
    using io_reader.ReadFull_enough [OF io r0(2), of "concat bs" "[]" "length (concat bs)"] r0(3) by auto
  have "ReadFull ?rd r (length (concat bs)) = Some (concat bs, None, r')"
    using ReadFull_same [of ?rd r r0 "length (concat bs)"] r0(1) r'(1) assms(9) by simp
  moreover have "\<exists>r''. ?rd r' n = Some ([], Some (final (cc_Conn r)), r'')" if "0 < n" for n
    using io_reader.read_end [OF io r'(2,3) _ that] r'(4) r0(4) by simp
  ultimately show ?thesis by blast
qed

section \<open>Nonces as a counter\<close>

fun inc_rev :: "byte list \<Rightarrow> byte list" where
  "inc_rev [] = []"
| "inc_rev (x # xs) = (if x + 1 \<noteq> 0 then (x + 1) # xs else 0 # inc_rev xs)"

fun val_rev :: "byte list \<Rightarrow> nat" where
  "val_rev [] = 0"
| "val_rev (x # xs) = unat x + 256 * val_rev xs"

text \<open>The big-endian value of a nonce.\<close>

definition nonce_val :: "byte list \<Rightarrow> nat" where
  "nonce_val n = val_rev (rev n)"

lemma length_inc_rev [simp]: "length (inc_rev xs) = length xs"
  by (induction xs) auto

lemma val_rev_less: "val_rev xs < 256 ^ length xs"
proof (induction xs)
  case (Cons x xs)
  have "unat x < 256" using unsigned_less [of x, where ?'a = nat] by simp
  then have "unat x + 256 * val_rev xs < 256 * (val_rev xs + 1)" by simp
  also have "\<dots> \<le> 256 * 256 ^ length xs" using Cons by (intro mult_le_mono2) simp
  finally show ?case by simp
qed simp

lemma val_inc_rev: "val_rev (inc_rev xs) = (val_rev xs + 1) mod 256 ^ length xs"
proof (induction xs)
  case (Cons x xs)
  let ?m = "256 ^ length xs :: nat"
  show ?case
  proof (cases "x + 1 = 0")
    case True
    then have "x = - 1" by (simp add: eq_neg_iff_add_eq_0)
    then have "unat x = 255" by (simp add: unsigned_minus_1_eq_mask mask_eq_exp_minus_1)
    then have "(val_rev (x # xs) + 1) mod (256 * ?m) = (256 * (val_rev xs + 1)) mod (256 * ?m)" by simp
    also have "\<dots> = 256 * ((val_rev xs + 1) mod ?m)" by (rule mult_mod_right [symmetric])
    finally show ?thesis using True Cons.IH by simp
  next
    case False
    then have u: "unat (x + 1) = unat x + 1" using unatSuc [of x] by (simp add: add.commute)
    have "val_rev ((x + 1) # xs) = val_rev (x # xs) + 1" using u by simp
    moreover have "val_rev ((x + 1) # xs) < 256 ^ length (x # xs)" using val_rev_less [of "(x + 1) # xs"] by simp
    ultimately show ?thesis using False by simp
  qed
qed simp

lemma inc_loop_rev:
  assumes "length n = 12" "i \<le> 12"
  shows "inc_loop i n = rev (inc_rev (rev (take (12 - i) n))) @ drop (12 - i) n"
  using assms
proof (induction "12 - i" arbitrary: i n)
  case 0
  then show ?case by (simp add: inc_loop.simps)
next
  case (Suc k)
  let ?j = "11 - i"
  have i: "i < 12" "k = ?j" "12 - i = Suc ?j" "k = 12 - Suc i" using Suc.hyps(2) by simp_all
  have j: "?j < length n" using Suc.prems by simp
  have tk: "take (Suc ?j) n = take ?j n @ [n ! ?j]" using j by (rule take_Suc_conv_app_nth)
  show ?case
  proof (cases "n ! ?j + 1 = 0")
    case True
    have "inc_loop i n = inc_loop (Suc i) (n[?j := 0])" using i(1) j True by (subst inc_loop.simps) (simp add: Let_def)
    also have "\<dots> = rev (inc_rev (rev (take ?j n))) @ drop ?j (n[?j := 0])"
      using Suc.hyps(1) [OF i(4), of "n[?j := 0]"] Suc.prems i by simp
    also have "drop ?j (n[?j := 0]) = 0 # drop (Suc ?j) n" using j by (simp add: Cons_nth_drop_Suc [symmetric])
    finally show ?thesis unfolding i(3) tk using True by simp
  next
    case False
    have "inc_loop i n = n[?j := n ! ?j + 1]" using i(1) j False by (subst inc_loop.simps) (simp add: Let_def)
    also have "\<dots> = take ?j n @ (n ! ?j + 1) # drop (Suc ?j) n" using j by (rule upd_conv_take_nth_drop)
    finally show ?thesis unfolding i(3) tk using False by simp
  qed
qed

lemma IncreaseNonce_val:
  assumes "length n = 12"
  shows "length (IncreaseNonce n) = 12" "nonce_val (IncreaseNonce n) = (nonce_val n + 1) mod 2 ^ 96"
  using assms inc_loop_rev [OF assms, of 0] val_inc_rev [of "rev n"] by (simp_all add: IncreaseNonce_def nonce_val_def)

lemma val_rev_replicate: "val_rev (replicate k 0) = 0" "val_rev (replicate k 255) + 1 = 256 ^ k"
  by (induction k) simp_all

lemma nonce_after:
  "length ((IncreaseNonce ^^ i) (replicate 12 0)) = 12" "i < 2 ^ 96 \<Longrightarrow> nonce_val ((IncreaseNonce ^^ i) (replicate 12 0)) = i"
proof (induction i)
  case 0
  { case 1 then show ?case by simp next case 2 then show ?case by (simp add: nonce_val_def val_rev_replicate(1)) }
next
  case (Suc i)
  { case 1 then show ?case using IncreaseNonce_val(1) Suc by simp
  next case 2 then show ?case using IncreaseNonce_val(2) [OF Suc(1)] Suc(2) by simp }
qed

lemma nonce_val_inject: "length m = 12 \<Longrightarrow> length n = 12 \<Longrightarrow> nonce_val m = nonce_val n \<Longrightarrow> m = n"
proof -
  have "length xs = length ys \<Longrightarrow> val_rev xs = val_rev ys \<Longrightarrow> xs = ys" for xs ys
  proof (induction xs ys rule: list_induct2)
    case (Cons x xs y ys)
    have "unat x < 256" "unat y < 256" using unsigned_less [of x, where ?'a = nat] unsigned_less [of y, where ?'a = nat] by simp_all
    then have "unat x = val_rev (x # xs) mod 256" "unat y = val_rev (y # ys) mod 256" "val_rev xs = val_rev (x # xs) div 256"
      "val_rev ys = val_rev (y # ys) div 256" by simp_all
    then have "unat x = unat y" "val_rev xs = val_rev ys" unfolding Cons.prems by (simp_all only:)
    then show ?case using Cons.IH by (simp add: word_unat_eq_iff)
  qed simp
  then show "length m = 12 \<Longrightarrow> length n = 12 \<Longrightarrow> nonce_val m = nonce_val n \<Longrightarrow> m = n" by (simp add: nonce_val_def) (metis length_rev rev_rev_ident)
qed

lemma MaxNonce_val: "length MaxNonce = 12" "nonce_val MaxNonce = 2 ^ 96 - 1"
  using val_rev_replicate(2) [of 12] by (simp_all add: MaxNonce_def nonce_val_def)

text \<open>The records sealed with one cipher.\<close>

lemma same_cipher:
  assumes "i < 2 ^ 96" "length ds = i"
  shows "foldl (rec_next cr key aes) (NewAEAD cr ctx key aes) ds = (NewAEAD cr ctx key aes)\<lparr>ae_Nonce := (IncreaseNonce ^^ i) (replicate 12 0)\<rparr>"
  using assms
proof (induction i arbitrary: ds)
  case 0
  then show ?case by (simp add: NewAEAD_def)
next
  case (Suc i)
  obtain xs d where ds: "ds = xs @ [d]" "length xs = i" using Suc.prems(2) by (cases ds rule: rev_cases) auto
  have "(IncreaseNonce ^^ i) (replicate 12 0) \<noteq> MaxNonce"
  proof
    assume "(IncreaseNonce ^^ i) (replicate 12 0) = MaxNonce"
    then have "i = 2 ^ 96 - 1" using nonce_after(2) [of i] MaxNonce_val(2) Suc.prems(1) by simp
    then show False using Suc.prems(1) by simp
  qed
  then show ?case using Suc.IH [OF _ ds(2)] Suc.prems(1) ds(1) by (simp add: rec_next_def)
qed

section \<open>Properties\<close>

text \<open>
  C3. An encrypted connection delivers exactly what was written: for any sequence of writes that succeed, however the record boundaries and the
  reads of the network fall, reading gives the same bytes and then the closing error. This holds across the change of keys at the
  end of a nonce counter, when the ciphers were agreed on before, when the first write carries the 16 random bytes the receiver derives its
  cipher from (0-RTT), and when sealed padding precedes the first record (1-RTT).
\<close>

theorem vless_conn_roundtrip:
  assumes "aead_ok cr" "cc_paired cr pad s r" "sk_out (cc_Conn s) = []" "cc_writes cr sink_Write s bs = Some (None, s')" "concat bs \<noteq> []"
    "concat (chunks (cc_Conn r)) = pad @ sk_out (cc_Conn s')"
  shows "\<exists>r'. ReadFull (CC_Read cr conn_read (\<lambda>_ _ c. c) now) r (length (concat bs)) = Some (concat bs, None, r')
    \<and> (\<forall>n > 0. \<exists>r''. CC_Read cr conn_read (\<lambda>_ _ c. c) now r' n = Some ([], Some (closing (cc_Conn r)), r''))"
  by (rule cc_roundtrip [OF conn_rd.io_reader_axioms snk_layer.layer_writer_axioms assms(1,2) TrueI assms(3) TrueI assms(4-6)])

text \<open>A cipher for the witnesses: the tag is a checksum of 16 bytes, the key is not used.\<close>

definition demo_crypt :: "unit crypt" where
  "demo_crypt = \<lparr>cr_seal = (\<lambda>k n p a. p @ replicate 16 7),
     cr_open = (\<lambda>k n c a. if drop (length c - 16) c = replicate 16 7 then Inr (take (length c - 16) c) else Inl (ENew ''cipher: message authentication failed'' None)),
     cr_derive = (\<lambda>ctx key aes. ())\<rparr>"

lemma demo_crypt_ok: "aead_ok demo_crypt"
  by (simp add: aead_ok_def demo_crypt_def)

definition demo_sender :: "'c \<Rightarrow> ('c, unit) CommonConn" where
  "demo_sender x = (NewCommonConn x True)\<lparr>cc_AEAD := Some (NewAEAD demo_crypt [] [] True)\<rparr>"

definition demo_receiver :: "'c \<Rightarrow> ('c, unit) CommonConn" where
  "demo_receiver x = (NewCommonConn x True)\<lparr>cc_PeerAEAD := Some (NewAEAD demo_crypt [] [] True)\<rparr>"

lemma demo_paired: "cc_paired demo_crypt [] (demo_sender x) (demo_receiver y)"
  by (simp add: cc_paired_def demo_sender_def demo_receiver_def NewCommonConn_def)

lemma demo_cc_Conn [simp]: "cc_Conn (demo_sender x) = x" "cc_Conn (demo_receiver x) = x"
  by (simp_all add: demo_sender_def demo_receiver_def NewCommonConn_def)

lemma demo_text: "length [1, 2, 3 :: byte] = 3" "concat [[1, 2], [3 :: byte]] = [1, 2, 3]"
  by simp_all

lemma demo_write:
  "\<exists>s'. cc_writes demo_crypt sink_Write (demo_sender \<lparr>sk_out = [], sk_quota = 999\<rparr>) [[1, 2], [3]] = Some (None, s')"
  by (simp add: CC_Write_def CC_Write_loop.simps CC_record_def demo_sender_def NewCommonConn_def NewAEAD_def demo_crypt_def
      sink_Write_def Seal_def EncodeHeader_def Let_def split_def)

theorem vless_conn_roundtrip_witness:
  "\<exists>s' r'. cc_writes demo_crypt sink_Write (demo_sender \<lparr>sk_out = [], sk_quota = 999\<rparr>) [[1, 2], [3]] = Some (None, s')
    \<and> ReadFull (CC_Read demo_crypt conn_read (\<lambda>_ _ c. c) 0)
        (demo_receiver \<lparr>chunks = [take 9 (sk_out (cc_Conn s')), drop 9 (sk_out (cc_Conn s'))], closing = EOF\<rparr>) 3 = Some ([1, 2, 3], None, r')"
proof -
  obtain s' where s: "cc_writes demo_crypt sink_Write (demo_sender \<lparr>sk_out = [], sk_quota = 999\<rparr>) [[1, 2], [3]] = Some (None, s')"
    using demo_write by blast
  let ?c = "\<lparr>chunks = [take 9 (sk_out (cc_Conn s')), drop 9 (sk_out (cc_Conn s'))], closing = EOF\<rparr>"
  have "sk_out (cc_Conn (demo_sender \<lparr>sk_out = [], sk_quota = 999\<rparr>)) = []" "concat [[1, 2], [3 :: byte]] \<noteq> []"
    "concat (chunks (cc_Conn (demo_receiver ?c))) = [] @ sk_out (cc_Conn s')" by simp_all
  from vless_conn_roundtrip [OF demo_crypt_ok demo_paired this(1) s this(2,3), where now = 0, unfolded demo_text]
  show ?thesis by (elim exE conjE) (intro exI conjI, rule s, assumption)
qed


definition demo_ctr :: ctr where
  "demo_ctr = \<lparr>ct_stream = (\<lambda>i. word_of_nat (i + 5)), ct_pos = 0\<rparr>"

lemma demo_xor_write:
  "\<exists>s'. cc_writes demo_crypt (XC_Write sink_Write) (demo_sender (NewXorConn \<lparr>sk_out = [], sk_quota = 999\<rparr> (Some demo_ctr) None (int 0) 0)) [[1, 2], [3]] = Some (None, s')"
proof -
  have "map_option fst (cc_writes demo_crypt (XC_Write sink_Write) (demo_sender (NewXorConn \<lparr>sk_out = [], sk_quota = 999\<rparr> (Some demo_ctr) None (int 0) 0)) [[1, 2], [3]]) = Some None"
    by code_simp
  then show ?thesis by auto
qed




end
