(* ===== verification/Sniffers.thy ===== *)
theory Sniffers
  imports Net_Text Buffer
begin

text \<open>
  The content sniffers of \<open>common/protocol\<close>: TLS (\<open>tls/sniff.go\<close>), HTTP (\<open>http/sniff.go\<close>, \<open>http/headers.go\<close>) and BitTorrent
  (\<open>bittorrent/bittorrent.go\<close>). A sniffer gets untrusted bytes; every index and slice expression is written out, so that \<open>None\<close> is a
  panic (or a loop that never ends). \<open>Inl e\<close> is the error returned, \<open>Inr h\<close> the result with a nil error. \<open>strings.ToLower\<close> (Unicode)
  and the clock are arguments.
\<close>

section \<open>TLS\<close>

definition ErrNoClue :: goerr where "ErrNoClue = ErrOther ''not enough information for making a decision''"
definition ErrProtoNeedMoreData :: goerr where
  "ErrProtoNeedMoreData = ErrOther ''protocol matches, but need more data to complete sniffing''"
definition errNotTLS :: goerr where "errNotTLS = ErrOther ''not TLS header''"
definition errNotClientHello :: goerr where "errNotClientHello = ErrOther ''not client hello''"

definition IsValidTLSVersion :: "byte \<Rightarrow> byte \<Rightarrow> bool" where
  "IsValidTLSVersion major minor \<longleftrightarrow> major = 3"

text \<open>The check of a host name: the variable \<open>b\<close> holds its last byte afterwards.\<close>

definition check_name :: "byte list \<Rightarrow> goerr + byte list" where
  "check_name name =
     (if list_ex (\<lambda>b. b \<le> 32) name then Inl ErrProtoNeedMoreData
      else if (if name = [] then 0 else last name) = 46 then Inl errNotClientHello
      else Inr name)"

text \<open>The entries of the server name extension; \<open>Inr None\<close> is the end of the loop without a host name.\<close>

partial_function (option) names_loop :: "byte list \<Rightarrow> (goerr + byte list option) option" where
  "names_loop d =
     (if d = [] then Some (Inr None)
      else if length d < 3 then Some (Inl errNotClientHello)
      else do {
        nameType \<leftarrow> index d 0;
        l1 \<leftarrow> index d 1;
        l2 \<leftarrow> index d 2;
        d1 \<leftarrow> slice d 3 (int (length d));
        if int (length d1) < be_int l1 l2 then Some (Inl errNotClientHello)
        else if nameType = 0 then do {
          name \<leftarrow> slice d1 0 (be_int l1 l2);
          Some (case check_name name of Inl e \<Rightarrow> Inl e | Inr n \<Rightarrow> Inr (Some n))
        } else do {
          d2 \<leftarrow> slice d1 (be_int l1 l2) (int (length d1));
          names_loop d2
        }
      })"

definition server_name :: "byte list \<Rightarrow> (goerr + byte list option) option" where
  "server_name d =
     (if length d < 2 then Some (Inl errNotClientHello)
      else do {
        l1 \<leftarrow> index d 0;
        l2 \<leftarrow> index d 1;
        d1 \<leftarrow> slice d 2 (int (length d));
        if int (length d1) \<noteq> be_int l1 l2 then Some (Inl errNotClientHello) else names_loop d1
      })"

partial_function (option) extensions_loop :: "byte list \<Rightarrow> (goerr + byte list) option" where
  "extensions_loop data =
     (if data = [] then Some (Inl errNotTLS)
      else if length data < 4 then Some (Inl errNotClientHello)
      else do {
        e1 \<leftarrow> index data 0;
        e2 \<leftarrow> index data 1;
        l1 \<leftarrow> index data 2;
        l2 \<leftarrow> index data 3;
        data1 \<leftarrow> slice data 4 (int (length data));
        if int (length data1) < be_int l1 l2 then Some (Inl errNotClientHello)
        else do {
          r \<leftarrow> (if be_int e1 e2 = 0 then do { d \<leftarrow> slice data1 0 (be_int l1 l2); server_name d } else Some (Inr None));
          case r of
            Inl e \<Rightarrow> Some (Inl e)
          | Inr (Some name) \<Rightarrow> Some (Inr name)
          | Inr None \<Rightarrow> do { data2 \<leftarrow> slice data1 (be_int l1 l2) (int (length data1)); extensions_loop data2 }
        }
      })"

declare names_loop.simps [code] extensions_loop.simps [code]

definition hello_extensions :: "byte list \<Rightarrow> (goerr + byte list) option" where
  "hello_extensions data =
     (if length data < 2 then Some (Inl errNotClientHello)
      else do {
        l1 \<leftarrow> index data 0;
        l2 \<leftarrow> index data 1;
        data1 \<leftarrow> slice data 2 (int (length data));
        if be_int l1 l2 \<noteq> int (length data1) then Some (Inl errNotClientHello) else extensions_loop data1
      })"

definition hello_compression :: "byte list \<Rightarrow> (goerr + byte list) option" where
  "hello_compression data =
     (if length data < 1 then Some (Inl ErrNoClue)
      else do {
        n \<leftarrow> index data 0;
        if int (length data) < 1 + uint n then Some (Inl ErrNoClue)
        else do { data1 \<leftarrow> slice data (1 + uint n) (int (length data)); hello_extensions data1 }
      })"

definition hello_ciphers :: "byte list \<Rightarrow> (goerr + byte list) option" where
  "hello_ciphers data =
     (if length data < 2 then Some (Inl ErrNoClue)
      else do {
        l1 \<leftarrow> index data 0;
        l2 \<leftarrow> index data 1;
        if be_int l1 l2 mod 2 = 1 \<or> int (length data) < 2 + be_int l1 l2 then Some (Inl errNotClientHello)
        else do { data1 \<leftarrow> slice data (2 + be_int l1 l2) (int (length data)); hello_compression data1 }
      })"

text \<open>The domain of \<open>Inr\<close> is what \<open>h.domain\<close> is set to.\<close>

definition ReadClientHello :: "byte list \<Rightarrow> (goerr + byte list) option" where
  "ReadClientHello data =
     (if length data < 42 then Some (Inl ErrNoClue)
      else do {
        n \<leftarrow> index data 38;
        if 32 < uint n \<or> int (length data) < 39 + uint n then Some (Inl ErrNoClue)
        else do { data1 \<leftarrow> slice data (39 + uint n) (int (length data)); hello_ciphers data1 }
      })"

definition SniffTLS :: "byte list \<Rightarrow> (goerr + byte list) option" where
  "SniffTLS b =
     (if length b < 5 then Some (Inl ErrNoClue)
      else do {
        b0 \<leftarrow> index b 0;
        b1 \<leftarrow> index b 1;
        b2 \<leftarrow> index b 2;
        if b0 \<noteq> 0x16 then Some (Inl errNotTLS)
        else if \<not> IsValidTLSVersion b1 b2 then Some (Inl errNotTLS)
        else do {
          s \<leftarrow> slice b 3 5;
          l \<leftarrow> Uint16 s;
          if 5 + uint l > int (length b) then Some (Inl ErrNoClue)
          else do { d \<leftarrow> slice b 5 (5 + uint l); ReadClientHello d }
        }
      })"

section \<open>HTTP\<close>

definition http_methods :: "gostring list" where
  "http_methods = map str [''get'', ''post'', ''head'', ''put'', ''delete'', ''options'', ''connect'']"

text \<open>
  \<open>strings.EqualFold\<close> against an ASCII text of the same number of bytes: a character outside ASCII takes several bytes, so the
  numbers of characters would differ.
\<close>

definition ascii_lower :: "byte \<Rightarrow> byte" where
  "ascii_lower c = (if 65 \<le> c \<and> c \<le> 90 then c + 32 else c)"

definition EqualFold_ascii :: "gostring \<Rightarrow> gostring \<Rightarrow> bool" where
  "EqualFold_ascii s t \<longleftrightarrow> map ascii_lower s = map ascii_lower t"

fun method_loop :: "byte list \<Rightarrow> gostring list \<Rightarrow> goerr option" where
  "method_loop b [] = Some (ErrOther ''not an HTTP method'')"
| "method_loop b (m # ms) =
     (if length m \<le> length b \<and> EqualFold_ascii (take (length m) b) m then None
      else if length b < length m then Some ErrNoClue
      else method_loop b ms)"

definition beginWithHTTPMethod :: "byte list \<Rightarrow> goerr option" where
  "beginWithHTTPMethod b = method_loop b http_methods"

text \<open>\<open>bytes.Split\<close> for a separator of one byte.\<close>

fun split_on :: "byte \<Rightarrow> byte list \<Rightarrow> byte list list" where
  "split_on c [] = [[]]"
| "split_on c (x # xs) = 
     (if x = c then [] # split_on c xs else (case split_on c xs of [] \<Rightarrow> [[x]] | y # ys \<Rightarrow> (x # y) # ys))"

definition ParseHost :: "gostring \<Rightarrow> Port \<Rightarrow> Destination \<times> goerr option" where
  "ParseHost rawHost defaultPort =
     (let zero = \<lparr>d_Address = None, d_Port = 0, d_Network = Network_Unknown\<rparr>
      in case SplitHostPort rawHost of
           Inl e \<Rightarrow>
             if e = missing_port then (TCPDestination (ParseAddress rawHost) defaultPort, None)
             else (zero, Some e)
         | Inr (host, rawPort) \<Rightarrow>
             if rawPort \<noteq> [] then
               (case Atoi rawPort of
                  None \<Rightarrow> (zero, Some (ErrOther ''strconv.Atoi: invalid number''))
                | Some intPort \<Rightarrow> (TCPDestination (ParseAddress host) (word_of_int intPort), None))
             else (TCPDestination (ParseAddress host) defaultPort, None))"

text \<open>The header lines from the second one on, with the host found so far; calling \<open>String\<close> on a nil address panics.\<close>

fun header_loop :: "(gostring \<Rightarrow> gostring) \<Rightarrow> byte list list \<Rightarrow> gostring \<Rightarrow> (goerr + gostring) option" where
  "header_loop lower [] host = Some (Inr host)"
| "header_loop lower (header # hs) host =
     (if header = [] then Some (Inr host)
      else if 58 \<notin> set header then header_loop lower hs host
      else let key = takeWhile (\<lambda>c. c \<noteq> 58) header; val = drop (length key + 1) header
        in if lower key = str ''host'' then
             (case ParseHost (lower (TrimSpace val)) 80 of
                (dest, Some e) \<Rightarrow> Some (Inl e)
              | (dest, None) \<Rightarrow> Option.bind (d_Address dest) (\<lambda>a. header_loop lower hs (Address_String a)))
           else header_loop lower hs host)"

definition SniffHTTP :: "(gostring \<Rightarrow> gostring) \<Rightarrow> byte list \<Rightarrow> (goerr + gostring) option" where
  "SniffHTTP lower b =
     (case beginWithHTTPMethod b of
        Some e \<Rightarrow> Some (Inl e)
      | None \<Rightarrow> Option.bind (header_loop lower (tl (split_on 10 b)) []) (\<lambda>r.
          Some (case r of Inl e \<Rightarrow> Inl e | Inr host \<Rightarrow> if host \<noteq> [] then Inr host else Inl ErrNoClue)))"

section \<open>BitTorrent\<close>

definition errNotBittorrent :: goerr where "errNotBittorrent = ErrOther ''not bittorrent header''"

definition SniffBittorrent :: "byte list \<Rightarrow> (goerr + unit) option" where
  "SniffBittorrent b =
     (if length b < 20 then Some (Inl ErrNoClue)
      else do {
        b0 \<leftarrow> index b 0;
        s \<leftarrow> slice b 1 20;
        if b0 = 19 \<and> s = str ''BitTorrent protocol'' then Some (Inr ()) else Some (Inl errNotBittorrent)
      })"

text \<open>\<open>binary.Read\<close> of \<open>n\<close> bytes from a buffer: \<open>io.ReadFull\<close>.\<close>

definition binary_Read :: "Buffer \<Rightarrow> nat \<Rightarrow> (byte list \<times> goerr option \<times> Buffer) option" where
  "binary_Read b n = ReadFull Buffer_Read b n"

text \<open>The extensions of a uTP header; \<open>Inr\<close> gives the buffer behind them.\<close>

partial_function (option) utp_extensions :: "Buffer \<Rightarrow> byte \<Rightarrow> (goerr + Buffer) option" where
  "utp_extensions buffer extension =
     (if extension = 0 then Some (Inr buffer)
      else if extension \<noteq> 1 then Some (Inl errNotBittorrent)
      else do {
        (bs, e, buffer1) \<leftarrow> binary_Read buffer 1;
        if e \<noteq> None then Some (Inl ErrNoClue)
        else do {
          (ls, e2, buffer2) \<leftarrow> binary_Read buffer1 1;
          if e2 \<noteq> None then Some (Inl ErrNoClue)
          else do {
            ((_, e3), buffer3) \<leftarrow> ReadBytes buffer2 (uint (hd ls));
            if e3 \<noteq> None then Some (Inl ErrNoClue) else utp_extensions buffer3 (hd bs)
          }
        }
      })"

declare utp_extensions.simps [code]

text \<open>
  \<open>now\<close> is \<open>time.Now().UnixMicro()\<close>. The bound \<open>float64(24*time.Hour)\<close> is a number of nanoseconds; the comparison of the
  floating-point values is that of the integers, which are exact below \<open>2 ^ 53\<close> and far above the bound beyond.
\<close>

definition utp_timestamp :: "int \<Rightarrow> Buffer \<Rightarrow> (goerr + unit) option" where
  "utp_timestamp now buffer = do {
     ((_, e), buffer1) \<leftarrow> ReadBytes buffer 2;
     if e \<noteq> None then Some (Inl ErrNoClue)
     else do {
       (ts, e2, _) \<leftarrow> binary_Read buffer1 4;
       if e2 \<noteq> None then Some (Inl ErrNoClue)
       else let timestamp = foldl (\<lambda>a c. a * 256 + uint c) 0 ts
         in if \<bar>now - timestamp\<bar> > 86400000000000 then Some (Inl errNotBittorrent) else Some (Inr ())
     }
   }"

definition SniffUTP :: "int \<Rightarrow> byte list \<Rightarrow> (goerr + unit) option" where
  "SniffUTP now b =
     (if length b < 20 then Some (Inl ErrNoClue)
      else do {
        b0 \<leftarrow> index b 0;
        (_, e, buffer1) \<leftarrow> binary_Read (FromBytes b (int (length b))) 1;
        if e \<noteq> None then Some (Inl ErrNoClue)
        else if (drop_bit 4 b0 AND 0xF) > 4 \<or> (b0 AND 0xF) \<noteq> 1 then Some (Inl errNotBittorrent)
        else do {
          (xs, e2, buffer2) \<leftarrow> binary_Read buffer1 1;
          if e2 \<noteq> None then Some (Inl ErrNoClue)
          else if hd xs \<noteq> 0 \<and> hd xs \<noteq> 1 then Some (Inl errNotBittorrent)
          else do {
            r \<leftarrow> utp_extensions buffer2 (hd xs);
            case r of Inl er \<Rightarrow> Some (Inl er) | Inr buffer3 \<Rightarrow> utp_timestamp now buffer3
          }
        }
      })"

section \<open>Slices that are in range\<close>

declare slice_in [simp del]

lemma index_in: "0 \<le> i \<Longrightarrow> i < int (length xs) \<Longrightarrow> index xs i = Some (xs ! nat i)"
  by (simp add: index_def)

lemma slice_tail: "0 \<le> k \<Longrightarrow> k \<le> int (length xs) \<Longrightarrow> slice xs k (int (length xs)) = Some (drop (nat k) xs)"
  by (simp add: slice_in nat_diff_distrib)

lemma slice_head: "0 \<le> k \<Longrightarrow> k \<le> int (length xs) \<Longrightarrow> slice xs 0 k = Some (take (nat k) xs)"
  by (simp add: slice_in)

lemma not_short: "\<not> length xs < n \<Longrightarrow> 0 < n \<Longrightarrow> xs \<noteq> []"
  by auto

section \<open>The TLS sniffer never panics\<close>

definition good_name :: "byte list \<Rightarrow> bool" where
  "good_name n \<longleftrightarrow> (\<forall>c \<in> set n. 32 < c) \<and> (n = [] \<or> last n \<noteq> 46)"

lemma check_name_iff: "check_name n = Inr m \<longleftrightarrow> m = n \<and> good_name n"
proof -
  have "list_ex (\<lambda>b. b \<le> 32) n \<longleftrightarrow> \<not> (\<forall>c \<in> set n. 32 < c)" by (simp add: list_ex_iff not_le [symmetric])
  then show ?thesis by (auto simp: check_name_def good_name_def)
qed

definition names_post :: "(goerr + byte list option) option \<Rightarrow> bool" where
  "names_post x \<longleftrightarrow> (\<exists>r. x = Some r \<and> (\<forall>n. r = Inr (Some n) \<longrightarrow> good_name n))"

definition hello_post :: "(goerr + byte list) option \<Rightarrow> bool" where
  "hello_post x \<longleftrightarrow> (\<exists>r. x = Some r \<and> (\<forall>n. r = Inr n \<longrightarrow> good_name n))"

text \<open>The parser on lists that are taken apart as far as it looks at them.\<close>

lemma be_nat: "int n < be_int a b \<longleftrightarrow> n < nat (be_int a b)" "int n \<noteq> be_int a b \<longleftrightarrow> n \<noteq> nat (be_int a b)"
  "be_int a b \<noteq> int n \<longleftrightarrow> n \<noteq> nat (be_int a b)"
  using be_int_range(1) [of a b] by auto

lemma slice_be:
  "nat (be_int a b) \<le> length xs \<Longrightarrow> slice xs 0 (be_int a b) = Some (take (nat (be_int a b)) xs)"
  "nat (be_int a b) \<le> length xs \<Longrightarrow> slice xs (be_int a b) (int (length xs)) = Some (drop (nat (be_int a b)) xs)"
  using be_int_range(1) [of a b] by (auto intro: slice_head slice_tail)

lemma names_step:
  "names_loop (t # l1 # l2 # d) =
     (let n = nat (be_int l1 l2)
      in if length d < n then Some (Inl errNotClientHello)
         else if t = 0 then Some (case check_name (take n d) of Inl e \<Rightarrow> Inl e | Inr m \<Rightarrow> Inr (Some m))
         else names_loop (drop n d))"
proof -
  let ?d = "t # l1 # l2 # d"
  have "index ?d 0 = Some t" "index ?d 1 = Some l1" "index ?d 2 = Some l2" by (simp_all add: index_def)
  moreover have "slice ?d 3 (int (length ?d)) = Some d" by (subst slice_tail) simp_all
  ultimately show ?thesis using slice_be [of l1 l2 d] be_nat(1) [of "length d" l1 l2]
    by (subst names_loop.simps) (simp only: Let_def bind.simps, auto)
qed

lemma server_name_step:
  "server_name (l1 # l2 # d) = (if length d \<noteq> nat (be_int l1 l2) then Some (Inl errNotClientHello) else names_loop d)"
proof -
  let ?d = "l1 # l2 # d"
  have "index ?d 0 = Some l1" "index ?d 1 = Some l2" by (simp_all add: index_def)
  moreover have "slice ?d 2 (int (length ?d)) = Some d" by (subst slice_tail) simp_all
  ultimately show ?thesis using be_nat(2) [of "length d" l1 l2] unfolding server_name_def by (simp only: bind.simps) simp
qed

lemma extensions_step:
  "extensions_loop (e1 # e2 # l1 # l2 # d) =
     (let n = nat (be_int l1 l2)
      in if length d < n then Some (Inl errNotClientHello)
         else Option.bind (if be_int e1 e2 = 0 then server_name (take n d) else Some (Inr None)) (\<lambda>r.
           case r of Inl e \<Rightarrow> Some (Inl e) | Inr (Some name) \<Rightarrow> Some (Inr name) | Inr None \<Rightarrow> extensions_loop (drop n d)))"
proof -
  let ?d = "e1 # e2 # l1 # l2 # d"
  have "index ?d 0 = Some e1" "index ?d 1 = Some e2" "index ?d 2 = Some l1" "index ?d 3 = Some l2" by (simp_all add: index_def)
  moreover have "slice ?d 4 (int (length ?d)) = Some d" by (subst slice_tail) simp_all
  ultimately have "extensions_loop ?d =
     (if int (length d) < be_int l1 l2 then Some (Inl errNotClientHello)
      else Option.bind (if be_int e1 e2 = 0 then Option.bind (slice d 0 (be_int l1 l2)) server_name else Some (Inr None)) (\<lambda>r.
           case r of Inl e \<Rightarrow> Some (Inl e) | Inr (Some name) \<Rightarrow> Some (Inr name)
           | Inr None \<Rightarrow> Option.bind (slice d (be_int l1 l2) (int (length d))) extensions_loop))"
    by (subst extensions_loop.simps) (simp only: bind.simps, simp)
  then show ?thesis using slice_be [of l1 l2 d] be_nat(1) [of "length d" l1 l2]
    by (simp add: Let_def del: bind.simps cong: if_cong option.case_cong sum.case_cong) simp
qed

lemma hello_extensions_step:
  "hello_extensions (l1 # l2 # d) = (if length d \<noteq> nat (be_int l1 l2) then Some (Inl errNotClientHello) else extensions_loop d)"
proof -
  let ?d = "l1 # l2 # d"
  have "index ?d 0 = Some l1" "index ?d 1 = Some l2" by (simp_all add: index_def)
  moreover have "slice ?d 2 (int (length ?d)) = Some d" by (subst slice_tail) simp_all
  ultimately show ?thesis using be_nat(3) [of l1 l2 "length d"] unfolding hello_extensions_def by (simp only: bind.simps) simp
qed

lemma hello_compression_step:
  "hello_compression (n # d) = (if length d < unat n then Some (Inl ErrNoClue) else hello_extensions (drop (unat n) d))"
proof -
  define m where "m = unat n"
  have n: "uint n = int m" by (simp add: m_def)
  have "slice (n # d) (1 + int m) (int (length (n # d))) = Some (drop m d)" if "\<not> length d < m"
    using that by (subst slice_tail) (simp_all add: nat_add_distrib)
  then show ?thesis unfolding hello_compression_def m_def [symmetric] by (simp add: index_def n)
qed

lemma hello_ciphers_step:
  "hello_ciphers (l1 # l2 # d) =
     (let n = nat (be_int l1 l2)
      in if odd n \<or> length d < n then Some (Inl errNotClientHello) else hello_compression (drop n d))"
proof -
  let ?d = "l1 # l2 # d"
  obtain n where n: "be_int l1 l2 = int n" using be_int_range(1) [of l1 l2] by (metis nat_0_le)
  have "index ?d 0 = Some l1" "index ?d 1 = Some l2" by (simp_all add: index_def)
  moreover have "slice ?d (2 + int n) (int (length ?d)) = Some (drop n d)" if "\<not> length d < n"
    using that by (subst slice_tail) (simp_all add: nat_add_distrib)
  moreover have "int n mod 2 = 1 \<longleftrightarrow> odd n" by presburger
  ultimately show ?thesis unfolding hello_ciphers_def Let_def by (simp only: bind.simps n) auto
qed

lemma names_loop_total: "names_post (names_loop d)"
proof (induction "length d" arbitrary: d rule: less_induct)
  case less
  show ?case
  proof (cases "length d < 3")
    case True
    then show ?thesis by (subst names_loop.simps) (simp add: names_post_def)
  next
    case False
    then obtain t l1 l2 d1 where d: "d = t # l1 # l2 # d1"
      by (metis length_Cons less_Suc_eq_0_disj list.exhaust list.size(3) not_less_eq numeral_3_eq_3)
    have "names_post (names_loop (drop n d1))" for n using d by (intro less) simp
    then show ?thesis unfolding d names_step Let_def by (auto simp: names_post_def check_name_iff split: sum.splits)
  qed
qed

lemma list2: "xs = [] \<or> (\<exists>a. xs = [a]) \<or> (\<exists>a b ys. xs = a # b # ys)"
  by (cases xs; cases "tl xs") auto

lemma server_name_total: "names_post (server_name d)"
  using list2 [of d] names_loop_total
  by (auto simp: server_name_step) (auto simp: server_name_def names_post_def)

lemma extensions_loop_total: "hello_post (extensions_loop d)"
proof (induction "length d" arbitrary: d rule: less_induct)
  case less
  show ?case
  proof (cases "length d < 4")
    case True
    then show ?thesis by (subst extensions_loop.simps) (simp add: hello_post_def)
  next
    case False
    then obtain e1 e2 l1 l2 d1 where d: "d = e1 # e2 # l1 # l2 # d1"
      using list2 [of d] list2 [of "drop 2 d"] by auto
    have rec: "hello_post (extensions_loop (drop n d1))" for n using d by (intro less) simp
    have "names_post (if be_int e1 e2 = 0 then server_name (take n d1) else Some (Inr None))" for n
      using server_name_total by (simp add: names_post_def)
    then obtain r where r: "(if be_int e1 e2 = 0 then server_name (take n d1) else Some (Inr None)) = Some (r n)"
      "r n = Inr (Some m) \<Longrightarrow> good_name m" for n m unfolding names_post_def by metis
    show ?thesis unfolding d extensions_step Let_def r(1)
      using rec r(2) by (auto simp: hello_post_def split: sum.splits option.splits)
  qed
qed

lemma hello_extensions_total: "hello_post (hello_extensions d)"
  using list2 [of d] extensions_loop_total
  by (auto simp: hello_extensions_step) (auto simp: hello_extensions_def hello_post_def)

lemma hello_compression_total: "hello_post (hello_compression d)"
  using hello_extensions_total
  by (cases d) (auto simp: hello_compression_step, auto simp: hello_compression_def hello_post_def)

lemma hello_ciphers_total: "hello_post (hello_ciphers d)"
  using list2 [of d] hello_compression_total
  by (auto simp: hello_ciphers_step Let_def) (auto simp: hello_ciphers_def hello_post_def)

lemma ReadClientHello_step:
  "42 \<le> length d \<Longrightarrow> ReadClientHello d =
     (if 32 < unat (d ! 38) \<or> length d < 39 + unat (d ! 38) then Some (Inl ErrNoClue)
      else hello_ciphers (drop (39 + unat (d ! 38)) d))"
proof -
  assume d: "42 \<le> length d"
  define n where "n = unat (d ! 38)"
  have n: "uint (d ! 38) = int n" by (simp add: n_def)
  have "slice d (39 + int n) (int (length d)) = Some (drop (39 + n) d)" if "\<not> length d < 39 + n"
    using that by (subst slice_tail) (simp_all add: nat_add_distrib)
  moreover have "index d 38 = Some (d ! 38)" using d by (simp add: index_def)
  ultimately show ?thesis using d unfolding ReadClientHello_def n_def [symmetric] by (auto simp: n)
qed

lemma ReadClientHello_total: "hello_post (ReadClientHello d)"
proof (cases "42 \<le> length d")
  case True
  then show ?thesis using hello_ciphers_total by (simp add: ReadClientHello_step) (simp add: hello_post_def)
qed (simp add: ReadClientHello_def hello_post_def)

lemma SniffTLS_step:
  "SniffTLS (b0 # b1 # b2 # l1 # l2 # d) =
     (let n = nat (be_int l1 l2)
      in if b0 \<noteq> 22 \<or> b1 \<noteq> 3 then Some (Inl errNotTLS)
         else if length d < n then Some (Inl ErrNoClue)
         else ReadClientHello (take n d))"
proof -
  let ?b = "b0 # b1 # b2 # l1 # l2 # d"
  have u: "uint (push_bit 8 (ucast l1) OR ucast l2 :: 16 word) = be_int l1 l2"
    unfolding be_int_def by (rule bit_eqI) (auto simp: bit_simps dest: bit_imp_le_length)
  obtain n where n: "be_int l1 l2 = int n" using be_int_range(1) [of l1 l2] by (metis nat_0_le)
  have "slice ?b 3 5 = Some [l1, l2]" by (simp add: slice_def)
  moreover have "slice ?b 5 (5 + int n) = Some (take n d)" if "\<not> length d < n" using that by (simp add: slice_def)
  moreover have "index ?b 0 = Some b0" "index ?b 1 = Some b1" "index ?b 2 = Some b2" by (simp_all add: index_def)
  ultimately show ?thesis unfolding SniffTLS_def Let_def Uint16_def
    by (simp only: bind.simps list.case u n) (auto simp: IsValidTLSVersion_def)
qed

lemma SniffTLS_total: "hello_post (SniffTLS b)"
proof (cases "length b < 5")
  case False
  then obtain b0 b1 b2 l1 l2 d where "b = b0 # b1 # b2 # l1 # l2 # d"
    using list2 [of b] list2 [of "drop 2 b"] by (cases "drop 4 b") auto
  then show ?thesis using ReadClientHello_total by (simp add: SniffTLS_step Let_def) (simp add: hello_post_def)
qed (simp add: SniffTLS_def hello_post_def)

section \<open>Well-formed client hellos\<close>

definition vec8 :: "byte list \<Rightarrow> byte list" where
  "vec8 d = word_of_nat (length d) # d"

definition vec16 :: "byte list \<Rightarrow> byte list" where
  "vec16 d = [hi_byte (int (length d)), byte_of (int (length d))] @ d"

definition extension :: "byte \<times> byte \<times> byte list \<Rightarrow> byte list" where
  "extension x = (case x of (e1, e2, d) \<Rightarrow> [e1, e2] @ vec16 d)"

text \<open>The extension that carries a host name.\<close>

definition sni :: "byte list \<Rightarrow> byte list" where
  "sni name = extension (0, 0, vec16 (0 # vec16 name))"

definition client_hello :: "byte list \<Rightarrow> byte list \<Rightarrow> byte list \<Rightarrow> byte list \<Rightarrow> byte list \<Rightarrow> byte list" where
  "client_hello start sid ciphers compression exts = start @ vec8 sid @ vec16 ciphers @ vec8 compression @ vec16 exts"

definition tls_record :: "byte \<Rightarrow> byte list \<Rightarrow> byte list" where
  "tls_record minor d = [22, 3, minor] @ vec16 d"

lemma length_vec [simp]: "length (vec8 d) = length d + 1" "length (vec16 d) = length d + 2"
  by (simp_all add: vec8_def vec16_def)

lemma server_name_sni:
  assumes "good_name name" "length name + 3 < 65536"
  shows "server_name (vec16 (0 # vec16 name)) = Some (Inr (Some name))"
proof -
  have "check_name name = Inr name" using assms(1) by (simp add: check_name_iff)
  then show ?thesis using assms(2) by (simp add: vec16_def server_name_step names_step Let_def)
qed

lemma extensions_skip:
  "\<forall>(e1, e2, d) \<in> set xs. be_int e1 e2 \<noteq> 0 \<and> length d < 65536 \<Longrightarrow>
    extensions_loop (concat (map extension xs) @ rest) = extensions_loop rest"
  by (induction xs) (auto simp: extension_def vec16_def extensions_step Let_def)

lemma extensions_server_name:
  assumes "length d < 65536"
  shows "extensions_loop (extension (0, 0, d) @ rest) = Option.bind (server_name d) (\<lambda>r.
    case r of Inl e \<Rightarrow> Some (Inl e) | Inr (Some name) \<Rightarrow> Some (Inr name) | Inr None \<Rightarrow> extensions_loop rest)"
proof -
  have "be_int 0 0 = 0" by (simp add: be_int_def)
  then show ?thesis using assms by (simp add: extension_def vec16_def extensions_step Let_def)
qed

lemma extensions_sni:
  assumes "good_name name" "length name + 5 < 65536"
  shows "extensions_loop (sni name @ rest) = Some (Inr name)"
  using assms server_name_sni [of name] by (simp add: sni_def extensions_server_name)

lemma ReadClientHello_hello:
  assumes "length start = 38" "length sid \<le> 32" "even (length ciphers)" "length ciphers < 65536" "length compression < 256"
    "length exts < 65536"
  shows "ReadClientHello (client_hello start sid ciphers compression exts) = extensions_loop exts"
proof -
  let ?h = "client_hello start sid ciphers compression exts"
  let ?t = "vec16 ciphers @ vec8 compression @ vec16 exts"
  have n: "unat (?h ! 38) = length sid" using assms(1,2) by (simp add: client_hello_def vec8_def nth_append unat_byte)
  have "drop (39 + length sid) ?h = ?t" using assms(1) by (simp add: client_hello_def vec8_def)
  then have "ReadClientHello ?h = hello_ciphers ?t"
    using n assms(1,2) by (subst ReadClientHello_step) (simp_all add: client_hello_def)
  also have "\<dots> = hello_compression (vec8 compression @ vec16 exts)"
    using assms(3,4) by (simp add: vec16_def [of ciphers] hello_ciphers_step Let_def)
  also have "\<dots> = hello_extensions (vec16 exts)"
    using assms(5) unat_byte [of "length compression"] by (simp add: vec8_def hello_compression_step)
  also have "\<dots> = extensions_loop exts" using assms(6) by (simp add: vec16_def hello_extensions_step)
  finally show ?thesis .
qed

lemma SniffTLS_record:
  "length d < 65536 \<Longrightarrow> SniffTLS (tls_record minor d @ rest) = ReadClientHello d"
  by (simp add: tls_record_def vec16_def SniffTLS_step Let_def)

section \<open>HTTP\<close>

lemma split_on_ne [simp]: "split_on c s \<noteq> []"
  by (cases s) (auto split: list.splits)

lemma split_on_append: "split_on c (s @ [c] @ t) = split_on c s @ split_on c t"
  by (induction s) (auto split: list.splits)

lemma split_on_none: "c \<notin> set t \<Longrightarrow> split_on c t = [t]"
  by (induction t) auto

lemma ParseHost_address: "ParseHost h p = (dest, None) \<Longrightarrow> d_Address dest \<noteq> None"
  using ParseAddress_Some by (fastforce simp: ParseHost_def TCPDestination_def Let_def split: sum.splits if_splits option.splits)

lemma header_loop_total: "header_loop lower hs host \<noteq> None"
proof (induction hs arbitrary: host)
  case (Cons h hs)
  obtain dest e where p: "ParseHost (lower (TrimSpace (drop (length (takeWhile (\<lambda>c. c \<noteq> 58) h) + 1) h))) 80 = (dest, e)" by fastforce
  show ?case
  proof (cases e)
    case None
    then obtain a where "d_Address dest = Some a" using ParseHost_address p by blast
    then show ?thesis using Cons p None by (simp add: Let_def)
  qed (use Cons p in \<open>simp add: Let_def\<close>)
qed simp

lemma SniffHTTP_total: "SniffHTTP lower b \<noteq> None"
  using header_loop_total [of lower "tl (split_on 10 b)" "[]"] by (auto simp: SniffHTTP_def split: option.splits)

lemma header_loop_append:
  "[] \<notin> set hs \<Longrightarrow> header_loop lower hs host = Some (Inr host') \<Longrightarrow> header_loop lower (hs @ ks) host = header_loop lower ks host'"
  by (induction hs arbitrary: host) (auto simp: Let_def split: if_splits prod.splits option.splits bind_splits)

lemma method_loop_append: "method_loop b ms = None \<Longrightarrow> method_loop (b @ t) ms = None"
  by (induction ms) (auto split: if_splits)

lemma ParseHost_plain:
  assumes "plain_domain h"
  shows "ParseHost h p = (TCPDestination (Some (domainAddress h)) p, None)"
proof -
  have "58 \<notin> set h" using assms by (auto simp: plain_domain_def)
  then have "SplitHostPort h = Inl missing_port" by (simp add: SplitHostPort_def last_colon_def)
  moreover have "ParseAddress h = Some (domainAddress h)" using ParseAddress_bare [of "domainAddress h"] assms by simp
  ultimately show ?thesis by (simp add: ParseHost_def Let_def)
qed

section \<open>BitTorrent\<close>

lemma FromBytes_inv: "length b < 2147483648 \<Longrightarrow> buf_inv (FromBytes b (int (length b))) \<and> content (FromBytes b (int (length b))) = b"
  by (simp add: buf_inv_def content_def FromBytes_def b_arr_def)

lemma binary_Read_cases:
  assumes "buf_inv b"
  shows "(\<exists>e b'. binary_Read b n = Some (content b, Some e, b') \<and> length (content b) < n)
    \<or> (\<exists>b'. binary_Read b n = Some (take n (content b), None, b') \<and> n \<le> length (content b) \<and> buf_inv b' \<and> content b' = drop n (content b))"
proof (cases "n \<le> length (content b)")
  case True
  then show ?thesis using buffer_rd.ReadFull_enough [OF assms, of "take n (content b)" "drop n (content b)" n]
    by (auto simp: binary_Read_def)
next
  case False
  then show ?thesis using buffer_rd.ReadFull_short [OF assms, of n] by (auto simp: binary_Read_def)
qed

definition utp_post :: "(goerr + Buffer) option \<Rightarrow> bool" where
  "utp_post x \<longleftrightarrow> (\<exists>r. x = Some r \<and> (\<forall>b. r = Inr b \<longrightarrow> buf_inv b))"

lemma utp_extensions_total: "buf_inv b \<Longrightarrow> utp_post (utp_extensions b x)"
proof (induction "length (content b)" arbitrary: b x rule: less_induct)
  case less
  show ?case
  proof (cases "x = 1")
    case False
    then show ?thesis using less.prems by (subst utp_extensions.simps) (simp add: utp_post_def)
  next
    case x: True
    show ?thesis using binary_Read_cases [OF less.prems, of 1]
    proof (elim disjE exE conjE)
      fix b1 assume r1: "binary_Read b 1 = Some (take 1 (content b), None, b1)" "1 \<le> length (content b)" "buf_inv b1" "content b1 = drop 1 (content b)"
      show ?thesis using binary_Read_cases [OF r1(3), of 1]
      proof (elim disjE exE conjE)
        fix b2 assume r2: "binary_Read b1 1 = Some (take 1 (content b1), None, b2)" "1 \<le> length (content b1)" "buf_inv b2" "content b2 = drop 1 (content b1)"
        define n where "n = unat (hd (take 1 (content b1)))"
        have n: "uint (hd (take 1 (content b1))) = int n" by (simp add: n_def)
        have "utp_post (utp_extensions (consume b2 n) (hd (take 1 (content b))))" if "n \<le> length (content b2)"
          using that r1(2,4) r2 by (intro less.hyps) simp_all
        then show ?thesis using x r1(1) r2(1,3) n ReadBytes_content [OF r2(3), of n]
          by (subst utp_extensions.simps) (simp add: utp_post_def)
      qed (use x r1 in \<open>subst utp_extensions.simps, simp add: utp_post_def\<close>)
    qed (use x in \<open>subst utp_extensions.simps, simp add: utp_post_def\<close>)
  qed
qed

lemma be_bytes_bound: "foldl (\<lambda>a c. a * 256 + uint (c :: byte)) 0 [a, b, c, d] < 4294967296"
proof -
  have "uint a < 256" "uint b < 256" "uint c < 256" "uint d < 256"
    using uint_lt2p [of a] uint_lt2p [of b] uint_lt2p [of c] uint_lt2p [of d] by simp_all
  then show ?thesis by simp
qed

lemma utp_timestamp_never:
  assumes "buf_inv b" "86404294967296 \<le> now"
  shows "\<exists>e. utp_timestamp now b = Some (Inl e)"
proof (cases "2 \<le> length (content b)")
  case True
  then have r: "ReadBytes b 2 = Some ((take 2 (content b), None), consume b 2)" "buf_inv (consume b 2)"
    using ReadBytes_content [OF assms(1), of 2] assms(1) by simp_all
  show ?thesis using binary_Read_cases [OF r(2), of 4]
  proof (elim disjE exE conjE)
    fix b' assume k: "binary_Read (consume b 2) 4 = Some (take 4 (content (consume b 2)), None, b')" "4 \<le> length (content (consume b 2))"
    then obtain w x y z where "take 4 (content (consume b 2)) = [w, x, y, z]"
      by (auto simp: numeral_eq_Suc Suc_le_length_iff)
    then show ?thesis using r(1) k(1) be_bytes_bound [of w x y z] assms(2) by (simp add: utp_timestamp_def Let_def)
  qed (use r(1) in \<open>simp add: utp_timestamp_def\<close>)
next
  case False
  then show ?thesis using ReadBytes_content [OF assms(1), of 2] by (simp add: utp_timestamp_def)
qed

section \<open>Properties\<close>

text \<open>
  C33. The TLS sniffer never panics and ends on every input: what it reports as a host name consists of printable bytes and does not
  end with a dot. The record of a well-formed client hello (any session id of up to 32 bytes, any cipher suites and compression
  methods, any other extensions around the server name) gives exactly the name it carries.
\<close>

theorem sniff_tls_finds_name:
  "(\<exists>r. SniffTLS b = Some r \<and> (\<forall>n. r = Inr n \<longrightarrow> (\<forall>c \<in> set n. 32 < c) \<and> (n = [] \<or> last n \<noteq> 46)))
   \<and> (length start = 38 \<and> length sid \<le> 32 \<and> even (length ciphers) \<and> length compression < 256
      \<and> (\<forall>(e1, e2, d) \<in> set before. be_int e1 e2 \<noteq> 0 \<and> length d < 65536)
      \<and> (\<forall>c \<in> set name. 32 < c) \<and> (name = [] \<or> last name \<noteq> 46)
      \<and> length (client_hello start sid ciphers compression (concat (map extension before) @ sni name @ after)) < 65536
      \<longrightarrow> SniffTLS (tls_record minor (client_hello start sid ciphers compression (concat (map extension before) @ sni name @ after)) @ rest)
          = Some (Inr name))"
proof (intro conjI impI)
  show "\<exists>r. SniffTLS b = Some r \<and> (\<forall>n. r = Inr n \<longrightarrow> (\<forall>c \<in> set n. 32 < c) \<and> (n = [] \<or> last n \<noteq> 46))"
    using SniffTLS_total [of b] unfolding hello_post_def good_name_def .
next
  let ?e = "concat (map extension before) @ sni name @ after"
  let ?h = "client_hello start sid ciphers compression ?e"
  assume a: "length start = 38 \<and> length sid \<le> 32 \<and> even (length ciphers) \<and> length compression < 256
      \<and> (\<forall>(e1, e2, d) \<in> set before. be_int e1 e2 \<noteq> 0 \<and> length d < 65536)
      \<and> (\<forall>c \<in> set name. 32 < c) \<and> (name = [] \<or> last name \<noteq> 46) \<and> length ?h < 65536"
  have len: "length ciphers < 65536" "length ?e < 65536" "length (sni name) < 65536" using a by (simp_all add: client_hello_def)
  then have "length name + 5 < 65536" by (simp add: sni_def extension_def)
  moreover have "good_name name" using a by (simp add: good_name_def)
  ultimately have "extensions_loop ?e = Some (Inr name)" using a extensions_skip [of before] extensions_sni [of name] by simp
  moreover have "SniffTLS (tls_record minor ?h @ rest) = ReadClientHello ?h" using a by (intro SniffTLS_record) simp
  moreover have "ReadClientHello ?h = extensions_loop ?e" using a len by (intro ReadClientHello_hello) simp_all
  ultimately show "SniffTLS (tls_record minor ?h @ rest) = Some (Inr name)" by simp
qed

theorem sniff_tls_finds_name_witness:
  "SniffTLS (tls_record 1 (client_hello (replicate 38 7) [] [19, 1] [0] (concat (map extension [(0, 23, [])]) @ sni (str ''a.de'') @ [])) @ [9])
   = Some (Inr (str ''a.de''))"
  by (rule sniff_tls_finds_name [THEN conjunct2, THEN mp, of "replicate 38 7" "[]" "[19, 1]" "[0]" "[(0, 23, [])]" "str ''a.de''" "[]" 1 "[9]"])
    (simp add: be_int_def str_def client_hello_def sni_def extension_def)

text \<open>
  The HTTP sniffer scans the body as if it were header: with line ends \<open>CR LF\<close> the blank line that ends the header is the
  line \<open>CR\<close>, which is not empty, so the loop goes on. Whatever request is sniffed (a method in front, header lines that parse, no line
  that is completely empty), a line \<open>Host:\<close> appended to it, even in the body, replaces the host that decides the route.
\<close>

theorem http_body_overrides_host:
  assumes "beginWithHTTPMethod req = None" "[] \<notin> set (tl (split_on 10 req))" "header_loop lower (tl (split_on 10 req)) [] = Some (Inr host)"
    and "plain_domain h" "10 \<notin> set h" "lower h = h" "lower (str ''Host'') = str ''host''"
  shows "SniffHTTP lower (req @ [10] @ str ''Host:'' @ h) = Some (Inr h)"
proof -
  let ?l = "str ''Host:'' @ h"
  have k: "str ''Host:'' = str ''Host'' @ [58]" "58 \<notin> set (str ''Host'')" "10 \<notin> set (str ''Host:'')" by (simp_all add: str_def)
  have s: "split_on 10 (req @ [10] @ ?l) = split_on 10 req @ [?l]" using k(3) assms(5) by (simp only: split_on_append) (simp add: split_on_none)
  have tw: "takeWhile (\<lambda>c. c \<noteq> 58) ?l = str ''Host''" by (simp add: str_def)
  have h: "h \<noteq> []" "isAlphaNum (hd h)" "isAlphaNum (last h)" using assms(4) by (simp_all add: plain_domain_def)
  then have "TrimSpace h = h" using not_brackets by (intro TrimSpace_id) auto
  then have "header_loop lower [?l] host = Some (Inr h)"
    using tw k(1) assms(4,6,7) by (simp add: Let_def ParseHost_plain TCPDestination_def)
  then have "header_loop lower (tl (split_on 10 req) @ [?l]) [] = Some (Inr h)"
    using header_loop_append [OF assms(2,3)] by simp
  moreover have "beginWithHTTPMethod (req @ [10] @ ?l) = None"
    using assms(1) method_loop_append unfolding beginWithHTTPMethod_def by blast
  ultimately show ?thesis using s h(1) by (simp add: SniffHTTP_def)
qed

theorem http_body_overrides_host_witness:
  "let lower = map ascii_lower; req = str ''POST / HTTP/1.1'' @ [13, 10] @ str ''Host: a.de'' @ [13, 10, 13]
   in SniffHTTP lower (req @ [10]) = Some (Inr (str ''a.de'')) \<and> SniffHTTP lower (req @ [10] @ str ''Host:'' @ str ''b.de'') = Some (Inr (str ''b.de''))"
proof -
  let ?lower = "map ascii_lower" and ?req = "str ''POST / HTTP/1.1'' @ [13, 10] @ str ''Host: a.de'' @ [13, 10, 13]"
  have a: "beginWithHTTPMethod ?req = None" "[] \<notin> set (tl (split_on 10 ?req))" by code_simp+
  have b: "header_loop ?lower (tl (split_on 10 ?req)) [] = Some (Inr (str ''a.de''))" by code_simp
  have c: "plain_domain (str ''b.de'')" "10 \<notin> set (str ''b.de'')" "?lower (str ''b.de'') = str ''b.de''" "?lower (str ''Host'') = str ''host''" by code_simp+
  have "SniffHTTP ?lower (?req @ [10]) = Some (Inr (str ''a.de''))" by code_simp
  then show ?thesis using http_body_overrides_host [OF a b c] by (simp only: Let_def simp_thms)
qed

text \<open>
  The uTP sniffer recognises nothing: it compares the clock in microseconds since 1970 with the 32-bit timestamp of the
  header, and the difference with \<open>24*time.Hour\<close>, which is a number of nanoseconds, so since 1972 every packet is refused. (It
  returns on every input.)
\<close>

theorem utp_never_recognised:
  assumes "length b < 2147483648" "86404294967296 \<le> now"
  shows "\<exists>e. SniffUTP now b = Some (Inl e)"
proof (cases "length b < 20")
  case False
  let ?f = "FromBytes b (int (length b))"
  have f: "buf_inv ?f" "content ?f = b" using FromBytes_inv [OF assms(1)] by simp_all
  have ix: "index b 0 = Some (b ! 0)" using not_short [OF False] by (simp add: index_def)
  obtain b1 where r1: "binary_Read ?f 1 = Some (take 1 b, None, b1)" "buf_inv b1" "content b1 = drop 1 b"
    using binary_Read_cases [OF f(1), of 1] f(2) False by auto
  obtain b2 where r2: "binary_Read b1 1 = Some (take 1 (drop 1 b), None, b2)" "buf_inv b2"
    using binary_Read_cases [OF r1(2), of 1] r1(3) False by auto
  obtain r where r: "utp_extensions b2 (hd (take 1 (drop 1 b))) = Some r" "\<forall>b3. r = Inr b3 \<longrightarrow> buf_inv b3"
    using utp_extensions_total [OF r2(2)] unfolding utp_post_def by blast
  show ?thesis using False ix r1(1) r2(1) r utp_timestamp_never [OF _ assms(2)]
    unfolding SniffUTP_def by (cases r) (simp_all del: take_Suc_Cons)
qed (simp add: SniffUTP_def)

theorem utp_never_recognised_witness: "\<exists>e. SniffUTP 1700000000000000 (replicate 20 1) = Some (Inl e)"
  using utp_never_recognised [of "replicate 20 1" 1700000000000000] by simp

end
