(* ===== verification/Quic_Sniff.thy ===== *)
theory Quic_Sniff
  imports Sniffers
begin

text \<open>
  \<open>common/protocol/quic/sniff.go\<close>: the QUIC sniffer takes the initial packets of a connection apart, decrypts them with the keys
  that follow from the connection id, puts the pieces of the client hello together and reads the host name from it. The
  packet bytes \<open>b\<close> are a slice: \<open>arr\<close> is its array up to the capacity and \<open>len\<close> its length, since a slice expression may go
  beyond the length. HKDF, AES, the GCM cipher and the variable-length integers of quic-go are the record \<open>quic_lib\<close>. \<open>Inl e\<close>
  is an error, \<open>None\<close> a panic or a loop that does not end.
\<close>

section \<open>Definitions\<close>

record quic_lib =
  hkdf_extract :: "byte list \<Rightarrow> byte list \<Rightarrow> byte list"
  hkdf_expand :: "byte list \<Rightarrow> byte list \<Rightarrow> nat \<Rightarrow> byte list"
  aes_NewCipher :: "byte list \<Rightarrow> goerr + (byte list \<Rightarrow> byte list)"
  gcm_Open :: "byte list \<Rightarrow> byte list \<Rightarrow> byte list \<Rightarrow> byte list \<Rightarrow> byte list \<Rightarrow> goerr + byte list"
  varint_Read :: "Buffer \<Rightarrow> ((nat \<times> goerr option) \<times> Buffer) option"

definition errNotQuic :: goerr where "errNotQuic = ENew ''not quic'' None"
definition errNotQuicInitial :: goerr where "errNotQuicInitial = ENew ''not initial packet'' None"
definition ErrShortBuffer :: goerr where "ErrShortBuffer = ErrOther ''short buffer''"

definition versionDraft29 :: int where "versionDraft29 = 0xff00001d"
definition version1 :: int where "version1 = 1"

definition quicSaltOld :: "byte list" where
  "quicSaltOld = [0xaf, 0xbf, 0xec, 0x28, 0x99, 0x93, 0xd2, 0x4c, 0x9e, 0x97, 0x86, 0xf1, 0x9c, 0x61, 0x11, 0xe0, 0x43, 0x90, 0xa8, 0x99]"

definition quicSalt :: "byte list" where
  "quicSalt = [0x38, 0x76, 0x2c, 0xf7, 0xf5, 0x59, 0x34, 0xb3, 0x4d, 0x17, 0x9a, 0xe6, 0xa4, 0xc8, 0x0c, 0xad, 0xcc, 0xbb, 0x7f, 0x0a]"

text \<open>The label is built in a slice with room for exactly its bytes.\<close>

definition hkdfExpandLabel :: "quic_lib \<Rightarrow> byte list \<Rightarrow> byte list \<Rightarrow> gostring \<Rightarrow> nat \<Rightarrow> byte list option" where
  "hkdfExpandLabel lib secret ctx label n =
     (let info = PutUint16 (word_of_nat n) @ [word_of_nat (6 + length label)] @ str ''tls13 '' @ label @ [word_of_nat (length ctx)] @ ctx;
          out = hkdf_expand lib secret info n
      in if length out = n then Some out else None)"

subsection \<open>The header of a packet\<close>

record quic_header =
  qh_initial :: bool
  qh_version :: int
  qh_dcid :: "byte list"
  qh_packetLen :: nat
  qh_hdrLen :: int
  qh_buffer :: Buffer

text \<open>A connection id: a length byte and the bytes.\<close>

definition read_conn_id :: "Buffer \<Rightarrow> (goerr + byte list \<times> Buffer) option" where
  "read_conn_id buffer = do {
     ((l, e), buffer1) \<leftarrow> ReadByte buffer;
     if e \<noteq> None then Some (Inl errNotQuic)
     else do {
       ((cid, e2), buffer2) \<leftarrow> ReadBytes buffer1 (uint l);
       if e2 \<noteq> None then Some (Inl errNotQuic) else Some (Inr (cid, buffer2))
     }
   }"

definition read_token :: "quic_lib \<Rightarrow> bool \<Rightarrow> int \<Rightarrow> Buffer \<Rightarrow> (goerr + Buffer) option" where
  "read_token lib isQuicInitial len buffer =
     (if isQuicInitial then do {
        ((tokenLen, e), buffer1) \<leftarrow> varint_Read lib buffer;
        if e \<noteq> None \<or> int tokenLen > len then Some (Inl errNotQuic)
        else do {
          ((_, e2), buffer2) \<leftarrow> ReadBytes buffer1 (i32 (int tokenLen));
          if e2 \<noteq> None then Some (Inl errNotQuic) else Some (Inr buffer2)
        }
      } else Some (Inr buffer))"

definition read_length :: "quic_lib \<Rightarrow> int \<Rightarrow> Buffer \<Rightarrow> (goerr + nat \<times> int \<times> Buffer) option" where
  "read_length lib len buffer = do {
     ((packetLen, e), buffer1) \<leftarrow> varint_Read lib buffer;
     if e \<noteq> None then Some (Inl errNotQuic)
     else if packetLen < 4 then Some (Inl errNotQuic)
     else let hdrLen = len - buf_Len buffer1
       in if len < hdrLen + int packetLen then Some (Inl ErrNoClue) else Some (Inr (packetLen, hdrLen, buffer1))
   }"

definition read_ids :: "quic_lib \<Rightarrow> byte \<Rightarrow> int \<Rightarrow> int \<Rightarrow> Buffer \<Rightarrow> (goerr + quic_header) option" where
  "read_ids lib typeByte versionNumber len buffer =
     (let isQuicInitial = (drop_bit 4 (typeByte AND 0x30) = 0) in do {
       r1 \<leftarrow> read_conn_id buffer;
       case r1 of Inl e \<Rightarrow> Some (Inl e) | Inr (destConnID, buffer1) \<Rightarrow> do {
       r2 \<leftarrow> read_conn_id buffer1;
       case r2 of Inl e \<Rightarrow> Some (Inl e) | Inr (_, buffer2) \<Rightarrow> do {
       r3 \<leftarrow> read_token lib isQuicInitial len buffer2;
       case r3 of Inl e \<Rightarrow> Some (Inl e) | Inr buffer3 \<Rightarrow> do {
       r4 \<leftarrow> read_length lib len buffer3;
       case r4 of Inl e \<Rightarrow> Some (Inl e) | Inr (packetLen, hdrLen, buffer4) \<Rightarrow>
         Some (Inr \<lparr>qh_initial = isQuicInitial, qh_version = versionNumber, qh_dcid = destConnID, qh_packetLen = packetLen,
           qh_hdrLen = hdrLen, qh_buffer = buffer4\<rparr>) } } } })"

definition read_header :: "quic_lib \<Rightarrow> byte list \<Rightarrow> int \<Rightarrow> (goerr + quic_header) option" where
  "read_header lib arr len = do {
     ((typeByte, e), buffer1) \<leftarrow> ReadByte (FromBytes arr len);
     if e \<noteq> None then Some (Inl errNotQuic)
     else if \<not> (typeByte AND 0x80) > 0 \<or> (typeByte AND 0x40) = 0 then Some (Inl errNotQuicInitial)
     else do {
       ((vb, e2), buffer2) \<leftarrow> ReadBytes buffer1 4;
       if e2 \<noteq> None then Some (Inl errNotQuic)
       else let versionNumber = foldl (\<lambda>a c. a * 256 + uint c) 0 vb
         in if versionNumber \<noteq> 0 \<and> (typeByte AND 0x40) = 0 then Some (Inl errNotQuic)
            else if versionNumber \<noteq> versionDraft29 \<and> versionNumber \<noteq> version1 then Some (Inl errNotQuic)
            else read_ids lib typeByte versionNumber len buffer2
     }
   }"

subsection \<open>Decryption\<close>

text \<open>
  The header protection is taken off in place: the first byte and the bytes of the packet number. The packet number is then read
  through \<open>buffer\<close>, which shares the array.
\<close>

fun unmask_number :: "byte list \<Rightarrow> int \<Rightarrow> byte list \<Rightarrow> byte list option" where
  "unmask_number arr pos [] = Some arr"
| "unmask_number arr pos (m # ms) = Option.bind (index arr pos) (\<lambda>x. unmask_number (arr[nat pos := x XOR m]) (pos + 1) ms)"

definition decrypt_packet :: "quic_lib \<Rightarrow> byte list \<Rightarrow> quic_header \<Rightarrow> (goerr + byte list) option" where
  "decrypt_packet lib arr h = do {
     let salt = (if qh_version h = version1 then quicSalt else quicSaltOld);
     let initialSecret = hkdf_extract lib (qh_dcid h) salt;
     secret \<leftarrow> hkdfExpandLabel lib initialSecret [] (str ''client in'') 32;
     hpKey \<leftarrow> hkdfExpandLabel lib secret [] (str ''quic hp'') 16;
     case aes_NewCipher lib hpKey of
       Inl e \<Rightarrow> Some (Inl e)
     | Inr encrypt \<Rightarrow> do {
         sample \<leftarrow> slice arr (qh_hdrLen h + 4) (qh_hdrLen h + 4 + 16);
         let mask = encrypt sample;
         b0 \<leftarrow> index arr 0;
         m0 \<leftarrow> index mask 0;
         let b0' = b0 XOR (m0 AND 0xf);
         let packetNumberLength = unat ((b0' AND 3) + 1);
         ms \<leftarrow> slice mask 1 (1 + int packetNumberLength);
         arr1 \<leftarrow> unmask_number (arr[0 := b0']) (qh_hdrLen h) ms;
         key \<leftarrow> hkdfExpandLabel lib secret [] (str ''quic key'') 16;
         iv \<leftarrow> hkdfExpandLabel lib secret [] (str ''quic iv'') 12;
         (d, e, _) \<leftarrow> Buffer_Read ((qh_buffer h)\<lparr>b_v := Some arr1\<rparr>) packetNumberLength;
         case e of
           Some er \<Rightarrow> Some (Inl er)
         | None \<Rightarrow> do {
             let nonce = overwrite (replicate 8 0) (8 - packetNumberLength) d;
             let extHdrLen = qh_hdrLen h + int packetNumberLength;
             data \<leftarrow> slice arr1 extHdrLen (int (qh_packetLen h) + qh_hdrLen h);
             ad \<leftarrow> slice arr1 0 extHdrLen;
             Some (gcm_Open lib key iv nonce data ad)
           }
       }
   }"

subsection \<open>The frames of a packet\<close>

partial_function (option) skip_padding :: "byte \<Rightarrow> Buffer \<Rightarrow> (byte \<times> Buffer) option" where
  "skip_padding frameType buffer =
     (if frameType = 0 \<and> \<not> IsEmpty (Some buffer)
      then do { ((t, _), buffer1) \<leftarrow> ReadByte buffer; skip_padding t buffer1 }
      else Some (frameType, buffer))"

text \<open>\<open>n\<close> integers that nobody looks at.\<close>

fun skip_varints :: "quic_lib \<Rightarrow> nat \<Rightarrow> Buffer \<Rightarrow> (goerr + Buffer) option" where
  "skip_varints lib 0 buffer = Some (Inr buffer)"
| "skip_varints lib (Suc n) buffer = do {
     ((_, e), buffer1) \<leftarrow> varint_Read lib buffer;
     if e \<noteq> None then Some (Inl ErrUnexpectedEOF) else skip_varints lib n buffer1
   }"

text \<open>The ranges of an acknowledgement: two integers each.\<close>

definition ack_frame :: "quic_lib \<Rightarrow> byte \<Rightarrow> Buffer \<Rightarrow> (goerr + Buffer) option" where
  "ack_frame lib frameType buffer = do {
     r1 \<leftarrow> skip_varints lib 2 buffer;
     case r1 of Inl e \<Rightarrow> Some (Inl e) | Inr buffer1 \<Rightarrow> do {
       ((ackRangeCount, e), buffer2) \<leftarrow> varint_Read lib buffer1;
       if e \<noteq> None then Some (Inl ErrUnexpectedEOF)
       else do {
         r2 \<leftarrow> skip_varints lib (1 + 2 * ackRangeCount) buffer2;
         case r2 of Inl e \<Rightarrow> Some (Inl e) | Inr buffer3 \<Rightarrow>
           if frameType = 3 then skip_varints lib 3 buffer3 else Some (Inr buffer3)
       }
     }
   }"

text \<open>
  A piece of the client hello is read into the part of \<open>cryptoDataBuf\<close> that \<open>BytesRange\<close> gives; a negative argument of
  \<open>BytesRange\<close> counts from the end of the buffer.
\<close>

definition crypto_frame :: "quic_lib \<Rightarrow> Buffer \<Rightarrow> Buffer \<Rightarrow> int \<Rightarrow> (goerr + Buffer \<times> Buffer \<times> int) option" where
  "crypto_frame lib buffer cb cryptoLen = do {
     ((offset, e), buffer1) \<leftarrow> varint_Read lib buffer;
     if e \<noteq> None then Some (Inl ErrUnexpectedEOF)
     else do {
       ((n, e2), buffer2) \<leftarrow> varint_Read lib buffer1;
       if e2 \<noteq> None \<or> int n > buf_Len buffer2 then Some (Inl ErrUnexpectedEOF)
       else let cur = i32 (int (offset + n)); off = i32 (int offset)
         in if cryptoLen < cur \<and> Cap (Some cb) < cur then Some (Inl ErrShortBuffer)
            else do {
              (cb1, cryptoLen1) \<leftarrow> (if cryptoLen < cur then map_option (\<lambda>(_, c). (c, cur)) (Extend cb (i32 (cur - cryptoLen))) else Some (cb, cryptoLen));
              dst \<leftarrow> BytesRange cb1 off cur;
              (d, e3, buffer3) \<leftarrow> Buffer_Read buffer2 (length dst);
              if e3 \<noteq> None then Some (Inl ErrUnexpectedEOF)
              else Some (Inr (buffer3, put_at cb1 (i32 (b_start cb1 + (if off < 0 then i32 (off + buf_Len cb1) else off))) d, cryptoLen1))
            }
     }
   }"

definition close_frame :: "quic_lib \<Rightarrow> Buffer \<Rightarrow> (goerr + Buffer) option" where
  "close_frame lib buffer = do {
     r1 \<leftarrow> skip_varints lib 2 buffer;
     case r1 of Inl e \<Rightarrow> Some (Inl e) | Inr buffer1 \<Rightarrow> do {
       ((n, e), buffer2) \<leftarrow> varint_Read lib buffer1;
       if e \<noteq> None then Some (Inl ErrUnexpectedEOF)
       else do {
         ((_, e2), buffer3) \<leftarrow> ReadBytes buffer2 (i32 (int n));
         if e2 \<noteq> None then Some (Inl ErrUnexpectedEOF) else Some (Inr buffer3)
       }
     }
   }"

partial_function (option) quic_frames :: "quic_lib \<Rightarrow> Buffer \<Rightarrow> Buffer \<Rightarrow> int \<Rightarrow> (goerr + Buffer \<times> int) option" where
  "quic_frames lib buffer cb cryptoLen =
     (if IsEmpty (Some buffer) then Some (Inr (cb, cryptoLen))
      else do {
        ((t0, _), buffer0) \<leftarrow> ReadByte buffer;
        (frameType, buffer1) \<leftarrow> skip_padding t0 buffer0;
        if frameType = 0 \<or> frameType = 1 then quic_frames lib buffer1 cb cryptoLen
        else if frameType = 2 \<or> frameType = 3 then do {
          r \<leftarrow> ack_frame lib frameType buffer1;
          case r of Inl e \<Rightarrow> Some (Inl e) | Inr buffer2 \<Rightarrow> quic_frames lib buffer2 cb cryptoLen
        }
        else if frameType = 6 then do {
          r \<leftarrow> crypto_frame lib buffer1 cb cryptoLen;
          case r of Inl e \<Rightarrow> Some (Inl e) | Inr (buffer2, cb1, cryptoLen1) \<Rightarrow> quic_frames lib buffer2 cb1 cryptoLen1
        }
        else if frameType = 0x1c then do {
          r \<leftarrow> close_frame lib buffer1;
          case r of Inl e \<Rightarrow> Some (Inl e) | Inr buffer2 \<Rightarrow> quic_frames lib buffer2 cb cryptoLen
        }
        else Some (Inl errNotQuicInitial)
      })"

declare skip_padding.simps [code] quic_frames.simps [code]

subsection \<open>The sniffer\<close>

partial_function (option) quic_packets :: "quic_lib \<Rightarrow> byte list \<Rightarrow> int \<Rightarrow> Buffer \<Rightarrow> int \<Rightarrow> (goerr + byte list) option" where
  "quic_packets lib arr len cb cryptoLen =
     (if \<not> len > 0 then Some (Inl ErrProtoNeedMoreData)
      else do {
        r \<leftarrow> read_header lib arr len;
        case r of Inl e \<Rightarrow> Some (Inl e) | Inr h \<Rightarrow> do {
          let next = qh_hdrLen h + int (qh_packetLen h);
          rest \<leftarrow> slice arr next (int (length arr));
          if \<not> qh_initial h then quic_packets lib rest (len - next) cb cryptoLen
          else do {
            r2 \<leftarrow> decrypt_packet lib arr h;
            case r2 of Inl e \<Rightarrow> Some (Inl e) | Inr decrypted \<Rightarrow> do {
              r3 \<leftarrow> quic_frames lib (FromBytes decrypted (int (length decrypted))) cb cryptoLen;
              case r3 of Inl e \<Rightarrow> Some (Inl e) | Inr (cb1, cryptoLen1) \<Rightarrow> do {
                hello \<leftarrow> BytesRange cb1 0 cryptoLen1;
                r4 \<leftarrow> ReadClientHello hello;
                case r4 of Inl e \<Rightarrow> quic_packets lib rest (len - next) cb1 cryptoLen1 | Inr d \<Rightarrow> Some (Inr d)
              }
            }
          }
        }
      })"

declare quic_packets.simps [code]

definition SniffQUIC :: "quic_lib \<Rightarrow> byte list \<Rightarrow> int \<Rightarrow> (goerr + byte list) option" where
  "SniffQUIC lib arr len =
     (if len = 0 then Some (Inl ErrNoClue)
      else Option.bind (NewWithSize 32767) (\<lambda>cryptoDataBuf. quic_packets lib arr len cryptoDataBuf 0))"

section \<open>Variable-length integers\<close>

text \<open>
  What the sniffer relies on of \<open>quicvarint.Read\<close>: it reads an integer below \<open>2 ^ 62\<close> back from its encoding and stands behind it. The
  encoding of RFC 9000 (the two top bits of the first byte give the number of bytes) is an instance.
\<close>

locale varint_reader =
  fixes vr :: "Buffer \<Rightarrow> ((nat \<times> goerr option) \<times> Buffer) option"
    and enc :: "nat \<Rightarrow> byte list"
  assumes reads: "buf_inv b \<Longrightarrow> content b = enc v @ rest \<Longrightarrow> v < 2 ^ 62 \<Longrightarrow>
    \<exists>b'. vr b = Some ((v, None), b') \<and> buf_inv b' \<and> content b' = rest"

fun be_bytes :: "nat \<Rightarrow> nat \<Rightarrow> byte list" where
  "be_bytes 0 v = []"
| "be_bytes (Suc k) v = word_of_nat (v div 256 ^ k) # be_bytes k v"

definition rfc_varint :: "nat \<Rightarrow> byte list" where
  "rfc_varint v =
     (let k = (if v < 64 then 0 else if v < 2 ^ 14 then 1 else if v < 2 ^ 30 then 2 else 3); m = 2 ^ k - 1
      in word_of_nat (64 * k + v div 256 ^ m) # be_bytes m v)"

fun rfc_more :: "nat \<Rightarrow> nat \<Rightarrow> Buffer \<Rightarrow> ((nat \<times> goerr option) \<times> Buffer) option" where
  "rfc_more 0 v b = Some ((v, None), b)"
| "rfc_more (Suc n) v b = do {
     ((x, e), b1) \<leftarrow> ReadByte b;
     if e \<noteq> None then Some ((0, e), b1) else rfc_more n (v * 256 + unat x) b1
   }"

definition rfc_varint_Read :: "Buffer \<Rightarrow> ((nat \<times> goerr option) \<times> Buffer) option" where
  "rfc_varint_Read b = do {
     ((x, e), b1) \<leftarrow> ReadByte b;
     if e \<noteq> None then Some ((0, e), b1) else rfc_more (2 ^ (unat x div 64) - 1) (unat x mod 64) b1
   }"

lemma rfc_more_reads:
  "buf_inv b \<Longrightarrow> content b = be_bytes m v @ rest \<Longrightarrow>
    \<exists>b'. rfc_more m a b = Some ((a * 256 ^ m + v mod 256 ^ m, None), b') \<and> buf_inv b' \<and> content b' = rest"
proof (induction m arbitrary: a b)
  case (Suc m)
  let ?x = "word_of_nat (v div 256 ^ m) :: byte"
  have r: "ReadByte b = Some ((?x, None), consume b 1)" using Suc.prems by (simp add: ReadByte_content)
  have c: "buf_inv (consume b 1)" "content (consume b 1) = be_bytes m v @ rest" using Suc.prems by simp_all
  have x: "unat ?x = v div 256 ^ m mod 256" by (simp add: unsigned_of_nat take_bit_eq_mod)
  have "(a * 256 + v div 256 ^ m mod 256) * 256 ^ m + v mod 256 ^ m = a * 256 ^ Suc m + v mod 256 ^ Suc m"
    unfolding power_Suc2 mod_mult2_eq by (simp add: distrib_right)
  then show ?case using Suc.IH [OF c, of "a * 256 + unat ?x"] r x by simp
qed simp

interpretation rfc: varint_reader rfc_varint_Read rfc_varint
proof
  fix b :: Buffer and v :: nat and rest :: "byte list"
  assume b: "buf_inv b" "content b = rfc_varint v @ rest" "v < 2 ^ 62"
  define k where "k = (if v < 64 then 0 else if v < 2 ^ 14 then 1 else if v < 2 ^ 30 then 2 else (3 :: nat))"
  define m where "m = (2 :: nat) ^ k - 1"
  have e: "rfc_varint v = word_of_nat (64 * k + v div 256 ^ m) # be_bytes m v" by (simp add: rfc_varint_def k_def m_def Let_def)
  have q: "v div 256 ^ m < 64" "k < 4" using b(3) unfolding m_def k_def by (auto simp: less_mult_imp_div_less)
  have x: "unat (word_of_nat (64 * k + v div 256 ^ m) :: byte) = 64 * k + v div 256 ^ m" using q by (intro unat_byte) linarith
  have d: "(64 * k + v div 256 ^ m) div 64 = k" "(64 * k + v div 256 ^ m) mod 64 = v div 256 ^ m" using q(1) by simp_all
  have r: "ReadByte b = Some ((word_of_nat (64 * k + v div 256 ^ m), None), consume b 1)" using b e by (simp add: ReadByte_content)
  have c: "buf_inv (consume b 1)" "content (consume b 1) = be_bytes m v @ rest" using b e by simp_all
  show "\<exists>b'. rfc_varint_Read b = Some ((v, None), b') \<and> buf_inv b' \<and> content b' = rest"
  proof -
    obtain b' where "rfc_more m (v div 256 ^ m) (consume b 1) = Some ((v, None), b')" "buf_inv b'" "content b' = rest"
      using rfc_more_reads [OF c, of "v div 256 ^ m"] unfolding div_mult_mod_eq by blast
    moreover have "rfc_varint_Read b = rfc_more m (v div 256 ^ m) (consume b 1)"
      unfolding rfc_varint_Read_def r m_def [symmetric] by (simp only: bind.simps prod.case x d m_def [symmetric] simp_thms if_False)
    ultimately show ?thesis by simp
  qed
qed

section \<open>Reassembly of the client hello\<close>

datatype qframe = Padding | Ping | Crypto nat "byte list"

fun enc_frame :: "(nat \<Rightarrow> byte list) \<Rightarrow> qframe \<Rightarrow> byte list" where
  "enc_frame enc Padding = [0]"
| "enc_frame enc Ping = [1]"
| "enc_frame enc (Crypto off d) = 6 # enc off @ enc (length d) @ d"

fun qframe_ok :: "qframe \<Rightarrow> bool" where
  "qframe_ok (Crypto off d) \<longleftrightarrow> d \<noteq> [] \<and> off + length d \<le> 32767"
| "qframe_ok _ \<longleftrightarrow> True"

text \<open>What is known of the stream after a frame: the gap in front of the piece holds zeros.\<close>

fun put_frame :: "qframe \<Rightarrow> byte list \<Rightarrow> byte list" where
  "put_frame (Crypto off d) c = overwrite (c @ replicate (off + length d - length c) 0) off d"
| "put_frame _ c = c"

definition crypto_ok :: "Buffer \<Rightarrow> bool" where
  "crypto_ok cb \<longleftrightarrow> buf_inv cb \<and> b_start cb = 0 \<and> b_len cb = 32767"

lemma crypto_ok_end: "crypto_ok cb \<Longrightarrow> b_end cb = int (length (content cb)) \<and> length (content cb) + room cb = 32767"
  using int_length_content [of cb] room_bound [of cb] by (auto simp: crypto_ok_def)

text \<open>The buffer after \<open>Extend\<close>, if it has to grow.\<close>

definition grown :: "Buffer \<Rightarrow> nat \<Rightarrow> Buffer" where
  "grown cb n = append_to cb (replicate (n - length (content cb)) 0)"

lemma grown_ok:
  assumes "crypto_ok cb" "n \<le> 32767"
  shows "crypto_ok (grown cb n) \<and> content (grown cb n) = content cb @ replicate (n - length (content cb)) 0"
proof -
  have "n - length (content cb) \<le> room cb" using crypto_ok_end [OF assms(1)] assms(2) by linarith
  then show ?thesis using assms(1) by (simp add: grown_def crypto_ok_def)
qed

lemma crypto_write:
  assumes "crypto_ok cb" "off + length d \<le> length (content cb)"
  shows "crypto_ok (put_at cb (int off) d) \<and> content (put_at cb (int off) d) = overwrite (content cb) off d
    \<and> BytesRange cb (int off) (int (off + length d)) = Some (take (length d) (drop off (content cb)))"
proof -
  have e: "buf_inv cb" "b_start cb = 0" "b_len cb = 32767" "b_end cb = int (length (content cb))"
    using assms(1) crypto_ok_end by (auto simp: crypto_ok_def)
  have p: "content (put_at cb (int off) d) = overwrite (content cb) off d" "buf_inv (put_at cb (int off) d)"
    "b_start (put_at cb (int off) d) = b_start cb"
    using put_at_content [of cb "int off" d] e assms(2) by simp_all
  moreover have "b_len (put_at cb (int off) d) = b_len cb" by (simp add: put_at_def)
  ultimately show ?thesis using e BytesRange_content [OF e(1), of off "off + length d"] assms(2) by (simp add: crypto_ok_def)
qed

lemma crypto_content_bound: "crypto_ok cb \<Longrightarrow> length (content cb) \<le> 32767"
  using crypto_ok_end [of cb] by linarith

context varint_reader
begin

lemma crypto_frame_step:
  assumes "varint_Read lib = vr" "buf_inv b" "content b = enc off @ enc (length d) @ d @ rest" "qframe_ok (Crypto off d)" "crypto_ok cb"
  shows "\<exists>b' cb'. crypto_frame lib b cb (int (length (content cb))) = Some (Inr (b', cb', int (length (content cb'))))
    \<and> buf_inv b' \<and> content b' = rest \<and> crypto_ok cb' \<and> content cb' = put_frame (Crypto off d) (content cb)"
proof -
  have ok: "d \<noteq> []" "off + length d \<le> 32767" using assms(4) by simp_all
  obtain b1 where b1: "vr b = Some ((off, None), b1)" "buf_inv b1" "content b1 = enc (length d) @ d @ rest"
    using reads [OF assms(2), of off "enc (length d) @ d @ rest"] assms(3) ok by auto
  obtain b2 where b2: "vr b1 = Some ((length d, None), b2)" "buf_inv b2" "content b2 = d @ rest"
    using reads [OF b1(2), of "length d" "d @ rest"] b1(3) ok by auto
  let ?n = "off + length d"
  let ?c = "grown cb ?n"
  have g: "crypto_ok ?c" "content ?c = content cb @ replicate (?n - length (content cb)) 0" using grown_ok [OF assms(5) ok(2)] by simp_all
  have l: "length (content cb) \<le> 32767" by (rule crypto_content_bound [OF assms(5)])
  have cur: "i32 (int ?n) = int ?n" "i32 (int off) = int off" using ok(2) by simp_all
  have cap: "Cap (Some cb) = 32767" using assms(5) by (simp add: Cap_def crypto_ok_def)
  have ext: "(if int (length (content cb)) < int ?n
       then map_option (\<lambda>(_, c). (c, int ?n)) (Extend cb (i32 (int ?n - int (length (content cb))))) else Some (cb, int (length (content cb))))
     = Some (?c, int (length (content ?c)))"
  proof (cases "length (content cb) < ?n")
    case True
    define k where "k = ?n - length (content cb)"
    have k: "int ?n - int (length (content cb)) = int k" using True by (simp add: k_def)
    have "k \<le> room cb" using crypto_ok_end [OF assms(5)] ok(2) unfolding k_def by linarith
    then have "Extend cb (int k) = Some ((b_end cb, b_end cb + int k), ?c)"
      using assms(5) by (simp add: Extend_room crypto_ok_def grown_def k_def)
    moreover have "i32 (int k) = int k" using ok(2) by (simp add: k_def)
    ultimately show ?thesis unfolding k using True g(2) by simp
  next
    case False
    have z: "append_to cb [] = cb"
      using assms(5) by (cases cb, cases "b_v cb") (auto simp: append_to_def overwrite_def crypto_ok_def)
    have "?c = cb" unfolding grown_def using False z by simp
    then show ?thesis using False by simp
  qed
  have w: "crypto_ok (put_at ?c (int off) d)" "content (put_at ?c (int off) d) = overwrite (content ?c) off d"
    "BytesRange ?c (int off) (int ?n) = Some (take (length d) (drop off (content ?c)))"
    using crypto_write [OF g(1), of off d] g(2) by simp_all
  have rl: "length (take (length d) (drop off (content ?c))) = length d" using g(2) by simp
  obtain b3 where b3: "Buffer_Read b2 (length d) = Some (d, None, b3)" "buf_inv b3" "content b3 = rest"
    using Buffer_Read_content [OF b2(2), of "length d"] buffer_rd.read_ok [OF b2(2), of "length d"] b2(3) ok(1) by auto
  have len: "\<not> int (length d) > buf_Len b2" using b2 by (simp add: buf_Len_content)
  have st: "b_start ?c = 0" using g(1) by (simp add: crypto_ok_def)
  have "crypto_frame lib b cb (int (length (content cb))) = Some (Inr (b3, put_at ?c (int off) d, int (length (content ?c))))"
    unfolding crypto_frame_def assms(1) using b1(1) b2(1) len cur cap ext w(3) rl b3(1) st ok(2)
    by (simp add: Let_def del: of_nat_add)
  moreover have "length (overwrite (content ?c) off d) = length (content ?c)" using g(2) by (intro length_overwrite) simp
  ultimately have "crypto_frame lib b cb (int (length (content cb)))
      = Some (Inr (b3, put_at ?c (int off) d, int (length (content (put_at ?c (int off) d)))))" using w(2) by simp
  moreover have "content (put_at ?c (int off) d) = put_frame (Crypto off d) (content cb)" using w(2) g(2) by simp
  ultimately show ?thesis using b3(2,3) w(1) by blast
qed

lemma quic_frames_step:
  assumes "buf_inv b" "content b = x # rest" "x \<noteq> 0"
  shows "quic_frames lib b cb cl =
    (if x = 1 then quic_frames lib (consume b 1) cb cl
     else if x = 2 \<or> x = 3 then Option.bind (ack_frame lib x (consume b 1)) (\<lambda>r.
       case r of Inl e \<Rightarrow> Some (Inl e) | Inr b2 \<Rightarrow> quic_frames lib b2 cb cl)
     else if x = 6 then Option.bind (crypto_frame lib (consume b 1) cb cl) (\<lambda>r.
       case r of Inl e \<Rightarrow> Some (Inl e) | Inr (b2, cb1, cl1) \<Rightarrow> quic_frames lib b2 cb1 cl1)
     else if x = 0x1c then Option.bind (close_frame lib (consume b 1)) (\<lambda>r.
       case r of Inl e \<Rightarrow> Some (Inl e) | Inr b2 \<Rightarrow> quic_frames lib b2 cb cl)
     else Some (Inl errNotQuicInitial))"
proof -
  have "ReadByte b = Some ((x, None), consume b 1)" "\<not> IsEmpty (Some b)" using assms(1,2) by (simp_all add: ReadByte_content IsEmpty_content)
  moreover have "skip_padding x (consume b 1) = Some (x, consume b 1)" using assms(3) by (subst skip_padding.simps) simp
  ultimately show ?thesis using assms(3) by (subst quic_frames.simps) simp
qed

lemma quic_frames_padding:
  assumes "buf_inv b" "content b = 0 # rest"
  shows "quic_frames lib b cb cl = quic_frames lib (consume b 1) cb cl"
proof -
  let ?b = "consume b 1"
  have b: "buf_inv ?b" "content ?b = rest" using assms by simp_all
  have r: "ReadByte b = Some ((0, None), ?b)" "\<not> IsEmpty (Some b)" using assms by (simp_all add: ReadByte_content IsEmpty_content)
  show ?thesis
  proof (cases rest)
    case Nil
    then have "skip_padding 0 ?b = Some (0, ?b)" using b by (subst skip_padding.simps) (simp add: IsEmpty_content)
    then show ?thesis using r by (subst quic_frames.simps) simp
  next
    case (Cons y ys)
    then have n: "\<not> IsEmpty (Some ?b)" "ReadByte ?b = Some ((y, None), consume ?b 1)" using b by (simp_all add: ReadByte_content IsEmpty_content)
    then have "skip_padding 0 ?b = skip_padding y (consume ?b 1)" by (subst skip_padding.simps) simp
    then show ?thesis using r n by (subst (1 2) quic_frames.simps) simp
  qed
qed

lemma quic_frames_all:
  assumes "varint_Read lib = vr"
  shows "buf_inv b \<Longrightarrow> content b = concat (map (enc_frame enc) fs) \<Longrightarrow> list_all qframe_ok fs \<Longrightarrow> crypto_ok cb \<Longrightarrow>
    \<exists>cb'. quic_frames lib b cb (int (length (content cb))) = Some (Inr (cb', int (length (content cb'))))
      \<and> crypto_ok cb' \<and> content cb' = fold put_frame fs (content cb)"
proof (induction fs arbitrary: b cb)
  case Nil
  then show ?case by (subst quic_frames.simps) (simp add: IsEmpty_content)
next
  case (Cons f fs)
  let ?rest = "concat (map (enc_frame enc) fs)"
  show ?case
  proof (cases f)
    case Padding
    then have "content b = 0 # ?rest" "content (consume b 1) = ?rest" using Cons.prems by simp_all
    then show ?thesis using Cons.IH [of "consume b 1" cb] Cons.prems Padding quic_frames_padding [OF Cons.prems(1)] by simp
  next
    case Ping
    then have c: "content b = 1 # ?rest" "content (consume b 1) = ?rest" using Cons.prems by simp_all
    then have "quic_frames lib b cb cl = quic_frames lib (consume b 1) cb cl" for cl
      using quic_frames_step [OF Cons.prems(1) c(1)] by simp
    then show ?thesis using Cons.IH [of "consume b 1" cb] Cons.prems Ping c by simp
  next
    case (Crypto off d)
    then have c: "content b = 6 # enc off @ enc (length d) @ d @ ?rest" using Cons.prems by simp
    then have b1: "buf_inv (consume b 1)" "content (consume b 1) = enc off @ enc (length d) @ d @ ?rest" using Cons.prems(1) by simp_all
    obtain b2 cb2 where n: "crypto_frame lib (consume b 1) cb (int (length (content cb))) = Some (Inr (b2, cb2, int (length (content cb2))))"
      "buf_inv b2" "content b2 = ?rest" "crypto_ok cb2" "content cb2 = put_frame (Crypto off d) (content cb)"
      using crypto_frame_step [OF assms b1 _ Cons.prems(4)] Cons.prems(3) Crypto by auto
    have "quic_frames lib b cb (int (length (content cb))) = quic_frames lib b2 cb2 (int (length (content cb2)))"
      using quic_frames_step [OF Cons.prems(1) c] n(1) by simp
    then show ?thesis using Cons.IH [OF n(2,3) _ n(4)] Cons.prems(3) Crypto n(5) by simp
  qed
qed

end

text \<open>Pieces of a stream in any order, possibly overlapping, make up the stream where they cover it.\<close>

fun piece_of :: "byte list \<Rightarrow> qframe \<Rightarrow> bool" where
  "piece_of s (Crypto off d) \<longleftrightarrow> off + length d \<le> length s \<and> d = take (length d) (drop off s)"
| "piece_of s _ \<longleftrightarrow> True"

fun covers :: "qframe \<Rightarrow> nat \<Rightarrow> bool" where
  "covers (Crypto off d) i \<longleftrightarrow> off \<le> i \<and> i < off + length d"
| "covers _ i \<longleftrightarrow> False"

definition agrees :: "byte list \<Rightarrow> nat set \<Rightarrow> byte list \<Rightarrow> bool" where
  "agrees s known c \<longleftrightarrow> length c \<le> length s \<and> (\<forall>i \<in> known. i < length c \<and> c ! i = s ! i)"

lemma nth_overwrite:
  "lo + length d \<le> length xs \<Longrightarrow> i < length xs \<Longrightarrow> overwrite xs lo d ! i = (if lo \<le> i \<and> i < lo + length d then d ! (i - lo) else xs ! i)"
  by (auto simp: overwrite_def nth_append)

lemma put_frame_agrees:
  assumes "agrees s known c" "piece_of s f"
  shows "agrees s (known \<union> {i. covers f i}) (put_frame f c)"
proof (cases f)
  case (Crypto off d)
  let ?c = "c @ replicate (off + length d - length c) 0"
  have l: "off + length d \<le> length ?c" "length (overwrite ?c off d) = length ?c" by (simp, rule length_overwrite, simp)
  have len: "length c \<le> length s" "off + length d \<le> length s" using assms Crypto by (simp_all add: agrees_def)
  have p: "d ! j = s ! (off + j)" if "j < length d" for j
  proof -
    have "d ! j = take (length d) (drop off s) ! j" using assms(2) Crypto by simp
    then show ?thesis using that len(2) by simp
  qed
  have k: "i < length c \<and> c ! i = s ! i" if "i \<in> known" for i using assms(1) that by (simp add: agrees_def)
  have "i < length ?c \<and> overwrite ?c off d ! i = s ! i" if "i \<in> known \<or> off \<le> i \<and> i < off + length d" for i
  proof -
    have i: "i < length ?c" using that k [of i] by auto
    show ?thesis using i that k [of i] p [of "i - off"] by (auto simp: nth_overwrite [OF l(1) i] nth_append)
  qed
  then show ?thesis unfolding agrees_def Crypto using len l(2) by auto
qed (use assms in \<open>simp_all add: agrees_def\<close>)

lemma fold_put_agrees:
  "agrees s known c \<Longrightarrow> list_all (piece_of s) fs \<Longrightarrow> agrees s (known \<union> {i. \<exists>f \<in> set fs. covers f i}) (fold put_frame fs c)"
proof (induction fs arbitrary: known c)
  case (Cons f fs)
  have "agrees s (known \<union> {i. covers f i}) (put_frame f c)" using Cons.prems by (intro put_frame_agrees) simp_all
  moreover have "known \<union> {i. covers f i} \<union> {i. \<exists>f \<in> set fs. covers f i} = known \<union> {i. \<exists>f \<in> set (f # fs). covers f i}" by auto
  ultimately show ?case using Cons.IH [of "known \<union> {i. covers f i}" "put_frame f c"] Cons.prems by simp
qed simp

lemma agrees_all: "agrees s {..< length s} c \<Longrightarrow> c = s"
proof -
  assume a: "agrees s {..< length s} c"
  have "length c = length s"
  proof (cases s)
    case (Cons x xs)
    then have "length s - 1 < length c" using a by (auto simp: agrees_def)
    moreover have "length c \<le> length s" using a by (simp add: agrees_def)
    ultimately show ?thesis by linarith
  qed (use a in \<open>simp add: agrees_def\<close>)
  then show ?thesis using a by (intro nth_equalityI) (auto simp: agrees_def)
qed

section \<open>Properties\<close>

text \<open>
  C34. The frames of a decrypted packet may carry the client hello in pieces of any size, in any order and with overlaps, between
  padding and pings: if the pieces cover a stream of at most 32767 bytes, the sniffer ends up with exactly the bytes of that stream.
\<close>

theorem quic_hello_reassembled:
  assumes "varint_Read lib = rfc_varint_Read" "list_all qframe_ok fs" "list_all (piece_of s) fs"
    and "\<forall>i < length s. \<exists>f \<in> set fs. covers f i" "length (concat (map (enc_frame rfc_varint) fs)) < 2147483648"
  shows "\<exists>cb cb'. NewWithSize 32767 = Some cb
    \<and> quic_frames lib (FromBytes (concat (map (enc_frame rfc_varint) fs)) (int (length (concat (map (enc_frame rfc_varint) fs))))) cb 0
      = Some (Inr (cb', int (length s)))
    \<and> BytesRange cb' 0 (int (length s)) = Some s"
proof -
  let ?p = "concat (map (enc_frame rfc_varint) fs)"
  obtain cb where cb: "NewWithSize 32767 = Some cb" "crypto_ok cb" "content cb = []"
    by (simp add: NewWithSize_def crypto_ok_def buf_inv_def content_def b_arr_def)
  obtain cb' where q: "quic_frames lib (FromBytes ?p (int (length ?p))) cb 0 = Some (Inr (cb', int (length (content cb'))))"
    "crypto_ok cb'" "content cb' = fold put_frame fs []"
    using rfc.quic_frames_all [OF assms(1) _ _ assms(2) cb(2), of "FromBytes ?p (int (length ?p))"] FromBytes_inv [OF assms(5)] cb(3) by auto
  have "agrees s ({} \<union> {i. \<exists>f \<in> set fs. covers f i}) (content cb')"
    unfolding q(3) using assms(3) by (intro fold_put_agrees) (simp_all add: agrees_def)
  then have "agrees s {..< length s} (content cb')" using assms(4) by (auto simp: agrees_def)
  then have s: "content cb' = s" by (rule agrees_all)
  have "BytesRange cb' 0 (int (length s)) = Some s"
    using BytesRange_content [of cb' 0 "length s"] q(2) s by (simp add: crypto_ok_def)
  then show ?thesis using cb(1) q(1) s by auto
qed

definition plain_lib :: quic_lib where
  "plain_lib = \<lparr>hkdf_extract = (\<lambda>_ _. []), hkdf_expand = (\<lambda>_ _ n. replicate n 0), aes_NewCipher = (\<lambda>_. Inr (\<lambda>_. replicate 16 0)),
     gcm_Open = (\<lambda>_ _ _ d _. Inr d), varint_Read = rfc_varint_Read\<rparr>"

theorem quic_hello_reassembled_witness:
  "\<exists>cb cb'. NewWithSize 32767 = Some cb
    \<and> quic_frames plain_lib (FromBytes (concat (map (enc_frame rfc_varint) [Crypto 2 [3, 4], Padding, Crypto 0 [1, 2, 3]]))
         (int (length (concat (map (enc_frame rfc_varint) [Crypto 2 [3, 4], Padding, Crypto 0 [1, 2, 3]]))))) cb 0
      = Some (Inr (cb', int (length [1, 2, 3, 4 :: byte]))) \<and> BytesRange cb' 0 (int (length [1, 2, 3, 4 :: byte])) = Some [1, 2, 3, 4]"
proof (rule quic_hello_reassembled)
  show "varint_Read plain_lib = rfc_varint_Read" by (simp add: plain_lib_def)
  show "\<forall>i < length [1, 2, 3, 4 :: byte]. \<exists>f \<in> set [Crypto 2 [3, 4], Padding, Crypto 0 [1, 2, 3]]. covers f i" by auto
  show "length (concat (map (enc_frame rfc_varint) [Crypto 2 [3, 4], Padding, Crypto 0 [1, 2, 3]])) < 2147483648"
    by (simp add: rfc_varint_def Let_def)
qed simp_all


lemma be_bytes_7: "be_bytes 7 v = map (\<lambda>k. word_of_nat (v div 256 ^ k)) [6, 5, 4, 3, 2, 1, 0]"
proof -
  have "(7 :: nat) = Suc (Suc (Suc (Suc (Suc (Suc (Suc 0))))))" by simp
  then show ?thesis by (simp only: be_bytes.simps) simp
qed


end
