(* ===== verification/Sniff_Loop.thy ===== *)
theory Sniff_Loop
  imports Quic_Sniff Buf_IO
begin

text \<open>
  Sniffing in \<open>app/dispatcher\<close>: the reader that puts back what was sniffed (\<open>cachedReader\<close> of \<open>default.go\<close>) over a reader with a
  timeout (\<open>TimeoutWrapperReader\<close> of \<open>common/buf/io.go\<close>), the list of sniffers (\<open>sniffer.go\<close>, \<open>fakednssniffer.go\<close>) and the loop
  \<open>sniffer\<close> that tries them while data arrives.
\<close>

section \<open>Readers with a timeout\<close>

type_synonym 'r mb_read_timeout = "'r \<Rightarrow> int \<Rightarrow> pool \<Rightarrow> (MultiBuffer \<times> goerr option \<times> 'r \<times> pool) option"

text \<open>
  \<open>TimeoutWrapperReader\<close>: \<open>tw_done\<close> is the channel that the reading goroutine closes. The goroutine may finish at any moment
  between its start and the moment somebody waits for it; \<open>tw_sched\<close> says, for each call with a timeout, whether it finishes
  before the call decides, and whether the call takes the expired timer (a select with both channels ready takes either).
\<close>

datatype chan = chan_nil | chan_open | chan_closed

record 'r TimeoutWrapperReader =
  tw_Reader :: 'r
  tw_Counter :: counter
  tw_mb :: MultiBuffer
  tw_err :: "goerr option"
  tw_done :: chan
  tw_sched :: "(bool \<times> bool) list"

text \<open>The goroutine: one read of the wrapped reader, then the channel is closed.\<close>

definition TW_go :: "'r mb_read \<Rightarrow> 'r TimeoutWrapperReader \<Rightarrow> pool \<Rightarrow> ('r TimeoutWrapperReader \<times> pool) option" where
  "TW_go rmb tw p =
     (if tw_done tw = chan_open
      then map_option (\<lambda>(mb, e, r', p'). (tw\<lparr>tw_mb := mb, tw_err := e, tw_Reader := r', tw_done := chan_closed\<rparr>, p')) (rmb (tw_Reader tw) p)
      else Some (tw, p))"

definition TW_deliver :: "'r TimeoutWrapperReader \<Rightarrow> MultiBuffer \<times> goerr option \<times> 'r TimeoutWrapperReader" where
  "TW_deliver tw = (tw_mb tw, tw_err tw, tw\<lparr>tw_done := chan_nil, tw_Counter := counter_Add (tw_Counter tw) (MB_Len (tw_mb tw))\<rparr>)"

definition TW_ReadMultiBuffer :: "'r mb_read \<Rightarrow> 'r TimeoutWrapperReader mb_read" where
  "TW_ReadMultiBuffer rmb tw p =
     (if tw_done tw \<noteq> chan_nil
      then map_option (\<lambda>(tw1, p1). case TW_deliver tw1 of (mb, e, tw2) \<Rightarrow> (mb, e, tw2, p1)) (TW_go rmb tw p)
      else map_option (\<lambda>(mb, e, r', p').
             (mb, e, tw\<lparr>tw_mb := mb, tw_err := e, tw_Reader := r', tw_Counter := counter_Add (tw_Counter tw) (MB_Len mb)\<rparr>, p'))
             (rmb (tw_Reader tw) p))"

definition TW_ReadMultiBufferTimeout :: "'r mb_read \<Rightarrow> 'r TimeoutWrapperReader mb_read_timeout" where
  "TW_ReadMultiBufferTimeout rmb tw duration p =
     (let tw0 = (if tw_done tw = chan_nil then tw\<lparr>tw_done := chan_open\<rparr> else tw);
          (finished, expired) = (case tw_sched tw of [] \<Rightarrow> (True, False) | x # _ \<Rightarrow> x);
          tw1 = tw0\<lparr>tw_sched := tl (tw_sched tw)\<rparr>
      in map_option (\<lambda>(tw2, p1).
           if tw_done tw2 = chan_closed \<and> \<not> expired
           then (case TW_deliver tw2 of (mb, e, tw3) \<Rightarrow> (mb, e, tw3, p1))
           else ([], None, tw2, p1))
         (if finished then TW_go rmb tw1 p else Some (tw1, p)))"

section \<open>The cached reader\<close>

record 'r cachedReader =
  cr_reader :: 'r
  cr_cache :: MultiBuffer

text \<open>The buffer \<open>b\<close> holds a copy of the beginning of the cache afterwards, as much as fits.\<close>

definition CR_Cache ::
  "'r mb_read_timeout \<Rightarrow> 'r cachedReader \<Rightarrow> Buffer \<Rightarrow> int \<Rightarrow> pool \<Rightarrow> (goerr option \<times> 'r cachedReader \<times> Buffer \<times> pool) option" where
  "CR_Cache rmt r b deadline p =
     Option.bind (rmt (cr_reader r) deadline p) (\<lambda>(mb, e, r', p').
       if e \<noteq> None then Some (e, r\<lparr>cr_reader := r'\<rparr>, b, p')
       else let c = (if \<not> MB_IsEmpty mb then fst (MergeMulti (cr_cache r) mb) else cr_cache r)
         in Option.bind (Extend (Clear b) (min (MB_Len c) (Cap (Some b)))) (\<lambda>((lo, hi), b1).
              Option.bind (MB_Copy c (nat (hi - lo))) (\<lambda>d.
                Option.bind (Resize (put_at b1 lo d) 0 (i32 (int (length d)))) (\<lambda>b2.
                  Some (None, \<lparr>cr_reader = r', cr_cache = c\<rparr>, b2, p')))))"

definition CR_readInternal :: "'r cachedReader \<Rightarrow> MultiBuffer option \<times> 'r cachedReader" where
  "CR_readInternal r = (if \<not> MB_IsEmpty (cr_cache r) then (Some (cr_cache r), r\<lparr>cr_cache := []\<rparr>) else (None, r))"

definition CR_ReadMultiBuffer :: "'r mb_read \<Rightarrow> 'r cachedReader mb_read" where
  "CR_ReadMultiBuffer rmb r p =
     (case CR_readInternal r of
        (Some mb, r1) \<Rightarrow> Some (mb, None, r1, p)
      | (None, r1) \<Rightarrow> map_option (\<lambda>(mb, e, r', p'). (mb, e, r1\<lparr>cr_reader := r'\<rparr>, p')) (rmb (cr_reader r1) p))"

definition CR_ReadMultiBufferTimeout :: "'r mb_read_timeout \<Rightarrow> 'r cachedReader mb_read_timeout" where
  "CR_ReadMultiBufferTimeout rmt r timeout p =
     (case CR_readInternal r of
        (Some mb, r1) \<Rightarrow> Some (mb, None, r1, p)
      | (None, r1) \<Rightarrow> map_option (\<lambda>(mb, e, r', p'). (mb, e, r1\<lparr>cr_reader := r'\<rparr>, p')) (rmt (cr_reader r1) timeout p))"

text \<open>\<open>interrupt\<close> is \<open>Interrupt\<close> of the wrapped reader if that is a pipe, and nothing otherwise.\<close>

definition CR_Interrupt :: "('r \<Rightarrow> 'r) \<Rightarrow> 'r cachedReader \<Rightarrow> pool \<Rightarrow> 'r cachedReader \<times> pool" where
  "CR_Interrupt interrupt r p =
     (case ReleaseMulti (cr_cache r) p of (c, p') \<Rightarrow> (r\<lparr>cr_cache := c, cr_reader := interrupt (cr_reader r)\<rparr>, p'))"

section \<open>Sniffers\<close>

datatype SniffResult =
    HTTPResult gostring | TLSResult gostring | BittorrentResult | QUICResult gostring
  | fakeDNSSniffResult gostring
  | DNSThenOthersSniffResult gostring gostring
  | compositeResult SniffResult SniffResult

fun SR_Protocol :: "SniffResult \<Rightarrow> gostring" where
  "SR_Protocol (HTTPResult d) = str ''http1''"
| "SR_Protocol (TLSResult d) = str ''tls''"
| "SR_Protocol BittorrentResult = str ''bittorrent''"
| "SR_Protocol (QUICResult d) = str ''quic''"
| "SR_Protocol (fakeDNSSniffResult d) = str ''fakedns''"
| "SR_Protocol (DNSThenOthersSniffResult d q) = str ''fakedns+others''"
| "SR_Protocol (compositeResult d q) = SR_Protocol q"

fun SR_Domain :: "SniffResult \<Rightarrow> gostring" where
  "SR_Domain (HTTPResult d) = d"
| "SR_Domain (TLSResult d) = d"
| "SR_Domain BittorrentResult = []"
| "SR_Domain (QUICResult d) = d"
| "SR_Domain (fakeDNSSniffResult d) = d"
| "SR_Domain (DNSThenOthersSniffResult d q) = d"
| "SR_Domain (compositeResult d q) = SR_Domain d"

text \<open>The methods only some results have, as options.\<close>

fun ProtocolForDomainResult :: "SniffResult \<Rightarrow> gostring option" where
  "ProtocolForDomainResult (compositeResult d q) = Some (SR_Protocol d)"
| "ProtocolForDomainResult _ = None"

definition HasPrefix :: "gostring \<Rightarrow> gostring \<Rightarrow> bool" where
  "HasPrefix s pre \<longleftrightarrow> take (length pre) s = pre"

fun IsProtoSubsetOf :: "SniffResult \<Rightarrow> gostring \<Rightarrow> bool option" where
  "IsProtoSubsetOf (DNSThenOthersSniffResult d q) name = Some (HasPrefix name q)"
| "IsProtoSubsetOf _ name = None"

definition CompositeResult :: "SniffResult \<Rightarrow> SniffResult \<Rightarrow> SniffResult" where
  "CompositeResult domainResult protocolResult = compositeResult domainResult protocolResult"

text \<open>
  A payload is a slice, its array up to the capacity and its length; nil is \<open>None\<close>. The context is what the sniffers take from it, the
  target of the connection. A sniffer may write into the payload (the QUIC sniffer decrypts in place), so it gives the payload
  back.
\<close>

type_synonym payload = "(byte list \<times> nat) option"
type_synonym protocolSniffer = "Destination \<Rightarrow> payload \<Rightarrow> (SniffResult option \<times> goerr option \<times> payload) option"

record protocolSnifferWithMetadata =
  ps_protocolSniffer :: protocolSniffer
  ps_metadataSniffer :: bool
  ps_network :: Network

definition payload_bytes :: "payload \<Rightarrow> byte list" where
  "payload_bytes x = (case x of None \<Rightarrow> [] | Some (a, n) \<Rightarrow> take n a)"

definition sniff_with :: "('h \<Rightarrow> SniffResult) \<Rightarrow> (payload \<Rightarrow> payload) \<Rightarrow> (payload \<Rightarrow> (goerr + 'h) option) \<Rightarrow> protocolSniffer" where
  "sniff_with mk left f c b = map_option (\<lambda>r. case r of Inl e \<Rightarrow> (None, Some e, left b) | Inr h \<Rightarrow> (Some (mk h), None, left b)) (f b)"

text \<open>
  The fake DNS engine, if the instance has one: the domain behind a fake address, and, for an engine that implements it, the
  test for the pool of fake addresses.
\<close>

record fakeDNSEngine =
  GetDomainFromFakeDNS :: "Address option \<Rightarrow> gostring"
  IsIPInIPPool :: "(Address option \<Rightarrow> bool) option"

definition newFakeDNSSniffer :: "fakeDNSEngine \<Rightarrow> protocolSnifferWithMetadata" where
  "newFakeDNSSniffer eng =
     \<lparr>ps_protocolSniffer = (\<lambda>target b.
        if d_Network target = Network_TCP \<or> d_Network target = Network_UDP
        then let d = GetDomainFromFakeDNS eng (d_Address target)
          in if d \<noteq> [] then Some (Some (fakeDNSSniffResult d), None, b) else Some (None, Some ErrNoClue, b)
        else Some (None, Some ErrNoClue, b)),
      ps_metadataSniffer = True, ps_network = Network_Unknown\<rparr>"

fun others_loop :: "protocolSnifferWithMetadata list \<Rightarrow> protocolSniffer" where
  "others_loop [] target b = Some (None, Some ErrNoClue, b)"
| "others_loop (v # vs) target b =
     (if ps_metadataSniffer v \<or> b \<noteq> None
      then Option.bind (ps_protocolSniffer v target b) (\<lambda>(r, e, b').
        if e = None then Option.bind r (\<lambda>res. Some (Some (DNSThenOthersSniffResult (SR_Domain res) (SR_Protocol res)), None, b'))
        else others_loop vs target b')
      else others_loop vs target b)"

definition newFakeDNSThenOthers ::
  "protocolSnifferWithMetadata \<Rightarrow> fakeDNSEngine \<Rightarrow> protocolSnifferWithMetadata list \<Rightarrow> protocolSnifferWithMetadata" where
  "newFakeDNSThenOthers fakeDNSSniffer eng others =
     \<lparr>ps_protocolSniffer = (\<lambda>target b.
        Option.bind (ps_protocolSniffer fakeDNSSniffer target b) (\<lambda>(r, e, b').
          if e = None then Some (r, None, b')
          else (case IsIPInIPPool eng of
                  None \<Rightarrow> Some (None, Some ErrNoClue, b')
                | Some inPool \<Rightarrow>
                    if \<not> inPool (d_Address target) then Some (None, Some ErrNoClue, b') else others_loop others target b'))),
      ps_metadataSniffer = False, ps_network = Network_Unknown\<rparr>"

text \<open>
  What the sniffers take from outside: \<open>strings.ToLower\<close>, the clock, the library of the QUIC sniffer, and what the QUIC sniffer leaves of
  the payload.
\<close>

record sniff_env =
  se_lower :: "gostring \<Rightarrow> gostring"
  se_now :: int
  se_quic :: quic_lib
  se_quic_left :: "payload \<Rightarrow> payload"

definition basic_sniffers :: "sniff_env \<Rightarrow> protocolSnifferWithMetadata list" where
  "basic_sniffers env =
     [\<lparr>ps_protocolSniffer = sniff_with HTTPResult id (\<lambda>b. SniffHTTP (se_lower env) (payload_bytes b)), ps_metadataSniffer = False, ps_network = Network_TCP\<rparr>,
      \<lparr>ps_protocolSniffer = sniff_with TLSResult id (\<lambda>b. SniffTLS (payload_bytes b)), ps_metadataSniffer = False, ps_network = Network_TCP\<rparr>,
      \<lparr>ps_protocolSniffer = sniff_with (\<lambda>_. BittorrentResult) id (\<lambda>b. SniffBittorrent (payload_bytes b)), ps_metadataSniffer = False, ps_network = Network_TCP\<rparr>,
      \<lparr>ps_protocolSniffer = sniff_with QUICResult (se_quic_left env)
         (\<lambda>b. case b of None \<Rightarrow> SniffQUIC (se_quic env) [] 0 | Some (a, n) \<Rightarrow> SniffQUIC (se_quic env) a (int n)),
       ps_metadataSniffer = False, ps_network = Network_UDP\<rparr>,
      \<lparr>ps_protocolSniffer = sniff_with (\<lambda>_. BittorrentResult) id (\<lambda>b. SniffUTP (se_now env) (payload_bytes b)), ps_metadataSniffer = False, ps_network = Network_UDP\<rparr>]"

definition NewSniffer :: "sniff_env \<Rightarrow> fakeDNSEngine option \<Rightarrow> protocolSnifferWithMetadata list" where
  "NewSniffer env fdns =
     (case fdns of
        None \<Rightarrow> basic_sniffers env
      | Some eng \<Rightarrow>
          let sn = newFakeDNSSniffer eng
          in [newFakeDNSThenOthers sn eng (basic_sniffers env)] @ basic_sniffers env @ [sn])"

definition errUnknownContent :: goerr where "errUnknownContent = ENew ''unknown content'' None"

text \<open>\<open>Sniff\<close> over \<open>s.sniffer\<close> (\<open>all\<close>); the last component is \<open>s.sniffer\<close> afterwards.\<close>

fun Sniff_loop ::
  "Destination \<Rightarrow> Network \<Rightarrow> protocolSnifferWithMetadata list \<Rightarrow> protocolSnifferWithMetadata list \<Rightarrow> payload \<Rightarrow> protocolSnifferWithMetadata list \<Rightarrow>
   (SniffResult option \<times> goerr option \<times> payload \<times> protocolSnifferWithMetadata list) option" where
  "Sniff_loop c network [] pending b all =
     (if pending \<noteq> [] then Some (None, Some ErrNoClue, b, pending) else Some (None, Some errUnknownContent, b, all))"
| "Sniff_loop c network (si # rest) pending b all =
     (if ps_metadataSniffer si \<or> ps_network si \<noteq> network then Sniff_loop c network rest pending b all
      else Option.bind (ps_protocolSniffer si c b) (\<lambda>(r, e, b').
        if e = Some ErrNoClue then Sniff_loop c network rest (pending @ [si]) b' all
        else if e = Some ErrProtoNeedMoreData then Some (None, e, b', [si])
        else if e = None \<and> r \<noteq> None then Some (r, None, b', all)
        else Sniff_loop c network rest pending b' all))"

definition Sniff where
  "Sniff c network sniffers b = Sniff_loop c network sniffers [] b sniffers"

fun SniffMetadata_loop ::
  "Destination \<Rightarrow> protocolSnifferWithMetadata list \<Rightarrow> protocolSnifferWithMetadata list \<Rightarrow> protocolSnifferWithMetadata list \<Rightarrow>
   (SniffResult option \<times> goerr option \<times> protocolSnifferWithMetadata list) option" where
  "SniffMetadata_loop c [] pending all =
     (if pending \<noteq> [] then Some (None, Some ErrNoClue, pending) else Some (None, Some errUnknownContent, all))"
| "SniffMetadata_loop c (si # rest) pending all =
     (if \<not> ps_metadataSniffer si then SniffMetadata_loop c rest (pending @ [si]) all
      else Option.bind (ps_protocolSniffer si c None) (\<lambda>(r, e, _).
        if e = Some ErrNoClue then SniffMetadata_loop c rest (pending @ [si]) all
        else if e = None \<and> r \<noteq> None then Some (r, None, all)
        else SniffMetadata_loop c rest pending all))"

definition SniffMetadata where
  "SniffMetadata c sniffers = SniffMetadata_loop c sniffers [] sniffers"

section \<open>The sniffing loop\<close>

definition errSniffingTimeout :: goerr where "errSniffingTimeout = ENew ''timeout on sniffing'' None"

text \<open>
  One round of the loop: whether the context is done (and its error), and the time that \<open>Cache\<close> takes, in nanoseconds. The loop is a
  function of the rounds that happen; \<open>None\<close> is a panic, \<open>Some (Inl \<dots>)\<close> a loop that is still going when the given rounds are over, and
  \<open>Some (Inr \<dots>)\<close> its result.
\<close>

record sniff_round =
  rd_done :: "goerr option"
  rd_elapsed :: int

record 'r sniff_state =
  ss_reader :: "'r cachedReader"
  ss_payload :: Buffer
  ss_sniffers :: "protocolSnifferWithMetadata list"
  ss_deadline :: int
  ss_attempts :: nat
  ss_pool :: pool

definition set_payload :: "Buffer \<Rightarrow> payload \<Rightarrow> Buffer" where
  "set_payload b x = (case x of None \<Rightarrow> b | Some (a, n) \<Rightarrow> b\<lparr>b_v := map_option (\<lambda>v. overwrite v (nat (b_start b)) a) (b_v b)\<rparr>)"

definition sniff_payload :: "Buffer \<Rightarrow> payload" where
  "sniff_payload b = Some (drop (nat (b_start b)) (b_arr b), nat (buf_Len b))"

definition content_round ::
  "'r mb_read_timeout \<Rightarrow> Destination \<Rightarrow> Network \<Rightarrow> sniff_round \<Rightarrow> 'r sniff_state \<Rightarrow>
   ('r sniff_state + (SniffResult option \<times> goerr option) \<times> 'r sniff_state) option" where
  "content_round rmt c network rd s =
     (if rd_done rd \<noteq> None then Some (Inr ((None, rd_done rd), s))
      else Option.bind (CR_Cache rmt (ss_reader s) (ss_payload s) (ss_deadline s) (ss_pool s)) (\<lambda>(e, r1, b1, p1).
        let s1 = s\<lparr>ss_reader := r1, ss_payload := b1, ss_pool := p1\<rparr>
        in if e \<noteq> None then Some (Inr ((None, e), s1))
           else let s2 = s1\<lparr>ss_deadline := ss_deadline s - rd_elapsed rd\<rparr>;
                    next = (\<lambda>t. if ss_attempts t \<ge> 2 \<or> ss_deadline t \<le> 0 then Some (Inr ((None, Some errSniffingTimeout), t)) else Some (Inl t))
             in if \<not> IsEmpty (Some b1)
                then Option.bind (Sniff c network (ss_sniffers s) (sniff_payload b1)) (\<lambda>(res, er, b2, sn).
                  let s3 = s2\<lparr>ss_payload := set_payload b1 b2, ss_sniffers := sn\<rparr>
                  in if er = Some ErrNoClue then next (s3\<lparr>ss_attempts := ss_attempts s + 1\<rparr>)
                     else if er = Some ErrProtoNeedMoreData then next s3
                     else Some (Inr ((res, er), s3)))
                else next (s2\<lparr>ss_attempts := ss_attempts s + 1\<rparr>)))"

fun content_loop ::
  "'r mb_read_timeout \<Rightarrow> Destination \<Rightarrow> Network \<Rightarrow> sniff_round list \<Rightarrow> 'r sniff_state \<Rightarrow>
   ('r sniff_state + (SniffResult option \<times> goerr option) \<times> 'r sniff_state) option" where
  "content_loop rmt c network [] s = Some (Inl s)"
| "content_loop rmt c network (rd # rds) s =
     Option.bind (content_round rmt c network rd s) (\<lambda>x. case x of Inr y \<Rightarrow> Some (Inr y) | Inl s' \<Rightarrow> content_loop rmt c network rds s')"

text \<open>How the results of the metadata and of the content are put together.\<close>

definition sniff_result ::
  "SniffResult option \<Rightarrow> goerr option \<Rightarrow> SniffResult option \<Rightarrow> goerr option \<Rightarrow> (SniffResult option \<times> goerr option) option" where
  "sniff_result metaresult metadataErr contentResult contentErr =
     (if contentErr \<noteq> None \<and> metadataErr = None then Some (metaresult, None)
      else if contentErr = None \<and> metadataErr = None
      then Option.bind metaresult (\<lambda>m. Option.bind contentResult (\<lambda>q. Some (Some (CompositeResult m q), None)))
      else Some (contentResult, contentErr))"

definition sniffer ::
  "'r mb_read_timeout \<Rightarrow> protocolSnifferWithMetadata list \<Rightarrow> Destination \<Rightarrow> bool \<Rightarrow> Network \<Rightarrow> sniff_round list \<Rightarrow> 'r cachedReader \<Rightarrow> pool \<Rightarrow>
   (('r sniff_state) + (SniffResult option \<times> goerr option) \<times> 'r cachedReader \<times> pool) option" where
  "sniffer rmt sniffers c metadataOnly network rounds r p =
     Option.bind (NewWithSize 32767) (\<lambda>b. Option.bind (SniffMetadata c sniffers) (\<lambda>(metaresult, metadataErr, sn).
       if metadataOnly then Some (Inr ((metaresult, metadataErr), r, snd (Release (Some b) p)))
       else Option.bind (content_loop rmt c network rounds
              \<lparr>ss_reader = r, ss_payload = b, ss_sniffers = sn, ss_deadline = 200000000, ss_attempts = 0, ss_pool = p\<rparr>) (\<lambda>x.
         case x of
           Inl s \<Rightarrow> Some (Inl s)
         | Inr ((contentResult, contentErr), s) \<Rightarrow>
             map_option (\<lambda>y. Inr (y, ss_reader s, snd (Release (Some (ss_payload s)) (ss_pool s)))) (sniff_result metaresult metadataErr contentResult contentErr))))"

section \<open>The contract of a reader with a timeout\<close>

text \<open>
  Neither call loses or reorders bytes: what a call delivers is the front of what is pending. A timeout delivers nothing and no
  error; an error comes without bytes.
\<close>

definition takes_front :: "('r \<Rightarrow> bool) \<Rightarrow> ('r \<Rightarrow> byte list) \<Rightarrow> 'r \<Rightarrow> (MultiBuffer \<times> goerr option \<times> 'r \<times> pool) option \<Rightarrow> bool" where
  "takes_front rinv pending r x \<longleftrightarrow> (\<exists>mb e r' p'. x = Some (mb, e, r', p') \<and> rinv r' \<and> pool_ok p' \<and> mb_inv mb
     \<and> (mcontent mb \<noteq> [] \<longrightarrow> packed mb) \<and> pending r = mcontent mb @ pending r' \<and> (e \<noteq> None \<longrightarrow> mcontent mb = []))"

lemma takes_frontI:
  "x = Some (mb, e, r', p') \<Longrightarrow> rinv r' \<Longrightarrow> pool_ok p' \<Longrightarrow> mb_inv mb \<Longrightarrow> (mcontent mb \<noteq> [] \<Longrightarrow> packed mb) \<Longrightarrow>
    pending r = mcontent mb @ pending r' \<Longrightarrow> (e \<noteq> None \<Longrightarrow> mcontent mb = []) \<Longrightarrow> takes_front rinv pending r x"
  unfolding takes_front_def by blast

lemma takes_frontE:
  assumes "takes_front rinv pending r x"
  obtains mb e r' p' where "x = Some (mb, e, r', p')" "rinv r'" "pool_ok p'" "mb_inv mb" "mcontent mb \<noteq> [] \<longrightarrow> packed mb"
    "pending r = mcontent mb @ pending r'" "e \<noteq> None \<longrightarrow> mcontent mb = []"
  using assms unfolding takes_front_def by blast

locale timeout_reader =
  fixes rmb :: "'r mb_read"
    and rmt :: "'r mb_read_timeout"
    and rinv :: "'r \<Rightarrow> bool"
    and pending :: "'r \<Rightarrow> byte list"
  assumes read_front: "rinv r \<Longrightarrow> pool_ok p \<Longrightarrow> takes_front rinv pending r (rmb r p)"
    and timeout_front: "rinv r \<Longrightarrow> pool_ok p \<Longrightarrow> takes_front rinv pending r (rmt r d p)"

text \<open>What the wrapper has read already and not delivered comes first.\<close>

definition tw_inv :: "('r \<Rightarrow> bool) \<Rightarrow> 'r TimeoutWrapperReader \<Rightarrow> bool" where
  "tw_inv rinv tw \<longleftrightarrow> rinv (tw_Reader tw)
     \<and> (tw_done tw = chan_closed \<longrightarrow> mb_inv (tw_mb tw) \<and> (mcontent (tw_mb tw) \<noteq> [] \<longrightarrow> packed (tw_mb tw))
         \<and> (tw_err tw \<noteq> None \<longrightarrow> mcontent (tw_mb tw) = []))"

definition tw_pending :: "('r \<Rightarrow> byte list) \<Rightarrow> 'r TimeoutWrapperReader \<Rightarrow> byte list" where
  "tw_pending pending tw = (if tw_done tw = chan_closed then mcontent (tw_mb tw) else []) @ pending (tw_Reader tw)"

context clean_mb_reader
begin

lemma read_clean: "rinv r \<Longrightarrow> pool_ok p \<Longrightarrow> takes_front rinv pending r (rmb r p)"
  using read_mb [of r p] done_inv no_data_with_error [of r p] unfolding takes_front_def by (metis option.distinct(1) option.exhaust)

lemma TW_go_keeps:
  assumes "tw_inv rinv tw" "pool_ok p"
  shows "\<exists>tw' p'. TW_go rmb tw p = Some (tw', p') \<and> tw_inv rinv tw' \<and> tw_pending pending tw' = tw_pending pending tw \<and> pool_ok p'
    \<and> (tw_done tw \<noteq> chan_nil \<longrightarrow> tw_done tw' = chan_closed) \<and> (tw_done tw = chan_nil \<longrightarrow> tw' = tw)"
proof (cases "tw_done tw = chan_open")
  case True
  have "takes_front rinv pending (tw_Reader tw) (rmb (tw_Reader tw) p)" using assms by (intro read_clean) (simp_all add: tw_inv_def)
  then obtain mb e r' p' where m: "rmb (tw_Reader tw) p = Some (mb, e, r', p')" "rinv r'" "pool_ok p'" "mb_inv mb" "mcontent mb \<noteq> [] \<longrightarrow> packed mb"
    "pending (tw_Reader tw) = mcontent mb @ pending r'" "e \<noteq> None \<longrightarrow> mcontent mb = []" by (rule takes_frontE)
  define tw' where "tw' = tw\<lparr>tw_mb := mb, tw_err := e, tw_Reader := r', tw_done := chan_closed\<rparr>"
  have "TW_go rmb tw p = Some (tw', p')" using m(1) True by (simp add: TW_go_def tw'_def)
  moreover have "tw_inv rinv tw'" "tw_pending pending tw' = tw_pending pending tw" "tw_done tw' = chan_closed"
    using m True by (simp_all add: tw_inv_def tw_pending_def tw'_def)
  ultimately show ?thesis using m(3) True by simp
qed (use assms in \<open>cases "tw_done tw"; simp add: TW_go_def\<close>)

lemma TW_deliver_front:
  assumes "tw_inv rinv tw" "tw_done tw = chan_closed" "pool_ok p"
  shows "takes_front (tw_inv rinv) (tw_pending pending) tw (case TW_deliver tw of (mb, e, tw2) \<Rightarrow> Some (mb, e, tw2, p))"
  unfolding TW_deliver_def prod.case using assms by (intro takes_frontI [OF refl]) (simp_all add: tw_inv_def tw_pending_def)

lemma TW_read_front:
  assumes "tw_inv rinv tw" "pool_ok p"
  shows "takes_front (tw_inv rinv) (tw_pending pending) tw (TW_ReadMultiBuffer rmb tw p)"
proof (cases "tw_done tw = chan_nil")
  case True
  have "takes_front rinv pending (tw_Reader tw) (rmb (tw_Reader tw) p)" using assms by (intro read_clean) (simp_all add: tw_inv_def)
  then obtain mb e r' p' where m: "rmb (tw_Reader tw) p = Some (mb, e, r', p')" "rinv r'" "pool_ok p'" "mb_inv mb" "mcontent mb \<noteq> [] \<longrightarrow> packed mb"
    "pending (tw_Reader tw) = mcontent mb @ pending r'" "e \<noteq> None \<longrightarrow> mcontent mb = []" by (rule takes_frontE)
  have "TW_ReadMultiBuffer rmb tw p
      = Some (mb, e, tw\<lparr>tw_mb := mb, tw_err := e, tw_Reader := r', tw_Counter := counter_Add (tw_Counter tw) (MB_Len mb)\<rparr>, p')"
    using m(1) True by (simp add: TW_ReadMultiBuffer_def)
  then show ?thesis by (rule takes_frontI) (use m True in \<open>simp_all add: tw_inv_def tw_pending_def\<close>)
next
  case False
  obtain tw' p' where t: "TW_go rmb tw p = Some (tw', p')" "tw_inv rinv tw'" "tw_pending pending tw' = tw_pending pending tw" "pool_ok p'"
    "tw_done tw' = chan_closed" using TW_go_keeps [OF assms] False by blast
  have "takes_front (tw_inv rinv) (tw_pending pending) tw' (case TW_deliver tw' of (mb, e, tw2) \<Rightarrow> Some (mb, e, tw2, p'))"
    using t by (intro TW_deliver_front)
  moreover have "TW_ReadMultiBuffer rmb tw p = (case TW_deliver tw' of (mb, e, tw2) \<Rightarrow> Some (mb, e, tw2, p'))"
    using False t(1) by (simp add: TW_ReadMultiBuffer_def split: prod.splits)
  ultimately show ?thesis using t(3) by (simp add: takes_front_def)
qed

lemma TW_timeout_front:
  assumes "tw_inv rinv tw" "pool_ok p"
  shows "takes_front (tw_inv rinv) (tw_pending pending) tw (TW_ReadMultiBufferTimeout rmb tw d p)"
proof -
  define tw1 where "tw1 = (if tw_done tw = chan_nil then tw\<lparr>tw_done := chan_open\<rparr> else tw)\<lparr>tw_sched := tl (tw_sched tw)\<rparr>"
  obtain finished expired where sc: "(case tw_sched tw of [] \<Rightarrow> (True, False) | x # _ \<Rightarrow> x) = (finished, expired)" by fastforce
  have i: "tw_inv rinv tw1" "tw_pending pending tw1 = tw_pending pending tw" using assms(1) by (auto simp: tw1_def tw_inv_def tw_pending_def)
  obtain tw2 p2 where t: "(if finished then TW_go rmb tw1 p else Some (tw1, p)) = Some (tw2, p2)" "tw_inv rinv tw2"
    "tw_pending pending tw2 = tw_pending pending tw" "pool_ok p2"
    using TW_go_keeps [OF i(1) assms(2)] i assms(2) by (cases finished) auto
  have eq: "TW_ReadMultiBufferTimeout rmb tw d p
      = (if tw_done tw2 = chan_closed \<and> \<not> expired then (case TW_deliver tw2 of (mb, e, tw3) \<Rightarrow> Some (mb, e, tw3, p2)) else Some ([], None, tw2, p2))"
    unfolding TW_ReadMultiBufferTimeout_def Let_def sc prod.case tw1_def [symmetric] t(1) by (simp split: prod.splits)
  show ?thesis
  proof (cases "tw_done tw2 = chan_closed \<and> \<not> expired")
    case True
    then show ?thesis unfolding eq using TW_deliver_front [OF t(2) _ t(4)] t(3) by (simp add: takes_front_def)
  next
    case False
    then have "TW_ReadMultiBufferTimeout rmb tw d p = Some ([], None, tw2, p2)" unfolding eq by (rule if_not_P)
    then show ?thesis by (rule takes_frontI) (use t in \<open>simp_all add: mb_inv_def\<close>)
  qed
qed

end

sublocale clean_mb_reader < wrapped: timeout_reader "TW_ReadMultiBuffer rmb" "TW_ReadMultiBufferTimeout rmb" "tw_inv rinv" "tw_pending pending"
  by unfold_locales (rule TW_read_front TW_timeout_front; assumption)+

section \<open>The cached reader loses nothing\<close>

definition payload_ok :: "Buffer \<Rightarrow> bool" where
  "payload_ok b \<longleftrightarrow> buf_inv b \<and> b_start b = 0 \<and> b_len b = 32767"

lemma payload_fill:
  assumes "payload_ok b" "packed c" "length (mcontent c) < 2147483648"
  shows "\<exists>b1 b2. Extend (Clear b) (min (MB_Len c) (Cap (Some b))) = Some ((0, int (min (length (mcontent c)) 32767)), b1)
    \<and> MB_Copy c (min (length (mcontent c)) 32767) = Some (take 32767 (mcontent c))
    \<and> Resize (put_at b1 0 (take 32767 (mcontent c))) 0 (int (min (length (mcontent c)) 32767)) = Some b2
    \<and> payload_ok b2 \<and> content b2 = take 32767 (mcontent c)"
proof -
  let ?n = "min (length (mcontent c)) 32767" and ?d = "take 32767 (mcontent c)"
  have c: "buf_inv (Clear b)" "b_start (Clear b) = 0" "b_end (Clear b) = 0" "b_len (Clear b) = 32767" "room (Clear b) = 32767" "content (Clear b) = []"
    using assms(1) by (auto simp: payload_ok_def Clear_def buf_inv_def room_def content_def)
  have len: "MB_Len c = int (length (mcontent c))" using assms(2,3) packedD(1) by (simp add: MB_Len_mcontent)
  have cap: "Cap (Some b) = 32767" using assms(1) by (simp add: Cap_def payload_ok_def)
  let ?b1 = "append_to (Clear b) (replicate ?n 0)"
  have e: "Extend (Clear b) (min (MB_Len c) (Cap (Some b))) = Some ((0, int ?n), ?b1)"
    using Extend_room [OF c(1), of ?n] c len cap by (simp add: of_nat_min)
  have b1: "buf_inv ?b1" "content ?b1 = replicate ?n 0" "b_start ?b1 = 0" "b_end ?b1 = int ?n" "b_len ?b1 = 32767" using c by simp_all
  have dl: "length ?d = ?n" by simp
  define b2 where "b2 = put_at ?b1 0 ?d"
  have b2: "content b2 = ?d" "buf_inv b2" "b_start b2 = 0" "b_end b2 = int ?n" "b_len b2 = 32767"
    using put_at_content [of ?b1 0 ?d] b1 dl by (simp_all add: overwrite_def b2_def) (simp add: put_at_def)
  have "Resize b2 0 (int ?n) = Some (b2\<lparr>b_end := b_start b2 + int ?n\<rparr>)" using b2(1,2) dl by (intro Resize_shrink) simp_all
  moreover have "b2\<lparr>b_end := b_start b2 + int ?n\<rparr> = b2" using b2(3,4) by simp
  moreover have "MB_Copy c ?n = Some ?d" using MB_Copy_prefix [of c ?n] packedD(1,2) [OF assms(2)] by (simp add: min_def)
  moreover have "payload_ok b2" using b2 by (simp add: payload_ok_def)
  ultimately show ?thesis using e b2(1) unfolding b2_def by metis
qed

context timeout_reader
begin

definition cr_ok :: "'r cachedReader \<Rightarrow> bool" where
  "cr_ok r \<longleftrightarrow> rinv (cr_reader r) \<and> packed (cr_cache r) \<and> length (mcontent (cr_cache r)) + length (pending (cr_reader r)) < 2147483648"

definition cr_pending :: "'r cachedReader \<Rightarrow> byte list" where
  "cr_pending r = mcontent (cr_cache r) @ pending (cr_reader r)"

lemma CR_Cache_keeps:
  assumes "cr_ok r" "payload_ok b" "pool_ok p"
  shows "\<exists>e r' b' p'. CR_Cache rmt r b d p = Some (e, r', b', p') \<and> cr_ok r' \<and> cr_pending r' = cr_pending r \<and> payload_ok b' \<and> pool_ok p'
    \<and> (e = None \<longrightarrow> content b' = take 32767 (mcontent (cr_cache r')))"
proof -
  have r: "rinv (cr_reader r)" "packed (cr_cache r)" "length (mcontent (cr_cache r)) + length (pending (cr_reader r)) < 2147483648"
    using assms(1) by (simp_all add: cr_ok_def)
  obtain mb e r' p' where m: "rmt (cr_reader r) d p = Some (mb, e, r', p')" "rinv r'" "pool_ok p'" "mb_inv mb" "mcontent mb \<noteq> [] \<longrightarrow> packed mb"
    "pending (cr_reader r) = mcontent mb @ pending r'" "e \<noteq> None \<longrightarrow> mcontent mb = []"
    using timeout_front [OF r(1) assms(3), of d] unfolding takes_front_def by blast
  show ?thesis
  proof (cases e)
    case (Some x)
    then have "CR_Cache rmt r b d p = Some (Some x, r\<lparr>cr_reader := r'\<rparr>, b, p')" using m(1) by (simp add: CR_Cache_def)
    then show ?thesis using Some m r assms by (auto simp: cr_ok_def cr_pending_def)
  next
    case None
    define c where "c = (if \<not> MB_IsEmpty mb then cr_cache r @ mb else cr_cache r)"
    have c: "mcontent c = mcontent (cr_cache r) @ mcontent mb" "packed c" using m(4,5) r(2) by (auto simp: c_def)
    have l: "length (mcontent c) < 2147483648" using r(3) m(6) c(1) by simp
    obtain b1 b2 where f: "Extend (Clear b) (min (MB_Len c) (Cap (Some b))) = Some ((0, int (min (length (mcontent c)) 32767)), b1)"
      "MB_Copy c (min (length (mcontent c)) 32767) = Some (take 32767 (mcontent c))"
      "Resize (put_at b1 0 (take 32767 (mcontent c))) 0 (int (min (length (mcontent c)) 32767)) = Some b2"
      "payload_ok b2" "content b2 = take 32767 (mcontent c)" using payload_fill [OF assms(2) c(2) l] by blast
    have i: "i32 (int (min (length (mcontent c)) 32767)) = int (min (length (mcontent c)) 32767)" by (rule i32_id) simp_all
    have "CR_Cache rmt r b d p = Some (None, \<lparr>cr_reader = r', cr_cache = c\<rparr>, b2, p')"
      using m(1) None f(1-3) i unfolding CR_Cache_def MergeMulti_def fst_conv by (simp add: Let_def del: if_split flip: c_def)
    then show ?thesis using m r(3) c f(4,5) by (auto simp: cr_ok_def cr_pending_def)
  qed
qed

lemma CR_read_front:
  assumes "cr_ok r" "pool_ok p"
  shows "takes_front cr_ok cr_pending r (CR_ReadMultiBuffer rmb r p)" "takes_front cr_ok cr_pending r (CR_ReadMultiBufferTimeout rmt r d p)"
proof -
  have r: "rinv (cr_reader r)" "packed (cr_cache r)" "length (mcontent (cr_cache r)) + length (pending (cr_reader r)) < 2147483648"
    using assms(1) by (simp_all add: cr_ok_def)
  have e: "MB_IsEmpty (cr_cache r) \<longleftrightarrow> mcontent (cr_cache r) = []" using packedD(1) [OF r(2)] by simp
  have front: "takes_front cr_ok cr_pending r (case CR_readInternal r of
        (Some mb, r1) \<Rightarrow> Some (mb, None, r1, p)
      | (None, r1) \<Rightarrow> map_option (\<lambda>(mb, e, r', p'). (mb, e, r1\<lparr>cr_reader := r'\<rparr>, p')) (f (cr_reader r1) p))"
    if f: "takes_front rinv pending (cr_reader r) (f (cr_reader r) p)" for f
  proof (cases "mcontent (cr_cache r) = []")
    case False
    then have "CR_readInternal r = (Some (cr_cache r), r\<lparr>cr_cache := []\<rparr>)" using e by (simp add: CR_readInternal_def)
    moreover have "cr_ok (r\<lparr>cr_cache := []\<rparr>)" "cr_pending r = mcontent (cr_cache r) @ cr_pending (r\<lparr>cr_cache := []\<rparr>)"
      using r by (simp_all add: cr_ok_def cr_pending_def)
    ultimately show ?thesis using assms(2) packedD(1) [OF r(2)] r(2)
      by (intro takes_frontI [of _ "cr_cache r" None "r\<lparr>cr_cache := []\<rparr>" p]) simp_all
  next
    case True
    then have n: "CR_readInternal r = (None, r)" using e by (simp add: CR_readInternal_def)
    from f obtain mb e r' p' where m: "f (cr_reader r) p = Some (mb, e, r', p')" "rinv r'" "pool_ok p'" "mb_inv mb" "mcontent mb \<noteq> [] \<longrightarrow> packed mb"
      "pending (cr_reader r) = mcontent mb @ pending r'" "e \<noteq> None \<longrightarrow> mcontent mb = []" by (rule takes_frontE)
    have "cr_ok (r\<lparr>cr_reader := r'\<rparr>)" "cr_pending r = mcontent mb @ cr_pending (r\<lparr>cr_reader := r'\<rparr>)"
      using r True m(2,6) by (simp_all add: cr_ok_def cr_pending_def)
    then show ?thesis using n m by (intro takes_frontI [of _ mb e "r\<lparr>cr_reader := r'\<rparr>" p']) simp_all
  qed
  show "takes_front cr_ok cr_pending r (CR_ReadMultiBuffer rmb r p)"
    unfolding CR_ReadMultiBuffer_def by (rule front) (rule read_front [OF r(1) assms(2)])
  show "takes_front cr_ok cr_pending r (CR_ReadMultiBufferTimeout rmt r d p)"
    unfolding CR_ReadMultiBufferTimeout_def using timeout_front [OF r(1) assms(2), of d] by (intro front [of "\<lambda>r p. rmt r d p"])
qed

end

text \<open>Any sequence of calls; \<open>delivered\<close> collects what the reads return.\<close>

datatype cr_op = OpCache int | OpRead | OpReadTimeout int

fun cr_run :: "'r mb_read \<Rightarrow> 'r mb_read_timeout \<Rightarrow> cr_op list \<Rightarrow> 'r cachedReader \<Rightarrow> Buffer \<Rightarrow> pool \<Rightarrow> byte list \<Rightarrow>
   (byte list \<times> 'r cachedReader \<times> Buffer \<times> pool) option" where
  "cr_run rmb rmt [] r b p delivered = Some (delivered, r, b, p)"
| "cr_run rmb rmt (OpCache d # ops) r b p delivered =
     Option.bind (CR_Cache rmt r b d p) (\<lambda>(_, r', b', p'). cr_run rmb rmt ops r' b' p' delivered)"
| "cr_run rmb rmt (OpRead # ops) r b p delivered =
     Option.bind (CR_ReadMultiBuffer rmb r p) (\<lambda>(mb, _, r', p'). cr_run rmb rmt ops r' b p' (delivered @ mcontent mb))"
| "cr_run rmb rmt (OpReadTimeout d # ops) r b p delivered =
     Option.bind (CR_ReadMultiBufferTimeout rmt r d p) (\<lambda>(mb, _, r', p'). cr_run rmb rmt ops r' b p' (delivered @ mcontent mb))"

context timeout_reader
begin

lemma cr_run_keeps:
  "cr_ok r \<Longrightarrow> payload_ok b \<Longrightarrow> pool_ok p \<Longrightarrow>
    \<exists>out r' b' p'. cr_run rmb rmt ops r b p delivered = Some (out, r', b', p') \<and> cr_ok r' \<and> payload_ok b'
      \<and> out @ cr_pending r' = delivered @ cr_pending r"
proof (induction ops arbitrary: r b p delivered)
  case (Cons op ops)
  show ?case
  proof (cases op)
    case (OpCache d)
    obtain e r1 b1 p1 where c: "CR_Cache rmt r b d p = Some (e, r1, b1, p1)" "cr_ok r1" "cr_pending r1 = cr_pending r" "payload_ok b1" "pool_ok p1"
      using CR_Cache_keeps [OF Cons.prems, of d] by blast
    then show ?thesis using OpCache Cons.IH [OF c(2,4,5), of delivered] by simp
  next
    case OpRead
    obtain mb e r1 p1 where c: "CR_ReadMultiBuffer rmb r p = Some (mb, e, r1, p1)" "cr_ok r1" "pool_ok p1" "cr_pending r = mcontent mb @ cr_pending r1"
      using CR_read_front(1) [OF Cons.prems(1,3)] by (rule takes_frontE)
    then show ?thesis using OpRead Cons.IH [OF c(2) Cons.prems(2) c(3), of "delivered @ mcontent mb"] by simp
  next
    case (OpReadTimeout d)
    obtain mb e r1 p1 where c: "CR_ReadMultiBufferTimeout rmt r d p = Some (mb, e, r1, p1)" "cr_ok r1" "pool_ok p1" "cr_pending r = mcontent mb @ cr_pending r1"
      using CR_read_front(2) [OF Cons.prems(1,3), of d] by (rule takes_frontE)
    then show ?thesis using OpReadTimeout Cons.IH [OF c(2) Cons.prems(2) c(3), of "delivered @ mcontent mb"] by simp
  qed
qed simp

end

section \<open>The sniffers of a stream\<close>

text \<open>What the sniffers of the list may report, other than the one that asks the fake DNS first.\<close>

fun basic_result :: "SniffResult \<Rightarrow> bool" where
  "basic_result (HTTPResult d) = True"
| "basic_result (TLSResult d) = True"
| "basic_result BittorrentResult = True"
| "basic_result (QUICResult d) = True"
| "basic_result _ = False"

definition runs_on :: "Network \<Rightarrow> protocolSnifferWithMetadata \<Rightarrow> bool" where
  "runs_on network si \<longleftrightarrow> \<not> ps_metadataSniffer si \<and> ps_network si = network"

definition plain_on :: "Network \<Rightarrow> protocolSnifferWithMetadata \<Rightarrow> bool" where
  "plain_on network si \<longleftrightarrow> (runs_on network si \<longrightarrow> (\<forall>c b r e b'. ps_protocolSniffer si c b = Some (Some r, e, b') \<longrightarrow> basic_result r))"

text \<open>A sniffer that never panics, leaves the payload alone and gives a result whenever it gives no error.\<close>

definition safe_on :: "Network \<Rightarrow> protocolSnifferWithMetadata \<Rightarrow> bool" where
  "safe_on network si \<longleftrightarrow> (runs_on network si \<longrightarrow> (\<forall>c b. \<exists>r e. ps_protocolSniffer si c b = Some (r, e, b) \<and> (e = None \<longrightarrow> r \<noteq> None)))"

lemma sniff_with_safe: "(\<And>b. f b \<noteq> None) \<Longrightarrow> \<exists>r e. sniff_with mk id f c b = Some (r, e, b) \<and> (e = None \<longrightarrow> r \<noteq> None)"
proof -
  assume "\<And>b. f b \<noteq> None"
  then obtain x where "f b = Some x" by blast
  then show ?thesis by (cases x) (simp_all add: sniff_with_def)
qed

lemma sniff_with_result: "sniff_with mk left f c b = Some (Some r, e, b') \<Longrightarrow> \<exists>h. r = mk h"
proof (cases "f b")
  case (Some x)
  then show "sniff_with mk left f c b = Some (Some r, e, b') \<Longrightarrow> \<exists>h. r = mk h" by (cases x) (auto simp: sniff_with_def)
qed (simp add: sniff_with_def)

lemma SniffBittorrent_total: "SniffBittorrent b \<noteq> None"
proof (cases "length b < 20")
  case False
  then show ?thesis using not_short [OF False] by (simp add: SniffBittorrent_def index_def slice_def)
qed (simp add: SniffBittorrent_def)

lemma tcp_safe: "list_all (safe_on Network_TCP) (NewSniffer env fdns)"
proof -
  have t: "SniffTLS b \<noteq> None" for b using SniffTLS_total [of b] by (auto simp: hello_post_def)
  have "list_all (safe_on Network_TCP) (basic_sniffers env)"
    using sniff_with_safe [of "\<lambda>b. SniffHTTP (se_lower env) (payload_bytes b)"] sniff_with_safe [of "\<lambda>b. SniffTLS (payload_bytes b)"]
      sniff_with_safe [of "\<lambda>b. SniffBittorrent (payload_bytes b)"] t SniffHTTP_total SniffBittorrent_total
    unfolding basic_sniffers_def by (simp add: safe_on_def runs_on_def)
  moreover have "safe_on Network_TCP (newFakeDNSSniffer eng)" "safe_on Network_TCP (newFakeDNSThenOthers x eng ys)" for eng x ys
    by (simp_all add: newFakeDNSSniffer_def newFakeDNSThenOthers_def safe_on_def runs_on_def)
  ultimately show ?thesis by (cases fdns) (simp_all add: NewSniffer_def Let_def)
qed

lemma plain_sniff_with:
  "(\<And>h. basic_result (mk h)) \<Longrightarrow> plain_on network \<lparr>ps_protocolSniffer = sniff_with mk left f, ps_metadataSniffer = m, ps_network = w\<rparr>"
  using sniff_with_result [of mk left f] by (fastforce simp: plain_on_def)

lemma plain_NewSniffer: "network \<noteq> Network_Unknown \<Longrightarrow> list_all (plain_on network) (NewSniffer env fdns)"
proof -
  assume n: "network \<noteq> Network_Unknown"
  have "list_all (plain_on network) (basic_sniffers env)" by (simp add: basic_sniffers_def plain_sniff_with)
  moreover have "plain_on network (newFakeDNSSniffer eng)" "plain_on network (newFakeDNSThenOthers x eng ys)" for eng x ys
    using n by (simp_all add: newFakeDNSSniffer_def newFakeDNSThenOthers_def plain_on_def runs_on_def)
  ultimately show ?thesis by (cases fdns) (simp_all add: NewSniffer_def Let_def)
qed

lemma Sniff_loop_safe:
  "list_all (safe_on n) sn \<Longrightarrow> list_all (safe_on n) pend \<Longrightarrow> list_all (safe_on n) all \<Longrightarrow>
    \<exists>res er sn'. Sniff_loop c n sn pend b all = Some (res, er, b, sn') \<and> list_all (safe_on n) sn' \<and> (er = None \<longrightarrow> res \<noteq> None)"
proof (induction sn arbitrary: pend)
  case (Cons si sn)
  have si: "safe_on n si" "list_all (safe_on n) sn" using Cons.prems(1) by simp_all
  show ?case
  proof (cases "runs_on n si")
    case False
    then show ?thesis using Cons.IH [OF si(2) Cons.prems(2,3)] by (simp add: runs_on_def)
  next
    case True
    then obtain r e where s: "ps_protocolSniffer si c b = Some (r, e, b)" "e = None \<longrightarrow> r \<noteq> None"
      using si(1) unfolding safe_on_def by metis
    have step: "Sniff_loop c n (si # sn) pend b all =
        (if e = Some ErrNoClue then Sniff_loop c n sn (pend @ [si]) b all
         else if e = Some ErrProtoNeedMoreData then Some (None, e, b, [si])
         else if e = None \<and> r \<noteq> None then Some (r, None, b, all) else Sniff_loop c n sn pend b all)"
      using True s(1) by (simp add: runs_on_def)
    show ?thesis unfolding step using s(2) si Cons.prems(2,3) Cons.IH [OF si(2), of "pend @ [si]"] Cons.IH [OF si(2), of pend] by simp
  qed
qed simp

lemma Sniff_loop_plain:
  "list_all (plain_on n) sn \<Longrightarrow> list_all (plain_on n) pend \<Longrightarrow> list_all (plain_on n) all \<Longrightarrow>
    Sniff_loop c n sn pend b all = Some (res, er, b', sn') \<Longrightarrow> list_all (plain_on n) sn' \<and> (\<forall>r. res = Some r \<longrightarrow> basic_result r)"
proof (induction sn arbitrary: pend b)
  case Nil
  then show ?case by (cases "pend = []") auto
next
  case (Cons si sn)
  have si: "plain_on n si" "list_all (plain_on n) sn" using Cons.prems(1) by simp_all
  show ?case
  proof (cases "runs_on n si")
    case False
    then have "Sniff_loop c n sn pend b all = Some (res, er, b', sn')" using Cons.prems(4) by (simp add: runs_on_def)
    then show ?thesis by (rule Cons.IH [OF si(2) Cons.prems(2,3)])
  next
    case True
    then obtain r e b1 where s: "ps_protocolSniffer si c b = Some (r, e, b1)"
      using Cons.prems(4) by (auto simp: runs_on_def bind_Some_iff)
    have r: "\<forall>x. r = Some x \<longrightarrow> basic_result x" using si(1) True s unfolding plain_on_def by blast
    have step: "Sniff_loop c n (si # sn) pend b all =
        (if e = Some ErrNoClue then Sniff_loop c n sn (pend @ [si]) b1 all
         else if e = Some ErrProtoNeedMoreData then Some (None, e, b1, [si])
         else if e = None \<and> r \<noteq> None then Some (r, None, b1, all) else Sniff_loop c n sn pend b1 all)"
      using True s by (simp add: runs_on_def)
    show ?thesis using Cons.prems(2-4) r si Cons.IH [OF si(2), of "pend @ [si]" b1] Cons.IH [OF si(2), of pend b1]
      unfolding step by (auto split: if_splits)
  qed
qed

lemma SniffMetadata_NewSniffer:
  "\<exists>res er sn. SniffMetadata c (NewSniffer env fdns) = Some (res, er, sn) \<and> set sn \<subseteq> set (NewSniffer env fdns)
    \<and> (er = None \<longrightarrow> (\<exists>d. res = Some (fakeDNSSniffResult d))) \<and> (er \<noteq> None \<longrightarrow> res = None) \<and> (er = None \<longrightarrow> fdns \<noteq> None)"
proof (cases fdns)
  case None
  then show ?thesis by (simp add: SniffMetadata_def NewSniffer_def basic_sniffers_def)
next
  case (Some eng)
  then show ?thesis
    by (auto simp: SniffMetadata_def NewSniffer_def basic_sniffers_def newFakeDNSSniffer_def newFakeDNSThenOthers_def Let_def)
qed

section \<open>The loop on a stream\<close>

lemma set_sniff_payload: "payload_ok b \<Longrightarrow> set_payload b (sniff_payload b) = b"
  by (cases "b_v b") (auto simp: payload_ok_def buf_inv_def set_payload_def sniff_payload_def b_arr_def overwrite_def)

context timeout_reader
begin

definition ss_ok :: "'r sniff_state \<Rightarrow> bool" where
  "ss_ok s \<longleftrightarrow> cr_ok (ss_reader s) \<and> payload_ok (ss_payload s) \<and> pool_ok (ss_pool s) \<and> list_all (safe_on Network_TCP) (ss_sniffers s)"

definition round_post :: "'r sniff_state \<Rightarrow> int \<Rightarrow> 'r sniff_state + (SniffResult option \<times> goerr option) \<times> 'r sniff_state \<Rightarrow> bool" where
  "round_post s elapsed x = (case x of
       Inl s' \<Rightarrow> ss_ok s' \<and> cr_pending (ss_reader s') = cr_pending (ss_reader s) \<and> ss_deadline s' = ss_deadline s - elapsed \<and> 0 < ss_deadline s'
     | Inr ((res, er), s') \<Rightarrow> ss_ok s' \<and> cr_pending (ss_reader s') = cr_pending (ss_reader s) \<and> (er = None \<longrightarrow> res \<noteq> None))"

lemma content_round_ends:
  assumes "ss_ok s"
  shows "\<exists>x. content_round rmt c Network_TCP rd s = Some x \<and> round_post s (rd_elapsed rd) x"
proof (cases "rd_done rd")
  case (Some e)
  then show ?thesis using assms by (simp add: content_round_def round_post_def)
next
  case None
  obtain e r1 b1 p1 where ca: "CR_Cache rmt (ss_reader s) (ss_payload s) (ss_deadline s) (ss_pool s) = Some (e, r1, b1, p1)" "cr_ok r1"
    "cr_pending r1 = cr_pending (ss_reader s)" "payload_ok b1" "pool_ok p1"
    using CR_Cache_keeps assms unfolding ss_ok_def by blast
  have sn: "list_all (safe_on Network_TCP) (ss_sniffers s)" using assms by (simp add: ss_ok_def)
  show ?thesis
  proof (cases "e = None \<and> \<not> IsEmpty (Some b1)")
    case True
    obtain res er sn' where sf: "Sniff c Network_TCP (ss_sniffers s) (sniff_payload b1) = Some (res, er, sniff_payload b1, sn')"
      "list_all (safe_on Network_TCP) sn'" "er = None \<longrightarrow> res \<noteq> None"
      using Sniff_loop_safe [of Network_TCP "ss_sniffers s" "[]" "ss_sniffers s" c "sniff_payload b1"] sn unfolding Sniff_def by auto
    show ?thesis using None True ca sf set_sniff_payload [OF ca(4)]
      by (auto simp: content_round_def round_post_def ss_ok_def Let_def split: if_splits)
  next
    case False
    then show ?thesis using None ca sn by (auto simp: content_round_def round_post_def ss_ok_def Let_def)
  qed
qed

lemma content_loop_ends:
  "ss_ok s \<Longrightarrow> \<exists>x. content_loop rmt c Network_TCP rds s = Some x
     \<and> (case x of
          Inl s' \<Rightarrow> rds \<noteq> [] \<longrightarrow> sum_list (map rd_elapsed rds) < ss_deadline s
        | Inr ((res, er), s') \<Rightarrow> ss_ok s' \<and> cr_pending (ss_reader s') = cr_pending (ss_reader s) \<and> (er = None \<longrightarrow> res \<noteq> None))"
proof (induction rds arbitrary: s)
  case (Cons rd rds)
  obtain x where x: "content_round rmt c Network_TCP rd s = Some x" "round_post s (rd_elapsed rd) x"
    using content_round_ends [OF Cons.prems, of c rd] by blast
  show ?case
  proof (cases x)
    case (Inr y)
    then show ?thesis using x by (cases y) (auto simp: round_post_def)
  next
    case (Inl s1)
    then have s1: "ss_ok s1" "cr_pending (ss_reader s1) = cr_pending (ss_reader s)" "ss_deadline s1 = ss_deadline s - rd_elapsed rd" "0 < ss_deadline s1"
      using x(2) by (simp_all add: round_post_def)
    obtain z where z: "content_loop rmt c Network_TCP rds s1 = Some z"
      "case z of Inl s' \<Rightarrow> rds \<noteq> [] \<longrightarrow> sum_list (map rd_elapsed rds) < ss_deadline s1
        | Inr ((res, er), s') \<Rightarrow> ss_ok s' \<and> cr_pending (ss_reader s') = cr_pending (ss_reader s1) \<and> (er = None \<longrightarrow> res \<noteq> None)"
      using Cons.IH [OF s1(1)] by blast
    then have "content_loop rmt c Network_TCP (rd # rds) s = Some z" using x(1) Inl by simp
    moreover have "case z of Inl s' \<Rightarrow> sum_list (map rd_elapsed (rd # rds)) < ss_deadline s
        | Inr ((res, er), s') \<Rightarrow> ss_ok s' \<and> cr_pending (ss_reader s') = cr_pending (ss_reader s) \<and> (er = None \<longrightarrow> res \<noteq> None)"
      using z(2) s1 by (cases z; cases "rds = []") auto
    ultimately show ?thesis by (auto split: sum.splits)
  qed
qed simp

lemma sniffer_ends:
  assumes "cr_ok r" "pool_ok p" "200000000 \<le> sum_list (map rd_elapsed rounds)"
  shows "\<exists>res er r' p'. sniffer rmt (NewSniffer env fdns) c metadataOnly Network_TCP rounds r p = Some (Inr ((res, er), r', p'))
    \<and> cr_ok r' \<and> cr_pending r' = cr_pending r \<and> (er = None \<longrightarrow> res \<noteq> None)"
proof -
  obtain b where b: "NewWithSize 32767 = Some b" "payload_ok b" by (simp add: NewWithSize_def payload_ok_def buf_inv_def b_arr_def)
  obtain mres mer sn where m: "SniffMetadata c (NewSniffer env fdns) = Some (mres, mer, sn)" "set sn \<subseteq> set (NewSniffer env fdns)" "mer = None \<longrightarrow> mres \<noteq> None"
    using SniffMetadata_NewSniffer [of c env fdns] by auto
  show ?thesis
  proof (cases metadataOnly)
    case True
    then show ?thesis using b(1) m assms(1) by (simp add: sniffer_def)
  next
    case False
    let ?s = "\<lparr>ss_reader = r, ss_payload = b, ss_sniffers = sn, ss_deadline = 200000000, ss_attempts = 0, ss_pool = p\<rparr>"
    have "list_all (safe_on Network_TCP) sn" using tcp_safe [of env fdns] m(2) by (auto simp: list_all_iff)
    then have "ss_ok ?s" using assms(1,2) b(2) by (simp add: ss_ok_def)
    then obtain x where x: "content_loop rmt c Network_TCP rounds ?s = Some x"
      "case x of Inl s' \<Rightarrow> rounds \<noteq> [] \<longrightarrow> sum_list (map rd_elapsed rounds) < ss_deadline ?s
        | Inr ((res, er), s') \<Rightarrow> ss_ok s' \<and> cr_pending (ss_reader s') = cr_pending (ss_reader ?s) \<and> (er = None \<longrightarrow> res \<noteq> None)"
      using content_loop_ends by blast
    have "rounds \<noteq> []" using assms(3) by auto
    then obtain res er s' where y: "x = Inr ((res, er), s')" "ss_ok s'" "cr_pending (ss_reader s') = cr_pending r" "er = None \<longrightarrow> res \<noteq> None"
      using x(2) assms(3) by (cases x) auto
    obtain fres fer where f: "sniff_result mres mer res er = Some (fres, fer)" "fer = None \<longrightarrow> fres \<noteq> None"
      using m(3) y(4) by (cases mer; cases er) (auto simp: sniff_result_def)
    have "cr_ok (ss_reader s')" using y(2) by (simp add: ss_ok_def)
    then show ?thesis using False b(1) m(1) x(1) y(1,3) f by (simp add: sniffer_def)
  qed
qed

end

section \<open>Properties\<close>

text \<open>The reader of a link over a byte stream, with any schedule of the reading goroutine and of the timers.\<close>

definition fresh_reader :: "conn \<Rightarrow> (bool \<times> bool) list \<Rightarrow> conn TimeoutWrapperReader cachedReader" where
  "fresh_reader c sched = \<lparr>cr_reader = \<lparr>tw_Reader = c, tw_Counter = Some 0, tw_mb = [], tw_err = None, tw_done = chan_nil, tw_sched = sched\<rparr>, cr_cache = []\<rparr>"

definition link_pending :: "conn TimeoutWrapperReader cachedReader \<Rightarrow> byte list" where
  "link_pending r = mcontent (cr_cache r) @ tw_pending (\<lambda>c. concat (chunks c)) (cr_reader r)"

lemma fresh_reader_ok: "length (concat (chunks c)) < 2147483648 \<Longrightarrow>
    conn_single.wrapped.cr_ok (fresh_reader c sched) \<and> conn_single.wrapped.cr_pending (fresh_reader c sched) = concat (chunks c)"
  by (simp add: conn_single.wrapped.cr_ok_def conn_single.wrapped.cr_pending_def fresh_reader_def tw_inv_def tw_pending_def)

text \<open>
  C20. Sniffing does not touch the stream: after any sequence of \<open>Cache\<close> calls and reads, with and without timeout, and any
  schedule of the goroutine that reads ahead, the bytes delivered so far followed by the bytes still to come are the bytes of the
  connection; no call panics.
\<close>

theorem cached_reader_lossless:
  assumes "length (concat (chunks c)) < 2147483648" "pool_ok p" "NewWithSize 32767 = Some b"
  shows "\<exists>out r b' p'. cr_run (TW_ReadMultiBuffer (SingleReader_ReadMultiBuffer conn_read)) (TW_ReadMultiBufferTimeout (SingleReader_ReadMultiBuffer conn_read))
      ops (fresh_reader c sched) b p [] = Some (out, r, b', p') \<and> out @ link_pending r = concat (chunks c)"
proof -
  have "payload_ok b" using assms(3) by (auto simp: NewWithSize_def payload_ok_def buf_inv_def b_arr_def)
  then show ?thesis
    using conn_single.wrapped.cr_run_keeps [of "fresh_reader c sched" b p ops "[]"] fresh_reader_ok [OF assms(1), of sched] assms(2)
    unfolding link_pending_def conn_single.wrapped.cr_pending_def by auto
qed

theorem cached_reader_lossless_witness:
  "\<exists>b out r b' p'. NewWithSize 32767 = Some b
    \<and> cr_run (TW_ReadMultiBuffer (SingleReader_ReadMultiBuffer conn_read)) (TW_ReadMultiBufferTimeout (SingleReader_ReadMultiBuffer conn_read))
      [OpCache 5, OpRead, OpCache 5, OpReadTimeout 1] (fresh_reader \<lparr>chunks = [[1, 2], [3]], closing = EOF\<rparr> [(False, True), (True, True)]) b [] []
      = Some (out, r, b', p') \<and> out @ link_pending r = [1, 2, 3]"
proof -
  obtain b where b: "NewWithSize 32767 = Some b" by (simp add: NewWithSize_def)
  show ?thesis
    using cached_reader_lossless [OF _ _ b, of "\<lparr>chunks = [[1, 2], [3]], closing = EOF\<rparr>" "[]" "[OpCache 5, OpRead, OpCache 5, OpReadTimeout 1]" "[(False, True), (True, True)]"] b
    by (simp add: pool_ok_def)
qed

text \<open>
  Sniffing a TCP connection ends and never panics, whatever bytes arrive: once the rounds of the loop have taken 200 ms in all there
  is a result or an error, a nil error comes with a result, and no byte of the connection is lost or moved.
\<close>

theorem sniffing_ends:
  assumes "length (concat (chunks c)) < 2147483648" "pool_ok p" "200000000 \<le> sum_list (map rd_elapsed rounds)"
  shows "\<exists>res er r p'. sniffer (TW_ReadMultiBufferTimeout (SingleReader_ReadMultiBuffer conn_read)) (NewSniffer env fdns) target metadataOnly
      Network_TCP rounds (fresh_reader c sched) p = Some (Inr ((res, er), r, p'))
    \<and> link_pending r = concat (chunks c) \<and> (er = None \<longrightarrow> res \<noteq> None)"
  using conn_single.wrapped.sniffer_ends [of "fresh_reader c sched" p rounds env fdns target metadataOnly] fresh_reader_ok [OF assms(1), of sched] assms(2,3)
  unfolding link_pending_def conn_single.wrapped.cr_pending_def by fastforce

theorem sniffing_ends_witness:
  "\<exists>res er r p'. sniffer (TW_ReadMultiBufferTimeout (SingleReader_ReadMultiBuffer conn_read))
      (NewSniffer \<lparr>se_lower = id, se_now = 0, se_quic = plain_lib, se_quic_left = id\<rparr> None) (TCPDestination None 80) False
      Network_TCP [\<lparr>rd_done = None, rd_elapsed = 150000000\<rparr>, \<lparr>rd_done = None, rd_elapsed = 50000000\<rparr>] (fresh_reader \<lparr>chunks = [[22], [3]], closing = EOF\<rparr> []) []
      = Some (Inr ((res, er), r, p'))
    \<and> link_pending r = [22, 3] \<and> (er = None \<longrightarrow> res \<noteq> None)"
  using sniffing_ends [of "\<lparr>chunks = [[22], [3]], closing = EOF\<rparr>" "[]" "[\<lparr>rd_done = None, rd_elapsed = 150000000\<rparr>, \<lparr>rd_done = None, rd_elapsed = 50000000\<rparr>]"
      "\<lparr>se_lower = id, se_now = 0, se_quic = plain_lib, se_quic_left = id\<rparr>" None "TCPDestination None 80" False "[]"]
  by (simp add: pool_ok_def)

lemma content_round_plain:
  assumes "content_round rmt c n rd s = Some x" "list_all (plain_on n) (ss_sniffers s)"
  shows "case x of Inl s' \<Rightarrow> list_all (plain_on n) (ss_sniffers s') | Inr ((res, er), s') \<Rightarrow> \<forall>r. res = Some r \<longrightarrow> basic_result r"
proof -
  have sn: "Sniff c n (ss_sniffers s) b = Some (res, er, b', sn') \<Longrightarrow> list_all (plain_on n) sn' \<and> (\<forall>r. res = Some r \<longrightarrow> basic_result r)" for b res er b' sn'
    using Sniff_loop_plain [of n "ss_sniffers s" "[]" "ss_sniffers s" c b res er b' sn'] assms(2) by (simp add: Sniff_def)
  show ?thesis using assms unfolding content_round_def Let_def
    by (auto split: if_splits sum.splits simp: bind_Some_iff dest!: sn)
qed

lemma content_loop_plain:
  "content_loop rmt c n rds s = Some (Inr ((Some res, er), s')) \<Longrightarrow> list_all (plain_on n) (ss_sniffers s) \<Longrightarrow> basic_result res"
proof (induction rds arbitrary: s)
  case (Cons rd rds)
  then obtain x where x: "content_round rmt c n rd s = Some x" by (auto simp: bind_Some_iff)
  show ?case
  proof (cases x)
    case (Inl s1)
    then show ?thesis using content_round_plain [OF x Cons.prems(2)] Cons.IH [of s1] Cons.prems(1) x by simp
  next
    case (Inr y)
    then show ?thesis using content_round_plain [OF x Cons.prems(2)] Cons.prems(1) x by simp
  qed
qed simp

text \<open>The results the loop can have: those of one sniffer, or of the fake DNS, alone or in front of one sniffer.\<close>

lemma sniffer_results:
  assumes "network \<noteq> Network_Unknown" "sniffer rmt (NewSniffer env fdns) target metadataOnly network rounds r p = Some (Inr ((Some res, er), r', p'))"
  shows "basic_result res \<or> fdns \<noteq> None \<and> (\<exists>d. res = fakeDNSSniffResult d \<or> (\<exists>q. res = compositeResult (fakeDNSSniffResult d) q \<and> basic_result q))"
proof -
  obtain mres mer sn where m: "SniffMetadata target (NewSniffer env fdns) = Some (mres, mer, sn)" "set sn \<subseteq> set (NewSniffer env fdns)"
    "mer = None \<longrightarrow> (\<exists>d. mres = Some (fakeDNSSniffResult d))" "mer \<noteq> None \<longrightarrow> mres = None" "mer = None \<longrightarrow> fdns \<noteq> None"
    using SniffMetadata_NewSniffer [of target env fdns] by blast
  have sn: "list_all (plain_on network) sn" using plain_NewSniffer [OF assms(1), of env fdns] m(2) by (auto simp: list_all_iff)
  show ?thesis
  proof (cases metadataOnly)
    case True
    then show ?thesis using assms(2) m by (cases mer) (auto simp: sniffer_def bind_Some_iff)
  next
    case False
    then obtain s x where x: "content_loop rmt target network rounds s = Some x" "ss_sniffers s = sn"
      "(case x of Inl s \<Rightarrow> Some (Inl s)
         | Inr ((contentResult, contentErr), s) \<Rightarrow>
             map_option (\<lambda>y. Inr (y, ss_reader s, snd (Release (Some (ss_payload s)) (ss_pool s)))) (sniff_result mres mer contentResult contentErr))
       = Some (Inr ((Some res, er), r', p'))"
      using assms(2) m(1) unfolding sniffer_def by (auto simp only: bind_Some_iff prod.case if_False sniff_state.simps)
    then obtain cres cer s' where c: "content_loop rmt target network rounds s = Some (Inr ((cres, cer), s'))" "ss_sniffers s = sn"
      "sniff_result mres mer cres cer = Some (Some res, er)" by (cases x) auto
    have "\<forall>x. cres = Some x \<longrightarrow> basic_result x" using content_loop_plain [of rmt target network rounds s] c(1,2) sn by blast
    then show ?thesis using c(3) m(3-5)
      by (cases mer; cases cer) (auto simp: sniff_result_def CompositeResult_def bind_Some_iff)
  qed
qed

text \<open>
  The sniffer \<open>fakedns+others\<close> is never asked: it is not a metadata sniffer, and its network is the zero value, which no
  connection has. No result of the sniffing loop carries its name or answers \<open>IsProtoSubsetOf\<close>.
\<close>

theorem fakedns_others_never_runs:
  assumes "network \<noteq> Network_Unknown" "sniffer rmt (NewSniffer env fdns) target metadataOnly network rounds r p = Some (Inr ((Some res, er), r', p'))"
  shows "SR_Protocol res \<noteq> str ''fakedns+others'' \<and> (\<forall>name. IsProtoSubsetOf res name = None)"
proof -
  have "basic_result x \<Longrightarrow> SR_Protocol x \<noteq> str ''fakedns+others'' \<and> (\<forall>name. IsProtoSubsetOf x name = None)" for x
    by (cases x) (simp_all add: str_def)
  moreover have "SR_Protocol (fakeDNSSniffResult d) \<noteq> str ''fakedns+others''" for d by (simp add: str_def)
  ultimately show ?thesis using sniffer_results [OF assms] by auto
qed

theorem fakedns_others_never_runs_witness:
  "let env = \<lparr>se_lower = id, se_now = 0, se_quic = plain_lib, se_quic_left = id\<rparr>;
       eng = \<lparr>GetDomainFromFakeDNS = (\<lambda>_. str ''a.de''), IsIPInIPPool = Some (\<lambda>_. True)\<rparr>;
       res = fakeDNSSniffResult (str ''a.de''); r = \<lparr>cr_reader = (), cr_cache = []\<rparr>
   in sniffer (\<lambda>_ _ _. None) (NewSniffer env (Some eng)) (TCPDestination None 80) True Network_TCP [] r [] = Some (Inr ((Some res, None), r, []))
     \<and> SR_Protocol res \<noteq> str ''fakedns+others'' \<and> (\<forall>name. IsProtoSubsetOf res name = None)"
proof -
  let ?env = "\<lparr>se_lower = id, se_now = 0, se_quic = plain_lib, se_quic_left = id\<rparr>"
  let ?eng = "\<lparr>GetDomainFromFakeDNS = (\<lambda>_. str ''a.de''), IsIPInIPPool = Some (\<lambda>_. True)\<rparr>"
  let ?res = "fakeDNSSniffResult (str ''a.de'')" and ?r = "\<lparr>cr_reader = (), cr_cache = []\<rparr>"
  have "str ''a.de'' \<noteq> []" by (simp add: str_def)
  then have "sniffer (\<lambda>_ _ _. None) (NewSniffer ?env (Some ?eng)) (TCPDestination None 80) True Network_TCP [] ?r [] = Some (Inr ((Some ?res, None), ?r, []))"
    by (simp add: sniffer_def NewWithSize_def NewSniffer_def basic_sniffers_def newFakeDNSSniffer_def newFakeDNSThenOthers_def SniffMetadata_def
        TCPDestination_def Let_def Release_def Size_def)
  from fakedns_others_never_runs [OF _ this] this show ?thesis by (simp add: Let_def)
qed

end
