(* ===== verification/Outbound_Manager.thy ===== *)
theory Outbound_Manager
  imports Sniff_Loop "HOL-Library.AList" "HOL-Library.List_Lexorder"
begin

text \<open>
  \<open>app/proxyman/outbound/outbound.go\<close>: the manager of the outbound handlers. A handler is its identity and its tag; what its
  \<open>Start\<close> and \<open>Close\<close> return is an argument. Go maps are association lists with distinct keys, whose order stands for the order of iteration.
\<close>

section \<open>Operations\<close>

record Handler =
  h_id :: nat
  h_Tag :: gostring

record Manager =
  om_defaultHandler :: "Handler option"
  om_taggedHandler :: "(gostring \<times> Handler) list"
  om_untaggedHandlers :: "Handler list"
  om_running :: bool
  om_tagsCache :: "(gostring \<times> gostring list) list"

definition OM_New :: Manager where
  "OM_New = \<lparr>om_defaultHandler = None, om_taggedHandler = [], om_untaggedHandlers = [], om_running = False, om_tagsCache = []\<rparr>"

text \<open>The loops of \<open>Start\<close> stop at the first error; \<open>Close\<close> joins all errors.\<close>

fun start_all :: "(Handler \<Rightarrow> goerr option) \<Rightarrow> Handler list \<Rightarrow> goerr option" where
  "start_all start [] = None"
| "start_all start (h # hs) = (case start h of Some e \<Rightarrow> Some e | None \<Rightarrow> start_all start hs)"

definition OM_Start :: "(Handler \<Rightarrow> goerr option) \<Rightarrow> Manager \<Rightarrow> goerr option \<times> Manager" where
  "OM_Start start m = (start_all start (map snd (om_taggedHandler m) @ om_untaggedHandlers m), m\<lparr>om_running := True\<rparr>)"

definition OM_Close :: "(Handler \<Rightarrow> goerr option) \<Rightarrow> Manager \<Rightarrow> goerr list \<times> Manager" where
  "OM_Close close m = (List.map_filter close (map snd (om_taggedHandler m) @ om_untaggedHandlers m), m\<lparr>om_running := False\<rparr>)"

definition GetDefaultHandler :: "Manager \<Rightarrow> Handler option" where
  "GetDefaultHandler m = om_defaultHandler m"

definition GetHandler :: "Manager \<Rightarrow> gostring \<Rightarrow> Handler option" where
  "GetHandler m tag = map_of (om_taggedHandler m) tag"

definition AddHandler :: "(Handler \<Rightarrow> goerr option) \<Rightarrow> Manager \<Rightarrow> Handler \<Rightarrow> goerr option \<times> Manager" where
  "AddHandler start m h =
     (let m1 = m\<lparr>om_tagsCache := [], om_defaultHandler := (case om_defaultHandler m of None \<Rightarrow> Some h | Some d \<Rightarrow> Some d)\<rparr>
      in if h_Tag h \<noteq> [] \<and> map_of (om_taggedHandler m1) (h_Tag h) \<noteq> None
         then (Some (ENew ''existing tag found: '' None), m1)
         else let m2 = (if h_Tag h \<noteq> [] then m1\<lparr>om_taggedHandler := AList.update (h_Tag h) h (om_taggedHandler m1)\<rparr>
                        else m1\<lparr>om_untaggedHandlers := om_untaggedHandlers m1 @ [h]\<rparr>)
           in (if om_running m2 then start h else None, m2))"

definition RemoveHandler :: "Manager \<Rightarrow> gostring \<Rightarrow> goerr option \<times> Manager" where
  "RemoveHandler m tag =
     (if tag = [] then (Some ErrNoClue, m)
      else (None, m\<lparr>om_tagsCache := [], om_taggedHandler := AList.delete tag (om_taggedHandler m),
             om_defaultHandler := (case om_defaultHandler m of Some d \<Rightarrow> if h_Tag d = tag then None else Some d | None \<Rightarrow> None)\<rparr>))"

definition ListHandlers :: "Manager \<Rightarrow> Handler list" where
  "ListHandlers m = om_untaggedHandlers m @ map snd (om_taggedHandler m)"

text \<open>\<open>Select\<close>: the tags with one of the prefixes, sorted; the result is kept under the joined selectors.\<close>

definition select_tags :: "Manager \<Rightarrow> gostring list \<Rightarrow> gostring list" where
  "select_tags m selectors = sort (filter (\<lambda>tag. list_ex (HasPrefix tag) selectors) (map fst (om_taggedHandler m)))"

definition Select :: "Manager \<Rightarrow> gostring list \<Rightarrow> gostring list \<times> Manager" where
  "Select m selectors =
     (let key = join [44] selectors
      in case map_of (om_tagsCache m) key of
           Some tags \<Rightarrow> (tags, m)
         | None \<Rightarrow> (select_tags m selectors, m\<lparr>om_tagsCache := AList.update key (select_tags m selectors) (om_tagsCache m)\<rparr>))"

section \<open>Invariant\<close>

text \<open>Tags are distinct and nonempty, every handler is filed under its own tag, and the untagged ones have none.\<close>

definition om_inv :: "Manager \<Rightarrow> bool" where
  "om_inv m \<longleftrightarrow> distinct (map fst (om_taggedHandler m)) \<and> (\<forall>(t, h) \<in> set (om_taggedHandler m). t \<noteq> [] \<and> h_Tag h = t)
     \<and> (\<forall>h \<in> set (om_untaggedHandlers m). h_Tag h = [])"

lemma om_inv_New: "om_inv OM_New"
  by (simp add: om_inv_def OM_New_def)

lemma set_update_AList: "map_of al k = None \<Longrightarrow> AList.update k v al = al @ [(k, v)]"
  by (induction al) auto

lemma AddHandler_inv: "om_inv m \<Longrightarrow> om_inv (snd (AddHandler start m h))"
  by (auto simp: om_inv_def AddHandler_def Let_def set_update_AList map_of_eq_None_iff)

lemma RemoveHandler_inv: "om_inv m \<Longrightarrow> om_inv (snd (RemoveHandler m t))"
  by (auto simp: om_inv_def RemoveHandler_def AList.delete_eq distinct_map_filter)

section \<open>A directory of handlers\<close>

text \<open>What the manager promises: a partial map from tags to handlers, and the untagged handlers in order.\<close>

definition om_abs :: "Manager \<Rightarrow> (gostring \<rightharpoonup> Handler) \<times> Handler list" where
  "om_abs m = (map_of (om_taggedHandler m), om_untaggedHandlers m)"

definition dir_add :: "Handler \<Rightarrow> (gostring \<rightharpoonup> Handler) \<times> Handler list \<Rightarrow> (gostring \<rightharpoonup> Handler) \<times> Handler list" where
  "dir_add h d = (if h_Tag h = [] then (fst d, snd d @ [h]) else if fst d (h_Tag h) = None then ((fst d)(h_Tag h \<mapsto> h), snd d) else d)"

definition dir_remove :: "gostring \<Rightarrow> (gostring \<rightharpoonup> Handler) \<times> Handler list \<Rightarrow> (gostring \<rightharpoonup> Handler) \<times> Handler list" where
  "dir_remove t d = (if t = [] then d else ((fst d)(t := None), snd d))"

lemma AddHandler_abs:
  "om_abs (snd (AddHandler start m h)) = dir_add h (om_abs m)"
  "fst (AddHandler start m h) = (if h_Tag h \<noteq> [] \<and> fst (om_abs m) (h_Tag h) \<noteq> None then Some (ENew ''existing tag found: '' None)
     else if om_running m then start h else None)"
  by (auto simp: om_abs_def dir_add_def AddHandler_def Let_def update_conv')

lemma RemoveHandler_abs:
  "om_abs (snd (RemoveHandler m t)) = dir_remove t (om_abs m)" "fst (RemoveHandler m t) = (if t = [] then Some ErrNoClue else None)"
  by (auto simp: om_abs_def dir_remove_def RemoveHandler_def delete_conv')

section \<open>Selection\<close>

text \<open>Selectors that the cache can tell apart: the key joins them with commas.\<close>

definition plain_selectors :: "gostring list \<Rightarrow> bool" where
  "plain_selectors sel \<longleftrightarrow> sel \<noteq> [] \<and> (\<forall>s \<in> set sel. 44 \<notin> set s)"

definition cache_ok :: "Manager \<Rightarrow> bool" where
  "cache_ok m \<longleftrightarrow> (\<forall>key tags. map_of (om_tagsCache m) key = Some tags \<longrightarrow> (\<exists>sel. plain_selectors sel \<and> key = join [44] sel \<and> tags = select_tags m sel))"

lemma cache_ok_Select: "cache_ok m \<Longrightarrow> plain_selectors sel \<Longrightarrow> cache_ok (snd (Select m sel))"
  by (auto simp: cache_ok_def Select_def Let_def select_tags_def update_conv' split: option.splits)

lemma join_first:
  assumes "\<forall>s \<in> set (x # xs). c \<notin> set s"
  shows "takeWhile (\<lambda>z. z \<noteq> c) (join [c] (x # xs)) = x \<and> dropWhile (\<lambda>z. z \<noteq> c) (join [c] (x # xs)) = (if xs = [] then [] else c # join [c] xs)"
proof -
  have x: "\<And>z. z \<in> set x \<Longrightarrow> z \<noteq> c" using assms by auto
  have "takeWhile (\<lambda>z. z \<noteq> c) (x @ ys) = x @ takeWhile (\<lambda>z. z \<noteq> c) ys" "dropWhile (\<lambda>z. z \<noteq> c) (x @ ys) = dropWhile (\<lambda>z. z \<noteq> c) ys" for ys
    using x takeWhile_append2 [of x "\<lambda>z. z \<noteq> c" ys] dropWhile_append2 [of x "\<lambda>z. z \<noteq> c" ys] by blast+
  from this [of "c # join [c] xs"] this [of "[]"] show ?thesis by (cases xs) simp_all
qed

lemma join_inj: "plain_selectors xs \<Longrightarrow> plain_selectors ys \<Longrightarrow> join [44] xs = join [44] ys \<Longrightarrow> xs = ys"
proof (induction xs arbitrary: ys)
  case (Cons x xs)
  obtain y ys' where y: "ys = y # ys'" using Cons.prems(2) by (cases ys) (auto simp: plain_selectors_def)
  have p: "\<forall>s \<in> set (x # xs). 44 \<notin> set s" "\<forall>s \<in> set (y # ys'). 44 \<notin> set s" using Cons.prems y by (simp_all add: plain_selectors_def)
  have t: "x = y" "(if xs = [] then [] else 44 # join [44] xs) = (if ys' = [] then [] else 44 # join [44] ys')"
    using join_first [OF p(1)] join_first [OF p(2)] Cons.prems(3) y by metis+
  show ?case
  proof (cases "xs = []")
    case True
    then show ?thesis using t y by (simp split: if_splits)
  next
    case False
    then have "ys' \<noteq> []" "join [44] xs = join [44] ys'" using t(2) by (auto split: if_splits)
    then show ?thesis using Cons.IH [of ys'] p False t(1) y by (simp add: plain_selectors_def)
  qed
qed (simp add: plain_selectors_def)

lemma Select_fresh: "cache_ok m \<Longrightarrow> plain_selectors sel \<Longrightarrow> fst (Select m sel) = select_tags m sel"
proof (cases "map_of (om_tagsCache m) (join [44] sel)")
  case (Some tags)
  assume a: "cache_ok m" "plain_selectors sel"
  then obtain s where "plain_selectors s" "join [44] sel = join [44] s" "tags = select_tags m s" using Some unfolding cache_ok_def by blast
  then show ?thesis using join_inj [OF a(2)] Some by (simp add: Select_def)
qed (simp add: Select_def)

section \<open>Runs\<close>

datatype om_op = OpAdd Handler | OpRemove gostring | OpSelect "gostring list"

fun om_step :: "(Handler \<Rightarrow> goerr option) \<Rightarrow> om_op \<Rightarrow> Manager \<Rightarrow> Manager" where
  "om_step start (OpAdd h) m = snd (AddHandler start m h)"
| "om_step start (OpRemove t) m = snd (RemoveHandler m t)"
| "om_step start (OpSelect sel) m = snd (Select m sel)"

fun dir_step :: "om_op \<Rightarrow> (gostring \<rightharpoonup> Handler) \<times> Handler list \<Rightarrow> (gostring \<rightharpoonup> Handler) \<times> Handler list" where
  "dir_step (OpAdd h) d = dir_add h d"
| "dir_step (OpRemove t) d = dir_remove t d"
| "dir_step (OpSelect sel) d = d"

fun op_ok :: "om_op \<Rightarrow> bool" where
  "op_ok (OpSelect sel) = plain_selectors sel"
| "op_ok _ = True"

lemma om_step_ok:
  assumes "om_inv m" "cache_ok m" "op_ok x"
  shows "om_inv (om_step start x m) \<and> cache_ok (om_step start x m) \<and> om_abs (om_step start x m) = dir_step x (om_abs m)"
proof (cases x)
  case (OpAdd h)
  have "cache_ok (snd (AddHandler start m h))" by (auto simp: cache_ok_def AddHandler_def Let_def)
  then show ?thesis using OpAdd assms AddHandler_inv AddHandler_abs(1) by simp
next
  case (OpRemove t)
  have "cache_ok (snd (RemoveHandler m t))" using assms(2) by (auto simp: cache_ok_def RemoveHandler_def)
  then show ?thesis using OpRemove assms RemoveHandler_inv RemoveHandler_abs(1) by simp
next
  case (OpSelect sel)
  have "om_inv (snd (Select m sel))" "om_abs (snd (Select m sel)) = om_abs m"
    using assms(1) by (auto simp: om_inv_def om_abs_def Select_def Let_def split: option.splits)
  then show ?thesis using OpSelect assms cache_ok_Select by simp
qed

lemma om_run_ok:
  "list_all op_ok ops \<Longrightarrow> om_inv m \<Longrightarrow> cache_ok m \<Longrightarrow>
    om_inv (fold (om_step start) ops m) \<and> cache_ok (fold (om_step start) ops m) \<and> om_abs (fold (om_step start) ops m) = fold dir_step ops (om_abs m)"
proof (induction ops arbitrary: m)
  case (Cons x xs)
  then show ?case using om_step_ok [of m x start] Cons.IH [of "om_step start x m"] by simp
qed simp

section \<open>Properties\<close>

text \<open>
  C19. After any sequence of additions, removals and selections, looking a handler up by its tag and listing the handlers answers as a
  directory that refuses a second handler with the same tag, and \<open>Select\<close> gives the sorted tags with one of the prefixes, also when
  it answers from its cache. (Selectors with a comma are left out: the cache key joins the selectors with commas.)
\<close>

theorem manager_refines_directory:
  assumes "list_all op_ok ops" "plain_selectors sel"
  shows "let m = fold (om_step start) ops OM_New; d = fold dir_step ops (Map.empty, [])
     in GetHandler m t = fst d t \<and> set (ListHandlers m) = set (snd d) \<union> ran (fst d)
      \<and> fst (Select m sel) = sorted_list_of_set {tag \<in> dom (fst d). \<exists>s \<in> set sel. HasPrefix tag s}"
proof -
  define m where "m = fold (om_step start) ops OM_New"
  have "cache_ok OM_New" "om_abs OM_New = (Map.empty, [])" by (simp_all add: cache_ok_def OM_New_def om_abs_def)
  then have r: "om_inv m" "cache_ok m" "fold dir_step ops (Map.empty, []) = om_abs m"
    using om_run_ok [OF assms(1) om_inv_New, of start] by (simp_all add: m_def)
  have d: "distinct (map fst (om_taggedHandler m))" using r(1) by (simp add: om_inv_def)
  have l: "set (ListHandlers m) = set (snd (om_abs m)) \<union> ran (fst (om_abs m))" using d by (auto simp: ListHandlers_def om_abs_def ran_distinct)
  have "select_tags m sel = sorted_list_of_set {tag \<in> dom (fst (om_abs m)). \<exists>s \<in> set sel. HasPrefix tag s}"
  proof (rule sorted_distinct_set_unique)
    have "set (map fst (om_taggedHandler m)) = dom (map_of (om_taggedHandler m))" by (auto simp: dom_map_of_conv_image_fst)
    moreover have "finite (dom (map_of (om_taggedHandler m)))" by (rule finite_dom_map_of)
    ultimately show "set (select_tags m sel) = set (sorted_list_of_set {tag \<in> dom (fst (om_abs m)). \<exists>s \<in> set sel. HasPrefix tag s})"
      by (auto simp: select_tags_def om_abs_def list_ex_iff)
  qed (use d in \<open>simp_all add: select_tags_def distinct_filter\<close>)
  then show ?thesis using l Select_fresh [OF r(2) assms(2)] unfolding Let_def m_def [symmetric] r(3) by (simp add: GetHandler_def om_abs_def)
qed

theorem manager_refines_directory_witness:
  "let ops = [OpAdd \<lparr>h_id = 1, h_Tag = [97]\<rparr>, OpAdd \<lparr>h_id = 2, h_Tag = [98]\<rparr>, OpSelect [[97]], OpRemove [97]];
       m = fold (om_step (\<lambda>_. None)) ops OM_New
   in GetHandler m [98] = Some \<lparr>h_id = 2, h_Tag = [98]\<rparr> \<and> GetHandler m [97] = None"
proof -
  have p: "plain_selectors [[97]]" by (simp add: plain_selectors_def)
  show ?thesis
    using manager_refines_directory [OF _ p, of "[OpAdd \<lparr>h_id = 1, h_Tag = [97]\<rparr>, OpAdd \<lparr>h_id = 2, h_Tag = [98]\<rparr>, OpSelect [[97]], OpRemove [97]]" "\<lambda>_. None" "[98]"]
      manager_refines_directory [OF _ p, of "[OpAdd \<lparr>h_id = 1, h_Tag = [97]\<rparr>, OpAdd \<lparr>h_id = 2, h_Tag = [98]\<rparr>, OpSelect [[97]], OpRemove [97]]" "\<lambda>_. None" "[97]"] p
    by (simp add: Let_def dir_add_def dir_remove_def)
qed

text \<open>
  A handler that \<open>AddHandler\<close> refuses because its tag is taken becomes the default handler all the same if there is none at
  that moment (for instance because the default handler was removed); it is in no list and was never started.
\<close>

theorem refused_handler_becomes_default:
  assumes "om_defaultHandler m = None" "h_Tag h \<noteq> []" "GetHandler m (h_Tag h) \<noteq> None" "h \<notin> set (ListHandlers m)"
  shows "\<exists>e m'. AddHandler start m h = (Some e, m') \<and> GetDefaultHandler m' = Some h \<and> h \<notin> set (ListHandlers m') \<and> GetHandler m' (h_Tag h) \<noteq> Some h"
proof -
  have "GetHandler m (h_Tag h) \<noteq> Some h"
    using assms(4) by (auto simp: GetHandler_def ListHandlers_def dest!: map_of_SomeD) (metis image_eqI snd_conv)
  then show ?thesis using assms by (auto simp: AddHandler_def Let_def GetHandler_def GetDefaultHandler_def ListHandlers_def)
qed

theorem refused_handler_becomes_default_witness:
  "let m = fold (om_step (\<lambda>_. None)) [OpAdd \<lparr>h_id = 1, h_Tag = [97]\<rparr>, OpAdd \<lparr>h_id = 2, h_Tag = [98]\<rparr>, OpRemove [97]] OM_New
   in \<exists>e m'. AddHandler (\<lambda>_. None) m \<lparr>h_id = 3, h_Tag = [98]\<rparr> = (Some e, m') \<and> GetDefaultHandler m' = Some \<lparr>h_id = 3, h_Tag = [98]\<rparr>
      \<and> GetHandler m' [98] \<noteq> Some \<lparr>h_id = 3, h_Tag = [98]\<rparr>"
proof -
  let ?m = "fold (om_step (\<lambda>_. None)) [OpAdd \<lparr>h_id = 1, h_Tag = [97]\<rparr>, OpAdd \<lparr>h_id = 2, h_Tag = [98]\<rparr>, OpRemove [97]] OM_New"
  have "om_defaultHandler ?m = None" "GetHandler ?m [98] \<noteq> None" "\<lparr>h_id = 3, h_Tag = [98]\<rparr> \<notin> set (ListHandlers ?m)" by code_simp+
  then show ?thesis using refused_handler_becomes_default [of ?m "\<lparr>h_id = 3, h_Tag = [98]\<rparr>" "\<lambda>_. None"] unfolding Let_def by auto
qed

end
