(* ===== verification/Policy.thy ===== *)
theory Policy
  imports Net_Text "HOL-Library.AList"
begin

text \<open>
  Policies by user level: \<open>features/policy/policy.go\<close> (the defaults, with the size of the connection buffer taken from the environment) and
  \<open>app/policy\<close> (\<open>config.go\<close>, \<open>manager.go\<close>). Durations are nanoseconds; a nil message of the configuration is \<open>None\<close>.
\<close>

section \<open>Defaults\<close>

record Timeout =
  to_Handshake :: int
  to_ConnectionIdle :: int
  to_UplinkOnly :: int
  to_DownlinkOnly :: int

record Stats =
  st_UserUplink :: bool
  st_UserDownlink :: bool
  st_UserOnline :: bool

record Session_policy =
  sp_Timeouts :: Timeout
  sp_Stats :: Stats
  sp_Buffer :: int

definition ParseInt32 :: "gostring \<Rightarrow> int option" where
  "ParseInt32 s = (case Atoi s of None \<Rightarrow> None | Some v \<Rightarrow> if - 2147483648 \<le> v \<and> v < 2147483648 then Some v else None)"

definition default_size :: "gostring \<Rightarrow> int" where
  "default_size raw = (if raw \<noteq> [] then (case ParseInt32 raw of Some v \<Rightarrow> v | None \<Rightarrow> -17) else -17)"

definition defaultBufferSize :: "gostring \<Rightarrow> gostring \<Rightarrow> int" where
  "defaultBufferSize GOARCH raw =
     (let sz = default_size raw
      in if sz = 0 then -1
         else if sz = -17 then
           (if GOARCH \<in> set [str ''arm'', str ''mips'', str ''mipsle''] then 0
            else if GOARCH \<in> set [str ''arm64'', str ''mips64'', str ''mips64le''] then 4 * 1024
            else 512 * 1024)
         else i32 (i32 (i32 sz * 1024) * 1024))"

definition SessionDefault :: "int \<Rightarrow> Session_policy" where
  "SessionDefault bufferSize =
     \<lparr>sp_Timeouts = \<lparr>to_Handshake = 60000000000, to_ConnectionIdle = 300000000000, to_UplinkOnly = 1000000000, to_DownlinkOnly = 1000000000\<rparr>,
      sp_Stats = \<lparr>st_UserUplink = False, st_UserDownlink = False, st_UserOnline = False\<rparr>,
      sp_Buffer = bufferSize\<rparr>"

section \<open>Configured levels\<close>

text \<open>The messages of the configuration; a \<open>Second\<close> is its 32-bit value.\<close>

type_synonym Second = "32 word"

record Policy_Timeout =
  pt_Handshake :: "Second option"
  pt_ConnectionIdle :: "Second option"
  pt_UplinkOnly :: "Second option"
  pt_DownlinkOnly :: "Second option"

record Policy =
  pl_Timeout :: "Policy_Timeout option"
  pl_Stats :: "Stats option"
  pl_Buffer :: "int option"

definition Duration :: "Second option \<Rightarrow> int" where
  "Duration s = (case s of None \<Rightarrow> 0 | Some v \<Rightarrow> 1000000000 * uint v)"

definition seconds :: "int \<Rightarrow> Second option" where
  "seconds d = Some (word_of_int (d div 1000000000))"

definition defaultPolicy :: "int \<Rightarrow> Policy" where
  "defaultPolicy bufferSize =
     (let p = SessionDefault bufferSize
      in \<lparr>pl_Timeout = Some \<lparr>pt_Handshake = seconds (to_Handshake (sp_Timeouts p)), pt_ConnectionIdle = seconds (to_ConnectionIdle (sp_Timeouts p)),
            pt_UplinkOnly = seconds (to_UplinkOnly (sp_Timeouts p)), pt_DownlinkOnly = seconds (to_DownlinkOnly (sp_Timeouts p))\<rparr>,
          pl_Stats = None, pl_Buffer = Some (sp_Buffer p)\<rparr>)"

definition Timeout_overrideWith :: "Policy_Timeout \<Rightarrow> Policy_Timeout \<Rightarrow> Policy_Timeout" where
  "Timeout_overrideWith p another =
     (let p1 = (if pt_Handshake another \<noteq> None then p\<lparr>pt_Handshake := pt_Handshake another\<rparr> else p);
          p2 = (if pt_ConnectionIdle another \<noteq> None then p1\<lparr>pt_ConnectionIdle := pt_ConnectionIdle another\<rparr> else p1);
          p3 = (if pt_UplinkOnly another \<noteq> None then p2\<lparr>pt_UplinkOnly := pt_UplinkOnly another\<rparr> else p2)
      in if pt_DownlinkOnly another \<noteq> None then p3\<lparr>pt_DownlinkOnly := pt_DownlinkOnly another\<rparr> else p3)"

text \<open>A nil \<open>Timeout\<close> of the receiver panics.\<close>

definition Policy_overrideWith :: "Policy \<Rightarrow> Policy \<Rightarrow> Policy option" where
  "Policy_overrideWith p another =
     Option.bind (case pl_Timeout another of
         None \<Rightarrow> Some p
       | Some t \<Rightarrow> map_option (\<lambda>pt. p\<lparr>pl_Timeout := Some (Timeout_overrideWith pt t)\<rparr>) (pl_Timeout p)) (\<lambda>p1.
       let p2 = (if pl_Stats another \<noteq> None \<and> pl_Stats p1 = None then p1\<lparr>pl_Stats := pl_Stats another\<rparr> else p1)
       in Some (if pl_Buffer another \<noteq> None then p2\<lparr>pl_Buffer := pl_Buffer another\<rparr> else p2))"

definition ToCorePolicy :: "int \<Rightarrow> Policy \<Rightarrow> Session_policy" where
  "ToCorePolicy bufferSize p =
     (let cp = SessionDefault bufferSize;
          cp1 = (case pl_Timeout p of
                   None \<Rightarrow> cp
                 | Some t \<Rightarrow> cp\<lparr>sp_Timeouts := \<lparr>to_Handshake = Duration (pt_Handshake t), to_ConnectionIdle = Duration (pt_ConnectionIdle t),
                     to_UplinkOnly = Duration (pt_UplinkOnly t), to_DownlinkOnly = Duration (pt_DownlinkOnly t)\<rparr>\<rparr>);
          cp2 = (case pl_Stats p of
                   None \<Rightarrow> cp1
                 | Some s \<Rightarrow> cp1\<lparr>sp_Stats := \<lparr>st_UserUplink = st_UserUplink s, st_UserDownlink = st_UserDownlink s, st_UserOnline = st_UserOnline s\<rparr>\<rparr>)
      in case pl_Buffer p of None \<Rightarrow> cp2 | Some b \<Rightarrow> cp2\<lparr>sp_Buffer := b\<rparr>)"

text \<open>\<open>New\<close> over the levels of the configuration, a Go map.\<close>

fun new_levels :: "int \<Rightarrow> (32 word \<times> Policy) list \<Rightarrow> (32 word \<times> Policy) list \<Rightarrow> ((32 word \<times> Policy) list) option" where
  "new_levels bufferSize [] levels = Some levels"
| "new_levels bufferSize ((lv, p) # cs) levels =
     Option.bind (Policy_overrideWith (defaultPolicy bufferSize) p) (\<lambda>pp. new_levels bufferSize cs (AList.update lv pp levels))"

definition ForLevel :: "int \<Rightarrow> (32 word \<times> Policy) list \<Rightarrow> 32 word \<Rightarrow> Session_policy" where
  "ForLevel bufferSize levels level =
     (case map_of levels level of Some p \<Rightarrow> ToCorePolicy bufferSize p | None \<Rightarrow> SessionDefault bufferSize)"

record SystemStats =
  sy_InboundUplink :: bool
  sy_InboundDownlink :: bool
  sy_OutboundUplink :: bool
  sy_OutboundDownlink :: bool

text \<open>The system policy with its \<open>Stats\<close>, both possibly nil; a configured system policy without \<open>Stats\<close> panics.\<close>

definition ForSystem :: "SystemStats option option \<Rightarrow> SystemStats option" where
  "ForSystem system =
     (case system of
        None \<Rightarrow> Some \<lparr>sy_InboundUplink = False, sy_InboundDownlink = False, sy_OutboundUplink = False, sy_OutboundDownlink = False\<rparr>
      | Some stats \<Rightarrow> stats)"

section \<open>Properties\<close>

lemma Duration_seconds: "0 \<le> d \<Longrightarrow> d < 4294967296 \<Longrightarrow> Duration (seconds (1000000000 * d)) = 1000000000 * d"
  by (simp add: Duration_def seconds_def uint_word_of_int)

lemma override_default:
  "Policy_overrideWith (defaultPolicy bufferSize) p = Some
     \<lparr>pl_Timeout = Some (case pl_Timeout p of None \<Rightarrow> the (pl_Timeout (defaultPolicy bufferSize))
        | Some t \<Rightarrow> Timeout_overrideWith (the (pl_Timeout (defaultPolicy bufferSize))) t),
      pl_Stats = pl_Stats p, pl_Buffer = (case pl_Buffer p of None \<Rightarrow> Some bufferSize | Some b \<Rightarrow> Some b)\<rparr>"
  by (auto simp: Policy_overrideWith_def defaultPolicy_def SessionDefault_def Let_def split: option.splits)

lemma new_levels_ok:
  "distinct (map fst cs) \<Longrightarrow> \<exists>ls. new_levels bufferSize cs levels = Some ls
     \<and> (\<forall>lv. map_of ls lv = (case map_of cs lv of None \<Rightarrow> map_of levels lv | Some p \<Rightarrow> Policy_overrideWith (defaultPolicy bufferSize) p))"
proof (induction cs arbitrary: levels)
  case (Cons c cs)
  obtain lv p where c: "c = (lv, p)" by (cases c) auto
  obtain pp where pp: "Policy_overrideWith (defaultPolicy bufferSize) p = Some pp" using override_default by blast
  obtain ls where ls: "new_levels bufferSize cs (AList.update lv pp levels) = Some ls"
    "\<And>l. map_of ls l = (case map_of cs l of None \<Rightarrow> map_of (AList.update lv pp levels) l | Some p \<Rightarrow> Policy_overrideWith (defaultPolicy bufferSize) p)"
    using Cons.IH [of "AList.update lv pp levels"] Cons.prems by (simp only: list.map distinct.simps) blast
  have "map_of cs lv = None" using Cons.prems c by (simp add: map_of_eq_None_iff)
  then show ?case using c pp ls by (auto simp: update_conv' split: option.splits)
qed simp

text \<open>The value that a set option has, or the default; the timeouts of a policy, if it sets any.\<close>

definition set_or :: "Second option \<Rightarrow> int \<Rightarrow> int" where
  "set_or s d = (case s of None \<Rightarrow> d | Some v \<Rightarrow> 1000000000 * uint v)"

definition set_timeouts :: "Policy \<Rightarrow> Policy_Timeout" where
  "set_timeouts p = (case pl_Timeout p of Some t \<Rightarrow> t
     | None \<Rightarrow> \<lparr>pt_Handshake = None, pt_ConnectionIdle = None, pt_UplinkOnly = None, pt_DownlinkOnly = None\<rparr>)"

definition configured :: "int \<Rightarrow> Policy \<Rightarrow> Session_policy" where
  "configured bufferSize p =
     (let t = set_timeouts p
      in \<lparr>sp_Timeouts = \<lparr>to_Handshake = set_or (pt_Handshake t) 60000000000, to_ConnectionIdle = set_or (pt_ConnectionIdle t) 300000000000,
            to_UplinkOnly = set_or (pt_UplinkOnly t) 1000000000, to_DownlinkOnly = set_or (pt_DownlinkOnly t) 1000000000\<rparr>,
          sp_Stats = (case pl_Stats p of None \<Rightarrow> \<lparr>st_UserUplink = False, st_UserDownlink = False, st_UserOnline = False\<rparr> | Some s \<Rightarrow> s),
          sp_Buffer = (case pl_Buffer p of None \<Rightarrow> bufferSize | Some b \<Rightarrow> b)\<rparr>)"

lemma merged_timeout:
  fixes t :: Policy_Timeout and bufferSize :: int
  defines "m \<equiv> Timeout_overrideWith (the (pl_Timeout (defaultPolicy bufferSize))) t"
  shows "Duration (pt_Handshake m) = set_or (pt_Handshake t) 60000000000" "Duration (pt_ConnectionIdle m) = set_or (pt_ConnectionIdle t) 300000000000"
    "Duration (pt_UplinkOnly m) = set_or (pt_UplinkOnly t) 1000000000" "Duration (pt_DownlinkOnly m) = set_or (pt_DownlinkOnly t) 1000000000"
proof -
  have d: "Duration (seconds 60000000000) = 60000000000" "Duration (seconds 300000000000) = 300000000000" "Duration (seconds 1000000000) = 1000000000"
    using Duration_seconds [of 60] Duration_seconds [of 300] Duration_seconds [of 1] by simp_all
  note defs = m_def Timeout_overrideWith_def Let_def defaultPolicy_def SessionDefault_def
  have o: "Duration (Some v) = set_or (Some v) y" "set_or None y = y" for v y by (simp_all add: Duration_def set_or_def)
  show "Duration (pt_Handshake m) = set_or (pt_Handshake t) 60000000000" by (cases "pt_Handshake t") (simp_all add: defs d o)
  show "Duration (pt_ConnectionIdle m) = set_or (pt_ConnectionIdle t) 300000000000" by (cases "pt_ConnectionIdle t") (simp_all add: defs d o)
  show "Duration (pt_UplinkOnly m) = set_or (pt_UplinkOnly t) 1000000000" by (cases "pt_UplinkOnly t") (simp_all add: defs d o)
  show "Duration (pt_DownlinkOnly m) = set_or (pt_DownlinkOnly t) 1000000000" by (cases "pt_DownlinkOnly t") (simp_all add: defs d o)
qed

lemma override_configured: "\<exists>pp. Policy_overrideWith (defaultPolicy bufferSize) p = Some pp \<and> ToCorePolicy bufferSize pp = configured bufferSize p"
proof -
  let ?d = "the (pl_Timeout (defaultPolicy bufferSize))"
  define m where "m = Timeout_overrideWith ?d (set_timeouts p)"
  have "(case pl_Timeout p of None \<Rightarrow> ?d | Some t \<Rightarrow> Timeout_overrideWith ?d t) = m"
    by (simp add: m_def set_timeouts_def Timeout_overrideWith_def split: option.splits)
  moreover have "ToCorePolicy bufferSize \<lparr>pl_Timeout = Some m, pl_Stats = pl_Stats p, pl_Buffer = (case pl_Buffer p of None \<Rightarrow> Some bufferSize | Some b \<Rightarrow> Some b)\<rparr>
      = configured bufferSize p"
    using merged_timeout [of bufferSize "set_timeouts p", folded m_def]
    by (cases "pl_Stats p"; cases "pl_Buffer p") (simp_all add: ToCorePolicy_def configured_def SessionDefault_def Let_def)
  ultimately show ?thesis unfolding override_default by simp
qed

text \<open>
  The policy of a level is the default policy with exactly the settings replaced that its configuration sets, each on its own;
  a level that is not configured has the default policy.
\<close>

theorem policy_for_level:
  assumes "distinct (map fst cs)"
  shows "\<exists>levels. new_levels bufferSize cs [] = Some levels
    \<and> ForLevel bufferSize levels lv = (case map_of cs lv of None \<Rightarrow> SessionDefault bufferSize | Some p \<Rightarrow> configured bufferSize p)"
proof -
  obtain ls where ls: "new_levels bufferSize cs [] = Some ls"
    "map_of ls lv = (case map_of cs lv of None \<Rightarrow> map_of [] lv | Some p \<Rightarrow> Policy_overrideWith (defaultPolicy bufferSize) p)"
    using new_levels_ok [OF assms, of bufferSize "[]"] by blast
  then show ?thesis using override_configured [of bufferSize "the (map_of cs lv)"] by (cases "map_of cs lv") (auto simp: ForLevel_def)
qed

theorem policy_for_level_witness:
  "\<exists>levels. new_levels 0 [(0, \<lparr>pl_Timeout = Some \<lparr>pt_Handshake = Some 4, pt_ConnectionIdle = None, pt_UplinkOnly = None, pt_DownlinkOnly = None\<rparr>, pl_Stats = None, pl_Buffer = None\<rparr>)] [] = Some levels
     \<and> to_Handshake (sp_Timeouts (ForLevel 0 levels 0)) = 4000000000 \<and> to_ConnectionIdle (sp_Timeouts (ForLevel 0 levels 0)) = 300000000000"
  using policy_for_level [of "[(0, \<lparr>pl_Timeout = Some \<lparr>pt_Handshake = Some 4, pt_ConnectionIdle = None, pt_UplinkOnly = None, pt_DownlinkOnly = None\<rparr>, pl_Stats = None, pl_Buffer = None\<rparr>)]" 0 0]
  by (auto simp: configured_def set_timeouts_def set_or_def Let_def)

text \<open>The size from the environment is a number of megabytes that wraps around at 32 bits: 4096 becomes no buffer at all.\<close>

lemma buffer_size_wraps: "defaultBufferSize arch (str ''4096'') = 0" "defaultBufferSize arch (str ''2048'') = -2147483648"
proof -
  have "default_size (str ''4096'') = 4096" "default_size (str ''2048'') = 2048"
    by (simp_all add: default_size_def ParseInt32_def Atoi_def str_def is_digit_def decimal_value_def)
  then show "defaultBufferSize arch (str ''4096'') = 0" "defaultBufferSize arch (str ''2048'') = -2147483648"
    by (simp_all add: defaultBufferSize_def i32_def)
qed

end
