(* ===== verification/Dispatcher.thy ===== *)
theory Dispatcher
  imports Outbound_Manager Policy Vless_Users
begin

text \<open>
  \<open>app/dispatcher/default.go\<close> and \<open>stats.go\<close>: a connection is given its links and counters, sniffed, retargeted and handed to an
  outbound handler. The values that Go keeps behind pointers in the context (the outbound of the session, its content, the access
  message) are fields of the record \<open>dctx\<close>, which the operations return updated. The router, the registered counters, the
  regular expressions and \<open>strings.ToLower\<close> are arguments.
\<close>

section \<open>The session\<close>

definition zero_dest :: Destination where
  "zero_dest = \<lparr>d_Address = None, d_Port = 0, d_Network = Network_Unknown\<rparr>"

record Outbound =
  ob_OriginalTarget :: Destination
  ob_Target :: Destination
  ob_RouteTarget :: Destination
  ob_Tag :: gostring

record SniffingRequest =
  sr_ExcludeForDomain :: "gostring list"
  sr_OverrideDestinationForProtocol :: "gostring list"
  sr_Enabled :: bool
  sr_MetadataOnly :: bool
  sr_RouteOnly :: bool

record Content =
  ct_Protocol :: gostring
  ct_SniffingRequest :: SniffingRequest
  ct_ForcedOutboundTag :: gostring
  ct_SkipDNSResolve :: bool

record Inbound_session =
  in_Source :: Destination
  in_Local :: Destination
  in_Tag :: gostring
  in_User :: "MemoryUser option"
  in_VlessRoute :: Port

record dctx =
  dc_outbounds :: "Outbound list"
  dc_content :: "Content option"
  dc_inbound :: "Inbound_session option"
  dc_Detour :: "gostring option"

definition zero_outbound :: Outbound where
  "zero_outbound = \<lparr>ob_OriginalTarget = zero_dest, ob_Target = zero_dest, ob_RouteTarget = zero_dest, ob_Tag = []\<rparr>"

definition zero_content :: Content where
  "zero_content = \<lparr>ct_Protocol = [], ct_SniffingRequest = \<lparr>sr_ExcludeForDomain = [], sr_OverrideDestinationForProtocol = [], sr_Enabled = False,
     sr_MetadataOnly = False, sr_RouteOnly = False\<rparr>, ct_ForcedOutboundTag = [], ct_SkipDNSResolve = False\<rparr>"

text \<open>The outbound at the end of the list, and an update of it; an empty list panics.\<close>

definition last_ob :: "dctx \<Rightarrow> Outbound option" where
  "last_ob c = (if dc_outbounds c = [] then None else Some (last (dc_outbounds c)))"

definition upd_ob :: "(Outbound \<Rightarrow> Outbound) \<Rightarrow> dctx \<Rightarrow> dctx" where
  "upd_ob f c = c\<lparr>dc_outbounds := butlast (dc_outbounds c) @ [f (last (dc_outbounds c))]\<rparr>"

definition ctx_content :: "dctx \<Rightarrow> Content" where
  "ctx_content c = (case dc_content c of None \<Rightarrow> zero_content | Some x \<Rightarrow> x)"

definition GetInboundTag :: "dctx \<Rightarrow> gostring" where
  "GetInboundTag c = (case dc_inbound c of None \<Rightarrow> [] | Some i \<Rightarrow> in_Tag i)"

definition GetForcedOutboundTag :: "dctx \<Rightarrow> gostring" where
  "GetForcedOutboundTag c = (case dc_content c of None \<Rightarrow> [] | Some x \<Rightarrow> ct_ForcedOutboundTag x)"

definition SetForcedOutboundTag :: "gostring \<Rightarrow> dctx \<Rightarrow> dctx" where
  "SetForcedOutboundTag tag c = c\<lparr>dc_content := Some ((ctx_content c)\<lparr>ct_ForcedOutboundTag := tag\<rparr>)\<rparr>"

text \<open>
  The routing context, through which the router sees the session; \<open>AsRoutingContext\<close> takes the outbound at the end of the list. A
  valid destination with a nil address panics.
\<close>

definition dest_IPs :: "Destination \<Rightarrow> byte list list option" where
  "dest_IPs d = (if \<not> Destination_IsValid d then Some []
     else Option.bind (d_Address d) (\<lambda>a. Some (if IsIP (Family a) then [Address_IP a] else [])))"

definition GetSourceIPs :: "dctx \<Rightarrow> byte list list option" where
  "GetSourceIPs c = (case dc_inbound c of None \<Rightarrow> Some [] | Some i \<Rightarrow> dest_IPs (in_Source i))"

definition GetSourcePort :: "dctx \<Rightarrow> Port" where
  "GetSourcePort c = (case dc_inbound c of None \<Rightarrow> 0 | Some i \<Rightarrow> if Destination_IsValid (in_Source i) then d_Port (in_Source i) else 0)"

definition GetTargetIPs :: "dctx \<Rightarrow> byte list list option" where
  "GetTargetIPs c = Option.bind (last_ob c) (\<lambda>ob. dest_IPs (ob_Target ob))"

definition GetTargetPort :: "dctx \<Rightarrow> Port option" where
  "GetTargetPort c = Option.bind (last_ob c) (\<lambda>ob. Some (if Destination_IsValid (ob_Target ob) then d_Port (ob_Target ob) else 0))"

definition GetLocalIPs :: "dctx \<Rightarrow> byte list list option" where
  "GetLocalIPs c = (case dc_inbound c of None \<Rightarrow> Some [] | Some i \<Rightarrow> dest_IPs (in_Local i))"

definition GetLocalPort :: "dctx \<Rightarrow> Port" where
  "GetLocalPort c = (case dc_inbound c of None \<Rightarrow> 0 | Some i \<Rightarrow> if Destination_IsValid (in_Local i) then d_Port (in_Local i) else 0)"

definition GetNetwork :: "dctx \<Rightarrow> Network option" where
  "GetNetwork c = map_option (\<lambda>ob. d_Network (ob_Target ob)) (last_ob c)"

definition GetProtocol :: "dctx \<Rightarrow> gostring" where
  "GetProtocol c = (case dc_content c of None \<Rightarrow> [] | Some x \<Rightarrow> ct_Protocol x)"

definition GetUser :: "dctx \<Rightarrow> gostring" where
  "GetUser c = (case Option.bind (dc_inbound c) in_User of None \<Rightarrow> [] | Some u \<Rightarrow> mu_Email u)"

definition GetVlessRoute :: "dctx \<Rightarrow> Port" where
  "GetVlessRoute c = (case dc_inbound c of None \<Rightarrow> 0 | Some i \<Rightarrow> in_VlessRoute i)"

definition GetSkipDNSResolve :: "dctx \<Rightarrow> bool" where
  "GetSkipDNSResolve c = (case dc_content c of None \<Rightarrow> False | Some x \<Rightarrow> ct_SkipDNSResolve x)"

text \<open>\<open>GetTargetDomain\<close> of the routing context: the sniffed domain, if there is one, before the target.\<close>

definition GetTargetDomain :: "dctx \<Rightarrow> gostring option" where
  "GetTargetDomain c =
     Option.bind (last_ob c) (\<lambda>ob.
       if \<not> Destination_IsValid (ob_Target ob) then Some []
       else let target = Option.bind (d_Address (ob_Target ob)) (\<lambda>a. Some (if IsDomain (Family a) then Address_Domain a else []))
         in if Destination_IsValid (ob_RouteTarget ob)
            then Option.bind (d_Address (ob_RouteTarget ob)) (\<lambda>a. if IsDomain (Family a) then Some (Address_Domain a) else target)
            else target)"

section \<open>Links and counters\<close>

text \<open>A writer with the counters around it, and the size writer itself.\<close>

datatype 'w counted = Plain 'w | Counted gostring "'w counted"

record ('r, 'w) Link =
  lk_Reader :: 'r
  lk_Writer :: "'w counted"

record stats_env =
  se_counter :: "gostring \<Rightarrow> int option"
  se_online :: "gostring \<Rightarrow> bool"

definition traffic_name :: "MemoryUser \<Rightarrow> string \<Rightarrow> gostring" where
  "traffic_name u suffix = str ''user>>>'' @ mu_Email u @ str suffix"

definition SizeStatWriter_WriteMultiBuffer :: "'w mb_write \<Rightarrow> ('w \<times> int) mb_write" where
  "SizeStatWriter_WriteMultiBuffer wmb w mb p =
     map_option (\<lambda>(e, w', p'). (e, (w', snd w + MB_Len mb), p')) (wmb (fst w) mb p)"

text \<open>The user of a link that is counted, with its policy.\<close>

definition counted_user :: "(32 word \<Rightarrow> Session_policy) \<Rightarrow> dctx \<Rightarrow> (MemoryUser \<times> Stats) option" where
  "counted_user policy c =
     Option.bind (Option.bind (dc_inbound c) in_User) (\<lambda>u. if mu_Email u \<noteq> [] then Some (u, sp_Stats (policy (mu_Level u))) else None)"

definition count_writer :: "stats_env \<Rightarrow> bool \<Rightarrow> gostring \<Rightarrow> 'w counted \<Rightarrow> 'w counted" where
  "count_writer env enabled name w = (if enabled \<and> se_counter env name \<noteq> None then Counted name w else w)"

text \<open>The address that is added to the online map of the user, if any; a nil source address panics.\<close>

definition online_ip :: "stats_env \<Rightarrow> Stats \<Rightarrow> MemoryUser \<Rightarrow> dctx \<Rightarrow> (gostring \<times> gostring) option option" where
  "online_ip env s u c =
     (let name = traffic_name u ''>>>online''
      in if st_UserOnline s \<and> se_online env name
         then Option.bind (dc_inbound c) (\<lambda>i. Option.bind (d_Address (in_Source i)) (\<lambda>a. Some (Some (name, Address_String a))))
         else Some None)"

text \<open>\<open>getLink\<close>: \<open>up\<close> and \<open>down\<close> are the two pipes as reader and writer.\<close>

definition getLink :: "stats_env \<Rightarrow> (32 word \<Rightarrow> Session_policy) \<Rightarrow> dctx \<Rightarrow> 'r \<times> 'w \<Rightarrow> 'r \<times> 'w \<Rightarrow>
   (('r, 'w) Link \<times> ('r, 'w) Link \<times> (gostring \<times> gostring) option) option" where
  "getLink env policy c up down =
     (let inboundLink = \<lparr>lk_Reader = fst down, lk_Writer = Plain (snd up)\<rparr>;
          outboundLink = \<lparr>lk_Reader = fst up, lk_Writer = Plain (snd down)\<rparr>
      in case counted_user policy c of
           None \<Rightarrow> Some (inboundLink, outboundLink, None)
         | Some (u, s) \<Rightarrow>
             map_option (\<lambda>online.
               (inboundLink\<lparr>lk_Writer := count_writer env (st_UserUplink s) (traffic_name u ''>>>traffic>>>uplink'') (lk_Writer inboundLink)\<rparr>,
                outboundLink\<lparr>lk_Writer := count_writer env (st_UserDownlink s) (traffic_name u ''>>>traffic>>>downlink'') (lk_Writer outboundLink)\<rparr>,
                online)) (online_ip env s u c))"

text \<open>
  \<open>WrapLink\<close>: the reader of the given link is wrapped, with the uplink counter inside the wrapper. \<open>sched\<close> is the schedule of the
  wrapper's goroutine.
\<close>

definition wrap_reader :: "(bool \<times> bool) list \<Rightarrow> 'r \<Rightarrow> counter \<Rightarrow> 'r TimeoutWrapperReader" where
  "wrap_reader sched r counter = \<lparr>tw_Reader = r, tw_Counter = counter, tw_mb = [], tw_err = None, tw_done = chan_nil, tw_sched = sched\<rparr>"

definition WrapLink :: "stats_env \<Rightarrow> (32 word \<Rightarrow> Session_policy) \<Rightarrow> (bool \<times> bool) list \<Rightarrow> dctx \<Rightarrow> ('r, 'w) Link \<Rightarrow>
   (('r TimeoutWrapperReader, 'w) Link \<times> (gostring \<times> gostring) option) option" where
  "WrapLink env policy sched c link =
     (case counted_user policy c of
        None \<Rightarrow> Some (\<lparr>lk_Reader = wrap_reader sched (lk_Reader link) None, lk_Writer = lk_Writer link\<rparr>, None)
      | Some (u, s) \<Rightarrow>
          map_option (\<lambda>online.
            (\<lparr>lk_Reader = wrap_reader sched (lk_Reader link) (if st_UserUplink s then se_counter env (traffic_name u ''>>>traffic>>>uplink'') else None),
              lk_Writer = count_writer env (st_UserDownlink s) (traffic_name u ''>>>traffic>>>downlink'') (lk_Writer link)\<rparr>, online)) (online_ip env s u c))"

section \<open>Retargeting\<close>

record override_env =
  oe_lower :: "gostring \<Rightarrow> gostring"
  oe_Compile :: "gostring \<Rightarrow> (gostring \<Rightarrow> bool) option"
  oe_fdns :: "fakeDNSEngine option"

text \<open>The pool test of the engine, if it has one.\<close>

definition in_pool :: "override_env \<Rightarrow> Address option \<Rightarrow> bool" where
  "in_pool env a = (case oe_fdns env of None \<Rightarrow> False | Some eng \<Rightarrow> (case IsIPInIPPool eng of None \<Rightarrow> False | Some f \<Rightarrow> f a))"

fun excluded :: "override_env \<Rightarrow> gostring \<Rightarrow> gostring list \<Rightarrow> bool" where
  "excluded env domain [] = False"
| "excluded env domain (d # ds) =
     (if HasPrefix d (str ''regexp:'')
      then (case oe_Compile env (drop 7 d) of
              None \<Rightarrow> excluded env domain ds
            | Some re \<Rightarrow> if re domain then True else excluded env domain ds)
      else if oe_lower env domain = d then True else excluded env domain ds)"

fun override_loop :: "override_env \<Rightarrow> SniffResult \<Rightarrow> gostring \<Rightarrow> Destination \<Rightarrow> gostring list \<Rightarrow> bool" where
  "override_loop env result protocolString dest [] = False"
| "override_loop env result protocolString dest (p # ps) =
     (if HasPrefix protocolString p \<or> HasPrefix p protocolString then True
      else if protocolString \<noteq> str ''bittorrent'' \<and> p = str ''fakedns'' \<and> in_pool env (d_Address dest) then True
      else if IsProtoSubsetOf result p = Some True then True
      else override_loop env result protocolString dest ps)"

definition domain_protocol :: "SniffResult \<Rightarrow> gostring" where
  "domain_protocol result = (case ProtocolForDomainResult result of Some q \<Rightarrow> q | None \<Rightarrow> SR_Protocol result)"

definition shouldOverride :: "override_env \<Rightarrow> SniffResult \<Rightarrow> SniffingRequest \<Rightarrow> Destination \<Rightarrow> bool" where
  "shouldOverride env result request dest =
     (let domain = SR_Domain result
      in if domain = [] then False
         else if excluded env domain (sr_ExcludeForDomain request) then False
         else override_loop env result (domain_protocol result) dest (sr_OverrideDestinationForProtocol request))"

text \<open>
  What \<open>Dispatch\<close> and \<open>DispatchLink\<close> do with the result of sniffing: the destination that is routed and the session. A nil result without an
  error panics.
\<close>

definition retarget :: "override_env \<Rightarrow> dctx \<Rightarrow> Destination \<Rightarrow> SniffResult option \<Rightarrow> goerr option \<Rightarrow> (Destination \<times> dctx) option" where
  "retarget env c dest res err =
     (if err \<noteq> None then Some (dest, c)
      else Option.bind res (\<lambda>result.
        let c1 = c\<lparr>dc_content := Some ((ctx_content c)\<lparr>ct_Protocol := SR_Protocol result\<rparr>)\<rparr>;
            request = ct_SniffingRequest (ctx_content c)
        in if shouldOverride env result request dest
           then Option.bind (last_ob c1) (\<lambda>ob.
             let dest1 = dest\<lparr>d_Address := ParseAddress (SR_Domain result)\<rparr>;
                 protocol = domain_protocol result;
                 isFakeIP = in_pool env (d_Address (ob_Target ob))
             in if sr_RouteOnly request \<and> protocol \<noteq> str ''fakedns'' \<and> protocol \<noteq> str ''fakedns+others'' \<and> \<not> isFakeIP
                then Some (dest1, upd_ob (\<lambda>b. b\<lparr>ob_RouteTarget := dest1\<rparr>) c1)
                else Some (dest1, upd_ob (\<lambda>b. b\<lparr>ob_Target := dest1\<rparr>) c1))
           else Some (dest, c1)))"

section \<open>Routing\<close>

text \<open>The outcome for a link: it is closed, or handed to a handler.\<close>

datatype routed = Closed | Handed Handler

text \<open>A router gives an error or the tags of the outbound and of the rule.\<close>

definition detour :: "gostring \<Rightarrow> nat \<Rightarrow> gostring \<Rightarrow> gostring" where
  "detour inTag isPickRoute tag =
     (if inTag = [] then tag
      else if isPickRoute = 1 then inTag @ str '' ==> '' @ tag
      else if isPickRoute = 2 then inTag @ str '' -> '' @ tag
      else inTag @ str '' >> '' @ tag)"

definition hand_over :: "dctx \<Rightarrow> nat \<Rightarrow> Handler \<Rightarrow> (routed \<times> dctx) option" where
  "hand_over c isPickRoute handler =
     Option.bind (last_ob c) (\<lambda>_.
       let c1 = upd_ob (\<lambda>b. b\<lparr>ob_Tag := h_Tag handler\<rparr>) c;
           c2 = (if dc_Detour c1 \<noteq> None \<and> h_Tag handler \<noteq> [] then c1\<lparr>dc_Detour := Some (detour (GetInboundTag c) isPickRoute (h_Tag handler))\<rparr> else c1)
       in Some (Handed handler, c2))"

definition routedDispatch :: "Manager \<Rightarrow> (dctx \<Rightarrow> goerr + gostring \<times> gostring) option \<Rightarrow> dctx \<Rightarrow> (routed \<times> dctx) option" where
  "routedDispatch ohm router c = Option.bind (last_ob c) (\<lambda>_.
     (if GetForcedOutboundTag c \<noteq> [] then
        (let c1 = SetForcedOutboundTag [] c
         in case GetHandler ohm (GetForcedOutboundTag c) of
              Some h \<Rightarrow> hand_over c1 1 h
            | None \<Rightarrow> Some (Closed, c1))
      else let default = (case GetDefaultHandler ohm of Some h \<Rightarrow> hand_over c 0 h | None \<Rightarrow> Some (Closed, c))
        in case router of
             None \<Rightarrow> default
           | Some pick \<Rightarrow>
               (case pick c of
                  Inl _ \<Rightarrow> default
                | Inr (outTag, _) \<Rightarrow>
                    (case GetHandler ohm outTag of
                       Some h \<Rightarrow> hand_over c 2 h
                     | None \<Rightarrow> Some (Closed, c)))))"

section \<open>Dispatch\<close>

record dispatcher =
  ds_ohm :: Manager
  ds_router :: "(dctx \<Rightarrow> goerr + gostring \<times> gostring) option"
  ds_policy :: "32 word \<Rightarrow> Session_policy"
  ds_stats :: stats_env
  ds_override :: override_env
  ds_sniff :: sniff_env

definition err_invalid_dest :: goerr where "err_invalid_dest = ENew ''Dispatcher: Invalid destination.'' None"

text \<open>The session at the beginning of \<open>Dispatch\<close> and \<open>DispatchLink\<close>.\<close>

definition prepare :: "Destination \<Rightarrow> dctx \<Rightarrow> dctx" where
  "prepare dest c =
     (let c1 = (if dc_outbounds c = [] then c\<lparr>dc_outbounds := [zero_outbound]\<rparr> else c);
          c2 = upd_ob (\<lambda>b. b\<lparr>ob_OriginalTarget := dest, ob_Target := dest\<rparr>) c1
      in c2\<lparr>dc_content := Some (ctx_content c2)\<rparr>)"

text \<open>
  Sniffing (if it is enabled), retargeting and routing, over the reader of the link; \<open>rounds\<close> are the rounds of the sniffing loop.
  \<open>Inl\<close> is a sniffing loop that is still waiting.
\<close>

definition dispatch_link ::
  "dispatcher \<Rightarrow> 'r mb_read_timeout \<Rightarrow> sniff_round list \<Rightarrow> dctx \<Rightarrow> Destination \<Rightarrow> 'r \<Rightarrow> pool \<Rightarrow>
   ('r sniff_state + (routed \<times> dctx) \<times> 'r cachedReader \<times> pool) option" where
  "dispatch_link d rmt rounds c dest reader p =
     (let request = ct_SniffingRequest (ctx_content c); r = \<lparr>cr_reader = reader, cr_cache = []\<rparr>
      in if \<not> sr_Enabled request
         then map_option (\<lambda>x. Inr (x, r, p)) (routedDispatch (ds_ohm d) (ds_router d) c)
         else Option.bind (sniffer rmt (NewSniffer (ds_sniff d) (oe_fdns (ds_override d))) dest (sr_MetadataOnly request) (d_Network dest) rounds r p) (\<lambda>x.
           case x of
             Inl s \<Rightarrow> Some (Inl s)
           | Inr ((res, err), r1, p1) \<Rightarrow>
               Option.bind (retarget (ds_override d) c dest res err) (\<lambda>(dest1, c1).
                 map_option (\<lambda>y. Inr (y, r1, p1)) (routedDispatch (ds_ohm d) (ds_router d) c1))))"

text \<open>
  \<open>Dispatch\<close> returns the inbound link; the rest runs in a goroutine, whose outcome is the last component, over the outbound link with the
  given writer.
\<close>

definition Dispatch where
  "Dispatch d rmt rounds c dest up down p =
     (if \<not> Destination_IsValid dest then Some (Inl err_invalid_dest)
      else let c1 = prepare dest c
        in Option.bind (getLink (ds_stats d) (ds_policy d) c1 up down) (\<lambda>(inb, outb, online).
             Some (Inr (inb, lk_Writer outb, online, dispatch_link d rmt rounds c1 dest (lk_Reader outb) p))))"

definition DispatchLink where
  "DispatchLink d rmt rounds sched c dest link p =
     (if \<not> Destination_IsValid dest then Some (Inl err_invalid_dest)
      else let c1 = prepare dest c
        in Option.bind (WrapLink (ds_stats d) (ds_policy d) sched c1 link) (\<lambda>(outb, online).
             Some (Inr (lk_Writer outb, online, dispatch_link d rmt rounds c1 dest (lk_Reader outb) p))))"

section \<open>Lemmas\<close>

lemma upd_ob_simps [simp]:
  "dc_outbounds c \<noteq> [] \<Longrightarrow> last (dc_outbounds (upd_ob f c)) = f (last (dc_outbounds c))" "dc_outbounds (upd_ob f c) \<noteq> []"
  "dc_content (upd_ob f c) = dc_content c" "dc_inbound (upd_ob f c) = dc_inbound c" "dc_Detour (upd_ob f c) = dc_Detour c"
  "butlast (dc_outbounds (upd_ob f c)) = butlast (dc_outbounds c)"
  by (simp_all add: upd_ob_def)

lemma prepare_simps:
  "dc_outbounds (prepare dest c) \<noteq> []" "ob_OriginalTarget (last (dc_outbounds (prepare dest c))) = dest" "ob_Target (last (dc_outbounds (prepare dest c))) = dest"
  "dc_content (prepare dest c) = Some (ctx_content c)" "dc_inbound (prepare dest c) = dc_inbound c"
  "ob_RouteTarget (last (dc_outbounds (prepare dest c))) = (if dc_outbounds c = [] then zero_dest else ob_RouteTarget (last (dc_outbounds c)))"
  by (simp_all add: prepare_def Let_def zero_outbound_def ctx_content_def)

text \<open>The session of a dispatched connection: its targets, with the address of the target possibly replaced.\<close>

definition targets_ok :: "override_env \<Rightarrow> Destination \<Rightarrow> dctx \<Rightarrow> bool" where
  "targets_ok env dest c \<longleftrightarrow> dc_outbounds c \<noteq> [] \<and> ob_OriginalTarget (last (dc_outbounds c)) = dest
     \<and> d_Port (ob_Target (last (dc_outbounds c))) = d_Port dest \<and> d_Network (ob_Target (last (dc_outbounds c))) = d_Network dest
     \<and> (sr_RouteOnly (ct_SniffingRequest (ctx_content c)) \<and> oe_fdns env = None \<longrightarrow> ob_Target (last (dc_outbounds c)) = dest)"

lemma domain_protocol_plain: "basic_result r \<Longrightarrow> domain_protocol r \<noteq> str ''fakedns'' \<and> domain_protocol r \<noteq> str ''fakedns+others''"
  by (cases r) (simp_all add: domain_protocol_def str_def)

lemma retarget_ok:
  assumes "targets_ok env dest c" "ob_Target (last (dc_outbounds c)) = dest" "err = None \<longrightarrow> res \<noteq> None"
    and "oe_fdns env = None \<Longrightarrow> \<forall>r. res = Some r \<longrightarrow> basic_result r"
  shows "\<exists>dest1 c1. retarget env c dest res err = Some (dest1, c1) \<and> targets_ok env dest c1"
proof (cases err)
  case (Some e)
  then show ?thesis using assms(1) by (simp add: retarget_def)
next
  case None
  then obtain r where r: "res = Some r" using assms(3) by blast
  let ?c = "c\<lparr>dc_content := Some ((ctx_content c)\<lparr>ct_Protocol := SR_Protocol r\<rparr>)\<rparr>"
  have c: "dc_outbounds ?c = dc_outbounds c" "ct_SniffingRequest (ctx_content ?c) = ct_SniffingRequest (ctx_content c)" by (simp_all add: ctx_content_def)
  have t: "targets_ok env dest ?c" using assms(1) c by (simp add: targets_ok_def)
  have ob: "last_ob ?c = Some (last (dc_outbounds c))" using assms(1) c(1) by (simp add: last_ob_def targets_ok_def)
  have ne: "dc_outbounds ?c \<noteq> []" using assms(1) by (simp add: targets_ok_def)
  have ro: "oe_fdns env = None \<Longrightarrow> domain_protocol r \<noteq> str ''fakedns'' \<and> domain_protocol r \<noteq> str ''fakedns+others'' \<and> \<not> in_pool env x" for x
    using domain_protocol_plain [of r] assms(4) r by (simp add: in_pool_def)
  have upd: "targets_ok env dest (upd_ob f ?c)"
    if "ob_OriginalTarget (f (last (dc_outbounds c))) = dest" "d_Port (ob_Target (f (last (dc_outbounds c)))) = d_Port dest"
      "d_Network (ob_Target (f (last (dc_outbounds c)))) = d_Network dest"
      "sr_RouteOnly (ct_SniffingRequest (ctx_content c)) \<and> oe_fdns env = None \<longrightarrow> ob_Target (f (last (dc_outbounds c))) = dest" for f
    using that ne c(2) by (simp add: targets_ok_def ctx_content_def)
  have orig: "ob_OriginalTarget (last (dc_outbounds c)) = dest" using assms(1) by (simp add: targets_ok_def)
  let ?rq = "ct_SniffingRequest (ctx_content c)"
  let ?d = "dest\<lparr>d_Address := ParseAddress (SR_Domain r)\<rparr>"
  let ?ro = "sr_RouteOnly ?rq \<and> domain_protocol r \<noteq> str ''fakedns'' \<and> domain_protocol r \<noteq> str ''fakedns+others''
      \<and> \<not> in_pool env (d_Address (ob_Target (last (dc_outbounds c))))"
  have eq: "retarget env c dest res err =
      (if shouldOverride env r ?rq dest
       then (if ?ro then Some (?d, upd_ob (\<lambda>b. b\<lparr>ob_RouteTarget := ?d\<rparr>) ?c) else Some (?d, upd_ob (\<lambda>b. b\<lparr>ob_Target := ?d\<rparr>) ?c))
       else Some (dest, ?c))"
    unfolding retarget_def r using None ob by (simp add: Let_def)
  have a: "targets_ok env dest (upd_ob (\<lambda>b. b\<lparr>ob_RouteTarget := ?d\<rparr>) ?c)" using orig assms(2) by (intro upd) simp_all
  have b: "\<not> ?ro \<Longrightarrow> targets_ok env dest (upd_ob (\<lambda>b. b\<lparr>ob_Target := ?d\<rparr>) ?c)" using orig ro by (intro upd) auto
  show ?thesis
  proof (cases "shouldOverride env r ?rq dest")
    case so: True
    show ?thesis
    proof (cases ?ro)
      case True
      then have "retarget env c dest res err = Some (?d, upd_ob (\<lambda>b. b\<lparr>ob_RouteTarget := ?d\<rparr>) ?c)" unfolding eq if_P [OF so] by (rule if_P)
      then show ?thesis using a by blast
    next
      case False
      then have "retarget env c dest res err = Some (?d, upd_ob (\<lambda>b. b\<lparr>ob_Target := ?d\<rparr>) ?c)" unfolding eq if_P [OF so] by (rule if_not_P)
      then show ?thesis using b [OF False] by blast
    qed
  qed (use eq t in simp)
qed

lemma hand_over_ok:
  assumes "dc_outbounds c \<noteq> []"
  shows "\<exists>c'. hand_over c k h = Some (Handed h, c') \<and> dc_content c' = dc_content c
    \<and> last (dc_outbounds c') = (last (dc_outbounds c))\<lparr>ob_Tag := h_Tag h\<rparr> \<and> dc_outbounds c' \<noteq> []"
  using assms by (simp add: hand_over_def last_ob_def Let_def)

lemma last_ob_some: "dc_outbounds c \<noteq> [] \<Longrightarrow> last_ob c = Some (last (dc_outbounds c))"
  by (simp add: last_ob_def)

lemma routedDispatch_ok:
  assumes "targets_ok env dest c"
  shows "\<exists>out c'. routedDispatch ohm router c = Some (out, c') \<and> targets_ok env dest c'"
proof -
  have ne: "dc_outbounds c \<noteq> []" using assms by (simp add: targets_ok_def)
  have h: "\<exists>out c'. hand_over x k h = Some (out, c') \<and> targets_ok env dest c'" if "targets_ok env dest x" for x k h
    using hand_over_ok [of x k h] that by (auto simp: targets_ok_def ctx_content_def)
  have f: "targets_ok env dest (SetForcedOutboundTag [] c)" using assms by (simp add: targets_ok_def SetForcedOutboundTag_def ctx_content_def)
  show ?thesis unfolding routedDispatch_def last_ob_some [OF ne] Let_def using h [OF assms] h [OF f] f assms by (auto split: option.splits sum.splits)
qed

section \<open>Properties\<close>

text \<open>The tag that is named for a connection: the one that was forced on it, or else the one the router picks.\<close>

definition named_tag :: "(dctx \<Rightarrow> goerr + gostring \<times> gostring) option \<Rightarrow> dctx \<Rightarrow> gostring option" where
  "named_tag router c =
     (if GetForcedOutboundTag c \<noteq> [] then Some (GetForcedOutboundTag c)
      else case router of None \<Rightarrow> None | Some pick \<Rightarrow> (case pick c of Inl _ \<Rightarrow> None | Inr (tag, _) \<Rightarrow> Some tag))"

text \<open>
  C17. A connection for which a tag was named, by the platform or by the router, goes to the handler with exactly that tag or is closed;
  it never falls back to the default handler. The forced tag is used up, so that it does not apply to connections dispatched
  in turn. Without a named tag the default handler gets the connection, if there is one.
\<close>

theorem named_outbound_or_nothing:
  assumes "om_inv ohm" "dc_outbounds c \<noteq> []"
  shows "\<exists>out c'. routedDispatch ohm router c = Some (out, c') \<and> GetForcedOutboundTag c' = []
    \<and> (case out of
         Closed \<Rightarrow> (case named_tag router c of Some tag \<Rightarrow> GetHandler ohm tag = None | None \<Rightarrow> GetDefaultHandler ohm = None)
       | Handed h \<Rightarrow> ob_Tag (last (dc_outbounds c')) = h_Tag h
           \<and> (case named_tag router c of Some tag \<Rightarrow> h_Tag h = tag \<and> GetHandler ohm tag = Some h | None \<Rightarrow> GetDefaultHandler ohm = Some h))"
proof -
  have lo: "last_ob c = Some (last (dc_outbounds c))" by (rule last_ob_some [OF assms(2)])
  have tag: "GetHandler ohm t = Some h \<Longrightarrow> h_Tag h = t" for t h using assms(1) by (auto simp: om_inv_def GetHandler_def dest: map_of_SomeD)
  have ho: "\<exists>c'. hand_over x k h = Some (Handed h, c') \<and> ob_Tag (last (dc_outbounds c')) = h_Tag h \<and> GetForcedOutboundTag c' = GetForcedOutboundTag x"
    if "dc_outbounds x \<noteq> []" for x k h using hand_over_ok [OF that, of k h] by (auto simp: GetForcedOutboundTag_def)
  show ?thesis
  proof (cases "GetForcedOutboundTag c = []")
    case False
    let ?c = "SetForcedOutboundTag [] c"
    have f: "GetForcedOutboundTag ?c = []" "dc_outbounds ?c \<noteq> []" using assms(2) by (simp_all add: SetForcedOutboundTag_def GetForcedOutboundTag_def)
    show ?thesis
    proof (cases "GetHandler ohm (GetForcedOutboundTag c)")
      case None
      then show ?thesis using False f by (simp add: routedDispatch_def lo named_tag_def)
    next
      case (Some h)
      then show ?thesis using False f ho [OF f(2), of 1 h] tag by (auto simp: routedDispatch_def lo named_tag_def)
    qed
  next
    case True
    have def: "\<exists>out c'. (case GetDefaultHandler ohm of Some h \<Rightarrow> hand_over c 0 h | None \<Rightarrow> Some (Closed, c)) = Some (out, c') \<and> GetForcedOutboundTag c' = []
        \<and> (case out of Closed \<Rightarrow> GetDefaultHandler ohm = None | Handed h \<Rightarrow> ob_Tag (last (dc_outbounds c')) = h_Tag h \<and> GetDefaultHandler ohm = Some h)"
    proof (cases "GetDefaultHandler ohm")
      case (Some h)
      then show ?thesis using ho [OF assms(2), of 0 h] True by auto
    qed (simp add: True)
    show ?thesis
    proof (cases "named_tag router c")
      case None
      then have "routedDispatch ohm router c = (case GetDefaultHandler ohm of Some h \<Rightarrow> hand_over c 0 h | None \<Rightarrow> Some (Closed, c))"
        using True by (auto simp: routedDispatch_def lo named_tag_def Let_def split: option.splits sum.splits)
      then show ?thesis using def unfolding None option.case by (simp only: )
    next
      case (Some t)
      then have "routedDispatch ohm router c = (case GetHandler ohm t of Some h \<Rightarrow> hand_over c 2 h | None \<Rightarrow> Some (Closed, c))"
        using True by (auto simp: routedDispatch_def lo named_tag_def Let_def split: option.splits sum.splits)
      then show ?thesis using Some True ho [OF assms(2), of 2 "the (GetHandler ohm t)"] tag by (cases "GetHandler ohm t") auto
    qed
  qed
qed

theorem named_outbound_or_nothing_witness:
  "\<exists>out c'. routedDispatch (snd (AddHandler (\<lambda>_. None) OM_New \<lparr>h_id = 1, h_Tag = [97]\<rparr>)) (Some (\<lambda>_. Inr ([98], [])))
      (prepare (TCPDestination None 80) \<lparr>dc_outbounds = [], dc_content = None, dc_inbound = None, dc_Detour = None\<rparr>) = Some (out, c') \<and> out = Closed"
proof -
  let ?m = "snd (AddHandler (\<lambda>_. None) OM_New \<lparr>h_id = 1, h_Tag = [97]\<rparr>)"
  let ?c = "prepare (TCPDestination None 80) \<lparr>dc_outbounds = [], dc_content = None, dc_inbound = None, dc_Detour = None\<rparr>"
  have i: "om_inv ?m" "dc_outbounds ?c \<noteq> []" using AddHandler_inv [OF om_inv_New] prepare_simps(1) by blast+
  have t: "named_tag (Some (\<lambda>_. Inr ([98], []))) ?c = Some [98]" "GetHandler ?m [98] = None" by code_simp+
  from named_outbound_or_nothing [OF i, of "Some (\<lambda>_. Inr ([98], []))"] obtain out c'
    where o: "routedDispatch ?m (Some (\<lambda>_. Inr ([98], []))) ?c = Some (out, c')"
      "case out of Closed \<Rightarrow> True | Handed h \<Rightarrow> GetHandler ?m [98] = Some h" unfolding t(1) by (metis (no_types, lifting) option.case(2) routed.case(1) routed.case(2) routed.exhaust)
  then have "out = Closed" using t(2) by (cases out) simp_all
  then show ?thesis using o(1) by blast
qed

lemma WrapLink_total:
  assumes "\<forall>i. dc_inbound c = Some i \<longrightarrow> d_Address (in_Source i) \<noteq> None"
  shows "\<exists>k lw online. WrapLink env policy sched c link = Some (\<lparr>lk_Reader = wrap_reader sched (lk_Reader link) k, lk_Writer = lw\<rparr>, online)"
proof (cases "counted_user policy c")
  case None
  then show ?thesis by (intro exI [of _ None]) (simp add: WrapLink_def)
next
  case (Some us)
  then obtain i where i: "dc_inbound c = Some i" by (cases us) (auto simp: counted_user_def bind_Some_iff)
  then obtain a where "d_Address (in_Source i) = Some a" using assms by blast
  then have "online_ip env st u c \<noteq> None" for st u using i by (simp add: online_ip_def Let_def)
  then show ?thesis using Some by (cases us) (auto simp: WrapLink_def)
qed

lemma wrapped_ok: "length (concat (chunks s)) < 2147483648 \<Longrightarrow>
    conn_single.wrapped.cr_ok \<lparr>cr_reader = wrap_reader sched s k, cr_cache = []\<rparr>
    \<and> conn_single.wrapped.cr_pending \<lparr>cr_reader = wrap_reader sched s k, cr_cache = []\<rparr> = concat (chunks s)"
  by (simp add: conn_single.wrapped.cr_ok_def conn_single.wrapped.cr_pending_def wrap_reader_def tw_inv_def tw_pending_def)

lemma dispatch_link_ok:
  assumes "targets_ok (ds_override d) dest c" "ob_Target (last (dc_outbounds c)) = dest" "d_Network dest = Network_TCP"
    and "length (concat (chunks s)) < 2147483648" "pool_ok p" "200000000 \<le> sum_list (map rd_elapsed rounds)"
  shows "\<exists>out c' r p'. dispatch_link d (TW_ReadMultiBufferTimeout (SingleReader_ReadMultiBuffer conn_read)) rounds c dest (wrap_reader sched s k) p
      = Some (Inr ((out, c'), r, p')) \<and> link_pending r = concat (chunks s) \<and> targets_ok (ds_override d) dest c'"
proof (cases "sr_Enabled (ct_SniffingRequest (ctx_content c))")
  let ?r = "\<lparr>cr_reader = wrap_reader sched s k, cr_cache = []\<rparr>"
  case False
  moreover have "link_pending ?r = concat (chunks s)" using wrapped_ok [OF assms(4)] by (simp add: link_pending_def conn_single.wrapped.cr_pending_def)
  moreover obtain out c' where "routedDispatch (ds_ohm d) (ds_router d) c = Some (out, c')" "targets_ok (ds_override d) dest c'"
    using routedDispatch_ok [OF assms(1)] by blast
  ultimately show ?thesis by (simp add: dispatch_link_def Let_def)
next
  case True
  let ?r = "\<lparr>cr_reader = wrap_reader sched s k, cr_cache = []\<rparr>"
  let ?rq = "ct_SniffingRequest (ctx_content c)"
  obtain res er r1 p1 where sn: "sniffer (TW_ReadMultiBufferTimeout (SingleReader_ReadMultiBuffer conn_read))
        (NewSniffer (ds_sniff d) (oe_fdns (ds_override d))) dest (sr_MetadataOnly ?rq) Network_TCP rounds ?r p = Some (Inr ((res, er), r1, p1))"
    "conn_single.wrapped.cr_pending r1 = concat (chunks s)" "er = None \<longrightarrow> res \<noteq> None"
    using conn_single.wrapped.sniffer_ends [of ?r p rounds "ds_sniff d" "oe_fdns (ds_override d)" dest "sr_MetadataOnly ?rq"] wrapped_ok [OF assms(4)] assms(5,6)
    by metis
  have "\<forall>x. res = Some x \<longrightarrow> basic_result x" if "oe_fdns (ds_override d) = None"
    using sniffer_results [where network = Network_TCP] sn(1) that by blast
  from retarget_ok [OF assms(1,2) sn(3) this]
  obtain dest1 c1 where rt: "retarget (ds_override d) c dest res er = Some (dest1, c1)" "targets_ok (ds_override d) dest c1" by blast
  obtain out c' where "routedDispatch (ds_ohm d) (ds_router d) c1 = Some (out, c')" "targets_ok (ds_override d) dest c'"
    using routedDispatch_ok [OF rt(2)] by blast
  then show ?thesis using True sn rt(1) assms(3) by (simp add: dispatch_link_def Let_def link_pending_def conn_single.wrapped.cr_pending_def)
qed

text \<open>
  C16. Dispatching a TCP connection over its link: whatever the client sends, sniffing ends, the connection is handed over or closed, and no byte
  of it is lost. The original target is the requested one; sniffing may replace the address of the target but never its port and
  network; and with \<open>routeOnly\<close> (and no fake DNS) it never changes where the connection goes, only how it is routed.
\<close>

theorem dispatch_link_keeps_stream:
  assumes "d_Network dest = Network_TCP" "\<forall>i. dc_inbound c = Some i \<longrightarrow> d_Address (in_Source i) \<noteq> None"
    and "length (concat (chunks s)) < 2147483648" "pool_ok p" "200000000 \<le> sum_list (map rd_elapsed rounds)"
  shows "\<exists>lw online out c' r p'. DispatchLink d (TW_ReadMultiBufferTimeout (SingleReader_ReadMultiBuffer conn_read)) rounds sched c dest
        \<lparr>lk_Reader = s, lk_Writer = w\<rparr> p = Some (Inr (lw, online, Some (Inr ((out, c'), r, p'))))
    \<and> link_pending r = concat (chunks s)
    \<and> ob_OriginalTarget (last (dc_outbounds c')) = dest
    \<and> d_Port (ob_Target (last (dc_outbounds c'))) = d_Port dest \<and> d_Network (ob_Target (last (dc_outbounds c'))) = Network_TCP
    \<and> (sr_RouteOnly (ct_SniffingRequest (ctx_content c')) \<and> oe_fdns (ds_override d) = None \<longrightarrow> ob_Target (last (dc_outbounds c')) = dest)"
proof -
  let ?c = "prepare dest c"
  have t: "targets_ok (ds_override d) dest ?c" "ob_Target (last (dc_outbounds ?c)) = dest" using prepare_simps [of dest c] by (simp_all add: targets_ok_def)
  obtain k lw online where wl: "WrapLink (ds_stats d) (ds_policy d) sched ?c \<lparr>lk_Reader = s, lk_Writer = w\<rparr>
      = Some (\<lparr>lk_Reader = wrap_reader sched s k, lk_Writer = lw\<rparr>, online)"
    using WrapLink_total [of ?c "ds_stats d" "ds_policy d" sched "\<lparr>lk_Reader = s, lk_Writer = w\<rparr>"] assms(2) prepare_simps(5) by auto
  have "Destination_IsValid dest" using assms(1) by (simp add: Destination_IsValid_def)
  then show ?thesis using dispatch_link_ok [OF t assms(1,3,4,5), of sched k] wl assms(1) by (auto simp: DispatchLink_def targets_ok_def)
qed

theorem dispatch_link_keeps_stream_witness:
  "let d = \<lparr>ds_ohm = OM_New, ds_router = None, ds_policy = (\<lambda>_. SessionDefault 0), ds_stats = \<lparr>se_counter = (\<lambda>_. None), se_online = (\<lambda>_. False)\<rparr>,
         ds_override = \<lparr>oe_lower = id, oe_Compile = (\<lambda>_. None), oe_fdns = None\<rparr>,
         ds_sniff = \<lparr>se_lower = id, se_now = 0, se_quic = plain_lib, se_quic_left = id\<rparr>\<rparr>;
       c = \<lparr>dc_outbounds = [], dc_content = Some (zero_content\<lparr>ct_SniffingRequest := (ct_SniffingRequest zero_content)\<lparr>sr_Enabled := True\<rparr>\<rparr>), dc_inbound = None, dc_Detour = None\<rparr>
   in \<exists>lw online out c' r p'. DispatchLink d (TW_ReadMultiBufferTimeout (SingleReader_ReadMultiBuffer conn_read)) [\<lparr>rd_done = None, rd_elapsed = 200000000\<rparr>] [] c
        (TCPDestination None 80) \<lparr>lk_Reader = \<lparr>chunks = [[22], [3]], closing = EOF\<rparr>, lk_Writer = Plain ()\<rparr> [] = Some (Inr (lw, online, Some (Inr ((out, c'), r, p'))))
      \<and> link_pending r = [22, 3] \<and> ob_OriginalTarget (last (dc_outbounds c')) = TCPDestination None 80"
  unfolding Let_def
  using dispatch_link_keeps_stream [where dest = "TCPDestination None 80" and s = "\<lparr>chunks = [[22], [3]], closing = EOF\<rparr>" and p = "[]"
      and rounds = "[\<lparr>rd_done = None, rd_elapsed = 200000000\<rparr>]" and sched = "[]" and w = "Plain ()"
      and c = "\<lparr>dc_outbounds = [], dc_content = Some (zero_content\<lparr>ct_SniffingRequest := (ct_SniffingRequest zero_content)\<lparr>sr_Enabled := True\<rparr>\<rparr>), dc_inbound = None, dc_Detour = None\<rparr>"]
  by (simp add: pool_ok_def TCPDestination_def) blast

end
