(* ===== verification/Vless_Fallback.thy ===== *)
theory Vless_Fallback
  imports Net_Text Buffer "HOL-Library.AList"
begin

text \<open>
  The fallbacks of \<open>proxy/vless/inbound/inbound.go\<close>: the table that \<open>New\<close> builds from the configuration, the choice that \<open>Process\<close> makes
  from it for a connection that did not authenticate, and the PROXY protocol header in front of such a connection. The nested Go
  maps are association lists; a key is absent where the code finds nil.
\<close>

section \<open>The table\<close>

record Fallback =
  fb_Name :: gostring
  fb_Alpn :: gostring
  fb_Path :: gostring
  fb_Type :: gostring
  fb_Dest :: gostring
  fb_Xver :: nat

type_synonym path_table = "(gostring \<times> Fallback) list"
type_synonym alpn_table = "(gostring \<times> path_table) list"
type_synonym name_table = "(gostring \<times> alpn_table) list"

text \<open>An entry that is made when it is absent.\<close>

definition entry_or_new :: "(gostring \<times> 'a list) list \<Rightarrow> gostring \<Rightarrow> 'a list" where
  "entry_or_new m k = (case map_of m k of None \<Rightarrow> [] | Some v \<Rightarrow> v)"

fun add_fallbacks :: "Fallback list \<Rightarrow> name_table \<Rightarrow> name_table" where
  "add_fallbacks [] t = t"
| "add_fallbacks (fb # fbs) t =
     (let apfb = entry_or_new t (fb_Name fb); pfb = entry_or_new apfb (fb_Alpn fb)
      in add_fallbacks fbs (AList.update (fb_Name fb) (AList.update (fb_Alpn fb) (AList.update (fb_Path fb) fb pfb) apfb) t))"

text \<open>The entries of \<open>src\<close> are put where \<open>m\<close> has none.\<close>

fun fill_absent :: "(gostring \<times> 'a) list \<Rightarrow> (gostring \<times> 'a) list \<Rightarrow> (gostring \<times> 'a) list" where
  "fill_absent [] m = m"
| "fill_absent ((k, v) # src) m = fill_absent src (if map_of m k = None then AList.update k v m else m)"

definition share_alpns :: "name_table \<Rightarrow> name_table" where
  "share_alpns t =
     (case map_of t [] of
        None \<Rightarrow> t
      | Some dapfb \<Rightarrow> map (\<lambda>(name, apfb). (name, if name \<noteq> [] then fill_absent (map (\<lambda>(alpn, _). (alpn, [])) dapfb) apfb else apfb)) t)"

definition share_paths :: "name_table \<Rightarrow> name_table" where
  "share_paths t =
     map (\<lambda>(name, apfb). (name,
       case map_of apfb [] of
         None \<Rightarrow> apfb
       | Some dpfb \<Rightarrow> map (\<lambda>(alpn, pfb). (alpn, if alpn \<noteq> [] then fill_absent dpfb pfb else pfb)) apfb)) t"

text \<open>Storing into a nil map panics.\<close>

fun share_default :: "alpn_table \<Rightarrow> alpn_table \<Rightarrow> alpn_table option" where
  "share_default [] apfb = Some apfb"
| "share_default ((alpn, pfb) # rest) apfb =
     (case map_of apfb alpn of
        None \<Rightarrow> if pfb = [] then share_default rest apfb else None
      | Some q \<Rightarrow> share_default rest (AList.update alpn (fill_absent pfb q) apfb))"

fun share_names :: "alpn_table \<Rightarrow> name_table \<Rightarrow> name_table option" where
  "share_names dapfb [] = Some []"
| "share_names dapfb ((name, apfb) # t) =
     Option.bind (if name \<noteq> [] then share_default dapfb apfb else Some apfb) (\<lambda>a. map_option (\<lambda>t'. (name, a) # t') (share_names dapfb t))"

definition new_fallbacks :: "Fallback list \<Rightarrow> name_table option" where
  "new_fallbacks fbs =
     (let t = share_paths (share_alpns (add_fallbacks fbs []))
      in case map_of t [] of None \<Rightarrow> Some t | Some dapfb \<Rightarrow> share_names dapfb t)"

section \<open>The choice\<close>

fun str_contains :: "gostring \<Rightarrow> gostring \<Rightarrow> bool" where
  "str_contains [] n = (n = [])"
| "str_contains (c # cs) n = (take (length n) (c # cs) = n \<or> str_contains cs n)"

fun longest_in :: "gostring \<Rightarrow> gostring list \<Rightarrow> gostring \<Rightarrow> gostring" where
  "longest_in name [] match = match"
| "longest_in name (n # ns) match = longest_in name ns (if n \<noteq> [] \<and> str_contains name n \<and> length n > length match then n else match)"

definition pick_name :: "name_table \<Rightarrow> gostring \<Rightarrow> gostring" where
  "pick_name t name =
     (let name1 = (if length t > 1 \<or> map_of t [] = None
                   then (if name \<noteq> [] \<and> map_of t name = None then longest_in name (map fst t) [] else name) else name)
      in if map_of t name1 = None then [] else name1)"

text \<open>Where the path of an HTTP request starts, and its length up to the end of the path.\<close>

fun path_start :: "byte list \<Rightarrow> nat list \<Rightarrow> nat option option" where
  "path_start bs [] = Some None"
| "path_start bs (i # is) =
     Option.bind (index bs (int i)) (\<lambda>x.
       if x = 47 then Option.bind (index bs (int i - 1)) (\<lambda>y. if y = 32 then Some (Some i) else path_start bs is)
       else path_start bs is)"

fun path_stop :: "byte list \<Rightarrow> nat option" where
  "path_stop [] = None"
| "path_stop (k # ks) = (if k = 13 \<or> k = 10 then None else if k = 63 \<or> k = 32 then Some 0 else map_option Suc (path_stop ks))"

definition pick_path :: "path_table \<Rightarrow> int \<Rightarrow> Buffer \<Rightarrow> gostring option" where
  "pick_path pfb firstLen first =
     (if (length pfb > 1 \<or> map_of pfb [] = None) \<and> firstLen \<ge> 18 then
        Option.bind (Byte first 4) (\<lambda>c.
          if c = 42 then Some []
          else Option.bind (Bytes first) (\<lambda>bs. Option.bind (path_start bs [4, 5, 6, 7, 8]) (\<lambda>s.
            case s of
              None \<Rightarrow> Some []
            | Some i \<Rightarrow>
                (case path_stop (drop (i + 1) (take 64 bs)) of
                   None \<Rightarrow> Some []
                 | Some k \<Rightarrow> let path = take (k + 1) (drop i bs) in Some (if map_of pfb path = None then [] else path)))))
      else Some [])"

definition select_fallback :: "(gostring \<Rightarrow> gostring) \<Rightarrow> name_table \<Rightarrow> gostring \<Rightarrow> gostring \<Rightarrow> int \<Rightarrow> Buffer \<Rightarrow> (goerr + Fallback) option" where
  "select_fallback lower napfb serverName negotiated firstLen first =
     (case map_of napfb (pick_name napfb (lower serverName)) of
        None \<Rightarrow> Some (Inl (ENew ''failed to find the default name config'' None))
      | Some apfb \<Rightarrow>
          (let alpn = (if map_of apfb (lower negotiated) = None then [] else lower negotiated)
           in case map_of apfb alpn of
                None \<Rightarrow> Some (Inl (ENew ''failed to find the default alpn config'' None))
              | Some pfb \<Rightarrow>
                  Option.bind (pick_path pfb firstLen first) (\<lambda>path.
                    Some (case map_of pfb path of
                            None \<Rightarrow> Inl (ENew ''failed to find the default path config'' None)
                          | Some fb \<Rightarrow> Inr fb))))"

section \<open>The PROXY protocol\<close>

text \<open>\<open>strconv.ParseUint(s, 10, 16)\<close> with the error ignored: 0 for no number, the maximum for one that is too big.\<close>

definition port_number :: "gostring \<Rightarrow> nat" where
  "port_number s = (if s = [] \<or> \<not> list_all is_digit s then 0 else min 65535 (decimal_value s))"

text \<open>\<open>net.ParseIP(s).To4()\<close> and \<open>To16()\<close>; nil is the empty slice.\<close>

definition parse_To4 :: "gostring \<Rightarrow> byte list" where
  "parse_To4 s = (case ParseIP s of None \<Rightarrow> [] | Some a \<Rightarrow> if take 12 a = replicate 10 0 @ [255, 255] then drop 12 a else [])"

definition parse_To16 :: "gostring \<Rightarrow> byte list" where
  "parse_To16 s = (case ParseIP s of None \<Rightarrow> [] | Some a \<Rightarrow> a)"

definition pro_Write :: "byte list \<Rightarrow> Buffer \<Rightarrow> Buffer option" where
  "pro_Write d b = map_option snd (Write b d)"

definition ip_type :: "gostring \<Rightarrow> gostring \<Rightarrow> nat" where
  "ip_type remote loc =
     (case SplitHostPort remote of Inl _ \<Rightarrow> 0
      | Inr (remoteAddr, _) \<Rightarrow> (case SplitHostPort loc of Inl _ \<Rightarrow> 0 | Inr _ \<Rightarrow> if 58 \<in> set remoteAddr then 6 else 4))"

definition host_of :: "gostring \<Rightarrow> gostring" where
  "host_of s = (case SplitHostPort s of Inl _ \<Rightarrow> [] | Inr (h, _) \<Rightarrow> h)"

definition port_of :: "gostring \<Rightarrow> gostring" where
  "port_of s = (case SplitHostPort s of Inl _ \<Rightarrow> [] | Inr (_, q) \<Rightarrow> q)"

definition proxy_v1 :: "nat \<Rightarrow> gostring \<Rightarrow> gostring \<Rightarrow> Buffer \<Rightarrow> Buffer option" where
  "proxy_v1 ipType remote loc pro =
     (if ipType = 0 then pro_Write (str ''PROXY UNKNOWN'' @ [13, 10]) pro
      else pro_Write ((if ipType = 4 then str ''PROXY TCP4 '' else str ''PROXY TCP6 '') @ host_of remote @ [32] @ host_of loc @ [32]
             @ port_of remote @ [32] @ port_of loc @ [13, 10]) pro)"

definition proxy_v2 :: "nat \<Rightarrow> gostring \<Rightarrow> gostring \<Rightarrow> Buffer \<Rightarrow> Buffer option" where
  "proxy_v2 ipType remote loc pro =
     Option.bind (pro_Write [0x0d, 0x0a, 0x0d, 0x0a, 0, 0x0d, 0x0a, 0x51, 0x55, 0x49, 0x54, 0x0a] pro) (\<lambda>b1.
       if ipType = 0 then pro_Write [0x20, 0, 0, 0] b1
       else Option.bind (pro_Write (if ipType = 4 then [0x21, 0x11, 0, 0x0c] else [0x21, 0x21, 0, 0x24]) b1) (\<lambda>b2.
         let ip = (if ipType = 4 then parse_To4 else parse_To16); p1 = port_number (port_of remote); p2 = port_number (port_of loc)
         in Option.bind (pro_Write (ip (host_of remote)) b2) (\<lambda>b3. Option.bind (pro_Write (ip (host_of loc)) b3) (\<lambda>b4.
              pro_Write (PutUint16 (word_of_nat p1) @ PutUint16 (word_of_nat p2)) b4))))"

definition proxy_header :: "nat \<Rightarrow> gostring \<Rightarrow> gostring \<Rightarrow> Buffer \<Rightarrow> Buffer option" where
  "proxy_header xver remote loc pro =
     (if xver = 1 then proxy_v1 (ip_type remote loc) remote loc pro
      else if xver = 2 then proxy_v2 (ip_type remote loc) remote loc pro
      else Some pro)"

section \<open>What the table holds\<close>

definition lookup3 :: "name_table \<Rightarrow> gostring \<Rightarrow> gostring \<Rightarrow> gostring \<Rightarrow> Fallback option" where
  "lookup3 t n a p = Option.bind (map_of t n) (\<lambda>apfb. Option.bind (map_of apfb a) (\<lambda>pfb. map_of pfb p))"

definition alpns :: "name_table \<Rightarrow> gostring \<Rightarrow> gostring \<Rightarrow> bool" where
  "alpns t n a \<longleftrightarrow> (\<exists>apfb. map_of t n = Some apfb \<and> map_of apfb a \<noteq> None)"

text \<open>The last configured fallback for exactly these values; the values for which there are any.\<close>

definition exact :: "Fallback list \<Rightarrow> gostring \<Rightarrow> gostring \<Rightarrow> gostring \<Rightarrow> Fallback option" where
  "exact fbs n a p = find (\<lambda>fb. fb_Name fb = n \<and> fb_Alpn fb = a \<and> fb_Path fb = p) (rev fbs)"

definition has_name :: "Fallback list \<Rightarrow> gostring \<Rightarrow> bool" where
  "has_name fbs n = list_ex (\<lambda>fb. fb_Name fb = n) fbs"

definition has_alpn :: "Fallback list \<Rightarrow> gostring \<Rightarrow> gostring \<Rightarrow> bool" where
  "has_alpn fbs n a = list_ex (\<lambda>fb. fb_Name fb = n \<and> fb_Alpn fb = a) fbs"

definition or_else :: "'a option \<Rightarrow> 'a option \<Rightarrow> 'a option" where
  "or_else x y = (case x of None \<Rightarrow> y | Some _ \<Rightarrow> x)"

definition resolved :: "Fallback list \<Rightarrow> gostring \<Rightarrow> gostring \<Rightarrow> gostring \<Rightarrow> Fallback option" where
  "resolved fbs n a p =
     or_else (or_else (exact fbs n a p) (exact fbs n [] p))
       (if has_alpn fbs [] a then or_else (exact fbs [] a p) (exact fbs [] [] p) else None)"

lemma or_else_simps [simp]: "or_else None y = y" "or_else (Some v) y = Some v" "or_else y None = y" "or_else y y = y"
  by (simp_all add: or_else_def split: option.split)

lemma find_snoc: "find P (xs @ [x]) = or_else (find P xs) (if P x then Some x else None)"
  by (induction xs) simp_all

lemma or_else_assoc: "or_else (or_else x y) z = or_else x (or_else y z)"
  by (simp add: or_else_def split: option.split)

lemma map_of_map_snd: "map_of (map (\<lambda>(k, v). (k, f k v)) t) n = map_option (f n) (map_of t n)"
  by (induction t) auto

lemma map_of_fill: "map_of (fill_absent src m) k = or_else (map_of m k) (map_of src k)"
proof (induction src m rule: fill_absent.induct)
  case (2 k' v src m)
  then show ?case by (cases "map_of m k'") (auto simp: update_conv' or_else_def split: option.split)
qed simp


lemma exact_Cons: "exact (fb # fbs) n a p = or_else (exact fbs n a p) (if fb_Name fb = n \<and> fb_Alpn fb = a \<and> fb_Path fb = p then Some fb else None)"
  by (simp add: exact_def find_snoc)

lemma lookup3_update:
  "lookup3 (AList.update n (AList.update a (AList.update p fb (entry_or_new (entry_or_new t n) a)) (entry_or_new t n)) t) n' a' p'
     = (if n' = n \<and> a' = a \<and> p' = p then Some fb else lookup3 t n' a' p')"
  by (auto simp: lookup3_def update_conv' entry_or_new_def split: option.split)

lemma lookup3_add: "lookup3 (add_fallbacks fbs t) n a p = or_else (exact fbs n a p) (lookup3 t n a p)"
proof (induction fbs t rule: add_fallbacks.induct)
  case (2 fb fbs t)
  then show ?case by (simp add: Let_def lookup3_update exact_Cons or_else_assoc)
qed (simp add: exact_def)

lemma alpns_update:
  "alpns (AList.update n (AList.update a pfb (entry_or_new t n)) t) n' a' \<longleftrightarrow> n' = n \<and> a' = a \<or> alpns t n' a'"
  by (auto simp: alpns_def update_conv' entry_or_new_def split: option.split)

lemma alpns_add: "alpns (add_fallbacks fbs t) n a \<longleftrightarrow> has_alpn fbs n a \<or> alpns t n a"
  by (induction fbs t rule: add_fallbacks.induct) (auto simp: Let_def alpns_update has_alpn_def)

lemma names_add: "map_of (add_fallbacks fbs t) n \<noteq> None \<longleftrightarrow> has_name fbs n \<or> map_of t n \<noteq> None"
  by (induction fbs t rule: add_fallbacks.induct) (auto simp: Let_def update_conv' has_name_def)

text \<open>The three passes over the table.\<close>

lemma names_share_alpns: "map_of (share_alpns t) n = None \<longleftrightarrow> map_of t n = None"
  by (simp add: share_alpns_def map_of_map_snd split: option.split)

lemma map_of_empties: "map_of (map (\<lambda>(alpn, _). (alpn, [])) d) a = map_option (\<lambda>_. []) (map_of d a)"
  by (rule map_of_map_snd)

lemma alpns_share_alpns:
  "alpns (share_alpns t) n a \<longleftrightarrow> alpns t n a \<or> n \<noteq> [] \<and> map_of t n \<noteq> None \<and> alpns t [] a"
  by (cases "map_of t []"; cases "map_of t n")
     (auto simp: share_alpns_def alpns_def map_of_map_snd map_of_fill map_of_empties or_else_def split: option.splits)

lemma lookup3_share_alpns: "lookup3 (share_alpns t) n a p = lookup3 t n a p"
proof (cases "map_of t []")
  case (Some d)
  have "Option.bind (map_option (\<lambda>_. []) (map_of d a)) (\<lambda>pfb. map_of pfb p) = (None :: Fallback option)" by (cases "map_of d a") simp_all
  then show ?thesis using Some
    by (cases "map_of t n") (auto simp: share_alpns_def lookup3_def map_of_map_snd map_of_fill map_of_empties or_else_def split: option.splits)
qed (simp add: share_alpns_def)

lemma names_share_paths: "map_of (share_paths t) n = None \<longleftrightarrow> map_of t n = None"
  by (simp add: share_paths_def map_of_map_snd)

lemma alpns_share_paths: "alpns (share_paths t) n a \<longleftrightarrow> alpns t n a"
  by (cases "map_of t n") (auto simp: share_paths_def alpns_def map_of_map_snd split: option.splits)

lemma lookup3_share_paths:
  "lookup3 (share_paths t) n a p = (if alpns t n a then or_else (lookup3 t n a p) (lookup3 t n [] p) else None)"
proof (cases "map_of t n")
  case (Some apfb)
  then show ?thesis
    by (cases "map_of apfb []"; cases "map_of apfb a")
       (auto simp: share_paths_def lookup3_def alpns_def map_of_map_snd map_of_fill)
qed (simp add: share_paths_def lookup3_def alpns_def map_of_map_snd)

lemma share_default_ok:
  "\<forall>a \<in> fst ` set d. map_of apfb a \<noteq> None \<Longrightarrow> distinct (map fst d) \<Longrightarrow>
    \<exists>r. share_default d apfb = Some r \<and> (\<forall>a. map_of r a = (case map_of apfb a of None \<Rightarrow> None
      | Some q \<Rightarrow> Some (case map_of d a of None \<Rightarrow> q | Some pfb \<Rightarrow> fill_absent pfb q)))"
proof (induction d apfb rule: share_default.induct)
  case (2 alpn pfb rest apfb)
  then obtain q where q: "map_of apfb alpn = Some q" by auto
  let ?u = "AList.update alpn (fill_absent pfb q) apfb"
  have "\<forall>a \<in> fst ` set rest. map_of ?u a \<noteq> None" "distinct (map fst rest)" using 2(3,4) by (auto simp: update_conv')
  from 2(2) [OF q this] obtain r where r: "share_default rest ?u = Some r"
    "\<forall>a. map_of r a = (case map_of ?u a of None \<Rightarrow> None | Some q \<Rightarrow> Some (case map_of rest a of None \<Rightarrow> q | Some pfb \<Rightarrow> fill_absent pfb q))" by blast
  have "map_of rest alpn = None" using 2(4) by (simp add: map_of_eq_None_iff)
  then show ?case using q r by (auto simp: update_conv' split: option.split)
qed (auto split: option.split)


definition keys_ok :: "name_table \<Rightarrow> bool" where
  "keys_ok t \<longleftrightarrow> (\<forall>n apfb. map_of t n = Some apfb \<longrightarrow> distinct (map fst apfb))"

lemma keys_ok_add: "keys_ok t \<Longrightarrow> keys_ok (add_fallbacks fbs t)"
proof (induction fbs t rule: add_fallbacks.induct)
  case (2 fb fbs t)
  have "distinct (map fst (entry_or_new t (fb_Name fb)))" using 2(2) by (simp add: keys_ok_def entry_or_new_def split: option.split)
  then show ?case using 2(2) by (simp add: Let_def) (rule 2(1), auto simp: keys_ok_def update_conv' distinct_update)
qed simp

lemma distinct_fill: "distinct (map fst m) \<Longrightarrow> distinct (map fst (fill_absent src m))"
  by (induction src m rule: fill_absent.induct) (simp_all add: distinct_update)

lemma keys_ok_share_alpns: "keys_ok t \<Longrightarrow> keys_ok (share_alpns t)"
  by (auto simp: keys_ok_def share_alpns_def map_of_map_snd distinct_fill split: option.split)

lemma keys_ok_share_paths: "keys_ok t \<Longrightarrow> keys_ok (share_paths t)"
  by (auto simp: keys_ok_def share_paths_def map_of_map_snd o_def case_prod_beta split: option.split)

lemma share_names_ok:
  assumes "\<And>n apfb. (n, apfb) \<in> set t \<Longrightarrow> n \<noteq> [] \<Longrightarrow> \<exists>r. share_default d apfb = Some r"
  shows "\<exists>t'. share_names d t = Some t' \<and> (\<forall>n. map_of t' n = (if n = [] then map_of t n else Option.bind (map_of t n) (share_default d)))"
  using assms
proof (induction t)
  case (Cons x t)
  obtain n apfb where x: "x = (n, apfb)" by (cases x)
  obtain t' where t': "share_names d t = Some t'" "\<forall>n. map_of t' n = (if n = [] then map_of t n else Option.bind (map_of t n) (share_default d))"
    using Cons by (metis list.set_intros(2))
  show ?case
  proof (cases "n = []")
    case False
    then obtain r where "share_default d apfb = Some r" using Cons(2) [of n apfb] x by auto
    then show ?thesis using False t' x by auto
  qed (use t' x in auto)
qed simp

text \<open>Every name has at least the protocols of the empty name when the last pass begins, so nothing is stored into a nil map.\<close>

lemma share_names_table:
  assumes "map_of t [] = Some d" "distinct (map fst d)" "distinct (map fst t)"
    and "\<And>n a. map_of t n \<noteq> None \<Longrightarrow> alpns t [] a \<Longrightarrow> alpns t n a"
  shows "\<exists>t'. share_names d t = Some t' \<and> (\<forall>n. map_of t' n = None \<longleftrightarrow> map_of t n = None) \<and> (\<forall>n a. alpns t' n a \<longleftrightarrow> alpns t n a)
    \<and> (\<forall>n a p. lookup3 t' n a p = (if n \<noteq> [] \<and> map_of t n \<noteq> None then or_else (lookup3 t n a p) (lookup3 t [] a p) else lookup3 t n a p))"
proof -
  have sd: "\<exists>r. share_default d apfb = Some r \<and> (\<forall>a. map_of r a = (case map_of apfb a of None \<Rightarrow> None
      | Some q \<Rightarrow> Some (case map_of d a of None \<Rightarrow> q | Some pfb \<Rightarrow> fill_absent pfb q))) \<and> (\<forall>a. map_of apfb a = None \<longrightarrow> map_of d a = None)"
    if "map_of t n = Some apfb" for n apfb
  proof -
    have "map_of d a = None" if "map_of apfb a = None" for a
      using assms(1) assms(4) [of n a] \<open>map_of t n = Some apfb\<close> that by (cases "map_of d a") (auto simp: alpns_def)
    then have none: "\<forall>a. map_of apfb a = None \<longrightarrow> map_of d a = None" by blast
    then have "\<forall>a \<in> fst ` set d. map_of apfb a \<noteq> None" by (auto simp: map_of_eq_None_iff)
    from share_default_ok [OF this assms(2)] show ?thesis using none by blast
  qed
  have "\<exists>r. share_default d apfb = Some r" if "(n, apfb) \<in> set t" for n apfb
    using sd [of n apfb] that assms(3) by (auto simp: map_of_is_SomeI)
  then obtain t' where t': "share_names d t = Some t'"
    "\<forall>n. map_of t' n = (if n = [] then map_of t n else Option.bind (map_of t n) (share_default d))" using share_names_ok [of t d] by blast
  have names: "map_of t' n = None \<longleftrightarrow> map_of t n = None" for n
    using t'(2) sd [of n] by (cases "map_of t n") (auto simp: bind_eq_None_conv)
  have entry: "alpns t' n a = alpns t n a \<and>
      lookup3 t' n a p = (if n \<noteq> [] \<and> map_of t n \<noteq> None then or_else (lookup3 t n a p) (lookup3 t [] a p) else lookup3 t n a p)" for n a p
  proof (cases "n = [] \<or> map_of t n = None")
    case True
    then have "map_of t' n = map_of t n" using t'(2) by auto
    then show ?thesis using True by (auto simp: alpns_def lookup3_def)
  next
    case False
    then obtain apfb where ap: "map_of t n = Some apfb" by blast
    obtain r where r: "share_default d apfb = Some r" "\<forall>a. map_of r a = (case map_of apfb a of None \<Rightarrow> None
      | Some q \<Rightarrow> Some (case map_of d a of None \<Rightarrow> q | Some pfb \<Rightarrow> fill_absent pfb q))" "\<forall>a. map_of apfb a = None \<longrightarrow> map_of d a = None"
      using sd [OF ap] by blast
    then have "map_of t' n = Some r" using t'(2) ap False by simp
    then show ?thesis using r(2,3) ap assms(1) False
      by (cases "map_of apfb a"; cases "map_of d a") (auto simp: alpns_def lookup3_def map_of_fill)
  qed
  show ?thesis using t'(1) names entry by blast
qed


lemma distinct_add: "distinct (map fst t) \<Longrightarrow> distinct (map fst (add_fallbacks fbs t))"
  by (induction fbs t rule: add_fallbacks.induct) (simp_all add: Let_def distinct_update)

lemma fst_share_alpns: "map fst (share_alpns t) = map fst t"
  by (auto simp: share_alpns_def split: option.split)

lemma fst_share_paths: "map fst (share_paths t) = map fst t"
  by (auto simp: share_paths_def)

lemma exact_has: "exact fbs n a p = Some fb \<Longrightarrow> fb \<in> set fbs \<and> fb_Name fb = n \<and> fb_Alpn fb = a \<and> fb_Path fb = p"
  by (auto simp: exact_def find_Some_iff in_set_conv_nth rev_nth intro!: exI [of _ "length fbs - Suc i" for i])

lemma has_alpn_name: "has_alpn fbs n a \<Longrightarrow> has_name fbs n"
  by (auto simp: has_alpn_def has_name_def list_ex_iff)

lemma exact_alpn: "exact fbs n a p \<noteq> None \<Longrightarrow> has_alpn fbs n a"
  using exact_has by (fastforce simp: has_alpn_def list_ex_iff)

lemma new_fallbacks_ok:
  "\<exists>t. new_fallbacks fbs = Some t \<and> (\<forall>n. map_of t n \<noteq> None \<longleftrightarrow> has_name fbs n)
    \<and> (\<forall>n a. alpns t n a \<longleftrightarrow> has_name fbs n \<and> (has_alpn fbs n a \<or> has_alpn fbs [] a))
    \<and> (\<forall>n a p. lookup3 t n a p = (if has_name fbs n \<and> (has_alpn fbs n a \<or> has_alpn fbs [] a) then resolved fbs n a p else None))"
proof -
  define t1 where "t1 = add_fallbacks fbs []"
  define t3 where "t3 = share_paths (share_alpns t1)"
  have names: "map_of t3 n \<noteq> None \<longleftrightarrow> has_name fbs n" for n
    using names_add [of fbs "[]" n] by (simp add: t3_def t1_def names_share_paths names_share_alpns)
  have n1: "map_of t1 n \<noteq> None \<longleftrightarrow> has_name fbs n" for n using names_add [of fbs "[]" n] by (simp add: t1_def)
  have a1: "alpns t1 n a \<longleftrightarrow> has_alpn fbs n a" for n a using alpns_add [of fbs "[]" n a] by (simp add: t1_def alpns_def)
  have a3: "alpns t3 n a \<longleftrightarrow> has_name fbs n \<and> (has_alpn fbs n a \<or> has_alpn fbs [] a)" for n a
    unfolding t3_def alpns_share_paths alpns_share_alpns a1 n1 using has_alpn_name by blast
  have l1: "lookup3 t1 n a p = exact fbs n a p" for n a p using lookup3_add [of fbs "[]" n a p] by (simp add: t1_def lookup3_def)
  have l3: "lookup3 t3 n a p = (if alpns t3 n a then or_else (exact fbs n a p) (exact fbs n [] p) else None)" for n a p
    by (simp add: t3_def lookup3_share_paths lookup3_share_alpns l1 alpns_share_paths)
  have d3: "distinct (map fst t3)" by (simp add: t3_def t1_def fst_share_paths fst_share_alpns distinct_add)
  have "keys_ok []" by (simp add: keys_ok_def)
  then have k3: "keys_ok t3" unfolding t3_def t1_def by (intro keys_ok_share_paths keys_ok_share_alpns keys_ok_add)
  show ?thesis
  proof (cases "map_of t3 []")
    case None
    then have no: "\<not> has_name fbs []" using names by blast
    then have "\<not> has_alpn fbs [] a" for a using has_alpn_name by blast
    then have "lookup3 t3 n a p = (if has_name fbs n \<and> (has_alpn fbs n a \<or> has_alpn fbs [] a) then resolved fbs n a p else None)" for n a p
      by (simp add: l3 a3 resolved_def)
    then show ?thesis using None names a3 by (intro exI [of _ t3]) (simp add: new_fallbacks_def t3_def [symmetric] t1_def [symmetric])
  next
    case (Some d)
    have d: "distinct (map fst d)" using k3 Some by (simp add: keys_ok_def)
    obtain t' where t': "share_names d t3 = Some t'" "\<forall>n. map_of t' n = None \<longleftrightarrow> map_of t3 n = None" "\<forall>n a. alpns t' n a \<longleftrightarrow> alpns t3 n a"
      "\<forall>n a p. lookup3 t' n a p = (if n \<noteq> [] \<and> map_of t3 n \<noteq> None then or_else (lookup3 t3 n a p) (lookup3 t3 [] a p) else lookup3 t3 n a p)"
      using share_names_table [OF Some d d3] names a3 by blast
    have "lookup3 t' n a p = (if has_name fbs n \<and> (has_alpn fbs n a \<or> has_alpn fbs [] a) then resolved fbs n a p else None)" for n a p
    proof -
      have h: "has_alpn fbs [] a \<Longrightarrow> has_name fbs []" by (rule has_alpn_name)
      have e: "exact fbs n a p = None" "n = [] \<Longrightarrow> exact fbs n [] p = exact fbs [] [] p" if "\<not> has_alpn fbs n a" using exact_alpn that by blast+
      show ?thesis using t'(4) names h by (auto simp: l3 a3 resolved_def)
    qed
    then show ?thesis using Some names a3 t'
      by (intro exI [of _ t']) (simp add: new_fallbacks_def t3_def [symmetric] t1_def [symmetric])
  qed
qed


section \<open>The choice as a specification\<close>

text \<open>The configured name for a server name: itself, or a longest configured part of it, or the empty name.\<close>

definition best_name :: "Fallback list \<Rightarrow> gostring \<Rightarrow> gostring \<Rightarrow> bool" where
  "best_name fbs name n \<longleftrightarrow>
     (if has_name fbs name then n = name
      else if \<exists>m. m \<noteq> [] \<and> has_name fbs m \<and> str_contains name m
      then n \<noteq> [] \<and> has_name fbs n \<and> str_contains name n \<and> (\<forall>m. has_name fbs m \<and> str_contains name m \<longrightarrow> length m \<le> length n)
      else n = [])"

definition request_path :: "byte list \<Rightarrow> gostring option" where
  "request_path bs =
     (if length bs < 18 \<or> bs ! 4 = 42 then None
      else Option.bind (find (\<lambda>i. bs ! i = 47 \<and> bs ! (i - 1) = 32) [4, 5, 6, 7, 8]) (\<lambda>i.
        map_option (\<lambda>k. take (k + 1) (drop i bs)) (path_stop (drop (i + 1) (take 64 bs)))))"

definition choice_for :: "Fallback list \<Rightarrow> gostring \<Rightarrow> gostring \<Rightarrow> byte list \<Rightarrow> goerr + Fallback" where
  "choice_for fbs n negotiated bs =
     (let a = (if has_alpn fbs n negotiated \<or> has_alpn fbs [] negotiated then negotiated else []);
          p = (case request_path bs of None \<Rightarrow> [] | Some q \<Rightarrow> if resolved fbs n a q = None then [] else q)
      in if \<not> has_name fbs n then Inl (ENew ''failed to find the default name config'' None)
         else if \<not> has_alpn fbs n a \<and> \<not> has_alpn fbs [] a then Inl (ENew ''failed to find the default alpn config'' None)
         else case resolved fbs n a p of None \<Rightarrow> Inl (ENew ''failed to find the default path config'' None) | Some fb \<Rightarrow> Inr fb)"

lemma longest_in_ok:
  assumes "match = [] \<or> match \<in> S \<and> str_contains name match" "\<forall>m \<in> S. m \<noteq> [] \<and> str_contains name m \<longrightarrow> m \<in> set ns \<or> length m \<le> length match" "set ns \<subseteq> S"
  shows "(longest_in name ns match = [] \<or> longest_in name ns match \<in> S \<and> str_contains name (longest_in name ns match))
    \<and> (\<forall>m \<in> S. m \<noteq> [] \<and> str_contains name m \<longrightarrow> length m \<le> length (longest_in name ns match))"
  using assms
proof (induction ns arbitrary: match)
  case (Cons n ns)
  let ?m = "if n \<noteq> [] \<and> str_contains name n \<and> length n > length match then n else match"
  have "(longest_in name ns ?m = [] \<or> longest_in name ns ?m \<in> S \<and> str_contains name (longest_in name ns ?m))
    \<and> (\<forall>m \<in> S. m \<noteq> [] \<and> str_contains name m \<longrightarrow> length m \<le> length (longest_in name ns ?m))"
    by (rule Cons(1)) (use Cons(2-4) in auto)
  then show ?case by simp
qed auto

lemma contains_Nil: "str_contains [] m \<longleftrightarrow> m = []"
  by simp

lemma pick_name_ok:
  assumes "\<And>n. map_of t n \<noteq> None \<longleftrightarrow> has_name fbs n"
  shows "best_name fbs name (pick_name t name)"
proof (cases "has_name fbs name")
  case True
  then have "map_of t name \<noteq> None" using assms by blast
  then show ?thesis using True by (auto simp: best_name_def pick_name_def Let_def)
next
  case False
  then have no: "map_of t name = None" using assms by blast
  have keys: "n \<in> set (map fst t) \<longleftrightarrow> has_name fbs n" for n using assms [of n] by (simp add: map_of_eq_None_iff)
  let ?l = "longest_in name (map fst t) []"
  have l: "?l = [] \<or> has_name fbs ?l \<and> str_contains name ?l" "\<And>m. m \<noteq> [] \<Longrightarrow> has_name fbs m \<Longrightarrow> str_contains name m \<Longrightarrow> length m \<le> length ?l"
    using longest_in_ok [of "[]" "Collect (has_name fbs)" name "map fst t"] keys by blast+
  have best: "best_name fbs name ?l"
  proof (cases "\<exists>m. m \<noteq> [] \<and> has_name fbs m \<and> str_contains name m")
    case True
    then have ne: "?l \<noteq> []" using l(2) by force
    have "length m \<le> length ?l" if "has_name fbs m" "str_contains name m" for m using l(2) that by (cases "m = []") auto
    then show ?thesis using ne l(1) True False by (simp add: best_name_def)
  next
    case none: False
    then have "?l = []" using l(1) by blast
    then show ?thesis using none False by (simp add: best_name_def)
  qed
  have "pick_name t name = ?l"
  proof (cases "length t > 1 \<or> map_of t [] = None")
    case True
    show ?thesis
    proof (cases "name = []")
      case e: True
      then have "?l = []" using l(1) by auto
      then show ?thesis using e no by (simp add: pick_name_def Let_def)
    next
      case ne: False
      have "map_of t ?l = None \<Longrightarrow> ?l = []" using l(1) assms by blast
      then show ?thesis using ne True no by (auto simp: pick_name_def Let_def)
    qed
  next
    case one: False
    then obtain x where x: "t = [([], x)]" by (cases t) (auto split: if_splits)
    have "?l = []" by (simp add: x)
    then show ?thesis using one no by (auto simp: pick_name_def Let_def)
  qed
  then show ?thesis using best by simp
qed


lemma index_nth: "i < length bs \<Longrightarrow> index bs (int i) = Some (bs ! i)"
  by (simp add: index_def)

lemma path_start_find:
  assumes "\<forall>i \<in> set is. 0 < i \<and> i < length bs"
  shows "path_start bs is = Some (find (\<lambda>i. bs ! i = 47 \<and> bs ! (i - 1) = 32) is)"
  using assms
proof (induction "is")
  case (Cons i "is")
  have "index bs (int i) = Some (bs ! i)" "index bs (int i - 1) = Some (bs ! (i - 1))"
    using Cons(2) index_nth [of i bs] index_nth [of "i - 1" bs] by (auto simp: of_nat_diff)
  then show ?case using Cons by simp
qed simp

lemma request_path_nonempty: "request_path bs = Some q \<Longrightarrow> q \<noteq> []"
  by (auto simp: request_path_def bind_Some_iff split: if_splits dest!: find_Some_iff [THEN iffD1])

lemma request_path_short: "\<not> 18 \<le> length bs \<Longrightarrow> request_path bs = None"
  by (simp add: request_path_def)

lemma pick_path_ok:
  assumes "buf_inv first" "firstLen = int (length (content first))"
  shows "pick_path pfb firstLen first = Some (case request_path (content first) of None \<Rightarrow> [] | Some q \<Rightarrow> if map_of pfb q = None then [] else q)"
proof (cases "(length pfb > 1 \<or> map_of pfb [] = None) \<and> firstLen \<ge> 18")
  case True
  then have l: "18 \<le> length (content first)" using assms(2) by simp
  then have "Byte first 4 = Some (content first ! 4)" using Byte_content [OF assms(1), of 4] by simp
  moreover have "path_start (content first) [4, 5, 6, 7, 8] = Some (find (\<lambda>i. content first ! i = 47 \<and> content first ! (i - 1) = 32) [4, 5, 6, 7, 8])"
    by (rule path_start_find) (use l in auto)
  moreover obtain L where L: "L = [4, 5, 6, 7, 8 :: nat]" by blast
  ultimately show ?thesis using True l Bytes_content [OF assms(1)] unfolding pick_path_def request_path_def L [symmetric]
    by (cases "find (\<lambda>i. content first ! i = 47 \<and> content first ! (i - 1) = 32) L")
       (auto simp: Let_def split: option.split)
next
  case False
  have "map_of pfb q = None" if "18 \<le> length (content first)" "q \<noteq> []" for q
  proof -
    have "\<not> 1 < length pfb" "map_of pfb [] \<noteq> None" using False that(1) assms(2) by auto
    then obtain x where "pfb = [([], x)]" by (cases pfb) (auto split: if_splits)
    then show ?thesis using that(2) by simp
  qed
  then have "(case request_path (content first) of None \<Rightarrow> [] | Some q \<Rightarrow> if map_of pfb q = None then [] else q) = []"
    using request_path_nonempty [of "content first"] by (cases "18 \<le> length (content first)") (auto simp: request_path_short split: option.split)
  moreover have "pick_path pfb firstLen first = Some []" unfolding pick_path_def if_not_P [OF False] ..
  ultimately show ?thesis by simp
qed

section \<open>Properties\<close>

lemma fallback_selected:
  assumes "buf_inv first" "firstLen = int (length (content first))"
  shows "\<exists>t n. new_fallbacks fbs = Some t \<and> best_name fbs (lower serverName) n
    \<and> select_fallback lower t serverName negotiated firstLen first = Some (choice_for fbs n (lower negotiated) (content first))"
proof -
  obtain t where t: "new_fallbacks fbs = Some t" "\<And>n. map_of t n \<noteq> None \<longleftrightarrow> has_name fbs n"
    "\<And>n a. alpns t n a \<longleftrightarrow> has_name fbs n \<and> (has_alpn fbs n a \<or> has_alpn fbs [] a)"
    "\<And>n a p. lookup3 t n a p = (if has_name fbs n \<and> (has_alpn fbs n a \<or> has_alpn fbs [] a) then resolved fbs n a p else None)"
    using new_fallbacks_ok [of fbs] by blast
  let ?n = "pick_name t (lower serverName)"
  let ?a = "if has_alpn fbs ?n (lower negotiated) \<or> has_alpn fbs [] (lower negotiated) then lower negotiated else []"
  have "select_fallback lower t serverName negotiated firstLen first = Some (choice_for fbs ?n (lower negotiated) (content first))"
  proof (cases "map_of t ?n")
    case None
    then have "\<not> has_name fbs ?n" using t(2) by blast
    then show ?thesis using None by (simp add: select_fallback_def choice_for_def Let_def)
  next
    case (Some apfb)
    then have n: "has_name fbs ?n" using t(2) by blast
    then have al: "map_of apfb a \<noteq> None \<longleftrightarrow> has_alpn fbs ?n a \<or> has_alpn fbs [] a" for a using t(3) [of ?n a] Some by (auto simp: alpns_def)
    then have a: "(if map_of apfb (lower negotiated) = None then [] else lower negotiated) = ?a" by meson
    define A where "A = ?a"
    have sel: "select_fallback lower t serverName negotiated firstLen first =
        (case map_of apfb A of
           None \<Rightarrow> Some (Inl (ENew ''failed to find the default alpn config'' None))
         | Some pfb \<Rightarrow> Option.bind (pick_path pfb firstLen first) (\<lambda>path. Some (case map_of pfb path of
             None \<Rightarrow> Inl (ENew ''failed to find the default path config'' None) | Some fb \<Rightarrow> Inr fb)))"
      unfolding select_fallback_def Let_def Some option.case a A_def ..
    have ch: "choice_for fbs ?n (lower negotiated) bs =
        (if \<not> has_alpn fbs ?n A \<and> \<not> has_alpn fbs [] A then Inl (ENew ''failed to find the default alpn config'' None)
         else case resolved fbs ?n A (case request_path bs of None \<Rightarrow> [] | Some q \<Rightarrow> if resolved fbs ?n A q = None then [] else q) of
           None \<Rightarrow> Inl (ENew ''failed to find the default path config'' None) | Some fb \<Rightarrow> Inr fb)" for bs
      using n unfolding choice_for_def Let_def A_def by simp
    show ?thesis
    proof (cases "map_of apfb A")
      case none: None
      then show ?thesis using al [of A] by (simp add: sel ch)
    next
      case pfb: (Some pfb)
      then have h: "has_alpn fbs ?n A \<or> has_alpn fbs [] A" using al [of A] by simp
      then have "map_of pfb p = resolved fbs ?n A p" for p using t(4) [of ?n A p] Some pfb n by (simp add: lookup3_def)
      then have eq: "map_of pfb = resolved fbs ?n A" by (rule ext)
      have nh: "\<not> (\<not> has_alpn fbs ?n A \<and> \<not> has_alpn fbs [] A)" using h by blast
      show ?thesis unfolding sel ch if_not_P [OF nh] pfb option.case pick_path_ok [OF assms] eq by simp
    qed
  qed
  then show ?thesis using t(1) pick_name_ok [of t fbs "lower serverName"] t(2) by blast
qed


text \<open>
  C36. For every configuration the fallback table is built without a panic, and the choice made from it is the one of this reference: the name
  is the server name, or else a longest configured part of it, or else the empty one; the protocol is the negotiated one if the name or the
  empty name has it; the path is the path of the request if there is an entry for it; and the entry is looked up first under the name,
  then under the name without a protocol, and only where the empty name has the protocol under the empty name, with and without it.
\<close>

theorem fallback_choice:
  assumes "buf_inv first" "firstLen = int (length (content first))"
  shows "\<exists>t n. new_fallbacks fbs = Some t \<and> best_name fbs (lower serverName) n
    \<and> select_fallback lower t serverName negotiated firstLen first = Some (choice_for fbs n (lower negotiated) (content first))"
  by (rule fallback_selected [OF assms])

theorem fallback_choice_witness:
  "let fbs = [\<lparr>fb_Name = [], fb_Alpn = [], fb_Path = [], fb_Type = [], fb_Dest = [49], fb_Xver = 0\<rparr>,
          \<lparr>fb_Name = [97], fb_Alpn = [], fb_Path = [47, 120], fb_Type = [], fb_Dest = [50], fb_Xver = 0\<rparr>];
       first = FromBytes (str ''GET /x HTTP/1.1'' @ [13, 10, 13, 10]) 19
   in \<exists>t n. new_fallbacks fbs = Some t \<and> best_name fbs (str ''bab'') n
        \<and> select_fallback id t (str ''bab'') [] 19 first = Some (choice_for fbs n [] (content first))"
proof -
  let ?first = "FromBytes (str ''GET /x HTTP/1.1'' @ [13, 10, 13, 10]) 19"
  have "buf_inv ?first" by (simp add: FromBytes_def buf_inv_def b_arr_def str_def)
  moreover have "19 = int (length (content ?first))" by (simp add: FromBytes_def content_def b_arr_def str_def)
  ultimately show ?thesis unfolding Let_def
    using fallback_choice [of ?first 19 _ id "str ''bab''" "[]"] by simp
qed

text \<open>
  The default fallback (no name, no protocol, no path) does not catch everything. With a second fallback for a name, a protocol and a path,
  a connection for this name and protocol but another path is refused: the default is shared with the entry of the name without a protocol,
  and only after that entry was shared with the protocols of the name.
\<close>

theorem default_fallback_missed:
  assumes "fb_Name d = []" "fb_Alpn d = []" "fb_Path d = []" "fb_Name f = n" "fb_Alpn f = a" "fb_Path f = q"
    and "n \<noteq> []" "a \<noteq> []" "q \<noteq> []" "lower serverName = n" "lower negotiated = a" "buf_inv first" "firstLen = int (length (content first))"
    and "request_path (content first) \<noteq> Some q"
  shows "\<exists>t. new_fallbacks [d, f] = Some t
    \<and> select_fallback lower t serverName negotiated firstLen first = Some (Inl (ENew ''failed to find the default path config'' None))"
proof -
  let ?fbs = "[d, f]"
  obtain t m where t: "new_fallbacks ?fbs = Some t" "best_name ?fbs (lower serverName) m"
    "select_fallback lower t serverName negotiated firstLen first = Some (choice_for ?fbs m (lower negotiated) (content first))"
    using fallback_selected [OF assms(12,13)] by blast
  have h: "has_name ?fbs n" "has_alpn ?fbs n a" "\<not> has_alpn ?fbs [] a" using assms(1-9) by (auto simp: has_name_def has_alpn_def)
  then have m: "m = n" using t(2) assms(10) by (simp add: best_name_def)
  have r: "resolved ?fbs n a p = (if p = q then Some f else None)" for p
    using assms(1-9) h(3) by (simp add: resolved_def exact_def)
  have "choice_for ?fbs n a (content first) = Inl (ENew ''failed to find the default path config'' None)"
    using h r assms(9,14) by (cases "request_path (content first)") (auto simp: choice_for_def Let_def)
  then show ?thesis using t(1,3) m assms(11) by simp
qed

theorem default_fallback_missed_witness:
  "\<exists>t. new_fallbacks [\<lparr>fb_Name = [], fb_Alpn = [], fb_Path = [], fb_Type = [], fb_Dest = [49], fb_Xver = 0\<rparr>,
        \<lparr>fb_Name = [97], fb_Alpn = [104, 50], fb_Path = [47, 120], fb_Type = [], fb_Dest = [50], fb_Xver = 0\<rparr>] = Some t
    \<and> select_fallback id t [97] [104, 50] 3 (FromBytes [1, 2, 3] 3) = Some (Inl (ENew ''failed to find the default path config'' None))"
proof -
  have "buf_inv (FromBytes [1, 2, 3] 3)" "content (FromBytes [1, 2, 3] 3) = [1, 2, 3]" by (simp_all add: FromBytes_def buf_inv_def content_def b_arr_def)
  then show ?thesis by (intro default_fallback_missed [of _ _ "[97]" "[104, 50]" "[47, 120]"]) (simp_all add: request_path_def)
qed

section \<open>The PROXY header\<close>

lemma pro_Write_fits: "buf_inv b \<Longrightarrow> length d \<le> room b \<Longrightarrow> pro_Write d b = Some (append_to b d)"
  by (simp add: pro_Write_def Write_fits)

lemma pro_Write_total:
  assumes "buf_inv b"
  shows "\<exists>b'. pro_Write d b = Some b' \<and> buf_inv b'"
  using assms by (simp add: pro_Write_def Write_content)

lemma proxy_header_total:
  assumes "buf_inv b"
  shows "\<exists>b'. proxy_header xver remote loc b = Some b' \<and> buf_inv b'"
proof -
  have step: "\<exists>b'. Option.bind (pro_Write d x) k = Some b' \<and> buf_inv b'" if "buf_inv x" "\<And>y. buf_inv y \<Longrightarrow> \<exists>b'. k y = Some b' \<and> buf_inv b'" for d x k
    using pro_Write_total [OF that(1), of d] that(2) by auto
  show ?thesis using assms unfolding proxy_header_def proxy_v1_def proxy_v2_def Let_def
    by (auto intro!: step pro_Write_total)
qed


lemma port_number_String: "port_number (Port_String p) = unat p"
proof -
  have "unat p < 65536" using unsigned_less [of p] by simp
  then show ?thesis using Itoa_digits [of "unat p"] by (simp add: port_number_def Port_String_def)
qed

lemma host_text: "text_ok a \<Longrightarrow> host_of (Address_String a @ 58 # Port_String p) = bare_text a"
  and port_text: "text_ok a \<Longrightarrow> port_of (Address_String a @ 58 # Port_String p) = Port_String p"
  by (simp_all add: host_of_def port_of_def SplitHostPort_text)

lemma ip_type_text: "text_ok a \<Longrightarrow> text_ok b \<Longrightarrow>
    ip_type (Address_String a @ 58 # Port_String p) (Address_String b @ 58 # Port_String q) = (if 58 \<in> set (bare_text a) then 6 else 4)"
  by (simp add: ip_type_def SplitHostPort_text)

text \<open>
  Version 2 of the PROXY header tells the fallback server the addresses and ports of both ends, for two IPv4 or two IPv6 addresses; the
  length in the header is that of what follows.
\<close>

lemma proxy_v2_addresses:
  assumes "a = ipv4Address x \<and> b = ipv4Address y \<or> a = ipv6Address x \<and> b = ipv6Address y" "wf_Address a" "wf_Address b" "buf_inv pro" "52 \<le> room pro"
  shows "\<exists>pro' hdr. proxy_header 2 (Address_String a @ 58 # Port_String p) (Address_String b @ 58 # Port_String q) pro = Some pro'
    \<and> content pro' = content pro @ hdr @ PutUint16 (word_of_nat (length (x @ y) + 4)) @ x @ y @ PutUint16 p @ PutUint16 q \<and> length hdr = 14"
proof -
  have ok: "text_ok a" "text_ok b" using assms(1-3) by auto
  have parse: "ip (bare_text a) = x" "ip (bare_text b) = y" "length x = length y" "length x = (if 58 \<in> set (bare_text a) then 16 else 4)"
    if "ip = (if 58 \<in> set (bare_text a) then parse_To16 else parse_To4)" for ip
  proof -
    have v4: "parse_To4 (v4_text z) = z" "58 \<notin> set (v4_text z)" if "length z = 4" for z
    proof -
      obtain b0 b1 b2 b3 where "z = [b0, b1, b2, b3]" using \<open>length z = 4\<close> by (auto simp: length_Suc_conv numeral_eq_Suc)
      then show "parse_To4 (v4_text z) = z" "58 \<notin> set (v4_text z)" using v4_text_chars [of 58] by (auto simp: parse_To4_def ParseIP_v4)
    qed
    have v6: "parse_To16 (v6_text z) = z" "58 \<in> set (v6_text z)" if "length z = 16" for z
      using that ParseIP_v6 v6_text_chars(1) by (simp_all add: parse_To16_def)
    show "ip (bare_text a) = x" "ip (bare_text b) = y" "length x = length y" "length x = (if 58 \<in> set (bare_text a) then 16 else 4)"
      using assms(1-3) v4 v6 that by auto
  qed
  define ip where "ip = (if 58 \<in> set (bare_text a) then parse_To16 else parse_To4)"
  note pr = parse [OF ip_def]
  have le: "length x \<le> 16" "length y \<le> 16" using pr(3,4) by (simp_all split: if_splits)
  let ?w = "[0x0d, 0x0a, 0x0d, 0x0a, 0, 0x0d, 0x0a, 0x51, 0x55, 0x49, 0x54, 0x0a] :: byte list"
  let ?k = "if 58 \<in> set (bare_text a) then [0x21, 0x21, 0, 0x24] else [0x21, 0x11, 0, 0x0c] :: byte list"
  have k: "?k = take 2 ?k @ PutUint16 (word_of_nat (length (x @ y) + 4))" using pr(3,4) by (auto simp: PutUint16_def)
  let ?p = "PutUint16 p @ PutUint16 q"
  have "proxy_header 2 (Address_String a @ 58 # Port_String p) (Address_String b @ 58 # Port_String q) pro
      = Option.bind (pro_Write ?w pro) (\<lambda>b1. Option.bind (pro_Write ?k b1) (\<lambda>b2. Option.bind (pro_Write x b2) (\<lambda>b3. Option.bind (pro_Write y b3) (pro_Write ?p))))"
    using pr(1,2) ok unfolding proxy_header_def proxy_v2_def ip_type_text [OF ok] Let_def host_text [OF ok(1)] host_text [OF ok(2)] port_text [OF ok(1)] port_text [OF ok(2)]
    by (cases "58 \<in> set (bare_text a)") (simp_all add: port_number_String ip_def)
  also have "\<dots> = Some (append_to (append_to (append_to (append_to (append_to pro ?w) ?k) x) y) ?p)"
    using assms(4,5) le by (simp add: pro_Write_fits PutUint16_def)
  finally show ?thesis using assms(4,5) le k
    by (intro exI [of _ "append_to (append_to (append_to (append_to (append_to pro ?w) ?k) x) y) ?p"] exI [of _ "?w @ take 2 ?k"]) (simp add: PutUint16_def)
qed

end
