(* ===== verification/Vless_Inbound.thy ===== *)
theory Vless_Inbound
  imports Vless_Fallback Vless_Header Dispatcher Mux_Handlers
begin

text \<open>
  \<open>proxy/vless/inbound/inbound.go\<close>: what the VLESS inbound does with a connection. It reads a first buffer, authenticates the client by the
  request header, hands strangers to a fallback server, and checks the flow and the command of users before their request is
  dispatched or becomes a reverse connection. The handshake of \<open>encryption\<close> comes before it (\<open>rd\<close> reads the connection after it). Logging
  and deadlines are left out.
\<close>

section \<open>Connections\<close>

text \<open>
  What the code finds out about a connection by type assertions: whether it is an encrypted \<open>CommonConn\<close> (and then whether its records are
  hidden by a \<open>XorConn\<close>), whether the transport below is raw, its TLS or REALITY layer, and the texts of its end points.
\<close>

datatype security_conn = TLSConn nat gostring gostring | RealityConn gostring gostring | OtherConn

record conn_info =
  ci_CommonConn :: "bool option"
  ci_raw :: bool
  ci_iConn :: security_conn
  ci_RemoteAddr :: gostring
  ci_LocalAddr :: gostring

fun conn_ServerName :: "security_conn \<Rightarrow> gostring" where
  "conn_ServerName (TLSConn v n a) = n"
| "conn_ServerName (RealityConn n a) = n"
| "conn_ServerName OtherConn = []"

fun conn_NegotiatedProtocol :: "security_conn \<Rightarrow> gostring" where
  "conn_NegotiatedProtocol (TLSConn v n a) = a"
| "conn_NegotiatedProtocol (RealityConn n a) = a"
| "conn_NegotiatedProtocol OtherConn = []"

text \<open>
  The \<open>BufferedReader\<close> of the connection shares the buffer \<open>first\<close>, which is released when its bytes are used up; the flag beside the
  connection says that the reader had to go on to the connection, so that \<open>first\<close> is gone.
\<close>

definition tap :: "'r mb_read \<Rightarrow> ('r \<times> bool) mb_read" where
  "tap rmb r p = map_option (\<lambda>(mb, e, r', p'). (mb, e, (r', True), p')) (rmb (fst r) p)"

definition first_now :: "('r \<times> bool) bufreader \<Rightarrow> Buffer" where
  "first_now r = (if snd (br_Reader r) then Buffer_of [] else br_first r)"

text \<open>\<open>BufferedReader.ReadMultiBuffer\<close> with the pool as an argument.\<close>

definition BR_reader :: "'r mb_read \<Rightarrow> ('r bufreader) mb_read" where
  "BR_reader rmb r p = map_option (\<lambda>(mb, e, r'). (mb, e, r', br_pool r')) (BR_ReadMultiBuffer rmb (r\<lparr>br_pool := p\<rparr>))"

section \<open>Authentication\<close>

record vless_Handler =
  vh_validator :: MemoryValidator
  vh_ohm :: Manager
  vh_fallbacks :: "name_table option"

definition read_first :: "'r io_read \<Rightarrow> 'r \<Rightarrow> pool \<Rightarrow> ((goerr + int \<times> ('r \<times> bool) bufreader) \<times> 'r \<times> pool) option" where
  "read_first rd r p =
     (case New p of (b, p1) \<Rightarrow>
        map_option (\<lambda>((firstLen, errR), first, r'). case errR of
            Some e \<Rightarrow> (Inl e, r', snd (Release (Some first) p1))
          | None \<Rightarrow> (Inr (firstLen, \<lparr>br_Reader = (r', False), br_Buffer = [Some first], br_Splitter = None, br_pool = p1\<rparr>), r', p1))
          (Buffer_ReadFrom rd (Clear b) r))"

definition authenticate ::
  "vless_Handler \<Rightarrow> unmarshaller \<Rightarrow> 'r mb_read \<Rightarrow> int \<Rightarrow> ('r \<times> bool) bufreader \<Rightarrow> pool \<Rightarrow> (decoded \<times> ('r \<times> bool) bufreader \<times> pool) option" where
  "authenticate h unmarshal rmb firstLen reader p =
     (let isfb = (vh_fallbacks h \<noteq> None)
      in if isfb \<and> firstLen < 18 then Some (Inl (ENew ''fallback directly'' None, isfb), reader, p)
         else DecodeRequestHeader isfb (MV_Get (vh_validator h)) unmarshal (BR_Read (tap rmb)) br_first br_put_first reader p)"

section \<open>Fallback\<close>

fun dial_loop :: "(nat \<Rightarrow> goerr option) \<Rightarrow> nat \<Rightarrow> nat \<Rightarrow> goerr option \<Rightarrow> goerr option" where
  "dial_loop dial attempt 0 err = err"
| "dial_loop dial attempt (Suc n) err = (case dial attempt of None \<Rightarrow> None | Some e \<Rightarrow> dial_loop dial (attempt + 1) n (Some e))"

definition post_payload ::
  "'r mb_read \<Rightarrow> 'w mb_write \<Rightarrow> ('r \<times> bool) bufreader \<Rightarrow> 'w \<Rightarrow> pool \<Rightarrow> (goerr option \<times> ('r \<times> bool) bufreader \<times> 'w \<times> pool) option" where
  "post_payload rmb wmb reader w p =
     map_option (\<lambda>(e, r', w', _, p'). (map_option (\<lambda>x. ENew ''failed to fallback request payload'' (Some x)) e, r', w', p'))
       (Copy (BR_reader (tap rmb)) wmb [] reader w () p)"

text \<open>\<open>postRequest\<close>: the buffer of the PROXY header is released by the writer.\<close>

definition postRequest ::
  "conn_info \<Rightarrow> Fallback \<Rightarrow> 'r mb_read \<Rightarrow> 'w mb_write \<Rightarrow> ('r \<times> bool) bufreader \<Rightarrow> 'w \<Rightarrow> pool \<Rightarrow>
   (goerr option \<times> ('r \<times> bool) bufreader \<times> 'w \<times> pool) option" where
  "postRequest ci fb rmb wmb reader w p =
     (if fb_Xver fb \<noteq> 0 then
        (case New p of (pro, p1) \<Rightarrow>
           Option.bind (proxy_header (fb_Xver fb) (ci_RemoteAddr ci) (ci_LocalAddr ci) pro) (\<lambda>pro1.
             Option.bind (wmb w [Some pro1] p1) (\<lambda>(e, w1, p2).
               if e \<noteq> None then Some (Some (ENew ''failed to set PROXY protocol v'' e), reader, w1, p2)
               else post_payload rmb wmb reader w1 p2)))
      else post_payload rmb wmb reader w p)"

text \<open>
  The fallback: the chosen entry, and what the request side sends to it. \<open>dial\<close> gives the result of each attempt; \<open>w\<close> is the writer of the
  connection to the fallback server. The response side is a \<open>Copy\<close> in the other direction.
\<close>

definition run_fallback ::
  "(gostring \<Rightarrow> gostring) \<Rightarrow> (Fallback \<Rightarrow> nat \<Rightarrow> goerr option) \<Rightarrow> name_table \<Rightarrow> conn_info \<Rightarrow> 'r mb_read \<Rightarrow> 'w mb_write \<Rightarrow> int \<Rightarrow>
   ('r \<times> bool) bufreader \<Rightarrow> 'w \<Rightarrow> pool \<Rightarrow> ((goerr + Fallback \<times> goerr option) \<times> 'w) option" where
  "run_fallback lower dial napfb ci rmb wmb firstLen reader w p =
     Option.bind (select_fallback lower napfb (conn_ServerName (ci_iConn ci)) (conn_NegotiatedProtocol (ci_iConn ci)) firstLen (first_now reader)) (\<lambda>s.
       case s of
         Inl e \<Rightarrow> Some (Inl e, w)
       | Inr fb \<Rightarrow>
           (case dial_loop (dial fb) 0 5 None of
              Some e \<Rightarrow> Some (Inl (ENew ''failed to dial to '' (Some e)), w)
            | None \<Rightarrow> map_option (\<lambda>(e, _, w', _). (Inr (fb, e), w')) (postRequest ci fb rmb wmb reader w p)))"

definition getResponse :: "'s mb_read \<Rightarrow> 'w mb_write \<Rightarrow> 's \<Rightarrow> 'w \<Rightarrow> pool \<Rightarrow> (goerr option \<times> 's \<times> 'w \<times> pool) option" where
  "getResponse srmb cwmb s w p =
     map_option (\<lambda>(e, s', w', _, p'). (map_option (\<lambda>x. ENew ''failed to deliver response payload'' (Some x)) e, s', w', p')) (Copy srmb cwmb [] s w () p)"

section \<open>The request of a user\<close>

definition isMuxAndNotXUDP :: "RequestHeader \<Rightarrow> Buffer \<Rightarrow> bool option" where
  "isMuxAndNotXUDP request first =
     (if rh_Command request \<noteq> RequestCommandMux then Some False
      else if buf_Len first < 7 then Some True
      else Option.bind (Bytes first) (\<lambda>bs. Option.bind (index bs 2) (\<lambda>x.
        if x \<noteq> 0 then Some True
        else Option.bind (index bs 3) (\<lambda>y.
          if y \<noteq> 0 then Some True
          else Option.bind (index bs 6) (\<lambda>z. Some (z \<noteq> 2))))))"

text \<open>The connection of a Vision flow; the result is \<open>CanSpliceCopy\<close>.\<close>

definition vision_conn :: "conn_info \<Rightarrow> nat \<Rightarrow> goerr + nat" where
  "vision_conn ci spl =
     (case ci_CommonConn ci of
        Some isXor \<Rightarrow> Inr (if isXor \<or> \<not> ci_raw ci then 3 else spl)
      | None \<Rightarrow>
          (case ci_iConn ci of
             TLSConn version _ _ \<Rightarrow> if version \<noteq> 0x0304 then Inl (ENew ''failed to use '' None) else Inr spl
           | RealityConn _ _ \<Rightarrow> Inr spl
           | OtherConn \<Rightarrow> Inl (ENew ''XTLS only supports TLS and REALITY directly for now.'' None)))"

definition check_flow :: "MemoryAccount \<Rightarrow> RequestHeader \<Rightarrow> Addons \<Rightarrow> Buffer \<Rightarrow> conn_info \<Rightarrow> (goerr + nat) option" where
  "check_flow account request requestAddons first ci =
     (if ma_Reverse account \<noteq> None \<and> rh_Command request \<noteq> RequestCommandRvs then Some (Inl (ENew ''for safety reasons, user '' None))
      else if ad_Flow requestAddons = XRV then
        (if ma_Flow account = ad_Flow requestAddons then
           (if rh_Command request = RequestCommandUDP then Some (Inl (ENew '' does not support UDP'' None))
            else if rh_Command request = RequestCommandMux \<or> rh_Command request = RequestCommandRvs then Some (vision_conn ci 3)
            else if rh_Command request = RequestCommandTCP then Some (vision_conn ci 2)
            else Some (Inr 2))
         else Some (Inl (ENew ''account '' None)))
      else if ad_Flow requestAddons = [] then
        (if ma_Flow account = XRV then
           (if rh_Command request = RequestCommandTCP then Some (Inl (ENew ''account '' None))
            else map_option (\<lambda>m. if m then Inl (ENew ''account '' None) else Inr 3) (isMuxAndNotXUDP request first))
         else Some (Inr 3))
      else Some (Inl (ENew ''unknown request flow '' None)))"

section \<open>Reverse connections\<close>

text \<open>
  A handler for the tag is made when there is none. The code waits until the manager has another handler, so that the new one does not
  become the default: \<open>None\<close> is a wait that does not end. \<open>isReverse\<close> is the type test on handlers, \<open>fresh\<close> the new handler's identity.
\<close>

definition GetReverse ::
  "(Handler \<Rightarrow> bool) \<Rightarrow> (Handler \<Rightarrow> goerr option) \<Rightarrow> nat \<Rightarrow> vless_Handler \<Rightarrow> MemoryAccount \<Rightarrow> ((goerr + Handler) \<times> vless_Handler) option" where
  "GetReverse isReverse start fresh h a =
     (case MV_Get (vh_validator h) (id_uuid (ma_ID a)) of
        None \<Rightarrow> Some (Inl (ENew ''reverse: user '' None), h)
      | Some u \<Rightarrow>
          (case ma_Reverse (mu_Account u) of
             None \<Rightarrow> Some (Inl (ENew ''reverse: user '' None), h)
           | Some rv \<Rightarrow>
               if rv_Tag rv = [] then Some (Inl (ENew ''reverse: user '' None), h)
               else (case GetHandler (vh_ohm h) (rv_Tag rv) of
                       Some r \<Rightarrow> Some (if isReverse r then Inr r else Inl (ENew ''reverse: outbound '' None), h)
                     | None \<Rightarrow>
                         if ListHandlers (vh_ohm h) = [] then None
                         else (case AddHandler start (vh_ohm h) \<lparr>h_id = fresh, h_Tag = rv_Tag rv\<rparr> of
                                 (Some e, m) \<Rightarrow> Some (Inl e, h\<lparr>vh_ohm := m\<rparr>)
                               | (None, m) \<Rightarrow> Some (Inr \<lparr>h_id = fresh, h_Tag = rv_Tag rv\<rparr>, h\<lparr>vh_ohm := m\<rparr>)))))"

definition RemoveReverse :: "MemoryUser option \<Rightarrow> vless_Handler \<Rightarrow> vless_Handler" where
  "RemoveReverse u h =
     (case u of
        None \<Rightarrow> h
      | Some x \<Rightarrow>
          (case ma_Reverse (mu_Account x) of
             None \<Rightarrow> h
           | Some rv \<Rightarrow> if rv_Tag rv \<noteq> [] then h\<lparr>vh_ohm := snd (RemoveHandler (vh_ohm h) (rv_Tag rv))\<rparr> else h))"

definition vless_Close :: "vless_Handler \<Rightarrow> vless_Handler" where
  "vless_Close h = fold (\<lambda>u. RemoveReverse (Some u)) (MV_GetAll (vh_validator h)) h"

definition AddUser :: "(gostring \<Rightarrow> gostring) \<Rightarrow> MemoryUser \<Rightarrow> vless_Handler \<Rightarrow> goerr option \<times> vless_Handler" where
  "AddUser lower u h = (case MV_Add lower u (vh_validator h) of (e, v) \<Rightarrow> (e, h\<lparr>vh_validator := v\<rparr>))"

definition RemoveUser :: "(gostring \<Rightarrow> gostring) \<Rightarrow> gostring \<Rightarrow> vless_Handler \<Rightarrow> goerr option \<times> vless_Handler" where
  "RemoveUser lower e h =
     (let h1 = RemoveReverse (MV_GetByEmail lower (vh_validator h) e) h
      in case MV_Del lower e (vh_validator h1) of (er, v) \<Rightarrow> (er, h1\<lparr>vh_validator := v\<rparr>))"

definition GetUsers :: "vless_Handler \<Rightarrow> MemoryUser list" where
  "GetUsers h = MV_GetAll (vh_validator h)"

definition GetUsersCount :: "vless_Handler \<Rightarrow> int" where
  "GetUsersCount h = MV_GetCount (vh_validator h)"

section \<open>Process\<close>

text \<open>An accepted request: where it goes, how its body is read and written, and what is set in the session.\<close>

record ('r, 'c) vless_link =
  vl_Destination :: Destination
  vl_reader :: "('r \<times> bool) bufreader"
  vl_body_reader :: body_reader
  vl_vision :: bool
  vl_writer :: "'c bufwriter"
  vl_body_writer :: body_writer
  vl_inbound :: Inbound_session
  vl_CanSpliceCopy :: nat
  vl_AllowedNetwork :: "Network option"

datatype ('r, 'c) vless_outcome =
    Rejected goerr
  | FellBack Fallback "goerr option"
  | Reversed Handler "('r, 'c) vless_link"
  | Dispatched "('r, 'c) vless_link"

definition invalid_request :: "goerr \<Rightarrow> goerr" where
  "invalid_request err = (if Cause err \<noteq> EOF then ENew ''invalid request from '' (Some err) else err)"

text \<open>The link of a request whose flow was accepted, with the response header in its writer.\<close>

definition accept_link ::
  "marshaller \<Rightarrow> ('c io_write) option \<Rightarrow> 'c mb_write \<Rightarrow> Inbound_session \<Rightarrow> byte list \<Rightarrow> RequestHeader \<Rightarrow> Addons \<Rightarrow> nat \<Rightarrow>
   ('r \<times> bool) bufreader \<Rightarrow> 'c \<Rightarrow> pool \<Rightarrow> (goerr + ('r, 'c) vless_link) option" where
  "accept_link marshal iow cwmb inbound userSentID request requestAddons spl reader c p =
     Option.bind (rh_User request) (\<lambda>u. Option.bind (slice userSentID 6 8) (\<lambda>rt. Option.bind (PortFromBytes rt) (\<lambda>route.
       map_option (\<lambda>(err, bw, _). case err of
           Some e \<Rightarrow> Inl (ENew ''failed to encode response header'' (Some e))
         | None \<Rightarrow> Inr \<lparr>vl_Destination = Header_Destination request, vl_reader = reader, vl_body_reader = DecodeBodyAddons request requestAddons,
             vl_vision = (ad_Flow requestAddons = XRV), vl_writer = SetFlushNext bw, vl_body_writer = EncodeBodyAddons request requestAddons,
             vl_inbound = inbound\<lparr>in_User := Some u, in_VlessRoute := route\<rparr>, vl_CanSpliceCopy = spl,
             vl_AllowedNetwork = (if rh_Command request = RequestCommandMux \<and> ma_Flow (mu_Account u) = XRV then Some Network_UDP else None)\<rparr>)
         (EncodeResponseHeader marshal (BW_Write iow cwmb) (NewBufferedWriter c p) request (Some zero_Addons) p))))"

text \<open>
  Everything outside the handler: the library functions, the client connection as \<open>io.Reader\<close>, \<open>buf.Reader\<close> and \<open>buf.Writer\<close>, the writer of the
  fallback server, the result of dialing it, and the parameters of \<open>GetReverse\<close>.
\<close>

record ('r, 'c, 'w) vless_env =
  ve_lower :: "gostring \<Rightarrow> gostring"
  ve_marshal :: marshaller
  ve_unmarshal :: unmarshaller
  ve_rd :: "'r io_read"
  ve_rmb :: "'r mb_read"
  ve_iow :: "('c io_write) option"
  ve_cwmb :: "'c mb_write"
  ve_swmb :: "'w mb_write"
  ve_dial :: "Fallback \<Rightarrow> nat \<Rightarrow> goerr option"
  ve_isReverse :: "Handler \<Rightarrow> bool"
  ve_start :: "Handler \<Rightarrow> goerr option"
  ve_fresh :: nat

definition serve_user ::
  "('r, 'c, 'w) vless_env \<Rightarrow> vless_Handler \<Rightarrow> conn_info \<Rightarrow> Inbound_session option \<Rightarrow> byte list \<Rightarrow> RequestHeader \<Rightarrow> Addons \<Rightarrow>
   ('r \<times> bool) bufreader \<Rightarrow> 'c \<Rightarrow> pool \<Rightarrow> (('r, 'c) vless_outcome \<times> vless_Handler) option" where
  "serve_user env h ci inbound userSentID request requestAddons reader c p =
     Option.bind inbound (\<lambda>i. Option.bind (rh_User request) (\<lambda>u.
       Option.bind (check_flow (mu_Account u) request requestAddons (first_now reader) ci) (\<lambda>f.
         case f of
           Inl e \<Rightarrow> Some (Rejected e, h)
         | Inr spl \<Rightarrow>
             Option.bind (accept_link (ve_marshal env) (ve_iow env) (ve_cwmb env) i userSentID request requestAddons spl reader c p) (\<lambda>l.
               case l of
                 Inl e \<Rightarrow> Some (Rejected e, h)
               | Inr lk \<Rightarrow>
                   if rh_Command request = RequestCommandRvs then
                     map_option (\<lambda>(r, h'). (case r of Inl e \<Rightarrow> Rejected e | Inr ho \<Rightarrow> Reversed ho lk, h'))
                       (GetReverse (ve_isReverse env) (ve_start env) (ve_fresh env) h (mu_Account u))
                   else Some (Dispatched lk, h)))))"

definition Process ::
  "('r, 'c, 'w) vless_env \<Rightarrow> vless_Handler \<Rightarrow> conn_info \<Rightarrow> Inbound_session option \<Rightarrow> 'r \<Rightarrow> 'c \<Rightarrow> 'w \<Rightarrow> pool \<Rightarrow>
   (('r, 'c) vless_outcome \<times> vless_Handler \<times> 'w) option" where
  "Process env h ci inbound r c w p =
     Option.bind (read_first (ve_rd env) r p) (\<lambda>(first, _, p1).
       case first of
         Inl e \<Rightarrow> Some (Rejected e, h, w)
       | Inr (firstLen, reader) \<Rightarrow>
           Option.bind (authenticate h (ve_unmarshal env) (ve_rmb env) firstLen reader p1) (\<lambda>(res, reader1, p2).
             case res of
               Inl (err, isfb) \<Rightarrow>
                 (case (isfb, vh_fallbacks h) of
                    (True, Some napfb) \<Rightarrow>
                      map_option (\<lambda>(out, w'). (case out of Inl e \<Rightarrow> Rejected e | Inr (fb, e) \<Rightarrow> FellBack fb e, h, w'))
                        (run_fallback (ve_lower env) (ve_dial env) napfb ci (ve_rmb env) (ve_swmb env) firstLen reader1 w p2)
                  | _ \<Rightarrow> Some (Rejected (invalid_request err), h, w))
             | Inr (userSentID, request, requestAddons) \<Rightarrow>
                 map_option (\<lambda>(out, h'). (out, h', w)) (serve_user env h ci inbound userSentID request requestAddons reader1 c p2)))"


section \<open>The readers\<close>

context clean_mb_reader
begin

lemma tap_reads:
  assumes "rinv (fst r)" "pool_ok p"
  shows "\<exists>mb e r' p'. tap rmb r p = Some (mb, e, r', p') \<and> (if e = None then rinv (fst r') else rdone (fst r')) \<and> pool_ok p' \<and> mb_inv mb
      \<and> (mcontent mb \<noteq> [] \<longrightarrow> packed mb) \<and> int (length (mcontent mb)) < 2147483648
      \<and> pending (fst r) = mcontent mb @ pending (fst r') \<and> final (fst r') = final (fst r)
      \<and> (e = None \<longrightarrow> mcontent mb \<noteq> [] \<or> weight (fst r') < weight (fst r))
      \<and> (\<forall>x. e = Some x \<longrightarrow> x = final (fst r) \<and> pending (fst r') = [])"
proof -
  obtain mb e r1 p1 where m: "rmb (fst r) p = Some (mb, e, r1, p1)" "if e = None then rinv r1 else rdone r1" "pool_ok p1" "mb_inv mb"
      "mcontent mb \<noteq> [] \<longrightarrow> packed mb" "int (length (mcontent mb)) < 2147483648" "pending (fst r) = mcontent mb @ pending r1" "final r1 = final (fst r)"
      "e = None \<longrightarrow> mcontent mb \<noteq> [] \<or> weight r1 < weight (fst r)" "\<forall>x. e = Some x \<longrightarrow> x = final (fst r) \<and> pending r1 = []"
    using read_mb [OF assms] by blast
  then have "tap rmb r p = Some (mb, e, (r1, True), p1)" by (simp add: tap_def)
  then show ?thesis using m by (intro exI [of _ mb] exI [of _ e] exI [of _ "(r1, True)"] exI [of _ p1]) simp
qed

lemma tap_clean: "rinv (fst r) \<Longrightarrow> pool_ok p \<Longrightarrow> tap rmb r p = Some (mb, Some x, r', p') \<Longrightarrow> mcontent mb = []"
  using no_data_with_error by (auto simp: tap_def)

text \<open>A buffered reader, read by chains of buffers: first what it holds, then the reader behind it.\<close>

lemma BR_reader_reads:
  assumes "br_ok rinv r" "pool_ok p"
  shows "\<exists>mb e r' p'. BR_reader rmb r p = Some (mb, e, r', p') \<and> (if e = None then br_ok rinv r' else br_ok rinv r') \<and> pool_ok p' \<and> mb_inv mb
      \<and> (mcontent mb \<noteq> [] \<longrightarrow> packed mb) \<and> int (length (mcontent mb)) < 2147483648
      \<and> mcontent (br_Buffer r) @ pending (br_Reader r) = mcontent mb @ mcontent (br_Buffer r') @ pending (br_Reader r')
      \<and> final (br_Reader r') = final (br_Reader r)
      \<and> (e = None \<longrightarrow> mcontent mb \<noteq> [] \<or> weight (br_Reader r') < weight (br_Reader r))
      \<and> (\<forall>x. e = Some x \<longrightarrow> x = final (br_Reader r) \<and> mcontent (br_Buffer r') @ pending (br_Reader r') = [])"
proof (cases "br_Buffer r = []")
  case True
  have ri: "rinv (br_Reader r)" using assms(1) by (simp add: br_ok_def)
  obtain mb e r1 p1 where m: "rmb (br_Reader r) p = Some (mb, e, r1, p1)" "if e = None then rinv r1 else rdone r1" "pool_ok p1" "mb_inv mb"
      "mcontent mb \<noteq> [] \<longrightarrow> packed mb" "int (length (mcontent mb)) < 2147483648" "pending (br_Reader r) = mcontent mb @ pending r1" "final r1 = final (br_Reader r)"
      "e = None \<longrightarrow> mcontent mb \<noteq> [] \<or> weight r1 < weight (br_Reader r)" "\<forall>x. e = Some x \<longrightarrow> x = final (br_Reader r) \<and> pending r1 = []"
    using read_mb [OF ri assms(2)] by blast
  let ?r = "r\<lparr>br_Reader := r1, br_pool := p1\<rparr>"
  have "rinv r1" using m(2) done_inv by (auto split: if_splits)
  then have ok: "br_ok rinv ?r" using assms(1) m(3) by (simp add: br_ok_def)
  have "BR_reader rmb r p = Some (mb, e, ?r, p1)" using True m(1) by (simp add: BR_reader_def BR_ReadMultiBuffer_def)
  then show ?thesis using m ok True by (intro exI [of _ mb] exI [of _ e] exI [of _ ?r] exI [of _ p1]) simp
next
  case False
  have pk: "packed (br_Buffer r)" "int (length (mcontent (br_Buffer r))) < 2147483648" using assms(1) by (simp_all add: br_ok_def)
  have c: "mcontent (br_Buffer r) \<noteq> []" "mb_inv (br_Buffer r)" using br_ok_Nil [OF assms(1)] br_ok_inv [OF assms(1)] False by simp_all
  let ?r = "r\<lparr>br_Buffer := [], br_pool := p\<rparr>"
  have "BR_reader rmb r p = Some (br_Buffer r, None, ?r, p)" using c by (simp add: BR_reader_def BR_ReadMultiBuffer_def)
  moreover have "br_ok rinv ?r" using assms by (simp add: br_ok_def packed_def)
  ultimately show ?thesis using c pk assms(2) by (intro exI [of _ "br_Buffer r"] exI [of _ None] exI [of _ ?r] exI [of _ p]) simp
qed

end

sublocale clean_mb_reader \<subseteq> bufmb: mb_reader "BR_reader rmb" "br_ok rinv" "\<lambda>r. mcontent (br_Buffer r) @ pending (br_Reader r)"
  "\<lambda>r. final (br_Reader r)" "\<lambda>r. weight (br_Reader r)" "br_ok rinv"
  by unfold_locales (use BR_reader_reads in simp)

text \<open>The interpretations on a stream.\<close>

interpretation tapped: clean_mb_reader "tap (SingleReader_ReadMultiBuffer conn_read)" "\<lambda>_. True"
  "\<lambda>r. concat (chunks (fst r))" "\<lambda>r. closing (fst r)" "\<lambda>r. length (chunks (fst r))" "\<lambda>_. True"
  by unfold_locales (use conn_single.tap_reads conn_single.tap_clean in auto)

interpretation tapped_first: first_buffer "BR_Read (tap (SingleReader_ReadMultiBuffer conn_read))" "br_ok (\<lambda>_. True)"
  "\<lambda>r. mcontent (br_Buffer r) @ concat (chunks (fst (br_Reader r)))" "\<lambda>r. closing (fst (br_Reader r))" "\<lambda>r. length (chunks (fst (br_Reader r)))"
  br_first br_put_first
proof unfold_locales
  fix r :: "(conn \<times> bool) bufreader" and n
  assume r: "br_ok (\<lambda>_. True) r"
  show "buf_inv (br_first r) \<and> (\<exists>t. mcontent (br_Buffer r) @ concat (chunks (fst (br_Reader r))) = content (br_first r) @ t)"
    using tapped.br_first_ahead [OF r] .
  assume n: "n < length (content (br_first r))"
  then have "n \<le> length (mcontent (br_Buffer r))" by (cases rule: br_first_cases [OF r]) simp_all
  then show "br_ok (\<lambda>_. True) (br_put_first r (Advance (br_first r) (int n))) \<and>
    mcontent (br_Buffer (br_put_first r (Advance (br_first r) (int n)))) @ concat (chunks (fst (br_Reader (br_put_first r (Advance (br_first r) (int n))))))
      = drop n (mcontent (br_Buffer r) @ concat (chunks (fst (br_Reader r))))
    \<and> closing (fst (br_Reader (br_put_first r (Advance (br_first r) (int n))))) = closing (fst (br_Reader r))"
    using tapped.br_first_advance [OF r n] by simp
qed

interpretation fallback_copy: copy_pair "BR_reader (tap (SingleReader_ReadMultiBuffer conn_read))" "br_ok (\<lambda>_. True)"
  "\<lambda>r. mcontent (br_Buffer r) @ concat (chunks (fst (br_Reader r)))" "\<lambda>r. closing (fst (br_Reader r))" "\<lambda>r. length (chunks (fst (br_Reader r)))"
  "br_ok (\<lambda>_. True)" "SequentialWriter_WriteMultiBuffer sink_Write" sk_out ..


section \<open>Strangers\<close>

context first_buffer
begin

lemma decode_first_refused:
  assumes "rinv r" "17 < length (content (fget r))" "content (fget r) ! 0 \<noteq> 0 \<or> get (take 16 (drop 1 (content (fget r)))) = None"
  shows "\<exists>e. decode_request True get unmarshal rd fget fput b r = Some (Inl (e, True), b, r)"
proof -
  obtain t where "pending r = content (fget r) @ t" using first_ahead [OF assms(1)] by blast
  then have f: "Byte (fget r) 0 = Some (content (fget r) ! 0)" "BytesRange (fget r) 1 17 = Some (take 16 (drop 1 (content (fget r))))"
    using first_fields [OF assms(1,2)] assms(2) by (auto simp: nth_append)
  show ?thesis using f assms(3) by (cases "content (fget r) ! 0 = 0") (auto simp: decode_request_def decode_user_def)
qed

end

text \<open>The first buffer of a stream.\<close>

lemma read_first_ok:
  assumes "conn_read c 8192 = Some (d, None, c')" "d \<noteq> []" "pool_ok p"
  shows "\<exists>b p1. read_first conn_read c p = Some (Inr (int (length d), \<lparr>br_Reader = (c', False), br_Buffer = [Some b], br_Splitter = None, br_pool = p1\<rparr>), c', p1)
    \<and> br_ok (\<lambda>_. True) \<lparr>br_Reader = (c', False), br_Buffer = [Some b], br_Splitter = None, br_pool = p1\<rparr> \<and> content b = d \<and> buf_inv b \<and> pool_ok p1
    \<and> concat (chunks c) = d @ concat (chunks c')"
proof -
  obtain b p1 where b: "New p = (b, p1)" "buf_inv b" "b_len b = 8192" "pool_ok p1" using New_ok [OF assms(3)] by blast
  have cl: "buf_inv (Clear b)" "content (Clear b) = []" "room (Clear b) = 8192" using b(2,3) by simp_all
  obtain bs e r' where r: "Buffer_ReadFrom conn_read (Clear b) c = Some ((int (length bs), e), append_to (Clear b) bs, r')"
    "conn_read c 8192 = Some (bs, e, r')" "length bs \<le> 8192" "concat (chunks c) = bs @ concat (chunks r')"
    using conn_rd.Buffer_ReadFrom_once [OF TrueI cl(1), of c] unfolding cl(3) by auto
  have eq: "bs = d" "e = None" "r' = c'" using r(2) assms(1) by simp_all
  have c: "buf_inv (append_to (Clear b) d)" "content (append_to (Clear b) d) = d" using cl r(3) eq by simp_all
  show ?thesis using b r eq c assms(2)
    by (intro exI [of _ "append_to (Clear b) d"] exI [of _ p1]) (simp add: read_first_def br_ok_def packed_def)
qed

lemma stranger_refused:
  fixes reader :: "(conn \<times> bool) bufreader"
  assumes "vh_fallbacks h \<noteq> None" "br_ok (\<lambda>_. True) reader" "content (br_first reader) = d" "pool_ok p"
    and "\<not> (18 \<le> length d \<and> d ! 0 = 0 \<and> MV_Get (vh_validator h) (take 16 (drop 1 d)) \<noteq> None)"
  shows "\<exists>e p'. authenticate h unmarshal (SingleReader_ReadMultiBuffer conn_read) (int (length d)) reader p = Some (Inl (e, True), reader, p') \<and> pool_ok p'"
proof (cases "18 \<le> length d")
  case False
  then show ?thesis using assms(1,4) by (auto simp: authenticate_def Let_def)
next
  case True
  obtain b p1 where b: "StackNew p = (b, p1)" "pool_ok p1" using New_ok [OF assms(4)] by (auto simp: StackNew_def)
  have "17 < length (content (br_first reader))" "content (br_first reader) ! 0 \<noteq> 0 \<or> MV_Get (vh_validator h) (take 16 (drop 1 (content (br_first reader)))) = None"
    using True assms(3,5) by auto
  from tapped_first.decode_first_refused [where get = "MV_Get (vh_validator h)", OF assms(2) this]
  obtain e where "decode_request True (MV_Get (vh_validator h)) unmarshal (BR_Read (tap (SingleReader_ReadMultiBuffer conn_read))) br_first br_put_first b reader
      = Some (Inl (e, True), b, reader)" by blast
  then show ?thesis using assms(1) True b Release_pool_ok [of p1 "Some b"] by (auto simp: authenticate_def Let_def DecodeRequestHeader_def)
qed

lemma stream_to_fallback:
  fixes reader :: "(conn \<times> bool) bufreader" and w :: sink
  assumes "br_ok (\<lambda>_. True) reader" "pool_ok p"
  shows "\<exists>e r' w' p' k. post_payload (SingleReader_ReadMultiBuffer conn_read) (SequentialWriter_WriteMultiBuffer sink_Write) reader w p = Some (e, r', w', p')
    \<and> sk_out w' = sk_out w @ take k (mcontent (br_Buffer reader) @ concat (chunks (fst (br_Reader reader))))
    \<and> (e = None \<longrightarrow> sk_out w' = sk_out w @ mcontent (br_Buffer reader) @ concat (chunks (fst (br_Reader reader))))"
proof -
  obtain e r' w' p' where c: "copyInternal (BR_reader (tap (SingleReader_ReadMultiBuffer conn_read))) (SequentialWriter_WriteMultiBuffer sink_Write) [] reader w () p
      = Some (e, r', w', (), p')" "fallback_copy.copied reader w e w' r'"
    using fallback_copy.copyInternal_ends [OF assms, where w = w and s = "()" and hs = "[]"] by auto
  have "Cause x \<noteq> EOF" if "snk.seqw.write_err x" for x
    using that SequentialWriter_sink_err unfolding snk.seqw.write_err_def by fastforce
  then have "Cause e = EOF \<Longrightarrow> sk_out w' = sk_out w @ mcontent (br_Buffer reader) @ concat (chunks (fst (br_Reader reader)))"
    using c(2) unfolding fallback_copy.copied_def by auto
  then show ?thesis using c unfolding fallback_copy.copied_def by (auto simp: post_payload_def Copy_def)
qed


text \<open>
  What the fallback server has received in the end: the PROXY header, if it is configured, and the stream, or a prefix of both when the
  server failed.
\<close>

definition fallback_gets :: "conn_info \<Rightarrow> Fallback \<Rightarrow> byte list \<Rightarrow> goerr option \<Rightarrow> byte list \<Rightarrow> byte list \<Rightarrow> bool" where
  "fallback_gets ci fb stream e before after \<longleftrightarrow> (\<exists>k pro hdr.
     (if fb_Xver fb = 0 then hdr = [] else buf_inv pro \<and> content pro = [] \<and> room pro = 8192
        \<and> map_option content (proxy_header (fb_Xver fb) (ci_RemoteAddr ci) (ci_LocalAddr ci) pro) = Some hdr)
     \<and> after = before @ take k (hdr @ stream) \<and> (e = None \<longrightarrow> after = before @ hdr @ stream))"

lemma header_to_fallback:
  fixes reader :: "(conn \<times> bool) bufreader" and w :: sink
  assumes "br_ok (\<lambda>_. True) reader" "pool_ok p"
  shows "\<exists>e r' w' p'. postRequest ci fb (SingleReader_ReadMultiBuffer conn_read) (SequentialWriter_WriteMultiBuffer sink_Write) reader w p = Some (e, r', w', p')
    \<and> fallback_gets ci fb (mcontent (br_Buffer reader) @ concat (chunks (fst (br_Reader reader)))) e (sk_out w) (sk_out w')"
proof (cases "fb_Xver fb = 0")
  case True
  obtain e r' w' p' k where "post_payload (SingleReader_ReadMultiBuffer conn_read) (SequentialWriter_WriteMultiBuffer sink_Write) reader w p = Some (e, r', w', p')"
    "sk_out w' = sk_out w @ take k (mcontent (br_Buffer reader) @ concat (chunks (fst (br_Reader reader))))"
    "e = None \<longrightarrow> sk_out w' = sk_out w @ mcontent (br_Buffer reader) @ concat (chunks (fst (br_Reader reader)))"
    using stream_to_fallback [OF assms, of w] by blast
  then show ?thesis using True unfolding fallback_gets_def
    by (intro exI [of _ e] exI [of _ r'] exI [of _ w'] exI [of _ p'] conjI exI [of _ k] exI [of _ "Buffer_of []"] exI [of _ "[]"]) (simp_all add: postRequest_def)
next
  case False
  let ?s = "mcontent (br_Buffer reader) @ concat (chunks (fst (br_Reader reader)))"
  obtain pro p1 where pro: "New p = (pro, p1)" "buf_inv pro" "content pro = []" "room pro = 8192" "pool_ok p1" using New_ok [OF assms(2)] by blast
  obtain pro' where h: "proxy_header (fb_Xver fb) (ci_RemoteAddr ci) (ci_LocalAddr ci) pro = Some pro'" "buf_inv pro'" using proxy_header_total [OF pro(2)] by blast
  obtain we w1 p2 k where wr: "SequentialWriter_WriteMultiBuffer sink_Write w [Some pro'] p1 = Some (we, w1, p2)" "pool_ok p2"
    "sk_out w1 = sk_out w @ take k (content pro')" "we = None \<longrightarrow> k = length (content pro')"
    using snk.seqw.write_mb [of "[Some pro']" p1 w] h(2) pro(5) content_bound [OF h(2)] by auto
  show ?thesis
  proof (cases we)
    case (Some x)
    have "sk_out w1 = sk_out w @ take (min k (length (content pro'))) (content pro' @ ?s)" using wr(3) by (simp add: min_def)
    then have "fallback_gets ci fb ?s (Some (ENew ''failed to set PROXY protocol v'' we)) (sk_out w) (sk_out w1)" using False pro h
      unfolding fallback_gets_def by (intro exI [of _ "min k (length (content pro'))"] exI [of _ pro] exI [of _ "content pro'"]) simp
    then show ?thesis using False pro h wr(1) Some by (auto simp: postRequest_def)
  next
    case None
    obtain e r' w' p' k' where po: "post_payload (SingleReader_ReadMultiBuffer conn_read) (SequentialWriter_WriteMultiBuffer sink_Write) reader w1 p2 = Some (e, r', w', p')"
      "sk_out w' = sk_out w1 @ take k' ?s" "e = None \<longrightarrow> sk_out w' = sk_out w1 @ ?s"
      using stream_to_fallback [OF assms(1) wr(2), of w1] by blast
    have "sk_out w' = sk_out w @ take (length (content pro') + k') (content pro' @ ?s)" using po(2) wr(3,4) None by simp
    then have "fallback_gets ci fb ?s e (sk_out w) (sk_out w')" using False pro h wr(3,4) None po(3)
      unfolding fallback_gets_def by (intro exI [of _ "length (content pro') + k'"] exI [of _ pro] exI [of _ "content pro'"]) simp
    then show ?thesis using False pro(1) h(1) wr(1) None po(1) by (auto simp: postRequest_def)
  qed
qed

section \<open>Properties\<close>

text \<open>
  C8. A client that does not authenticate is served by the fallback as if Xray were not there. On a handler with fallbacks, a connection
  whose first read is shorter than 18 bytes, has a version other than 0 or carries an unknown id is never answered by the proxy and never
  panics: the entry of \<open>choice_for\<close> is dialed, and it receives the PROXY header (if it asked for one) and then the client's
  stream from its first byte, without a gap, completely unless the server stops reading. The handler does not change.
\<close>

theorem stranger_goes_to_fallback:
  fixes w :: sink and env :: "(conn, 'c, sink) vless_env"
  assumes "ve_rd env = conn_read" "ve_rmb env = SingleReader_ReadMultiBuffer conn_read" "ve_swmb env = SequentialWriter_WriteMultiBuffer sink_Write"
    and "new_fallbacks fbs = vh_fallbacks h" "pool_ok p" "conn_read c 8192 = Some (d, None, c')" "d \<noteq> []"
    and "\<not> (18 \<le> length d \<and> d ! 0 = 0 \<and> MV_Get (vh_validator h) (take 16 (drop 1 d)) \<noteq> None)"
  shows "\<exists>out w' n. Process env h ci inbound c cw w p = Some (out, h, w') \<and> best_name fbs (ve_lower env (conn_ServerName (ci_iConn ci))) n
    \<and> (case choice_for fbs n (ve_lower env (conn_NegotiatedProtocol (ci_iConn ci))) d of
         Inl e \<Rightarrow> out = Rejected e \<and> w' = w
       | Inr fb \<Rightarrow>
           (case dial_loop (ve_dial env fb) 0 5 None of
              Some e \<Rightarrow> out = Rejected (ENew ''failed to dial to '' (Some e)) \<and> w' = w
            | None \<Rightarrow> \<exists>e. out = FellBack fb e \<and> fallback_gets ci fb (concat (chunks c)) e (sk_out w) (sk_out w')))"
proof -
  obtain b p1 where rf: "read_first conn_read c p = Some (Inr (int (length d), \<lparr>br_Reader = (c', False), br_Buffer = [Some b], br_Splitter = None, br_pool = p1\<rparr>), c', p1)"
    "br_ok (\<lambda>_. True) \<lparr>br_Reader = (c', False), br_Buffer = [Some b], br_Splitter = None, br_pool = p1\<rparr>" "content b = d" "buf_inv b" "pool_ok p1"
    "concat (chunks c) = d @ concat (chunks c')"
    using read_first_ok [OF assms(6,7,5)] by blast
  define rd where "rd = \<lparr>br_Reader = (c', False), br_Buffer = [Some b], br_Splitter = None, br_pool = p1\<rparr>"
  have rd: "br_first rd = b" "first_now rd = b" "mcontent (br_Buffer rd) @ concat (chunks (fst (br_Reader rd))) = concat (chunks c)"
    using rf(3,6) by (simp_all add: rd_def br_first_def first_now_def)
  obtain t n where t: "new_fallbacks fbs = Some t" "best_name fbs (ve_lower env (conn_ServerName (ci_iConn ci))) n"
    "select_fallback (ve_lower env) t (conn_ServerName (ci_iConn ci)) (conn_NegotiatedProtocol (ci_iConn ci)) (int (length d)) b
       = Some (choice_for fbs n (ve_lower env (conn_NegotiatedProtocol (ci_iConn ci))) d)"
    using fallback_selected [OF rf(4), of "int (length d)" fbs "ve_lower env" "conn_ServerName (ci_iConn ci)" "conn_NegotiatedProtocol (ci_iConn ci)"] rf(3) by auto
  have fb: "vh_fallbacks h = Some t" using t(1) assms(4) by simp
  obtain er p2 where au: "authenticate h (ve_unmarshal env) (SingleReader_ReadMultiBuffer conn_read) (int (length d)) rd p1 = Some (Inl (er, True), rd, p2)" "pool_ok p2"
    using stranger_refused [of h rd d p1 "ve_unmarshal env"] fb rf(2,3,5) rd(1) assms(8) unfolding rd_def by auto
  let ?ch = "choice_for fbs n (ve_lower env (conn_NegotiatedProtocol (ci_iConn ci))) d"
  let ?run = "run_fallback (ve_lower env) (ve_dial env) t ci (SingleReader_ReadMultiBuffer conn_read) (SequentialWriter_WriteMultiBuffer sink_Write) (int (length d)) rd w p2"
  have pr: "Process env h ci inbound c cw w p = map_option (\<lambda>(out, w'). (case out of Inl e \<Rightarrow> Rejected e | Inr (fb, e) \<Rightarrow> FellBack fb e, h, w')) ?run"
    using rf(1) au(1) fb by (simp add: Process_def assms(1-3) rd_def)
  have run: "?run = (case ?ch of Inl e \<Rightarrow> Some (Inl e, w) | Inr fb \<Rightarrow> (case dial_loop (ve_dial env fb) 0 5 None of
              Some e \<Rightarrow> Some (Inl (ENew ''failed to dial to '' (Some e)), w)
            | None \<Rightarrow> map_option (\<lambda>(e, _, w', _). (Inr (fb, e), w')) (postRequest ci fb (SingleReader_ReadMultiBuffer conn_read) (SequentialWriter_WriteMultiBuffer sink_Write) rd w p2)))"
    using t(3) rd(2) by (simp add: run_fallback_def)
  show ?thesis
  proof (cases ?ch)
    case (Inl e)
    then show ?thesis using pr run t(2) by (intro exI [of _ "Rejected e"] exI [of _ w] exI [of _ n]) simp
  next
    case (Inr f)
    show ?thesis
    proof (cases "dial_loop (ve_dial env f) 0 5 None")
      case (Some e)
      then show ?thesis using pr run t(2) Inr by (intro exI [of _ "Rejected (ENew ''failed to dial to '' (Some e))"] exI [of _ w] exI [of _ n]) simp
    next
      case None
      have "br_ok (\<lambda>_. True) rd" using rf(2) by (simp add: rd_def)
      from header_to_fallback [OF this au(2), of ci f w] obtain e r' w' p'
        where po: "postRequest ci f (SingleReader_ReadMultiBuffer conn_read) (SequentialWriter_WriteMultiBuffer sink_Write) rd w p2 = Some (e, r', w', p')"
          "fallback_gets ci f (concat (chunks c)) e (sk_out w) (sk_out w')" unfolding rd(3) by blast
      have "Process env h ci inbound c cw w p = Some (FellBack f e, h, w')" using pr run Inr None po(1) by simp
      then show ?thesis using t(2) Inr None po(2) by (intro exI [of _ "FellBack f e"] exI [of _ w'] exI [of _ n]) simp
    qed
  qed
qed


definition demo_env :: "(conn, sink, sink) vless_env" where
  "demo_env = \<lparr>ve_lower = id, ve_marshal = demo_marshal, ve_unmarshal = demo_unmarshal, ve_rd = conn_read, ve_rmb = SingleReader_ReadMultiBuffer conn_read,
     ve_iow = None, ve_cwmb = SequentialWriter_WriteMultiBuffer sink_Write, ve_swmb = SequentialWriter_WriteMultiBuffer sink_Write,
     ve_dial = (\<lambda>_ _. None), ve_isReverse = (\<lambda>_. True), ve_start = (\<lambda>_. None), ve_fresh = 1\<rparr>"

definition demo_info :: conn_info where
  "demo_info = \<lparr>ci_CommonConn = None, ci_raw = True, ci_iConn = TLSConn 0x0304 [] [], ci_RemoteAddr = [], ci_LocalAddr = []\<rparr>"

lemma demo_sel:
  "ve_rd demo_env = conn_read" "ve_rmb demo_env = SingleReader_ReadMultiBuffer conn_read" "ve_swmb demo_env = SequentialWriter_WriteMultiBuffer sink_Write"
  "ve_lower demo_env = id" "conn_ServerName (ci_iConn demo_info) = []" "conn_NegotiatedProtocol (ci_iConn demo_info) = []"
  "dial_loop (ve_dial demo_env fb) 0 5 None = None"
  by (simp_all add: demo_env_def demo_info_def numeral_eq_Suc)

theorem stranger_goes_to_fallback_witness:
  "let fb = \<lparr>fb_Name = [], fb_Alpn = [], fb_Path = [], fb_Type = [], fb_Dest = [49], fb_Xver = 0\<rparr>;
       h = \<lparr>vh_validator = zero_MemoryValidator, vh_ohm = OM_New, vh_fallbacks = new_fallbacks [fb]\<rparr>
   in \<exists>w' e. Process demo_env h demo_info None \<lparr>chunks = [[71, 69, 84], [32]], closing = EOF\<rparr> \<lparr>sk_out = [], sk_quota = 0\<rparr> \<lparr>sk_out = [], sk_quota = 9\<rparr> []
        = Some (FellBack fb e, h, w') \<and> fallback_gets demo_info fb [71, 69, 84, 32] e [] (sk_out w')"
proof -
  let ?fb = "\<lparr>fb_Name = [], fb_Alpn = [], fb_Path = [], fb_Type = [], fb_Dest = [49], fb_Xver = 0\<rparr>"
  let ?h = "\<lparr>vh_validator = zero_MemoryValidator, vh_ohm = OM_New, vh_fallbacks = new_fallbacks [?fb]\<rparr>"
  let ?c = "\<lparr>chunks = [[71, 69, 84], [32]], closing = EOF\<rparr>"
  have r: "conn_read ?c 8192 = Some ([71, 69, 84], None, \<lparr>chunks = [[32]], closing = EOF\<rparr>)" by (simp add: conn_read_def)
  have ch: "choice_for [?fb] n [] [71, 69, 84] = Inr ?fb" if "best_name [?fb] [] n" for n
    using that by (simp add: best_name_def has_name_def choice_for_def has_alpn_def request_path_def resolved_def exact_def Let_def)
  from stranger_goes_to_fallback [of demo_env "[?fb]" ?h "[]" ?c "[71, 69, 84]" _ demo_info None "\<lparr>sk_out = [], sk_quota = 0\<rparr>" "\<lparr>sk_out = [], sk_quota = 9\<rparr>", OF _ _ _ _ _ r]
  obtain out w' n where "Process demo_env ?h demo_info None ?c \<lparr>sk_out = [], sk_quota = 0\<rparr> \<lparr>sk_out = [], sk_quota = 9\<rparr> [] = Some (out, ?h, w')"
    "best_name [?fb] [] n" "case choice_for [?fb] n [] [71, 69, 84] of Inl e \<Rightarrow> out = Rejected e \<and> w' = \<lparr>sk_out = [], sk_quota = 9\<rparr>
       | Inr fb \<Rightarrow> (case dial_loop (ve_dial demo_env fb) 0 5 None of
           Some e \<Rightarrow> out = Rejected (ENew ''failed to dial to '' (Some e)) \<and> w' = \<lparr>sk_out = [], sk_quota = 9\<rparr>
         | None \<Rightarrow> \<exists>e. out = FellBack fb e \<and> fallback_gets demo_info fb (concat (chunks ?c)) e (sk_out \<lparr>sk_out = [], sk_quota = 9\<rparr>) (sk_out w'))"
    by (auto simp: demo_sel pool_ok_def)
  then show ?thesis unfolding Let_def by (auto simp: ch demo_sel)
qed

lemma decoded_user:
  assumes "DecodeRequestHeader isfb get unmarshal rd fget fput r p = Some (Inr (uid, request, ad), r', p')"
  shows "\<exists>u. get uid = Some u \<and> rh_User request = Some u"
proof -
  have body: "rh_User request = Some u \<and> i = uid" if d: "decode_body unmarshal rd i u b x = Some (Inr (uid, request, ad), b', r')" for i u b b' x
  proof -
    obtain res b1 r1 where "DecodeHeaderAddons unmarshal rd b x = Some (res, b1, r1)" using d by (auto simp: decode_body_def bind_Some_iff)
    then show ?thesis using d
      by (cases res) (auto simp: decode_body_def with_full_def bind_Some_iff zero_RequestHeader_def split: option.splits if_splits)
  qed
  have user: "\<exists>u. get uid = Some u \<and> rh_User request = Some u"
    if "decode_user isfb get unmarshal rd fget fput i b x = Some (Inr (uid, request, ad), b', r')" for i b b' x
    using that body by (fastforce simp: decode_user_def split: option.splits)
  obtain b b' where "decode_request isfb get unmarshal rd fget fput b r = Some (Inr (uid, request, ad), b', r')"
    using assms by (auto simp: DecodeRequestHeader_def split: prod.splits)
  then show ?thesis using user
    by (auto simp: decode_request_def with_full_def bind_Some_iff split: option.splits if_splits)
qed


text \<open>The outer layers under which the Vision flow may be used.\<close>

definition vision_ok :: "conn_info \<Rightarrow> bool" where
  "vision_ok ci \<longleftrightarrow> ci_CommonConn ci \<noteq> None \<or> (case ci_iConn ci of TLSConn v _ _ \<Rightarrow> v = 0x0304 | RealityConn _ _ \<Rightarrow> True | OtherConn \<Rightarrow> False)"

lemma vision_conn_ok: "vision_conn ci spl = Inr k \<Longrightarrow> vision_ok ci"
  by (auto simp: vision_conn_def vision_ok_def split: option.splits security_conn.splits if_splits)

lemma check_flow_ok:
  assumes "check_flow acc request ad first ci = Some (Inr k)"
  shows "(ma_Reverse acc = None \<or> rh_Command request = RequestCommandRvs)
    \<and> (ad_Flow ad = XRV \<longrightarrow> ma_Flow acc = XRV \<and> rh_Command request \<noteq> RequestCommandUDP
        \<and> (rh_Command request \<in> {RequestCommandTCP, RequestCommandMux, RequestCommandRvs} \<longrightarrow> vision_ok ci))
    \<and> (ad_Flow ad \<noteq> XRV \<longrightarrow> ad_Flow ad = [] \<and> (ma_Flow acc = XRV \<longrightarrow> rh_Command request \<noteq> RequestCommandTCP))"
  using assms vision_conn_ok by (auto simp: check_flow_def split: if_splits)

lemma accept_link_ok:
  assumes "accept_link marshal iow cwmb i uid request ad spl reader c p = Some (Inr lk)"
  shows "vl_Destination lk = Header_Destination request" "vl_vision lk = (ad_Flow ad = XRV)" "in_User (vl_inbound lk) = rh_User request"
    "\<exists>u. rh_User request = Some u \<and> vl_AllowedNetwork lk = (if rh_Command request = RequestCommandMux \<and> ma_Flow (mu_Account u) = XRV then Some Network_UDP else None)"
  using assms by (auto simp: accept_link_def bind_Some_iff split: option.splits)

lemma GetReverse_ok:
  assumes "GetReverse isReverse start fresh h a = Some (Inr r, h')"
  shows "\<exists>v rv. MV_Get (vh_validator h) (id_uuid (ma_ID a)) = Some v \<and> ma_Reverse (mu_Account v) = Some rv \<and> rv_Tag rv \<noteq> []"
  using assms by (auto simp: GetReverse_def split: option.splits if_splits prod.splits)

lemma authenticate_user:
  assumes "authenticate h unmarshal rmb firstLen reader p = Some (Inr (uid, request, ad), reader1, p1)"
  shows "\<exists>u. MV_Get (vh_validator h) uid = Some u \<and> rh_User request = Some u"
  using assms decoded_user by (fastforce simp: authenticate_def Let_def split: if_splits)

lemma no_accept: "(case x of Inl e \<Rightarrow> Rejected e | Inr (fb, e) \<Rightarrow> FellBack fb e) = out \<Longrightarrow> out \<noteq> Dispatched lk \<and> out \<noteq> Reversed rh lk"
  by (cases x) auto

lemma reverse_accept: "(case x of Inl e \<Rightarrow> Rejected e | Inr ho \<Rightarrow> Reversed ho lk') = out \<Longrightarrow> out = Dispatched lk \<or> out = Reversed rh lk \<Longrightarrow> \<exists>y. x = Inr y \<and> out = Reversed y lk'"
  by (cases x) auto

lemma Process_accepted:
  assumes "Process env h ci inbound r c w p = Some (out, h', w')" "out = Dispatched lk \<or> out = Reversed rh lk"
  obtains firstLen reader p1 uid request ad reader1 p2
  where "authenticate h (ve_unmarshal env) (ve_rmb env) firstLen reader p1 = Some (Inr (uid, request, ad), reader1, p2)"
    "serve_user env h ci inbound uid request ad reader1 c p2 = Some (out, h')"
proof -
  obtain first rr p1 where f: "read_first (ve_rd env) r p = Some (first, rr, p1)"
    using assms(1) by (cases "read_first (ve_rd env) r p") (auto simp: Process_def)
  moreover obtain firstLen reader where i: "first = Inr (firstLen, reader)" using assms f by (cases first) (auto simp: Process_def)
  moreover obtain res reader1 p2 where a: "authenticate h (ve_unmarshal env) (ve_rmb env) firstLen reader p1 = Some (res, reader1, p2)"
    using assms(1) f i by (cases "authenticate h (ve_unmarshal env) (ve_rmb env) firstLen reader p1") (auto simp: Process_def)
  moreover obtain uid request ad where "res = Inr (uid, request, ad)"
    using assms f i a by (cases res; cases "vh_fallbacks h") (auto simp: Process_def split: bool.splits dest!: no_accept)
  ultimately show ?thesis using assms(1) by (intro that) (auto simp: Process_def)
qed

lemma serve_user_accepted:
  assumes "serve_user env h ci inbound uid request ad reader c p = Some (out, h')" "rh_User request = Some u" "out = Dispatched lk \<or> out = Reversed rh lk"
  obtains i spl where "check_flow (mu_Account u) request ad (first_now reader) ci = Some (Inr spl)"
    "accept_link (ve_marshal env) (ve_iow env) (ve_cwmb env) i uid request ad spl reader c p = Some (Inr lk)"
    "if rh_Command request = RequestCommandRvs
     then \<exists>x. GetReverse (ve_isReverse env) (ve_start env) (ve_fresh env) h (mu_Account u) = Some (Inr x, h') \<and> out = Reversed x lk else out = Dispatched lk"
proof -
  obtain i f where f: "check_flow (mu_Account u) request ad (first_now reader) ci = Some f" "inbound = Some i"
    using assms(1,2) by (cases inbound; cases "check_flow (mu_Account u) request ad (first_now reader) ci") (auto simp: serve_user_def)
  moreover obtain spl where spl: "f = Inr spl" using assms f by (cases f) (auto simp: serve_user_def)
  moreover obtain l where l: "accept_link (ve_marshal env) (ve_iow env) (ve_cwmb env) i uid request ad spl reader c p = Some l"
    using assms f spl by (cases "accept_link (ve_marshal env) (ve_iow env) (ve_cwmb env) i uid request ad spl reader c p") (auto simp: serve_user_def)
  moreover obtain lk' where lk: "l = Inr lk'" using assms f spl l by (cases l) (auto simp: serve_user_def)
  ultimately have "if rh_Command request = RequestCommandRvs
     then \<exists>x. GetReverse (ve_isReverse env) (ve_start env) (ve_fresh env) h (mu_Account u) = Some (Inr x, h') \<and> out = Reversed x lk' else out = Dispatched lk'"
    using assms by (auto simp: serve_user_def dest!: reverse_accept)
  moreover from this have "lk' = lk" using assms(3) by (auto split: if_splits)
  ultimately show ?thesis using f spl l lk by (intro that [of spl i]) (auto split: if_splits)
qed

section \<open>Users\<close>

lemma response_header_buffered:
  assumes "pool_ok p" "rh_Version request = 0"
  shows "\<exists>bw b. EncodeResponseHeader marshal (BW_Write iow wmb) (NewBufferedWriter c p) request (Some zero_Addons) q = Some (None, bw, q)
    \<and> bw_writer bw = c \<and> bw_buffer bw = Some b \<and> content b = [0, 0]"
proof -
  obtain b p1 where b: "New p = (b, p1)" "buf_inv b" "content b = []" "room b = 8192" "b_len b = 8192" "b_end b = 0" using New_ok [OF assms(1)] by blast
  have w: "Write b [0, 0] = Some ((2, None), append_to b [0, 0])" using Write_fits [of b "[0, 0]"] b by simp
  have nf: "\<not> IsFull (Some (append_to b [0, 0]))" using b by (simp add: IsFull_def)
  let ?w = "NewBufferedWriter c p"
  have nb: "?w = \<lparr>bw_writer = c, bw_buffer = Some b, bw_buffered = True, bw_flushNext = False, bw_pool = p1\<rparr>" by (simp add: NewBufferedWriter_def b(1))
  have "BW_Write_loop iow wmb ?w [0, 0] 0 = Some (2, None, ?w\<lparr>bw_buffer := Some (append_to b [0, 0])\<rparr>)"
    unfolding nb by (subst BW_Write_loop.simps) (simp add: ensure_buffer_def w nf BW_Write_loop.simps [of _ _ _ "[]"])
  then have "BW_Write iow wmb ?w [0, 0] = Some (2, None, ?w\<lparr>bw_buffer := Some (append_to b [0, 0])\<rparr>)" by (simp add: BW_Write_def nb)
  then show ?thesis using assms(2) b
    by (intro exI [of _ "?w\<lparr>bw_buffer := Some (append_to b [0, 0])\<rparr>"] exI [of _ "append_to b [0, 0]"])
       (simp add: EncodeResponseHeader_def Version_def zero_Addons_def XRV_def str_def responseHeaderZeroAddons_def nb)
qed

lemma authenticate_known:
  fixes reader :: "(conn \<times> bool) bufreader"
  assumes "br_ok (\<lambda>_. True) reader" "content (br_first reader) = d" "vh_fallbacks h \<noteq> None \<longrightarrow> 18 \<le> length d" "pool_ok p"
    and "request_ok req" "addons_fit marshal a" "proto_ok marshal unmarshal" "length (user_id u) = 16" "MV_Get (vh_validator h) (user_id u) = Some su"
    and "mcontent (br_Buffer reader) @ concat (chunks (fst (br_Reader reader))) = request_wire marshal u req a @ rest"
  shows "\<exists>reader1 p1. authenticate h unmarshal (SingleReader_ReadMultiBuffer conn_read) (int (length d)) reader p
      = Some (Inr (user_id u, request_got su req, addons_got a), reader1, p1) \<and> br_ok (\<lambda>_. True) reader1 \<and> pool_ok p1
    \<and> mcontent (br_Buffer reader1) @ concat (chunks (fst (br_Reader reader1))) = rest"
proof -
  let ?rd = "BR_Read (tap (SingleReader_ReadMultiBuffer conn_read))"
  let ?get = "MV_Get (vh_validator h)"
  obtain b p1 where b: "New p = (b, p1)" "buf_inv b" "content b = []" "room b = 8192" "b_len b = 8192" "pool_ok p1" using New_ok [OF assms(4)] by blast
  have "\<exists>b' r'. decode_request (vh_fallbacks h \<noteq> None) ?get unmarshal ?rd br_first br_put_first b reader = Some (Inr (user_id u, request_got su req, addons_got a), b', r')
      \<and> br_ok (\<lambda>_. True) r' \<and> mcontent (br_Buffer r') @ concat (chunks (fst (br_Reader r'))) = rest"
  proof (cases "vh_fallbacks h = None")
    case True
    obtain b' r' where "decode_request False ?get unmarshal ?rd br_first br_put_first b reader = Some (Inr (user_id u, request_got su req, addons_got a), b', r')"
      "br_ok (\<lambda>_. True) r'" "mcontent (br_Buffer r') @ concat (chunks (fst (br_Reader r'))) = rest"
      by (rule tapped.buffered.decode_stream_ok [where get = ?get and u = u and su = su and rest = rest and fget = br_first and fput = br_put_first,
            OF assms(1) b(2,4,5,3) assms(5-10)])
    then show ?thesis using True by auto
  next
    case False
    then have "17 < length (content (br_first reader))" using assms(2,3) by simp
    then obtain b' r' where "decode_request True ?get unmarshal ?rd br_first br_put_first b reader = Some (Inr (user_id u, request_got su req, addons_got a), b', r')"
      "br_ok (\<lambda>_. True) r'" "mcontent (br_Buffer r') @ concat (chunks (fst (br_Reader r'))) = rest"
      by (rule tapped_first.decode_first_ok [where get = ?get and u = u and su = su and rest = rest, OF assms(1) _ b(2,5) assms(5-10)])
    then show ?thesis using False by auto
  qed
  then obtain b' r' where d: "decode_request (vh_fallbacks h \<noteq> None) ?get unmarshal ?rd br_first br_put_first b reader = Some (Inr (user_id u, request_got su req, addons_got a), b', r')"
    "br_ok (\<lambda>_. True) r'" "mcontent (br_Buffer r') @ concat (chunks (fst (br_Reader r'))) = rest" by blast
  have "\<not> (vh_fallbacks h \<noteq> None \<and> int (length d) < 18)" using assms(3) by auto
  then have "authenticate h unmarshal (SingleReader_ReadMultiBuffer conn_read) (int (length d)) reader p
      = Some (Inr (user_id u, request_got su req, addons_got a), r', snd (Release (Some b') p1))"
    using d(1) b(1) unfolding authenticate_def Let_def by (simp only: if_False DecodeRequestHeader_def StackNew_New prod.case option.map)
  then show ?thesis using d(2,3) b(6) Release_pool_ok by blast
qed


text \<open>The requests an account may make: the conditions on the flow, as a specification.\<close>

definition flow_allowed :: "MemoryAccount \<Rightarrow> byte \<Rightarrow> gostring \<Rightarrow> conn_info \<Rightarrow> bool" where
  "flow_allowed acc cmd flow ci \<longleftrightarrow> ma_Reverse acc = None \<and> cmd \<noteq> RequestCommandRvs
     \<and> (flow = [] \<and> (ma_Flow acc = XRV \<longrightarrow> cmd = RequestCommandUDP) \<or> flow = XRV \<and> ma_Flow acc = XRV \<and> cmd \<noteq> RequestCommandUDP \<and> vision_ok ci)"

lemma tcp_not_udp: "RequestCommandTCP \<noteq> RequestCommandUDP"
  by (simp add: RequestCommandTCP_def RequestCommandUDP_def)

lemma flow_allowed_passes:
  assumes "flow_allowed acc (rh_Command request) (ad_Flow ad) ci" "rh_Command request \<in> {RequestCommandTCP, RequestCommandUDP, RequestCommandMux, RequestCommandRvs}"
  shows "\<exists>spl. check_flow acc request ad first ci = Some (Inr spl)"
proof -
  have "XRV \<noteq> []" by (simp add: XRV_def str_def)
  moreover have "\<exists>k. vision_conn ci n = Inr k" if "vision_ok ci" for n
    using that by (auto simp: vision_conn_def vision_ok_def split: option.splits security_conn.splits)
  ultimately show ?thesis using assms tcp_not_udp by (auto simp: flow_allowed_def check_flow_def isMuxAndNotXUDP_def)
qed

lemma request_got_sel [simp]:
  "rh_User (request_got su req) = Some su" "rh_Command (request_got su req) = rh_Command req" "rh_Version (request_got su req) = 0"
  by (simp_all add: request_got_def zero_RequestHeader_def)

lemma accept_link_total:
  assumes "pool_ok p" "rh_User request = Some u" "rh_Version request = 0" "length uid = 16"
  shows "\<exists>lk. accept_link marshal iow cwmb i uid request ad spl reader c p = Some (Inr lk) \<and> vl_reader lk = reader
    \<and> (\<exists>b. bw_writer (vl_writer lk) = c \<and> bw_buffer (vl_writer lk) = Some b \<and> content b = [0, 0])
    \<and> vl_body_reader lk = DecodeBodyAddons request ad \<and> vl_body_writer lk = EncodeBodyAddons request ad"
proof -
  obtain bw b where e: "EncodeResponseHeader marshal (BW_Write iow cwmb) (NewBufferedWriter c p) request (Some zero_Addons) p = Some (None, bw, p)"
    "bw_writer bw = c" "bw_buffer bw = Some b" "content b = [0, 0]" using response_header_buffered [OF assms(1,3)] by metis
  have "\<exists>rt. slice uid 6 8 = Some rt \<and> length rt = 2" using assms(4) by (simp add: slice_def)
  then obtain rt route where "slice uid 6 8 = Some rt" "PortFromBytes rt = Some route" by (fastforce simp: PortFromBytes_def Uint16_def length_Suc_conv numeral_2_eq_2)
  then show ?thesis using assms(2) e by (auto simp: accept_link_def SetFlushNext_def)
qed

lemma Process_user:
  fixes env :: "(conn, 'c, 'w) vless_env"
  assumes env: "ve_rd env = conn_read" "ve_rmb env = SingleReader_ReadMultiBuffer conn_read" "proto_ok (ve_marshal env) (ve_unmarshal env)"
    and read: "conn_read c 8192 = Some (d, None, c')" "d \<noteq> []" "vh_fallbacks h \<noteq> None \<longrightarrow> 18 \<le> length d" "pool_ok p"
    and req: "request_ok req" "addons_fit (ve_marshal env) a" "length (user_id u) = 16" "MV_Get (vh_validator h) (user_id u) = Some su"
    and sent: "concat (chunks c) = request_wire (ve_marshal env) u req a @ rest"
    and flow: "flow_allowed (mu_Account su) (rh_Command req) (ad_Flow (addons_got a)) ci"
  shows "\<exists>lk b. Process env h ci (Some i) c cw w p = Some (Dispatched lk, h, w)
    \<and> vl_Destination lk = Header_Destination (request_got su req) \<and> in_User (vl_inbound lk) = Some su
    \<and> vl_vision lk = (ad_Flow (addons_got a) = XRV)
    \<and> vl_body_reader lk = DecodeBodyAddons (request_got su req) (addons_got a)
    \<and> mcontent (br_Buffer (vl_reader lk)) @ concat (chunks (fst (br_Reader (vl_reader lk)))) = rest
    \<and> bw_writer (vl_writer lk) = cw \<and> bw_buffer (vl_writer lk) = Some b \<and> content b = [0, 0]"
proof -
  obtain b p1 where rf: "read_first conn_read c p = Some (Inr (int (length d), \<lparr>br_Reader = (c', False), br_Buffer = [Some b], br_Splitter = None, br_pool = p1\<rparr>), c', p1)"
    "br_ok (\<lambda>_. True) \<lparr>br_Reader = (c', False), br_Buffer = [Some b], br_Splitter = None, br_pool = p1\<rparr>" "content b = d" "buf_inv b" "pool_ok p1"
    "concat (chunks c) = d @ concat (chunks c')"
    using read_first_ok [OF read(1,2,4)] by blast
  define rd where "rd = \<lparr>br_Reader = (c', False), br_Buffer = [Some b], br_Splitter = None, br_pool = p1\<rparr>"
  have rd: "br_ok (\<lambda>_. True) rd" "content (br_first rd) = d"
    "mcontent (br_Buffer rd) @ concat (chunks (fst (br_Reader rd))) = request_wire (ve_marshal env) u req a @ rest"
    using rf(2,3,6) sent by (simp_all add: rd_def br_first_def)
  obtain reader1 p2 where au: "authenticate h (ve_unmarshal env) (SingleReader_ReadMultiBuffer conn_read) (int (length d)) rd p1
      = Some (Inr (user_id u, request_got su req, addons_got a), reader1, p2)" "pool_ok p2"
    "mcontent (br_Buffer reader1) @ concat (chunks (fst (br_Reader reader1))) = rest"
    using authenticate_known [OF rd(1,2) read(3) rf(5) req(1,2) env(3) req(3,4) rd(3)] by blast
  obtain spl where cf: "check_flow (mu_Account su) (request_got su req) (addons_got a) (first_now reader1) ci = Some (Inr spl)"
    using flow_allowed_passes [of "mu_Account su" "request_got su req" "addons_got a" ci "first_now reader1"] flow req(1)
    unfolding request_ok_def request_got_sel(2) by blast
  obtain lk where al: "accept_link (ve_marshal env) (ve_iow env) (ve_cwmb env) i (user_id u) (request_got su req) (addons_got a) spl reader1 cw p2 = Some (Inr lk)"
    "vl_reader lk = reader1" "\<exists>b. bw_writer (vl_writer lk) = cw \<and> bw_buffer (vl_writer lk) = Some b \<and> content b = [0, 0]"
    "vl_body_reader lk = DecodeBodyAddons (request_got su req) (addons_got a)"
    using accept_link_total [OF au(2) request_got_sel(1,3) req(3)] by metis
  have "rh_Command req \<noteq> RequestCommandRvs" using flow by (simp add: flow_allowed_def)
  then have "serve_user env h ci (Some i) (user_id u) (request_got su req) (addons_got a) reader1 cw p2 = Some (Dispatched lk, h)"
    using cf al(1) by (simp add: serve_user_def)
  then have "Process env h ci (Some i) c cw w p = Some (Dispatched lk, h, w)"
    using rf(1) au(1) by (simp add: Process_def env rd_def)
  then show ?thesis using al(2-4) au(3) accept_link_ok [OF al(1)] by auto
qed

text \<open>
  C7. A user gets through: when a client that the validator knows sends a request header (followed by anything, and split into reads in any way,
  as long as the first read carries the 18 bytes that tell a user from a stranger when there are fallbacks) with a flow its account may use, the request
  is dispatched to exactly the destination of the header and for exactly this user. Everything after the header is left for the body reader, and
  the response header is already in the buffer of the writer.
\<close>

theorem user_request_dispatched:
  fixes env :: "(conn, 'c, 'w) vless_env"
  assumes env: "ve_rd env = conn_read" "ve_rmb env = SingleReader_ReadMultiBuffer conn_read" "proto_ok (ve_marshal env) (ve_unmarshal env)"
    and read: "conn_read c 8192 = Some (d, None, c')" "d \<noteq> []" "vh_fallbacks h \<noteq> None \<longrightarrow> 18 \<le> length d" "pool_ok p"
    and req: "request_ok req" "addons_fit (ve_marshal env) a" "length (user_id u) = 16" "MV_Get (vh_validator h) (user_id u) = Some su"
    and sent: "concat (chunks c) = request_wire (ve_marshal env) u req a @ rest"
    and flow: "flow_allowed (mu_Account su) (rh_Command req) (ad_Flow (addons_got a)) ci"
  shows "\<exists>lk b. Process env h ci (Some i) c cw w p = Some (Dispatched lk, h, w)
    \<and> vl_Destination lk = Header_Destination (request_got su req) \<and> in_User (vl_inbound lk) = Some su
    \<and> vl_vision lk = (ad_Flow (addons_got a) = XRV)
    \<and> vl_body_reader lk = DecodeBodyAddons (request_got su req) (addons_got a)
    \<and> mcontent (br_Buffer (vl_reader lk)) @ concat (chunks (fst (br_Reader (vl_reader lk)))) = rest
    \<and> bw_writer (vl_writer lk) = cw \<and> bw_buffer (vl_writer lk) = Some b \<and> content b = [0, 0]"
  by (rule Process_user [OF assms])

definition demo_users :: vless_Handler where
  "demo_users = \<lparr>vh_validator = snd (MV_Add id (demo_user (replicate 16 7) ''alice'') zero_MemoryValidator), vh_ohm = OM_New, vh_fallbacks = None\<rparr>"

definition demo_sent :: conn where
  "demo_sent = \<lparr>chunks = [request_wire demo_marshal (demo_user (replicate 16 7) ''alice'') demo_request zero_Addons @ [42]], closing = EOF\<rparr>"

definition demo_inbound :: Inbound_session where
  "demo_inbound = \<lparr>Inbound_session.in_Source = zero_Destination, Inbound_session.in_Local = zero_Destination, in_Tag = [], in_User = None, in_VlessRoute = 0\<rparr>"

lemma demo_sent_read:
  "conn_read demo_sent 8192 = Some (request_wire demo_marshal (demo_user (replicate 16 7) ''alice'') demo_request zero_Addons @ [42], None, \<lparr>chunks = [], closing = EOF\<rparr>)"
  by (simp add: demo_sent_def conn_read_def request_wire_def addons_wire_def zero_Addons_def XRV_def str_def target_wire_def demo_request_def
      is_stream_command_def demo_user_def NewID_def addr_port_bytes_def addr_bytes_def)

lemma demo_users_get: "MV_Get (vh_validator demo_users) (replicate 16 7) = Some (demo_user (replicate 16 7) ''alice'')"
  by (simp add: demo_users_def MV_Add_def zero_MemoryValidator_def MV_Get_def demo_user_def NewID_def Let_def)


lemma demo_parts:
  "ve_marshal demo_env = demo_marshal" "ve_unmarshal demo_env = demo_unmarshal" "user_id (demo_user (replicate 16 7) ''alice'') = replicate 16 7"
  "addons_fit demo_marshal zero_Addons" "vh_fallbacks demo_users = None"
  "flow_allowed (mu_Account (demo_user (replicate 16 7) ''alice'')) (rh_Command demo_request) (ad_Flow (addons_got zero_Addons)) demo_info"
  "concat (chunks demo_sent) = request_wire demo_marshal (demo_user (replicate 16 7) ''alice'') demo_request zero_Addons @ [42]" "pool_ok []"
  by (simp_all add: demo_env_def demo_user_def NewID_def addons_fit_def zero_Addons_def XRV_def str_def demo_users_def flow_allowed_def demo_request_def
      addons_got_def demo_sent_def pool_ok_def)

theorem user_request_dispatched_witness:
  "\<exists>lk b. Process demo_env demo_users demo_info (Some demo_inbound) demo_sent \<lparr>sk_out = [], sk_quota = 0\<rparr> \<lparr>sk_out = [], sk_quota = 0\<rparr> []
     = Some (Dispatched lk, demo_users, \<lparr>sk_out = [], sk_quota = 0\<rparr>) \<and> vl_Destination lk = TCPDestination (Some (ipv4Address [10, 0, 0, 1])) 443
    \<and> in_User (vl_inbound lk) = Some (demo_user (replicate 16 7) ''alice'')
    \<and> mcontent (br_Buffer (vl_reader lk)) @ concat (chunks (fst (br_Reader (vl_reader lk)))) = [42] \<and> bw_buffer (vl_writer lk) = Some b \<and> content b = [0, 0]"
proof -
  have d: "Header_Destination (request_got (demo_user (replicate 16 7) ''alice'') demo_request) = TCPDestination (Some (ipv4Address [10, 0, 0, 1])) 443"
    using tcp_not_udp by (simp add: request_got_def demo_request_def zero_RequestHeader_def Header_Destination_def)
  show ?thesis
    using user_request_dispatched [of demo_env demo_sent _ _ demo_users "[]" demo_request zero_Addons "demo_user (replicate 16 7) ''alice''" _ "[42]" demo_info
        demo_inbound "\<lparr>sk_out = [], sk_quota = 0\<rparr>" "\<lparr>sk_out = [], sk_quota = 0\<rparr>",
        unfolded demo_parts(1-3), OF demo_sel(1,2) demo_proto_ok demo_sent_read _ _ demo_parts(8) demo_request_ok(1) demo_parts(4) _ demo_users_get demo_parts(7,6)]
    unfolding d by (auto simp: demo_parts(5))
qed

lemma demo_dispatched:
  "\<exists>lk. Process demo_env demo_users demo_info (Some demo_inbound) demo_sent \<lparr>sk_out = [], sk_quota = 0\<rparr> \<lparr>sk_out = [], sk_quota = 0\<rparr> []
     = Some (Dispatched lk, demo_users, \<lparr>sk_out = [], sk_quota = 0\<rparr>)"
proof -
  show ?thesis
    using Process_user [of demo_env demo_sent _ _ demo_users "[]" demo_request zero_Addons "demo_user (replicate 16 7) ''alice''" _ "[42]" demo_info
        demo_inbound "\<lparr>sk_out = [], sk_quota = 0\<rparr>" "\<lparr>sk_out = [], sk_quota = 0\<rparr>",
        unfolded demo_parts(1-3), OF demo_sel(1,2) demo_proto_ok demo_sent_read _ _ demo_parts(8) demo_request_ok(1) demo_parts(4) _ demo_users_get demo_parts(7,6)]
    by (auto simp: demo_parts(5))
qed




end
