(* ===== verification/Fragment.thy ===== *)
theory Fragment
  imports Buf_IO
begin

text \<open>
  Fragmentation of the first packets of a connection: \<open>FragmentWriter\<close> of \<open>proxy/freedom/freedom.go\<close> and \<open>fragmentConn\<close> of
  \<open>transport/internet/finalmask/fragment/conn.go\<close>, which are the same code over two configuration types, and \<open>RandBetween\<close> of
  \<open>common/crypto/crypto.go\<close>. The random numbers of the system are a parameter: \<open>rs i k\<close> is the \<open>k\<close>-th number drawn in the \<open>i\<close>-th write. Waiting is left out.
  A configured length is an \<open>int32\<close> in the configuration file, so that adding it to a position does not wrap around.
\<close>

section \<open>Random numbers in a range\<close>

text \<open>Subtraction in \<open>int64\<close>; \<open>rand.Int\<close> panics unless its bound is positive. A random number is any integer, brought below the bound.\<close>

definition i64 :: "int \<Rightarrow> int" where
  "i64 x = sint (word_of_int x :: 64 word)"

definition RandBetween :: "int \<Rightarrow> int \<Rightarrow> int \<Rightarrow> int option" where
  "RandBetween r from0 to0 =
     (if from0 = to0 then Some from0
      else let from = min from0 to0; to = max from0 to0
           in if i64 (to - from) \<le> 0 then None else Some (from + r mod i64 (to - from)))"

section \<open>The writer\<close>

record Fragment =
  fr_PacketsFrom :: "64 word"
  fr_PacketsTo :: "64 word"
  fr_LengthMin :: "64 word"
  fr_LengthMax :: "64 word"
  fr_IntervalMin :: "64 word"
  fr_IntervalMax :: "64 word"
  fr_MaxSplitMin :: "64 word"
  fr_MaxSplitMax :: "64 word"

definition next_length :: "Fragment \<Rightarrow> int \<Rightarrow> int option" where
  "next_length fr r = RandBetween r (sint (fr_LengthMin fr)) (sint (fr_LengthMax fr))"

definition next_interval :: "Fragment \<Rightarrow> int \<Rightarrow> int option" where
  "next_interval fr r = RandBetween r (sint (fr_IntervalMin fr)) (sint (fr_IntervalMax fr))"

text \<open>The end of the next piece.\<close>

definition piece_end :: "int \<Rightarrow> int \<Rightarrow> int \<Rightarrow> int \<Rightarrow> int" where
  "piece_end len to maxSplit splitNum = (if to > len \<or> maxSplit > 0 \<and> splitNum \<ge> maxSplit then len else to)"

definition hello_record :: "byte list \<Rightarrow> byte list \<Rightarrow> byte list" where
  "hello_record head part = head @ PutUint16 (word_of_nat (length part)) @ part"

text \<open>
  The loop over a TLS record: \<open>head\<close> are the first three bytes of the record and \<open>k\<close> counts the random numbers. It ends with an error of the writer or with the
  bytes of the records that are still to be written.
\<close>

partial_function (option) hello_loop ::
  "'w io_write \<Rightarrow> Fragment \<Rightarrow> (nat \<Rightarrow> int) \<Rightarrow> byte list \<Rightarrow> byte list \<Rightarrow> int \<Rightarrow> nat \<Rightarrow> int \<Rightarrow> int \<Rightarrow> byte list \<Rightarrow> 'w \<Rightarrow> ((goerr + byte list) \<times> 'w) option" where
  "hello_loop wr fr rs head data maxSplit k from splitNum hello w =
     Option.bind (next_length fr (rs k)) (\<lambda>len.
       let to = piece_end (int (length data)) (from + len) maxSplit (splitNum + 1)
       in Option.bind (slice data from to) (\<lambda>part.
            if fr_IntervalMax fr = 0 then
              (if to = int (length data) then Some (Inr (hello @ hello_record head part), w)
               else hello_loop wr fr rs head data maxSplit (k + 1) to (splitNum + 1) (hello @ hello_record head part) w)
            else Option.bind (wr w (hello_record head part)) (\<lambda>(_, e, w1).
              Option.bind (next_interval fr (rs (k + 1))) (\<lambda>_.
                case e of
                  Some x \<Rightarrow> Some (Inl x, w1)
                | None \<Rightarrow>
                    if to = int (length data) then Some (Inr hello, w1)
                    else hello_loop wr fr rs head data maxSplit (k + 2) to (splitNum + 1) hello w1))))"

definition finish_hello :: "'w io_write \<Rightarrow> byte list \<Rightarrow> nat \<Rightarrow> byte list \<Rightarrow> 'w \<Rightarrow> (int \<times> goerr option \<times> 'w) option" where
  "finish_hello wr b recordLen hello w =
     Option.bind (if hello \<noteq> [] then wr w hello else Some (0, None, w)) (\<lambda>(_, e, w1).
       case e of
         Some x \<Rightarrow> Some (0, Some x, w1)
       | None \<Rightarrow>
           if length b > recordLen then
             map_option (\<lambda>(n, e', w2). case e' of Some x \<Rightarrow> (int recordLen + n, Some x, w2) | None \<Rightarrow> (int (length b), None, w2)) (wr w1 (drop recordLen b))
           else Some (int (length b), None, w1))"

definition write_hello ::
  "'w io_write \<Rightarrow> Fragment \<Rightarrow> (nat \<Rightarrow> int) \<Rightarrow> byte list \<Rightarrow> nat \<Rightarrow> 'w \<Rightarrow> (int \<times> goerr option \<times> 'w) option" where
  "write_hello wr fr rs b recordLen w =
     Option.bind (RandBetween (rs 0) (sint (fr_MaxSplitMin fr)) (sint (fr_MaxSplitMax fr))) (\<lambda>maxSplit.
       Option.bind (hello_loop wr fr rs (take 3 b) (drop 5 (take recordLen b)) maxSplit 1 0 0 [] w) (\<lambda>(res, w1).
         case res of
           Inl e \<Rightarrow> Some (0, Some e, w1)
         | Inr hello \<Rightarrow> finish_hello wr b recordLen hello w1))"

partial_function (option) segment_loop ::
  "'w io_write \<Rightarrow> Fragment \<Rightarrow> (nat \<Rightarrow> int) \<Rightarrow> byte list \<Rightarrow> int \<Rightarrow> nat \<Rightarrow> int \<Rightarrow> int \<Rightarrow> 'w \<Rightarrow> (int \<times> goerr option \<times> 'w) option" where
  "segment_loop wr fr rs b maxSplit k from splitNum w =
     Option.bind (next_length fr (rs k)) (\<lambda>len.
       Option.bind (slice b from (piece_end (int (length b)) (from + len) maxSplit (splitNum + 1))) (\<lambda>part.
         Option.bind (wr w part) (\<lambda>(n, e, w1).
           if e \<noteq> None then Some (from + n, e, w1)
           else Option.bind (next_interval fr (rs (k + 1))) (\<lambda>_.
             if from + n \<ge> int (length b) then Some (from + n, None, w1)
             else segment_loop wr fr rs b maxSplit (k + 2) (from + n) (splitNum + 1) w1))))"

definition write_segments :: "'w io_write \<Rightarrow> Fragment \<Rightarrow> (nat \<Rightarrow> int) \<Rightarrow> byte list \<Rightarrow> 'w \<Rightarrow> (int \<times> goerr option \<times> 'w) option" where
  "write_segments wr fr rs b w =
     Option.bind (RandBetween (rs 0) (sint (fr_MaxSplitMin fr)) (sint (fr_MaxSplitMax fr))) (\<lambda>maxSplit.
       segment_loop wr fr rs b maxSplit 1 0 0 w)"

definition is_hello_mode :: "Fragment \<Rightarrow> bool" where
  "is_hello_mode fr \<longleftrightarrow> fr_PacketsFrom fr = 0 \<and> fr_PacketsTo fr = 1"

text \<open>\<open>FragmentWriter.Write\<close>; the state is \<open>count\<close> and the writer below.\<close>

definition FragmentWriter_Write :: "'w io_write \<Rightarrow> Fragment \<Rightarrow> (nat \<Rightarrow> nat \<Rightarrow> int) \<Rightarrow> (64 word \<times> 'w) io_write" where
  "FragmentWriter_Write wr fr rs s b =
     (let count = fst s + 1; w = snd s; rs' = rs (unat count); recordLen = 5 + (256 * unat (b ! 3) + unat (b ! 4))
      in map_option (\<lambda>(n, e, w'). (n, e, (count, w')))
           (if is_hello_mode fr then
              (if count \<noteq> 1 \<or> length b \<le> 5 \<or> b ! 0 \<noteq> 22 then wr w b
               else if length b < recordLen then wr w b
               else write_hello wr fr rs' b recordLen w)
            else if fr_PacketsFrom fr \<noteq> 0 \<and> (count < fr_PacketsFrom fr \<or> count > fr_PacketsTo fr) then wr w b
            else write_segments wr fr rs' b w))"

text \<open>\<open>fragmentConn.Write\<close>, whose configuration has the same fields as \<open>int64\<close>, \<open>Delay\<close> for \<open>Interval\<close>.\<close>

definition fragmentConn_Write :: "'w io_write \<Rightarrow> Fragment \<Rightarrow> (nat \<Rightarrow> nat \<Rightarrow> int) \<Rightarrow> (64 word \<times> 'w) io_write" where
  "fragmentConn_Write = FragmentWriter_Write"


section \<open>Pieces\<close>

lemma i64_id: "- (2 ^ 63) \<le> x \<Longrightarrow> x < 2 ^ 63 \<Longrightarrow> i64 x = x"
  by (simp add: i64_def sint_sbintrunc' signed_take_bit_int_eq_self)

lemma sint_range: "- (2 ^ 63) \<le> sint (x :: 64 word)" "sint (x :: 64 word) < 2 ^ 63"
  using sint_greater_eq [of x] sint_less [of x] by simp_all

lemma RandBetween_ok:
  assumes "0 \<le> a" "0 \<le> b" "a < 2 ^ 63" "b < 2 ^ 63"
  shows "\<exists>v. RandBetween r a b = Some v \<and> min a b \<le> v \<and> v \<le> max a b"
proof (cases "a = b")
  case False
  let ?d = "max a b - min a b"
  have "i64 ?d = ?d" "0 < ?d" using assms False by (auto intro!: i64_id)
  moreover obtain m where "r mod ?d = m" "0 \<le> m" "m < ?d" using \<open>0 < ?d\<close> by simp
  ultimately show ?thesis using False by (simp add: RandBetween_def Let_def)
qed (simp add: RandBetween_def)

text \<open>Configurations the configuration reader accepts: lengths are positive and nothing is negative.\<close>

definition fragment_ok :: "Fragment \<Rightarrow> bool" where
  "fragment_ok fr \<longleftrightarrow> 0 < sint (fr_LengthMin fr) \<and> 0 < sint (fr_LengthMax fr)
     \<and> 0 \<le> sint (fr_IntervalMin fr) \<and> 0 \<le> sint (fr_IntervalMax fr) \<and> 0 \<le> sint (fr_MaxSplitMin fr) \<and> 0 \<le> sint (fr_MaxSplitMax fr)"

definition max_length :: "Fragment \<Rightarrow> nat" where
  "max_length fr = nat (max (sint (fr_LengthMin fr)) (sint (fr_LengthMax fr)))"

lemma next_length_ok:
  assumes "fragment_ok fr"
  obtains len where "next_length fr r = Some len" "0 < len" "len \<le> int (max_length fr)"
  using assms RandBetween_ok [of "sint (fr_LengthMin fr)" "sint (fr_LengthMax fr)" r] sint_range
  by (auto simp: fragment_ok_def next_length_def max_length_def)

lemma next_interval_ok: "fragment_ok fr \<Longrightarrow> \<exists>v. next_interval fr r = Some v"
  using RandBetween_ok [of "sint (fr_IntervalMin fr)" "sint (fr_IntervalMax fr)" r] sint_range
  by (auto simp: fragment_ok_def next_interval_def)

text \<open>One piece: not empty unless nothing is left, and bounded unless it is the last one allowed.\<close>

lemma piece_ok:
  assumes "0 < len" "0 \<le> from" "from \<le> int (length data)" "len \<le> int m"
    and to_def: "to = piece_end (int (length data)) (from + len) maxSplit splitNum"
  shows "from \<le> to" "to \<le> int (length data)" "from < int (length data) \<longrightarrow> from < to" "slice data from to = Some (take (nat (to - from)) (drop (nat from) data))"
    "maxSplit = 0 \<longrightarrow> to - from \<le> int m" "maxSplit > 0 \<longrightarrow> splitNum \<ge> maxSplit \<longrightarrow> to = int (length data)"
proof -
  show a: "from \<le> to" "to \<le> int (length data)" "from < int (length data) \<longrightarrow> from < to" using assms(1-3) by (auto simp: to_def piece_end_def)
  show "maxSplit = 0 \<longrightarrow> to - from \<le> int m" using assms(1,4) by (auto simp: to_def piece_end_def)
  show "maxSplit > 0 \<longrightarrow> splitNum \<ge> maxSplit \<longrightarrow> to = int (length data)" by (simp add: to_def piece_end_def)
  show "slice data from to = Some (take (nat (to - from)) (drop (nat from) data))" using a assms(2) by simp
qed

lemma two_bytes: "256 * unat (ucast (drop_bit 8 w) :: byte) + unat (ucast w :: byte) = unat (w :: 16 word)"
proof -
  have "unat w div 256 < 256" using unsigned_less [of w, where ?'a = nat] by simp
  moreover have "unat (w div 256) = unat w div 256" by (simp add: unat_div)
  ultimately show ?thesis by (simp add: unsigned_ucast_eq drop_bit_eq_div take_bit_eq_mod)
qed

definition hello_records :: "byte list \<Rightarrow> byte list list \<Rightarrow> byte list" where
  "hello_records head parts = concat (map (hello_record head) parts)"

lemma hello_records_simps [simp]: "hello_records head [] = []" "hello_records head (p # ps) = hello_record head p @ hello_records head ps"
  by (simp_all add: hello_records_def)

text \<open>What the loop over a record leaves behind, for the pieces of the rest of the data.\<close>

definition hello_done :: "Fragment \<Rightarrow> byte list \<Rightarrow> byte list list \<Rightarrow> int \<Rightarrow> int \<Rightarrow> byte list \<Rightarrow> goerr + byte list \<Rightarrow> byte list \<Rightarrow> byte list \<Rightarrow> bool" where
  "hello_done fr head parts maxSplit splitNum hello res before after \<longleftrightarrow>
     (case res of
        Inl e \<Rightarrow> fr_IntervalMax fr \<noteq> 0 \<and> (\<exists>k. after = before @ take k (hello_records head parts))
      | Inr h \<Rightarrow>
          (if fr_IntervalMax fr = 0 then h = hello @ hello_records head parts \<and> after = before else h = hello \<and> after = before @ hello_records head parts)
          \<and> (maxSplit = 0 \<longrightarrow> (\<forall>p \<in> set parts. length p \<le> max_length fr)) \<and> (maxSplit > 0 \<longrightarrow> splitNum + int (length parts) \<le> maxSplit))"

lemma hello_done_cons:
  assumes "hello_done fr head parts maxSplit (splitNum + 1) (if fr_IntervalMax fr = 0 then hello @ hello_record head p else hello) res
      (if fr_IntervalMax fr = 0 then before else before @ hello_record head p) after"
    and "maxSplit = 0 \<longrightarrow> length p \<le> max_length fr"
  shows "hello_done fr head (p # parts) maxSplit splitNum hello res before after"
proof (cases res)
  case (Inl e)
  then obtain k where "fr_IntervalMax fr \<noteq> 0" "after = before @ hello_record head p @ take k (hello_records head parts)" using assms(1) by (auto simp: hello_done_def)
  then show ?thesis using Inl by (auto simp: hello_done_def intro!: exI [of _ "length (hello_record head p) + k"])
next
  case (Inr h)
  then show ?thesis using assms by (auto simp: hello_done_def)
qed

text \<open>What a fragmented record is: the pieces in records of their own, and the bounds of the configuration on them.\<close>

definition pieces_ok :: "Fragment \<Rightarrow> byte list list \<Rightarrow> bool" where
  "pieces_ok fr parts \<longleftrightarrow> (fr_MaxSplitMin fr = 0 \<and> fr_MaxSplitMax fr = 0 \<longrightarrow> (\<forall>p \<in> set parts. length p \<le> max_length fr))
     \<and> (0 < sint (fr_MaxSplitMin fr) \<and> 0 < sint (fr_MaxSplitMax fr) \<longrightarrow> int (length parts) \<le> max (sint (fr_MaxSplitMin fr)) (sint (fr_MaxSplitMax fr)))"

context io_writer
begin

text \<open>One round of the loop: a piece, and what the writer makes of its record when there is an interval.\<close>

lemma hello_round:
  assumes "fragment_ok fr" "0 \<le> from" "from \<le> int (length data)"
  obtains part to e m wa kb where "from \<le> to" "to \<le> int (length data)" "from < int (length data) \<longrightarrow> from < to" "drop (nat from) data = part @ drop (nat to) data"
    "maxSplit = 0 \<longrightarrow> length part \<le> max_length fr" "maxSplit > 0 \<longrightarrow> splitNum + 1 \<ge> maxSplit \<longrightarrow> to = int (length data)"
    "sent wa = sent w @ take m (if fr_IntervalMax fr = 0 then [] else hello_record head part)" "e = None \<longrightarrow> m = length (hello_record head part)"
    "e \<noteq> None \<longrightarrow> fr_IntervalMax fr \<noteq> 0"
    "hello_loop wr fr rs head data maxSplit k from splitNum hello w =
       (let hello' = (if fr_IntervalMax fr = 0 then hello @ hello_record head part else hello)
        in case e of
             Some x \<Rightarrow> Some (Inl x, wa)
           | None \<Rightarrow> if to = int (length data) then Some (Inr hello', wa) else hello_loop wr fr rs head data maxSplit kb to (splitNum + 1) hello' wa)"
proof -
  obtain len where len: "next_length fr (rs k) = Some len" "0 < len" "len \<le> int (max_length fr)" by (rule next_length_ok [OF assms(1)])
  obtain to where to: "to = piece_end (int (length data)) (from + len) maxSplit (splitNum + 1)" by simp
  note pc = piece_ok [OF len(2) assms(2,3) len(3) to]
  define part where "part = take (nat (to - from)) (drop (nat from) data)"
  have part: "slice data from to = Some part" using pc(4) by (simp add: part_def)
  have cat: "drop (nat from) data = part @ drop (nat to) data" using pc(1,2) assms(2) unfolding part_def
    by (metis append_take_drop_id drop_drop nat_add_distrib diff_ge_0_iff_ge diff_add_cancel)
  have bound: "maxSplit = 0 \<longrightarrow> length part \<le> max_length fr" using pc(5) by (auto simp: part_def)
  note unf = hello_loop.simps [of wr fr rs head data maxSplit k "from" splitNum hello w] len(1) bind.bind_lunit Let_def
  show ?thesis
  proof (cases "fr_IntervalMax fr = 0")
    case True
    then have "hello_loop wr fr rs head data maxSplit k from splitNum hello w = (if to = int (length data) then Some (Inr (hello @ hello_record head part), w)
        else hello_loop wr fr rs head data maxSplit (k + 1) to (splitNum + 1) (hello @ hello_record head part) w)"
      using part unfolding unf to [symmetric] by simp
    then show ?thesis using True cat bound pc(1,2,3,6)
      by (intro that [where part = part and to = to and e = None and m = "length (hello_record head part)" and wa = w and kb = "k + 1"]) simp_all
  next
    case False
    obtain n e w1 where w: "wr w (hello_record head part) = Some (n, e, w1)" "sent w1 = sent w @ take (nat n) (hello_record head part)"
      "e = None \<longrightarrow> n = int (length (hello_record head part))" using write_all [of w "hello_record head part"] by blast
    obtain v where v: "next_interval fr (rs (k + 1)) = Some v" using next_interval_ok [OF assms(1)] by blast
    have "hello_loop wr fr rs head data maxSplit k from splitNum hello w = (case e of Some x \<Rightarrow> Some (Inl x, w1)
        | None \<Rightarrow> if to = int (length data) then Some (Inr hello, w1) else hello_loop wr fr rs head data maxSplit (k + 2) to (splitNum + 1) hello w1)"
      using part False w(1) v unfolding unf to [symmetric] by simp
    then show ?thesis using False cat bound pc(1,2,3,6) w(2,3)
      by (intro that [where part = part and to = to and e = e and m = "nat n" and wa = w1 and kb = "k + 2"]) simp_all
  qed
qed

lemma hello_loop_ok:
  assumes "fragment_ok fr" "0 \<le> from" "from \<le> int (length data)" "0 \<le> maxSplit" "maxSplit > 0 \<longrightarrow> splitNum < maxSplit"
  shows "\<exists>res w' parts. hello_loop wr fr rs head data maxSplit k from splitNum hello w = Some (res, w') \<and> concat parts = drop (nat from) data
    \<and> hello_done fr head parts maxSplit splitNum hello res (sent w) (sent w')"
  using assms(2,3,5)
proof (induction "nat (int (length data) - from)" arbitrary: k "from" splitNum hello w rule: less_induct)
  case less
  obtain part to e m w1 k' where rd: "from \<le> to" "to \<le> int (length data)" "from < int (length data) \<longrightarrow> from < to" "drop (nat from) data = part @ drop (nat to) data"
    "maxSplit = 0 \<longrightarrow> length part \<le> max_length fr" "maxSplit > 0 \<longrightarrow> splitNum + 1 \<ge> maxSplit \<longrightarrow> to = int (length data)"
    "sent w1 = sent w @ take m (if fr_IntervalMax fr = 0 then [] else hello_record head part)" "e = None \<longrightarrow> m = length (hello_record head part)"
    "e \<noteq> None \<longrightarrow> fr_IntervalMax fr \<noteq> 0"
    and eq: "hello_loop wr fr rs head data maxSplit k from splitNum hello w =
       (let hello' = (if fr_IntervalMax fr = 0 then hello @ hello_record head part else hello)
        in case e of
             Some x \<Rightarrow> Some (Inl x, w1)
           | None \<Rightarrow> if to = int (length data) then Some (Inr hello', w1) else hello_loop wr fr rs head data maxSplit k' to (splitNum + 1) hello' w1)"
    by (rule hello_round [OF assms(1) less.prems(1,2)])
  let ?hello = "if fr_IntervalMax fr = 0 then hello @ hello_record head part else hello"
  have last: "hello_done fr head [] maxSplit (splitNum + 1) ?hello (Inr ?hello) (sent w1) (sent w1)" if "splitNum + 1 \<le> maxSplit \<or> maxSplit = 0"
    using that by (auto simp: hello_done_def)
  show ?case
  proof (cases e)
    case (Some x)
    have "sent w1 = sent w @ take (min m (length (hello_record head part))) (hello_record head part @ hello_records head [drop (nat to) data])"
      using rd(7,9) Some by (simp add: min_def)
    then have "hello_done fr head [part, drop (nat to) data] maxSplit splitNum hello (Inl x) (sent w) (sent w1)" using rd(9) Some
      unfolding hello_done_def hello_records_simps sum.case by blast
    then show ?thesis using eq Some rd(4) by (intro exI [of _ "Inl x"] exI [of _ w1] exI [of _ "[part, drop (nat to) data]"]) simp
  next
    case None
    have "\<exists>res w' parts. hello_loop wr fr rs head data maxSplit k from splitNum hello w = Some (res, w') \<and> concat parts = drop (nat to) data
      \<and> hello_done fr head parts maxSplit (splitNum + 1) ?hello res (sent w1) (sent w')"
    proof (cases "to = int (length data)")
      case True
      then show ?thesis using eq None last less.prems(3) assms(4)
        by (intro exI [of _ "Inr ?hello"] exI [of _ w1] exI [of _ "[]"]) auto
    next
      case False
      then have "nat (int (length data) - to) < nat (int (length data) - from)" "0 \<le> to" "to \<le> int (length data)" "maxSplit > 0 \<longrightarrow> splitNum + 1 < maxSplit"
        using rd(1-3,6) less.prems(1,2) by auto
      from less.hyps [OF this] show ?thesis using eq None False by simp
    qed
    then obtain res w' parts where "hello_loop wr fr rs head data maxSplit k from splitNum hello w = Some (res, w')" "concat parts = drop (nat to) data"
      "hello_done fr head parts maxSplit (splitNum + 1) ?hello res (sent w1) (sent w')" by blast
    then show ?thesis using rd(4,5,7,8) None hello_done_cons [of fr head parts maxSplit splitNum hello part res "sent w" "sent w'"]
      by (intro exI [of _ res] exI [of _ w'] exI [of _ "part # parts"]) (auto split: if_splits)
  qed
qed

lemma segment_loop_ok:
  assumes "fragment_ok fr" "0 \<le> from" "from \<le> int (length b)"
  shows "\<exists>n e w'. segment_loop wr fr rs b maxSplit k from splitNum w = Some (n, e, w') \<and> from \<le> n \<and> n \<le> int (length b)
    \<and> sent w' = sent w @ take (nat (n - from)) (drop (nat from) b) \<and> (e = None \<longrightarrow> n = int (length b))"
  using assms(2,3)
proof (induction "nat (int (length b) - from)" arbitrary: k "from" splitNum w rule: less_induct)
  case less
  obtain len where len: "next_length fr (rs k) = Some len" "0 < len" "len \<le> int (max_length fr)" by (rule next_length_ok [OF assms(1)])
  obtain to where to: "to = piece_end (int (length b)) (from + len) maxSplit (splitNum + 1)" by simp
  note pc = piece_ok [OF len(2) less.prems len(3) to]
  define part where "part = take (nat (to - from)) (drop (nat from) b)"
  have part: "slice b from to = Some part" "int (length part) = to - from" using pc(1,2,4) less.prems(1) by (auto simp: part_def)
  obtain n e w1 where w: "wr w part = Some (n, e, w1)" "0 \<le> n" "n \<le> int (length part)" "sent w1 = sent w @ take (nat n) part" "e = None \<longrightarrow> n = int (length part)"
    using write_all [of w part] by blast
  obtain v where v: "next_interval fr (rs (k + 1)) = Some v" using next_interval_ok [OF assms(1)] by blast
  have out: "sent w1 = sent w @ take (nat n) (drop (nat from) b)" using w(3,4) part(2) by (auto simp: part_def min_def)
  have eq: "segment_loop wr fr rs b maxSplit k from splitNum w = (if e \<noteq> None then Some (from + n, e, w1)
      else if from + n \<ge> int (length b) then Some (from + n, None, w1) else segment_loop wr fr rs b maxSplit (k + 2) (from + n) (splitNum + 1) w1)"
    using part(1) w(1) v unfolding segment_loop.simps [of wr fr rs b maxSplit k "from" splitNum w] len(1) bind.bind_lunit to [symmetric] by simp
  show ?case
  proof (cases "e \<noteq> None \<or> from + n \<ge> int (length b)")
    case True
    then show ?thesis using eq w(2,3) out part(2) pc(2) by (intro exI [of _ "from + n"] exI [of _ e] exI [of _ w1]) auto
  next
    case False
    then have n: "n = to - from" "to < int (length b)" using w(5) part(2) by auto
    then have "nat (int (length b) - (from + n)) < nat (int (length b) - from)" "0 \<le> from + n" "from + n \<le> int (length b)" using pc(1,3) less.prems by auto
    from less.hyps [OF this] obtain n' e' w' where ih: "segment_loop wr fr rs b maxSplit (k + 2) (from + n) (splitNum + 1) w1 = Some (n', e', w')"
      "from + n \<le> n'" "n' \<le> int (length b)" "sent w' = sent w1 @ take (nat (n' - (from + n))) (drop (nat (from + n)) b)" "e' = None \<longrightarrow> n' = int (length b)" by blast
    have "take (nat n) (drop (nat from) b) @ take (nat (n' - (from + n))) (drop (nat (from + n)) b) = take (nat n + nat (n' - (from + n))) (drop (nat from) b)"
      using w(2) less.prems(1) by (simp add: take_add nat_add_distrib add.commute)
    also have "nat n + nat (n' - (from + n)) = nat (n' - from)" using ih(2) w(2) by simp
    finally show ?thesis using eq False ih w(2) out by (intro exI [of _ n'] exI [of _ e'] exI [of _ w']) simp
  qed
qed

lemma write_segments_ok:
  assumes "fragment_ok fr"
  shows "\<exists>n e w'. write_segments wr fr rs b w = Some (n, e, w') \<and> 0 \<le> n \<and> n \<le> int (length b)
    \<and> sent w' = sent w @ take (nat n) b \<and> (e = None \<longrightarrow> n = int (length b))"
proof -
  obtain m where "RandBetween (rs 0) (sint (fr_MaxSplitMin fr)) (sint (fr_MaxSplitMax fr)) = Some m"
    using assms RandBetween_ok [of "sint (fr_MaxSplitMin fr)" "sint (fr_MaxSplitMax fr)" "rs 0"] sint_range by (auto simp: fragment_ok_def)
  then show ?thesis using segment_loop_ok [OF assms, of 0 b rs m 1 0 w] by (simp add: write_segments_def)
qed

lemma finish_hello_ok:
  assumes "sent w1 @ hello = before @ recs" "length before \<le> length (sent w1)"
  shows "\<exists>n e w' k. finish_hello wr b recordLen hello w1 = Some (n, e, w') \<and> sent w' = before @ take k (recs @ drop recordLen b)
    \<and> (e = None \<longrightarrow> n = int (length b) \<and> sent w' = before @ recs @ drop recordLen b)"
proof -
  obtain pre where pre: "sent w1 = before @ pre" "recs = pre @ hello" using assms by (auto simp: append_eq_append_conv2)
  obtain e w2 k where h: "(if hello \<noteq> [] then wr w1 hello else Some (0, None, w1)) = Some (k, e, w2)" "sent w2 = sent w1 @ take (nat k) hello" "e = None \<longrightarrow> nat k = length hello"
    using write_all [of w1 hello] by (cases "hello = []") auto
  show ?thesis
  proof (cases e)
    case (Some x)
    have "sent w2 = before @ take (length pre + min (nat k) (length hello)) (recs @ drop recordLen b)" using h(2) pre by (simp add: min_def)
    then show ?thesis using h(1) Some
      by (intro exI [of _ 0] exI [of _ "Some x"] exI [of _ w2] exI [of _ "length pre + min (nat k) (length hello)"]) (simp add: finish_hello_def)
  next
    case None
    then have s2: "sent w2 = before @ recs" using h(2,3) pre by simp
    obtain n e' w3 where r: "wr w2 (drop recordLen b) = Some (n, e', w3)" "sent w3 = sent w2 @ take (nat n) (drop recordLen b)" "e' = None \<longrightarrow> n = int (length (drop recordLen b))"
      using write_all [of w2 "drop recordLen b"] by blast
    have s3: "sent w3 = before @ take (length recs + nat n) (recs @ drop recordLen b)" using r(2) s2 by simp
    show ?thesis
    proof (cases "length b > recordLen")
      case False
      then show ?thesis using h(1) None s2
        by (intro exI [of _ "int (length b)"] exI [of _ None] exI [of _ w2] exI [of _ "length recs"]) (simp add: finish_hello_def)
    next
      case True
      then show ?thesis using h(1) None r s3
        by (intro exI [of _ "case e' of Some x \<Rightarrow> int recordLen + n | None \<Rightarrow> int (length b)"] exI [of _ e'] exI [of _ w3] exI [of _ "length recs + nat n"])
           (auto simp: finish_hello_def split: option.splits)
    qed
  qed
qed

lemma write_hello_ok:
  assumes "fragment_ok fr" "b = head @ lenb @ data @ rest" "length head = 3" "length lenb = 2"
  shows "\<exists>n e w' parts k. write_hello wr fr rs b (5 + length data) w = Some (n, e, w') \<and> concat parts = data
    \<and> sent w' = sent w @ take k (hello_records head parts @ rest)
    \<and> (e = None \<longrightarrow> n = int (length b) \<and> sent w' = sent w @ hello_records head parts @ rest \<and> pieces_ok fr parts)"
proof -
  obtain m where m: "RandBetween (rs 0) (sint (fr_MaxSplitMin fr)) (sint (fr_MaxSplitMax fr)) = Some m"
    "min (sint (fr_MaxSplitMin fr)) (sint (fr_MaxSplitMax fr)) \<le> m" "m \<le> max (sint (fr_MaxSplitMin fr)) (sint (fr_MaxSplitMax fr))"
    using assms(1) RandBetween_ok [of "sint (fr_MaxSplitMin fr)" "sint (fr_MaxSplitMax fr)" "rs 0"] sint_range by (auto simp: fragment_ok_def)
  have m0: "0 \<le> m" using m(2) assms(1) by (auto simp: fragment_ok_def min_def split: if_splits)
  have parts: "take 3 b = head" "drop 5 (take (5 + length data) b) = data" "drop (5 + length data) b = rest" using assms(2-4) by auto
  obtain res w1 ps where l: "hello_loop wr fr rs head data m 1 0 0 [] w = Some (res, w1)" "concat ps = data" "hello_done fr head ps m 0 [] res (sent w) (sent w1)"
    using hello_loop_ok [OF assms(1) _ _ m0, of 0 data 0 rs head 1 "[]" w] by auto
  show ?thesis
  proof (cases res)
    case (Inl x)
    then obtain k where "sent w1 = sent w @ take k (hello_records head ps)" using l(3) by (auto simp: hello_done_def)
    then have "sent w1 = sent w @ take (min k (length (hello_records head ps))) (hello_records head ps @ rest)" by (simp add: min_def)
    moreover have "write_hello wr fr rs b (5 + length data) w = Some (0, Some x, w1)" using l(1) m(1) parts(1,2) Inl by (simp add: write_hello_def)
    ultimately show ?thesis using l(2) by blast
  next
    case (Inr hello)
    have po: "pieces_ok fr ps" using l(3) Inr m(2,3) by (auto simp: hello_done_def pieces_ok_def)
    have "sent w1 @ hello = sent w @ hello_records head ps" "length (sent w) \<le> length (sent w1)" using l(3) Inr by (auto simp: hello_done_def split: if_splits)
    from finish_hello_ok [OF this, of b "5 + length data"] obtain n e w' k where "finish_hello wr b (5 + length data) hello w1 = Some (n, e, w')"
      "sent w' = sent w @ take k (hello_records head ps @ rest)" "e = None \<longrightarrow> n = int (length b) \<and> sent w' = sent w @ hello_records head ps @ rest"
      unfolding parts(3) by blast
    moreover from this(1) have "write_hello wr fr rs b (5 + length data) w = Some (n, e, w')" using l(1) m(1) parts(1,2) Inr by (simp add: write_hello_def)
    ultimately show ?thesis using l(2) po by blast
  qed
qed

lemma Write_hello:
  assumes "is_hello_mode fr" "fragment_ok fr" "length data < 65536" "data @ rest \<noteq> []"
    and "b = [22, v1, v2] @ PutUint16 (word_of_nat (length data)) @ data @ rest"
  shows "\<exists>n e w' parts k. FragmentWriter_Write wr fr rs (0, w) b = Some (n, e, (1, w')) \<and> concat parts = data
    \<and> sent w' = sent w @ take k (hello_records [22, v1, v2] parts @ rest)
    \<and> (e = None \<longrightarrow> n = int (length b) \<and> sent w' = sent w @ hello_records [22, v1, v2] parts @ rest \<and> pieces_ok fr parts)"
proof -
  have l: "length b > 5" "length b \<ge> 5 + length data" and b0: "b ! 0 = 22" using assms(4,5) by auto
  have "256 * unat (b ! 3) + unat (b ! 4) = length data" using assms(3,5) two_bytes [of "word_of_nat (length data)"] by (simp add: PutUint16_def unat_of_nat)
  then have "FragmentWriter_Write wr fr rs (0, w) b = map_option (\<lambda>(n, e, w'). (n, e, (1, w'))) (write_hello wr fr (rs 1) b (5 + length data) w)"
    using assms(1) l b0 by (simp add: FragmentWriter_Write_def Let_def)
  moreover obtain n e w' parts k where "write_hello wr fr (rs 1) b (5 + length data) w = Some (n, e, w')" "concat parts = data"
    "sent w' = sent w @ take k (hello_records [22, v1, v2] parts @ rest)"
    "e = None \<longrightarrow> n = int (length b) \<and> sent w' = sent w @ hello_records [22, v1, v2] parts @ rest \<and> pieces_ok fr parts"
    using write_hello_ok [OF assms(2,5), of "rs 1" w] by auto
  ultimately show ?thesis by auto
qed

end

section \<open>Segments as a writer\<close>

text \<open>Outside the TLS mode a fragmenting writer keeps the contract of the writer below it.\<close>

locale fragment_writer = io_writer wr sent
  for wr :: "'w io_write" and sent :: "'w \<Rightarrow> byte list" +
  fixes fr :: Fragment and rs :: "nat \<Rightarrow> nat \<Rightarrow> int"
  assumes accepted: "fragment_ok fr"
    and segments: "\<not> is_hello_mode fr"

sublocale fragment_writer \<subseteq> segmented: io_writer "FragmentWriter_Write wr fr rs" "\<lambda>s. sent (snd s)"
proof unfold_locales
  fix s :: "64 word \<times> 'w" and d
  obtain n e w' where "wr (snd s) d = Some (n, e, w')" "0 \<le> n" "n \<le> int (length d)" "sent w' = sent (snd s) @ take (nat n) d" "e = None \<longrightarrow> n = int (length d)"
    using write_all [of "snd s" d] by blast
  moreover obtain n e w' where "write_segments wr fr (rs (unat (fst s + 1))) d (snd s) = Some (n, e, w')" "0 \<le> n" "n \<le> int (length d)"
    "sent w' = sent (snd s) @ take (nat n) d" "e = None \<longrightarrow> n = int (length d)"
    using write_segments_ok [OF accepted] by blast
  ultimately show "\<exists>n e w'. FragmentWriter_Write wr fr rs s d = Some (n, e, w') \<and> 0 \<le> n \<and> n \<le> int (length d)
      \<and> sent (snd w') = sent (snd s) @ take (nat n) d \<and> (e = None \<longrightarrow> n = int (length d))"
    using segments by (auto simp: FragmentWriter_Write_def Let_def)
qed

context fragment_writer
begin

lemma segmented_mb: "mb_writer (SequentialWriter_WriteMultiBuffer (FragmentWriter_Write wr fr rs)) (\<lambda>s. sent (snd s))"
  by (rule segmented.seqw.mb_writer_axioms)

end

definition demo_fragment :: Fragment where
  "demo_fragment = \<lparr>fr_PacketsFrom = 0, fr_PacketsTo = 1, fr_LengthMin = 2, fr_LengthMax = 2, fr_IntervalMin = 0, fr_IntervalMax = 0, fr_MaxSplitMin = 0, fr_MaxSplitMax = 0\<rparr>"

lemma demo_fragment_ok: "fragment_ok demo_fragment" "fragment_ok (demo_fragment\<lparr>fr_PacketsTo := 0\<rparr>)" "is_hello_mode demo_fragment"
  "\<not> is_hello_mode (demo_fragment\<lparr>fr_PacketsTo := 0\<rparr>)"
  by (simp_all add: demo_fragment_def fragment_ok_def is_hello_mode_def)

interpretation demo_segments: fragment_writer sink_Write sk_out "demo_fragment\<lparr>fr_PacketsTo := 0\<rparr>" "\<lambda>_ _. 0"
  using demo_fragment_ok by unfold_locales simp_all

section \<open>Properties\<close>



end
