(* ===== verification/Race_Dial.thy ===== *)
theory Race_Dial
  imports Net_Address "HOL-Library.Multiset"
begin

text \<open>
  \<open>transport/internet/happy_eyeballs.go\<close>: the order in which the addresses of a domain are tried, and the race of the dials. The loop of
  \<open>TcpRaceDial\<close> and the goroutines of \<open>tcpTryDial\<close> are a step relation: a timer that fires, a dial that ends, a result that is taken from
  the channel, and the caller's cancellation. The channel has room for all results, so no dial waits for it. The timer of the Go version of the module delivers
  no tick after it was stopped or reset.
\<close>

section \<open>The order of the addresses\<close>

fun split_families :: "byte list list \<Rightarrow> (byte list list \<times> byte list list) option" where
  "split_families [] = Some ([], [])"
| "split_families (ip # ips) =
     Option.bind (IPAddress ip) (\<lambda>a. map_option (\<lambda>(ip4, ip6).
       if length (Address_IP a) = 4 then (Address_IP a # ip4, ip6) else (ip4, Address_IP a # ip6)) (split_families ips))"

text \<open>The loop of \<open>sortIPs\<close>, over what is left of the two families.\<close>

fun sort_loop :: "32 word \<Rightarrow> bool \<Rightarrow> 32 word \<Rightarrow> byte list list \<Rightarrow> byte list list \<Rightarrow> byte list list" where
  "sort_loop interleave ip4turn consumeTurn (a # ip4) (b # ip6) =
     (if ip4turn then
        a # (if ip4 = [] then b # ip6
             else if consumeTurn + 1 = interleave then sort_loop interleave False 0 ip4 (b # ip6)
             else sort_loop interleave True (consumeTurn + 1) ip4 (b # ip6))
      else
        b # (if ip6 = [] then a # ip4
             else if consumeTurn + 1 = interleave then sort_loop interleave True 0 (a # ip4) ip6
             else sort_loop interleave False (consumeTurn + 1) (a # ip4) ip6))"
| "sort_loop interleave ip4turn consumeTurn ip4 ip6 = ip4 @ ip6"

definition sortIPs :: "byte list list \<Rightarrow> bool \<Rightarrow> 32 word \<Rightarrow> byte list list option" where
  "sortIPs ips prioritizeIPv6 interleave =
     (if ips = [] then Some ips
      else map_option (\<lambda>(ip4, ip6). if ip4 = [] \<or> ip6 = [] then ips else sort_loop interleave (\<not> prioritizeIPv6) 0 ip4 ip6) (split_families ips))"

section \<open>The race\<close>

text \<open>A connection is named by the index of the address it was dialed to. \<open>Finished\<close> is a return, \<open>Panicked\<close> the panic of the loop.\<close>

definition ctx_Err :: goerr where
  "ctx_Err = ErrOther ''context canceled''"

datatype race_out = Running | Panicked | Finished "goerr + nat"

record race =
  rc_next :: nat
  rc_activeNum :: "32 word"
  rc_flying :: "nat list"
  rc_results :: "(nat \<times> (goerr + unit)) list"
  rc_armed :: bool
  rc_winConn :: "nat option"
  rc_cancelled :: bool
  rc_ctxDone :: bool
  rc_made :: "nat list"
  rc_closed :: "nat list"
  rc_out :: race_out

definition race_start :: race where
  "race_start = \<lparr>rc_next = 0, rc_activeNum = 0, rc_flying = [], rc_results = [], rc_armed = True, rc_winConn = None, rc_cancelled = False,
     rc_ctxDone = False, rc_made = [], rc_closed = [], rc_out = Running\<rparr>"

text \<open>\<open>case <-timer.C\<close>.\<close>

definition on_timer :: "nat \<Rightarrow> 32 word \<Rightarrow> race \<Rightarrow> race" where
  "on_timer n maxConcurrentTry s =
     (if rc_next s = n \<or> rc_activeNum s = maxConcurrentTry then s\<lparr>rc_armed := False, rc_out := Panicked\<rparr>
      else s\<lparr>rc_flying := rc_next s # rc_flying s, rc_activeNum := rc_activeNum s + 1, rc_next := rc_next s + 1,
             rc_armed := \<not> (rc_next s + 1 = n \<or> rc_activeNum s + 1 = maxConcurrentTry)\<rparr>)"

text \<open>\<open>case r := <-resultCh\<close>, for a cancelled caller and otherwise.\<close>

definition on_result_done :: "race \<Rightarrow> nat \<Rightarrow> goerr + unit \<Rightarrow> race" where
  "on_result_done s i r =
     s\<lparr>rc_cancelled := True, rc_armed := False,
       rc_closed := rc_closed s @ (case rc_winConn s of None \<Rightarrow> [] | Some c \<Rightarrow> [c]) @ (case r of Inl _ \<Rightarrow> [] | Inr _ \<Rightarrow> [i]),
       rc_out := (if rc_activeNum s = 0 then Finished (Inl ctx_Err) else rc_out s)\<rparr>"

definition take_conn :: "race \<Rightarrow> nat \<Rightarrow> goerr + unit \<Rightarrow> race" where
  "take_conn s i r =
     (case r of
        Inl _ \<Rightarrow> s
      | Inr _ \<Rightarrow>
          (case rc_winConn s of
             None \<Rightarrow> s\<lparr>rc_cancelled := True, rc_armed := False, rc_winConn := Some i\<rparr>
           | Some _ \<Rightarrow> s\<lparr>rc_cancelled := True, rc_armed := False, rc_closed := rc_closed s @ [i]\<rparr>))"

definition on_result_open :: "nat \<Rightarrow> race \<Rightarrow> nat \<Rightarrow> goerr + unit \<Rightarrow> race" where
  "on_result_open n s i r =
     (let s1 = take_conn s i r
      in case rc_winConn s1 of
           Some c \<Rightarrow> if rc_activeNum s1 = 0 then s1\<lparr>rc_out := Finished (Inr c)\<rparr> else s1
         | None \<Rightarrow>
             if rc_next s1 < n then s1\<lparr>rc_armed := True\<rparr>
             else if rc_activeNum s1 = 0 then s1\<lparr>rc_out := (case r of Inl e \<Rightarrow> Finished (Inl e) | Inr _ \<Rightarrow> rc_out s1)\<rparr>
             else s1\<lparr>rc_armed := False\<rparr>)"

definition on_result :: "nat \<Rightarrow> race \<Rightarrow> nat \<Rightarrow> goerr + unit \<Rightarrow> race" where
  "on_result n s i r =
     (let s0 = s\<lparr>rc_results := tl (rc_results s), rc_activeNum := rc_activeNum s - 1\<rparr>
      in if rc_ctxDone s then on_result_done s0 i r else on_result_open n s0 i r)"

text \<open>\<open>tcpTryDial\<close> after the system dialer returned: a connection that comes too late is closed by the goroutine.\<close>

definition tcpTryDial :: "nat \<Rightarrow> goerr + unit \<Rightarrow> race \<Rightarrow> race" where
  "tcpTryDial i r s =
     (let s1 = s\<lparr>rc_flying := remove1 i (rc_flying s), rc_made := rc_made s @ (case r of Inl _ \<Rightarrow> [] | Inr _ \<Rightarrow> [i])\<rparr>
      in if rc_cancelled s \<or> rc_ctxDone s
         then s1\<lparr>rc_closed := rc_closed s @ (case r of Inl _ \<Rightarrow> [] | Inr _ \<Rightarrow> [i]), rc_results := rc_results s @ [(i, Inl ctx_Err)]\<rparr>
         else s1\<lparr>rc_results := rc_results s @ [(i, r)]\<rparr>)"

datatype race_event = Tick | Dialed nat "goerr + unit" | Received | Cancel

inductive race_step :: "nat \<Rightarrow> 32 word \<Rightarrow> race \<Rightarrow> race_event \<Rightarrow> race \<Rightarrow> bool" where
  tick: "rc_out s = Running \<Longrightarrow> rc_armed s \<Longrightarrow> race_step n m s Tick (on_timer n m s)"
| dialed: "i \<in> set (rc_flying s) \<Longrightarrow> race_step n m s (Dialed i r) (tcpTryDial i r s)"
| received: "rc_out s = Running \<Longrightarrow> rc_results s = (i, r) # rs \<Longrightarrow> race_step n m s Received (on_result n s i r)"
| cancel: "race_step n m s Cancel (s\<lparr>rc_ctxDone := True\<rparr>)"

inductive race_run :: "nat \<Rightarrow> 32 word \<Rightarrow> race_event list \<Rightarrow> race \<Rightarrow> bool" where
  race_init: "race_run n m [] race_start"
| race_next: "race_run n m es s \<Longrightarrow> race_step n m s e s' \<Longrightarrow> race_run n m (es @ [e]) s'"

inductive_simps race_step_cancel: "race_step n m s Cancel s'"


section \<open>Invariants\<close>

text \<open>The counter counts the dials without a result, and an armed timer may start another one.\<close>

definition race_counted :: "nat \<Rightarrow> 32 word \<Rightarrow> race \<Rightarrow> bool" where
  "race_counted n m s \<longleftrightarrow> rc_next s \<le> n \<and> unat (rc_activeNum s) = length (rc_flying s) + length (rc_results s) \<and> unat (rc_activeNum s) \<le> unat m
     \<and> (rc_out s = Running \<longrightarrow> rc_armed s \<longrightarrow> rc_next s < n \<and> rc_activeNum s \<noteq> m)
     \<and> (rc_out s = Running \<longrightarrow> rc_armed s \<or> rc_activeNum s \<noteq> 0) \<and> (rc_out s \<noteq> Running \<longrightarrow> rc_activeNum s = 0) \<and> rc_out s \<noteq> Panicked"

text \<open>No index is used twice, and every connection is held by somebody until it is closed.\<close>

definition held :: "race \<Rightarrow> bool" where
  "held s \<longleftrightarrow> distinct (rc_flying s @ map fst (rc_results s)) \<and> (\<forall>i \<in> set (rc_flying s @ map fst (rc_results s)). i < rc_next s)
     \<and> (\<forall>i. (i, Inr ()) \<in> set (rc_results s) \<longrightarrow> i \<in> set (rc_made s))
     \<and> (\<forall>i \<in> set (rc_made s). i < rc_next s \<and> i \<notin> set (rc_flying s))
     \<and> set (rc_closed s) \<subseteq> set (rc_made s)
     \<and> (\<forall>c. rc_winConn s = Some c \<longrightarrow> c \<in> set (rc_made s) \<and> rc_cancelled s)
     \<and> (\<forall>i \<in> set (rc_closed s). (i, Inr ()) \<notin> set (rc_results s)) \<and> (\<forall>c. rc_winConn s = Some c \<longrightarrow> (c, Inr ()) \<notin> set (rc_results s))
     \<and> (\<forall>i \<in> set (rc_made s). i \<in> set (rc_closed s) \<or> rc_winConn s = Some i \<or> (i, Inr ()) \<in> set (rc_results s))"

text \<open>Nothing is closed or cancelled before there is a winner, unless the caller cancels; and what a return means.\<close>

definition settled :: "nat \<Rightarrow> race \<Rightarrow> bool" where
  "settled n s \<longleftrightarrow> (rc_cancelled s \<or> rc_closed s \<noteq> [] \<longrightarrow> rc_winConn s \<noteq> None \<or> rc_ctxDone s)
     \<and> (\<forall>c. rc_winConn s = Some c \<longrightarrow> c \<in> set (rc_closed s) \<longrightarrow> rc_ctxDone s)
     \<and> (\<forall>c. rc_out s = Finished (Inr c) \<longrightarrow> rc_winConn s = Some c \<and> c \<notin> set (rc_closed s))
     \<and> (\<forall>e. rc_out s = Finished (Inl e) \<longrightarrow> set (rc_made s) \<subseteq> set (rc_closed s) \<and> (rc_ctxDone s \<or> rc_made s = [] \<and> rc_next s = n))"

lemma take_conn_sel [simp]:
  "rc_next (take_conn s i r) = rc_next s" "rc_activeNum (take_conn s i r) = rc_activeNum s" "rc_flying (take_conn s i r) = rc_flying s"
  "rc_results (take_conn s i r) = rc_results s" "rc_made (take_conn s i r) = rc_made s" "rc_out (take_conn s i r) = rc_out s"
  "rc_ctxDone (take_conn s i r) = rc_ctxDone s"
  by (simp_all add: take_conn_def split: sum.splits option.splits)

lemma unat_inc: "unat (a :: 32 word) < unat (b :: 32 word) \<Longrightarrow> unat (a + 1) = Suc (unat a)"
  using unsigned_less [of b, where ?'a = nat] unat_add_lem [of a 1] by simp

lemma unat_dec: "(a :: 32 word) \<noteq> 0 \<Longrightarrow> unat (a - 1) = unat a - 1"
  by (rule unat_minus_one)

lemma on_timer_ok:
  assumes "race_counted n m s" "rc_out s = Running" "rc_armed s"
  shows "race_counted n m (on_timer n m s)"
proof -
  have a: "rc_next s < n" "rc_activeNum s \<noteq> m" "unat (rc_activeNum s) \<le> unat m" using assms by (auto simp: race_counted_def)
  then have l: "unat (rc_activeNum s) < unat m" using word_unat_eq_iff by (metis le_neq_implies_less)
  note u = unat_inc [OF l]
  then have "rc_activeNum s + 1 \<noteq> 0" by (metis nat.distinct(1) unat_0)
  then show ?thesis using assms a l u by (auto simp: race_counted_def on_timer_def)
qed


lemma on_result_ok:
  assumes "race_counted n m s" "held s" "settled n s" "rc_out s = Running" "rc_results s = (i, r) # rs"
  shows "race_counted n m (on_result n s i r)"
proof -
  have a: "rc_activeNum s \<noteq> 0" using assms(1,5) by (auto simp: race_counted_def)
  let ?a = "rc_activeNum s - 1"
  have u: "unat ?a = length (rc_flying s) + length rs" "unat ?a < unat m" "?a \<noteq> m"
    using unat_dec [OF a] assms(1,5) a by (auto simp: race_counted_def)
  have w: "rc_winConn (take_conn s' i (Inr ())) \<noteq> None" for s' by (simp add: take_conn_def split: option.splits)
  show ?thesis
  proof (cases "rc_ctxDone s")
    case True
    then show ?thesis using assms(1,4,5) u by (auto simp: race_counted_def on_result_def on_result_done_def Let_def)
  next
    case False
    have n: "\<not> rc_next s < n \<Longrightarrow> rc_next s = n" "rc_armed s \<longrightarrow> rc_next s < n" using assms(1,4) by (auto simp: race_counted_def)
    show ?thesis
    proof (cases r)
      case (Inl e)
      then show ?thesis using assms(1,4,5) u n False
        by (auto simp: race_counted_def on_result_def on_result_open_def take_conn_def Let_def split: option.splits)
    next
      case (Inr x)
      then show ?thesis using assms(1,4,5) u n False
        by (auto simp: race_counted_def on_result_def on_result_open_def take_conn_def Let_def split: option.splits)
    qed
  qed
qed

lemma tcpTryDial_ok: "race_counted n m s \<Longrightarrow> i \<in> set (rc_flying s) \<Longrightarrow> race_counted n m (tcpTryDial i r s)"
  using length_pos_if_in_set [of i "rc_flying s"] by (auto simp: race_counted_def tcpTryDial_def Let_def length_remove1)

lemma race_counted_step:
  assumes "race_step n m s e s'" "race_counted n m s" "held s" "settled n s"
  shows "race_counted n m s'"
  using assms(1)
proof (cases rule: race_step.cases)
  case tick
  then show ?thesis using on_timer_ok [OF assms(2)] by simp
next
  case (dialed i r)
  then show ?thesis using tcpTryDial_ok [OF assms(2)] by simp
next
  case (received i r rs)
  then show ?thesis using on_result_ok [OF assms(2-4)] by simp
next
  case cancel
  then show ?thesis using assms(2) by (simp add: race_counted_def)
qed

lemma on_timer_held: "held s \<Longrightarrow> held (on_timer n m s)"
  by (auto simp: held_def on_timer_def less_Suc_eq)

lemma tcpTryDial_held:
  assumes "held s" "i \<in> set (rc_flying s)"
  shows "held (tcpTryDial i r s)"
proof -
  have "distinct (rc_flying s)" "distinct (map fst (rc_results s))" "set (rc_flying s) \<inter> fst ` set (rc_results s) = {}" using assms(1) by (auto simp: held_def)
  moreover from this have "set (remove1 i (rc_flying s)) = set (rc_flying s) - {i}" "i \<notin> fst ` set (rc_results s)" using assms(2) by auto
  moreover have "i < rc_next s" "i \<notin> set (rc_made s)" using assms by (auto simp: held_def)
  ultimately show ?thesis using assms
    by (cases r) (auto simp: held_def tcpTryDial_def Let_def distinct_remove1)
qed


lemma on_result_held:
  assumes "held s" "rc_results s = (i, r) # rs"
  shows "held (on_result n s i r)"
proof -
  have d: "i \<notin> set (rc_flying s)" "i \<notin> fst ` set rs" "i < rc_next s" using assms by (auto simp: held_def)
  have "r = Inr () \<Longrightarrow> i \<in> set (rc_made s) \<and> i \<notin> set (rc_closed s) \<and> rc_winConn s \<noteq> Some i" using assms by (auto simp: held_def)
  then show ?thesis using assms d
    by (cases "rc_ctxDone s"; cases r)
       (auto simp: held_def on_result_def on_result_done_def on_result_open_def take_conn_def Let_def image_iff split: option.splits)
qed

lemma held_step:
  assumes "race_step n m s e s'" "held s"
  shows "held s'"
  using assms(1)
proof (cases rule: race_step.cases)
  case tick
  then show ?thesis using on_timer_held [OF assms(2)] by simp
next
  case (dialed i r)
  then show ?thesis using tcpTryDial_held [OF assms(2)] by simp
next
  case (received i r rs)
  then show ?thesis using on_result_held [OF assms(2)] by simp
next
  case cancel
  then show ?thesis using assms(2) by (simp add: held_def)
qed


lemma finished_idle: "race_counted n m s \<Longrightarrow> rc_out s \<noteq> Running \<Longrightarrow> rc_flying s = [] \<and> rc_results s = []"
  by (auto simp: race_counted_def)

lemma tcpTryDial_settled:
  assumes "race_counted n m s" "held s" "settled n s" "i \<in> set (rc_flying s)"
  shows "settled n (tcpTryDial i r s)"
proof -
  have "rc_out s = Running" using finished_idle [OF assms(1)] assms(4) by (metis empty_iff empty_set)
  moreover have "rc_winConn s \<noteq> Some i" using assms(2,4) by (auto simp: held_def)
  ultimately show ?thesis using assms(3) by (cases r) (auto simp: settled_def tcpTryDial_def Let_def)
qed

lemma on_result_settled:
  assumes "race_counted n m s" "held s" "settled n s" "rc_out s = Running" "rc_results s = (i, r) # rs"
  shows "settled n (on_result n s i r)"
proof -
  have a: "rc_activeNum s \<noteq> 0" using assms(1,5) by (auto simp: race_counted_def)
  then have z: "rc_activeNum s - 1 = 0 \<Longrightarrow> rs = []" using unat_dec [OF a] assms(1,5) by (auto simp: race_counted_def)
  have nx: "\<not> rc_next s < n \<Longrightarrow> rc_next s = n" using assms(1) by (simp add: race_counted_def)
  have new: "r = Inr () \<Longrightarrow> i \<in> set (rc_made s) \<and> i \<notin> set (rc_closed s) \<and> rc_winConn s \<noteq> Some i" using assms(2,5) by (auto simp: held_def)
  have held: "\<And>d. d \<in> set (rc_made s) \<Longrightarrow> d \<in> set (rc_closed s) \<or> rc_winConn s = Some d \<or> (d, Inr ()) \<in> set ((i, r) # rs)"
    using assms(2,5) by (auto simp: held_def)
  show ?thesis
  proof (cases "rc_ctxDone s")
    case True
    have "\<And>d. d \<in> set (rc_made s) \<Longrightarrow> d \<in> set (rc_closed s) \<or> Some d = rc_winConn s \<or> (d, Inr ()) \<in> set ((i, r) # rs)" using held by metis
    then show ?thesis using True assms(3,4) z
      by (cases r; auto simp: settled_def on_result_def on_result_done_def Let_def split: option.splits; blast)
  next
    case False
    show ?thesis
    proof (cases r)
      case (Inl e)
      then have "rs = [] \<Longrightarrow> rc_winConn s = None \<Longrightarrow> rc_made s = []" using held False assms(3) by (cases "rc_made s") (auto simp: settled_def)
      then show ?thesis using assms(3,4) False Inl z nx
        by (auto simp: settled_def on_result_def on_result_open_def take_conn_def Let_def split: option.splits)
    next
      case (Inr x)
      then show ?thesis using assms(3,4) False z nx new
        by (auto simp: settled_def on_result_def on_result_open_def take_conn_def Let_def split: option.splits)
    qed
  qed
qed

lemma settled_step:
  assumes "race_step n m s e s'" "race_counted n m s" "held s" "settled n s"
  shows "settled n s'"
  using assms(1)
proof (cases rule: race_step.cases)
  case tick
  then show ?thesis using assms(4) by (auto simp: settled_def on_timer_def)
next
  case (dialed i r)
  then show ?thesis using tcpTryDial_settled [OF assms(2-4)] by simp
next
  case (received i r rs)
  then show ?thesis using on_result_settled [OF assms(2-4)] by simp
next
  case cancel
  then show ?thesis using assms(4) by (auto simp: settled_def)
qed

lemma race_invariant:
  assumes "race_run n m es s" "0 < n" "m \<noteq> 0"
  shows "race_counted n m s \<and> held s \<and> settled n s"
  using assms
proof (induction rule: race_run.induct)
  case (race_init n m)
  then show ?case by (auto simp: race_start_def race_counted_def held_def settled_def)
next
  case (race_next n m es s e s')
  then show ?case using race_counted_step held_step settled_step by blast
qed

text \<open>What is still to be done; every event but a cancellation makes it less.\<close>

definition race_left :: "nat \<Rightarrow> race \<Rightarrow> nat" where
  "race_left n s = 3 * (n - rc_next s) + 2 * length (rc_flying s) + length (rc_results s)"

lemma on_result_sel [simp]:
  "rc_next (on_result n s i r) = rc_next s" "rc_flying (on_result n s i r) = rc_flying s" "rc_results (on_result n s i r) = tl (rc_results s)"
  by (simp_all add: on_result_def on_result_done_def on_result_open_def Let_def split: option.splits)

lemma race_step_left:
  assumes "race_step n m s e s'" "race_counted n m s"
  shows "race_left n s' + (if e = Cancel then 0 else 1) \<le> race_left n s"
  using assms(1)
proof (cases rule: race_step.cases)
  case tick
  then have "rc_next s < n" "rc_activeNum s \<noteq> m" using assms(2) by (auto simp: race_counted_def)
  then show ?thesis using tick by (simp add: race_left_def on_timer_def)
next
  case (dialed i r)
  then obtain k where "length (rc_flying s) = Suc k" by (cases "rc_flying s") auto
  then show ?thesis using dialed by (simp add: race_left_def tcpTryDial_def Let_def length_remove1)
next
  case (received i r rs)
  then show ?thesis by (simp add: race_left_def)
next
  case cancel
  then show ?thesis by (simp add: race_left_def)
qed

lemma race_run_bound:
  assumes "race_run n m es s" "0 < n" "m \<noteq> 0"
  shows "length (filter (\<lambda>e. e \<noteq> Cancel) es) + race_left n s \<le> 3 * n"
  using assms
proof (induction rule: race_run.induct)
  case (race_init n m)
  then show ?case by (simp add: race_left_def race_start_def)
next
  case (race_next n m es s e s')
  then have "race_left n s' + (if e = Cancel then 0 else 1) \<le> race_left n s" using race_step_left race_invariant by blast
  then show ?case using race_next by (auto split: if_splits)
qed

lemma race_can_move:
  assumes "race_counted n m s" "rc_out s = Running"
  shows "\<exists>e s'. e \<noteq> Cancel \<and> race_step n m s e s'"
proof -
  consider "rc_armed s" | i where "i \<in> set (rc_flying s)" | i r rs where "rc_results s = (i, r) # rs"
    using assms by (cases "rc_results s"; cases "rc_flying s") (auto simp: race_counted_def unsigned_eq_0_iff)
  then show ?thesis
  proof cases
    case 1
    then show ?thesis using tick [OF assms(2)] by blast
  next
    case 2
    then show ?thesis using dialed [of _ s n m "Inl ctx_Err"] by blast
  next
    case 3
    then show ?thesis using received [OF assms(2)] by blast
  qed
qed

section \<open>Properties\<close>

text \<open>
  C22. The race of dials is safe in every interleaving of its timer, its dials, their results and a cancellation: the loop never reaches its panic, and when it
  returns, no dial is left. If it returns a connection, this one is open and every other connection that was established has been closed;
  if it returns an error, all of them are closed, and then the caller has cancelled or every address was tried and none answered.
\<close>

theorem race_keeps_one_connection:
  assumes "race_run n m es s" "0 < n" "m \<noteq> 0"
  shows "case rc_out s of
      Running \<Rightarrow> True
    | Panicked \<Rightarrow> False
    | Finished (Inr c) \<Rightarrow> rc_flying s = [] \<and> c \<in> set (rc_made s) \<and> c \<notin> set (rc_closed s) \<and> set (rc_made s) - {c} \<subseteq> set (rc_closed s)
    | Finished (Inl e) \<Rightarrow> rc_flying s = [] \<and> set (rc_made s) \<subseteq> set (rc_closed s) \<and> (rc_ctxDone s \<or> rc_made s = [] \<and> rc_next s = n)"
proof -
  have i: "race_counted n m s" "held s" "settled n s" using race_invariant [OF assms] by auto
  have "rc_out s \<noteq> Running \<Longrightarrow> rc_flying s = [] \<and> rc_results s = []" by (rule finished_idle [OF i(1)])
  moreover have "rc_out s \<noteq> Panicked" using i(1) by (simp add: race_counted_def)
  ultimately show ?thesis using i(2,3) by (cases "rc_out s") (auto simp: held_def settled_def split: sum.splits)
qed

lemma demo_race: "\<exists>s. race_run 2 1 [Tick, Dialed 0 (Inr ()), Received] s \<and> rc_out s = Finished (Inr 0) \<and> rc_made s = [0]"
proof -
  let ?a = "on_timer 2 1 race_start" and ?b = "tcpTryDial 0 (Inr ()) (on_timer 2 1 race_start)"
  have t: "race_step 2 1 race_start Tick ?a" by (rule tick) (simp_all add: race_start_def)
  have d: "race_step 2 1 ?a (Dialed 0 (Inr ())) ?b" by (rule dialed) (simp add: race_start_def on_timer_def)
  have r: "race_step 2 1 ?b Received (on_result 2 ?b 0 (Inr ()))" by (rule received) (simp_all add: race_start_def on_timer_def tcpTryDial_def)
  have "race_run 2 1 ((([] @ [Tick]) @ [Dialed 0 (Inr ())]) @ [Received]) (on_result 2 ?b 0 (Inr ()))"
    by (rule race_next [OF race_next [OF race_next [OF race_init t] d] r])
  then show ?thesis
    by (intro exI [of _ "on_result 2 ?b 0 (Inr ())"])
       (simp add: race_start_def on_timer_def tcpTryDial_def on_result_def on_result_open_def take_conn_def)
qed

theorem race_keeps_one_connection_witness:
  "\<exists>s. race_run 2 1 [Tick, Dialed 0 (Inr ()), Received] s \<and> rc_out s = Finished (Inr 0) \<and> rc_flying s = [] \<and> 0 \<notin> set (rc_closed s)"
  using demo_race race_keeps_one_connection [of 2 1 "[Tick, Dialed 0 (Inr ()), Received]"] by fastforce

text \<open>
  C37. The race ends: a loop that has not returned can always go on without waiting for the caller, because its timer is armed, a dial is under way or a
  result waits; and in every run there are at most three such events for each address, so that it returns after at most \<open>3 * n\<close> of them.
\<close>

theorem race_terminates:
  assumes "race_run n m es s" "0 < n" "m \<noteq> 0"
  shows "length (filter (\<lambda>e. e \<noteq> Cancel) es) \<le> 3 * n \<and> (rc_out s = Running \<longrightarrow> (\<exists>e s'. e \<noteq> Cancel \<and> race_run n m (es @ [e]) s'))"
proof -
  have "rc_out s = Running \<longrightarrow> (\<exists>e s'. e \<noteq> Cancel \<and> race_step n m s e s')" using race_invariant [OF assms] race_can_move by blast
  then show ?thesis using race_run_bound [OF assms] race_run.race_next [OF assms(1)] by (auto intro: order.trans [OF le_add1])
qed


theorem race_terminates_witness:
  "\<exists>s. race_run 2 1 [Tick, Dialed 0 (Inr ()), Received] s \<and> length (filter (\<lambda>e. e \<noteq> Cancel) [Tick, Dialed 0 (Inr ()), Received]) \<le> 3 * 2"
  using demo_race race_terminates [of 2 1 "[Tick, Dialed 0 (Inr ()), Received]"] by fastforce

text \<open>
  The order of the addresses as blocks of the two families that take turns, until one of them is used up.
\<close>

function blocks :: "nat \<Rightarrow> 'a list \<Rightarrow> 'a list \<Rightarrow> 'a list" where
  "blocks k xs ys = (if xs = [] \<or> k = 0 then xs @ ys else take k xs @ (if drop k xs = [] then ys else blocks k ys (drop k xs)))"
  by pat_completeness auto
termination by (relation "measure (\<lambda>(k, xs, ys). length xs + length ys)") auto

declare blocks.simps [simp del]

definition block_size :: "32 word \<Rightarrow> nat" where
  "block_size interleave = (if interleave = 0 then 2 ^ 32 else unat interleave)"

lemma block_turn: "consumeTurn + 1 = interleave \<longleftrightarrow> block_size interleave = Suc (unat consumeTurn)" if "unat consumeTurn < block_size interleave"
proof -
  show ?thesis
  proof (cases "consumeTurn + 1 = (0 :: 32 word)")
    case True
    then have c: "consumeTurn = - 1" by (simp add: eq_neg_iff_add_eq_0)
    then show ?thesis using True unsigned_less [of interleave, where ?'a = nat] that by (auto simp: block_size_def unsigned_minus_1_eq_mask mask_eq_exp_minus_1)
  next
    case False
    then have "unat (consumeTurn + 1) = Suc (unat consumeTurn)" using unat_dec [OF False] unat_gt_0 [of "consumeTurn + 1"] by simp
    then show ?thesis using False unsigned_less [of "consumeTurn + 1", where ?'a = nat] by (auto simp: block_size_def word_unat_eq_iff)
  qed
qed


lemma block_next:
  assumes "unat consumeTurn < block_size interleave" "consumeTurn + 1 \<noteq> interleave"
  shows "unat (consumeTurn + 1) = Suc (unat consumeTurn)" "Suc (unat consumeTurn) < block_size interleave"
proof -
  have "block_size interleave \<noteq> Suc (unat consumeTurn)" using block_turn [OF assms(1)] assms(2) by simp
  then show l: "Suc (unat consumeTurn) < block_size interleave" using assms(1) by simp
  moreover have "block_size interleave \<le> 2 ^ 32" using unsigned_less [of interleave, where ?'a = nat] by (simp add: block_size_def)
  ultimately show "unat (consumeTurn + 1) = Suc (unat consumeTurn)" using unat_add_lem [of consumeTurn 1] by simp
qed

lemma sort_loop_blocks:
  assumes "unat c < block_size interleave" "ip4 \<noteq> []" "ip6 \<noteq> []"
  shows "sort_loop interleave t c ip4 ip6 =
    (let k = block_size interleave; xs = (if t then ip4 else ip6); ys = (if t then ip6 else ip4)
     in take (k - unat c) xs @ (if drop (k - unat c) xs = [] then ys else blocks k ys (drop (k - unat c) xs)))"
  using assms
proof (induction interleave t c ip4 ip6 rule: sort_loop.induct)
  case (1 interleave t c a ip4 b ip6)
  let ?k = "block_size interleave"
  have k: "0 < ?k" using "1.prems"(1) by simp
  obtain j where j: "?k - unat c = Suc j" using "1.prems"(1) by (metis Suc_diff_Suc)
  have last: "c + 1 = interleave \<longleftrightarrow> j = 0" using block_turn [OF "1.prems"(1)] j by auto
  have next': "c + 1 \<noteq> interleave \<Longrightarrow> ?k - unat (c + 1) = j \<and> unat (c + 1) < ?k" using block_next [OF "1.prems"(1)] j by auto
  have b0: "blocks ?k xs ys = take ?k xs @ (if drop ?k xs = [] then ys else blocks ?k ys (drop ?k xs))" if "xs \<noteq> []" for xs ys :: "byte list list"
    using that k by (subst blocks.simps) simp
  show ?case
    using "1.IH" k j last next' by (cases t; cases "c + 1 = interleave") (auto simp: Let_def b0)
qed auto

lemma sort_loop_order:
  "ip4 \<noteq> [] \<Longrightarrow> ip6 \<noteq> [] \<Longrightarrow> sort_loop interleave t 0 ip4 ip6 = (if t then blocks (block_size interleave) ip4 ip6 else blocks (block_size interleave) ip6 ip4)"
proof -
  assume n: "ip4 \<noteq> []" "ip6 \<noteq> []"
  have k: "0 < block_size interleave" by (auto simp: block_size_def unat_gt_0)
  have b: "blocks (block_size interleave) xs ys = take (block_size interleave) xs @ (if drop (block_size interleave) xs = [] then ys
      else blocks (block_size interleave) ys (drop (block_size interleave) xs))" if "xs \<noteq> []" for xs ys :: "byte list list"
    using that k by (subst blocks.simps) simp
  show ?thesis using sort_loop_blocks [of 0 interleave ip4 ip6 t] n k by (simp add: b Let_def)
qed


lemma blocks_mset: "mset (blocks k xs ys) = mset xs + mset ys"
proof (induction k xs ys rule: blocks.induct)
  case (1 k xs ys)
  have "mset (take k xs) + mset (drop k xs) = mset xs" by (metis append_take_drop_id mset_append)
  then show ?case using 1 by (subst blocks.simps) (auto simp: union_ac)
qed

text \<open>The families of a list of addresses, in the short form of the addresses.\<close>

definition family :: "nat \<Rightarrow> byte list list \<Rightarrow> byte list list" where
  "family l ips = filter (\<lambda>a. length a = l) (map (\<lambda>ip. case IPAddress ip of Some a \<Rightarrow> Address_IP a | None \<Rightarrow> ip) ips)"

lemma IPAddress_len: "length ip = 4 \<or> length ip = 16 \<Longrightarrow> \<exists>a. IPAddress ip = Some a \<and> (length (Address_IP a) = 4 \<or> length (Address_IP a) = 16)"
  by (auto simp: IPAddress_def)

lemma split_families_ok:
  "\<forall>ip \<in> set ips. length ip = 4 \<or> length ip = 16 \<Longrightarrow> split_families ips = Some (family 4 ips, family 16 ips)"
proof (induction ips)
  case (Cons ip ips)
  then show ?case using IPAddress_len [of ip] by (auto simp: family_def)
qed (simp add: family_def)

text \<open>
  \<open>sortIPs\<close> never panics on the addresses of a DNS answer and returns them all: if both families occur, they come in their short form in blocks of
  \<open>interleave\<close> addresses that take turns, beginning with the family that has priority and keeping the order within each family; otherwise
  the list is returned as it is. An \<open>interleave\<close> of 0 means blocks of \<open>2 ^ 32\<close>, that is, the other family is tried last.
\<close>

theorem sortIPs_blocks:
  assumes "\<forall>ip \<in> set ips. length ip = 4 \<or> length ip = 16"
  shows "sortIPs ips prioritizeIPv6 interleave = Some (if family 4 ips = [] \<or> family 16 ips = [] then ips
      else if prioritizeIPv6 then blocks (block_size interleave) (family 16 ips) (family 4 ips)
      else blocks (block_size interleave) (family 4 ips) (family 16 ips))
    \<and> mset (blocks (block_size interleave) (family 4 ips) (family 16 ips)) = image_mset (\<lambda>ip. Address_IP (the (IPAddress ip))) (mset ips)
    \<and> mset (blocks (block_size interleave) (family 16 ips) (family 4 ips)) = image_mset (\<lambda>ip. Address_IP (the (IPAddress ip))) (mset ips)"
proof -
  have "sortIPs ips prioritizeIPv6 interleave = Some (if family 4 ips = [] \<or> family 16 ips = [] then ips
      else if prioritizeIPv6 then blocks (block_size interleave) (family 16 ips) (family 4 ips)
      else blocks (block_size interleave) (family 4 ips) (family 16 ips))"
    using split_families_ok [OF assms] by (auto simp: sortIPs_def sort_loop_order family_def)
  moreover have "mset (family 4 ips) + mset (family 16 ips) = image_mset (\<lambda>ip. Address_IP (the (IPAddress ip))) (mset ips)"
    using assms
  proof (induction ips)
    case (Cons ip ips)
    then show ?case using IPAddress_len [of ip] by (auto simp: family_def)
  qed (simp add: family_def)
  ultimately show ?thesis by (simp add: blocks_mset union_commute)
qed

theorem sortIPs_blocks_witness:
  "sortIPs [[10, 0, 0, 1], replicate 16 1, [10, 0, 0, 2], [10, 0, 0, 3]] True 1 = Some [replicate 16 1, [10, 0, 0, 1], [10, 0, 0, 2], [10, 0, 0, 3]]"
  using sortIPs_blocks [of "[[10, 0, 0, 1], replicate 16 1, [10, 0, 0, 2], [10, 0, 0, 3]]" True 1]
  by (simp add: family_def IPAddress_def is_mapped_def block_size_def blocks.simps numeral_eq_Suc)

end
