(* ===== verification/Dial.thy ===== *)
theory Dial
  imports Net_Text Dispatcher Race_Dial
begin

text \<open>
  \<open>transport/internet/dialer.go\<close> and the domain strategies of \<open>transport/internet/config.go\<close>: how the destination of an outbound connection becomes the
  address that is dialed. The DNS client, the resolver of the system for SRV and TXT records, the outbound manager and the random choice are
  parameters. What is dialed is a value; the sockets are not modelled.
\<close>

section \<open>Domain strategies\<close>

datatype DomainStrategy = AS_IS | USE_IP | USE_IP4 | USE_IP6 | USE_IP46 | USE_IP64 | FORCE_IP | FORCE_IP4 | FORCE_IP6 | FORCE_IP46 | FORCE_IP64

fun strategy :: "DomainStrategy \<Rightarrow> nat \<times> nat \<times> nat" where
  "strategy AS_IS = (0, 0, 0)"
| "strategy USE_IP = (1, 0, 0)"
| "strategy USE_IP4 = (1, 4, 0)"
| "strategy USE_IP6 = (1, 6, 0)"
| "strategy USE_IP46 = (1, 4, 6)"
| "strategy USE_IP64 = (1, 6, 4)"
| "strategy FORCE_IP = (2, 0, 0)"
| "strategy FORCE_IP4 = (2, 4, 0)"
| "strategy FORCE_IP6 = (2, 6, 0)"
| "strategy FORCE_IP46 = (2, 4, 6)"
| "strategy FORCE_IP64 = (2, 6, 4)"

definition HasStrategy :: "DomainStrategy \<Rightarrow> bool" where
  "HasStrategy s \<longleftrightarrow> fst (strategy s) \<noteq> 0"

definition ForceIP :: "DomainStrategy \<Rightarrow> bool" where
  "ForceIP s \<longleftrightarrow> fst (strategy s) = 2"

definition PreferIP4 :: "DomainStrategy \<Rightarrow> bool" where
  "PreferIP4 s \<longleftrightarrow> fst (snd (strategy s)) = 4 \<or> fst (snd (strategy s)) = 0"

definition PreferIP6 :: "DomainStrategy \<Rightarrow> bool" where
  "PreferIP6 s \<longleftrightarrow> fst (snd (strategy s)) = 6 \<or> fst (snd (strategy s)) = 0"

definition HasFallback :: "DomainStrategy \<Rightarrow> bool" where
  "HasFallback s \<longleftrightarrow> snd (snd (strategy s)) \<noteq> 0"

definition FallbackIP4 :: "DomainStrategy \<Rightarrow> bool" where
  "FallbackIP4 s \<longleftrightarrow> snd (snd (strategy s)) = 4"

definition FallbackIP6 :: "DomainStrategy \<Rightarrow> bool" where
  "FallbackIP6 s \<longleftrightarrow> snd (snd (strategy s)) = 6"

definition GetDynamicStrategy :: "DomainStrategy \<Rightarrow> AddressFamily \<Rightarrow> DomainStrategy" where
  "GetDynamicStrategy s f =
     (if IsDomain f then s
      else case s of
             USE_IP \<Rightarrow> if f = AddressFamilyIPv4 then USE_IP46 else if f = AddressFamilyIPv6 then USE_IP64 else s
           | FORCE_IP \<Rightarrow> if f = AddressFamilyIPv4 then FORCE_IP46 else if f = AddressFamilyIPv6 then FORCE_IP64 else s
           | _ \<Rightarrow> s)"

section \<open>Lookups\<close>

text \<open>\<open>dns.Client.LookupIP\<close>: the domain and the two families that are asked for.\<close>

type_synonym dns_LookupIP = "gostring \<Rightarrow> bool \<Rightarrow> bool \<Rightarrow> byte list list \<times> goerr option"

definition ErrEmptyResponse :: goerr where
  "ErrEmptyResponse = ENew ''empty response'' None"

definition LookupForIP :: "dns_LookupIP option \<Rightarrow> gostring \<Rightarrow> DomainStrategy \<Rightarrow> Address option \<Rightarrow> byte list list \<times> goerr option" where
  "LookupForIP dnsClient domain s localAddr =
     (case dnsClient of
        None \<Rightarrow> ([], Some (ENew ''DNS client not initialized'' None))
      | Some LookupIP \<Rightarrow>
          (let (ips, err) = LookupIP domain
                 (case localAddr of None \<Rightarrow> PreferIP4 s | Some a \<Rightarrow> Family a = AddressFamilyIPv4 \<and> (PreferIP4 s \<or> FallbackIP4 s))
                 (case localAddr of None \<Rightarrow> PreferIP6 s | Some a \<Rightarrow> Family a = AddressFamilyIPv6 \<and> (PreferIP6 s \<or> FallbackIP6 s));
               (ips, err) = (if (ips = [] \<or> err \<noteq> None) \<and> HasFallback s \<and> localAddr = None
                             then LookupIP domain (FallbackIP4 s) (FallbackIP6 s) else (ips, err))
           in if err = None \<and> ips = [] then ([], Some ErrEmptyResponse) else (ips, err)))"

section \<open>Addresses and ports from DNS records\<close>

datatype AddressPortStrategy = APS_None | SrvPortOnly | SrvAddressOnly | SrvPortAndAddress | TxtPortOnly | TxtAddressOnly | TxtPortAndAddress

record HappyEyeballsConfig =
  he_PrioritizeIpv6 :: bool
  he_Interleave :: "32 word"
  he_TryDelayMs :: "64 word"
  he_MaxConcurrentTry :: "32 word"

record SocketConfig =
  sc_AddressPortStrategy :: AddressPortStrategy
  sc_DomainStrategy :: DomainStrategy
  sc_HappyEyeballs :: "HappyEyeballsConfig option"
  sc_DialerProxy :: gostring

text \<open>\<open>strings.Cut\<close> and \<open>strings.SplitN\<close> with a separator of one byte.\<close>

fun cut_at :: "byte \<Rightarrow> gostring \<Rightarrow> (gostring \<times> gostring) option" where
  "cut_at c [] = None"
| "cut_at c (x # xs) = (if x = c then Some ([], xs) else map_option (\<lambda>(a, b). (x # a, b)) (cut_at c xs))"

fun SplitN :: "byte \<Rightarrow> gostring \<Rightarrow> nat \<Rightarrow> gostring list" where
  "SplitN c s 0 = []"
| "SplitN c s (Suc 0) = [s]"
| "SplitN c s (Suc (Suc n)) = (case cut_at c s of None \<Rightarrow> [s] | Some (a, b) \<Rightarrow> a # SplitN c b (Suc n))"

type_synonym srv_lookup = "gostring \<Rightarrow> gostring \<Rightarrow> gostring \<Rightarrow> goerr + (gostring \<times> Port) list"
type_synonym txt_lookup = "gostring \<Rightarrow> goerr + gostring list"

definition aps_port :: "AddressPortStrategy \<Rightarrow> bool" where
  "aps_port s \<longleftrightarrow> s \<in> {SrvPortOnly, SrvPortAndAddress, TxtPortOnly, TxtPortAndAddress}"

definition aps_address :: "AddressPortStrategy \<Rightarrow> bool" where
  "aps_address s \<longleftrightarrow> s \<in> {SrvAddressOnly, SrvPortAndAddress, TxtAddressOnly, TxtPortAndAddress}"

definition aps_srv :: "AddressPortStrategy \<Rightarrow> bool" where
  "aps_srv s \<longleftrightarrow> s \<in> {SrvPortOnly, SrvAddressOnly, SrvPortAndAddress}"

definition override_dest :: "AddressPortStrategy \<Rightarrow> Address option \<Rightarrow> Port \<Rightarrow> Destination \<Rightarrow> Destination" where
  "override_dest s a p d = d\<lparr>d_Port := (if aps_port s then p else d_Port d), d_Address := (if aps_address s then a else d_Address d)\<rparr>"

text \<open>\<open>s[1:]\<close>.\<close>

definition behind_first :: "gostring \<Rightarrow> gostring option" where
  "behind_first s = (if s = [] then None else Some (tl s))"

definition srv_dest :: "srv_lookup \<Rightarrow> AddressPortStrategy \<Rightarrow> gostring \<Rightarrow> Destination \<Rightarrow> (goerr + Destination option) option" where
  "srv_dest LookupSRV s name dest =
     (case SplitN 46 name 3 of
        [a, b, c] \<Rightarrow>
          Option.bind (behind_first a) (\<lambda>service. Option.bind (behind_first b) (\<lambda>proto.
            case LookupSRV service proto c of
              Inl e \<Rightarrow> Some (Inl (ENew ''failed to lookup SRV record'' (Some e)))
            | Inr [] \<Rightarrow> None
            | Inr ((target, port) # _) \<Rightarrow> Some (Inr (Some (override_dest s (ParseAddress target) port dest)))))
      | _ \<Rightarrow> Some (Inl (ENew ''invalid address format'' None)))"

fun txt_dest :: "AddressPortStrategy \<Rightarrow> gostring list \<Rightarrow> Destination \<Rightarrow> Destination option" where
  "txt_dest s [] dest = None"
| "txt_dest s (r # rs) dest =
     (let (addr, port) = (case SplitHostPort r of Inl _ \<Rightarrow> ([], []) | Inr hp \<Rightarrow> hp)
      in case PortFromString port of Inl _ \<Rightarrow> txt_dest s rs dest | Inr p \<Rightarrow> Some (override_dest s (ParseAddress addr) p dest))"

definition checkAddressPortStrategy ::
  "srv_lookup \<Rightarrow> txt_lookup \<Rightarrow> Destination \<Rightarrow> SocketConfig \<Rightarrow> (goerr + Destination option) option" where
  "checkAddressPortStrategy LookupSRV LookupTXT dest sockopt =
     (if sc_AddressPortStrategy sockopt = APS_None then Some (Inr None)
      else Option.bind (d_Address dest) (\<lambda>a.
        if \<not> IsDomain (Family a) then Some (Inr None)
        else if aps_srv (sc_AddressPortStrategy sockopt) then srv_dest LookupSRV (sc_AddressPortStrategy sockopt) (Address_String a) dest
        else (case LookupTXT (Address_String a) of
                Inl e \<Rightarrow> Some (Inl (ENew ''failed to lookup SRV record'' (Some e)))
              | Inr rs \<Rightarrow> Some (Inr (txt_dest (sc_AddressPortStrategy sockopt) rs dest)))))"

section \<open>DialSystem\<close>

text \<open>The outbound of the session with the fields that only dialers use.\<close>

record dial_Outbound = Outbound +
  ob_Gateway :: "Address option"
  ob_Name :: gostring

datatype dial_action =
    SystemDial "Address option" Destination
  | RaceDial "Address option" "byte list list" Port
  | Redirect Destination gostring Handler

record dial_env =
  de_dnsClient :: "dns_LookupIP option"
  de_obm :: "Manager option"
  de_LookupSRV :: srv_lookup
  de_LookupTXT :: txt_lookup
  de_Intn :: "nat \<Rightarrow> nat"

definition race_wanted :: "SocketConfig \<Rightarrow> byte list list \<Rightarrow> Destination \<Rightarrow> bool" where
  "race_wanted sockopt ips dest \<longleftrightarrow>
     (case sc_HappyEyeballs sockopt of
        None \<Rightarrow> False
      | Some he \<Rightarrow> he_TryDelayMs he \<noteq> 0 \<and> he_MaxConcurrentTry he \<noteq> 0 \<and> 2 \<le> length ips \<and> sc_DialerProxy sockopt = [] \<and> d_Network dest = Network_TCP)"

definition dial_through :: "dial_env \<Rightarrow> Address option \<Rightarrow> Destination \<Rightarrow> SocketConfig \<Rightarrow> goerr + dial_action" where
  "dial_through env src dest sockopt =
     (if sc_DialerProxy sockopt \<noteq> [] then
        (case de_obm env of
           None \<Rightarrow> Inl (ENew ''there is no outbound manager for dialerProxy'' None)
         | Some obm \<Rightarrow>
             (case GetHandler obm (sc_DialerProxy sockopt) of
                None \<Rightarrow> Inl (ENew ''there is no outbound handler for dialerProxy'' None)
              | Some h \<Rightarrow> Inr (Redirect dest (sc_DialerProxy sockopt) h)))
      else Inr (SystemDial src dest))"

definition dial_resolved ::
  "dial_env \<Rightarrow> Address option \<Rightarrow> DomainStrategy \<Rightarrow> Destination \<Rightarrow> gostring \<Rightarrow> SocketConfig \<Rightarrow> (goerr + dial_action) option" where
  "dial_resolved env src finalStrategy dest domain sockopt =
     (case LookupForIP (de_dnsClient env) domain finalStrategy src of
        (ips, Some err) \<Rightarrow> if ForceIP (sc_DomainStrategy sockopt) then Some (Inl err) else Some (dial_through env src dest sockopt)
      | (ips, None) \<Rightarrow>
          if race_wanted sockopt ips dest then Some (Inr (RaceDial src ips (d_Port dest)))
          else if ips = [] then None
          else Some (dial_through env src (dest\<lparr>d_Address := IPAddress (ips ! (de_Intn env (length ips) mod length ips))\<rparr>) sockopt))"

definition dial_source :: "dial_Outbound list \<Rightarrow> SocketConfig option \<Rightarrow> Address option" where
  "dial_source outbounds sockopt =
     (if outbounds \<noteq> [] \<and> (case sockopt of None \<Rightarrow> True | Some so \<Rightarrow> sc_DialerProxy so = []) then ob_Gateway (last outbounds) else None)"

definition dial_strategy :: "dial_Outbound list \<Rightarrow> Address option \<Rightarrow> Destination \<Rightarrow> DomainStrategy \<Rightarrow> DomainStrategy" where
  "dial_strategy outbounds src dest s =
     (if outbounds = [] then s
      else let ob = last outbounds
           in case (case d_Address (ob_OriginalTarget ob) of None \<Rightarrow> d_Address (ob_Target ob) | Some a \<Rightarrow> Some a) of
                None \<Rightarrow> s
              | Some orig \<Rightarrow>
                  if ob_Name ob = str ''freedom'' \<and> d_Network dest = Network_UDP \<and> src = None then GetDynamicStrategy s (Family orig) else s)"

definition replaced_dest :: "dial_env \<Rightarrow> Destination \<Rightarrow> SocketConfig \<Rightarrow> Destination option" where
  "replaced_dest env dest sockopt =
     map_option (\<lambda>r. case r of Inr (Some newDest) \<Rightarrow> newDest | _ \<Rightarrow> dest)
       (checkAddressPortStrategy (de_LookupSRV env) (de_LookupTXT env) dest sockopt)"

definition DialSystem :: "dial_env \<Rightarrow> dial_Outbound list \<Rightarrow> Destination \<Rightarrow> SocketConfig option \<Rightarrow> (goerr + dial_action) option" where
  "DialSystem env outbounds dest0 sockopt =
     (let src = dial_source outbounds sockopt
      in case sockopt of
           None \<Rightarrow> Some (Inr (SystemDial src dest0))
         | Some so \<Rightarrow>
             Option.bind (replaced_dest env dest0 so) (\<lambda>dest.
               if HasStrategy (sc_DomainStrategy so) then
                 Option.bind (d_Address dest) (\<lambda>a.
                   if IsDomain (Family a)
                   then dial_resolved env src (dial_strategy outbounds src dest (sc_DomainStrategy so)) dest (Address_Domain a) so
                   else Some (dial_through env src dest so))
               else Some (dial_through env src dest so)))"

section \<open>Which addresses are dialed\<close>

definition allows :: "DomainStrategy \<Rightarrow> AddressFamily \<Rightarrow> bool" where
  "allows s f \<longleftrightarrow> f = AddressFamilyIPv4 \<and> (PreferIP4 s \<or> FallbackIP4 s) \<or> f = AddressFamilyIPv6 \<and> (PreferIP6 s \<or> FallbackIP6 s)"

text \<open>What is documented of a DNS client: it returns addresses of the families it was asked for.\<close>

definition dns_ok :: "dns_LookupIP \<Rightarrow> bool" where
  "dns_ok f \<longleftrightarrow> (\<forall>d v4 v6. \<forall>ip \<in> set (fst (f d v4 v6)). \<exists>a. IPAddress ip = Some a \<and> (Family a = AddressFamilyIPv4 \<and> v4 \<or> Family a = AddressFamilyIPv6 \<and> v6))"

lemma allows_IsIP: "allows s f \<Longrightarrow> IsIP f"
  by (auto simp: allows_def IsIP_def)

lemma dns_okD:
  assumes "dns_ok f" "ip \<in> set (fst (f d v4 v6))"
  obtains a where "IPAddress ip = Some a" "Family a = AddressFamilyIPv4 \<and> v4 \<or> Family a = AddressFamilyIPv6 \<and> v6"
  using assms unfolding dns_ok_def by blast

lemma LookupForIP_ok:
  assumes "LookupForIP c domain s src = (ips, None)" "\<forall>f. c = Some f \<longrightarrow> dns_ok f"
  shows "ips \<noteq> [] \<and> (\<forall>ip \<in> set ips. \<exists>a. IPAddress ip = Some a \<and> allows s (Family a))"
proof -
  obtain f where f: "c = Some f" using assms(1) by (cases c) (auto simp: LookupForIP_def)
  define v4 where "v4 = (case src of None \<Rightarrow> PreferIP4 s | Some a \<Rightarrow> Family a = AddressFamilyIPv4 \<and> (PreferIP4 s \<or> FallbackIP4 s))"
  define v6 where "v6 = (case src of None \<Rightarrow> PreferIP6 s | Some a \<Rightarrow> Family a = AddressFamilyIPv6 \<and> (PreferIP6 s \<or> FallbackIP6 s))"
  have v: "v4 \<longrightarrow> PreferIP4 s \<or> FallbackIP4 s" "v6 \<longrightarrow> PreferIP6 s \<or> FallbackIP6 s" by (simp_all add: v4_def v6_def split: option.splits)
  have "ips \<noteq> [] \<and> (fst (f domain v4 v6) = ips \<or> fst (f domain (FallbackIP4 s) (FallbackIP6 s)) = ips)"
    using assms(1) unfolding LookupForIP_def f option.case v4_def [symmetric] v6_def [symmetric] Let_def
    by (auto split: prod.splits if_splits)
  then obtain w4 w6 where q: "fst (f domain w4 w6) = ips" "w4 \<longrightarrow> PreferIP4 s \<or> FallbackIP4 s" "w6 \<longrightarrow> PreferIP6 s \<or> FallbackIP6 s" "ips \<noteq> []"
    using v by blast
  have "\<exists>a. IPAddress ip = Some a \<and> allows s (Family a)" if "ip \<in> set ips" for ip
    using dns_okD [OF assms(2) [rule_format, OF f], of ip domain w4 w6] q(1-3) that by (metis allows_def)
  then show ?thesis using q(4) by blast
qed

lemma dynamic_allows: "allows (GetDynamicStrategy s f) g \<Longrightarrow> allows s g"
  by (cases s) (auto simp: GetDynamicStrategy_def allows_def PreferIP4_def PreferIP6_def FallbackIP4_def FallbackIP6_def split: if_splits)

lemma dial_strategy_allows: "allows (dial_strategy obs src dest s) g \<Longrightarrow> allows s g"
  by (auto simp: dial_strategy_def Let_def split: if_splits option.splits dest: dynamic_allows)

text \<open>The addresses an action connects to, with port and network.\<close>

fun dial_targets :: "dial_action \<Rightarrow> Destination set" where
  "dial_targets (SystemDial src d) = {d}"
| "dial_targets (Redirect d tag h) = {d}"
| "dial_targets (RaceDial src ips p) = (\<lambda>ip. \<lparr>d_Address = IPAddress ip, d_Port = p, d_Network = Network_TCP\<rparr>) ` set ips"

lemma dial_through_targets: "dial_through env src d so = Inr act \<Longrightarrow> dial_targets act = {d}"
  by (auto simp: dial_through_def split: if_splits option.splits)

lemma race_wanted_tcp: "race_wanted so ips d \<Longrightarrow> d_Network d = Network_TCP \<and> 2 \<le> length ips \<and> sc_DialerProxy so = []"
  by (auto simp: race_wanted_def split: option.splits)

lemma dial_resolved_targets:
  assumes "dial_resolved env src s d domain so = Some (Inr act)" "ForceIP (sc_DomainStrategy so)" "\<forall>f. de_dnsClient env = Some f \<longrightarrow> dns_ok f"
  shows "dial_targets act \<noteq> {} \<and> (\<forall>t \<in> dial_targets act. d_Port t = d_Port d \<and> d_Network t = d_Network d \<and> (\<exists>b. d_Address t = Some b \<and> allows s (Family b)))"
proof -
  obtain ips where l: "LookupForIP (de_dnsClient env) domain s src = (ips, None)"
    using assms(1,2) by (auto simp: dial_resolved_def split: prod.splits option.splits)
  note ok = LookupForIP_ok [OF l assms(3)]
  show ?thesis
  proof (cases "race_wanted so ips d")
    case True
    then have "act = RaceDial src ips (d_Port d)" using assms(1) l by (simp add: dial_resolved_def)
    then show ?thesis using ok race_wanted_tcp [OF True] by auto
  next
    case False
    define ip where "ip = ips ! (de_Intn env (length ips) mod length ips)"
    have "ip \<in> set ips" using ok by (simp add: ip_def)
    moreover have "dial_targets act = {d\<lparr>d_Address := IPAddress ip\<rparr>}"
      using assms(1) l False ok by (auto simp: dial_resolved_def ip_def dest: dial_through_targets)
    ultimately show ?thesis using ok by auto
  qed
qed


definition demo_dns :: dns_LookupIP where
  "demo_dns d v4 v6 = (if v4 then [[10, 0, 0, 1]] else [], None)"

definition demo_dial :: dial_env where
  "demo_dial = \<lparr>de_dnsClient = Some demo_dns, de_obm = None, de_LookupSRV = (\<lambda>_ _ _. Inr []), de_LookupTXT = (\<lambda>_. Inr []), de_Intn = (\<lambda>_. 0)\<rparr>"

definition demo_sockopt :: SocketConfig where
  "demo_sockopt = \<lparr>sc_AddressPortStrategy = APS_None, sc_DomainStrategy = FORCE_IP4, sc_HappyEyeballs = None, sc_DialerProxy = []\<rparr>"

lemma demo_dns_ok: "\<forall>f. de_dnsClient demo_dial = Some f \<longrightarrow> dns_ok f"
  by (auto simp: demo_dial_def dns_ok_def demo_dns_def IPAddress_def)


lemma DialSystem_cases:
  assumes "DialSystem env obs dest (Some so) = Some r"
  obtains src d where "dial_through env src d so = r" | src d ips where "race_wanted so ips d" "r = Inr (RaceDial src ips (d_Port d))" | e where "r = Inl e"
proof -
  obtain d where "dial_through env (dial_source obs (Some so)) d so = r
      \<or> (\<exists>s dom. dial_resolved env (dial_source obs (Some so)) s d dom so = Some r)"
    using assms by (auto simp: DialSystem_def Let_def bind_Some_iff split: if_splits)
  moreover have "(\<exists>src d. dial_through env src d so = r) \<or> (\<exists>src ips. race_wanted so ips d \<and> r = Inr (RaceDial src ips (d_Port d))) \<or> (\<exists>e. r = Inl e)"
    if r: "dial_resolved env src s d dom so = Some r" for src s d dom
  proof -
    obtain ips err where l: "LookupForIP (de_dnsClient env) dom s src = (ips, err)" by fastforce
    then show ?thesis using r by (cases err) (auto simp: dial_resolved_def split: if_splits)
  qed
  ultimately show ?thesis using that by metis
qed

text \<open>A race that \<open>DialSystem\<close> starts meets the conditions of the race.\<close>

lemma dialed_race_safe:
  assumes "DialSystem env obs dest (Some so) = Some (Inr (RaceDial src ips port))" "sc_HappyEyeballs so = Some he"
    and "race_run (length ips) (he_MaxConcurrentTry he) es s"
  shows "rc_out s \<noteq> Panicked"
proof -
  have "\<exists>d. race_wanted so ips d"
    by (rule DialSystem_cases [OF assms(1)]) (auto simp: dial_through_def split: option.splits if_splits)
  then have "0 < length ips" "he_MaxConcurrentTry he \<noteq> 0" using assms(2) by (auto simp: race_wanted_def)
  from race_invariant [OF assms(3) this] show ?thesis by (auto simp: race_counted_def)
qed

text \<open>
  With a dialer proxy nothing is dialed directly: the connection goes to exactly the outbound handler with this tag, or it fails.
\<close>

theorem dialer_proxy_not_bypassed:
  assumes "DialSystem env obs dest (Some so) = Some r" "sc_DialerProxy so \<noteq> []"
  shows "case r of Inl e \<Rightarrow> True
    | Inr act \<Rightarrow> \<exists>d m h. act = Redirect d (sc_DialerProxy so) h \<and> de_obm env = Some m \<and> GetHandler m (sc_DialerProxy so) = Some h"
proof -
  have t: "\<exists>d m h. act = Redirect d (sc_DialerProxy so) h \<and> de_obm env = Some m \<and> GetHandler m (sc_DialerProxy so) = Some h"
    if "dial_through env src d so = Inr act" for src d act
    using that assms(2) by (auto simp: dial_through_def split: option.splits)
  have "\<not> race_wanted so ips d" for ips d using assms(2) race_wanted_tcp by blast
  moreover obtain src d where "dial_through env src d so = r \<or> (\<exists>ips. race_wanted so ips d) \<or> (\<exists>e. r = Inl e)"
    by (rule DialSystem_cases [OF assms(1)]) blast+
  ultimately show ?thesis using t by (cases r) auto
qed

theorem dialer_proxy_not_bypassed_witness:
  "DialSystem demo_dial [] (TCPDestination (Some (ipv4Address [10, 0, 0, 1])) 443) (Some (demo_sockopt\<lparr>sc_DialerProxy := [112]\<rparr>))
     = Some (Inl (ENew ''there is no outbound manager for dialerProxy'' None))"
proof -
  let ?so = "demo_sockopt\<lparr>sc_DialerProxy := [112]\<rparr>" and ?d = "TCPDestination (Some (ipv4Address [10, 0, 0, 1])) 443"
  have e: "DialSystem demo_dial [] ?d (Some ?so) = Some (dial_through demo_dial None ?d ?so)"
    by (simp add: DialSystem_def replaced_dest_def checkAddressPortStrategy_def dial_source_def demo_sockopt_def HasStrategy_def IsDomain_def TCPDestination_def)
  show ?thesis using dialer_proxy_not_bypassed [OF e] e by (simp add: dial_through_def demo_dial_def demo_sockopt_def)
qed

text \<open>
  With an SRV strategy a domain that starts with a dot makes the dialer panic: the leading underscore of the service is cut off without a look
  at the text. Such a domain passes the check of the address parser, so a client can send it.
\<close>

theorem srv_name_panics:
  assumes "aps_srv (sc_AddressPortStrategy so)" "d_Address dest = Some (domainAddress (46 # d))" "46 \<in> set d"
  shows "DialSystem env obs dest (Some so) = None"
proof -
  have c: "46 \<in> set xs \<Longrightarrow> \<exists>a b. cut_at 46 xs = Some (a, b)" for xs :: gostring by (induction xs) auto
  then obtain a b where "cut_at 46 d = Some (a, b)" using assms(3) by blast
  then have "SplitN 46 (46 # d) 3 = [[], a, b]" by (simp add: numeral_3_eq_3)
  then have "srv_dest (de_LookupSRV env) s (46 # d) dest = None" for s by (simp add: srv_dest_def behind_first_def)
  moreover have "sc_AddressPortStrategy so \<noteq> APS_None" using assms(1) by (auto simp: aps_srv_def)
  ultimately have "replaced_dest env dest so = None" using assms(1,2) by (simp add: replaced_dest_def checkAddressPortStrategy_def IsDomain_def)
  then show ?thesis by (simp add: DialSystem_def Let_def)
qed

theorem srv_name_panics_witness:
  "DialSystem demo_dial [] (TCPDestination (Some (domainAddress (str ''.a.b''))) 443) (Some (demo_sockopt\<lparr>sc_AddressPortStrategy := SrvPortOnly\<rparr>)) = None"
  by (rule srv_name_panics [where d = "str ''a.b''"]) (simp_all add: aps_srv_def demo_sockopt_def TCPDestination_def str_def)

end
