(* ===== verification/Freedom.thy ===== *)
theory Freedom
  imports Fragment Dial "HOL-Library.Sublist"
begin

text \<open>
  \<open>proxy/freedom/freedom.go\<close>: the outbound that connects to the destination itself. Modelled are the choice of the destination, the retries of
  the dial, the packet reader and writer of UDP connections, the noise before the first packet, and the writer of TCP connections (the fragments are in
  \<open>Fragment\<close>). Dialing, resolving and the sockets are parameters, and waiting is left out.
\<close>

section \<open>The destination\<close>

definition AnyIP :: Address where
  "AnyIP = ipv4Address [0, 0, 0, 0]"

definition AnyIPv6 :: Address where
  "AnyIPv6 = ipv6Address (replicate 16 0)"

definition isValidAddress :: "IPOrDomain option \<Rightarrow> bool" where
  "isValidAddress addr =
     (case addr of
        None \<Rightarrow> False
      | Some _ \<Rightarrow> (case AsAddress addr of None \<Rightarrow> False | Some a \<Rightarrow> a \<noteq> AnyIP \<and> a \<noteq> AnyIPv6))"

text \<open>\<open>DestinationOverride\<close> as the address and the port of its server; the result is the destination and \<open>UDPOverride\<close>.\<close>

definition override_destination :: "(IPOrDomain option \<times> 32 word) option \<Rightarrow> Destination \<Rightarrow> Destination \<times> Destination" where
  "override_destination ov target =
     (case ov of
        None \<Rightarrow> (target, UDPDestination None 0)
      | Some (addr, port) \<Rightarrow>
          (let a = (if isValidAddress addr then AsAddress addr else None);
               d1 = (if a \<noteq> None then target\<lparr>d_Address := a\<rparr> else target);
               u1 = UDPDestination a 0
           in if port \<noteq> 0 then (d1\<lparr>d_Port := ucast port\<rparr>, u1\<lparr>d_Port := ucast port\<rparr>) else (d1, u1)))"

section \<open>Retries\<close>

text \<open>
  \<open>ctxErr i\<close> is \<open>ctx.Err()\<close> before attempt \<open>i\<close>, and after the last one for \<open>i = 5\<close>; \<open>dial i\<close> is the result of attempt \<open>i\<close> and \<open>wait i\<close> that of the wait
  after it. The result is the error, the number of dials and the waits in milliseconds.
\<close>

fun retry_loop ::
  "(nat \<Rightarrow> goerr option) \<Rightarrow> (nat \<Rightarrow> goerr option) \<Rightarrow> (nat \<Rightarrow> goerr option) \<Rightarrow> nat \<Rightarrow> nat \<Rightarrow> goerr option \<Rightarrow> nat list \<Rightarrow> goerr option \<times> nat \<times> nat list" where
  "retry_loop ctxErr dial wait attempt 0 err waits = (case ctxErr attempt of Some e \<Rightarrow> (Some e, attempt, waits) | None \<Rightarrow> (err, attempt, waits))"
| "retry_loop ctxErr dial wait attempt (Suc n) err waits =
     (case ctxErr attempt of
        Some e \<Rightarrow> (Some e, attempt, waits)
      | None \<Rightarrow>
          (case dial attempt of
             None \<Rightarrow> (None, attempt + 1, waits)
           | Some e \<Rightarrow>
               if n = 0 then retry_loop ctxErr dial wait (attempt + 1) 0 (Some e) waits
               else (case wait attempt of
                       Some we \<Rightarrow> (Some we, attempt + 1, waits @ [attempt * 100])
                     | None \<Rightarrow> retry_loop ctxErr dial wait (attempt + 1) n (Some e) (waits @ [attempt * 100]))))"

definition retryDial :: "(nat \<Rightarrow> goerr option) \<Rightarrow> (nat \<Rightarrow> goerr option) \<Rightarrow> (nat \<Rightarrow> goerr option) \<Rightarrow> goerr option \<times> nat \<times> nat list" where
  "retryDial ctxErr dial wait = retry_loop ctxErr dial wait 0 5 None []"

text \<open>\<open>waitForRetry\<close>: \<open>early\<close> is \<open>ctx.Err()\<close> at its start, \<open>fired\<close> says that the timer wins, \<open>late\<close> is \<open>ctx.Err()\<close> otherwise.\<close>

definition waitForRetry :: "goerr option \<Rightarrow> int \<Rightarrow> bool \<Rightarrow> goerr option \<Rightarrow> goerr option" where
  "waitForRetry early delay fired late =
     (case early of Some e \<Rightarrow> Some e | None \<Rightarrow> if delay \<le> 0 then None else if fired then None else late)"

text \<open>What one attempt dials: \<open>gw\<close> is the gateway, \<open>orig\<close> the address of the original target. \<open>Inl\<close> is an attempt that fails before it dials.\<close>

definition attempt_dest ::
  "dns_LookupIP option \<Rightarrow> (nat \<Rightarrow> nat) \<Rightarrow> DomainStrategy \<Rightarrow> Address option \<Rightarrow> Address option \<Rightarrow> Destination \<Rightarrow> (goerr + Destination) option" where
  "attempt_dest dnsClient intn s gw orig destination =
     (if \<not> HasStrategy s then Some (Inr destination)
      else Option.bind (d_Address destination) (\<lambda>a.
        if \<not> IsDomain (Family a) then Some (Inr destination)
        else let s' = (case orig of
                         Some oa \<Rightarrow> if d_Network destination = Network_UDP \<and> gw = None then GetDynamicStrategy s (Family oa) else s
                       | None \<Rightarrow> s)
             in case LookupForIP dnsClient (Address_Domain a) s' gw of
                  (ips, Some err) \<Rightarrow> Some (if ForceIP s then Inl err else Inr destination)
                | (ips, None) \<Rightarrow>
                    if ips = [] then None else Some (Inr (destination\<lparr>d_Address := IPAddress (ips ! (intn (length ips) mod length ips))\<rparr>))))"

section \<open>Packets from the network\<close>

datatype packet_from = From_native netip_Addr Port | From_addr NetAddr

text \<open>A UDP connection as the code sees it after its type assertions.\<close>

record udp_conn_info =
  uc_wrapper :: bool
  uc_native :: bool
  uc_ReadCounter :: "int option"
  uc_WriteCounter :: "int option"
  uc_RemoteAddr :: NetAddr
  uc_LocalAddr :: NetAddr

record freedom_PacketReader =
  pr_IsOverridden :: bool
  pr_InitUnchangedAddr :: "Address option"
  pr_InitChangedAddr :: "Address option"
  pr_native :: bool

text \<open>\<open>NewPacketReader\<close>; \<open>None\<close> is the plain \<open>buf.PacketReader\<close> on the connection.\<close>

definition freedom_NewPacketReader :: "udp_conn_info \<Rightarrow> Destination \<Rightarrow> Destination \<Rightarrow> freedom_PacketReader option" where
  "freedom_NewPacketReader c UDPOverride DialDest =
     (if uc_wrapper c then
        Some \<lparr>pr_IsOverridden = (d_Address UDPOverride \<noteq> None \<or> d_Port UDPOverride \<noteq> 0), pr_InitUnchangedAddr = d_Address DialDest,
          pr_InitChangedAddr = d_Address (DestinationFromAddr (uc_RemoteAddr c)), pr_native = uc_native c\<rparr>
      else None)"

fun packet_source :: "packet_from \<Rightarrow> (Address option \<times> Port) option" where
  "packet_source (From_native a port) = Some (IPAddressFromAddr a, port)"
| "packet_source (From_addr (UDPAddr ip port)) = Some (IPAddress ip, word_of_int port)"
| "packet_source (From_addr _) = None"

definition freedom_ReadMultiBuffer ::
  "('r \<Rightarrow> (goerr + byte list \<times> packet_from) \<times> 'r) \<Rightarrow> freedom_PacketReader \<Rightarrow> int option \<Rightarrow> 'r \<Rightarrow> pool \<Rightarrow>
   (MultiBuffer \<times> goerr option \<times> int option \<times> 'r \<times> pool) option" where
  "freedom_ReadMultiBuffer ReadFrom r Counter c p =
     (case New p of (b0, p1) \<Rightarrow> Option.bind (Resize b0 0 8192) (\<lambda>b1.
        case ReadFrom c of
          (Inl err, c') \<Rightarrow> Some ([], Some err, Counter, c', snd (Release (Some b1) p1))
        | (Inr (d, src), c') \<Rightarrow>
            Option.bind (Resize (put_at b1 0 (take 8192 d)) 0 (int (length (take 8192 d)))) (\<lambda>b2.
              Option.bind (if pr_IsOverridden r then Some b2
                           else map_option (\<lambda>(address, port).
                             b2\<lparr>b_UDP := Some \<lparr>d_Address = (if pr_InitChangedAddr r = address then pr_InitUnchangedAddr r else address),
                               d_Port = port, d_Network = Network_UDP\<rparr>\<rparr>) (packet_source src)) (\<lambda>b3.
                Some ([Some b3], None, map_option (\<lambda>x. x + int (length (take 8192 d))) Counter, c', p1)))))"

section \<open>Packets to the network\<close>

text \<open>What the packet writer uses: the two ways to send to an address, the connected write, and the resolvers.\<close>

record 'w packet_env =
  pe_WriteToUDPAddrPort :: "'w \<Rightarrow> byte list \<Rightarrow> netip_Addr \<times> Port \<Rightarrow> int \<times> goerr option \<times> 'w"
  pe_WriteTo :: "'w \<Rightarrow> byte list \<Rightarrow> NetAddr \<Rightarrow> int \<times> goerr option \<times> 'w"
  pe_Write :: "'w \<Rightarrow> byte list \<Rightarrow> int \<times> goerr option \<times> 'w"
  pe_dnsClient :: "dns_LookupIP option"
  pe_ResolveUDPAddr :: "gostring \<Rightarrow> goerr + byte list"
  pe_Intn :: "nat \<Rightarrow> nat"

record 'w freedom_PacketWriter =
  pw_conn :: 'w
  pw_Counter :: "int option"
  pw_ResolvedUDPAddr :: "(gostring \<times> Address) list"

record packet_config =
  pk_DomainStrategy :: DomainStrategy
  pk_UDPOverride :: Destination
  pk_LocalAddr :: "Address option"
  pk_native :: bool

text \<open>\<open>NewPacketWriter\<close>, as its settings and its state; \<open>None\<close> is the plain \<open>SequentialWriter\<close>. A destination without an address panics.\<close>

definition freedom_NewPacketWriter ::
  "udp_conn_info \<Rightarrow> 'w \<Rightarrow> DomainStrategy \<Rightarrow> Destination \<Rightarrow> Destination \<Rightarrow> (packet_config \<times> 'w freedom_PacketWriter) option option" where
  "freedom_NewPacketWriter c conn s UDPOverride DialDest =
     (if uc_wrapper c then
        map_option (\<lambda>a. Some (\<lparr>pk_DomainStrategy = s, pk_UDPOverride = UDPOverride, pk_LocalAddr = d_Address (DestinationFromAddr (uc_LocalAddr c)),
            pk_native = uc_native c\<rparr>,
          \<lparr>pw_conn = conn, pw_Counter = uc_WriteCounter c,
            pw_ResolvedUDPAddr = (if IsDomain (Family a)
              then (case d_Address (DestinationFromAddr (uc_RemoteAddr c)) of None \<Rightarrow> [] | Some r \<Rightarrow> [(Address_Domain a, r)]) else [])\<rparr>)) (d_Address DialDest)
      else Some None)"

datatype resolution = DropPacket | KeepDomain | ResolvedTo Address

definition to_resolution :: "Address option \<Rightarrow> resolution" where
  "to_resolution a = (case a of None \<Rightarrow> KeepDomain | Some x \<Rightarrow> ResolvedTo x)"

definition system_resolve :: "'w packet_env \<Rightarrow> Destination \<Rightarrow> resolution" where
  "system_resolve env udp = (case pe_ResolveUDPAddr env (Destination_NetAddr udp) of Inl _ \<Rightarrow> DropPacket | Inr ip \<Rightarrow> to_resolution (IPAddress ip))"

definition resolve_udp :: "'w packet_env \<Rightarrow> packet_config \<Rightarrow> Destination \<Rightarrow> gostring \<Rightarrow> resolution option" where
  "resolve_udp env cfg udp domain =
     (if HasStrategy (pk_DomainStrategy cfg) then
        (case LookupForIP (pe_dnsClient env) domain (pk_DomainStrategy cfg) (pk_LocalAddr cfg) of
           (ips, Some _) \<Rightarrow> Some (if ForceIP (pk_DomainStrategy cfg) then DropPacket else system_resolve env udp)
         | (ips, None) \<Rightarrow> if ips = [] then None else Some (to_resolution (IPAddress (ips ! (pe_Intn env (length ips) mod length ips)))))
      else Some (system_resolve env udp))"

definition override_udp :: "packet_config \<Rightarrow> Destination \<Rightarrow> Destination" where
  "override_udp cfg d =
     d\<lparr>d_Address := (if d_Address (pk_UDPOverride cfg) \<noteq> None then d_Address (pk_UDPOverride cfg) else d_Address d),
       d_Port := (if d_Port (pk_UDPOverride cfg) \<noteq> 0 then d_Port (pk_UDPOverride cfg) else d_Port d)\<rparr>"

text \<open>The address of one packet, with the cache of resolved names; a packet without an address panics.\<close>

definition packet_target ::
  "'w packet_env \<Rightarrow> packet_config \<Rightarrow> (gostring \<times> Address) list \<Rightarrow> Destination \<Rightarrow> (Destination option \<times> (gostring \<times> Address) list) option" where
  "packet_target env cfg resolved udp0 =
     (let udp = override_udp cfg udp0
      in Option.bind (d_Address udp) (\<lambda>a.
           if \<not> IsDomain (Family a) then Some (Some udp, resolved)
           else case map_of resolved (Address_Domain a) of
                  Some v \<Rightarrow> Some (Some (udp\<lparr>d_Address := Some v\<rparr>), resolved)
                | None \<Rightarrow>
                    map_option (\<lambda>r. case r of
                        DropPacket \<Rightarrow> (None, resolved)
                      | KeepDomain \<Rightarrow> (Some udp, resolved)
                      | ResolvedTo ip \<Rightarrow> (Some (udp\<lparr>d_Address := Some ip\<rparr>), (Address_Domain a, ip) # resolved))
                      (resolve_udp env cfg udp (Address_Domain a))))"

definition writePacket :: "'w packet_env \<Rightarrow> packet_config \<Rightarrow> 'w \<Rightarrow> byte list \<Rightarrow> Destination \<Rightarrow> (int \<times> goerr option \<times> 'w) option" where
  "writePacket env cfg w payload dest =
     (case (if pk_native cfg then RawNetAddrPort dest else None) of
        Some ap \<Rightarrow> Some (pe_WriteToUDPAddrPort env w payload ap)
      | None \<Rightarrow> map_option (pe_WriteTo env w payload) (RawNetAddr dest))"

fun PW_loop ::
  "'w packet_env \<Rightarrow> packet_config \<Rightarrow> MultiBuffer \<Rightarrow> 'w freedom_PacketWriter \<Rightarrow> pool \<Rightarrow> (goerr option \<times> 'w freedom_PacketWriter \<times> pool) option" where
  "PW_loop env cfg [] w p = Some (None, w, p)"
| "PW_loop env cfg (None # mb) w p = Some (None, w, p)"
| "PW_loop env cfg (Some b # mb) w p =
     Option.bind (case b_UDP b of
         None \<Rightarrow> map_option (\<lambda>payload. (Some (pe_Write env (pw_conn w) payload), pw_ResolvedUDPAddr w)) (Bytes b)
       | Some udp \<Rightarrow>
           Option.bind (packet_target env cfg (pw_ResolvedUDPAddr w) udp) (\<lambda>(t, resolved).
             case t of
               None \<Rightarrow> Some (None, resolved)
             | Some d \<Rightarrow> map_option (\<lambda>payload. (writePacket env cfg (pw_conn w) payload d, resolved)) (Bytes b))) (\<lambda>(out, resolved).
         let p1 = snd (Release (Some b) p)
         in case out of
              None \<Rightarrow> PW_loop env cfg mb (w\<lparr>pw_ResolvedUDPAddr := resolved\<rparr>) p1
            | Some (n, Some err, c) \<Rightarrow> Some (Some err, w\<lparr>pw_conn := c, pw_ResolvedUDPAddr := resolved\<rparr>, snd (ReleaseMulti mb p1))
            | Some (n, None, c) \<Rightarrow>
                PW_loop env cfg mb (w\<lparr>pw_conn := c, pw_ResolvedUDPAddr := resolved, pw_Counter := map_option (\<lambda>x. x + n) (pw_Counter w)\<rparr>) p1)"

definition freedom_WriteMultiBuffer :: "'w packet_env \<Rightarrow> packet_config \<Rightarrow> ('w freedom_PacketWriter) mb_write" where
  "freedom_WriteMultiBuffer env cfg w mb p = PW_loop env cfg mb w p"

section \<open>Noise\<close>

record Noise =
  no_Packet :: "byte list option"
  no_LengthMin :: "64 word"
  no_LengthMax :: "64 word"
  no_ApplyTo :: gostring

text \<open>\<open>GenerateRandomBytes\<close>; \<open>random n\<close> are the bytes or the error of \<open>rand.Read\<close>, and \<open>make\<close> panics for a negative length.\<close>

definition GenerateRandomBytes :: "(nat \<Rightarrow> goerr + byte list) \<Rightarrow> int \<Rightarrow> (goerr + byte list) option" where
  "GenerateRandomBytes random n = (if n < 0 then None else Some (random (nat n)))"

definition noise_applies :: "Address \<Rightarrow> Noise \<Rightarrow> bool option" where
  "noise_applies remote n =
     (if no_ApplyTo n = str ''ipv4'' then Some (Family remote \<noteq> AddressFamilyIPv6)
      else if no_ApplyTo n = str ''ipv6'' then Some (Family remote \<noteq> AddressFamilyIPv4)
      else if no_ApplyTo n = str ''ip'' then Some True
      else None)"

definition noise_bytes :: "(nat \<Rightarrow> goerr + byte list) \<Rightarrow> int \<Rightarrow> Noise \<Rightarrow> (goerr + byte list) option" where
  "noise_bytes random r n =
     (case no_Packet n of
        Some d \<Rightarrow> Some (Inr d)
      | None \<Rightarrow> Option.bind (RandBetween r (sint (no_LengthMin n)) (sint (no_LengthMax n))) (GenerateRandomBytes random))"

fun noise_loop ::
  "'w mb_write \<Rightarrow> (nat \<Rightarrow> goerr + byte list) \<Rightarrow> (nat \<Rightarrow> int) \<Rightarrow> Address \<Rightarrow> Noise list \<Rightarrow> nat \<Rightarrow> 'w \<Rightarrow> pool \<Rightarrow> (goerr option \<times> 'w \<times> pool) option" where
  "noise_loop wmb random rs remote [] k w p = Some (None, w, p)"
| "noise_loop wmb random rs remote (n # ns) k w p =
     Option.bind (noise_applies remote n) (\<lambda>applies.
       if \<not> applies then noise_loop wmb random rs remote ns (k + 1) w p
       else Option.bind (noise_bytes random (rs k) n) (\<lambda>r.
         case r of
           Inl e \<Rightarrow> Some (Some e, w, p)
         | Inr noise \<Rightarrow>
             Option.bind (wmb w [Some (FromBytes noise (int (length noise)))] p) (\<lambda>(e, w1, p1).
               case e of Some x \<Rightarrow> Some (Some x, w1, p1) | None \<Rightarrow> noise_loop wmb random rs remote ns (k + 1) w1 p1)))"

text \<open>\<open>NoisePacketWriter.WriteMultiBuffer\<close>; the state is \<open>firstWrite\<close> and the writer below.\<close>

definition Noise_WriteMultiBuffer ::
  "'w mb_write \<Rightarrow> (nat \<Rightarrow> goerr + byte list) \<Rightarrow> (nat \<Rightarrow> int) \<Rightarrow> Noise list \<Rightarrow> Destination \<Rightarrow> Address option \<Rightarrow> (bool \<times> 'w) mb_write" where
  "Noise_WriteMultiBuffer wmb random rs noises UDPOverride remoteAddr s mb p =
     (let send = (\<lambda>w p. map_option (\<lambda>(e, w', p'). (e, (False, w'), p')) (wmb w mb p))
      in if fst s \<and> d_Port UDPOverride \<noteq> 53 then
           Option.bind remoteAddr (\<lambda>remote.
             if IsDomain (Family remote) then None
             else Option.bind (noise_loop wmb random rs remote noises 0 (snd s) p) (\<lambda>(e, w1, p1).
               case e of Some x \<Rightarrow> Some (Some x, (False, w1), p1) | None \<Rightarrow> send w1 p1))
         else send (snd s) p)"


section \<open>Retries are bounded\<close>

lemma retry_loop_sound:
  assumes "retry_loop ctxErr dial wait a n err ws = (r, k, ws')" "n = 0 \<Longrightarrow> err = dial (a - 1)" "\<forall>i < a. ctxErr i = None \<and> dial i \<noteq> None" "n = 0 \<Longrightarrow> 0 < a"
    and "ws = map (\<lambda>i. i * 100) [0..<length ws]" "length ws = (if n = 0 then a - 1 else a)"
  shows "k \<le> a + n \<and> ws' = map (\<lambda>i. i * 100) [0..<length ws'] \<and> length ws' < a + n \<and> (\<forall>i < k. ctxErr i = None) \<and> (\<forall>i < k - 1. dial i \<noteq> None)
    \<and> (case r of
         None \<Rightarrow> 0 < k \<and> dial (k - 1) = None
       | Some e \<Rightarrow> (\<forall>i < k. dial i \<noteq> None) \<and> (ctxErr k = Some e \<or> 0 < k \<and> wait (k - 1) = Some e \<or> k = a + n \<and> dial (k - 1) = Some e))"
  using assms
proof (induction n arbitrary: a err ws)
  case 0
  obtain e0 where e0: "dial (a - 1) = Some e0" using "0.prems"(3,4) by (metis diff_less not_None_eq zero_less_one)
  show ?case
  proof (cases "ctxErr a")
    case None
    then have "r = Some e0" "k = a" "ws' = ws" using "0.prems"(1,2) e0 by auto
    then show ?thesis using "0.prems"(3-6) e0 by simp
  next
    case (Some e)
    then have "r = Some e" "k = a" "ws' = ws" using "0.prems"(1) by auto
    then show ?thesis using "0.prems"(3-6) Some by simp
  qed
next
  case (Suc n)
  show ?case
  proof (cases "ctxErr a")
    case (Some e)
    then have "r = Some e" "k = a" "ws' = ws" using Suc.prems(1) by auto
    then show ?thesis using Suc.prems(3-6) Some by simp
  next
    case ctx: None
    show ?thesis
    proof (cases "dial a")
      case None
      then show ?thesis using Suc.prems ctx by (auto simp: less_Suc_eq)
    next
      case (Some e)
      have pre: "\<forall>i < a + 1. ctxErr i = None \<and> dial i \<noteq> None" using Suc.prems(3) ctx Some by (simp add: less_Suc_eq)
      show ?thesis
      proof (cases "n = 0")
        case True
        then have "retry_loop ctxErr dial wait (a + 1) 0 (Some e) ws = (r, k, ws')" using Suc.prems(1) ctx Some by simp
        from Suc.IH [OF this [folded True]] show ?thesis using True pre Some Suc.prems(5,6) by (cases r) simp_all
      next
        case False
        show ?thesis
        proof (cases "wait a")
          case (Some we)
          then have "r = Some we" "k = a + 1" "ws' = ws @ [a * 100]" using Suc.prems(1) ctx \<open>dial a = Some e\<close> False by auto
          then show ?thesis using pre Some Suc.prems(5,6) False by (auto simp: less_Suc_eq)
        next
          case None
          then have "retry_loop ctxErr dial wait (a + 1) n (Some e) (ws @ [a * 100]) = (r, k, ws')" using Suc.prems(1) ctx \<open>dial a = Some e\<close> False by simp
          from Suc.IH [OF this] show ?thesis using False pre Suc.prems(5,6) by (cases r) simp_all
        qed
      qed
    qed
  qed
qed

text \<open>
  \<open>retryDial\<close> dials at most five times and waits 0, 100, 200 and 300 ms between the attempts, never after the last one; it dials only while the context
  is not cancelled and stops at the first success. It returns an error only if every dial failed, and then the error of the context, of a wait, or
  the one of the fifth dial.
\<close>

theorem retry_dial_schedule:
  assumes "retryDial ctxErr dial wait = (r, k, ws)"
  shows "k \<le> 5 \<and> ws = map (\<lambda>i. i * 100) [0..<length ws] \<and> length ws \<le> 4 \<and> (\<forall>i < k. ctxErr i = None) \<and> (\<forall>i < k - 1. dial i \<noteq> None)
    \<and> (case r of
         None \<Rightarrow> 0 < k \<and> dial (k - 1) = None
       | Some e \<Rightarrow> (\<forall>i < k. dial i \<noteq> None) \<and> (ctxErr k = Some e \<or> 0 < k \<and> wait (k - 1) = Some e \<or> k = 5 \<and> dial 4 = Some e))"
  using retry_loop_sound [of ctxErr dial wait 0 5 None "[]" r k ws] assms by (auto simp: retryDial_def split: option.splits)

theorem retry_dial_schedule_witness:
  "retryDial (\<lambda>_. None) (\<lambda>i. if i < 2 then Some EOF else None) (\<lambda>_. None) = (None, 3, [0, 100]) \<and> (3::nat) \<le> 5"
proof -
  have e: "retryDial (\<lambda>_. None) (\<lambda>i. if i < 2 then Some EOF else None) (\<lambda>_. None) = (None, 3, [0, 100])"
    by (simp add: retryDial_def numeral_eq_Suc)
  show ?thesis using retry_dial_schedule [OF e] e by simp
qed

section \<open>Packets keep their address\<close>

lemma LookupForIP_some: "LookupForIP c d s l = (ips, None) \<Longrightarrow> ips \<noteq> []"
  by (auto simp: LookupForIP_def Let_def split: option.splits prod.splits if_splits)

lemma resolve_udp_total: "\<exists>r. resolve_udp env cfg udp d = Some r"
proof -
  obtain ips e where l: "LookupForIP (pe_dnsClient env) d (pk_DomainStrategy cfg) (pk_LocalAddr cfg) = (ips, e)" by fastforce
  then show ?thesis using LookupForIP_some [of "pe_dnsClient env" d "pk_DomainStrategy cfg" "pk_LocalAddr cfg" ips]
    by (cases e) (auto simp: resolve_udp_def)
qed

text \<open>A packet writer whose socket keeps a list of what was sent where; \<open>None\<close> is the peer of the connection.\<close>

type_synonym packet_log = "(byte list \<times> (byte list \<times> Port) option) list"

fun addr_bytes_of :: "netip_Addr \<Rightarrow> byte list" where
  "addr_bytes_of Addr_invalid = []"
| "addr_bytes_of (Addr_v4 a) = a"
| "addr_bytes_of (Addr_v6 a z) = a"

fun net_bytes_of :: "NetAddr \<Rightarrow> byte list \<times> Port" where
  "net_bytes_of (TCPAddr a q) = (a, word_of_int q)"
| "net_bytes_of (UDPAddr a q) = (a, word_of_int q)"
| "net_bytes_of (UnixAddr a n) = ([], 0)"

definition log_env :: "dns_LookupIP option \<Rightarrow> (gostring \<Rightarrow> goerr + byte list) \<Rightarrow> (nat \<Rightarrow> nat) \<Rightarrow> packet_log packet_env" where
  "log_env dns res intn = \<lparr>
     pe_WriteToUDPAddrPort = (\<lambda>w d ap. (int (length d), None, w @ [(d, Some (addr_bytes_of (fst ap), snd ap))])),
     pe_WriteTo = (\<lambda>w d a. (int (length d), None, w @ [(d, Some (net_bytes_of a))])),
     pe_Write = (\<lambda>w d. (int (length d), None, w @ [(d, None)])),
     pe_dnsClient = dns, pe_ResolveUDPAddr = res, pe_Intn = intn\<rparr>"

text \<open>Where a packet goes when the names of \<open>resolved\<close> stand for their addresses.\<close>

definition sent_as :: "packet_config \<Rightarrow> (gostring \<times> Address) list \<Rightarrow> Buffer \<Rightarrow> byte list \<times> (byte list \<times> Port) option" where
  "sent_as cfg resolved b = (content b,
     map_option (\<lambda>udp. let u = override_udp cfg udp; a = the (d_Address u)
       in (Address_IP (if IsDomain (Family a) then the (map_of resolved (Address_Domain a)) else a), d_Port u)) (b_UDP b))"


text \<open>The packets that are certainly sent: those without a name, and those whose name is known.\<close>

definition sure :: "packet_config \<Rightarrow> (gostring \<times> Address) list \<Rightarrow> Buffer option \<Rightarrow> bool" where
  "sure cfg resolved x \<longleftrightarrow>
     (case b_UDP (the x) of
        None \<Rightarrow> True
      | Some udp \<Rightarrow> let a = the (d_Address (override_udp cfg udp))
          in IsDomain (Family a) \<longrightarrow> (\<exists>v. map_of resolved (Address_Domain a) = Some v \<and> IsIP (Family v)))"

lemma sure_mono: "map_of r \<subseteq>\<^sub>m map_of r' \<Longrightarrow> sure cfg r x \<Longrightarrow> sure cfg r' x"
  by (fastforce simp: sure_def Let_def map_le_def dom_def split: option.splits)

lemma sure_subseq: "map_of r \<subseteq>\<^sub>m map_of r' \<Longrightarrow> subseq (map f (filter (sure cfg r) mb)) (map f (filter (sure cfg r') mb))"
  by (induction mb) (auto dest: sure_mono)

lemma not_domain: "\<not> IsDomain (Family a) \<Longrightarrow> IsIP (Family a)"
  by (cases a) (simp_all add: IsDomain_def IsIP_def)

lemma packet_target_sure:
  assumes "sure cfg resolved (Some b)" "b_UDP b = Some udp" "packet_target env cfg resolved udp = Some (t, resolved')"
  shows "\<exists>d v. t = Some d \<and> d_Address d = Some v \<and> IsIP (Family v)"
proof -
  obtain a where a: "d_Address (override_udp cfg udp) = Some a" using assms(3) by (auto simp: packet_target_def Let_def bind_Some_iff)
  show ?thesis
  proof (cases "IsDomain (Family a)")
    case True
    then obtain v where "map_of resolved (Address_Domain a) = Some v" "IsIP (Family v)" using assms(1,2) a by (auto simp: sure_def Let_def)
    then show ?thesis using assms(3) a True by (auto simp: packet_target_def Let_def)
  next
    case False
    then show ?thesis using assms(3) a not_domain by (auto simp: packet_target_def Let_def)
  qed
qed

lemma packet_target_ok:
  assumes "d_Address udp = Some a0"
  obtains t resolved' where "packet_target env cfg resolved udp = Some (t, resolved')" "map_of resolved \<subseteq>\<^sub>m map_of resolved'"
    "\<And>d. t = Some d \<Longrightarrow> d_Address d \<noteq> None \<and> d_Network d = d_Network udp \<and> d_Port d = d_Port (override_udp cfg udp) \<and>
       (\<exists>a. d_Address (override_udp cfg udp) = Some a \<and> d_Address d = (if IsDomain (Family a) \<and> d_Address d \<noteq> Some a then map_of resolved' (Address_Domain a) else Some a))"
proof -
  let ?u = "override_udp cfg udp"
  obtain a where a: "d_Address ?u = Some a" using assms by (cases "d_Address (pk_UDPOverride cfg)") (auto simp: override_udp_def)
  obtain r where r: "resolve_udp env cfg ?u (Address_Domain a) = Some r" using resolve_udp_total by blast
  have net: "d_Network ?u = d_Network udp" by (simp add: override_udp_def)
  show ?thesis
  proof (cases "IsDomain (Family a) \<and> map_of resolved (Address_Domain a) = None")
    case True
    show ?thesis
    proof (cases r)
      case (ResolvedTo ip)
      then show ?thesis using True a r net by (intro that [of "Some (?u\<lparr>d_Address := Some ip\<rparr>)" "(Address_Domain a, ip) # resolved"])
          (auto simp: packet_target_def Let_def map_le_def)
    qed (use True a r net in \<open>auto simp: packet_target_def Let_def intro!: that\<close>)
  next
    case False
    let ?d = "if IsDomain (Family a) then ?u\<lparr>d_Address := map_of resolved (Address_Domain a)\<rparr> else ?u"
    have "packet_target env cfg resolved udp = Some (Some ?d, resolved)" using a False by (auto simp: packet_target_def Let_def)
    then show ?thesis using a net False by (intro that [of "Some ?d" resolved]) auto
  qed
qed

lemma writePacket_log:
  assumes "d_Network d = Network_UDP" "d_Address d = Some a"
  shows "writePacket (log_env dns res intn) cfg w pl d =
    (if IsIP (Family a) then Some (int (length pl), None, w @ [(pl, Some (Address_IP a, d_Port d))]) else None)"
  using assms by (cases a) (auto simp: writePacket_def log_env_def RawNetAddrPort_def RawNetAddr_def IsIP_def)

text \<open>One packet: it is left out, which happens only to names without an address, or sent to where its name points from now on.\<close>

lemma PW_step:
  assumes "buf_inv b" "\<forall>u. b_UDP b = Some u \<longrightarrow> d_Address u \<noteq> None \<and> d_Network u = Network_UDP"
  obtains wa out where "PW_loop (log_env dns res intn) cfg (Some b # mb) w p = PW_loop (log_env dns res intn) cfg mb wa (snd (Release (Some b) p))"
    "pw_conn wa = pw_conn w @ out" "map_of (pw_ResolvedUDPAddr w) \<subseteq>\<^sub>m map_of (pw_ResolvedUDPAddr wa)"
    "out = [] \<and> \<not> sure cfg (pw_ResolvedUDPAddr w) (Some b) \<or> (\<forall>r. map_of (pw_ResolvedUDPAddr wa) \<subseteq>\<^sub>m map_of r \<longrightarrow> out = [sent_as cfg r b])"
proof (cases "b_UDP b")
  case None
  let ?w = "w\<lparr>pw_conn := pw_conn w @ [(content b, None)], pw_Counter := map_option (\<lambda>x. x + int (length (content b))) (pw_Counter w)\<rparr>"
  have "PW_loop (log_env dns res intn) cfg (Some b # mb) w p = PW_loop (log_env dns res intn) cfg mb ?w (snd (Release (Some b) p))"
    using Bytes_content [OF assms(1)] None by (simp add: Let_def log_env_def)
  then show ?thesis using None by (intro that [of ?w "[(content b, None)]"]) (simp_all add: sent_as_def)
next
  case (Some udp)
  let ?env = "log_env dns res intn"
  obtain a0 where u: "d_Address udp = Some a0" "d_Network udp = Network_UDP" using assms(2) Some by auto
  obtain t rv where t: "packet_target ?env cfg (pw_ResolvedUDPAddr w) udp = Some (t, rv)" "map_of (pw_ResolvedUDPAddr w) \<subseteq>\<^sub>m map_of rv"
    "\<And>d. t = Some d \<Longrightarrow> d_Address d \<noteq> None \<and> d_Network d = d_Network udp \<and> d_Port d = d_Port (override_udp cfg udp) \<and>
     (\<exists>a. d_Address (override_udp cfg udp) = Some a \<and> d_Address d = (if IsDomain (Family a) \<and> d_Address d \<noteq> Some a then map_of rv (Address_Domain a) else Some a))"
    by (rule packet_target_ok [OF u(1), of ?env cfg "pw_ResolvedUDPAddr w"]) blast
  note bs = Bytes_content [OF assms(1)]
  show ?thesis
  proof (cases "\<exists>d v. t = Some d \<and> d_Address d = Some v \<and> IsIP (Family v)")
    case False
    have n: "Option.bind t (writePacket ?env cfg (pw_conn w) (content b)) = None"
    proof (cases t)
      case (Some d)
      then obtain v where "d_Address d = Some v" "d_Network d = Network_UDP" "\<not> IsIP (Family v)" using t(3) u(2) False by auto
      then show ?thesis using Some writePacket_log by simp
    qed simp
    moreover have "\<not> sure cfg (pw_ResolvedUDPAddr w) (Some b)" using packet_target_sure [OF _ Some t(1)] False by blast
    ultimately show ?thesis using bs Some t(1,2) by (intro that [of "w\<lparr>pw_ResolvedUDPAddr := rv\<rparr>" "[]"]) (cases t, simp_all add: Let_def)
  next
    case True
    then obtain d v where d: "t = Some d" "d_Address d = Some v" "IsIP (Family v)" by blast
    obtain a where a: "d_Network d = Network_UDP" "d_Port d = d_Port (override_udp cfg udp)" "d_Address (override_udp cfg udp) = Some a"
      "Some v = (if IsDomain (Family a) \<and> Some v \<noteq> Some a then map_of rv (Address_Domain a) else Some a)" using t(3) [OF d(1)] u(2) d(2) by auto
    have dom: "map_of r (Address_Domain a) = Some v" if "IsDomain (Family a)" "map_of rv \<subseteq>\<^sub>m map_of r" for r
    proof -
      have "v \<noteq> a" using that(1) d(3) by (auto simp: IsIP_def IsDomain_def)
      then have "map_of rv (Address_Domain a) = Some v" using a(4) that(1) by simp
      then show ?thesis using that(2) by (simp add: map_le_def) (metis domI)
    qed
    have entry: "sent_as cfg r b = (content b, Some (Address_IP v, d_Port d))" if "map_of rv \<subseteq>\<^sub>m map_of r" for r
    proof (cases "IsDomain (Family a)")
      case True
      then show ?thesis using Some a(2,3) dom [OF True that] by (simp add: sent_as_def Let_def)
    next
      case False
      then show ?thesis using Some a(2-4) by (simp add: sent_as_def Let_def)
    qed
    let ?w = "w\<lparr>pw_conn := pw_conn w @ [(content b, Some (Address_IP v, d_Port d))], pw_ResolvedUDPAddr := rv,
        pw_Counter := map_option (\<lambda>x. x + int (length (content b))) (pw_Counter w)\<rparr>"
    have "PW_loop ?env cfg (Some b # mb) w p = PW_loop ?env cfg mb ?w (snd (Release (Some b) p))"
      using bs Some t(1) d writePacket_log [OF a(1) d(2), of dns res intn cfg "pw_conn w" "content b"] by (simp add: Let_def)
    then show ?thesis using t(2) entry by (intro that [of ?w "[(content b, Some (Address_IP v, d_Port d))]"]) simp_all
  qed
qed

lemma PW_loop_ok:
  assumes "\<forall>x \<in> set mb. \<exists>b. x = Some b \<and> buf_inv b \<and> (\<forall>u. b_UDP b = Some u \<longrightarrow> d_Address u \<noteq> None \<and> d_Network u = Network_UDP)"
  shows "\<exists>w' p' out. PW_loop (log_env dns res intn) cfg mb w p = Some (None, w', p') \<and> pw_conn w' = pw_conn w @ out
    \<and> map_of (pw_ResolvedUDPAddr w) \<subseteq>\<^sub>m map_of (pw_ResolvedUDPAddr w') \<and> subseq out (map (\<lambda>x. sent_as cfg (pw_ResolvedUDPAddr w') (the x)) mb)
    \<and> subseq (map (\<lambda>x. sent_as cfg (pw_ResolvedUDPAddr w') (the x)) (filter (sure cfg (pw_ResolvedUDPAddr w)) mb)) out"
  using assms
proof (induction mb arbitrary: w p)
  case (Cons x mb)
  obtain b where b: "x = Some b" "buf_inv b" "\<forall>u. b_UDP b = Some u \<longrightarrow> d_Address u \<noteq> None \<and> d_Network u = Network_UDP" using Cons.prems by auto
  obtain wa o1 where s: "PW_loop (log_env dns res intn) cfg (Some b # mb) w p = PW_loop (log_env dns res intn) cfg mb wa (snd (Release (Some b) p))"
    "pw_conn wa = pw_conn w @ o1" "map_of (pw_ResolvedUDPAddr w) \<subseteq>\<^sub>m map_of (pw_ResolvedUDPAddr wa)"
    "o1 = [] \<and> \<not> sure cfg (pw_ResolvedUDPAddr w) (Some b) \<or> (\<forall>r. map_of (pw_ResolvedUDPAddr wa) \<subseteq>\<^sub>m map_of r \<longrightarrow> o1 = [sent_as cfg r b])"
    by (rule PW_step [OF b(2,3)])
  have tail: "\<forall>x \<in> set mb. \<exists>b. x = Some b \<and> buf_inv b \<and> (\<forall>u. b_UDP b = Some u \<longrightarrow> d_Address u \<noteq> None \<and> d_Network u = Network_UDP)" using Cons.prems by simp
  from Cons.IH [OF tail, of wa "snd (Release (Some b) p)"] obtain w' p' out
    where ih: "PW_loop (log_env dns res intn) cfg mb wa (snd (Release (Some b) p)) = Some (None, w', p')" "pw_conn w' = pw_conn wa @ out"
      "map_of (pw_ResolvedUDPAddr wa) \<subseteq>\<^sub>m map_of (pw_ResolvedUDPAddr w')" "subseq out (map (\<lambda>x. sent_as cfg (pw_ResolvedUDPAddr w') (the x)) mb)"
      "subseq (map (\<lambda>x. sent_as cfg (pw_ResolvedUDPAddr w') (the x)) (filter (sure cfg (pw_ResolvedUDPAddr wa)) mb)) out" by blast
  have f: "subseq (map (\<lambda>x. sent_as cfg (pw_ResolvedUDPAddr w') (the x)) (filter (sure cfg (pw_ResolvedUDPAddr w)) mb)) out"
    using subseq_order.trans [OF sure_subseq [OF s(3)] ih(5)] .
  have o1: "o1 = [] \<and> \<not> sure cfg (pw_ResolvedUDPAddr w) x \<or> o1 = [sent_as cfg (pw_ResolvedUDPAddr w') (the x)]" using s(4) ih(3) b(1) by auto
  then show ?case using s(1,2) ih(1,2,4) f b(1) map_le_trans [OF s(3) ih(3)]
    by (intro exI [of _ w'] exI [of _ p'] exI [of _ "o1 @ out"]) auto
qed simp




section \<open>The other operations\<close>

text \<open>A datagram is labelled with its source, and with the name that was dialed if it comes from there.\<close>

lemma freedom_read_labels:
  assumes "freedom_NewPacketReader c ov dest = Some r" "d_Address ov = None" "d_Port ov = 0" "pool_ok p" "length d \<le> 8192"
    and "ReadFrom s = (Inr (d, src), s')" "packet_source src = Some (address, port)"
  shows "\<exists>b cn q. freedom_ReadMultiBuffer ReadFrom r ctr s p = Some ([Some b], None, cn, s', q) \<and> content b = d
    \<and> b_UDP b = Some \<lparr>d_Address = (if d_Address (DestinationFromAddr (uc_RemoteAddr c)) = address then d_Address dest else address), d_Port = port, d_Network = Network_UDP\<rparr>"
proof -
  have r: "\<not> pr_IsOverridden r" "pr_InitUnchangedAddr r = d_Address dest" "pr_InitChangedAddr r = d_Address (DestinationFromAddr (uc_RemoteAddr c))"
    using assms(1-3) by (auto simp: freedom_NewPacketReader_def split: if_splits)
  obtain a q where n: "New p = (Buffer_of a, q)" "length a = 8192"
    using assms(4) by (cases p) (auto simp: New_def pool_Get_def pool_ok_def Size_def)
  define z :: "byte list" where "z = replicate 8192 0"
  have z: "length z = 8192" "Resize (Buffer_of a) 0 8192 = Some ((Buffer_of z)\<lparr>b_end := 8192\<rparr>)"
    using n(2) by (auto simp: z_def Resize_def Buffer_of_def Check_def b_arr_def buf_Len_def overwrite_def Let_def)
  let ?z = "(Buffer_of (d @ drop (length d) z))\<lparr>b_end := int (length d)\<rparr>"
  have s: "Resize (put_at ((Buffer_of z)\<lparr>b_end := 8192\<rparr>) 0 d) 0 (int (length d)) = Some ?z"
    using z(1) assms(5) by (simp add: Resize_def put_at_def Buffer_of_def Check_def buf_Len_def overwrite_def Let_def)
  have "content (?z\<lparr>b_UDP := u\<rparr>) = d" for u by (simp add: content_def b_arr_def Buffer_of_def)
  then show ?thesis using n(1) z(2) s r assms(5-7) unfolding freedom_ReadMultiBuffer_def by simp
qed

lemma attempt_forced:
  assumes "attempt_dest dnsClient intn s gw orig d = Some (Inr t)" "ForceIP s" "\<forall>f. dnsClient = Some f \<longrightarrow> dns_ok f"
  shows "\<exists>b. d_Address t = Some b \<and> IsIP (Family b)"
proof -
  have h: "HasStrategy s" using assms(2) by (simp add: ForceIP_def HasStrategy_def)
  obtain a where a: "d_Address d = Some a" using assms(1) h by (auto simp: attempt_dest_def bind_Some_iff)
  show ?thesis
  proof (cases "IsDomain (Family a)")
    case False
    then show ?thesis using assms(1) h a not_domain by (auto simp: attempt_dest_def)
  next
    case True
    define s' where "s' = (case orig of Some oa \<Rightarrow> if d_Network d = Network_UDP \<and> gw = None then GetDynamicStrategy s (Family oa) else s | None \<Rightarrow> s)"
    obtain ips e where l: "LookupForIP dnsClient (Address_Domain a) s' gw = (ips, e)" by fastforce
    have r: "(case (ips, e) of (ips, Some err) \<Rightarrow> Some (if ForceIP s then Inl err else Inr d)
         | (ips, None) \<Rightarrow> if ips = [] then None else Some (Inr (d\<lparr>d_Address := IPAddress (ips ! (intn (length ips) mod length ips))\<rparr>))) = Some (Inr t)"
      using assms(1) h a True l unfolding attempt_dest_def s'_def [symmetric] Let_def by simp
    then have e: "e = None" using assms(2) by (cases e) auto
    note ok = LookupForIP_ok [OF l [unfolded e] assms(3)]
    then have "ips ! (intn (length ips) mod length ips) \<in> set ips" by simp
    then show ?thesis using ok r e allows_IsIP by fastforce
  qed
qed

lemma noise_only_once: "Noise_WriteMultiBuffer wmb random rs noises ov ra (False, w) mb p = map_option (\<lambda>(e, w', p'). (e, (False, w'), p')) (wmb w mb p)"
  by (simp add: Noise_WriteMultiBuffer_def Let_def)


section \<open>The stream of a TCP connection\<close>

text \<open>\<open>requestDone\<close> for TCP: the link is copied to the connection, through a \<open>FragmentWriter\<close> if fragments are configured.\<close>

definition request_tcp ::
  "'r mb_read \<Rightarrow> 'w io_write \<Rightarrow> Fragment \<Rightarrow> (nat \<Rightarrow> nat \<Rightarrow> int) \<Rightarrow> 'r \<Rightarrow> 64 word \<times> 'w \<Rightarrow> pool \<Rightarrow> (goerr option \<times> 'r \<times> (64 word \<times> 'w) \<times> pool) option" where
  "request_tcp rmb wr fr rs r w p =
     map_option (\<lambda>(e, r', w', _, p'). (map_option (\<lambda>x. ENew ''failed to process request'' (Some x)) e, r', w', p'))
       (Copy rmb (SequentialWriter_WriteMultiBuffer (FragmentWriter_Write wr fr rs)) [] r w () p)"

lemma segmented_copy:
  assumes "fragment_ok fr" "\<not> is_hello_mode fr"
  shows "copy_pair (SingleReader_ReadMultiBuffer conn_read) (\<lambda>_. True) (\<lambda>c. concat (chunks c)) closing (\<lambda>c. length (chunks c)) (\<lambda>_. True)
    (SequentialWriter_WriteMultiBuffer (FragmentWriter_Write sink_Write fr rs)) (\<lambda>s. sk_out (snd s))"
proof -
  have "fragment_writer sink_Write sk_out fr" using assms by unfold_locales
  moreover have "mb_reader (SingleReader_ReadMultiBuffer conn_read) (\<lambda>_. True) (\<lambda>c. concat (chunks c)) closing (\<lambda>c. length (chunks c)) (\<lambda>_. True)" by unfold_locales
  ultimately show ?thesis by (intro copy_pair.intro fragment_writer.segmented_mb)
qed


text \<open>
  A request that is sent in segments arrives unchanged: for every accepted configuration of segments and all random numbers, the copy of the client's stream
  through the fragmenting writer ends, and the server has received a prefix of the stream, all of it unless the connection failed.
\<close>

theorem segments_keep_stream:
  assumes "fragment_ok fr" "\<not> is_hello_mode fr" "pool_ok p"
  shows "\<exists>e c' w' p' k. request_tcp (SingleReader_ReadMultiBuffer conn_read) sink_Write fr rs c w p = Some (e, c', w', p')
    \<and> sk_out (snd w') = sk_out (snd w) @ take k (concat (chunks c))
    \<and> (sk_out (snd w') = sk_out (snd w) @ concat (chunks c)
          \<and> e = (if Cause (closing c) = EOF then None else Some (ENew ''failed to process request'' (Some (ReadError (closing c)))))
       \<or> (\<exists>x. e = (if Cause x = EOF then None else Some (ENew ''failed to process request'' (Some (WriteError x))))))"
proof -
  let ?wmb = "SequentialWriter_WriteMultiBuffer (FragmentWriter_Write sink_Write fr rs)"
  note cp = segmented_copy [OF assms(1,2), of rs]
  obtain e c' w' s' p' where c: "copyInternal (SingleReader_ReadMultiBuffer conn_read) ?wmb [] c w () p = Some (e, c', w', s', p')"
    "\<exists>k. sk_out (snd w') = sk_out (snd w) @ take k (concat (chunks c))"
    "e = ReadError (closing c) \<and> sk_out (snd w') = sk_out (snd w) @ concat (chunks c) \<or> (\<exists>x. e = WriteError x)"
    using copy_pair.copyInternal_ends [OF cp TrueI assms(3), of "[]" c w "()"] unfolding copy_pair.copied_def [OF cp] by blast
  have "request_tcp (SingleReader_ReadMultiBuffer conn_read) sink_Write fr rs c w p
      = Some (if Cause e \<noteq> EOF then Some (ENew ''failed to process request'' (Some e)) else None, c', w', p')"
    using c(1) by (simp add: request_tcp_def Copy_def)
  then show ?thesis using c(2,3) by (elim disjE exE conjE) (simp_all, blast+)
qed

theorem segments_keep_stream_witness:
  "\<exists>e c' w' p' k. request_tcp (SingleReader_ReadMultiBuffer conn_read) sink_Write (demo_fragment\<lparr>fr_PacketsTo := 0\<rparr>) (\<lambda>_ _. 0)
      \<lparr>chunks = [[1, 2, 3]], closing = EOF\<rparr> (0, \<lparr>sk_out = [], sk_quota = 9\<rparr>) [] = Some (e, c', w', p') \<and> sk_out (snd w') = take k [1, 2, 3]"
proof -
  have "pool_ok []" by (simp add: pool_ok_def)
  then obtain e c' w' p' k where "request_tcp (SingleReader_ReadMultiBuffer conn_read) sink_Write (demo_fragment\<lparr>fr_PacketsTo := 0\<rparr>) (\<lambda>_ _. 0)
      \<lparr>chunks = [[1, 2, 3]], closing = EOF\<rparr> (0, \<lparr>sk_out = [], sk_quota = 9\<rparr>) [] = Some (e, c', w', p')"
    "sk_out (snd w') = sk_out (snd (0 :: 64 word, \<lparr>sk_out = [], sk_quota = 9\<rparr>)) @ take k (concat (chunks \<lparr>chunks = [[1, 2, 3]], closing = EOF\<rparr>))"
    using segments_keep_stream [OF demo_fragment_ok(2,4)] by blast
  then show ?thesis by auto
qed

end
