(* ===== verification/Inbound_Manager.thy ===== *)
theory Inbound_Manager
  imports Outbound_Manager "HOL-Library.Sublist"
begin

text \<open>
  \<open>app/proxyman/inbound/inbound.go\<close>: the manager of the inbound handlers, and the contract that it shares with the outbound
  manager: a directory of handlers by tag. Handlers, maps and the results of \<open>Start\<close> and \<open>Close\<close> are as in \<open>Outbound_Manager\<close>;
  an operation that calls \<open>Start\<close> or \<open>Close\<close> of handlers also returns the handlers called, in order.
\<close>

section \<open>Operations\<close>

record Inbound_manager =
  im_untaggedHandlers :: "Handler list"
  im_taggedHandlers :: "(gostring \<times> Handler) list"
  im_running :: bool

definition IM_New :: Inbound_manager where
  "IM_New = \<lparr>im_untaggedHandlers = [], im_taggedHandlers = [], im_running = False\<rparr>"

definition IM_AddHandler :: "(Handler \<Rightarrow> goerr option) \<Rightarrow> Inbound_manager \<Rightarrow> Handler \<Rightarrow> goerr option \<times> Inbound_manager" where
  "IM_AddHandler start m handler =
     (let tag = h_Tag handler
      in if tag \<noteq> [] \<and> map_of (im_taggedHandlers m) tag \<noteq> None then (Some (ENew ''existing tag found: '' None), m)
         else let m1 = (if tag \<noteq> [] then m\<lparr>im_taggedHandlers := AList.update tag handler (im_taggedHandlers m)\<rparr>
                        else m\<lparr>im_untaggedHandlers := im_untaggedHandlers m @ [handler]\<rparr>)
              in (if im_running m1 then start handler else None, m1))"

definition IM_GetHandler :: "Inbound_manager \<Rightarrow> gostring \<Rightarrow> goerr + Handler" where
  "IM_GetHandler m tag = (case map_of (im_taggedHandlers m) tag of None \<Rightarrow> Inl (ENew ''handler not found: '' None) | Some h \<Rightarrow> Inr h)"

text \<open>An error of \<open>Close\<close> is logged and the handler is removed all the same.\<close>

definition IM_RemoveHandler :: "Inbound_manager \<Rightarrow> gostring \<Rightarrow> goerr option \<times> Handler list \<times> Inbound_manager" where
  "IM_RemoveHandler m tag =
     (if tag = [] then (Some ErrNoClue, [], m)
      else case map_of (im_taggedHandlers m) tag of
             Some handler \<Rightarrow> (None, [handler], m\<lparr>im_taggedHandlers := AList.delete tag (im_taggedHandlers m)\<rparr>)
           | None \<Rightarrow> (Some ErrNoClue, [], m))"

definition IM_ListHandlers :: "Inbound_manager \<Rightarrow> Handler list" where
  "IM_ListHandlers m = im_untaggedHandlers m @ map snd (im_taggedHandlers m)"

text \<open>The handlers that the loops of \<open>Start\<close> call: all, or those up to the first that fails.\<close>

fun start_prefix :: "('h \<Rightarrow> goerr option) \<Rightarrow> 'h list \<Rightarrow> goerr option \<times> 'h list" where
  "start_prefix start [] = (None, [])"
| "start_prefix start (h # hs) =
     (case start h of Some e \<Rightarrow> (Some e, [h]) | None \<Rightarrow> let (e, called) = start_prefix start hs in (e, h # called))"

definition IM_Start :: "(Handler \<Rightarrow> goerr option) \<Rightarrow> Inbound_manager \<Rightarrow> goerr option \<times> Handler list \<times> Inbound_manager" where
  "IM_Start start m =
     (let m1 = m\<lparr>im_running := True\<rparr>;
          (err, called) = start_prefix start (map snd (im_taggedHandlers m1))
      in case err of
           Some e \<Rightarrow> (Some e, called, m1)
         | None \<Rightarrow> let (err2, called2) = start_prefix start (im_untaggedHandlers m1) in (err2, called @ called2, m1))"

definition IM_Close :: "(Handler \<Rightarrow> goerr option) \<Rightarrow> Inbound_manager \<Rightarrow> goerr option \<times> Handler list \<times> Inbound_manager" where
  "IM_Close close m =
     (let m1 = m\<lparr>im_running := False\<rparr>; called = map snd (im_taggedHandlers m1) @ im_untaggedHandlers m1
      in (if List.map_filter close called \<noteq> [] then Some (ENew ''failed to close all handlers'' (Some (ENew '''' None))) else None, called, m1))"

lemma start_prefix_spec:
  "start_prefix start hs = (e, called) \<Longrightarrow> prefix called hs \<and> e = start_all start hs \<and> (e = None \<longrightarrow> called = hs)
     \<and> (\<forall>x. e = Some x \<longrightarrow> called \<noteq> [] \<and> start (last called) = Some x \<and> (\<forall>h \<in> set (butlast called). start h = None))"
  for start :: "Handler \<Rightarrow> goerr option"
  by (induction hs arbitrary: e called) (auto split: option.splits prod.splits)

lemma start_prefix_append:
  "start_prefix start (xs @ ys) = (case start_prefix start xs of (Some e, c) \<Rightarrow> (Some e, c)
     | (None, c) \<Rightarrow> (let (e, c2) = start_prefix start ys in (e, c @ c2)))"
  by (induction xs) (auto split: option.splits prod.splits)

lemma IM_Start_prefix:
  "IM_Start start m = (let (e, c) = start_prefix start (map snd (im_taggedHandlers m) @ im_untaggedHandlers m) in (e, c, m\<lparr>im_running := True\<rparr>))"
  by (auto simp: IM_Start_def start_prefix_append Let_def split: option.splits prod.splits)

section \<open>Invariant and directory\<close>

definition im_inv :: "Inbound_manager \<Rightarrow> bool" where
  "im_inv m \<longleftrightarrow> distinct (map fst (im_taggedHandlers m)) \<and> (\<forall>(t, h) \<in> set (im_taggedHandlers m). t \<noteq> [] \<and> h_Tag h = t)
     \<and> (\<forall>h \<in> set (im_untaggedHandlers m). h_Tag h = [])"

definition im_abs :: "Inbound_manager \<Rightarrow> (gostring \<rightharpoonup> Handler) \<times> Handler list" where
  "im_abs m = (map_of (im_taggedHandlers m), im_untaggedHandlers m)"

text \<open>What both managers promise to their clients: the operations act on a directory of handlers and keep the invariant.\<close>

locale handler_directory =
  fixes new :: 'm
    and add :: "(Handler \<Rightarrow> goerr option) \<Rightarrow> 'm \<Rightarrow> Handler \<Rightarrow> goerr option \<times> 'm"
    and remove :: "'m \<Rightarrow> gostring \<Rightarrow> 'm"
    and get :: "'m \<Rightarrow> gostring \<Rightarrow> Handler option"
    and handlers :: "'m \<Rightarrow> Handler list"
    and isrunning :: "'m \<Rightarrow> bool"
    and dir :: "'m \<Rightarrow> (gostring \<rightharpoonup> Handler) \<times> Handler list"
    and inv :: "'m \<Rightarrow> bool"
  assumes inv_new: "inv new" and dir_new: "dir new = (Map.empty, [])"
    and inv_add: "inv m \<Longrightarrow> inv (snd (add start m h))" and inv_remove: "inv m \<Longrightarrow> inv (remove m t)"
    and dir_add: "dir (snd (add start m h)) = dir_add h (dir m)" and dir_remove: "inv m \<Longrightarrow> dir (remove m t) = dir_remove t (dir m)"
    and add_result: "fst (add start m h) = (if h_Tag h \<noteq> [] \<and> fst (dir m) (h_Tag h) \<noteq> None then Some (ENew ''existing tag found: '' None)
          else if isrunning m then start h else None)"
    and get_dir: "get m t = fst (dir m) t"
    and handlers_dir: "inv m \<Longrightarrow> set (handlers m) = ran (fst (dir m)) \<union> set (snd (dir m))"
    and inv_tags: "inv m \<Longrightarrow> fst (dir m) t = Some h \<Longrightarrow> h_Tag h = t \<and> t \<noteq> []"
begin

lemma get_after_add:
  "fst (dir m) (h_Tag h) = None \<Longrightarrow> h_Tag h \<noteq> [] \<Longrightarrow> get (snd (add start m h)) t = (if t = h_Tag h then Some h else get m t)"
  by (simp add: get_dir dir_add Outbound_Manager.dir_add_def)

lemma second_tag_refused:
  "get m (h_Tag h) = Some h' \<Longrightarrow> h_Tag h \<noteq> [] \<Longrightarrow> fst (add start m h) = Some (ENew ''existing tag found: '' None) \<and> dir (snd (add start m h)) = dir m"
  by (simp add: get_dir add_result dir_add Outbound_Manager.dir_add_def)

lemma add_remove:
  assumes "inv m" "get m (h_Tag h) = None" "h_Tag h \<noteq> []"
  shows "dir (remove (snd (add start m h)) (h_Tag h)) = dir m"
  using assms by (simp add: get_dir dir_add dir_remove inv_add Outbound_Manager.dir_add_def Outbound_Manager.dir_remove_def fun_upd_idem prod_eq_iff)

lemma get_tag: "inv m \<Longrightarrow> get m t = Some h \<Longrightarrow> h_Tag h = t"
  using inv_tags by (simp add: get_dir)

lemma listed_tag: "inv m \<Longrightarrow> get m t = Some h \<Longrightarrow> h \<in> set (handlers m)"
  by (auto simp: handlers_dir get_dir ranI)

end

interpretation outbound: handler_directory OM_New AddHandler "\<lambda>m t. snd (RemoveHandler m t)" GetHandler ListHandlers om_running om_abs om_inv
proof (unfold_locales, goal_cases)
  case (9 m)
  then show ?case by (auto simp: om_inv_def ListHandlers_def om_abs_def ran_distinct)
next
  case (10 m t h)
  then show ?case by (auto simp: om_inv_def om_abs_def dest!: map_of_SomeD)
qed (simp_all add: om_inv_New AddHandler_inv RemoveHandler_inv AddHandler_abs RemoveHandler_abs GetHandler_def,
     simp_all add: om_abs_def OM_New_def)

lemma IM_AddHandler_inv: "im_inv m \<Longrightarrow> im_inv (snd (IM_AddHandler start m h))"
  by (auto simp: im_inv_def IM_AddHandler_def Let_def set_update_AList map_of_eq_None_iff)

lemma IM_RemoveHandler_inv: "im_inv m \<Longrightarrow> im_inv (snd (snd (IM_RemoveHandler m t)))"
  by (auto simp: im_inv_def IM_RemoveHandler_def AList.delete_eq distinct_map_filter split: option.splits)

lemma IM_RemoveHandler_abs: "im_abs (snd (snd (IM_RemoveHandler m t))) = dir_remove t (im_abs m)"
  by (auto simp: im_abs_def dir_remove_def IM_RemoveHandler_def delete_conv' fun_upd_idem split: option.splits)

lemma IM_AddHandler_abs:
  "im_abs (snd (IM_AddHandler start m h)) = dir_add h (im_abs m)"
  "fst (IM_AddHandler start m h) = (if h_Tag h \<noteq> [] \<and> fst (im_abs m) (h_Tag h) \<noteq> None then Some (ENew ''existing tag found: '' None)
     else if im_running m then start h else None)"
  by (auto simp: im_abs_def dir_add_def IM_AddHandler_def Let_def update_conv')

definition IM_lookup :: "Inbound_manager \<Rightarrow> gostring \<Rightarrow> Handler option" where
  "IM_lookup m tag = (case IM_GetHandler m tag of Inl e \<Rightarrow> None | Inr h \<Rightarrow> Some h)"

interpretation inbound: handler_directory IM_New IM_AddHandler "\<lambda>m t. snd (snd (IM_RemoveHandler m t))" IM_lookup IM_ListHandlers im_running im_abs im_inv
proof (unfold_locales, goal_cases)
  case (9 m)
  then show ?case by (auto simp: im_inv_def IM_ListHandlers_def im_abs_def ran_distinct)
next
  case (10 m t h)
  then show ?case by (auto simp: im_inv_def im_abs_def dest!: map_of_SomeD)
qed (simp_all add: IM_AddHandler_inv IM_RemoveHandler_inv IM_AddHandler_abs IM_RemoveHandler_abs IM_lookup_def IM_GetHandler_def split: option.splits,
     simp_all add: im_inv_def im_abs_def IM_New_def)

section \<open>Lifecycle\<close>

text \<open>
  The handler that is removed is the one that is closed.
\<close>

lemma removed_is_closed:
  assumes "im_inv m" "IM_lookup m t = Some h"
  shows "\<exists>m'. IM_RemoveHandler m t = (None, [h], m') \<and> IM_lookup m' t = None \<and> im_inv m'"
proof -
  have "t \<noteq> []" "map_of (im_taggedHandlers m) t = Some h"
    using assms inbound.inv_tags [of m t h] by (auto simp: IM_lookup_def IM_GetHandler_def im_abs_def split: option.splits)
  then show ?thesis using IM_RemoveHandler_inv [OF assms(1), of t]
    by (simp add: IM_RemoveHandler_def IM_lookup_def IM_GetHandler_def delete_conv')
qed

end
