(* ===== verification/Core_Instance.thy ===== *)
theory Core_Instance
  imports Inbound_Manager "HOL-Library.Multiset"
begin

text \<open>
  \<open>core/xray.go\<close>, \<open>core/functions.go\<close> and \<open>common/type.go\<close>: the instance, a registry of features whose callbacks wait for the features
  they need, its construction from a configuration, its start and its end. Features, callbacks, configurations and the objects made of
  them are values of types of their own; what reflection and their methods give is in the record \<open>runtime\<close>. The methods
  act on the whole instance, so that a callback may use the registry again.
\<close>

section \<open>Types\<close>

text \<open>Go types: \<open>TypeOf((*T)(nil))\<close> is \<open>PtrTo\<close> of \<open>T\<close>. The interfaces that the core names are those of \<open>features\<close>.\<close>

datatype gotype = Named string | PtrTo gotype

definition dns_Client :: gotype where "dns_Client = Named ''dns.Client''"
definition policy_Manager :: gotype where "policy_Manager = Named ''policy.Manager''"
definition routing_Router :: gotype where "routing_Router = Named ''routing.Router''"
definition routing_Dispatcher :: gotype where "routing_Dispatcher = Named ''routing.Dispatcher''"
definition stats_Manager :: gotype where "stats_Manager = Named ''stats.Manager''"
definition inbound_Manager :: gotype where "inbound_Manager = Named ''inbound.Manager''"
definition outbound_Manager :: gotype where "outbound_Manager = Named ''outbound.Manager''"

lemmas feature_type_defs = dns_Client_def policy_Manager_def routing_Router_def routing_Dispatcher_def stats_Manager_def
  inbound_Manager_def outbound_Manager_def

record 'cb feature_resolution =
  rs_deps :: "gotype list"
  rs_callback :: 'cb

text \<open>
  The instance: \<open>in_cone\<close> is the value that its context holds under that key, \<open>in_dialer\<close> what \<open>InitSystemDialer\<close> stored, and \<open>in_world\<close>
  the state outside the instance.
\<close>

record ('f, 'cb, 'w) Instance =
  in_features :: "'f list"
  in_pendingResolutions :: "'cb feature_resolution list"
  in_pendingOptionalResolutions :: "'cb feature_resolution list"
  in_running :: bool
  in_cone :: "bool option"
  in_dialer :: "('f \<times> 'f option) option"
  in_world :: 'w

text \<open>The values that a callback returns: those whose static type is \<open>error\<close>, nil or not, and the others.\<close>

datatype retval = ErrorValue "goerr option" | OtherValue

record ('f, 'cb, 'w) runtime =
  rt_Type :: "'f \<Rightarrow> gotype"
  rt_AssignableTo :: "'f \<Rightarrow> gotype \<Rightarrow> bool"
  rt_In :: "'cb \<Rightarrow> gotype list option"
  rt_Call :: "'cb \<Rightarrow> 'f list \<Rightarrow> ('f, 'cb, 'w) Instance \<Rightarrow> (retval list \<times> ('f, 'cb, 'w) Instance) option"
  rt_Start :: "'f \<Rightarrow> ('f, 'cb, 'w) Instance \<Rightarrow> goerr option \<times> ('f, 'cb, 'w) Instance"
  rt_Close :: "'f \<Rightarrow> ('f, 'cb, 'w) Instance \<Rightarrow> goerr option \<times> ('f, 'cb, 'w) Instance"

section \<open>Registry\<close>

definition getFeature :: "('f, 'cb, 'w) runtime \<Rightarrow> 'f list \<Rightarrow> gotype \<Rightarrow> 'f option" where
  "getFeature rt allFeatures t = List.find (\<lambda>f. rt_Type rt f = t) allFeatures"

definition GetFeature :: "('f, 'cb, 'w) runtime \<Rightarrow> ('f, 'cb, 'w) Instance \<Rightarrow> gotype \<Rightarrow> 'f option" where
  "GetFeature rt s featureType = getFeature rt (in_features s) featureType"

text \<open>The first feature assignable to each parameter; the last returned value of type \<open>error\<close>.\<close>

definition callback_input :: "('f, 'cb, 'w) runtime \<Rightarrow> 'f list \<Rightarrow> gotype list \<Rightarrow> 'f list" where
  "callback_input rt allFeatures ins = List.map_filter (\<lambda>pt. List.find (\<lambda>f. rt_AssignableTo rt f pt) allFeatures) ins"

fun ret_error :: "retval list \<Rightarrow> goerr option" where
  "ret_error [] = None"
| "ret_error (ErrorValue e # rest) = e"
| "ret_error (OtherValue # rest) = ret_error rest"

definition callbackResolution :: "('f, 'cb, 'w) runtime \<Rightarrow> 'cb feature_resolution \<Rightarrow> 'f list \<Rightarrow> ('f, 'cb, 'w) Instance \<Rightarrow> (goerr option \<times> ('f, 'cb, 'w) Instance) option" where
  "callbackResolution rt r allFeatures s =
     (case rt_In rt (rs_callback r) of None \<Rightarrow> None
      | Some ins \<Rightarrow>
          (let input = callback_input rt allFeatures ins
           in if length input \<noteq> length ins then None
              else case rt_Call rt (rs_callback r) input s of None \<Rightarrow> None | Some (ret, s1) \<Rightarrow> Some (ret_error (rev ret), s1)))"

definition foundAll :: "('f, 'cb, 'w) runtime \<Rightarrow> 'f list \<Rightarrow> 'cb feature_resolution \<Rightarrow> bool" where
  "foundAll rt fs r = list_all (\<lambda>d. getFeature rt fs d \<noteq> None) (rs_deps r)"

definition RequireFeatures :: "('f, 'cb, 'w) runtime \<Rightarrow> 'cb \<Rightarrow> bool \<Rightarrow> ('f, 'cb, 'w) Instance \<Rightarrow> (goerr option \<times> ('f, 'cb, 'w) Instance) option" where
  "RequireFeatures rt callback optional s =
     (case rt_In rt callback of None \<Rightarrow> None
      | Some ins \<Rightarrow>
          (let r = \<lparr>rs_deps = map PtrTo ins, rs_callback = callback\<rparr>
           in if foundAll rt (in_features s) r then callbackResolution rt r (in_features s) s
              else if optional then Some (None, s\<lparr>in_pendingOptionalResolutions := in_pendingOptionalResolutions s @ [r]\<rparr>)
              else Some (None, s\<lparr>in_pendingResolutions := in_pendingResolutions s @ [r]\<rparr>)))"

text \<open>Only the error of the last callback is returned.\<close>

fun run_resolutions :: "('f, 'cb, 'w) runtime \<Rightarrow> 'cb feature_resolution list \<Rightarrow> goerr option \<Rightarrow> ('f, 'cb, 'w) Instance \<Rightarrow> (goerr option \<times> ('f, 'cb, 'w) Instance) option" where
  "run_resolutions rt [] err s = Some (err, s)"
| "run_resolutions rt (r # rs) err s =
     (case callbackResolution rt r (in_features s) s of None \<Rightarrow> None | Some (e, s1) \<Rightarrow> run_resolutions rt rs e s1)"

definition AddFeature :: "('f, 'cb, 'w) runtime \<Rightarrow> 'f \<Rightarrow> ('f, 'cb, 'w) Instance \<Rightarrow> (goerr option \<times> ('f, 'cb, 'w) Instance) option" where
  "AddFeature rt feature s =
     (if in_running s then Some (None, snd (rt_Start rt feature s))
      else let fs = in_features s @ [feature];
               available = filter (foundAll rt fs) (in_pendingResolutions s) @ filter (foundAll rt fs) (in_pendingOptionalResolutions s);
               s1 = s\<lparr>in_features := fs,
                      in_pendingResolutions := filter (\<lambda>r. \<not> foundAll rt fs r) (in_pendingResolutions s),
                      in_pendingOptionalResolutions := filter (\<lambda>r. \<not> foundAll rt fs r) (in_pendingOptionalResolutions s)\<rparr>
           in run_resolutions rt available None s1)"

section \<open>Start and Close\<close>

fun start_features :: "('f, 'cb, 'w) runtime \<Rightarrow> 'f list \<Rightarrow> ('f, 'cb, 'w) Instance \<Rightarrow> goerr option \<times> ('f, 'cb, 'w) Instance" where
  "start_features rt [] s = (None, s)"
| "start_features rt (f # fs) s = (case rt_Start rt f s of (Some e, s1) \<Rightarrow> (Some e, s1) | (None, s1) \<Rightarrow> start_features rt fs s1)"

definition Instance_Start :: "('f, 'cb, 'w) runtime \<Rightarrow> ('f, 'cb, 'w) Instance \<Rightarrow> goerr option \<times> ('f, 'cb, 'w) Instance" where
  "Instance_Start rt s = start_features rt (in_features s) (s\<lparr>in_running := True\<rparr>)"

fun close_features :: "('f, 'cb, 'w) runtime \<Rightarrow> 'f list \<Rightarrow> ('f, 'cb, 'w) Instance \<Rightarrow> goerr list \<times> ('f, 'cb, 'w) Instance" where
  "close_features rt [] s = ([], s)"
| "close_features rt (f # fs) s =
     (let (err, s1) = rt_Close rt f s; (errs, s2) = close_features rt fs s1
      in ((case err of None \<Rightarrow> errs | Some e \<Rightarrow> e # errs), s2))"

definition Instance_Close :: "('f, 'cb, 'w) runtime \<Rightarrow> ('f, 'cb, 'w) Instance \<Rightarrow> goerr option \<times> ('f, 'cb, 'w) Instance" where
  "Instance_Close rt s =
     (let (errs, s1) = close_features rt (in_features s) (s\<lparr>in_running := False\<rparr>)
      in (if errs \<noteq> [] then Some (ENew ''failed to close all features'' (Some (ENew '''' None))) else None, s1))"

section \<open>Construction\<close>

text \<open>\<open>RegisterConfig\<close> and \<open>CreateObject\<close>: constructors by the type of the configuration, run in the context of the instance.\<close>

type_synonym ('cfg, 'obj, 'f, 'cb, 'w) ConfigCreator =
  "'cfg \<Rightarrow> ('f, 'cb, 'w) Instance \<Rightarrow> ((goerr + 'obj) \<times> ('f, 'cb, 'w) Instance) option"

definition RegisterConfig :: "('t \<times> 'c) list \<Rightarrow> 't \<Rightarrow> 'c \<Rightarrow> goerr option \<times> ('t \<times> 'c) list" where
  "RegisterConfig registry configType configCreator =
     (if map_of registry configType \<noteq> None then (Some (ENew '' is already registered'' None), registry)
      else (None, AList.update configType configCreator registry))"

text \<open>
  What construction uses beside the registry: the dynamic type of a configuration and its registered constructor, the decoding of a typed
  message, the type assertions on the objects made, the default features, and the \<open>AddHandler\<close> of the managers.
\<close>

record ('msg, 'cfg, 'obj, 'h, 'f, 'cb, 'w) builder =
  bd_TypeOf :: "'cfg \<Rightarrow> gotype"
  bd_registry :: "(gotype \<times> ('cfg, 'obj, 'f, 'cb, 'w) ConfigCreator) list"
  bd_GetInstance :: "'msg \<Rightarrow> goerr + 'cfg"
  bd_asFeature :: "'obj \<Rightarrow> 'f option"
  bd_asInbound :: "'obj \<Rightarrow> 'h option"
  bd_asOutbound :: "'obj \<Rightarrow> 'h option"
  bd_localdns :: 'f
  bd_DefaultManager :: 'f
  bd_DefaultRouter :: 'f
  bd_NoopManager :: 'f
  bd_AddInbound :: "'f \<Rightarrow> 'h \<Rightarrow> ('f, 'cb, 'w) Instance \<Rightarrow> goerr option \<times> ('f, 'cb, 'w) Instance"
  bd_AddOutbound :: "'f \<Rightarrow> 'h \<Rightarrow> ('f, 'cb, 'w) Instance \<Rightarrow> goerr option \<times> ('f, 'cb, 'w) Instance"

definition CreateObject :: "('msg, 'cfg, 'obj, 'h, 'f, 'cb, 'w) builder \<Rightarrow> ('cfg, 'obj, 'f, 'cb, 'w) ConfigCreator" where
  "CreateObject bd config s =
     (case map_of (bd_registry bd) (bd_TypeOf bd config) of
        None \<Rightarrow> Some (Inl (ENew '' is not registered'' None), s)
      | Some creator \<Rightarrow> creator config s)"

definition AddInboundHandler ::
  "('f, 'cb, 'w) runtime \<Rightarrow> ('msg, 'cfg, 'obj, 'h, 'f, 'cb, 'w) builder \<Rightarrow> ('f, 'cb, 'w) Instance \<Rightarrow> 'cfg \<Rightarrow> (goerr option \<times> ('f, 'cb, 'w) Instance) option" where
  "AddInboundHandler rt bd server config =
     (case GetFeature rt server (PtrTo inbound_Manager) of
        None \<Rightarrow> None
      | Some manager \<Rightarrow>
          if \<not> rt_AssignableTo rt manager inbound_Manager then None
          else case CreateObject bd config server of
                 None \<Rightarrow> None
               | Some (Inl err, s1) \<Rightarrow> Some (Some err, s1)
               | Some (Inr raw, s1) \<Rightarrow>
                   (case bd_asInbound bd raw of
                      None \<Rightarrow> Some (Some (ENew ''not an InboundHandler'' None), s1)
                    | Some handler \<Rightarrow> Some (bd_AddInbound bd manager handler s1)))"

definition AddOutboundHandler ::
  "('f, 'cb, 'w) runtime \<Rightarrow> ('msg, 'cfg, 'obj, 'h, 'f, 'cb, 'w) builder \<Rightarrow> ('f, 'cb, 'w) Instance \<Rightarrow> 'cfg \<Rightarrow> (goerr option \<times> ('f, 'cb, 'w) Instance) option" where
  "AddOutboundHandler rt bd server config =
     (case GetFeature rt server (PtrTo outbound_Manager) of
        None \<Rightarrow> None
      | Some manager \<Rightarrow>
          if \<not> rt_AssignableTo rt manager outbound_Manager then None
          else case CreateObject bd config server of
                 None \<Rightarrow> None
               | Some (Inl err, s1) \<Rightarrow> Some (Some err, s1)
               | Some (Inr raw, s1) \<Rightarrow>
                   (case bd_asOutbound bd raw of
                      None \<Rightarrow> Some (Some (ENew ''not an OutboundHandler'' None), s1)
                    | Some handler \<Rightarrow> Some (bd_AddOutbound bd manager handler s1)))"

text \<open>A loop over configurations that stops at the first error; it serves inbounds, outbounds and the app settings.\<close>

fun add_each :: "('i \<Rightarrow> 's \<Rightarrow> (goerr option \<times> 's) option) \<Rightarrow> 'i list \<Rightarrow> 's \<Rightarrow> (goerr option \<times> 's) option" where
  "add_each step [] s = Some (None, s)"
| "add_each step (x # xs) s =
     (case step x s of None \<Rightarrow> None | Some (Some e, s1) \<Rightarrow> Some (Some e, s1) | Some (None, s1) \<Rightarrow> add_each step xs s1)"

definition addInboundHandlers ::
  "('f, 'cb, 'w) runtime \<Rightarrow> ('msg, 'cfg, 'obj, 'h, 'f, 'cb, 'w) builder \<Rightarrow> 'cfg list \<Rightarrow> ('f, 'cb, 'w) Instance \<Rightarrow> (goerr option \<times> ('f, 'cb, 'w) Instance) option" where
  "addInboundHandlers rt bd configs server = add_each (\<lambda>c s. AddInboundHandler rt bd s c) configs server"

definition addOutboundHandlers ::
  "('f, 'cb, 'w) runtime \<Rightarrow> ('msg, 'cfg, 'obj, 'h, 'f, 'cb, 'w) builder \<Rightarrow> 'cfg list \<Rightarrow> ('f, 'cb, 'w) Instance \<Rightarrow> (goerr option \<times> ('f, 'cb, 'w) Instance) option" where
  "addOutboundHandlers rt bd configs server = add_each (\<lambda>c s. AddOutboundHandler rt bd s c) configs server"

definition add_app ::
  "('f, 'cb, 'w) runtime \<Rightarrow> ('msg, 'cfg, 'obj, 'h, 'f, 'cb, 'w) builder \<Rightarrow> 'msg \<Rightarrow> ('f, 'cb, 'w) Instance \<Rightarrow> (goerr option \<times> ('f, 'cb, 'w) Instance) option" where
  "add_app rt bd appSettings s =
     (case bd_GetInstance bd appSettings of
        Inl err \<Rightarrow> Some (Some err, s)
      | Inr settings \<Rightarrow>
          (case CreateObject bd settings s of
             None \<Rightarrow> None
           | Some (Inl err, s1) \<Rightarrow> Some (Some err, s1)
           | Some (Inr obj, s1) \<Rightarrow> (case bd_asFeature bd obj of None \<Rightarrow> Some (None, s1) | Some feature \<Rightarrow> AddFeature rt feature s1)))"

definition essentialFeatures :: "('msg, 'cfg, 'obj, 'h, 'f, 'cb, 'w) builder \<Rightarrow> (gotype \<times> 'f) list" where
  "essentialFeatures bd =
     [(PtrTo dns_Client, bd_localdns bd), (PtrTo policy_Manager, bd_DefaultManager bd),
      (PtrTo routing_Router, bd_DefaultRouter bd), (PtrTo stats_Manager, bd_NoopManager bd)]"

definition add_essential :: "('f, 'cb, 'w) runtime \<Rightarrow> gotype \<times> 'f \<Rightarrow> ('f, 'cb, 'w) Instance \<Rightarrow> (goerr option \<times> ('f, 'cb, 'w) Instance) option" where
  "add_essential rt f s = (if GetFeature rt s (fst f) = None then AddFeature rt (snd f) s else Some (None, s))"

record ('msg, 'cfg) Config =
  cfg_App :: "'msg list"
  cfg_Inbound :: "'cfg list"
  cfg_Outbound :: "'cfg list"

definition InitSystemDialer :: "'f \<Rightarrow> 'f option \<Rightarrow> ('f, 'cb, 'w) Instance \<Rightarrow> ('f, 'cb, 'w) Instance" where
  "InitSystemDialer dc om s = s\<lparr>in_dialer := Some (dc, om)\<rparr>"

text \<open>The features of the configuration and the default ones.\<close>

definition init_features ::
  "('f, 'cb, 'w) runtime \<Rightarrow> ('msg, 'cfg, 'obj, 'h, 'f, 'cb, 'w) builder \<Rightarrow> gostring \<Rightarrow> ('msg, 'cfg) Config \<Rightarrow> ('f, 'cb, 'w) Instance
     \<Rightarrow> (goerr option \<times> ('f, 'cb, 'w) Instance) option" where
  "init_features rt bd cone config server =
     (case add_each (add_app rt bd) (cfg_App config) (server\<lparr>in_cone := Some (cone \<noteq> str ''true'')\<rparr>) of
        None \<Rightarrow> None
      | Some (Some err, s1) \<Rightarrow> Some (Some err, s1)
      | Some (None, s1) \<Rightarrow> add_each (add_essential rt) (essentialFeatures bd) s1)"

text \<open>The first component of the result is \<open>done\<close>: the caller gives up the instance when it is true.\<close>

definition initInstanceWithConfig ::
  "('f, 'cb, 'w) runtime \<Rightarrow> ('msg, 'cfg, 'obj, 'h, 'f, 'cb, 'w) builder \<Rightarrow> gostring \<Rightarrow> ('msg, 'cfg) Config \<Rightarrow> ('f, 'cb, 'w) Instance
     \<Rightarrow> (bool \<times> goerr option \<times> ('f, 'cb, 'w) Instance) option" where
  "initInstanceWithConfig rt bd cone config server =
     (case init_features rt bd cone config server of
        None \<Rightarrow> None
      | Some (Some err, s1) \<Rightarrow> Some (True, Some err, s1)
      | Some (None, s1) \<Rightarrow>
          (case GetFeature rt s1 (PtrTo dns_Client) of
             None \<Rightarrow> None
           | Some dc \<Rightarrow>
               if \<not> rt_AssignableTo rt dc dns_Client then None
               else
                 let om = (case GetFeature rt s1 (PtrTo outbound_Manager) of
                             None \<Rightarrow> None | Some f \<Rightarrow> if rt_AssignableTo rt f outbound_Manager then Some f else None);
                     s2 = InitSystemDialer dc om s1
                 in if in_pendingResolutions s2 \<noteq> [] then Some (True, Some (ENew ''not all dependencies are resolved.'' None), s2)
                    else case addInboundHandlers rt bd (cfg_Inbound config) s2 of
                           None \<Rightarrow> None
                         | Some (Some err, s3) \<Rightarrow> Some (True, Some err, s3)
                         | Some (None, s3) \<Rightarrow>
                             (case addOutboundHandlers rt bd (cfg_Outbound config) s3 of
                                None \<Rightarrow> None
                              | Some (Some err, s4) \<Rightarrow> Some (True, Some err, s4)
                              | Some (None, s4) \<Rightarrow> Some (False, None, s4))))"

definition empty_instance :: "'w \<Rightarrow> ('f, 'cb, 'w) Instance" where
  "empty_instance w = \<lparr>in_features = [], in_pendingResolutions = [], in_pendingOptionalResolutions = [], in_running = False,
     in_cone = None, in_dialer = None, in_world = w\<rparr>"

definition Instance_New ::
  "('f, 'cb, 'w) runtime \<Rightarrow> ('msg, 'cfg, 'obj, 'h, 'f, 'cb, 'w) builder \<Rightarrow> gostring \<Rightarrow> ('msg, 'cfg) Config \<Rightarrow> 'w
     \<Rightarrow> (goerr option + ('f, 'cb, 'w) Instance) option" where
  "Instance_New rt bd cone config w =
     (case initInstanceWithConfig rt bd cone config (empty_instance w) of
        None \<Rightarrow> None
      | Some (isdone, err, server) \<Rightarrow> Some (if isdone then Inl err else Inr server))"

text \<open>\<open>StartInstance\<close>, for a configuration that is already decoded or failed to be.\<close>

definition StartInstance ::
  "('f, 'cb, 'w) runtime \<Rightarrow> ('msg, 'cfg, 'obj, 'h, 'f, 'cb, 'w) builder \<Rightarrow> gostring \<Rightarrow> goerr + ('msg, 'cfg) Config \<Rightarrow> 'w
     \<Rightarrow> (goerr option + ('f, 'cb, 'w) Instance) option" where
  "StartInstance rt bd cone loaded w =
     (case loaded of
        Inl err \<Rightarrow> Some (Inl (Some err))
      | Inr config \<Rightarrow>
          (case Instance_New rt bd cone config w of
             None \<Rightarrow> None
           | Some (Inl err) \<Rightarrow> Some (Inl err)
           | Some (Inr server) \<Rightarrow>
               (case Instance_Start rt server of (Some err, _) \<Rightarrow> Some (Inl (Some err)) | (None, s1) \<Rightarrow> Some (Inr s1))))"

section \<open>Accounting of callbacks\<close>

text \<open>A sequence of uses of the registry, and the callbacks that it asks for.\<close>

datatype ('f, 'cb) registry_op = Require 'cb bool | Register 'f

fun registry_run :: "('f, 'cb, 'w) runtime \<Rightarrow> ('f, 'cb) registry_op list \<Rightarrow> ('f, 'cb, 'w) Instance \<Rightarrow> ('f, 'cb, 'w) Instance option" where
  "registry_run rt [] s = Some s"
| "registry_run rt (Require cb optional # ops) s = (case RequireFeatures rt cb optional s of None \<Rightarrow> None | Some (_, s1) \<Rightarrow> registry_run rt ops s1)"
| "registry_run rt (Register f # ops) s = (case AddFeature rt f s of None \<Rightarrow> None | Some (_, s1) \<Rightarrow> registry_run rt ops s1)"

definition requested :: "('f, 'cb) registry_op list \<Rightarrow> 'cb list" where
  "requested ops = List.map_filter (\<lambda>x. case x of Require cb _ \<Rightarrow> Some cb | Register _ \<Rightarrow> None) ops"

fun request_all :: "('f, 'cb, 'w) runtime \<Rightarrow> ('cb \<times> bool) list \<Rightarrow> ('f, 'cb, 'w) Instance \<Rightarrow> ('f, 'cb, 'w) Instance option" where
  "request_all rt [] s = Some s"
| "request_all rt ((cb, optional) # rest) s = (case RequireFeatures rt cb optional s of None \<Rightarrow> None | Some (_, s1) \<Rightarrow> request_all rt rest s1)"

text \<open>All the features that the parameters of a callback name are registered.\<close>

definition needs_met :: "('f, 'cb, 'w) runtime \<Rightarrow> 'f list \<Rightarrow> 'cb \<Rightarrow> bool" where
  "needs_met rt fs cb = (case rt_In rt cb of None \<Rightarrow> False | Some ins \<Rightarrow> list_all (\<lambda>t. getFeature rt fs (PtrTo t) \<noteq> None) ins)"

definition callbacks_of :: "'cb feature_resolution list \<Rightarrow> 'cb multiset" where
  "callbacks_of rs = image_mset rs_callback (mset rs)"

lemma callbacks_of_simps [simp]:
  "callbacks_of [] = {#}" "callbacks_of (r # rs) = add_mset (rs_callback r) (callbacks_of rs)" "callbacks_of (rs @ rs') = callbacks_of rs + callbacks_of rs'"
  by (simp_all add: callbacks_of_def)

lemma callbacks_of_split: "callbacks_of (filter P rs) + callbacks_of (filter (\<lambda>r. \<not> P r) rs) = callbacks_of rs"
  by (induction rs) auto

lemma getFeature_append: "getFeature rt fs t \<noteq> None \<Longrightarrow> getFeature rt (fs @ gs) t \<noteq> None"
  by (auto simp: getFeature_def find_None_iff)

lemma needs_met_append: "needs_met rt fs cb \<Longrightarrow> needs_met rt (fs @ gs) cb"
  using getFeature_append by (fastforce simp: needs_met_def list_all_iff split: option.splits)

definition resolution_ok :: "('f, 'cb, 'w) runtime \<Rightarrow> 'cb feature_resolution \<Rightarrow> bool" where
  "resolution_ok rt r \<longleftrightarrow> (case rt_In rt (rs_callback r) of None \<Rightarrow> False | Some ins \<Rightarrow> rs_deps r = map PtrTo ins)"

lemma foundAll_needs_met: "resolution_ok rt r \<Longrightarrow> foundAll rt fs r = needs_met rt fs (rs_callback r)"
  by (auto simp: resolution_ok_def foundAll_def needs_met_def list_all_iff split: option.splits)

text \<open>The requests that the callbacks called make themselves.\<close>

definition asked_by :: "('cb \<Rightarrow> ('cb \<times> bool) list) \<Rightarrow> ('cb \<times> 'f list) list \<Rightarrow> 'cb multiset" where
  "asked_by nested cs = sum_list (map (\<lambda>c. mset (map fst (nested (fst c)))) cs)"

lemma asked_by_simps [simp]:
  "asked_by nested [] = {#}" "asked_by nested (c # cs) = mset (map fst (nested (fst c))) + asked_by nested cs"
  "asked_by nested (cs @ ds) = asked_by nested cs + asked_by nested ds"
  by (simp_all add: asked_by_def)

text \<open>A call that was due, with a feature for each parameter, and a resolution that is rightly queued.\<close>

definition good_call :: "('f, 'cb, 'w) runtime \<Rightarrow> 'f list \<Rightarrow> 'cb \<times> 'f list \<Rightarrow> bool" where
  "good_call rt fs c \<longleftrightarrow> needs_met rt fs (fst c) \<and> set (snd c) \<subseteq> set fs
     \<and> (case rt_In rt (fst c) of None \<Rightarrow> False | Some ins \<Rightarrow> list_all2 (rt_AssignableTo rt) (snd c) ins)"

definition waiting :: "('f, 'cb, 'w) runtime \<Rightarrow> 'f list \<Rightarrow> 'cb feature_resolution \<Rightarrow> bool" where
  "waiting rt fs r \<longleftrightarrow> resolution_ok rt r \<and> \<not> needs_met rt fs (rs_callback r)"

text \<open>From \<open>s\<close> to \<open>s'\<close> the requests of \<open>R\<close> were served or queued, and so were those that arose on the way.\<close>

definition registry_progress ::
  "('f, 'cb, 'w) runtime \<Rightarrow> ('w \<Rightarrow> ('cb \<times> 'f list) list) \<Rightarrow> ('cb \<Rightarrow> ('cb \<times> bool) list) \<Rightarrow> ('f, 'cb, 'w) Instance \<Rightarrow> ('f, 'cb, 'w) Instance \<Rightarrow> 'cb multiset \<Rightarrow> bool" where
  "registry_progress rt calls nested s s' R \<longleftrightarrow> in_features s' = in_features s \<and> in_running s' = in_running s \<and>
     (\<exists>new p q. calls (in_world s') = calls (in_world s) @ new \<and> in_pendingResolutions s' = in_pendingResolutions s @ p
        \<and> in_pendingOptionalResolutions s' = in_pendingOptionalResolutions s @ q
        \<and> mset (map fst new) + callbacks_of p + callbacks_of q = R + asked_by nested new
        \<and> (\<forall>c \<in> set new. good_call rt (in_features s) c) \<and> (\<forall>r \<in> set (p @ q). waiting rt (in_features s) r))"

lemma progressI:
  "in_features s' = in_features s \<Longrightarrow> in_running s' = in_running s \<Longrightarrow> calls (in_world s') = calls (in_world s) @ new \<Longrightarrow>
   in_pendingResolutions s' = in_pendingResolutions s @ p \<Longrightarrow> in_pendingOptionalResolutions s' = in_pendingOptionalResolutions s @ q \<Longrightarrow>
   mset (map fst new) + callbacks_of p + callbacks_of q = R + asked_by nested new \<Longrightarrow>
   \<forall>c \<in> set new. good_call rt (in_features s) c \<Longrightarrow> \<forall>r \<in> set (p @ q). waiting rt (in_features s) r \<Longrightarrow> registry_progress rt calls nested s s' R"
  unfolding registry_progress_def by (intro conjI exI [of _ new] exI [of _ p] exI [of _ q])

lemma progressE:
  assumes "registry_progress rt calls nested s s' R"
  obtains new p q where "in_features s' = in_features s" "in_running s' = in_running s" "calls (in_world s') = calls (in_world s) @ new"
   "in_pendingResolutions s' = in_pendingResolutions s @ p" "in_pendingOptionalResolutions s' = in_pendingOptionalResolutions s @ q"
   "mset (map fst new) + callbacks_of p + callbacks_of q = R + asked_by nested new"
   "\<forall>c \<in> set new. good_call rt (in_features s) c" "\<forall>r \<in> set (p @ q). waiting rt (in_features s) r"
  using assms unfolding registry_progress_def by (elim conjE exE)

text \<open>
  The invariant, for the requests \<open>R\<close> made so far: the callbacks called and those queued are the ones asked for, each as often as it was; those called were
  due and those queued are not.
\<close>

definition registry_inv ::
  "('f, 'cb, 'w) runtime \<Rightarrow> ('w \<Rightarrow> ('cb \<times> 'f list) list) \<Rightarrow> ('cb \<Rightarrow> ('cb \<times> bool) list) \<Rightarrow> 'cb multiset \<Rightarrow> ('f, 'cb, 'w) Instance \<Rightarrow> bool" where
  "registry_inv rt calls nested R s \<longleftrightarrow>
     mset (map fst (calls (in_world s))) + callbacks_of (in_pendingResolutions s) + callbacks_of (in_pendingOptionalResolutions s)
        = R + asked_by nested (calls (in_world s))
     \<and> (\<forall>c \<in> set (calls (in_world s)). good_call rt (in_features s) c)
     \<and> (\<forall>r \<in> set (in_pendingResolutions s @ in_pendingOptionalResolutions s). waiting rt (in_features s) r)"

lemma good_call_append: "good_call rt fs c \<Longrightarrow> good_call rt (fs @ gs) c"
  by (auto simp: good_call_def needs_met_append)

lemma inv_progress:
  assumes "registry_progress rt calls nested s s' R'"
    and "\<forall>c \<in> set (calls (in_world s)). good_call rt (in_features s) c"
    and "\<forall>r \<in> set (in_pendingResolutions s @ in_pendingOptionalResolutions s). waiting rt (in_features s) r"
    and "mset (map fst (calls (in_world s))) + callbacks_of (in_pendingResolutions s) + callbacks_of (in_pendingOptionalResolutions s) + R'
        = R + asked_by nested (calls (in_world s))"
  shows "registry_inv rt calls nested R s'"
proof -
  obtain n p q where 1: "in_features s' = in_features s" "calls (in_world s') = calls (in_world s) @ n"
      "in_pendingResolutions s' = in_pendingResolutions s @ p" "in_pendingOptionalResolutions s' = in_pendingOptionalResolutions s @ q"
      "mset (map fst n) + callbacks_of p + callbacks_of q = R' + asked_by nested n"
      "\<forall>c \<in> set n. good_call rt (in_features s) c" "\<forall>r \<in> set (p @ q). waiting rt (in_features s) r"
    using assms(1) by (rule progressE)
  let ?old = "mset (map fst (calls (in_world s))) + callbacks_of (in_pendingResolutions s) + callbacks_of (in_pendingOptionalResolutions s)"
  have "mset (map fst (calls (in_world s'))) + callbacks_of (in_pendingResolutions s') + callbacks_of (in_pendingOptionalResolutions s')
      = ?old + (mset (map fst n) + callbacks_of p + callbacks_of q)" unfolding 1(2-4) by (simp add: ac_simps)
  also have "\<dots> = (?old + R') + asked_by nested n" unfolding 1(5) by (simp add: ac_simps)
  also have "\<dots> = R + asked_by nested (calls (in_world s'))" unfolding assms(4) 1(2) by (simp add: ac_simps)
  finally have balance: "mset (map fst (calls (in_world s'))) + callbacks_of (in_pendingResolutions s') + callbacks_of (in_pendingOptionalResolutions s')
      = R + asked_by nested (calls (in_world s'))" .
  have "\<forall>c \<in> set (calls (in_world s')). good_call rt (in_features s') c" using 1(1,2,6) assms(2) by auto
  moreover have "\<forall>r \<in> set (in_pendingResolutions s' @ in_pendingOptionalResolutions s'). waiting rt (in_features s') r"
    using 1(1,3,4,7) assms(3) by auto
  ultimately show ?thesis unfolding registry_inv_def using balance by blast
qed

text \<open>
  What the registry relies on: a feature registered as \<open>(*T)(nil)\<close> implements \<open>T\<close>; a callback returns, is counted in \<open>calls\<close>, and uses the instance
  only for further requests, those of \<open>nested\<close>, which do not go round in a circle; starting a feature leaves the registry alone.
\<close>

locale feature_registry =
  fixes rt :: "('f, 'cb, 'w) runtime"
    and calls :: "'w \<Rightarrow> ('cb \<times> 'f list) list"
    and nested :: "'cb \<Rightarrow> ('cb \<times> bool) list"
    and rank :: "'cb \<Rightarrow> nat"
  assumes type_assignable: "rt_Type rt f = PtrTo t \<Longrightarrow> rt_AssignableTo rt f t"
    and call_effect: "\<exists>w. calls w = calls (in_world s) @ [(cb, fs)] \<and> (\<forall>s1. request_all rt (nested cb) (s\<lparr>in_world := w\<rparr>) = Some s1 \<longrightarrow>
           (\<exists>ret w'. calls w' = calls (in_world s1) \<and> rt_Call rt cb fs s = Some (ret, s1\<lparr>in_world := w'\<rparr>)))"
    and nested_rank: "(c, opt) \<in> set (nested cb) \<Longrightarrow> rank c < rank cb" and nested_fun: "(c, opt) \<in> set (nested cb) \<Longrightarrow> rt_In rt c \<noteq> None"
    and start_effect: "\<exists>w. snd (rt_Start rt f s) = s\<lparr>in_world := w\<rparr> \<and> calls w = calls (in_world s)"

begin

abbreviation called :: "('f, 'cb, 'w) Instance \<Rightarrow> ('cb \<times> 'f list) list" where
  "called s \<equiv> calls (in_world s)"

abbreviation progress :: "('f, 'cb, 'w) Instance \<Rightarrow> ('f, 'cb, 'w) Instance \<Rightarrow> 'cb multiset \<Rightarrow> bool" where
  "progress s s' R \<equiv> registry_progress rt calls nested s s' R"

abbreviation asked :: "('cb \<times> 'f list) list \<Rightarrow> 'cb multiset" where
  "asked cs \<equiv> asked_by nested cs"

lemma progress_refl: "progress s s {#}"
  by (rule progressI [where new = "[]" and p = "[]" and q = "[]"]) simp_all

lemma progress_trans:
  assumes "progress s s1 R1" "progress s1 s2 R2"
  shows "progress s s2 (R1 + R2)"
proof -
  obtain n1 p1 q1 where 1: "in_features s1 = in_features s" "in_running s1 = in_running s" "called s1 = called s @ n1"
      "in_pendingResolutions s1 = in_pendingResolutions s @ p1" "in_pendingOptionalResolutions s1 = in_pendingOptionalResolutions s @ q1"
      "mset (map fst n1) + callbacks_of p1 + callbacks_of q1 = R1 + asked n1"
      "\<forall>c \<in> set n1. good_call rt (in_features s) c" "\<forall>r \<in> set (p1 @ q1). waiting rt (in_features s) r"
    using assms(1) by (rule progressE)
  obtain n2 p2 q2 where 2: "in_features s2 = in_features s1" "in_running s2 = in_running s1" "called s2 = called s1 @ n2"
      "in_pendingResolutions s2 = in_pendingResolutions s1 @ p2" "in_pendingOptionalResolutions s2 = in_pendingOptionalResolutions s1 @ q2"
      "mset (map fst n2) + callbacks_of p2 + callbacks_of q2 = R2 + asked n2"
      "\<forall>c \<in> set n2. good_call rt (in_features s1) c" "\<forall>r \<in> set (p2 @ q2). waiting rt (in_features s1) r"
    using assms(2) by (rule progressE)
  have "mset (map fst (n1 @ n2)) + callbacks_of (p1 @ p2) + callbacks_of (q1 @ q2)
      = (mset (map fst n1) + callbacks_of p1 + callbacks_of q1) + (mset (map fst n2) + callbacks_of p2 + callbacks_of q2)"
    by (simp add: ac_simps)
  also have "\<dots> = (R1 + R2) + asked (n1 @ n2)" unfolding 1(6) 2(6) by (simp add: ac_simps)
  finally show ?thesis using 1 2 by (intro progressI [where new = "n1 @ n2" and p = "p1 @ p2" and q = "q1 @ q2"]) auto
qed

lemma input_complete:
  assumes "rt_In rt cb = Some ins" "needs_met rt fs cb"
  shows "list_all2 (rt_AssignableTo rt) (callback_input rt fs ins) ins \<and> set (callback_input rt fs ins) \<subseteq> set fs"
proof -
  have "list_all (\<lambda>t. getFeature rt fs (PtrTo t) \<noteq> None) ins" using assms by (simp add: needs_met_def)
  then show ?thesis
  proof (induction ins)
    case (Cons t ts)
    then obtain f where "f \<in> set fs" "rt_Type rt f = PtrTo t" by (auto simp: getFeature_def find_None_iff)
    then have "List.find (\<lambda>f. rt_AssignableTo rt f t) fs \<noteq> None" using type_assignable by (auto simp: find_None_iff)
    then obtain g where g: "List.find (\<lambda>f. rt_AssignableTo rt f t) fs = Some g" by blast
    then have "rt_AssignableTo rt g t" "g \<in> set fs" by (auto simp: find_Some_iff)
    then show ?case using Cons g by (simp add: callback_input_def map_filter_simps)
  qed (simp add: callback_input_def map_filter_simps)
qed

lemma request_all_progress:
  assumes "\<And>c opt s. (c, opt) \<in> set reqs \<Longrightarrow> \<exists>e s'. RequireFeatures rt c opt s = Some (e, s') \<and> progress s s' {#c#}"
  shows "\<exists>s'. request_all rt reqs s = Some s' \<and> progress s s' (mset (map fst reqs))"
  using assms
proof (induction reqs arbitrary: s)
  case Nil
  then show ?case using progress_refl [of s] by simp
next
  case (Cons c reqs)
  obtain cb opt where c: "c = (cb, opt)" by (cases c)
  obtain e s1 where 1: "RequireFeatures rt cb opt s = Some (e, s1)" "progress s s1 {#cb#}" using Cons.prems [of cb opt s] c by auto
  obtain s2 where 2: "request_all rt reqs s1 = Some s2" "progress s1 s2 (mset (map fst reqs))" using Cons.IH [of s1] Cons.prems by auto
  show ?case using 1 2 progress_trans [OF 1(2) 2(2)] c by simp
qed

text \<open>A callback whose needs are met is called now, one of the others is queued.\<close>

lemma call_progress:
  assumes "rt_In rt cb = Some ins" "needs_met rt (in_features s) cb" "rs_callback r = cb"
    and reqs: "\<And>c opt s. (c, opt) \<in> set (nested cb) \<Longrightarrow> \<exists>e s'. RequireFeatures rt c opt s = Some (e, s') \<and> progress s s' {#c#}"
  shows "\<exists>e s'. callbackResolution rt r (in_features s) s = Some (e, s') \<and> progress s s' {#cb#}"
proof -
  define fs where "fs = callback_input rt (in_features s) ins"
  have inp: "list_all2 (rt_AssignableTo rt) fs ins" "set fs \<subseteq> set (in_features s)" using input_complete assms(1,2) fs_def by auto
  obtain w where w: "calls w = calls (in_world s) @ [(cb, fs)]"
      "\<And>s1. request_all rt (nested cb) (s\<lparr>in_world := w\<rparr>) = Some s1 \<Longrightarrow>
         \<exists>ret w'. calls w' = calls (in_world s1) \<and> rt_Call rt cb fs s = Some (ret, s1\<lparr>in_world := w'\<rparr>)"
    using call_effect [of s cb fs] by blast
  obtain s1 where s1: "request_all rt (nested cb) (s\<lparr>in_world := w\<rparr>) = Some s1" "progress (s\<lparr>in_world := w\<rparr>) s1 (mset (map fst (nested cb)))"
    using request_all_progress [OF reqs, where s = "s\<lparr>in_world := w\<rparr>"] by blast
  obtain ret w' where r: "calls w' = calls (in_world s1)" "rt_Call rt cb fs s = Some (ret, s1\<lparr>in_world := w'\<rparr>)" using w(2) [OF s1(1)] by blast
  obtain n p q where npq: "in_features s1 = in_features s" "in_running s1 = in_running s" "called s1 = called s @ (cb, fs) # n"
      "in_pendingResolutions s1 = in_pendingResolutions s @ p" "in_pendingOptionalResolutions s1 = in_pendingOptionalResolutions s @ q"
      "mset (map fst n) + callbacks_of p + callbacks_of q = mset (map fst (nested cb)) + asked n"
      "\<forall>c \<in> set n. good_call rt (in_features s) c" "\<forall>r \<in> set (p @ q). waiting rt (in_features s) r"
    using s1(2) w(1) by (auto elim!: progressE)
  have "good_call rt (in_features s) (cb, fs)" using inp assms(1,2) by (simp add: good_call_def)
  then have "progress s (s1\<lparr>in_world := w'\<rparr>) {#cb#}"
    using npq r(1) by (intro progressI [where new = "(cb, fs) # n" and p = p and q = q]) simp_all
  then show ?thesis using r(2) assms(1,3) inp(1) by (auto simp: callbackResolution_def Let_def fs_def [symmetric] dest: list_all2_lengthD)
qed

lemma queue_progress:
  assumes "resolution_ok rt r" "\<not> needs_met rt (in_features s) (rs_callback r)"
  shows "progress s (s\<lparr>in_pendingResolutions := in_pendingResolutions s @ [r]\<rparr>) {#rs_callback r#}"
    and "progress s (s\<lparr>in_pendingOptionalResolutions := in_pendingOptionalResolutions s @ [r]\<rparr>) {#rs_callback r#}"
  using assms by (intro progressI [where new = "[]" and p = "[r]" and q = "[]"] progressI [where new = "[]" and p = "[]" and q = "[r]"]; simp add: waiting_def)+

lemma RequireFeatures_progress:
  "rt_In rt cb \<noteq> None \<Longrightarrow> \<exists>e s'. RequireFeatures rt cb opt s = Some (e, s') \<and> progress s s' {#cb#}"
proof (induction "rank cb" arbitrary: cb opt s rule: less_induct)
  case less
  obtain ins where ins: "rt_In rt cb = Some ins" using less.prems by blast
  define r where "r = \<lparr>rs_deps = map PtrTo ins, rs_callback = cb\<rparr>"
  have ok: "resolution_ok rt r" "rs_callback r = cb" using ins by (simp_all add: r_def resolution_ok_def)
  have found: "foundAll rt (in_features s) r = needs_met rt (in_features s) cb" using foundAll_needs_met [OF ok(1)] ok(2) by simp
  have nest: "\<exists>e s'. RequireFeatures rt c opt s = Some (e, s') \<and> progress s s' {#c#}" if "(c, opt) \<in> set (nested cb)" for c opt s
    using less.hyps nested_rank nested_fun that by blast
  show ?case
  proof (cases "needs_met rt (in_features s) cb")
    case True
    then obtain e s' where "callbackResolution rt r (in_features s) s = Some (e, s')" "progress s s' {#cb#}"
      using call_progress [OF ins True ok(2)] nest by blast
    then show ?thesis using True found ins by (intro exI [of _ e] exI [of _ s']) (simp add: RequireFeatures_def r_def)
  next
    case False
    let ?s' = "if opt then s\<lparr>in_pendingOptionalResolutions := in_pendingOptionalResolutions s @ [r]\<rparr> else s\<lparr>in_pendingResolutions := in_pendingResolutions s @ [r]\<rparr>"
    have "progress s ?s' {#cb#}" using queue_progress [OF ok(1), of s] False ok(2) by (cases opt) (simp_all only: if_True if_False simp_thms)
    moreover have "RequireFeatures rt cb opt s = Some (None, ?s')" using False found ins by (simp add: RequireFeatures_def r_def Let_def)
    ultimately show ?thesis by blast
  qed
qed

lemma run_resolutions_progress:
  "\<forall>r \<in> set rs. resolution_ok rt r \<and> needs_met rt (in_features s) (rs_callback r) \<Longrightarrow>
   \<exists>e s'. run_resolutions rt rs err s = Some (e, s') \<and> progress s s' (callbacks_of rs)"
proof (induction rs arbitrary: err s)
  case Nil
  then show ?case using progress_refl [of s] by simp
next
  case (Cons r rs)
  obtain ins where ins: "rt_In rt (rs_callback r) = Some ins" using Cons.prems by (auto simp: resolution_ok_def split: option.splits)
  have nest: "\<exists>e s'. RequireFeatures rt c opt s = Some (e, s') \<and> progress s s' {#c#}" if "(c, opt) \<in> set (nested (rs_callback r))" for c opt s
    using RequireFeatures_progress nested_fun that by blast
  have met: "needs_met rt (in_features s) (rs_callback r)" using Cons.prems by simp
  obtain e s1 where 1: "callbackResolution rt r (in_features s) s = Some (e, s1)" "progress s s1 {#rs_callback r#}"
    using call_progress [OF ins met refl] nest by blast
  have "in_features s1 = in_features s" using 1(2) by (rule progressE)
  then obtain e' s2 where 2: "run_resolutions rt rs e s1 = Some (e', s2)" "progress s1 s2 (callbacks_of rs)"
    using Cons.IH [of s1 e] Cons.prems by auto
  show ?case using 1(1) 2(1) progress_trans [OF 1(2) 2(2)] by simp
qed

lemma AddFeature_inv:
  assumes inv: "registry_inv rt calls nested R s"
  shows "\<exists>e s'. AddFeature rt f s = Some (e, s') \<and> registry_inv rt calls nested R s'
           \<and> (\<not> in_running s \<longrightarrow> \<not> in_running s' \<and> in_features s' = in_features s @ [f])"
proof (cases "in_running s")
  case True
  then show ?thesis using start_effect [of f s] inv by (auto simp: AddFeature_def registry_inv_def)
next
  case False
  define fs where "fs = in_features s @ [f]"
  define av where "av = filter (foundAll rt fs) (in_pendingResolutions s) @ filter (foundAll rt fs) (in_pendingOptionalResolutions s)"
  define s1 where "s1 = s\<lparr>in_features := fs, in_pendingResolutions := filter (\<lambda>r. \<not> foundAll rt fs r) (in_pendingResolutions s),
      in_pendingOptionalResolutions := filter (\<lambda>r. \<not> foundAll rt fs r) (in_pendingOptionalResolutions s)\<rparr>"
  have ok: "\<forall>r \<in> set (in_pendingResolutions s @ in_pendingOptionalResolutions s). resolution_ok rt r" using inv by (auto simp: registry_inv_def waiting_def)
  then have "\<forall>r \<in> set av. resolution_ok rt r \<and> needs_met rt (in_features s1) (rs_callback r)"
    by (auto simp: av_def s1_def foundAll_needs_met)
  then obtain e s' where run: "run_resolutions rt av None s1 = Some (e, s')" "progress s1 s' (callbacks_of av)" using run_resolutions_progress by blast
  have "registry_inv rt calls nested R s'"
  proof (rule inv_progress [OF run(2)])
    show "\<forall>c \<in> set (called s1). good_call rt (in_features s1) c" using inv by (simp add: registry_inv_def s1_def fs_def good_call_append)
    show "\<forall>r \<in> set (in_pendingResolutions s1 @ in_pendingOptionalResolutions s1). waiting rt (in_features s1) r"
      using ok by (auto simp: s1_def waiting_def foundAll_needs_met)
    have "callbacks_of (in_pendingResolutions s1) + callbacks_of (in_pendingOptionalResolutions s1) + callbacks_of av
        = callbacks_of (in_pendingResolutions s) + callbacks_of (in_pendingOptionalResolutions s)"
      using callbacks_of_split [of "foundAll rt fs" "in_pendingResolutions s"] callbacks_of_split [of "foundAll rt fs" "in_pendingOptionalResolutions s"]
      by (simp add: av_def s1_def ac_simps)
    then show "mset (map fst (called s1)) + callbacks_of (in_pendingResolutions s1) + callbacks_of (in_pendingOptionalResolutions s1) + callbacks_of av
        = R + asked (called s1)"
      using inv by (simp add: registry_inv_def s1_def add.assoc)
  qed
  moreover have "AddFeature rt f s = Some (e, s')" using False run(1) by (simp add: AddFeature_def Let_def av_def s1_def fs_def)
  moreover have "in_features s' = fs" "\<not> in_running s'" using run(2) False by (auto elim!: progressE simp: s1_def)
  ultimately show ?thesis by (auto simp: fs_def)
qed

lemma RequireFeatures_inv:
  assumes "registry_inv rt calls nested R s" "rt_In rt cb \<noteq> None"
  shows "\<exists>e s'. RequireFeatures rt cb opt s = Some (e, s') \<and> registry_inv rt calls nested (add_mset cb R) s'"
proof -
  obtain e s' where 1: "RequireFeatures rt cb opt s = Some (e, s')" "progress s s' {#cb#}" using RequireFeatures_progress [OF assms(2)] by blast
  have "registry_inv rt calls nested (add_mset cb R) s'" using assms(1) by (intro inv_progress [OF 1(2)]) (simp_all add: registry_inv_def)
  then show ?thesis using 1 by blast
qed

lemma registry_run_inv:
  "registry_inv rt calls nested R s \<Longrightarrow> \<forall>cb \<in> set (requested ops). rt_In rt cb \<noteq> None \<Longrightarrow>
   \<exists>s'. registry_run rt ops s = Some s' \<and> registry_inv rt calls nested (R + mset (requested ops)) s'"
proof (induction ops arbitrary: R s)
  case (Cons x ops)
  show ?case
  proof (cases x)
    case (Require cb opt)
    then have "rt_In rt cb \<noteq> None" using Cons.prems(2) by (simp add: requested_def map_filter_simps)
    then obtain e s1 where 1: "RequireFeatures rt cb opt s = Some (e, s1)" "registry_inv rt calls nested (add_mset cb R) s1"
      using RequireFeatures_inv [OF Cons.prems(1)] by blast
    show ?thesis using 1(1) Cons.IH [OF 1(2)] Cons.prems(2) Require by (auto simp: requested_def map_filter_simps)
  next
    case (Register f)
    then obtain e s1 where 1: "AddFeature rt f s = Some (e, s1)" "registry_inv rt calls nested R s1" using AddFeature_inv [OF Cons.prems(1)] by blast
    show ?thesis using 1(1) Cons.IH [OF 1(2)] Cons.prems(2) Register by (auto simp: requested_def map_filter_simps)
  qed
qed (simp add: requested_def map_filter_simps)

lemma inv_empty: "calls w = [] \<Longrightarrow> registry_inv rt calls nested {#} (empty_instance w)"
  by (simp add: registry_inv_def empty_instance_def)

lemma inv_count:
  assumes "registry_inv rt calls nested R s"
  shows "count (mset (map fst (called s))) cb = (if needs_met rt (in_features s) cb then count (R + asked (called s)) cb else 0)"
proof (cases "needs_met rt (in_features s) cb")
  case True
  then have "count (callbacks_of (in_pendingResolutions s)) cb = 0" "count (callbacks_of (in_pendingOptionalResolutions s)) cb = 0"
    using assms by (auto simp: registry_inv_def waiting_def callbacks_of_def count_eq_zero_iff)
  then show ?thesis using assms True unfolding registry_inv_def by (metis (no_types, lifting) add.right_neutral count_union)
next
  case False
  then have "cb \<notin> fst ` set (called s)" using assms by (auto simp: registry_inv_def good_call_def)
  then show ?thesis using False by (simp add: count_eq_zero_iff del: mset_map)
qed

lemma run_counts:
  assumes "calls w = []" "list_all (\<lambda>cb. rt_In rt cb \<noteq> None) (requested ops)"
  shows "\<exists>s. registry_run rt ops (empty_instance w) = Some s
     \<and> (\<forall>cb. count (mset (map fst (called s))) cb = (if needs_met rt (in_features s) cb then count (mset (requested ops) + asked (called s)) cb else 0))
     \<and> list_all (good_call rt (in_features s)) (called s)"
proof -
  obtain s where s: "registry_run rt ops (empty_instance w) = Some s" "registry_inv rt calls nested (mset (requested ops)) s"
    using registry_run_inv [OF inv_empty [OF assms(1)], of ops] assms(2) by (auto simp: list_all_iff)
  then show ?thesis using inv_count [OF s(2)] by (auto simp: registry_inv_def list_all_iff)
qed

end

section \<open>The callbacks of the sources\<close>

text \<open>
  The functions given to \<open>RequireFeatures\<close> and \<open>OptionalFeatures\<close> in the sources, by the file that makes the request, and their parameters.
  The dispatcher asks for the FakeDNS engine from within its own callback.
\<close>

datatype app_callback = ReverseInit | DispatcherInit | DispatcherFakeDNS | MuxServerDispatcher | FreedomInit | VlessDNS

definition dns_FakeDNSEngine :: gotype where "dns_FakeDNSEngine = Named ''dns.FakeDNSEngine''"

fun callback_In :: "app_callback \<Rightarrow> gotype list" where
  "callback_In ReverseInit = [routing_Dispatcher, outbound_Manager]"
| "callback_In DispatcherInit = [outbound_Manager, routing_Router, policy_Manager, stats_Manager, dns_Client]"
| "callback_In DispatcherFakeDNS = [dns_FakeDNSEngine]"
| "callback_In MuxServerDispatcher = [routing_Dispatcher]"
| "callback_In FreedomInit = [policy_Manager]"
| "callback_In VlessDNS = [dns_Client]"

fun callback_nested :: "app_callback \<Rightarrow> (app_callback \<times> bool) list" where
  "callback_nested DispatcherInit = [(DispatcherFakeDNS, True)]"
| "callback_nested _ = []"

text \<open>Those of type \<open>func(...) error\<close> return what \<open>Init\<close> does, an argument here; the others return nothing or nil.\<close>

fun callback_ret :: "(app_callback \<Rightarrow> goerr option) \<Rightarrow> app_callback \<Rightarrow> retval list" where
  "callback_ret init VlessDNS = [ErrorValue None]"
| "callback_ret init DispatcherFakeDNS = []"
| "callback_ret init MuxServerDispatcher = []"
| "callback_ret init cb = [ErrorValue (init cb)]"

text \<open>A feature: the type it is registered as, the other interfaces it implements, and what \<open>Start\<close> and \<open>Close\<close> return. The world holds the log of the calls and the two managers of handlers.\<close>

record app_feature =
  af_Type :: gotype
  af_implements :: "gotype list"
  af_Start :: "goerr option"
  af_Close :: "goerr option"

record app_log =
  al_calls :: "(app_callback \<times> app_feature list) list"
  al_started :: "app_feature list"
  al_closed :: "app_feature list"
  al_inbound :: Inbound_manager
  al_outbound :: Manager

type_synonym app_instance = "(app_feature, app_callback, app_log) Instance"

definition log_call :: "app_callback \<Rightarrow> app_feature list \<Rightarrow> app_instance \<Rightarrow> app_instance" where
  "log_call cb fs s = s\<lparr>in_world := (in_world s)\<lparr>al_calls := al_calls (in_world s) @ [(cb, fs)]\<rparr>\<rparr>"

definition base_runtime :: "(app_callback \<Rightarrow> goerr option) \<Rightarrow> (app_feature, app_callback, app_log) runtime" where
  "base_runtime init =
     \<lparr>rt_Type = af_Type, rt_AssignableTo = (\<lambda>f t. af_Type f = PtrTo t \<or> t \<in> set (af_implements f)), rt_In = (\<lambda>cb. Some (callback_In cb)),
      rt_Call = (\<lambda>cb fs s. Some (callback_ret init cb, log_call cb fs s)),
      rt_Start = (\<lambda>f s. (af_Start f, s\<lparr>in_world := (in_world s)\<lparr>al_started := al_started (in_world s) @ [f]\<rparr>\<rparr>)),
      rt_Close = (\<lambda>f s. (af_Close f, s\<lparr>in_world := (in_world s)\<lparr>al_closed := al_closed (in_world s) @ [f]\<rparr>\<rparr>))\<rparr>"

definition app_Call ::
  "(app_callback \<Rightarrow> goerr option) \<Rightarrow> app_callback \<Rightarrow> app_feature list \<Rightarrow> app_instance \<Rightarrow> (retval list \<times> app_instance) option" where
  "app_Call init cb fs s =
     (if cb = DispatcherInit
      then (case RequireFeatures (base_runtime init) DispatcherFakeDNS True (log_call cb fs s) of
              None \<Rightarrow> None | Some (_, s1) \<Rightarrow> Some (callback_ret init cb, s1))
      else rt_Call (base_runtime init) cb fs s)"

definition app_runtime :: "(app_callback \<Rightarrow> goerr option) \<Rightarrow> (app_feature, app_callback, app_log) runtime" where
  "app_runtime init = (base_runtime init)\<lparr>rt_Call := app_Call init\<rparr>"

lemma app_runtime_sel [simp]:
  "rt_Type (app_runtime init) = af_Type" "rt_In (app_runtime init) cb = Some (callback_In cb)" "rt_Call (app_runtime init) = app_Call init"
  "rt_AssignableTo (app_runtime init) = (\<lambda>f t. af_Type f = PtrTo t \<or> t \<in> set (af_implements f))"
  "rt_Start (app_runtime init) = (\<lambda>f s. (af_Start f, s\<lparr>in_world := (in_world s)\<lparr>al_started := al_started (in_world s) @ [f]\<rparr>\<rparr>))"
  "rt_Close (app_runtime init) = (\<lambda>f s. (af_Close f, s\<lparr>in_world := (in_world s)\<lparr>al_closed := al_closed (in_world s) @ [f]\<rparr>\<rparr>))"
  by (simp_all add: app_runtime_def base_runtime_def)

lemma app_runtime_nested: "RequireFeatures (app_runtime init) DispatcherFakeDNS opt s = RequireFeatures (base_runtime init) DispatcherFakeDNS opt s"
  by (simp add: RequireFeatures_def callbackResolution_def app_runtime_def app_Call_def base_runtime_def foundAll_def getFeature_def callback_input_def Let_def)

interpretation app: feature_registry "app_runtime init" al_calls callback_nested "\<lambda>cb. if cb = DispatcherInit then 1 else 0" for init
proof (unfold_locales, goal_cases)
  case (2 s cb fs)
  let ?w = "(in_world s)\<lparr>al_calls := al_calls (in_world s) @ [(cb, fs)]\<rparr>"
  show ?case
  proof (intro exI [of _ ?w] conjI allI impI)
    fix s1
    assume "request_all (app_runtime init) (callback_nested cb) (s\<lparr>in_world := ?w\<rparr>) = Some s1"
    then have "rt_Call (app_runtime init) cb fs s = Some (callback_ret init cb, s1)"
      by (cases cb) (auto simp: app_Call_def app_runtime_nested log_call_def base_runtime_def split: option.splits)
    then show "\<exists>ret w'. al_calls w' = al_calls (in_world s1) \<and> rt_Call (app_runtime init) cb fs s = Some (ret, s1\<lparr>in_world := w'\<rparr>)"
      by (intro exI [of _ "callback_ret init cb"] exI [of _ "in_world s1"]) simp
  qed simp
next
  case (3 c opt cb)
  then show ?case by (cases cb) auto
next
  case (5 f s)
  show ?case by (intro exI [of _ "(in_world s)\<lparr>al_started := al_started (in_world s) @ [f]\<rparr>"]) simp
qed simp_all

text \<open>
  C21. A callback given to \<open>RequireFeatures\<close> runs exactly once for each request, and it runs when all the features that its parameters name are registered: after any
  sequence of requests and registrations a callback whose features are all there has been called as often as it was asked for (by the sequence or by
  the callbacks called), one whose features are not has not been called, and every call got a registered feature for each parameter.
\<close>

theorem callbacks_run_once:
  assumes "feature_registry rt calls nested rank" "calls w = []" "list_all (\<lambda>cb. rt_In rt cb \<noteq> None) (requested ops)"
  shows "\<exists>s. registry_run rt ops (empty_instance w) = Some s
     \<and> (\<forall>cb. count (mset (map fst (calls (in_world s)))) cb
           = (if needs_met rt (in_features s) cb then count (mset (requested ops) + asked_by nested (calls (in_world s))) cb else 0))
     \<and> list_all (good_call rt (in_features s)) (calls (in_world s))"
  by (rule feature_registry.run_counts [OF assms])

text \<open>The features of a usual configuration.\<close>

definition app_feature_of :: "gotype \<Rightarrow> app_feature" where
  "app_feature_of t = \<lparr>af_Type = PtrTo t, af_implements = [], af_Start = None, af_Close = None\<rparr>"

definition empty_log :: app_log where
  "empty_log = \<lparr>al_calls = [], al_started = [], al_closed = [], al_inbound = IM_New, al_outbound = OM_New\<rparr>"

text \<open>The dispatcher comes first and waits for the outbound manager and the default features; the FakeDNS engine never comes.\<close>

definition usual_ops :: "(app_feature, app_callback) registry_op list" where
  "usual_ops = [Require DispatcherInit False, Register (app_feature_of routing_Dispatcher), Register (app_feature_of outbound_Manager), Require ReverseInit False,
     Register (app_feature_of dns_Client), Register (app_feature_of policy_Manager), Register (app_feature_of routing_Router), Register (app_feature_of stats_Manager)]"

lemmas registry_eval = registry_run.simps AddFeature_def RequireFeatures_def callbackResolution_def foundAll_def getFeature_def callback_input_def
  map_filter_simps app_Call_def log_call_def base_runtime_def app_feature_of_def feature_type_defs dns_FakeDNSEngine_def empty_instance_def empty_log_def Let_def

theorem callbacks_run_once_witness:
  "\<exists>s. registry_run (app_runtime (\<lambda>_. None)) usual_ops (empty_instance empty_log) = Some s
     \<and> count (mset (map fst (al_calls (in_world s)))) DispatcherInit = (if needs_met (app_runtime (\<lambda>_. None)) (in_features s) DispatcherInit then 1 else 0)"
proof -
  have "list_all (\<lambda>cb. rt_In (app_runtime (\<lambda>_. None)) cb \<noteq> None) (requested usual_ops)" by (simp add: list_all_iff)
  with callbacks_run_once [OF app.feature_registry_axioms [of "\<lambda>_. None"], of empty_log usual_ops]
  obtain s where s: "registry_run (app_runtime (\<lambda>_. None)) usual_ops (empty_instance empty_log) = Some s"
     "count (mset (map fst (al_calls (in_world s)))) DispatcherInit = (if needs_met (app_runtime (\<lambda>_. None)) (in_features s) DispatcherInit
         then count (mset (requested usual_ops) + asked_by callback_nested (al_calls (in_world s))) DispatcherInit else 0)"
    by (auto simp: empty_log_def)
  have "DispatcherInit \<notin># asked_by callback_nested cs" for cs :: "(app_callback \<times> app_feature list) list"
  proof (induction cs)
    case (Cons c cs)
    then show ?case by (cases "fst c") auto
  qed simp
  then have "count (mset (requested usual_ops) + asked_by callback_nested (al_calls (in_world s))) DispatcherInit = 1"
    by (simp add: requested_def usual_ops_def map_filter_simps count_eq_zero_iff)
  with s show ?thesis by (intro exI [of _ s]) simp
qed

lemma usual_ops_calls:
  "map_option (\<lambda>s. map fst (al_calls (in_world s))) (registry_run (app_runtime (\<lambda>_. None)) usual_ops (empty_instance empty_log)) = Some [ReverseInit, DispatcherInit]"
  by (simp add: usual_ops_def registry_eval)

section \<open>The constructors of the sources\<close>

text \<open>
  What the registered constructors of \<open>app/dispatcher\<close>, \<open>app/reverse\<close> and \<open>app/proxyman\<close> do with the instance, for an inbound that serves VLESS and an outbound
  that is freedom: the proxy asks for its features, and the inbound's Mux server for the dispatcher, ignoring the result.
\<close>

datatype app_config = DispatcherConfig | ReverseConfig | InboundConfig | OutboundConfig | InboundHandlerConfig gostring | OutboundHandlerConfig gostring

datatype app_object = FeatureObject app_feature | InboundObject Handler | OutboundObject Handler

definition required :: "(app_callback \<Rightarrow> goerr option) \<Rightarrow> app_callback \<Rightarrow> app_object \<Rightarrow> app_instance \<Rightarrow> ((goerr + app_object) \<times> app_instance) option" where
  "required init cb obj s =
     (case RequireFeatures (app_runtime init) cb False s of None \<Rightarrow> None
      | Some (Some err, s1) \<Rightarrow> Some (Inl err, s1)
      | Some (None, s1) \<Rightarrow> Some (Inr obj, s1))"

fun app_create :: "(app_callback \<Rightarrow> goerr option) \<Rightarrow> app_config \<Rightarrow> app_instance \<Rightarrow> ((goerr + app_object) \<times> app_instance) option" where
  "app_create init DispatcherConfig s = required init DispatcherInit (FeatureObject (app_feature_of routing_Dispatcher)) s"
| "app_create init ReverseConfig s = required init ReverseInit (FeatureObject (app_feature_of (Named ''reverse.Reverse''))) s"
| "app_create init InboundConfig s = Some (Inr (FeatureObject (app_feature_of inbound_Manager)), s)"
| "app_create init OutboundConfig s = Some (Inr (FeatureObject (app_feature_of outbound_Manager)), s)"
| "app_create init (InboundHandlerConfig tag) s =
     (case required init VlessDNS (InboundObject \<lparr>h_id = 0, h_Tag = tag\<rparr>) s of
        Some (Inr obj, s1) \<Rightarrow>
          (case RequireFeatures (app_runtime init) MuxServerDispatcher False s1 of None \<Rightarrow> None | Some (_, s2) \<Rightarrow> Some (Inr obj, s2))
      | res \<Rightarrow> res)"
| "app_create init (OutboundHandlerConfig tag) s = required init FreedomInit (OutboundObject \<lparr>h_id = 0, h_Tag = tag\<rparr>) s"

fun app_TypeOf :: "app_config \<Rightarrow> gotype" where
  "app_TypeOf DispatcherConfig = PtrTo (Named ''dispatcher.Config'')"
| "app_TypeOf ReverseConfig = PtrTo (Named ''reverse.Config'')"
| "app_TypeOf InboundConfig = PtrTo (Named ''proxyman.InboundConfig'')"
| "app_TypeOf OutboundConfig = PtrTo (Named ''proxyman.OutboundConfig'')"
| "app_TypeOf (InboundHandlerConfig _) = PtrTo (Named ''core.InboundHandlerConfig'')"
| "app_TypeOf (OutboundHandlerConfig _) = PtrTo (Named ''core.OutboundHandlerConfig'')"

definition app_registry :: "(app_callback \<Rightarrow> goerr option) \<Rightarrow> (gotype \<times> (app_config, app_object, app_feature, app_callback, app_log) ConfigCreator) list" where
  "app_registry init =
     map (\<lambda>c. (app_TypeOf c, app_create init)) [DispatcherConfig, ReverseConfig, InboundConfig, OutboundConfig, InboundHandlerConfig [], OutboundHandlerConfig []]"

definition app_builder ::
  "(app_callback \<Rightarrow> goerr option) \<Rightarrow> (app_config, app_config, app_object, Handler, app_feature, app_callback, app_log) builder" where
  "app_builder init =
     \<lparr>bd_TypeOf = app_TypeOf, bd_registry = app_registry init, bd_GetInstance = Inr,
      bd_asFeature = (\<lambda>x. case x of FeatureObject f \<Rightarrow> Some f | _ \<Rightarrow> None), bd_asInbound = (\<lambda>x. case x of InboundObject h \<Rightarrow> Some h | _ \<Rightarrow> None),
      bd_asOutbound = (\<lambda>x. case x of OutboundObject h \<Rightarrow> Some h | _ \<Rightarrow> None),
      bd_localdns = app_feature_of dns_Client, bd_DefaultManager = app_feature_of policy_Manager, bd_DefaultRouter = app_feature_of routing_Router,
      bd_NoopManager = app_feature_of stats_Manager,
      bd_AddInbound = (\<lambda>m h s. let (err, im) = IM_AddHandler (\<lambda>_. None) (al_inbound (in_world s)) h in (err, s\<lparr>in_world := (in_world s)\<lparr>al_inbound := im\<rparr>\<rparr>)),
      bd_AddOutbound = (\<lambda>m h s. let (err, om) = AddHandler (\<lambda>_. None) (al_outbound (in_world s)) h in (err, s\<lparr>in_world := (in_world s)\<lparr>al_outbound := om\<rparr>\<rparr>))\<rparr>"

section \<open>Construction is complete\<close>

text \<open>The registry only grows, and nothing starts.\<close>

definition registry_sound ::
  "('f, 'cb, 'w) runtime \<Rightarrow> ('w \<Rightarrow> ('cb \<times> 'f list) list) \<Rightarrow> ('cb \<Rightarrow> ('cb \<times> bool) list) \<Rightarrow> 'f list \<Rightarrow> ('f, 'cb, 'w) Instance \<Rightarrow> bool" where
  "registry_sound rt calls nested fs s \<longleftrightarrow> (\<exists>R. registry_inv rt calls nested R s) \<and> \<not> in_running s \<and> prefix fs (in_features s)"

lemma add_each_invariant:
  assumes "\<And>x s e s'. I s \<Longrightarrow> step x s = Some (e, s') \<Longrightarrow> I s'"
  shows "I s \<Longrightarrow> add_each step xs s = Some (e, s') \<Longrightarrow> I s'"
proof (induction xs arbitrary: s)
  case (Cons x xs)
  then obtain e1 s1 where s1: "step x s = Some (e1, s1)" by (auto split: option.splits)
  have "I s1" using assms [OF Cons.prems(1) s1] .
  then show ?case using Cons.IH [of s1] Cons.prems(2) s1 by (cases e1) auto
qed simp

text \<open>
  What construction relies on: constructors use the instance only to make requests, \<open>AddHandler\<close> of a manager leaves the registry alone, and the
  default features have the types that they stand for.
\<close>

locale instance_builder = feature_registry rt calls nested rank
  for rt :: "('f, 'cb, 'w) runtime" and calls :: "'w \<Rightarrow> ('cb \<times> 'f list) list" and nested :: "'cb \<Rightarrow> ('cb \<times> bool) list" and rank :: "'cb \<Rightarrow> nat" +
  fixes bd :: "('msg, 'cfg, 'obj, 'h, 'f, 'cb, 'w) builder"
  assumes creator_requests: "map_of (bd_registry bd) t = Some creator \<Longrightarrow> creator cfg s = Some (res, s') \<Longrightarrow> \<exists>R. registry_progress rt calls nested s s' R"
    and inbound_keeps: "bd_AddInbound bd m h s = (e, s') \<Longrightarrow> registry_progress rt calls nested s s' {#}"
    and outbound_keeps: "bd_AddOutbound bd m h s = (e, s') \<Longrightarrow> registry_progress rt calls nested s s' {#}"
    and default_types: "rt_Type rt (bd_localdns bd) = PtrTo dns_Client" "rt_Type rt (bd_DefaultManager bd) = PtrTo policy_Manager"
      "rt_Type rt (bd_DefaultRouter bd) = PtrTo routing_Router" "rt_Type rt (bd_NoopManager bd) = PtrTo stats_Manager"
begin

lemma CreateObject_progress: "CreateObject bd cfg s = Some (res, s') \<Longrightarrow> \<exists>R. progress s s' R"
  using creator_requests progress_refl [of s] by (fastforce simp: CreateObject_def split: option.splits)

abbreviation sound :: "'f list \<Rightarrow> ('f, 'cb, 'w) Instance \<Rightarrow> bool" where
  "sound fs s \<equiv> registry_sound rt calls nested fs s"

lemma progress_sound:
  assumes "sound fs s" "progress s s' R"
  shows "sound fs s'"
proof -
  obtain R0 where "registry_inv rt calls nested R0 s" using assms(1) by (auto simp: registry_sound_def)
  then have "registry_inv rt calls nested (R0 + R) s'" using assms(2) by (intro inv_progress [OF assms(2)]) (simp_all add: registry_inv_def)
  moreover have "in_features s' = in_features s" "in_running s' = in_running s" using assms(2) by (auto elim: progressE)
  ultimately show ?thesis using assms(1) by (auto simp: registry_sound_def)
qed

lemma AddFeature_sound:
  assumes "sound fs s" "AddFeature rt f s = Some (e, s')"
  shows "sound fs s'" "in_features s' = in_features s @ [f]"
  using assms AddFeature_inv [of _ s f] by (fastforce simp: registry_sound_def)+

lemma add_app_sound: "sound fs s \<Longrightarrow> add_app rt bd app s = Some (e, s') \<Longrightarrow> sound fs s'"
proof -
  assume sd: "sound fs s" and app: "add_app rt bd app s = Some (e, s')"
  show ?thesis
  proof (cases "bd_GetInstance bd app")
    case (Inr settings)
    then obtain res s1 where c: "CreateObject bd settings s = Some (res, s1)" using app by (auto simp: add_app_def split: option.splits)
    have s1: "sound fs s1" using CreateObject_progress [OF c] progress_sound [OF sd] by blast
    show ?thesis using app Inr c s1 AddFeature_sound(1) [OF s1] by (auto simp: add_app_def split: sum.splits option.splits)
  qed (use sd app in \<open>auto simp: add_app_def\<close>)
qed

lemma GetFeature_sound: "sound fs s \<Longrightarrow> getFeature rt fs t \<noteq> None \<Longrightarrow> GetFeature rt s t \<noteq> None"
  using getFeature_append by (fastforce simp: registry_sound_def GetFeature_def prefix_def)

lemma sound_here: "sound fs s \<Longrightarrow> sound (in_features s) s"
  by (auto simp: registry_sound_def)

lemma sound_trans: "sound fs s \<Longrightarrow> sound (in_features s) s' \<Longrightarrow> sound fs s'"
  by (auto simp: registry_sound_def)

lemma add_essential_sound:
  assumes "sound fs s" "add_essential rt f s = Some (e, s')" "rt_Type rt (snd f) = fst f"
  shows "sound (in_features s) s' \<and> GetFeature rt s' (fst f) \<noteq> None"
proof (cases "GetFeature rt s (fst f) = None")
  case True
  then have add: "AddFeature rt (snd f) s = Some (e, s')" using assms(2) by (simp add: add_essential_def)
  note a = AddFeature_sound [OF sound_here [OF assms(1)] add]
  have "snd f \<in> set (in_features s')" using a(2) by simp
  then have "GetFeature rt s' (fst f) \<noteq> None" using assms(3) by (auto simp: GetFeature_def getFeature_def find_None_iff)
  then show ?thesis using a(1) by blast
next
  case False
  then show ?thesis using assms(2) sound_here [OF assms(1)] by (auto simp: add_essential_def)
qed

lemma add_essentials_sound:
  assumes "sound fs s" "list_all (\<lambda>f. rt_Type rt (snd f) = fst f) es" "add_each (add_essential rt) es s = Some (None, s')"
  shows "sound (in_features s) s' \<and> list_all (\<lambda>f. GetFeature rt s' (fst f) \<noteq> None) es"
  using assms
proof (induction es arbitrary: fs s)
  case (Cons f es)
  then obtain s1 where s1: "add_essential rt f s = Some (None, s1)" "add_each (add_essential rt) es s1 = Some (None, s')"
    by (auto split: option.splits prod.splits)
  have f: "rt_Type rt (snd f) = fst f" using Cons.prems(2) by simp
  have e: "sound (in_features s) s1" "GetFeature rt s1 (fst f) \<noteq> None" using add_essential_sound [OF Cons.prems(1) s1(1) f] by auto
  have ih: "sound (in_features s1) s'" "list_all (\<lambda>f. GetFeature rt s' (fst f) \<noteq> None) es" using Cons.IH [OF e(1) _ s1(2)] Cons.prems(2) by auto
  have "GetFeature rt s' (fst f) \<noteq> None" using GetFeature_sound [OF ih(1)] e(2) by (simp add: GetFeature_def)
  then show ?case using ih(2) sound_trans [OF e(1) ih(1)] by simp
qed (auto simp: sound_here)

text \<open>Handlers are added after the features: they make requests, and no features.\<close>

lemma handler_progress:
  "AddInboundHandler rt bd s c = Some (e, s') \<Longrightarrow> \<exists>R. progress s s' R" "AddOutboundHandler rt bd s c = Some (e, s') \<Longrightarrow> \<exists>R. progress s s' R"
proof -
  assume h: "AddInboundHandler rt bd s c = Some (e, s')"
  then obtain m res s1 where c: "CreateObject bd c s = Some (res, s1)" "s' = s1 \<or> (\<exists>h. bd_AddInbound bd m h s1 = (e, s'))"
    by (auto simp: AddInboundHandler_def split: option.splits if_splits sum.splits prod.splits)
  obtain R where R: "progress s s1 R" using CreateObject_progress [OF c(1)] by blast
  show "\<exists>R. progress s s' R" using c(2) R inbound_keeps progress_trans [OF R] by blast
next
  assume h: "AddOutboundHandler rt bd s c = Some (e, s')"
  then obtain m res s1 where c: "CreateObject bd c s = Some (res, s1)" "s' = s1 \<or> (\<exists>h. bd_AddOutbound bd m h s1 = (e, s'))"
    by (auto simp: AddOutboundHandler_def split: option.splits if_splits sum.splits prod.splits)
  obtain R where R: "progress s s1 R" using CreateObject_progress [OF c(1)] by blast
  show "\<exists>R. progress s s' R" using c(2) R outbound_keeps progress_trans [OF R] by blast
qed

lemma handlers_sound:
  assumes "sound fs s" "in_features s = fs"
  shows "addInboundHandlers rt bd cs s = Some (e, s') \<Longrightarrow> sound fs s' \<and> in_features s' = fs"
    and "addOutboundHandlers rt bd cs s = Some (e, s') \<Longrightarrow> sound fs s' \<and> in_features s' = fs"
proof -
  have step: "sound fs s' \<and> in_features s' = fs" if "progress s s' R" "sound fs s \<and> in_features s = fs" for s s' R
    using that progress_sound [of fs s s' R] by (auto elim: progressE)
  show "sound fs s' \<and> in_features s' = fs" if "addInboundHandlers rt bd cs s = Some (e, s')"
    using add_each_invariant [of "\<lambda>s. sound fs s \<and> in_features s = fs" "\<lambda>c s. AddInboundHandler rt bd s c"] handler_progress(1) step assms that
    unfolding addInboundHandlers_def by blast
  show "sound fs s' \<and> in_features s' = fs" if "addOutboundHandlers rt bd cs s = Some (e, s')"
    using add_each_invariant [of "\<lambda>s. sound fs s \<and> in_features s = fs" "\<lambda>c s. AddOutboundHandler rt bd s c"] handler_progress(2) step assms that
    unfolding addOutboundHandlers_def by blast
qed

lemma init_features_sound:
  assumes "calls w = []" "init_features rt bd cone config (empty_instance w) = Some (None, s1)"
  shows "sound [] s1 \<and> list_all (\<lambda>t. GetFeature rt s1 (PtrTo t) \<noteq> None) [dns_Client, policy_Manager, routing_Router, stats_Manager]"
proof -
  define s0 where "s0 = (empty_instance w :: ('f, 'cb, 'w) Instance)\<lparr>in_cone := Some (cone \<noteq> str ''true'')\<rparr>"
  have "registry_inv rt calls nested {#} s0" using inv_empty [OF assms(1)] by (simp add: s0_def registry_inv_def)
  then have s0: "sound [] s0" by (auto simp: registry_sound_def s0_def empty_instance_def)
  obtain s where s: "add_each (add_app rt bd) (cfg_App config) s0 = Some (None, s)" "add_each (add_essential rt) (essentialFeatures bd) s = Some (None, s1)"
    using assms(2) by (auto simp: init_features_def s0_def split: option.splits prod.splits)
  have sd: "sound [] s" using add_each_invariant [of "sound []" "add_app rt bd"] add_app_sound s0 s(1) by blast
  have "list_all (\<lambda>f. rt_Type rt (snd f) = fst f) (essentialFeatures bd)" by (simp add: essentialFeatures_def default_types)
  then show ?thesis using add_essentials_sound [OF sd _ s(2)] sound_trans [OF sd] by (simp add: essentialFeatures_def)
qed

lemma New_complete:
  assumes "calls w = []" "Instance_New rt bd cone config w = Some (Inr s)"
  shows "\<not> in_running s \<and> list_all (\<lambda>t. GetFeature rt s (PtrTo t) \<noteq> None) [dns_Client, policy_Manager, routing_Router, stats_Manager]
     \<and> list_all (waiting rt (in_features s)) (in_pendingResolutions s)
     \<and> (\<exists>s1. init_features rt bd cone config (empty_instance w) = Some (None, s1) \<and> in_features s = in_features s1 \<and> in_pendingResolutions s1 = [])"
proof -
  obtain s1 dc om s3 where 1: "init_features rt bd cone config (empty_instance w) = Some (None, s1)" "in_pendingResolutions (InitSystemDialer dc om s1) = []"
      "addInboundHandlers rt bd (cfg_Inbound config) (InitSystemDialer dc om s1) = Some (None, s3)"
      "addOutboundHandlers rt bd (cfg_Outbound config) s3 = Some (None, s)"
    using assms(2) by (auto simp: Instance_New_def initInstanceWithConfig_def Let_def split: option.splits prod.splits if_splits)
  note f = init_features_sound [OF assms(1) 1(1)]
  have "sound (in_features s1) (InitSystemDialer dc om s1)" "in_features (InitSystemDialer dc om s1) = in_features s1"
    using f by (auto simp: registry_sound_def InitSystemDialer_def registry_inv_def)
  then have 3: "sound (in_features s1) s3" "in_features s3 = in_features s1" using handlers_sound(1) 1(3) by blast+
  have s: "sound (in_features s1) s" "in_features s = in_features s1" using handlers_sound(2) [OF 3 1(4)] by blast+
  then show ?thesis using f 1(1,2) by (auto simp: registry_sound_def registry_inv_def list_all_iff GetFeature_def InitSystemDialer_def)
qed

end

lemma required_progress: "required init cb obj s = Some (res, s') \<Longrightarrow> \<exists>R. registry_progress (app_runtime init) al_calls callback_nested s s' R"
  using app.RequireFeatures_progress [of init cb False s] by (auto simp: required_def split: option.splits)

lemma app_create_progress: "app_create init cfg s = Some (res, s') \<Longrightarrow> \<exists>R. registry_progress (app_runtime init) al_calls callback_nested s s' R"
proof (cases cfg)
  case (InboundHandlerConfig tag)
  assume c: "app_create init cfg s = Some (res, s')"
  obtain r1 s1 where r1: "required init VlessDNS (InboundObject \<lparr>h_id = 0, h_Tag = tag\<rparr>) s = Some (r1, s1)"
    using c InboundHandlerConfig by (auto split: option.splits)
  obtain R1 where R1: "registry_progress (app_runtime init) al_calls callback_nested s s1 R1" using required_progress [OF r1] by blast
  obtain e s2 where 2: "RequireFeatures (app_runtime init) MuxServerDispatcher False s1 = Some (e, s2)"
      "registry_progress (app_runtime init) al_calls callback_nested s1 s2 {#MuxServerDispatcher#}"
    using app.RequireFeatures_progress [of init MuxServerDispatcher False s1] by auto
  show ?thesis using c InboundHandlerConfig r1 2(1) R1 app.progress_trans [OF R1 2(2)] by (cases r1) auto
qed (use app.progress_refl [of init s] required_progress in \<open>auto\<close>)

interpretation app_new: instance_builder "app_runtime init" al_calls callback_nested "\<lambda>cb. if cb = DispatcherInit then 1 else 0" "app_builder init" for init
proof (unfold_locales, goal_cases)
  case (1 t creator cfg s res s')
  then have "creator = app_create init" by (auto simp: app_builder_def app_registry_def split: if_splits)
  then show ?case using 1(2) app_create_progress by blast
next
  case (2 m h s e s')
  then show ?case by (auto simp: app_builder_def split: prod.splits intro!: progressI [where new = "[]" and p = "[]" and q = "[]"])
next
  case (3 m h s e s')
  then show ?case by (auto simp: app_builder_def split: prod.splits intro!: progressI [where new = "[]" and p = "[]" and q = "[]"])
qed (simp_all add: app_builder_def app_feature_of_def)

text \<open>
  C38. An instance that \<open>New\<close> returns is complete: it has a DNS client, a policy manager, a router and a statistics manager, configured or default; every feature that an
  app required was there when the handlers were added (\<open>New\<close> returns an error otherwise), and a callback that is still queued, for a handler, lacks a feature.
\<close>

theorem new_instance_complete:
  assumes "instance_builder rt calls nested rank bd" "calls w = []" "Instance_New rt bd cone config w = Some (Inr s)"
  shows "\<not> in_running s \<and> list_all (\<lambda>t. GetFeature rt s (PtrTo t) \<noteq> None) [dns_Client, policy_Manager, routing_Router, stats_Manager]
     \<and> list_all (waiting rt (in_features s)) (in_pendingResolutions s)
     \<and> (\<exists>s1. init_features rt bd cone config (empty_instance w) = Some (None, s1) \<and> in_features s = in_features s1 \<and> in_pendingResolutions s1 = [])"
  by (rule instance_builder.New_complete [OF assms])

text \<open>A usual configuration, and one without a dispatcher.\<close>

definition usual_config :: "(app_config, app_config) Config" where
  "usual_config = \<lparr>cfg_App = [DispatcherConfig, InboundConfig, OutboundConfig, ReverseConfig], cfg_Inbound = [InboundHandlerConfig [97]], cfg_Outbound = [OutboundHandlerConfig [98]]\<rparr>"

definition no_dispatcher_config :: "(app_config, app_config) Config" where
  "no_dispatcher_config = usual_config\<lparr>cfg_App := [InboundConfig, OutboundConfig]\<rparr>"

lemmas builder_eval = registry_eval Instance_New_def initInstanceWithConfig_def init_features_def add_app_def CreateObject_def app_builder_def app_registry_def
  essentialFeatures_def add_essential_def GetFeature_def InitSystemDialer_def addInboundHandlers_def AddInboundHandler_def addOutboundHandlers_def
  AddOutboundHandler_def required_def IM_AddHandler_def AddHandler_def IM_New_def OM_New_def

lemma usual_config_New:
  "\<exists>s. Instance_New (app_runtime (\<lambda>_. None)) (app_builder (\<lambda>_. None)) [] usual_config empty_log = Some (Inr s)
     \<and> map fst (al_calls (in_world s)) = [ReverseInit, DispatcherInit, VlessDNS, MuxServerDispatcher, FreedomInit] \<and> in_pendingResolutions s = []"
  by (simp add: usual_config_def builder_eval)

theorem new_instance_complete_witness:
  "\<exists>s. Instance_New (app_runtime (\<lambda>_. None)) (app_builder (\<lambda>_. None)) [] usual_config empty_log = Some (Inr s)
     \<and> list_all (\<lambda>t. GetFeature (app_runtime (\<lambda>_. None)) s (PtrTo t) \<noteq> None) [dns_Client, policy_Manager, routing_Router, stats_Manager]"
proof -
  obtain s where s: "Instance_New (app_runtime (\<lambda>_. None)) (app_builder (\<lambda>_. None)) [] usual_config empty_log = Some (Inr s)"
    using usual_config_New by blast
  have "al_calls empty_log = []" by (simp add: empty_log_def)
  from new_instance_complete [OF app_new.instance_builder_axioms this s] s show ?thesis by blast
qed

text \<open>
  The check of \<open>New\<close> comes before the handlers: without a dispatcher in the configuration an inbound handler's Mux server waits for one, and \<open>New\<close> returns
  the instance without an error.
\<close>

theorem late_requirement_unnoticed:
  "\<exists>s. Instance_New (app_runtime (\<lambda>_. None)) (app_builder (\<lambda>_. None)) [] no_dispatcher_config empty_log = Some (Inr s)
     \<and> map rs_callback (in_pendingResolutions s) = [MuxServerDispatcher]"
  by (simp add: no_dispatcher_config_def usual_config_def builder_eval)

section \<open>Lifecycle\<close>

lemma start_features_app:
  "start_features (app_runtime init) fs s = (let (e, called) = start_prefix af_Start fs
     in (e, s\<lparr>in_world := (in_world s)\<lparr>al_started := al_started (in_world s) @ called\<rparr>\<rparr>))"
proof (induction fs arbitrary: s)
  case (Cons f fs)
  then show ?case by (cases "af_Start f") (auto split: prod.splits)
qed simp

lemma close_features_app:
  "close_features (app_runtime init) fs s = (List.map_filter af_Close fs, s\<lparr>in_world := (in_world s)\<lparr>al_closed := al_closed (in_world s) @ fs\<rparr>\<rparr>)"
  by (induction fs arbitrary: s) (auto simp: map_filter_simps Let_def split: option.splits prod.splits)

text \<open>\<open>Start\<close> starts the features in the order of registration, up to the first that fails; \<open>Close\<close> closes every registered feature, whatever the others return.\<close>

lemma start_close_order:
  assumes "Instance_Start (app_runtime init) s = (e, s1)" "Instance_Close (app_runtime init) s1 = (e', s2)"
  shows "prefix (drop (length (al_started (in_world s))) (al_started (in_world s1))) (in_features s)"
    and "e = None \<Longrightarrow> al_started (in_world s1) = al_started (in_world s) @ in_features s"
    and "al_closed (in_world s2) = al_closed (in_world s) @ in_features s" and "\<not> in_running s2"
proof -
  obtain called where c: "start_prefix af_Start (in_features s) = (e, called)" "s1 = s\<lparr>in_running := True, in_world := (in_world s)\<lparr>al_started := al_started (in_world s) @ called\<rparr>\<rparr>"
    using assms(1) by (auto simp: Instance_Start_def start_features_app split: prod.splits)
  have p: "prefix called fs \<and> (e = None \<longrightarrow> called = fs)" if "start_prefix af_Start fs = (e, called)" for fs called
    using that by (induction fs arbitrary: called) (auto split: option.splits prod.splits)
  show "prefix (drop (length (al_started (in_world s))) (al_started (in_world s1))) (in_features s)"
    "e = None \<Longrightarrow> al_started (in_world s1) = al_started (in_world s) @ in_features s" using p [OF c(1)] c(2) by auto
  show "al_closed (in_world s2) = al_closed (in_world s) @ in_features s" "\<not> in_running s2"
    using assms(2) c(2) by (auto simp: Instance_Close_def close_features_app)
qed

text \<open>A feature added to a running instance is started and not registered: it is not found and \<open>Close\<close> does not close it.\<close>

theorem running_feature_not_registered:
  "\<exists>s1 s2. AddFeature (app_runtime init) (app_feature_of t) ((empty_instance empty_log)\<lparr>in_running := True\<rparr>) = Some (None, s1)
     \<and> al_started (in_world s1) = [app_feature_of t] \<and> GetFeature (app_runtime init) s1 (PtrTo t) = None
     \<and> Instance_Close (app_runtime init) s1 = (None, s2) \<and> al_closed (in_world s2) = []"
  by (simp add: AddFeature_def GetFeature_def getFeature_def Instance_Close_def empty_instance_def empty_log_def app_feature_of_def)

end
