(* ===== verification/Reverse.thy ===== *)
theory Reverse
  imports Inbound_Manager Mux_Worker Timers Dispatcher
begin

text \<open>
  \<open>app/reverse\<close> (\<open>portal.go\<close>, \<open>bridge.go\<close>, \<open>reverse.go\<close>, \<open>config.go\<close>) and \<open>common/buf/override.go\<close>: a bridge dials a portal and the connections that the
  portal receives travel back to the bridge over Mux; a control connection in each Mux connection carries heartbeats and the request to drain.
  A pipe is its index in the store \<open>po_pipes\<close>, a portal worker its index in \<open>po_heap\<close>, a Mux client worker its index in the heap of \<open>Mux_Worker\<close>.
  The encoding of the control message (generated code) and the random bytes are arguments.
\<close>

section \<open>Control messages\<close>

text \<open>The state is an open enumeration: a value outside it is kept.\<close>

definition Control_ACTIVE :: int where "Control_ACTIVE = 0"
definition Control_DRAIN :: int where "Control_DRAIN = 1"

record Control =
  ctl_State :: int
  ctl_Random :: "byte list"

definition zero_Control :: Control where
  "zero_Control = \<lparr>ctl_State = Control_ACTIVE, ctl_Random = []\<rparr>"

text \<open>\<open>intn\<close> is the result of \<open>Intn(64)\<close>, \<open>rnd k\<close> the next \<open>k\<close> random bytes.\<close>

definition FillInRandom :: "nat \<Rightarrow> (nat \<Rightarrow> byte list) \<Rightarrow> Control \<Rightarrow> Control" where
  "FillInRandom intn rnd c = c\<lparr>ctl_Random := rnd (intn + 1)\<rparr>"

definition internalDomain :: gostring where "internalDomain = str ''reverse''"

text \<open>A destination without an address panics.\<close>

definition reverse_isDomain :: "Destination \<Rightarrow> gostring \<Rightarrow> bool option" where
  "reverse_isDomain dest domain =
     (case d_Address dest of None \<Rightarrow> None | Some (domainAddress s) \<Rightarrow> Some (s = domain) | Some _ \<Rightarrow> Some False)"

definition isInternalDomain :: "Destination \<Rightarrow> bool option" where
  "isInternalDomain dest = reverse_isDomain dest internalDomain"

section \<open>Override of packet addresses\<close>

text \<open>An end of a link: a pipe, and the addresses of an \<open>EndpointOverrideReader\<close> or \<open>EndpointOverrideWriter\<close> around it.\<close>

record endpoint_override =
  eo_Dest :: "Address option"
  eo_OriginalDest :: "Address option"

record link_end =
  le_pipe :: nat
  le_override :: "endpoint_override option"

definition override_buffer :: "Address option \<Rightarrow> Address option \<Rightarrow> Buffer \<Rightarrow> Buffer" where
  "override_buffer old new b =
     (case b_UDP b of None \<Rightarrow> b | Some d \<Rightarrow> if d_Address d = old then b\<lparr>b_UDP := Some (d\<lparr>d_Address := new\<rparr>)\<rparr> else b)"

text \<open>A nil buffer panics.\<close>

definition override_all :: "Address option \<Rightarrow> Address option \<Rightarrow> MultiBuffer \<Rightarrow> MultiBuffer option" where
  "override_all old new mb = (if None \<in> set mb then None else Some (map (map_option (override_buffer old new)) mb))"

definition EndpointOverrideReader_ReadMultiBuffer :: "endpoint_override \<Rightarrow> 'r mb_read \<Rightarrow> 'r mb_read" where
  "EndpointOverrideReader_ReadMultiBuffer eo rmb r p =
     (case rmb r p of
        None \<Rightarrow> None
      | Some (mb, None, r1, p1) \<Rightarrow> (case override_all (eo_OriginalDest eo) (eo_Dest eo) mb of None \<Rightarrow> None | Some mb1 \<Rightarrow> Some (mb1, None, r1, p1))
      | Some (mb, Some e, r1, p1) \<Rightarrow> Some (mb, Some e, r1, p1))"

definition EndpointOverrideWriter_WriteMultiBuffer :: "endpoint_override \<Rightarrow> 'w mb_write \<Rightarrow> 'w mb_write" where
  "EndpointOverrideWriter_WriteMultiBuffer eo wmb w mb p =
     (case override_all (eo_Dest eo) (eo_OriginalDest eo) mb of None \<Rightarrow> None | Some mb1 \<Rightarrow> wmb w mb1 p)"

section \<open>Portal\<close>

text \<open>The whole of \<open>SetTimeout\<close>: the locked section, then the end or the update. \<open>hour\<close> is in nanoseconds.\<close>

definition hour :: int where "hour = 3600000000000"

definition timer_SetTimeout :: "int \<Rightarrow> ActivityTimer \<Rightarrow> ActivityTimer" where
  "timer_SetTimeout d t =
     (if at_finished t then t
      else if d = 0 then AT_finish (length (at_finishing t)) (AT_SetTimeout d t) else AT_Update (AT_SetTimeout d t))"

text \<open>\<open>pw_control\<close> says whether the periodic task goes on; a disposed writer is \<open>None\<close>.\<close>

record PortalWorker =
  pw_client :: nat
  pw_control :: bool
  pw_writer :: "nat option"
  pw_reader :: nat
  pw_draining :: bool
  pw_counter :: "32 word"
  pw_timer :: ActivityTimer

record Portal =
  po_tag :: gostring
  po_domain :: gostring
  po_mux :: "(link_end, link_end) mux_client"
  po_pipes :: "pipe list"
  po_pool :: pool
  po_heap :: "PortalWorker list"
  po_workers :: "nat list"

definition NewPortal :: "gostring \<Rightarrow> gostring \<Rightarrow> (link_end, link_end) mux_client \<Rightarrow> goerr + Portal" where
  "NewPortal tag domain mux =
     (if tag = [] then Inl (ENew ''portal tag is empty'' None)
      else if domain = [] then Inl (ENew ''portal domain is empty'' None)
      else Inr \<lparr>po_tag = tag, po_domain = domain, po_mux = mux, po_pipes = [], po_pool = [], po_heap = [], po_workers = []\<rparr>)"

text \<open>The portal is an outbound handler of its tag while it runs.\<close>

definition Portal_Start :: "(Handler \<Rightarrow> goerr option) \<Rightarrow> nat \<Rightarrow> Portal \<Rightarrow> Manager \<Rightarrow> goerr option \<times> Manager" where
  "Portal_Start start hid po ohm = AddHandler start ohm \<lparr>h_id = hid, h_Tag = po_tag po\<rparr>"

definition Portal_Close :: "Portal \<Rightarrow> Manager \<Rightarrow> goerr option \<times> Manager" where
  "Portal_Close po ohm = RemoveHandler ohm (po_tag po)"

definition PW_Closed :: "Portal \<Rightarrow> nat \<Rightarrow> bool" where
  "PW_Closed po i = CW_Closed (po_mux po) (pw_client (po_heap po ! i))"

definition PW_IsFull :: "Portal \<Rightarrow> nat \<Rightarrow> bool" where
  "PW_IsFull po i = CW_IsFull (po_mux po) (pw_client (po_heap po ! i))"

definition PW_Active :: "Portal \<Rightarrow> nat \<Rightarrow> 32 word" where
  "PW_Active po i = ActiveConnections (po_mux po) (pw_client (po_heap po ! i))"

definition upd_worker :: "nat \<Rightarrow> (PortalWorker \<Rightarrow> PortalWorker) \<Rightarrow> Portal \<Rightarrow> Portal" where
  "upd_worker i f po = po\<lparr>po_heap := (po_heap po)[i := f (po_heap po ! i)]\<rparr>"

text \<open>\<open>w.timer.SetTimeout\<close>; a timer that ends calls \<open>client.Close\<close>.\<close>

definition PW_SetTimeout :: "int \<Rightarrow> nat \<Rightarrow> Portal \<Rightarrow> Portal" where
  "PW_SetTimeout d i po =
     (let w = po_heap po ! i; t = timer_SetTimeout d (pw_timer w); po1 = upd_worker i (\<lambda>w. w\<lparr>pw_timer := t\<rparr>) po
      in if at_finished t \<and> \<not> at_finished (pw_timer w) then po1\<lparr>po_mux := CW_Close (pw_client w) (po_mux po1)\<rparr> else po1)"

definition static_cleanup :: "Portal \<Rightarrow> Portal" where
  "static_cleanup po =
     (let po1 = fold (\<lambda>i p. if \<not> PW_Closed p i then p else PW_SetTimeout 0 i p) (po_workers po) po
      in po1\<lparr>po_workers := filter (\<lambda>i. \<not> PW_Closed po i) (po_workers po)\<rparr>)"

definition AddWorker :: "nat \<Rightarrow> Portal \<Rightarrow> Portal" where
  "AddWorker i po = po\<lparr>po_workers := po_workers po @ [i]\<rparr>"

text \<open>A loop of \<open>PickAvailable\<close>: \<open>minIdx\<close> and \<open>minConn\<close> after the workers from index \<open>i\<close> on.\<close>

fun min_scan :: "('a \<Rightarrow> bool) \<Rightarrow> ('a \<Rightarrow> 32 word) \<Rightarrow> int \<Rightarrow> 'a list \<Rightarrow> int \<times> 32 word \<Rightarrow> int \<times> 32 word" where
  "min_scan skip conn i [] m = m"
| "min_scan skip conn i (w # ws) m =
     min_scan skip conn (i + 1) ws (if skip w then m else if conn w < snd m then (i, conn w) else m)"

definition StaticMuxPicker_PickAvailable :: "Portal \<Rightarrow> goerr + nat" where
  "StaticMuxPicker_PickAvailable po =
     (if po_workers po = [] then Inl (ENew ''empty worker list'' None)
      else let m = min_scan (\<lambda>i. pw_draining (po_heap po ! i) \<or> PW_IsFull po i) (PW_Active po) 0 (po_workers po) (-1, 9999);
               m1 = (if fst m = -1 then min_scan (PW_IsFull po) (PW_Active po) 0 (po_workers po) m else m)
           in if fst m1 \<noteq> -1 then Inr (pw_client (po_heap po ! (po_workers po ! nat (fst m1))))
              else Inl (ENew ''no mux client worker available'' None))"

text \<open>\<open>WriteMultiBuffer\<close> of a pipe that need not wait; a full pipe blocks until it is read, \<open>None\<close> here.\<close>

definition pipe_WriteNow :: "nat \<Rightarrow> MultiBuffer \<Rightarrow> Portal \<Rightarrow> (goerr option \<times> Portal) option" where
  "pipe_WriteNow k mb po =
     (if MB_IsEmpty mb then Some (None, po)
      else case writeMultiBufferInternal (po_pipes po ! k) mb of
             (None, p1) \<Rightarrow> Some (None, po\<lparr>po_pipes := (po_pipes po)[k := p1\<lparr>pp_readSignal := Signal (pp_readSignal p1)\<rparr>]\<rparr>)
           | (Some e, p1) \<Rightarrow>
               if e = errBufferFull then
                 (if pp_discardOverflow p1 then Some (None, po\<lparr>po_pool := snd (ReleaseMulti mb (po_pool po))\<rparr>) else None)
               else Some (Some e, po\<lparr>po_pool := snd (ReleaseMulti mb (po_pool po)), po_pipes := (po_pipes po)[k := p1\<lparr>pp_readSignal := Signal (pp_readSignal p1)\<rparr>]\<rparr>))"

text \<open>The deferred end of a draining worker: \<open>Close(w.writer)\<close>, \<open>Interrupt(w.reader)\<close>, \<open>w.writer = nil\<close>.\<close>

definition dispose_control :: "nat \<Rightarrow> Portal \<Rightarrow> Portal" where
  "dispose_control i po =
     (let w = po_heap po ! i;
          po1 = (case pw_writer w of None \<Rightarrow> po | Some k \<Rightarrow> po\<lparr>po_pipes := (po_pipes po)[k := pipe_Close (po_pipes po ! k)]\<rparr>);
          (rp, pl) = pipe_Interrupt (po_pipes po1 ! pw_reader w) (po_pool po1)
      in upd_worker i (\<lambda>w. w\<lparr>pw_writer := None\<rparr>) (po1\<lparr>po_pipes := (po_pipes po1)[pw_reader w := rp], po_pool := pl\<rparr>))"

definition heartbeat_send :: "(Control \<Rightarrow> goerr + byte list) \<Rightarrow> Control \<Rightarrow> nat \<Rightarrow> nat \<Rightarrow> Portal \<Rightarrow> (goerr option \<times> Portal) option" where
  "heartbeat_send marshal msg k i po =
     (case marshal msg of
        Inl err \<Rightarrow> Some (Some err, po)
      | Inr b \<Rightarrow>
          (case MergeBytes (po_pool po) [] b of
             None \<Rightarrow> None
           | Some (mb, pl) \<Rightarrow> pipe_WriteNow k mb (upd_worker i (\<lambda>w. w\<lparr>pw_timer := AT_Update (pw_timer w)\<rparr>) (po\<lparr>po_pool := pl\<rparr>))))"

definition heartbeat ::
  "(Control \<Rightarrow> goerr + byte list) \<Rightarrow> nat \<Rightarrow> (nat \<Rightarrow> byte list) \<Rightarrow> nat \<Rightarrow> Portal \<Rightarrow> (goerr option \<times> Portal) option" where
  "heartbeat marshal intn rnd i po =
     (let w = po_heap po ! i
      in if PW_Closed po i then Some (Some (ENew ''client worker stopped'' None), po)
         else if pw_draining w \<or> pw_writer w = None then Some (Some (ENew ''already disposed'' None), po)
         else let drain = TotalConnections (po_mux po) (pw_client w) > 256;
                  msg0 = FillInRandom intn rnd zero_Control;
                  msg = (if drain then msg0\<lparr>ctl_State := Control_DRAIN\<rparr> else msg0);
                  counter = (pw_counter w + 1) mod 5;
                  po1 = upd_worker i (\<lambda>w. w\<lparr>pw_draining := drain, pw_counter := counter\<rparr>) po;
                  res = (if drain \<or> counter = 1 then heartbeat_send marshal msg (the (pw_writer w)) i po1 else Some (None, po1))
              in if drain then map_option (apsnd (dispose_control i)) res else res)"

text \<open>A run of the periodic task: an error ends it.\<close>

definition control_tick ::
  "(Control \<Rightarrow> goerr + byte list) \<Rightarrow> nat \<Rightarrow> (nat \<Rightarrow> byte list) \<Rightarrow> nat \<Rightarrow> Portal \<Rightarrow> Portal option" where
  "control_tick marshal intn rnd i po =
     (if pw_control (po_heap po ! i)
      then map_option (\<lambda>(err, po1). upd_worker i (\<lambda>w. w\<lparr>pw_control := (err = None)\<rparr>) po1) (heartbeat marshal intn rnd i po)
      else Some po)"

definition NewPortalWorker ::
  "(Control \<Rightarrow> goerr + byte list) \<Rightarrow> nat \<Rightarrow> (nat \<Rightarrow> byte list) \<Rightarrow> int \<Rightarrow> nat \<Rightarrow> Portal \<Rightarrow> ((goerr + nat) \<times> Portal) option" where
  "NewPortalWorker marshal intn rnd now client po =
     (let up = length (po_pipes po); down = Suc up;
          po1 = po\<lparr>po_pipes := po_pipes po @ [pipe_New (16 * 1024) False, pipe_New (16 * 1024) False]\<rparr>
      in case CW_Dispatch client (\<lparr>le_pipe = up, le_override = None\<rparr>, \<lparr>le_pipe = down, le_override = None\<rparr>) (po_mux po1) of
           (False, mux) \<Rightarrow> Some (Inl (ENew ''unable to dispatch control connection'' None), po1\<lparr>po_mux := mux\<rparr>)
         | (True, mux) \<Rightarrow>
             let i = length (po_heap po1);
                 w = \<lparr>pw_client = client, pw_control = True, pw_writer = Some up, pw_reader = down, pw_draining = False, pw_counter = 0,
                      pw_timer = CancelAfterInactivity now (24 * hour)\<rparr>
             in map_option (\<lambda>po3. (Inr i, po3)) (control_tick marshal intn rnd i (po1\<lparr>po_mux := mux, po_heap := po_heap po1 @ [w]\<rparr>)))"

text \<open>\<open>ClientManager.Dispatch\<close> over the static picker.\<close>

fun Portal_Dispatch_loop :: "nat \<Rightarrow> link_end \<times> link_end \<Rightarrow> Portal \<Rightarrow> goerr option \<times> Portal" where
  "Portal_Dispatch_loop 0 link po = (Some (ENew ''unable to find an available mux client'' None), po)"
| "Portal_Dispatch_loop (Suc n) link po =
     (case StaticMuxPicker_PickAvailable po of
        Inl e \<Rightarrow> (Some e, po)
      | Inr k \<Rightarrow> (case CW_Dispatch k link (po_mux po) of
          (True, mux) \<Rightarrow> (None, po\<lparr>po_mux := mux\<rparr>)
        | (False, mux) \<Rightarrow> Portal_Dispatch_loop n link (po\<lparr>po_mux := mux\<rparr>)))"

definition override_link :: "Outbound \<Rightarrow> link_end \<times> link_end \<Rightarrow> link_end \<times> link_end" where
  "override_link ob link =
     (if d_Network (ob_Target ob) = Network_UDP \<and> d_Address (ob_OriginalTarget ob) \<noteq> None
         \<and> d_Address (ob_OriginalTarget ob) \<noteq> d_Address (ob_Target ob)
      then let eo = \<lparr>eo_Dest = d_Address (ob_Target ob), eo_OriginalDest = d_Address (ob_OriginalTarget ob)\<rparr>
           in ((fst link)\<lparr>le_override := Some eo\<rparr>, (snd link)\<lparr>le_override := Some eo\<rparr>)
      else link)"

text \<open>
  \<open>HandleConnection\<close>: a connection to the portal's domain is a bridge, and becomes a worker; the others are dispatched to the workers. It changes the
  ends of the caller's link, which it returns. The wait for the end of a bridge whose link is no pipe comes after all changes of state and is left out.
\<close>

definition HandleConnection ::
  "(Control \<Rightarrow> goerr + byte list) \<Rightarrow> nat \<Rightarrow> (nat \<Rightarrow> byte list) \<Rightarrow> int \<Rightarrow> dctx \<Rightarrow> link_end \<times> link_end \<Rightarrow> Portal
     \<Rightarrow> (goerr option \<times> (link_end \<times> link_end) \<times> Portal) option" where
  "HandleConnection marshal intn rnd now ctx link po =
     (case last_ob ctx of
        None \<Rightarrow> None
      | Some ob \<Rightarrow>
          (case reverse_isDomain (ob_Target ob) (po_domain po) of
             None \<Rightarrow> None
           | Some True \<Rightarrow>
               (case NewClientWorker \<lparr>MaxConcurrency = 0, MaxConnection = 0\<rparr> (po_mux po) of (k, mux) \<Rightarrow>
                 (case NewPortalWorker marshal intn rnd now k (po\<lparr>po_mux := mux\<rparr>) of
                    None \<Rightarrow> None
                  | Some (Inl err, po1) \<Rightarrow> Some (Some (ENew ''failed to create portal worker'' (Some err)), link, po1)
                  | Some (Inr i, po1) \<Rightarrow> Some (None, link, AddWorker i po1)))
           | Some False \<Rightarrow>
               let link1 = override_link ob link; (err, po1) = Portal_Dispatch_loop 16 link1 po in Some (err, link1, po1)))"

text \<open>\<open>common.Interrupt\<close> of an end: an overriding reader or writer has neither \<open>Interrupt\<close> nor \<open>Close\<close>.\<close>

definition interrupt_end :: "link_end \<Rightarrow> Portal \<Rightarrow> Portal" where
  "interrupt_end le po =
     (if le_override le \<noteq> None then po
      else case pipe_Interrupt (po_pipes po ! le_pipe le) (po_pool po) of
             (p, pl) \<Rightarrow> po\<lparr>po_pipes := (po_pipes po)[le_pipe le := p], po_pool := pl\<rparr>)"

definition Outbound_Dispatch ::
  "(Control \<Rightarrow> goerr + byte list) \<Rightarrow> nat \<Rightarrow> (nat \<Rightarrow> byte list) \<Rightarrow> int \<Rightarrow> dctx \<Rightarrow> link_end \<times> link_end \<Rightarrow> Portal \<Rightarrow> Portal option" where
  "Outbound_Dispatch marshal intn rnd now ctx link po =
     (case HandleConnection marshal intn rnd now ctx link po of
        None \<Rightarrow> None
      | Some (None, link1, po1) \<Rightarrow> Some po1
      | Some (Some err, link1, po1) \<Rightarrow> Some (interrupt_end (fst link1) (interrupt_end (snd link1) po1)))"

section \<open>Bridge\<close>

text \<open>A worker of the bridge: of its Mux server worker, whether it is done and its sessions.\<close>

record BridgeWorker =
  bk_Tag :: gostring
  bk_done :: bool
  bk_sessions :: SessionManager
  bk_State :: int
  bk_Timer :: "ActivityTimer option"

record Bridge =
  bg_tag :: gostring
  bg_domain :: gostring
  bg_workers :: "BridgeWorker list"

definition NewBridge :: "gostring \<Rightarrow> gostring \<Rightarrow> goerr + Bridge" where
  "NewBridge tag domain =
     (if tag = [] then Inl (ENew ''bridge tag is empty'' None)
      else if domain = [] then Inl (ENew ''bridge domain is empty'' None)
      else Inr \<lparr>bg_tag = tag, bg_domain = domain, bg_workers = []\<rparr>)"

definition BridgeWorker_IsActive :: "BridgeWorker \<Rightarrow> bool" where
  "BridgeWorker_IsActive w \<longleftrightarrow> bk_State w = Control_ACTIVE \<and> \<not> bk_done w"

definition Connections :: "BridgeWorker \<Rightarrow> 32 word" where
  "Connections w = word_of_int (SM_Size (bk_sessions w))"

text \<open>\<open>w.Timer.SetTimeout\<close>; a timer that ends calls \<open>worker.Close\<close>.\<close>

definition BW_SetTimeout :: "int \<Rightarrow> BridgeWorker \<Rightarrow> BridgeWorker" where
  "BW_SetTimeout d w =
     (case bk_Timer w of
        None \<Rightarrow> w
      | Some t \<Rightarrow>
          let t1 = timer_SetTimeout d t
          in w\<lparr>bk_Timer := Some t1, bk_done := (bk_done w \<or> at_finished t1 \<and> \<not> at_finished t)\<rparr>)"

text \<open>A worker that is not active leaves the list; one that is closed also has its timer ended.\<close>

definition bridge_retired :: "Bridge \<Rightarrow> BridgeWorker list" where
  "bridge_retired b = map (\<lambda>w. if bk_done w then BW_SetTimeout 0 w else w) (filter (\<lambda>w. \<not> BridgeWorker_IsActive w) (bg_workers b))"

definition bridge_cleanup :: "Bridge \<Rightarrow> Bridge" where
  "bridge_cleanup b = b\<lparr>bg_workers := filter BridgeWorker_IsActive (bg_workers b)\<rparr>"

text \<open>\<open>NewBridgeWorker\<close>: \<open>dial\<close> is the result of the dispatcher for the domain, in a context with the bridge's tag.\<close>

definition NewBridgeWorker :: "(gostring \<Rightarrow> Destination \<Rightarrow> goerr option) \<Rightarrow> int \<Rightarrow> gostring \<Rightarrow> gostring \<Rightarrow> goerr + BridgeWorker" where
  "NewBridgeWorker dial now domain tag =
     (case dial tag \<lparr>d_Address = Some (DomainAddress domain), d_Port = 0, d_Network = Network_TCP\<rparr> of
        Some err \<Rightarrow> Inl err
      | None \<Rightarrow> Inr \<lparr>bk_Tag = tag, bk_done = False, bk_sessions = NewSessionManager, bk_State = Control_ACTIVE,
                     bk_Timer = Some (CancelAfterInactivity now 60000000000)\<rparr>)"

text \<open>The sums are of type \<open>uint32\<close>; the division comes only after the test for zero.\<close>

definition bridge_monitor :: "(gostring \<Rightarrow> Destination \<Rightarrow> goerr option) \<Rightarrow> int \<Rightarrow> Bridge \<Rightarrow> Bridge" where
  "bridge_monitor dial now b =
     (let b1 = bridge_cleanup b;
          active = filter BridgeWorker_IsActive (bg_workers b1);
          numConnections = sum_list (map Connections active);
          numWorker = (word_of_nat (length active) :: 32 word)
      in if numWorker = 0 \<or> numConnections div numWorker > 16
         then (case NewBridgeWorker dial now (bg_domain b1) (bg_tag b1) of
                 Inl err \<Rightarrow> b1
               | Inr worker \<Rightarrow> b1\<lparr>bg_workers := bg_workers b1 @ [worker]\<rparr>)
         else b1)"

text \<open>The control messages of the buffers read; \<open>False\<close> when one of them cannot be parsed.\<close>

fun control_buffers :: "(byte list \<Rightarrow> Control option) \<Rightarrow> MultiBuffer \<Rightarrow> BridgeWorker \<Rightarrow> (bool \<times> BridgeWorker) option" where
  "control_buffers unmarshal [] w = Some (True, w)"
| "control_buffers unmarshal (None # mb) w = None"
| "control_buffers unmarshal (Some b # mb) w =
     (case Bytes b of
        None \<Rightarrow> None
      | Some bs \<Rightarrow>
          (case unmarshal bs of
             None \<Rightarrow> Some (False, BW_SetTimeout 0 w)
           | Some ctl \<Rightarrow> control_buffers unmarshal mb (if ctl_State ctl \<noteq> bk_State w then w\<lparr>bk_State := ctl_State ctl\<rparr> else w)))"

partial_function (option) handleInternalConn ::
  "(byte list \<Rightarrow> Control option) \<Rightarrow> 'r mb_read \<Rightarrow> 'r \<Rightarrow> BridgeWorker \<Rightarrow> pool \<Rightarrow> (BridgeWorker \<times> 'r \<times> pool) option" where
  "handleInternalConn unmarshal rmb r w p =
     (case rmb r p of
        None \<Rightarrow> None
      | Some (mb, err, r1, p1) \<Rightarrow>
          if err \<noteq> None then Some (BW_SetTimeout (if bk_done w then 0 else 24 * hour) w, r1, p1)
          else case control_buffers unmarshal mb (w\<lparr>bk_Timer := map_option AT_Update (bk_Timer w)\<rparr>) of
                 None \<Rightarrow> None
               | Some (ok, w1) \<Rightarrow> if ok then handleInternalConn unmarshal rmb r1 w1 p1 else Some (w1, r1, p1))"

declare handleInternalConn.simps [code]

text \<open>
  \<open>BridgeWorker.Dispatch\<close>: a connection to the internal domain is served by the worker itself over two new pipes, the others go to the dispatcher, with
  the bridge's tag unless the context has an inbound.
\<close>

datatype bridge_route = ToDispatcher dctx | ToControl pipe pipe

definition with_inbound :: "gostring \<Rightarrow> dctx \<Rightarrow> dctx" where
  "with_inbound tag ctx =
     (if dc_inbound ctx = None
      then ctx\<lparr>dc_inbound := Some \<lparr>in_Source = zero_dest, in_Local = zero_dest, in_Tag = tag, in_User = None, in_VlessRoute = 0\<rparr>\<rparr>
      else ctx)"

definition BridgeWorker_Dispatch :: "BridgeWorker \<Rightarrow> dctx \<Rightarrow> Destination \<Rightarrow> bridge_route option" where
  "BridgeWorker_Dispatch w ctx dest =
     (case isInternalDomain dest of
        None \<Rightarrow> None
      | Some True \<Rightarrow> Some (ToControl (pipe_New (16 * 1024) False) (pipe_New (16 * 1024) False))
      | Some False \<Rightarrow> Some (ToDispatcher (with_inbound (bk_Tag w) ctx)))"

text \<open>\<open>DispatchLink\<close> serves a control connection before it returns.\<close>

definition BridgeWorker_DispatchLink ::
  "(byte list \<Rightarrow> Control option) \<Rightarrow> 'r mb_read \<Rightarrow> 'r \<Rightarrow> BridgeWorker \<Rightarrow> dctx \<Rightarrow> Destination \<Rightarrow> pool \<Rightarrow> (dctx + BridgeWorker \<times> 'r \<times> pool) option" where
  "BridgeWorker_DispatchLink unmarshal rmb r w ctx dest p =
     (case isInternalDomain dest of
        None \<Rightarrow> None
      | Some True \<Rightarrow> map_option Inr (handleInternalConn unmarshal rmb r w p)
      | Some False \<Rightarrow> Some (Inl (with_inbound (bk_Tag w) ctx)))"

section \<open>Lifecycle\<close>

text \<open>The configuration: a tag and a domain for each bridge and each portal.\<close>

fun init_each :: "('c \<Rightarrow> goerr + 'a) \<Rightarrow> 'c list \<Rightarrow> goerr option \<times> 'a list" where
  "init_each new [] = (None, [])"
| "init_each new (c # cs) =
     (case new c of Inl e \<Rightarrow> (Some e, []) | Inr x \<Rightarrow> let (e, xs) = init_each new cs in (e, x # xs))"

record Reverse_state =
  rv_bridges :: "Bridge list"
  rv_portals :: "Portal list"

definition Reverse_Init ::
  "(gostring \<times> gostring) list \<Rightarrow> (gostring \<times> gostring) list \<Rightarrow> (link_end, link_end) mux_client \<Rightarrow> goerr option \<times> Reverse_state" where
  "Reverse_Init bcfg pcfg mux =
     (case init_each (\<lambda>(tag, domain). NewBridge tag domain) bcfg of
        (Some e, bs) \<Rightarrow> (Some e, \<lparr>rv_bridges = bs, rv_portals = []\<rparr>)
      | (None, bs) \<Rightarrow>
          (case init_each (\<lambda>(tag, domain). NewPortal tag domain mux) pcfg of (e, ps) \<Rightarrow> (e, \<lparr>rv_bridges = bs, rv_portals = ps\<rparr>)))"

fun start_portals :: "(Handler \<Rightarrow> goerr option) \<Rightarrow> nat \<Rightarrow> Portal list \<Rightarrow> Manager \<Rightarrow> goerr option \<times> Manager" where
  "start_portals start hid [] ohm = (None, ohm)"
| "start_portals start hid (po # ps) ohm =
     (case Portal_Start start hid po ohm of (Some e, ohm1) \<Rightarrow> (Some e, ohm1) | (None, ohm1) \<Rightarrow> start_portals start (Suc hid) ps ohm1)"

text \<open>\<open>Start\<close> runs the monitor of each bridge once, which never fails, and adds each portal to the outbound manager.\<close>

definition Reverse_Start ::
  "(gostring \<Rightarrow> Destination \<Rightarrow> goerr option) \<Rightarrow> int \<Rightarrow> (Handler \<Rightarrow> goerr option) \<Rightarrow> nat \<Rightarrow> Reverse_state \<Rightarrow> Manager \<Rightarrow> goerr option \<times> Reverse_state \<times> Manager" where
  "Reverse_Start dial now start hid rv ohm =
     (let rv1 = rv\<lparr>rv_bridges := map (bridge_monitor dial now) (rv_bridges rv)\<rparr>;
          (err, ohm1) = start_portals start hid (rv_portals rv1) ohm
      in (err, rv1, ohm1))"

definition Reverse_Close :: "Reverse_state \<Rightarrow> Manager \<Rightarrow> goerr list \<times> Manager" where
  "Reverse_Close rv ohm =
     fold (\<lambda>po (errs, m). case Portal_Close po m of (e, m1) \<Rightarrow> (errs @ (case e of None \<Rightarrow> [] | Some x \<Rightarrow> [x]), m1)) (rv_portals rv) ([], ohm)"

section \<open>Picking a worker\<close>

lemma min_scan_spec:
  "(\<forall>w \<in> set ws. \<not> skip w \<longrightarrow> snd (min_scan skip conn i ws m) \<le> conn w) \<and> snd (min_scan skip conn i ws m) \<le> snd m
   \<and> (min_scan skip conn i ws m = m
      \<or> (\<exists>j < length ws. min_scan skip conn i ws m = (i + int j, conn (ws ! j)) \<and> \<not> skip (ws ! j) \<and> conn (ws ! j) < snd m))"
proof (induction ws arbitrary: i m)
  case (Cons w ws)
  let ?m = "if skip w then m else if conn w < snd m then (i, conn w) else m"
  let ?r = "min_scan skip conn (i + 1) ws ?m"
  have ih: "\<forall>w \<in> set ws. \<not> skip w \<longrightarrow> snd ?r \<le> conn w" "snd ?r \<le> snd ?m"
     "?r = ?m \<or> (\<exists>j < length ws. ?r = (i + 1 + int j, conn (ws ! j)) \<and> \<not> skip (ws ! j) \<and> conn (ws ! j) < snd ?m)"
    using Cons.IH [of "i + 1" ?m] by blast+
  have le: "snd ?m \<le> snd m" "\<not> skip w \<longrightarrow> snd ?m \<le> conn w" by auto
  from ih(3) have "?r = m \<or> (\<exists>j < length (w # ws). ?r = (i + int j, conn ((w # ws) ! j)) \<and> \<not> skip ((w # ws) ! j) \<and> conn ((w # ws) ! j) < snd m)"
  proof
    assume "?r = ?m"
    then show ?thesis by (cases "skip w \<or> \<not> conn w < snd m") (auto intro!: exI [of _ 0])
  next
    assume "\<exists>j < length ws. ?r = (i + 1 + int j, conn (ws ! j)) \<and> \<not> skip (ws ! j) \<and> conn (ws ! j) < snd ?m"
    then obtain j where "j < length ws" "?r = (i + 1 + int j, conn (ws ! j))" "\<not> skip (ws ! j)" "conn (ws ! j) < snd ?m" by blast
    then show ?thesis using le(1) by (intro disjI2 exI [of _ "Suc j"]) (auto intro: less_le_trans)
  qed
  moreover have "snd ?r \<le> snd m" "\<not> skip w \<longrightarrow> snd ?r \<le> conn w" using ih(2) le by (auto intro: order_trans)
  ultimately show ?case using ih(1) by (simp only: min_scan.simps list.set ball_simps)
qed simp

text \<open>
  C39. The portal gives a connection to the least loaded worker: the worker picked is in the list, has room, and has no more active connections than any other worker with room
  that is draining or not as it is; a draining one is picked only if every other worker with room is draining too or has 9999 connections. When no worker is picked, each is
  full or has 9999 connections.
\<close>

theorem portal_picks_least_loaded:
  "case StaticMuxPicker_PickAvailable po of
     Inl e \<Rightarrow> \<forall>j \<in> set (po_workers po). PW_IsFull po j \<or> 9999 \<le> PW_Active po j
   | Inr k \<Rightarrow> \<exists>i \<in> set (po_workers po). k = pw_client (po_heap po ! i) \<and> \<not> PW_IsFull po i \<and> PW_Active po i < 9999
       \<and> (\<forall>j \<in> set (po_workers po). \<not> PW_IsFull po j \<longrightarrow>
             (pw_draining (po_heap po ! i) \<longrightarrow> pw_draining (po_heap po ! j) \<or> 9999 \<le> PW_Active po j)
             \<and> (pw_draining (po_heap po ! j) = pw_draining (po_heap po ! i) \<longrightarrow> PW_Active po i \<le> PW_Active po j))"
proof -
  let ?ws = "po_workers po" and ?skip = "\<lambda>i. pw_draining (po_heap po ! i) \<or> PW_IsFull po i"
  define m where "m = min_scan ?skip (PW_Active po) 0 ?ws (-1, 9999)"
  define m2 where "m2 = min_scan (PW_IsFull po) (PW_Active po) 0 ?ws (-1, 9999)"
  have 1: "\<forall>w \<in> set ?ws. \<not> ?skip w \<longrightarrow> snd m \<le> PW_Active po w" "m = (-1, 9999) \<or> (\<exists>j < length ?ws. m = (int j, PW_Active po (?ws ! j)) \<and> \<not> ?skip (?ws ! j) \<and> PW_Active po (?ws ! j) < 9999)"
    using min_scan_spec [of ?ws ?skip "PW_Active po" 0 "(-1, 9999)"] unfolding m_def by simp_all
  have 2: "\<forall>w \<in> set ?ws. \<not> PW_IsFull po w \<longrightarrow> snd m2 \<le> PW_Active po w"
      "m2 = (-1, 9999) \<or> (\<exists>j < length ?ws. m2 = (int j, PW_Active po (?ws ! j)) \<and> \<not> PW_IsFull po (?ws ! j) \<and> PW_Active po (?ws ! j) < 9999)"
    using min_scan_spec [of ?ws "PW_IsFull po" "PW_Active po" 0 "(-1, 9999)"] unfolding m2_def by simp_all
  show ?thesis
  proof (cases "m = (-1, 9999)")
    case False
    then obtain j where j: "j < length ?ws" "m = (int j, PW_Active po (?ws ! j))" "\<not> ?skip (?ws ! j)" "PW_Active po (?ws ! j) < 9999" using 1(2) by blast
    then have "StaticMuxPicker_PickAvailable po = Inr (pw_client (po_heap po ! (?ws ! j)))" unfolding StaticMuxPicker_PickAvailable_def Let_def m_def [symmetric] by auto
    then show ?thesis using j 1(1) by (auto intro!: bexI [of _ "?ws ! j"])
  next
    case True
    have pick: "StaticMuxPicker_PickAvailable po = (if ?ws = [] then Inl (ENew ''empty worker list'' None)
        else if fst m2 \<noteq> -1 then Inr (pw_client (po_heap po ! (?ws ! nat (fst m2)))) else Inl (ENew ''no mux client worker available'' None))"
      unfolding StaticMuxPicker_PickAvailable_def Let_def m_def [symmetric] True by (simp add: m2_def)
    show ?thesis
    proof (cases "m2 = (-1, 9999)")
      case m2: True
      then show ?thesis using pick 2(1) by (auto simp: not_less)
    next
      case False
      then obtain j where j: "j < length ?ws" "m2 = (int j, PW_Active po (?ws ! j))" "\<not> PW_IsFull po (?ws ! j)" "PW_Active po (?ws ! j) < 9999" using 2(2) by blast
      then have "StaticMuxPicker_PickAvailable po = Inr (pw_client (po_heap po ! (?ws ! j)))" using pick by auto
      then show ?thesis using j 2(1) 1(1) True by (auto intro!: bexI [of _ "?ws ! j"])
    qed
  qed
qed

text \<open>A portal with a draining worker and two others, of which the second has fewer connections.\<close>

definition demo_sessions :: "(16 word \<times> nat) list \<Rightarrow> 16 word \<Rightarrow> SessionManager" where
  "demo_sessions ss n = \<lparr>sm_sessions = ss, sm_count = n, sm_closed = False\<rparr>"

definition demo_mux :: "(link_end, link_end) mux_client" where
  "demo_mux = \<lparr>mc_world = \<lparr>wo_sessions = [], wo_managers = [demo_sessions [] 300, demo_sessions [(1, 0), (2, 1)] 2, demo_sessions [(1, 2)] 300], wo_xudps = [], wo_Map = []\<rparr>,
     mc_heap = map (\<lambda>k. \<lparr>cw_manager = k, cw_done = False, cw_strategy = \<lparr>MaxConcurrency = 0, MaxConnection = 0\<rparr>\<rparr>) [0, 1, 2], mc_workers = [], mc_task = None\<rparr>"

definition demo_portal_worker :: "nat \<Rightarrow> PortalWorker" where
  "demo_portal_worker k = \<lparr>pw_client = k, pw_control = True, pw_writer = Some 0, pw_reader = 1, pw_draining = (k = 0), pw_counter = 0, pw_timer = CancelAfterInactivity 0 (24 * hour)\<rparr>"

definition demo_portal :: Portal where
  "demo_portal = \<lparr>po_tag = [112], po_domain = [100], po_mux = demo_mux, po_pipes = [pipe_New 16384 False, pipe_New 16384 False], po_pool = [],
     po_heap = map demo_portal_worker [0, 1, 2], po_workers = [0, 1, 2]\<rparr>"

lemmas demo_portal_eval = demo_portal_def demo_portal_worker_def demo_mux_def demo_sessions_def PW_IsFull_def PW_Active_def PW_Closed_def CW_IsFull_def IsClosing_def
  CW_Closed_def ActiveConnections_def TotalConnections_def cw_sm_def SM_Count_def SM_Size_def

lemma demo_pick: "StaticMuxPicker_PickAvailable demo_portal = Inr 2"
  by (simp add: StaticMuxPicker_PickAvailable_def demo_portal_eval Let_def)

theorem portal_picks_least_loaded_witness:
  "\<exists>i \<in> set (po_workers demo_portal). pw_client (po_heap demo_portal ! i) = 2 \<and> \<not> PW_IsFull demo_portal i
     \<and> (\<forall>j \<in> set (po_workers demo_portal). \<not> PW_IsFull demo_portal j \<and> pw_draining (po_heap demo_portal ! j) = pw_draining (po_heap demo_portal ! i)
           \<longrightarrow> PW_Active demo_portal i \<le> PW_Active demo_portal j)"
proof -
  obtain i where "i \<in> set (po_workers demo_portal)" "2 = pw_client (po_heap demo_portal ! i)" "\<not> PW_IsFull demo_portal i"
     "\<forall>j \<in> set (po_workers demo_portal). \<not> PW_IsFull demo_portal j \<longrightarrow> pw_draining (po_heap demo_portal ! j) = pw_draining (po_heap demo_portal ! i) \<longrightarrow>
        PW_Active demo_portal i \<le> PW_Active demo_portal j"
    using portal_picks_least_loaded [of demo_portal] unfolding demo_pick sum.case by fastforce
  then show ?thesis by (intro bexI [of _ i]) auto
qed

text \<open>A connection that is no bridge's goes to a worker at the first try, while the sessions of the worker picked are open.\<close>

lemma portal_dispatches:
  assumes "StaticMuxPicker_PickAvailable po = Inr k" "\<not> CW_IsFull (po_mux po) k" "\<not> sm_closed (cw_sm (po_mux po) (mc_heap (po_mux po) ! k))"
    "uint (MaxConnection (cw_strategy (mc_heap (po_mux po) ! k))) < 65536"
  shows "\<exists>mux. Portal_Dispatch_loop (Suc n) link po = (None, po\<lparr>po_mux := mux\<rparr>) \<and> length (wo_sessions (mc_world mux)) = Suc (length (wo_sessions (mc_world (po_mux po))))"
proof -
  obtain mux where "CW_Dispatch k link (po_mux po) = (True, mux)" "length (wo_sessions (mc_world mux)) = Suc (length (wo_sessions (mc_world (po_mux po))))"
    using CW_Dispatch_room [OF assms(2-4)] by metis
  then show ?thesis using assms(1) by (intro exI [of _ mux]) simp
qed

section \<open>Draining\<close>

text \<open>A message that fits in one buffer goes into the pipe as a buffer of its own.\<close>

lemma MergeBytes_one:
  assumes "pool_ok p" "b \<noteq> []" "length b \<le> 8192"
  shows "\<exists>x p'. MergeBytes p [] b = Some ([Some x], p') \<and> buf_inv x \<and> content x = b \<and> pool_ok p'"
proof -
  obtain x p1 where x: "New p = (x, p1)" "buf_inv x" "content x = []" "room x = 8192" "pool_ok p1" using New_ok [OF assms(1)] by auto
  have w: "Write x b = Some ((int (length b), None), append_to x b)" using x assms(3) by (simp add: Write_content)
  then have "MergeBytes_loop p [] b = Some ([Some (append_to x b)], p1)"
    using assms(2) x(1) by (subst MergeBytes_loop.simps) (simp add: MergeBytes_loop.simps)
  then show ?thesis using x assms(3) by (auto simp: MergeBytes_def)
qed

text \<open>The pipe of the control connection takes the message: it is open and not full.\<close>

definition pipe_ready :: "pipe \<Rightarrow> bool" where
  "pipe_ready p \<longleftrightarrow> pp_state p = opened \<and> \<not> isFull p (MB_Len (data_list p))"

lemma WriteNow_ready:
  assumes "pipe_ready (po_pipes po ! k)" "content x \<noteq> []" "buf_inv x" "k < length (po_pipes po)"
  shows "\<exists>p1. pipe_WriteNow k [Some x] po = Some (None, po\<lparr>po_pipes := (po_pipes po)[k := p1]\<rparr>)
     \<and> pp_data p1 = Some (data_list (po_pipes po ! k) @ [Some x]) \<and> pp_state p1 = opened"
proof -
  have "\<not> MB_IsEmpty [Some x]" using assms(2,3) by (simp del: MB_IsEmpty.simps)
  moreover have "getState (po_pipes po ! k) False = None" using assms(1) by (simp add: pipe_ready_def getState_def)
  ultimately show ?thesis using assms(1)
    by (auto simp: pipe_WriteNow_def writeMultiBufferInternal_def MergeMulti_def data_list_def pipe_ready_def split: option.splits)
qed

text \<open>
  C23. A worker that has carried more than 256 connections is drained once: the heartbeat marks it, sends the message with the state \<open>DRAIN\<close> as the last buffer of the control
  connection, closes that connection and gives up its writer, and every later heartbeat returns an error, which ends the task, and changes nothing.
\<close>

theorem drain_announced_once:
  assumes "i < length (po_heap po)" "\<not> PW_Closed po i" "\<not> pw_draining (po_heap po ! i)" "TotalConnections (po_mux po) (pw_client (po_heap po ! i)) > 256"
    and pipes: "pw_writer (po_heap po ! i) = Some k" "k < length (po_pipes po)" "pw_reader (po_heap po ! i) < length (po_pipes po)"
      "pw_reader (po_heap po ! i) \<noteq> k" "pipe_ready (po_pipes po ! k)" "pool_ok (po_pool po)"
    and msg: "marshal ((FillInRandom intn rnd zero_Control)\<lparr>ctl_State := Control_DRAIN\<rparr>) = Inr b" "b \<noteq> []" "length b \<le> 8192"
  shows "\<exists>po' x. heartbeat marshal intn rnd i po = Some (None, po') \<and> content x = b
     \<and> pp_data (po_pipes po' ! k) = Some (data_list (po_pipes po ! k) @ [Some x]) \<and> pp_state (po_pipes po' ! k) = closed
     \<and> pw_draining (po_heap po' ! i) \<and> pw_writer (po_heap po' ! i) = None
     \<and> (\<forall>intn' rnd'. heartbeat marshal intn' rnd' i po' = Some (Some (ENew ''already disposed'' None), po'))"
proof -
  define w where "w = po_heap po ! i"
  define c where "c = (pw_counter w + 1) mod 5"
  obtain x pl where x: "MergeBytes (po_pool po) [] b = Some ([Some x], pl)" "buf_inv x" "content x = b" using MergeBytes_one [OF pipes(6) msg(2,3)] by blast
  define po1 where "po1 = upd_worker i (\<lambda>w. w\<lparr>pw_timer := AT_Update (pw_timer w)\<rparr>) ((upd_worker i (\<lambda>w. w\<lparr>pw_draining := True, pw_counter := c\<rparr>) po)\<lparr>po_pool := pl\<rparr>)"
  have s1: "po_pipes po1 = po_pipes po" "po_mux po1 = po_mux po" "length (po_heap po1) = length (po_heap po)"
      "po_heap po1 ! i = w\<lparr>pw_draining := True, pw_counter := c, pw_timer := AT_Update (pw_timer w)\<rparr>"
    using assms(1) by (simp_all add: po1_def upd_worker_def w_def)
  obtain p1 where p1: "pipe_WriteNow k [Some x] po1 = Some (None, po1\<lparr>po_pipes := (po_pipes po1)[k := p1]\<rparr>)"
      "pp_data p1 = Some (data_list (po_pipes po ! k) @ [Some x])" "pp_state p1 = opened"
    using WriteNow_ready [of po1 k x] pipes x msg(2) s1(1) by auto
  define po' where "po' = dispose_control i (po1\<lparr>po_pipes := (po_pipes po1)[k := p1]\<rparr>)"
  have hb: "heartbeat marshal intn rnd i po = Some (None, po')"
    using assms(2-4) pipes(1) msg(1) x(1) p1(1)
    by (simp add: heartbeat_def heartbeat_send_def Let_def po'_def po1_def c_def w_def upd_worker_def apsnd_def)
  have k: "po_pipes po' ! k = pipe_Close p1" "po_heap po' ! i = (po_heap po1 ! i)\<lparr>pw_writer := None\<rparr>" "po_mux po' = po_mux po"
    using pipes assms(1) s1 by (simp_all add: po'_def dispose_control_def upd_worker_def w_def Let_def split: prod.splits)
  have closed: "\<not> PW_Closed po' i" using assms(2) k(2,3) s1(4) by (simp add: PW_Closed_def w_def)
  show ?thesis
    using hb x(3) p1(2,3) k s1(4) closed by (intro exI [of _ po'] exI [of _ x]) (simp add: pipe_Close_def heartbeat_def Let_def)
qed

text \<open>An encoding of control messages for the examples.\<close>

definition demo_ctl_marshal :: "Control \<Rightarrow> goerr + byte list" where
  "demo_ctl_marshal c = Inr (byte_of (ctl_State c) # ctl_Random c)"

definition demo_ctl_unmarshal :: "byte list \<Rightarrow> Control option" where
  "demo_ctl_unmarshal bs = (case bs of [] \<Rightarrow> None | x # xs \<Rightarrow> Some \<lparr>ctl_State = uint x, ctl_Random = xs\<rparr>)"

theorem drain_announced_once_witness:
  "\<exists>po' x. heartbeat demo_ctl_marshal 0 (\<lambda>n. replicate n 7) 2 demo_portal = Some (None, po') \<and> content x = [1, 7]
     \<and> pp_data (po_pipes po' ! 0) = Some [Some x] \<and> pp_state (po_pipes po' ! 0) = closed"
proof -
  have m: "demo_ctl_marshal ((FillInRandom 0 (\<lambda>n. replicate n 7) zero_Control)\<lparr>ctl_State := Control_DRAIN\<rparr>) = Inr [1, 7]"
    by (simp add: demo_ctl_marshal_def FillInRandom_def Control_DRAIN_def byte_of_def)
  have d: "data_list (po_pipes demo_portal ! 0) = []" by (simp add: demo_portal_def pipe_New_def data_list_def)
  have "2 < length (po_heap demo_portal)" "\<not> PW_Closed demo_portal 2" "\<not> pw_draining (po_heap demo_portal ! 2)"
    "TotalConnections (po_mux demo_portal) (pw_client (po_heap demo_portal ! 2)) > 256" "pw_writer (po_heap demo_portal ! 2) = Some 0"
    "0 < length (po_pipes demo_portal)" "pw_reader (po_heap demo_portal ! 2) < length (po_pipes demo_portal)" "pw_reader (po_heap demo_portal ! 2) \<noteq> 0"
    "pipe_ready (po_pipes demo_portal ! 0)" "pool_ok (po_pool demo_portal)"
    by (simp_all add: demo_portal_eval pipe_ready_def pipe_New_def isFull_def data_list_def pool_ok_def)
  from drain_announced_once [where marshal = demo_ctl_marshal and intn = 0 and rnd = "\<lambda>n. replicate n 7", OF this m] d show ?thesis by fastforce
qed

section \<open>The bridge follows the portal\<close>

text \<open>A reader that delivers the given buffers and then an error, and buffers that carry the given messages.\<close>

fun delivers :: "'r mb_read \<Rightarrow> 'r \<Rightarrow> pool \<Rightarrow> MultiBuffer list \<Rightarrow> bool" where
  "delivers rmb r p [] = (case rmb r p of Some (mb, Some e, r1, p1) \<Rightarrow> True | _ \<Rightarrow> False)"
| "delivers rmb r p (mb # mbs) = (case rmb r p of Some (mb', None, r1, p1) \<Rightarrow> mb' = mb \<and> delivers rmb r1 p1 mbs | _ \<Rightarrow> False)"

definition buffer_control :: "(byte list \<Rightarrow> Control option) \<Rightarrow> Buffer option \<Rightarrow> Control option" where
  "buffer_control unmarshal x = (case x of None \<Rightarrow> None | Some b \<Rightarrow> (case Bytes b of None \<Rightarrow> None | Some bs \<Rightarrow> unmarshal bs))"

definition carries :: "(byte list \<Rightarrow> Control option) \<Rightarrow> MultiBuffer \<Rightarrow> Control list \<Rightarrow> bool" where
  "carries unmarshal mb cs \<longleftrightarrow> map (buffer_control unmarshal) mb = map Some cs"

lemma control_buffers_state:
  "carries unmarshal mb cs \<Longrightarrow> \<exists>w'. control_buffers unmarshal mb w = Some (True, w') \<and> bk_State w' = last (bk_State w # map ctl_State cs)
     \<and> bk_done w' = bk_done w \<and> bk_Timer w' = bk_Timer w \<and> bk_sessions w' = bk_sessions w \<and> bk_Tag w' = bk_Tag w"
proof (induction mb arbitrary: cs w)
  case (Cons x mb)
  then obtain b bs c cs' where c: "x = Some b" "Bytes b = Some bs" "unmarshal bs = Some c" "cs = c # cs'" "carries unmarshal mb cs'"
    by (auto simp: carries_def buffer_control_def Cons_eq_map_conv split: option.splits)
  show ?case using Cons.IH [OF c(5), of "if ctl_State c \<noteq> bk_State w then w\<lparr>bk_State := ctl_State c\<rparr> else w"] c by auto
qed (simp add: carries_def)

lemma BW_SetTimeout_sel [simp]: "bk_State (BW_SetTimeout d w) = bk_State w" "bk_sessions (BW_SetTimeout d w) = bk_sessions w" "bk_Tag (BW_SetTimeout d w) = bk_Tag w"
  by (simp_all add: BW_SetTimeout_def Let_def split: option.splits)

text \<open>
  The bridge's worker takes the state of the last control message: for messages that can be parsed, the handler of the control connection returns when the connection ends,
  and the worker's state is that of the last message, or what it was if there is none; after a last message \<open>DRAIN\<close> the worker is not active, so the next run of the monitor
  removes it.
\<close>

theorem bridge_follows_control:
  assumes "delivers rmb r p mbs" "list_all2 (carries unmarshal) mbs css"
  shows "\<exists>w' r' p'. handleInternalConn unmarshal rmb r w p = Some (w', r', p') \<and> bk_State w' = last (bk_State w # map ctl_State (concat css))
     \<and> (concat css \<noteq> [] \<and> ctl_State (last (concat css)) = Control_DRAIN \<longrightarrow> \<not> BridgeWorker_IsActive w' \<and> w' \<notin> set (bg_workers (bridge_cleanup b)))"
proof -
  have "\<exists>w' r' p'. handleInternalConn unmarshal rmb r w p = Some (w', r', p') \<and> bk_State w' = last (bk_State w # map ctl_State (concat css))"
    using assms
  proof (induction mbs arbitrary: css r p w)
    case Nil
    then show ?case by (subst handleInternalConn.simps) (auto split: option.splits prod.splits)
  next
    case (Cons mb mbs)
    obtain cs css' where cs: "css = cs # css'" "carries unmarshal mb cs" "list_all2 (carries unmarshal) mbs css'" using Cons.prems(2) by (auto simp: list_all2_Cons1)
    obtain r1 p1 where r: "rmb r p = Some (mb, None, r1, p1)" "delivers rmb r1 p1 mbs" using Cons.prems(1) by (auto split: option.splits prod.splits)
    let ?w = "w\<lparr>bk_Timer := map_option AT_Update (bk_Timer w)\<rparr>"
    obtain w1 where w1: "control_buffers unmarshal mb ?w = Some (True, w1)" "bk_State w1 = last (bk_State w # map ctl_State cs)"
      using control_buffers_state [OF cs(2), of ?w] by auto
    have "last (bk_State w1 # map ctl_State (concat css')) = last (bk_State w # map ctl_State (concat css))" using w1(2) cs(1) by (auto simp: last_append)
    then show ?case using Cons.IH [OF r(2) cs(3), of w1] r(1) w1(1) by (subst handleInternalConn.simps) simp
  qed
  then obtain w' r' p' where w': "handleInternalConn unmarshal rmb r w p = Some (w', r', p')" "bk_State w' = last (bk_State w # map ctl_State (concat css))" by blast
  have "\<not> BridgeWorker_IsActive w'" if "concat css \<noteq> []" "ctl_State (last (concat css)) = Control_DRAIN"
  proof -
    have "bk_State w' = ctl_State (last (concat css))" using w'(2) that(1) by (metis last_ConsR last_map map_is_Nil_conv)
    then show ?thesis using that(2) by (simp add: BridgeWorker_IsActive_def Control_DRAIN_def Control_ACTIVE_def)
  qed
  then show ?thesis using w' by (intro exI [of _ w'] exI [of _ r'] exI [of _ p']) (auto simp: bridge_cleanup_def)
qed

text \<open>A reader of two heartbeats, the second of which asks to drain.\<close>

definition demo_control_buffer :: "byte list \<Rightarrow> Buffer option" where
  "demo_control_buffer bs = Some (FromBytes bs (int (length bs)))"

definition demo_reads :: "MultiBuffer list mb_read" where
  "demo_reads r p = (case r of [] \<Rightarrow> Some ([], Some EOF, [], p) | mb # rest \<Rightarrow> Some (mb, None, rest, p))"

definition demo_bridge_worker :: BridgeWorker where
  "demo_bridge_worker = \<lparr>bk_Tag = [98], bk_done = False, bk_sessions = NewSessionManager, bk_State = Control_ACTIVE, bk_Timer = Some (CancelAfterInactivity 0 60000000000)\<rparr>"

theorem bridge_follows_control_witness:
  "\<exists>w' r' p'. handleInternalConn demo_ctl_unmarshal demo_reads [[demo_control_buffer [0, 7]], [demo_control_buffer [1, 8]]] demo_bridge_worker [] = Some (w', r', p')
     \<and> bk_State w' = Control_DRAIN \<and> \<not> BridgeWorker_IsActive w'"
proof -
  let ?mbs = "[[demo_control_buffer [0, 7]], [demo_control_buffer [1, 8]]]"
  let ?css = "[[\<lparr>ctl_State = 0, ctl_Random = [7]\<rparr>], [\<lparr>ctl_State = 1, ctl_Random = [8]\<rparr>]]"
  have "delivers demo_reads ?mbs [] ?mbs" by (simp add: demo_reads_def)
  moreover have "list_all2 (carries demo_ctl_unmarshal) ?mbs ?css"
    by (simp add: carries_def buffer_control_def demo_control_buffer_def demo_ctl_unmarshal_def FromBytes_def Bytes_def b_arr_def slice_def)
  ultimately have "\<exists>w' r' p'. handleInternalConn demo_ctl_unmarshal demo_reads ?mbs demo_bridge_worker [] = Some (w', r', p')
      \<and> bk_State w' = last (bk_State demo_bridge_worker # map ctl_State (concat ?css))
      \<and> (concat ?css \<noteq> [] \<and> ctl_State (last (concat ?css)) = Control_DRAIN \<longrightarrow> \<not> BridgeWorker_IsActive w' \<and> w' \<notin> set (bg_workers (bridge_cleanup \<lparr>bg_tag = [], bg_domain = [], bg_workers = []\<rparr>)))"
    by (rule bridge_follows_control)
  then show ?thesis by (simp only: concat.simps append.simps list.simps last.simps Control.simps Control_DRAIN_def) auto
qed

text \<open>
  Each run of the monitor leaves the bridge with active workers only, and with at least one if the portal can be dialled; it adds one worker and no more, when none is
  active or the active ones carry more than 16 connections each on average, and drops only workers that are not active.
\<close>

theorem bridge_keeps_active_worker:
  "list_all BridgeWorker_IsActive (bg_workers (bridge_monitor dial now b))
   \<and> (dial (bg_tag b) \<lparr>d_Address = Some (DomainAddress (bg_domain b)), d_Port = 0, d_Network = Network_TCP\<rparr> = None \<longrightarrow> bg_workers (bridge_monitor dial now b) \<noteq> [])
   \<and> prefix (filter BridgeWorker_IsActive (bg_workers b)) (bg_workers (bridge_monitor dial now b))
   \<and> length (bg_workers (bridge_monitor dial now b)) \<le> Suc (length (filter BridgeWorker_IsActive (bg_workers b)))"
proof -
  have new: "BridgeWorker_IsActive w" if "NewBridgeWorker dial now d t = Inr w" for d t w
    using that by (auto simp: NewBridgeWorker_def BridgeWorker_IsActive_def split: option.splits)
  show ?thesis
    using new by (auto simp: bridge_monitor_def bridge_cleanup_def Let_def list_all_iff NewBridgeWorker_def split: sum.splits option.splits)
qed

theorem bridge_keeps_active_worker_witness:
  "bg_workers (bridge_monitor (\<lambda>_ _. None) 0 \<lparr>bg_tag = [98], bg_domain = [100], bg_workers = [demo_bridge_worker\<lparr>bk_State := Control_DRAIN\<rparr>]\<rparr>) \<noteq> []"
  using bridge_keeps_active_worker [of "\<lambda>_ _. None" 0 "\<lparr>bg_tag = [98], bg_domain = [100], bg_workers = [demo_bridge_worker\<lparr>bk_State := Control_DRAIN\<rparr>]\<rparr>"] by simp

section \<open>Packet addresses and links\<close>

text \<open>What the reader changes the writer changes back, for packets that do not already have the new address.\<close>

lemma override_roundtrip:
  "(\<forall>d. b_UDP b = Some d \<longrightarrow> d_Address d \<noteq> new) \<Longrightarrow> override_buffer new old (override_buffer old new b) = b"
proof (cases "b_UDP b")
  case (Some d)
  then show "(\<forall>d. b_UDP b = Some d \<longrightarrow> d_Address d \<noteq> new) \<Longrightarrow> override_buffer new old (override_buffer old new b) = b"
    by (cases d; cases b) (auto simp: override_buffer_def)
qed (simp add: override_buffer_def)

text \<open>
  A link with overridden addresses is not interrupted when its dispatch fails: the ends that \<open>HandleConnection\<close> put in the link can be neither interrupted nor closed, while
  those of the same link to an address that is not overridden are.
\<close>

definition demo_udp_ctx :: "Address option \<Rightarrow> dctx" where
  "demo_udp_ctx original = \<lparr>dc_outbounds = [zero_outbound\<lparr>ob_Target := \<lparr>d_Address = Some (ipv4Address [1, 2, 3, 4]), d_Port = 53, d_Network = Network_UDP\<rparr>,
     ob_OriginalTarget := \<lparr>d_Address = original, d_Port = 53, d_Network = Network_UDP\<rparr>\<rparr>], dc_content = None, dc_inbound = None, dc_Detour = None\<rparr>"

definition idle_portal :: Portal where
  "idle_portal = demo_portal\<lparr>po_workers := []\<rparr>"

theorem overridden_link_not_interrupted:
  "map_option (\<lambda>po. map pp_state (po_pipes po)) (Outbound_Dispatch demo_ctl_marshal 0 (\<lambda>n. []) 0 (demo_udp_ctx (Some (domainAddress [97])))
      (\<lparr>le_pipe = 0, le_override = None\<rparr>, \<lparr>le_pipe = 1, le_override = None\<rparr>) idle_portal) = Some [opened, opened]
   \<and> map_option (\<lambda>po. map pp_state (po_pipes po)) (Outbound_Dispatch demo_ctl_marshal 0 (\<lambda>n. []) 0 (demo_udp_ctx None)
      (\<lparr>le_pipe = 0, le_override = None\<rparr>, \<lparr>le_pipe = 1, le_override = None\<rparr>) idle_portal) = Some [errord, errord]"
  by (simp add: Outbound_Dispatch_def HandleConnection_def demo_udp_ctx_def last_ob_def reverse_isDomain_def override_link_def StaticMuxPicker_PickAvailable_def
      idle_portal_def demo_portal_def interrupt_end_def pipe_Interrupt_def pipe_New_def data_list_def zero_outbound_def Let_def numeral_eq_Suc)

text \<open>A portal that starts and closes leaves the outbound manager's directory as it was, if its tag was free.\<close>

lemma portal_start_close:
  assumes "om_inv ohm" "GetHandler ohm (po_tag po) = None" "po_tag po \<noteq> []"
  shows "om_abs (snd (Portal_Close po (snd (Portal_Start start hid po ohm)))) = om_abs ohm"
  using outbound.add_remove [of ohm "\<lparr>h_id = hid, h_Tag = po_tag po\<rparr>" start] assms by (simp add: Portal_Close_def Portal_Start_def)

end
