(* ===== verification/Outbound_Handler.thy ===== *)
theory Outbound_Handler
  imports Dial Reverse
begin

text \<open>
  \<open>app/proxyman/outbound/handler.go\<close> and \<open>uot.go\<close>: the handler between the dispatcher and an outbound proxy. It resolves the target, chooses between the proxy and
  its Mux clients, ends the link, and dials for the proxy, through another handler or from a chosen local address. The proxy, the Mux clients and the
  transports are arguments, given by the errors they return.
\<close>

section \<open>Configuration\<close>

record MultiplexingConfig =
  mx_Enabled :: bool
  mx_Concurrency :: int
  mx_XudpConcurrency :: int
  mx_XudpProxyUDP443 :: gostring

record SenderConfig =
  se_TargetStrategy :: DomainStrategy
  se_ProxyTag :: gostring
  se_Via :: "IPOrDomain option"
  se_ViaCidr :: gostring
  se_MultiplexSettings :: "MultiplexingConfig option"

text \<open>A Mux client manager: whether it is enabled and the limits of its workers.\<close>

record ClientManager =
  cm_Enabled :: bool
  cm_Strategy :: "ClientStrategy option"

record OutboundHandler =
  oh_tag :: gostring
  oh_senderSettings :: "SenderConfig option"
  oh_DialerProxy :: gostring
  oh_mux :: "ClientManager option"
  oh_xudp :: "ClientManager option"
  oh_udp443 :: gostring

definition limited_to :: "int \<Rightarrow> ClientManager" where
  "limited_to concurrency = \<lparr>cm_Enabled = True, cm_Strategy = Some \<lparr>MaxConcurrency = word_of_int concurrency, MaxConnection = 128\<rparr>\<rparr>"

definition setup_mux :: "MultiplexingConfig option \<Rightarrow> OutboundHandler \<Rightarrow> OutboundHandler" where
  "setup_mux settings h =
     (case settings of
        None \<Rightarrow> h
      | Some config \<Rightarrow>
          if \<not> mx_Enabled config then h
          else let m = (if mx_Concurrency config < 0 then Some \<lparr>cm_Enabled = False, cm_Strategy = None\<rparr> else oh_mux h);
                   concurrency = (if mx_Concurrency config = 0 then 8 else mx_Concurrency config);
                   m1 = (if concurrency > 0 then Some (limited_to concurrency) else m);
                   x = (if mx_XudpConcurrency config < 0 then Some \<lparr>cm_Enabled = False, cm_Strategy = None\<rparr>
                        else if mx_XudpConcurrency config = 0 then None
                        else Some (limited_to (mx_XudpConcurrency config)))
               in h\<lparr>oh_mux := m1, oh_xudp := x, oh_udp443 := mx_XudpProxyUDP443 config\<rparr>)"

definition NewOutboundHandler :: "gostring \<Rightarrow> SenderConfig option \<Rightarrow> gostring \<Rightarrow> OutboundHandler" where
  "NewOutboundHandler tag sender dialerProxy =
     setup_mux (Option.bind sender se_MultiplexSettings)
       \<lparr>oh_tag = tag, oh_senderSettings = sender, oh_DialerProxy = dialerProxy, oh_mux = None, oh_xudp = None, oh_udp443 = []\<rparr>"

section \<open>Dispatch\<close>

text \<open>The target is resolved if the settings have a strategy; only a forcing one makes a failed lookup the end. A target without an address panics.\<close>

definition resolve_target ::
  "dns_LookupIP option \<Rightarrow> (nat \<Rightarrow> nat) \<Rightarrow> OutboundHandler \<Rightarrow> Content option \<Rightarrow> Outbound \<Rightarrow> (goerr + Outbound) option" where
  "resolve_target dns intn h cont ob =
     (case oh_senderSettings h of
        None \<Rightarrow> Some (Inr ob)
      | Some se \<Rightarrow>
          if \<not> HasStrategy (se_TargetStrategy se) then Some (Inr ob)
          else case d_Address (ob_Target ob) of
                 None \<Rightarrow> None
               | Some a \<Rightarrow>
                   if \<not> IsDomain (Family a) \<or> (case cont of None \<Rightarrow> False | Some c \<Rightarrow> ct_SkipDNSResolve c) then Some (Inr ob)
                   else let s = (case d_Address (ob_OriginalTarget ob) of
                                   Some orig \<Rightarrow> if d_Network (ob_Target ob) = Network_UDP then GetDynamicStrategy (se_TargetStrategy se) (Family orig) else se_TargetStrategy se
                                 | None \<Rightarrow> se_TargetStrategy se)
                        in case LookupForIP dns (Address_Domain a) s None of
                             (ips, Some err) \<Rightarrow>
                               if ForceIP (se_TargetStrategy se) then Some (Inl (ENew ''failed to resolve ip for target '' (Some err))) else Some (Inr ob)
                           | (ips, None) \<Rightarrow>
                               if ips = [] then None
                               else Some (Inr (ob\<lparr>ob_Target := (ob_Target ob)\<lparr>d_Address := IPAddress (ips ! (intn (length ips) mod length ips))\<rparr>\<rparr>)))"

datatype handler_route = Rejected | ToXudp | ToMux | ToProxy

definition choose_route :: "OutboundHandler \<Rightarrow> Destination \<Rightarrow> handler_route" where
  "choose_route h target =
     (case oh_mux h of
        None \<Rightarrow> ToProxy
      | Some m \<Rightarrow>
          if d_Network target = Network_UDP \<and> d_Port target = 443 \<and> oh_udp443 h = str ''reject'' then Rejected
          else if d_Network target = Network_UDP \<and> d_Port target = 443 \<and> oh_udp443 h = str ''skip'' then ToProxy
          else case (if d_Network target = Network_UDP then oh_xudp h else None) of
                 Some x \<Rightarrow> if cm_Enabled x then ToXudp else ToProxy
               | None \<Rightarrow> if cm_Enabled m then ToMux else ToProxy)"

text \<open>What is done to the two ends of the link.\<close>

datatype end_action = WriterInterrupt | WriterClose | ReaderInterrupt

text \<open>The end of a link whose ends are overridden cannot be reached: neither \<open>Interrupt\<close> nor \<open>Close\<close> does anything.\<close>

definition effective :: "link_end \<times> link_end \<Rightarrow> end_action list \<Rightarrow> end_action list" where
  "effective link acts = filter (\<lambda>a. if a = ReaderInterrupt then le_override (fst link) = None else le_override (snd link) = None) acts"

definition Canceled :: goerr where "Canceled = ErrOther ''context canceled''"

text \<open>After \<open>Process\<close>: the error for the originator, and how the link ends.\<close>

definition after_process :: "goerr option \<Rightarrow> goerr option \<times> end_action list" where
  "after_process err =
     (let errC = map_option Cause err;
          err1 = (if errC = Some EOF \<or> errC = Some ErrClosedPipe \<or> errC = Some Canceled then None else err)
      in case err1 of
           Some e \<Rightarrow> (Some (ENew ''failed to process outbound traffic'' (Some e)), [WriterInterrupt, ReaderInterrupt])
         | None \<Rightarrow> (None, [if errC = Some ErrClosedPipe then WriterInterrupt else WriterClose, ReaderInterrupt]))"

definition after_mux :: "goerr option \<Rightarrow> goerr option \<times> end_action list" where
  "after_mux err =
     (case err of
        None \<Rightarrow> (None, [])
      | Some e \<Rightarrow> (Some (ENew ''failed to process mux outbound traffic'' (Some e)), [WriterInterrupt, ReaderInterrupt]))"

text \<open>
  The outcome of \<open>Dispatch\<close>: the outbound of the session, the link as the proxy or the Mux client got it, who that was, the error submitted to the originator and the effective
  ends of the link. \<open>run\<close> gives the error of the proxy or of the Mux client for what it got.
\<close>

record dispatch_outcome =
  do_outbound :: Outbound
  do_link :: "link_end \<times> link_end"
  do_route :: "handler_route option"
  do_error :: "goerr option"
  do_ends :: "end_action list"

definition Handler_Dispatch ::
  "dns_LookupIP option \<Rightarrow> (nat \<Rightarrow> nat) \<Rightarrow> (handler_route \<Rightarrow> Outbound \<Rightarrow> goerr option) \<Rightarrow> OutboundHandler \<Rightarrow> dctx \<Rightarrow> link_end \<times> link_end \<Rightarrow> dispatch_outcome option" where
  "Handler_Dispatch dns intn run h ctx link =
     (case last_ob ctx of
        None \<Rightarrow> None
      | Some ob0 \<Rightarrow>
          (case resolve_target dns intn h (dc_content ctx) ob0 of
             None \<Rightarrow> None
           | Some (Inl err) \<Rightarrow>
               Some \<lparr>do_outbound = ob0, do_link = link, do_route = None, do_error = Some err, do_ends = effective link [WriterInterrupt, ReaderInterrupt]\<rparr>
           | Some (Inr ob) \<Rightarrow>
               (let link1 = override_link ob link; route = choose_route h (ob_Target ob);
                    (err, ends) = (case route of
                       Rejected \<Rightarrow> after_mux (Some (ENew ''XUDP rejected UDP/443 traffic'' None))
                     | ToXudp \<Rightarrow> after_mux (run ToXudp ob)
                     | ToMux \<Rightarrow> after_mux (run ToMux ob)
                     | ToProxy \<Rightarrow> after_process (run ToProxy ob))
                in Some \<lparr>do_outbound = ob, do_link = link1, do_route = (if route = Rejected then None else Some route), do_error = err, do_ends = effective link1 ends\<rparr>)))"

section \<open>Dialing for the proxy\<close>

text \<open>\<open>net.ParseCIDR\<close> of an address and the text of a prefix length, and the network's address.\<close>

definition prefix_length :: "nat \<Rightarrow> gostring \<Rightarrow> nat option" where
  "prefix_length bits s = (if s \<noteq> [] \<and> list_all is_digit s \<and> decimal_value s \<le> bits then Some (decimal_value s) else None)"

fun ip_value :: "byte list \<Rightarrow> nat" where
  "ip_value [] = 0"
| "ip_value (b # bs) = unat b * 256 ^ length bs + ip_value bs"

fun ip_bytes :: "nat \<Rightarrow> nat \<Rightarrow> byte list" where
  "ip_bytes 0 n = []"
| "ip_bytes (Suc k) n = word_of_nat (n div 256 ^ k) # ip_bytes k (n mod 256 ^ k)"

definition network_start :: "nat \<Rightarrow> nat \<Rightarrow> byte list \<Rightarrow> nat" where
  "network_start bits ones ip = ip_value ip div 2 ^ (bits - ones) * 2 ^ (bits - ones)"

text \<open>
  \<open>ParseRandomIP\<close>: \<open>rnd\<close> is the result of \<open>rand.Int\<close> for the size of the network. The sum, padded to the length of the address, is read as an address again;
  a sum that does not fit panics.
\<close>

definition ParseRandomIP :: "(nat \<Rightarrow> nat) \<Rightarrow> Address option \<Rightarrow> gostring \<Rightarrow> (goerr + Address option) option" where
  "ParseRandomIP rnd addr cidr =
     (case addr of
        None \<Rightarrow> Some (Inl (ENew ''viaCidr requires an IP address in via'' None))
      | Some a \<Rightarrow>
          if \<not> IsIP (Family a) then Some (Inl (ENew ''viaCidr requires an IP address in via'' None))
          else let ip = Address_IP a; bits = 8 * length ip
               in case prefix_length bits cidr of
                    None \<Rightarrow> Some (Inl (ErrOther ''invalid CIDR address''))
                  | Some ones \<Rightarrow>
                      let rndInt = network_start bits ones ip + rnd (2 ^ (bits - ones))
                      in if 256 ^ length ip \<le> rndInt then None else Some (Inr (IPAddress (ip_bytes (length ip) rndInt))))"

text \<open>\<open>SetOutboundGateway\<close>: the local address to dial from. An inbound that is valid but has no address panics.\<close>

definition gateway_of :: "Destination \<Rightarrow> Address option \<Rightarrow> Address option option" where
  "gateway_of d old = (if \<not> Destination_IsValid d then Some old else case d_Address d of None \<Rightarrow> None | Some a \<Rightarrow> if IsIP (Family a) then Some (Some a) else Some old)"

definition via_domain :: "IPOrDomain \<Rightarrow> gostring" where
  "via_domain v = (case v of IPOrDomain_Domain s \<Rightarrow> s | _ \<Rightarrow> [])"

definition SetOutboundGateway :: "(nat \<Rightarrow> nat) \<Rightarrow> OutboundHandler \<Rightarrow> Inbound_session option \<Rightarrow> dial_Outbound \<Rightarrow> dial_Outbound option" where
  "SetOutboundGateway rnd h inbound ob =
     (case Option.bind (oh_senderSettings h) (\<lambda>se. map_option (Pair se) (se_Via se)) of
        None \<Rightarrow> Some ob
      | Some (se, via) \<Rightarrow>
          if ob_Gateway ob \<noteq> None \<or> se_ProxyTag se \<noteq> [] \<or> oh_DialerProxy h \<noteq> [] then Some ob
          else map_option (\<lambda>g. ob\<lparr>ob_Gateway := g\<rparr>)
            (if se_ViaCidr se \<noteq> [] then
               (case ParseRandomIP rnd (AsAddress (Some via)) (se_ViaCidr se) of None \<Rightarrow> None | Some (Inl err) \<Rightarrow> Some None | Some (Inr g) \<Rightarrow> Some g)
             else if via_domain via = str ''origin'' then
               (case inbound of None \<Rightarrow> Some None | Some i \<Rightarrow> gateway_of (Inbound_session.in_Local i) None)
             else if via_domain via = str ''srcip'' then
               (case inbound of None \<Rightarrow> Some None | Some i \<Rightarrow> gateway_of (Inbound_session.in_Source i) None)
             else Some (AsAddress (Some via))))"

text \<open>\<open>getUoTConnection\<close>: the version for one of the two magic addresses of UDP over TCP, which are arguments; \<open>None\<close> is \<open>os.ErrInvalid\<close>.\<close>

definition getUoTConnection :: "gostring \<Rightarrow> gostring \<Rightarrow> Destination \<Rightarrow> (goerr + bool) option" where
  "getUoTConnection magic legacy dest =
     (case d_Address dest of
        None \<Rightarrow> Some (Inl (ENew ''nil destination address'' None))
      | Some (domainAddress s) \<Rightarrow> if s = magic then Some (Inr True) else if s = legacy then Some (Inr False) else None
      | Some _ \<Rightarrow> None)"

text \<open>What \<open>Dial\<close> does: another handler gets a new outbound for the destination, UDP over TCP listens on a packet socket, or the transport dials.\<close>

datatype handler_dial = ThroughHandler Handler "dial_Outbound list" | DialFailed goerr | UoTListen bool | TransportDial "dial_Outbound list"

definition new_dial_outbound :: "Destination \<Rightarrow> gostring \<Rightarrow> dial_Outbound" where
  "new_dial_outbound dest tag = \<lparr>ob_OriginalTarget = zero_dest, ob_Target = dest, ob_RouteTarget = zero_dest, ob_Tag = tag, ob_Gateway = None, ob_Name = []\<rparr>"

definition dial_directly :: "gostring \<Rightarrow> gostring \<Rightarrow> dial_Outbound list \<Rightarrow> Destination \<Rightarrow> handler_dial" where
  "dial_directly magic legacy obs dest =
     (case getUoTConnection magic legacy dest of Some (Inl err) \<Rightarrow> DialFailed err | Some (Inr v) \<Rightarrow> UoTListen v | None \<Rightarrow> TransportDial obs)"

definition Handler_Dial ::
  "(nat \<Rightarrow> nat) \<Rightarrow> gostring \<Rightarrow> gostring \<Rightarrow> OutboundHandler \<Rightarrow> Manager \<Rightarrow> Inbound_session option \<Rightarrow> dial_Outbound list \<Rightarrow> Destination \<Rightarrow> handler_dial option" where
  "Handler_Dial rnd magic legacy h om inbound obs dest =
     (case oh_senderSettings h of
        None \<Rightarrow> Some (dial_directly magic legacy obs dest)
      | Some se \<Rightarrow>
          if se_ProxyTag se \<noteq> [] then
            (case GetHandler om (se_ProxyTag se) of
               Some handler \<Rightarrow> Some (ThroughHandler handler (obs @ [new_dial_outbound dest (se_ProxyTag se)]))
             | None \<Rightarrow> Some (DialFailed (ENew ''failed to get outbound handler with tag: '' None)))
          else if se_Via se \<noteq> None then
            (if obs = [] then None
             else map_option (\<lambda>ob. dial_directly magic legacy (butlast obs @ [ob]) dest) (SetOutboundGateway rnd h inbound (last obs)))
          else Some (dial_directly magic legacy obs dest))"

section \<open>The target\<close>

lemma resolve_target_ok:
  assumes "resolve_target dns intn h cont ob = Some (Inr ob')"
  shows "d_Port (ob_Target ob') = d_Port (ob_Target ob)" "d_Network (ob_Target ob') = d_Network (ob_Target ob)" "ob_OriginalTarget ob' = ob_OriginalTarget ob"
  using assms by (auto simp: resolve_target_def Let_def split: option.splits if_splits prod.splits)

lemma resolve_target_forced:
  assumes "resolve_target dns intn h cont ob = Some (Inr ob')" "oh_senderSettings h = Some se" "ForceIP (se_TargetStrategy se)"
    "\<forall>f. dns = Some f \<longrightarrow> dns_ok f" "case cont of None \<Rightarrow> True | Some c \<Rightarrow> \<not> ct_SkipDNSResolve c" "d_Address (ob_Target ob) = Some a" "IsDomain (Family a)"
  shows "\<exists>b. d_Address (ob_Target ob') = Some b \<and> IsIP (Family b) \<and> allows (se_TargetStrategy se) (Family b)"
proof -
  have hs: "HasStrategy (se_TargetStrategy se)" using assms(3) by (simp add: ForceIP_def HasStrategy_def)
  define s where "s = (case d_Address (ob_OriginalTarget ob) of
       Some orig \<Rightarrow> if d_Network (ob_Target ob) = Network_UDP then GetDynamicStrategy (se_TargetStrategy se) (Family orig) else se_TargetStrategy se
     | None \<Rightarrow> se_TargetStrategy se)"
  have al: "allows s g \<Longrightarrow> allows (se_TargetStrategy se) g" for g by (auto simp: s_def dest: dynamic_allows split: option.splits if_splits)
  have "resolve_target dns intn h cont ob = (case LookupForIP dns (Address_Domain a) s None of
       (ips, Some err) \<Rightarrow> Some (Inl (ENew ''failed to resolve ip for target '' (Some err)))
     | (ips, None) \<Rightarrow> if ips = [] then None
         else Some (Inr (ob\<lparr>ob_Target := (ob_Target ob)\<lparr>d_Address := IPAddress (ips ! (intn (length ips) mod length ips))\<rparr>\<rparr>)))"
    using assms(2,3,5-7) hs by (cases cont) (simp_all add: resolve_target_def Let_def s_def [symmetric])
  then obtain ips where l: "LookupForIP dns (Address_Domain a) s None = (ips, None)" "ips \<noteq> []"
      "ob' = ob\<lparr>ob_Target := (ob_Target ob)\<lparr>d_Address := IPAddress (ips ! (intn (length ips) mod length ips))\<rparr>\<rparr>"
    using assms(1) by (auto split: option.splits if_splits prod.splits)
  have "ips ! (intn (length ips) mod length ips) \<in> set ips" using l(2) by simp
  then obtain b where "IPAddress (ips ! (intn (length ips) mod length ips)) = Some b" "allows s (Family b)"
    using LookupForIP_ok [OF l(1) assms(4)] by blast
  then show ?thesis using l(3) al allows_IsIP by auto
qed

text \<open>
  C26. A forcing target strategy keeps names from the proxy: what the handler passes on, to the proxy or to a Mux client, has the port and the network of the target of the session,
  and if that target was a name and is to be resolved, an address that the strategy allows; UDP to port 443 is never passed on by a handler that rejects it.
\<close>

theorem forced_target_resolved:
  assumes "Handler_Dispatch dns intn run h ctx link = Some out" "do_route out = Some route" "last_ob ctx = Some ob"
    "oh_senderSettings h = Some se" "ForceIP (se_TargetStrategy se)" "\<forall>f. dns = Some f \<longrightarrow> dns_ok f"
    "case dc_content ctx of None \<Rightarrow> True | Some c \<Rightarrow> \<not> ct_SkipDNSResolve c"
  shows "d_Port (ob_Target (do_outbound out)) = d_Port (ob_Target ob) \<and> d_Network (ob_Target (do_outbound out)) = d_Network (ob_Target ob)
    \<and> (\<exists>a b. d_Address (ob_Target ob) = Some a \<and> d_Address (ob_Target (do_outbound out)) = Some b
         \<and> (if IsDomain (Family a) then IsIP (Family b) \<and> allows (se_TargetStrategy se) (Family b) else b = a))
    \<and> \<not> (oh_mux h \<noteq> None \<and> oh_udp443 h = str ''reject'' \<and> d_Network (ob_Target ob) = Network_UDP \<and> d_Port (ob_Target ob) = 443)"
proof -
  have hs: "HasStrategy (se_TargetStrategy se)" using assms(5) by (simp add: ForceIP_def HasStrategy_def)
  obtain ob' where r: "resolve_target dns intn h (dc_content ctx) ob = Some (Inr ob')" "do_outbound out = ob'" "choose_route h (ob_Target ob') \<noteq> Rejected"
    using assms(1-3) by (auto simp: Handler_Dispatch_def Let_def split: option.splits sum.splits prod.splits if_splits)
  obtain a where a: "d_Address (ob_Target ob) = Some a" using r(1) assms(4) hs by (auto simp: resolve_target_def split: option.splits)
  have b: "\<exists>b. d_Address (ob_Target ob') = Some b \<and> (if IsDomain (Family a) then IsIP (Family b) \<and> allows (se_TargetStrategy se) (Family b) else b = a)"
  proof (cases "IsDomain (Family a)")
    case True
    then show ?thesis using resolve_target_forced [OF r(1) assms(4-7) a True] by simp
  next
    case False
    then have "ob' = ob" using r(1) assms(4) hs a by (simp add: resolve_target_def)
    then show ?thesis using a False by simp
  qed
  have "\<not> (oh_mux h \<noteq> None \<and> oh_udp443 h = str ''reject'' \<and> d_Network (ob_Target ob') = Network_UDP \<and> d_Port (ob_Target ob') = 443)"
    using r(3) by (auto simp: choose_route_def split: option.splits)
  then show ?thesis using resolve_target_ok [OF r(1)] r(2) a b by auto
qed

definition demo_handler :: OutboundHandler where
  "demo_handler = NewOutboundHandler [104] (Some \<lparr>se_TargetStrategy = FORCE_IP4, se_ProxyTag = [], se_Via = None, se_ViaCidr = [],
     se_MultiplexSettings = Some \<lparr>mx_Enabled = True, mx_Concurrency = 0, mx_XudpConcurrency = 4, mx_XudpProxyUDP443 = str ''reject''\<rparr>\<rparr>) []"

definition demo_handler_ctx :: "Network \<Rightarrow> dctx" where
  "demo_handler_ctx net = \<lparr>dc_outbounds = [zero_outbound\<lparr>ob_Target := \<lparr>d_Address = Some (domainAddress [97]), d_Port = 80, d_Network = net\<rparr>\<rparr>], dc_content = None, dc_inbound = None, dc_Detour = None\<rparr>"

definition demo_plain_link :: "link_end \<times> link_end" where
  "demo_plain_link = (\<lparr>le_pipe = 0, le_override = None\<rparr>, \<lparr>le_pipe = 1, le_override = None\<rparr>)"

theorem forced_target_resolved_witness:
  "\<exists>out. Handler_Dispatch (Some demo_dns) (\<lambda>_. 0) (\<lambda>_ _. None) demo_handler (demo_handler_ctx Network_TCP) demo_plain_link = Some out
     \<and> do_route out = Some ToMux \<and> (\<exists>b. d_Address (ob_Target (do_outbound out)) = Some b \<and> IsIP (Family b))"
proof -
  let ?ob = "zero_outbound\<lparr>ob_Target := \<lparr>d_Address = Some (domainAddress [97]), d_Port = 80, d_Network = Network_TCP\<rparr>\<rparr>"
  let ?se = "\<lparr>se_TargetStrategy = FORCE_IP4, se_ProxyTag = [], se_Via = None, se_ViaCidr = [],
     se_MultiplexSettings = Some \<lparr>mx_Enabled = True, mx_Concurrency = 0, mx_XudpConcurrency = 4, mx_XudpProxyUDP443 = str ''reject''\<rparr>\<rparr>"
  have h: "oh_senderSettings demo_handler = Some ?se" by (simp add: demo_handler_def NewOutboundHandler_def setup_mux_def Let_def)
  obtain out where o: "Handler_Dispatch (Some demo_dns) (\<lambda>_. 0) (\<lambda>_ _. None) demo_handler (demo_handler_ctx Network_TCP) demo_plain_link = Some out" "do_route out = Some ToMux"
    by (simp add: Handler_Dispatch_def demo_handler_ctx_def demo_handler_def NewOutboundHandler_def setup_mux_def limited_to_def resolve_target_def LookupForIP_def demo_dns_def
        HasStrategy_def PreferIP4_def PreferIP6_def HasFallback_def IsDomain_def choose_route_def override_link_def last_ob_def zero_outbound_def zero_dest_def after_mux_def Let_def)
  have c: "last_ob (demo_handler_ctx Network_TCP) = Some ?ob" "case dc_content (demo_handler_ctx Network_TCP) of None \<Rightarrow> True | Some c \<Rightarrow> \<not> ct_SkipDNSResolve c"
    by (simp_all add: last_ob_def demo_handler_ctx_def)
  have d: "\<forall>f. Some demo_dns = Some f \<longrightarrow> dns_ok f" using demo_dns_ok by (simp add: demo_dial_def)
  have f: "ForceIP (se_TargetStrategy ?se)" by (simp add: ForceIP_def)
  show ?thesis using forced_target_resolved [OF o c(1) h f d c(2)] o by (auto simp: IsDomain_def)
qed

section \<open>The link\<close>

text \<open>A link that is not overridden is ended: by the handler after the proxy has returned, or when a Mux client failed.\<close>

lemma link_ended:
  assumes "Handler_Dispatch dns intn run h ctx link = Some out" "le_override (fst (do_link out)) = None" "le_override (snd (do_link out)) = None"
    "do_route out = Some ToProxy \<or> do_error out \<noteq> None"
  shows "ReaderInterrupt \<in> set (do_ends out) \<and> (WriterInterrupt \<in> set (do_ends out) \<or> WriterClose \<in> set (do_ends out))"
  using assms by (auto simp: Handler_Dispatch_def Let_def effective_def after_process_def after_mux_def split: option.splits sum.splits prod.splits if_splits handler_route.splits)

text \<open>The ends of a UDP link whose target was overridden are never closed, although the proxy has returned.\<close>

theorem overridden_link_left_open:
  "\<exists>out. Handler_Dispatch None (\<lambda>_. 0) (\<lambda>_ _. Some EOF) (NewOutboundHandler [104] None []) (demo_udp_ctx (Some (domainAddress [97]))) demo_plain_link = Some out
     \<and> do_route out = Some ToProxy \<and> do_ends out = []"
  by (simp add: Handler_Dispatch_def NewOutboundHandler_def setup_mux_def resolve_target_def demo_udp_ctx_def last_ob_def override_link_def choose_route_def after_process_def effective_def
      demo_plain_link_def zero_outbound_def Let_def)

section \<open>Local addresses\<close>

lemma length_ip_bytes [simp]: "length (ip_bytes k n) = k"
  by (induction k arbitrary: n) simp_all

lemma ip_value_less: "ip_value bs < 256 ^ length bs"
proof (induction bs)
  case (Cons b bs)
  have "unat b < 256" using unsigned_less [of b] by simp
  then have "unat b * 256 ^ length bs + ip_value bs < (unat b + 1) * 256 ^ length bs" using Cons by simp
  also have "\<dots> \<le> 256 * 256 ^ length bs" using \<open>unat b < 256\<close> by (intro mult_right_mono) simp_all
  finally show ?case by simp
qed simp

lemma ip_value_ip_bytes: "n < 256 ^ k \<Longrightarrow> ip_value (ip_bytes k n) = n"
proof (induction k arbitrary: n)
  case (Suc k)
  have "n div 256 ^ k < 256" using Suc.prems by (simp add: less_mult_imp_div_less)
  then have "unat (word_of_nat (n div 256 ^ k) :: byte) = n div 256 ^ k" by (simp add: unat_of_nat)
  moreover have "n mod 256 ^ k < 256 ^ k" by simp
  ultimately show ?case using Suc.IH [of "n mod 256 ^ k"] div_mult_mod_eq [of n "256 ^ k"] by simp
qed simp

text \<open>
  C40. A random local address lies in its network: for an address and a prefix length within its bits, \<open>ParseRandomIP\<close> returns, without a panic, the address of the same length
  whose leading bits are those of the given one.
\<close>

theorem random_ip_in_network:
  assumes "\<And>n. 0 < n \<Longrightarrow> rnd n < n" "IsIP (Family a)" "prefix_length (8 * length (Address_IP a)) cidr = Some ones"
  shows "\<exists>bs. ParseRandomIP rnd (Some a) cidr = Some (Inr (IPAddress bs)) \<and> length bs = length (Address_IP a)
     \<and> ip_value bs div 2 ^ (8 * length (Address_IP a) - ones) = ip_value (Address_IP a) div 2 ^ (8 * length (Address_IP a) - ones)"
proof -
  define len where "len = length (Address_IP a)"
  define m where "m = (2 :: nat) ^ (8 * len - ones)"
  define v where "v = network_start (8 * len) ones (Address_IP a) + rnd m"
  have ones: "ones \<le> 8 * len" using assms(3) by (auto simp: prefix_length_def len_def split: if_splits)
  have m: "0 < m" "rnd m < m" using assms(1) [of m] by (simp_all add: m_def)
  have v: "v = ip_value (Address_IP a) div m * m + rnd m" by (simp add: v_def network_start_def m_def)
  have d: "v div m = ip_value (Address_IP a) div m" using m v by simp
  have "(256 :: nat) ^ len = 2 ^ (8 * len)" by (simp add: power_mult)
  also have "\<dots> = 2 ^ ones * m" using ones by (simp add: m_def power_add [symmetric])
  finally have p: "256 ^ len = 2 ^ ones * m" .
  have "ip_value (Address_IP a) div m < 2 ^ ones" using ip_value_less [of "Address_IP a"] p by (simp add: len_def less_mult_imp_div_less)
  then have "v < 256 ^ len" using m d p by (metis div_less_iff_less_mult)
  then have "ParseRandomIP rnd (Some a) cidr = Some (Inr (IPAddress (ip_bytes len v)))" "ip_value (ip_bytes len v) = v"
    using assms(2,3) ip_value_ip_bytes by (simp_all add: ParseRandomIP_def Let_def v_def m_def len_def)
  then show ?thesis using d by (intro exI [of _ "ip_bytes len v"]) (simp add: m_def len_def)
qed

theorem random_ip_in_network_witness:
  "\<exists>bs. ParseRandomIP (\<lambda>_. 0) (Some (ipv4Address [10, 1, 2, 3])) (str ''24'') = Some (Inr (IPAddress bs)) \<and> length bs = 4
     \<and> ip_value bs div 2 ^ 8 = ip_value [10, 1, 2, 3] div 2 ^ 8"
proof -
  have "prefix_length (8 * length (Address_IP (ipv4Address [10, 1, 2, 3]))) (str ''24'') = Some 24" by (simp add: prefix_length_def str_def is_digit_def decimal_value_def)
  from random_ip_in_network [OF _ _ this, of "\<lambda>_. 0"]
  obtain bs where "ParseRandomIP (\<lambda>_. 0) (Some (ipv4Address [10, 1, 2, 3])) (str ''24'') = Some (Inr (IPAddress bs))" "length bs = length [10, 1, 2, 3 :: byte]"
     "ip_value bs div 2 ^ 8 = ip_value [10, 1, 2, 3] div 2 ^ 8" by (auto simp: IsIP_def)
  then show ?thesis by (intro exI [of _ bs]) simp
qed

text \<open>Dialing through another outbound or failing: with a proxy tag the handler never dials itself.\<close>

lemma proxy_tag_not_bypassed:
  "oh_senderSettings h = Some se \<Longrightarrow> se_ProxyTag se \<noteq> [] \<Longrightarrow> Handler_Dial rnd magic legacy h om inbound obs dest
     = Some (case GetHandler om (se_ProxyTag se) of Some handler \<Rightarrow> ThroughHandler handler (obs @ [new_dial_outbound dest (se_ProxyTag se)])
             | None \<Rightarrow> DialFailed (ENew ''failed to get outbound handler with tag: '' None))"
  by (simp add: Handler_Dial_def split: option.splits)

end
