(* ===== verification/Udp_Worker.thy ===== *)
theory Udp_Worker
  imports Dispatcher Pipe Freedom
begin

text \<open>
  \<open>app/proxyman/inbound/worker.go\<close>: the workers of an inbound handler. The UDP worker keeps a table of connections by source (and destination, unless cone), with a goroutine for
  each, a checker that ends idle ones, and a loop that receives packets; each locked section is a step. Of the TCP worker, the choice of the
  target and the check for loops. Sockets, the proxy and the clock (seconds) are arguments or steps.
\<close>

section \<open>Sessions\<close>

record SniffingConfig =
  sn_Enabled :: bool
  sn_DestinationOverride :: "gostring list"
  sn_DomainsExcluded :: "gostring list"
  sn_MetadataOnly :: bool
  sn_RouteOnly :: bool

definition worker_content :: "SniffingConfig option \<Rightarrow> Content" where
  "worker_content config =
     (case config of
        None \<Rightarrow> zero_content
      | Some c \<Rightarrow> zero_content\<lparr>ct_SniffingRequest := \<lparr>sr_ExcludeForDomain = sn_DomainsExcluded c, sr_OverrideDestinationForProtocol = sn_DestinationOverride c,
           sr_Enabled = sn_Enabled c, sr_MetadataOnly = sn_MetadataOnly c, sr_RouteOnly = sn_RouteOnly c\<rparr>\<rparr>)"

definition worker_ctx :: "Destination \<Rightarrow> Destination \<Rightarrow> Destination \<Rightarrow> gostring \<Rightarrow> SniffingConfig option \<Rightarrow> dctx" where
  "worker_ctx target source localaddr tag config =
     \<lparr>dc_outbounds = [zero_outbound\<lparr>ob_Target := target\<rparr>], dc_content = Some (worker_content config),
      dc_inbound = Some \<lparr>in_Source = source, in_Local = localaddr, in_Tag = tag, in_User = None, in_VlessRoute = 0\<rparr>, dc_Detour = None\<rparr>"

section \<open>TCP\<close>

datatype TProxyMode = TProxy_Off | TProxy_TProxy | TProxy_Redirect

record tcpWorker =
  tw_address :: Address
  tw_port :: Port
  tw_tproxy :: TProxyMode
  tw_recvOrigDest :: bool
  tw_tag :: gostring
  tw_sniffingConfig :: "SniffingConfig option"

text \<open>\<open>original\<close> is the result of \<open>GetOriginalDestination\<close>, \<open>hub\<close> the text of the listening address, \<open>isLocal\<close> whether an address is one of this host's.\<close>

definition original_target :: "(goerr + Destination) \<Rightarrow> Destination \<Rightarrow> tcpWorker \<Rightarrow> Destination" where
  "original_target original localaddr w =
     (if \<not> tw_recvOrigDest w then zero_dest
      else case tw_tproxy w of
             TProxy_Redirect \<Rightarrow> (case original of Inl err \<Rightarrow> zero_dest | Inr d \<Rightarrow> d)
           | TProxy_TProxy \<Rightarrow> localaddr
           | TProxy_Off \<Rightarrow> zero_dest)"

definition is_loopback :: "(byte list \<Rightarrow> bool) \<Rightarrow> gostring \<Rightarrow> (Destination \<Rightarrow> gostring) \<Rightarrow> tcpWorker \<Rightarrow> Destination \<Rightarrow> bool option" where
  "is_loopback isLocal hub NetAddr w dest =
     (if tw_address w = AnyIP \<or> tw_address w = AnyIPv6
      then if d_Port dest = tw_port w then (case d_Address dest of None \<Rightarrow> None | Some a \<Rightarrow> if IsIP (Family a) then Some (isLocal (Address_IP a)) else None) else Some False
      else Some (hub = NetAddr dest))"

text \<open>The context that the proxy gets, or \<open>None\<close> within for a connection that is closed as a loop.\<close>

definition tcp_callback ::
  "(byte list \<Rightarrow> bool) \<Rightarrow> gostring \<Rightarrow> (Destination \<Rightarrow> gostring) \<Rightarrow> (goerr + Destination) \<Rightarrow> Destination \<Rightarrow> Destination \<Rightarrow> tcpWorker \<Rightarrow> dctx option option" where
  "tcp_callback isLocal hub NetAddr original source localaddr w =
     (let dest = original_target original localaddr w
      in if Destination_IsValid dest
         then (case is_loopback isLocal hub NetAddr w dest of
                 None \<Rightarrow> None
               | Some True \<Rightarrow> Some None
               | Some False \<Rightarrow> Some (Some (worker_ctx dest source localaddr (tw_tag w) (tw_sniffingConfig w))))
         else Some (Some (worker_ctx zero_dest source localaddr (tw_tag w) (tw_sniffingConfig w))))"

section \<open>UDP\<close>

record connID =
  ci_src :: Destination
  ci_dest :: Destination

text \<open>The goroutine of a connection: not started, in \<open>Process\<close>, after \<open>conn.Close\<close>, about to remove the connection, or ended.\<close>

datatype conn_phase = Fresh | Serving | AfterClose | Removing | Ended

record udpConn =
  uc_id :: connID
  uc_lastActivityTime :: int
  uc_pipe :: pipe
  uc_done :: bool
  uc_inactive :: bool
  uc_phase :: conn_phase

record udpWorker =
  uw_conns :: "udpConn list"
  uw_activeConn :: "(connID \<times> nat) list"
  uw_checker :: bool
  uw_cone :: bool
  uw_pool :: pool

definition upd_conn :: "nat \<Rightarrow> (udpConn \<Rightarrow> udpConn) \<Rightarrow> udpWorker \<Rightarrow> udpWorker" where
  "upd_conn k f w = w\<lparr>uw_conns := (uw_conns w)[k := f (uw_conns w ! k)]\<rparr>"

definition updateActivity :: "int \<Rightarrow> udpConn \<Rightarrow> udpConn" where
  "updateActivity now c = c\<lparr>uc_lastActivityTime := now\<rparr>"

definition udpConn_Close :: "udpConn \<Rightarrow> udpConn" where
  "udpConn_Close c = c\<lparr>uc_done := True, uc_pipe := pipe_Close (uc_pipe c)\<rparr>"

definition packet_id :: "bool \<Rightarrow> Destination \<Rightarrow> Destination \<Rightarrow> connID" where
  "packet_id cone source originalDest =
     \<lparr>ci_src = source, ci_dest = (if Destination_IsValid originalDest \<and> \<not> cone then originalDest else zero_dest)\<rparr>"

definition new_conn :: "int \<Rightarrow> connID \<Rightarrow> udpConn" where
  "new_conn now i = \<lparr>uc_id = i, uc_lastActivityTime = now, uc_pipe = pipe_New (16 * 1024) True, uc_done = False, uc_inactive = False, uc_phase = Fresh\<rparr>"

definition getConnection :: "int \<Rightarrow> connID \<Rightarrow> udpWorker \<Rightarrow> nat \<times> bool \<times> udpWorker" where
  "getConnection now i w =
     (case map_of (uw_activeConn w) i of
        Some k \<Rightarrow>
          if \<not> uc_done (uw_conns w ! k) then (k, True, upd_conn k (updateActivity now) w)
          else (length (uw_conns w), False,
                w\<lparr>uw_conns := uw_conns w @ [new_conn now i], uw_activeConn := AList.update i (length (uw_conns w)) (uw_activeConn w)\<rparr>)
      | None \<Rightarrow> (length (uw_conns w), False,
                w\<lparr>uw_conns := uw_conns w @ [new_conn now i], uw_activeConn := AList.update i (length (uw_conns w)) (uw_activeConn w)\<rparr>))"

text \<open>The context of a connection: a worker that listens on every address says so in the family of the source.\<close>

definition udp_local :: "Destination \<Rightarrow> Destination \<Rightarrow> Destination option" where
  "udp_local source hub =
     (if d_Address hub = Some AnyIP \<or> d_Address hub = Some AnyIPv6
      then map_option (\<lambda>a. if Family a = AddressFamilyIPv4 then hub\<lparr>d_Address := Some AnyIP\<rparr> else if Family a = AddressFamilyIPv6 then hub\<lparr>d_Address := Some AnyIPv6\<rparr> else hub) (d_Address source)
      else Some hub)"

definition udp_ctx :: "Destination \<Rightarrow> gostring \<Rightarrow> SniffingConfig option \<Rightarrow> Destination \<Rightarrow> Destination \<Rightarrow> dctx option" where
  "udp_ctx hub tag config source originalDest =
     map_option (\<lambda>l. worker_ctx (if Destination_IsValid originalDest then originalDest else zero_dest) source l tag config) (udp_local source hub)"

text \<open>The packet, with its destination, goes into the pipe of the connection, or is dropped if the pipe is full or closed.\<close>

definition packet_of :: "Destination \<Rightarrow> Buffer \<Rightarrow> Buffer" where
  "packet_of originalDest b = (if Destination_IsValid originalDest then b\<lparr>b_UDP := Some originalDest\<rparr> else b)"

definition deliver :: "nat \<Rightarrow> Buffer \<Rightarrow> udpWorker \<Rightarrow> udpWorker" where
  "deliver k b w =
     (if MB_IsEmpty [Some b] then w
      else case writeMultiBufferInternal (uc_pipe (uw_conns w ! k)) [Some b] of
             (None, p1) \<Rightarrow> upd_conn k (\<lambda>c. c\<lparr>uc_pipe := p1\<lparr>pp_readSignal := Signal (pp_readSignal p1)\<rparr>\<rparr>) w
           | (Some e, p1) \<Rightarrow>
               let w1 = w\<lparr>uw_pool := snd (ReleaseMulti [Some b] (uw_pool w))\<rparr>
               in if e = errBufferFull then w1 else upd_conn k (\<lambda>c. c\<lparr>uc_pipe := p1\<lparr>pp_readSignal := Signal (pp_readSignal p1)\<rparr>\<rparr>) w1)"

text \<open>The proxy reads packets from the connection, without waiting, and writes packets to the source of the connection; either way the connection was active, unless there was an error.\<close>

definition udpConn_Read :: "int \<Rightarrow> udpConn \<Rightarrow> udpConn" where
  "udpConn_Read now c =
     (case readMultiBufferInternal (uc_pipe c) of
        (d, Some e, p1) \<Rightarrow> c\<lparr>uc_pipe := p1\<lparr>pp_writeSignal := Signal (pp_writeSignal p1)\<rparr>\<rparr>
      | (None, None, p1) \<Rightarrow> c\<lparr>uc_pipe := p1\<rparr>
      | (Some d, None, p1) \<Rightarrow> updateActivity now (c\<lparr>uc_pipe := p1\<lparr>pp_writeSignal := Signal (pp_writeSignal p1)\<rparr>\<rparr>))"

definition udpConn_Write :: "int \<Rightarrow> goerr option \<Rightarrow> udpConn \<Rightarrow> udpConn" where
  "udpConn_Write now err c = (if err = None then updateActivity now c else c)"

definition removeConn :: "connID \<Rightarrow> udpWorker \<Rightarrow> udpWorker" where
  "removeConn i w = w\<lparr>uw_activeConn := AList.delete i (uw_activeConn w)\<rparr>"

definition conn_idle :: "int \<Rightarrow> udpWorker \<Rightarrow> nat \<Rightarrow> bool" where
  "conn_idle now w k \<longleftrightarrow> now - uc_lastActivityTime (uw_conns w ! k) > 2 * 60"

text \<open>\<open>clean\<close>: an idle connection is closed, and removed unless its goroutine is about to.\<close>

definition clean_conn :: "int \<Rightarrow> udpWorker \<Rightarrow> nat \<Rightarrow> udpConn" where
  "clean_conn now w k =
     (if conn_idle now w k \<and> k \<in> snd ` set (uw_activeConn w) then (udpConn_Close (uw_conns w ! k))\<lparr>uc_inactive := True\<rparr> else uw_conns w ! k)"

definition udp_clean :: "int \<Rightarrow> udpWorker \<Rightarrow> goerr option \<times> udpWorker" where
  "udp_clean now w =
     (if uw_activeConn w = [] then (Some (ENew ''no more connections. stopping...'' None), w)
      else (None,
        w\<lparr>uw_activeConn := filter (\<lambda>(i, k). \<not> (conn_idle now w k \<and> \<not> uc_inactive (uw_conns w ! k))) (uw_activeConn w),
          uw_conns := map (clean_conn now w) [0..<length (uw_conns w)]\<rparr>))"

text \<open>The checker is a periodic task: \<open>Start\<close> runs \<open>clean\<close> unless it is running, and a tick runs it again; an error ends it.\<close>

definition checker_Start :: "int \<Rightarrow> udpWorker \<Rightarrow> goerr option \<times> udpWorker" where
  "checker_Start now w =
     (if uw_checker w then (None, w) else case udp_clean now w of (err, w1) \<Rightarrow> (err, w1\<lparr>uw_checker := (err = None)\<rparr>))"

definition checker_tick :: "int \<Rightarrow> udpWorker \<Rightarrow> udpWorker" where
  "checker_tick now w = (if uw_checker w then case udp_clean now w of (err, w1) \<Rightarrow> w1\<lparr>uw_checker := (err = None)\<rparr> else w)"

text \<open>The loop that receives packets: waiting, with a connection to write to, or about to start the checker and the goroutine.\<close>

datatype receiver = Waiting | Writing nat bool Buffer | Starting nat | Panicked

record udp_system =
  us_worker :: udpWorker
  us_now :: int
  us_receiver :: receiver

datatype udp_event = Receive Destination Destination Buffer | WritePacket | StartConn | ConnRead nat | ConnWrite nat "goerr option" | ProcessEnds nat | EndCheck nat | EndRemove nat | Tick | Later int

inductive udp_step :: "udp_system \<Rightarrow> udp_event \<Rightarrow> udp_system \<Rightarrow> bool" where
  u_receive: "us_receiver s = Waiting \<Longrightarrow> getConnection (us_now s) (packet_id (uw_cone (us_worker s)) source dest) (us_worker s) = (k, existing, w) \<Longrightarrow>
    udp_step s (Receive source dest b) (s\<lparr>us_worker := w, us_receiver := Writing k existing (packet_of dest b)\<rparr>)"
| u_write: "us_receiver s = Writing k existing b \<Longrightarrow>
    udp_step s WritePacket (s\<lparr>us_worker := deliver k b (us_worker s), us_receiver := (if existing then Waiting else Starting k)\<rparr>)"
| u_start: "us_receiver s = Starting k \<Longrightarrow> checker_Start (us_now s) (us_worker s) = (err, w) \<Longrightarrow>
    udp_step s StartConn (if err = None then s\<lparr>us_worker := upd_conn k (\<lambda>c. c\<lparr>uc_phase := Serving\<rparr>) w, us_receiver := Waiting\<rparr>
       else s\<lparr>us_worker := w, us_receiver := Panicked\<rparr>)"
| u_read: "k < length (uw_conns (us_worker s)) \<Longrightarrow> uc_phase (uw_conns (us_worker s) ! k) = Serving \<Longrightarrow>
    udp_step s (ConnRead k) (s\<lparr>us_worker := upd_conn k (udpConn_Read (us_now s)) (us_worker s)\<rparr>)"
| u_send: "k < length (uw_conns (us_worker s)) \<Longrightarrow> uc_phase (uw_conns (us_worker s) ! k) = Serving \<Longrightarrow>
    udp_step s (ConnWrite k err) (s\<lparr>us_worker := upd_conn k (udpConn_Write (us_now s) err) (us_worker s)\<rparr>)"
| u_ends: "k < length (uw_conns (us_worker s)) \<Longrightarrow> uc_phase (uw_conns (us_worker s) ! k) = Serving \<Longrightarrow>
    udp_step s (ProcessEnds k) (s\<lparr>us_worker := upd_conn k (\<lambda>c. (udpConn_Close c)\<lparr>uc_phase := AfterClose\<rparr>) (us_worker s)\<rparr>)"
| u_checks: "k < length (uw_conns (us_worker s)) \<Longrightarrow> uc_phase (uw_conns (us_worker s) ! k) = AfterClose \<Longrightarrow>
    udp_step s (EndCheck k) (s\<lparr>us_worker := upd_conn k (\<lambda>c. if uc_inactive c then c\<lparr>uc_phase := Ended\<rparr> else c\<lparr>uc_inactive := True, uc_phase := Removing\<rparr>) (us_worker s)\<rparr>)"
| u_removes: "k < length (uw_conns (us_worker s)) \<Longrightarrow> uc_phase (uw_conns (us_worker s) ! k) = Removing \<Longrightarrow>
    udp_step s (EndRemove k) (s\<lparr>us_worker := upd_conn k (\<lambda>c. c\<lparr>uc_phase := Ended\<rparr>) (removeConn (uc_id (uw_conns (us_worker s) ! k)) (us_worker s))\<rparr>)"
| u_tick: "udp_step s Tick (s\<lparr>us_worker := checker_tick (us_now s) (us_worker s)\<rparr>)"
| u_later: "0 \<le> d \<Longrightarrow> udp_step s (Later d) (s\<lparr>us_now := us_now s + d\<rparr>)"

inductive_cases udp_stepE: "udp_step s e s'"

definition udp_start :: "bool \<Rightarrow> int \<Rightarrow> udp_system" where
  "udp_start cone now = \<lparr>us_worker = \<lparr>uw_conns = [], uw_activeConn = [], uw_checker = False, uw_cone = cone, uw_pool = []\<rparr>, us_now = now, us_receiver = Waiting\<rparr>"

text \<open>
  A run in which no packet arrives for a connection that is closed but still in the table, and no time passes while a packet is handled.
\<close>

definition quiet_event :: "udp_system \<Rightarrow> udp_event \<Rightarrow> bool" where
  "quiet_event s e =
     (case e of
        Receive source dest b \<Rightarrow> (case map_of (uw_activeConn (us_worker s)) (packet_id (uw_cone (us_worker s)) source dest) of None \<Rightarrow> True | Some k \<Rightarrow> \<not> uc_done (uw_conns (us_worker s) ! k))
      | Later d \<Rightarrow> us_receiver s = Waiting
      | _ \<Rightarrow> True)"

inductive udp_run :: "udp_system \<Rightarrow> udp_event list \<Rightarrow> udp_system \<Rightarrow> bool" where
  run_nil: "udp_run s [] s"
| run_snoc: "udp_run s es s1 \<Longrightarrow> udp_step s1 e s2 \<Longrightarrow> udp_run s (es @ [e]) s2"

inductive quiet_udp_run :: "udp_system \<Rightarrow> udp_event list \<Rightarrow> udp_system \<Rightarrow> bool" where
  quiet_nil: "quiet_udp_run s [] s"
| quiet_snoc: "quiet_udp_run s es s1 \<Longrightarrow> quiet_event s1 e \<Longrightarrow> udp_step s1 e s2 \<Longrightarrow> quiet_udp_run s (es @ [e]) s2"

section \<open>Quiet runs\<close>

text \<open>The table files connections under their own ids; a connection in it is found by its packets until its goroutine ends or it is idle.\<close>

definition table_ok :: "udpWorker \<Rightarrow> bool" where
  "table_ok w \<longleftrightarrow> distinct (map fst (uw_activeConn w)) \<and> (\<forall>(i, k) \<in> set (uw_activeConn w). k < length (uw_conns w) \<and> uc_id (uw_conns w ! k) = i)"

definition conn_ok :: "(connID \<times> nat) list \<Rightarrow> nat \<Rightarrow> udpConn \<Rightarrow> bool" where
  "conn_ok act k c \<longleftrightarrow> (uc_phase c = Fresh \<or> uc_phase c = Serving \<longrightarrow> uc_done c = uc_inactive c) \<and> (uc_phase c = Removing \<longrightarrow> uc_inactive c)
     \<and> ((uc_phase c = Fresh \<or> uc_phase c = Serving \<or> uc_phase c = AfterClose) \<and> \<not> uc_inactive c \<or> uc_phase c = Removing \<longrightarrow> map_of act (uc_id c) = Some k)"

definition worker_ok :: "udpWorker \<Rightarrow> bool" where
  "worker_ok w \<longleftrightarrow> table_ok w \<and> (\<forall>k < length (uw_conns w). conn_ok (uw_activeConn w) k (uw_conns w ! k))"

text \<open>The connection that the receiver has just made.\<close>

definition fresh_ok :: "int \<Rightarrow> nat \<Rightarrow> udpWorker \<Rightarrow> bool" where
  "fresh_ok now k w \<longleftrightarrow> k < length (uw_conns w) \<and> uc_phase (uw_conns w ! k) = Fresh \<and> \<not> uc_inactive (uw_conns w ! k) \<and> uc_lastActivityTime (uw_conns w ! k) = now"

definition receiver_ok :: "int \<Rightarrow> receiver \<Rightarrow> udpWorker \<Rightarrow> bool" where
  "receiver_ok now r w = (case r of Waiting \<Rightarrow> True | Writing k existing b \<Rightarrow> if existing then k < length (uw_conns w) else fresh_ok now k w
     | Starting k \<Rightarrow> fresh_ok now k w | Panicked \<Rightarrow> False)"

lemma upd_conn_sel [simp]: "length (uw_conns (upd_conn k f w)) = length (uw_conns w)" "uw_activeConn (upd_conn k f w) = uw_activeConn w" "uw_checker (upd_conn k f w) = uw_checker w"
  by (simp_all add: upd_conn_def)

lemma upd_conn_nth [simp]: "k < length (uw_conns w) \<Longrightarrow> uw_conns (upd_conn k f w) ! j = (if j = k then f (uw_conns w ! k) else uw_conns w ! j)"
  by (simp add: upd_conn_def nth_list_update)

lemma table_entry: "table_ok w \<Longrightarrow> map_of (uw_activeConn w) i = Some k \<Longrightarrow> k < length (uw_conns w) \<and> uc_id (uw_conns w ! k) = i"
  by (auto simp: table_ok_def dest!: map_of_SomeD)

text \<open>A change of one connection that keeps its id keeps the rest.\<close>

lemma worker_ok_upd:
  assumes "worker_ok w" "k < length (uw_conns w)" "uc_id (f (uw_conns w ! k)) = uc_id (uw_conns w ! k)" "conn_ok (uw_activeConn w) k (f (uw_conns w ! k))"
  shows "worker_ok (upd_conn k f w)"
  using assms by (auto simp: worker_ok_def table_ok_def)

lemma deliver_ok: "worker_ok w \<Longrightarrow> k < length (uw_conns w) \<Longrightarrow> worker_ok (deliver k b w)"
proof -
  assume w: "worker_ok w" "k < length (uw_conns w)"
  have pool: "worker_ok (w\<lparr>uw_pool := pl\<rparr>)" for pl using w by (simp add: worker_ok_def table_ok_def)
  have pipe: "worker_ok (upd_conn k (\<lambda>c. c\<lparr>uc_pipe := p\<rparr>) v)" if "worker_ok v" "k < length (uw_conns v)" for p v
    using that by (intro worker_ok_upd) (auto simp: worker_ok_def conn_ok_def)
  show ?thesis using w pool pipe [of w] pipe [OF pool] by (auto simp: deliver_def Let_def split: prod.splits option.splits)
qed

lemma deliver_conns:
  "length (uw_conns (deliver k b w)) = length (uw_conns w)" "k < length (uw_conns w) \<Longrightarrow> fresh_ok now j (deliver k b w) = fresh_ok now j w"
  by (auto simp: deliver_def fresh_ok_def Let_def split: prod.splits option.splits)

lemma udpConn_Read_sel [simp]:
  "uc_id (udpConn_Read now c) = uc_id c" "uc_phase (udpConn_Read now c) = uc_phase c" "uc_done (udpConn_Read now c) = uc_done c" "uc_inactive (udpConn_Read now c) = uc_inactive c"
  by (simp_all add: udpConn_Read_def updateActivity_def split: prod.splits option.splits)

lemma udpConn_Write_sel [simp]:
  "uc_id (udpConn_Write now err c) = uc_id c" "uc_phase (udpConn_Write now err c) = uc_phase c" "uc_done (udpConn_Write now err c) = uc_done c"
  "uc_inactive (udpConn_Write now err c) = uc_inactive c"
  by (simp_all add: udpConn_Write_def updateActivity_def)

lemma getConnection_ok:
  assumes "worker_ok w" "getConnection now i w = (k, existing, w')" "case map_of (uw_activeConn w) i of None \<Rightarrow> True | Some j \<Rightarrow> \<not> uc_done (uw_conns w ! j)"
  shows "worker_ok w' \<and> (if existing then k < length (uw_conns w') else fresh_ok now k w')"
proof (cases "map_of (uw_activeConn w) i")
  case None
  let ?n = "length (uw_conns w)"
  have act: "AList.update i ?n (uw_activeConn w) = uw_activeConn w @ [(i, ?n)]" using None by (rule set_update_AList)
  have w': "w' = w\<lparr>uw_conns := uw_conns w @ [new_conn now i], uw_activeConn := uw_activeConn w @ [(i, ?n)]\<rparr>" "k = ?n" "\<not> existing"
    using assms(2) None act by (auto simp: getConnection_def)
  have "table_ok w'" using assms(1) None w'(1) by (auto simp: worker_ok_def table_ok_def nth_append new_conn_def map_of_eq_None_iff)
  moreover have "conn_ok (uw_activeConn w') j (uw_conns w' ! j)" if "j < length (uw_conns w')" for j
  proof (cases "j = ?n")
    case True
    then show ?thesis using None w'(1) by (simp add: conn_ok_def new_conn_def map_add_def)
  next
    case False
    then have "conn_ok (uw_activeConn w) j (uw_conns w ! j)" using that assms(1) w'(1) by (simp add: worker_ok_def)
    then show ?thesis using False that None w'(1) by (auto simp: conn_ok_def nth_append map_add_def split: option.splits)
  qed
  ultimately show ?thesis using w' by (auto simp: worker_ok_def fresh_ok_def new_conn_def)
next
  case (Some j)
  then have j: "j < length (uw_conns w)" "\<not> uc_done (uw_conns w ! j)" using assms(1,3) table_entry by (auto simp: worker_ok_def)
  have "worker_ok (upd_conn j (updateActivity now) w)" using assms(1) j(1) by (intro worker_ok_upd) (auto simp: worker_ok_def conn_ok_def updateActivity_def)
  then show ?thesis using assms(2) Some j by (auto simp: getConnection_def)
qed

lemma clean_conns:
  assumes "udp_clean now w = (None, w')"
  shows "length (uw_conns w') = length (uw_conns w)"
    and "k < length (uw_conns w) \<Longrightarrow> uw_conns w' ! k = clean_conn now w k"
    and "uw_activeConn w' = filter (\<lambda>(i, k). \<not> (conn_idle now w k \<and> \<not> uc_inactive (uw_conns w ! k))) (uw_activeConn w)"
  using assms by (auto simp: udp_clean_def split: if_splits)

lemma map_of_filter_keep:
  "distinct (map fst al) \<Longrightarrow> map_of al i = Some k \<Longrightarrow> P (i, k) \<Longrightarrow> map_of (filter P al) i = Some k"
  by (induction al) (auto simp: image_iff dest: map_of_SomeD)

lemma clean_ok:
  assumes "worker_ok w" "udp_clean now w = (None, w')"
  shows "worker_ok w'"
proof -
  note c = clean_conns [OF assms(2)]
  have t: "table_ok w" using assms(1) by (simp add: worker_ok_def)
  have ids: "uc_id (uw_conns w' ! k) = uc_id (uw_conns w ! k)" if "k < length (uw_conns w)" for k using c(2) [OF that] by (simp add: udpConn_Close_def clean_conn_def)
  have "table_ok w'" using t c(1,3) ids by (auto simp: table_ok_def distinct_map_filter)
  moreover have "conn_ok (uw_activeConn w') k (uw_conns w' ! k)" if k: "k < length (uw_conns w)" for k
  proof -
    let ?c = "uw_conns w ! k"
    have ok: "conn_ok (uw_activeConn w) k ?c" using assms(1) k by (simp add: worker_ok_def)
    have keep: "map_of (uw_activeConn w') (uc_id ?c) = Some k" if "map_of (uw_activeConn w) (uc_id ?c) = Some k" "\<not> conn_idle now w k \<or> uc_inactive ?c"
      unfolding c(3) using t that by (intro map_of_filter_keep) (auto simp: table_ok_def)
    have act: "map_of (uw_activeConn w) (uc_id ?c) = Some k \<Longrightarrow> k \<in> snd ` set (uw_activeConn w)" by (force dest: map_of_SomeD)
    show ?thesis
    proof (cases "conn_idle now w k \<and> k \<in> snd ` set (uw_activeConn w)")
      case True
      then show ?thesis using c(2) [OF k] ok keep by (simp add: conn_ok_def udpConn_Close_def clean_conn_def)
    next
      case False
      then show ?thesis using c(2) [OF k] ok keep act by (auto simp: conn_ok_def clean_conn_def)
    qed
  qed
  ultimately show ?thesis using c(1) by (simp add: worker_ok_def)
qed

lemma clean_fresh: "udp_clean now w = (None, w') \<Longrightarrow> fresh_ok now k w \<Longrightarrow> fresh_ok now k w'"
  using clean_conns(1,2) [of now w w'] by (auto simp: fresh_ok_def conn_idle_def clean_conn_def)

lemma clean_succeeds: "uw_activeConn w \<noteq> [] \<Longrightarrow> \<exists>w'. udp_clean now w = (None, w')"
  by (simp add: udp_clean_def)

lemma fresh_registered: "worker_ok w \<Longrightarrow> fresh_ok now k w \<Longrightarrow> uw_activeConn w \<noteq> []"
  by (auto simp: worker_ok_def conn_ok_def fresh_ok_def)

lemma tick_ok:
  assumes "worker_ok w" "receiver_ok now r w"
  shows "worker_ok (checker_tick now w) \<and> receiver_ok now r (checker_tick now w)"
proof (cases "uw_checker w \<and> uw_activeConn w \<noteq> []")
  case True
  then obtain w1 where w1: "udp_clean now w = (None, w1)" using clean_succeeds by blast
  then have "checker_tick now w = w1\<lparr>uw_checker := True\<rparr>" using True by (simp add: checker_tick_def)
  then show ?thesis using clean_ok [OF assms(1) w1] clean_fresh [OF w1] clean_conns(1) [OF w1] assms(2)
    by (auto simp: worker_ok_def table_ok_def receiver_ok_def fresh_ok_def split: receiver.splits if_splits)
next
  case False
  then show ?thesis using assms by (auto simp: checker_tick_def udp_clean_def worker_ok_def table_ok_def receiver_ok_def fresh_ok_def split: receiver.splits if_splits)
qed

lemma checker_Start_ok:
  assumes "worker_ok w" "fresh_ok now k w" "checker_Start now w = (err, w')"
  shows "err = None \<and> worker_ok w' \<and> fresh_ok now k w'"
proof (cases "uw_checker w")
  case False
  obtain w1 where w1: "udp_clean now w = (None, w1)" using clean_succeeds [OF fresh_registered [OF assms(1,2)]] by blast
  then have "err = None" "w' = w1\<lparr>uw_checker := True\<rparr>" using False assms(3) by (auto simp: checker_Start_def)
  then show ?thesis using clean_ok [OF assms(1) w1] clean_fresh [OF w1 assms(2)] by (auto simp: worker_ok_def table_ok_def fresh_ok_def)
qed (use assms in \<open>auto simp: checker_Start_def\<close>)

definition udp_ok :: "udp_system \<Rightarrow> bool" where
  "udp_ok s \<longleftrightarrow> worker_ok (us_worker s) \<and> receiver_ok (us_now s) (us_receiver s) (us_worker s)"

text \<open>The end of a goroutine touches no other connection, in particular not the one being made.\<close>

lemma receiver_ok_upd:
  assumes "receiver_ok now r w" "k < length (uw_conns w)" "uc_phase (uw_conns w ! k) \<noteq> Fresh"
  shows "receiver_ok now r (upd_conn k f w)"
  using assms by (auto simp: receiver_ok_def fresh_ok_def split: receiver.splits if_splits)

lemma removeConn_sel [simp]: "uw_conns (removeConn i w) = uw_conns w" "uw_activeConn (removeConn i w) = AList.delete i (uw_activeConn w)"
  by (simp_all add: removeConn_def)

lemma removeConn_ok:
  assumes "worker_ok w" "k < length (uw_conns w)" "uc_phase (uw_conns w ! k) = Removing"
  shows "worker_ok (upd_conn k (\<lambda>c. c\<lparr>uc_phase := Ended\<rparr>) (removeConn (uc_id (uw_conns w ! k)) w))"
proof -
  let ?i = "uc_id (uw_conns w ! k)" and ?f = "\<lambda>c. c\<lparr>uc_phase := Ended\<rparr>"
  let ?w' = "upd_conn k ?f (removeConn ?i w)"
  have reg: "map_of (uw_activeConn w) ?i = Some k" using assms by (auto simp: worker_ok_def conn_ok_def)
  have conns: "length (uw_conns ?w') = length (uw_conns w)" "uw_activeConn ?w' = AList.delete ?i (uw_activeConn w)"
      "uw_conns ?w' ! j = (if j = k then ?f (uw_conns w ! k) else uw_conns w ! j)" for j
    using assms(2) by simp_all
  have "table_ok ?w'" using assms(1) by (auto simp: worker_ok_def table_ok_def conns AList.delete_eq distinct_map_filter)
  moreover have "conn_ok (uw_activeConn ?w') j (uw_conns ?w' ! j)" if "j < length (uw_conns w)" for j
  proof (cases "j = k")
    case True
    then show ?thesis unfolding conns by (simp add: conn_ok_def)
  next
    case False
    have "conn_ok (uw_activeConn w) j (uw_conns w ! j)" using assms(1) that by (simp add: worker_ok_def)
    then show ?thesis unfolding conns using False reg by (auto simp: conn_ok_def delete_conv')
  qed
  ultimately show ?thesis by (simp add: worker_ok_def conns(1))
qed

lemma quiet_step_ok:
  assumes ok: "udp_ok s" and q: "quiet_event s e" and st: "udp_step s e s'"
  shows "udp_ok s'"
  using st
proof (cases rule: udp_step.cases)
  case (u_receive source dest k existing w b)
  then show ?thesis using getConnection_ok [of "us_worker s" "us_now s" "packet_id (uw_cone (us_worker s)) source dest" k existing w] ok q by (auto simp: udp_ok_def quiet_event_def receiver_ok_def)
next
  case (u_write k existing b)
  have k: "k < length (uw_conns (us_worker s))" using ok u_write by (auto simp: udp_ok_def receiver_ok_def fresh_ok_def split: if_splits)
  then show ?thesis using deliver_ok [OF _ k] deliver_conns [where k = k and b = b and w = "us_worker s"] ok u_write by (auto simp: udp_ok_def receiver_ok_def split: if_splits)
next
  case (u_start k err w)
  have "err = None" "worker_ok w" "fresh_ok (us_now s) k w" using checker_Start_ok [OF _ _ u_start(4)] ok u_start(3) by (auto simp: udp_ok_def receiver_ok_def)
  then show ?thesis using u_start worker_ok_upd [of w k "\<lambda>c. c\<lparr>uc_phase := Serving\<rparr>"] by (auto simp: udp_ok_def receiver_ok_def fresh_ok_def worker_ok_def conn_ok_def)
next
  case (u_read k)
  then show ?thesis using ok receiver_ok_upd [of "us_now s" "us_receiver s" "us_worker s" k] worker_ok_upd [of "us_worker s" k "udpConn_Read (us_now s)"]
    by (auto simp: udp_ok_def worker_ok_def conn_ok_def)
next
  case (u_send k err)
  then show ?thesis using ok receiver_ok_upd [of "us_now s" "us_receiver s" "us_worker s" k] worker_ok_upd [of "us_worker s" k "udpConn_Write (us_now s) err"]
    by (auto simp: udp_ok_def worker_ok_def conn_ok_def)
next
  case (u_ends k)
  then show ?thesis using ok receiver_ok_upd [of "us_now s" "us_receiver s" "us_worker s" k] worker_ok_upd [of "us_worker s" k "\<lambda>c. (udpConn_Close c)\<lparr>uc_phase := AfterClose\<rparr>"]
    by (auto simp: udp_ok_def worker_ok_def conn_ok_def udpConn_Close_def)
next
  case (u_checks k)
  let ?f = "\<lambda>c. if uc_inactive c then c\<lparr>uc_phase := Ended\<rparr> else c\<lparr>uc_inactive := True, uc_phase := Removing\<rparr>"
  have "worker_ok (upd_conn k ?f (us_worker s))" using ok u_checks by (intro worker_ok_upd) (auto simp: udp_ok_def worker_ok_def conn_ok_def)
  then show ?thesis using ok u_checks receiver_ok_upd [of "us_now s" "us_receiver s" "us_worker s" k ?f] by (simp add: udp_ok_def)
next
  case (u_removes k)
  have "receiver_ok (us_now s) (us_receiver s) (removeConn i (us_worker s))" for i
    using ok by (auto simp: udp_ok_def receiver_ok_def fresh_ok_def split: receiver.splits if_splits)
  then have "receiver_ok (us_now s) (us_receiver s) (upd_conn k f (removeConn i (us_worker s)))" for f i
    using u_removes by (intro receiver_ok_upd) simp_all
  then show ?thesis using removeConn_ok [of "us_worker s" k] ok u_removes by (simp add: udp_ok_def)
next
  case u_tick
  then show ?thesis using tick_ok [of "us_worker s" "us_now s" "us_receiver s"] ok by (simp add: udp_ok_def)
next
  case (u_later d)
  then show ?thesis using ok q by (auto simp: udp_ok_def quiet_event_def receiver_ok_def)
qed

lemma quiet_run_ok: "quiet_udp_run s es s' \<Longrightarrow> udp_ok s \<Longrightarrow> udp_ok s'"
  by (induction rule: quiet_udp_run.induct) (auto intro: quiet_step_ok)


section \<open>Runs that are not quiet\<close>

text \<open>The steps as a function of the event.\<close>

fun udp_exec :: "udp_event \<Rightarrow> udp_system \<Rightarrow> udp_system option" where
  "udp_exec (Receive source dest b) s =
     (if us_receiver s = Waiting
      then case getConnection (us_now s) (packet_id (uw_cone (us_worker s)) source dest) (us_worker s) of
             (k, existing, w) \<Rightarrow> Some (s\<lparr>us_worker := w, us_receiver := Writing k existing (packet_of dest b)\<rparr>) else None)"
| "udp_exec WritePacket s =
     (case us_receiver s of
        Writing k existing b \<Rightarrow> Some (s\<lparr>us_worker := deliver k b (us_worker s), us_receiver := (if existing then Waiting else Starting k)\<rparr>) | _ \<Rightarrow> None)"
| "udp_exec StartConn s =
     (case us_receiver s of
        Starting k \<Rightarrow>
          (case checker_Start (us_now s) (us_worker s) of (err, w) \<Rightarrow>
             Some (if err = None then s\<lparr>us_worker := upd_conn k (\<lambda>c. c\<lparr>uc_phase := Serving\<rparr>) w, us_receiver := Waiting\<rparr>
                   else s\<lparr>us_worker := w, us_receiver := Panicked\<rparr>))
      | _ \<Rightarrow> None)"
| "udp_exec (ConnRead k) s =
     (if k < length (uw_conns (us_worker s)) \<and> uc_phase (uw_conns (us_worker s) ! k) = Serving
      then Some (s\<lparr>us_worker := upd_conn k (udpConn_Read (us_now s)) (us_worker s)\<rparr>) else None)"
| "udp_exec (ConnWrite k err) s =
     (if k < length (uw_conns (us_worker s)) \<and> uc_phase (uw_conns (us_worker s) ! k) = Serving
      then Some (s\<lparr>us_worker := upd_conn k (udpConn_Write (us_now s) err) (us_worker s)\<rparr>) else None)"
| "udp_exec (ProcessEnds k) s =
     (if k < length (uw_conns (us_worker s)) \<and> uc_phase (uw_conns (us_worker s) ! k) = Serving
      then Some (s\<lparr>us_worker := upd_conn k (\<lambda>c. (udpConn_Close c)\<lparr>uc_phase := AfterClose\<rparr>) (us_worker s)\<rparr>) else None)"
| "udp_exec (EndCheck k) s =
     (if k < length (uw_conns (us_worker s)) \<and> uc_phase (uw_conns (us_worker s) ! k) = AfterClose
      then Some (s\<lparr>us_worker := upd_conn k (\<lambda>c. if uc_inactive c then c\<lparr>uc_phase := Ended\<rparr> else c\<lparr>uc_inactive := True, uc_phase := Removing\<rparr>) (us_worker s)\<rparr>) else None)"
| "udp_exec (EndRemove k) s =
     (if k < length (uw_conns (us_worker s)) \<and> uc_phase (uw_conns (us_worker s) ! k) = Removing
      then Some (s\<lparr>us_worker := upd_conn k (\<lambda>c. c\<lparr>uc_phase := Ended\<rparr>) (removeConn (uc_id (uw_conns (us_worker s) ! k)) (us_worker s))\<rparr>) else None)"
| "udp_exec Tick s = Some (s\<lparr>us_worker := checker_tick (us_now s) (us_worker s)\<rparr>)"
| "udp_exec (Later d) s = (if 0 \<le> d then Some (s\<lparr>us_now := us_now s + d\<rparr>) else None)"

lemma udp_exec_step: "udp_exec e s = Some s' \<Longrightarrow> udp_step s e s'"
proof (cases e)
  case WritePacket
  then show "udp_exec e s = Some s' \<Longrightarrow> ?thesis" using u_write [of s] by (auto split: receiver.splits)
next
  case StartConn
  then show "udp_exec e s = Some s' \<Longrightarrow> ?thesis" using u_start [of s] by (auto split: receiver.splits prod.splits)
qed (auto intro: udp_step.intros split: if_splits prod.splits)

fun udp_execs :: "udp_event list \<Rightarrow> udp_system \<Rightarrow> udp_system option" where
  "udp_execs [] s = Some s"
| "udp_execs (e # es) s = Option.bind (udp_exec e s) (udp_execs es)"

fun quiet_execs :: "udp_event list \<Rightarrow> udp_system \<Rightarrow> udp_system option" where
  "quiet_execs [] s = Some s"
| "quiet_execs (e # es) s = (if quiet_event s e then Option.bind (udp_exec e s) (quiet_execs es) else None)"

lemma udp_execs_run: "udp_run s0 fs s \<Longrightarrow> udp_execs es s = Some s' \<Longrightarrow> udp_run s0 (fs @ es) s'"
proof (induction es arbitrary: fs s)
  case (Cons e es)
  then obtain s1 where "udp_exec e s = Some s1" "udp_execs es s1 = Some s'" by (auto simp: bind_eq_Some_conv)
  then show ?case using Cons.IH [of "fs @ [e]" s1] run_snoc [OF Cons.prems(1) udp_exec_step] by simp
qed simp

lemma quiet_execs_run: "quiet_udp_run s0 fs s \<Longrightarrow> quiet_execs es s = Some s' \<Longrightarrow> quiet_udp_run s0 (fs @ es) s'"
proof (induction es arbitrary: fs s)
  case (Cons e es)
  then obtain s1 where "quiet_event s e" "udp_exec e s = Some s1" "quiet_execs es s1 = Some s'" by (auto simp: bind_eq_Some_conv split: if_splits)
  then show ?case using Cons.IH [of "fs @ [e]" s1] quiet_snoc [OF Cons.prems(1) _ udp_exec_step] by simp
qed simp

definition demo_source :: Destination where
  "demo_source = \<lparr>d_Address = Some (ipv4Address [10, 0, 0, 1]), d_Port = 5000, d_Network = Network_UDP\<rparr>"

abbreviation "demo_receive \<equiv> Receive demo_source zero_dest (FromBytes [] 0)"

lemma deliver_empty [simp]: "deliver k (packet_of zero_dest (FromBytes [] 0)) w = w"
  by (simp add: deliver_def packet_of_def zero_dest_def Destination_IsValid_def FromBytes_def IsEmpty_def Len_def buf_Len_def)

lemmas udp_eval = udp_start_def getConnection_def new_conn_def upd_conn_def checker_Start_def checker_tick_def udp_clean_def clean_conn_def
  conn_idle_def udpConn_Close_def removeConn_def updateActivity_def quiet_event_def


text \<open>
  A packet that arrives between the end of a connection and its removal makes the worker panic: it replaces the connection, the old goroutine removes the
  new one from the table, a tick of the checker finds no connection and stops, and starting the checker for the new connection returns an error.
\<close>

theorem udp_worker_can_panic:
  "\<exists>s. udp_run (udp_start True 0) [demo_receive, WritePacket, StartConn, ProcessEnds 0, EndCheck 0, demo_receive, EndRemove 0, Tick,
       WritePacket, StartConn] s \<and> us_receiver s = Panicked"
proof -
  have "\<exists>s. udp_execs [demo_receive, WritePacket, StartConn, ProcessEnds 0, EndCheck 0, demo_receive, EndRemove 0, Tick,
       WritePacket, StartConn] (udp_start True 0) = Some s \<and> us_receiver s = Panicked"
    by (simp add: udp_eval)
  then show ?thesis using udp_execs_run [OF run_nil] by fastforce
qed

text \<open>Without that tick the new connection is served, and the next packet of its source opens a third one.\<close>

lemma replaced_connection_lost:
  "\<exists>s. udp_run (udp_start True 0) [demo_receive, WritePacket, StartConn, ProcessEnds 0, EndCheck 0, demo_receive, EndRemove 0, WritePacket, StartConn] s
     \<and> uc_phase (uw_conns (us_worker s) ! 1) = Serving \<and> \<not> uc_done (uw_conns (us_worker s) ! 1) \<and> uw_activeConn (us_worker s) = []"
proof -
  have "\<exists>s. udp_execs [demo_receive, WritePacket, StartConn, ProcessEnds 0, EndCheck 0, demo_receive, EndRemove 0, WritePacket, StartConn] (udp_start True 0) = Some s
      \<and> uc_phase (uw_conns (us_worker s) ! 1) = Serving \<and> \<not> uc_done (uw_conns (us_worker s) ! 1) \<and> uw_activeConn (us_worker s) = []"
    by (simp add: udp_eval)
  then show ?thesis using udp_execs_run [OF run_nil] by fastforce
qed

section \<open>Loops\<close>

text \<open>A TCP connection that would come back to its own inbound is closed: the proxy gets no context whose target is the listening port of an address of this host.\<close>

lemma loop_not_served:
  assumes "tcp_callback isLocal hub NetAddr original source localaddr w = Some (Some ctx)" "last_ob ctx = Some ob" "Destination_IsValid (ob_Target ob)"
    "tw_address w = AnyIP" "d_Address (ob_Target ob) = Some a" "d_Port (ob_Target ob) = tw_port w"
  shows "\<not> isLocal (Address_IP a)"
  using assms by (auto simp: tcp_callback_def is_loopback_def worker_ctx_def last_ob_def zero_dest_def Destination_IsValid_def Let_def split: if_splits option.splits bool.splits)

end
