(* ===== verification/Spec2Isabelle.thy ===== *)
theory Spec2Isabelle
  imports Net_Text Pipe Buf_IO Addr_Codec Mux_Frame Mux_Handlers Timers Vless_Header Vision_IO Xudp Vless_Conn Dispatcher Vless_Inbound Freedom Core_Instance Outbound_Handler Udp_Worker
begin

text \<open>
  \<^bold>\<open>Verification of xray-core (Go, \<open>src/fork/xray-core\<close>).\<close>

  \<^bold>\<open>The program.\<close> Xray is a proxy. An inbound proxy (here VLESS) accepts connections of clients, authenticates them by the header of the
  request and gives a \<open>Link\<close>, a reader and a writer of chains of buffers, to the dispatcher. The dispatcher looks at the first bytes of the
  connection to find out the host, chooses an outbound handler by the tags of the router, and the handler (directly or over a mux
  connection) carries the bytes to their destination. An instance of the program is a registry of such features, which it creates from the configuration. Below all this lie pooled byte buffers, chains of them, readers and
  writers over them, and an in-memory pipe between goroutines; beside it timers that end idle connections.

  \<^bold>\<open>Theories and sources.\<close> Every theory opens with a text that says which files it models; paths are relative to \<open>src/fork/xray-core\<close>.
  \<^item> \<open>Xray_Prelude\<close>, \<open>Go_IO\<close>: bytes, slices, fixed-width integers, error values with their causes (\<open>common/errors\<close>), streams that deliver
    bytes in arbitrary pieces, and the contracts \<open>io_reader\<close> and \<open>io_writer\<close>.
  \<^item> \<open>Net_Address\<close>, \<open>Net_Text\<close>: \<open>common/net\<close>, addresses, ports, destinations, their parsers and printers.
  \<^item> \<open>Buffer\<close>, \<open>Multi_Buffer\<close>: \<open>common/buf/buffer.go\<close> and \<open>multi_buffer.go\<close>. A \<open>Buffer\<close> is the record of its array, cursors and flags; the pool of
    arrays is a list that the operations pass on.
  \<^item> \<open>Pipe\<close>: \<open>transport/pipe/pipe.go\<close> and \<open>common/signal/notifier.go\<close>, each locked section an operation and the goroutines a step relation.
  \<^item> \<open>Buf_IO\<close>: \<open>common/buf/reader.go\<close>, \<open>writer.go\<close>, \<open>copy.go\<close>, \<open>io.go\<close>, \<open>common/crypto/chunk.go\<close>.
  \<^item> \<open>Addr_Codec\<close>: \<open>common/protocol/address.go\<close>. \<open>Timers\<close>: \<open>common/task/periodic.go\<close>, \<open>common/signal/timer.go\<close>.
  \<^item> \<open>Mux_Frame\<close>, \<open>Mux_Session\<close>, \<open>Mux_Worker\<close>, \<open>Mux_Handlers\<close>: \<open>common/mux\<close>, frames on the wire, the session table, the client's workers
    and the frame loops of both ends. \<open>Xudp\<close>: \<open>common/xudp/xudp.go\<close>.
  \<^item> \<open>Vless_Users\<close>, \<open>Vless_Header\<close>, \<open>Vless_Conn\<close>: UUIDs, accounts and the validator, \<open>proxy/vless/encoding\<close>, and the encrypted connections of
    \<open>proxy/vless/encryption\<close>. \<open>Vless_Fallback\<close>, \<open>Vless_Inbound\<close>: \<open>proxy/vless/inbound/inbound.go\<close>, which puts these parts together.
  \<^item> \<open>Vision_Padding\<close>, \<open>Vision_IO\<close>: the Vision flow of \<open>proxy/proxy.go\<close>.
  \<^item> \<open>Sniffers\<close>, \<open>Quic_Sniff\<close>, \<open>Sniff_Loop\<close>: the sniffers of \<open>common/protocol\<close> and the sniffing loop of \<open>app/dispatcher\<close>.
  \<^item> \<open>Race_Dial\<close>, \<open>Dial\<close>: \<open>transport/internet/happy_eyeballs.go\<close>, \<open>dialer.go\<close> and \<open>config.go\<close>, from a destination to the addresses that are dialed.
  \<^item> \<open>Fragment\<close>, \<open>Freedom\<close>: the outbound \<open>proxy/freedom/freedom.go\<close> and the fragmenting connection of \<open>transport/internet/finalmask\<close>.
  \<^item> \<open>Outbound_Manager\<close>, \<open>Inbound_Manager\<close>, \<open>Policy\<close>, \<open>Dispatcher\<close>: \<open>app/proxyman/outbound/outbound.go\<close>, \<open>app/proxyman/inbound/inbound.go\<close>, \<open>app/policy\<close> and
    \<open>features/policy\<close>, \<open>app/dispatcher\<close>.
  \<^item> \<open>Core_Instance\<close>: \<open>core/xray.go\<close>, \<open>core/functions.go\<close> and \<open>common/type.go\<close>. \<open>Reverse\<close>: \<open>app/reverse\<close>, portal and bridge, over the Mux workers and the outbound manager.
  \<^item> \<open>Outbound_Handler\<close>: \<open>app/proxyman/outbound/handler.go\<close> and \<open>uot.go\<close>, between the dispatcher and an outbound proxy. \<open>Udp_Worker\<close>: \<open>app/proxyman/inbound/worker.go\<close>, the
    connection table of the UDP worker as a step relation over its locked sections, and the targets of TCP connections.

  \<^bold>\<open>State, errors, panics.\<close> Structs are records whose fields carry the Go names behind a short prefix; methods are functions that return the
  updated record. A Go result \<open>(value, error)\<close> is a pair with \<open>goerr option\<close>, or a sum where the code returns one or the other. \<open>None\<close> as
  the outer result is a panic (an index or slice out of range, a nil dereference) or a loop that does not return. Integers are
  words or integers cut by \<open>i32\<close> where the code computes in \<open>int32\<close>. Random numbers, clocks, ciphers, protobuf, regular expressions, the router,
  the fake DNS engine and the peer are arguments.

  \<^bold>\<open>Contracts.\<close> What a component promises to its clients is a locale: \<open>io_reader\<close>, \<open>io_writer\<close> (bytes), \<open>mb_reader\<close>, \<open>clean_mb_reader\<close>, \<open>mb_writer\<close>,
  \<open>layer_writer\<close> (chains of buffers), \<open>timeout_reader\<close> (a reader with a deadline), \<open>varint_reader\<close> (the integers of QUIC), \<open>fragment_writer\<close> (a writer that cuts its input, again an \<open>io_writer\<close>),
  \<open>handler_directory\<close> (both managers of handlers), \<open>feature_registry\<close> and its extension \<open>instance_builder\<close> (callbacks and constructors of the core). They are
  interpreted on the model's own readers and writers, and a sublocale turns each clean reader into a timed one by the goroutine of
  \<open>TimeoutWrapperReader\<close>; the properties about the dispatcher rest on these interpretations.

  \<^bold>\<open>What is shown.\<close>
  \<^item> Buffers: every sequence of operations keeps the cursors within the array; grown parts are zero; \<open>ReadFrom\<close>, \<open>Copy\<close> and the buffered writer end
    and keep the bytes and their order.
  \<^item> Pipe: in every interleaving the delivered bytes are a prefix of the written ones, end-of-file comes after all of them, and no wake-up is lost.
  \<^item> Wire formats: round trips of addresses, destinations as text, mux frames, VLESS headers and packets, XUDP packets, Vision padding and
    encrypted records, for every way the stream may be cut; the readers of peer data never panic unless a theorem says so.
  \<^item> State machines: mux sessions get distinct ids, idle connections are closed only when unused, the inactivity timer fires once, a
    frame for a dead session leaves the frame loop in step, the user table and the outbound table refine abstract directories.
  \<^item> Dispatcher: sniffing ends, loses no byte and cannot change port or network; a named outbound is used or nothing is.
  \<^item> VLESS inbound: the request of a user with an allowed flow is dispatched to its destination, nobody else's is; everybody else is handed to the
    fallback that a reference definition gives, with the stream from its first byte.
  \<^item> Dialing: the race of dials never panics, ends and leaves exactly one connection open; a forcing strategy never dials a name; fragments and segments
    carry the same stream; a UDP name keeps its address.
  \<^item> Core: a callback runs exactly once per request, when its features are there and not before; an instance that is returned has its essential features.
  \<^item> Reverse proxy: the portal picks the least loaded worker, announces the end of a worker once, and the bridge follows the last message and keeps an active worker.
  \<^item> Handlers and workers: a forcing target strategy passes on no name, a random local address lies in its network, a served UDP connection is found by its packets.
  \<^item> Errors of the code: theorems of kind \<open>error\<close> state what goes wrong on inputs the code does not handle.

  \<^bold>\<open>Loops and bounds.\<close> A loop whose end depends on its peer is a \<open>partial_function\<close> over \<open>option\<close>, and a theorem shows that it returns; the others are
  total functions. The sniffing loop runs over a list of rounds with the time each took; it is shown to end when these add up to its deadline.
  Streams are bounded by \<open>2 ^ 31\<close> bytes only where the code adds lengths in \<open>int32\<close>. There is no fuel.

  \<^bold>\<open>Not modelled.\<close> Sockets, the system dialer, listeners and TLS (\<open>transport/internet\<close>), which are system calls or third-party code; the configuration
  reader (\<open>infra/conf\<close>, \<open>core/config.go\<close>) and commands (\<open>main\<close>); logging (\<open>app/log\<close>, \<open>common/log\<close>); generated protobuf code; splice copies between
  sockets (\<open>CopyRawConnIfExist\<close>) and the constructors that only look at the dynamic type of a connection; the handshakes of
  \<open>proxy/vless/encryption\<close> up to the derived ciphers; the listeners of \<open>app/proxyman/inbound\<close>, its Unix socket
  worker and the handler that makes the workers (\<open>always.go\<close>).
\<close>

end
